(* ===== verification/Prelude.thy ===== *)
theory Prelude
  imports Complex_Main
begin

text \<open>
  What the components share: JavaScript numbers as the checks of the code see them
  (\<open>Number.isSafeInteger\<close>, \<open>Number.isFinite\<close>, comparisons in which \<open>NaN\<close> is never
  true), JSON-like values and the insertion-ordered objects that hold them, decimal
  printing and parsing, the character classes of the regular expressions the code uses,
  and the ordered \<open>Map\<close> of JavaScript as an association list.  The lemmas are declared
  into the simplifier or into \<open>js_simps\<close> so that the component proofs pick them up.
\<close>

named_theorems js_simps \<open>facts about JavaScript values, objects and strings\<close>

section \<open>Numbers\<close>

text \<open>
  A JavaScript number is a rational (every finite double is one; comparisons and the
  integer arithmetic below \<open>2 ^ 53\<close> are exact), an infinity or \<open>NaN\<close>.
\<close>

datatype jsnum = NaN | PosInf | NegInf | Num rat

definition MAX_SAFE :: int where
  "MAX_SAFE = 9007199254740991"

definition js_int :: "int \<Rightarrow> jsnum" where
  "js_int i = Num (of_int i)"

fun is_finite :: "jsnum \<Rightarrow> bool" where
  "is_finite (Num _) = True"
| "is_finite _ = False"

fun is_integer :: "jsnum \<Rightarrow> bool" where
  "is_integer (Num q) = (of_int \<lfloor>q\<rfloor> = q)"
| "is_integer _ = False"

fun int_of_jsnum :: "jsnum \<Rightarrow> int" where
  "int_of_jsnum (Num q) = \<lfloor>q\<rfloor>"
| "int_of_jsnum _ = 0"

definition is_safe_integer :: "jsnum \<Rightarrow> bool" where
  "is_safe_integer n = (is_integer n \<and> \<bar>int_of_jsnum n\<bar> \<le> MAX_SAFE)"

definition safe_int :: "int \<Rightarrow> bool" where
  "safe_int i = (\<bar>i\<bar> \<le> MAX_SAFE)"

fun js_lt :: "jsnum \<Rightarrow> jsnum \<Rightarrow> bool" where
  "js_lt NaN _ = False"
| "js_lt _ NaN = False"
| "js_lt PosInf _ = False"
| "js_lt _ PosInf = True"
| "js_lt _ NegInf = False"
| "js_lt NegInf _ = True"
| "js_lt (Num a) (Num b) = (a < b)"

fun js_le :: "jsnum \<Rightarrow> jsnum \<Rightarrow> bool" where
  "js_le NaN _ = False"
| "js_le _ NaN = False"
| "js_le _ PosInf = True"
| "js_le NegInf _ = True"
| "js_le PosInf _ = False"
| "js_le _ NegInf = False"
| "js_le (Num a) (Num b) = (a \<le> b)"

lemma is_integer_js_int [simp]: "is_integer (js_int i)"
  by (simp add: js_int_def)

lemma int_of_js_int [simp]: "int_of_jsnum (js_int i) = i"
  by (simp add: js_int_def)

lemma is_finite_js_int [simp]: "is_finite (js_int i)"
  by (simp add: js_int_def)

lemma is_safe_integer_js_int [simp]: "is_safe_integer (js_int i) = safe_int i"
  by (simp add: is_safe_integer_def safe_int_def)

lemma js_lt_js_int [simp]: "js_lt (js_int i) (js_int j) = (i < j)"
  by (simp add: js_int_def)

lemma js_le_js_int [simp]: "js_le (js_int i) (js_int j) = (i \<le> j)"
  by (simp add: js_int_def)

lemma js_int_inject [simp]: "js_int i = js_int j \<longleftrightarrow> i = j"
  by (simp add: js_int_def)

lemma is_integer_iff: "is_integer n = (\<exists>i. n = js_int i)"
proof (cases n)
  case (Num q)
  have "of_int \<lfloor>q\<rfloor> = q \<Longrightarrow> \<exists>i. q = of_int i" by metis
  then show ?thesis using Num by (auto simp: js_int_def)
qed (auto simp: js_int_def)

lemma is_safe_integer_iff: "is_safe_integer n = (\<exists>i. n = js_int i \<and> safe_int i)"
  by (auto simp: is_safe_integer_def is_integer_iff safe_int_def)

lemma is_safe_integerE:
  assumes "is_safe_integer n"
  obtains i where "n = js_int i" "safe_int i"
  using assms by (auto simp: is_safe_integer_iff)

section \<open>Decimal numerals\<close>

fun show_nat :: "nat \<Rightarrow> string" where
  "show_nat n = (if n < 10 then [char_of (48 + n)]
                 else show_nat (n div 10) @ [char_of (48 + n mod 10)])"

declare show_nat.simps [simp del]

definition show_int :: "int \<Rightarrow> string" where
  "show_int i = (if i < 0 then CHR ''-'' # show_nat (nat (- i)) else show_nat (nat i))"

definition is_digit :: "char \<Rightarrow> bool" where
  "is_digit c = (48 \<le> (of_char c :: nat) \<and> (of_char c :: nat) \<le> 57)"

definition digit_val :: "char \<Rightarrow> nat" where
  "digit_val c = of_char c - 48"

definition parse_nat :: "string \<Rightarrow> nat" where
  "parse_nat cs = foldl (\<lambda>acc c. 10 * acc + digit_val c) 0 cs"

definition all_digits :: "string \<Rightarrow> bool" where
  "all_digits cs = (cs \<noteq> [] \<and> list_all is_digit cs)"

lemma digit_char [simp]:
  assumes "d < 10"
  shows "is_digit (char_of (48 + d))" and "digit_val (char_of (48 + d)) = d"
proof -
  have "(of_char (char_of (48 + d) :: char) :: nat) = 48 + d"
    using assms by (simp add: take_bit_eq_mod)
  then show "is_digit (char_of (48 + d))" and "digit_val (char_of (48 + d)) = d"
    using assms by (simp_all add: is_digit_def digit_val_def)
qed

lemma parse_nat_snoc: "parse_nat (cs @ [c]) = 10 * parse_nat cs + digit_val c"
  by (simp add: parse_nat_def)

lemma all_digits_show_nat [simp]: "all_digits (show_nat n)"
proof (induction n rule: show_nat.induct)
  case (1 n)
  then show ?case
    by (cases "n < 10") (simp_all add: show_nat.simps [of n] all_digits_def)
qed

lemma parse_show_nat [simp]: "parse_nat (show_nat n) = n"
proof (induction n rule: show_nat.induct)
  case (1 n)
  show ?case
  proof (cases "n < 10")
    case True
    then show ?thesis by (simp add: show_nat.simps [of n] parse_nat_def)
  next
    case False
    with "1.IH" show ?thesis by (simp add: show_nat.simps [of n] parse_nat_snoc)
  qed
qed

lemma show_nat_inj: "show_nat a = show_nat b \<Longrightarrow> a = b"
  by (metis parse_show_nat)

lemma show_nat_not_Nil [simp]: "show_nat n \<noteq> []"
  using all_digits_show_nat [of n] by (auto simp: all_digits_def)

section \<open>Character classes and prefixes\<close>

definition is_lower_hex :: "char \<Rightarrow> bool" where
  "is_lower_hex c = (is_digit c \<or> (97 \<le> (of_char c :: nat) \<and> (of_char c :: nat) \<le> 102))"

definition is_lower :: "char \<Rightarrow> bool" where
  "is_lower c = (97 \<le> (of_char c :: nat) \<and> (of_char c :: nat) \<le> 122)"

definition is_upper :: "char \<Rightarrow> bool" where
  "is_upper c = (65 \<le> (of_char c :: nat) \<and> (of_char c :: nat) \<le> 90)"

definition strip_prefix :: "string \<Rightarrow> string \<Rightarrow> string option" where
  "strip_prefix p s = (if take (length p) s = p then Some (drop (length p) s) else None)"

lemma strip_prefix_append [simp]: "strip_prefix p (p @ s) = Some s"
  by (simp add: strip_prefix_def)

lemma strip_prefix_Some_iff: "strip_prefix p s = Some r \<longleftrightarrow> s = p @ r"
proof
  assume "strip_prefix p s = Some r"
  then have "take (length p) s = p" and "drop (length p) s = r"
    by (auto simp: strip_prefix_def split: if_splits)
  then show "s = p @ r" by (metis append_take_drop_id)
qed simp

text \<open>\<open>/^sha256:[a-f\d]{64}$/\<close>, used wherever a runtime image digest is checked.\<close>

definition is_sha256_hex :: "string \<Rightarrow> bool" where
  "is_sha256_hex s = (length s = 64 \<and> list_all is_lower_hex s)"

definition is_image_digest :: "string \<Rightarrow> bool" where
  "is_image_digest s =
     (case strip_prefix ''sha256:'' s of None \<Rightarrow> False | Some r \<Rightarrow> is_sha256_hex r)"

text \<open>\<open>/^room-(\d+)$/\<close> and \<open>Number(match[1])\<close>.\<close>

definition room_ordinal :: "string \<Rightarrow> nat option" where
  "room_ordinal s =
     (case strip_prefix ''room-'' s of
        None \<Rightarrow> None
      | Some ds \<Rightarrow> if all_digits ds then Some (parse_nat ds) else None)"

definition room_id_of :: "nat \<Rightarrow> string" where
  "room_id_of n = ''room-'' @ show_nat n"

lemma room_ordinal_room_id [simp]: "room_ordinal (room_id_of n) = Some n"
proof -
  have "strip_prefix ''room-'' (''room-'' @ show_nat n) = Some (show_nat n)"
    by (rule strip_prefix_append)
  then show ?thesis by (simp add: room_ordinal_def room_id_of_def)
qed

section \<open>JSON-like values and objects\<close>

text \<open>
  \<open>Record<string, unknown>\<close>: an object is the list of its own properties in insertion
  order.  Assigning an existing property keeps its place, as JavaScript does.
\<close>

datatype jv = JUndef | JNull | JBool bool | JNum jsnum | JStr string
  | JArr "jv list" | JObj "(string \<times> jv) list"

type_synonym obj = "(string \<times> jv) list"

fun oput :: "'k \<Rightarrow> 'v \<Rightarrow> ('k \<times> 'v) list \<Rightarrow> ('k \<times> 'v) list" where
  "oput k v [] = [(k, v)]"
| "oput k v ((k', v') # kvs) = (if k = k' then (k, v) # kvs else (k', v') # oput k v kvs)"

definition odel :: "'k \<Rightarrow> ('k \<times> 'v) list \<Rightarrow> ('k \<times> 'v) list" where
  "odel k kvs = filter (\<lambda>kv. fst kv \<noteq> k) kvs"

definition oget :: "obj \<Rightarrow> string \<Rightarrow> jv" where
  "oget kvs k = (case map_of kvs k of None \<Rightarrow> JUndef | Some v \<Rightarrow> v)"

fun ospread :: "('k \<times> 'v) list \<Rightarrow> ('k \<times> 'v) list \<Rightarrow> ('k \<times> 'v) list" where
  "ospread base [] = base"
| "ospread base ((k, v) # kvs) = ospread (oput k v base) kvs"

lemma map_of_oput [simp]: "map_of (oput k v kvs) = (map_of kvs)(k \<mapsto> v)"
  by (induction kvs) auto

lemma map_of_odel [simp]: "map_of (odel k kvs) = (map_of kvs)(k := None)"
proof
  fix x
  show "map_of (odel k kvs) x = ((map_of kvs)(k := None)) x"
    unfolding odel_def by (induction kvs) auto
qed

lemma map_of_ospread [simp]:
  "distinct (map fst new) \<Longrightarrow> map_of (ospread base new) = map_of base ++ map_of new"
proof (induction base new rule: ospread.induct)
  case (2 base k v kvs)
  then show ?case
    by (auto simp: map_add_def fun_eq_iff map_of_eq_None_iff split: option.splits)
qed simp

lemma oget_oput [simp]: "oget (oput k v kvs) k' = (if k' = k then v else oget kvs k')"
  by (simp add: oget_def)

lemma oput_same: "map_of kvs k = Some v \<Longrightarrow> oput k v kvs = kvs"
  by (induction kvs) (auto split: if_splits)

lemma keys_oput: "fst ` set (oput k v kvs) = insert k (fst ` set kvs)"
  by (induction k v kvs rule: oput.induct) (simp_all add: insert_commute)

lemma set_oput: "set (oput k v kvs) \<subseteq> insert (k, v) (set kvs)"
  by (induction kvs) (auto split: if_splits)

lemma distinct_oput [simp]: "distinct (map fst kvs) \<Longrightarrow> distinct (map fst (oput k v kvs))"
proof (induction kvs)
  case (Cons a kvs)
  obtain k' v' where a: "a = (k', v')" by (cases a)
  have "fst ` set (oput k v kvs) = insert k (fst ` set kvs)" by (rule keys_oput)
  with Cons a show ?case by auto
qed simp

lemma distinct_odel [simp]: "distinct (map fst kvs) \<Longrightarrow> distinct (map fst (odel k kvs))"
  by (induction kvs) (auto simp: odel_def)

lemma oput_fresh: "k \<notin> fst ` set kvs \<Longrightarrow> oput k v kvs = kvs @ [(k, v)]"
  by (induction kvs) auto

lemma odel_hd: "distinct (map fst ((k, v) # kvs)) \<Longrightarrow> odel k ((k, v) # kvs) = kvs"
  by (auto simp: odel_def intro: filter_True)

lemma oput_Nil_iff [simp]: "oput k v kvs \<noteq> []"
  by (cases kvs) (auto split: if_splits)

section \<open>Truthiness\<close>

fun truthy :: "jv \<Rightarrow> bool" where
  "truthy JUndef = False"
| "truthy JNull = False"
| "truthy (JBool b) = b"
| "truthy (JNum n) = (n \<noteq> NaN \<and> n \<noteq> Num 0)"
| "truthy (JStr s) = (s \<noteq> [])"
| "truthy (JArr _) = True"
| "truthy (JObj _) = True"

definition opt_str :: "string option \<Rightarrow> jv" where
  "opt_str x = (case x of None \<Rightarrow> JUndef | Some s \<Rightarrow> JStr s)"

lemmas js_value_simps = oget_def opt_str_def

declare js_value_simps [js_simps]

end
