(* ===== verification/Effects.thy ===== *)
theory Effects
  imports Prelude
begin

text \<open>
  The asynchronous methods of the services as state transformers that may throw: a
  computation takes the state, and returns the thrown error or the value together with
  the new state.  What an exception leaves changed stays changed, as in the code.  The
  weakest precondition \<open>wp\<close> turns a method into its verification condition by
  simplification: every combinator has one equation in the simpset.
\<close>

type_synonym ('s, 'e, 'a) eff = "'s \<Rightarrow> ('e + 'a) \<times> 's"

definition ret :: "'a \<Rightarrow> ('s, 'e, 'a) eff" where
  "ret a = (\<lambda>s. (Inr a, s))"

definition throwE :: "'e \<Rightarrow> ('s, 'e, 'a) eff" where
  "throwE e = (\<lambda>s. (Inl e, s))"

definition bindE :: "('s, 'e, 'a) eff \<Rightarrow> ('a \<Rightarrow> ('s, 'e, 'b) eff) \<Rightarrow> ('s, 'e, 'b) eff" where
  "bindE m f = (\<lambda>s. case m s of (Inl e, s') \<Rightarrow> (Inl e, s') | (Inr a, s') \<Rightarrow> f a s')"

definition thenE :: "('s, 'e, 'a) eff \<Rightarrow> ('s, 'e, 'b) eff \<Rightarrow> ('s, 'e, 'b) eff" where
  "thenE m n = bindE m (\<lambda>_. n)"

definition getsE :: "('s \<Rightarrow> 'a) \<Rightarrow> ('s, 'e, 'a) eff" where
  "getsE f = (\<lambda>s. (Inr (f s), s))"

definition modifyE :: "('s \<Rightarrow> 's) \<Rightarrow> ('s, 'e, unit) eff" where
  "modifyE f = (\<lambda>s. (Inr (), f s))"

definition guardE :: "bool \<Rightarrow> 'e \<Rightarrow> ('s, 'e, unit) eff" where
  "guardE b e = (if b then ret () else throwE e)"

definition catchE :: "('s, 'e, 'a) eff \<Rightarrow> ('e \<Rightarrow> ('s, 'e, 'a) eff) \<Rightarrow> ('s, 'e, 'a) eff" where
  "catchE m h = (\<lambda>s. case m s of (Inl e, s') \<Rightarrow> h e s' | (Inr a, s') \<Rightarrow> (Inr a, s'))"

text \<open>\<open>try { m } finally { f }\<close> where the finally block only updates the state.\<close>

definition finallyE :: "('s, 'e, 'a) eff \<Rightarrow> ('s \<Rightarrow> 's) \<Rightarrow> ('s, 'e, 'a) eff" where
  "finallyE m f = (\<lambda>s. case m s of (r, s') \<Rightarrow> (r, f s'))"

text \<open>\<open>m.catch(() => undefined)\<close>: run for its effects, ignore the error.\<close>

definition ignoreE :: "('s, 'e, 'a) eff \<Rightarrow> ('s, 'e, unit) eff" where
  "ignoreE m = (\<lambda>s. (Inr (), snd (m s)))"

text \<open>Run a computation on one component of the state.\<close>

definition zoomE :: "('s \<Rightarrow> 't) \<Rightarrow> ('t \<Rightarrow> 's \<Rightarrow> 's) \<Rightarrow> ('t, 'e, 'a) eff \<Rightarrow> ('s, 'e, 'a) eff" where
  "zoomE g p m = (\<lambda>s. case m (g s) of (r, t) \<Rightarrow> (r, p t s))"

fun forE :: "'x list \<Rightarrow> ('x \<Rightarrow> ('s, 'e, unit) eff) \<Rightarrow> ('s, 'e, unit) eff" where
  "forE [] f = ret ()"
| "forE (x # xs) f = thenE (f x) (forE xs f)"

section \<open>Thrown values\<close>

text \<open>
  What a promise can reject with: an \<open>Error\<close> with its message, the handoff's
  \<open>RoomCutoverCommittedError\<close> with the epoch the Gateway committed, or a value that is
  not an \<open>Error\<close>.  \<open>OutOfFuel\<close> is no value of the code: a polling loop of the model whose step
  budget ended yields it, and the loops' lemmas show how much budget is enough.
\<close>

datatype exn = Err string | CutoverCommitted string int | NotAnError | OutOfFuel

text \<open>\<open>error instanceof Error ? error.message : fallback\<close>\<close>

fun message_or :: "string \<Rightarrow> exn \<Rightarrow> string" where
  "message_or fallback (Err m) = m"
| "message_or fallback (CutoverCommitted m _) = m"
| "message_or fallback NotAnError = fallback"
| "message_or fallback OutOfFuel = fallback"

section \<open>Weakest preconditions\<close>

definition wp :: "('s, 'e, 'a) eff \<Rightarrow> ('a \<Rightarrow> 's \<Rightarrow> bool) \<Rightarrow> ('e \<Rightarrow> 's \<Rightarrow> bool) \<Rightarrow> 's \<Rightarrow> bool" where
  "wp m Q E s = (case m s of (Inr a, s') \<Rightarrow> Q a s' | (Inl e, s') \<Rightarrow> E e s')"

lemma wp_ret [simp]: "wp (ret a) Q E s = Q a s"
  by (simp add: wp_def ret_def)

lemma wp_throwE [simp]: "wp (throwE e) Q E s = E e s"
  by (simp add: wp_def throwE_def)

lemma wp_bindE [simp]: "wp (bindE m f) Q E s = wp m (\<lambda>a. wp (f a) Q E) E s"
  by (simp add: wp_def bindE_def split: prod.splits sum.splits)

lemma wp_thenE [simp]: "wp (thenE m n) Q E s = wp m (\<lambda>_. wp n Q E) E s"
  by (simp add: thenE_def)

lemma wp_getsE [simp]: "wp (getsE f) Q E s = Q (f s) s"
  by (simp add: wp_def getsE_def)

lemma wp_modifyE [simp]: "wp (modifyE f) Q E s = Q () (f s)"
  by (simp add: wp_def modifyE_def)

lemma wp_guardE [simp]: "wp (guardE b e) Q E s = (if b then Q () s else E e s)"
  by (simp add: guardE_def)

lemma wp_catchE [simp]: "wp (catchE m h) Q E s = wp m Q (\<lambda>e. wp (h e) Q E) s"
  by (simp add: wp_def catchE_def split: prod.splits sum.splits)

lemma wp_finallyE [simp]:
  "wp (finallyE m f) Q E s = wp m (\<lambda>a s'. Q a (f s')) (\<lambda>e s'. E e (f s')) s"
  by (simp add: wp_def finallyE_def split: prod.splits sum.splits)

lemma wp_ignoreE [simp]: "wp (ignoreE m) Q E s = wp m (\<lambda>_. Q ()) (\<lambda>_. Q ()) s"
  by (simp add: wp_def ignoreE_def split: prod.splits sum.splits)

lemma wp_zoomE [simp]:
  "wp (zoomE g p m) Q E s = wp m (\<lambda>a t. Q a (p t s)) (\<lambda>e t. E e (p t s)) (g s)"
  by (simp add: wp_def zoomE_def split: prod.splits sum.splits)

lemma wp_if [simp]: "wp (if b then m else n) Q E s = (if b then wp m Q E s else wp n Q E s)"
  by simp

lemma wp_mono:
  assumes "wp m Q E s"
    and "\<And>a s'. Q a s' \<Longrightarrow> Q' a s'" and "\<And>e s'. E e s' \<Longrightarrow> E' e s'"
  shows "wp m Q' E' s"
  using assms by (auto simp: wp_def split: prod.splits sum.splits)

lemma wp_conj:
  "wp m (\<lambda>a s'. Q a s' \<and> Q' a s') (\<lambda>e s'. E e s' \<and> E' e s') s = (wp m Q E s \<and> wp m Q' E' s)"
  by (auto simp: wp_def split: prod.splits sum.splits)

lemma wp_True [simp]: "wp m (\<lambda>_ _. True) (\<lambda>_ _. True) s"
  by (auto simp: wp_def split: prod.splits sum.splits)

lemma wp_InrD: "wp m Q E s \<Longrightarrow> m s = (Inr a, s') \<Longrightarrow> Q a s'"
  by (simp add: wp_def)

lemma wp_InlD: "wp m Q E s \<Longrightarrow> m s = (Inl e, s') \<Longrightarrow> E e s'"
  by (simp add: wp_def)

lemma wp_returns:
  assumes "wp m Q (\<lambda>_ _. False) s"
  obtains a s' where "m s = (Inr a, s')" "Q a s'"
proof (cases "m s")
  case (Pair r s')
  then show ?thesis using assms that by (cases r) (simp_all add: wp_def)
qed

lemma wp_throws:
  assumes "wp m (\<lambda>_ _. False) E s"
  obtains e s' where "m s = (Inl e, s')" "E e s'"
proof (cases "m s")
  case (Pair r s')
  then show ?thesis using assms that by (cases r) (simp_all add: wp_def)
qed

lemma wp_sndD: "wp m (\<lambda>_. I) (\<lambda>_. I) s \<Longrightarrow> I (snd (m s))"
  by (auto simp: wp_def split: prod.splits sum.splits)

lemma wp_snd_iff: "wp m (\<lambda>_. I) (\<lambda>_. I) s = I (snd (m s))"
  by (auto simp: wp_def split: prod.splits sum.splits)

section \<open>Invariants of computations\<close>

definition keeps :: "('s \<Rightarrow> bool) \<Rightarrow> ('s, 'e, 'a) eff \<Rightarrow> bool" where
  "keeps I m = (\<forall>s. I s \<longrightarrow> I (snd (m s)))"

named_theorems keeps_intros \<open>composition rules for invariants of computations\<close>

lemma keepsI: "(\<And>s. I s \<Longrightarrow> wp m (\<lambda>_. I) (\<lambda>_. I) s) \<Longrightarrow> keeps I m"
  by (simp add: keeps_def wp_snd_iff)

lemma keepsD: "keeps I m \<Longrightarrow> I s \<Longrightarrow> I (snd (m s))"
  by (simp add: keeps_def)

lemma keeps_wp: "keeps I m \<Longrightarrow> I s \<Longrightarrow> wp m (\<lambda>_. I) (\<lambda>_. I) s"
  by (simp add: keeps_def wp_snd_iff)

lemma keeps_ret [keeps_intros]: "keeps I (ret a)"
  by (simp add: keeps_def ret_def)

lemma keeps_throwE [keeps_intros]: "keeps I (throwE e)"
  by (simp add: keeps_def throwE_def)

lemma keeps_getsE [keeps_intros]: "keeps I (getsE f)"
  by (simp add: keeps_def getsE_def)

lemma keeps_guardE [keeps_intros]: "keeps I (guardE b e)"
  by (simp add: guardE_def keeps_ret keeps_throwE)

lemma keeps_bindE [keeps_intros]:
  assumes "keeps I m" and "\<And>a. keeps I (f a)"
  shows "keeps I (bindE m f)"
proof (rule keepsI)
  fix s assume "I s"
  then have "wp m (\<lambda>_. I) (\<lambda>_. I) s" by (rule keeps_wp [OF assms(1)])
  then show "wp (bindE m f) (\<lambda>_. I) (\<lambda>_. I) s"
    using assms(2) by (auto elim!: wp_mono simp: keeps_wp)
qed

lemma keeps_thenE [keeps_intros]: "keeps I m \<Longrightarrow> keeps I n \<Longrightarrow> keeps I (thenE m n)"
  by (simp add: thenE_def keeps_bindE)

lemma keeps_catchE [keeps_intros]:
  assumes "keeps I m" and "\<And>e. keeps I (h e)"
  shows "keeps I (catchE m h)"
proof (rule keepsI)
  fix s assume "I s"
  then have "wp m (\<lambda>_. I) (\<lambda>_. I) s" by (rule keeps_wp [OF assms(1)])
  then show "wp (catchE m h) (\<lambda>_. I) (\<lambda>_. I) s"
    using assms(2) by (auto elim!: wp_mono simp: keeps_wp)
qed

lemma keeps_ignoreE [keeps_intros]: "keeps I m \<Longrightarrow> keeps I (ignoreE m)"
  by (simp add: keeps_def ignoreE_def)

lemma keeps_finallyE [keeps_intros]:
  "keeps I m \<Longrightarrow> (\<And>s. I s \<Longrightarrow> I (f s)) \<Longrightarrow> keeps I (finallyE m f)"
  by (auto simp: keeps_def finallyE_def split: prod.splits)

lemma keeps_if [keeps_intros]:
  "keeps I m \<Longrightarrow> keeps I n \<Longrightarrow> keeps I (if b then m else n)"
  by simp

lemma keeps_forE [keeps_intros]: "(\<And>x. x \<in> set xs \<Longrightarrow> keeps I (f x)) \<Longrightarrow> keeps I (forE xs f)"
  by (induction xs) (simp_all add: keeps_ret keeps_thenE)

end
