(* ===== verification/OpEvents.thy ===== *)
theory OpEvents
  imports Effects
begin

text \<open>
  The operation event ledger of the room orchestrator
  (\<open>services/room-orchestrator/src/events.ts\<close>): the event data, cursor queries, the
  projection of an event to the Opsia wire format, the in-memory and Redis transports as
  far as they are this repository's code, and the publisher that numbers events, chains
  their causation and notifies listeners.  The transports' outbox is in \<open>Outbox\<close>.
\<close>

section \<open>Events\<close>

datatype subject =
    GitRevisionObserved | ManifestRendered | ReleasePolicyEvaluated | CanaryScheduled
  | CanaryReady | ValidationLoadStarted | MetricGateEvaluated | PromotionBlocked
  | PromotionApproved | SnapshotSaveStarted | SnapshotSaveCompleted | SnapshotSaveCoalesced
  | SnapshotBacklogDetected | MemoryPressureObserved | ContainerOOMKilled
  | EvidenceBundleSealed | RoomCandidateScheduled | RoomCandidateReady | RoomSnapshotSeeded
  | RoomJournalCaughtUp | RoomChecksumMatched | RoomChecksumMismatched | RoomEpochFenced
  | RoomGatewayCutover | RoomInputReplayCompleted | RoomPostVerificationCompleted
  | RoomOldPodDrained | RoomHandoffFailed | SafePrMerged | GitOpsRevisionObserved
  | RolloutWaveStarted | RolloutWaveCompleted | RolloutWaveBlocked | PostVerificationCompleted

text \<open>The subject as the string the code compares and prints.\<close>

fun subject_name :: "subject \<Rightarrow> string" where
  "subject_name GitRevisionObserved = ''GitRevisionObserved''"
| "subject_name ManifestRendered = ''ManifestRendered''"
| "subject_name ReleasePolicyEvaluated = ''ReleasePolicyEvaluated''"
| "subject_name CanaryScheduled = ''CanaryScheduled''"
| "subject_name CanaryReady = ''CanaryReady''"
| "subject_name ValidationLoadStarted = ''ValidationLoadStarted''"
| "subject_name MetricGateEvaluated = ''MetricGateEvaluated''"
| "subject_name PromotionBlocked = ''PromotionBlocked''"
| "subject_name PromotionApproved = ''PromotionApproved''"
| "subject_name SnapshotSaveStarted = ''SnapshotSaveStarted''"
| "subject_name SnapshotSaveCompleted = ''SnapshotSaveCompleted''"
| "subject_name SnapshotSaveCoalesced = ''SnapshotSaveCoalesced''"
| "subject_name SnapshotBacklogDetected = ''SnapshotBacklogDetected''"
| "subject_name MemoryPressureObserved = ''MemoryPressureObserved''"
| "subject_name ContainerOOMKilled = ''ContainerOOMKilled''"
| "subject_name EvidenceBundleSealed = ''EvidenceBundleSealed''"
| "subject_name RoomCandidateScheduled = ''RoomCandidateScheduled''"
| "subject_name RoomCandidateReady = ''RoomCandidateReady''"
| "subject_name RoomSnapshotSeeded = ''RoomSnapshotSeeded''"
| "subject_name RoomJournalCaughtUp = ''RoomJournalCaughtUp''"
| "subject_name RoomChecksumMatched = ''RoomChecksumMatched''"
| "subject_name RoomChecksumMismatched = ''RoomChecksumMismatched''"
| "subject_name RoomEpochFenced = ''RoomEpochFenced''"
| "subject_name RoomGatewayCutover = ''RoomGatewayCutover''"
| "subject_name RoomInputReplayCompleted = ''RoomInputReplayCompleted''"
| "subject_name RoomPostVerificationCompleted = ''RoomPostVerificationCompleted''"
| "subject_name RoomOldPodDrained = ''RoomOldPodDrained''"
| "subject_name RoomHandoffFailed = ''RoomHandoffFailed''"
| "subject_name SafePrMerged = ''SafePrMerged''"
| "subject_name GitOpsRevisionObserved = ''GitOpsRevisionObserved''"
| "subject_name RolloutWaveStarted = ''RolloutWaveStarted''"
| "subject_name RolloutWaveCompleted = ''RolloutWaveCompleted''"
| "subject_name RolloutWaveBlocked = ''RolloutWaveBlocked''"
| "subject_name PostVerificationCompleted = ''PostVerificationCompleted''"

record op_event =
  ev_id :: string
  ev_subject :: subject
  ev_source :: string
  ev_workspace :: string
  ev_correlation :: string
  ev_causation :: "string option"
  ev_created_at :: string
  ev_sequence :: int
  ev_payload :: obj

section \<open>Cursor queries\<close>

record event_query =
  q_operation :: "string option"
  q_after :: "jsnum option"
  q_limit :: "jsnum option"

record normal_query =
  nq_operation :: string
  nq_after :: int
  nq_limit :: int

definition normalizeEventQuery :: "event_query \<Rightarrow> string + normal_query" where
  "normalizeEventQuery q =
     (let after = (case q_after q of None \<Rightarrow> js_int 0 | Some a \<Rightarrow> a);
          lim = (case q_limit q of None \<Rightarrow> js_int 200 | Some l \<Rightarrow> l)
      in if \<not> is_safe_integer after \<or> js_lt after (js_int 0) then Inl ''invalid_event_cursor''
         else if \<not> is_safe_integer lim \<or> js_lt lim (js_int 1) \<or> js_lt (js_int 500) lim
           then Inl ''invalid_event_limit''
         else Inr \<lparr>nq_operation = (case q_operation q of None \<Rightarrow> [] | Some s \<Rightarrow> s),
                   nq_after = int_of_jsnum after, nq_limit = int_of_jsnum lim\<rparr>)"

definition event_matches :: "normal_query \<Rightarrow> op_event \<Rightarrow> bool" where
  "event_matches n e =
     ((nq_operation n = [] \<or> ev_correlation e = nq_operation n) \<and> nq_after n < ev_sequence e)"

definition selectEvents :: "op_event list \<Rightarrow> event_query \<Rightarrow> string + op_event list" where
  "selectEvents es q =
     (case normalizeEventQuery q of
        Inl err \<Rightarrow> Inl err
      | Inr n \<Rightarrow> Inr (take (nat (nq_limit n)) (filter (event_matches n) es)))"

section \<open>Projection to the Opsia format\<close>

fun OPSIA_SUBJECTS :: "subject \<Rightarrow> string option" where
  "OPSIA_SUBJECTS ReleasePolicyEvaluated = Some ''release.policy.evaluated''"
| "OPSIA_SUBJECTS CanaryScheduled = Some ''canary.scheduled''"
| "OPSIA_SUBJECTS CanaryReady = Some ''canary.ready''"
| "OPSIA_SUBJECTS ValidationLoadStarted = Some ''validation_load.started''"
| "OPSIA_SUBJECTS MetricGateEvaluated = Some ''metric_gate.evaluated''"
| "OPSIA_SUBJECTS PromotionBlocked = Some ''promotion.blocked''"
| "OPSIA_SUBJECTS PromotionApproved = Some ''promotion.approved''"
| "OPSIA_SUBJECTS SnapshotSaveStarted = Some ''snapshot.save.started''"
| "OPSIA_SUBJECTS SnapshotSaveCompleted = Some ''snapshot.save.completed''"
| "OPSIA_SUBJECTS SnapshotSaveCoalesced = Some ''snapshot.save.coalesced''"
| "OPSIA_SUBJECTS SnapshotBacklogDetected = Some ''snapshot.backlog.detected''"
| "OPSIA_SUBJECTS MemoryPressureObserved = Some ''memory_pressure.observed''"
| "OPSIA_SUBJECTS ContainerOOMKilled = Some ''container.oom_killed''"
| "OPSIA_SUBJECTS EvidenceBundleSealed = Some ''evidence.bundle.sealed''"
| "OPSIA_SUBJECTS RoomCandidateScheduled = Some ''room.candidate.scheduled''"
| "OPSIA_SUBJECTS RoomCandidateReady = Some ''room.candidate.ready''"
| "OPSIA_SUBJECTS RoomSnapshotSeeded = Some ''room.snapshot.seeded''"
| "OPSIA_SUBJECTS RoomJournalCaughtUp = Some ''room.journal.caught_up''"
| "OPSIA_SUBJECTS RoomChecksumMatched = Some ''room.checksum.matched''"
| "OPSIA_SUBJECTS RoomChecksumMismatched = Some ''room.checksum.mismatched''"
| "OPSIA_SUBJECTS RoomEpochFenced = Some ''room.epoch.fenced''"
| "OPSIA_SUBJECTS RoomGatewayCutover = Some ''room.gateway.cutover''"
| "OPSIA_SUBJECTS RoomInputReplayCompleted = Some ''room.input_replay.completed''"
| "OPSIA_SUBJECTS RoomPostVerificationCompleted = Some ''room.post_verification.completed''"
| "OPSIA_SUBJECTS RoomOldPodDrained = Some ''room.old_pod.drained''"
| "OPSIA_SUBJECTS RoomHandoffFailed = Some ''room.handoff.failed''"
| "OPSIA_SUBJECTS SafePrMerged = Some ''safe_pr.merged''"
| "OPSIA_SUBJECTS GitOpsRevisionObserved = Some ''gitops.revision.observed''"
| "OPSIA_SUBJECTS RolloutWaveStarted = Some ''rollout.wave.started''"
| "OPSIA_SUBJECTS RolloutWaveCompleted = Some ''rollout.wave.completed''"
| "OPSIA_SUBJECTS RolloutWaveBlocked = Some ''rollout.wave.blocked''"
| "OPSIA_SUBJECTS PostVerificationCompleted = Some ''post_verification.completed''"
| "OPSIA_SUBJECTS GitRevisionObserved = None"
| "OPSIA_SUBJECTS ManifestRendered = None"

definition OPSIA_COMMON_FIELDS :: "string list" where
  "OPSIA_COMMON_FIELDS =
     [''operation_id'', ''operation_sequence'', ''workflow_run_id'', ''application_id'',
      ''workspace_id'', ''cluster_id'', ''namespace'', ''git_revision'', ''status'',
      ''observed_at'', ''room_id'', ''resource_ref'', ''room_epoch'', ''server_tick'',
      ''reason_code'', ''evidence_ids'', ''unavailable_reason'', ''details'']"

fun OPSIA_SUBJECT_FIELDS :: "subject \<Rightarrow> string list" where
  "OPSIA_SUBJECT_FIELDS ReleasePolicyEvaluated = [''policy_name'', ''decision'']"
| "OPSIA_SUBJECT_FIELDS CanaryScheduled = [''canary_id'']"
| "OPSIA_SUBJECT_FIELDS CanaryReady = [''canary_id'', ''ready_replicas'', ''desired_replicas'']"
| "OPSIA_SUBJECT_FIELDS ValidationLoadStarted = [''session_count'', ''bot_count'']"
| "OPSIA_SUBJECT_FIELDS MetricGateEvaluated =
     [''metric_name'', ''observed_value'', ''threshold_value'', ''comparator'', ''passed'']"
| "OPSIA_SUBJECT_FIELDS PromotionBlocked = [''gate_name'']"
| "OPSIA_SUBJECT_FIELDS PromotionApproved = [''gate_name'']"
| "OPSIA_SUBJECT_FIELDS SnapshotSaveStarted = [''pod_uid'', ''queue_depth'']"
| "OPSIA_SUBJECT_FIELDS SnapshotSaveCompleted =
     [''pod_uid'', ''duration_ms'', ''state_checksum'', ''payload_bytes'', ''memory_bytes'']"
| "OPSIA_SUBJECT_FIELDS SnapshotSaveCoalesced = [''coalesced_count'', ''pending_requests'']"
| "OPSIA_SUBJECT_FIELDS SnapshotBacklogDetected =
     [''inflight_saves'', ''pending_saves'', ''oldest_age_ms'', ''backlog_threshold'']"
| "OPSIA_SUBJECT_FIELDS MemoryPressureObserved = [''working_set_bytes'', ''memory_limit_bytes'']"
| "OPSIA_SUBJECT_FIELDS ContainerOOMKilled =
     [''pod_uid'', ''container_name'', ''exit_code'', ''restart_count'']"
| "OPSIA_SUBJECT_FIELDS EvidenceBundleSealed = [''bundle_id'', ''evidence_count'']"
| "OPSIA_SUBJECT_FIELDS RoomCandidateScheduled = [''candidate_revision'']"
| "OPSIA_SUBJECT_FIELDS RoomCandidateReady = [''readiness_probe'']"
| "OPSIA_SUBJECT_FIELDS RoomSnapshotSeeded = [''state_checksum'', ''payload_bytes'']"
| "OPSIA_SUBJECT_FIELDS RoomJournalCaughtUp = [''active_tick'', ''candidate_tick'', ''lag_ticks'']"
| "OPSIA_SUBJECT_FIELDS RoomChecksumMatched = [''state_checksum'']"
| "OPSIA_SUBJECT_FIELDS RoomChecksumMismatched = [''expected_checksum'', ''actual_checksum'']"
| "OPSIA_SUBJECT_FIELDS RoomEpochFenced = [''old_epoch'']"
| "OPSIA_SUBJECT_FIELDS RoomGatewayCutover = [''sessions'']"
| "OPSIA_SUBJECT_FIELDS RoomInputReplayCompleted = [''replayed_inputs'']"
| "OPSIA_SUBJECT_FIELDS RoomPostVerificationCompleted =
     [''session_continuity'', ''state_checksum'']"
| "OPSIA_SUBJECT_FIELDS RoomOldPodDrained = [''drain_duration_ms'']"
| "OPSIA_SUBJECT_FIELDS RoomHandoffFailed = [''failed_stage'', ''rollback'']"
| "OPSIA_SUBJECT_FIELDS SafePrMerged = [''pr_url'', ''merge_commit_sha'']"
| "OPSIA_SUBJECT_FIELDS GitOpsRevisionObserved = [''observed_revision'', ''desired_revision'']"
| "OPSIA_SUBJECT_FIELDS RolloutWaveStarted = [''wave_number'', ''total_waves'']"
| "OPSIA_SUBJECT_FIELDS RolloutWaveCompleted = [''wave_number'', ''total_waves'']"
| "OPSIA_SUBJECT_FIELDS RolloutWaveBlocked = [''wave_number'', ''failed_stage'']"
| "OPSIA_SUBJECT_FIELDS PostVerificationCompleted = [''passed'', ''checks'']"
| "OPSIA_SUBJECT_FIELDS GitRevisionObserved = []"
| "OPSIA_SUBJECT_FIELDS ManifestRendered = []"

text \<open>An array value seen through \<open>Record<string, unknown>\<close> has its indices as keys.\<close>

fun as_object :: "jv \<Rightarrow> obj option" where
  "as_object (JObj kvs) = Some kvs"
| "as_object (JArr vs) = Some (zip (map show_nat [0..<length vs]) vs)"
| "as_object _ = None"

fun nonempty_string :: "jv \<Rightarrow> bool" where
  "nonempty_string (JStr s) = (s \<noteq> [])"
| "nonempty_string _ = False"

definition nullish_or :: "jv \<Rightarrow> jv \<Rightarrow> jv" where
  "nullish_or a b = (if a = JUndef \<or> a = JNull then b else a)"

definition normalizedResourceRef :: "jv \<Rightarrow> obj option" where
  "normalizedResourceRef v =
     (case as_object v of
        None \<Rightarrow> None
      | Some input \<Rightarrow>
          if \<not> list_all (\<lambda>k. nonempty_string (oget input k)) [''kind'', ''name'', ''uid'']
          then None
          else Some
            ([(''kind'', oget input ''kind''), (''name'', oget input ''name''),
              (''uid'', oget input ''uid'')]
             @ (if truthy (oget input ''resource_version'') \<or> truthy (oget input ''resourceVersion'')
                then [(''resource_version'',
                       nullish_or (oget input ''resource_version'') (oget input ''resourceVersion''))]
                else [])
             @ (if truthy (oget input ''endpoint'')
                then [(''endpoint'', oget input ''endpoint'')] else [])))"

text \<open>The loop over the payload: the projected payload and the details it overflows into.\<close>

fun project_fields :: "string list \<Rightarrow> obj \<Rightarrow> obj \<Rightarrow> obj \<Rightarrow> obj \<times> obj" where
  "project_fields allowed [] payload details = (payload, details)"
| "project_fields allowed ((key, value) # kvs) payload details =
     (if key = ''resource_ref'' then
        (case normalizedResourceRef value of
           None \<Rightarrow> project_fields allowed kvs payload details
         | Some r \<Rightarrow> project_fields allowed kvs (oput ''resource_ref'' (JObj r) payload) details)
      else if key \<in> set allowed \<and> key \<noteq> ''details'' \<and> value \<noteq> JUndef then
        project_fields allowed kvs (oput key value payload) details
      else if key \<noteq> ''details'' \<and> value \<noteq> JUndef then
        project_fields allowed kvs payload (oput key value details)
      else project_fields allowed kvs payload details)"

definition REQUIRED_FIELDS :: "string list" where
  "REQUIRED_FIELDS =
     [''operation_id'', ''operation_sequence'', ''workflow_run_id'', ''application_id'',
      ''workspace_id'', ''cluster_id'', ''namespace'', ''git_revision'', ''status'',
      ''observed_at'']"

fun first_missing :: "obj \<Rightarrow> string list \<Rightarrow> string option" where
  "first_missing payload [] = None"
| "first_missing payload (k # ks) =
     (if oget payload k = JUndef \<or> oget payload k = JStr [] then Some k
      else first_missing payload ks)"

record opsia_event =
  oe_id :: string
  oe_subject :: string
  oe_source :: string
  oe_workspace :: string
  oe_correlation :: string
  oe_causation :: "string option"
  oe_created_at :: string
  oe_payload :: obj
  oe_schema_version :: int

definition opsia_payload :: "op_event \<Rightarrow> obj" where
  "opsia_payload e =
     (let allowed = OPSIA_COMMON_FIELDS @ OPSIA_SUBJECT_FIELDS (ev_subject e);
          details0 = (case as_object (oget (ev_payload e) ''details'') of
                        Some d \<Rightarrow> d | None \<Rightarrow> []);
          (p, d) = project_fields allowed (ev_payload e) [] details0;
          p' = (if oget p ''evidence_ids'' = JUndef \<or> oget p ''evidence_ids'' = JNull
                then oput ''evidence_ids'' (JArr []) p else p)
      in oput ''details'' (JObj d) p')"

definition toOpsiaGameOperationEvent :: "op_event \<Rightarrow> string + opsia_event" where
  "toOpsiaGameOperationEvent e =
     (case OPSIA_SUBJECTS (ev_subject e) of
        None \<Rightarrow> Inl (''opsia_subject_not_supported:'' @ subject_name (ev_subject e))
      | Some subject \<Rightarrow>
          (let payload = opsia_payload e in
           case first_missing payload REQUIRED_FIELDS of
             Some k \<Rightarrow> Inl (''opsia_event_required_field_missing:'' @ k)
           | None \<Rightarrow> Inr
               \<lparr>oe_id = ev_id e, oe_subject = subject, oe_source = ev_source e,
                oe_workspace = ev_workspace e, oe_correlation = ev_correlation e,
                oe_causation = (if ev_causation e = Some [] then None else ev_causation e),
                oe_created_at = ev_created_at e, oe_payload = payload,
                oe_schema_version = 1\<rparr>))"


section \<open>Facts about queries and the projection\<close>

lemma normalizeEventQuery_Inr:
  assumes "normalizeEventQuery q = Inr n"
  shows "0 \<le> nq_after n" and "1 \<le> nq_limit n" and "nq_limit n \<le> 500"
proof -
  define af where "af = (case q_after q of None \<Rightarrow> js_int 0 | Some a \<Rightarrow> a)"
  define li where "li = (case q_limit q of None \<Rightarrow> js_int 200 | Some l \<Rightarrow> l)"
  have "is_safe_integer af" and "\<not> js_lt af (js_int 0)"
    and "is_safe_integer li" and "\<not> js_lt li (js_int 1)" and "\<not> js_lt (js_int 500) li"
    and n: "nq_after n = int_of_jsnum af" "nq_limit n = int_of_jsnum li"
    using assms unfolding normalizeEventQuery_def Let_def af_def [symmetric] li_def [symmetric]
    by (auto split: if_splits)
  then obtain i j where "af = js_int i" "li = js_int j"
    by (meson is_safe_integerE)
  then show "0 \<le> nq_after n" and "1 \<le> nq_limit n" and "nq_limit n \<le> 500"
    using n \<open>\<not> js_lt af (js_int 0)\<close> \<open>\<not> js_lt li (js_int 1)\<close> \<open>\<not> js_lt (js_int 500) li\<close> by auto
qed

text \<open>The query a consumer sends for one operation after a cursor.\<close>

definition op_query :: "string \<Rightarrow> int \<Rightarrow> int \<Rightarrow> event_query" where
  "op_query op after lm =
     \<lparr>q_operation = Some op, q_after = Some (js_int after), q_limit = Some (js_int lm)\<rparr>"

lemma selectEvents_op:
  assumes "0 \<le> after" "safe_int after" "1 \<le> lm" "lm \<le> 500"
  shows "selectEvents es (op_query op after lm) =
    Inr (take (nat lm) (filter (\<lambda>e. (op = [] \<or> ev_correlation e = op) \<and> after < ev_sequence e) es))"
  using assms
  by (simp add: selectEvents_def normalizeEventQuery_def op_query_def event_matches_def safe_int_def MAX_SAFE_def
      cong: filter_cong)

lemma sorted_filter_gt:
  assumes "sorted_wrt (\<lambda>a b. f a < f b) (xs @ y # ys)"
  shows "filter (\<lambda>e. (f y :: int) < f e) (xs @ y # ys) = ys"
proof -
  have "\<forall>x \<in> set xs. f x < f y" and "\<forall>z \<in> set ys. f y < f z"
    using assms by (auto simp: sorted_wrt_append)
  then show ?thesis by (auto simp: filter_empty_conv intro: filter_True)
qed

lemma project_fields_keys:
  assumes "project_fields al kvs p d = (p', d')"
  shows "k \<notin> fst ` set kvs \<Longrightarrow> oget p' k = oget p k \<and> oget d' k = oget d k"
  using assms
  by (induction al kvs p d rule: project_fields.induct) (auto split: if_splits option.splits)

lemma project_fields_value:
  assumes "project_fields al kvs p d = (p', d')" and "distinct (map fst kvs)"
    and "(k, v) \<in> set kvs" and "v \<noteq> JUndef" and "k \<noteq> ''details''" and "k \<noteq> ''resource_ref''"
  shows "if k \<in> set al then oget p' k = v else oget d' k = v"
  using assms
proof (induction al kvs p d rule: project_fields.induct)
  case (2 al key val kvs p d)
  show ?case
  proof (cases "key = k")
    case True
    with "2.prems" have "val = v" and "k \<notin> fst ` set kvs"
      by (auto simp: rev_image_eqI)
    with True "2.prems" show ?thesis
      by (auto dest: project_fields_keys split: if_splits)
  next
    case False
    with "2" show ?thesis by (auto split: if_splits option.splits)
  qed
qed simp

lemma first_missing_None: "first_missing p ks = None \<longleftrightarrow>
   (\<forall>k \<in> set ks. oget p k \<noteq> JUndef \<and> oget p k \<noteq> JStr [])"
  by (induction ks) auto

lemma opsia_payload_oget:
  assumes "distinct (map fst (ev_payload e))" and "(k, v) \<in> set (ev_payload e)"
    and "v \<noteq> JUndef" and "k \<noteq> ''details''" and "k \<noteq> ''resource_ref''"
    and "k \<noteq> ''evidence_ids''"
  shows "if k \<in> set (OPSIA_COMMON_FIELDS @ OPSIA_SUBJECT_FIELDS (ev_subject e))
         then oget (opsia_payload e) k = v
         else (\<exists>d. oget (opsia_payload e) ''details'' = JObj d \<and> oget d k = v)"
proof -
  define al where "al = OPSIA_COMMON_FIELDS @ OPSIA_SUBJECT_FIELDS (ev_subject e)"
  define d0 where "d0 = (case as_object (oget (ev_payload e) ''details'') of Some d \<Rightarrow> d | None \<Rightarrow> [])"
  obtain p d where pd: "project_fields al (ev_payload e) [] d0 = (p, d)"
    by (cases "project_fields al (ev_payload e) [] d0")
  have "if k \<in> set al then oget p k = v else oget d k = v"
    by (rule project_fields_value [OF pd assms(1-5)])
  then show ?thesis
    using assms(4,6) pd unfolding al_def [symmetric]
    by (auto simp: opsia_payload_def Let_def al_def [symmetric] d0_def [symmetric])
qed


section \<open>Properties\<close>

text \<open>
  Cursor pages have no gap.  For the events of one operation in ledger order, the page
  read after a cursor is a prefix of what follows the cursor, and the page read after the last
  event of a non-empty page starts exactly where that page ended, however many events wait.
\<close>

theorem cursor_pages_have_no_gap:
  assumes "0 \<le> c" "1 \<le> l" "l \<le> 500" "1 \<le> l'" "l' \<le> 500"
    and "\<forall>e \<in> set es. ev_correlation e = opid \<and> safe_int (ev_sequence e)"
    and "sorted_wrt (\<lambda>a b. ev_sequence a < ev_sequence b) es" and "safe_int c"
    and "selectEvents es (op_query opid c l) = Inr page" and "page \<noteq> []"
  shows "selectEvents es (op_query opid (ev_sequence (last page)) l')
      = Inr (take (nat l') (drop (length page) (filter (\<lambda>e. c < ev_sequence e) es)))"
proof -
  define todo where "todo = filter (\<lambda>e. c < ev_sequence e) es"
  have filt: "filter (\<lambda>e. (opid = [] \<or> ev_correlation e = opid) \<and> x < ev_sequence e) es
      = filter (\<lambda>e. x < ev_sequence e) es" for x
    using assms(6) by (auto intro: filter_cong)
  have page: "page = take (nat l) todo"
    using assms by (simp add: selectEvents_op filt todo_def)
  define y where "y = last page"
  have y_in: "y \<in> set page" using assms(10) by (simp add: y_def)
  then have y: "y \<in> set es" "c < ev_sequence y"
    unfolding page by (auto dest!: in_set_takeD simp: todo_def)
  obtain ys zs where split: "todo = ys @ y # zs" and len: "length page = Suc (length ys)"
  proof -
    have "todo = page @ drop (length page) todo"
      unfolding page by (cases "nat l \<le> length todo") simp_all
    moreover have "page = butlast page @ [y]" using assms(10) by (simp add: y_def)
    ultimately have "todo = butlast page @ y # drop (length page) todo"
      by (metis append.assoc append_Cons append_Nil)
    moreover have "length page = Suc (length (butlast page))" using assms(10) by simp
    ultimately show thesis using that by blast
  qed
  have "sorted_wrt (\<lambda>a b. ev_sequence a < ev_sequence b) todo"
    unfolding todo_def using assms(7) by (simp add: sorted_wrt_filter)
  then have "filter (\<lambda>e. ev_sequence y < ev_sequence e) todo = zs"
    unfolding split by (rule sorted_filter_gt)
  moreover have "filter (\<lambda>e. ev_sequence y < ev_sequence e) todo
      = filter (\<lambda>e. ev_sequence y < ev_sequence e) es"
    unfolding todo_def using y(2) by (auto intro: filter_cong)
  ultimately have rest: "filter (\<lambda>e. ev_sequence y < ev_sequence e) es = drop (length page) todo"
    using len by (simp add: split)
  have "safe_int (ev_sequence y)" "0 \<le> ev_sequence y" using y assms(1,6) by auto
  then show ?thesis
    using assms(4,5) unfolding y_def [symmetric] todo_def [symmetric]
    by (simp add: selectEvents_op filt rest)
qed

definition sample_event :: "subject \<Rightarrow> int \<Rightarrow> obj \<Rightarrow> op_event" where
  "sample_event sub n p = \<lparr>ev_id = ''evt'', ev_subject = sub, ev_source = ''s'', ev_workspace = ''w'',
     ev_correlation = ''o'', ev_causation = None, ev_created_at = ''t'', ev_sequence = n, ev_payload = p\<rparr>"

theorem cursor_pages_have_no_gap_witness:
  "\<exists>e1 e2 e3. selectEvents [e1, e2, e3] (op_query ''o'' 0 2) = Inr [e1, e2]
     \<and> selectEvents [e1, e2, e3] (op_query ''o'' (ev_sequence e2) 2) = Inr [e3]
     \<and> e1 \<noteq> e2 \<and> e2 \<noteq> e3"
proof -
  define e where "e = (\<lambda>n. sample_event CanaryReady n [])"
  have simps [simp]: "ev_sequence (e n) = n" "ev_correlation (e n) = ''o''" for n
    by (simp_all add: e_def sample_event_def)
  have page: "selectEvents [e 1, e 2, e 3] (op_query ''o'' 0 2) = Inr [e 1, e 2]"
    by (simp add: selectEvents_op safe_int_def MAX_SAFE_def)
  have "selectEvents [e 1, e 2, e 3] (op_query ''o'' (ev_sequence (last [e 1, e 2])) 2)
      = Inr (take (nat 2) (drop (length [e 1, e 2]) (filter (\<lambda>e. 0 < ev_sequence e) [e 1, e 2, e 3])))"
    by (rule cursor_pages_have_no_gap [OF _ _ _ _ _ _ _ _ page])
      (simp_all add: safe_int_def MAX_SAFE_def)
  then have "selectEvents [e 1, e 2, e 3] (op_query ''o'' (ev_sequence (e 2)) 2) = Inr [e 3]"
    by simp
  moreover have "e 1 \<noteq> e 2" "e 2 \<noteq> e 3" by (simp_all add: e_def sample_event_def)
  ultimately show ?thesis using page by blast
qed

text \<open>
  The projection to the Opsia format loses no payload field: a field with a value that the
  event's subject allows keeps its value in the projected payload, and any other field keeps
  its value under \<open>details\<close>.
\<close>

theorem opsia_projection_keeps_fields:
  assumes "toOpsiaGameOperationEvent e = Inr out" and "distinct (map fst (ev_payload e))"
    and "(k, v) \<in> set (ev_payload e)" and "v \<noteq> JUndef"
    and "k \<notin> {''details'', ''resource_ref'', ''evidence_ids''}"
  shows "if k \<in> set (OPSIA_COMMON_FIELDS @ OPSIA_SUBJECT_FIELDS (ev_subject e))
         then oget (oe_payload out) k = v
         else \<exists>d. oget (oe_payload out) ''details'' = JObj d \<and> oget d k = v"
proof -
  have "oe_payload out = opsia_payload e"
    using assms(1) by (auto simp: toOpsiaGameOperationEvent_def Let_def split: option.splits)
  then show ?thesis using opsia_payload_oget [OF assms(2-4)] assms(5) by auto
qed

definition sample_payload :: obj where
  "sample_payload = map (\<lambda>k. (k, JStr ''x'')) REQUIRED_FIELDS @ [(''extra'', JStr ''y'')]"

theorem opsia_projection_keeps_fields_witness:
  "\<exists>out d. toOpsiaGameOperationEvent (sample_event CanaryReady 1 sample_payload) = Inr out
     \<and> oget (oe_payload out) ''details'' = JObj d \<and> oget d ''extra'' = JStr ''y''"
proof -
  have "\<not> (case toOpsiaGameOperationEvent (sample_event CanaryReady 1 sample_payload) of
           Inl _ \<Rightarrow> True | Inr _ \<Rightarrow> False)"
    by code_simp
  then obtain out where out: "toOpsiaGameOperationEvent (sample_event CanaryReady 1 sample_payload) = Inr out"
    by (auto split: sum.splits)
  have "(''extra'', JStr ''y'') \<in> set (ev_payload (sample_event CanaryReady 1 sample_payload))"
    and "distinct (map fst (ev_payload (sample_event CanaryReady 1 sample_payload)))"
    by (simp_all add: sample_event_def sample_payload_def REQUIRED_FIELDS_def)
  from opsia_projection_keeps_fields [OF out this(2,1)] out show ?thesis
    by (auto simp: OPSIA_COMMON_FIELDS_def sample_event_def)
qed

end
