(* ===== verification/Publisher.thy ===== *)
theory Publisher
  imports OpEvents "HOL-Library.Sublist"
begin

text \<open>
  The event publisher and the transports of \<open>events.ts\<close>.  The publisher's promise chain
  runs one publication at a time, so a publication is one computation over the
  publisher's state.  A transport is a computation over its own state that may reject;
  the locale \<open>event_transport\<close> states what the publisher relies on, and the in-memory
  transport and the Redis transport's read path are the providers.
\<close>

section \<open>Transports\<close>

type_synonym 't persist = "op_event \<Rightarrow> ('t, exn, unit) eff"

definition memory_persist :: "op_event list persist" where
  "memory_persist e = modifyE (\<lambda>es. es @ [e])"

definition memory_read :: "op_event list \<Rightarrow> event_query \<Rightarrow> string + op_event list" where
  "memory_read es q = selectEvents es q"

definition memory_readRetained :: "op_event list \<Rightarrow> op_event list" where
  "memory_readRetained es = es"

text \<open>
  The Redis transport appends the serialized event to a stream and trims it.  The stream
  service and JSON are outside the repository: \<open>xadd\<close> and \<open>xtrim\<close> are computations
  given as parameters, \<open>parse\<close> is what \<open>JSON.parse\<close> and the shape check of
  \<open>readAllEvents\<close> accept.  A failing trim is logged and ignored.
\<close>

definition redis_persist ::
  "(string \<Rightarrow> ('t, exn, unit) eff) \<Rightarrow> ('t, exn, unit) eff \<Rightarrow> (op_event \<Rightarrow> string) \<Rightarrow> 't persist" where
  "redis_persist xadd xtrim stringify e = thenE (xadd (stringify e)) (ignoreE xtrim)"

fun readAllEvents :: "(string \<Rightarrow> op_event option) \<Rightarrow> string option list \<Rightarrow> op_event list" where
  "readAllEvents parse [] = []"
| "readAllEvents parse (None # es) = readAllEvents parse es"
| "readAllEvents parse (Some serialized # es) =
     (if serialized = [] then readAllEvents parse es
      else (case parse serialized of
              None \<Rightarrow> readAllEvents parse es
            | Some e \<Rightarrow> e # readAllEvents parse es))"

definition redis_read ::
  "(string \<Rightarrow> op_event option) \<Rightarrow> string option list \<Rightarrow> event_query \<Rightarrow> string + op_event list" where
  "redis_read parse entries q =
     (case normalizeEventQuery q of
        Inl err \<Rightarrow> Inl err
      | Inr _ \<Rightarrow> selectEvents (readAllEvents parse entries) q)"

text \<open>
  What a publisher needs of a transport: an accepted event is retained after the others,
  and a rejection either stored nothing or stored the event and lost the response.
\<close>

locale event_transport =
  fixes persist :: "op_event \<Rightarrow> ('t, exn, unit) eff"
    and retained :: "'t \<Rightarrow> op_event list"
  assumes persist_ok: "persist e t = (Inr u, t') \<Longrightarrow> retained t' = retained t @ [e]"
    and persist_err: "persist e t = (Inl x, t') \<Longrightarrow> retained t' = retained t \<or> retained t' = retained t @ [e]"
begin

lemma persist_cases: "retained (snd (persist e t)) = retained t \<or> retained (snd (persist e t)) = retained t @ [e]"
  using persist_ok persist_err by (cases "persist e t"; cases "fst (persist e t)") auto

end

interpretation memory_transport: event_transport memory_persist memory_readRetained
  by unfold_locales (auto simp: memory_persist_def memory_readRetained_def modifyE_def)

section \<open>The publisher\<close>

record op_context =
  oc_operationId :: string
  oc_workspaceId :: string
  oc_workflowRunId :: "string option"
  oc_applicationId :: "string option"
  oc_source :: "string option"

text \<open>
  \<open>randomUUID()\<close> and \<open>new Date().toISOString()\<close> are read from two supplies, indexed by
  how often the publisher has asked.
\<close>

record uid_source =
  sp_uuid :: "nat \<Rightarrow> string"
  sp_now :: "nat \<Rightarrow> string"

record 't publisher =
  pb_seq :: "string \<rightharpoonup> int"
  pb_tail :: "string \<rightharpoonup> string"
  pb_listeners :: "nat list"
  pb_notified :: "(nat \<times> op_event) list"
  pb_asked :: nat
  pb_transport :: 't

definition new_publisher :: "'t \<Rightarrow> 't publisher" where
  "new_publisher t = \<lparr>pb_seq = Map.empty, pb_tail = Map.empty, pb_listeners = [],
     pb_notified = [], pb_asked = 0, pb_transport = t\<rparr>"

definition pub_subscribe :: "nat \<Rightarrow> 't publisher \<Rightarrow> 't publisher" where
  "pub_subscribe l p =
     p\<lparr>pb_listeners := (if l \<in> set (pb_listeners p) then pb_listeners p else pb_listeners p @ [l])\<rparr>"

definition pub_unsubscribe :: "nat \<Rightarrow> 't publisher \<Rightarrow> 't publisher" where
  "pub_unsubscribe l p = p\<lparr>pb_listeners := filter (\<lambda>x. x \<noteq> l) (pb_listeners p)\<rparr>"

definition last_sequence :: "'t publisher \<Rightarrow> string \<Rightarrow> int" where
  "last_sequence p op = (case pb_seq p op of None \<Rightarrow> 0 | Some n \<Rightarrow> n)"

definition make_event :: "uid_source \<Rightarrow> op_context \<Rightarrow> subject \<Rightarrow> obj \<Rightarrow> 't publisher \<Rightarrow> op_event" where
  "make_event sp c subj payload p =
     (let n = last_sequence p (oc_operationId c) + 1;
          k = pb_asked p
      in \<lparr>ev_id = ''evt_'' @ sp_uuid sp k,
          ev_subject = subj,
          ev_source = (case oc_source c of None \<Rightarrow> ''demo-game/room-orchestrator'' | Some s \<Rightarrow> s),
          ev_workspace = oc_workspaceId c,
          ev_correlation = oc_operationId c,
          ev_causation = pb_tail p (oc_operationId c),
          ev_created_at = sp_now sp k,
          ev_sequence = n,
          ev_payload = ospread payload
            [(''operation_id'', JStr (oc_operationId c)),
             (''operation_sequence'', JNum (js_int n)),
             (''workspace_id'', JStr (oc_workspaceId c)),
             (''observed_at'', nullish_or (oget payload ''observed_at'') (JStr (sp_now sp k)))]\<rparr>)"

definition reserve_event :: "op_event \<Rightarrow> 't publisher \<Rightarrow> 't publisher" where
  "reserve_event e p =
     p\<lparr>pb_seq := (pb_seq p)(ev_correlation e \<mapsto> ev_sequence e),
       pb_tail := (pb_tail p)(ev_correlation e \<mapsto> ev_id e),
       pb_asked := Suc (pb_asked p)\<rparr>"

definition notify_event :: "op_event \<Rightarrow> 't publisher \<Rightarrow> 't publisher" where
  "notify_event e p = p\<lparr>pb_notified := pb_notified p @ map (\<lambda>l. (l, e)) (pb_listeners p)\<rparr>"

definition publish ::
  "'t persist \<Rightarrow> uid_source \<Rightarrow> op_context \<Rightarrow> subject \<Rightarrow> obj \<Rightarrow> ('t publisher, exn, op_event) eff" where
  "publish persist sp c subj payload =
     bindE (getsE (make_event sp c subj payload)) (\<lambda>e.
     thenE (modifyE (reserve_event e))
     (thenE (zoomE pb_transport (\<lambda>t p. p\<lparr>pb_transport := t\<rparr>) (persist e))
     (thenE (modifyE (notify_event e))
     (ret e))))"

text \<open>
  What the program does with a publisher.  A subscription made while a publication waits for
  its transport is heard of like one made before it, because the listeners are read after the
  \<open>await\<close>; so a run is a sequence of these.  Its trace pairs each action with the event a
  publication resolved to, if it did; a rejected one does not stop the next (the chain catches
  it), and what a listener throws is swallowed.
\<close>

datatype pub_action = Subscribe nat | Unsubscribe nat | Publish op_context subject obj

fun pub_act ::
  "'t persist \<Rightarrow> uid_source \<Rightarrow> pub_action \<Rightarrow> 't publisher \<Rightarrow> op_event option \<times> 't publisher" where
  "pub_act persist sp (Subscribe l) p = (None, pub_subscribe l p)"
| "pub_act persist sp (Unsubscribe l) p = (None, pub_unsubscribe l p)"
| "pub_act persist sp (Publish c subj payload) p =
     (case publish persist sp c subj payload p of
        (Inl _, p') \<Rightarrow> (None, p')
      | (Inr e, p') \<Rightarrow> (Some e, p'))"

fun publish_run ::
  "'t persist \<Rightarrow> uid_source \<Rightarrow> pub_action list \<Rightarrow> 't publisher
     \<Rightarrow> (pub_action \<times> op_event option) list \<times> 't publisher" where
  "publish_run persist sp [] p = ([], p)"
| "publish_run persist sp (a # as) p =
     (let (r, p') = pub_act persist sp a p; (tr, p'') = publish_run persist sp as p'
      in ((a, r) # tr, p''))"

lemma make_event_simps [simp]:
  "ev_correlation (make_event sp c subj payload p) = oc_operationId c"
  "ev_sequence (make_event sp c subj payload p) = last_sequence p (oc_operationId c) + 1"
  "ev_causation (make_event sp c subj payload p) = pb_tail p (oc_operationId c)"
  "ev_subject (make_event sp c subj payload p) = subj"
  "ev_workspace (make_event sp c subj payload p) = oc_workspaceId c"
  by (simp_all add: make_event_def Let_def)

lemma last_sequence_upd [simp]:
  "last_sequence (p\<lparr>pb_transport := t\<rparr>) op = last_sequence p op"
  "last_sequence (notify_event e p) op = last_sequence p op"
  "last_sequence (reserve_event e p) op = (if op = ev_correlation e then ev_sequence e else last_sequence p op)"
  by (simp_all add: last_sequence_def notify_event_def reserve_event_def)

lemma publish_cases:
  assumes "publish persist sp c subj payload p = (r, p')" and e: "e = make_event sp c subj payload p"
  obtains (ok) u t' where "persist e (pb_transport p) = (Inr u, t')" "r = Inr e"
      "p' = notify_event e ((reserve_event e p)\<lparr>pb_transport := t'\<rparr>)"
    | (err) x t' where "persist e (pb_transport p) = (Inl x, t')" "r = Inl x"
      "p' = (reserve_event e p)\<lparr>pb_transport := t'\<rparr>"
  using assms
  by (auto simp: publish_def bindE_def thenE_def getsE_def modifyE_def zoomE_def ret_def reserve_event_def
      split: prod.splits sum.splits)

section \<open>What the publisher guarantees over any transport\<close>

definition op_sequences :: "string \<Rightarrow> op_event list \<Rightarrow> int list" where
  "op_sequences op es = map ev_sequence (filter (\<lambda>e. ev_correlation e = op) es)"

lemma op_sequences_snoc:
  "op_sequences op (es @ [e]) =
     op_sequences op es @ (if ev_correlation e = op then [ev_sequence e] else [])"
  by (simp add: op_sequences_def)

text \<open>The events a listener was told of, and those a listener is owed by a trace: the events
  that publications resolved to while it was subscribed.\<close>

definition heard_by :: "nat \<Rightarrow> 't publisher \<Rightarrow> op_event list" where
  "heard_by l p = map snd (filter (\<lambda>(k, _). k = l) (pb_notified p))"

fun owed :: "nat \<Rightarrow> bool \<Rightarrow> (pub_action \<times> op_event option) list \<Rightarrow> op_event list" where
  "owed l on [] = []"
| "owed l on ((Subscribe k, _) # tr) = owed l (on \<or> k = l) tr"
| "owed l on ((Unsubscribe k, _) # tr) = owed l (on \<and> k \<noteq> l) tr"
| "owed l on ((Publish _ _ _, r) # tr) =
     (case r of Some e \<Rightarrow> if on then [e] else [] | None \<Rightarrow> []) @ owed l on tr"

lemma filter_eq_distinct: "distinct xs \<Longrightarrow> filter (\<lambda>x. x = l) xs = (if l \<in> set xs then [l] else [])"
  by (induction xs) auto

lemma subseq_extend: "subseq xs ys \<Longrightarrow> subseq xs (ys @ zs)"
  using list_emb_append_mono [of "(=)" xs ys "[]" zs] by simp

lemma heard_by_notify:
  assumes "distinct (pb_listeners p)"
  shows "heard_by l (notify_event e p) = heard_by l p @ (if l \<in> set (pb_listeners p) then [e] else [])"
proof -
  have "filter (\<lambda>(k, _). k = l) (map (\<lambda>k. (k, e)) ks) = map (\<lambda>k. (k, e)) (filter (\<lambda>k. k = l) ks)" for ks
    by (induction ks) auto
  then show ?thesis
    using filter_eq_distinct [OF assms] by (simp add: heard_by_def notify_event_def)
qed

lemma publisher_frames [simp]:
  "pb_listeners (notify_event e p) = pb_listeners p"
  "pb_listeners (reserve_event e p) = pb_listeners p"
  "heard_by l (reserve_event e p) = heard_by l p"
  "heard_by l (p\<lparr>pb_transport := t\<rparr>) = heard_by l p"
  by (simp_all add: notify_event_def reserve_event_def heard_by_def)

lemma heard_by_act:
  assumes "distinct (pb_listeners p)" and "pub_act persist sp a p = (r, p')"
  shows "distinct (pb_listeners p')
    \<and> heard_by l p' @ owed l (l \<in> set (pb_listeners p')) tr
        = heard_by l p @ owed l (l \<in> set (pb_listeners p)) ((a, r) # tr)"
proof (cases a)
  case (Publish c subj payload)
  obtain s q where pub: "publish persist sp c subj payload p = (s, q)" by force
  from pub refl show ?thesis
  proof (cases rule: publish_cases)
    case (ok u t')
    then show ?thesis using assms Publish pub
      by (auto simp: heard_by_notify)
  next
    case (err x t')
    then show ?thesis using assms Publish pub by auto
  qed
qed (use assms in \<open>auto simp: pub_subscribe_def pub_unsubscribe_def heard_by_def
      intro!: arg_cong [where f = "\<lambda>b. owed l b tr"]\<close>)

lemma heard_by_run:
  "distinct (pb_listeners p) \<Longrightarrow> publish_run persist sp as p = (tr, p') \<Longrightarrow>
     heard_by l p' = heard_by l p @ owed l (l \<in> set (pb_listeners p)) tr"
proof (induction as arbitrary: p tr p')
  case (Cons a as)
  obtain r q where q: "pub_act persist sp a p = (r, q)" by force
  obtain tr' q' where run: "publish_run persist sp as q = (tr', q')" by force
  then show ?case
    using heard_by_act [OF Cons.prems(1) q, of l tr'] Cons.IH [OF _ run] Cons.prems(2) q
    by auto
qed simp

context event_transport
begin

text \<open>
  The ledger stays strictly ordered per operation and below the publisher's counter, and
  what a listener heard of is part of the retained events, in their order.
\<close>

definition ledger_inv :: "'t publisher \<Rightarrow> bool" where
  "ledger_inv p =
     ((\<forall>op. sorted_wrt (<) (op_sequences op (retained (pb_transport p)))) \<and>
      (\<forall>op. \<forall>n \<in> set (op_sequences op (retained (pb_transport p))). n \<le> last_sequence p op) \<and>
      distinct (pb_listeners p) \<and>
      (\<forall>l. subseq (heard_by l p) (retained (pb_transport p))))"

lemma ledger_append:
  assumes "ledger_inv p" and "ev_sequence e = last_sequence p (ev_correlation e) + 1"
    and "retained t' = retained (pb_transport p) \<or> retained t' = retained (pb_transport p) @ [e]"
  shows "ledger_inv ((reserve_event e p)\<lparr>pb_transport := t'\<rparr>)"
proof -
  have "subseq (heard_by l p) (retained t')" for l
    using assms(1,3) by (auto simp: ledger_inv_def subseq_extend)
  then show ?thesis
    using assms by (fastforce simp: ledger_inv_def op_sequences_snoc sorted_wrt_append reserve_event_def
      last_sequence_def heard_by_def)
qed

lemma ledger_accept:
  assumes "ledger_inv p" and "ev_sequence e = last_sequence p (ev_correlation e) + 1"
    and "retained t' = retained (pb_transport p) @ [e]"
  shows "ledger_inv (notify_event e ((reserve_event e p)\<lparr>pb_transport := t'\<rparr>))"
proof -
  let ?q = "(reserve_event e p)\<lparr>pb_transport := t'\<rparr>"
  have q: "ledger_inv ?q" using assms by (intro ledger_append) auto
  have "pb_notified ?q = pb_notified p" "pb_listeners ?q = pb_listeners p" by (simp_all add: reserve_event_def)
  moreover have "distinct (pb_listeners p)" "subseq (heard_by l p) (retained (pb_transport p))" for l
    using assms(1) by (auto simp: ledger_inv_def)
  ultimately have "subseq (heard_by l (notify_event e ?q)) (retained t')" for l
    using assms(3) by (simp add: heard_by_notify) (simp add: heard_by_def list_emb_append_mono subseq_extend)
  moreover have "last_sequence (notify_event e ?q) = last_sequence ?q" by (simp add: fun_eq_iff)
  ultimately show ?thesis using q by (simp add: ledger_inv_def notify_event_def)
qed

lemma publish_ledger:
  assumes "ledger_inv p" and "publish persist sp c subj payload p = (r, p')"
  shows "ledger_inv p'"
  using assms(2) refl
proof (cases rule: publish_cases)
  case (ok u t')
  then have "retained t' = retained (pb_transport p) @ [make_event sp c subj payload p]"
    by (auto dest: persist_ok)
  then show ?thesis using assms(1) ok(3) by (auto intro!: ledger_accept)
next
  case (err x t')
  then show ?thesis using assms(1) by (auto dest: persist_err intro!: ledger_append)
qed

lemma pub_act_ledger: "ledger_inv p \<Longrightarrow> ledger_inv (snd (pub_act persist sp a p))"
  by (cases a) (auto simp: ledger_inv_def pub_subscribe_def pub_unsubscribe_def last_sequence_def heard_by_def
      split: prod.splits sum.splits dest: publish_ledger [unfolded ledger_inv_def last_sequence_def heard_by_def, rotated])

lemma publish_run_ledger: "ledger_inv p \<Longrightarrow> ledger_inv (snd (publish_run persist sp as p))"
proof (induction as arbitrary: p)
  case (Cons a as)
  from Cons.IH [OF pub_act_ledger [OF Cons.prems]] show ?case
    by (simp split: prod.splits) (metis snd_conv)
qed simp

lemma ledger_inv_new: "retained t = [] \<Longrightarrow> ledger_inv (new_publisher t)"
  by (simp add: ledger_inv_def new_publisher_def op_sequences_def heard_by_def)

end


section \<open>Properties\<close>

text \<open>
  C13: For every transport that keeps the contract (an accepted event is retained after the
  others, a rejected one is retained there or not at all) and every sequence of subscriptions,
  unsubscriptions and publications on a new publisher over the empty transport: the retained
  events of every operation carry strictly increasing sequence numbers; every listener was told
  of exactly the events that publications resolved to while it was subscribed; and these are
  retained, in the same order.
\<close>

theorem ledger_strictly_ordered:
  assumes "event_transport persist retained" and "retained t = []"
    and run: "publish_run persist sp as (new_publisher t) = (tr, p)"
  shows "sorted_wrt (<) (op_sequences opid (retained (pb_transport p)))
    \<and> heard_by l p = owed l False tr
    \<and> subseq (heard_by l p) (retained (pb_transport p))"
proof -
  note inv = event_transport.publish_run_ledger [OF assms(1)
      event_transport.ledger_inv_new [OF assms(1,2)], of sp as, unfolded event_transport.ledger_inv_def [OF assms(1)]]
  have "heard_by l p = heard_by l (new_publisher t) @ owed l (l \<in> set (pb_listeners (new_publisher t))) tr"
    by (rule heard_by_run [OF _ run]) (simp add: new_publisher_def)
  then have "heard_by l p = owed l False tr" by (simp add: new_publisher_def heard_by_def)
  moreover have "subseq (heard_by l p) (retained (pb_transport p))"
    and "sorted_wrt (<) (op_sequences opid (retained (pb_transport p)))"
    using inv run by simp_all
  ultimately show ?thesis by blast
qed

definition lossy_persist :: "op_event list persist" where
  "lossy_persist e es = (if length es = 1 then Inl (Err ''redis'') else Inr (), es @ [e])"

definition sample_op_context :: op_context where
  "sample_op_context = \<lparr>oc_operationId = ''o'', oc_workspaceId = ''w'', oc_workflowRunId = None,
     oc_applicationId = None, oc_source = None\<rparr>"

lemma lossy_transport: "event_transport lossy_persist memory_readRetained"
  by unfold_locales (auto simp: lossy_persist_def memory_readRetained_def split: if_splits)

theorem ledger_strictly_ordered_witness:
  "\<exists>tr p. publish_run lossy_persist \<lparr>sp_uuid = show_nat, sp_now = show_nat\<rparr>
        [Subscribe 1, Publish sample_op_context CanaryReady [], Publish sample_op_context CanaryReady [],
         Subscribe 2, Publish sample_op_context CanaryReady [], Unsubscribe 1,
         Publish sample_op_context CanaryReady []] (new_publisher []) = (tr, p)
     \<and> heard_by 1 p = owed 1 False tr \<and> subseq (heard_by 1 p) (pb_transport p)
     \<and> map ev_sequence (heard_by 1 p) = [1, 3] \<and> map ev_sequence (heard_by 2 p) = [3, 4]
     \<and> op_sequences ''o'' (pb_transport p) = [1, 2, 3, 4]
     \<and> sorted_wrt (<) (op_sequences ''o'' (pb_transport p))"
proof -
  let ?as = "[Subscribe 1, Publish sample_op_context CanaryReady [], Publish sample_op_context CanaryReady [],
         Subscribe 2, Publish sample_op_context CanaryReady [], Unsubscribe 1,
         Publish sample_op_context CanaryReady []]"
  let ?sp = "\<lparr>sp_uuid = show_nat, sp_now = show_nat\<rparr>"
  obtain tr p where run: "publish_run lossy_persist ?sp ?as (new_publisher []) = (tr, p)" by force
  then have "map ev_sequence (heard_by 1 p) = [1, 3] \<and> map ev_sequence (heard_by 2 p) = [3, 4]
     \<and> op_sequences ''o'' (pb_transport p) = [1, 2, 3, 4]"
    by (auto simp: lossy_persist_def publish_def bindE_def thenE_def getsE_def modifyE_def zoomE_def ret_def
        new_publisher_def pub_subscribe_def pub_unsubscribe_def heard_by_def op_sequences_def Let_def
        notify_event_def reserve_event_def last_sequence_def sample_op_context_def)
  with ledger_strictly_ordered [OF lossy_transport _ run, of "''o''" 1] run show ?thesis
    by (auto simp: memory_readRetained_def)
qed

text \<open>
  A publication whose transport rejects still consumes its sequence number and its place
  in the causation chain: the next event of the operation follows the lost one, whatever the
  transport did.
\<close>

theorem failed_publication_reserves_sequence:
  assumes "publish persist sp c subj payload p = (r, p')"
  shows "last_sequence p' (oc_operationId c) = last_sequence p (oc_operationId c) + 1
    \<and> ev_sequence (make_event sp c subj2 payload2 p') = last_sequence p (oc_operationId c) + 2
    \<and> ev_causation (make_event sp c subj2 payload2 p') = Some (ev_id (make_event sp c subj payload p))"
  using assms refl
proof (cases rule: publish_cases)
  case (ok u t')
  then show ?thesis by (simp add: notify_event_def reserve_event_def last_sequence_def)
next
  case (err x t')
  then show ?thesis by (simp add: reserve_event_def last_sequence_def)
qed

theorem failed_publication_reserves_sequence_witness:
  "\<exists>p'. publish (\<lambda>_. throwE (Err ''redis'')) \<lparr>sp_uuid = show_nat, sp_now = show_nat\<rparr>
        \<lparr>oc_operationId = ''o'', oc_workspaceId = ''w'', oc_workflowRunId = None,
         oc_applicationId = None, oc_source = None\<rparr> CanaryReady [] (new_publisher ()) = (Inl (Err ''redis''), p')
     \<and> last_sequence p' ''o'' = 1"
proof -
  let ?c = "\<lparr>oc_operationId = ''o'', oc_workspaceId = ''w'', oc_workflowRunId = None,
         oc_applicationId = None, oc_source = None\<rparr>"
  let ?sp = "\<lparr>sp_uuid = show_nat, sp_now = show_nat\<rparr>"
  have "wp (publish (\<lambda>_. throwE (Err ''redis'')) ?sp ?c CanaryReady []) (\<lambda>_ _. False)
      (\<lambda>e _. e = Err ''redis'') (new_publisher ())"
    by (simp add: publish_def)
  then obtain p' where run: "publish (\<lambda>_. throwE (Err ''redis'')) ?sp ?c CanaryReady []
      (new_publisher ()) = (Inl (Err ''redis''), p')"
    by (rule wp_throws) simp
  from failed_publication_reserves_sequence [OF run] run show ?thesis
    by (simp add: last_sequence_def new_publisher_def)
qed

end
