(* ===== verification/Outbox.thy ===== *)
theory Outbox
  imports Publisher
begin

text \<open>
  The outbox of \<open>events.ts\<close> (\<open>OutboxOperationEventTransport\<close>): events are accepted by
  the durable transport, kept in an insertion-ordered map and relayed to Opsia one at a
  time, with a retry timer after a failure.  Every stretch of code between two awaits is
  one handler; the asynchronous schedule is the step relation \<open>ob_step\<close>.
\<close>

section \<open>State and handlers\<close>

text \<open>
  Where the asynchronous \<open>drain\<close> stands: not running, awaiting the relay of an entry, or
  returned with its \<open>finally\<close> callback still queued.
\<close>

datatype ob_phase = NotRunning | Awaiting string op_event | Returned

record 't outbox =
  ob_durable :: 't
  ob_pending :: "(string \<times> op_event) list"
  ob_relayRunning :: bool
  ob_relayError :: "string option"
  ob_retryTimer :: "int option"
  ob_retryDelayMs :: int
  ob_phase :: ob_phase
  ob_entered :: "string list"
  ob_relayed :: "string list"

text \<open>
  The last two fields are history only: the ids in the order in which they entered the
  pending map, and the ids whose relay was acknowledged.
\<close>

definition new_outbox :: "'t \<Rightarrow> 't outbox" where
  "new_outbox t = \<lparr>ob_durable = t, ob_pending = [], ob_relayRunning = False,
     ob_relayError = None, ob_retryTimer = None, ob_retryDelayMs = 1000,
     ob_phase = NotRunning, ob_entered = [], ob_relayed = []\<rparr>"

text \<open>\<open>drain\<close> up to its next await: take the first entry, or return on an empty map.\<close>

definition drain_loop :: "'t outbox \<Rightarrow> 't outbox" where
  "drain_loop s =
     (case ob_pending s of
        [] \<Rightarrow> s\<lparr>ob_phase := Returned\<rparr>
      | (k, e) # _ \<Rightarrow> s\<lparr>ob_phase := Awaiting k e\<rparr>)"

definition kickRelay :: "'t outbox \<Rightarrow> 't outbox" where
  "kickRelay s =
     (if ob_relayRunning s \<or> ob_retryTimer s \<noteq> None \<or> ob_pending s = [] then s
      else drain_loop (s\<lparr>ob_relayRunning := True\<rparr>))"

definition ob_enqueue :: "op_event \<Rightarrow> 't outbox \<Rightarrow> 't outbox" where
  "ob_enqueue e s =
     s\<lparr>ob_pending := oput (ev_id e) e (ob_pending s),
       ob_entered := (if ev_id e \<in> fst ` set (ob_pending s) then ob_entered s
                      else ob_entered s @ [ev_id e])\<rparr>"

definition outbox_persist :: "'t persist \<Rightarrow> 't outbox persist" where
  "outbox_persist durable e =
     thenE (zoomE ob_durable (\<lambda>t s. s\<lparr>ob_durable := t\<rparr>) (durable e))
           (modifyE (kickRelay \<circ> ob_enqueue e))"

definition outbox_replay :: "op_event list \<Rightarrow> 't outbox \<Rightarrow> 't outbox" where
  "outbox_replay es s = kickRelay (fold ob_enqueue es s)"

text \<open>\<open>await this.relay.persist(entry)\<close> resolved, respectively rejected.\<close>

definition relay_resolved :: "string \<Rightarrow> 't outbox \<Rightarrow> 't outbox" where
  "relay_resolved k s =
     drain_loop (s\<lparr>ob_pending := odel k (ob_pending s), ob_relayError := None,
                   ob_retryDelayMs := 1000, ob_relayed := ob_relayed s @ [k]\<rparr>)"

definition relay_rejected :: "exn \<Rightarrow> 't outbox \<Rightarrow> 't outbox" where
  "relay_rejected x s =
     s\<lparr>ob_relayError := Some (message_or ''operation_event_relay_failed'' x),
       ob_retryTimer := Some (ob_retryDelayMs s),
       ob_retryDelayMs := min (ob_retryDelayMs s * 2) 30000,
       ob_phase := Returned\<rparr>"

text \<open>The \<open>finally\<close> callback of \<open>kickRelay\<close>, and the retry timer's callback.\<close>

definition drain_finally :: "'t outbox \<Rightarrow> 't outbox" where
  "drain_finally s = kickRelay (s\<lparr>ob_relayRunning := False, ob_phase := NotRunning\<rparr>)"

definition timer_fires :: "'t outbox \<Rightarrow> 't outbox" where
  "timer_fires s = kickRelay (s\<lparr>ob_retryTimer := None\<rparr>)"

definition outbox_status :: "'t outbox \<Rightarrow> string option \<times> nat" where
  "outbox_status s = (ob_relayError s, length (ob_pending s))"

inductive ob_step :: "'t outbox \<Rightarrow> 't outbox \<Rightarrow> bool" where
  accept: "ob_step s (kickRelay (ob_enqueue e (s\<lparr>ob_durable := t\<rparr>)))"
| replay: "ob_step s (outbox_replay es s)"
| resolved: "ob_phase s = Awaiting k e \<Longrightarrow> ob_step s (relay_resolved k s)"
| rejected: "ob_phase s = Awaiting k e \<Longrightarrow> ob_step s (relay_rejected x s)"
| finally_runs: "ob_phase s = Returned \<Longrightarrow> ob_step s (drain_finally s)"
| timer: "ob_retryTimer s \<noteq> None \<Longrightarrow> ob_step s (timer_fires s)"

inductive ob_reachable :: "'t \<Rightarrow> 't outbox \<Rightarrow> bool" for t where
  ob_start: "ob_reachable t (new_outbox t)"
| ob_more: "ob_reachable t s \<Longrightarrow> ob_step s s' \<Longrightarrow> ob_reachable t s'"

lemma outbox_persist_step:
  assumes "durable e (ob_durable s) = (Inr u, t)" and "outbox_persist durable e s = (Inr v, s')"
  shows "ob_step s s'"
proof -
  have "s' = kickRelay (ob_enqueue e (s\<lparr>ob_durable := t\<rparr>))"
    using assms by (auto simp: outbox_persist_def thenE_def bindE_def zoomE_def modifyE_def)
  then show ?thesis by (auto intro: ob_step.accept)
qed

section \<open>The invariant\<close>

text \<open>
  Nothing is stranded: a pending entry always has a running drain or an armed timer.
\<close>

definition phase_ok :: "'t outbox \<Rightarrow> bool" where
  "phase_ok s =
     (case ob_phase s of
        NotRunning \<Rightarrow> \<not> ob_relayRunning s
      | Returned \<Rightarrow> ob_relayRunning s
      | Awaiting k e \<Rightarrow> ob_relayRunning s \<and> ob_retryTimer s = None
                       \<and> ob_pending s \<noteq> [] \<and> fst (hd (ob_pending s)) = k)"

definition ob_queue_ok :: "'t outbox \<Rightarrow> bool" where
  "ob_queue_ok s =
     (distinct (map fst (ob_pending s)) \<and> 1000 \<le> ob_retryDelayMs s \<and> ob_retryDelayMs s \<le> 30000
      \<and> ob_entered s = ob_relayed s @ map fst (ob_pending s))"

definition ob_inv :: "'t outbox \<Rightarrow> bool" where
  "ob_inv s = (phase_ok s \<and> ob_queue_ok s
     \<and> (ob_pending s \<noteq> [] \<longrightarrow> ob_relayRunning s \<or> ob_retryTimer s \<noteq> None))"

lemma keys_oput_map:
  "map fst (oput k v kvs) = (if k \<in> fst ` set kvs then map fst kvs else map fst kvs @ [k])"
  by (induction k v kvs rule: oput.induct) simp_all

lemma hd_oput: "kvs \<noteq> [] \<Longrightarrow> fst (hd (oput k v kvs)) = fst (hd kvs)"
  by (cases kvs) auto

lemma ob_enqueue_ok:
  "ob_queue_ok s \<Longrightarrow> ob_queue_ok (ob_enqueue e s)"
  "phase_ok s \<Longrightarrow> phase_ok (ob_enqueue e s)"
  by (auto simp: ob_queue_ok_def phase_ok_def ob_enqueue_def keys_oput_map hd_oput
      split: ob_phase.splits)

lemma fold_enqueue_ok:
  "ob_queue_ok s \<Longrightarrow> ob_queue_ok (fold ob_enqueue es s)"
  "phase_ok s \<Longrightarrow> phase_ok (fold ob_enqueue es s)"
  by (induction es arbitrary: s) (simp_all add: ob_enqueue_ok)

lemma kickRelay_inv: "phase_ok s \<Longrightarrow> ob_queue_ok s \<Longrightarrow> ob_inv (kickRelay s)"
  by (auto simp: ob_inv_def kickRelay_def drain_loop_def phase_ok_def ob_queue_ok_def
      split: list.splits ob_phase.splits)

lemma relay_resolved_inv:
  assumes "ob_inv s" and "ob_phase s = Awaiting k e"
  shows "ob_inv (relay_resolved k s)"
proof -
  obtain e' rest where p: "ob_pending s = (k, e') # rest"
    using assms by (cases "ob_pending s") (auto simp: ob_inv_def phase_ok_def)
  have d: "distinct (map fst ((k, e') # rest))"
    using assms(1) p by (auto simp: ob_inv_def ob_queue_ok_def)
  have o: "odel k ((k, e') # rest) = rest" by (rule odel_hd [OF d])
  show ?thesis
    using assms p d
    by (auto simp: ob_inv_def phase_ok_def ob_queue_ok_def relay_resolved_def o drain_loop_def
        rev_image_eqI split: list.splits)
qed

lemma ob_step_inv: "ob_step s s' \<Longrightarrow> ob_inv s \<Longrightarrow> ob_inv s'"
proof (induction rule: ob_step.induct)
  case (accept s e t)
  have "phase_ok (s\<lparr>ob_durable := t\<rparr>)" and "ob_queue_ok (s\<lparr>ob_durable := t\<rparr>)"
    using accept by (auto simp: ob_inv_def phase_ok_def ob_queue_ok_def split: ob_phase.splits)
  then show ?case by (intro kickRelay_inv ob_enqueue_ok)
next
  case (replay s es)
  then show ?case
    unfolding outbox_replay_def by (intro kickRelay_inv fold_enqueue_ok) (auto simp: ob_inv_def)
next
  case (resolved s k e)
  then show ?case by (blast intro: relay_resolved_inv)
next
  case (rejected s k e x)
  then show ?case by (auto simp: ob_inv_def phase_ok_def ob_queue_ok_def relay_rejected_def)
next
  case (finally_runs s)
  then show ?case
    unfolding drain_finally_def
    by (intro kickRelay_inv) (auto simp: ob_inv_def phase_ok_def ob_queue_ok_def)
next
  case (timer s)
  then show ?case
    unfolding timer_fires_def
    by (intro kickRelay_inv) (auto simp: ob_inv_def phase_ok_def ob_queue_ok_def split: ob_phase.splits)
qed

lemma ob_reachable_inv: "ob_reachable t s \<Longrightarrow> ob_inv s"
proof (induction rule: ob_reachable.induct)
  case ob_start
  show ?case by (simp add: ob_inv_def phase_ok_def ob_queue_ok_def new_outbox_def)
next
  case (ob_more s s')
  then show ?case by (blast intro: ob_step_inv)
qed

section \<open>Once the relay succeeds, everything is delivered\<close>

text \<open>
  The next internal step of an outbox nobody adds to, with a relay that succeeds.
\<close>

definition ob_drive :: "'t outbox \<Rightarrow> 't outbox" where
  "ob_drive s =
     (case ob_phase s of
        Awaiting k e \<Rightarrow> relay_resolved k s
      | Returned \<Rightarrow> drain_finally s
      | NotRunning \<Rightarrow> (if ob_retryTimer s \<noteq> None then timer_fires s else s))"

lemma ob_drive_step: "ob_drive s = s \<or> ob_step s (ob_drive s)"
  by (auto simp: ob_drive_def intro: ob_step.intros split: ob_phase.splits)

lemma ob_drive_inv: "ob_inv s \<Longrightarrow> ob_inv (ob_drive s)"
  using ob_drive_step [of s] by (auto dest: ob_step_inv)

definition ob_work :: "'t outbox \<Rightarrow> nat" where
  "ob_work s = 3 * length (ob_pending s)
     + (case ob_phase s of Returned \<Rightarrow> 2 | NotRunning \<Rightarrow> 1 | Awaiting _ _ \<Rightarrow> 0)"

lemma ob_drive_work:
  assumes "ob_inv s" and "ob_pending s \<noteq> []"
  shows "ob_work (ob_drive s) < ob_work s"
proof (cases "ob_phase s")
  case (Awaiting k e)
  obtain e' rest where p: "ob_pending s = (k, e') # rest"
    using assms Awaiting by (cases "ob_pending s") (auto simp: ob_inv_def phase_ok_def)
  then have "odel k (ob_pending s) = rest"
    using assms(1) odel_hd [of k e' rest] by (simp add: ob_inv_def ob_queue_ok_def)
  with Awaiting p show ?thesis
    by (auto simp: ob_work_def ob_drive_def relay_resolved_def drain_loop_def split: list.splits)
next
  case NotRunning
  then show ?thesis using assms
    by (auto simp: ob_work_def ob_drive_def timer_fires_def kickRelay_def drain_loop_def
        ob_inv_def phase_ok_def split: list.splits)
next
  case Returned
  then show ?thesis using assms
    by (auto simp: ob_work_def ob_drive_def drain_finally_def kickRelay_def drain_loop_def
        split: list.splits)
qed

lemma ob_drive_stable: "ob_pending s = [] \<Longrightarrow> ob_inv s \<Longrightarrow> ob_pending (ob_drive s) = []"
  by (auto simp: ob_drive_def relay_resolved_def drain_finally_def timer_fires_def kickRelay_def
      drain_loop_def ob_inv_def phase_ok_def split: ob_phase.splits)

lemma ob_drive_entered: "ob_entered (ob_drive s) = ob_entered s"
  by (auto simp: ob_drive_def relay_resolved_def drain_finally_def timer_fires_def kickRelay_def
      drain_loop_def split: ob_phase.splits list.splits)

lemma ob_drives_drain:
  "ob_inv s \<Longrightarrow> ob_work s \<le> n \<Longrightarrow> ob_pending ((ob_drive ^^ n) s) = []"
proof (induction n arbitrary: s)
  case 0
  then show ?case by (simp add: ob_work_def)
next
  case (Suc n)
  have shift: "(ob_drive ^^ Suc n) s = (ob_drive ^^ n) (ob_drive s)"
    by (simp add: funpow_swap1)
  show ?case
  proof (cases "ob_pending s = []")
    case True
    have "ob_pending ((ob_drive ^^ m) u) = []" if "ob_pending u = []" "ob_inv u" for m and u :: "'a outbox"
      using that by (induction m arbitrary: u) (simp_all add: funpow_swap1 ob_drive_stable ob_drive_inv)
    with True Suc.prems show ?thesis by blast
  next
    case False
    with Suc have "ob_work (ob_drive s) \<le> n" using ob_drive_work [of s] by linarith
    with Suc.IH Suc.prems shift show ?thesis by (simp add: ob_drive_inv)
  qed
qed

section \<open>The outbox is a transport\<close>

context event_transport
begin

lemma outbox_retained: "retained (ob_durable (kickRelay (ob_enqueue e s))) = retained (ob_durable s)"
  by (simp add: kickRelay_def ob_enqueue_def drain_loop_def split: list.splits)

lemma outbox_is_transport: "event_transport (outbox_persist persist) (retained \<circ> ob_durable)"
proof
  fix e u t and t' :: "'t outbox"
  assume "outbox_persist persist e t = (Inr u, t')"
  then show "(retained \<circ> ob_durable) t' = (retained \<circ> ob_durable) t @ [e]"
    by (auto simp: outbox_persist_def thenE_def bindE_def zoomE_def modifyE_def outbox_retained
        split: prod.splits sum.splits dest: persist_ok)
next
  fix e x t and t' :: "'t outbox"
  assume "outbox_persist persist e t = (Inl x, t')"
  then show "(retained \<circ> ob_durable) t' = (retained \<circ> ob_durable) t \<or>
      (retained \<circ> ob_durable) t' = (retained \<circ> ob_durable) t @ [e]"
    by (auto simp: outbox_persist_def thenE_def bindE_def zoomE_def modifyE_def
        split: prod.splits sum.splits dest: persist_err)
qed

end

interpretation outbox_memory:
  event_transport "outbox_persist memory_persist" "memory_readRetained \<circ> ob_durable"
  by (rule memory_transport.outbox_is_transport)


section \<open>Properties\<close>

text \<open>
  C12: In every reachable state of the outbox nothing is stranded or lost: the ids relayed so
  far followed by the pending ones are exactly the ids that entered, in order; a non-empty map
  has a drain running or a retry timer armed; and the retry delay stays between one and thirty
  seconds.
\<close>

theorem outbox_strands_nothing:
  assumes "ob_reachable t s"
  shows "ob_entered s = ob_relayed s @ map fst (ob_pending s)
    \<and> (ob_pending s \<noteq> [] \<longrightarrow> ob_relayRunning s \<or> ob_retryTimer s \<noteq> None)
    \<and> 1000 \<le> ob_retryDelayMs s \<and> ob_retryDelayMs s \<le> 30000"
  using ob_reachable_inv [OF assms] by (auto simp: ob_inv_def ob_queue_ok_def)

definition stuck_event :: op_event where
  "stuck_event = \<lparr>ev_id = ''e1'', ev_subject = CanaryReady, ev_source = ''s'', ev_workspace = ''w'',
     ev_correlation = ''o'', ev_causation = None, ev_created_at = ''t'', ev_sequence = 1, ev_payload = []\<rparr>"

definition stuck_outbox :: "op_event list outbox" where
  "stuck_outbox = relay_rejected NotAnError
     (kickRelay (ob_enqueue stuck_event ((new_outbox [])\<lparr>ob_durable := [stuck_event]\<rparr>)))"

lemma stuck_outbox_fields:
  "ob_entered stuck_outbox = [''e1'']" "ob_retryTimer stuck_outbox = Some 1000"
  "ob_relayed stuck_outbox = []" "ob_pending stuck_outbox = [(''e1'', stuck_event)]"
  by (simp_all add: stuck_outbox_def stuck_event_def relay_rejected_def kickRelay_def ob_enqueue_def
      new_outbox_def drain_loop_def)

lemma stuck_outbox_reachable: "ob_reachable [] stuck_outbox"
proof -
  let ?s = "kickRelay (ob_enqueue stuck_event ((new_outbox [])\<lparr>ob_durable := [stuck_event]\<rparr>))"
  have "ob_reachable [] ?s" by (rule ob_more [OF ob_start]) (rule ob_step.accept)
  moreover have "ob_phase ?s = Awaiting ''e1'' stuck_event"
    by (simp add: kickRelay_def ob_enqueue_def new_outbox_def drain_loop_def stuck_event_def)
  ultimately show ?thesis unfolding stuck_outbox_def by (blast intro: ob_more ob_step.rejected)
qed

theorem outbox_strands_nothing_witness:
  "ob_entered stuck_outbox = ob_relayed stuck_outbox @ [''e1''] \<and> ob_relayed stuck_outbox = []
   \<and> ob_retryTimer stuck_outbox = Some 1000 \<and> ob_retryDelayMs stuck_outbox \<le> 30000"
  using outbox_strands_nothing [OF stuck_outbox_reachable] by (simp add: stuck_outbox_fields)

text \<open>
  Once the relay succeeds, everything is delivered: from any reachable state, three
  internal steps per pending event and two more leave the map empty with every id that ever
  entered relayed, in order.
\<close>

theorem outbox_drains:
  assumes "ob_reachable t s"
  shows "\<exists>n \<le> 3 * length (ob_pending s) + 2.
     ob_pending ((ob_drive ^^ n) s) = [] \<and> ob_relayed ((ob_drive ^^ n) s) = ob_entered s"
proof -
  have inv: "ob_inv s" by (rule ob_reachable_inv [OF assms])
  define n where "n = ob_work s"
  have le: "n \<le> 3 * length (ob_pending s) + 2" by (simp add: n_def ob_work_def split: ob_phase.splits)
  have empty: "ob_pending ((ob_drive ^^ n) s) = []"
    by (rule ob_drives_drain [OF inv]) (simp add: n_def)
  have "ob_inv ((ob_drive ^^ k) s) \<and> ob_entered ((ob_drive ^^ k) s) = ob_entered s" for k
    by (induction k) (simp_all add: inv ob_drive_inv ob_drive_entered)
  from this [of n] have "ob_entered s = ob_relayed ((ob_drive ^^ n) s)"
    using empty by (metis append_Nil2 list.map_disc_iff ob_inv_def ob_queue_ok_def)
  with le empty show ?thesis by auto
qed

theorem outbox_drains_witness:
  "\<exists>n \<le> 5. ob_pending ((ob_drive ^^ n) stuck_outbox) = [] \<and> ob_relayed ((ob_drive ^^ n) stuck_outbox) = [''e1'']"
  using outbox_drains [OF stuck_outbox_reachable] by (simp add: stuck_outbox_fields)

end
