(* ===== verification/ReleaseControl.thy ===== *)
theory ReleaseControl
  imports OpEvents
begin

text \<open>
  \<open>services/room-orchestrator/src/release-control.ts\<close>: the gate that lets one canary
  validation or live handoff run at a time, and the projection of a promotion capability
  out of the event ledger.
\<close>

section \<open>The release operation gate\<close>

datatype release_kind = Canary | Handoff

record reservation =
  rs_kind :: release_kind
  rs_operationId :: string
  rs_token :: nat

text \<open>
  \<open>gt_checking\<close> is the reservation request whose durable check is awaited: \<open>serialize\<close>
  lets one such request be between its two halves.  \<open>gt_issued\<close> are the reservations
  handed out, \<open>gt_settled\<close> the tokens whose \<open>settled\<close> flag is set.
\<close>

record gate =
  gt_active :: "reservation option"
  gt_known :: "string list"
  gt_checking :: "(release_kind \<times> string) option"
  gt_next :: nat
  gt_issued :: "reservation list"
  gt_settled :: "nat list"

definition new_gate :: gate where
  "new_gate = \<lparr>gt_active = None, gt_known = [], gt_checking = None, gt_next = 0,
     gt_issued = [], gt_settled = []\<rparr>"

definition running_message :: "reservation \<Rightarrow> string" where
  "running_message r =
     (case rs_kind r of
        Canary \<Rightarrow> ''canary_validation_already_running''
      | Handoff \<Rightarrow> ''handoff_wave_already_running'') @ '':'' @ rs_operationId r"

text \<open>The half of \<open>reserve\<close> before the durable check.\<close>

definition reserve_begin :: "release_kind \<Rightarrow> string \<Rightarrow> gate \<Rightarrow> string + gate" where
  "reserve_begin kind op g =
     (case gt_active g of
        Some r \<Rightarrow> Inl (running_message r)
      | None \<Rightarrow>
          if op \<in> set (gt_known g) then Inl ''operation_id_already_exists''
          else Inr (g\<lparr>gt_checking := Some (kind, op)\<rparr>))"

text \<open>The half after it: the durable check threw, found the id, or found nothing.\<close>

datatype durable_check = CheckThrew string | CheckExists | CheckAbsent

definition reserve_end :: "durable_check \<Rightarrow> gate \<Rightarrow> (string + reservation) \<times> gate" where
  "reserve_end c g =
     (case gt_checking g of
        None \<Rightarrow> (Inl ''no_reservation_pending'', g)
      | Some (kind, op) \<Rightarrow>
          (case c of
             CheckThrew m \<Rightarrow> (Inl m, g\<lparr>gt_checking := None\<rparr>)
           | CheckExists \<Rightarrow> (Inl ''operation_id_already_exists'', g\<lparr>gt_checking := None\<rparr>)
           | CheckAbsent \<Rightarrow>
               (let r = \<lparr>rs_kind = kind, rs_operationId = op, rs_token = gt_next g\<rparr>
                in (Inr r, g\<lparr>gt_checking := None, gt_active := Some r,
                             gt_known := List.insert op (gt_known g),
                             gt_next := Suc (gt_next g), gt_issued := r # gt_issued g\<rparr>))))"

definition finish_reservation :: "bool \<Rightarrow> reservation \<Rightarrow> gate \<Rightarrow> gate" where
  "finish_reservation abort r g =
     (if rs_token r \<in> set (gt_settled g) then g
      else g\<lparr>gt_settled := rs_token r # gt_settled g,
             gt_active := (case gt_active g of
                             Some a \<Rightarrow> if rs_token a = rs_token r then None else Some a
                           | None \<Rightarrow> None),
             gt_known := (if abort then removeAll (rs_operationId r) (gt_known g)
                          else gt_known g)\<rparr>)"

inductive gate_step :: "gate \<Rightarrow> gate \<Rightarrow> bool" where
  begin_ok: "gt_checking g = None \<Longrightarrow> reserve_begin k op g = Inr g' \<Longrightarrow> gate_step g g'"
| end_any: "gt_checking g \<noteq> None \<Longrightarrow> gate_step g (snd (reserve_end c g))"
| finish: "r \<in> set (gt_issued g) \<Longrightarrow> gate_step g (finish_reservation ab r g)"

inductive gate_reachable :: "gate \<Rightarrow> bool" where
  gate_start: "gate_reachable new_gate"
| gate_more: "gate_reachable g \<Longrightarrow> gate_step g g' \<Longrightarrow> gate_reachable g'"

text \<open>
  The live reservations are those not settled; the invariant says that the only one is
  the active one, that no request is being checked while one is active, and that the id
  of every live reservation stays known.
\<close>

definition gate_live :: "gate \<Rightarrow> reservation set" where
  "gate_live g = {r \<in> set (gt_issued g). rs_token r \<notin> set (gt_settled g)}"

definition gate_inv :: "gate \<Rightarrow> bool" where
  "gate_inv g =
     (gate_live g = (case gt_active g of None \<Rightarrow> {} | Some r \<Rightarrow> {r})
      \<and> (\<forall>r \<in> set (gt_issued g). rs_token r < gt_next g)
      \<and> distinct (map rs_token (gt_issued g))
      \<and> (\<forall>t \<in> set (gt_settled g). t < gt_next g)
      \<and> (gt_active g \<noteq> None \<longrightarrow> gt_checking g = None)
      \<and> (\<forall>r \<in> gate_live g. rs_operationId r \<in> set (gt_known g))
      \<and> (\<forall>k op. gt_checking g = Some (k, op) \<longrightarrow> op \<notin> set (gt_known g)))"

lemma gate_token_inj:
  "gate_inv g \<Longrightarrow> r \<in> set (gt_issued g) \<Longrightarrow> r' \<in> set (gt_issued g) \<Longrightarrow> rs_token r = rs_token r' \<Longrightarrow> r = r'"
  by (auto simp: gate_inv_def distinct_map inj_on_def)

lemma reserve_begin_inv:
  assumes "gate_inv g" and "reserve_begin k op g = Inr g'"
  shows "gate_inv g'"
  using assms by (auto simp: reserve_begin_def gate_inv_def gate_live_def split: option.splits if_splits)

lemma reserve_end_inv:
  assumes "gate_inv g" and "gt_checking g \<noteq> None"
  shows "gate_inv (snd (reserve_end c g))"
proof -
  obtain k op where chk: "gt_checking g = Some (k, op)" using assms(2) by auto
  have act: "gt_active g = None" using assms by (auto simp: gate_inv_def)
  show ?thesis
  proof (cases c)
    case CheckAbsent
    define r where "r = \<lparr>rs_kind = k, rs_operationId = op, rs_token = gt_next g\<rparr>"
    define g' where "g' = g\<lparr>gt_checking := None, gt_active := Some r,
        gt_known := List.insert op (gt_known g), gt_next := Suc (gt_next g), gt_issued := r # gt_issued g\<rparr>"
    have old: "gate_live g = {}" using assms(1) act by (simp add: gate_inv_def)
    have fresh: "rs_token r \<notin> set (gt_settled g)" and new: "rs_token r \<notin> rs_token ` set (gt_issued g)"
      using assms(1) by (force simp: gate_inv_def r_def)+
    have live: "gate_live g' = {r}"
      using old fresh by (auto simp: gate_live_def g'_def)
    have "gate_inv g'"
      using assms(1) new live
      by (auto simp: gate_inv_def g'_def r_def less_Suc_eq)
    then show ?thesis
      using chk CheckAbsent by (simp add: reserve_end_def Let_def g'_def r_def)
  qed (use assms chk act in \<open>auto simp: reserve_end_def gate_inv_def gate_live_def\<close>)
qed

lemma finish_reservation_inv:
  assumes inv: "gate_inv g" and r: "r \<in> set (gt_issued g)"
  shows "gate_inv (finish_reservation ab r g)"
proof (cases "rs_token r \<in> set (gt_settled g)")
  case True
  then show ?thesis using inv by (simp add: finish_reservation_def)
next
  case False
  with r have "r \<in> gate_live g" by (simp add: gate_live_def)
  then have act: "gt_active g = Some r"
    using inv by (auto simp: gate_inv_def split: option.splits)
  have live: "gate_live g = {r}" using inv act by (simp add: gate_inv_def)
  let ?g = "finish_reservation ab r g"
  have f: "gt_settled ?g = rs_token r # gt_settled g" "gt_active ?g = None"
    "gt_issued ?g = gt_issued g" "gt_next ?g = gt_next g" "gt_checking ?g = gt_checking g"
    using False act by (simp_all add: finish_reservation_def)
  have "gate_live ?g \<subseteq> gate_live g - {r}" using f by (auto simp: gate_live_def)
  then have "gate_live ?g = {}" using live by simp
  moreover have "gt_checking g = None" using inv act by (simp add: gate_inv_def)
  moreover have "rs_token r < gt_next g" using inv r by (simp add: gate_inv_def)
  ultimately show ?thesis using inv f by (simp add: gate_inv_def)
qed

lemma gate_step_inv: "gate_step g g' \<Longrightarrow> gate_inv g \<Longrightarrow> gate_inv g'"
  by (induction rule: gate_step.induct)
    (blast intro: reserve_begin_inv reserve_end_inv finish_reservation_inv)+

lemma gate_reachable_inv: "gate_reachable g \<Longrightarrow> gate_inv g"
proof (induction rule: gate_reachable.induct)
  case gate_start
  show ?case by (simp add: gate_inv_def gate_live_def new_gate_def)
next
  case (gate_more g g')
  then show ?case by (blast intro: gate_step_inv)
qed

section \<open>Sealed canary approvals\<close>

record sealed_approval =
  sa_operationId :: string
  sa_revision :: string
  sa_imageDigest :: string
  sa_bundleId :: string
  sa_approvalEventId :: string
  sa_bundleEventId :: string

text \<open>\<open>String(value)\<close>; \<open>fmt\<close> prints a number that is not an integer.\<close>

fun js_to_string :: "(rat \<Rightarrow> string) \<Rightarrow> jv \<Rightarrow> string" where
  "js_to_string fmt JUndef = ''undefined''"
| "js_to_string fmt JNull = ''null''"
| "js_to_string fmt (JBool b) = (if b then ''true'' else ''false'')"
| "js_to_string fmt (JStr s) = s"
| "js_to_string fmt (JNum n) =
     (case n of NaN \<Rightarrow> ''NaN'' | PosInf \<Rightarrow> ''Infinity'' | NegInf \<Rightarrow> ''-Infinity''
      | Num q \<Rightarrow> if is_integer n then show_int (int_of_jsnum n) else fmt q)"
| "js_to_string fmt (JObj _) = ''[object Object]''"
| "js_to_string fmt (JArr vs) =
     concat (case map (\<lambda>v. if v = JUndef \<or> v = JNull then [] else js_to_string fmt v) vs of
               [] \<Rightarrow> [] | w # ws \<Rightarrow> w # map (\<lambda>x. '','' @ x) ws)"

definition string_or_empty :: "(rat \<Rightarrow> string) \<Rightarrow> jv \<Rightarrow> string" where
  "string_or_empty fmt v = js_to_string fmt (nullish_or v (JStr []))"

text \<open>The \<open>byOperation\<close> map: operation ids in the order of their first event.\<close>

fun by_operation :: "op_event list \<Rightarrow> (string \<times> op_event list) list \<Rightarrow> (string \<times> op_event list) list" where
  "by_operation [] acc = acc"
| "by_operation (e # es) acc =
     by_operation es
       (oput (ev_correlation e)
          ((case map_of acc (ev_correlation e) of None \<Rightarrow> [] | Some l \<Rightarrow> l) @ [e]) acc)"

definition CANARY_ROOM_ID :: string where
  "CANARY_ROOM_ID = ''canary-room''"

definition about_canary :: "string \<Rightarrow> op_event \<Rightarrow> bool" where
  "about_canary revision e =
     (oget (ev_payload e) ''room_id'' = JStr CANARY_ROOM_ID
      \<and> oget (ev_payload e) ''git_revision'' = JStr revision)"

definition details_complete :: "jv \<Rightarrow> bool" where
  "details_complete d =
     (case as_object d of None \<Rightarrow> False | Some kvs \<Rightarrow> oget kvs ''completeness'' = JStr ''complete'')"

definition is_bundle :: "string \<Rightarrow> op_event \<Rightarrow> bool" where
  "is_bundle revision e =
     (ev_subject e = EvidenceBundleSealed
      \<and> oget (ev_payload e) ''status'' = JStr ''completed''
      \<and> about_canary revision e
      \<and> details_complete (oget (ev_payload e) ''details''))"

text \<open>One iteration of the loop over the operations: \<open>continue\<close> is \<open>None\<close>.\<close>

definition operation_approval ::
  "(rat \<Rightarrow> string) \<Rightarrow> string \<Rightarrow> string \<Rightarrow> op_event list \<Rightarrow> sealed_approval option" where
  "operation_approval fmt revision opId unsorted =
     (let operation = sort_key ev_sequence unsorted in
      if \<not> list_ex (about_canary revision) operation then None
      else if operation = [] \<or> \<not> is_bundle revision (last operation) then None
      else (let terminal = last operation in
        case find (\<lambda>e. ev_subject e = PromotionApproved \<and> about_canary revision e) (rev operation) of
          None \<Rightarrow> None
        | Some approval \<Rightarrow>
            if ev_sequence terminal \<le> ev_sequence approval then None
            else if list_ex (\<lambda>e. ev_subject e = PromotionBlocked
                               \<and> ev_sequence approval < ev_sequence e) operation then None
            else (let digest = string_or_empty fmt (oget (ev_payload terminal) ''image_digest'') in
              if \<not> is_image_digest digest \<or> oget (ev_payload approval) ''image_digest'' \<noteq> JStr digest
              then None
              else (case oget (ev_payload terminal) ''evidence_ids'' of
                      JArr ids \<Rightarrow>
                        if JStr (ev_id approval) \<notin> set ids then None
                        else (let bundle = string_or_empty fmt (oget (ev_payload terminal) ''bundle_id'') in
                          if bundle = [] then None
                          else Some \<lparr>sa_operationId = opId, sa_revision = revision,
                                     sa_imageDigest = digest, sa_bundleId = bundle,
                                     sa_approvalEventId = ev_id approval,
                                     sa_bundleEventId = ev_id terminal\<rparr>)
                    | _ \<Rightarrow> None))))"

text \<open>
  \<open>date\<close> is \<open>Date.parse\<close> on the ISO timestamps the publisher writes.  The newest bundle
  wins, the first operation among equals (the sort is stable).
\<close>

definition approvals_of ::
  "(rat \<Rightarrow> string) \<Rightarrow> (string \<Rightarrow> int) \<Rightarrow> string \<Rightarrow> (string \<times> op_event list) list
     \<Rightarrow> (sealed_approval \<times> int) list" where
  "approvals_of fmt date revision ops =
     List.map_filter (\<lambda>(opId, es).
        case operation_approval fmt revision opId es of
          None \<Rightarrow> None
        | Some a \<Rightarrow> Some (a, date (ev_created_at (last (sort_key ev_sequence es))))) ops"

definition sealedCanaryApprovalForRevision ::
  "(rat \<Rightarrow> string) \<Rightarrow> (string \<Rightarrow> int) \<Rightarrow> op_event list \<Rightarrow> string \<Rightarrow> sealed_approval option" where
  "sealedCanaryApprovalForRevision fmt date events revision =
     (case sort_key (\<lambda>p. - snd p) (approvals_of fmt date revision (by_operation events [])) of
        [] \<Rightarrow> None
      | (latest, _) # _ \<Rightarrow> Some latest)"

section \<open>Facts about the projection\<close>

lemma by_operation_map_of:
  "map_of (by_operation es acc) op =
     (let mine = filter (\<lambda>e. ev_correlation e = op) es in
      case map_of acc op of
        None \<Rightarrow> if mine = [] then None else Some mine
      | Some l \<Rightarrow> Some (l @ mine))"
proof (induction es acc rule: by_operation.induct)
  case (1 acc)
  show ?case by (simp add: Let_def split: option.splits)
next
  case (2 e es acc)
  then show ?case by (auto simp: Let_def split: option.splits)
qed

lemma by_operation_distinct:
  "distinct (map fst acc) \<Longrightarrow> distinct (map fst (by_operation es acc))"
  by (induction es acc rule: by_operation.induct) simp_all

lemma by_operation_mem:
  "(op, es') \<in> set (by_operation es []) \<longleftrightarrow>
     es' \<noteq> [] \<and> es' = filter (\<lambda>e. ev_correlation e = op) es"
proof -
  have "(op, es') \<in> set (by_operation es []) \<longleftrightarrow> map_of (by_operation es []) op = Some es'"
    by (rule map_of_eq_Some_iff [symmetric], rule by_operation_distinct) simp
  also have "\<dots> \<longleftrightarrow> es' \<noteq> [] \<and> es' = filter (\<lambda>e. ev_correlation e = op) es"
    by (auto simp: by_operation_map_of Let_def)
  finally show ?thesis .
qed

lemma find_rev_Some:
  assumes "find P (rev xs) = Some x"
  shows "\<exists>as bs. xs = as @ x # bs \<and> P x \<and> (\<forall>y \<in> set bs. \<not> P y)"
  using assms
proof (induction xs rule: rev_induct)
  case (snoc y ys)
  show ?case
  proof (cases "P y")
    case True
    with snoc.prems have "x = y" by simp
    with True show ?thesis by (intro exI [of _ ys] exI [of _ "[]"]) simp
  next
    case False
    with snoc obtain as bs where "ys = as @ x # bs" "P x" "\<forall>y \<in> set bs. \<not> P y" by auto
    with False show ?thesis by (intro exI [of _ as] exI [of _ "bs @ [y]"]) simp
  qed
qed simp

text \<open>
  What an approval rests on, stated of the ledger alone: the two events speak of the canary
  room and the revision, both name the image of the capability, and the bundle is the last
  event of the operation, complete, and lists the latest approval, after which nothing was
  blocked.
\<close>

definition approval_evidence ::
  "(rat \<Rightarrow> string) \<Rightarrow> string \<Rightarrow> op_event list \<Rightarrow> op_event \<Rightarrow> op_event \<Rightarrow> sealed_approval \<Rightarrow> bool" where
  "approval_evidence fmt revision es approval bundle a =
     (approval \<in> set es \<and> bundle \<in> set es
      \<and> (\<forall>e \<in> {approval, bundle}. oget (ev_payload e) ''room_id'' = JStr ''canary-room''
           \<and> oget (ev_payload e) ''git_revision'' = JStr revision)
      \<and> ev_subject approval = PromotionApproved
      \<and> (\<forall>e \<in> set es. ev_subject e = PromotionApproved \<and> oget (ev_payload e) ''room_id'' = JStr ''canary-room''
           \<and> oget (ev_payload e) ''git_revision'' = JStr revision \<longrightarrow> ev_sequence e \<le> ev_sequence approval)
      \<and> (\<forall>e \<in> set es. ev_subject e = PromotionBlocked \<longrightarrow> ev_sequence e \<le> ev_sequence approval)
      \<and> ev_subject bundle = EvidenceBundleSealed
      \<and> oget (ev_payload bundle) ''status'' = JStr ''completed''
      \<and> (\<exists>d. as_object (oget (ev_payload bundle) ''details'') = Some d \<and> oget d ''completeness'' = JStr ''complete'')
      \<and> ev_sequence approval < ev_sequence bundle
      \<and> (\<forall>e \<in> set es. ev_sequence e \<le> ev_sequence bundle)
      \<and> js_to_string fmt (oget (ev_payload bundle) ''image_digest'') = sa_imageDigest a
      \<and> oget (ev_payload approval) ''image_digest'' = JStr (sa_imageDigest a)
      \<and> is_image_digest (sa_imageDigest a)
      \<and> (\<exists>ids. oget (ev_payload bundle) ''evidence_ids'' = JArr ids \<and> JStr (ev_id approval) \<in> set ids)
      \<and> sa_revision a = revision
      \<and> js_to_string fmt (oget (ev_payload bundle) ''bundle_id'') = sa_bundleId a \<and> sa_bundleId a \<noteq> []
      \<and> sa_approvalEventId a = ev_id approval \<and> sa_bundleEventId a = ev_id bundle)"

lemma find_rev_last:
  fixes f :: "'b \<Rightarrow> int"
  assumes "find P (rev (sort_key f xs)) = Some x"
  shows "P x \<and> x \<in> set xs \<and> (\<forall>y \<in> set xs. P y \<longrightarrow> f y \<le> f x)"
proof -
  from find_rev_Some [OF assms] obtain as bs
    where ab: "sort_key f xs = as @ x # bs" "P x" "\<forall>y \<in> set bs. \<not> P y" by blast
  have "sorted (map f (as @ x # bs))" using sorted_sort_key [of f xs] ab(1) by simp
  then have "\<forall>y \<in> set as. f y \<le> f x" by (simp add: sorted_append)
  moreover have "set xs = set (as @ x # bs)" by (metis ab(1) set_sort)
  ultimately show ?thesis using ab(2,3) by auto
qed

lemma string_or_empty_some: "string_or_empty fmt v = s \<Longrightarrow> s \<noteq> [] \<Longrightarrow> js_to_string fmt v = s"
  by (cases v) (auto simp: string_or_empty_def nullish_or_def)

lemma image_digest_nonempty: "is_image_digest d \<Longrightarrow> d \<noteq> []"
  by (auto simp: is_image_digest_def strip_prefix_def)

lemma last_sort_key_max:
  fixes f :: "'b \<Rightarrow> int"
  assumes "e \<in> set xs"
  shows "f e \<le> f (last (sort_key f xs))"
proof -
  have "sorted (map f (sort_key f xs))" and "set (sort_key f xs) = set xs" by simp_all
  moreover have "sorted (map f ys) \<Longrightarrow> e \<in> set ys \<Longrightarrow> f e \<le> f (last ys)" for ys
    by (induction ys) (auto split: if_splits)
  ultimately show ?thesis using assms by auto
qed

lemma operation_approval_evidence:
  assumes "operation_approval fmt revision opId es = Some a"
  shows "sa_operationId a = opId \<and>
    (\<exists>approval. approval_evidence fmt revision es approval (last (sort_key ev_sequence es)) a)"
proof -
  define op where "op = sort_key ev_sequence es"
  have set_op: "set op = set es" by (simp add: op_def)
  from assms obtain approval where ne: "op \<noteq> []" and bnd: "is_bundle revision (last op)"
    and find: "find (\<lambda>e. ev_subject e = PromotionApproved \<and> about_canary revision e) (rev op) = Some approval"
    and seq: "ev_sequence approval < ev_sequence (last op)"
    and blocked: "\<not> list_ex (\<lambda>e. ev_subject e = PromotionBlocked \<and> ev_sequence approval < ev_sequence e) op"
    and dig: "is_image_digest (sa_imageDigest a)"
      "oget (ev_payload approval) ''image_digest'' = JStr (sa_imageDigest a)"
      "string_or_empty fmt (oget (ev_payload (last op)) ''image_digest'') = sa_imageDigest a"
    and bid: "string_or_empty fmt (oget (ev_payload (last op)) ''bundle_id'') = sa_bundleId a" "sa_bundleId a \<noteq> []"
    and ids: "\<exists>ids. oget (ev_payload (last op)) ''evidence_ids'' = JArr ids \<and> JStr (ev_id approval) \<in> set ids"
    and fields: "sa_operationId a = opId" "sa_revision a = revision"
      "sa_approvalEventId a = ev_id approval" "sa_bundleEventId a = ev_id (last op)"
    unfolding operation_approval_def op_def [symmetric] Let_def
    by (auto split: if_splits option.splits jv.splits)
  note latest = find_rev_last [OF find [unfolded op_def]]
  have "last op \<in> set es" using ne set_op last_in_set by blast
  moreover have "\<forall>e \<in> set es. ev_sequence e \<le> ev_sequence (last op)"
    by (auto simp: op_def intro: last_sort_key_max)
  moreover have "\<forall>e \<in> set es. ev_subject e = PromotionBlocked \<longrightarrow> ev_sequence e \<le> ev_sequence approval"
    using blocked set_op by (force simp: list_ex_iff)
  moreover have "js_to_string fmt (oget (ev_payload (last op)) ''image_digest'') = sa_imageDigest a"
    "js_to_string fmt (oget (ev_payload (last op)) ''bundle_id'') = sa_bundleId a"
    by (rule string_or_empty_some; simp add: dig bid image_digest_nonempty)+
  moreover have "\<exists>d. as_object (oget (ev_payload (last op)) ''details'') = Some d \<and> oget d ''completeness'' = JStr ''complete''"
    using bnd by (auto simp: is_bundle_def details_complete_def split: option.splits)
  ultimately show ?thesis
    using latest bnd seq dig bid(2) ids fields
    unfolding approval_evidence_def op_def [symmetric]
    by (auto simp: is_bundle_def about_canary_def CANARY_ROOM_ID_def)
qed

lemma sealed_Some:
  assumes "sealedCanaryApprovalForRevision fmt date events revision = Some a"
  obtains op es t where "(op, es) \<in> set (by_operation events [])"
    and "operation_approval fmt revision op es = Some a"
    and "t = date (ev_created_at (last (sort_key ev_sequence es)))"
    and "\<forall>(a', t') \<in> set (approvals_of fmt date revision (by_operation events [])). t' \<le> t"
proof -
  define l where "l = approvals_of fmt date revision (by_operation events [])"
  obtain t rest where s: "sort_key (\<lambda>p. - snd p) l = (a, t) # rest"
    using assms by (auto simp: sealedCanaryApprovalForRevision_def l_def split: list.splits)
  then have "(a, t) \<in> set l" by (metis list.set_intros(1) set_sort)
  then obtain op es where "(op, es) \<in> set (by_operation events [])"
    "operation_approval fmt revision op es = Some a"
    "t = date (ev_created_at (last (sort_key ev_sequence es)))"
    by (auto simp: l_def approvals_of_def map_filter_def split: option.splits)
  moreover have "\<forall>p \<in> set l. - t \<le> - snd p"
  proof -
    have "sorted (map (\<lambda>p. - snd p) ((a, t) # rest))"
      using sorted_sort_key [of "\<lambda>p. - snd p" l] s by simp
    moreover have "set l = set ((a, t) # rest)" by (metis s set_sort)
    ultimately show ?thesis by auto
  qed
  ultimately show thesis using that by (force simp: l_def)
qed

lemma sealed_None:
  assumes "sealedCanaryApprovalForRevision fmt date events revision = None"
    and "(op, es) \<in> set (by_operation events [])"
  shows "operation_approval fmt revision op es = None"
proof -
  have "sort_key (\<lambda>p. - snd p) (approvals_of fmt date revision (by_operation events [])) = []"
    using assms(1) by (auto simp: sealedCanaryApprovalForRevision_def split: list.splits prod.splits)
  then have "approvals_of fmt date revision (by_operation events []) = []"
    by (metis length_0_conv length_sort)
  with assms(2) show ?thesis
    by (force simp: approvals_of_def map_filter_def filter_empty_conv split: option.splits)
qed


section \<open>Properties\<close>

text \<open>
  C11: At most one release operation holds a reservation: in every reachable state of the gate
  any two unsettled reservations are the same one, it is the active one, and its operation id
  is known, however requests, durable checks, releases and aborts interleave.
\<close>

theorem gate_excludes:
  assumes "gate_reachable g" and "r \<in> gate_live g" and "r' \<in> gate_live g"
  shows "r = r' \<and> gt_active g = Some r \<and> rs_operationId r \<in> set (gt_known g)"
  using gate_reachable_inv [OF assms(1)] assms(2,3)
  by (auto simp: gate_inv_def split: option.splits)

definition sample_gate_state :: gate where
  "sample_gate_state = snd (reserve_end CheckAbsent (new_gate\<lparr>gt_checking := Some (Canary, ''c1'')\<rparr>))"

theorem gate_excludes_witness:
  "\<exists>r. r \<in> gate_live sample_gate_state \<and> gt_active sample_gate_state = Some r
     \<and> rs_operationId r \<in> set (gt_known sample_gate_state)"
proof -
  let ?g = "new_gate\<lparr>gt_checking := Some (Canary, ''c1'')\<rparr>"
  have "reserve_begin Canary ''c1'' new_gate = Inr ?g"
    by (simp add: reserve_begin_def new_gate_def)
  then have "gate_reachable ?g"
    by (intro gate_more [OF gate_start] gate_step.begin_ok) (simp add: new_gate_def)
  then have reach: "gate_reachable sample_gate_state"
    unfolding sample_gate_state_def by (rule gate_more) (rule gate_step.end_any, simp)
  have live: "\<lparr>rs_kind = Canary, rs_operationId = ''c1'', rs_token = 0\<rparr> \<in> gate_live sample_gate_state"
    by (simp add: sample_gate_state_def reserve_end_def new_gate_def gate_live_def Let_def)
  from gate_excludes [OF reach live live] live show ?thesis by blast
qed

text \<open>
  C10: A promotion capability is sound: it names an operation of the ledger whose last event is
  a completed and complete evidence bundle for the canary room and the revision; the operation's
  latest approval for that room and revision precedes the bundle and is listed in it; bundle and
  approval name the same image, which is the capability's digest; the bundle id is the bundle's;
  no blocked promotion follows the approval; and no operation with a newer bundle would have
  been approved.
\<close>

theorem sealed_approval_sound:
  assumes "sealedCanaryApprovalForRevision fmt date events revision = Some a"
  defines "mine \<equiv> filter (\<lambda>e. ev_correlation e = sa_operationId a) events"
  shows "\<exists>approval bun. approval_evidence fmt revision mine approval bun a
    \<and> (\<forall>opid es b. es = filter (\<lambda>e. ev_correlation e = opid) events \<and> es \<noteq> []
         \<and> operation_approval fmt revision opid es = Some b
         \<longrightarrow> date (ev_created_at (last (sort_key ev_sequence es))) \<le> date (ev_created_at bun))"
proof -
  obtain opid es t where mem: "(opid, es) \<in> set (by_operation events [])"
    and appr: "operation_approval fmt revision opid es = Some a"
    and t: "t = date (ev_created_at (last (sort_key ev_sequence es)))"
    and newest: "\<forall>(a', t') \<in> set (approvals_of fmt date revision (by_operation events [])). t' \<le> t"
    by (rule sealed_Some [OF assms(1)])
  obtain approval where ev: "approval_evidence fmt revision es approval (last (sort_key ev_sequence es)) a"
    and opid: "sa_operationId a = opid"
    using operation_approval_evidence [OF appr] by blast
  have es: "es = mine" using mem opid by (simp add: by_operation_mem mine_def)
  have "date (ev_created_at (last (sort_key ev_sequence es'))) \<le> t"
    if "es' = filter (\<lambda>e. ev_correlation e = op') events" "es' \<noteq> []"
      "operation_approval fmt revision op' es' = Some b" for op' es' b
  proof -
    have "(op', es') \<in> set (by_operation events [])" using that by (simp add: by_operation_mem)
    then have "(b, date (ev_created_at (last (sort_key ev_sequence es'))))
        \<in> set (approvals_of fmt date revision (by_operation events []))"
      using that(3) by (force simp: approvals_of_def map_filter_def image_iff)
    with newest show ?thesis by blast
  qed
  with ev show ?thesis unfolding es t by blast
qed

definition sample_digest :: string where
  "sample_digest = ''sha256:'' @ replicate 64 CHR ''a''"

definition sample_ledger :: "op_event list" where
  "sample_ledger =
     (let ev = (\<lambda>i sub n p. \<lparr>ev_id = i, ev_subject = sub, ev_source = ''s'', ev_workspace = ''w'',
                 ev_correlation = ''op-1'', ev_causation = None, ev_created_at = ''t'', ev_sequence = n,
                 ev_payload = [(''room_id'', JStr CANARY_ROOM_ID), (''git_revision'', JStr ''r2''),
                               (''image_digest'', JStr sample_digest)] @ p\<rparr>)
      in [ev ''a1'' PromotionApproved 1 [],
          ev ''b1'' EvidenceBundleSealed 2
            [(''status'', JStr ''completed''), (''details'', JObj [(''completeness'', JStr ''complete'')]),
             (''evidence_ids'', JArr [JStr ''a1'']), (''bundle_id'', JStr ''bundle-1'')]])"

theorem sealed_approval_sound_witness:
  "\<exists>a approval bun. sealedCanaryApprovalForRevision (\<lambda>_. []) (\<lambda>_. 0) sample_ledger ''r2'' = Some a
     \<and> approval_evidence (\<lambda>_. []) ''r2'' sample_ledger approval bun a"
proof -
  have "sealedCanaryApprovalForRevision (\<lambda>_. []) (\<lambda>_. 0) sample_ledger ''r2'' \<noteq> None"
    by code_simp
  then obtain a where a: "sealedCanaryApprovalForRevision (\<lambda>_. []) (\<lambda>_. 0) sample_ledger ''r2'' = Some a"
    by auto
  obtain approval bun where ev: "approval_evidence (\<lambda>_. []) ''r2''
      (filter (\<lambda>e. ev_correlation e = sa_operationId a) sample_ledger) approval bun a"
    using sealed_approval_sound [OF a] by blast
  then have "approval \<in> set sample_ledger" and "ev_correlation approval = sa_operationId a"
    by (simp_all add: approval_evidence_def)
  then have "sa_operationId a = ''op-1''"
    by (auto simp: sample_ledger_def Let_def)
  then have "filter (\<lambda>e. ev_correlation e = sa_operationId a) sample_ledger = sample_ledger"
    by (simp add: sample_ledger_def Let_def)
  with a ev show ?thesis by auto
qed

text \<open>
  A promotion capability is complete: when some operation of the ledger satisfies every
  condition of the projection, a capability is returned.
\<close>

theorem sealed_approval_complete:
  assumes "operation_approval fmt revision opid (filter (\<lambda>e. ev_correlation e = opid) events) = Some b"
  shows "sealedCanaryApprovalForRevision fmt date events revision \<noteq> None"
proof
  assume none: "sealedCanaryApprovalForRevision fmt date events revision = None"
  have "filter (\<lambda>e. ev_correlation e = opid) events \<noteq> []"
    using assms by (auto simp: operation_approval_def)
  then have "(opid, filter (\<lambda>e. ev_correlation e = opid) events) \<in> set (by_operation events [])"
    by (simp add: by_operation_mem)
  from sealed_None [OF none this] assms show False by simp
qed

theorem sealed_approval_complete_witness:
  "sealedCanaryApprovalForRevision (\<lambda>_. []) (\<lambda>_. 0) sample_ledger ''r2'' \<noteq> None"
proof -
  have "operation_approval (\<lambda>_. []) ''r2'' ''op-1''
      (filter (\<lambda>e. ev_correlation e = ''op-1'') sample_ledger) \<noteq> None"
    by code_simp
  then obtain b where "operation_approval (\<lambda>_. []) ''r2'' ''op-1''
      (filter (\<lambda>e. ev_correlation e = ''op-1'') sample_ledger) = Some b" by auto
  then show ?thesis by (rule sealed_approval_complete)
qed

end
