(* ===== verification/Handoff.thy ===== *)
theory Handoff
  imports Publisher
begin

text \<open>
  \<open>services/room-orchestrator/src/handoff.ts\<close>: the coordinator that moves one room to a
  new Pod.  The driver is an interface of the code and a parameter here: a record of
  computations over the driver's own state.  The coordinator's local variables are fields
  of its state, because the \<open>catch\<close> block reads what the \<open>try\<close> block left in them.
  Every driver call and every publication is appended to \<open>h_log\<close> with its outcome; the
  log is what the safety properties speak about and nothing reads it.
\<close>

section \<open>Data\<close>

record resource_ref =
  rr_name :: string
  rr_uid :: string
  rr_resourceVersion :: "string option"

record handoff_target =
  ht_roomId :: string
  ht_activeEndpoint :: string
  ht_activePod :: resource_ref
  ht_currentEpoch :: int
  ht_revision :: string
  ht_imageDigest :: "string option"
  ht_workflowRunId :: "string option"
  ht_applicationId :: "string option"

record candidate =
  cd_name :: string
  cd_uid :: string
  cd_resourceVersion :: "string option"
  cd_endpoint :: string
  cd_revision :: string
  cd_imageDigest :: "string option"

record seed_result =
  sr_checksum :: string
  sr_snapshotTick :: int
  sr_payloadBytes :: int

record catchup_result =
  cu_activeTick :: int
  cu_candidateTick :: int
  cu_lagTicks :: int
  cu_checksum :: "string option"

record post_verification =
  pv_healthy :: bool
  pv_sessionContinuity :: bool
  pv_stateChecksum :: string

record cutover_input =
  ci_operationId :: string
  ci_roomId :: string
  ci_endpoint :: string
  ci_expectedEpoch :: int
  ci_nextEpoch :: int
  ci_revision :: string
  ci_checksum :: string

record rollback_input =
  ri_operationId :: string
  ri_roomId :: string
  ri_endpoint :: string
  ri_expectedEpoch :: int
  ri_nextEpoch :: int
  ri_revision :: string

record sessions_result =
  sx_sessions :: int
  sx_replayedInputs :: int

record rollback_result =
  rx_sessions :: int
  rx_replayedInputs :: int
  rx_roomEpoch :: int

record 'd handoff_driver =
  scheduleCandidate :: "handoff_target \<Rightarrow> string \<Rightarrow> ('d, exn, candidate) eff"
  waitUntilReady :: "candidate \<Rightarrow> ('d, exn, unit) eff"
  freezeGateway :: "string \<Rightarrow> string \<Rightarrow> int \<Rightarrow> ('d, exn, int \<times> int) eff"
  abortGatewayPreparation :: "string \<Rightarrow> string \<Rightarrow> ('d, exn, unit) eff"
  seedSnapshot :: "handoff_target \<Rightarrow> candidate \<Rightarrow> ('d, exn, seed_result) eff"
  catchUpJournal :: "handoff_target \<Rightarrow> candidate \<Rightarrow> int \<Rightarrow> ('d, exn, catchup_result) eff"
  candidateChecksum :: "candidate \<Rightarrow> ('d, exn, string) eff"
  cutoverGateway :: "cutover_input \<Rightarrow> ('d, exn, sessions_result) eff"
  rollbackGateway :: "rollback_input \<Rightarrow> ('d, exn, rollback_result) eff"
  verifyCandidate :: "candidate \<Rightarrow> string \<Rightarrow> ('d, exn, post_verification) eff"
  activateCandidate :: "handoff_target \<Rightarrow> candidate \<Rightarrow> int \<Rightarrow> string \<Rightarrow> ('d, exn, string) eff"
  finalizeGateway :: "string \<Rightarrow> string \<Rightarrow> int \<Rightarrow> ('d, exn, unit) eff"
  drainOldPod :: "handoff_target \<Rightarrow> ('d, exn, unit) eff"
  discardCandidate :: "candidate \<Rightarrow> string \<Rightarrow> ('d, exn, unit) eff"

record handoff_result =
  hr_operationId :: string
  hr_roomId :: string
  hr_oldEpoch :: int
  hr_newEpoch :: int
  hr_checksum :: string
  hr_sessions :: int
  hr_replayedInputs :: int
  hr_candidate :: candidate

datatype handoff_stage = StSchedule | StReady | StFreeze | StSnapshot | StJournal | StChecksum
  | StCutover | StVerify | StActivate | StDrain

fun stage_name :: "handoff_stage \<Rightarrow> string" where
  "stage_name StSchedule = ''schedule''"
| "stage_name StReady = ''ready''"
| "stage_name StFreeze = ''freeze''"
| "stage_name StSnapshot = ''snapshot''"
| "stage_name StJournal = ''journal''"
| "stage_name StChecksum = ''checksum''"
| "stage_name StCutover = ''cutover''"
| "stage_name StVerify = ''verify''"
| "stage_name StActivate = ''activate''"
| "stage_name StDrain = ''drain''"

section \<open>The coordinator's state\<close>

text \<open>A driver call or publication as the log records it, and how it ended.\<close>

datatype hcall = CSchedule | CReady | CFreeze int | CAbort | CSeed | CCatchUp int | CChecksum
  | CActivate int string | CCutover int int string | CVerify string | CFinalize int | CDrain
  | CRollback int int | CDiscard | CPublish subject

datatype hreply = Threw | Done | GotChecksum string | GotCaughtUp catchup_result
  | GotVerdict bool bool

record ('d, 't) hstate =
  h_activeOperation :: "string option"
  h_driver :: 'd
  h_events :: "'t publisher"
  h_stage :: handoff_stage
  h_candidate :: "candidate option"
  h_gatewayFrozen :: bool
  h_authorityTransferStarted :: bool
  h_authorityCommitted :: bool
  h_cutoverCommitted :: bool
  h_committedEpoch :: int
  h_log :: "(hcall \<times> hreply) list"

record coordinator =
  co_workspaceId :: string
  co_clusterId :: string
  co_namespace :: string
  co_totalWaves :: jsnum

definition new_coordinator :: "string \<Rightarrow> string \<Rightarrow> string \<Rightarrow> jsnum \<Rightarrow> string + coordinator" where
  "new_coordinator ws cl ns waves =
     (if \<not> is_safe_integer waves \<or> js_lt waves (js_int 1) then Inl ''invalid_handoff_total_waves''
      else Inr \<lparr>co_workspaceId = ws, co_clusterId = cl, co_namespace = ns, co_totalWaves = waves\<rparr>)"

definition drv_call ::
  "hcall \<Rightarrow> ('a \<Rightarrow> hreply) \<Rightarrow> ('d, exn, 'a) eff \<Rightarrow> (('d, 't) hstate, exn, 'a) eff" where
  "drv_call c rep m = (\<lambda>s. case m (h_driver s) of
     (Inl e, d) \<Rightarrow> (Inl e, s\<lparr>h_driver := d, h_log := h_log s @ [(c, Threw)]\<rparr>)
   | (Inr a, d) \<Rightarrow> (Inr a, s\<lparr>h_driver := d, h_log := h_log s @ [(c, rep a)]\<rparr>))"

text \<open>What one handoff closes over: the driver, the transport, the context and \<open>common\<close>.\<close>

record ('d, 't) handoff_env =
  he_driver :: "'d handoff_driver"
  he_persist :: "'t persist"
  he_sources :: uid_source
  he_context :: op_context
  he_target :: handoff_target
  he_common :: obj
  he_wave :: obj

definition pub_call ::
  "('d, 't) handoff_env \<Rightarrow> subject \<Rightarrow> obj \<Rightarrow> (('d, 't) hstate, exn, op_event) eff" where
  "pub_call env subj flds = (\<lambda>s.
     case publish (he_persist env) (he_sources env) (he_context env) subj
            (he_common env @ flds) (h_events s) of
     (Inl e, p) \<Rightarrow> (Inl e, s\<lparr>h_events := p, h_log := h_log s @ [(CPublish subj, Threw)]\<rparr>)
   | (Inr a, p) \<Rightarrow> (Inr a, s\<lparr>h_events := p, h_log := h_log s @ [(CPublish subj, Done)]\<rparr>))"

definition set_stage :: "handoff_stage \<Rightarrow> (('d, 't) hstate, exn, unit) eff" where
  "set_stage st = modifyE (\<lambda>s. s\<lparr>h_stage := st\<rparr>)"

definition jint :: "int \<Rightarrow> jv" where
  "jint i = JNum (js_int i)"

definition ref_jv :: "resource_ref \<Rightarrow> jv" where
  "ref_jv r = JObj [(''kind'', JStr ''Pod''), (''name'', JStr (rr_name r)), (''uid'', JStr (rr_uid r)),
                    (''resourceVersion'', opt_str (rr_resourceVersion r))]"

definition candidate_jv :: "candidate \<Rightarrow> jv" where
  "candidate_jv c =
     JObj [(''kind'', JStr ''Pod''), (''name'', JStr (cd_name c)), (''uid'', JStr (cd_uid c)),
           (''resourceVersion'', opt_str (cd_resourceVersion c)), (''endpoint'', JStr (cd_endpoint c)),
           (''revision'', JStr (cd_revision c)), (''imageDigest'', opt_str (cd_imageDigest c))]"

definition done_reply :: "'a \<Rightarrow> hreply" where
  "done_reply _ = Done"

definition str_truthy :: "string option \<Rightarrow> bool" where
  "str_truthy x = (case x of None \<Rightarrow> False | Some s \<Rightarrow> s \<noteq> [])"

section \<open>The stages of the \<open>try\<close> block\<close>

definition stage_schedule :: "('d, 't) handoff_env \<Rightarrow> (('d, 't) hstate, exn, candidate) eff" where
  "stage_schedule env =
     (let t = he_target env; drv = he_driver env in
      thenE (pub_call env RolloutWaveStarted
               (he_wave env @ [(''room_epoch'', jint (ht_currentEpoch t)), (''status'', JStr ''running'')]))
      (bindE (drv_call CSchedule done_reply (scheduleCandidate drv t (oc_operationId (he_context env)))) (\<lambda>c.
       thenE (modifyE (\<lambda>s. s\<lparr>h_candidate := Some c\<rparr>))
      (thenE (guardE (cd_revision c = ht_revision t) (Err ''candidate_revision_mismatch''))
      (thenE (guardE (\<not> (str_truthy (ht_imageDigest t) \<and> cd_imageDigest c \<noteq> ht_imageDigest t))
               (Err ''candidate_image_digest_mismatch''))
      (thenE (pub_call env RoomCandidateScheduled
               ([(''resource_ref'', candidate_jv c)]
                @ (if str_truthy (cd_imageDigest c) then [(''image_digest'', opt_str (cd_imageDigest c))] else [])
                @ [(''room_epoch'', jint (ht_currentEpoch t)), (''status'', JStr ''running'')]))
      (ret c)))))))"

definition stage_ready :: "('d, 't) handoff_env \<Rightarrow> candidate \<Rightarrow> (('d, 't) hstate, exn, unit) eff" where
  "stage_ready env c =
     thenE (set_stage StReady)
     (thenE (drv_call CReady done_reply (waitUntilReady (he_driver env) c))
     (thenE (pub_call env RoomCandidateReady
               [(''resource_ref'', candidate_jv c), (''status'', JStr ''completed'')])
     (ret ())))"

definition stage_freeze :: "('d, 't) handoff_env \<Rightarrow> (('d, 't) hstate, exn, int \<times> int) eff" where
  "stage_freeze env =
     (let t = he_target env in
      thenE (set_stage StFreeze)
      (bindE (drv_call (CFreeze (ht_currentEpoch t)) done_reply
                (freezeGateway (he_driver env) (oc_operationId (he_context env)) (ht_roomId t) (ht_currentEpoch t)))
         (\<lambda>frozen.
       thenE (modifyE (\<lambda>s. s\<lparr>h_gatewayFrozen := True\<rparr>))
       (ret frozen))))"

definition stage_snapshot ::
  "('d, 't) handoff_env \<Rightarrow> candidate \<Rightarrow> int \<times> int \<Rightarrow> (('d, 't) hstate, exn, seed_result) eff" where
  "stage_snapshot env c frozen =
     thenE (set_stage StSnapshot)
     (bindE (drv_call CSeed (\<lambda>r. GotChecksum (sr_checksum r))
               (seedSnapshot (he_driver env) (he_target env) c)) (\<lambda>seeded.
      thenE (pub_call env RoomSnapshotSeeded
               [(''resource_ref'', candidate_jv c), (''server_tick'', jint (sr_snapshotTick seeded)),
                (''state_checksum'', JStr (sr_checksum seeded)),
                (''payload_bytes'', jint (sr_payloadBytes seeded)),
                (''frozen_sessions'', jint (fst frozen)), (''buffered_inputs'', jint (snd frozen)),
                (''status'', JStr ''completed'')])
      (ret seeded)))"

definition stage_journal ::
  "('d, 't) handoff_env \<Rightarrow> candidate \<Rightarrow> seed_result \<Rightarrow> (('d, 't) hstate, exn, string) eff" where
  "stage_journal env c seeded =
     thenE (set_stage StJournal)
     (bindE (drv_call (CCatchUp (sr_snapshotTick seeded)) GotCaughtUp
               (catchUpJournal (he_driver env) (he_target env) c (sr_snapshotTick seeded))) (\<lambda>caught.
      thenE (guardE (cu_lagTicks caught = 0 \<and> cu_candidateTick caught = cu_activeTick caught)
               (Err (''candidate_tick_lag:'' @ show_int (cu_lagTicks caught))))
      (let expected = (case cu_checksum caught of None \<Rightarrow> sr_checksum seeded | Some x \<Rightarrow> x) in
       thenE (pub_call env RoomJournalCaughtUp
               [(''resource_ref'', candidate_jv c), (''server_tick'', jint (cu_candidateTick caught)),
                (''lag_ticks'', jint (cu_lagTicks caught)), (''state_checksum'', JStr expected),
                (''status'', JStr ''completed'')])
       (ret expected))))"

definition stage_checksum ::
  "('d, 't) handoff_env \<Rightarrow> candidate \<Rightarrow> string \<Rightarrow> (('d, 't) hstate, exn, string) eff" where
  "stage_checksum env c expected =
     thenE (set_stage StChecksum)
     (bindE (drv_call CChecksum GotChecksum (candidateChecksum (he_driver env) c)) (\<lambda>actual.
      if actual \<noteq> expected then
        thenE (pub_call env RoomChecksumMismatched
                 [(''resource_ref'', candidate_jv c), (''expected_checksum'', JStr expected),
                  (''actual_checksum'', JStr actual), (''status'', JStr ''blocked''),
                  (''reason_code'', JStr ''state_checksum_mismatch'')])
        (throwE (Err ''state_checksum_mismatch''))
      else
        thenE (pub_call env RoomChecksumMatched
                 [(''resource_ref'', candidate_jv c), (''state_checksum'', JStr actual),
                  (''status'', JStr ''completed'')])
        (ret actual)))"

definition stage_activate ::
  "('d, 't) handoff_env \<Rightarrow> candidate \<Rightarrow> string \<Rightarrow> (('d, 't) hstate, exn, string) eff" where
  "stage_activate env c checksum =
     (let t = he_target env; newEpoch = ht_currentEpoch t + 1 in
      thenE (set_stage StActivate)
      (thenE (modifyE (\<lambda>s. s\<lparr>h_authorityTransferStarted := True\<rparr>))
      (bindE (drv_call (CActivate newEpoch checksum) GotChecksum
                (activateCandidate (he_driver env) t c newEpoch checksum)) (\<lambda>authority.
       thenE (modifyE (\<lambda>s. s\<lparr>h_authorityCommitted := True, h_committedEpoch := newEpoch\<rparr>))
       (thenE (pub_call env RoomEpochFenced
                 [(''resource_ref'', candidate_jv c), (''old_epoch'', jint (ht_currentEpoch t)),
                  (''room_epoch'', jint newEpoch), (''state_checksum'', JStr authority),
                  (''status'', JStr ''completed'')])
       (ret authority))))))"

definition stage_cutover ::
  "('d, 't) handoff_env \<Rightarrow> candidate \<Rightarrow> string \<Rightarrow> (('d, 't) hstate, exn, sessions_result) eff" where
  "stage_cutover env c checksum =
     (let t = he_target env; newEpoch = ht_currentEpoch t + 1 in
      thenE (set_stage StCutover)
      (bindE (drv_call (CCutover (ht_currentEpoch t) newEpoch checksum) done_reply
                (cutoverGateway (he_driver env)
                   \<lparr>ci_operationId = oc_operationId (he_context env), ci_roomId = ht_roomId t,
                    ci_endpoint = cd_endpoint c, ci_expectedEpoch = ht_currentEpoch t,
                    ci_nextEpoch = newEpoch, ci_revision = ht_revision t, ci_checksum = checksum\<rparr>))
         (\<lambda>cutover.
       thenE (modifyE (\<lambda>s. s\<lparr>h_cutoverCommitted := True, h_gatewayFrozen := False\<rparr>))
       (thenE (pub_call env RoomGatewayCutover
                 [(''resource_ref'', candidate_jv c), (''room_epoch'', jint newEpoch),
                  (''sessions'', jint (sx_sessions cutover)), (''status'', JStr ''completed'')])
       (thenE (pub_call env RoomInputReplayCompleted
                 [(''resource_ref'', candidate_jv c), (''room_epoch'', jint newEpoch),
                  (''replayed_inputs'', jint (sx_replayedInputs cutover)), (''status'', JStr ''completed'')])
       (ret cutover))))))"

definition stage_verify ::
  "('d, 't) handoff_env \<Rightarrow> candidate \<Rightarrow> string \<Rightarrow> (('d, 't) hstate, exn, unit) eff" where
  "stage_verify env c checksum =
     (let t = he_target env; newEpoch = ht_currentEpoch t + 1 in
      thenE (set_stage StVerify)
      (bindE (drv_call (CVerify checksum) (\<lambda>v. GotVerdict (pv_healthy v) (pv_sessionContinuity v))
                (verifyCandidate (he_driver env) c checksum)) (\<lambda>v.
       thenE (guardE (pv_healthy v \<and> pv_sessionContinuity v) (Err ''post_cutover_verification_failed''))
       (thenE (pub_call env RoomPostVerificationCompleted
                 [(''resource_ref'', candidate_jv c), (''room_epoch'', jint newEpoch),
                  (''session_continuity'', JBool (pv_sessionContinuity v)),
                  (''state_checksum'', JStr (pv_stateChecksum v)), (''status'', JStr ''completed'')])
       (drv_call (CFinalize newEpoch) done_reply
          (finalizeGateway (he_driver env) (oc_operationId (he_context env)) (ht_roomId t) newEpoch))))))"

definition stage_drain :: "('d, 't) handoff_env \<Rightarrow> (('d, 't) hstate, exn, unit) eff" where
  "stage_drain env =
     (let t = he_target env; newEpoch = ht_currentEpoch t + 1 in
      thenE (set_stage StDrain)
      (thenE (drv_call CDrain done_reply (drainOldPod (he_driver env) t))
      (thenE (pub_call env RoomOldPodDrained
                [(''resource_ref'', ref_jv (ht_activePod t)), (''room_epoch'', jint newEpoch),
                 (''status'', JStr ''completed'')])
      (thenE (pub_call env RolloutWaveCompleted
                (he_wave env @ [(''room_epoch'', jint newEpoch), (''status'', JStr ''completed'')]))
      (ret ())))))"

definition handoff_try :: "('d, 't) handoff_env \<Rightarrow> (('d, 't) hstate, exn, handoff_result) eff" where
  "handoff_try env =
     bindE (stage_schedule env) (\<lambda>c.
     thenE (stage_ready env c)
     (bindE (stage_freeze env) (\<lambda>frozen.
     bindE (stage_snapshot env c frozen) (\<lambda>seeded.
     bindE (stage_journal env c seeded) (\<lambda>expected.
     bindE (stage_checksum env c expected) (\<lambda>checksum.
     bindE (stage_activate env c checksum) (\<lambda>authority.
     bindE (stage_cutover env c authority) (\<lambda>cutover.
     thenE (stage_verify env c authority)
     (thenE (stage_drain env)
     (ret \<lparr>hr_operationId = oc_operationId (he_context env),
           hr_roomId = ht_roomId (he_target env),
           hr_oldEpoch = ht_currentEpoch (he_target env),
           hr_newEpoch = ht_currentEpoch (he_target env) + 1,
           hr_checksum = authority, hr_sessions = sx_sessions cutover,
           hr_replayedInputs = sx_replayedInputs cutover, hr_candidate = c\<rparr>))))))))))"

section \<open>The \<open>catch\<close> block\<close>

record recovery =
  rv_reason :: string
  rv_rollback :: string
  rv_reportedEpoch :: int
  rv_mayDiscard :: bool

definition note_committed :: "exn \<Rightarrow> ('d, 't) hstate \<Rightarrow> ('d, 't) hstate" where
  "note_committed error s =
     (case error of
        CutoverCommitted _ epoch \<Rightarrow>
          s\<lparr>h_cutoverCommitted := True, h_gatewayFrozen := False, h_committedEpoch := epoch\<rparr>
      | _ \<Rightarrow> s)"

definition initial_recovery :: "exn \<Rightarrow> ('d, 't) hstate \<Rightarrow> recovery" where
  "initial_recovery error s =
     \<lparr>rv_reason = message_or ''room_handoff_failed'' error, rv_rollback = ''active_preserved'',
      rv_reportedEpoch = h_committedEpoch s,
      rv_mayDiscard = (\<not> h_authorityTransferStarted s \<and> \<not> h_cutoverCommitted s)\<rparr>"

definition recover_abort ::
  "('d, 't) handoff_env \<Rightarrow> recovery \<Rightarrow> (('d, 't) hstate, exn, recovery) eff" where
  "recover_abort env rv =
     bindE (getsE (\<lambda>s. h_gatewayFrozen s \<and> \<not> h_authorityTransferStarted s \<and> \<not> h_cutoverCommitted s)) (\<lambda>b.
       if b then
         catchE
           (thenE (drv_call CAbort done_reply
                     (abortGatewayPreparation (he_driver env) (oc_operationId (he_context env))
                        (ht_roomId (he_target env))))
           (thenE (modifyE (\<lambda>s. s\<lparr>h_gatewayFrozen := False\<rparr>))
           (ret (rv\<lparr>rv_rollback := ''active_resumed''\<rparr>))))
           (\<lambda>e. ret (rv\<lparr>rv_reason := rv_reason rv @ '';abort:'' @ message_or ''gateway_abort_failed'' e,
                       rv_rollback := ''gateway_abort_failed'', rv_mayDiscard := False\<rparr>))
       else ret rv)"

definition recover_rollback ::
  "('d, 't) handoff_env \<Rightarrow> recovery \<Rightarrow> (('d, 't) hstate, exn, recovery) eff" where
  "recover_rollback env rv =
     bindE (getsE id) (\<lambda>s.
       if (h_authorityTransferStarted s \<or> h_cutoverCommitted s \<or> h_authorityCommitted s)
          \<and> h_stage s \<noteq> StDrain then
         (let t = he_target env; expected = h_committedEpoch s; next = expected + 1 in
          catchE
            (bindE (drv_call (CRollback expected next) done_reply
                      (rollbackGateway (he_driver env)
                         \<lparr>ri_operationId = oc_operationId (he_context env), ri_roomId = ht_roomId t,
                          ri_endpoint = ht_activeEndpoint t, ri_expectedEpoch = expected,
                          ri_nextEpoch = next, ri_revision = ht_revision t\<rparr>)) (\<lambda>recovered.
             ret (rv\<lparr>rv_reportedEpoch := rx_roomEpoch recovered, rv_rollback := ''gateway_rolled_back'',
                     rv_mayDiscard := True\<rparr>)))
            (\<lambda>e. ret (rv\<lparr>rv_reason := rv_reason rv @ '';rollback:'' @ message_or ''gateway_rollback_failed'' e,
                        rv_rollback := ''rollback_failed_candidate_retained'', rv_mayDiscard := False\<rparr>)))
       else if h_cutoverCommitted s \<or> h_authorityCommitted s then
         ret (rv\<lparr>rv_rollback := ''candidate_retained_after_drain_failure''\<rparr>)
       else ret rv)"

definition recover_discard ::
  "('d, 't) handoff_env \<Rightarrow> recovery \<Rightarrow> (('d, 't) hstate, exn, unit) eff" where
  "recover_discard env rv =
     bindE (getsE id) (\<lambda>s.
       case h_candidate s of
         None \<Rightarrow> ret ()
       | Some c \<Rightarrow>
           if rv_mayDiscard rv \<and> h_stage s \<noteq> StDrain
           then ignoreE (drv_call CDiscard done_reply (discardCandidate (he_driver env) c (rv_reason rv)))
           else ret ())"

definition recover_report ::
  "('d, 't) handoff_env \<Rightarrow> recovery \<Rightarrow> (('d, 't) hstate, exn, unit) eff" where
  "recover_report env rv =
     bindE (getsE id) (\<lambda>s.
      thenE (pub_call env RoomHandoffFailed
               [(''resource_ref'', case h_candidate s of None \<Rightarrow> JUndef | Some c \<Rightarrow> candidate_jv c),
                (''room_epoch'', jint (rv_reportedEpoch rv)),
                (''failed_stage'', JStr (stage_name (h_stage s))), (''status'', JStr ''failed''),
                (''reason_code'', JStr (rv_reason rv)), (''rollback'', JStr (rv_rollback rv))])
      (thenE (pub_call env RolloutWaveBlocked
               (he_wave env @ [(''room_epoch'', jint (rv_reportedEpoch rv)),
                (''failed_stage'', JStr (stage_name (h_stage s))), (''status'', JStr ''blocked''),
                (''reason_code'', JStr (rv_reason rv))]))
      (ret ())))"

definition handoff_catch ::
  "('d, 't) handoff_env \<Rightarrow> exn \<Rightarrow> (('d, 't) hstate, exn, handoff_result) eff" where
  "handoff_catch env error =
     thenE (modifyE (note_committed error))
     (bindE (getsE (initial_recovery error)) (\<lambda>rv0.
      bindE (recover_abort env rv0) (\<lambda>rv1.
      bindE (recover_rollback env rv1) (\<lambda>rv2.
      thenE (recover_discard env rv2)
      (thenE (recover_report env rv2)
      (throwE error))))))"

section \<open>One handoff\<close>

definition handoff_common :: "coordinator \<Rightarrow> handoff_target \<Rightarrow> op_context \<Rightarrow> obj" where
  "handoff_common co t c =
     [(''operation_id'', JStr (oc_operationId c)), (''workflow_run_id'', opt_str (oc_workflowRunId c)),
      (''application_id'', opt_str (oc_applicationId c)), (''cluster_id'', JStr (co_clusterId co)),
      (''namespace'', JStr (co_namespace co)), (''room_id'', JStr (ht_roomId t)),
      (''git_revision'', JStr (ht_revision t))]"

definition begin_locals :: "handoff_target \<Rightarrow> string \<Rightarrow> ('d, 't) hstate \<Rightarrow> ('d, 't) hstate" where
  "begin_locals t op s =
     s\<lparr>h_activeOperation := Some op, h_stage := StSchedule, h_candidate := None,
       h_gatewayFrozen := False, h_authorityTransferStarted := False, h_authorityCommitted := False,
       h_cutoverCommitted := False, h_committedEpoch := ht_currentEpoch t\<rparr>"

definition handoff_env_for ::
  "coordinator \<Rightarrow> 'd handoff_driver \<Rightarrow> 't persist \<Rightarrow> uid_source \<Rightarrow> handoff_target \<Rightarrow> string \<Rightarrow> nat
     \<Rightarrow> ('d, 't) handoff_env" where
  "handoff_env_for co drv persist sp t op ordinal =
     (let c = \<lparr>oc_operationId = op, oc_workspaceId = co_workspaceId co,
               oc_workflowRunId = (case ht_workflowRunId t of None \<Rightarrow> Some op | Some w \<Rightarrow> Some w),
               oc_applicationId = (case ht_applicationId t of None \<Rightarrow> Some ''demo-game'' | Some a \<Rightarrow> Some a),
               oc_source = None\<rparr>
      in \<lparr>he_driver = drv, he_persist = persist, he_sources = sp, he_context = c, he_target = t,
          he_common = handoff_common co t c,
          he_wave = [(''wave_number'', jint (int ordinal + 1)), (''total_waves'', JNum (co_totalWaves co))]\<rparr>)"

text \<open>\<open>fresh\<close> is what \<open>randomUUID()\<close> returns when no operation id is requested.\<close>

definition handoff ::
  "coordinator \<Rightarrow> 'd handoff_driver \<Rightarrow> 't persist \<Rightarrow> uid_source \<Rightarrow> string \<Rightarrow> handoff_target
     \<Rightarrow> string option \<Rightarrow> (('d, 't) hstate, exn, handoff_result) eff" where
  "handoff co drv persist sp fresh t requested =
     bindE (getsE h_activeOperation) (\<lambda>active.
      if (case active of None \<Rightarrow> False | Some a \<Rightarrow> a \<noteq> []) then throwE (Err ''handoff_wave_already_running'')
      else (case room_ordinal (ht_roomId t) of
        None \<Rightarrow> throwE (Err ''invalid_handoff_wave_room'')
      | Some ordinal \<Rightarrow>
          if \<not> safe_int (int ordinal) \<or> js_le (co_totalWaves co) (js_int (int ordinal))
          then throwE (Err ''invalid_handoff_wave_room'')
          else (let op = (case requested of None \<Rightarrow> ''op_'' @ fresh | Some r \<Rightarrow> r);
                    env = handoff_env_for co drv persist sp t op ordinal
                in thenE (modifyE (begin_locals t op))
                   (finallyE (catchE (handoff_try env) (handoff_catch env))
                      (\<lambda>s. s\<lparr>h_activeOperation := None\<rparr>)))))"

end
