(* ===== verification/HandoffSafety.thy ===== *)
theory HandoffSafety
  imports Handoff
begin

text \<open>
  What a handoff guarantees whatever the driver, the event transport and their failures
  do: the protocol that every driver call follows, the exact run of a successful handoff,
  the reports of a failed one.
\<close>

section \<open>Verification conditions of driver calls\<close>

lemma wp_any: "(\<And>a d. Q a d) \<Longrightarrow> (\<And>e d. E e d) \<Longrightarrow> wp m Q E s"
  by (auto simp: wp_def split: prod.splits sum.splits)

lemma wp_drv_call:
  assumes "\<And>a d. Q a (s\<lparr>h_driver := d, h_log := h_log s @ [(c, rep a)]\<rparr>)"
    and "\<And>e d. E e (s\<lparr>h_driver := d, h_log := h_log s @ [(c, Threw)]\<rparr>)"
  shows "wp (drv_call c rep m) Q E s"
  using assms by (auto simp: wp_def drv_call_def split: prod.splits sum.splits)

lemma wp_pub_call:
  assumes "\<And>a p. Q a (s\<lparr>h_events := p, h_log := h_log s @ [(CPublish subj, Done)]\<rparr>)"
    and "\<And>e p. E e (s\<lparr>h_events := p, h_log := h_log s @ [(CPublish subj, Threw)]\<rparr>)"
  shows "wp (pub_call env subj flds) Q E s"
  using assms by (auto simp: wp_def pub_call_def split: prod.splits sum.splits)

lemma wp_set_stage: "wp (set_stage st) Q E s = Q () (s\<lparr>h_stage := st\<rparr>)"
  by (simp add: set_stage_def)

section \<open>The protocol\<close>

definition tried_activate :: "(hcall \<times> hreply) list \<Rightarrow> bool" where
  "tried_activate l = list_ex (\<lambda>(c, _). case c of CActivate _ _ \<Rightarrow> True | _ \<Rightarrow> False) l"

definition tried_drain :: "(hcall \<times> hreply) list \<Rightarrow> bool" where
  "tried_drain l = list_ex (\<lambda>(c, _). c = CDrain) l"

definition rolled_back :: "(hcall \<times> hreply) list \<Rightarrow> bool" where
  "rolled_back l = list_ex (\<lambda>(c, r). r = Done \<and> (case c of CRollback _ _ \<Rightarrow> True | _ \<Rightarrow> False)) l"

definition verified :: "(hcall \<times> hreply) list \<Rightarrow> bool" where
  "verified l = list_ex (\<lambda>(c, r). r = GotVerdict True True \<and> (case c of CVerify _ \<Rightarrow> True | _ \<Rightarrow> False)) l"

text \<open>
  The state the Candidate has to show before authority moves: the checksum of a catch-up
  without lag, or that of the seeded snapshot when the catch-up names none.
\<close>

definition caught_up :: "(catchup_result \<Rightarrow> bool) \<Rightarrow> (hcall \<times> hreply) list \<Rightarrow> bool" where
  "caught_up P l = list_ex (\<lambda>(c, r). case (c, r) of
     (CCatchUp _, GotCaughtUp u) \<Rightarrow> cu_lagTicks u = 0 \<and> cu_candidateTick u = cu_activeTick u \<and> P u
   | _ \<Rightarrow> False) l"

definition expects :: "string \<Rightarrow> (hcall \<times> hreply) list \<Rightarrow> bool" where
  "expects ck l = caught_up (\<lambda>u. cu_checksum u = Some ck
     \<or> cu_checksum u = None \<and> (CSeed, GotChecksum ck) \<in> set l) l"

definition tried :: "(hcall \<Rightarrow> bool) \<Rightarrow> (hcall \<times> hreply) list \<Rightarrow> bool" where
  "tried P l = list_ex (\<lambda>x. P (fst x)) l"

fun is_rollback :: "hcall \<Rightarrow> bool" where
  "is_rollback (CRollback _ _) = True"
| "is_rollback _ = False"

fun is_catch_up :: "hcall \<Rightarrow> bool" where
  "is_catch_up (CCatchUp _) = True"
| "is_catch_up _ = False"

definition activated_with :: "int \<Rightarrow> string \<Rightarrow> (hcall \<times> hreply) list \<Rightarrow> bool" where
  "activated_with n ck l = list_ex (\<lambda>(c, r). r = GotChecksum ck \<and>
      (case c of CActivate m _ \<Rightarrow> m = n | _ \<Rightarrow> False)) l"

text \<open>
  When a call may happen, in terms of what happened before it, for a room whose current
  epoch is \<open>ep\<close>.
\<close>

fun call_allowed :: "int \<Rightarrow> (hcall \<times> hreply) list \<Rightarrow> hcall \<Rightarrow> bool" where
  "call_allowed ep l (CFreeze e) = (e = ep \<and> (CReady, Done) \<in> set l)"
| "call_allowed ep l CSeed = ((CFreeze ep, Done) \<in> set l \<and> \<not> tried (\<lambda>c. c = CSeed) l)"
| "call_allowed ep l (CCatchUp _) =
     ((\<exists>ck. (CSeed, GotChecksum ck) \<in> set l) \<and> \<not> tried is_catch_up l)"
| "call_allowed ep l CChecksum = (caught_up (\<lambda>_. True) l \<and> \<not> tried (\<lambda>c. c = CChecksum) l)"
| "call_allowed ep l (CActivate n ck) =
     (n = ep + 1 \<and> (CChecksum, GotChecksum ck) \<in> set l \<and> expects ck l
      \<and> (CFreeze ep, Done) \<in> set l \<and> \<not> tried_activate l)"
| "call_allowed ep l (CCutover e n ck) = (e = ep \<and> n = ep + 1 \<and> activated_with n ck l)"
| "call_allowed ep l (CVerify ck) = ((CCutover ep (ep + 1) ck, Done) \<in> set l)"
| "call_allowed ep l (CFinalize n) = (n = ep + 1 \<and> verified l)"
| "call_allowed ep l CDrain = ((CFinalize (ep + 1), Done) \<in> set l)"
| "call_allowed ep l CAbort = ((CFreeze ep, Done) \<in> set l \<and> \<not> tried_activate l)"
| "call_allowed ep l (CRollback e n) = (n = e + 1 \<and> \<not> tried_drain l)"
| "call_allowed ep l CDiscard =
     ((CSchedule, Done) \<in> set l \<and> \<not> tried_drain l \<and> (tried_activate l \<longrightarrow> rolled_back l))"
| "call_allowed ep l _ = True"

fun follows :: "int \<Rightarrow> (hcall \<times> hreply) list \<Rightarrow> (hcall \<times> hreply) list \<Rightarrow> bool" where
  "follows ep pre [] = True"
| "follows ep pre (x # xs) = (call_allowed ep pre (fst x) \<and> follows ep (pre @ [x]) xs)"

lemma follows_append [simp]:
  "follows ep pre (xs @ ys) = (follows ep pre xs \<and> follows ep (pre @ xs) ys)"
  by (induction ep pre xs rule: follows.induct) simp_all

text \<open>The predicates on logs, along the ways a log grows.\<close>

lemma tried_simps [simp]:
  "tried P [] = False" "tried P (x # l) = (P (fst x) \<or> tried P l)"
  "tried P (l @ m) = (tried P l \<or> tried P m)"
  "tried (\<lambda>c. P1 c \<or> P2 c) l = (tried P1 l \<or> tried P2 l)"
  by (auto simp: tried_def list_ex_iff)

lemma tried_activate_simps [simp]:
  "tried_activate [] = False"
  "tried_activate (x # l) = ((case fst x of CActivate _ _ \<Rightarrow> True | _ \<Rightarrow> False) \<or> tried_activate l)"
  "tried_activate (l @ m) = (tried_activate l \<or> tried_activate m)"
  by (auto simp: tried_activate_def split: prod.splits)

lemma tried_drain_simps [simp]:
  "tried_drain [] = False" "tried_drain (x # l) = (fst x = CDrain \<or> tried_drain l)"
  "tried_drain (l @ m) = (tried_drain l \<or> tried_drain m)"
  by (auto simp: tried_drain_def split: prod.splits)

lemma rolled_back_simps [simp]:
  "rolled_back [] = False" "rolled_back (x # l) = ((snd x = Done \<and> is_rollback (fst x)) \<or> rolled_back l)"
  "rolled_back (l @ m) = (rolled_back l \<or> rolled_back m)"
  by (auto simp: rolled_back_def split: prod.splits hcall.splits)

lemma rolled_back_tried: "rolled_back l \<Longrightarrow> tried is_rollback l"
  by (induction l) (auto split: hcall.splits)

lemma caught_up_simps [simp]:
  "caught_up P [] = False"
  "caught_up P ((c, r) # l) = (is_catch_up c \<and> (case r of GotCaughtUp u \<Rightarrow>
      cu_lagTicks u = 0 \<and> cu_candidateTick u = cu_activeTick u \<and> P u | _ \<Rightarrow> False) \<or> caught_up P l)"
  "caught_up P (l @ m) = (caught_up P l \<or> caught_up P m)"
  by (auto simp: caught_up_def split: hcall.splits)

lemma caught_up_mono: "caught_up P l \<Longrightarrow> (\<And>u. P u \<Longrightarrow> R u) \<Longrightarrow> caught_up R l"
  by (induction l) (auto split: hreply.splits)

lemma expects_append: "expects ck l \<Longrightarrow> expects ck (l @ m)"
  by (auto simp: expects_def elim: caught_up_mono)

lemma expects_caught_up: "expects ck l \<Longrightarrow> caught_up (\<lambda>_. True) l"
  by (auto simp: expects_def elim: caught_up_mono)

lemma verified_simps [simp]:
  "verified [] = False"
  "verified (x # l) = ((snd x = GotVerdict True True \<and> (case fst x of CVerify _ \<Rightarrow> True | _ \<Rightarrow> False)) \<or> verified l)"
  "verified (l @ m) = (verified l \<or> verified m)"
  by (auto simp: verified_def split: prod.splits)

lemma activated_with_simps [simp]:
  "activated_with n ck [] = False"
  "activated_with n ck (x # l) = ((snd x = GotChecksum ck \<and> (case fst x of CActivate m _ \<Rightarrow> m = n | _ \<Rightarrow> False))
      \<or> activated_with n ck l)"
  "activated_with n ck (l @ m) = (activated_with n ck l \<or> activated_with n ck m)"
  by (auto simp: activated_with_def split: prod.splits)

text \<open>How the locals and the log agree, at every point where an exception can leave \<open>try\<close>.\<close>

definition locals_ok :: "int \<Rightarrow> ('d, 't) hstate \<Rightarrow> bool" where
  "locals_ok ep s =
     (follows ep [] (h_log s)
      \<and> (tried_activate (h_log s) \<longleftrightarrow> h_authorityTransferStarted s)
      \<and> (h_gatewayFrozen s \<longleftrightarrow> (CFreeze ep, Done) \<in> set (h_log s) \<and> \<not> h_cutoverCommitted s)
      \<and> (h_cutoverCommitted s \<longrightarrow> h_authorityTransferStarted s)
      \<and> (h_authorityCommitted s \<longrightarrow> h_authorityTransferStarted s)
      \<and> (tried_drain (h_log s) \<longleftrightarrow> h_stage s = StDrain)
      \<and> (h_candidate s \<noteq> None \<longleftrightarrow> (CSchedule, Done) \<in> set (h_log s))
      \<and> \<not> tried (\<lambda>c. c = CAbort \<or> c = CDiscard \<or> is_rollback c) (h_log s))"

text \<open>The driver calls of a log, without the publications.\<close>

definition driver_calls :: "(hcall \<times> hreply) list \<Rightarrow> hcall list" where
  "driver_calls l = filter (\<lambda>c. case c of CPublish _ \<Rightarrow> False | _ \<Rightarrow> True) (map fst l)"

definition no_failure :: "(hcall \<times> hreply) list \<Rightarrow> bool" where
  "no_failure l = list_all (\<lambda>(c, r). r \<noteq> Threw) l"

definition successful_run :: "int \<Rightarrow> handoff_result \<Rightarrow> (hcall \<times> hreply) list \<Rightarrow> bool" where
  "successful_run ep res l =
     (hr_oldEpoch res = ep \<and> hr_newEpoch res = ep + 1 \<and> no_failure l \<and> verified l
      \<and> (\<exists>tick checksum. driver_calls l =
           [CSchedule, CReady, CFreeze ep, CSeed, CCatchUp tick, CChecksum,
            CActivate (ep + 1) checksum, CCutover ep (ep + 1) (hr_checksum res),
            CVerify (hr_checksum res), CFinalize (ep + 1), CDrain]))"

lemma log_lists [simp]:
  "driver_calls [] = []" "no_failure []"
  "driver_calls (x # l) = (case fst x of CPublish _ \<Rightarrow> [] | c \<Rightarrow> [c]) @ driver_calls l"
  "no_failure (x # l) = (snd x \<noteq> Threw \<and> no_failure l)"
  "driver_calls (l @ m) = driver_calls l @ driver_calls m"
  "no_failure (l @ m) = (no_failure l \<and> no_failure m)"
  by (auto simp: driver_calls_def no_failure_def split: hcall.splits prod.splits)

text \<open>
  A run on its way: no call has failed and the driver calls so far are \<open>cs\<close>.  What was tried
  can be read off \<open>cs\<close>.
\<close>

definition on_way :: "int \<Rightarrow> hcall list \<Rightarrow> ('d, 't) hstate \<Rightarrow> bool" where
  "on_way ep cs s = (locals_ok ep s \<and> no_failure (h_log s) \<and> driver_calls (h_log s) = cs)"

lemma tried_calls: "(\<And>x. \<not> P (CPublish x)) \<Longrightarrow> tried P l = list_ex P (driver_calls l)"
  by (induction l) (auto split: hcall.splits)

lemma calls_facts:
  "tried_activate l = list_ex (\<lambda>c. case c of CActivate _ _ \<Rightarrow> True | _ \<Rightarrow> False) (driver_calls l)"
  "tried_drain l = list_ex (\<lambda>c. c = CDrain) (driver_calls l)"
  by (induction l) (auto split: hcall.splits)

lemma mem_calls: "(c, r) \<in> set l \<Longrightarrow> (case c of CPublish _ \<Rightarrow> True | _ \<Rightarrow> c \<in> set (driver_calls l))"
  by (induction l) (auto split: hcall.splits)

lemma not_frozen_yet: "CFreeze ep \<notin> set (driver_calls l) \<Longrightarrow> (CFreeze ep, r) \<notin> set l"
  "CSchedule \<notin> set (driver_calls l) \<Longrightarrow> (CSchedule, r) \<notin> set l"
  by (auto dest: mem_calls)

lemmas way_simps = on_way_def locals_ok_def tried_calls calls_facts not_frozen_yet done_reply_def

text \<open>
  The steps of a run on its way, as rules that name the state after them only by what it
  keeps.  A neutral call is one that no local variable records.
\<close>

fun neutral :: "hcall \<Rightarrow> bool" where
  "neutral CReady = True"
| "neutral CSeed = True"
| "neutral (CCatchUp _) = True"
| "neutral CChecksum = True"
| "neutral (CCutover _ _ _) = True"
| "neutral (CVerify _) = True"
| "neutral (CFinalize _) = True"
| "neutral _ = False"

lemma locals_neutral:
  assumes "locals_ok ep s" and "neutral c \<and> call_allowed ep (h_log s) c \<or> c = CPublish subj"
    and "h_log s' = h_log s @ [(c, r)]"
    and "(h_authorityTransferStarted s', h_gatewayFrozen s', h_cutoverCommitted s', h_authorityCommitted s',
          h_stage s', h_candidate s')
      = (h_authorityTransferStarted s, h_gatewayFrozen s, h_cutoverCommitted s, h_authorityCommitted s,
          h_stage s, h_candidate s)"
  shows "locals_ok ep s'"
  using assms by (cases c) (auto simp: locals_ok_def)

lemma wp_call_way:
  assumes "on_way ep cs s" and "neutral c" and "call_allowed ep (h_log s) c" and "\<And>a. rep a \<noteq> Threw"
    and Q: "\<And>a s'. on_way ep (cs @ [c]) s' \<Longrightarrow> h_log s' = h_log s @ [(c, rep a)] \<Longrightarrow> Q a s'"
  shows "wp (drv_call c rep m) Q (\<lambda>_. locals_ok ep) s"
proof (rule wp_drv_call)
  fix a d
  let ?s = "s\<lparr>h_driver := d, h_log := h_log s @ [(c, rep a)]\<rparr>"
  have "locals_ok ep ?s" using assms(1-3) by - (rule locals_neutral [of ep s c], auto simp: on_way_def)
  moreover have "driver_calls [(c, rep a)] = [c]" using assms(2) by (cases c) simp_all
  ultimately have "on_way ep (cs @ [c]) ?s" using assms(1,4) by (simp add: on_way_def)
  then show "Q a ?s" by (rule Q) simp
next
  fix e d
  show "locals_ok ep (s\<lparr>h_driver := d, h_log := h_log s @ [(c, Threw)]\<rparr>)"
    using assms(1-3) by - (rule locals_neutral [of ep s c], auto simp: on_way_def)
qed

lemma wp_pub_way:
  assumes "on_way ep cs s"
    and Q: "\<And>a s'. on_way ep cs s' \<Longrightarrow> h_log s' = h_log s @ [(CPublish subj, Done)]
      \<Longrightarrow> h_stage s' = h_stage s \<Longrightarrow> Q a s'"
  shows "wp (pub_call env subj flds) Q (\<lambda>_. locals_ok ep) s"
proof (rule wp_pub_call)
  fix a p
  let ?s = "s\<lparr>h_events := p, h_log := h_log s @ [(CPublish subj, Done)]\<rparr>"
  have "locals_ok ep ?s" using assms(1) by - (rule locals_neutral [of ep s "CPublish subj"], auto simp: on_way_def)
  with assms(1) have "on_way ep cs ?s" by (simp add: on_way_def)
  then show "Q a ?s" by (rule Q) simp_all
next
  fix e p
  show "locals_ok ep (s\<lparr>h_events := p, h_log := h_log s @ [(CPublish subj, Threw)]\<rparr>)"
    using assms(1) by - (rule locals_neutral [of ep s "CPublish subj"], auto simp: on_way_def)
qed

lemma wp_stage_way:
  assumes "on_way ep cs s" and "CDrain \<notin> set cs" and "st \<noteq> StDrain"
    and Q: "\<And>s'. on_way ep cs s' \<Longrightarrow> h_log s' = h_log s \<Longrightarrow> Q () s'"
  shows "wp (set_stage st) Q E s"
proof -
  have "\<not> tried_drain (h_log s)" using assms(1,2) by (auto simp: on_way_def calls_facts list_ex_iff)
  with assms show ?thesis by (auto intro!: Q simp: wp_set_stage on_way_def locals_ok_def)
qed

lemma on_wayD:
  assumes "on_way ep cs s"
  shows "locals_ok ep s" and "driver_calls (h_log s) = cs"
    and "(\<And>x. \<not> P (CPublish x)) \<Longrightarrow> tried P (h_log s) = list_ex P cs"
    and "tried_activate (h_log s) = list_ex (\<lambda>c. case c of CActivate _ _ \<Rightarrow> True | _ \<Rightarrow> False) cs"
    and "tried_drain (h_log s) = list_ex (\<lambda>c. c = CDrain) cs"
  using assms by (simp_all add: on_way_def tried_calls calls_facts)

lemma on_way_facts:
  assumes "on_way ep cs s"
  shows "follows ep [] (h_log s)" and "no_failure (h_log s)"
    and "h_authorityTransferStarted s = list_ex (\<lambda>c. case c of CActivate _ _ \<Rightarrow> True | _ \<Rightarrow> False) cs"
    and "(h_stage s = StDrain) = list_ex (\<lambda>c. c = CDrain) cs"
    and "h_candidate s \<noteq> None \<longleftrightarrow> (CSchedule, Done) \<in> set (h_log s)"
    and "\<not> tried (\<lambda>c. c = CAbort) (h_log s) \<and> \<not> tried (\<lambda>c. c = CDiscard) (h_log s)
      \<and> \<not> tried is_rollback (h_log s)"
    and "h_cutoverCommitted s \<longrightarrow> h_authorityTransferStarted s"
    and "h_authorityCommitted s \<longrightarrow> h_authorityTransferStarted s"
    and "h_gatewayFrozen s \<longleftrightarrow> (CFreeze ep, Done) \<in> set (h_log s) \<and> \<not> h_cutoverCommitted s"
  using assms by (auto simp: on_way_def locals_ok_def calls_facts)

lemma freeze_way:
  assumes "on_way ep [CSchedule, CReady] s" and "(CReady, Done) \<in> set l" and "h_log s = l"
  shows "locals_ok ep (s\<lparr>h_driver := d, h_log := l @ [(CFreeze ep, Threw)]\<rparr>)"
    and "on_way ep [CSchedule, CReady, CFreeze ep]
      (s\<lparr>h_driver := d, h_log := l @ [(CFreeze ep, Done)], h_gatewayFrozen := True\<rparr>)"
  using assms(2-) on_way_facts [OF assms(1)] on_wayD [OF assms(1)]
  by (simp_all add: on_way_def locals_ok_def)

lemma activate_way:
  assumes "on_way ep [CSchedule, CReady, CFreeze ep, CSeed, CCatchUp tk, CChecksum] s"
    and "(CFreeze ep, Done) \<in> set l" and "expects ck l"
    and "(CChecksum, GotChecksum ck) \<in> set l" and "h_log s = l"
  shows "locals_ok ep (s\<lparr>h_authorityTransferStarted := True, h_driver := d,
      h_log := l @ [(CActivate (ep + 1) ck, Threw)]\<rparr>)"
    and "on_way ep [CSchedule, CReady, CFreeze ep, CSeed, CCatchUp tk, CChecksum, CActivate (ep + 1) ck]
      (s\<lparr>h_authorityTransferStarted := True, h_driver := d,
         h_log := l @ [(CActivate (ep + 1) ck, GotChecksum au)],
         h_authorityCommitted := True, h_committedEpoch := n\<rparr>)"
  using assms(2-) on_way_facts [OF assms(1)] on_wayD [OF assms(1)]
  by (simp_all add: on_way_def locals_ok_def)

lemma drain_way:
  assumes "on_way ep cs s" and "CActivate (ep + 1) ck \<in> set cs" and "CDrain \<notin> set cs"
    and "(CFinalize (ep + 1), Done) \<in> set (h_log s)" and "cs' = cs @ [CDrain]"
  shows "locals_ok ep (s\<lparr>h_stage := StDrain, h_driver := d, h_log := h_log s @ [(CDrain, Threw)]\<rparr>)"
    and "on_way ep cs' (s\<lparr>h_stage := StDrain, h_driver := d, h_log := h_log s @ [(CDrain, Done)]\<rparr>)"
  using assms(2-) on_way_facts [OF assms(1)] on_wayD [OF assms(1)]
  by (auto simp: on_way_def locals_ok_def list_ex_iff)

lemma cutover_way:
  assumes "on_way ep cs s" and "CActivate (ep + 1) ck \<in> set cs"
  shows "on_way ep cs (s\<lparr>h_cutoverCommitted := True, h_gatewayFrozen := False\<rparr>)"
proof -
  have "h_authorityTransferStarted s"
    using on_way_facts(3) [OF assms(1)] assms(2) by (force simp: list_ex_iff)
  then show ?thesis using assms(1) by (simp add: on_way_def locals_ok_def)
qed

lemma stage_schedule_ok:
  assumes "ht_currentEpoch (he_target env) = ep" and "h_log s = []" and "h_candidate s = None"
    and "\<not> h_gatewayFrozen s" and "\<not> h_authorityTransferStarted s" and "\<not> h_authorityCommitted s"
    and "\<not> h_cutoverCommitted s" and "h_stage s = StSchedule"
  shows "wp (stage_schedule env) (\<lambda>_ s'. on_way ep [CSchedule] s' \<and> h_stage s' = StSchedule)
    (\<lambda>_. locals_ok ep) s"
  unfolding stage_schedule_def using assms
  by (simp add: Let_def) (auto intro!: wp_drv_call wp_pub_call simp: way_simps wp_set_stage)

lemma stage_ready_ok:
  assumes "on_way ep [CSchedule] s"
  shows "wp (stage_ready env c) (\<lambda>_ s'. on_way ep [CSchedule, CReady] s' \<and> (CReady, Done) \<in> set (h_log s'))
    (\<lambda>_. locals_ok ep) s"
  unfolding stage_ready_def wp_thenE wp_ret using assms
  by (auto intro!: wp_stage_way wp_call_way wp_pub_way simp: done_reply_def)


lemma stage_freeze_ok:
  assumes "on_way ep [CSchedule, CReady] s" and "(CReady, Done) \<in> set (h_log s)"
    and "ht_currentEpoch (he_target env) = ep"
  shows "wp (stage_freeze env) (\<lambda>_ s'. on_way ep [CSchedule, CReady, CFreeze ep] s' \<and> (CFreeze ep, Done) \<in> set (h_log s'))
    (\<lambda>_. locals_ok ep) s"
  unfolding stage_freeze_def wp_thenE wp_bindE wp_ret wp_modifyE Let_def assms(3)
  using assms(1,2)
  by (auto intro!: wp_stage_way wp_drv_call freeze_way simp: done_reply_def)


lemma stage_snapshot_ok:
  assumes "on_way ep [CSchedule, CReady, CFreeze ep] s" and "(CFreeze ep, Done) \<in> set (h_log s)"
  shows "wp (stage_snapshot env c fr) (\<lambda>r s'. on_way ep [CSchedule, CReady, CFreeze ep, CSeed] s'
      \<and> (CFreeze ep, Done) \<in> set (h_log s') \<and> (CSeed, GotChecksum (sr_checksum r)) \<in> set (h_log s'))
    (\<lambda>_. locals_ok ep) s"
  unfolding stage_snapshot_def wp_thenE wp_bindE wp_ret using assms
  by (auto intro!: wp_stage_way wp_call_way wp_pub_way simp: on_wayD)


lemma stage_journal_ok:
  assumes "on_way ep [CSchedule, CReady, CFreeze ep, CSeed] s" and "(CFreeze ep, Done) \<in> set (h_log s)"
    and "(CSeed, GotChecksum (sr_checksum sd)) \<in> set (h_log s)"
  shows "wp (stage_journal env c sd) (\<lambda>ck s'. on_way ep [CSchedule, CReady, CFreeze ep, CSeed,
        CCatchUp (sr_snapshotTick sd)] s'
      \<and> (CFreeze ep, Done) \<in> set (h_log s') \<and> expects ck (h_log s'))
    (\<lambda>_. locals_ok ep) s"
  unfolding stage_journal_def wp_thenE wp_bindE wp_ret Let_def using assms
  by (auto intro!: wp_stage_way wp_call_way wp_pub_way simp: on_wayD expects_def dest: on_wayD(1) split: option.split)


lemma stage_checksum_ok:
  assumes "on_way ep [CSchedule, CReady, CFreeze ep, CSeed, CCatchUp tk] s" and "(CFreeze ep, Done) \<in> set (h_log s)"
    and "expects expected (h_log s)"
  shows "wp (stage_checksum env c expected) (\<lambda>ck s'. on_way ep [CSchedule, CReady, CFreeze ep, CSeed, CCatchUp tk, CChecksum] s'
      \<and> (CFreeze ep, Done) \<in> set (h_log s') \<and> expects ck (h_log s') \<and> (CChecksum, GotChecksum ck) \<in> set (h_log s'))
    (\<lambda>_. locals_ok ep) s"
  unfolding stage_checksum_def wp_thenE wp_bindE wp_ret using assms expects_caught_up [OF assms(3)]
  by (auto intro!: wp_stage_way wp_call_way wp_pub_way simp: on_wayD expects_append dest: on_wayD(1))


lemma stage_activate_ok:
  assumes "on_way ep [CSchedule, CReady, CFreeze ep, CSeed, CCatchUp tk, CChecksum] s"
    and "(CFreeze ep, Done) \<in> set (h_log s)" and "expects ck (h_log s)"
    and "(CChecksum, GotChecksum ck) \<in> set (h_log s)" and "ht_currentEpoch (he_target env) = ep"
  shows "wp (stage_activate env c ck) (\<lambda>au s'. on_way ep [CSchedule, CReady, CFreeze ep, CSeed,
        CCatchUp tk, CChecksum, CActivate (ep + 1) ck] s'
      \<and> (CFreeze ep, Done) \<in> set (h_log s') \<and> activated_with (ep + 1) au (h_log s'))
    (\<lambda>_. locals_ok ep) s"
  unfolding stage_activate_def wp_thenE wp_bindE wp_ret wp_modifyE Let_def assms(5)
  using assms(1-4)
  by (auto intro!: wp_stage_way wp_drv_call wp_pub_way activate_way)


lemma stage_cutover_ok:
  assumes "on_way ep [CSchedule, CReady, CFreeze ep, CSeed, CCatchUp tk, CChecksum, CActivate (ep + 1) ck] s"
    and "(CFreeze ep, Done) \<in> set (h_log s)" and "activated_with (ep + 1) au (h_log s)"
    and "ht_currentEpoch (he_target env) = ep"
  shows "wp (stage_cutover env c au) (\<lambda>_ s'. on_way ep [CSchedule, CReady, CFreeze ep, CSeed,
        CCatchUp tk, CChecksum, CActivate (ep + 1) ck, CCutover ep (ep + 1) au] s'
      \<and> (CCutover ep (ep + 1) au, Done) \<in> set (h_log s'))
    (\<lambda>_. locals_ok ep) s"
  unfolding stage_cutover_def wp_thenE wp_bindE wp_ret wp_modifyE Let_def assms(4)
  using assms(1-3)
  by (auto intro!: wp_stage_way wp_call_way wp_pub_way cutover_way simp: done_reply_def dest: on_wayD(1))


lemma stage_verify_ok:
  assumes "on_way ep [CSchedule, CReady, CFreeze ep, CSeed, CCatchUp tk, CChecksum, CActivate (ep + 1) ck,
      CCutover ep (ep + 1) au] s"
    and "(CCutover ep (ep + 1) au, Done) \<in> set (h_log s)" and "ht_currentEpoch (he_target env) = ep"
  shows "wp (stage_verify env c au) (\<lambda>_ s'. on_way ep [CSchedule, CReady, CFreeze ep, CSeed, CCatchUp tk,
        CChecksum, CActivate (ep + 1) ck, CCutover ep (ep + 1) au, CVerify au, CFinalize (ep + 1)] s'
      \<and> (CFinalize (ep + 1), Done) \<in> set (h_log s') \<and> verified (h_log s'))
    (\<lambda>_. locals_ok ep) s"
  unfolding stage_verify_def wp_thenE wp_bindE wp_ret Let_def using assms
  by (auto intro!: wp_stage_way wp_call_way wp_pub_way simp: on_wayD done_reply_def dest: on_wayD(1))


lemma stage_drain_ok:
  assumes "on_way ep cs s" and "cs = [CSchedule, CReady, CFreeze ep, CSeed, CCatchUp tk,
      CChecksum, CActivate (ep + 1) ck, CCutover ep (ep + 1) au, CVerify au, CFinalize (ep + 1)]"
    and "(CFinalize (ep + 1), Done) \<in> set (h_log s)" and "verified (h_log s)"
    and "ht_currentEpoch (he_target env) = ep"
  shows "wp (stage_drain env) (\<lambda>_ s'. on_way ep (cs @ [CDrain]) s' \<and> verified (h_log s'))
    (\<lambda>_. locals_ok ep) s"
  unfolding stage_drain_def wp_thenE wp_bindE wp_ret wp_set_stage Let_def assms(5)
  using assms(1-4)
  by (auto intro!: wp_drv_call wp_pub_way drain_way [where ck = ck] simp: done_reply_def)


lemma handoff_try_ok:
  assumes "ht_currentEpoch (he_target env) = ep" and "h_log s = []" and "h_candidate s = None"
    and "\<not> h_gatewayFrozen s" and "\<not> h_authorityTransferStarted s" and "\<not> h_authorityCommitted s"
    and "\<not> h_cutoverCommitted s" and "h_stage s = StSchedule"
  shows "wp (handoff_try env) (\<lambda>r s'. locals_ok ep s' \<and> successful_run ep r (h_log s'))
           (\<lambda>e s'. locals_ok ep s') s"
  unfolding handoff_try_def wp_bindE wp_thenE wp_ret
  apply (rule wp_mono [OF stage_schedule_ok [OF assms]]; (elim conjE)?, assumption?)
  apply (rule wp_mono [OF stage_ready_ok]; (elim conjE)?, assumption?)
  apply (rule wp_mono [OF stage_freeze_ok]; (elim conjE)?, (assumption | rule assms(1))?)
  apply (rule wp_mono [OF stage_snapshot_ok]; (elim conjE)?, assumption?)
  apply (rule wp_mono [OF stage_journal_ok]; (elim conjE)?, assumption?)
  apply (rule wp_mono [OF stage_checksum_ok]; (elim conjE)?, assumption?)
  apply (rule wp_mono [OF stage_activate_ok]; (elim conjE)?, (assumption | rule assms(1))?)
  apply (rule wp_mono [OF stage_cutover_ok]; (elim conjE)?, (assumption | rule assms(1))?)
  apply (rule wp_mono [OF stage_verify_ok]; (elim conjE)?, (assumption | rule assms(1))?)
  apply (rule wp_mono [OF stage_drain_ok [OF _ refl]]; (elim conjE)?, (assumption | rule assms(1))?)
  apply (auto simp: on_way_def successful_run_def assms(1))
  done

section \<open>The catch block\<close>

text \<open>
  What holds when a handoff has thrown \<open>e'\<close>: the calls followed the protocol; a frozen
  Gateway was asked to resume unless authority had begun to move; after that a rollback was
  asked for unless the old Pod was already being drained; the Candidate was discarded exactly
  when a Gateway that was frozen resumed, or the rollback succeeded; and the failure was
  published, or the publication itself is what threw.
\<close>

fun committed :: "exn \<Rightarrow> bool" where
  "committed (CutoverCommitted _ _) = True"
| "committed _ = False"

definition recovered :: "int \<Rightarrow> exn \<Rightarrow> (hcall \<times> hreply) list \<Rightarrow> bool" where
  "recovered ep e l =
     (if tried_activate l \<or> committed e then rolled_back l
      else (CFreeze ep, Done) \<in> set l \<longrightarrow> (CAbort, Done) \<in> set l)"

definition reported :: "exn \<Rightarrow> exn \<Rightarrow> (hcall \<times> hreply) list \<Rightarrow> bool" where
  "reported e e' l =
     ((e' = e \<and> drop (length l - 2) l =
         [(CPublish RoomHandoffFailed, Done), (CPublish RolloutWaveBlocked, Done)])
      \<or> (l \<noteq> [] \<and> snd (last l) = Threw \<and> fst (last l) \<in> {CPublish RoomHandoffFailed, CPublish RolloutWaveBlocked}))"

definition settled_ok :: "int \<Rightarrow> exn \<Rightarrow> (hcall \<times> hreply) list \<Rightarrow> bool" where
  "settled_ok ep e l =
     (follows ep [] l
      \<and> (tried (\<lambda>c. c = CAbort) l \<longleftrightarrow>
           (CFreeze ep, Done) \<in> set l \<and> \<not> tried_activate l \<and> \<not> committed e)
      \<and> (tried is_rollback l \<longleftrightarrow> (tried_activate l \<or> committed e) \<and> \<not> tried_drain l)
      \<and> (tried (\<lambda>c. c = CDiscard) l \<longleftrightarrow>
           (CSchedule, Done) \<in> set l \<and> \<not> tried_drain l \<and> recovered ep e l))"

definition failed_run :: "int \<Rightarrow> exn \<Rightarrow> exn \<Rightarrow> (hcall \<times> hreply) list \<Rightarrow> bool" where
  "failed_run ep e e' l = (settled_ok ep e l \<and> reported e e' l)"

text \<open>
  The facts carried from one part of the catch block to the next: \<open>caught_ok\<close> when it
  starts, then what the abort, the rollback and the discard establish.
\<close>

definition caught_ok :: "int \<Rightarrow> exn \<Rightarrow> ('d, 't) hstate \<Rightarrow> bool" where
  "caught_ok ep e s =
     (follows ep [] (h_log s)
      \<and> (tried_activate (h_log s) \<longleftrightarrow> h_authorityTransferStarted s)
      \<and> (h_authorityCommitted s \<longrightarrow> h_authorityTransferStarted s)
      \<and> (h_gatewayFrozen s \<longleftrightarrow> (CFreeze ep, Done) \<in> set (h_log s) \<and> \<not> h_cutoverCommitted s)
      \<and> (\<not> h_authorityTransferStarted s \<longrightarrow> h_cutoverCommitted s = committed e)
      \<and> (committed e \<longrightarrow> h_cutoverCommitted s)
      \<and> (tried_drain (h_log s) \<longleftrightarrow> h_stage s = StDrain)
      \<and> (h_candidate s \<noteq> None \<longleftrightarrow> (CSchedule, Done) \<in> set (h_log s))
      \<and> \<not> tried (\<lambda>c. c = CAbort \<or> c = CDiscard \<or> is_rollback c) (h_log s))"

definition aborted_ok :: "int \<Rightarrow> exn \<Rightarrow> recovery \<Rightarrow> ('d, 't) hstate \<Rightarrow> bool" where
  "aborted_ok ep e rv s =
     (follows ep [] (h_log s)
      \<and> (tried_activate (h_log s) \<longleftrightarrow> h_authorityTransferStarted s)
      \<and> (h_authorityCommitted s \<longrightarrow> h_authorityTransferStarted s)
      \<and> (\<not> h_authorityTransferStarted s \<longrightarrow> h_cutoverCommitted s = committed e)
      \<and> (committed e \<longrightarrow> h_cutoverCommitted s)
      \<and> (tried_drain (h_log s) \<longleftrightarrow> h_stage s = StDrain)
      \<and> (h_candidate s \<noteq> None \<longleftrightarrow> (CSchedule, Done) \<in> set (h_log s))
      \<and> \<not> tried (\<lambda>c. c = CDiscard \<or> is_rollback c) (h_log s)
      \<and> (tried (\<lambda>c. c = CAbort) (h_log s) \<longleftrightarrow>
           (CFreeze ep, Done) \<in> set (h_log s) \<and> \<not> tried_activate (h_log s) \<and> \<not> committed e)
      \<and> (rv_mayDiscard rv \<longleftrightarrow> \<not> h_authorityTransferStarted s \<and> \<not> h_cutoverCommitted s
           \<and> ((CFreeze ep, Done) \<in> set (h_log s) \<longrightarrow> (CAbort, Done) \<in> set (h_log s))))"

definition rolled_ok :: "int \<Rightarrow> exn \<Rightarrow> recovery \<Rightarrow> ('d, 't) hstate \<Rightarrow> bool" where
  "rolled_ok ep e rv s =
     (follows ep [] (h_log s)
      \<and> (tried (\<lambda>c. c = CAbort) (h_log s) \<longleftrightarrow>
           (CFreeze ep, Done) \<in> set (h_log s) \<and> \<not> tried_activate (h_log s) \<and> \<not> committed e)
      \<and> (tried is_rollback (h_log s) \<longleftrightarrow>
           (tried_activate (h_log s) \<or> committed e) \<and> \<not> tried_drain (h_log s))
      \<and> (tried_drain (h_log s) \<longleftrightarrow> h_stage s = StDrain)
      \<and> (h_candidate s \<noteq> None \<longleftrightarrow> (CSchedule, Done) \<in> set (h_log s))
      \<and> \<not> tried (\<lambda>c. c = CDiscard) (h_log s)
      \<and> (\<not> tried_drain (h_log s) \<longrightarrow> rv_mayDiscard rv = recovered ep e (h_log s)))"

lemma note_committed_ok: "locals_ok ep s \<Longrightarrow> caught_ok ep e (note_committed e s)"
  by (cases e) (auto simp: locals_ok_def caught_ok_def note_committed_def)

lemma abort_done:
  assumes "caught_ok ep e s" and "h_gatewayFrozen s" and "\<not> h_authorityTransferStarted s"
    and "\<not> h_cutoverCommitted s"
  shows "rv_mayDiscard rv \<Longrightarrow> aborted_ok ep e rv
      (s\<lparr>h_driver := d, h_log := h_log s @ [(CAbort, Done)], h_gatewayFrozen := False\<rparr>)"
    and "\<not> rv_mayDiscard rv \<Longrightarrow> aborted_ok ep e rv (s\<lparr>h_driver := d, h_log := h_log s @ [(CAbort, Threw)]\<rparr>)"
proof -
  have "(CAbort, Done) \<notin> set (h_log s)"
    using assms(1) by (auto simp: caught_ok_def tried_def list_ex_iff)
  then show "rv_mayDiscard rv \<Longrightarrow> aborted_ok ep e rv
      (s\<lparr>h_driver := d, h_log := h_log s @ [(CAbort, Done)], h_gatewayFrozen := False\<rparr>)"
    and "\<not> rv_mayDiscard rv \<Longrightarrow> aborted_ok ep e rv (s\<lparr>h_driver := d, h_log := h_log s @ [(CAbort, Threw)]\<rparr>)"
    using assms by (simp_all add: caught_ok_def aborted_ok_def)
qed

lemma recover_abort_ok:
  assumes "caught_ok ep e s" and "rv_mayDiscard rv \<longleftrightarrow> \<not> h_authorityTransferStarted s \<and> \<not> h_cutoverCommitted s"
  shows "wp (recover_abort env rv) (aborted_ok ep e) (\<lambda>_ _. False) s"
proof (cases "h_gatewayFrozen s \<and> \<not> h_authorityTransferStarted s \<and> \<not> h_cutoverCommitted s")
  case True
  with assms show ?thesis
    unfolding recover_abort_def by simp (rule wp_drv_call; simp add: abort_done done_reply_def)
next
  case False
  then have "aborted_ok ep e rv s"
    using assms unfolding caught_ok_def aborted_ok_def by (cases "h_authorityTransferStarted s") auto
  with False show ?thesis unfolding recover_abort_def by auto
qed

lemma roll_done:
  assumes "aborted_ok ep e rv s" and "h_authorityTransferStarted s \<or> h_cutoverCommitted s"
    and "h_stage s \<noteq> StDrain"
  shows "rv_mayDiscard rv' \<Longrightarrow> rolled_ok ep e rv' (s\<lparr>h_driver := d, h_log := h_log s @ [(CRollback n (n + 1), Done)]\<rparr>)"
    and "\<not> rv_mayDiscard rv' \<Longrightarrow> rolled_ok ep e rv' (s\<lparr>h_driver := d, h_log := h_log s @ [(CRollback n (n + 1), Threw)]\<rparr>)"
proof -
  have "\<not> rolled_back (h_log s)"
    using assms(1) by (auto simp: aborted_ok_def dest: rolled_back_tried)
  moreover have "tried_activate (h_log s) \<or> committed e"
    using assms(1,2) by (auto simp: aborted_ok_def)
  ultimately show "rv_mayDiscard rv' \<Longrightarrow> rolled_ok ep e rv' (s\<lparr>h_driver := d, h_log := h_log s @ [(CRollback n (n + 1), Done)]\<rparr>)"
    and "\<not> rv_mayDiscard rv' \<Longrightarrow> rolled_ok ep e rv' (s\<lparr>h_driver := d, h_log := h_log s @ [(CRollback n (n + 1), Threw)]\<rparr>)"
    using assms(1,3) by (simp_all add: aborted_ok_def rolled_ok_def recovered_def)
qed

lemma roll_not_due:
  assumes "aborted_ok ep e rv s"
    and "\<not> ((h_authorityTransferStarted s \<or> h_cutoverCommitted s \<or> h_authorityCommitted s) \<and> h_stage s \<noteq> StDrain)"
    and "rv_mayDiscard rv' = rv_mayDiscard rv"
  shows "rolled_ok ep e rv' s"
proof -
  have "\<not> rolled_back (h_log s)"
    using assms(1) by (auto simp: aborted_ok_def dest: rolled_back_tried)
  then show ?thesis
    using assms unfolding aborted_ok_def rolled_ok_def recovered_def
    by (cases "h_stage s = StDrain") auto
qed

lemma recover_rollback_ok:
  assumes "aborted_ok ep e rv s"
  shows "wp (recover_rollback env rv) (rolled_ok ep e) (\<lambda>_ _. False) s"
proof (cases "(h_authorityTransferStarted s \<or> h_cutoverCommitted s \<or> h_authorityCommitted s) \<and> h_stage s \<noteq> StDrain")
  case True
  then have "h_authorityTransferStarted s \<or> h_cutoverCommitted s" "h_stage s \<noteq> StDrain"
    using assms by (auto simp: aborted_ok_def)
  note r = roll_done [OF assms this]
  from True show ?thesis
    unfolding recover_rollback_def Let_def
    by simp (rule wp_drv_call; simp add: r done_reply_def)
next
  case False
  note r = roll_not_due [OF assms False]
  from False show ?thesis
    unfolding recover_rollback_def Let_def by (auto simp: r)
qed

lemma discard_done:
  assumes "rolled_ok ep e rv s" and "rv_mayDiscard rv" and "h_stage s \<noteq> StDrain" and "h_candidate s \<noteq> None"
  shows "settled_ok ep e (h_log s @ [(CDiscard, r)])"
proof -
  have "recovered ep e (h_log s)" "\<not> tried_drain (h_log s)" "(CSchedule, Done) \<in> set (h_log s)"
    using assms by (simp_all add: rolled_ok_def)
  then show ?thesis
    using assms(1) by (auto simp: rolled_ok_def settled_ok_def recovered_def split: if_splits)
qed

lemma discard_not_due:
  "rolled_ok ep e rv s \<Longrightarrow> \<not> (h_candidate s \<noteq> None \<and> rv_mayDiscard rv \<and> h_stage s \<noteq> StDrain)
     \<Longrightarrow> settled_ok ep e (h_log s)"
  unfolding rolled_ok_def settled_ok_def by (cases "h_stage s = StDrain") simp_all

lemma recover_discard_ok:
  assumes "rolled_ok ep e rv s"
  shows "wp (recover_discard env rv) (\<lambda>_ s'. settled_ok ep e (h_log s')) (\<lambda>_ _. False) s"
proof (cases "h_candidate s \<noteq> None \<and> rv_mayDiscard rv \<and> h_stage s \<noteq> StDrain")
  case True
  then show ?thesis
    unfolding recover_discard_def using discard_done [OF assms]
    by (auto intro!: wp_drv_call simp: done_reply_def)
next
  case False
  then show ?thesis
    unfolding recover_discard_def using discard_not_due [OF assms False] by (auto split: option.split)
qed

lemma failed_runI:
  assumes "settled_ok ep e l" and "reported e e' (l @ l')" and "\<forall>x \<in> set l'. \<exists>s. fst x = CPublish s"
  shows "failed_run ep e e' (l @ l')"
proof -
  have a: "tried_activate (l @ l') = tried_activate l" "tried_drain (l @ l') = tried_drain l"
    "rolled_back (l @ l') = rolled_back l" "tried is_rollback (l @ l') = tried is_rollback l"
    "tried (\<lambda>c. c = CAbort) (l @ l') = tried (\<lambda>c. c = CAbort) l"
    "tried (\<lambda>c. c = CDiscard) (l @ l') = tried (\<lambda>c. c = CDiscard) l"
    using assms(3)
    by (fastforce simp: tried_activate_def tried_drain_def rolled_back_def tried_def list_ex_iff
        split: hcall.splits)+
  have f: "(c, Done) \<in> set (l @ l') \<longleftrightarrow> (c, Done) \<in> set l" if "\<forall>s. c \<noteq> CPublish s" for c
    using assms(3) that by fastforce
  have "follows ep pre l'" for pre
    using assms(3)
  proof (induction l' arbitrary: pre)
    case (Cons x xs)
    then show ?case by (cases x) auto
  qed simp
  then show ?thesis
    using assms unfolding failed_run_def settled_ok_def recovered_def a
    by (simp add: f del: set_append)
qed

lemma recover_report_ok:
  assumes "settled_ok ep e (h_log s)"
  shows "wp (recover_report env rv) (\<lambda>_ s'. failed_run ep e e (h_log s'))
           (\<lambda>e' s'. failed_run ep e e' (h_log s')) s"
proof -
  have "failed_run ep e e' (h_log s @ [(CPublish RoomHandoffFailed, Threw)])"
    and "failed_run ep e e' (h_log s @ [(CPublish RoomHandoffFailed, Done), (CPublish RolloutWaveBlocked, Threw)])"
    and "failed_run ep e e (h_log s @ [(CPublish RoomHandoffFailed, Done), (CPublish RolloutWaveBlocked, Done)])"
    for e'
    using assms by (intro failed_runI; simp add: reported_def)+
  then show ?thesis
    unfolding recover_report_def by simp (auto intro!: wp_pub_call)
qed

lemma handoff_catch_ok:
  assumes "locals_ok ep s"
  shows "wp (handoff_catch env e) (\<lambda>_ _. False) (\<lambda>e' s'. failed_run ep e e' (h_log s')) s"
proof -
  define s0 where "s0 = note_committed e s"
  define rv0 where "rv0 = initial_recovery e s0"
  have "caught_ok ep e s0" and "rv_mayDiscard rv0 \<longleftrightarrow> \<not> h_authorityTransferStarted s0 \<and> \<not> h_cutoverCommitted s0"
    using assms by (simp_all add: s0_def rv0_def note_committed_ok initial_recovery_def)
  then have "wp (recover_abort env rv0) (aborted_ok ep e) (\<lambda>_ _. False) s0"
    by (rule recover_abort_ok)
  moreover have rep: "wp (thenE (recover_report env rv) (throwE e)) (\<lambda>_ _. False)
      (\<lambda>e' s'. failed_run ep e e' (h_log s')) s" if "settled_ok ep e (h_log s)" for rv s
    using wp_mono [OF recover_report_ok [OF that], of "\<lambda>_. wp (throwE e) (\<lambda>_ _. False) (\<lambda>e' s'. failed_run ep e e' (h_log s'))"]
    by simp
  moreover have disc: "wp (thenE (recover_discard env rv) (thenE (recover_report env rv) (throwE e)))
      (\<lambda>_ _. False) (\<lambda>e' s'. failed_run ep e e' (h_log s')) s" if "rolled_ok ep e rv s" for rv s
  proof -
    from recover_discard_ok [OF that]
    have "wp (recover_discard env rv)
        (\<lambda>_. wp (thenE (recover_report env rv) (throwE e)) (\<lambda>_ _. False) (\<lambda>e' s'. failed_run ep e e' (h_log s')))
        (\<lambda>e' s'. failed_run ep e e' (h_log s')) s"
      by (rule wp_mono) (simp_all only: rep)
    then show ?thesis by (simp only: wp_thenE [of "recover_discard env rv"])
  qed
  moreover have roll: "wp (bindE (recover_rollback env rv) (\<lambda>rv2.
        thenE (recover_discard env rv2) (thenE (recover_report env rv2) (throwE e))))
      (\<lambda>_ _. False) (\<lambda>e' s'. failed_run ep e e' (h_log s')) s" if "aborted_ok ep e rv s" for rv s
  proof -
    from recover_rollback_ok [OF that]
    have "wp (recover_rollback env rv)
        (\<lambda>rv2. wp (thenE (recover_discard env rv2) (thenE (recover_report env rv2) (throwE e)))
            (\<lambda>_ _. False) (\<lambda>e' s'. failed_run ep e e' (h_log s')))
        (\<lambda>e' s'. failed_run ep e e' (h_log s')) s"
      by (rule wp_mono) (simp_all only: disc)
    then show ?thesis by (simp only: wp_bindE)
  qed
  ultimately have "wp (recover_abort env rv0)
      (\<lambda>rv1. wp (bindE (recover_rollback env rv1) (\<lambda>rv2.
        thenE (recover_discard env rv2) (thenE (recover_report env rv2) (throwE e))))
        (\<lambda>_ _. False) (\<lambda>e' s'. failed_run ep e e' (h_log s')))
      (\<lambda>e' s'. failed_run ep e e' (h_log s')) s0"
    by (elim wp_mono) (simp_all only: roll)
  then show ?thesis
    unfolding handoff_catch_def by (simp add: s0_def rv0_def)
qed


section \<open>The whole handoff\<close>

lemma handoff_ok:
  fixes s :: "('d, 't) hstate"
  assumes "h_log s = []" and ep: "ep = ht_currentEpoch t"
  shows "wp (handoff co drv persist sp fresh t requested)
     (\<lambda>res s'. follows ep [] (h_log s') \<and> successful_run ep res (h_log s') \<and> h_activeOperation s' = None)
     (\<lambda>e' s'. (h_log s' = [] \<and> h_activeOperation s' = h_activeOperation s)
              \<or> ((\<exists>e. failed_run ep e e' (h_log s')) \<and> h_activeOperation s' = None)) s"
proof -
  have body: "wp (catchE (handoff_try env) (handoff_catch env))
      (\<lambda>res s'. follows ep [] (h_log s') \<and> successful_run ep res (h_log s'))
      (\<lambda>e' s'. \<exists>e. failed_run ep e e' (h_log s')) (begin_locals t op s)"
    if env: "ht_currentEpoch (he_target env) = ep" for env :: "('d, 't) handoff_env" and op
  proof -
    have "wp (handoff_try env) (\<lambda>r s'. locals_ok ep s' \<and> successful_run ep r (h_log s'))
        (\<lambda>e s'. locals_ok ep s') (begin_locals t op s)"
      using env assms(1) by (intro handoff_try_ok) (simp_all add: begin_locals_def)
    then show ?thesis
      by (simp only: wp_catchE, elim wp_mono)
        (auto simp: locals_ok_def intro: wp_mono [OF handoff_catch_ok])
  qed
  have "ht_currentEpoch (he_target (handoff_env_for co drv persist sp t op ord)) = ep" for op ord
    by (simp add: handoff_env_for_def Let_def ep)
  note b = body [OF this]
  show ?thesis
    unfolding handoff_def using assms(1)
    by (auto simp: Let_def simp del: wp_catchE split: option.splits intro: wp_mono [OF b])
qed


section \<open>A driver for the witnesses\<close>

text \<open>
  Concrete drivers the witnesses run: one in which every step succeeds, and one whose
  cutover request fails after authority has moved.
\<close>

definition sample_candidate :: candidate where
  "sample_candidate = \<lparr>cd_name = ''game-1'', cd_uid = ''u1'', cd_resourceVersion = None,
     cd_endpoint = ''http://10.0.0.2:8001'', cd_revision = ''r2'', cd_imageDigest = None\<rparr>"

definition sample_target :: handoff_target where
  "sample_target = \<lparr>ht_roomId = ''room-1'', ht_activeEndpoint = ''http://10.0.0.1:8001'',
     ht_activePod = \<lparr>rr_name = ''game-0'', rr_uid = ''u0'', rr_resourceVersion = None\<rparr>,
     ht_currentEpoch = 7, ht_revision = ''r2'', ht_imageDigest = None,
     ht_workflowRunId = None, ht_applicationId = None\<rparr>"

definition sample_driver :: "unit handoff_driver" where
  "sample_driver =
     \<lparr>scheduleCandidate = (\<lambda>_ _. ret sample_candidate), waitUntilReady = (\<lambda>_. ret ()),
      freezeGateway = (\<lambda>_ _ _. ret (3, 5)), abortGatewayPreparation = (\<lambda>_ _. ret ()),
      seedSnapshot = (\<lambda>_ _. ret \<lparr>sr_checksum = ''c'', sr_snapshotTick = 40, sr_payloadBytes = 9\<rparr>),
      catchUpJournal = (\<lambda>_ _ _. ret \<lparr>cu_activeTick = 42, cu_candidateTick = 42, cu_lagTicks = 0,
                                      cu_checksum = Some ''d''\<rparr>),
      candidateChecksum = (\<lambda>_. ret ''d''),
      cutoverGateway = (\<lambda>_. ret \<lparr>sx_sessions = 3, sx_replayedInputs = 5\<rparr>),
      rollbackGateway = (\<lambda>i. ret \<lparr>rx_sessions = 3, rx_replayedInputs = 5, rx_roomEpoch = ri_nextEpoch i\<rparr>),
      verifyCandidate = (\<lambda>_ ck. ret \<lparr>pv_healthy = True, pv_sessionContinuity = True, pv_stateChecksum = ck\<rparr>),
      activateCandidate = (\<lambda>_ _ _ _. ret ''e''), finalizeGateway = (\<lambda>_ _ _. ret ()),
      drainOldPod = (\<lambda>_. ret ()), discardCandidate = (\<lambda>_ _. ret ())\<rparr>"

definition failing_driver :: "unit handoff_driver" where
  "failing_driver = sample_driver\<lparr>cutoverGateway := (\<lambda>_. throwE (Err ''timeout''))\<rparr>"

definition sample_sources :: uid_source where
  "sample_sources = \<lparr>sp_uuid = show_nat, sp_now = show_nat\<rparr>"

definition sample_coordinator :: coordinator where
  "sample_coordinator = \<lparr>co_workspaceId = ''demo-game'', co_clusterId = ''game-server'',
     co_namespace = ''sandbox'', co_totalWaves = Num 5\<rparr>"

definition sample_state :: "(unit, op_event list) hstate" where
  "sample_state = \<lparr>h_activeOperation = None, h_driver = (), h_events = new_publisher [],
     h_stage = StSchedule, h_candidate = None, h_gatewayFrozen = False,
     h_authorityTransferStarted = False, h_authorityCommitted = False, h_cutoverCommitted = False,
     h_committedEpoch = 0, h_log = []\<rparr>"

definition sample_run ::
  "unit handoff_driver \<Rightarrow> ((unit, op_event list) hstate, exn, handoff_result) eff" where
  "sample_run drv = handoff sample_coordinator drv memory_persist sample_sources ''x'' sample_target
     (Some ''op-1'')"

text \<open>Symbolic execution of the sample runs: publications always succeed there.\<close>

lemma wp_drv_call_eq:
  "wp (drv_call c rep m) Q E s =
     wp m (\<lambda>a d. Q a (s\<lparr>h_driver := d, h_log := h_log s @ [(c, rep a)]\<rparr>))
          (\<lambda>e d. E e (s\<lparr>h_driver := d, h_log := h_log s @ [(c, Threw)]\<rparr>)) (h_driver s)"
  by (simp add: wp_def drv_call_def split: prod.splits sum.splits)

lemma wp_pub_call_memory:
  assumes "he_persist env = memory_persist"
    and "\<And>a p. Q a (s\<lparr>h_events := p, h_log := h_log s @ [(CPublish subj, Done)]\<rparr>)"
  shows "wp (pub_call env subj flds) Q E s"
  using assms
  by (auto simp: wp_def pub_call_def publish_def memory_persist_def bindE_def thenE_def getsE_def
      modifyE_def zoomE_def ret_def split: prod.splits sum.splits)

lemma sample_room: "room_ordinal ''room-1'' = Some 1"
  by code_simp

lemma sample_gate: "js_le (Num 5) (js_int 1) = False" "safe_int 1"
  by (simp_all add: js_int_def safe_int_def MAX_SAFE_def)

lemmas sample_simps = sample_run_def handoff_def sample_coordinator_def sample_target_def
  sample_state_def sample_candidate_def sample_driver_def failing_driver_def sample_room sample_gate
  begin_locals_def handoff_try_def stage_schedule_def stage_ready_def stage_freeze_def stage_snapshot_def
  stage_journal_def stage_checksum_def stage_activate_def stage_cutover_def stage_verify_def
  stage_drain_def wp_drv_call_eq wp_set_stage handoff_env_for_def Let_def str_truthy_def done_reply_def wp_set_stage


lemma sample_run_ok:
  "wp (sample_run sample_driver) (\<lambda>res _. hr_newEpoch res = 8 \<and> hr_checksum res = ''e'')
     (\<lambda>_ _. False) (sample_state\<lparr>h_log := []\<rparr>)"
  apply (simp add: sample_simps)
  apply (rule wp_pub_call_memory, simp, simp add: wp_drv_call_eq wp_set_stage done_reply_def)+
  done


section \<open>Properties\<close>


text \<open>
  C2: A handoff that returns made exactly the eleven driver calls of the plan in order, none
  of them failed, the verification reported a healthy Candidate and continuous sessions, the
  Gateway moved from the current epoch to the next one, and the coordinator is free again.
\<close>

theorem handoff_success_run:
  assumes "handoff co drv persist sp fresh t requested (s\<lparr>h_log := []\<rparr>) = (Inr res, s')"
  shows "successful_run (ht_currentEpoch t) res (h_log s') \<and> h_activeOperation s' = None"
  using wp_InrD [OF handoff_ok [OF _ refl] assms] by simp

theorem handoff_success_run_witness:
  "\<exists>res s'. sample_run sample_driver (sample_state\<lparr>h_log := []\<rparr>) = (Inr res, s')
     \<and> hr_newEpoch res = 8 \<and> hr_checksum res = ''e''
     \<and> successful_run 7 res (h_log s') \<and> h_activeOperation s' = None"
proof -
  obtain res s' where run: "sample_run sample_driver (sample_state\<lparr>h_log := []\<rparr>) = (Inr res, s')"
    and res: "hr_newEpoch res = 8" "hr_checksum res = ''e''"
    by (rule wp_returns [OF sample_run_ok]) simp
  from handoff_success_run [OF run [unfolded sample_run_def]] run res show ?thesis
    by (simp add: sample_target_def)
qed



end
