(* ===== verification/DriverNet.thy ===== *)
theory DriverNet
  imports Handoff ReleaseControl
begin

text \<open>
  The ground floor of \<open>services/room-orchestrator/src/handoff-driver.ts\<close>: the driver's
  options and names, the requests it sends to Kubernetes, to the game Pods and to the Session
  Gateway, how replies become values or errors, the polling loops and the operation contexts
  it shares between its methods.  The network, the clock and JSON are outside the repository;
  they are the fields of \<open>denv\<close>.
\<close>

section \<open>Names and images\<close>

definition trimSlash :: "string \<Rightarrow> string" where
  "trimSlash s = rev (dropWhile (\<lambda>c. c = CHR ''/'') (rev s))"

definition is_alnum_lower :: "char \<Rightarrow> bool" where
  "is_alnum_lower c = (is_digit c \<or> is_lower c)"

definition is_kubernetes_name :: "string \<Rightarrow> bool" where
  "is_kubernetes_name s =
     (s \<noteq> [] \<and> is_alnum_lower (hd s) \<and> is_alnum_lower (last s)
      \<and> list_all (\<lambda>c. is_alnum_lower c \<or> c = CHR ''-'') s)"

definition is_word_char :: "char \<Rightarrow> bool" where
  "is_word_char c = (is_digit c \<or> is_lower c \<or> is_upper c \<or> c = CHR ''_'')"

definition is_image_tag :: "string \<Rightarrow> bool" where
  "is_image_tag s =
     (s \<noteq> [] \<and> length s \<le> 128 \<and> is_word_char (hd s)
      \<and> list_all (\<lambda>c. is_word_char c \<or> c = CHR ''.'' \<or> c = CHR ''-'') (tl s))"

definition last_n :: "nat \<Rightarrow> 'a list \<Rightarrow> 'a list" where
  "last_n n xs = drop (length xs - n) xs"

text \<open>The part of a string after the last occurrence of a character, if it occurs.\<close>

definition after_last :: "char \<Rightarrow> string \<Rightarrow> string option" where
  "after_last c s =
     (if c \<in> set s then Some (rev (takeWhile (\<lambda>x. x \<noteq> c) (rev s))) else None)"

definition imageRevision :: "string \<Rightarrow> string" where
  "imageRevision img =
     (case strip_prefix ''@sha256:'' (last_n 72 img) of
        Some h \<Rightarrow> if is_sha256_hex h then ''sha256:'' @ h
                   else (let tail = (case after_last (CHR ''/'') img of None \<Rightarrow> img | Some t \<Rightarrow> t)
                         in case after_last (CHR '':'') tail of None \<Rightarrow> ''unavailable'' | Some r \<Rightarrow> r)
      | None \<Rightarrow> (let tail = (case after_last (CHR ''/'') img of None \<Rightarrow> img | Some t \<Rightarrow> t)
                 in case after_last (CHR '':'') tail of None \<Rightarrow> ''unavailable'' | Some r \<Rightarrow> r))"

definition lower_char :: "char \<Rightarrow> char" where
  "lower_char c = (if is_upper c then char_of (of_char c + 32 :: nat) else c)"

definition runtimeImageDigest :: "jv \<Rightarrow> string option" where
  "runtimeImageDigest v =
     (case v of
        JStr s \<Rightarrow> (let d = map lower_char (last_n 71 s) in if is_image_digest d then Some d else None)
      | _ \<Rightarrow> None)"

definition endpointForPodIp :: "string \<Rightarrow> int \<Rightarrow> string" where
  "endpointForPodIp ip port =
     ''http://'' @ (if CHR '':'' \<in> set ip then ''['' @ ip @ '']'' else ip) @ '':'' @ show_int port"

section \<open>Options\<close>

record driver_options =
  do_apiServer :: string
  do_namespace :: string
  do_deploymentPrefix :: string
  do_roomCount :: int
  do_gatewayEndpoint :: string
  do_gameImageRepository :: string
  do_gamePort :: int
  do_requestTimeoutMs :: int
  do_postVerificationTimeoutMs :: int
  do_candidateTimeoutMs :: int
  do_catchUpTimeoutMs :: int
  do_pollIntervalMs :: int

record driver_input =
  dn_apiServer :: string
  dn_namespace :: string
  dn_deploymentPrefix :: string
  dn_roomCount :: jsnum
  dn_gatewayEndpoint :: "string option"
  dn_gameImageRepository :: "string option"
  dn_gamePort :: "int option"
  dn_requestTimeoutMs :: "int option"
  dn_postVerificationTimeoutMs :: "int option"
  dn_candidateTimeoutMs :: "int option"
  dn_catchUpTimeoutMs :: "int option"
  dn_pollIntervalMs :: "int option"

definition or_default :: "'a option \<Rightarrow> 'a \<Rightarrow> 'a" where
  "or_default x d = (case x of None \<Rightarrow> d | Some v \<Rightarrow> v)"

definition new_driver_options :: "driver_input \<Rightarrow> string + driver_options" where
  "new_driver_options i =
     (if dn_apiServer i = [] then Inl ''kubernetes_api_server_required''
      else if \<not> is_kubernetes_name (dn_namespace i) then Inl ''invalid_kubernetes_namespace''
      else if \<not> is_kubernetes_name (dn_deploymentPrefix i) then Inl ''invalid_game_deployment_prefix''
      else if \<not> is_integer (dn_roomCount i) \<or> js_lt (dn_roomCount i) (js_int 1)
              \<or> js_lt (js_int 100) (dn_roomCount i) then Inl ''invalid_game_deployment_count''
      else Inr \<lparr>do_apiServer = dn_apiServer i, do_namespace = dn_namespace i,
                do_deploymentPrefix = dn_deploymentPrefix i,
                do_roomCount = int_of_jsnum (dn_roomCount i),
                do_gatewayEndpoint = trimSlash (or_default (dn_gatewayEndpoint i) ''http://session-gateway:8083''),
                do_gameImageRepository = trimSlash (or_default (dn_gameImageRepository i)
                   ''ghcr.io/jungle-303-04/demo-game/game-server''),
                do_gamePort = or_default (dn_gamePort i) 8001,
                do_requestTimeoutMs = or_default (dn_requestTimeoutMs i) 5000,
                do_postVerificationTimeoutMs = or_default (dn_postVerificationTimeoutMs i) 12000,
                do_candidateTimeoutMs = or_default (dn_candidateTimeoutMs i) 120000,
                do_catchUpTimeoutMs = or_default (dn_catchUpTimeoutMs i) 30000,
                do_pollIntervalMs = or_default (dn_pollIntervalMs i) 500\<rparr>)"

definition ordinalForRoom :: "driver_options \<Rightarrow> string \<Rightarrow> string + nat" where
  "ordinalForRoom dopt room =
     (case room_ordinal room of
        None \<Rightarrow> Inl ''invalid_room_id''
      | Some n \<Rightarrow> if do_roomCount dopt \<le> int n then Inl ''invalid_room_id'' else Inr n)"

definition imageForRevision :: "driver_options \<Rightarrow> string \<Rightarrow> string + string" where
  "imageForRevision dopt revision =
     (if is_image_digest revision then Inr (do_gameImageRepository dopt @ ''@'' @ revision)
      else if \<not> is_image_tag revision then Inl ''invalid_game_revision''
      else Inr (do_gameImageRepository dopt @ '':'' @ revision))"

section \<open>Requests and replies\<close>

text \<open>
  Every request the driver can send, with the parts of its body.  \<open>request_line\<close> is the
  method and the URL the code builds for it.
\<close>

datatype request =
    KGetDeployment string
  | KPatchDeployment string string string obj
  | KListPods
  | KDeletePod string string
  | KPatchRole string string int
  | GetStatus string
  | PostSave string
  | GetMetrics string
  | PostSeed string int jv jv
  | PostRelease string int jv
  | PostPromote string int int jv
  | GetRooms
  | PostFreeze string string jv "string option"
  | PostAbort string string
  | PostCutover string string string jv int string string bool bool
  | GetOperation string string
  | PostFinalize string string int
  | PostReconcile string string int

definition kube_path :: "driver_options \<Rightarrow> string \<Rightarrow> string \<Rightarrow> string" where
  "kube_path dopt api rest = trimSlash (do_apiServer dopt) @ api @ ''/namespaces/'' @ do_namespace dopt @ rest"

definition gateway_room :: "driver_options \<Rightarrow> string \<Rightarrow> string \<Rightarrow> string" where
  "gateway_room dopt room verb = do_gatewayEndpoint dopt @ ''/internal/rooms/'' @ room @ verb"

fun request_line :: "(string \<Rightarrow> string) \<Rightarrow> driver_options \<Rightarrow> request \<Rightarrow> string \<times> string" where
  "request_line enc dopt (KGetDeployment d) = (''GET'', kube_path dopt ''/apis/apps/v1'' (''/deployments/'' @ d))"
| "request_line enc dopt (KPatchDeployment d _ _ _) = (''PATCH'', kube_path dopt ''/apis/apps/v1'' (''/deployments/'' @ d))"
| "request_line enc dopt KListPods =
     (''GET'', kube_path dopt ''/api/v1'' (''/pods?labelSelector='' @ enc ''opsia.dev/fleet=live''))"
| "request_line enc dopt (KDeletePod n _) = (''DELETE'', kube_path dopt ''/api/v1'' (''/pods/'' @ enc n))"
| "request_line enc dopt (KPatchRole n _ _) = (''PATCH'', kube_path dopt ''/api/v1'' (''/pods/'' @ enc n))"
| "request_line enc dopt (GetStatus e) = (''GET'', trimSlash e @ ''/ops/handoff/status'')"
| "request_line enc dopt (PostSave e) = (''POST'', e @ ''/ops/snapshot/save'')"
| "request_line enc dopt (GetMetrics e) = (''GET'', e @ ''/metrics'')"
| "request_line enc dopt (PostSeed e _ _ _) = (''POST'', trimSlash e @ ''/ops/handoff/seed'')"
| "request_line enc dopt (PostRelease e _ _) = (''POST'', e @ ''/ops/handoff/release'')"
| "request_line enc dopt (PostPromote e _ _ _) = (''POST'', e @ ''/ops/handoff/promote'')"
| "request_line enc dopt GetRooms = (''GET'', do_gatewayEndpoint dopt @ ''/internal/rooms'')"
| "request_line enc dopt (PostFreeze r _ _ _) = (''POST'', gateway_room dopt r ''/freeze'')"
| "request_line enc dopt (PostAbort r _) = (''POST'', gateway_room dopt r ''/abort'')"
| "request_line enc dopt (PostCutover r _ _ _ _ _ _ _ _) = (''POST'', gateway_room dopt r ''/cutover'')"
| "request_line enc dopt (GetOperation r p) = (''GET'', gateway_room dopt r (''/operations/'' @ enc p))"
| "request_line enc dopt (PostFinalize r _ _) = (''POST'', gateway_room dopt r ''/finalize'')"
| "request_line enc dopt (PostReconcile r _ _) = (''POST'', gateway_room dopt r ''/reconcile'')"

text \<open>
  A reply: the status code and the body, \<open>None\<close> when the text is not JSON.  An empty text is
  the empty object, as in the code.
\<close>

record http_reply =
  rp_status :: int
  rp_body :: "jv option"

record driver_context =
  dx_operationId :: string
  dx_target :: handoff_target
  dx_candidate :: "candidate option"
  dx_deploymentName :: string
  dx_originalImage :: string
  dx_originalRevision :: string
  dx_originalBuildRevision :: string
  dx_originalAnnotations :: obj
  dx_desiredImage :: string
  dx_checksum :: jv
  dx_committedEpoch :: "int option"

text \<open>
  The two context maps of the driver hold the same mutable object: contexts live in a store
  and the maps hold their addresses.  \<open>ds_log\<close> is the history of requests and replies.
\<close>

record 'w dstate =
  ds_world :: 'w
  ds_store :: "nat \<Rightarrow> driver_context"
  ds_nextContext :: nat
  ds_byRoom :: "string \<rightharpoonup> nat"
  ds_byCandidateUid :: "string \<rightharpoonup> nat"
  ds_log :: "(request \<times> (exn + http_reply)) list"

record 'w denv =
  de_options :: driver_options
  de_net :: "request \<Rightarrow> ('w, exn, http_reply) eff"
  de_token :: "('w, exn, string) eff"
  de_now :: "'w \<Rightarrow> int \<times> 'w"
  de_sleep :: "int \<Rightarrow> 'w \<Rightarrow> 'w"
  de_fmt :: "rat \<Rightarrow> string"
  de_fuel :: nat

definition send :: "'w denv \<Rightarrow> request \<Rightarrow> ('w dstate, exn, http_reply) eff" where
  "send env r = (\<lambda>s. case de_net env r (ds_world s) of
     (x, w) \<Rightarrow> (x, s\<lparr>ds_world := w, ds_log := ds_log s @ [(r, x)]\<rparr>))"

definition now_ms :: "'w denv \<Rightarrow> ('w dstate, exn, int) eff" where
  "now_ms env = (\<lambda>s. case de_now env (ds_world s) of (t, w) \<Rightarrow> (Inr t, s\<lparr>ds_world := w\<rparr>))"

definition sleep_ms :: "'w denv \<Rightarrow> int \<Rightarrow> ('w dstate, exn, unit) eff" where
  "sleep_ms env ms = modifyE (\<lambda>s. s\<lparr>ds_world := de_sleep env ms (ds_world s)\<rparr>)"

definition ok_status :: "int \<Rightarrow> bool" where
  "ok_status n = (200 \<le> n \<and> n \<le> 299)"

definition errorMessage :: "'w denv \<Rightarrow> jv \<Rightarrow> string \<Rightarrow> string" where
  "errorMessage env body fallback =
     (case body of
        JObj kvs \<Rightarrow> if ''error'' \<in> set (map fst kvs)
                    then js_to_string (de_fmt env) (nullish_or (oget kvs ''error'') (JStr fallback))
                    else fallback
      | _ \<Rightarrow> fallback)"

definition is_space_char :: "char \<Rightarrow> bool" where
  "is_space_char c = (of_char c \<in> {9, 10, 11, 12, 13, 32, 160 :: nat})"

definition js_trim :: "string \<Rightarrow> string" where
  "js_trim s = rev (dropWhile is_space_char (rev (dropWhile is_space_char s)))"

definition authorization :: "'w denv \<Rightarrow> ('w dstate, exn, unit) eff" where
  "authorization env =
     bindE (zoomE ds_world (\<lambda>w s. s\<lparr>ds_world := w\<rparr>) (de_token env)) (\<lambda>t.
       guardE (js_trim t \<noteq> []) (Err ''kubernetes_service_account_token_unavailable''))"

definition kubeResponse :: "'w denv \<Rightarrow> request \<Rightarrow> ('w dstate, exn, http_reply) eff" where
  "kubeResponse env r = thenE (authorization env) (send env r)"

definition kubeJson :: "'w denv \<Rightarrow> request \<Rightarrow> ('w dstate, exn, jv) eff" where
  "kubeJson env r =
     bindE (kubeResponse env r) (\<lambda>reply.
       case rp_body reply of
         None \<Rightarrow> throwE (Err ''SyntaxError'')
       | Some body \<Rightarrow>
           if ok_status (rp_status reply) then ret body
           else throwE (Err (errorMessage env body (''kubernetes_request_failed:'' @ show_int (rp_status reply)))))"

definition controlJson :: "'w denv \<Rightarrow> int list \<Rightarrow> request \<Rightarrow> ('w dstate, exn, jv) eff" where
  "controlJson env accepted r =
     bindE (send env r) (\<lambda>reply.
       let body = (case rp_body reply of None \<Rightarrow> JObj [] | Some b \<Rightarrow> b) in
       if ok_status (rp_status reply) \<or> rp_status reply \<in> set accepted then ret body
       else throwE (Err (errorMessage env body (''control_request_failed:'' @ show_int (rp_status reply)))))"

text \<open>
  A body whose properties the caller reads: reading one from \<open>null\<close> is a \<open>TypeError\<close>,
  a primitive has none of the properties.
\<close>

definition props_of :: "jv \<Rightarrow> ('s, exn, obj) eff" where
  "props_of v = (case v of
     JNull \<Rightarrow> throwE (Err ''TypeError'')
   | JUndef \<Rightarrow> throwE (Err ''TypeError'')
   | JObj kvs \<Rightarrow> ret kvs
   | _ \<Rightarrow> ret [])"

definition controlObj :: "'w denv \<Rightarrow> int list \<Rightarrow> request \<Rightarrow> ('w dstate, exn, obj) eff" where
  "controlObj env accepted r = bindE (controlJson env accepted r) props_of"

text \<open>Optional chaining through nested objects, and a JSON list.\<close>

fun jpath :: "jv \<Rightarrow> string list \<Rightarrow> jv" where
  "jpath v [] = v"
| "jpath (JObj kvs) (k # ks) = jpath (oget kvs k) ks"
| "jpath _ (k # ks) = JUndef"

fun jlist :: "jv \<Rightarrow> jv list" where
  "jlist (JArr vs) = vs"
| "jlist _ = []"

fun jstr :: "jv \<Rightarrow> string" where
  "jstr (JStr s) = s"
| "jstr _ = []"

fun jnum :: "jv \<Rightarrow> int" where
  "jnum (JNum n) = int_of_jsnum n"
| "jnum _ = 0"

fun is_safe_jv :: "jv \<Rightarrow> bool" where
  "is_safe_jv (JNum n) = is_safe_integer n"
| "is_safe_jv _ = False"

fun is_checksum :: "jv \<Rightarrow> bool" where
  "is_checksum (JStr s) = is_sha256_hex s"
| "is_checksum _ = False"

fun is_jstr :: "jv \<Rightarrow> bool" where
  "is_jstr (JStr _) = True"
| "is_jstr _ = False"

fun is_jbool :: "jv \<Rightarrow> bool" where
  "is_jbool (JBool _) = True"
| "is_jbool _ = False"

text \<open>\<open>Promise.all\<close> over two requests: both are sent; the first rejection is the result.\<close>

definition bothE :: "('s, 'e, 'a) eff \<Rightarrow> ('s, 'e, 'b) eff \<Rightarrow> ('s, 'e, 'a \<times> 'b) eff" where
  "bothE m n = (\<lambda>s. case m s of (r, s1) \<Rightarrow> (case n s1 of (q, s2) \<Rightarrow>
     (case r of Inl e \<Rightarrow> Inl e
      | Inr a \<Rightarrow> (case q of Inl e \<Rightarrow> Inl e | Inr b \<Rightarrow> Inr (a, b)), s2)))"

section \<open>Polling until a deadline\<close>

text \<open>
  \<open>while (Date.now() < deadline) { body; await sleep(pause) }\<close>: the body returns \<open>Inr\<close> to
  leave the loop with a result, \<open>Inl\<close> to go on with new loop variables.
\<close>

fun poll_until ::
  "nat \<Rightarrow> 'w denv \<Rightarrow> int \<Rightarrow> int \<Rightarrow> ('acc \<Rightarrow> ('w dstate, exn, 'acc + 'a) eff) \<Rightarrow> 'acc
     \<Rightarrow> ('w dstate, exn, 'acc + 'a) eff" where
  "poll_until 0 env deadline pause body acc = throwE OutOfFuel"
| "poll_until (Suc n) env deadline pause body acc =
     bindE (now_ms env) (\<lambda>t.
       if t < deadline then
         bindE (body acc) (\<lambda>r. case r of
            Inr a \<Rightarrow> ret (Inr a)
          | Inl acc' \<Rightarrow> thenE (sleep_ms env pause) (poll_until n env deadline pause body acc'))
       else ret (Inl acc))"

text \<open>
  The clock a driver can rely on: reading it gives its value, sleeping advances it by at
  least the pause, requests never turn it back.
\<close>

definition clock_ok :: "'w denv \<Rightarrow> ('w \<Rightarrow> int) \<Rightarrow> bool" where
  "clock_ok env clk =
     ((\<forall>w. fst (de_now env w) = clk w \<and> clk w \<le> clk (snd (de_now env w)))
      \<and> (\<forall>ms w. clk w + ms \<le> clk (de_sleep env ms w))
      \<and> (\<forall>r w. clk w \<le> clk (snd (de_net env r w))))"

definition time_moves :: "('w \<Rightarrow> int) \<Rightarrow> ('w dstate, exn, 'a) eff \<Rightarrow> bool" where
  "time_moves clk m = (\<forall>s. clk (ds_world s) \<le> clk (ds_world (snd (m s))) \<and> fst (m s) \<noteq> Inl OutOfFuel)"

lemma poll_until_terminates:
  assumes "clock_ok env clk" and "1 \<le> pause" and "\<And>acc. time_moves clk (body acc)"
    and "deadline - clk (ds_world s) < int n" and "0 < n"
  shows "fst (poll_until n env deadline pause body acc s) \<noteq> Inl OutOfFuel"
  using assms(4,5)
proof (induction n arbitrary: acc s)
  case (Suc n)
  obtain t w where now: "de_now env (ds_world s) = (t, w)" by (cases "de_now env (ds_world s)")
  then have t: "t = clk (ds_world s)" and w: "clk (ds_world s) \<le> clk w"
    using assms(1) unfolding clock_ok_def by (metis fst_conv, metis snd_conv)
  let ?s = "s\<lparr>ds_world := w\<rparr>"
  obtain r s' where body: "body acc ?s = (r, s')" by (cases "body acc ?s")
  have s': "clk w \<le> clk (ds_world s')" and r: "r \<noteq> Inl OutOfFuel"
    using assms(3) [of acc, unfolded time_moves_def, rule_format, of ?s] body by simp_all
  let ?s2 = "s'\<lparr>ds_world := de_sleep env pause (ds_world s')\<rparr>"
  have "clk (ds_world s) + 1 \<le> clk (ds_world ?s2)"
  proof -
    have "clk (ds_world s') + pause \<le> clk (de_sleep env pause (ds_world s'))"
      using assms(1) by (simp add: clock_ok_def)
    then show ?thesis using w s' assms(2) by simp
  qed
  then have later: "t < deadline \<Longrightarrow> deadline - clk (ds_world ?s2) < int n \<and> 0 < n"
    using Suc.prems t by (cases "n = 0") auto
  show ?case
    using now body r later Suc.IH
    by (auto simp: bindE_def thenE_def now_ms_def sleep_ms_def modifyE_def ret_def split: sum.splits)
qed simp

end
