(* ===== verification/HandoffDriver.thy ===== *)
theory HandoffDriver
  imports DriverNet
begin

text \<open>
  The Kubernetes driver of the room handoff (\<open>handoff-driver.ts\<close>), method by method over
  the requests of \<open>DriverNet\<close>.  Replies are JSON as received: the checks the methods make on
  them are the code's.
\<close>

section \<open>Shared contexts\<close>

definition throwM :: "string \<Rightarrow> ('s, exn, 'a) eff" where
  "throwM m = throwE (Err m)"

definition liftS :: "string + 'a \<Rightarrow> ('s, exn, 'a) eff" where
  "liftS r = (case r of Inl m \<Rightarrow> throwE (Err m) | Inr a \<Rightarrow> ret a)"

definition context_at :: "nat option \<Rightarrow> ('w dstate, exn, nat \<times> driver_context) eff" where
  "context_at x = (case x of
     None \<Rightarrow> throwM ''handoff_context_not_found''
   | Some a \<Rightarrow> getsE (\<lambda>s. (a, ds_store s a)))"

definition contextFor :: "candidate \<Rightarrow> ('w dstate, exn, nat \<times> driver_context) eff" where
  "contextFor c = bindE (getsE (\<lambda>s. ds_byCandidateUid s (cd_uid c))) context_at"

definition set_context :: "nat \<Rightarrow> (driver_context \<Rightarrow> driver_context) \<Rightarrow> ('w dstate, exn, unit) eff" where
  "set_context a f = modifyE (\<lambda>s. s\<lparr>ds_store := (ds_store s)(a := f (ds_store s a))\<rparr>)"

definition clearContext :: "nat \<Rightarrow> ('w dstate, exn, unit) eff" where
  "clearContext a = modifyE (\<lambda>s.
     let c = ds_store s a in
     s\<lparr>ds_byRoom := (ds_byRoom s)(ht_roomId (dx_target c) := None),
       ds_byCandidateUid := (case dx_candidate c of
          None \<Rightarrow> ds_byCandidateUid s
        | Some d \<Rightarrow> (ds_byCandidateUid s)(cd_uid d := None))\<rparr>)"

section \<open>Kubernetes and Pod requests\<close>

definition room_label :: "jv \<Rightarrow> jv" where
  "room_label pod = nullish_or (jpath pod [''metadata'', ''labels'', ''game.opsia.dev/room-id''])
                               (jpath pod [''metadata'', ''labels'', ''opsia.dev/room-id''])"

definition listRoomPods :: "'w denv \<Rightarrow> string \<Rightarrow> ('w dstate, exn, jv list) eff" where
  "listRoomPods env room =
     bindE (kubeJson env KListPods) (\<lambda>body.
     bindE (props_of body) (\<lambda>b.
     ret (filter (\<lambda>pod. room_label pod = JStr room) (jlist (oget b ''items'')))))"

definition patchDeployment ::
  "'w denv \<Rightarrow> driver_context \<Rightarrow> string \<Rightarrow> string \<Rightarrow> obj \<Rightarrow> ('w dstate, exn, unit) eff" where
  "patchDeployment env c img revision annotations =
     thenE (kubeJson env (KPatchDeployment (dx_deploymentName c) img revision annotations)) (ret ())"

definition ann_or_null :: "obj \<Rightarrow> string \<Rightarrow> string \<times> jv" where
  "ann_or_null anns k = (k, nullish_or (oget anns k) JNull)"

definition restoreDeployment :: "'w denv \<Rightarrow> driver_context \<Rightarrow> ('w dstate, exn, unit) eff" where
  "restoreDeployment env c =
     patchDeployment env c (dx_originalImage c) (dx_originalBuildRevision c)
       [ann_or_null (dx_originalAnnotations c) ''opsia.dev/handoff-operation'',
        ann_or_null (dx_originalAnnotations c) ''opsia.dev/handoff-revision'',
        ann_or_null (dx_originalAnnotations c) ''opsia.dev/handoff-rollback'']"

definition deletePod :: "'w denv \<Rightarrow> string \<Rightarrow> string \<Rightarrow> ('w dstate, exn, unit) eff" where
  "deletePod env name uid =
     bindE (kubeResponse env (KDeletePod name uid)) (\<lambda>reply.
       if \<not> ok_status (rp_status reply) \<and> rp_status reply \<noteq> 404 then
         throwM (errorMessage env (case rp_body reply of None \<Rightarrow> JObj [] | Some b \<Rightarrow> b)
                   (''pod_delete_failed:'' @ show_int (rp_status reply)))
       else ret ())"

definition patchPodRole :: "'w denv \<Rightarrow> string \<Rightarrow> string \<Rightarrow> jv \<Rightarrow> ('w dstate, exn, unit) eff" where
  "patchPodRole env name role epoch =
     thenE (guardE (is_safe_jv epoch \<and> 0 \<le> jnum epoch) (Err ''invalid_room_epoch''))
     (thenE (kubeJson env (KPatchRole name role (jnum epoch))) (ret ()))"

definition handoffStatus :: "'w denv \<Rightarrow> string \<Rightarrow> ('w dstate, exn, obj) eff" where
  "handoffStatus env endpoint =
     bindE (controlJson env [] (GetStatus endpoint)) (\<lambda>body.
       case body of
         JObj st \<Rightarrow>
           if oget st ''role'' \<in> {JStr ''active'', JStr ''candidate''}
              \<and> is_jstr (oget st ''roomId'') \<and> is_jbool (oget st ''ready'')
           then ret st else throwM ''invalid_handoff_status''
       | _ \<Rightarrow> throwM ''invalid_handoff_status'')"

definition seed :: "'w denv \<Rightarrow> string \<Rightarrow> int \<Rightarrow> jv \<Rightarrow> jv \<Rightarrow> ('w dstate, exn, obj) eff" where
  "seed env endpoint expectedEpoch targetTick checksum =
     controlObj env [200, 409] (PostSeed endpoint expectedEpoch targetTick checksum)"

definition gatewayRooms :: "'w denv \<Rightarrow> ('w dstate, exn, obj) eff" where
  "gatewayRooms env = controlObj env [] GetRooms"

text \<open>\<open>entries?.find(entry => entry.roomId === room && entry.operationId === op)\<close>\<close>

definition find_room :: "jv \<Rightarrow> string \<Rightarrow> jv" where
  "find_room entries room =
     (case find (\<lambda>e. jpath e [''roomId''] = JStr room) (jlist entries) of None \<Rightarrow> JUndef | Some e \<Rightarrow> e)"

definition find_op :: "jv \<Rightarrow> string \<Rightarrow> string \<Rightarrow> jv" where
  "find_op entries room op =
     (case find (\<lambda>e. jpath e [''roomId''] = JStr room \<and> jpath e [''operationId''] = JStr op)
             (jlist entries) of None \<Rightarrow> JUndef | Some e \<Rightarrow> e)"

definition poll_pause :: "'w denv \<Rightarrow> int" where
  "poll_pause env = min (do_pollIntervalMs (de_options env)) 100"

definition pollActiveSnapshot :: "'w denv \<Rightarrow> string \<Rightarrow> int \<Rightarrow> ('w dstate, exn, obj) eff" where
  "pollActiveSnapshot env endpoint expectedEpoch =
     bindE (now_ms env) (\<lambda>t0.
     bindE (poll_until (de_fuel env) env (t0 + do_requestTimeoutMs (de_options env)) (poll_pause env)
       (\<lambda>_. bindE (handoffStatus env endpoint) (\<lambda>st.
          if oget st ''role'' \<noteq> JStr ''active'' then throwM ''active_authority_lost_before_cutover''
          else if oget st ''roomEpoch'' \<noteq> jint expectedEpoch then throwM ''active_epoch_changed_before_cutover''
          else if is_safe_jv (oget st ''serverTick'') \<and> 0 \<le> jnum (oget st ''serverTick'')
                  \<and> is_checksum (oget st ''checksum'') then ret (Inr st)
          else ret (Inl ()))) ()) (\<lambda>r.
     case r of Inr st \<Rightarrow> ret st | Inl _ \<Rightarrow> throwM ''active_snapshot_status_timeout''))"

section \<open>Resolving the target of a handoff\<close>

fun mapE :: "('x \<Rightarrow> ('s, 'e, 'a) eff) \<Rightarrow> 'x list \<Rightarrow> ('s, 'e, 'a list) eff" where
  "mapE f [] = ret []"
| "mapE f (x # xs) = bindE (f x) (\<lambda>a. bindE (mapE f xs) (\<lambda>as. ret (a # as)))"

definition reconcileGatewayEpoch :: "'w denv \<Rightarrow> string \<Rightarrow> int \<Rightarrow> ('w dstate, exn, unit) eff" where
  "reconcileGatewayEpoch env room activeEpoch =
     bindE (gatewayRooms env) (\<lambda>gateway.
       let route = find_room (oget gateway ''rooms'') room in
       if \<not> truthy (jpath route [''endpoint'']) \<or> \<not> is_safe_jv (jpath route [''epoch''])
       then throwM ''gateway_room_route_unavailable''
       else if jpath route [''epoch''] = jint activeEpoch then ret ()
       else thenE (controlJson env [] (PostReconcile room (jstr (jpath route [''endpoint''])) activeEpoch))
              (ret ()))"

definition pod_running :: "jv \<Rightarrow> bool" where
  "pod_running pod =
     (jpath pod [''status'', ''phase''] = JStr ''Running'' \<and> truthy (jpath pod [''status'', ''podIP''])
      \<and> truthy (jpath pod [''metadata'', ''name'']) \<and> truthy (jpath pod [''metadata'', ''uid''])
      \<and> \<not> truthy (jpath pod [''metadata'', ''deletionTimestamp'']))"

definition pod_live :: "jv \<Rightarrow> bool" where
  "pod_live pod =
     (\<not> truthy (jpath pod [''metadata'', ''deletionTimestamp''])
      \<and> nullish_or (jpath pod [''status'', ''phase'']) (JStr []) \<notin> {JStr ''Failed'', JStr ''Succeeded''})"

definition observe_pod :: "'w denv \<Rightarrow> jv \<Rightarrow> ('w dstate, exn, (jv \<times> string \<times> obj) option) eff" where
  "observe_pod env pod =
     (let endpoint = endpointForPodIp (jstr (jpath pod [''status'', ''podIP''])) (do_gamePort (de_options env))
      in catchE (bindE (handoffStatus env endpoint) (\<lambda>st. ret (Some (pod, endpoint, st))))
                (\<lambda>_. ret None))"

record resolve_input =
  rv_roomId :: string
  rv_revision :: string
  rv_imageDigest :: "string option"
  rv_workflowRunId :: "string option"
  rv_applicationId :: "string option"

definition resolve_selected ::
  "'w denv \<Rightarrow> resolve_input \<Rightarrow> nat \<Rightarrow> jv list \<Rightarrow> jv \<times> string \<times> obj \<Rightarrow> ('w dstate, exn, handoff_target) eff" where
  "resolve_selected env i ordinal pods sel =
     (case sel of (pod, endpoint, st) \<Rightarrow>
      let live = filter pod_live pods; epoch = oget st ''roomEpoch'';
          deployment = do_deploymentPrefix (de_options env) @ ''-'' @ show_nat ordinal in
      if length live \<noteq> 1 \<or> jpath (hd live) [''metadata'', ''uid''] \<noteq> jpath pod [''metadata'', ''uid'']
      then throwM ''room_rollout_already_in_progress''
      else if \<not> is_safe_jv epoch \<or> jnum epoch < 0 then throwM ''active_room_epoch_unavailable''
      else if room_label pod \<noteq> JStr (rv_roomId i) then throwM ''active_room_pod_label_mismatch''
      else if \<not> is_kubernetes_name deployment then throwM ''invalid_game_deployment''
      else thenE (reconcileGatewayEpoch env (rv_roomId i) (jnum epoch))
        (ret \<lparr>ht_roomId = rv_roomId i, ht_activeEndpoint = endpoint,
              ht_activePod = \<lparr>rr_name = jstr (jpath pod [''metadata'', ''name'']),
                              rr_uid = jstr (jpath pod [''metadata'', ''uid'']),
                              rr_resourceVersion = (case jpath pod [''metadata'', ''resourceVersion''] of
                                 JStr v \<Rightarrow> Some v | _ \<Rightarrow> None)\<rparr>,
              ht_currentEpoch = jnum epoch, ht_revision = rv_revision i,
              ht_imageDigest = (if str_truthy (rv_imageDigest i) then rv_imageDigest i else None),
              ht_workflowRunId = rv_workflowRunId i, ht_applicationId = rv_applicationId i\<rparr>))"

definition resolveTarget :: "'w denv \<Rightarrow> resolve_input \<Rightarrow> ('w dstate, exn, handoff_target) eff" where
  "resolveTarget env i =
     bindE (liftS (ordinalForRoom (de_options env) (rv_roomId i))) (\<lambda>ordinal.
     bindE (liftS (imageForRevision (de_options env) (rv_revision i))) (\<lambda>_.
     thenE (guardE (case rv_imageDigest i of None \<Rightarrow> True | Some d \<Rightarrow> is_image_digest d)
              (Err ''invalid_game_image_digest''))
     (bindE (listRoomPods env (rv_roomId i)) (\<lambda>pods.
      bindE (mapE (observe_pod env) (filter pod_running pods)) (\<lambda>observed.
        let active = filter (\<lambda>(_, _, st). oget st ''role'' = JStr ''active'' \<and> truthy (oget st ''ready''))
                       (List.map_filter id observed) in
        if 1 < length active then throwM ''room_split_brain_detected''
        else case active of
          [] \<Rightarrow> throwM ''active_room_pod_not_found''
        | sel # _ \<Rightarrow> resolve_selected env i ordinal pods sel)))))"

section \<open>Scheduling the Candidate\<close>

text \<open>ISO timestamps compare as strings; \<open>sort(...)[0]\<close> is the first greatest element.\<close>

fun str_less :: "string \<Rightarrow> string \<Rightarrow> bool" where
  "str_less _ [] = False"
| "str_less [] (_ # _) = True"
| "str_less (a # as) (b # bs) =
     ((of_char a :: nat) < of_char b \<or> (a = b \<and> str_less as bs))"

fun first_greatest :: "('a \<Rightarrow> string) \<Rightarrow> 'a list \<Rightarrow> 'a option" where
  "first_greatest k [] = None"
| "first_greatest k (x # xs) =
     (case first_greatest k xs of
        None \<Rightarrow> Some x
      | Some y \<Rightarrow> if str_less (k x) (k y) then Some y else Some x)"

definition created_at :: "jv \<Rightarrow> string" where
  "created_at pod = jstr (nullish_or (jpath pod [''metadata'', ''creationTimestamp'']) (JStr []))"

definition named_container :: "jv \<Rightarrow> jv" where
  "named_container containers =
     (case find (\<lambda>e. jpath e [''name''] = JStr ''game-server'') (jlist containers) of
        None \<Rightarrow> JUndef | Some e \<Rightarrow> e)"

definition candidate_pod_matches :: "handoff_target \<Rightarrow> string \<Rightarrow> jv \<Rightarrow> bool" where
  "candidate_pod_matches t op pod =
     (jpath pod [''metadata'', ''uid''] \<noteq> JStr (rr_uid (ht_activePod t))
      \<and> jpath pod [''metadata'', ''annotations'', ''opsia.dev/handoff-operation''] = JStr op
      \<and> \<not> truthy (jpath pod [''metadata'', ''deletionTimestamp'']))"

definition candidate_from_pod :: "'w denv \<Rightarrow> handoff_target \<Rightarrow> string \<Rightarrow> jv \<Rightarrow> string + candidate" where
  "candidate_from_pod env t desired pod =
     (let observed = jpath (named_container (jpath pod [''spec'', ''containers''])) [''image''];
          digest = runtimeImageDigest
            (jpath (named_container (jpath pod [''status'', ''containerStatuses''])) [''imageID'']) in
      if observed \<noteq> JStr desired \<or> desired = [] then Inl ''candidate_pod_image_mismatch''
      else if imageRevision desired \<noteq> (case ht_imageDigest t of None \<Rightarrow> ht_revision t | Some d \<Rightarrow> d)
        then Inl ''candidate_pod_revision_mismatch''
      else if str_truthy (ht_imageDigest t) \<and> digest \<noteq> ht_imageDigest t
        then Inl ''candidate_pod_image_digest_mismatch''
      else Inr \<lparr>cd_name = jstr (jpath pod [''metadata'', ''name'']),
                cd_uid = jstr (jpath pod [''metadata'', ''uid'']),
                cd_resourceVersion = (case jpath pod [''metadata'', ''resourceVersion''] of
                   JStr v \<Rightarrow> Some v | _ \<Rightarrow> None),
                cd_endpoint = endpointForPodIp (jstr (jpath pod [''status'', ''podIP'']))
                   (do_gamePort (de_options env)),
                cd_revision = ht_revision t, cd_imageDigest = digest\<rparr>)"

definition schedule_poll ::
  "'w denv \<Rightarrow> handoff_target \<Rightarrow> string \<Rightarrow> nat \<Rightarrow> string \<Rightarrow> ('w dstate, exn, unit + candidate) eff" where
  "schedule_poll env t op a desired =
     bindE (listRoomPods env (ht_roomId t)) (\<lambda>pods.
       case first_greatest created_at (filter (candidate_pod_matches t op) pods) of
         None \<Rightarrow> ret (Inl ())
       | Some pod \<Rightarrow>
           if truthy (jpath pod [''metadata'', ''name'']) \<and> truthy (jpath pod [''metadata'', ''uid''])
              \<and> jpath pod [''status'', ''phase''] = JStr ''Running''
              \<and> truthy (jpath pod [''status'', ''podIP'']) then
             bindE (liftS (candidate_from_pod env t desired pod)) (\<lambda>c.
             thenE (set_context a (\<lambda>x. x\<lparr>dx_candidate := Some c\<rparr>))
             (thenE (modifyE (\<lambda>s. s\<lparr>ds_byCandidateUid := (ds_byCandidateUid s)(cd_uid c \<mapsto> a)\<rparr>))
             (thenE (bothE (patchPodRole env (rr_name (ht_activePod t)) ''active'' (jint (ht_currentEpoch t)))
                           (patchPodRole env (cd_name c) ''candidate'' (jint (ht_currentEpoch t))))
             (ret (Inr c)))))
           else ret (Inl ()))"

definition new_context :: "'w denv \<Rightarrow> handoff_target \<Rightarrow> string \<Rightarrow> string \<Rightarrow> string \<Rightarrow> jv \<Rightarrow> jv \<Rightarrow> driver_context" where
  "new_context env t op deploymentName desired deployment container =
     (let img = jstr (jpath container [''image'']);
          built = (case find (\<lambda>e. jpath e [''name''] = JStr ''OPSIA_GAME_BUILD_REVISION'')
                            (jlist (jpath container [''env''])) of
                     None \<Rightarrow> JUndef | Some e \<Rightarrow> jpath e [''value'']);
          ann = (\<lambda>k. (k, jpath deployment [''spec'', ''template'', ''metadata'', ''annotations'', k])) in
      \<lparr>dx_operationId = op, dx_target = t, dx_candidate = None, dx_deploymentName = deploymentName,
       dx_originalImage = img, dx_originalRevision = imageRevision img,
       dx_originalBuildRevision = jstr (nullish_or built (JStr (imageRevision img))),
       dx_originalAnnotations = [ann ''opsia.dev/handoff-operation'', ann ''opsia.dev/handoff-revision'',
                                 ann ''opsia.dev/handoff-rollback''],
       dx_desiredImage = desired, dx_checksum = JUndef, dx_committedEpoch = None\<rparr>)"

definition add_context :: "driver_context \<Rightarrow> ('w dstate, exn, nat) eff" where
  "add_context c = (\<lambda>s. (Inr (ds_nextContext s),
     s\<lparr>ds_store := (ds_store s)(ds_nextContext s := c), ds_nextContext := Suc (ds_nextContext s),
       ds_byRoom := (ds_byRoom s)(ht_roomId (dx_target c) \<mapsto> ds_nextContext s)\<rparr>))"

definition schedule_try ::
  "'w denv \<Rightarrow> handoff_target \<Rightarrow> string \<Rightarrow> nat \<Rightarrow> driver_context \<Rightarrow> ('w dstate, exn, candidate) eff" where
  "schedule_try env t op a c =
     thenE (patchDeployment env c (dx_desiredImage c) (ht_revision t)
              [(''opsia.dev/handoff-operation'', JStr op), (''opsia.dev/handoff-revision'', JStr (ht_revision t))])
     (bindE (now_ms env) (\<lambda>t0.
      bindE (poll_until (de_fuel env) env (t0 + do_candidateTimeoutMs (de_options env))
               (do_pollIntervalMs (de_options env)) (\<lambda>_. schedule_poll env t op a (dx_desiredImage c)) ()) (\<lambda>r.
      case r of Inr cand \<Rightarrow> ret cand | Inl _ \<Rightarrow> throwM ''candidate_pod_schedule_timeout'')))"

definition schedule_undo :: "'w denv \<Rightarrow> nat \<Rightarrow> exn \<Rightarrow> ('w dstate, exn, candidate) eff" where
  "schedule_undo env a error =
     bindE (getsE (\<lambda>s. ds_store s a)) (\<lambda>c.
     thenE (ignoreE (restoreDeployment env c))
     (thenE (case dx_candidate c of
               None \<Rightarrow> ret ()
             | Some d \<Rightarrow> ignoreE (deletePod env (cd_name d) (cd_uid d)))
     (thenE (clearContext a) (throwE error))))"

definition drv_scheduleCandidate ::
  "'w denv \<Rightarrow> handoff_target \<Rightarrow> string \<Rightarrow> ('w dstate, exn, candidate) eff" where
  "drv_scheduleCandidate env t op =
     bindE (liftS (ordinalForRoom (de_options env) (ht_roomId t))) (\<lambda>ordinal.
     bindE (getsE (\<lambda>s. ds_byRoom s (ht_roomId t))) (\<lambda>existing.
     thenE (guardE (op \<noteq> [] \<and> existing = None) (Err ''room_handoff_already_scheduled''))
     (let name = do_deploymentPrefix (de_options env) @ ''-'' @ show_nat ordinal in
      bindE (kubeJson env (KGetDeployment name)) (\<lambda>deployment.
      let container = named_container (jpath deployment [''spec'', ''template'', ''spec'', ''containers'']) in
      thenE (guardE (truthy (jpath container [''image''])) (Err ''game_deployment_image_unavailable''))
      (bindE (liftS (imageForRevision (de_options env)
                (case ht_imageDigest t of None \<Rightarrow> ht_revision t | Some d \<Rightarrow> d))) (\<lambda>desired.
       bindE (add_context (new_context env t op name desired deployment container)) (\<lambda>a.
       bindE (getsE (\<lambda>s. ds_store s a)) (\<lambda>c.
       catchE (schedule_try env t op a c) (schedule_undo env a)))))))))"

section \<open>Readiness, freeze, seed, catch-up and checksum\<close>

definition wait_poll :: "'w denv \<Rightarrow> candidate \<Rightarrow> string \<Rightarrow> ('w dstate, exn, string + unit) eff" where
  "wait_poll env c _ =
     catchE
       (bindE (handoffStatus env (cd_endpoint c)) (\<lambda>st.
        thenE (guardE (oget st ''role'' \<noteq> JStr ''active'') (Err ''candidate_acquired_authority_before_handoff''))
        (bindE (contextFor c) (\<lambda>(a, x).
        thenE (guardE (oget st ''roomId'' = JStr (ht_roomId (dx_target x))) (Err ''candidate_room_mismatch''))
        (ret (Inr ()))))))
       (\<lambda>e. let m = message_or ''candidate_status_unavailable'' e in
            if m = ''candidate_acquired_authority_before_handoff'' \<or> m = ''candidate_room_mismatch''
            then throwE e else ret (Inl m))"

definition drv_waitUntilReady :: "'w denv \<Rightarrow> candidate \<Rightarrow> ('w dstate, exn, unit) eff" where
  "drv_waitUntilReady env c =
     bindE (now_ms env) (\<lambda>t0.
     bindE (poll_until (de_fuel env) env (t0 + do_candidateTimeoutMs (de_options env))
              (do_pollIntervalMs (de_options env)) (wait_poll env c) ''candidate_status_unavailable'') (\<lambda>r.
     case r of Inr _ \<Rightarrow> ret () | Inl m \<Rightarrow> throwM (''candidate_ready_timeout:'' @ m)))"

definition drv_freezeGateway ::
  "'w denv \<Rightarrow> string \<Rightarrow> string \<Rightarrow> int \<Rightarrow> ('w dstate, exn, int \<times> int) eff" where
  "drv_freezeGateway env op room expectedEpoch =
     bindE (controlJson env [] (PostFreeze room op (jint expectedEpoch) None)) (\<lambda>b.
     ret (jnum (jpath b [''sessions'']), jnum (jpath b [''unackedInputs''])))"

definition drv_abortGatewayPreparation :: "'w denv \<Rightarrow> string \<Rightarrow> string \<Rightarrow> ('w dstate, exn, unit) eff" where
  "drv_abortGatewayPreparation env op room = thenE (controlJson env [] (PostAbort room op)) (ret ())"

definition drv_seedSnapshot ::
  "'w denv \<Rightarrow> (jv \<Rightarrow> int) \<Rightarrow> handoff_target \<Rightarrow> candidate \<Rightarrow> ('w dstate, exn, seed_result) eff" where
  "drv_seedSnapshot env payload_metric t c =
     bindE (contextFor c) (\<lambda>(a, x).
     thenE (controlJson env [] (PostSave (ht_activeEndpoint t)))
     (bindE (pollActiveSnapshot env (ht_activeEndpoint t) (ht_currentEpoch t)) (\<lambda>active.
      bindE (seed env (cd_endpoint c) (ht_currentEpoch t) (oget active ''serverTick'') (oget active ''checksum'')) (\<lambda>st.
      thenE (guardE (oget st ''role'' = JStr ''candidate'') (Err ''candidate_role_required''))
      (thenE (set_context a (\<lambda>x. x\<lparr>dx_checksum := oget active ''checksum''\<rparr>))
      (bindE (catchE
                (bindE (send env (GetMetrics (ht_activeEndpoint t))) (\<lambda>reply.
                   if ok_status (rp_status reply)
                   then ret (case rp_body reply of None \<Rightarrow> 0 | Some b \<Rightarrow> max 0 (payload_metric b))
                   else throwM ''control_request_failed''))
                (\<lambda>_. ret 0)) (\<lambda>bytes.
       ret \<lparr>sr_checksum = jstr (oget active ''checksum''),
            sr_snapshotTick = jnum (nullish_or (oget st ''snapshotTick'') (oget active ''serverTick'')),
            sr_payloadBytes = bytes\<rparr>)))))))"

definition soft_reasons :: "string list" where
  "soft_reasons = [''candidate_not_caught_up'', ''candidate_snapshot_missing'', ''candidate_checksum_mismatch'']"

definition catch_up_poll ::
  "'w denv \<Rightarrow> handoff_target \<Rightarrow> candidate \<Rightarrow> nat \<Rightarrow> int option \<times> jv
     \<Rightarrow> ('w dstate, exn, (int option \<times> jv) + catchup_result) eff" where
  "catch_up_poll env t c a _ =
     bindE (pollActiveSnapshot env (ht_activeEndpoint t) (ht_currentEpoch t)) (\<lambda>active.
     bindE (seed env (cd_endpoint c) (ht_currentEpoch t) (oget active ''serverTick'') (oget active ''checksum'')) (\<lambda>st.
       let tick = oget active ''serverTick''; ctick = nullish_or (oget st ''serverTick'') (jint 0);
           reason = nullish_or (oget st ''reason'') (JStr ''candidate_not_caught_up'');
           lag = max 0 (jnum tick - jnum ctick) in
       if truthy (oget st ''ready'') \<and> truthy (oget st ''caughtUp'') \<and> ctick = tick
          \<and> oget st ''checksum'' = oget active ''checksum'' then
         thenE (set_context a (\<lambda>x. x\<lparr>dx_checksum := oget active ''checksum''\<rparr>))
         (ret (Inr \<lparr>cu_activeTick = jnum tick, cu_candidateTick = jnum ctick, cu_lagTicks = 0,
                    cu_checksum = Some (jstr (oget active ''checksum''))\<rparr>))
       else if truthy (oget st ''reason'') \<and> (\<forall>r \<in> set soft_reasons. oget st ''reason'' \<noteq> JStr r)
         then throwM (js_to_string (de_fmt env) (oget st ''reason''))
       else ret (Inl (Some lag, reason))))"

definition drv_catchUpJournal ::
  "'w denv \<Rightarrow> handoff_target \<Rightarrow> candidate \<Rightarrow> int \<Rightarrow> ('w dstate, exn, catchup_result) eff" where
  "drv_catchUpJournal env t c _ =
     bindE (contextFor c) (\<lambda>(a, x).
     bindE (now_ms env) (\<lambda>t0.
     bindE (poll_until (de_fuel env) env (t0 + do_catchUpTimeoutMs (de_options env))
              (do_pollIntervalMs (de_options env)) (catch_up_poll env t c a)
              (None, JStr ''candidate_not_caught_up'')) (\<lambda>r.
     case r of
       Inr res \<Rightarrow> ret res
     | Inl (lag, reason) \<Rightarrow> throwM (''candidate_catch_up_timeout:'' @ js_to_string (de_fmt env) reason @ '':lag=''
          @ (case lag of None \<Rightarrow> ''Infinity'' | Some l \<Rightarrow> show_int l)))))"

definition drv_candidateChecksum :: "'w denv \<Rightarrow> candidate \<Rightarrow> ('w dstate, exn, string) eff" where
  "drv_candidateChecksum env c =
     bindE (handoffStatus env (cd_endpoint c)) (\<lambda>st.
       if truthy (oget st ''ready'') \<and> truthy (oget st ''caughtUp'') \<and> is_checksum (oget st ''checksum'')
       then ret (jstr (oget st ''checksum''))
       else throwM (js_to_string (de_fmt env)
              (nullish_or (oget st ''reason'') (JStr ''candidate_checksum_unavailable''))))"

end
