(* ===== verification/HandoffCutover.thy ===== *)
theory HandoffCutover
  imports HandoffDriver
begin

text \<open>
  The second half of \<open>handoff-driver.ts\<close>: the authority transfer to the Candidate, the
  Gateway cutover with its lost-response reconciliation, the post-cutover verification, the
  rollback, and the final drain or discard.
\<close>

section \<open>Gateway cutover\<close>

text \<open>
  \<open>gatewayCutover\<close>: when the cutover request fails, the durable operation record decides
  whether the registry committed; a transport error alone never means that it did not.
\<close>

definition cutover_request ::
  "string \<Rightarrow> string \<Rightarrow> string \<Rightarrow> jv \<Rightarrow> int \<Rightarrow> string \<Rightarrow> string \<Rightarrow> bool \<Rightarrow> bool \<Rightarrow> request" where
  "cutover_request room op endpoint expected next revision checksum matched caughtUp =
     PostCutover room op endpoint expected next revision checksum matched caughtUp"

definition exact_route :: "jv \<Rightarrow> int \<Rightarrow> string \<Rightarrow> bool" where
  "exact_route st next endpoint =
     (jpath st [''nextEpoch''] = jint next
      \<and> trimSlash (jstr (jpath st [''endpoint''])) = trimSlash endpoint)"

definition reconcile_cutover ::
  "'w denv \<Rightarrow> string \<Rightarrow> string \<Rightarrow> string \<Rightarrow> int \<Rightarrow> exn \<Rightarrow> ('w dstate, exn, sessions_result) eff" where
  "reconcile_cutover env room op endpoint next error =
     (if op = [] then throwE error
      else bindE (catchE (controlJson env [404] (GetOperation room op)) (\<lambda>_. ret JUndef)) (\<lambda>st.
        if jpath st [''status''] = JStr ''committed'' \<and> exact_route st next endpoint then
          ret \<lparr>sx_sessions = jnum (jpath st [''sessions'']),
               sx_replayedInputs = jnum (jpath st [''replayedInputs''])\<rparr>
        else if jpath st [''status''] = JStr ''registry_committed'' \<and> exact_route st next endpoint then
          throwE (CutoverCommitted
            (js_to_string (de_fmt env) (nullish_or (jpath st [''failure''])
               (JStr ''gateway_cutover_incomplete_after_registry_commit''))) next)
        else throwE error))"

definition gatewayCutover ::
  "'w denv \<Rightarrow> string \<Rightarrow> string \<Rightarrow> string \<Rightarrow> jv \<Rightarrow> int \<Rightarrow> string \<Rightarrow> string \<Rightarrow> bool \<Rightarrow> bool
     \<Rightarrow> ('w dstate, exn, sessions_result) eff" where
  "gatewayCutover env room op endpoint expected next revision checksum matched caughtUp =
     catchE
       (bindE (controlJson env [] (cutover_request room op endpoint expected next revision checksum matched caughtUp))
          (\<lambda>b. ret \<lparr>sx_sessions = jnum (jpath b [''sessions'']),
                    sx_replayedInputs = jnum (jpath b [''replayedInputs''])\<rparr>))
       (reconcile_cutover env room op endpoint next)"

definition room_context :: "string \<Rightarrow> string \<Rightarrow> ('w dstate, exn, nat \<times> driver_context) eff" where
  "room_context room op =
     bindE (getsE (\<lambda>s. ds_byRoom s room)) (\<lambda>x.
     bindE (context_at x) (\<lambda>(a, c).
     if dx_operationId c = op then ret (a, c) else throwM ''handoff_context_not_found''))"

definition authority_proof :: "obj \<Rightarrow> int \<Rightarrow> bool" where
  "authority_proof st next =
     (oget st ''role'' = JStr ''active'' \<and> truthy (oget st ''ready'')
      \<and> oget st ''roomEpoch'' = jint next \<and> is_checksum (oget st ''checksum'')
      \<and> oget st ''caughtUp'' = JBool True)"

definition drv_cutoverGateway :: "'w denv \<Rightarrow> cutover_input \<Rightarrow> ('w dstate, exn, sessions_result) eff" where
  "drv_cutoverGateway env i =
     bindE (room_context (ci_roomId i) (ci_operationId i)) (\<lambda>(a, c).
     bindE (handoffStatus env (ci_endpoint i)) (\<lambda>st.
       let matched = (dx_checksum c = JStr (ci_checksum i) \<and> dx_committedEpoch c = Some (ci_nextEpoch i));
           caughtUp = (matched \<and> authority_proof st (ci_nextEpoch i)) in
       thenE (guardE (matched \<and> caughtUp) (Err ''cutover_authority_proof_failed''))
       (bindE (gatewayCutover env (ci_roomId i) (ci_operationId i) (ci_endpoint i) (jint (ci_expectedEpoch i))
                 (ci_nextEpoch i) (ci_revision i) (ci_checksum i) matched caughtUp) (\<lambda>r.
        thenE (set_context a (\<lambda>x. x\<lparr>dx_checksum := JStr (ci_checksum i), dx_committedEpoch := Some (ci_nextEpoch i)\<rparr>))
        (ret r)))))"

section \<open>Moving authority to the Candidate\<close>

text \<open>
  The retry around the release: a checksum conflict refreshes the expected checksum until the
  deadline.  The loop runs its body before it looks at the clock.
\<close>

fun release_loop ::
  "nat \<Rightarrow> 'w denv \<Rightarrow> string \<Rightarrow> int \<Rightarrow> int \<Rightarrow> jv \<Rightarrow> ('w dstate, exn, obj option) eff" where
  "release_loop 0 env endpoint epoch deadline checksum = throwE OutOfFuel"
| "release_loop (Suc n) env endpoint epoch deadline checksum =
     bindE (catchE
        (bindE (controlObj env [] (PostRelease endpoint epoch checksum)) (\<lambda>st. ret (Inr st)))
        (\<lambda>e. if e \<noteq> Err ''authority_release_checksum_conflict'' then throwE e
             else bindE (now_ms env) (\<lambda>t.
               if deadline \<le> t then throwE e
               else thenE (sleep_ms env (poll_pause env))
                 (bindE (pollActiveSnapshot env endpoint epoch) (\<lambda>st. ret (Inl (oget st ''checksum'')))))))
       (\<lambda>r. case r of
          Inr st \<Rightarrow> ret (Some st)
        | Inl checksum' \<Rightarrow> bindE (now_ms env) (\<lambda>t.
            if t < deadline then release_loop n env endpoint epoch deadline checksum' else ret None))"

text \<open>Release the old authority and seed its final checkpoint into the Candidate.\<close>

definition release_and_seed ::
  "'w denv \<Rightarrow> handoff_target \<Rightarrow> candidate \<Rightarrow> obj \<Rightarrow> string \<Rightarrow> ('w dstate, exn, obj \<times> jv) eff" where
  "release_and_seed env t c old checksum =
     thenE (guardE (oget old ''roomEpoch'' = jint (ht_currentEpoch t)) (Err ''active_epoch_changed_before_authority_transfer''))
     (bindE (now_ms env) (\<lambda>t0.
      bindE (release_loop (de_fuel env) env (ht_activeEndpoint t) (ht_currentEpoch t)
               (t0 + do_requestTimeoutMs (de_options env)) (JStr checksum)) (\<lambda>released.
      case released of
        None \<Rightarrow> throwM ''authority_release_checksum_conflict''
      | Some st \<Rightarrow>
          thenE (guardE (oget st ''role'' = JStr ''candidate'' \<and> is_checksum (oget st ''checksum'')
                         \<and> is_safe_jv (oget st ''serverTick'')) (Err ''active_final_checkpoint_unavailable''))
          (thenE (patchPodRole env (rr_name (ht_activePod t)) ''candidate'' (jint (ht_currentEpoch t)))
          (bindE (seed env (cd_endpoint c) (ht_currentEpoch t) (oget st ''serverTick'') (oget st ''checksum'')) (\<lambda>cs.
           ret (cs, oget st ''checksum'')))))))"

definition promote_candidate ::
  "'w denv \<Rightarrow> handoff_target \<Rightarrow> candidate \<Rightarrow> int \<Rightarrow> nat \<Rightarrow> obj \<Rightarrow> jv \<Rightarrow> ('w dstate, exn, string) eff" where
  "promote_candidate env t c roomEpoch a cs checksum =
     thenE (guardE (oget cs ''role'' = JStr ''candidate'' \<and> truthy (oget cs ''ready'')
                    \<and> oget cs ''caughtUp'' = JBool True \<and> oget cs ''checksum'' = checksum)
              (Err (js_to_string (de_fmt env) (nullish_or (oget cs ''reason'')
                 (JStr ''candidate_final_checkpoint_mismatch'')))))
     (bindE (controlObj env [] (PostPromote (cd_endpoint c) (ht_currentEpoch t) roomEpoch checksum)) (\<lambda>p.
      thenE (guardE (oget p ''role'' = JStr ''active'' \<and> oget p ''roomEpoch'' = jint roomEpoch
                     \<and> oget p ''checksum'' = checksum) (Err ''candidate_promote_not_authoritative''))
      (thenE (set_context a (\<lambda>x. x\<lparr>dx_checksum := checksum, dx_committedEpoch := Some roomEpoch\<rparr>))
      (thenE (patchPodRole env (cd_name c) ''active'' (jint roomEpoch))
      (ret (jstr checksum))))))"

definition adopt_promoted ::
  "'w denv \<Rightarrow> handoff_target \<Rightarrow> candidate \<Rightarrow> int \<Rightarrow> nat \<Rightarrow> obj \<Rightarrow> ('w dstate, exn, string) eff" where
  "adopt_promoted env t c roomEpoch a st =
     thenE (guardE (oget st ''roomEpoch'' = jint roomEpoch \<and> is_checksum (oget st ''checksum''))
              (Err ''candidate_authority_state_conflict''))
     (thenE (set_context a (\<lambda>x. x\<lparr>dx_checksum := oget st ''checksum'', dx_committedEpoch := Some roomEpoch\<rparr>))
     (thenE (bothE (patchPodRole env (rr_name (ht_activePod t)) ''candidate'' (jint (ht_currentEpoch t)))
                   (patchPodRole env (cd_name c) ''active'' (jint roomEpoch)))
     (ret (jstr (oget st ''checksum'')))))"

text \<open>Which of the two Pods is active decides how authority moves.\<close>

definition transfer_authority ::
  "'w denv \<Rightarrow> handoff_target \<Rightarrow> candidate \<Rightarrow> int \<Rightarrow> string \<Rightarrow> nat \<Rightarrow> obj \<Rightarrow> obj \<Rightarrow> ('w dstate, exn, string) eff" where
  "transfer_authority env t c roomEpoch checksum a old cs =
     (if oget old ''role'' = JStr ''active'' \<and> oget cs ''role'' = JStr ''active''
      then throwM ''authority_transfer_split_brain_detected''
      else if oget cs ''role'' = JStr ''active'' then adopt_promoted env t c roomEpoch a cs
      else if oget old ''role'' = JStr ''active'' then
        bindE (release_and_seed env t c old checksum) (\<lambda>(cs', ck).
          promote_candidate env t c roomEpoch a cs' ck)
      else promote_candidate env t c roomEpoch a cs (JStr checksum))"

definition drv_activateCandidate ::
  "'w denv \<Rightarrow> handoff_target \<Rightarrow> candidate \<Rightarrow> int \<Rightarrow> string \<Rightarrow> ('w dstate, exn, string) eff" where
  "drv_activateCandidate env t c roomEpoch checksum =
     bindE (contextFor c) (\<lambda>(a, x).
     bindE (bothE (handoffStatus env (ht_activeEndpoint t)) (handoffStatus env (cd_endpoint c))) (\<lambda>(old, cs).
     transfer_authority env t c roomEpoch checksum a old cs))"

section \<open>Verification after the cutover\<close>

text \<open>What the Gateway must report for sessions to count as continuous.\<close>

definition session_continuity :: "obj \<Rightarrow> string \<Rightarrow> string \<Rightarrow> string \<Rightarrow> int \<Rightarrow> bool" where
  "session_continuity gateway room op endpoint epoch =
     (let route = find_room (oget gateway ''rooms'') room;
          v = find_op (oget gateway ''verifications'') room op;
          p = find_op (oget gateway ''operations'') room op;
          expected = nullish_or (jpath v [''expectedSessions'']) (jint (- 1)) in
      trimSlash (jstr (jpath route [''endpoint''])) = trimSlash endpoint
      \<and> jpath route [''epoch''] = jint epoch
      \<and> jpath p [''status''] = JStr ''committed''
      \<and> jpath p [''nextEpoch''] = jint epoch
      \<and> trimSlash (jstr (jpath p [''endpoint''])) = trimSlash endpoint
      \<and> jpath v [''epoch''] = jint epoch
      \<and> jpath v [''continuous''] = JBool True
      \<and> (case expected of JNum n \<Rightarrow> js_le (js_int 0) n | _ \<Rightarrow> False)
      \<and> jpath v [''liveSessions''] = expected
      \<and> jpath v [''upstreamSessions''] = expected)"

definition verify_once ::
  "'w denv \<Rightarrow> candidate \<Rightarrow> driver_context \<Rightarrow> bool \<Rightarrow> int \<Rightarrow> ('w dstate, exn, post_verification) eff" where
  "verify_once env c x proof_matches epoch =
     bindE (bothE (handoffStatus env (cd_endpoint c)) (gatewayRooms env)) (\<lambda>(st, gateway).
     ret \<lparr>pv_healthy = (proof_matches \<and> oget st ''role'' = JStr ''active'' \<and> truthy (oget st ''ready'')
                        \<and> oget st ''roomEpoch'' = jint epoch \<and> is_checksum (oget st ''checksum'')),
          pv_sessionContinuity = session_continuity gateway (ht_roomId (dx_target x)) (dx_operationId x)
                                   (cd_endpoint c) epoch,
          pv_stateChecksum = jstr (nullish_or (oget st ''checksum'') (JStr ''unavailable''))\<rparr>)"

fun verify_loop ::
  "nat \<Rightarrow> 'w denv \<Rightarrow> candidate \<Rightarrow> driver_context \<Rightarrow> bool \<Rightarrow> int \<Rightarrow> int \<Rightarrow> ('w dstate, exn, post_verification) eff" where
  "verify_loop 0 env c x pm epoch deadline = throwE OutOfFuel"
| "verify_loop (Suc n) env c x pm epoch deadline =
     bindE (verify_once env c x pm epoch) (\<lambda>v.
       if pv_healthy v \<and> pv_sessionContinuity v then ret v
       else bindE (now_ms env) (\<lambda>t.
         thenE (if t < deadline then sleep_ms env (poll_pause env) else ret ())
         (bindE (now_ms env) (\<lambda>t'.
            if t' < deadline then verify_loop n env c x pm epoch deadline else ret v))))"

definition drv_verify :: "'w denv \<Rightarrow> candidate \<Rightarrow> string \<Rightarrow> ('w dstate, exn, post_verification) eff" where
  "drv_verify env c expectedChecksum =
     bindE (contextFor c) (\<lambda>(a, x).
     let epoch = (case dx_committedEpoch x of None \<Rightarrow> ht_currentEpoch (dx_target x) + 1 | Some e \<Rightarrow> e);
         pm = (dx_checksum x = JStr expectedChecksum \<and> dx_committedEpoch x = Some epoch) in
     bindE (now_ms env) (\<lambda>t0.
     verify_loop (de_fuel env) env c x pm epoch (t0 + do_postVerificationTimeoutMs (de_options env))))"

section \<open>Rollback\<close>

definition finalize_request :: "'w denv \<Rightarrow> string \<Rightarrow> string \<Rightarrow> int \<Rightarrow> ('w dstate, exn, unit) eff" where
  "finalize_request env op room epoch = thenE (controlJson env [] (PostFinalize room op epoch)) (ret ())"

definition has_preparation :: "obj \<Rightarrow> string \<Rightarrow> string \<Rightarrow> bool" where
  "has_preparation gateway room op =
     list_ex (\<lambda>e. jpath e [''roomId''] = JStr room \<and> jpath e [''operationId''] = JStr op)
       (jlist (oget gateway ''preparations''))"

text \<open>Abort a preparation of this operation that the Gateway still holds.\<close>

definition abort_if_prepared :: "'w denv \<Rightarrow> obj \<Rightarrow> string \<Rightarrow> string \<Rightarrow> ('w dstate, exn, unit) eff" where
  "abort_if_prepared env gateway room op =
     (if has_preparation gateway room op then drv_abortGatewayPreparation env op room else ret ())"

definition safe_epochs :: "jv list \<Rightarrow> int list" where
  "safe_epochs vs = map jnum (filter is_safe_jv vs)"

definition rollback_epoch :: "jv \<Rightarrow> obj \<Rightarrow> obj \<Rightarrow> rollback_input \<Rightarrow> int" where
  "rollback_epoch route old cand i =
     Max (set (safe_epochs [jpath route [''epoch''], oget old ''roomEpoch'', oget cand ''roomEpoch'',
                            jint (ri_expectedEpoch i), jint (ri_nextEpoch i - 1)])) + 1"

text \<open>Checkpoint and release the serving authority; its checksum and tick are the proof.\<close>

definition rollback_release ::
  "'w denv \<Rightarrow> driver_context \<Rightarrow> candidate \<Rightarrow> string \<Rightarrow> int \<Rightarrow> ('w dstate, exn, obj) eff" where
  "rollback_release env x c authority currentEpoch =
     thenE (controlJson env [] (PostSave authority))
     (bindE (pollActiveSnapshot env authority currentEpoch) (\<lambda>checkpoint.
      bindE (controlObj env [] (PostRelease authority currentEpoch (oget checkpoint ''checksum''))) (\<lambda>released.
      thenE (guardE (oget released ''role'' = JStr ''candidate'' \<and> oget released ''roomEpoch'' = jint currentEpoch
                     \<and> is_safe_jv (oget released ''serverTick'') \<and> is_checksum (oget released ''checksum''))
               (Err ''rollback_authority_release_invalid''))
      (thenE (patchPodRole env (if authority = cd_endpoint c then cd_name c else rr_name (ht_activePod (dx_target x)))
                ''candidate'' (jint currentEpoch))
      (ret released)))))"

text \<open>Seed the released state into the old Pod and promote it at the rollback epoch.\<close>

definition rollback_promote ::
  "'w denv \<Rightarrow> driver_context \<Rightarrow> candidate \<Rightarrow> int \<Rightarrow> int \<Rightarrow> obj \<Rightarrow> jv \<Rightarrow> ('w dstate, exn, unit) eff" where
  "rollback_promote env x c currentEpoch rollbackEpoch released candidateEpoch =
     (let home = ht_activeEndpoint (dx_target x); ck = oget released ''checksum'' in
      bindE (seed env home currentEpoch (jint (jnum (oget released ''serverTick''))) ck) (\<lambda>rs.
      thenE (guardE (oget rs ''checksum'' = ck \<and> oget rs ''role'' = JStr ''candidate'' \<and> truthy (oget rs ''ready'')
                     \<and> oget rs ''caughtUp'' = JBool True \<and> oget rs ''roomEpoch'' = jint currentEpoch
                     \<and> oget rs ''serverTick'' = jint (jnum (oget released ''serverTick'')))
               (Err (js_to_string (de_fmt env) (nullish_or (oget rs ''reason'') (JStr ''rollback_reseed_proof_failed'')))))
      (bindE (controlObj env [] (PostPromote home currentEpoch rollbackEpoch ck)) (\<lambda>p.
       thenE (guardE (oget p ''role'' = JStr ''active'' \<and> truthy (oget p ''ready'')
                      \<and> oget p ''roomEpoch'' = jint rollbackEpoch \<and> oget p ''checksum'' = ck)
                (Err ''rollback_old_authority_not_promoted''))
       (thenE (bothE (patchPodRole env (rr_name (ht_activePod (dx_target x))) ''active'' (jint rollbackEpoch))
                     (patchPodRole env (cd_name c) ''candidate'' candidateEpoch))
       (ret ()))))))"

definition rollback_operation :: "string \<Rightarrow> int \<Rightarrow> string" where
  "rollback_operation op epoch = op @ ''-rollback-'' @ show_int epoch"

text \<open>Cut the Gateway back and require the same continuity proof as a forward cutover.\<close>

definition rollback_route ::
  "'w denv \<Rightarrow> nat \<Rightarrow> driver_context \<Rightarrow> rollback_input \<Rightarrow> obj \<Rightarrow> jv \<Rightarrow> int \<Rightarrow> jv \<Rightarrow> ('w dstate, exn, rollback_result) eff" where
  "rollback_route env a x i gateway routeEpoch rollbackEpoch ck =
     (let home = ht_activeEndpoint (dx_target x); room = ri_roomId i;
          rop = rollback_operation (ri_operationId i) rollbackEpoch in
      thenE (abort_if_prepared env gateway room (ri_operationId i))
      (thenE (controlJson env [] (PostFreeze room rop routeEpoch (Some (ri_operationId i))))
      (bindE (gatewayCutover env room rop home routeEpoch rollbackEpoch (dx_originalRevision x) (jstr ck) True True) (\<lambda>cut.
       bindE (gatewayRooms env) (\<lambda>p.
       thenE (guardE (session_continuity p room rop home rollbackEpoch) (Err ''rollback_session_continuity_failed''))
       (thenE (finalize_request env rop room rollbackEpoch)
       (thenE (set_context a (\<lambda>x. x\<lparr>dx_committedEpoch := Some rollbackEpoch, dx_checksum := ck\<rparr>))
       (ret \<lparr>rx_sessions = sx_sessions cut, rx_replayedInputs = sx_replayedInputs cut,
             rx_roomEpoch = rollbackEpoch\<rparr>))))))))"

definition rollback_transfer ::
  "'w denv \<Rightarrow> nat \<Rightarrow> driver_context \<Rightarrow> candidate \<Rightarrow> rollback_input \<Rightarrow> obj \<Rightarrow> jv \<Rightarrow> obj \<Rightarrow> obj \<Rightarrow> string \<times> obj
     \<Rightarrow> ('w dstate, exn, rollback_result) eff" where
  "rollback_transfer env a x c i gateway route old cand authority =
     (let st = snd authority; epoch = oget st ''roomEpoch'' in
      thenE (guardE (is_safe_jv epoch \<and> epoch = jpath route [''epoch'']
                     \<and> trimSlash (fst authority) = trimSlash (jstr (jpath route [''endpoint''])))
               (Err ''rollback_authority_route_mismatch''))
      (thenE (guardE (is_checksum (oget st ''checksum'')) (Err ''rollback_authority_checksum_unavailable''))
      (bindE (rollback_release env x c (fst authority) (jnum epoch)) (\<lambda>released.
       let re = rollback_epoch route old cand i in
       thenE (rollback_promote env x c (jnum epoch) re released
                (nullish_or (oget cand ''roomEpoch'') (jint (ri_expectedEpoch i))))
       (rollback_route env a x i gateway (jpath route [''epoch'']) re (oget released ''checksum''))))))"

definition rollback_unchanged :: "driver_context \<Rightarrow> jv \<Rightarrow> obj \<Rightarrow> (string \<times> obj) list \<Rightarrow> bool" where
  "rollback_unchanged x route old authorities =
     ((case authorities of [] \<Rightarrow> False | (e, _) # _ \<Rightarrow> e = ht_activeEndpoint (dx_target x))
      \<and> oget old ''roomEpoch'' = jpath route [''epoch'']
      \<and> trimSlash (jstr (jpath route [''endpoint''])) = trimSlash (ht_activeEndpoint (dx_target x)))"

text \<open>The decision once the two authorities and the Gateway have answered.\<close>

definition rollback_decide ::
  "'w denv \<Rightarrow> nat \<Rightarrow> driver_context \<Rightarrow> candidate \<Rightarrow> rollback_input \<Rightarrow> obj \<Rightarrow> obj \<Rightarrow> obj
     \<Rightarrow> ('w dstate, exn, rollback_result) eff" where
  "rollback_decide env a x c i gateway old cand =
     (let route = find_room (oget gateway ''rooms'') (ri_roomId i);
          authorities = filter (\<lambda>(_, st). oget st ''role'' = JStr ''active'')
            [(ht_activeEndpoint (dx_target x), old), (cd_endpoint c, cand)] in
      if \<not> truthy (jpath route [''endpoint'']) \<or> \<not> is_safe_jv (jpath route [''epoch''])
        then throwM ''rollback_gateway_route_unavailable''
      else if 1 < length authorities then throwM ''rollback_split_brain_detected''
      else if rollback_unchanged x route old authorities then
        thenE (abort_if_prepared env gateway (ri_roomId i) (ri_operationId i))
        (thenE (set_context a (\<lambda>x. x\<lparr>dx_committedEpoch := Some (jnum (jpath route [''epoch'']))\<rparr>))
        (ret \<lparr>rx_sessions = 0, rx_replayedInputs = 0, rx_roomEpoch = jnum (jpath route [''epoch''])\<rparr>))
      else case authorities of
        [] \<Rightarrow> throwM ''rollback_authority_unavailable''
      | authority # _ \<Rightarrow> rollback_transfer env a x c i gateway route old cand authority)"

definition drv_rollbackGateway :: "'w denv \<Rightarrow> rollback_input \<Rightarrow> ('w dstate, exn, rollback_result) eff" where
  "drv_rollbackGateway env i =
     bindE (room_context (ri_roomId i) (ri_operationId i)) (\<lambda>(a, x).
     case dx_candidate x of
       None \<Rightarrow> throwM ''handoff_context_not_found''
     | Some c \<Rightarrow>
       bindE (bothE (bothE (handoffStatus env (ht_activeEndpoint (dx_target x))) (handoffStatus env (cd_endpoint c)))
                    (gatewayRooms env)) (\<lambda>((old, cand), gateway).
       rollback_decide env a x c i gateway old cand))"

section \<open>Finalize, drain, discard\<close>

definition drv_drainOldPod :: "'w denv \<Rightarrow> handoff_target \<Rightarrow> ('w dstate, exn, unit) eff" where
  "drv_drainOldPod env t =
     thenE (deletePod env (rr_name (ht_activePod t)) (rr_uid (ht_activePod t)))
     (bindE (getsE (\<lambda>s. ds_byRoom s (ht_roomId t))) (\<lambda>x.
      case x of None \<Rightarrow> ret () | Some a \<Rightarrow> clearContext a))"

definition drv_discardCandidate :: "'w denv \<Rightarrow> candidate \<Rightarrow> string \<Rightarrow> ('w dstate, exn, unit) eff" where
  "drv_discardCandidate env c _ =
     bindE (contextFor c) (\<lambda>(a, x).
     thenE (restoreDeployment env x)
     (thenE (deletePod env (cd_name c) (cd_uid c))
     (clearContext a)))"

definition kubernetes_driver :: "'w denv \<Rightarrow> (jv \<Rightarrow> int) \<Rightarrow> 'w dstate handoff_driver" where
  "kubernetes_driver env payload_metric =
     \<lparr>scheduleCandidate = drv_scheduleCandidate env, waitUntilReady = drv_waitUntilReady env,
      freezeGateway = drv_freezeGateway env, abortGatewayPreparation = drv_abortGatewayPreparation env,
      seedSnapshot = drv_seedSnapshot env payload_metric, catchUpJournal = drv_catchUpJournal env,
      candidateChecksum = drv_candidateChecksum env, cutoverGateway = drv_cutoverGateway env,
      rollbackGateway = drv_rollbackGateway env, verifyCandidate = drv_verify env,
      activateCandidate = drv_activateCandidate env, finalizeGateway = finalize_request env,
      drainOldPod = drv_drainOldPod env, discardCandidate = drv_discardCandidate env\<rparr>"

end
