(* ===== verification/DriverSafety.thy ===== *)
theory DriverSafety
  imports HandoffCutover
begin

text \<open>
  What the driver's methods guarantee whatever the network answers, stated over the log of
  requests and replies: authority is promoted only after it was given up, a lost cutover
  response is decided by the durable record, and a rollback ends at an epoch newer than any
  that was seen.
\<close>

section \<open>Requests and the log\<close>

definition reply_props :: "http_reply \<Rightarrow> obj" where
  "reply_props rp = (case rp_body rp of Some (JObj kvs) \<Rightarrow> kvs | _ \<Rightarrow> [])"

text \<open>A request that was sent and answered with an accepted status and these properties.\<close>

definition answered :: "(request \<times> (exn + http_reply)) list \<Rightarrow> request \<Rightarrow> obj \<Rightarrow> bool" where
  "answered l r st = (\<exists>rp. (r, Inr rp) \<in> set l \<and> reply_props rp = st)"

lemma answered_mono: "answered l r st \<Longrightarrow> set l \<subseteq> set l' \<Longrightarrow> answered l' r st"
  by (auto simp: answered_def)

lemma answered_append [simp]: "answered l r st \<Longrightarrow> answered (l @ m) r st"
  by (auto simp: answered_def)

lemma answered_snocI: "reply_props rp = st \<Longrightarrow> answered (l @ [(r, Inr rp)]) r st"
  by (auto simp: answered_def)

text \<open>
  A monitor for logs: \<open>P pre r\<close> says that request \<open>r\<close> may follow the log \<open>pre\<close>.
\<close>

definition monitored :: "((request \<times> (exn + http_reply)) list \<Rightarrow> request \<Rightarrow> bool)
    \<Rightarrow> (request \<times> (exn + http_reply)) list \<Rightarrow> bool" where
  "monitored P l = (\<forall>n < length l. P (take n l) (fst (l ! n)))"

lemma monitored_Nil [simp]: "monitored P []"
  by (simp add: monitored_def)

lemma monitored_snoc [simp]: "monitored P (l @ [x]) = (monitored P l \<and> P l (fst x))"
  by (auto simp: monitored_def nth_append less_Suc_eq)

text \<open>
  The invariant of the proofs: the log is monitored and the answers in \<open>A\<close> have been logged.
  Every method that only sends requests the monitor always allows keeps it.
\<close>

definition log_inv where
  "log_inv P A s = (monitored P (ds_log s) \<and> (\<forall>(r, st) \<in> A. answered (ds_log s) r st))"

definition calm where
  "calm P r = (\<forall>pre. P pre r)"

lemma wp_send:
  assumes "\<And>rp w. Q rp (s\<lparr>ds_world := w, ds_log := ds_log s @ [(r, Inr rp)]\<rparr>)"
    and "\<And>e w. E e (s\<lparr>ds_world := w, ds_log := ds_log s @ [(r, Inl e)]\<rparr>)"
  shows "wp (send env r) Q E s"
  using assms by (auto simp: wp_def send_def split: prod.splits sum.splits)

lemma log_inv_snoc [simp]:
  "log_inv P ev s \<Longrightarrow> P (ds_log s) r \<Longrightarrow> log_inv P ev (s\<lparr>ds_world := w, ds_log := ds_log s @ [(r, x)]\<rparr>)"
  by (auto simp: log_inv_def answered_append)

lemma log_inv_answer [intro]:
  "log_inv P ev s \<Longrightarrow> P (ds_log s) r \<Longrightarrow> reply_props rp = st
   \<Longrightarrow> log_inv P (insert (r, st) ev) (s\<lparr>ds_world := w, ds_log := ds_log s @ [(r, Inr rp)]\<rparr>)"
  by (auto simp: log_inv_def answered_snocI)

lemma log_inv_less: "log_inv P A s \<Longrightarrow> B \<subseteq> A \<Longrightarrow> log_inv P B s"
  by (auto simp: log_inv_def)

lemma log_inv_any: "log_inv P A s \<Longrightarrow> log_inv P {} s"
  by (simp add: log_inv_def)

lemma log_inv_monitored: "log_inv P A s \<Longrightarrow> monitored P (ds_log s)"
  by (simp add: log_inv_def)

lemma log_inv_answered: "log_inv P A s \<Longrightarrow> (r, st) \<in> A \<Longrightarrow> answered (ds_log s) r st"
  by (auto simp: log_inv_def)

lemma log_inv_start [simp]: "ds_log s = [] \<Longrightarrow> log_inv P {} s"
  by (simp add: log_inv_def)

lemma log_inv_other [simp]:
  "log_inv P ev (s\<lparr>ds_store := x\<rparr>) = log_inv P ev s"
  "log_inv P ev (s\<lparr>ds_world := w\<rparr>) = log_inv P ev s"
  "log_inv P ev (s\<lparr>ds_byRoom := y\<rparr>) = log_inv P ev s"
  "log_inv P ev (s\<lparr>ds_byCandidateUid := y\<rparr>) = log_inv P ev s"
  by (simp_all add: log_inv_def)

lemma send_keeps [keeps_intros]: "calm P r \<Longrightarrow> keeps (log_inv P ev) (send env r)"
  by (intro keepsI wp_send) (auto simp: log_inv_def calm_def)

lemma zoom_world_keeps [keeps_intros]:
  "keeps (log_inv P ev) (zoomE ds_world (\<lambda>w s. s\<lparr>ds_world := w\<rparr>) m)"
  by (auto simp: keeps_def zoomE_def log_inv_def split: prod.splits)

lemma now_keeps [keeps_intros]: "keeps (log_inv P ev) (now_ms env)"
  by (auto simp: keeps_def now_ms_def log_inv_def split: prod.splits)

lemma modify_keeps [keeps_intros]:
  "(\<And>s. ds_log (f s) = ds_log s) \<Longrightarrow> keeps (log_inv P ev) (modifyE f)"
  by (auto simp: keeps_def modifyE_def log_inv_def)

lemma sleep_keeps [keeps_intros]: "keeps (log_inv P ev) (sleep_ms env ms)"
  by (simp add: sleep_ms_def modify_keeps)

lemma set_context_keeps [keeps_intros]: "keeps (log_inv P ev) (set_context a f)"
  by (simp add: set_context_def modify_keeps)

lemma props_of_keeps [keeps_intros]: "keeps I (props_of v)"
  by (auto simp: props_of_def keeps_ret keeps_throwE split: jv.splits)

lemma keeps_option [keeps_intros]:
  "keeps I m \<Longrightarrow> (\<And>x. keeps I (f x)) \<Longrightarrow> keeps I (case y of None \<Rightarrow> m | Some x \<Rightarrow> f x)"
  by (simp split: option.split)

lemma keeps_sum [keeps_intros]:
  "(\<And>x. keeps I (g x)) \<Longrightarrow> (\<And>x. keeps I (f x)) \<Longrightarrow> keeps I (case y of Inl x \<Rightarrow> g x | Inr x \<Rightarrow> f x)"
  by (simp split: sum.split)

lemma keeps_bothE [keeps_intros]: "keeps I m \<Longrightarrow> keeps I n \<Longrightarrow> keeps I (bothE m n)"
  by (auto simp: keeps_def bothE_def split: prod.splits)

lemma controlJson_keeps [keeps_intros]: "calm P r \<Longrightarrow> keeps (log_inv P ev) (controlJson env acc r)"
  unfolding controlJson_def Let_def by (intro keeps_intros)

lemma controlObj_keeps [keeps_intros]: "calm P r \<Longrightarrow> keeps (log_inv P ev) (controlObj env acc r)"
  unfolding controlObj_def by (intro keeps_intros)

lemma kubeJson_keeps [keeps_intros]: "calm P r \<Longrightarrow> keeps (log_inv P ev) (kubeJson env r)"
  unfolding kubeJson_def kubeResponse_def authorization_def by (intro keeps_intros)

lemma handoffStatus_keeps [keeps_intros]:
  "calm P (GetStatus e) \<Longrightarrow> keeps (log_inv P ev) (handoffStatus env e)"
  unfolding handoffStatus_def throwM_def
  by (intro keeps_bindE controlJson_keeps) (auto intro: keeps_intros split: jv.splits)

lemma patchPodRole_keeps [keeps_intros]:
  "(\<And>k. calm P (KPatchRole n r k)) \<Longrightarrow> keeps (log_inv P ev) (patchPodRole env n r ep)"
  unfolding patchPodRole_def by (intro keeps_intros)

lemma poll_until_keeps:
  "(\<And>acc. keeps (log_inv P ev) (body acc)) \<Longrightarrow> keeps (log_inv P ev) (poll_until n env dl pause body acc)"
proof (induction n arbitrary: acc)
  case 0
  then show ?case by (simp add: keeps_throwE)
next
  case (Suc n)
  then show ?case by (simp, intro keeps_intros) auto
qed

lemma pollActiveSnapshot_keeps [keeps_intros]:
  "calm P (GetStatus e) \<Longrightarrow> keeps (log_inv P ev) (pollActiveSnapshot env e ep)"
  unfolding pollActiveSnapshot_def throwM_def by (intro keeps_intros poll_until_keeps)

lemma seed_keeps [keeps_intros]:
  "(\<And>k c. calm P (PostSeed e ep k c)) \<Longrightarrow> keeps (log_inv P ev) (seed env e ep tick ck)"
  unfolding seed_def by (intro keeps_intros)

lemma wp_keeps:
  assumes "\<And>A. keeps (log_inv P A) m" and "log_inv P A s"
    and "\<And>a s'. log_inv P A s' \<Longrightarrow> Q a s'" and "\<And>e s'. log_inv P A s' \<Longrightarrow> E e s'"
  shows "wp m Q E s"
  by (rule wp_mono [OF keeps_wp [OF assms(1,2)]]) (use assms(3,4) in auto)

section \<open>What an answered request leaves in the log\<close>

lemma controlObj_answered:
  assumes "log_inv P A s" and "P (ds_log s) r"
    and "\<And>st s'. log_inv P (insert (r, st) A) s' \<Longrightarrow> Q st s'" and "\<And>e s'. log_inv P A s' \<Longrightarrow> E e s'"
  shows "wp (controlObj env acc r) Q E s"
proof -
  have "Q st (s\<lparr>ds_world := w, ds_log := ds_log s @ [(r, Inr rp)]\<rparr>)" if "reply_props rp = st" for st w rp
    by (rule assms(3) [OF log_inv_answer [of P A s r, OF assms(1,2) that]])
  moreover have "E e (s\<lparr>ds_world := w, ds_log := ds_log s @ [(r, x)]\<rparr>)" for e w x
    by (rule assms(4) [OF log_inv_snoc [OF assms(1,2)]])
  ultimately show ?thesis
    unfolding controlObj_def controlJson_def props_of_def
    by (auto intro!: wp_send simp: reply_props_def Let_def split: option.splits jv.splits)
qed

lemma handoffStatus_answered:
  assumes "log_inv P A s" and "P (ds_log s) (GetStatus e)"
    and "\<And>st s'. log_inv P (insert (GetStatus e, st) A) s' \<Longrightarrow> Q st s'"
    and "\<And>e s'. log_inv P A s' \<Longrightarrow> E e s'"
  shows "wp (handoffStatus env e) Q E s"
proof -
  let ?r = "GetStatus e"
  have "Q st (s\<lparr>ds_world := w, ds_log := ds_log s @ [(?r, Inr rp)]\<rparr>)" if "reply_props rp = st" for st w rp
    by (rule assms(3) [OF log_inv_answer [of P A s ?r, OF assms(1,2) that]])
  moreover have "E x (s\<lparr>ds_world := w, ds_log := ds_log s @ [(?r, y)]\<rparr>)" for x w y
    by (rule assms(4) [OF log_inv_snoc [OF assms(1,2)]])
  ultimately show ?thesis
    unfolding handoffStatus_def controlJson_def throwM_def
    by (auto intro!: wp_send simp: reply_props_def Let_def split: option.splits jv.splits)
qed

text \<open>Both requests of a \<open>Promise.all\<close> are sent, whatever the first one answers.\<close>

lemma wp_bothE:
  assumes "wp m (\<lambda>a. wp n (\<lambda>b. Q (a, b)) E) (\<lambda>e. wp n (\<lambda>_. E e) (\<lambda>_. E e)) s"
  shows "wp (bothE m n) Q E s"
  using assms by (auto simp: wp_def bothE_def split: prod.splits sum.splits)

section \<open>Authority transfer\<close>

text \<open>
  When a promote request to \<open>endpoint\<close> may be sent in a handoff away from \<open>home\<close>: the
  authority at \<open>home\<close> answered that it is not active, or released exactly the checksum that
  is promoted; and the promoted Pod has reported that very checksum as a caught-up, ready
  candidate.
\<close>

definition gave_up :: "string \<Rightarrow> jv \<Rightarrow> (request \<times> (exn + http_reply)) list \<Rightarrow> bool" where
  "gave_up home ck l =
     ((\<exists>st. answered l (GetStatus home) st \<and> oget st ''role'' \<noteq> JStr ''active'')
      \<or> (\<exists>ep ck0 st. answered l (PostRelease home ep ck0) st
           \<and> oget st ''role'' = JStr ''candidate'' \<and> oget st ''checksum'' = ck))"

definition has_state :: "string \<Rightarrow> jv \<Rightarrow> (request \<times> (exn + http_reply)) list \<Rightarrow> bool" where
  "has_state endpoint ck l =
     (\<exists>r st. answered l r st \<and> (r = GetStatus endpoint \<or> (\<exists>ep tick. r = PostSeed endpoint ep tick ck))
        \<and> oget st ''role'' = JStr ''candidate'' \<and> truthy (oget st ''ready'')
        \<and> oget st ''caughtUp'' = JBool True \<and> oget st ''checksum'' = ck)"

fun promote_rule :: "string \<Rightarrow> (request \<times> (exn + http_reply)) list \<Rightarrow> request \<Rightarrow> bool" where
  "promote_rule home l (PostPromote e ep n ck) = (gave_up home ck l \<and> has_state e ck l)"
| "promote_rule home l _ = True"

lemma promote_calm [simp]:
  "calm (promote_rule h) (GetStatus e)" "calm (promote_rule h) (PostSeed e ep k c)"
  "calm (promote_rule h) (PostRelease e ep c)" "calm (promote_rule h) (KPatchRole n r epk)"
  "calm (promote_rule h) (PostSave e)" "calm (promote_rule h) GetRooms"
  "calm (promote_rule h) (PostFreeze fa fb fc fd)" "calm (promote_rule h) (PostAbort a b)"
  "calm (promote_rule h) (PostCutover ca cb cc cd ce cf cg ch ci)" "calm (promote_rule h) (GetOperation a b)"
  "calm (promote_rule h) (PostFinalize a b i)"
  by (simp_all add: calm_def)

text \<open>A released checkpoint is the answer the promotion rests on.\<close>

lemma release_loop_ok:
  assumes "log_inv (promote_rule home) A s"
    and "\<And>s'. log_inv (promote_rule home) A s' \<Longrightarrow> Q None s'"
    and "\<And>st ck0 s'. log_inv (promote_rule home) (insert (PostRelease e ep ck0, st) A) s' \<Longrightarrow> Q (Some st) s'"
    and "\<And>x s'. log_inv (promote_rule home) A s' \<Longrightarrow> E x s'"
  shows "wp (release_loop n env e ep dl ck) Q E s"
  using assms(1)
proof (induction n arbitrary: ck s)
  case (Suc n)
  note now = wp_keeps [OF now_keeps [of "promote_rule home"]]
    and sleep = wp_keeps [OF sleep_keeps [of "promote_rule home"]]
    and poll = wp_keeps [OF pollActiveSnapshot_keeps [of "promote_rule home"]]
  show ?case
    by (simp, rule controlObj_answered [OF Suc.prems])
      (auto intro!: now sleep poll Suc.IH assms(2,3,4))
qed (simp add: assms(4))

lemma promote_candidate_ok:
  assumes "log_inv (promote_rule home) A s"
    and "gave_up home ck (ds_log s)"
    and "(r, cs) \<in> A" and "r = GetStatus (cd_endpoint c) \<or> (\<exists>ep k. r = PostSeed (cd_endpoint c) ep k ck)"
  shows "wp (promote_candidate env t c n a cs ck) (\<lambda>_. log_inv (promote_rule home) {})
           (\<lambda>_. log_inv (promote_rule home) {}) s"
proof -
  have allowed: "promote_rule home (ds_log s) (PostPromote (cd_endpoint c) (ht_currentEpoch t) n ck)"
    if "oget cs ''role'' = JStr ''candidate''" "truthy (oget cs ''ready'')"
      "oget cs ''caughtUp'' = JBool True" "oget cs ''checksum'' = ck"
    using assms(2,4) log_inv_answered [OF assms(1,3)] that by (auto simp: has_state_def)
  note role = wp_keeps [OF patchPodRole_keeps [of "promote_rule home"]]
  show ?thesis
    unfolding promote_candidate_def
    using allowed log_inv_any [OF assms(1)]
    by (auto intro!: controlObj_answered [OF assms(1)] role simp: set_context_def)
      (erule log_inv_any)+
qed

lemma release_and_seed_ok:
  assumes inv: "log_inv (promote_rule home) A s" and home: "home = ht_activeEndpoint t"
    and Q: "\<And>cs ck B r s'. log_inv (promote_rule home) B s' \<Longrightarrow> gave_up home ck (ds_log s') \<Longrightarrow> (r, cs) \<in> B
          \<Longrightarrow> \<exists>ep k. r = PostSeed (cd_endpoint c) ep k ck \<Longrightarrow> Q (cs, ck) s'"
    and E: "\<And>x B s'. log_inv (promote_rule home) B s' \<Longrightarrow> E x s'"
  shows "wp (release_and_seed env t c old ck0) Q E s"
proof -
  note now = wp_keeps [OF now_keeps [of "promote_rule home"]]
    and role = wp_keeps [OF patchPodRole_keeps [of "promote_rule home"]]
  have gave: "gave_up home (oget st ''checksum'') (ds_log s')"
    if "log_inv (promote_rule home) B s'" "(PostRelease home ep ck, st) \<in> B"
      "oget st ''role'' = JStr ''candidate''" for B s' ep ck st
    using log_inv_answered [OF that(1,2)] that(3) by (auto simp: gave_up_def)
  have seeded: "wp (seed env (cd_endpoint c) ep k (oget st ''checksum''))
      (\<lambda>cs. wp (ret (cs, oget st ''checksum'')) Q E) E s'"
    if "log_inv (promote_rule home) (insert (PostRelease home ep0 ck1, st) B) s'"
      "oget st ''role'' = JStr ''candidate''" for B s' ep0 ck1 st ep k
    unfolding seed_def
    by (rule controlObj_answered [OF that(1)])
      (use that in \<open>auto intro: E intro!: Q gave\<close>)
  show ?thesis
    unfolding release_and_seed_def throwM_def home [symmetric]
    by (auto intro!: now [OF inv] release_loop_ok role split: option.splits) (auto intro: E inv seeded)
qed

lemma transfer_authority_ok:
  fixes env :: "'w denv" and t :: handoff_target and c :: candidate
  assumes inv: "log_inv (promote_rule (ht_activeEndpoint t)) A s"
    and old: "(GetStatus (ht_activeEndpoint t), old) \<in> A" and cs: "(GetStatus (cd_endpoint c), cs) \<in> A"
  shows "wp (transfer_authority env t c roomEpoch checksum a old cs)
           (\<lambda>_. log_inv (promote_rule (ht_activeEndpoint t)) {})
           (\<lambda>_. log_inv (promote_rule (ht_activeEndpoint t)) {}) s"
proof -
  let ?R = "promote_rule (ht_activeEndpoint t)"
  have adopt: "keeps (log_inv ?R {}) (adopt_promoted env t c roomEpoch a st)" for st
    unfolding adopt_promoted_def by (intro keeps_intros) simp_all
  have transfer: "wp (release_and_seed env t c old checksum)
      (\<lambda>x. wp (promote_candidate env t c roomEpoch a (fst x) (snd x)) (\<lambda>_. log_inv ?R {}) (\<lambda>_. log_inv ?R {}))
      (\<lambda>_. log_inv ?R {}) s"
    by (rule release_and_seed_ok [OF inv refl]) (auto intro: promote_candidate_ok elim: log_inv_any)
  have direct: "wp (promote_candidate env t c roomEpoch a cs (JStr checksum)) (\<lambda>_. log_inv ?R {}) (\<lambda>_. log_inv ?R {}) s"
    if "oget old ''role'' \<noteq> JStr ''active''"
    by (rule promote_candidate_ok [OF inv _ cs])
      (use that log_inv_answered [OF inv old] in \<open>auto simp: gave_up_def\<close>)
  show ?thesis
    using transfer direct keeps_wp [OF adopt log_inv_any [OF inv]] log_inv_any [OF inv]
    by (simp add: transfer_authority_def throwM_def case_prod_beta)
qed

lemma contextFor_keeps [keeps_intros]: "keeps I (contextFor c)"
  unfolding contextFor_def context_at_def throwM_def by (intro keeps_intros)

text \<open>
  C4: Authority is never given to a Candidate while the old Pod may still hold it: whatever the
  network answers, a promotion is requested only after the old Pod reported that it is not
  active, or released exactly the checksum being promoted, and only for a Candidate that
  reported that very state as seeded, ready and caught up.
\<close>

theorem activation_is_fenced:
  fixes s :: "'w dstate"
  shows "monitored (promote_rule (ht_activeEndpoint t))
     (ds_log (snd (drv_activateCandidate env t c roomEpoch checksum (s\<lparr>ds_log := []\<rparr>))))"
proof -
  let ?I = "log_inv (promote_rule (ht_activeEndpoint t)) {}"
  have status: "wp (handoffStatus env (cd_endpoint c)) (\<lambda>_. ?I) (\<lambda>_. ?I) s'" if "?I s'" for s'
    by (rule wp_keeps [OF handoffStatus_keeps _ , of _ _ "{}"]) (use that in simp_all)
  have both: "wp (bothE (handoffStatus env (ht_activeEndpoint t)) (handoffStatus env (cd_endpoint c)))
      (\<lambda>p. wp (transfer_authority env t c roomEpoch checksum a (fst p) (snd p)) (\<lambda>_. ?I) (\<lambda>_. ?I)) (\<lambda>_. ?I) s'"
    if i: "?I s'" for a s'
    by (rule wp_bothE, rule handoffStatus_answered [OF i], simp, erule handoffStatus_answered, simp)
      (auto intro: transfer_authority_ok status elim: log_inv_any)
  have "wp (drv_activateCandidate env t c roomEpoch checksum) (\<lambda>_. ?I) (\<lambda>_. ?I) (s\<lparr>ds_log := []\<rparr>)"
    unfolding drv_activateCandidate_def case_prod_beta wp_bindE
    by (rule wp_keeps [OF contextFor_keeps, of _ "{}"]) (simp_all add: both)
  then show ?thesis
    by (auto dest!: wp_sndD simp: log_inv_def)
qed

section \<open>Rollback\<close>

text \<open>
  What a rollback to the old Pod at \<open>home\<close> may send.  A promotion needs the release of the
  very checksum it promotes and an epoch above both the old Pod's and the routed one; a
  cutover needs the acknowledged promotion of that epoch; a finalize needs the Gateway's
  proof that the sessions continued.
\<close>

definition below_epoch :: "jv \<Rightarrow> int \<Rightarrow> bool" where
  "below_epoch v n = (\<not> is_safe_jv v \<or> jnum v < n)"

definition released_state :: "int \<Rightarrow> jv \<Rightarrow> (request \<times> (exn + http_reply)) list \<Rightarrow> bool" where
  "released_state epoch ck l =
     (\<exists>e ck0 st. answered l (PostRelease e epoch ck0) st
        \<and> oget st ''role'' = JStr ''candidate'' \<and> oget st ''checksum'' = ck)"

definition fresh_epoch :: "string \<Rightarrow> string \<Rightarrow> int \<Rightarrow> (request \<times> (exn + http_reply)) list \<Rightarrow> bool" where
  "fresh_epoch home room n l =
     (\<exists>old gw. answered l (GetStatus home) old \<and> answered l GetRooms gw
        \<and> below_epoch (oget old ''roomEpoch'') n
        \<and> below_epoch (jpath (find_room (oget gw ''rooms'') room) [''epoch'']) n)"

definition restored :: "string \<Rightarrow> int \<Rightarrow> jv \<Rightarrow> (request \<times> (exn + http_reply)) list \<Rightarrow> bool" where
  "restored home n ck l =
     (\<exists>e st. answered l (PostPromote home e n ck) st \<and> oget st ''role'' = JStr ''active''
        \<and> oget st ''roomEpoch'' = jint n \<and> oget st ''checksum'' = ck)"

fun rollback_rule :: "string \<Rightarrow> string \<Rightarrow> (request \<times> (exn + http_reply)) list \<Rightarrow> request \<Rightarrow> bool" where
  "rollback_rule home room l (PostPromote e ep n ck) =
     (e = home \<and> released_state ep ck l \<and> fresh_epoch home room n l)"
| "rollback_rule home room l (PostCutover r p e ex n rv ck m cu) =
     (r = room \<and> e = home \<and> restored home n (JStr ck) l)"
| "rollback_rule home room l (PostFinalize r p n) =
     (r = room \<and> (\<exists>gw. answered l GetRooms gw \<and> session_continuity gw room p home n))"
| "rollback_rule home room l _ = True"

lemma rollback_calm [simp]:
  "calm (rollback_rule h m) (GetStatus e)" "calm (rollback_rule h m) (PostSeed e ep k c)"
  "calm (rollback_rule h m) (PostRelease e ep c)" "calm (rollback_rule h m) (KPatchRole n r epk)"
  "calm (rollback_rule h m) (PostSave e)" "calm (rollback_rule h m) GetRooms"
  "calm (rollback_rule h m) (PostFreeze fa fb fc fd)" "calm (rollback_rule h m) (PostAbort a b)"
  "calm (rollback_rule h m) (GetOperation a b)"
  by (simp_all add: calm_def)

lemma rollback_epoch_above:
  "is_safe_jv v \<Longrightarrow> v \<in> {jpath route [''epoch''], oget old ''roomEpoch'', oget cand ''roomEpoch''}
   \<Longrightarrow> jnum v < rollback_epoch route old cand i"
proof -
  assume v: "is_safe_jv v" "v \<in> {jpath route [''epoch''], oget old ''roomEpoch'', oget cand ''roomEpoch''}"
  let ?es = "set (safe_epochs [jpath route [''epoch''], oget old ''roomEpoch'', oget cand ''roomEpoch'',
               jint (ri_expectedEpoch i), jint (ri_nextEpoch i - 1)])"
  have "jnum v \<in> ?es" using v by (auto simp: safe_epochs_def)
  then have "jnum v \<le> Max ?es" by (rule Max_ge [OF List.finite_set])
  then show ?thesis by (simp add: rollback_epoch_def)
qed

lemma controlJson_allowed:
  assumes "log_inv P A s" and "P (ds_log s) r"
    and "\<And>v s'. log_inv P A s' \<Longrightarrow> Q v s'" and "\<And>x s'. log_inv P A s' \<Longrightarrow> E x s'"
  shows "wp (controlJson env acc r) Q E s"
  unfolding controlJson_def using assms by (auto intro!: wp_send simp: Let_def)

lemma gatewayCutover_ok:
  assumes "log_inv P A s" and "P (ds_log s) (PostCutover room p e ex n rv ck m cu)"
    and "calm P (GetOperation room p)"
    and "\<And>r s'. log_inv P A s' \<Longrightarrow> Q r s'" and "\<And>x s'. log_inv P A s' \<Longrightarrow> E x s'"
  shows "wp (gatewayCutover env room p e ex n rv ck m cu) Q E s"
proof -
  have rec: "keeps (log_inv P A) (reconcile_cutover env room p e n x)" for A x
    unfolding reconcile_cutover_def by (intro keeps_intros assms(3))
  show ?thesis
    unfolding gatewayCutover_def cutover_request_def
    by simp (rule controlJson_allowed [OF assms(1,2)], auto intro: assms(4,5) wp_keeps [OF rec])
qed

lemma abort_if_prepared_keeps [keeps_intros]:
  "calm P (PostAbort room p) \<Longrightarrow> keeps (log_inv P A) (abort_if_prepared env gw room p)"
  unfolding abort_if_prepared_def drv_abortGatewayPreparation_def by (intro keeps_intros)

lemma restored_answer:
  "log_inv P A s \<Longrightarrow> (PostPromote home e n ck, st) \<in> A \<Longrightarrow> oget st ''role'' = JStr ''active''
   \<Longrightarrow> oget st ''roomEpoch'' = jint n \<Longrightarrow> oget st ''checksum'' = ck \<Longrightarrow> restored home n ck (ds_log s)"
  using log_inv_answered [of P A s] by (auto simp: restored_def)

lemma rollback_route_ok:
  fixes x :: driver_context and i :: rollback_input
  defines "R \<equiv> rollback_rule (ht_activeEndpoint (dx_target x)) (ri_roomId i)"
  assumes inv: "log_inv R A s"
    and p: "(PostPromote (ht_activeEndpoint (dx_target x)) e re ck, st) \<in> A"
      "oget st ''role'' = JStr ''active''" "oget st ''roomEpoch'' = jint re" "oget st ''checksum'' = ck"
    and ck: "is_checksum ck"
    and Q: "\<And>r s'. log_inv R A s' \<Longrightarrow> rx_roomEpoch r = re \<Longrightarrow> Q r s'" and E: "\<And>y s'. log_inv R A s' \<Longrightarrow> E y s'"
  shows "wp (rollback_route env a x i gw route re ck) Q E s"
proof -
  have str: "ck = JStr (jstr ck)" using ck by (cases ck) simp_all
  have cutover: "R (ds_log s') (PostCutover (ri_roomId i) q (ht_activeEndpoint (dx_target x)) ex re rv (jstr ck) m cu)"
    if "log_inv R A s'" for s' q ex rv m cu
    using restored_answer [OF that p] str by (simp add: R_def)
  have final: "R (ds_log s') (PostFinalize (ri_roomId i) q re)"
    if "log_inv R (insert (GetRooms, g) A) s'" "session_continuity g (ri_roomId i) q (ht_activeEndpoint (dx_target x)) re"
    for s' g q using log_inv_answered [OF that(1)] that(2) by (auto simp: R_def)
  have calm: "calm R (PostAbort u v)" "calm R (PostFreeze u v w z)" "calm R (GetOperation u v)" "R l GetRooms" for u v w z l
    by (simp_all add: R_def)
  have drop: "log_inv R A s'" if "log_inv R (insert f A) s'" for f s'
    using log_inv_less [OF that] by blast
  show ?thesis
    unfolding rollback_route_def Let_def gatewayRooms_def finalize_request_def
    apply simp
    apply (rule wp_keeps [OF abort_if_prepared_keeps [OF calm(1)] inv])
     apply simp
     apply (rule wp_keeps [OF controlJson_keeps [OF calm(2)]], assumption)
      apply simp
      apply (rule gatewayCutover_ok, assumption, erule cutover, rule calm)
       apply simp
       apply (rule controlObj_answered, assumption, rule calm)
        apply (auto intro!: controlJson_allowed final intro: E Q drop simp: set_context_def)
    apply (rule Q, simp, erule drop, simp)
    done
qed

lemma rollback_release_ok:
  fixes x :: driver_context
  assumes inv: "log_inv (rollback_rule h room) A s"
    and Q: "\<And>st ck0 s'. log_inv (rollback_rule h room) (insert (PostRelease e n ck0, st) A) s'
       \<Longrightarrow> oget st ''role'' = JStr ''candidate'' \<Longrightarrow> is_checksum (oget st ''checksum'') \<Longrightarrow> Q st s'"
    and E: "\<And>y B s'. log_inv (rollback_rule h room) B s' \<Longrightarrow> E y s'"
  shows "wp (rollback_release env x c e n) Q E s"
proof -
  let ?R = "rollback_rule h room"
  have calm: "calm ?R (PostSave e)" "calm ?R (GetStatus e)" "?R l (PostRelease e n k)" for l k by simp_all
  note role = wp_keeps [OF patchPodRole_keeps [of "rollback_rule h room"]]
  show ?thesis
    unfolding rollback_release_def wp_thenE
    apply (rule wp_keeps [OF controlJson_keeps [OF calm(1)] inv])
     apply (simp only: wp_bindE)
     apply (rule wp_keeps [OF pollActiveSnapshot_keeps [OF calm(2)]], assumption)
      apply (simp only: wp_bindE)
      apply (rule controlObj_answered, assumption, rule calm)
       apply (auto intro!: role intro: E Q)
    done
qed

lemma rollback_promote_ok:
  fixes x :: driver_context and c :: candidate and released :: obj
  defines "h \<equiv> ht_activeEndpoint (dx_target x)" and "ck \<equiv> oget released ''checksum''"
  assumes inv: "log_inv (rollback_rule h room) A s"
    and rel: "(PostRelease e n ck0, released) \<in> A" "oget released ''role'' = JStr ''candidate''"
    and old: "(GetStatus h, old) \<in> A" "below_epoch (oget old ''roomEpoch'') re"
    and gw: "(GetRooms, g) \<in> A" "below_epoch (jpath (find_room (oget g ''rooms'') room) [''epoch'']) re"
    and Q: "\<And>st s'. log_inv (rollback_rule h room) (insert (PostPromote h n re ck, st) A) s'
       \<Longrightarrow> oget st ''role'' = JStr ''active'' \<Longrightarrow> oget st ''roomEpoch'' = jint re \<Longrightarrow> oget st ''checksum'' = ck
       \<Longrightarrow> Q () s'"
    and E: "\<And>y B s'. log_inv (rollback_rule h room) B s' \<Longrightarrow> E y s'"
  shows "wp (rollback_promote env x c n re released ce) Q E s"
proof -
  let ?R = "rollback_rule h room"
  have sub: "?R (ds_log s') (PostPromote h n re ck)" if "A \<subseteq> B" "log_inv ?R B s'" for B s'
  proof -
    have ans: "answered (ds_log s') r st" if "(r, st) \<in> A" for r st
      by (rule log_inv_answered [OF log_inv_less [OF \<open>log_inv ?R B s'\<close> \<open>A \<subseteq> B\<close>] that])
    have "released_state n ck (ds_log s')"
      unfolding released_state_def ck_def using ans [OF rel(1)] rel(2) by blast
    moreover have "fresh_epoch h room re (ds_log s')"
      unfolding fresh_epoch_def using ans [OF old(1)] ans [OF gw(1)] old(2) gw(2) by blast
    ultimately show ?thesis by simp
  qed
  note roles = wp_keeps [OF keeps_bothE [OF patchPodRole_keeps [of "rollback_rule h room"]
        patchPodRole_keeps [of "rollback_rule h room"]]]
  show ?thesis
    unfolding rollback_promote_def Let_def h_def [symmetric] ck_def [symmetric] seed_def wp_bindE [of "controlObj _ _ _"]
    apply (rule controlObj_answered [OF inv], simp)
     apply (simp only: wp_bindE wp_thenE wp_guardE split: if_split)
     apply (intro conjI impI)
      apply (rule controlObj_answered, assumption, erule sub [rotated], blast)
       apply (simp only: wp_thenE wp_guardE split: if_split)
       apply (intro conjI impI)
        apply (rule roles, simp, simp, assumption)
         apply (simp only: wp_ret)
         apply (rule Q, erule log_inv_less, blast, blast, blast, blast)
        apply (erule E)+
    done
qed

lemma rollback_transfer_ok:
  fixes x :: driver_context and c :: candidate and i :: rollback_input
  defines "h \<equiv> ht_activeEndpoint (dx_target x)"
  assumes inv: "log_inv (rollback_rule h (ri_roomId i)) A s"
    and old: "(GetStatus h, old) \<in> A" and gw: "(GetRooms, g) \<in> A"
    and Q: "\<And>r B s'. log_inv (rollback_rule h (ri_roomId i)) B s' \<Longrightarrow> A \<subseteq> B \<Longrightarrow>
        \<exists>ck. restored h (rx_roomEpoch r) ck (ds_log s') \<Longrightarrow>
        rx_roomEpoch r = rollback_epoch (find_room (oget g ''rooms'') (ri_roomId i)) old cand i \<Longrightarrow> Q r s'"
    and E: "\<And>y B s'. log_inv (rollback_rule h (ri_roomId i)) B s' \<Longrightarrow> E y s'"
  shows "wp (rollback_transfer env a x c i g (find_room (oget g ''rooms'') (ri_roomId i)) old cand auth) Q E s"
proof -
  let ?re = "rollback_epoch (find_room (oget g ''rooms'') (ri_roomId i)) old cand i"
  have above: "below_epoch (oget old ''roomEpoch'') ?re"
    "below_epoch (jpath (find_room (oget g ''rooms'') (ri_roomId i)) [''epoch'']) ?re"
    by (auto simp: below_epoch_def intro: rollback_epoch_above)
  show ?thesis
    unfolding rollback_transfer_def Let_def wp_thenE
    apply (simp only: wp_guardE wp_thenE wp_bindE split: if_split)
    apply (intro conjI impI)
       apply (rule rollback_release_ok [OF inv])
        apply (simp only: wp_bindE wp_thenE)
        apply (rule rollback_promote_ok [where x = x, folded h_def], assumption, rule insertI1, assumption, rule insertI2, rule old, rule above,
            rule insertI2, rule gw, rule above)
         apply (rule rollback_route_ok [where x = x, folded h_def], assumption, rule insertI1, assumption, assumption, assumption, assumption)
          apply (rule Q, assumption, blast)
           apply (simp, rule exI, erule restored_answer, rule insertI1, assumption+)
         apply (erule E)+
       apply (rule E [OF inv])+
    done
qed

definition serving_endpoint :: "'w dstate \<Rightarrow> string \<Rightarrow> string" where
  "serving_endpoint s room = (case ds_byRoom s room of
     None \<Rightarrow> [] | Some a \<Rightarrow> ht_activeEndpoint (dx_target (ds_store s a)))"

text \<open>How a rollback that returns has left the room.\<close>

definition rolled_back :: "string \<Rightarrow> string \<Rightarrow> int \<Rightarrow> (request \<times> (exn + http_reply)) list \<Rightarrow> bool" where
  "rolled_back home room epoch l =
     (\<exists>old gw. answered l (GetStatus home) old \<and> answered l GetRooms gw \<and>
        (let routed = jpath (find_room (oget gw ''rooms'') room) [''epoch''] in
         if oget old ''roomEpoch'' = routed \<and> epoch = jnum routed
         then \<exists>st. answered l (GetStatus home) st \<and> oget st ''role'' = JStr ''active''
         else below_epoch (oget old ''roomEpoch'') epoch \<and> below_epoch routed epoch
              \<and> (\<exists>ck. restored home epoch ck l)))"

lemma rolled_back_unchanged:
  assumes "log_inv R A s" and "(GetStatus h, old) \<in> A" and "(GetRooms, gw) \<in> A" and "(GetStatus h, st) \<in> A"
    and "oget st ''role'' = JStr ''active''"
    and "oget old ''roomEpoch'' = jpath (find_room (oget gw ''rooms'') room) [''epoch'']"
  shows "rolled_back h room (jnum (jpath (find_room (oget gw ''rooms'') room) [''epoch''])) (ds_log s)"
  unfolding rolled_back_def Let_def
  by (rule exI [of _ old], rule exI [of _ gw]) (use log_inv_answered [OF assms(1)] assms(2-6) in auto)

lemma rolled_back_transfer:
  assumes "log_inv R A s" and "(GetStatus h, old) \<in> A" and "(GetRooms, gw) \<in> A"
    and "is_safe_jv (jpath (find_room (oget gw ''rooms'') room) [''epoch''])"
    and "\<exists>ck. restored h epoch ck (ds_log s)"
    and "epoch = rollback_epoch (find_room (oget gw ''rooms'') room) old cand i"
  shows "rolled_back h room epoch (ds_log s)"
proof -
  let ?route = "find_room (oget gw ''rooms'') room"
  have above: "below_epoch (oget old ''roomEpoch'') epoch" "below_epoch (jpath ?route [''epoch'']) epoch"
    using assms(6) by (auto simp: below_epoch_def intro: rollback_epoch_above)
  then have "epoch \<noteq> jnum (jpath ?route [''epoch''])"
    using assms(4) by (simp add: below_epoch_def)
  then show ?thesis
    unfolding rolled_back_def Let_def using above assms(5) log_inv_answered [OF assms(1)] assms(2,3) by auto
qed

lemma room_context_ok:
  assumes "\<And>a. ds_byRoom s room = Some a \<Longrightarrow> dx_operationId (ds_store s a) = op
      \<Longrightarrow> Q (a, ds_store s a) s" and "\<And>m. E (Err m) s"
  shows "wp (room_context room op) Q E s"
  using assms by (auto simp: room_context_def context_at_def throwM_def split: option.splits)

text \<open>After the three answers are in, every branch of the rollback keeps the rule.\<close>

lemma rollback_body_ok:
  fixes c :: candidate and x :: driver_context and i :: rollback_input and s :: "'w dstate"
  defines "h \<equiv> ht_activeEndpoint (dx_target x)" and "room \<equiv> ri_roomId i"
  assumes inv: "log_inv (rollback_rule h room) A s"
    and old: "(GetStatus h, old) \<in> A" and cand: "(GetStatus (cd_endpoint c), cand) \<in> A" and gw: "(GetRooms, gw) \<in> A"
  shows "wp (rollback_decide env a x c i gw old cand)
     (\<lambda>r s'. log_inv (rollback_rule h room) {} s' \<and> rolled_back h room (rx_roomEpoch r) (ds_log s'))
     (\<lambda>_. log_inv (rollback_rule h room) {}) s"
proof -
  let ?R = "rollback_rule h room" and ?route = "find_room (oget gw ''rooms'') room"
  let ?all = "[(ht_activeEndpoint (dx_target x), old), (cd_endpoint c, cand)]"
  let ?active = "filter (\<lambda>(_, st). oget st ''role'' = JStr ''active'') ?all"
  have error: "log_inv ?R {} s" by (rule log_inv_any [OF inv])
  have transfer: "wp (rollback_transfer env a x c i gw ?route old cand auth)
      (\<lambda>r s'. log_inv ?R {} s' \<and> rolled_back h room (rx_roomEpoch r) (ds_log s')) (\<lambda>_. log_inv ?R {}) s"
    if "is_safe_jv (jpath ?route [''epoch''])" for auth
    by (rule rollback_transfer_ok [where x = x and i = i, folded h_def room_def, OF inv old gw])
      (use old gw that in \<open>auto intro: log_inv_any rolled_back_transfer\<close>)
  have unchanged: "\<exists>st. (GetStatus h, st) \<in> A \<and> oget st ''role'' = JStr ''active''
       \<and> oget old ''roomEpoch'' = jpath ?route [''epoch'']"
    if "rollback_unchanged x ?route old ?active"
    using that old cand unfolding rollback_unchanged_def
    by (auto simp: h_def [symmetric] split: if_splits)
  have kept: "wp (thenE (abort_if_prepared env gw room p)
      (thenE (set_context a (\<lambda>x. x\<lparr>dx_committedEpoch := Some (jnum (jpath ?route [''epoch'']))\<rparr>))
      (ret \<lparr>rx_sessions = 0, rx_replayedInputs = 0, rx_roomEpoch = jnum (jpath ?route [''epoch''])\<rparr>)))
      (\<lambda>r s'. log_inv ?R {} s' \<and> rolled_back h room (rx_roomEpoch r) (ds_log s')) (\<lambda>_. log_inv ?R {}) s"
    if u: "rollback_unchanged x ?route old ?active" for p
    using unchanged [OF u] old gw unfolding wp_thenE
    by (intro wp_keeps [OF abort_if_prepared_keeps inv])
      (auto simp: set_context_def elim: log_inv_any intro: rolled_back_unchanged)
  show ?thesis
    unfolding rollback_decide_def Let_def room_def [symmetric] throwM_def
    using error transfer kept by (simp add: split: list.split)
qed

lemma rollback_answers_ok:
  fixes c :: candidate and x :: driver_context and i :: rollback_input and s :: "'w dstate"
  defines "h \<equiv> ht_activeEndpoint (dx_target x)" and "room \<equiv> ri_roomId i"
  assumes inv: "log_inv (rollback_rule h room) {} s"
  shows "wp (bothE (bothE (handoffStatus env h) (handoffStatus env (cd_endpoint c))) (gatewayRooms env))
     (\<lambda>p. wp (rollback_decide env a x c i (snd p) (fst (fst p)) (snd (fst p)))
        (\<lambda>r s'. log_inv (rollback_rule h room) {} s' \<and> rolled_back h room (rx_roomEpoch r) (ds_log s'))
        (\<lambda>_. log_inv (rollback_rule h room) {}))
     (\<lambda>_. log_inv (rollback_rule h room) {}) s"
proof -
  let ?R = "rollback_rule h room"
  have status: "wp (handoffStatus env e) (\<lambda>_. log_inv ?R {}) (\<lambda>_. log_inv ?R {}) s'" if "log_inv ?R {} s'" for e s'
    by (rule wp_keeps [OF handoffStatus_keeps, of ?R e, OF _ that]) simp_all
  have rooms: "wp (gatewayRooms env) (\<lambda>_. log_inv ?R {}) (\<lambda>_. log_inv ?R {}) s'" if "log_inv ?R {} s'" for s'
    unfolding gatewayRooms_def by (rule wp_keeps [OF controlObj_keeps, of ?R GetRooms, OF _ that]) simp_all
  have failed: "wp (gatewayRooms env) (\<lambda>_. log_inv ?R {}) (\<lambda>_. log_inv ?R {}) s'" if "log_inv ?R A s'" for A s'
    by (rule rooms [OF log_inv_any [OF that]])
  show ?thesis
    apply (rule wp_bothE, rule wp_bothE, rule handoffStatus_answered [OF inv], simp)
     apply (rule handoffStatus_answered, assumption, simp)
      apply (unfold gatewayRooms_def, rule controlObj_answered, assumption, simp, fold gatewayRooms_def)
       apply (rule rollback_body_ok [where x = x and i = i, folded h_def room_def], simp, simp, simp, simp)
      apply (erule log_inv_any)
     apply (erule failed)
    apply (rule wp_mono [OF status], assumption)
     apply (erule rooms)+
    done
qed

text \<open>
  C5: A rollback never reuses an epoch and never promotes unproved state.  Whatever the network
  answers, the old Pod is promoted only with a checksum some Pod has just released and at an
  epoch above its own and above the routed one; the Gateway is cut back only after that
  promotion was acknowledged, and the rollback is finalized only with the Gateway's proof that
  the sessions continued.  A rollback that returns either found the old Pod still serving the
  routed epoch, or left it promoted at the newer epoch it returns.
\<close>

theorem rollback_is_fenced:
  fixes s :: "'w dstate"
  shows "case drv_rollbackGateway env i (s\<lparr>ds_log := []\<rparr>) of (r, s') \<Rightarrow>
     monitored (rollback_rule (serving_endpoint s (ri_roomId i)) (ri_roomId i)) (ds_log s')
     \<and> (case r of Inl _ \<Rightarrow> True
        | Inr res \<Rightarrow> rolled_back (serving_endpoint s (ri_roomId i)) (ri_roomId i) (rx_roomEpoch res) (ds_log s'))"
proof -
  let ?R = "rollback_rule (serving_endpoint s (ri_roomId i)) (ri_roomId i)"
  let ?Q = "\<lambda>r s'. log_inv ?R {} s' \<and> rolled_back (serving_endpoint s (ri_roomId i)) (ri_roomId i) (rx_roomEpoch r) (ds_log s')"
  have "wp (drv_rollbackGateway env i) ?Q (\<lambda>_. log_inv ?R {}) (s\<lparr>ds_log := []\<rparr>)"
    unfolding drv_rollbackGateway_def wp_bindE case_prod_beta
  proof (rule room_context_ok)
    fix a assume a: "ds_byRoom (s\<lparr>ds_log := []\<rparr>) (ri_roomId i) = Some a"
    then have home: "ht_activeEndpoint (dx_target (ds_store (s\<lparr>ds_log := []\<rparr>) a)) = serving_endpoint s (ri_roomId i)"
      by (simp add: serving_endpoint_def)
    show "wp (case dx_candidate (snd (a, ds_store (s\<lparr>ds_log := []\<rparr>) a)) of
          None \<Rightarrow> throwM ''handoff_context_not_found''
        | Some c \<Rightarrow> bindE
            (bothE (bothE (handoffStatus env (ht_activeEndpoint (dx_target (snd (a, ds_store (s\<lparr>ds_log := []\<rparr>) a)))))
                      (handoffStatus env (cd_endpoint c))) (gatewayRooms env))
            (\<lambda>p. rollback_decide env (fst (a, ds_store (s\<lparr>ds_log := []\<rparr>) a))
                   (snd (a, ds_store (s\<lparr>ds_log := []\<rparr>) a)) c i (snd p) (fst (fst p)) (snd (fst p))))
        ?Q (\<lambda>_. log_inv ?R {}) (s\<lparr>ds_log := []\<rparr>)"
      using rollback_answers_ok [where x = "ds_store (s\<lparr>ds_log := []\<rparr>) a" and i = i and env = env and a = a
          and s = "s\<lparr>ds_log := []\<rparr>", unfolded home] home
      by (auto simp: throwM_def split: option.split)
  qed simp
  then show ?thesis
    by (auto simp: wp_def log_inv_def split: prod.splits sum.splits)
qed

section \<open>The Gateway cutover\<close>
















end
