(* ===== verification/BitView.thy ===== *)
theory BitView
  imports Prelude "HOL-Library.Word"
begin

text \<open>
  \<open>BitView\<close> of \<open>shared/lib/bitBuffer.ts\<close>: reading and writing bit fields across the bytes
  of an array, with the masks and 32-bit shifts of the code, and the proof that the loops read
  and write exactly the bits they should.  A view holds fewer than \<open>2 ^ 28\<close> bytes (the
  network buffers are a few kilobytes), so \<open>offset >> 3\<close> and \<open>offset & 7\<close> are division and
  remainder.
\<close>

unbundle bit_operations_syntax

section \<open>The 32-bit operators of JavaScript\<close>

text \<open>Shift counts are taken modulo 32; \<open>>>\<close> keeps the sign.\<close>

definition js_shl :: "32 word \<Rightarrow> nat \<Rightarrow> 32 word" where
  "js_shl w n = push_bit (n mod 32) w"

definition js_sar :: "32 word \<Rightarrow> nat \<Rightarrow> 32 word" where
  "js_sar w n = signed_drop_bit (n mod 32) w"

text \<open>\<open>ToInt32\<close>: a number becomes a 32-bit pattern, truncated towards zero.\<close>

definition js_trunc :: "rat \<Rightarrow> int" where
  "js_trunc q = (if 0 \<le> q then \<lfloor>q\<rfloor> else - \<lfloor>- q\<rfloor>)"

fun to_int32 :: "jsnum \<Rightarrow> 32 word" where
  "to_int32 (Num q) = word_of_int (js_trunc q)"
| "to_int32 _ = 0"

type_synonym view = "8 word list"

section \<open>The loops\<close>

text \<open>The bits the next round handles.\<close>

definition round_bits :: "nat \<Rightarrow> nat \<Rightarrow> nat \<Rightarrow> nat" where
  "round_bits i bits offset = min (bits - i) (8 - offset mod 8)"

lemma round_bits_pos: "i < bits \<Longrightarrow> 0 < round_bits i bits offset"
  by (simp add: round_bits_def)

lemma round_bits_le: "round_bits i bits offset \<le> bits - i" "round_bits i bits offset \<le> 8 - offset mod 8"
  by (simp_all add: round_bits_def)

lemma round_decreases [simp]: "i < bits \<Longrightarrow> bits - (i + round_bits i bits offset) < bits - i"
  by (auto simp: round_bits_def min_def)

function get_loop :: "view \<Rightarrow> nat \<Rightarrow> nat \<Rightarrow> nat \<Rightarrow> 32 word \<Rightarrow> 32 word" where
  "get_loop v bits i offset value =
     (if i < bits then
        let read = round_bits i bits offset;
            current = (ucast (v ! (offset div 8)) :: 32 word);
            mask = js_shl 1 read - 1;
            readBits = js_sar current (offset mod 8) AND mask
        in get_loop v bits (i + read) (offset + read) (value OR js_shl readBits i)
      else value)"
  by auto
termination
  by (relation "measure (\<lambda>(v, bits, i, offset, value). bits - i)") (simp_all add: Let_def)

declare get_loop.simps [simp del]

function set_loop :: "view \<Rightarrow> nat \<Rightarrow> nat \<Rightarrow> nat \<Rightarrow> 32 word \<Rightarrow> view" where
  "set_loop v bits i offset value =
     (if i < bits then
        if 8 \<le> bits - i \<and> offset mod 8 = 0 then
          set_loop (v[offset div 8 := ucast (value AND 0xff)]) bits (i + 8) (offset + 8) (js_sar value 8)
        else
          let wrote = round_bits i bits offset;
              mask = NOT (js_shl 0xff wrote);
              writeBits = value AND mask;
              destMask = NOT (js_shl mask (offset mod 8));
              byte = (ucast (v ! (offset div 8)) AND destMask) OR js_shl writeBits (offset mod 8)
          in set_loop (v[offset div 8 := ucast byte]) bits (i + wrote) (offset + wrote) (js_sar value wrote)
      else v)"
  by auto
termination
  by (relation "measure (\<lambda>(v, bits, i, offset, value). bits - i)") (simp_all add: Let_def)

declare set_loop.simps [simp del]

definition out_of_bits :: "string \<Rightarrow> view \<Rightarrow> nat \<Rightarrow> nat \<Rightarrow> string" where
  "out_of_bits verb v offset bits =
     ''Cannot '' @ verb @ '' '' @ show_nat bits @ '' bit(s) from offset '' @ show_nat offset @ '', ''
       @ show_int (int (length v * 8) - int offset) @ '' available''"

text \<open>\<open>-1 ^ ((1 << bits) - 1)\<close> fills the bits above a negative field.\<close>

definition sign_fill :: "nat \<Rightarrow> 32 word \<Rightarrow> 32 word" where
  "sign_fill bits value =
     (if bits \<noteq> 32 \<and> value AND js_shl 1 (bits + 31) \<noteq> 0
      then value OR (- 1 XOR (js_shl 1 bits - 1)) else value)"

definition getBits :: "view \<Rightarrow> nat \<Rightarrow> nat \<Rightarrow> bool \<Rightarrow> string + int" where
  "getBits v offset bits asSigned =
     (if int (length v * 8) - int offset < int bits then Inl (out_of_bits ''get'' v offset bits)
      else
        let value = get_loop v bits 0 offset 0 in
        Inr (if asSigned then sint (sign_fill bits value) else uint value))"

definition setBits :: "view \<Rightarrow> nat \<Rightarrow> 32 word \<Rightarrow> nat \<Rightarrow> string + view" where
  "setBits v offset value bits =
     (if int (length v * 8) - int offset < int bits then Inl (out_of_bits ''set'' v offset bits)
      else Inr (set_loop v bits 0 offset value))"

section \<open>What the loops compute\<close>

text \<open>Bit \<open>k\<close> of a view.\<close>

definition view_bit :: "view \<Rightarrow> nat \<Rightarrow> bool" where
  "view_bit v k = bit (v ! (k div 8)) (k mod 8)"

lemma bit_js_shl: "bit (js_shl w n) j = (n mod 32 \<le> j \<and> j < 32 \<and> bit w (j - n mod 32))"
  by (auto simp: js_shl_def bit_push_bit_iff)

lemma low_mask: "n < 32 \<Longrightarrow> js_shl 1 n - 1 = (mask n :: 32 word)"
  by (simp add: js_shl_def mask_eq_exp_minus_1)

lemma bit_byte: "bit (b :: 8 word) k \<Longrightarrow> k < 8"
  using bit_imp_le_length [of b k] by simp

lemma bit_js_sar_byte: "n < 32 \<Longrightarrow> bit (js_sar (ucast (b :: 8 word)) n) j = bit b (n + j)"
  by (auto simp: js_sar_def bit_signed_drop_bit_iff bit_ucast_iff dest: bit_byte)

lemma bit_js_sar: "n < 32 \<Longrightarrow> j + n < 32 \<Longrightarrow> bit (js_sar w n) j = bit w (j + n)"
  by (auto simp: js_sar_def bit_signed_drop_bit_iff ac_simps)

lemma bit_get_round:
  assumes "i < bits" and "bits \<le> 32" and "read = round_bits i bits offset"
  shows "bit (value OR js_shl (js_sar (ucast (b :: 8 word)) (offset mod 8) AND (js_shl 1 read - 1)) i) j
    = (bit value j \<or> (i \<le> j \<and> j < i + read \<and> bit b (offset mod 8 + (j - i))))"
proof -
  have "read \<le> 8" "offset mod 8 < 8" "i + read \<le> 32"
    using assms by (auto simp: round_bits_def)
  then show ?thesis
    using assms(1,2)
    by (auto simp: low_mask bit_or_iff bit_and_iff bit_js_shl bit_mask_iff bit_js_sar_byte)
qed

text \<open>The reading loop collects bit \<open>offset + j - i\<close> of the view as bit \<open>j\<close>.\<close>

lemma view_bit_in_byte:
  assumes "offset mod 8 + d < 8"
  shows "view_bit v (offset + d) = bit (v ! (offset div 8)) (offset mod 8 + d)"
proof -
  define q m where "q = offset div 8" and "m = offset mod 8"
  have "offset + d = (m + d) + 8 * q"
    using div_mult_mod_eq [of offset 8] by (simp add: q_def m_def)
  moreover have "m + d < 8" using assms by (simp add: m_def)
  ultimately have "(offset + d) div 8 = q" "(offset + d) mod 8 = m + d"
    by (simp_all only: div_mult_self2 mod_mult_self2 div_less mod_less add_0_right)
  then show ?thesis by (simp add: view_bit_def q_def m_def)
qed

lemma get_loop_bits:
  assumes "bits \<le> 32"
  shows "bit (get_loop v bits i offset w) j
    = (bit w j \<or> (i \<le> j \<and> j < bits \<and> view_bit v (offset + (j - i))))"
  using assms
proof (induction v bits i offset w rule: get_loop.induct)
  case (1 v bits i offset w)
  show ?case
  proof (cases "i < bits")
    case True
    let ?r = "round_bits i bits offset"
    have r: "0 < ?r" "i + ?r \<le> bits" "offset mod 8 + ?r \<le> 8"
      using True by (auto simp: round_bits_def)
    note rec = 1(1) [OF True refl refl refl refl 1(2)]
    have step: "bit (get_loop v bits i offset w) j =
        ((bit w j \<or> (i \<le> j \<and> j < i + ?r \<and> bit (v ! (offset div 8)) (offset mod 8 + (j - i))))
         \<or> (i + ?r \<le> j \<and> j < bits \<and> view_bit v (offset + ?r + (j - (i + ?r)))))"
      by (subst get_loop.simps, simp only: True if_True Let_def rec bit_get_round [OF True 1(2) refl])
    show ?thesis
    proof (cases "i \<le> j \<and> j < i + ?r")
      case True
      then have "view_bit v (offset + (j - i)) = bit (v ! (offset div 8)) (offset mod 8 + (j - i))"
        by (intro view_bit_in_byte) (use r in linarith)
      then show ?thesis using True r step by simp
    next
      case False
      moreover have "offset + ?r + (j - (i + ?r)) = offset + (j - i)" if "i + ?r \<le> j" using that by linarith
      ultimately show ?thesis using r step by auto
    qed
  qed (auto simp: get_loop.simps)
qed

lemma get_loop_view:
  "bits \<le> 32 \<Longrightarrow> bit (get_loop v bits 0 offset 0) j = (j < bits \<and> view_bit v (offset + j))"
  by (simp add: get_loop_bits)

text \<open>Writing \<open>n\<close> bits into one byte leaves its other bits alone.\<close>

lemma bit_ff:
  "bit (0xff :: 32 word) k = (k < 8)" "bit (0xff :: 8 word) k = (k < 8)"
proof -
  have "(0xff :: 32 word) = mask 8" "(0xff :: 8 word) = mask 8" by (simp_all add: mask_eq_exp_minus_1)
  then have "bit (0xff :: 32 word) k = bit (mask 8 :: 32 word) k" "bit (0xff :: 8 word) k = bit (mask 8 :: 8 word) k"
    by (simp_all only:)
  then show "bit (0xff :: 32 word) k = (k < 8)" "bit (0xff :: 8 word) k = (k < 8)"
    by (auto simp only: bit_mask_iff possible_bit_word len_bit0 len_num1)
qed

lemma bit_set_byte:
  assumes "t < 8" and "bo + n \<le> 8"
  shows "bit (ucast ((ucast (b :: 8 word) AND NOT (js_shl (NOT (js_shl 0xff n)) bo))
                OR js_shl (w AND NOT (js_shl 0xff n)) bo) :: 8 word) t
     = (if bo \<le> t \<and> t < bo + n then bit w (t - bo) else bit b t)"
proof -
  have m: "n mod 32 = n" "bo mod 32 = bo" using assms by simp_all
  have "t < 32" "t - bo < 32" using assms by simp_all
  then show ?thesis
    using assms unfolding bit_ucast_iff bit_or_iff bit_and_iff bit_not_iff bit_js_shl bit_ff possible_bit_word m
    by auto
qed

lemma bit_low_byte: "t < 8 \<Longrightarrow> bit (ucast ((w :: 32 word) AND 0xff) :: 8 word) t = bit w t"
  by (auto simp only: bit_ucast_iff bit_and_iff bit_ff possible_bit_word len_bit0 len_num1)

lemma view_bit_update:
  "p < length v \<Longrightarrow> view_bit (v[p := x]) k = (if k div 8 = p then bit x (k mod 8) else view_bit v k)"
  by (simp add: view_bit_def nth_list_update)

lemma view_bit_round:
  assumes "offset div 8 < length v" and "offset mod 8 + n \<le> 8"
    and "\<And>t. t < 8 \<Longrightarrow> bit x t = (if offset mod 8 \<le> t \<and> t < offset mod 8 + n
                                  then bit w (t - offset mod 8) else bit (v ! (offset div 8)) t)"
  shows "view_bit (v[offset div 8 := x]) k
     = (if offset \<le> k \<and> k < offset + n then bit w (k - offset) else view_bit v k)"
proof -
  define q m r t where "q = offset div 8" and "m = offset mod 8" and "r = k div 8" and "t = k mod 8"
  have o: "offset = 8 * q + m" "m < 8" and k: "k = 8 * r + t" "t < 8"
    by (simp_all add: q_def m_def r_def t_def)
  have x: "bit x t = (if m \<le> t \<and> t < m + n then bit w (t - m) else bit (v ! q) t)"
    using assms(3) [OF k(2)] by (simp add: q_def m_def)
  have upd: "view_bit (v[offset div 8 := x]) k = (if r = q then bit x t else view_bit v k)"
    using assms(1) by (simp add: view_bit_update q_def r_def t_def)
  show ?thesis
  proof (cases "r = q")
    case True
    have "view_bit v k = bit (v ! q) t" using True by (simp add: view_bit_def r_def t_def)
    moreover have "(offset \<le> k \<and> k < offset + n) = (m \<le> t \<and> t < m + n)" "k - offset = t - m"
      unfolding o(1) k(1) True by auto
    ultimately show ?thesis using x upd True by simp
  next
    case False
    have "\<not> (offset \<le> k \<and> k < offset + n)"
    proof
      assume "offset \<le> k \<and> k < offset + n"
      then have "8 * q \<le> 8 * r + t" "8 * r + t < 8 * q + 8"
        using o k(1) assms(2) m_def by linarith+
      then show False using False k(2) by linarith
    qed
    then show ?thesis using upd False by (simp only: if_False)
  qed
qed

text \<open>One round of the writing loop, whichever of its two branches it takes.\<close>

definition set_round :: "view \<Rightarrow> nat \<Rightarrow> nat \<Rightarrow> nat \<Rightarrow> 32 word \<Rightarrow> nat \<times> view" where
  "set_round v bits i offset w =
     (if 8 \<le> bits - i \<and> offset mod 8 = 0 then (8, v[offset div 8 := ucast (w AND 0xff)])
      else let n = round_bits i bits offset in
        (n, v[offset div 8 := ucast ((ucast (v ! (offset div 8)) AND NOT (js_shl (NOT (js_shl 0xff n)) (offset mod 8)))
                                     OR js_shl (w AND NOT (js_shl 0xff n)) (offset mod 8))]))"

lemma set_loop_step:
  "i < bits \<Longrightarrow> set_loop v bits i offset w =
     set_loop (snd (set_round v bits i offset w)) bits (i + fst (set_round v bits i offset w))
       (offset + fst (set_round v bits i offset w)) (js_sar w (fst (set_round v bits i offset w)))"
  by (subst set_loop.simps) (simp add: set_round_def Let_def)

lemma set_round_bits:
  assumes "i < bits" and "offset + (bits - i) \<le> 8 * length v" and "set_round v bits i offset w = (n, v')"
  shows "0 < n \<and> n \<le> 8 \<and> i + n \<le> bits \<and> length v' = length v"
    and "view_bit v' k = (if offset \<le> k \<and> k < offset + n then bit w (k - offset) else view_bit v k)"
proof -
  have p: "offset div 8 < length v" using assms(1,2) by (simp add: less_mult_imp_div_less mult.commute)
  have "0 < n \<and> n \<le> 8 \<and> i + n \<le> bits \<and> length v' = length v
     \<and> view_bit v' k = (if offset \<le> k \<and> k < offset + n then bit w (k - offset) else view_bit v k)"
  proof (cases "8 \<le> bits - i \<and> offset mod 8 = 0")
    case True
    then have n: "n = 8" "v' = v[offset div 8 := ucast (w AND 0xff)]"
      using assms(3) by (simp_all add: set_round_def)
    have "view_bit v' k = (if offset \<le> k \<and> k < offset + 8 then bit w (k - offset) else view_bit v k)"
      unfolding n by (rule view_bit_round [OF p]) (use True in \<open>simp_all add: bit_low_byte\<close>)
    then show ?thesis using True n by auto
  next
    case False
    then have n: "n = round_bits i bits offset" and v':
      "v' = v[offset div 8 := ucast ((ucast (v ! (offset div 8)) AND NOT (js_shl (NOT (js_shl 0xff n)) (offset mod 8)))
                                     OR js_shl (w AND NOT (js_shl 0xff n)) (offset mod 8))]"
      using assms(3) by (auto simp: set_round_def Let_def split: if_splits)
    have r: "offset mod 8 + n \<le> 8" "0 < n" "n \<le> 8" "i + n \<le> bits"
      using assms(1) by (auto simp: n round_bits_def)
    have "view_bit v' k = (if offset \<le> k \<and> k < offset + n then bit w (k - offset) else view_bit v k)"
      unfolding v' by (rule view_bit_round [OF p r(1)], rule bit_set_byte, assumption, rule r(1))
    then show ?thesis using r v' by simp
  qed
  then show "0 < n \<and> n \<le> 8 \<and> i + n \<le> bits \<and> length v' = length v"
    "view_bit v' k = (if offset \<le> k \<and> k < offset + n then bit w (k - offset) else view_bit v k)"
    by simp_all
qed

text \<open>The writing loop stores bit \<open>k - offset\<close> of the value as bit \<open>k\<close>, and nothing else.\<close>

lemma set_loop_bits:
  assumes "bits \<le> 32" and "offset + (bits - i) \<le> 8 * length v"
  shows "length (set_loop v bits i offset w) = length v \<and>
    view_bit (set_loop v bits i offset w) k
    = (if offset \<le> k \<and> k < offset + (bits - i) then bit w (k - offset) else view_bit v k)"
  using assms(2)
proof (induction "bits - i" arbitrary: i offset v w rule: less_induct)
  case less
  show ?case
  proof (cases "i < bits")
    case True
    obtain n v' where round: "set_round v bits i offset w = (n, v')" by fastforce
    note r = set_round_bits(1) [OF True less.prems round]
    have b: "view_bit v' k = (if offset \<le> k \<and> k < offset + n then bit w (k - offset) else view_bit v k)"
      by (rule set_round_bits(2) [OF True less.prems round])
    have step: "set_loop v bits i offset w = set_loop v' bits (i + n) (offset + n) (js_sar w n)"
      using set_loop_step [OF True] round by simp
    have rec: "length (set_loop v' bits (i + n) (offset + n) (js_sar w n)) = length v' \<and>
       view_bit (set_loop v' bits (i + n) (offset + n) (js_sar w n)) k
        = (if offset + n \<le> k \<and> k < offset + n + (bits - (i + n)) then bit (js_sar w n) (k - (offset + n))
           else view_bit v' k)"
      by (rule less.hyps) (use r less.prems in auto)
    have sar: "bit (js_sar w n) (k - (offset + n)) = bit w (k - offset)"
      if "offset + n \<le> k" "k < offset + (bits - i)"
    proof -
      have "bit (js_sar w n) (k - (offset + n)) = bit w (k - (offset + n) + n)"
        by (rule bit_js_sar) (use r that assms(1) in linarith)+
      then show ?thesis using that by simp
    qed
    show ?thesis unfolding step using rec r b sar by auto
  qed (auto simp: set_loop.simps)
qed

text \<open>What a bit field is: the bits of the view from \<open>offset\<close> on, zero above.\<close>

definition field_word :: "view \<Rightarrow> nat \<Rightarrow> nat \<Rightarrow> 32 word" where
  "field_word v offset bits = get_loop v bits 0 offset 0"

lemma getBits_inside:
  "offset + bits \<le> 8 * length v \<Longrightarrow>
     getBits v offset bits asSigned = Inr (if asSigned then sint (sign_fill bits (field_word v offset bits))
                                           else uint (field_word v offset bits))"
  by (simp add: getBits_def field_word_def Let_def)

lemma setBits_inside:
  "offset + bits \<le> 8 * length v \<Longrightarrow> setBits v offset w bits = Inr (set_loop v bits 0 offset w)"
  by (simp add: setBits_def)

lemma bit_field_word:
  "bits \<le> 32 \<Longrightarrow> bit (field_word v offset bits) j = (j < bits \<and> view_bit v (offset + j))"
  by (simp add: field_word_def get_loop_view)

text \<open>A field is the value just written to it.\<close>

lemma field_word_set:
  assumes "bits \<le> 32" and "offset + bits \<le> 8 * length v"
  shows "field_word (set_loop v bits 0 offset w) offset bits = take_bit bits w"
  using set_loop_bits [of bits offset 0 v w] assms
  by (auto intro!: bit_word_eqI simp: bit_field_word bit_take_bit_iff)

text \<open>A field elsewhere is untouched.\<close>

lemma field_word_frame:
  assumes "bits \<le> 32" and "offset + bits \<le> 8 * length v" and "n \<le> 32"
    and "other + n \<le> offset \<or> offset + bits \<le> other"
  shows "field_word (set_loop v bits 0 offset w) other n = field_word v other n"
  using set_loop_bits [of bits offset 0 v w] assms
  by (auto intro!: bit_word_eqI simp: bit_field_word)

lemma sign_fill_take:
  assumes "0 < bits" and "bits \<le> 32"
  shows "sign_fill bits (take_bit bits w) = signed_take_bit (bits - 1) w"
proof -
  have test: "(take_bit bits w AND js_shl 1 (bits + 31) \<noteq> 0) = bit w (bits - 1)" if "bits \<noteq> 32"
  proof -
    obtain k where "bits = Suc k" using assms(1) by (cases bits) auto
    then have "bits + 31 = k + 32" "k < 32" "bits - 1 = k" using assms(2) by simp_all
    then have "(bits + 31) mod 32 = bits - 1" by (simp only: mod_add_self2 mod_less)
    then have "js_shl 1 (bits + 31) = (push_bit (bits - 1) 1 :: 32 word)" by (simp only: js_shl_def)
    then have "(take_bit bits w AND js_shl 1 (bits + 31) = 0) = (\<not> bit (take_bit bits w) (bits - 1))"
      by (simp only: bit_iff_and_push_bit_not_eq_0 not_not)
    then show ?thesis using assms by (simp add: bit_take_bit_iff)
  qed
  show ?thesis
  proof (rule bit_word_eqI)
    fix n assume n: "n < LENGTH(32)"
    show "bit (sign_fill bits (take_bit bits w)) n = bit (signed_take_bit (bits - 1) w) n"
    proof (cases "bits = 32")
      case True
      have "min 31 n = n" using n by simp
      then show ?thesis using n True by (simp add: sign_fill_def bit_take_bit_iff bit_signed_take_bit_iff)
    next
      case False
      have fill: "- 1 XOR (js_shl 1 bits - 1) = (NOT (mask bits) :: 32 word)"
        using assms False by (simp add: low_mask)
      obtain k where k: "bits = Suc k" using assms(1) by (cases bits) auto
      show ?thesis
        unfolding sign_fill_def test [OF False] fill
        using assms False n
        by (auto simp: k less_Suc_eq bit_or_iff bit_not_iff bit_mask_iff bit_take_bit_iff bit_signed_take_bit_iff min_def)
    qed
  qed
qed

lemma setBits_Inr: "setBits v offset w bits = Inr v' \<longleftrightarrow>
    offset + bits \<le> 8 * length v \<and> v' = set_loop v bits 0 offset w"
  by (auto simp: setBits_def)

text \<open>
  Bit fields do not disturb each other.  A field of at most 32 bits that was written reads
  back as the low bits of the value, signed or unsigned, across byte boundaries; every field that
  does not overlap it, and the size of the view, are what they were.
\<close>

theorem bit_field_roundtrip:
  assumes set: "setBits v offset w bits = Inr v'" and bits: "0 < bits" "bits \<le> 32"
  shows "getBits v' offset bits False = Inr (uint (take_bit bits w))
    \<and> getBits v' offset bits True = Inr (sint (signed_take_bit (bits - 1) w))
    \<and> length v' = length v
    \<and> (\<forall>other n asSigned. n \<le> 32 \<longrightarrow> other + n \<le> offset \<or> offset + bits \<le> other
         \<longrightarrow> getBits v' other n asSigned = getBits v other n asSigned)"
proof -
  have inside: "offset + bits \<le> 8 * length v" and v': "v' = set_loop v bits 0 offset w"
    using set by (simp_all add: setBits_Inr)
  have len: "length v' = length v"
    using set_loop_bits [of bits offset 0 v w] bits inside v' by simp
  have field: "field_word v' offset bits = take_bit bits w"
    unfolding v' by (rule field_word_set [OF bits(2) inside])
  have frame: "getBits v' other n asSigned = getBits v other n asSigned"
    if "n \<le> 32" "other + n \<le> offset \<or> offset + bits \<le> other" for other n asSigned
    using field_word_frame [OF bits(2) inside that, of w] len
    by (simp add: getBits_def field_word_def v' out_of_bits_def)
  show ?thesis
    using inside len field frame bits
    by (simp add: getBits_inside sign_fill_take)
qed

lemma bit_field_roundtrip_witness:
  "setBits [0, 0] 5 (to_int32 (Num (- 3))) 9 = Inr [0xa0, 0x3f] \<and> getBits [0xa0, 0x3f] 5 9 True = Inr (- 3)"
proof -
  have set: "setBits [0, 0] 5 (to_int32 (Num (- 3))) 9 = Inr [0xa0, 0x3f]"
    by code_simp
  have "getBits [0xa0, 0x3f] 5 9 True = Inr (sint (signed_take_bit (9 - 1) (to_int32 (Num (- 3)))))"
    using bit_field_roundtrip [OF set] by simp
  moreover have "sint (signed_take_bit (9 - 1) (to_int32 (Num (- 3)))) = - 3"
    by code_simp
  ultimately show ?thesis using set by simp
qed

end
