(* ===== verification/BitStream.thy ===== *)
theory BitStream
  imports BitView Effects
begin

text \<open>
  \<open>BitStream\<close> of \<open>shared/lib/bitBuffer.ts\<close>: a cursor over a view with typed readers and writers
  and the zero-terminated strings.  The second part says what it means that a writer and a
  reader fit together (\<open>transmits\<close>); the interface \<open>codec\<close> carries that law from the
  primitive fields to arrays and messages.
\<close>

section \<open>State and primitive operations\<close>

record bitstream =
  bs_view :: view
  bs_index :: nat
  bs_start :: nat
  bs_length :: nat

type_synonym 'a bs = "(bitstream, string, 'a) eff"

text \<open>Strings are lists of UTF-16 code units.\<close>

type_synonym js_str = "nat list"

definition new_bitstream :: "view \<Rightarrow> bitstream" where
  "new_bitstream v = \<lparr>bs_view = v, bs_index = 0, bs_start = 0, bs_length = 8 * length v\<rparr>"

definition get_index :: "bitstream \<Rightarrow> int" where
  "get_index s = int (bs_index s) - int (bs_start s)"

definition get_length :: "bitstream \<Rightarrow> int" where
  "get_length s = int (bs_length s) - int (bs_start s)"

definition byteIndex :: "bitstream \<Rightarrow> nat" where
  "byteIndex s = (bs_index s + 7) div 8"

definition readBits :: "nat \<Rightarrow> bool \<Rightarrow> int bs" where
  "readBits bits asSigned = (\<lambda>s. case getBits (bs_view s) (bs_index s) bits asSigned of
      Inl e \<Rightarrow> (Inl e, s)
    | Inr x \<Rightarrow> (Inr x, s\<lparr>bs_index := bs_index s + bits\<rparr>))"

definition writeBits :: "jsnum \<Rightarrow> nat \<Rightarrow> unit bs" where
  "writeBits x bits = (\<lambda>s. case setBits (bs_view s) (bs_index s) (to_int32 x) bits of
      Inl e \<Rightarrow> (Inl e, s)
    | Inr v \<Rightarrow> (Inr (), s\<lparr>bs_view := v, bs_index := bs_index s + bits\<rparr>))"

text \<open>The typed readers check the length of the stream, not only that of the view.\<close>

definition reader :: "nat \<Rightarrow> bool \<Rightarrow> int bs" where
  "reader n asSigned = (\<lambda>s.
     if bs_length s < bs_index s + n then (Inl ''Trying to read past the end of the stream'', s)
     else readBits n asSigned s)"

definition readBoolean :: "bool bs" where
  "readBoolean = bindE (reader 1 False) (\<lambda>x. ret (x \<noteq> 0))"

definition readInt8 :: "int bs" where
  "readInt8 = reader 8 True"
definition readUint8 :: "int bs" where
  "readUint8 = reader 8 False"
definition readInt16 :: "int bs" where
  "readInt16 = reader 16 True"
definition readUint16 :: "int bs" where
  "readUint16 = reader 16 False"
definition readInt32 :: "int bs" where
  "readInt32 = reader 32 True"
definition readUint32 :: "int bs" where
  "readUint32 = reader 32 False"

definition writeBoolean :: "bool \<Rightarrow> unit bs" where
  "writeBoolean b = writeBits (js_int (if b then 1 else 0)) 1"

definition writeInt :: "nat \<Rightarrow> int \<Rightarrow> unit bs" where
  "writeInt n x = writeBits (js_int x) n"

definition writeInt8 :: "int \<Rightarrow> unit bs" where
  "writeInt8 = writeInt 8"
definition writeUint8 :: "int \<Rightarrow> unit bs" where
  "writeUint8 = writeInt 8"
definition writeInt16 :: "int \<Rightarrow> unit bs" where
  "writeInt16 = writeInt 16"
definition writeUint16 :: "int \<Rightarrow> unit bs" where
  "writeUint16 = writeInt 16"
definition writeInt32 :: "int \<Rightarrow> unit bs" where
  "writeInt32 = writeInt 32"
definition writeUint32 :: "int \<Rightarrow> unit bs" where
  "writeUint32 = writeInt 32"

text \<open>
  Strings.  With a fixed length every byte is consumed but nothing is appended after a zero;
  without one the first zero ends the string.
\<close>

fun read_chars :: "nat \<Rightarrow> bool \<Rightarrow> bool \<Rightarrow> js_str bs" where
  "read_chars 0 fixedLength appending = ret []"
| "read_chars (Suc n) fixedLength appending =
     bindE readUint8 (\<lambda>c.
       if c = 0 then (if fixedLength then read_chars n fixedLength False else ret [])
       else bindE (read_chars n fixedLength appending) (\<lambda>cs. ret (if appending then nat c # cs else cs)))"

definition readASCIIString :: "nat option \<Rightarrow> js_str bs" where
  "readASCIIString bytes = (case bytes of
      Some n \<Rightarrow> if n = 0 then ret [] else read_chars n True True
    | None \<Rightarrow> bindE (getsE (\<lambda>s. nat ((get_length s - get_index s) div 8))) (\<lambda>n. read_chars n False True))"

definition writeASCIIString :: "js_str \<Rightarrow> nat option \<Rightarrow> unit bs" where
  "writeASCIIString str bytes =
     (let n = (case bytes of None \<Rightarrow> length str + 1 | Some b \<Rightarrow> if b = 0 then length str + 1 else b) in
      forE [0..<n] (\<lambda>i. writeUint8 (if i < length str then int (str ! i) else 0)))"

section \<open>Writers and readers that fit together\<close>

text \<open>\<open>v'\<close> is \<open>v\<close> with the bits \<open>bs\<close> from position \<open>i\<close> on.\<close>

definition patched :: "view \<Rightarrow> nat \<Rightarrow> bool list \<Rightarrow> view \<Rightarrow> bool" where
  "patched v i bs v' = (length v' = length v \<and>
     (\<forall>k. view_bit v' k = (if i \<le> k \<and> k < i + length bs then bs ! (k - i) else view_bit v k)))"

definition holds_at :: "view \<Rightarrow> nat \<Rightarrow> bool list \<Rightarrow> bool" where
  "holds_at v i bs = (\<forall>j < length bs. view_bit v (i + j) = bs ! j)"

text \<open>
  A writer writes the bits \<open>f i\<close> when it starts \<open>i\<close> bits into a byte, and throws exactly when the
  view has no room for them; a reader that finds these bits returns \<open>a\<close> and consumes them.
\<close>

definition writable :: "bitstream \<Rightarrow> bool" where
  "writable s = (bs_start s = 0 \<and> bs_index s \<le> 8 * length (bs_view s))"

definition wrote :: "unit bs \<Rightarrow> bitstream \<Rightarrow> bool list \<Rightarrow> bool" where
  "wrote m s bs = (case m s of
      (Inl _, _) \<Rightarrow> 8 * length (bs_view s) < bs_index s + length bs
    | (Inr _, s') \<Rightarrow> bs_index s + length bs \<le> 8 * length (bs_view s)
        \<and> (\<exists>v'. s' = s\<lparr>bs_view := v', bs_index := bs_index s + length bs\<rparr>
              \<and> patched (bs_view s) (bs_index s) bs v'))"

definition got :: "'a bs \<Rightarrow> bitstream \<Rightarrow> bool list \<Rightarrow> 'a \<Rightarrow> bool" where
  "got m s bs a = (bs_index s + length bs \<le> bs_length s
     \<longrightarrow> bs_length s \<le> 8 * length (bs_view s) \<longrightarrow> holds_at (bs_view s) (bs_index s) bs
     \<longrightarrow> m s = (Inr a, s\<lparr>bs_index := bs_index s + length bs\<rparr>))"

definition writes :: "unit bs \<Rightarrow> (nat \<Rightarrow> bool list) \<Rightarrow> bool" where
  "writes m f = (\<forall>s. writable s \<longrightarrow> wrote m s (f (bs_index s mod 8)))"

definition reads :: "'a bs \<Rightarrow> (nat \<Rightarrow> bool list) \<Rightarrow> 'a \<Rightarrow> bool" where
  "reads m f a = (\<forall>s. bs_start s = 0 \<longrightarrow> got m s (f (bs_index s mod 8)) a)"

definition transmits :: "unit bs \<Rightarrow> 'a bs \<Rightarrow> 'a \<Rightarrow> bool" where
  "transmits w r a = (\<exists>f. writes w f \<and> reads r f a)"

definition seq_bits :: "(nat \<Rightarrow> bool list) \<Rightarrow> (nat \<Rightarrow> bool list) \<Rightarrow> nat \<Rightarrow> bool list" where
  "seq_bits f g = (\<lambda>i. f i @ g ((i + length (f i)) mod 8))"

lemma patched_append:
  assumes "patched v i as v1" and "patched v1 (i + length as) bs v2"
  shows "patched v i (as @ bs) v2"
  using assms unfolding patched_def by (auto simp: nth_append)

lemma holds_at_append: "holds_at v i (as @ bs) \<longleftrightarrow> holds_at v i as \<and> holds_at v (i + length as) bs"
proof
  assume h: "holds_at v i (as @ bs)"
  have "holds_at v i as" unfolding holds_at_def
  proof (intro allI impI)
    fix j assume "j < length as"
    then show "view_bit v (i + j) = as ! j" using h unfolding holds_at_def by (auto simp: nth_append dest: spec [of _ j])
  qed
  moreover have "holds_at v (i + length as) bs" unfolding holds_at_def
  proof (intro allI impI)
    fix j assume "j < length bs"
    then show "view_bit v (i + length as + j) = bs ! j"
      using h [unfolded holds_at_def, rule_format, of "length as + j"] by (simp add: nth_append add.assoc)
  qed
  ultimately show "holds_at v i as \<and> holds_at v (i + length as) bs" ..
next
  assume h: "holds_at v i as \<and> holds_at v (i + length as) bs"
  show "holds_at v i (as @ bs)" unfolding holds_at_def
  proof (intro allI impI)
    fix j assume "j < length (as @ bs)"
    then show "view_bit v (i + j) = (as @ bs) ! j"
      using h unfolding holds_at_def
      by (cases "j < length as") (auto simp: nth_append dest: spec [of _ "j - length as"])
  qed
qed

lemma patched_holds: "patched v i bs v' \<Longrightarrow> holds_at v' i bs"
  by (auto simp: patched_def holds_at_def)

lemma writes_ret [simp]: "writes (ret ()) (\<lambda>_. [])"
proof -
  have "\<exists>v'. s = s\<lparr>bs_view := v'\<rparr> \<and> patched (bs_view s) (bs_index s) [] v'" for s :: bitstream
    by (rule exI [of _ "bs_view s"]) (auto simp: patched_def)
  then show ?thesis by (simp add: writes_def wrote_def ret_def writable_def)
qed

lemma reads_ret [simp]: "reads (ret a) (\<lambda>_. []) a"
  by (simp add: reads_def got_def ret_def)

lemma wrote_thenE:
  assumes s: "writable s" and m: "wrote m s bs"
    and n: "\<And>s1. writable s1 \<Longrightarrow> bs_index s1 = bs_index s + length bs \<Longrightarrow> wrote n s1 cs"
  shows "wrote (thenE m n) s (bs @ cs)"
proof (cases "m s")
  case (Pair r s1)
  show ?thesis
  proof (cases r)
    case (Inl e)
    then show ?thesis using m Pair by (simp add: wrote_def thenE_def bindE_def)
  next
    case (Inr u)
    then obtain v1 where v1: "s1 = s\<lparr>bs_view := v1, bs_index := bs_index s + length bs\<rparr>"
        "patched (bs_view s) (bs_index s) bs v1"
      and room: "bs_index s + length bs \<le> 8 * length (bs_view s)"
      using m Pair by (auto simp: wrote_def)
    have len: "length v1 = length (bs_view s)" using v1(2) by (simp add: patched_def)
    have "writable s1" using s v1 room len by (simp add: writable_def)
    then have n: "wrote n s1 cs" using n v1(1) by simp
    have eq: "thenE m n s = n s1" using Pair Inr by (simp add: thenE_def bindE_def)
    show ?thesis
    proof (cases "n s1")
      case (Pair r2 s2)
      then show ?thesis
        using n v1 len eq by (cases r2) (auto simp: wrote_def add.assoc intro: patched_append)
    qed
  qed
qed

lemma got_bindE:
  assumes "got m s bs a" and "got (k a) (s\<lparr>bs_index := bs_index s + length bs\<rparr>) cs b"
  shows "got (bindE m k) s (bs @ cs) b"
  using assms unfolding got_def bindE_def by (auto simp: holds_at_append add.assoc)

lemma writes_thenE: "writes m f \<Longrightarrow> writes n g \<Longrightarrow> writes (thenE m n) (seq_bits f g)"
  unfolding writes_def seq_bits_def by (auto intro!: wrote_thenE simp: mod_add_left_eq)

lemma reads_bindE: "reads m f a \<Longrightarrow> reads (k a) g b \<Longrightarrow> reads (bindE m k) (seq_bits f g) b"
  unfolding reads_def seq_bits_def
proof (intro allI impI)
  fix s :: bitstream
  let ?o = "bs_index s mod 8"
  let ?s = "s\<lparr>bs_index := bs_index s + length (f ?o)\<rparr>"
  assume m: "\<forall>s. bs_start s = 0 \<longrightarrow> got m s (f (bs_index s mod 8)) a"
    and k: "\<forall>s. bs_start s = 0 \<longrightarrow> got (k a) s (g (bs_index s mod 8)) b" and s: "bs_start s = 0"
  show "got (bindE m k) s (f ?o @ g ((?o + length (f ?o)) mod 8)) b"
    using m s k [rule_format, of ?s] by (intro got_bindE) (simp_all add: mod_add_left_eq)
qed

lemma reads_thenE: "reads m f a \<Longrightarrow> reads n g b \<Longrightarrow> reads (thenE m n) (seq_bits f g) b"
  unfolding thenE_def by (rule reads_bindE)

lemma seq_bits_nil [simp]: "seq_bits f (\<lambda>_. []) = f"
  by (simp add: seq_bits_def)

named_theorems codecs \<open>matching writers and readers\<close>

lemma transmits_ret [codecs]: "transmits (ret ()) (ret a) a"
  unfolding transmits_def by (intro exI conjI, rule writes_ret, rule reads_ret)

lemma transmits_seq [codecs]:
  "transmits w r a \<Longrightarrow> transmits w' (r' a) b \<Longrightarrow> transmits (thenE w w') (bindE r r') b"
  unfolding transmits_def by (elim exE conjE, intro exI conjI, erule (1) writes_thenE, erule (1) reads_bindE)

lemma transmits_last: "transmits w r a \<Longrightarrow> b = g a \<Longrightarrow> transmits w (bindE r (\<lambda>x. ret (g x))) b"
proof -
  assume t: "transmits w r a" and b: "b = g a"
  then obtain f where f: "writes w f" "reads r f a" by (auto simp: transmits_def)
  have "reads (bindE r (\<lambda>x. ret (g x))) (seq_bits f (\<lambda>_. [])) (g a)"
    by (rule reads_bindE [OF f(2)]) simp
  then show ?thesis using f(1) b by (auto simp: transmits_def)
qed

text \<open>
  What \<open>transmits\<close> is for: what was serialized at some position of a stream is what is
  deserialized there, both cursors end at the same place, and the rest of the buffer is kept;
  serializing fails only for want of room.
\<close>

lemma transmits_prefix:
  assumes t: "transmits w r a" and s: "writable s" and written: "w s = (Inr (), s')"
    and same: "\<And>k. k < bs_index s' \<Longrightarrow> view_bit v k = view_bit (bs_view s') k"
    and room: "bs_index s' \<le> 8 * length v"
    and reading: "s'' = \<lparr>bs_view = v, bs_index = bs_index s, bs_start = 0, bs_length = 8 * length v\<rparr>"
  shows "r s'' = (Inr a, s''\<lparr>bs_index := bs_index s'\<rparr>)"
proof -
  obtain f where f: "writes w f" "reads r f a" using t by (auto simp: transmits_def)
  from f(1) [unfolded writes_def wrote_def, rule_format, OF s] written
  obtain v' where v': "s' = s\<lparr>bs_view := v', bs_index := bs_index s + length (f (bs_index s mod 8))\<rparr>"
      "patched (bs_view s) (bs_index s) (f (bs_index s mod 8)) v'"
    by auto
  have "holds_at v (bs_index s) (f (bs_index s mod 8))"
    using patched_holds [OF v'(2)] same v'(1) by (simp add: holds_at_def)
  with f(2) [unfolded reads_def got_def, rule_format, of s''] show ?thesis
    using reading v' room by simp
qed

lemma transmits_keeps:
  assumes t: "transmits w r a" and s: "writable s" and written: "w s = (Inr (), s')"
  shows "writable s'" and "bs_index s \<le> bs_index s'" and "length (bs_view s') = length (bs_view s)"
    and "bs_length s' = bs_length s" and "bs_start s' = 0"
    and "k < bs_index s \<Longrightarrow> view_bit (bs_view s') k = view_bit (bs_view s) k"
proof -
  obtain f where f: "writes w f" using t by (auto simp: transmits_def)
  from f [unfolded writes_def wrote_def, rule_format, OF s] written
  obtain v' where v': "s' = s\<lparr>bs_view := v', bs_index := bs_index s + length (f (bs_index s mod 8))\<rparr>"
      "patched (bs_view s) (bs_index s) (f (bs_index s mod 8)) v'"
    and room: "bs_index s + length (f (bs_index s mod 8)) \<le> 8 * length (bs_view s)"
    by auto
  then show "writable s'" "bs_index s \<le> bs_index s'" "length (bs_view s') = length (bs_view s)"
    "bs_length s' = bs_length s" "bs_start s' = 0"
    "k < bs_index s \<Longrightarrow> view_bit (bs_view s') k = view_bit (bs_view s) k"
    using s by (simp_all add: patched_def writable_def)
qed

lemma transmits_delivers:
  assumes t: "transmits w r a" and s: "writable s"
    and written: "w s = (Inr (), s')"
    and reading: "s'' = \<lparr>bs_view = bs_view s', bs_index = bs_index s, bs_start = 0,
                         bs_length = 8 * length (bs_view s')\<rparr>"
  shows "r s'' = (Inr a, s''\<lparr>bs_index := bs_index s'\<rparr>)"
  using transmits_prefix [OF t s written _ _ reading] transmits_keeps(1) [OF t s written]
  by (simp add: writable_def)

section \<open>The primitive fields\<close>

definition word_bits :: "nat \<Rightarrow> 32 word \<Rightarrow> nat \<Rightarrow> bool list" where
  "word_bits n w = (\<lambda>_. map (bit w) [0..<n])"

lemma writes_writeBits:
  assumes "n \<le> 32"
  shows "writes (writeBits x n) (word_bits n (to_int32 x))"
  unfolding writes_def wrote_def
proof (intro allI impI)
  fix s :: bitstream
  let ?i = "bs_index s" and ?v = "bs_view s"
  show "case writeBits x n s of
      (Inl _, _) \<Rightarrow> 8 * length ?v < ?i + length (word_bits n (to_int32 x) (?i mod 8))
    | (Inr _, s') \<Rightarrow> ?i + length (word_bits n (to_int32 x) (?i mod 8)) \<le> 8 * length ?v
        \<and> (\<exists>v'. s' = s\<lparr>bs_view := v', bs_index := ?i + length (word_bits n (to_int32 x) (?i mod 8))\<rparr>
              \<and> patched ?v ?i (word_bits n (to_int32 x) (?i mod 8)) v')"
  proof (cases "?i + n \<le> 8 * length ?v")
    case True
    have "patched ?v ?i (map (bit (to_int32 x)) [0..<n]) (set_loop ?v n 0 ?i (to_int32 x))"
      using set_loop_bits [of n ?i 0 ?v "to_int32 x"] assms True by (auto simp: patched_def)
    then show ?thesis using True by (auto simp: writeBits_def setBits_inside word_bits_def)
  next
    case False
    then show ?thesis by (simp add: writeBits_def setBits_def word_bits_def)
  qed
qed

lemma field_word_holds:
  assumes "n \<le> 32" and "holds_at v i (word_bits n w j)"
  shows "field_word v i n = take_bit n w"
  using assms by (auto intro!: bit_word_eqI simp: bit_field_word bit_take_bit_iff holds_at_def word_bits_def)

lemma reads_readBits:
  assumes "n \<le> 32"
  shows "reads (readBits n False) (word_bits n w) (uint (take_bit n w))"
    and "0 < n \<Longrightarrow> reads (readBits n True) (word_bits n w) (sint (signed_take_bit (n - 1) w))"
  unfolding reads_def got_def
  using assms field_word_holds [OF assms, of _ _ w]
  by (auto simp: readBits_def getBits_inside word_bits_def sign_fill_take)

lemma reads_reader:
  assumes "n \<le> 32"
  shows "reads (reader n False) (word_bits n w) (uint (take_bit n w))"
    and "0 < n \<Longrightarrow> reads (reader n True) (word_bits n w) (sint (signed_take_bit (n - 1) w))"
  using reads_readBits [OF assms, of w] unfolding reads_def got_def
  by (auto simp: reader_def word_bits_def)

lemma take_bit_fits: "0 \<le> x \<Longrightarrow> x < 2 ^ n \<Longrightarrow> n \<le> 32 \<Longrightarrow> uint (take_bit n (word_of_int x :: 32 word)) = x"
proof -
  assume x: "0 \<le> x" "x < 2 ^ n" "n \<le> 32"
  have "(2::int) ^ n \<le> 2 ^ 32" using x(3) by (rule power_increasing) simp
  then have "x mod 4294967296 = x" using x by simp
  then show ?thesis using x by (simp add: unsigned_take_bit_eq uint_word_of_int take_bit_int_eq_self)
qed

lemma to_int32_int [simp]: "to_int32 (js_int x) = word_of_int x"
  by (simp add: js_int_def js_trunc_def)

lemma transmits_uint:
  "0 \<le> x \<Longrightarrow> x < 2 ^ n \<Longrightarrow> n \<le> 32 \<Longrightarrow> transmits (writeBits (js_int x) n) (readBits n False) x"
  unfolding transmits_def
  using writes_writeBits [of n "js_int x"] reads_readBits(1) [of n "word_of_int x"]
  by (auto simp: take_bit_fits)

lemma transmits_writeInt [codecs]:
  "0 \<le> x \<Longrightarrow> x < 2 ^ n \<Longrightarrow> n \<le> 32 \<Longrightarrow> transmits (writeInt n x) (reader n False) x"
  unfolding transmits_def writeInt_def
  using writes_writeBits [of n "js_int x"] reads_reader(1) [of n "word_of_int x"]
  by (auto simp: take_bit_fits)

lemma transmits_signed [codecs]:
  assumes "- (2 ^ (n - 1)) \<le> x" "x < 2 ^ (n - 1)" "0 < n" "n \<le> 32"
  shows "transmits (writeInt n x) (reader n True) x"
proof -
  have x: "signed_take_bit (n - 1) x = x" using assms(1,2) by (rule signed_take_bit_int_eq_self)
  have same: "bit x k = bit x (min (n - 1) k)" for k
    using bit_signed_take_bit_iff [of "n - 1" x k] x by simp
  have "signed_take_bit (n - 1) (word_of_int x :: 32 word) = word_of_int x"
    by (rule bit_word_eqI) (use assms(3,4) same in \<open>auto simp: bit_signed_take_bit_iff bit_word_of_int_iff\<close>)
  moreover have "sint (word_of_int x :: 32 word) = x"
  proof -
    have "(2::int) ^ (n - 1) \<le> 2 ^ 31" using assms(4) by (intro power_increasing) auto
    then have "signed_take_bit 31 x = x" using assms(1,2) by (intro signed_take_bit_int_eq_self) auto
    then show ?thesis by (simp add: sint_sbintrunc')
  qed
  ultimately have "sint (signed_take_bit (n - 1) (word_of_int x :: 32 word)) = x" by simp
  then show ?thesis
    unfolding transmits_def writeInt_def
    using writes_writeBits [of n "js_int x"] reads_reader(2) [of n "word_of_int x"] assms
    by auto
qed

lemma transmits_bool [codecs]: "transmits (writeBoolean b) readBoolean b"
proof -
  have "transmits (writeInt 1 (if b then 1 else 0)) (reader 1 False) (if b then 1 else 0)"
    by (rule transmits_writeInt) auto
  from transmits_last [OF this, of b "\<lambda>x. x \<noteq> 0"] show ?thesis
    by (simp add: writeBoolean_def readBoolean_def writeInt_def)
qed

lemma transmits_uint8 [codecs]: "0 \<le> x \<Longrightarrow> x < 256 \<Longrightarrow> transmits (writeUint8 x) readUint8 x"
  unfolding writeUint8_def readUint8_def by (rule transmits_writeInt) simp_all

lemma transmits_uint16 [codecs]: "0 \<le> x \<Longrightarrow> x < 65536 \<Longrightarrow> transmits (writeUint16 x) readUint16 x"
  unfolding writeUint16_def readUint16_def by (rule transmits_writeInt) simp_all

lemma transmits_uint32 [codecs]: "0 \<le> x \<Longrightarrow> x < 4294967296 \<Longrightarrow> transmits (writeUint32 x) readUint32 x"
  unfolding writeUint32_def readUint32_def by (rule transmits_writeInt) simp_all

section \<open>Strings\<close>

definition byte_bits :: "int list \<Rightarrow> nat \<Rightarrow> bool list" where
  "byte_bits bs = (\<lambda>_. concat (map (\<lambda>b. map (bit (word_of_int b :: 32 word)) [0..<8]) bs))"

lemma byte_bits_Nil [simp]: "byte_bits [] = (\<lambda>_. [])"
  by (simp add: byte_bits_def)

lemma byte_bits_Cons: "byte_bits (b # bs) = seq_bits (word_bits 8 (word_of_int b)) (byte_bits bs)"
  by (simp add: byte_bits_def seq_bits_def word_bits_def fun_eq_iff)

lemma byte_bits_length [simp]: "length (byte_bits bs i) = 8 * length bs"
  by (induction bs) (simp_all add: byte_bits_def)

lemma writes_bytes: "writes (forE bs writeUint8) (byte_bits bs)"
proof (induction bs)
  case Nil
  then show ?case by simp
next
  case (Cons b bs)
  have "writes (writeUint8 b) (word_bits 8 (word_of_int b))"
    using writes_writeBits [of 8 "js_int b"] by (simp add: writeUint8_def writeInt_def)
  then show ?case by (simp add: byte_bits_Cons writes_thenE Cons.IH)
qed

lemma reads_byte: "0 \<le> b \<Longrightarrow> b < 256 \<Longrightarrow> reads readUint8 (word_bits 8 (word_of_int b)) b"
  using reads_reader(1) [of 8 "word_of_int b"] take_bit_fits [of b 8] by (simp add: readUint8_def)

lemma reads_char:
  assumes "c < 256" and "reads (k (int c)) g b"
  shows "reads (bindE readUint8 k) (seq_bits (word_bits 8 (word_of_nat c)) g) b"
  using reads_bindE [OF reads_byte [of "int c"], of k g b] assms by simp

lemmas reads_zero = reads_char [of 0, simplified]

lemma forE_map: "forE (map g xs) f = forE xs (\<lambda>x. f (g x))"
  by (induction xs) simp_all

text \<open>The bytes a string is written as: cut to the fixed length, or padded with zeros.\<close>

lemma writeASCIIString_bytes:
  "writeASCIIString str None = forE (map int str @ [0]) writeUint8"
  "0 < n \<Longrightarrow> writeASCIIString str (Some n)
     = forE (map int (take n str) @ replicate (n - length str) 0) writeUint8"
proof -
  have bytes: "map (\<lambda>i. if i < length str then int (str ! i) else 0) [0..<n]
      = map int (take n str) @ replicate (n - length str) 0" for n
    by (rule nth_equalityI) (auto simp: nth_append)
  show "writeASCIIString str None = forE (map int str @ [0]) writeUint8"
    using bytes [of "length str + 1"]
    by (simp add: writeASCIIString_def forE_map [symmetric, where g = "\<lambda>i. if i < length str then int (str ! i) else 0"]
        del: upt_Suc)
  show "0 < n \<Longrightarrow> writeASCIIString str (Some n)
     = forE (map int (take n str) @ replicate (n - length str) 0) writeUint8"
    using bytes [of n]
    by (simp add: writeASCIIString_def forE_map [symmetric, where g = "\<lambda>i. if i < length str then int (str ! i) else 0"])
qed

definition plain_text :: "js_str \<Rightarrow> bool" where
  "plain_text str = (\<forall>c \<in> set str. 0 < c \<and> c < 256)"

lemma plain_text_simps [simp]:
  "plain_text []" "plain_text (c # cs) = (0 < c \<and> c < 256 \<and> plain_text cs)"
  by (simp_all add: plain_text_def)

lemma plain_text_take: "plain_text cs \<Longrightarrow> plain_text (take n cs)"
  by (auto simp: plain_text_def dest: in_set_takeD)

lemma reads_open_string:
  "plain_text cs \<Longrightarrow> length cs < n \<Longrightarrow> reads (read_chars n False True) (byte_bits (map int cs @ [0])) cs"
proof (induction cs arbitrary: n)
  case Nil
  then obtain m where "n = Suc m" by (cases n) auto
  then show ?case
    using reads_zero [of "\<lambda>c. if c = 0 then ret [] else bindE (read_chars m False True) (\<lambda>cs. ret (nat c # cs))"
        "\<lambda>_. []" "[]"] by (simp add: byte_bits_Cons cong: if_cong)
next
  case (Cons c cs)
  then obtain m where m: "n = Suc m" by (cases n) auto
  have "reads (bindE (read_chars m False True) (\<lambda>cs. ret (c # cs))) (byte_bits (map int cs @ [0])) (c # cs)"
    using reads_bindE [of "read_chars m False True" "byte_bits (map int cs @ [0])" cs "\<lambda>cs. ret (c # cs)" "\<lambda>_. []"]
      Cons m by simp
  then show ?case
    using Cons.prems by (simp add: m byte_bits_Cons) (rule reads_char, simp_all)
qed

lemma reads_padding: "reads (read_chars m True False) (byte_bits (replicate m 0)) []"
  by (induction m) (auto simp: byte_bits_Cons intro!: reads_zero)

lemma reads_fixed_string:
  "plain_text cs \<Longrightarrow> reads (read_chars (length cs + m) True True) (byte_bits (map int cs @ replicate m 0)) cs"
proof (induction cs)
  case Nil
  show ?case
  proof (cases m)
    case (Suc k)
    then show ?thesis
      using reads_padding [of k] by (auto simp: byte_bits_Cons intro!: reads_zero)
  qed simp
next
  case (Cons c cs)
  have "reads (bindE (read_chars (length cs + m) True True) (\<lambda>cs. ret (c # cs)))
      (byte_bits (map int cs @ replicate m 0)) (c # cs)"
    using reads_bindE [of "read_chars (length cs + m) True True" "byte_bits (map int cs @ replicate m 0)" cs
        "\<lambda>cs. ret (c # cs)" "\<lambda>_. []"] Cons by simp
  then show ?case
    using Cons.prems by (simp add: byte_bits_Cons) (rule reads_char, simp_all)
qed

lemma transmits_string [codecs]:
  assumes "plain_text cs"
  shows "transmits (writeASCIIString cs None) (readASCIIString None) cs"
proof -
  let ?f = "byte_bits (map int cs @ [0])"
  have "reads (readASCIIString None) ?f cs"
    unfolding reads_def got_def
  proof (intro allI impI)
    fix s :: bitstream assume s: "bs_start s = 0" "bs_index s + length (?f (bs_index s mod 8)) \<le> bs_length s"
      "bs_length s \<le> 8 * length (bs_view s)" "holds_at (bs_view s) (bs_index s) (?f (bs_index s mod 8))"
    have "length cs < nat ((get_length s - get_index s) div 8)"
      using s(1,2) by (simp add: get_length_def get_index_def)
    from reads_open_string [OF assms this, unfolded reads_def got_def, rule_format, OF s]
    show "readASCIIString None s = (Inr cs, s\<lparr>bs_index := bs_index s + length (?f (bs_index s mod 8))\<rparr>)"
      by (simp add: readASCIIString_def bindE_def getsE_def)
  qed
  then show ?thesis
    unfolding transmits_def writeASCIIString_bytes(1) using writes_bytes by blast
qed

text \<open>A string of fixed length arrives cut to that length.\<close>

lemma transmits_fixed_string [codecs]:
  assumes "plain_text cs" and "0 < n"
  shows "transmits (writeASCIIString cs (Some n)) (readASCIIString (Some n)) (take n cs)"
proof -
  have n: "length (take n cs) + (n - length cs) = n" by simp
  have "reads (readASCIIString (Some n)) (byte_bits (map int (take n cs) @ replicate (n - length cs) 0)) (take n cs)"
    using reads_fixed_string [OF plain_text_take [OF assms(1)], of n "n - length cs"] assms(2)
    by (simp only: n) (simp add: readASCIIString_def)
  then show ?thesis
    unfolding transmits_def writeASCIIString_bytes(2) [OF assms(2)] using writes_bytes by blast
qed

section \<open>The codec interface\<close>

text \<open>
  What a message, or a field of one, promises: its writer and its reader fit, and the reader
  returns \<open>seen a\<close> (the value itself, unless the format loses precision).
\<close>

fun repeatE :: "nat \<Rightarrow> ('s, 'e, 'a) eff \<Rightarrow> ('s, 'e, 'a list) eff" where
  "repeatE 0 m = ret []"
| "repeatE (Suc n) m = bindE m (\<lambda>a. bindE (repeatE n m) (\<lambda>as. ret (a # as)))"

locale codec =
  fixes enc :: "'a \<Rightarrow> unit bs" and dec :: "'b bs" and valid :: "'a \<Rightarrow> bool" and seen :: "'a \<Rightarrow> 'b"
  assumes fits: "valid a \<Longrightarrow> transmits (enc a) dec (seen a)"
begin

lemma elements: "\<forall>a \<in> set xs. valid a \<Longrightarrow> transmits (forE xs enc) (repeatE (length xs) dec) (map seen xs)"
proof (induction xs)
  case Nil
  then show ?case by (simp add: transmits_ret)
next
  case (Cons a xs)
  then have rec: "transmits (forE xs enc) (repeatE (length xs) dec) (map seen xs)" and a: "valid a" by simp_all
  show ?case
    by simp (rule transmits_seq [OF fits [OF a]], rule transmits_last [OF rec], simp)
qed

text \<open>The whole buffer: what was written to a fresh one is read back from it.\<close>

lemma delivers:
  assumes "valid a" and "enc a (new_bitstream v) = (Inr (), s)"
  shows "dec (new_bitstream (bs_view s)) = (Inr (seen a), s\<lparr>bs_length := 8 * length (bs_view s)\<rparr>)"
proof -
  have w: "writable (new_bitstream v)" by (simp add: writable_def new_bitstream_def)
  have s: "bs_start s = 0"
  proof -
    obtain f where "writes (enc a) f" using fits [OF assms(1)] by (auto simp: transmits_def)
    from this [unfolded writes_def wrote_def, rule_format, OF w] assms(2) show ?thesis
      by (auto simp: new_bitstream_def)
  qed
  have "dec (new_bitstream (bs_view s)) = (Inr (seen a), (new_bitstream (bs_view s))\<lparr>bs_index := bs_index s\<rparr>)"
    by (rule transmits_delivers [OF fits [OF assms(1)] w assms(2)]) (simp add: new_bitstream_def)
  then show ?thesis using s by (simp add: new_bitstream_def)
qed

end

interpretation uint8: codec writeUint8 readUint8 "\<lambda>x. 0 \<le> x \<and> x < 256" "\<lambda>x. x"
  by unfold_locales (simp add: transmits_uint8)

interpretation uint16: codec writeUint16 readUint16 "\<lambda>x. 0 \<le> x \<and> x < 65536" "\<lambda>x. x"
  by unfold_locales (simp add: transmits_uint16)

interpretation text_z: codec "\<lambda>str. writeASCIIString str None" "readASCIIString None" plain_text "\<lambda>x. x"
  by unfold_locales (rule transmits_string)

text \<open>
  A zero-terminated string written to a buffer that has room for it is read back unchanged,
  whatever follows it, when its characters are non-zero and fit a byte.
\<close>

theorem string_roundtrip:
  assumes "plain_text str" and "writeASCIIString str None (new_bitstream v) = (Inr (), s)"
  shows "fst (readASCIIString None (new_bitstream (bs_view s))) = Inr str"
  using text_z.delivers [OF assms] by simp

lemma string_roundtrip_witness:
  "fst (readASCIIString None (new_bitstream [104, 105, 0, 0])) = Inr [104, 105 :: nat]"
proof -
  have "writeASCIIString [104, 105] None (new_bitstream [0, 0, 0, 0])
      = (Inr (), \<lparr>bs_view = [104, 105, 0, 0], bs_index = 24, bs_start = 0, bs_length = 32\<rparr>)"
    by code_simp
  from string_roundtrip [OF _ this] show ?thesis by simp
qed

end
