(* ===== verification/NetStream.thy ===== *)
theory NetStream
  imports BitStream
begin

text \<open>
  The message stream of \<open>shared/net/net.ts\<close> on top of \<open>BitStream\<close>: quantized floats, vectors,
  alignment, arrays, definition types and colliders, and the registry of definition types of
  \<open>shared/defs/register.ts\<close> that numbers them.  Float arithmetic is exact rational arithmetic
  here; \<open>Float32\<close> values are bit patterns, their rounding being the \<open>DataView\<close>'s.
\<close>

section \<open>Assertions and numbers\<close>

definition assertE :: "bool \<Rightarrow> string \<Rightarrow> unit bs" where
  "assertE b m = guardE b m"

definition assertion_failed :: string where
  "assertion_failed = ''Assertation failed''"

definition clamp :: "rat \<Rightarrow> rat \<Rightarrow> rat \<Rightarrow> rat" where
  "clamp a lo hi = (if a < hi then (if lo < a then a else lo) else hi)"

text \<open>The error message carries the value and the range; the model keeps its constant part.\<close>

definition writeFloat :: "jsnum \<Rightarrow> rat \<Rightarrow> rat \<Rightarrow> nat \<Rightarrow> unit bs" where
  "writeFloat f lo hi bits =
     thenE (assertE (0 < bits \<and> bits < 31) assertion_failed)
     (thenE (assertE (js_le (Num lo) f \<and> js_le f (Num hi)) ''writeFloat: value out of range'')
     (let range = 2 ^ bits - 1;
          x = clamp (case f of Num q \<Rightarrow> q | _ \<Rightarrow> 0) lo hi;
          t = (x - lo) / (hi - lo);
          v = t * range + 1 / 2
      in writeBits (Num v) bits))"

definition readFloat :: "rat \<Rightarrow> rat \<Rightarrow> nat \<Rightarrow> jsnum bs" where
  "readFloat lo hi bits =
     thenE (assertE (0 < bits \<and> bits < 31) assertion_failed)
     (bindE (readBits bits False) (\<lambda>x.
        let range = 2 ^ bits - 1; t = of_int x / range in ret (Num (lo + t * (hi - lo)))))"

record vec2 =
  vx :: jsnum
  vy :: jsnum

definition writeVec :: "vec2 \<Rightarrow> rat \<Rightarrow> rat \<Rightarrow> rat \<Rightarrow> rat \<Rightarrow> nat \<Rightarrow> unit bs" where
  "writeVec v minX minY maxX maxY bits =
     thenE (writeFloat (vx v) minX maxX bits) (writeFloat (vy v) minY maxY bits)"

definition readVec :: "rat \<Rightarrow> rat \<Rightarrow> rat \<Rightarrow> rat \<Rightarrow> nat \<Rightarrow> vec2 bs" where
  "readVec minX minY maxX maxY bits =
     bindE (readFloat minX maxX bits) (\<lambda>x. bindE (readFloat minY maxY bits) (\<lambda>y. ret \<lparr>vx = x, vy = y\<rparr>))"

definition MaxPosition :: rat where
  "MaxPosition = 1024"

definition writeMapPos :: "vec2 \<Rightarrow> nat \<Rightarrow> unit bs" where
  "writeMapPos v bits = writeVec v 0 0 MaxPosition MaxPosition bits"

definition readMapPos :: "nat \<Rightarrow> vec2 bs" where
  "readMapPos bits = readVec 0 0 MaxPosition MaxPosition bits"

definition unit_bound :: rat where
  "unit_bound = 10001 / 10000"

definition writeUnitVec :: "vec2 \<Rightarrow> nat \<Rightarrow> unit bs" where
  "writeUnitVec v bits = writeVec v (- unit_bound) (- unit_bound) unit_bound unit_bound bits"

definition readUnitVec :: "nat \<Rightarrow> vec2 bs" where
  "readUnitVec bits = readVec (- unit_bound) (- unit_bound) unit_bound unit_bound bits"

section \<open>Alignment and bytes\<close>

definition writeAlignToNextByte :: "unit bs" where
  "writeAlignToNextByte = bindE (getsE (\<lambda>s. 8 - nat (get_index s mod 8))) (\<lambda>n.
     if n < 8 then writeBits (js_int 0) n else ret ())"

definition readAlignToNextByte :: "unit bs" where
  "readAlignToNextByte = bindE (getsE (\<lambda>s. 8 - nat (get_index s mod 8))) (\<lambda>n.
     if n < 8 then thenE (readBits n False) (ret ()) else ret ())"

text \<open>\<open>new Uint8Array(buffer, offset, n)\<close> and \<open>set\<close> throw a RangeError outside their arrays.\<close>

definition writeBytes :: "bitstream \<Rightarrow> nat \<Rightarrow> nat \<Rightarrow> unit bs" where
  "writeBytes src offset n =
     bindE (getsE get_index) (\<lambda>i.
     thenE (assertE (i mod 8 = 0) assertion_failed)
     (thenE (assertE (offset + n \<le> length (bs_view src)) ''RangeError'')
     (bindE (getsE (\<lambda>s. length (bs_view s))) (\<lambda>room.
      thenE (assertE (nat (i div 8) + n \<le> room) ''RangeError'')
      (modifyE (\<lambda>s. s\<lparr>bs_view := take (nat (i div 8)) (bs_view s) @ take n (drop offset (bs_view src))
                                 @ drop (nat (i div 8) + n) (bs_view s),
                      bs_index := bs_index s + n * 8\<rparr>))))))"

section \<open>Arrays\<close>

definition writeArray :: "'a list \<Rightarrow> nat \<Rightarrow> ('a \<Rightarrow> unit bs) \<Rightarrow> unit bs" where
  "writeArray xs bits writeFn =
     thenE (assertE (0 < bits \<and> bits < 31) assertion_failed)
     (let n = min (length xs) (2 ^ bits - 1) in
      thenE (writeBits (js_int (int n)) bits) (forE (take n xs) writeFn))"

definition readArray :: "nat \<Rightarrow> 'a bs \<Rightarrow> 'a list bs" where
  "readArray bits readFn =
     thenE (assertE (0 < bits \<and> bits < 31) assertion_failed)
     (bindE (readBits bits False) (\<lambda>n. repeatE (nat n) readFn))"

section \<open>The registry of definition types\<close>

record register =
  rg_type :: string
  rg_defs :: "string list"
  rg_typeToId :: "string \<rightharpoonup> nat"
  rg_idToType :: "nat \<rightharpoonup> string"
  rg_nextId :: nat
  rg_maxId :: nat

text \<open>
  The tables are plain objects: a name of \<open>Object.prototype\<close> is not \<open>undefined\<close> in them even
  when it was never added.
\<close>

definition inherited_names :: "string list" where
  "inherited_names = [''constructor'', ''__defineGetter__'', ''__defineSetter__'', ''hasOwnProperty'',
     ''__lookupGetter__'', ''__lookupSetter__'', ''isPrototypeOf'', ''propertyIsEnumerable'',
     ''toString'', ''valueOf'', ''__proto__'', ''toLocaleString'']"

definition addType :: "string \<Rightarrow> register \<Rightarrow> string + register" where
  "addType t r =
     (if rg_typeToId r t \<noteq> None \<or> t \<in> set inherited_names then Inl (''Type '' @ t @ '' has already been defined!'')
      else if rg_maxId r \<le> rg_nextId r then Inl assertion_failed
      else Inr (r\<lparr>rg_typeToId := (rg_typeToId r)(t \<mapsto> rg_nextId r),
                  rg_idToType := (rg_idToType r)(rg_nextId r \<mapsto> t),
                  rg_nextId := rg_nextId r + 1\<rparr>))"

fun addTypes :: "string list \<Rightarrow> register \<Rightarrow> string + register" where
  "addTypes [] r = Inr r"
| "addTypes (t # ts) r = (case addType t r of Inl e \<Rightarrow> Inl e | Inr r' \<Rightarrow> addTypes ts r')"

definition new_register :: "string \<Rightarrow> string list \<Rightarrow> nat \<Rightarrow> string + register" where
  "new_register type defs typeBits =
     (let r = \<lparr>rg_type = type, rg_defs = defs, rg_typeToId = Map.empty, rg_idToType = Map.empty,
               rg_nextId = 0, rg_maxId = 2 ^ typeBits\<rparr> in
      case addType [] r of
        Inl e \<Rightarrow> Inl e
      | Inr r1 \<Rightarrow>
          if length defs \<le> rg_maxId r1 then addTypes defs r1
          else Inl (type @ '' contains '' @ show_nat (length defs) @ '' types, max '' @ show_nat (rg_maxId r1)))"

definition typeToId :: "register \<Rightarrow> string \<Rightarrow> string + jsnum" where
  "typeToId r t = (case rg_typeToId r t of
     Some i \<Rightarrow> Inr (js_int (int i))
   | None \<Rightarrow> if t \<in> set inherited_names then Inr NaN else Inl (''Invalid type '' @ t))"

definition idToType :: "register \<Rightarrow> nat \<Rightarrow> string option" where
  "idToType r i = rg_idToType r i"

definition liftB :: "string + 'a \<Rightarrow> 'a bs" where
  "liftB x = (case x of Inl e \<Rightarrow> throwE e | Inr a \<Rightarrow> ret a)"

definition writeType :: "register \<Rightarrow> nat \<Rightarrow> string \<Rightarrow> unit bs" where
  "writeType r bits t = bindE (liftB (typeToId r t)) (\<lambda>i. writeBits i bits)"

definition readType :: "register \<Rightarrow> nat \<Rightarrow> string option bs" where
  "readType r bits = bindE (readBits bits False) (\<lambda>i. ret (idToType r (nat i)))"

definition writeGameType :: "register \<Rightarrow> string \<Rightarrow> unit bs" where
  "writeGameType r = writeType r 10"

definition readGameType :: "register \<Rightarrow> string option bs" where
  "readGameType r = readType r 10"

definition writeMapType :: "register \<Rightarrow> string \<Rightarrow> unit bs" where
  "writeMapType r = writeType r 12"

definition readMapType :: "register \<Rightarrow> string option bs" where
  "readMapType r = readType r 12"

section \<open>Colliders\<close>

datatype collider = Circle vec2 jsnum | Aabb vec2 vec2

definition CIRCLE_TYPE :: int where
  "CIRCLE_TYPE = 0"

definition AABB_TYPE :: int where
  "AABB_TYPE = 1"

fun writeCollider :: "collider \<Rightarrow> unit bs" where
  "writeCollider (Circle p r) =
     thenE (writeUint8 CIRCLE_TYPE) (thenE (writeMapPos p 16) (writeFloat r 0 MaxPosition 16))"
| "writeCollider (Aabb a b) =
     thenE (writeUint8 AABB_TYPE) (thenE (writeMapPos a 16) (writeMapPos b 16))"

definition readCollider :: "collider bs" where
  "readCollider = bindE readUint8 (\<lambda>t.
     if t = CIRCLE_TYPE then bindE (readMapPos 16) (\<lambda>p. bindE (readFloat 0 MaxPosition 16) (\<lambda>r. ret (Circle p r)))
     else bindE (readMapPos 16) (\<lambda>a. bindE (readMapPos 16) (\<lambda>b. ret (Aabb a b))))"

end
