(* ===== verification/NetStreamFacts.thy ===== *)
theory NetStreamFacts
  imports NetStream
begin

text \<open>
  The laws of the message stream: the quantization error of floats, the numbering of
  definition types, and the matching rules (\<open>codecs\<close>) for every field the messages use.
\<close>

section \<open>Quantized floats\<close>

text \<open>What a reader sees of a number that was written with a range and a number of bits.\<close>

definition quantize :: "rat \<Rightarrow> rat \<Rightarrow> nat \<Rightarrow> rat \<Rightarrow> rat" where
  "quantize lo hi bits q =
     lo + of_int \<lfloor>(q - lo) / (hi - lo) * (2 ^ bits - 1) + 1 / 2\<rfloor> / (2 ^ bits - 1) * (hi - lo)"

definition quantizeN :: "rat \<Rightarrow> rat \<Rightarrow> nat \<Rightarrow> jsnum \<Rightarrow> jsnum" where
  "quantizeN lo hi bits f = (case f of Num q \<Rightarrow> Num (quantize lo hi bits q) | _ \<Rightarrow> f)"

definition in_range :: "rat \<Rightarrow> rat \<Rightarrow> jsnum \<Rightarrow> bool" where
  "in_range lo hi f = (case f of Num q \<Rightarrow> lo \<le> q \<and> q \<le> hi | _ \<Rightarrow> False)"

text \<open>The integer a number is sent as lies in the range of its bits.\<close>

definition step_of :: "rat \<Rightarrow> rat \<Rightarrow> nat \<Rightarrow> rat \<Rightarrow> int" where
  "step_of lo hi bits q = \<lfloor>(q - lo) / (hi - lo) * (2 ^ bits - 1) + 1 / 2\<rfloor>"

lemma quantize_step: "quantize lo hi bits q = lo + of_int (step_of lo hi bits q) / (2 ^ bits - 1) * (hi - lo)"
  by (simp add: quantize_def step_of_def)

lemma step_of_range:
  assumes "lo < hi" and "lo \<le> q" and "q \<le> hi" and "0 < bits"
  shows "0 \<le> step_of lo hi bits q \<and> step_of lo hi bits q < 2 ^ bits"
proof -
  let ?r = "2 ^ bits - 1 :: rat" and ?t = "(q - lo) / (hi - lo)"
  have r: "0 \<le> ?r" by simp
  have t: "0 \<le> ?t" "?t \<le> 1" using assms by (simp_all add: divide_le_eq)
  have "?t * ?r \<le> 1 * ?r" using t(2) r by (rule mult_right_mono)
  then have "?t * ?r + 1 / 2 < of_int (2 ^ bits)" by simp
  moreover have "0 \<le> ?t * ?r" by (rule mult_nonneg_nonneg [OF t(1) r])
  then have "0 \<le> ?t * ?r + 1 / 2" by linarith
  ultimately show ?thesis unfolding step_of_def by (simp add: floor_less_iff le_floor_iff)
qed

lemma quantize_error:
  assumes "lo < hi" and "0 < bits"
  shows "\<bar>quantize lo hi bits q - q\<bar> \<le> (hi - lo) / (2 * (2 ^ bits - 1))"
proof -
  let ?r = "2 ^ bits - 1 :: rat" and ?d = "hi - lo"
  let ?v = "(q - lo) / ?d * ?r"
  have r: "0 < ?r" using assms(2) by (simp add: one_less_power)
  have d: "0 < ?d" using assms(1) by simp
  have q: "q - lo = ?v * (?d / ?r)" using r d by simp
  have "\<bar>of_int \<lfloor>?v + 1 / 2\<rfloor> - ?v\<bar> \<le> 1 / 2" by linarith
  then have "\<bar>(of_int \<lfloor>?v + 1 / 2\<rfloor> - ?v) * (?d / ?r)\<bar> \<le> 1 / 2 * (?d / ?r)"
  proof -
    assume "\<bar>of_int \<lfloor>?v + 1 / 2\<rfloor> - ?v\<bar> \<le> 1 / 2"
    then have "\<bar>of_int \<lfloor>?v + 1 / 2\<rfloor> - ?v\<bar> * (?d / ?r) \<le> 1 / 2 * (?d / ?r)"
      using r d by (intro mult_right_mono) auto
    then show ?thesis unfolding abs_mult using r d by (simp only: abs_of_pos divide_pos_pos)
  qed
  moreover have "quantize lo hi bits q - q = (of_int \<lfloor>?v + 1 / 2\<rfloor> - ?v) * (?d / ?r)"
  proof -
    have "quantize lo hi bits q - lo = of_int \<lfloor>?v + 1 / 2\<rfloor> * (?d / ?r)" by (simp add: quantize_def)
    then show ?thesis using q unfolding left_diff_distrib by linarith
  qed
  ultimately show ?thesis by simp
qed

lemma quantize_range:
  assumes "lo < hi" and "lo \<le> q" and "q \<le> hi" and "0 < bits"
  shows "lo \<le> quantize lo hi bits q \<and> quantize lo hi bits q \<le> hi"
proof -
  let ?r = "2 ^ bits - 1 :: rat"
  have r: "0 < ?r" using assms(4) by (simp add: one_less_power)
  have k: "0 \<le> step_of lo hi bits q" "step_of lo hi bits q \<le> 2 ^ bits - 1"
    using step_of_range [OF assms] by auto
  have "of_int (step_of lo hi bits q) \<le> (of_int (2 ^ bits - 1) :: rat)"
    using k(2) by (simp only: of_int_le_iff)
  then have t: "0 \<le> of_int (step_of lo hi bits q) / ?r" "of_int (step_of lo hi bits q) / ?r \<le> 1"
    using k(1) r by simp_all
  have "0 \<le> of_int (step_of lo hi bits q) / ?r * (hi - lo)"
    using t(1) assms(1) by (intro mult_nonneg_nonneg) simp_all
  moreover have "of_int (step_of lo hi bits q) / ?r * (hi - lo) \<le> 1 * (hi - lo)"
    using t(2) assms(1) by (intro mult_right_mono) simp_all
  ultimately show ?thesis unfolding quantize_step by auto
qed

text \<open>A number that was received once is sent on without further loss.\<close>

lemma quantize_again:
  assumes "lo < hi" and "0 < bits"
  shows "quantize lo hi bits (quantize lo hi bits q) = quantize lo hi bits q"
proof -
  have r: "0 < (2 ^ bits - 1 :: rat)" using assms(2) by (simp add: one_less_power)
  have "\<lfloor>of_int k + 1 / 2 :: rat\<rfloor> = k" for k by linarith
  then show ?thesis using r assms(1) by (simp add: quantize_def)
qed

section \<open>The registry numbers its types\<close>

definition reg_ok :: "register \<Rightarrow> bool" where
  "reg_ok r = ((\<forall>t i. rg_typeToId r t = Some i \<longleftrightarrow> rg_idToType r i = Some t)
     \<and> (\<forall>i t. rg_idToType r i = Some t \<longrightarrow> i < rg_nextId r) \<and> rg_nextId r \<le> rg_maxId r)"

lemma addType_ok:
  assumes "reg_ok r" and "addType t r = Inr r'"
  shows "reg_ok r' \<and> dom (rg_typeToId r') = insert t (dom (rg_typeToId r)) \<and> rg_maxId r' = rg_maxId r"
proof -
  have r': "r' = r\<lparr>rg_typeToId := (rg_typeToId r)(t \<mapsto> rg_nextId r),
                 rg_idToType := (rg_idToType r)(rg_nextId r \<mapsto> t), rg_nextId := rg_nextId r + 1\<rparr>"
    and room: "rg_nextId r < rg_maxId r" and new: "rg_typeToId r t = None"
    using assms(2) by (auto simp: addType_def split: if_splits)
  have "rg_idToType r (rg_nextId r) = None"
    using assms(1) by (cases "rg_idToType r (rg_nextId r)") (auto simp: reg_ok_def)
  moreover have "rg_typeToId r u \<noteq> Some (rg_nextId r)" for u
    using assms(1) by (auto simp: reg_ok_def)
  moreover have "rg_idToType r i \<noteq> Some t" for i
    using assms(1) new unfolding reg_ok_def by (metis option.distinct(1))
  ultimately show ?thesis
    using assms(1) room unfolding r' reg_ok_def by (auto simp: less_Suc_eq)
qed

lemma addTypes_ok:
  "reg_ok r \<Longrightarrow> addTypes ts r = Inr r' \<Longrightarrow>
     reg_ok r' \<and> dom (rg_typeToId r') = set ts \<union> dom (rg_typeToId r) \<and> rg_maxId r' = rg_maxId r"
proof (induction ts arbitrary: r)
  case (Cons t ts)
  then obtain r1 where r1: "addType t r = Inr r1" "addTypes ts r1 = Inr r'"
    by (auto split: sum.splits)
  from addType_ok [OF Cons.prems(1) r1(1)] Cons.IH [OF _ r1(2)] show ?case by auto
qed simp

lemma new_register_ok:
  assumes "new_register ty defs bits = Inr r"
  shows "reg_ok r \<and> dom (rg_typeToId r) = set ([] # defs) \<and> rg_maxId r = 2 ^ bits"
proof -
  let ?r = "\<lparr>rg_type = ty, rg_defs = defs, rg_typeToId = Map.empty, rg_idToType = Map.empty,
             rg_nextId = 0, rg_maxId = 2 ^ bits\<rparr>"
  obtain r1 where r1: "addType [] ?r = Inr r1" "addTypes defs r1 = Inr r"
    using assms by (auto simp: new_register_def Let_def split: sum.splits if_splits)
  have "reg_ok ?r" by (simp add: reg_ok_def)
  from addType_ok [OF this r1(1)] addTypes_ok [OF _ r1(2)] show ?thesis by auto
qed

text \<open>
  A registry that was built gives every definition type, and the empty type, an id of its own
  that fits the bits of the wire format, and maps that id back to the type.
\<close>

theorem register_numbers_types:
  assumes "new_register ty defs bits = Inr r" and "t \<in> set ([] # defs)"
  shows "\<exists>i. i < 2 ^ bits \<and> typeToId r t = Inr (js_int (int i)) \<and> idToType r i = Some t
           \<and> (\<forall>u. typeToId r u = Inr (js_int (int i)) \<longrightarrow> u = t)"
proof -
  note ok = new_register_ok [OF assms(1)]
  then obtain i where i: "rg_typeToId r t = Some i" using assms(2) by blast
  then have "rg_idToType r i = Some t" "i < 2 ^ bits" using ok by (auto simp: reg_ok_def)
  moreover have "u = t" if "typeToId r u = Inr (js_int (int i))" for u
    using that ok \<open>rg_idToType r i = Some t\<close>
    by (auto simp: typeToId_def reg_ok_def js_int_def split: option.splits if_splits)
  ultimately show ?thesis using i by (auto simp: typeToId_def idToType_def)
qed

lemma register_numbers_types_witness:
  "\<exists>r. new_register ''Game'' [''m9'', ''mp5''] 10 = Inr r \<and> (\<exists>i. i < 2 ^ 10 \<and> typeToId r ''mp5'' = Inr (js_int (int i)))"
proof -
  obtain r where r: "new_register ''Game'' [''m9'', ''mp5''] 10 = Inr r"
    by (auto simp: new_register_def addType_def inherited_names_def Let_def)
  from register_numbers_types [OF r, of "''mp5''"] r show ?thesis by auto
qed

section \<open>Matching rules\<close>

lemma thenE_assert [simp]: "b \<Longrightarrow> thenE (assertE b m) w = w"
  by (simp add: assertE_def guardE_def thenE_def bindE_def ret_def)

lemma js_trunc_floor: "0 \<le> q \<Longrightarrow> js_trunc q = \<lfloor>q\<rfloor>"
  by (simp add: js_trunc_def)

lemma transmits_float [codecs]:
  assumes "in_range lo hi f" and "lo < hi" and "0 < bits" and "bits < 31"
  shows "transmits (writeFloat f lo hi bits) (readFloat lo hi bits) (quantizeN lo hi bits f)"
proof -
  obtain q where q: "f = Num q" "lo \<le> q" "q \<le> hi" using assms(1) by (cases f) (auto simp: in_range_def)
  let ?v = "(q - lo) / (hi - lo) * (2 ^ bits - 1) + 1 / 2"
  have range: "0 \<le> step_of lo hi bits q" "step_of lo hi bits q < 2 ^ bits"
    using step_of_range [OF assms(2) q(2,3) assms(3)] by simp_all
  have "clamp q lo hi = q" using q by (auto simp: clamp_def)
  moreover have "to_int32 (Num ?v) = word_of_int (step_of lo hi bits q)"
  proof -
    have "0 \<le> (q - lo) / (hi - lo)" using q(2) assms(2) by simp
    then have "0 \<le> ?v" by (intro add_nonneg_nonneg mult_nonneg_nonneg) simp_all
    then show ?thesis by (simp add: js_trunc_floor step_of_def)
  qed
  ultimately have w: "writes (writeFloat f lo hi bits) (word_bits bits (word_of_int (step_of lo hi bits q)))"
    using writes_writeBits [of bits "Num ?v"] q assms by (simp add: writeFloat_def Let_def)
  have "reads (readBits bits False) (word_bits bits (word_of_int (step_of lo hi bits q))) (step_of lo hi bits q)"
    using reads_readBits(1) [of bits "word_of_int (step_of lo hi bits q)"] assms(4)
    by (simp add: take_bit_fits [OF range])
  from reads_bindE [OF this, of "\<lambda>x. ret (Num (lo + of_int x / (2 ^ bits - 1) * (hi - lo)))" "\<lambda>_. []"
      "quantizeN lo hi bits f"]
  have "reads (readFloat lo hi bits) (word_bits bits (word_of_int (step_of lo hi bits q))) (quantizeN lo hi bits f)"
    using assms by (simp add: readFloat_def Let_def q quantizeN_def quantize_step)
  with w show ?thesis unfolding transmits_def by blast
qed

lemma transmits_if [codecs]:
  "(b \<Longrightarrow> transmits w r a) \<Longrightarrow> (\<not> b \<Longrightarrow> transmits w' r' a)
   \<Longrightarrow> transmits (if b then w else w') (if b then r else r') a"
  by simp

definition quantize_vec :: "rat \<Rightarrow> rat \<Rightarrow> rat \<Rightarrow> rat \<Rightarrow> nat \<Rightarrow> vec2 \<Rightarrow> vec2" where
  "quantize_vec minX minY maxX maxY bits v =
     \<lparr>vx = quantizeN minX maxX bits (vx v), vy = quantizeN minY maxY bits (vy v)\<rparr>"

definition vec_in :: "rat \<Rightarrow> rat \<Rightarrow> rat \<Rightarrow> rat \<Rightarrow> vec2 \<Rightarrow> bool" where
  "vec_in minX minY maxX maxY v = (in_range minX maxX (vx v) \<and> in_range minY maxY (vy v))"

lemma transmits_vec [codecs]:
  assumes "vec_in minX minY maxX maxY v" and "minX < maxX" and "minY < maxY" and "0 < bits" and "bits < 31"
  shows "transmits (writeVec v minX minY maxX maxY bits) (readVec minX minY maxX maxY bits)
           (quantize_vec minX minY maxX maxY bits v)"
  unfolding writeVec_def readVec_def quantize_vec_def
  by (rule transmits_seq [OF transmits_float transmits_last [OF transmits_float]])
    (use assms in \<open>simp_all add: vec_in_def\<close>)

definition quantize_pos :: "nat \<Rightarrow> vec2 \<Rightarrow> vec2" where
  "quantize_pos = quantize_vec 0 0 MaxPosition MaxPosition"

definition on_map :: "vec2 \<Rightarrow> bool" where
  "on_map = vec_in 0 0 MaxPosition MaxPosition"

lemma transmits_map_pos [codecs]:
  "on_map v \<Longrightarrow> 0 < bits \<Longrightarrow> bits < 31 \<Longrightarrow> transmits (writeMapPos v bits) (readMapPos bits) (quantize_pos bits v)"
  unfolding writeMapPos_def readMapPos_def quantize_pos_def on_map_def
  by (rule transmits_vec) (simp_all add: MaxPosition_def)

definition quantize_unit :: "nat \<Rightarrow> vec2 \<Rightarrow> vec2" where
  "quantize_unit = quantize_vec (- unit_bound) (- unit_bound) unit_bound unit_bound"

definition unit_like :: "vec2 \<Rightarrow> bool" where
  "unit_like = vec_in (- unit_bound) (- unit_bound) unit_bound unit_bound"

lemma transmits_unit_vec [codecs]:
  "unit_like v \<Longrightarrow> 0 < bits \<Longrightarrow> bits < 31 \<Longrightarrow> transmits (writeUnitVec v bits) (readUnitVec bits) (quantize_unit bits v)"
  unfolding writeUnitVec_def readUnitVec_def quantize_unit_def unit_like_def
  by (rule transmits_vec) (simp_all add: unit_bound_def)

lemma transmits_bits [codecs]:
  "0 \<le> x \<Longrightarrow> x < 2 ^ n \<Longrightarrow> n \<le> 32 \<Longrightarrow> transmits (writeBits (js_int x) n) (readBits n False) x"
  by (rule transmits_uint)

text \<open>Alignment pads with zero bits up to the next byte, from wherever the stream stands.\<close>

definition pad_bits :: "nat \<Rightarrow> bool list" where
  "pad_bits i = (if i mod 8 = 0 then [] else replicate (8 - i mod 8) False)"

lemma word_bits_zero: "word_bits n 0 = (\<lambda>_. replicate n False)"
  by (simp add: word_bits_def list_eq_iff_nth_eq fun_eq_iff)

lemma align_count:
  "bs_start s = 0 \<Longrightarrow> 8 - nat (get_index s mod 8) = 8 - bs_index s mod 8"
  by (simp add: get_index_def nat_mod_distrib)

lemma align_bits: "writes writeAlignToNextByte pad_bits" "reads readAlignToNextByte pad_bits ()"
proof -
  show "writes writeAlignToNextByte pad_bits"
    unfolding writes_def wrote_def
  proof (intro allI impI)
    fix s :: bitstream assume s: "writable s"
    then have start: "bs_start s = 0" by (simp add: writable_def)
    show "case writeAlignToNextByte s of
      (Inl _, _) \<Rightarrow> 8 * length (bs_view s) < bs_index s + length (pad_bits (bs_index s mod 8))
    | (Inr _, s') \<Rightarrow> bs_index s + length (pad_bits (bs_index s mod 8)) \<le> 8 * length (bs_view s)
        \<and> (\<exists>v'. s' = s\<lparr>bs_view := v', bs_index := bs_index s + length (pad_bits (bs_index s mod 8))\<rparr>
              \<and> patched (bs_view s) (bs_index s) (pad_bits (bs_index s mod 8)) v')"
    proof (cases "bs_index s mod 8 = 0")
      case True
      then have pad: "pad_bits (bs_index s mod 8) = []" by (simp add: pad_bits_def)
      show ?thesis
        using writes_ret [unfolded writes_def wrote_def, rule_format, OF s] start True unfolding pad
        by (simp add: writeAlignToNextByte_def bindE_def getsE_def align_count)
    next
      case False
      then have pad: "pad_bits (bs_index s mod 8) = replicate (8 - bs_index s mod 8) False" by (simp add: pad_bits_def)
      have zero: "word_bits (8 - bs_index s mod 8) (to_int32 (js_int 0)) = (\<lambda>_. replicate (8 - bs_index s mod 8) False)"
        by (simp add: word_bits_zero)
      have "writeAlignToNextByte s = writeBits (js_int 0) (8 - bs_index s mod 8) s"
        using False start by (simp add: writeAlignToNextByte_def bindE_def getsE_def align_count)
      then show ?thesis
        using writes_writeBits [of "8 - bs_index s mod 8" "js_int 0", unfolded writes_def wrote_def, rule_format, OF _ s]
        unfolding pad zero by simp
    qed
  qed
  show "reads readAlignToNextByte pad_bits ()"
    unfolding reads_def got_def
  proof (intro allI impI)
    fix s :: bitstream
    assume s: "bs_start s = 0" "bs_index s + length (pad_bits (bs_index s mod 8)) \<le> bs_length s"
      "bs_length s \<le> 8 * length (bs_view s)" "holds_at (bs_view s) (bs_index s) (pad_bits (bs_index s mod 8))"
    show "readAlignToNextByte s = (Inr (), s\<lparr>bs_index := bs_index s + length (pad_bits (bs_index s mod 8))\<rparr>)"
    proof (cases "bs_index s mod 8 = 0")
      case True
      then show ?thesis
        using s by (simp add: readAlignToNextByte_def bindE_def getsE_def align_count pad_bits_def ret_def)
    next
      case False
      then show ?thesis
        using s reads_readBits(1) [of "8 - bs_index s mod 8" 0, unfolded reads_def got_def, rule_format, of s]
        by (simp add: readAlignToNextByte_def bindE_def thenE_def getsE_def align_count pad_bits_def word_bits_zero ret_def)
    qed
  qed
qed

lemma transmits_align [codecs]: "transmits writeAlignToNextByte readAlignToNextByte ()"
  unfolding transmits_def using align_bits by blast

text \<open>A type arrives as itself.\<close>

definition knows :: "register \<Rightarrow> nat \<Rightarrow> string \<Rightarrow> bool" where
  "knows r bits t = (reg_ok r \<and> rg_maxId r = 2 ^ bits \<and> t \<in> dom (rg_typeToId r))"

lemma transmits_type:
  assumes "knows r bits t" and "bits \<le> 32"
  shows "transmits (writeType r bits t) (readType r bits) (Some t)"
proof -
  obtain i where i: "rg_typeToId r t = Some i" "rg_idToType r i = Some t" "i < 2 ^ bits"
  proof -
    obtain i where "rg_typeToId r t = Some i" using assms(1) by (auto simp: knows_def)
    moreover have "rg_idToType r i = Some t" "i < 2 ^ bits"
      using assms(1) \<open>rg_typeToId r t = Some i\<close> unfolding knows_def reg_ok_def by (metis, metis order_less_le_trans)
    ultimately show thesis by (rule that)
  qed
  have "int i < 2 ^ bits" using i(3) by (metis of_nat_less_iff of_nat_numeral of_nat_power)
  then have "transmits (writeBits (js_int (int i)) bits) (readType r bits) (Some t)"
    unfolding readType_def using assms(2) i(2)
    by (intro transmits_last [OF transmits_bits]) (simp_all add: idToType_def)
  then show ?thesis
    by (simp add: writeType_def typeToId_def i liftB_def bindE_def ret_def)
qed

lemma transmits_game_type [codecs]:
  "knows r 10 t \<Longrightarrow> transmits (writeGameType r t) (readGameType r) (Some t)"
  unfolding writeGameType_def readGameType_def by (rule transmits_type) simp_all

lemma transmits_map_type [codecs]:
  "knows r 12 t \<Longrightarrow> transmits (writeMapType r t) (readMapType r) (Some t)"
  unfolding writeMapType_def readMapType_def by (rule transmits_type) simp_all

text \<open>Arrays of anything that has a codec; the count has to fit its bits.\<close>

context codec
begin

lemma array:
  assumes "\<forall>a \<in> set xs. valid a" and "length xs < 2 ^ bits" and "0 < bits" and "bits < 31"
  shows "transmits (writeArray xs bits enc) (readArray bits dec) (map seen xs)"
proof -
  have n: "min (length xs) (2 ^ bits - Suc 0) = length xs" using assms(2) by simp
  have "int (length xs) < 2 ^ bits" using assms(2) by (metis of_nat_less_iff of_nat_numeral of_nat_power)
  then have "transmits (writeBits (js_int (int (length xs))) bits) (readBits bits False) (int (length xs))"
    using assms(4) by (intro transmits_bits) simp_all
  from transmits_seq [OF this, of "forE xs enc" "\<lambda>n. repeatE (nat n) dec" "map seen xs"]
  show ?thesis
    using elements [OF assms(1)] assms(3,4) unfolding writeArray_def readArray_def by (simp add: n Let_def)
qed

end

end
