(* ===== verification/NetMessages.thy ===== *)
theory NetMessages
  imports NetStreamFacts
begin

text \<open>
  The messages of \<open>shared/net/*Msg.ts\<close>: their fields, \<open>serialize\<close> and \<open>deserialize\<close>.
  The fields that name a definition type have the parameter type \<open>'t\<close>: a string when a message
  is written, a string or \<open>undefined\<close> (\<open>None\<close>) when one was read.  A flag that is sent as a
  byte comes back as that number, which is how the code leaves it.  The \<open>Float32\<close> conversions of
  \<open>DataView\<close> and the two registries are the environment.
\<close>

fun seqE :: "unit bs list \<Rightarrow> unit bs" where
  "seqE [] = ret ()"
| "seqE [m] = m"
| "seqE (m # n # ms) = thenE m (seqE (n # ms))"

record net_env =
  ne_game :: register
  ne_map :: register
  ne_f32bits :: "jsnum \<Rightarrow> 32 word"
  ne_f32val :: "32 word \<Rightarrow> jsnum"

definition writeFloat32 :: "net_env \<Rightarrow> jsnum \<Rightarrow> unit bs" where
  "writeFloat32 e x = writeBits (js_int (uint (ne_f32bits e x))) 32"

definition readFloat32 :: "net_env \<Rightarrow> jsnum bs" where
  "readFloat32 e = bindE (reader 32 False) (\<lambda>x. ret (ne_f32val e (word_of_int x)))"

definition writeNum :: "nat \<Rightarrow> jsnum \<Rightarrow> unit bs" where
  "writeNum bits x = writeBits x bits"

text \<open>\<open>Math.round\<close>\<close>

definition js_round :: "rat \<Rightarrow> int" where
  "js_round q = \<lfloor>q + 1 / 2\<rfloor>"

section \<open>Small messages\<close>

definition ser_alive_counts :: "int list \<Rightarrow> unit bs" where
  "ser_alive_counts counts = writeArray counts 8 writeUint8"

definition deser_alive_counts :: "int list bs" where
  "deser_alive_counts = readArray 8 readUint8"

definition ser_disconnect :: "js_str \<Rightarrow> unit bs" where
  "ser_disconnect reason = writeASCIIString reason None"

definition deser_disconnect :: "js_str bs" where
  "deser_disconnect = readASCIIString None"

record 't drop_item_msg =
  di_item :: 't
  di_weapIdx :: int

definition ser_drop_item :: "net_env \<Rightarrow> string drop_item_msg \<Rightarrow> unit bs" where
  "ser_drop_item e m = seqE [writeGameType (ne_game e) (di_item m), writeUint8 (di_weapIdx m)]"

definition deser_drop_item :: "net_env \<Rightarrow> string option drop_item_msg bs" where
  "deser_drop_item e =
     bindE (readGameType (ne_game e)) (\<lambda>item. bindE readUint8 (\<lambda>idx. ret \<lparr>di_item = item, di_weapIdx = idx\<rparr>))"

record 't emote_msg =
  em_pos :: vec2
  em_type :: 't
  em_isPing :: bool

definition ser_emote :: "net_env \<Rightarrow> string emote_msg \<Rightarrow> unit bs" where
  "ser_emote e m = seqE [writeVec (em_pos m) 0 0 1024 1024 16, writeGameType (ne_game e) (em_type m),
     writeBoolean (em_isPing m)]"

definition deser_emote :: "net_env \<Rightarrow> string option emote_msg bs" where
  "deser_emote e =
     bindE (readVec 0 0 1024 1024 16) (\<lambda>pos.
     bindE (readGameType (ne_game e)) (\<lambda>t.
     bindE readBoolean (\<lambda>ping. ret \<lparr>em_pos = pos, em_type = t, em_isPing = ping\<rparr>)))"

record 't perk_role_msg =
  pr_role :: 't

definition ser_perk_role :: "net_env \<Rightarrow> string perk_role_msg \<Rightarrow> unit bs" where
  "ser_perk_role e m = seqE [writeGameType (ne_game e) (pr_role m), writeBits (js_int 0) 6]"

definition deser_perk_role :: "net_env \<Rightarrow> string option perk_role_msg bs" where
  "deser_perk_role e = bindE (readGameType (ne_game e)) (\<lambda>r. bindE (readBits 6 False) (\<lambda>_. ret \<lparr>pr_role = r\<rparr>))"

record 't pickup_msg =
  pk_type :: int
  pk_item :: 't
  pk_count :: int

definition ser_pickup :: "net_env \<Rightarrow> string pickup_msg \<Rightarrow> unit bs" where
  "ser_pickup e m = seqE [writeUint8 (pk_type m), writeGameType (ne_game e) (pk_item m), writeUint8 (pk_count m)]"

definition deser_pickup :: "net_env \<Rightarrow> string option pickup_msg bs" where
  "deser_pickup e =
     bindE readUint8 (\<lambda>ty. bindE (readGameType (ne_game e)) (\<lambda>item. bindE readUint8 (\<lambda>n.
     ret \<lparr>pk_type = ty, pk_item = item, pk_count = n\<rparr>)))"

definition ser_spectate :: "int \<Rightarrow> unit bs" where
  "ser_spectate action = writeUint8 action"

definition deser_spectate :: "int bs" where
  "deser_spectate = readUint8"

record 't joined_msg =
  jd_teamMode :: int
  jd_playerId :: int
  jd_started :: bool
  jd_emotes :: "'t list"

definition ser_joined :: "net_env \<Rightarrow> string joined_msg \<Rightarrow> unit bs" where
  "ser_joined e m = seqE [writeUint8 (jd_teamMode m), writeUint16 (jd_playerId m), writeBoolean (jd_started m),
     writeArray (jd_emotes m) 8 (writeGameType (ne_game e))]"

definition deser_joined :: "net_env \<Rightarrow> string option joined_msg bs" where
  "deser_joined e =
     bindE readUint8 (\<lambda>mode. bindE readUint16 (\<lambda>pid. bindE readBoolean (\<lambda>started.
     bindE (readArray 8 (readGameType (ne_game e))) (\<lambda>emotes.
     ret \<lparr>jd_teamMode = mode, jd_playerId = pid, jd_started = started, jd_emotes = emotes\<rparr>))))"

record 't role_msg =
  rm_playerId :: int
  rm_killerId :: int
  rm_role :: 't
  rm_assigned :: bool
  rm_killed :: bool

definition ser_role :: "net_env \<Rightarrow> string role_msg \<Rightarrow> unit bs" where
  "ser_role e m = seqE [writeUint16 (rm_playerId m), writeUint16 (rm_killerId m),
     writeGameType (ne_game e) (rm_role m), writeBoolean (rm_assigned m), writeBoolean (rm_killed m)]"

definition deser_role :: "net_env \<Rightarrow> string option role_msg bs" where
  "deser_role e =
     bindE readUint16 (\<lambda>pid. bindE readUint16 (\<lambda>kid. bindE (readGameType (ne_game e)) (\<lambda>r.
     bindE readBoolean (\<lambda>a. bindE readBoolean (\<lambda>k.
     ret \<lparr>rm_playerId = pid, rm_killerId = kid, rm_role = r, rm_assigned = a, rm_killed = k\<rparr>)))))"

record 't kill_msg =
  kl_damageType :: int
  kl_itemSourceType :: 't
  kl_mapSourceType :: 't
  kl_targetId :: int
  kl_killerId :: int
  kl_killCreditId :: int
  kl_killerKills :: int
  kl_downed :: bool
  kl_killed :: bool

definition ser_kill :: "net_env \<Rightarrow> string kill_msg \<Rightarrow> unit bs" where
  "ser_kill e m = seqE [writeUint8 (kl_damageType m), writeGameType (ne_game e) (kl_itemSourceType m),
     writeMapType (ne_map e) (kl_mapSourceType m), writeUint16 (kl_targetId m), writeUint16 (kl_killerId m),
     writeUint16 (kl_killCreditId m), writeUint8 (kl_killerKills m), writeBoolean (kl_downed m),
     writeBoolean (kl_killed m)]"

definition deser_kill :: "net_env \<Rightarrow> string option kill_msg bs" where
  "deser_kill e =
     bindE readUint8 (\<lambda>dt. bindE (readGameType (ne_game e)) (\<lambda>item. bindE (readMapType (ne_map e)) (\<lambda>mapt.
     bindE readUint16 (\<lambda>target. bindE readUint16 (\<lambda>killer. bindE readUint16 (\<lambda>credit. bindE readUint8 (\<lambda>kills.
     bindE readBoolean (\<lambda>downed. bindE readBoolean (\<lambda>killed.
     ret \<lparr>kl_damageType = dt, kl_itemSourceType = item, kl_mapSourceType = mapt, kl_targetId = target,
          kl_killerId = killer, kl_killCreditId = credit, kl_killerKills = kills, kl_downed = downed,
          kl_killed = killed\<rparr>)))))))))"

section \<open>Statistics\<close>

record 'b player_stats =
  ps_playerId :: int
  ps_timeAlive :: rat
  ps_kills :: int
  ps_dead :: 'b
  ps_damageDealt :: rat
  ps_damageTaken :: rat

text \<open>Writing a number strips its decimals; the damage is rounded first.\<close>

definition ser_player_stats :: "bool player_stats \<Rightarrow> unit bs" where
  "ser_player_stats m = seqE [writeUint16 (ps_playerId m), writeNum 16 (Num (ps_timeAlive m)),
     writeUint8 (ps_kills m), writeUint8 (if ps_dead m then 1 else 0),
     writeUint16 (js_round (ps_damageDealt m)), writeUint16 (js_round (ps_damageTaken m))]"

definition deser_player_stats :: "int player_stats bs" where
  "deser_player_stats =
     bindE readUint16 (\<lambda>pid. bindE readUint16 (\<lambda>time. bindE readUint8 (\<lambda>kills. bindE readUint8 (\<lambda>dead.
     bindE readUint16 (\<lambda>dealt. bindE readUint16 (\<lambda>taken.
     ret \<lparr>ps_playerId = pid, ps_timeAlive = of_int time, ps_kills = kills, ps_dead = dead,
          ps_damageDealt = of_int dealt, ps_damageTaken = of_int taken\<rparr>))))))"

record 'b game_over_msg =
  go_teamId :: int
  go_teamRank :: int
  go_gameOver :: 'b
  go_winningTeamId :: int
  go_playerStats :: "'b player_stats list"

definition ser_game_over :: "bool game_over_msg \<Rightarrow> unit bs" where
  "ser_game_over m = seqE [writeUint8 (go_teamId m), writeUint8 (go_teamRank m),
     writeUint8 (if go_gameOver m then 1 else 0), writeUint8 (go_winningTeamId m),
     writeArray (go_playerStats m) 8 ser_player_stats]"

definition deser_game_over :: "int game_over_msg bs" where
  "deser_game_over =
     bindE readUint8 (\<lambda>team. bindE readUint8 (\<lambda>rank. bindE readUint8 (\<lambda>over. bindE readUint8 (\<lambda>win.
     bindE (readArray 8 deser_player_stats) (\<lambda>stats.
     ret \<lparr>go_teamId = team, go_teamRank = rank, go_gameOver = over, go_winningTeamId = win,
          go_playerStats = stats\<rparr>)))))"

section \<open>Input\<close>

record 't input_msg =
  in_seq :: int
  in_moveLeft :: bool
  in_moveRight :: bool
  in_moveUp :: bool
  in_moveDown :: bool
  in_shootStart :: bool
  in_shootHold :: bool
  in_portrait :: bool
  in_touchMoveActive :: bool
  in_touchMoveDir :: vec2
  in_touchMoveLen :: int
  in_toMouseDir :: vec2
  in_toMouseLen :: jsnum
  in_inputs :: "int list"
  in_useItem :: 't

definition addInput :: "int \<Rightarrow> 't input_msg \<Rightarrow> 't input_msg" where
  "addInput i m = (if length (in_inputs m) < 7 \<and> i \<notin> set (in_inputs m)
                   then m\<lparr>in_inputs := in_inputs m @ [i]\<rparr> else m)"

definition MouseMaxDist :: rat where
  "MouseMaxDist = 64"

definition ser_input :: "net_env \<Rightarrow> string input_msg \<Rightarrow> unit bs" where
  "ser_input e m = seqE [writeUint8 (in_seq m), writeBoolean (in_moveLeft m), writeBoolean (in_moveRight m),
     writeBoolean (in_moveUp m), writeBoolean (in_moveDown m), writeBoolean (in_shootStart m),
     writeBoolean (in_shootHold m), writeBoolean (in_portrait m), writeBoolean (in_touchMoveActive m),
     (if in_touchMoveActive m then thenE (writeUnitVec (in_touchMoveDir m) 8) (writeUint8 (in_touchMoveLen m))
      else ret ()),
     writeUnitVec (in_toMouseDir m) 10, writeFloat (in_toMouseLen m) 0 MouseMaxDist 8,
     writeArray (in_inputs m) 4 writeUint8, writeGameType (ne_game e) (in_useItem m)]"

text \<open>The fields of a fresh message that are not on the wire keep their initial values.\<close>

definition touch_defaults :: "vec2 \<times> int" where
  "touch_defaults = (\<lparr>vx = js_int 1, vy = js_int 0\<rparr>, 255)"

definition deser_input :: "net_env \<Rightarrow> string option input_msg bs" where
  "deser_input e =
     bindE readUint8 (\<lambda>sq. bindE readBoolean (\<lambda>l. bindE readBoolean (\<lambda>r. bindE readBoolean (\<lambda>u.
     bindE readBoolean (\<lambda>d. bindE readBoolean (\<lambda>ss. bindE readBoolean (\<lambda>sh. bindE readBoolean (\<lambda>p.
     bindE readBoolean (\<lambda>touch.
     bindE (if touch then bindE (readUnitVec 8) (\<lambda>v. bindE readUint8 (\<lambda>n. ret (v, n)))
            else ret touch_defaults) (\<lambda>t.
     bindE (readUnitVec 10) (\<lambda>dir. bindE (readFloat 0 MouseMaxDist 8) (\<lambda>n.
     bindE (readArray 4 readUint8) (\<lambda>inputs. bindE (readGameType (ne_game e)) (\<lambda>item.
     ret \<lparr>in_seq = sq, in_moveLeft = l, in_moveRight = r, in_moveUp = u, in_moveDown = d, in_shootStart = ss,
          in_shootHold = sh, in_portrait = p, in_touchMoveActive = touch, in_touchMoveDir = fst t,
          in_touchMoveLen = snd t, in_toMouseDir = dir, in_toMouseLen = n, in_inputs = inputs,
          in_useItem = item\<rparr>))))))))))))))"

section \<open>Join\<close>

record 't loadout =
  lo_outfit :: 't
  lo_melee :: 't
  lo_heal :: 't
  lo_boost :: 't
  lo_emotes :: "'t list"

record 't join_msg =
  jn_protocol :: int
  jn_matchPriv :: js_str
  jn_name :: js_str
  jn_useTouch :: bool
  jn_isMobile :: bool
  jn_bot :: bool
  jn_loadout :: "'t loadout"

definition PlayerNameMaxLen :: nat where
  "PlayerNameMaxLen = 16"

definition ser_join :: "net_env \<Rightarrow> string join_msg \<Rightarrow> unit bs" where
  "ser_join e m = (let g = writeGameType (ne_game e); lo = jn_loadout m in
     seqE [writeUint32 (jn_protocol m), writeASCIIString (jn_matchPriv m) None,
       writeASCIIString (jn_name m) (Some PlayerNameMaxLen), writeBoolean (jn_useTouch m),
       writeBoolean (jn_isMobile m), writeBoolean (jn_bot m), g (lo_outfit lo), g (lo_melee lo),
       g (lo_heal lo), g (lo_boost lo), writeArray (lo_emotes lo) 8 g])"

definition deser_join :: "net_env \<Rightarrow> string option join_msg bs" where
  "deser_join e = (let g = readGameType (ne_game e) in
     bindE readUint32 (\<lambda>protocol. bindE (readASCIIString None) (\<lambda>priv.
     bindE (readASCIIString (Some PlayerNameMaxLen)) (\<lambda>name. bindE readBoolean (\<lambda>touch.
     bindE readBoolean (\<lambda>mobile. bindE readBoolean (\<lambda>bot. bindE g (\<lambda>outfit. bindE g (\<lambda>melee.
     bindE g (\<lambda>heal. bindE g (\<lambda>boost. bindE (readArray 8 g) (\<lambda>emotes.
     ret \<lparr>jn_protocol = protocol, jn_matchPriv = priv, jn_name = name, jn_useTouch = touch,
          jn_isMobile = mobile, jn_bot = bot,
          jn_loadout = \<lparr>lo_outfit = outfit, lo_melee = melee, lo_heal = heal, lo_boost = boost,
                        lo_emotes = emotes\<rparr>\<rparr>))))))))))))"

end
