(* ===== verification/NetMessageFacts.thy ===== *)
theory NetMessageFacts
  imports NetMessages
begin

text \<open>
  Every message of \<open>NetMessages\<close> as an interpretation of \<open>codec\<close>: which messages the format
  can carry (\<open>valid\<close>), and what the receiver sees of them (\<open>seen\<close>).
\<close>

section \<open>Fields\<close>

definition byte :: "int \<Rightarrow> bool" where
  "byte x = (0 \<le> x \<and> x < 256)"

definition short :: "int \<Rightarrow> bool" where
  "short x = (0 \<le> x \<and> x < 65536)"

lemma byte_flags [simp]: "byte 0" "byte 1"
  by (simp_all add: byte_def)

definition game_type :: "net_env \<Rightarrow> string \<Rightarrow> bool" where
  "game_type e t = knows (ne_game e) 10 t"

definition map_type :: "net_env \<Rightarrow> string \<Rightarrow> bool" where
  "map_type e t = knows (ne_map e) 12 t"

lemma transmits_byte [codecs]: "byte x \<Longrightarrow> transmits (writeUint8 x) readUint8 x"
  by (simp add: byte_def transmits_uint8)

lemma transmits_short [codecs]: "short x \<Longrightarrow> transmits (writeUint16 x) readUint16 x"
  by (simp add: short_def transmits_uint16)

lemma transmits_game [codecs]:
  "game_type e t \<Longrightarrow> transmits (writeGameType (ne_game e) t) (readGameType (ne_game e)) (Some t)"
  by (simp add: game_type_def transmits_game_type)

lemma transmits_map [codecs]:
  "map_type e t \<Longrightarrow> transmits (writeMapType (ne_map e) t) (readMapType (ne_map e)) (Some t)"
  by (simp add: map_type_def transmits_map_type)

lemma transmits_flag [codecs]: "transmits (writeUint8 (if b then 1 else 0)) readUint8 (if b then 1 else 0)"
  by (cases b) (simp_all add: transmits_uint8)

text \<open>A reader that drops the value it read.\<close>

lemma transmits_drop: "transmits w r a \<Longrightarrow> transmits w (bindE r (\<lambda>_. ret b)) b"
  by (rule transmits_last) simp_all

interpretation byte_codec: codec writeUint8 readUint8 byte "\<lambda>x. x"
  by unfold_locales (rule transmits_byte)

interpretation game_codec: codec "writeGameType (ne_game e)" "readGameType (ne_game e)" "game_type e" Some for e
  by unfold_locales (rule transmits_game)

lemma bytes_array [codecs]:
  "\<forall>x \<in> set xs. byte x \<Longrightarrow> length xs < 2 ^ bits \<Longrightarrow> 0 < bits \<Longrightarrow> bits < 31
   \<Longrightarrow> transmits (writeArray xs bits writeUint8) (readArray bits readUint8) xs"
  using byte_codec.array [of xs bits] by simp

lemmas type_array [codecs] = game_codec.array

section \<open>Messages\<close>

interpretation alive_counts: codec ser_alive_counts deser_alive_counts
    "\<lambda>cs. (\<forall>c \<in> set cs. byte c) \<and> length cs < 256" "\<lambda>cs. cs"
  by unfold_locales (auto simp: ser_alive_counts_def deser_alive_counts_def intro: bytes_array)

interpretation disconnect: codec ser_disconnect deser_disconnect plain_text "\<lambda>x. x"
  by unfold_locales (simp add: ser_disconnect_def deser_disconnect_def transmits_string)

interpretation spectate: codec ser_spectate deser_spectate byte "\<lambda>x. x"
  by unfold_locales (simp add: ser_spectate_def deser_spectate_def transmits_byte)

definition valid_drop_item where
  "valid_drop_item e m = (game_type e (di_item m) \<and> byte (di_weapIdx m))"

definition seen_drop_item :: "string drop_item_msg \<Rightarrow> string option drop_item_msg" where
  "seen_drop_item m = \<lparr>di_item = Some (di_item m), di_weapIdx = di_weapIdx m\<rparr>"

interpretation drop_item: codec "ser_drop_item e" "deser_drop_item e" "valid_drop_item e" seen_drop_item for e
  by unfold_locales
    (auto simp: ser_drop_item_def deser_drop_item_def valid_drop_item_def seen_drop_item_def
      intro!: transmits_seq [OF transmits_game] transmits_last [OF transmits_byte])

definition valid_emote where
  "valid_emote e m = (vec_in 0 0 1024 1024 (em_pos m) \<and> game_type e (em_type m))"

definition seen_emote :: "string emote_msg \<Rightarrow> string option emote_msg" where
  "seen_emote m = \<lparr>em_pos = quantize_vec 0 0 1024 1024 16 (em_pos m), em_type = Some (em_type m),
                   em_isPing = em_isPing m\<rparr>"

interpretation emote: codec "ser_emote e" "deser_emote e" "valid_emote e" seen_emote for e
  by unfold_locales
    (auto simp: ser_emote_def deser_emote_def valid_emote_def seen_emote_def
      intro!: transmits_seq [OF transmits_vec] transmits_seq [OF transmits_game] transmits_last [OF transmits_bool])

definition seen_perk_role :: "string perk_role_msg \<Rightarrow> string option perk_role_msg" where
  "seen_perk_role m = \<lparr>pr_role = Some (pr_role m)\<rparr>"

interpretation perk_role: codec "ser_perk_role e" "deser_perk_role e" "\<lambda>m. game_type e (pr_role m)" seen_perk_role for e
  by unfold_locales
    (auto simp: ser_perk_role_def deser_perk_role_def seen_perk_role_def
      intro!: transmits_seq [OF transmits_game] transmits_drop [OF transmits_bits])

definition valid_pickup where
  "valid_pickup e m = (byte (pk_type m) \<and> game_type e (pk_item m) \<and> byte (pk_count m))"

definition seen_pickup :: "string pickup_msg \<Rightarrow> string option pickup_msg" where
  "seen_pickup m = \<lparr>pk_type = pk_type m, pk_item = Some (pk_item m), pk_count = pk_count m\<rparr>"

interpretation pickup: codec "ser_pickup e" "deser_pickup e" "valid_pickup e" seen_pickup for e
  by unfold_locales
    (auto simp: ser_pickup_def deser_pickup_def valid_pickup_def seen_pickup_def
      intro!: transmits_seq [OF transmits_byte] transmits_seq [OF transmits_game] transmits_last [OF transmits_byte])

definition valid_joined where
  "valid_joined e m = (byte (jd_teamMode m) \<and> short (jd_playerId m) \<and> (\<forall>t \<in> set (jd_emotes m). game_type e t)
     \<and> length (jd_emotes m) < 256)"

definition seen_joined :: "string joined_msg \<Rightarrow> string option joined_msg" where
  "seen_joined m = \<lparr>jd_teamMode = jd_teamMode m, jd_playerId = jd_playerId m, jd_started = jd_started m,
                    jd_emotes = map Some (jd_emotes m)\<rparr>"

interpretation joined: codec "ser_joined e" "deser_joined e" "valid_joined e" seen_joined for e
  by unfold_locales
    (auto simp: ser_joined_def deser_joined_def valid_joined_def seen_joined_def
      intro!: transmits_seq [OF transmits_byte] transmits_seq [OF transmits_short] transmits_seq [OF transmits_bool]
        transmits_last [OF type_array])

definition valid_role where
  "valid_role e m = (short (rm_playerId m) \<and> short (rm_killerId m) \<and> game_type e (rm_role m))"

definition seen_role :: "string role_msg \<Rightarrow> string option role_msg" where
  "seen_role m = \<lparr>rm_playerId = rm_playerId m, rm_killerId = rm_killerId m, rm_role = Some (rm_role m),
                  rm_assigned = rm_assigned m, rm_killed = rm_killed m\<rparr>"

interpretation role: codec "ser_role e" "deser_role e" "valid_role e" seen_role for e
  by unfold_locales
    (auto simp: ser_role_def deser_role_def valid_role_def seen_role_def
      intro!: transmits_seq [OF transmits_short] transmits_seq [OF transmits_game] transmits_seq [OF transmits_bool]
        transmits_last [OF transmits_bool])

definition valid_kill where
  "valid_kill e m = (byte (kl_damageType m) \<and> game_type e (kl_itemSourceType m) \<and> map_type e (kl_mapSourceType m)
     \<and> short (kl_targetId m) \<and> short (kl_killerId m) \<and> short (kl_killCreditId m) \<and> byte (kl_killerKills m))"

definition seen_kill :: "string kill_msg \<Rightarrow> string option kill_msg" where
  "seen_kill m = \<lparr>kl_damageType = kl_damageType m, kl_itemSourceType = Some (kl_itemSourceType m),
     kl_mapSourceType = Some (kl_mapSourceType m), kl_targetId = kl_targetId m, kl_killerId = kl_killerId m,
     kl_killCreditId = kl_killCreditId m, kl_killerKills = kl_killerKills m, kl_downed = kl_downed m,
     kl_killed = kl_killed m\<rparr>"

interpretation kill: codec "ser_kill e" "deser_kill e" "valid_kill e" seen_kill for e
  by unfold_locales
    (auto simp: ser_kill_def deser_kill_def valid_kill_def seen_kill_def
      intro!: transmits_seq [OF transmits_byte] transmits_seq [OF transmits_game] transmits_seq [OF transmits_map]
        transmits_seq [OF transmits_short] transmits_seq [OF transmits_bool] transmits_last [OF transmits_bool])

section \<open>Statistics\<close>

definition valid_player_stats :: "bool player_stats \<Rightarrow> bool" where
  "valid_player_stats m = (short (ps_playerId m) \<and> short (js_trunc (ps_timeAlive m)) \<and> byte (ps_kills m)
     \<and> short (js_round (ps_damageDealt m)) \<and> short (js_round (ps_damageTaken m)))"

definition number_of :: "bool \<Rightarrow> int" where
  "number_of b = (if b then 1 else 0)"

text \<open>Whole seconds, whole damage, and numbers for flags.\<close>

definition seen_player_stats :: "bool player_stats \<Rightarrow> int player_stats" where
  "seen_player_stats m = \<lparr>ps_playerId = ps_playerId m, ps_timeAlive = of_int (js_trunc (ps_timeAlive m)),
     ps_kills = ps_kills m, ps_dead = number_of (ps_dead m),
     ps_damageDealt = of_int (js_round (ps_damageDealt m)),
     ps_damageTaken = of_int (js_round (ps_damageTaken m))\<rparr>"

lemma transmits_trunc:
  assumes "short (js_trunc q)"
  shows "transmits (writeNum 16 (Num q)) readUint16 (js_trunc q)"
proof -
  have "writeNum 16 (Num q) = writeUint16 (js_trunc q)"
    by (simp add: writeNum_def writeUint16_def writeInt_def writeBits_def)
  then show ?thesis using assms by (simp add: transmits_short)
qed

interpretation player_stats: codec ser_player_stats deser_player_stats valid_player_stats seen_player_stats
  by unfold_locales
    (auto simp: ser_player_stats_def deser_player_stats_def valid_player_stats_def seen_player_stats_def number_of_def
      intro!: transmits_seq [OF transmits_trunc] transmits_seq [OF transmits_flag] transmits_seq [OF transmits_short]
        transmits_seq [OF transmits_byte] transmits_last [OF transmits_short]
        transmits_seq [OF transmits_uint8 [of 0]] transmits_seq [OF transmits_uint8 [of 1]])

definition valid_game_over :: "bool game_over_msg \<Rightarrow> bool" where
  "valid_game_over m = (byte (go_teamId m) \<and> byte (go_teamRank m) \<and> byte (go_winningTeamId m)
     \<and> (\<forall>p \<in> set (go_playerStats m). valid_player_stats p) \<and> length (go_playerStats m) < 256)"

definition seen_game_over :: "bool game_over_msg \<Rightarrow> int game_over_msg" where
  "seen_game_over m = \<lparr>go_teamId = go_teamId m, go_teamRank = go_teamRank m,
     go_gameOver = number_of (go_gameOver m), go_winningTeamId = go_winningTeamId m,
     go_playerStats = map seen_player_stats (go_playerStats m)\<rparr>"

interpretation game_over: codec ser_game_over deser_game_over valid_game_over seen_game_over
  by unfold_locales
    (auto simp: ser_game_over_def deser_game_over_def valid_game_over_def seen_game_over_def number_of_def
      intro!: transmits_seq [OF transmits_byte] transmits_seq [OF transmits_flag]
        transmits_last [OF player_stats.array]
        transmits_seq [OF transmits_uint8 [of 0]] transmits_seq [OF transmits_uint8 [of 1]])

section \<open>Input\<close>

definition valid_input :: "net_env \<Rightarrow> string input_msg \<Rightarrow> bool" where
  "valid_input e m = (byte (in_seq m) \<and> (if in_touchMoveActive m then unit_like (in_touchMoveDir m)
       \<and> byte (in_touchMoveLen m) else True) \<and> unit_like (in_toMouseDir m)
     \<and> in_range 0 MouseMaxDist (in_toMouseLen m) \<and> (\<forall>i \<in> set (in_inputs m). byte i)
     \<and> length (in_inputs m) < 16 \<and> game_type e (in_useItem m))"

definition seen_touch :: "'t input_msg \<Rightarrow> vec2 \<times> int" where
  "seen_touch m = (if in_touchMoveActive m then (quantize_unit 8 (in_touchMoveDir m), in_touchMoveLen m)
                   else touch_defaults)"

definition seen_input :: "string input_msg \<Rightarrow> string option input_msg" where
  "seen_input m = \<lparr>in_seq = in_seq m, in_moveLeft = in_moveLeft m, in_moveRight = in_moveRight m,
     in_moveUp = in_moveUp m, in_moveDown = in_moveDown m, in_shootStart = in_shootStart m,
     in_shootHold = in_shootHold m, in_portrait = in_portrait m, in_touchMoveActive = in_touchMoveActive m,
     in_touchMoveDir = fst (seen_touch m), in_touchMoveLen = snd (seen_touch m),
     in_toMouseDir = quantize_unit 10 (in_toMouseDir m),
     in_toMouseLen = quantizeN 0 MouseMaxDist 8 (in_toMouseLen m), in_inputs = in_inputs m,
     in_useItem = Some (in_useItem m)\<rparr>"

lemma transmits_touch:
  assumes "valid_input e m"
  shows "transmits (if in_touchMoveActive m then thenE (writeUnitVec (in_touchMoveDir m) 8) (writeUint8 (in_touchMoveLen m))
                    else ret ())
     (if in_touchMoveActive m then bindE (readUnitVec 8) (\<lambda>v. bindE readUint8 (\<lambda>n. ret (v, n)))
      else ret touch_defaults) (seen_touch m)"
  using assms
  by (auto simp: valid_input_def seen_touch_def transmits_ret
      intro!: transmits_seq [OF transmits_unit_vec] transmits_last [OF transmits_byte])

interpretation input: codec "ser_input e" "deser_input e" "valid_input e" seen_input for e
proof
  fix m :: "string input_msg" assume v: "valid_input e m"
  then show "transmits (ser_input e m) (deser_input e) (seen_input m)"
    unfolding ser_input_def deser_input_def seqE.simps
    by (intro transmits_seq [OF transmits_byte] transmits_seq [OF transmits_bool] transmits_seq [OF transmits_touch [of e]]
        transmits_seq [OF transmits_unit_vec] transmits_seq [OF transmits_float] transmits_seq [OF bytes_array]
        transmits_last [OF transmits_game [of e]])
      (simp_all add: valid_input_def seen_input_def MouseMaxDist_def)
qed

section \<open>Join\<close>

definition loadout_types :: "'t loadout \<Rightarrow> 't list" where
  "loadout_types lo = [lo_outfit lo, lo_melee lo, lo_heal lo, lo_boost lo] @ lo_emotes lo"

definition valid_join :: "net_env \<Rightarrow> string join_msg \<Rightarrow> bool" where
  "valid_join e m = (0 \<le> jn_protocol m \<and> jn_protocol m < 4294967296 \<and> plain_text (jn_matchPriv m)
     \<and> plain_text (jn_name m) \<and> (\<forall>t \<in> set (loadout_types (jn_loadout m)). game_type e t)
     \<and> length (lo_emotes (jn_loadout m)) < 256)"

text \<open>A name arrives cut to sixteen characters.\<close>

definition seen_join :: "string join_msg \<Rightarrow> string option join_msg" where
  "seen_join m = (let lo = jn_loadout m in
     \<lparr>jn_protocol = jn_protocol m, jn_matchPriv = jn_matchPriv m, jn_name = take PlayerNameMaxLen (jn_name m),
      jn_useTouch = jn_useTouch m, jn_isMobile = jn_isMobile m, jn_bot = jn_bot m,
      jn_loadout = \<lparr>lo_outfit = Some (lo_outfit lo), lo_melee = Some (lo_melee lo), lo_heal = Some (lo_heal lo),
                    lo_boost = Some (lo_boost lo), lo_emotes = map Some (lo_emotes lo)\<rparr>\<rparr>)"

interpretation join: codec "ser_join e" "deser_join e" "valid_join e" seen_join for e
proof
  fix m :: "string join_msg" assume v: "valid_join e m"
  then show "transmits (ser_join e m) (deser_join e) (seen_join m)"
    unfolding ser_join_def deser_join_def seqE.simps Let_def
    by (intro transmits_seq [OF transmits_uint32] transmits_seq [OF transmits_string]
        transmits_seq [OF transmits_fixed_string] transmits_seq [OF transmits_bool] transmits_seq [OF transmits_game]
        transmits_last [OF type_array])
      (simp_all add: valid_join_def seen_join_def Let_def loadout_types_def PlayerNameMaxLen_def)
qed

end
