(* ===== verification/BitFrames.thy ===== *)
theory BitFrames
  imports NetStreamFacts
begin

text \<open>
  Where in a byte a part of a message starts and ends.  \<open>writeBytes\<close>, the cached object streams
  and the flags of an update work on whole bytes only, so their correctness needs the positions
  the parts leave the stream at: \<open>carries A B w r a\<close> is \<open>transmits w r a\<close> for streams at an
  offset of \<open>A\<close>, and leaves them at an offset of \<open>B\<close>.
\<close>

section \<open>Offsets\<close>

definition offset_of :: "bitstream \<Rightarrow> nat" where
  "offset_of s = bs_index s mod 8"

definition carries :: "nat set \<Rightarrow> nat set \<Rightarrow> unit bs \<Rightarrow> 'a bs \<Rightarrow> 'a \<Rightarrow> bool" where
  "carries A B w r a = (\<exists>f.
     (\<forall>i \<in> A. (i + length (f i)) mod 8 \<in> B)
     \<and> (\<forall>s. writable s \<longrightarrow> offset_of s \<in> A \<longrightarrow> wrote w s (f (offset_of s)))
     \<and> (\<forall>s. bs_start s = 0 \<longrightarrow> offset_of s \<in> A \<longrightarrow> got r s (f (offset_of s)) a))"

lemma carries_seq:
  assumes 1: "carries A B w r a" and 2: "carries B C w' (r' a) b"
  shows "carries A C (thenE w w') (bindE r r') b"
proof -
  obtain f where f: "\<forall>i \<in> A. (i + length (f i)) mod 8 \<in> B"
      "\<And>s. writable s \<Longrightarrow> offset_of s \<in> A \<Longrightarrow> wrote w s (f (offset_of s))"
      "\<And>s. bs_start s = 0 \<Longrightarrow> offset_of s \<in> A \<Longrightarrow> got r s (f (offset_of s)) a"
    using 1 by (auto simp: carries_def)
  obtain g where g: "\<forall>i \<in> B. (i + length (g i)) mod 8 \<in> C"
      "\<And>s. writable s \<Longrightarrow> offset_of s \<in> B \<Longrightarrow> wrote w' s (g (offset_of s))"
      "\<And>s. bs_start s = 0 \<Longrightarrow> offset_of s \<in> B \<Longrightarrow> got (r' a) s (g (offset_of s)) b"
    using 2 by (auto simp: carries_def)
  have next_offset: "offset_of s1 = (offset_of s + n) mod 8" if "bs_index s1 = bs_index s + n" for s1 s :: bitstream and n
    using that by (simp add: offset_of_def mod_add_left_eq)
  show ?thesis
    unfolding carries_def
  proof (intro exI [of _ "seq_bits f g"] conjI allI ballI impI)
    fix i assume i: "i \<in> A"
    have "((i + length (f i)) mod 8 + length (g ((i + length (f i)) mod 8))) mod 8 \<in> C"
      using f(1) g(1) i by blast
    then show "(i + length (seq_bits f g i)) mod 8 \<in> C"
      by (simp add: seq_bits_def mod_add_left_eq add.assoc)
  next
    fix s assume s: "writable s" "offset_of s \<in> A"
    show "wrote (thenE w w') s (seq_bits f g (offset_of s))"
      unfolding seq_bits_def
    proof (rule wrote_thenE [OF s(1) f(2) [OF s]])
      fix s1 assume "writable s1" and i: "bs_index s1 = bs_index s + length (f (offset_of s))"
      then show "wrote w' s1 (g ((offset_of s + length (f (offset_of s))) mod 8))"
        using g(2) [of s1] next_offset [OF i] f(1) s(2) by simp
    qed
  next
    fix s assume s: "bs_start s = 0" "offset_of s \<in> A"
    let ?s = "s\<lparr>bs_index := bs_index s + length (f (offset_of s))\<rparr>"
    have "offset_of ?s = (offset_of s + length (f (offset_of s))) mod 8" by (rule next_offset) simp
    then show "got (bindE r r') s (seq_bits f g (offset_of s)) b"
      unfolding seq_bits_def using f(3) [OF s] g(3) [of ?s] s f(1) by (auto intro!: got_bindE)
  qed
qed

lemma carries_mono: "carries A B w r a \<Longrightarrow> B \<subseteq> B' \<Longrightarrow> carries A B' w r a"
  unfolding carries_def by blast

lemma carries_sub: "carries A B w r a \<Longrightarrow> A' \<subseteq> A \<Longrightarrow> carries A' B w r a"
  unfolding carries_def by (elim exE conjE) (meson subsetD)

lemma transmits_carries: "transmits w r a \<Longrightarrow> carries A UNIV w r a"
  unfolding transmits_def carries_def writes_def reads_def offset_of_def by blast

lemma carries_transmits: "carries UNIV B w r a \<Longrightarrow> transmits w r a"
  unfolding transmits_def carries_def writes_def reads_def offset_of_def by blast

lemma carries_ret: "carries {0} {0} (ret ()) (ret a) a"
  unfolding carries_def wrote_def got_def
  by (rule exI [of _ "\<lambda>_. []"]) (auto simp: ret_def writable_def offset_of_def patched_def
      intro!: exI [of _ "bs_view _"])

lemma carries_last:
  assumes "carries A B w r a" and "b = g a"
  shows "carries A B w (bindE r (\<lambda>x. ret (g x))) b"
proof -
  obtain f where f: "\<forall>i \<in> A. (i + length (f i)) mod 8 \<in> B"
      "\<forall>s. writable s \<longrightarrow> offset_of s \<in> A \<longrightarrow> wrote w s (f (offset_of s))"
      "\<forall>s. bs_start s = 0 \<longrightarrow> offset_of s \<in> A \<longrightarrow> got r s (f (offset_of s)) a"
    using assms(1) by (auto simp: carries_def)
  have "got (bindE r (\<lambda>x. ret (g x))) s bs b" if "got r s bs a" for s bs
    using that assms(2) by (simp add: got_def bindE_def ret_def)
  then show ?thesis using f unfolding carries_def by blast
qed

section \<open>Sizes\<close>

text \<open>A writer of fixed size.\<close>

definition sized :: "nat \<Rightarrow> unit bs \<Rightarrow> bool" where
  "sized n w = (\<forall>s s'. w s = (Inr (), s') \<longrightarrow> bs_index s' = bs_index s + n)"

named_theorems sizes \<open>sizes of writers\<close>

lemma sized_ret [sizes]: "sized 0 (ret ())"
  by (simp add: sized_def ret_def)

lemma sized_thenE: "sized m w \<Longrightarrow> sized n w' \<Longrightarrow> sized (m + n) (thenE w w')"
  unfolding sized_def thenE_def bindE_def by (auto split: prod.splits sum.splits)

lemma sized_writeBits: "sized n (writeBits x n)"
  by (auto simp: sized_def writeBits_def split: sum.splits)

lemma sized_uint8 [sizes]: "sized 8 (writeUint8 x)"
  unfolding writeUint8_def writeInt_def by (rule sized_writeBits)

lemma sized_uint16 [sizes]: "sized 16 (writeUint16 x)"
  unfolding writeUint16_def writeInt_def by (rule sized_writeBits)

lemma sized_uint32 [sizes]: "sized 32 (writeUint32 x)"
  unfolding writeUint32_def writeInt_def by (rule sized_writeBits)

lemma sized_bool [sizes]: "sized 1 (writeBoolean b)"
  unfolding writeBoolean_def by (rule sized_writeBits)

lemma sized_assert: "sized n w \<Longrightarrow> sized n (thenE (assertE b m) w)"
  by (cases b) (simp_all add: sized_def thenE_def assertE_def guardE_def bindE_def throwE_def ret_def)

lemma sized_float [sizes]: "sized bits (writeFloat x lo hi bits)"
  unfolding writeFloat_def Let_def by (intro sized_assert sized_writeBits)

lemma sized_vec: "sized (bits + bits) (writeVec v a b c d bits)"
  unfolding writeVec_def by (intro sized_thenE sized_float)

lemma sized_map_pos [sizes]: "sized (bits + bits) (writeMapPos v bits)"
  unfolding writeMapPos_def by (rule sized_vec)

lemma sized_unit_vec [sizes]: "sized (bits + bits) (writeUnitVec v bits)"
  unfolding writeUnitVec_def by (rule sized_vec)

lemma sized_carries:
  assumes t: "transmits w r a" and n: "sized n w" and k: "k < 8"
  shows "carries {k} {(k + n) mod 8} w r a"
proof -
  obtain f where f: "writes w f" "reads r f a" using t by (auto simp: transmits_def)
  have "length (f k) = n"
  proof -
    let ?s = "\<lparr>bs_view = replicate (k + length (f k)) 0, bs_index = k, bs_start = 0, bs_length = 0\<rparr>"
    have "writable ?s" by (simp add: writable_def)
    with f(1) have "wrote w ?s (f k)" unfolding writes_def using k by fastforce
    then obtain s' where "w ?s = (Inr (), s')" "bs_index s' = k + length (f k)"
      by (cases "w ?s") (auto simp: wrote_def split: sum.splits)
    then show ?thesis using n by (auto simp: sized_def)
  qed
  then show ?thesis
    using f k unfolding carries_def writes_def reads_def offset_of_def by (intro exI [of _ f]) auto
qed

text \<open>Whole bytes keep the offset.\<close>

lemma bytes_carries: "transmits w r a \<Longrightarrow> sized n w \<Longrightarrow> n mod 8 = 0 \<Longrightarrow> carries {0} {0} w r a"
  using sized_carries [of w r a n 0] by simp

lemma carries_uint8: "0 \<le> x \<Longrightarrow> x < 256 \<Longrightarrow> carries {0} {0} (writeUint8 x) readUint8 x"
  by (rule bytes_carries [OF transmits_uint8 sized_uint8]) simp_all

lemma carries_uint16: "0 \<le> x \<Longrightarrow> x < 65536 \<Longrightarrow> carries {0} {0} (writeUint16 x) readUint16 x"
  by (rule bytes_carries [OF transmits_uint16 sized_uint16]) simp_all

section \<open>Alignment\<close>

lemma aligned_length: "i < 8 \<Longrightarrow> (i + length (pad_bits i)) mod 8 = 0"
  by (auto simp: pad_bits_def)

lemma carries_align: "carries UNIV {0} writeAlignToNextByte readAlignToNextByte ()"
proof -
  let ?f = "\<lambda>i. pad_bits (i mod 8)"
  have "(i + length (?f i)) mod 8 = 0" for i
    using aligned_length [of "i mod 8"] by (simp add: mod_add_left_eq)
  then show ?thesis
    using align_bits unfolding carries_def writes_def reads_def offset_of_def by (intro exI [of _ ?f]) simp
qed

text \<open>What ends with an alignment starts and ends on whole bytes.\<close>

lemma framed:
  "transmits w r a \<Longrightarrow> carries A {0} (thenE w writeAlignToNextByte) (bindE r (\<lambda>x. thenE readAlignToNextByte (ret (g x)))) (g a)"
proof (rule carries_seq [OF transmits_carries])
  show "carries UNIV {0} writeAlignToNextByte (thenE readAlignToNextByte (ret (g a))) (g a)"
    unfolding thenE_def by (rule carries_last [OF carries_align, where g = "\<lambda>_. g a"]) simp
qed assumption

section \<open>Frames\<close>

text \<open>
  A part of a message that starts and ends on whole bytes.  Arrays of such parts have a count of
  whole bytes, too.
\<close>

locale frame =
  fixes enc :: "'a \<Rightarrow> unit bs" and dec :: "'b bs" and valid :: "'a \<Rightarrow> bool" and seen :: "'a \<Rightarrow> 'b"
  assumes fits: "valid a \<Longrightarrow> carries {0} {0} (enc a) dec (seen a)"
begin

lemma elements: "\<forall>a \<in> set xs. valid a \<Longrightarrow> carries {0} {0} (forE xs enc) (repeatE (length xs) dec) (map seen xs)"
proof (induction xs)
  case Nil
  then show ?case by (simp add: carries_ret)
next
  case (Cons a xs)
  then have rec: "carries {0} {0} (forE xs enc) (repeatE (length xs) dec) (map seen xs)" and a: "valid a" by simp_all
  show ?case
    by simp (rule carries_seq [OF fits [OF a]], rule carries_last [OF rec], simp)
qed

lemma array:
  assumes "\<forall>a \<in> set xs. valid a" and "length xs < 2 ^ bits" and "bits mod 8 = 0" and "0 < bits" and "bits < 31"
  shows "carries {0} {0} (writeArray xs bits enc) (readArray bits dec) (map seen xs)"
proof -
  have n: "min (length xs) (2 ^ bits - Suc 0) = length xs" using assms(2) by simp
  have "int (length xs) < 2 ^ bits" using assms(2) by (metis of_nat_less_iff of_nat_numeral of_nat_power)
  then have "transmits (writeBits (js_int (int (length xs))) bits) (readBits bits False) (int (length xs))"
    using assms(5) by (intro transmits_bits) simp_all
  from carries_seq [OF bytes_carries [OF this sized_writeBits assms(3)],
      of "{0}" "forE xs enc" "\<lambda>n. repeatE (nat n) dec" "map seen xs"]
  show ?thesis
    using elements [OF assms(1)] assms(4,5) unfolding writeArray_def readArray_def by (simp add: n Let_def)
qed

end

text \<open>Copied streams: what one stream was written with, \<open>writeBytes\<close> writes to another.\<close>

lemma view_bit_copy:
  assumes "p + n \<le> length v" and "n \<le> length u"
  shows "view_bit (take p v @ take n u @ drop (p + n) v) k
     = (if 8 * p \<le> k \<and> k < 8 * p + 8 * n then view_bit u (k - 8 * p) else view_bit v k)"
proof -
  consider "k < 8 * p" | "8 * p \<le> k" "k < 8 * p + 8 * n" | "8 * p + 8 * n \<le> k" by linarith
  then show ?thesis
  proof cases
    case 1
    then have "k div 8 < p" by linarith
    then show ?thesis using assms 1 by (simp add: view_bit_def nth_append)
  next
    case 2
    then obtain d where d: "k = 8 * p + d" "d < 8 * n" by (metis le_Suc_ex nat_add_left_cancel_less)
    then have "k div 8 = p + d div 8" "k mod 8 = d mod 8" "d div 8 < n" by (simp_all add: less_mult_imp_div_less mult.commute)
    then show ?thesis using assms d by (simp add: view_bit_def nth_append)
  next
    case 3
    then have "p + n \<le> k div 8" by linarith
    then have "\<not> k div 8 < p" "\<not> k div 8 - p < n" by simp_all
    then show ?thesis using assms 3 by (simp add: view_bit_def nth_append)
  qed
qed

lemma carries_copy:
  assumes t: "carries {0} {0} w r a" and s0: "writable s0" "bs_index s0 = 0" and written: "w s0 = (Inr (), src)"
  shows "carries {0} {0} (writeBytes src 0 (byteIndex src)) r a"
proof -
  obtain f where f: "length (f 0) mod 8 = 0"
      "\<forall>s. writable s \<longrightarrow> offset_of s = 0 \<longrightarrow> wrote w s (f 0)"
      "\<forall>s. bs_start s = 0 \<longrightarrow> offset_of s = 0 \<longrightarrow> got r s (f 0) a"
    using t unfolding carries_def by force
  have "wrote w s0 (f 0)" using f(2) s0 by (simp add: offset_of_def)
  with written s0 obtain u where u: "src = s0\<lparr>bs_view := u, bs_index := length (f 0)\<rparr>"
      "patched (bs_view s0) 0 (f 0) u" and room: "length (f 0) \<le> 8 * length (bs_view s0)"
    by (auto simp: wrote_def)
  have u_bits: "view_bit u k = f 0 ! k" if "k < length (f 0)" for k
    using u(2) that by (simp add: patched_def)
  have u_len: "length u = length (bs_view s0)" using u(2) by (simp add: patched_def)
  obtain n where n: "length (f 0) = 8 * n" using f(1) by (metis dvd_def mod_eq_0_iff_dvd)
  have bytes: "byteIndex src = n" using u(1) n by (simp add: byteIndex_def)
  have nu: "n \<le> length (bs_view src)" using room n u_len u(1) by simp
  have "wrote (writeBytes src 0 n) s (f 0)" if s: "writable s" "offset_of s = 0" for s
  proof -
    have start: "bs_start s = 0" using s(1) by (simp add: writable_def)
    obtain p where p: "bs_index s = 8 * p" using s(2) unfolding offset_of_def by (metis dvd_def mod_eq_0_iff_dvd)
    have idx: "get_index s = 8 * int p" using p start by (simp add: get_index_def)
    let ?v = "take p (bs_view s) @ take n (bs_view src) @ drop (p + n) (bs_view s)"
    show ?thesis
    proof (cases "p + n \<le> length (bs_view s)")
      case True
      have "patched (bs_view s) (bs_index s) (f 0) ?v"
        unfolding patched_def
      proof (intro conjI allI)
        show "length ?v = length (bs_view s)" using True nu by simp
        show "view_bit ?v k = (if bs_index s \<le> k \<and> k < bs_index s + length (f 0) then f 0 ! (k - bs_index s)
            else view_bit (bs_view s) k)" for k
          unfolding view_bit_copy [OF True nu] using u_bits [of "k - 8 * p"] u(1) n p by auto
      qed
      then show ?thesis
        using True idx p n nu
        by (auto simp: wrote_def writeBytes_def bindE_def getsE_def thenE_def assertE_def guardE_def ret_def
            modifyE_def mult.commute intro!: exI [of _ ?v])
    next
      case False
      then show ?thesis
        using idx p n nu
        by (auto simp: wrote_def writeBytes_def bindE_def getsE_def thenE_def assertE_def guardE_def ret_def
            throwE_def)
    qed
  qed
  then show ?thesis
    unfolding bytes carries_def using f(1,3) by (intro exI [of _ "\<lambda>_. f 0"]) simp
qed

section \<open>Precision\<close>

interpretation float: codec "\<lambda>f. writeFloat f lo hi bits" "readFloat lo hi bits"
    "\<lambda>f. in_range lo hi f \<and> lo < hi \<and> 0 < bits \<and> bits < 31" "quantizeN lo hi bits" for lo hi bits
  by unfold_locales (simp add: transmits_float)

text \<open>
  A number that is sent with a range and a number of bits arrives within half a step of the
  quantization from its value, inside the range, and sending what arrived once more changes
  nothing any more.
\<close>

theorem float_precision:
  assumes "lo < hi" and "0 < bits" and "bits < 31" and "lo \<le> q" and "q \<le> hi"
    and "writeFloat (Num q) lo hi bits (new_bitstream v) = (Inr (), s)"
  shows "\<exists>q'. fst (readFloat lo hi bits (new_bitstream (bs_view s))) = Inr (Num q')
    \<and> \<bar>q' - q\<bar> \<le> (hi - lo) / (2 * (2 ^ bits - 1)) \<and> lo \<le> q' \<and> q' \<le> hi
    \<and> (\<forall>u. fst (writeFloat (Num q') lo hi bits (new_bitstream u)) = Inr ()
         \<longrightarrow> fst (readFloat lo hi bits (new_bitstream (bs_view (snd (writeFloat (Num q') lo hi bits (new_bitstream u))))))
             = Inr (Num q'))"
proof (intro exI conjI allI impI)
  let ?q = "quantize lo hi bits q"
  have ok: "in_range lo hi (Num q) \<and> lo < hi \<and> 0 < bits \<and> bits < 31" using assms by (simp add: in_range_def)
  show "fst (readFloat lo hi bits (new_bitstream (bs_view s))) = Inr (Num ?q)"
    using float.delivers [OF ok assms(6)] by (simp add: quantizeN_def)
  show "\<bar>?q - q\<bar> \<le> (hi - lo) / (2 * (2 ^ bits - 1))" by (rule quantize_error [OF assms(1,2)])
  show "lo \<le> ?q" "?q \<le> hi" using quantize_range [OF assms(1,4,5,2)] by simp_all
  fix u assume w: "fst (writeFloat (Num ?q) lo hi bits (new_bitstream u)) = Inr ()"
  have "in_range lo hi (Num ?q) \<and> lo < hi \<and> 0 < bits \<and> bits < 31"
    using quantize_range [OF assms(1,4,5,2)] ok by (simp add: in_range_def)
  from float.delivers [OF this, of u "snd (writeFloat (Num ?q) lo hi bits (new_bitstream u))"] w
  show "fst (readFloat lo hi bits (new_bitstream (bs_view (snd (writeFloat (Num ?q) lo hi bits (new_bitstream u)))))) = Inr (Num ?q)"
    by (simp add: quantizeN_def quantize_again [OF assms(1,2)] prod_eq_iff)
qed

lemma float_precision_witness:
  "\<exists>q'. fst (readFloat 0 100 8 (new_bitstream [84])) = Inr (Num q') \<and> \<bar>q' - 33\<bar> \<le> 100 / (2 * (2 ^ 8 - 1))"
proof -
  have w: "writeFloat (Num 33) 0 100 8 (new_bitstream [0])
      = (Inr (), \<lparr>bs_view = [84], bs_index = 8, bs_start = 0, bs_length = 8\<rparr>)"
    by code_simp
  show ?thesis using float_precision [OF _ _ _ _ _ w] by auto
qed

end
