(* ===== verification/NetMap.thy ===== *)
theory NetMap
  imports NetMessageFacts BitFrames
begin

text \<open>
  The edit message of \<open>shared/net/editMsg.ts\<close> and the map message of \<open>shared/net/mapMsg.ts\<close>
  with its rivers, places, objects and ground patches, and what of them arrives.
\<close>

section \<open>Single precision numbers\<close>

text \<open>What is left of a number in single precision.\<close>

definition f32_round :: "net_env \<Rightarrow> jsnum \<Rightarrow> jsnum" where
  "f32_round e x = ne_f32val e (ne_f32bits e x)"

lemma transmits_f32 [codecs]: "transmits (writeFloat32 e x) (readFloat32 e) (f32_round e x)"
proof -
  let ?b = "uint (ne_f32bits e x)"
  have fits: "0 \<le> ?b" "?b < 2 ^ 32" using unsigned_less [of "ne_f32bits e x", where ?'a = int] by simp_all
  have "transmits (writeBits (js_int ?b) 32) readUint32 ?b"
    using transmits_uint32 [of ?b] fits by (simp add: writeUint32_def writeInt_def)
  then show ?thesis
    unfolding writeFloat32_def readFloat32_def readUint32_def [symmetric]
    by (rule transmits_last) (simp add: f32_round_def)
qed

lemma sized_f32 [sizes]: "sized 32 (writeFloat32 e x)"
  unfolding writeFloat32_def by (rule sized_writeBits)

section \<open>Edits\<close>

record 't edit_msg =
  ed_zoomEnabled :: bool
  ed_zoom :: int
  ed_speedEnabled :: bool
  ed_speed :: jsnum
  ed_gameSpeedEnabled :: bool
  ed_gameSpeed :: jsnum
  ed_loadNewMap :: bool
  ed_newMapSeed :: int
  ed_spawnLootType :: 't
  ed_promoteToRole :: bool
  ed_promoteToRoleType :: 't
  ed_toggleLayer :: bool
  ed_noClip :: bool
  ed_teleportToPings :: bool
  ed_godMode :: bool
  ed_moveObjs :: bool
  ed_preventGameStart :: bool

definition ser_edit :: "net_env \<Rightarrow> string edit_msg \<Rightarrow> unit bs" where
  "ser_edit e m = seqE [
     writeBoolean (ed_zoomEnabled m),
     (if ed_zoomEnabled m then writeUint8 (ed_zoom m) else ret ()),
     writeBoolean (ed_speedEnabled m),
     (if ed_speedEnabled m then writeFloat32 e (ed_speed m) else ret ()),
     writeBoolean (ed_gameSpeedEnabled m),
     (if ed_gameSpeedEnabled m then writeFloat32 e (ed_gameSpeed m) else ret ()),
     writeBoolean (ed_loadNewMap m),
     (if ed_loadNewMap m then writeUint32 (ed_newMapSeed m) else ret ()),
     writeGameType (ne_game e) (ed_spawnLootType m),
     writeBoolean (ed_promoteToRole m),
     (if ed_promoteToRole m then writeGameType (ne_game e) (ed_promoteToRoleType m) else ret ()),
     writeBoolean (ed_toggleLayer m), writeBoolean (ed_noClip m), writeBoolean (ed_teleportToPings m),
     writeBoolean (ed_godMode m), writeBoolean (ed_moveObjs m), writeBoolean (ed_preventGameStart m)]"

text \<open>A field that is not on the wire keeps the value of a fresh message.\<close>

definition deser_edit :: "net_env \<Rightarrow> string option edit_msg bs" where
  "deser_edit e =
     bindE readBoolean (\<lambda>zoomEnabled.
     bindE (if zoomEnabled then readUint8 else ret 1) (\<lambda>zoom.
     bindE readBoolean (\<lambda>speedEnabled.
     bindE (if speedEnabled then readFloat32 e else ret (js_int 0)) (\<lambda>speed.
     bindE readBoolean (\<lambda>gameSpeedEnabled.
     bindE (if gameSpeedEnabled then readFloat32 e else ret (js_int 1)) (\<lambda>gameSpeed.
     bindE readBoolean (\<lambda>loadNewMap.
     bindE (if loadNewMap then readUint32 else ret 0) (\<lambda>newMapSeed.
     bindE (readGameType (ne_game e)) (\<lambda>spawnLootType.
     bindE readBoolean (\<lambda>promoteToRole.
     bindE (if promoteToRole then readGameType (ne_game e) else ret (Some [])) (\<lambda>promoteToRoleType.
     bindE readBoolean (\<lambda>toggleLayer. bindE readBoolean (\<lambda>noClip. bindE readBoolean (\<lambda>teleportToPings.
     bindE readBoolean (\<lambda>godMode. bindE readBoolean (\<lambda>moveObjs. bindE readBoolean (\<lambda>preventGameStart.
     ret \<lparr>ed_zoomEnabled = zoomEnabled, ed_zoom = zoom, ed_speedEnabled = speedEnabled, ed_speed = speed,
          ed_gameSpeedEnabled = gameSpeedEnabled, ed_gameSpeed = gameSpeed, ed_loadNewMap = loadNewMap,
          ed_newMapSeed = newMapSeed, ed_spawnLootType = spawnLootType, ed_promoteToRole = promoteToRole,
          ed_promoteToRoleType = promoteToRoleType, ed_toggleLayer = toggleLayer, ed_noClip = noClip,
          ed_teleportToPings = teleportToPings, ed_godMode = godMode, ed_moveObjs = moveObjs,
          ed_preventGameStart = preventGameStart\<rparr>)))))))))))))))))"

definition valid_edit :: "net_env \<Rightarrow> string edit_msg \<Rightarrow> bool" where
  "valid_edit e m = ((ed_zoomEnabled m \<longrightarrow> byte (ed_zoom m))
     \<and> (ed_loadNewMap m \<longrightarrow> 0 \<le> ed_newMapSeed m \<and> ed_newMapSeed m < 4294967296)
     \<and> game_type e (ed_spawnLootType m) \<and> (ed_promoteToRole m \<longrightarrow> game_type e (ed_promoteToRoleType m)))"

definition seen_edit :: "net_env \<Rightarrow> string edit_msg \<Rightarrow> string option edit_msg" where
  "seen_edit e m = \<lparr>ed_zoomEnabled = ed_zoomEnabled m, ed_zoom = (if ed_zoomEnabled m then ed_zoom m else 1),
     ed_speedEnabled = ed_speedEnabled m,
     ed_speed = (if ed_speedEnabled m then f32_round e (ed_speed m) else js_int 0),
     ed_gameSpeedEnabled = ed_gameSpeedEnabled m,
     ed_gameSpeed = (if ed_gameSpeedEnabled m then f32_round e (ed_gameSpeed m) else js_int 1),
     ed_loadNewMap = ed_loadNewMap m, ed_newMapSeed = (if ed_loadNewMap m then ed_newMapSeed m else 0),
     ed_spawnLootType = Some (ed_spawnLootType m), ed_promoteToRole = ed_promoteToRole m,
     ed_promoteToRoleType = (if ed_promoteToRole m then Some (ed_promoteToRoleType m) else Some []),
     ed_toggleLayer = ed_toggleLayer m, ed_noClip = ed_noClip m, ed_teleportToPings = ed_teleportToPings m,
     ed_godMode = ed_godMode m, ed_moveObjs = ed_moveObjs m, ed_preventGameStart = ed_preventGameStart m\<rparr>"

text \<open>A part that is sent only under a condition both sides know.\<close>

lemma transmits_when [codecs]:
  "(b \<Longrightarrow> transmits w r a) \<Longrightarrow> transmits (if b then w else ret ()) (if b then r else ret d) (if b then a else d)"
  by (simp add: transmits_ret)

interpretation edit: codec "ser_edit e" "deser_edit e" "valid_edit e" "seen_edit e" for e
proof
  fix m :: "string edit_msg" assume v: "valid_edit e m"
  then show "transmits (ser_edit e m) (deser_edit e) (seen_edit e m)"
    unfolding ser_edit_def deser_edit_def seqE.simps
    by (intro transmits_seq [OF transmits_bool] transmits_seq [OF transmits_when [OF transmits_byte]]
        transmits_seq [OF transmits_when [OF transmits_f32]] transmits_seq [OF transmits_when [OF transmits_uint32]]
        transmits_seq [OF transmits_when [OF transmits_game]] transmits_seq [OF transmits_game]
        transmits_last [OF transmits_bool])
      (simp_all add: valid_edit_def seen_edit_def)
qed

section \<open>Map parts\<close>

record map_river =
  rv_width :: int
  rv_looped :: bool
  rv_points :: "vec2 list"

definition serializeMapRiver :: "map_river \<Rightarrow> unit bs" where
  "serializeMapRiver r = seqE [writeUint8 (rv_width r), writeUint8 (if rv_looped r then 1 else 0),
     writeArray (rv_points r) 8 (\<lambda>p. writeMapPos p 16)]"

definition deserializeMapRiver :: "map_river bs" where
  "deserializeMapRiver = bindE readUint8 (\<lambda>w. bindE readUint8 (\<lambda>l. bindE (readArray 8 (readMapPos 16)) (\<lambda>ps.
     ret \<lparr>rv_width = w, rv_looped = (l \<noteq> 0), rv_points = ps\<rparr>)))"

record map_place =
  pl_name :: js_str
  pl_pos :: vec2

definition serializeMapPlace :: "map_place \<Rightarrow> unit bs" where
  "serializeMapPlace p = seqE [writeASCIIString (pl_name p) None, writeVec (pl_pos p) 0 0 1 1 16]"

definition deserializeMapPlaces :: "map_place bs" where
  "deserializeMapPlaces = bindE (readASCIIString None) (\<lambda>n. bindE (readVec 0 0 1 1 16) (\<lambda>p.
     ret \<lparr>pl_name = n, pl_pos = p\<rparr>))"

text \<open>The optional fields may be \<open>undefined\<close>, which writes as zero and as false.\<close>

record ground_patch =
  gp_bound :: collider
  gp_color :: int
  gp_roughness :: jsnum
  gp_offsetDist :: jsnum
  gp_order :: "int option"
  gp_useAsMapShape :: "bool option"

definition num_of :: "int option \<Rightarrow> jsnum" where
  "num_of x = (case x of None \<Rightarrow> NaN | Some i \<Rightarrow> js_int i)"

definition serializeMapGroundPatch :: "net_env \<Rightarrow> ground_patch \<Rightarrow> unit bs" where
  "serializeMapGroundPatch e g = seqE [writeCollider (gp_bound g), writeUint32 (gp_color g),
     writeFloat32 e (gp_roughness g), writeFloat32 e (gp_offsetDist g), writeBits (num_of (gp_order g)) 7,
     writeBoolean (gp_useAsMapShape g = Some True)]"

definition deserializeMapGroundPatch :: "net_env \<Rightarrow> ground_patch bs" where
  "deserializeMapGroundPatch e = bindE readCollider (\<lambda>b. bindE readUint32 (\<lambda>c. bindE (readFloat32 e) (\<lambda>r.
     bindE (readFloat32 e) (\<lambda>d. bindE (readBits 7 False) (\<lambda>ord. bindE readBoolean (\<lambda>u.
     ret \<lparr>gp_bound = b, gp_color = c, gp_roughness = r, gp_offsetDist = d, gp_order = Some ord,
          gp_useAsMapShape = Some u\<rparr>))))))"

record 't map_obj =
  mo_pos :: vec2
  mo_scale :: jsnum
  mo_type :: 't
  mo_ori :: int

definition MapObjectMinScale :: rat where
  "MapObjectMinScale = 1 / 8"

definition MapObjectMaxScale :: rat where
  "MapObjectMaxScale = 5 / 2"

definition serializeMapObj :: "net_env \<Rightarrow> string map_obj \<Rightarrow> unit bs" where
  "serializeMapObj e m = seqE [writeMapPos (mo_pos m) 16,
     writeFloat (mo_scale m) MapObjectMinScale MapObjectMaxScale 8, writeMapType (ne_map e) (mo_type m),
     writeBits (js_int (mo_ori m)) 2, writeAlignToNextByte]"

definition deserializeMapObj :: "net_env \<Rightarrow> string option map_obj bs" where
  "deserializeMapObj e = bindE (readMapPos 16) (\<lambda>p.
     bindE (readFloat MapObjectMinScale MapObjectMaxScale 8) (\<lambda>sc. bindE (readMapType (ne_map e)) (\<lambda>t.
     bindE (readBits 2 False) (\<lambda>ori. thenE readAlignToNextByte
     (ret \<lparr>mo_pos = p, mo_scale = sc, mo_type = t, mo_ori = ori\<rparr>)))))"

section \<open>The map\<close>

record 't map_msg =
  mm_mapName :: js_str
  mm_seed :: int
  mm_width :: int
  mm_height :: int
  mm_shoreInset :: int
  mm_grassInset :: int
  mm_rivers :: "map_river list"
  mm_places :: "map_place list"
  mm_objects :: "'t map_obj list"
  mm_groundPatches :: "ground_patch list"

definition MapNameMaxLen :: nat where
  "MapNameMaxLen = 24"

definition ser_map :: "net_env \<Rightarrow> string map_msg \<Rightarrow> unit bs" where
  "ser_map e m = seqE [writeASCIIString (mm_mapName m) (Some MapNameMaxLen), writeUint32 (mm_seed m),
     writeUint16 (mm_width m), writeUint16 (mm_height m), writeUint16 (mm_shoreInset m),
     writeUint16 (mm_grassInset m), writeArray (mm_rivers m) 8 serializeMapRiver,
     writeArray (mm_places m) 8 serializeMapPlace, writeArray (mm_objects m) 16 (serializeMapObj e),
     writeArray (mm_groundPatches m) 8 (serializeMapGroundPatch e)]"

definition deser_map :: "net_env \<Rightarrow> string option map_msg bs" where
  "deser_map e = bindE (readASCIIString (Some MapNameMaxLen)) (\<lambda>name. bindE readUint32 (\<lambda>seed.
     bindE readUint16 (\<lambda>w. bindE readUint16 (\<lambda>h. bindE readUint16 (\<lambda>shore. bindE readUint16 (\<lambda>grass.
     bindE (readArray 8 deserializeMapRiver) (\<lambda>rivers. bindE (readArray 8 deserializeMapPlaces) (\<lambda>places.
     bindE (readArray 16 (deserializeMapObj e)) (\<lambda>objects.
     bindE (readArray 8 (deserializeMapGroundPatch e)) (\<lambda>patches.
     ret \<lparr>mm_mapName = name, mm_seed = seed, mm_width = w, mm_height = h, mm_shoreInset = shore,
          mm_grassInset = grass, mm_rivers = rivers, mm_places = places, mm_objects = objects,
          mm_groundPatches = patches\<rparr>))))))))))"

section \<open>What arrives\<close>

interpretation map_pos: codec "\<lambda>p. writeMapPos p 16" "readMapPos 16" on_map "quantize_pos 16"
  by unfold_locales (rule transmits_map_pos, simp_all)

definition valid_river :: "map_river \<Rightarrow> bool" where
  "valid_river r = (byte (rv_width r) \<and> (\<forall>p \<in> set (rv_points r). on_map p) \<and> length (rv_points r) < 256)"

definition seen_river :: "map_river \<Rightarrow> map_river" where
  "seen_river r = \<lparr>rv_width = rv_width r, rv_looped = rv_looped r, rv_points = map (quantize_pos 16) (rv_points r)\<rparr>"

interpretation river: codec serializeMapRiver deserializeMapRiver valid_river seen_river
proof
  fix r assume "valid_river r"
  then show "transmits (serializeMapRiver r) deserializeMapRiver (seen_river r)"
    unfolding serializeMapRiver_def deserializeMapRiver_def seqE.simps
    by (intro transmits_seq [OF transmits_byte] transmits_seq [OF transmits_flag] transmits_last [OF map_pos.array])
      (simp_all add: valid_river_def seen_river_def)
qed

definition valid_place :: "map_place \<Rightarrow> bool" where
  "valid_place p = (plain_text (pl_name p) \<and> vec_in 0 0 1 1 (pl_pos p))"

definition seen_place :: "map_place \<Rightarrow> map_place" where
  "seen_place p = \<lparr>pl_name = pl_name p, pl_pos = quantize_vec 0 0 1 1 16 (pl_pos p)\<rparr>"

interpretation place: codec serializeMapPlace deserializeMapPlaces valid_place seen_place
proof
  fix p assume "valid_place p"
  then show "transmits (serializeMapPlace p) deserializeMapPlaces (seen_place p)"
    unfolding serializeMapPlace_def deserializeMapPlaces_def seqE.simps
    by (intro transmits_seq [OF transmits_string] transmits_last [OF transmits_vec])
      (simp_all add: valid_place_def seen_place_def)
qed

fun valid_collider :: "collider \<Rightarrow> bool" where
  "valid_collider (Circle p r) = (on_map p \<and> in_range 0 MaxPosition r)"
| "valid_collider (Aabb a b) = (on_map a \<and> on_map b)"

fun seen_collider :: "collider \<Rightarrow> collider" where
  "seen_collider (Circle p r) = Circle (quantize_pos 16 p) (quantizeN 0 MaxPosition 16 r)"
| "seen_collider (Aabb a b) = Aabb (quantize_pos 16 a) (quantize_pos 16 b)"

interpretation collider: codec writeCollider readCollider valid_collider seen_collider
proof
  fix c assume v: "valid_collider c"
  show "transmits (writeCollider c) readCollider (seen_collider c)"
  proof (cases c)
    case (Circle p r)
    then show ?thesis
      unfolding readCollider_def using v
      by (auto simp: CIRCLE_TYPE_def MaxPosition_def intro!: transmits_seq [OF transmits_uint8]
          transmits_seq [OF transmits_map_pos] transmits_last [OF transmits_float])
  next
    case (Aabb a b)
    then show ?thesis
      unfolding readCollider_def using v
      by (auto simp: CIRCLE_TYPE_def AABB_TYPE_def intro!: transmits_seq [OF transmits_uint8]
          transmits_seq [OF transmits_map_pos] transmits_last [OF transmits_map_pos])
  qed
qed

definition valid_patch :: "ground_patch \<Rightarrow> bool" where
  "valid_patch g = (valid_collider (gp_bound g) \<and> 0 \<le> gp_color g \<and> gp_color g < 4294967296
     \<and> (case gp_order g of None \<Rightarrow> True | Some i \<Rightarrow> 0 \<le> i \<and> i < 128))"

definition seen_patch :: "net_env \<Rightarrow> ground_patch \<Rightarrow> ground_patch" where
  "seen_patch e g = \<lparr>gp_bound = seen_collider (gp_bound g), gp_color = gp_color g,
     gp_roughness = f32_round e (gp_roughness g), gp_offsetDist = f32_round e (gp_offsetDist g),
     gp_order = Some (case gp_order g of None \<Rightarrow> 0 | Some i \<Rightarrow> i),
     gp_useAsMapShape = Some (gp_useAsMapShape g = Some True)\<rparr>"

lemma transmits_num_of:
  assumes "\<And>i. x = Some i \<Longrightarrow> 0 \<le> i \<and> i < 2 ^ n" and "n \<le> 32"
  shows "transmits (writeBits (num_of x) n) (readBits n False) (case x of None \<Rightarrow> 0 | Some i \<Rightarrow> i)"
proof (cases x)
  case None
  have "writeBits NaN n = writeBits (js_int 0) n" by (simp add: writeBits_def fun_eq_iff)
  then show ?thesis using None transmits_bits [of 0 n] assms(2) by (simp add: num_of_def)
next
  case (Some i)
  then show ?thesis using assms by (simp add: num_of_def transmits_bits)
qed

interpretation patch: codec "serializeMapGroundPatch e" "deserializeMapGroundPatch e" valid_patch "seen_patch e" for e
proof
  fix g assume v: "valid_patch g"
  then have ord: "transmits (writeBits (num_of (gp_order g)) 7) (readBits 7 False)
      (case gp_order g of None \<Rightarrow> 0 | Some i \<Rightarrow> i)"
    by (intro transmits_num_of) (simp_all add: valid_patch_def)
  show "transmits (serializeMapGroundPatch e g) (deserializeMapGroundPatch e) (seen_patch e g)"
    unfolding serializeMapGroundPatch_def deserializeMapGroundPatch_def seqE.simps
    by (intro transmits_seq [OF collider.fits] transmits_seq [OF transmits_uint32] transmits_seq [OF transmits_f32]
        transmits_seq [OF ord] transmits_last [OF transmits_bool])
      (use v in \<open>simp_all add: valid_patch_def seen_patch_def\<close>)
qed

definition valid_map_obj :: "net_env \<Rightarrow> string map_obj \<Rightarrow> bool" where
  "valid_map_obj e m = (on_map (mo_pos m) \<and> in_range MapObjectMinScale MapObjectMaxScale (mo_scale m)
     \<and> map_type e (mo_type m) \<and> 0 \<le> mo_ori m \<and> mo_ori m < 4)"

definition seen_map_obj :: "string map_obj \<Rightarrow> string option map_obj" where
  "seen_map_obj m = \<lparr>mo_pos = quantize_pos 16 (mo_pos m),
     mo_scale = quantizeN MapObjectMinScale MapObjectMaxScale 8 (mo_scale m), mo_type = Some (mo_type m),
     mo_ori = mo_ori m\<rparr>"

interpretation map_obj: codec "serializeMapObj e" "deserializeMapObj e" "valid_map_obj e" seen_map_obj for e
proof
  fix m :: "string map_obj" assume v: "valid_map_obj e m"
  show "transmits (serializeMapObj e m) (deserializeMapObj e) (seen_map_obj m)"
    unfolding serializeMapObj_def deserializeMapObj_def seqE.simps thenE_def [of readAlignToNextByte]
    by (intro transmits_seq [OF transmits_map_pos] transmits_seq [OF transmits_float]
        transmits_seq [OF transmits_map] transmits_seq [OF transmits_bits]
        transmits_last [OF transmits_align, where g = "\<lambda>_. _"])
      (use v in \<open>simp_all add: valid_map_obj_def seen_map_obj_def MapObjectMinScale_def MapObjectMaxScale_def\<close>)
qed

definition valid_map :: "net_env \<Rightarrow> string map_msg \<Rightarrow> bool" where
  "valid_map e m = (plain_text (mm_mapName m) \<and> 0 \<le> mm_seed m \<and> mm_seed m < 4294967296
     \<and> short (mm_width m) \<and> short (mm_height m) \<and> short (mm_shoreInset m) \<and> short (mm_grassInset m)
     \<and> (\<forall>r \<in> set (mm_rivers m). valid_river r) \<and> length (mm_rivers m) < 256
     \<and> (\<forall>p \<in> set (mm_places m). valid_place p) \<and> length (mm_places m) < 256
     \<and> (\<forall>x \<in> set (mm_objects m). valid_map_obj e x) \<and> length (mm_objects m) < 65536
     \<and> (\<forall>g \<in> set (mm_groundPatches m). valid_patch g) \<and> length (mm_groundPatches m) < 256)"

definition seen_map :: "net_env \<Rightarrow> string map_msg \<Rightarrow> string option map_msg" where
  "seen_map e m = \<lparr>mm_mapName = take MapNameMaxLen (mm_mapName m), mm_seed = mm_seed m, mm_width = mm_width m,
     mm_height = mm_height m, mm_shoreInset = mm_shoreInset m, mm_grassInset = mm_grassInset m,
     mm_rivers = map seen_river (mm_rivers m), mm_places = map seen_place (mm_places m),
     mm_objects = map seen_map_obj (mm_objects m), mm_groundPatches = map (seen_patch e) (mm_groundPatches m)\<rparr>"

interpretation map_msg: codec "ser_map e" "deser_map e" "valid_map e" "seen_map e" for e
proof
  fix m :: "string map_msg" assume v: "valid_map e m"
  show "transmits (ser_map e m) (deser_map e) (seen_map e m)"
    unfolding ser_map_def deser_map_def seqE.simps
    by (intro transmits_seq [OF transmits_fixed_string] transmits_seq [OF transmits_uint32]
        transmits_seq [OF transmits_short] transmits_seq [OF river.array] transmits_seq [OF place.array]
        transmits_seq [OF map_obj.array] transmits_last [OF patch.array])
      (use v in \<open>simp_all add: valid_map_def seen_map_def MapNameMaxLen_def\<close>)
qed

end
