(* ===== verification/NetObjects.thy ===== *)
theory NetObjects
  imports NetMap
begin

text \<open>
  The game objects on the wire: the table \<open>ObjectSerializeFns\<close> of
  \<open>shared/net/objectSerializeFns.ts\<close> and the streams that \<open>BaseGameObject\<close> of
  \<open>server/src/game/objects/gameObject.ts\<close> keeps its serialized form in.  The partial data are
  what changes often (a position), the full data the rest.
\<close>

section \<open>Object types\<close>

datatype object_type = Invalid | Player | Obstacle | Loot | LootSpawner | DeadBody | Building
  | Structure | Decal | Projectile | Smoke | Airdrop

definition object_types :: "object_type list" where
  "object_types = [Invalid, Player, Obstacle, Loot, LootSpawner, DeadBody, Building, Structure, Decal,
     Projectile, Smoke, Airdrop]"

fun type_code :: "object_type \<Rightarrow> int" where
  "type_code Invalid = 0"
| "type_code Player = 1"
| "type_code Obstacle = 2"
| "type_code Loot = 3"
| "type_code LootSpawner = 4"
| "type_code DeadBody = 5"
| "type_code Building = 6"
| "type_code Structure = 7"
| "type_code Decal = 8"
| "type_code Projectile = 9"
| "type_code Smoke = 10"
| "type_code Airdrop = 11"

text \<open>Looking a number up in the table: \<open>undefined\<close> when there is no such type.\<close>

definition type_of_code :: "int \<Rightarrow> object_type option" where
  "type_of_code n = (if 0 \<le> n \<and> n < 12 then Some (object_types ! nat n) else None)"

lemma type_of_code_type [simp]: "type_of_code (type_code t) = Some t"
  by (cases t) (simp_all add: type_of_code_def object_types_def)

lemma type_code_byte [simp]: "byte (type_code t)"
  by (cases t) (simp_all add: byte_def)

text \<open>The sizes of the table, in bytes.\<close>

fun serializedPartialSize :: "object_type \<Rightarrow> nat" where
  "serializedPartialSize Player = 6"
| "serializedPartialSize Obstacle = 6"
| "serializedPartialSize Building = 2"
| "serializedPartialSize Structure = 0"
| "serializedPartialSize LootSpawner = 8"
| "serializedPartialSize Loot = 4"
| "serializedPartialSize DeadBody = 4"
| "serializedPartialSize Decal = 0"
| "serializedPartialSize Projectile = 8"
| "serializedPartialSize Smoke = 5"
| "serializedPartialSize Airdrop = 1"
| "serializedPartialSize Invalid = 0"

fun serializedFullSize :: "object_type \<Rightarrow> nat" where
  "serializedFullSize Player = 32"
| "serializedFullSize Obstacle = 16"
| "serializedFullSize Building = 9"
| "serializedFullSize Structure = 10"
| "serializedFullSize LootSpawner = 0"
| "serializedFullSize Loot = 5"
| "serializedFullSize DeadBody = 3"
| "serializedFullSize Decal = 8"
| "serializedFullSize Projectile = 2"
| "serializedFullSize Smoke = 1"
| "serializedFullSize Airdrop = 4"
| "serializedFullSize Invalid = 0"

section \<open>Constants\<close>

text \<open>\<open>Math.ceil(Math.log2(n))\<close>\<close>

definition bits_for :: "nat \<Rightarrow> nat" where
  "bits_for n = length (takeWhile (\<lambda>k. 2 ^ k < n) [0..<n])"

definition ActionBits :: nat where "ActionBits = bits_for 5"
definition AnimBits :: nat where "AnimBits = bits_for 7"
definition HasteBits :: nat where "HasteBits = bits_for 4"
definition PerkBits :: nat where "PerkBits = bits_for 8"
definition MapIndicatorBits :: nat where "MapIndicatorBits = bits_for 16"

lemma bit_sizes [simp]: "ActionBits = 3" "AnimBits = 3" "HasteBits = 2" "PerkBits = 3" "MapIndicatorBits = 4"
  by (simp_all add: ActionBits_def AnimBits_def HasteBits_def PerkBits_def MapIndicatorBits_def bits_for_def upt_rec)

definition PlayerMinScale :: rat where "PlayerMinScale = 3 / 4"
definition PlayerMaxScale :: rat where "PlayerMaxScale = 2"
definition ProjectileMaxHeight :: rat where "ProjectileMaxHeight = 5"
definition SmokeMaxRad :: rat where "SmokeMaxRad = 10"

section \<open>Players\<close>

record player_part =
  pp_pos :: vec2
  pp_dir :: vec2

record 't perk =
  pk_perk :: 't
  pk_droppable :: bool

record 't player_full =
  pf_outfit :: 't
  pf_backpack :: 't
  pf_helmet :: 't
  pf_chest :: 't
  pf_activeWeapon :: 't
  pf_layer :: int
  pf_dead :: bool
  pf_downed :: bool
  pf_animType :: int
  pf_animSeq :: int
  pf_actionType :: int
  pf_actionSeq :: int
  pf_wearingPan :: bool
  pf_healEffect :: bool
  pf_lastStandEffect :: bool
  pf_frozen :: bool
  pf_frozenOri :: int
  pf_frozenType :: 't
  pf_hasteType :: int
  pf_hasteSeq :: int
  pf_actionItem :: 't
  pf_scale :: jsnum
  pf_role :: 't
  pf_perks :: "'t perk list"

definition HasteNone :: int where
  "HasteNone = 0"

definition writeUint :: "nat \<Rightarrow> int \<Rightarrow> unit bs" where
  "writeUint bits x = writeBits (js_int x) bits"

definition readUint :: "nat \<Rightarrow> int bs" where
  "readUint bits = readBits bits False"

definition ser_player_part :: "player_part \<Rightarrow> unit bs" where
  "ser_player_part d = seqE [writeMapPos (pp_pos d) 16, writeUnitVec (pp_dir d) 8]"

definition deser_player_part :: "player_part bs" where
  "deser_player_part = bindE (readMapPos 16) (\<lambda>p. bindE (readUnitVec 8) (\<lambda>d. ret \<lparr>pp_pos = p, pp_dir = d\<rparr>))"

definition ser_perk :: "net_env \<Rightarrow> string perk \<Rightarrow> unit bs" where
  "ser_perk e p = seqE [writeGameType (ne_game e) (pk_perk p), writeBoolean (pk_droppable p)]"

definition deser_perk :: "net_env \<Rightarrow> string option perk bs" where
  "deser_perk e = bindE (readGameType (ne_game e)) (\<lambda>t. bindE readBoolean (\<lambda>d.
     ret \<lparr>pk_perk = t, pk_droppable = d\<rparr>))"

definition ser_player_full :: "net_env \<Rightarrow> string player_full \<Rightarrow> unit bs" where
  "ser_player_full e d = (let g = writeGameType (ne_game e) in seqE [
     g (pf_outfit d), g (pf_backpack d), g (pf_helmet d), g (pf_chest d), g (pf_activeWeapon d),
     writeUint 2 (pf_layer d), writeBoolean (pf_dead d), writeBoolean (pf_downed d),
     writeUint AnimBits (pf_animType d), writeUint 3 (pf_animSeq d),
     writeUint ActionBits (pf_actionType d), writeUint 3 (pf_actionSeq d),
     writeBoolean (pf_wearingPan d), writeBoolean (pf_healEffect d), writeBoolean (pf_lastStandEffect d),
     writeBoolean (pf_frozen d),
     (if pf_frozen d then thenE (writeUint 2 (pf_frozenOri d)) (g (pf_frozenType d)) else ret ()),
     writeBoolean (pf_hasteType d \<noteq> HasteNone),
     (if pf_hasteType d \<noteq> HasteNone
      then thenE (writeUint HasteBits (pf_hasteType d)) (writeUint 3 (pf_hasteSeq d)) else ret ()),
     writeBoolean (pf_actionItem d \<noteq> []),
     (if pf_actionItem d \<noteq> [] then g (pf_actionItem d) else ret ()),
     writeBoolean (pf_scale d \<noteq> js_int 1),
     (if pf_scale d \<noteq> js_int 1 then writeFloat (pf_scale d) PlayerMinScale PlayerMaxScale 8 else ret ()),
     writeBoolean (pf_role d \<noteq> []),
     (if pf_role d \<noteq> [] then g (pf_role d) else ret ()),
     writeBoolean (0 < length (pf_perks d)),
     (if 0 < length (pf_perks d) then writeArray (pf_perks d) PerkBits (ser_perk e) else ret ())])"

definition deser_player_full :: "net_env \<Rightarrow> string option player_full bs" where
  "deser_player_full e = (let g = readGameType (ne_game e) in
     bindE g (\<lambda>outfit. bindE g (\<lambda>backpack. bindE g (\<lambda>helmet. bindE g (\<lambda>chest. bindE g (\<lambda>weapon.
     bindE (readUint 2) (\<lambda>layer. bindE readBoolean (\<lambda>dead. bindE readBoolean (\<lambda>downed.
     bindE (readUint AnimBits) (\<lambda>animType. bindE (readUint 3) (\<lambda>animSeq.
     bindE (readUint ActionBits) (\<lambda>actionType. bindE (readUint 3) (\<lambda>actionSeq.
     bindE readBoolean (\<lambda>pan. bindE readBoolean (\<lambda>heal. bindE readBoolean (\<lambda>lastStand.
     bindE readBoolean (\<lambda>frozen.
     bindE (if frozen then bindE (readUint 2) (\<lambda>ori. bindE g (\<lambda>t. ret (ori, t))) else ret (0, Some [])) (\<lambda>fr.
     bindE readBoolean (\<lambda>hasHaste.
     bindE (if hasHaste then bindE (readUint HasteBits) (\<lambda>t. bindE (readUint 3) (\<lambda>sq. ret (t, sq)))
            else ret (HasteNone, - 1)) (\<lambda>haste.
     bindE readBoolean (\<lambda>hasActionItem. bindE (if hasActionItem then g else ret (Some [])) (\<lambda>actionItem.
     bindE readBoolean (\<lambda>hasScale.
     bindE (if hasScale then readFloat PlayerMinScale PlayerMaxScale 8 else ret (js_int 1)) (\<lambda>scale.
     bindE readBoolean (\<lambda>hasRole. bindE (if hasRole then g else ret (Some [])) (\<lambda>role.
     bindE readBoolean (\<lambda>hasPerks.
     bindE (if hasPerks then readArray PerkBits (deser_perk e) else ret []) (\<lambda>perks.
     ret \<lparr>pf_outfit = outfit, pf_backpack = backpack, pf_helmet = helmet, pf_chest = chest,
          pf_activeWeapon = weapon, pf_layer = layer, pf_dead = dead, pf_downed = downed,
          pf_animType = animType, pf_animSeq = animSeq, pf_actionType = actionType, pf_actionSeq = actionSeq,
          pf_wearingPan = pan, pf_healEffect = heal, pf_lastStandEffect = lastStand, pf_frozen = frozen,
          pf_frozenOri = fst fr, pf_frozenType = snd fr, pf_hasteType = fst haste, pf_hasteSeq = snd haste,
          pf_actionItem = actionItem, pf_scale = scale, pf_role = role,
          pf_perks = perks\<rparr>))))))))))))))))))))))))))))"

section \<open>Obstacles\<close>

record obstacle_part =
  op_pos :: vec2
  op_ori :: int
  op_scale :: jsnum

record door =
  dr_open :: bool
  dr_canUse :: bool
  dr_locked :: bool
  dr_seq :: int

record button =
  bt_onOff :: bool
  bt_canUse :: bool
  bt_seq :: int

record 't obstacle_full =
  of_healthT :: jsnum
  of_type :: 't
  of_layer :: int
  of_dead :: bool
  of_isDoor :: bool
  of_door :: "door option"
  of_isButton :: bool
  of_button :: "button option"
  of_isPuzzlePiece :: bool
  of_parentBuildingId :: "int option"
  of_isSkin :: bool
  of_skinPlayerId :: "int option"

definition ser_obstacle_part :: "obstacle_part \<Rightarrow> unit bs" where
  "ser_obstacle_part d = seqE [writeMapPos (op_pos d) 16, writeUint 2 (op_ori d),
     writeFloat (op_scale d) MapObjectMinScale MapObjectMaxScale 8]"

definition deser_obstacle_part :: "obstacle_part bs" where
  "deser_obstacle_part = bindE (readMapPos 16) (\<lambda>p. bindE (readUint 2) (\<lambda>ori.
     bindE (readFloat MapObjectMinScale MapObjectMaxScale 8) (\<lambda>sc.
     ret \<lparr>op_pos = p, op_ori = ori, op_scale = sc\<rparr>)))"

text \<open>A property of \<open>undefined\<close> is a TypeError.\<close>

definition of_field :: "'a option \<Rightarrow> ('a \<Rightarrow> unit bs) \<Rightarrow> unit bs" where
  "of_field x w = (case x of None \<Rightarrow> throwE ''TypeError'' | Some a \<Rightarrow> w a)"

definition ser_door :: "door \<Rightarrow> unit bs" where
  "ser_door d = seqE [writeBoolean (dr_open d), writeBoolean (dr_canUse d), writeBoolean (dr_locked d),
     writeUint 5 (dr_seq d)]"

definition deser_door :: "door bs" where
  "deser_door = bindE readBoolean (\<lambda>op. bindE readBoolean (\<lambda>u. bindE readBoolean (\<lambda>l. bindE (readUint 5) (\<lambda>sq.
     ret \<lparr>dr_open = op, dr_canUse = u, dr_locked = l, dr_seq = sq\<rparr>))))"

definition ser_button :: "button \<Rightarrow> unit bs" where
  "ser_button b = seqE [writeBoolean (bt_onOff b), writeBoolean (bt_canUse b), writeUint 6 (bt_seq b)]"

definition deser_button :: "button bs" where
  "deser_button = bindE readBoolean (\<lambda>o'. bindE readBoolean (\<lambda>u. bindE (readUint 6) (\<lambda>sq.
     ret \<lparr>bt_onOff = o', bt_canUse = u, bt_seq = sq\<rparr>)))"

definition ser_obstacle_full :: "net_env \<Rightarrow> string obstacle_full \<Rightarrow> unit bs" where
  "ser_obstacle_full e d = seqE [writeFloat (of_healthT d) 0 1 8, writeMapType (ne_map e) (of_type d),
     writeUint 2 (of_layer d), writeBoolean (of_dead d),
     writeBoolean (of_isDoor d), (if of_isDoor d then of_field (of_door d) ser_door else ret ()),
     writeBoolean (of_isButton d), (if of_isButton d then of_field (of_button d) ser_button else ret ()),
     writeBoolean (of_isPuzzlePiece d),
     (if of_isPuzzlePiece d then writeBits (num_of (of_parentBuildingId d)) 16 else ret ()),
     writeBoolean (of_isSkin d),
     (if of_isSkin d then writeBits (num_of (of_skinPlayerId d)) 16 else ret ())]"

definition read_opt :: "bool \<Rightarrow> 'a bs \<Rightarrow> 'a option bs" where
  "read_opt b r = (if b then bindE r (\<lambda>x. ret (Some x)) else ret None)"

definition deser_obstacle_full :: "net_env \<Rightarrow> string option obstacle_full bs" where
  "deser_obstacle_full e = bindE (readFloat 0 1 8) (\<lambda>h. bindE (readMapType (ne_map e)) (\<lambda>t.
     bindE (readUint 2) (\<lambda>layer. bindE readBoolean (\<lambda>dead.
     bindE readBoolean (\<lambda>isDoor. bindE (read_opt isDoor deser_door) (\<lambda>door.
     bindE readBoolean (\<lambda>isButton. bindE (read_opt isButton deser_button) (\<lambda>button.
     bindE readBoolean (\<lambda>isPuzzle. bindE (read_opt isPuzzle readUint16) (\<lambda>parent.
     bindE readBoolean (\<lambda>isSkin. bindE (read_opt isSkin readUint16) (\<lambda>skin.
     ret \<lparr>of_healthT = h, of_type = t, of_layer = layer, of_dead = dead, of_isDoor = isDoor, of_door = door,
          of_isButton = isButton, of_button = button, of_isPuzzlePiece = isPuzzle,
          of_parentBuildingId = parent, of_isSkin = isSkin, of_skinPlayerId = skin\<rparr>))))))))))))"

section \<open>Buildings and structures\<close>

record building_part =
  bp_ceilingDead :: bool
  bp_occupied :: bool
  bp_ceilingDamaged :: bool
  bp_hasPuzzle :: bool
  bp_puzzleSolved :: "bool option"
  bp_puzzleErrSeq :: "int option"

definition ser_building_part :: "building_part \<Rightarrow> unit bs" where
  "ser_building_part d = seqE [writeBoolean (bp_ceilingDead d), writeBoolean (bp_occupied d),
     writeBoolean (bp_ceilingDamaged d), writeBoolean (bp_hasPuzzle d),
     (if bp_hasPuzzle d then thenE (writeBoolean (bp_puzzleSolved d = Some True))
                                   (writeBits (num_of (bp_puzzleErrSeq d)) 7) else ret ())]"

definition deser_building_part :: "building_part bs" where
  "deser_building_part = bindE readBoolean (\<lambda>cd. bindE readBoolean (\<lambda>oc. bindE readBoolean (\<lambda>dm.
     bindE readBoolean (\<lambda>puzzle.
     bindE (if puzzle then bindE readBoolean (\<lambda>sv. bindE (readUint 7) (\<lambda>er. ret (Some sv, Some er)))
            else ret (None, None)) (\<lambda>pz.
     ret \<lparr>bp_ceilingDead = cd, bp_occupied = oc, bp_ceilingDamaged = dm, bp_hasPuzzle = puzzle,
          bp_puzzleSolved = fst pz, bp_puzzleErrSeq = snd pz\<rparr>)))))"

record 't building_full =
  bf_pos :: vec2
  bf_type :: 't
  bf_ori :: int
  bf_layer :: int

definition ser_building_full :: "net_env \<Rightarrow> string building_full \<Rightarrow> unit bs" where
  "ser_building_full e d = seqE [writeMapPos (bf_pos d) 16, writeMapType (ne_map e) (bf_type d),
     writeUint 2 (bf_ori d), writeUint 2 (bf_layer d)]"

definition deser_building_full :: "net_env \<Rightarrow> string option building_full bs" where
  "deser_building_full e = bindE (readMapPos 16) (\<lambda>p. bindE (readMapType (ne_map e)) (\<lambda>t.
     bindE (readUint 2) (\<lambda>ori. bindE (readUint 2) (\<lambda>l.
     ret \<lparr>bf_pos = p, bf_type = t, bf_ori = ori, bf_layer = l\<rparr>))))"

record 't structure_full =
  sf_pos :: vec2
  sf_type :: 't
  sf_ori :: int
  sf_interiorSoundEnabled :: bool
  sf_interiorSoundAlt :: bool
  sf_layerObjIds :: "int list"

definition structureLayerCount :: nat where
  "structureLayerCount = 2"

text \<open>An index past the end of an array is \<open>undefined\<close>.\<close>

definition item_at :: "int list \<Rightarrow> nat \<Rightarrow> int option" where
  "item_at xs i = (if i < length xs then Some (xs ! i) else None)"

definition ser_structure_full :: "net_env \<Rightarrow> string structure_full \<Rightarrow> unit bs" where
  "ser_structure_full e d = seqE [writeMapPos (sf_pos d) 16, writeMapType (ne_map e) (sf_type d),
     writeUint 2 (sf_ori d), writeBoolean (sf_interiorSoundEnabled d), writeBoolean (sf_interiorSoundAlt d),
     forE [0..<structureLayerCount] (\<lambda>r. writeBits (num_of (item_at (sf_layerObjIds d) r)) 16)]"

definition deser_structure_full :: "net_env \<Rightarrow> string option structure_full bs" where
  "deser_structure_full e = bindE (readMapPos 16) (\<lambda>p. bindE (readMapType (ne_map e)) (\<lambda>t.
     bindE (readUint 2) (\<lambda>ori. bindE readBoolean (\<lambda>en. bindE readBoolean (\<lambda>alt.
     bindE (repeatE structureLayerCount readUint16) (\<lambda>ids.
     ret \<lparr>sf_pos = p, sf_type = t, sf_ori = ori, sf_interiorSoundEnabled = en, sf_interiorSoundAlt = alt,
          sf_layerObjIds = ids\<rparr>))))))"

section \<open>Loot, bodies and decals\<close>

record 't loot_spawner_part =
  ls_pos :: vec2
  ls_type :: 't
  ls_layer :: int

definition ser_loot_spawner_part :: "net_env \<Rightarrow> string loot_spawner_part \<Rightarrow> unit bs" where
  "ser_loot_spawner_part e d = seqE [writeMapPos (ls_pos d) 16, writeMapType (ne_map e) (ls_type d),
     writeUint 2 (ls_layer d)]"

definition deser_loot_spawner_part :: "net_env \<Rightarrow> string option loot_spawner_part bs" where
  "deser_loot_spawner_part e = bindE (readMapPos 16) (\<lambda>p. bindE (readMapType (ne_map e)) (\<lambda>t.
     bindE (readUint 2) (\<lambda>l. ret \<lparr>ls_pos = p, ls_type = t, ls_layer = l\<rparr>)))"

text \<open>The writer does not look at \<open>hasOwner\<close>; \<open>undefined\<close> is not \<open>0\<close>.\<close>

record 't loot_full =
  lf_type :: 't
  lf_count :: int
  lf_layer :: int
  lf_isOld :: bool
  lf_isPreloadedGun :: bool
  lf_hasOwner :: bool
  lf_ownerId :: "int option"

definition ser_loot_full :: "net_env \<Rightarrow> string loot_full \<Rightarrow> unit bs" where
  "ser_loot_full e d = seqE [writeGameType (ne_game e) (lf_type d), writeUint8 (lf_count d),
     writeUint 2 (lf_layer d), writeBoolean (lf_isOld d), writeBoolean (lf_isPreloadedGun d),
     writeBoolean (lf_ownerId d \<noteq> Some 0),
     (if lf_ownerId d \<noteq> Some 0 then writeBits (num_of (lf_ownerId d)) 16 else ret ())]"

definition deser_loot_full :: "net_env \<Rightarrow> string option loot_full bs" where
  "deser_loot_full e = bindE (readGameType (ne_game e)) (\<lambda>t. bindE readUint8 (\<lambda>c. bindE (readUint 2) (\<lambda>l.
     bindE readBoolean (\<lambda>old. bindE readBoolean (\<lambda>pre. bindE readBoolean (\<lambda>has.
     bindE (read_opt has readUint16) (\<lambda>owner.
     ret \<lparr>lf_type = t, lf_count = c, lf_layer = l, lf_isOld = old, lf_isPreloadedGun = pre, lf_hasOwner = has,
          lf_ownerId = owner\<rparr>)))))))"

record dead_body_full =
  db_layer :: int
  db_playerId :: int

definition ser_dead_body_full :: "dead_body_full \<Rightarrow> unit bs" where
  "ser_dead_body_full d = seqE [writeUint8 (db_layer d), writeUint16 (db_playerId d)]"

definition deser_dead_body_full :: "dead_body_full bs" where
  "deser_dead_body_full = bindE readUint8 (\<lambda>l. bindE readUint16 (\<lambda>p. ret \<lparr>db_layer = l, db_playerId = p\<rparr>))"

record 't decal_full =
  dc_pos :: vec2
  dc_scale :: jsnum
  dc_type :: 't
  dc_ori :: int
  dc_layer :: int
  dc_goreKills :: int

definition ser_decal_full :: "net_env \<Rightarrow> string decal_full \<Rightarrow> unit bs" where
  "ser_decal_full e d = seqE [writeMapPos (dc_pos d) 16,
     writeFloat (dc_scale d) MapObjectMinScale MapObjectMaxScale 8, writeMapType (ne_map e) (dc_type d),
     writeUint 2 (dc_ori d), writeUint 2 (dc_layer d), writeUint8 (dc_goreKills d)]"

definition deser_decal_full :: "net_env \<Rightarrow> string option decal_full bs" where
  "deser_decal_full e = bindE (readMapPos 16) (\<lambda>p.
     bindE (readFloat MapObjectMinScale MapObjectMaxScale 8) (\<lambda>sc. bindE (readMapType (ne_map e)) (\<lambda>t.
     bindE (readUint 2) (\<lambda>ori. bindE (readUint 2) (\<lambda>l. bindE readUint8 (\<lambda>k.
     ret \<lparr>dc_pos = p, dc_scale = sc, dc_type = t, dc_ori = ori, dc_layer = l, dc_goreKills = k\<rparr>))))))"

section \<open>Projectiles, smoke and airdrops\<close>

record projectile_part =
  jp_pos :: vec2
  jp_posZ :: jsnum
  jp_dir :: vec2

definition ser_projectile_part :: "projectile_part \<Rightarrow> unit bs" where
  "ser_projectile_part d = seqE [writeMapPos (jp_pos d) 16, writeFloat (jp_posZ d) 0 ProjectileMaxHeight 10,
     writeUnitVec (jp_dir d) 7]"

definition deser_projectile_part :: "projectile_part bs" where
  "deser_projectile_part = bindE (readMapPos 16) (\<lambda>p. bindE (readFloat 0 ProjectileMaxHeight 10) (\<lambda>z.
     bindE (readUnitVec 7) (\<lambda>d. ret \<lparr>jp_pos = p, jp_posZ = z, jp_dir = d\<rparr>)))"

record 't projectile_full =
  jf_type :: 't
  jf_layer :: int

definition ser_projectile_full :: "net_env \<Rightarrow> string projectile_full \<Rightarrow> unit bs" where
  "ser_projectile_full e d = seqE [writeGameType (ne_game e) (jf_type d), writeUint 2 (jf_layer d)]"

definition deser_projectile_full :: "net_env \<Rightarrow> string option projectile_full bs" where
  "deser_projectile_full e = bindE (readGameType (ne_game e)) (\<lambda>t. bindE (readUint 2) (\<lambda>l.
     ret \<lparr>jf_type = t, jf_layer = l\<rparr>))"

record smoke_part =
  sk_pos :: vec2
  sk_rad :: jsnum

definition ser_smoke_part :: "smoke_part \<Rightarrow> unit bs" where
  "ser_smoke_part d = seqE [writeMapPos (sk_pos d) 16, writeFloat (sk_rad d) 0 SmokeMaxRad 8]"

definition deser_smoke_part :: "smoke_part bs" where
  "deser_smoke_part = bindE (readMapPos 16) (\<lambda>p. bindE (readFloat 0 SmokeMaxRad 8) (\<lambda>r.
     ret \<lparr>sk_pos = p, sk_rad = r\<rparr>))"

record smoke_full =
  sm_layer :: int
  sm_interior :: int

definition ser_smoke_full :: "smoke_full \<Rightarrow> unit bs" where
  "ser_smoke_full d = seqE [writeUint 2 (sm_layer d), writeUint 6 (sm_interior d)]"

definition deser_smoke_full :: "smoke_full bs" where
  "deser_smoke_full = bindE (readUint 2) (\<lambda>l. bindE (readUint 6) (\<lambda>i. ret \<lparr>sm_layer = l, sm_interior = i\<rparr>))"

record airdrop_part =
  ad_fallT :: jsnum
  ad_landed :: bool

definition ser_airdrop_part :: "airdrop_part \<Rightarrow> unit bs" where
  "ser_airdrop_part d = seqE [writeFloat (ad_fallT d) 0 1 7, writeBoolean (ad_landed d)]"

definition deser_airdrop_part :: "airdrop_part bs" where
  "deser_airdrop_part = bindE (readFloat 0 1 7) (\<lambda>f. bindE readBoolean (\<lambda>l. ret \<lparr>ad_fallT = f, ad_landed = l\<rparr>))"

section \<open>The table\<close>

text \<open>
  Loot, dead bodies have only a position as partial data; structures, decals and \<open>Invalid\<close>
  nothing.  A loot spawner has no full data, an airdrop only its position.
\<close>

datatype 't part_data = NoPart | PlayerPart player_part | ObstaclePart obstacle_part | PosPart vec2
  | LootSpawnerPart "'t loot_spawner_part" | BuildingPart building_part | ProjectilePart projectile_part
  | SmokePart smoke_part | AirdropPart airdrop_part

datatype 't full_data = NoFull | PlayerFull "'t player_full" | ObstacleFull "'t obstacle_full"
  | LootFull "'t loot_full" | DeadBodyFull dead_body_full | BuildingFull "'t building_full"
  | StructureFull "'t structure_full" | DecalFull "'t decal_full" | ProjectileFull "'t projectile_full"
  | SmokeFull smoke_full | PosFull vec2

fun serializePart :: "net_env \<Rightarrow> string part_data \<Rightarrow> unit bs" where
  "serializePart e NoPart = ret ()"
| "serializePart e (PlayerPart d) = ser_player_part d"
| "serializePart e (ObstaclePart d) = ser_obstacle_part d"
| "serializePart e (PosPart p) = writeMapPos p 16"
| "serializePart e (LootSpawnerPart d) = ser_loot_spawner_part e d"
| "serializePart e (BuildingPart d) = ser_building_part d"
| "serializePart e (ProjectilePart d) = ser_projectile_part d"
| "serializePart e (SmokePart d) = ser_smoke_part d"
| "serializePart e (AirdropPart d) = ser_airdrop_part d"

fun serializeFull :: "net_env \<Rightarrow> string full_data \<Rightarrow> unit bs" where
  "serializeFull e NoFull = ret ()"
| "serializeFull e (PlayerFull d) = ser_player_full e d"
| "serializeFull e (ObstacleFull d) = ser_obstacle_full e d"
| "serializeFull e (LootFull d) = ser_loot_full e d"
| "serializeFull e (DeadBodyFull d) = ser_dead_body_full d"
| "serializeFull e (BuildingFull d) = ser_building_full e d"
| "serializeFull e (StructureFull d) = ser_structure_full e d"
| "serializeFull e (DecalFull d) = ser_decal_full e d"
| "serializeFull e (ProjectileFull d) = ser_projectile_full e d"
| "serializeFull e (SmokeFull d) = ser_smoke_full d"
| "serializeFull e (PosFull p) = writeMapPos p 16"

definition mapE :: "('a \<Rightarrow> 'b) \<Rightarrow> 'a bs \<Rightarrow> 'b bs" where
  "mapE f r = bindE r (\<lambda>x. ret (f x))"

fun deserializePart :: "net_env \<Rightarrow> object_type \<Rightarrow> string option part_data bs" where
  "deserializePart e Player = mapE PlayerPart deser_player_part"
| "deserializePart e Obstacle = mapE ObstaclePart deser_obstacle_part"
| "deserializePart e Loot = mapE PosPart (readMapPos 16)"
| "deserializePart e DeadBody = mapE PosPart (readMapPos 16)"
| "deserializePart e LootSpawner = mapE LootSpawnerPart (deser_loot_spawner_part e)"
| "deserializePart e Building = mapE BuildingPart deser_building_part"
| "deserializePart e Projectile = mapE ProjectilePart deser_projectile_part"
| "deserializePart e Smoke = mapE SmokePart deser_smoke_part"
| "deserializePart e Airdrop = mapE AirdropPart deser_airdrop_part"
| "deserializePart e Structure = ret NoPart"
| "deserializePart e Decal = ret NoPart"
| "deserializePart e Invalid = ret NoPart"

fun deserializeFull :: "net_env \<Rightarrow> object_type \<Rightarrow> string option full_data bs" where
  "deserializeFull e Player = mapE PlayerFull (deser_player_full e)"
| "deserializeFull e Obstacle = mapE ObstacleFull (deser_obstacle_full e)"
| "deserializeFull e Loot = mapE LootFull (deser_loot_full e)"
| "deserializeFull e DeadBody = mapE DeadBodyFull deser_dead_body_full"
| "deserializeFull e LootSpawner = ret NoFull"
| "deserializeFull e Building = mapE BuildingFull (deser_building_full e)"
| "deserializeFull e Structure = mapE StructureFull (deser_structure_full e)"
| "deserializeFull e Decal = mapE DecalFull (deser_decal_full e)"
| "deserializeFull e Projectile = mapE ProjectileFull (deser_projectile_full e)"
| "deserializeFull e Smoke = mapE SmokeFull deser_smoke_full"
| "deserializeFull e Airdrop = mapE PosFull (readMapPos 16)"
| "deserializeFull e Invalid = ret NoFull"

section \<open>Serialized objects\<close>

text \<open>A warning is logged, and nothing done, for an object that was not initialized.\<close>

record game_object =
  gob_type :: object_type
  gob_id :: int
  gob_initialized :: bool
  gob_partialStream :: bitstream
  gob_fullStream :: bitstream
  gob_part :: "string part_data"
  gob_full :: "string full_data"

definition set_index :: "nat \<Rightarrow> unit bs" where
  "set_index i = modifyE (\<lambda>s. s\<lparr>bs_index := i + bs_start s\<rparr>)"

definition partial_writer :: "net_env \<Rightarrow> game_object \<Rightarrow> unit bs" where
  "partial_writer e g = seqE [writeUint8 (type_code (gob_type g)), writeUint16 (gob_id g),
     serializePart e (gob_part g), writeAlignToNextByte]"

definition full_writer :: "net_env \<Rightarrow> game_object \<Rightarrow> unit bs" where
  "full_writer e g = seqE [serializeFull e (gob_full g), writeAlignToNextByte]"

definition registered :: "game_object \<Rightarrow> bool" where
  "registered g = (gob_id g \<noteq> 0 \<and> type_code (gob_type g) \<noteq> 0)"

definition serializePartial :: "net_env \<Rightarrow> game_object \<Rightarrow> (string + unit) \<times> game_object" where
  "serializePartial e g =
     (if \<not> gob_initialized g then (Inr (), g)
      else if \<not> registered g then (Inl ''Object not registered'', g)
      else (case thenE (set_index 0) (partial_writer e g) (gob_partialStream g) of
              (res, s) \<Rightarrow> (res, g\<lparr>gob_partialStream := s\<rparr>)))"

definition serializeFullObj :: "net_env \<Rightarrow> game_object \<Rightarrow> (string + unit) \<times> game_object" where
  "serializeFullObj e g =
     (if \<not> gob_initialized g then (Inr (), g)
      else if \<not> registered g then (Inl ''Object not registered'', g)
      else (case serializePartial e g of
              (Inl err, g') \<Rightarrow> (Inl err, g')
            | (Inr _, g') \<Rightarrow>
                (case thenE (set_index 0) (full_writer e g') (gob_fullStream g') of
                   (res, s) \<Rightarrow> (res, g'\<lparr>gob_fullStream := s\<rparr>))))"

definition init_object :: "net_env \<Rightarrow> game_object \<Rightarrow> (string + unit) \<times> game_object" where
  "init_object e g = serializeFullObj e (g\<lparr>gob_initialized := True,
     gob_partialStream := new_bitstream (replicate (3 + serializedPartialSize (gob_type g)) 0),
     gob_fullStream := new_bitstream (replicate (serializedFullSize (gob_type g)) 0)\<rparr>)"

end
