(* ===== verification/NetObjectFacts.thy ===== *)
theory NetObjectFacts
  imports NetObjects
begin

text \<open>
  What of a game object arrives, for every type of object, and that the buffers an object keeps
  its serialized form in are large enough for it.
\<close>

section \<open>Fields\<close>

definition fits_in :: "nat \<Rightarrow> int \<Rightarrow> bool" where
  "fits_in n x = (0 \<le> x \<and> x < 2 ^ n)"

lemma transmits_Uint [codecs]: "fits_in n x \<Longrightarrow> n \<le> 32 \<Longrightarrow> transmits (writeUint n x) (readUint n) x"
  unfolding writeUint_def readUint_def fits_in_def by (intro transmits_bits) simp_all

definition or_zero :: "int option \<Rightarrow> int" where
  "or_zero x = (case x of None \<Rightarrow> 0 | Some i \<Rightarrow> i)"

lemma transmits_num:
  "fits_in n (or_zero x) \<Longrightarrow> n \<le> 32 \<Longrightarrow> transmits (writeBits (num_of x) n) (readUint n) (or_zero x)"
  unfolding readUint_def or_zero_def fits_in_def by (rule transmits_num_of) (simp_all split: option.splits)

lemma transmits_num16:
  assumes "fits_in 16 (or_zero x)"
  shows "transmits (writeBits (num_of x) 16) readUint16 (or_zero x)"
proof -
  have "writeBits (num_of x) 16 = writeUint16 (or_zero x)"
    by (cases x) (simp_all add: num_of_def or_zero_def writeUint16_def writeInt_def writeBits_def fun_eq_iff)
  then show ?thesis using assms by (simp add: fits_in_def transmits_uint16)
qed

lemma transmits_opt:
  "(b \<Longrightarrow> transmits w r a) \<Longrightarrow> transmits (if b then w else ret ()) (read_opt b r) (if b then Some a else None)"
  by (auto simp: read_opt_def transmits_ret intro: transmits_last)

lemma transmits_mapE: "transmits w r a \<Longrightarrow> transmits w (mapE f r) (f a)"
  unfolding mapE_def by (rule transmits_last) simp_all

section \<open>Players\<close>

definition valid_player_part :: "player_part \<Rightarrow> bool" where
  "valid_player_part d = (on_map (pp_pos d) \<and> unit_like (pp_dir d))"

definition seen_player_part :: "player_part \<Rightarrow> player_part" where
  "seen_player_part d = \<lparr>pp_pos = quantize_pos 16 (pp_pos d), pp_dir = quantize_unit 8 (pp_dir d)\<rparr>"

interpretation player_part: codec ser_player_part deser_player_part valid_player_part seen_player_part
proof
  fix d assume "valid_player_part d"
  then show "transmits (ser_player_part d) deser_player_part (seen_player_part d)"
    unfolding ser_player_part_def deser_player_part_def seqE.simps
    by (intro transmits_seq [OF transmits_map_pos] transmits_last [OF transmits_unit_vec])
      (simp_all add: valid_player_part_def seen_player_part_def)
qed

definition seen_perk :: "string perk \<Rightarrow> string option perk" where
  "seen_perk p = \<lparr>pk_perk = Some (pk_perk p), pk_droppable = pk_droppable p\<rparr>"

interpretation perk: codec "ser_perk e" "deser_perk e" "\<lambda>p. game_type e (pk_perk p)" seen_perk for e
proof
  fix p :: "string perk" assume "game_type e (pk_perk p)"
  then show "transmits (ser_perk e p) (deser_perk e) (seen_perk p)"
    unfolding ser_perk_def deser_perk_def seqE.simps
    by (intro transmits_seq [OF transmits_game] transmits_last [OF transmits_bool]) (simp_all add: seen_perk_def)
qed

text \<open>Three bits count at most seven perks.\<close>

definition valid_player_full :: "net_env \<Rightarrow> string player_full \<Rightarrow> bool" where
  "valid_player_full e d = (game_type e (pf_outfit d) \<and> game_type e (pf_backpack d) \<and> game_type e (pf_helmet d)
     \<and> game_type e (pf_chest d) \<and> game_type e (pf_activeWeapon d) \<and> fits_in 2 (pf_layer d)
     \<and> fits_in 3 (pf_animType d) \<and> fits_in 3 (pf_animSeq d) \<and> fits_in 3 (pf_actionType d) \<and> fits_in 3 (pf_actionSeq d)
     \<and> (pf_frozen d \<longrightarrow> fits_in 2 (pf_frozenOri d) \<and> game_type e (pf_frozenType d))
     \<and> (pf_hasteType d \<noteq> HasteNone \<longrightarrow> fits_in 2 (pf_hasteType d) \<and> fits_in 3 (pf_hasteSeq d))
     \<and> (pf_actionItem d \<noteq> [] \<longrightarrow> game_type e (pf_actionItem d))
     \<and> (pf_scale d \<noteq> js_int 1 \<longrightarrow> in_range PlayerMinScale PlayerMaxScale (pf_scale d))
     \<and> (pf_role d \<noteq> [] \<longrightarrow> game_type e (pf_role d))
     \<and> (\<forall>p \<in> set (pf_perks d). game_type e (pk_perk p)) \<and> length (pf_perks d) < 8)"

definition seen_player_full :: "string player_full \<Rightarrow> string option player_full" where
  "seen_player_full d = \<lparr>pf_outfit = Some (pf_outfit d), pf_backpack = Some (pf_backpack d),
     pf_helmet = Some (pf_helmet d), pf_chest = Some (pf_chest d), pf_activeWeapon = Some (pf_activeWeapon d),
     pf_layer = pf_layer d, pf_dead = pf_dead d, pf_downed = pf_downed d, pf_animType = pf_animType d,
     pf_animSeq = pf_animSeq d, pf_actionType = pf_actionType d, pf_actionSeq = pf_actionSeq d,
     pf_wearingPan = pf_wearingPan d, pf_healEffect = pf_healEffect d, pf_lastStandEffect = pf_lastStandEffect d,
     pf_frozen = pf_frozen d,
     pf_frozenOri = (if pf_frozen d then pf_frozenOri d else 0),
     pf_frozenType = Some (if pf_frozen d then pf_frozenType d else []),
     pf_hasteType = pf_hasteType d, pf_hasteSeq = (if pf_hasteType d \<noteq> HasteNone then pf_hasteSeq d else - 1),
     pf_actionItem = Some (pf_actionItem d),
     pf_scale = (if pf_scale d \<noteq> js_int 1 then quantizeN PlayerMinScale PlayerMaxScale 8 (pf_scale d) else js_int 1),
     pf_role = Some (pf_role d), pf_perks = map seen_perk (pf_perks d)\<rparr>"

lemma transmits_pair:
  "transmits w r a \<Longrightarrow> transmits w' r' b \<Longrightarrow> transmits (thenE w w') (bindE r (\<lambda>x. bindE r' (\<lambda>y. ret (x, y)))) (a, b)"
  by (rule transmits_seq, assumption, rule transmits_last) simp_all

interpretation player_full: codec "ser_player_full e" "deser_player_full e" "valid_player_full e" seen_player_full for e
proof
  fix d :: "string player_full" assume v: "valid_player_full e d"
  show "transmits (ser_player_full e d) (deser_player_full e) (seen_player_full d)"
    unfolding ser_player_full_def deser_player_full_def seqE.simps Let_def
    by (intro transmits_seq [OF transmits_game] transmits_seq [OF transmits_Uint] transmits_seq [OF transmits_bool]
        transmits_seq [OF transmits_when [OF transmits_pair [OF transmits_Uint transmits_game]]]
        transmits_seq [OF transmits_when [OF transmits_pair [OF transmits_Uint transmits_Uint]]]
        transmits_seq [OF transmits_when [OF transmits_game]]
        transmits_seq [OF transmits_when [OF transmits_float]]
        transmits_last [OF transmits_when [OF perk.array]])
      (use v in \<open>auto simp: valid_player_full_def seen_player_full_def PlayerMinScale_def PlayerMaxScale_def\<close>)
qed

section \<open>Obstacles and buildings\<close>

definition map_scale :: "jsnum \<Rightarrow> bool" where
  "map_scale = in_range MapObjectMinScale MapObjectMaxScale"

definition quantize_scale :: "jsnum \<Rightarrow> jsnum" where
  "quantize_scale = quantizeN MapObjectMinScale MapObjectMaxScale 8"

lemma transmits_scale [codecs]:
  "map_scale x \<Longrightarrow> transmits (writeFloat x MapObjectMinScale MapObjectMaxScale 8)
     (readFloat MapObjectMinScale MapObjectMaxScale 8) (quantize_scale x)"
  unfolding map_scale_def quantize_scale_def
  by (rule transmits_float) (simp_all add: MapObjectMinScale_def MapObjectMaxScale_def)

definition valid_obstacle_part :: "obstacle_part \<Rightarrow> bool" where
  "valid_obstacle_part d = (on_map (op_pos d) \<and> fits_in 2 (op_ori d) \<and> map_scale (op_scale d))"

definition seen_obstacle_part :: "obstacle_part \<Rightarrow> obstacle_part" where
  "seen_obstacle_part d = \<lparr>op_pos = quantize_pos 16 (op_pos d), op_ori = op_ori d, op_scale = quantize_scale (op_scale d)\<rparr>"

interpretation obstacle_part: codec ser_obstacle_part deser_obstacle_part valid_obstacle_part seen_obstacle_part
proof
  fix d assume "valid_obstacle_part d"
  then show "transmits (ser_obstacle_part d) deser_obstacle_part (seen_obstacle_part d)"
    unfolding ser_obstacle_part_def deser_obstacle_part_def seqE.simps
    by (intro transmits_seq [OF transmits_map_pos] transmits_seq [OF transmits_Uint] transmits_last [OF transmits_scale])
      (simp_all add: valid_obstacle_part_def seen_obstacle_part_def)
qed

interpretation door: codec ser_door deser_door "\<lambda>d. fits_in 5 (dr_seq d)" "\<lambda>d. d"
  unfolding ser_door_def deser_door_def seqE.simps
  by unfold_locales
    (intro transmits_seq [OF transmits_bool] transmits_last [OF transmits_Uint], simp_all)

interpretation button: codec ser_button deser_button "\<lambda>b. fits_in 6 (bt_seq b)" "\<lambda>b. b"
  unfolding ser_button_def deser_button_def seqE.simps
  by unfold_locales
    (intro transmits_seq [OF transmits_bool] transmits_last [OF transmits_Uint], simp_all)

text \<open>A door has its data; an id that is not set is sent as \<open>0\<close>.\<close>

definition valid_obstacle_full :: "net_env \<Rightarrow> string obstacle_full \<Rightarrow> bool" where
  "valid_obstacle_full e d = (in_range 0 1 (of_healthT d) \<and> map_type e (of_type d) \<and> fits_in 2 (of_layer d)
     \<and> (of_isDoor d \<longrightarrow> of_door d \<noteq> None \<and> fits_in 5 (dr_seq (the (of_door d))))
     \<and> (of_isButton d \<longrightarrow> of_button d \<noteq> None \<and> fits_in 6 (bt_seq (the (of_button d))))
     \<and> (of_isPuzzlePiece d \<longrightarrow> fits_in 16 (or_zero (of_parentBuildingId d)))
     \<and> (of_isSkin d \<longrightarrow> fits_in 16 (or_zero (of_skinPlayerId d))))"

definition seen_obstacle_full :: "string obstacle_full \<Rightarrow> string option obstacle_full" where
  "seen_obstacle_full d = \<lparr>of_healthT = quantizeN 0 1 8 (of_healthT d), of_type = Some (of_type d),
     of_layer = of_layer d, of_dead = of_dead d, of_isDoor = of_isDoor d,
     of_door = (if of_isDoor d then Some (the (of_door d)) else None), of_isButton = of_isButton d,
     of_button = (if of_isButton d then Some (the (of_button d)) else None), of_isPuzzlePiece = of_isPuzzlePiece d,
     of_parentBuildingId = (if of_isPuzzlePiece d then Some (or_zero (of_parentBuildingId d)) else None),
     of_isSkin = of_isSkin d,
     of_skinPlayerId = (if of_isSkin d then Some (or_zero (of_skinPlayerId d)) else None)\<rparr>"

lemma transmits_field:
  "x \<noteq> None \<Longrightarrow> transmits (w (the x)) r (the x) \<Longrightarrow> transmits (of_field x w) r (the x)"
  by (auto simp: of_field_def)

interpretation obstacle_full: codec "ser_obstacle_full e" "deser_obstacle_full e" "valid_obstacle_full e" seen_obstacle_full for e
proof
  fix d :: "string obstacle_full" assume v: "valid_obstacle_full e d"
  have dr: "transmits (of_field (of_door d) ser_door) deser_door (the (of_door d))" if "of_isDoor d"
    using v that by (intro transmits_field door.fits) (auto simp: valid_obstacle_full_def)
  have bt: "transmits (of_field (of_button d) ser_button) deser_button (the (of_button d))" if "of_isButton d"
    using v that by (intro transmits_field button.fits) (auto simp: valid_obstacle_full_def)
  show "transmits (ser_obstacle_full e d) (deser_obstacle_full e) (seen_obstacle_full d)"
    unfolding ser_obstacle_full_def deser_obstacle_full_def seqE.simps
    by (intro transmits_seq [OF transmits_float] transmits_seq [OF transmits_map] transmits_seq [OF transmits_Uint]
        transmits_seq [OF transmits_bool] transmits_seq [OF transmits_opt [OF dr]] transmits_seq [OF transmits_opt [OF bt]]
        transmits_seq [OF transmits_opt [OF transmits_num16]] transmits_last [OF transmits_opt [OF transmits_num16]])
      (use v in \<open>auto simp: valid_obstacle_full_def seen_obstacle_full_def\<close>)
qed

definition valid_building_part :: "building_part \<Rightarrow> bool" where
  "valid_building_part d = (bp_hasPuzzle d \<longrightarrow> fits_in 7 (or_zero (bp_puzzleErrSeq d)))"

definition seen_building_part :: "building_part \<Rightarrow> building_part" where
  "seen_building_part d = \<lparr>bp_ceilingDead = bp_ceilingDead d, bp_occupied = bp_occupied d,
     bp_ceilingDamaged = bp_ceilingDamaged d, bp_hasPuzzle = bp_hasPuzzle d,
     bp_puzzleSolved = (if bp_hasPuzzle d then Some (bp_puzzleSolved d = Some True) else None),
     bp_puzzleErrSeq = (if bp_hasPuzzle d then Some (or_zero (bp_puzzleErrSeq d)) else None)\<rparr>"

interpretation building_part: codec ser_building_part deser_building_part valid_building_part seen_building_part
proof
  fix d assume v: "valid_building_part d"
  have pz: "transmits (thenE (writeBoolean (bp_puzzleSolved d = Some True)) (writeBits (num_of (bp_puzzleErrSeq d)) 7))
      (bindE readBoolean (\<lambda>sv. bindE (readUint 7) (\<lambda>er. ret (Some sv, Some er))))
      (Some (bp_puzzleSolved d = Some True), Some (or_zero (bp_puzzleErrSeq d)))" if "bp_hasPuzzle d"
    by (intro transmits_seq [OF transmits_bool] transmits_last [OF transmits_num])
      (use v that in \<open>simp_all add: valid_building_part_def\<close>)
  show "transmits (ser_building_part d) deser_building_part (seen_building_part d)"
    unfolding ser_building_part_def deser_building_part_def seqE.simps
    by (intro transmits_seq [OF transmits_bool] transmits_last [OF transmits_when [OF pz]])
      (simp_all add: seen_building_part_def)
qed

definition valid_building_full :: "net_env \<Rightarrow> string building_full \<Rightarrow> bool" where
  "valid_building_full e d = (on_map (bf_pos d) \<and> map_type e (bf_type d) \<and> fits_in 2 (bf_ori d) \<and> fits_in 2 (bf_layer d))"

definition seen_building_full :: "string building_full \<Rightarrow> string option building_full" where
  "seen_building_full d = \<lparr>bf_pos = quantize_pos 16 (bf_pos d), bf_type = Some (bf_type d), bf_ori = bf_ori d,
     bf_layer = bf_layer d\<rparr>"

interpretation building_full: codec "ser_building_full e" "deser_building_full e" "valid_building_full e" seen_building_full for e
proof
  fix d :: "string building_full" assume "valid_building_full e d"
  then show "transmits (ser_building_full e d) (deser_building_full e) (seen_building_full d)"
    unfolding ser_building_full_def deser_building_full_def seqE.simps
    by (intro transmits_seq [OF transmits_map_pos] transmits_seq [OF transmits_map] transmits_seq [OF transmits_Uint]
        transmits_last [OF transmits_Uint])
      (simp_all add: valid_building_full_def seen_building_full_def)
qed

definition valid_structure_full :: "net_env \<Rightarrow> string structure_full \<Rightarrow> bool" where
  "valid_structure_full e d = (on_map (sf_pos d) \<and> map_type e (sf_type d) \<and> fits_in 2 (sf_ori d)
     \<and> fits_in 16 (or_zero (item_at (sf_layerObjIds d) 0)) \<and> fits_in 16 (or_zero (item_at (sf_layerObjIds d) 1)))"

definition seen_structure_full :: "string structure_full \<Rightarrow> string option structure_full" where
  "seen_structure_full d = \<lparr>sf_pos = quantize_pos 16 (sf_pos d), sf_type = Some (sf_type d), sf_ori = sf_ori d,
     sf_interiorSoundEnabled = sf_interiorSoundEnabled d, sf_interiorSoundAlt = sf_interiorSoundAlt d,
     sf_layerObjIds = [or_zero (item_at (sf_layerObjIds d) 0), or_zero (item_at (sf_layerObjIds d) 1)]\<rparr>"

interpretation structure_full: codec "ser_structure_full e" "deser_structure_full e" "valid_structure_full e" seen_structure_full for e
proof
  fix d :: "string structure_full" assume v: "valid_structure_full e d"
  let ?id = "item_at (sf_layerObjIds d)"
  have two: "[0..<Suc (Suc 0)] = [0, 1]" by (simp add: upt_rec)
  have n: "structureLayerCount = Suc (Suc 0)" by (simp add: structureLayerCount_def)
  have id: "transmits (writeBits (num_of (?id 0)) 16) readUint16 (or_zero (?id 0))"
    "transmits (writeBits (num_of (?id 1)) 16) readUint16 (or_zero (?id 1))"
    using v by (simp_all add: valid_structure_full_def transmits_num16)
  have "transmits (thenE (writeBits (num_of (?id 1)) 16) (ret ()))
      (bindE readUint16 (\<lambda>a. bindE (ret []) (\<lambda>as. ret (a # as)))) [or_zero (?id 1)]"
    by (rule transmits_seq [OF id(2)], rule transmits_last [OF transmits_ret]) simp
  then have ids: "transmits (forE [0..<structureLayerCount] (\<lambda>r. writeBits (num_of (?id r)) 16))
      (repeatE structureLayerCount readUint16) [or_zero (?id 0), or_zero (?id 1)]"
    unfolding n two forE.simps repeatE.simps by (intro transmits_seq [OF id(1)]) (erule transmits_last, simp)
  show "transmits (ser_structure_full e d) (deser_structure_full e) (seen_structure_full d)"
    unfolding ser_structure_full_def deser_structure_full_def seqE.simps
    by (intro transmits_seq [OF transmits_map_pos] transmits_seq [OF transmits_map] transmits_seq [OF transmits_Uint]
        transmits_seq [OF transmits_bool] transmits_last [OF ids])
      (use v in \<open>simp_all add: valid_structure_full_def seen_structure_full_def\<close>)
qed

section \<open>Loot, bodies, decals\<close>

definition valid_loot_spawner_part :: "net_env \<Rightarrow> string loot_spawner_part \<Rightarrow> bool" where
  "valid_loot_spawner_part e d = (on_map (ls_pos d) \<and> map_type e (ls_type d) \<and> fits_in 2 (ls_layer d))"

definition seen_loot_spawner_part :: "string loot_spawner_part \<Rightarrow> string option loot_spawner_part" where
  "seen_loot_spawner_part d = \<lparr>ls_pos = quantize_pos 16 (ls_pos d), ls_type = Some (ls_type d), ls_layer = ls_layer d\<rparr>"

interpretation loot_spawner_part: codec "ser_loot_spawner_part e" "deser_loot_spawner_part e"
    "valid_loot_spawner_part e" seen_loot_spawner_part for e
proof
  fix d :: "string loot_spawner_part" assume "valid_loot_spawner_part e d"
  then show "transmits (ser_loot_spawner_part e d) (deser_loot_spawner_part e) (seen_loot_spawner_part d)"
    unfolding ser_loot_spawner_part_def deser_loot_spawner_part_def seqE.simps
    by (intro transmits_seq [OF transmits_map_pos] transmits_seq [OF transmits_map] transmits_last [OF transmits_Uint])
      (simp_all add: valid_loot_spawner_part_def seen_loot_spawner_part_def)
qed

definition valid_loot_full :: "net_env \<Rightarrow> string loot_full \<Rightarrow> bool" where
  "valid_loot_full e d = (game_type e (lf_type d) \<and> byte (lf_count d) \<and> fits_in 2 (lf_layer d)
     \<and> fits_in 16 (or_zero (lf_ownerId d)))"

definition seen_loot_full :: "string loot_full \<Rightarrow> string option loot_full" where
  "seen_loot_full d = \<lparr>lf_type = Some (lf_type d), lf_count = lf_count d, lf_layer = lf_layer d,
     lf_isOld = lf_isOld d, lf_isPreloadedGun = lf_isPreloadedGun d, lf_hasOwner = (lf_ownerId d \<noteq> Some 0),
     lf_ownerId = (if lf_ownerId d \<noteq> Some 0 then Some (or_zero (lf_ownerId d)) else None)\<rparr>"

interpretation loot_full: codec "ser_loot_full e" "deser_loot_full e" "valid_loot_full e" seen_loot_full for e
proof
  fix d :: "string loot_full" assume "valid_loot_full e d"
  then show "transmits (ser_loot_full e d) (deser_loot_full e) (seen_loot_full d)"
    unfolding ser_loot_full_def deser_loot_full_def seqE.simps
    by (intro transmits_seq [OF transmits_game] transmits_seq [OF transmits_byte] transmits_seq [OF transmits_Uint]
        transmits_seq [OF transmits_bool] transmits_last [OF transmits_opt [OF transmits_num16]])
      (simp_all add: valid_loot_full_def seen_loot_full_def)
qed

interpretation dead_body_full: codec ser_dead_body_full deser_dead_body_full
    "\<lambda>d. byte (db_layer d) \<and> short (db_playerId d)" "\<lambda>d. d"
  unfolding ser_dead_body_full_def deser_dead_body_full_def seqE.simps
  by unfold_locales (intro transmits_seq [OF transmits_byte] transmits_last [OF transmits_short], simp_all)

definition valid_decal_full :: "net_env \<Rightarrow> string decal_full \<Rightarrow> bool" where
  "valid_decal_full e d = (on_map (dc_pos d) \<and> map_scale (dc_scale d) \<and> map_type e (dc_type d)
     \<and> fits_in 2 (dc_ori d) \<and> fits_in 2 (dc_layer d) \<and> byte (dc_goreKills d))"

definition seen_decal_full :: "string decal_full \<Rightarrow> string option decal_full" where
  "seen_decal_full d = \<lparr>dc_pos = quantize_pos 16 (dc_pos d), dc_scale = quantize_scale (dc_scale d),
     dc_type = Some (dc_type d), dc_ori = dc_ori d, dc_layer = dc_layer d, dc_goreKills = dc_goreKills d\<rparr>"

interpretation decal_full: codec "ser_decal_full e" "deser_decal_full e" "valid_decal_full e" seen_decal_full for e
proof
  fix d :: "string decal_full" assume "valid_decal_full e d"
  then show "transmits (ser_decal_full e d) (deser_decal_full e) (seen_decal_full d)"
    unfolding ser_decal_full_def deser_decal_full_def seqE.simps
    by (intro transmits_seq [OF transmits_map_pos] transmits_seq [OF transmits_scale] transmits_seq [OF transmits_map]
        transmits_seq [OF transmits_Uint] transmits_last [OF transmits_byte])
      (simp_all add: valid_decal_full_def seen_decal_full_def)
qed

section \<open>Projectiles, smoke, airdrops\<close>

definition valid_projectile_part :: "projectile_part \<Rightarrow> bool" where
  "valid_projectile_part d = (on_map (jp_pos d) \<and> in_range 0 ProjectileMaxHeight (jp_posZ d) \<and> unit_like (jp_dir d))"

definition seen_projectile_part :: "projectile_part \<Rightarrow> projectile_part" where
  "seen_projectile_part d = \<lparr>jp_pos = quantize_pos 16 (jp_pos d),
     jp_posZ = quantizeN 0 ProjectileMaxHeight 10 (jp_posZ d), jp_dir = quantize_unit 7 (jp_dir d)\<rparr>"

interpretation projectile_part: codec ser_projectile_part deser_projectile_part valid_projectile_part seen_projectile_part
proof
  fix d assume "valid_projectile_part d"
  then show "transmits (ser_projectile_part d) deser_projectile_part (seen_projectile_part d)"
    unfolding ser_projectile_part_def deser_projectile_part_def seqE.simps
    by (intro transmits_seq [OF transmits_map_pos] transmits_seq [OF transmits_float] transmits_last [OF transmits_unit_vec])
      (simp_all add: valid_projectile_part_def seen_projectile_part_def ProjectileMaxHeight_def)
qed

definition valid_projectile_full :: "net_env \<Rightarrow> string projectile_full \<Rightarrow> bool" where
  "valid_projectile_full e d = (game_type e (jf_type d) \<and> fits_in 2 (jf_layer d))"

definition seen_projectile_full :: "string projectile_full \<Rightarrow> string option projectile_full" where
  "seen_projectile_full d = \<lparr>jf_type = Some (jf_type d), jf_layer = jf_layer d\<rparr>"

interpretation projectile_full: codec "ser_projectile_full e" "deser_projectile_full e" "valid_projectile_full e"
    seen_projectile_full for e
proof
  fix d :: "string projectile_full" assume "valid_projectile_full e d"
  then show "transmits (ser_projectile_full e d) (deser_projectile_full e) (seen_projectile_full d)"
    unfolding ser_projectile_full_def deser_projectile_full_def seqE.simps
    by (intro transmits_seq [OF transmits_game] transmits_last [OF transmits_Uint])
      (simp_all add: valid_projectile_full_def seen_projectile_full_def)
qed

definition valid_smoke_part :: "smoke_part \<Rightarrow> bool" where
  "valid_smoke_part d = (on_map (sk_pos d) \<and> in_range 0 SmokeMaxRad (sk_rad d))"

definition seen_smoke_part :: "smoke_part \<Rightarrow> smoke_part" where
  "seen_smoke_part d = \<lparr>sk_pos = quantize_pos 16 (sk_pos d), sk_rad = quantizeN 0 SmokeMaxRad 8 (sk_rad d)\<rparr>"

interpretation smoke_part: codec ser_smoke_part deser_smoke_part valid_smoke_part seen_smoke_part
proof
  fix d assume "valid_smoke_part d"
  then show "transmits (ser_smoke_part d) deser_smoke_part (seen_smoke_part d)"
    unfolding ser_smoke_part_def deser_smoke_part_def seqE.simps
    by (intro transmits_seq [OF transmits_map_pos] transmits_last [OF transmits_float])
      (simp_all add: valid_smoke_part_def seen_smoke_part_def SmokeMaxRad_def)
qed

interpretation smoke_full: codec ser_smoke_full deser_smoke_full
    "\<lambda>d. fits_in 2 (sm_layer d) \<and> fits_in 6 (sm_interior d)" "\<lambda>d. d"
  unfolding ser_smoke_full_def deser_smoke_full_def seqE.simps
  by unfold_locales (intro transmits_seq [OF transmits_Uint] transmits_last [OF transmits_Uint], simp_all)

definition seen_airdrop_part :: "airdrop_part \<Rightarrow> airdrop_part" where
  "seen_airdrop_part d = \<lparr>ad_fallT = quantizeN 0 1 7 (ad_fallT d), ad_landed = ad_landed d\<rparr>"

interpretation airdrop_part: codec ser_airdrop_part deser_airdrop_part
    "\<lambda>d. in_range 0 1 (ad_fallT d)" seen_airdrop_part
  unfolding ser_airdrop_part_def deser_airdrop_part_def seqE.simps
  by unfold_locales
    (intro transmits_seq [OF transmits_float] transmits_last [OF transmits_bool], simp_all add: seen_airdrop_part_def)

section \<open>The table\<close>

fun valid_part :: "net_env \<Rightarrow> object_type \<Rightarrow> string part_data \<Rightarrow> bool" where
  "valid_part e t NoPart = (t = Structure \<or> t = Decal \<or> t = Invalid)"
| "valid_part e t (PlayerPart d) = (t = Player \<and> valid_player_part d)"
| "valid_part e t (ObstaclePart d) = (t = Obstacle \<and> valid_obstacle_part d)"
| "valid_part e t (PosPart p) = ((t = Loot \<or> t = DeadBody) \<and> on_map p)"
| "valid_part e t (LootSpawnerPart d) = (t = LootSpawner \<and> valid_loot_spawner_part e d)"
| "valid_part e t (BuildingPart d) = (t = Building \<and> valid_building_part d)"
| "valid_part e t (ProjectilePart d) = (t = Projectile \<and> valid_projectile_part d)"
| "valid_part e t (SmokePart d) = (t = Smoke \<and> valid_smoke_part d)"
| "valid_part e t (AirdropPart d) = (t = Airdrop \<and> in_range 0 1 (ad_fallT d))"

fun seen_part :: "string part_data \<Rightarrow> string option part_data" where
  "seen_part NoPart = NoPart"
| "seen_part (PlayerPart d) = PlayerPart (seen_player_part d)"
| "seen_part (ObstaclePart d) = ObstaclePart (seen_obstacle_part d)"
| "seen_part (PosPart p) = PosPart (quantize_pos 16 p)"
| "seen_part (LootSpawnerPart d) = LootSpawnerPart (seen_loot_spawner_part d)"
| "seen_part (BuildingPart d) = BuildingPart (seen_building_part d)"
| "seen_part (ProjectilePart d) = ProjectilePart (seen_projectile_part d)"
| "seen_part (SmokePart d) = SmokePart (seen_smoke_part d)"
| "seen_part (AirdropPart d) = AirdropPart (seen_airdrop_part d)"

fun valid_full :: "net_env \<Rightarrow> object_type \<Rightarrow> string full_data \<Rightarrow> bool" where
  "valid_full e t NoFull = (t = LootSpawner \<or> t = Invalid)"
| "valid_full e t (PlayerFull d) = (t = Player \<and> valid_player_full e d)"
| "valid_full e t (ObstacleFull d) = (t = Obstacle \<and> valid_obstacle_full e d)"
| "valid_full e t (LootFull d) = (t = Loot \<and> valid_loot_full e d)"
| "valid_full e t (DeadBodyFull d) = (t = DeadBody \<and> byte (db_layer d) \<and> short (db_playerId d))"
| "valid_full e t (BuildingFull d) = (t = Building \<and> valid_building_full e d)"
| "valid_full e t (StructureFull d) = (t = Structure \<and> valid_structure_full e d)"
| "valid_full e t (DecalFull d) = (t = Decal \<and> valid_decal_full e d)"
| "valid_full e t (ProjectileFull d) = (t = Projectile \<and> valid_projectile_full e d)"
| "valid_full e t (SmokeFull d) = (t = Smoke \<and> fits_in 2 (sm_layer d) \<and> fits_in 6 (sm_interior d))"
| "valid_full e t (PosFull p) = (t = Airdrop \<and> on_map p)"

fun seen_full :: "string full_data \<Rightarrow> string option full_data" where
  "seen_full NoFull = NoFull"
| "seen_full (PlayerFull d) = PlayerFull (seen_player_full d)"
| "seen_full (ObstacleFull d) = ObstacleFull (seen_obstacle_full d)"
| "seen_full (LootFull d) = LootFull (seen_loot_full d)"
| "seen_full (DeadBodyFull d) = DeadBodyFull d"
| "seen_full (BuildingFull d) = BuildingFull (seen_building_full d)"
| "seen_full (StructureFull d) = StructureFull (seen_structure_full d)"
| "seen_full (DecalFull d) = DecalFull (seen_decal_full d)"
| "seen_full (ProjectileFull d) = ProjectileFull (seen_projectile_full d)"
| "seen_full (SmokeFull d) = SmokeFull d"
| "seen_full (PosFull p) = PosFull (quantize_pos 16 p)"

lemma transmits_part: "valid_part e t d \<Longrightarrow> transmits (serializePart e d) (deserializePart e t) (seen_part d)"
  by (cases d)
    (auto simp: transmits_ret player_part.fits obstacle_part.fits transmits_map_pos loot_spawner_part.fits
      building_part.fits projectile_part.fits smoke_part.fits airdrop_part.fits intro!: transmits_mapE)

lemma transmits_full: "valid_full e t d \<Longrightarrow> transmits (serializeFull e d) (deserializeFull e t) (seen_full d)"
  by (cases d)
    (auto simp: transmits_ret player_full.fits obstacle_full.fits transmits_map_pos loot_full.fits
      building_full.fits structure_full.fits decal_full.fits projectile_full.fits
      dead_body_full.fits smoke_full.fits intro!: transmits_mapE)

end
