(* ===== verification/NetObjectStreams.thy ===== *)
theory NetObjectStreams
  imports NetObjectFacts
begin

text \<open>
  The buffers of an object: the sizes of the table are large enough for every object of its type,
  and what a message copies from them is read back as the object.
\<close>

section \<open>Upper bounds on what is written\<close>

definition at_most :: "nat \<Rightarrow> unit bs \<Rightarrow> bool" where
  "at_most n w = (\<forall>s s'. w s = (Inr (), s') \<longrightarrow> bs_index s' \<le> bs_index s + n)"

named_theorems limits \<open>upper bounds on what a writer writes\<close>

lemma at_most_mono: "at_most m w \<Longrightarrow> m \<le> n \<Longrightarrow> at_most n w"
  unfolding at_most_def by (meson add_left_mono order_trans)

lemma at_most_sized: "sized n w \<Longrightarrow> at_most n w"
  by (simp add: sized_def at_most_def)

lemma at_most_thenE [limits]: "at_most m w \<Longrightarrow> at_most n w' \<Longrightarrow> at_most (m + n) (thenE w w')"
  unfolding at_most_def thenE_def bindE_def by (fastforce split: prod.splits sum.splits)

lemma at_most_ret [limits]: "at_most 0 (ret ())"
  by (rule at_most_sized [OF sized_ret])

lemma at_most_when [limits]: "at_most n w \<Longrightarrow> at_most n (if b then w else ret ())"
  using at_most_mono [OF at_most_ret] by simp

lemma at_most_throw [limits]: "at_most 0 (throwE e)"
  by (simp add: at_most_def throwE_def)

lemma at_most_field [limits]: "(\<And>a. at_most n (w a)) \<Longrightarrow> at_most n (of_field x w)"
  by (cases x) (simp_all add: of_field_def at_most_mono [OF at_most_throw])

lemma at_most_liftB: "(\<And>a. at_most n (k a)) \<Longrightarrow> at_most n (bindE (liftB x) k)"
  by (cases x) (auto simp: liftB_def at_most_def bindE_def throwE_def ret_def)

lemma at_most_game [limits]: "at_most 10 (writeGameType r t)"
  unfolding writeGameType_def writeType_def by (intro at_most_liftB at_most_sized sized_writeBits)

lemma at_most_map_type [limits]: "at_most 12 (writeMapType r t)"
  unfolding writeMapType_def writeType_def by (intro at_most_liftB at_most_sized sized_writeBits)

lemma at_most_Uint: "at_most n (writeUint n x)"
  unfolding writeUint_def by (intro at_most_sized sized_writeBits)

lemmas at_most_fields [limits] = at_most_Uint at_most_sized [OF sized_writeBits] at_most_sized [OF sized_uint8]
  at_most_sized [OF sized_uint16] at_most_sized [OF sized_bool] at_most_sized [OF sized_float]
  at_most_sized [OF sized_map_pos] at_most_sized [OF sized_unit_vec]

lemma at_most_forE: "(\<And>a. at_most n (f a)) \<Longrightarrow> at_most (length xs * n) (forE xs f)"
  by (induction xs) (simp_all add: at_most_ret at_most_thenE)

lemma at_most_array:
  assumes "\<And>a. at_most n (f a)"
  shows "at_most (bits + (2 ^ bits - 1) * n) (writeArray xs bits f)"
proof -
  have "at_most (length (take (min (length xs) (2 ^ bits - 1)) xs) * n) (forE (take (min (length xs) (2 ^ bits - 1)) xs) f)"
    by (rule at_most_forE [OF assms])
  then have "at_most (bits + (2 ^ bits - 1) * n)
      (thenE (writeBits (js_int (int (min (length xs) (2 ^ bits - 1)))) bits) (forE (take (min (length xs) (2 ^ bits - 1)) xs) f))"
    by (intro at_most_thenE at_most_sized [OF sized_writeBits]) (erule at_most_mono, simp)
  then show ?thesis
    unfolding writeArray_def Let_def
    by (cases "0 < bits \<and> bits < 31")
      (simp_all add: at_most_def thenE_def assertE_def guardE_def bindE_def throwE_def ret_def)
qed

lemma at_most_door [limits]: "at_most 8 (ser_door d)"
  unfolding ser_door_def seqE.simps by (rule at_most_mono, (rule limits)+, simp)

lemma at_most_button [limits]: "at_most 8 (ser_button d)"
  unfolding ser_button_def seqE.simps by (rule at_most_mono, (rule limits)+, simp)

lemma at_most_obstacle: "at_most 128 (ser_obstacle_full e d)"
  unfolding ser_obstacle_full_def seqE.simps by (rule at_most_mono, (rule limits)+, simp)

lemma at_most_building: "at_most 16 (ser_building_part d)"
  unfolding ser_building_part_def seqE.simps by (rule at_most_mono, (rule limits)+, simp)

lemma at_most_loot: "at_most 40 (ser_loot_full e d)"
  unfolding ser_loot_full_def seqE.simps by (rule at_most_mono, (rule limits)+, simp)

lemma at_most_part: "at_most (8 * serializedPartialSize t) (serializePart e d)" if "valid_part e t d"
proof (cases d)
  case (PlayerPart x)
  then show ?thesis using that
    by (simp add: ser_player_part_def) (rule at_most_mono, (rule limits)+, simp)
next
  case (ObstaclePart x)
  then show ?thesis using that
    by (simp add: ser_obstacle_part_def) (rule at_most_mono, (rule limits)+, simp)
next
  case (PosPart x)
  then show ?thesis using that
    by (simp, elim conjE disjE) (rule at_most_mono, (rule limits)+, simp)+
next
  case (LootSpawnerPart x)
  then show ?thesis using that
    by (simp add: ser_loot_spawner_part_def) (rule at_most_mono, (rule limits)+, simp)
next
  case (BuildingPart x)
  then show ?thesis using that at_most_building by simp
next
  case (ProjectilePart x)
  then show ?thesis using that
    by (simp add: ser_projectile_part_def) (rule at_most_mono, (rule limits)+, simp)
next
  case (SmokePart x)
  then show ?thesis using that
    by (simp add: ser_smoke_part_def) (rule at_most_mono, (rule limits)+, simp)
next
  case (AirdropPart x)
  then show ?thesis using that
    by (simp add: ser_airdrop_part_def) (rule at_most_mono, (rule limits)+, simp)
qed (use that in \<open>auto intro: at_most_mono [OF at_most_ret]\<close>)

lemma at_most_player: "at_most 256 (ser_player_full e d)"
proof -
  have perk: "at_most 11 (ser_perk e p)" for p
    unfolding ser_perk_def seqE.simps by (rule at_most_mono, (rule limits)+, simp)
  show ?thesis
    unfolding ser_player_full_def Let_def seqE.simps
    by (rule at_most_mono, (rule limits at_most_array perk)+, simp)
qed

lemma at_most_structure: "at_most 80 (ser_structure_full e d)"
  unfolding ser_structure_full_def seqE.simps
  by (rule at_most_mono, (rule limits at_most_forE)+, simp add: structureLayerCount_def)

lemma at_most_full: "at_most (8 * serializedFullSize t) (serializeFull e d)" if "valid_full e t d"
proof (cases d)
  case (PlayerFull x)
  then show ?thesis using that at_most_player by simp
next
  case (ObstacleFull x)
  then show ?thesis using that at_most_obstacle by simp
next
  case (LootFull x)
  then show ?thesis using that at_most_loot by simp
next
  case (DeadBodyFull x)
  then show ?thesis using that
    by (simp add: ser_dead_body_full_def) (rule at_most_mono, (rule limits)+, simp)
next
  case (BuildingFull x)
  then show ?thesis using that
    by (simp add: ser_building_full_def) (rule at_most_mono, (rule limits)+, simp)
next
  case (StructureFull x)
  then show ?thesis using that at_most_structure by simp
next
  case (DecalFull x)
  then show ?thesis using that
    by (simp add: ser_decal_full_def) (rule at_most_mono, (rule limits)+, simp)
next
  case (ProjectileFull x)
  then show ?thesis using that
    by (simp add: ser_projectile_full_def) (rule at_most_mono, (rule limits)+, simp)
next
  case (SmokeFull x)
  then show ?thesis using that
    by (simp add: ser_smoke_full_def) (rule at_most_mono, (rule limits)+, simp)
next
  case (PosFull x)
  then show ?thesis using that by (simp) (rule at_most_mono, (rule limits)+, simp)
qed (use that in \<open>auto intro: at_most_mono [OF at_most_ret]\<close>)

section \<open>Room\<close>

lemma writes_length:
  assumes f: "writes w f" and n: "at_most n w" and i: "i < 8"
  shows "length (f i) \<le> n"
proof -
  let ?s = "\<lparr>bs_view = replicate (i + length (f i)) 0, bs_index = i, bs_start = 0, bs_length = 0\<rparr>"
  have "writable ?s" by (simp add: writable_def)
  with f i have "wrote w ?s (f i)" unfolding writes_def by fastforce
  then obtain s' where "w ?s = (Inr (), s')" "bs_index s' = i + length (f i)"
    by (cases "w ?s") (auto simp: wrote_def split: sum.splits)
  then show ?thesis using n unfolding at_most_def by fastforce
qed

lemma round_up: "(l :: nat) + (if l mod 8 = 0 then 0 else 8 - l mod 8) = 8 * ((l + 7) div 8)"
proof -
  define q r where "q = l div 8" and "r = l mod 8"
  then have l: "l = 8 * q + r" "r < 8" by simp_all
  have "(l + 7) div 8 = q + (if r = 0 then 0 else 1)" using l by (auto simp: div_nat_eqI)
  then show ?thesis using l by auto
qed

text \<open>An aligned part fits whole bytes that its bits fit.\<close>

lemma aligned_fits:
  assumes t: "transmits w r a" and n: "at_most n w" and whole: "n mod 8 = 0"
    and s: "writable s" "bs_index s = 0" and room: "n \<le> 8 * length (bs_view s)"
  shows "\<exists>s'. thenE w writeAlignToNextByte s = (Inr (), s')"
proof -
  obtain f where f: "writes w f" using t by (auto simp: transmits_def)
  let ?bits = "seq_bits f pad_bits 0"
  have "wrote (thenE w writeAlignToNextByte) s ?bits"
    using writes_thenE [OF f align_bits(1)] s unfolding writes_def by fastforce
  moreover have "length ?bits \<le> n"
  proof -
    have len: "length (f 0) \<le> n" by (rule writes_length [OF f n]) simp
    obtain m where m: "n = 8 * m" using whole by (metis dvd_def mod_eq_0_iff_dvd)
    have "length ?bits = 8 * ((length (f 0) + 7) div 8)"
      using round_up [of "length (f 0)"] by (simp add: seq_bits_def pad_bits_def split: if_splits)
    also have "\<dots> \<le> 8 * m" using len m by (intro mult_left_mono) linarith+
    finally show ?thesis by (simp add: m)
  qed
  ultimately show ?thesis
    using room s(2) by (cases "thenE w writeAlignToNextByte s") (auto simp: wrote_def split: sum.splits)
qed

section \<open>Objects\<close>

definition valid_object :: "net_env \<Rightarrow> game_object \<Rightarrow> bool" where
  "valid_object e g = (gob_type g \<noteq> Invalid \<and> 0 < gob_id g \<and> gob_id g < 65536
     \<and> valid_part e (gob_type g) (gob_part g) \<and> valid_full e (gob_type g) (gob_full g))"

text \<open>The buffers have the sizes of the table.\<close>

definition buffers :: "game_object \<Rightarrow> bool" where
  "buffers g = (bs_start (gob_partialStream g) = 0 \<and> bs_start (gob_fullStream g) = 0
     \<and> length (bs_view (gob_partialStream g)) = 3 + serializedPartialSize (gob_type g)
     \<and> length (bs_view (gob_fullStream g)) = serializedFullSize (gob_type g))"

text \<open>What a reader of an object does.\<close>

definition read_typed :: "(object_type \<Rightarrow> 'a bs) \<Rightarrow> int \<Rightarrow> 'a bs" where
  "read_typed r n = (case type_of_code n of None \<Rightarrow> throwE ''TypeError'' | Some t \<Rightarrow> r t)"

lemma read_typed_code [simp]: "read_typed r (type_code t) = r t"
  by (simp add: read_typed_def)

lemma thenE_assoc [simp]: "thenE (thenE a b) c = thenE a (thenE b c)"
  by (simp add: thenE_def bindE_def fun_eq_iff split: prod.splits sum.splits)

lemma registered_valid: "valid_object e g \<Longrightarrow> registered g"
  by (cases "gob_type g") (simp_all add: valid_object_def registered_def)

lemma set_index_run: "bs_start s = 0 \<Longrightarrow> thenE (set_index 0) w s = w (s\<lparr>bs_index := 0\<rparr>)"
  by (simp add: thenE_def bindE_def set_index_def modifyE_def)

definition id_data :: "net_env \<Rightarrow> game_object \<Rightarrow> unit bs" where
  "id_data e g = thenE (writeUint8 (type_code (gob_type g)))
     (thenE (writeUint16 (gob_id g)) (serializePart e (gob_part g)))"

lemma transmits_id_data:
  "valid_object e g \<Longrightarrow> transmits (id_data e g)
     (bindE readUint8 (\<lambda>n. bindE readUint16 (\<lambda>i. mapE (\<lambda>p. (n, i, p)) (read_typed (deserializePart e) n))))
     (type_code (gob_type g), gob_id g, seen_part (gob_part g))"
  unfolding id_data_def
  by (intro transmits_seq [OF transmits_byte] transmits_seq [OF transmits_short])
    (simp_all add: valid_object_def short_def
      transmits_mapE [OF transmits_part, where f = "\<lambda>p. (type_code (gob_type g), gob_id g, p)"])

lemma at_most_id_data: "valid_object e g \<Longrightarrow> at_most (24 + 8 * serializedPartialSize (gob_type g)) (id_data e g)"
  unfolding id_data_def
  by (rule at_most_mono, (rule limits at_most_part [where t = "gob_type g"])+)
    (simp_all add: valid_object_def)

lemma partial_writer_split: "partial_writer e g = thenE (id_data e g) writeAlignToNextByte"
  by (simp add: partial_writer_def id_data_def)

lemma full_writer_split: "full_writer e g = thenE (serializeFull e (gob_full g)) writeAlignToNextByte"
  by (simp add: full_writer_def)

text \<open>The streams hold what the object has.\<close>

definition partial_fresh :: "net_env \<Rightarrow> game_object \<Rightarrow> bool" where
  "partial_fresh e g = (\<exists>s0. writable s0 \<and> bs_index s0 = 0 \<and> partial_writer e g s0 = (Inr (), gob_partialStream g))"

definition full_fresh :: "net_env \<Rightarrow> game_object \<Rightarrow> bool" where
  "full_fresh e g = (\<exists>s0. writable s0 \<and> bs_index s0 = 0 \<and> full_writer e g s0 = (Inr (), gob_fullStream g))"

lemma aligned_write:
  assumes t: "transmits w r a" and n: "at_most n w" "n mod 8 = 0" "n = 8 * length (bs_view s)" and s: "bs_start s = 0"
  obtains s' where "thenE (set_index 0) (thenE w writeAlignToNextByte) s = (Inr (), s')"
    and "writable s'" and "length (bs_view s') = length (bs_view s)"
    and "thenE w writeAlignToNextByte (s\<lparr>bs_index := 0\<rparr>) = (Inr (), s')"
proof -
  let ?s = "s\<lparr>bs_index := 0\<rparr>"
  have w: "writable ?s" using s by (simp add: writable_def)
  obtain s' where s': "thenE w writeAlignToNextByte ?s = (Inr (), s')"
    using aligned_fits [OF t n(1,2) w] n(3) by auto
  have "transmits (thenE w writeAlignToNextByte) (bindE r (\<lambda>_. readAlignToNextByte)) ()"
    by (rule transmits_seq [OF t transmits_align])
  from transmits_keeps [OF this w s'] show ?thesis
    using that s' s by (simp add: set_index_run)
qed

lemma serializePartial_ok:
  assumes v: "valid_object e g" and b: "buffers g" and i: "gob_initialized g"
  obtains s where "serializePartial e g = (Inr (), g\<lparr>gob_partialStream := s\<rparr>)"
    and "buffers (g\<lparr>gob_partialStream := s\<rparr>)" and "partial_fresh e (g\<lparr>gob_partialStream := s\<rparr>)"
proof -
  let ?s = "gob_partialStream g"
  obtain s' where s': "thenE (set_index 0) (thenE (id_data e g) writeAlignToNextByte) ?s = (Inr (), s')"
      "writable s'" "length (bs_view s') = length (bs_view ?s)"
      "thenE (id_data e g) writeAlignToNextByte (?s\<lparr>bs_index := 0\<rparr>) = (Inr (), s')"
    by (rule aligned_write [OF transmits_id_data [OF v] at_most_id_data [OF v], where s = ?s])
      (use b in \<open>simp_all add: buffers_def\<close>)
  have same: "partial_writer e (g\<lparr>gob_partialStream := s'\<rparr>) = partial_writer e g" by (simp add: partial_writer_def)
  show thesis
  proof (rule that [of s'])
    show "serializePartial e g = (Inr (), g\<lparr>gob_partialStream := s'\<rparr>)"
      using i registered_valid [OF v] s'(1) by (simp add: serializePartial_def partial_writer_split)
    show "buffers (g\<lparr>gob_partialStream := s'\<rparr>)" using b s' by (simp add: buffers_def writable_def)
    show "partial_fresh e (g\<lparr>gob_partialStream := s'\<rparr>)"
      unfolding partial_fresh_def same partial_writer_split using s'(4) b
      by (intro exI [of _ "?s\<lparr>bs_index := 0\<rparr>"]) (simp add: buffers_def writable_def id_data_def)
  qed
qed

lemma serializeFull_ok:
  assumes v: "valid_object e g" and b: "buffers g" and i: "gob_initialized g"
  obtains g' where "serializeFullObj e g = (Inr (), g')" and "buffers g'" and "partial_fresh e g'" and "full_fresh e g'"
    and "gob_part g' = gob_part g" and "gob_full g' = gob_full g" and "gob_id g' = gob_id g"
    and "gob_type g' = gob_type g" and "gob_initialized g'"
proof -
  obtain p where p: "serializePartial e g = (Inr (), g\<lparr>gob_partialStream := p\<rparr>)"
      "buffers (g\<lparr>gob_partialStream := p\<rparr>)" "partial_fresh e (g\<lparr>gob_partialStream := p\<rparr>)"
    by (rule serializePartial_ok [OF assms])
  let ?g = "g\<lparr>gob_partialStream := p\<rparr>" and ?s = "gob_fullStream g"
  have full: "valid_full e (gob_type g) (gob_full g)" using v by (simp add: valid_object_def)
  obtain s' where s': "thenE (set_index 0) (thenE (serializeFull e (gob_full g)) writeAlignToNextByte) ?s = (Inr (), s')"
      "writable s'" "length (bs_view s') = length (bs_view ?s)"
      "thenE (serializeFull e (gob_full g)) writeAlignToNextByte (?s\<lparr>bs_index := 0\<rparr>) = (Inr (), s')"
    by (rule aligned_write [OF transmits_full [OF full] at_most_full [OF full], where s = ?s])
      (use b in \<open>simp_all add: buffers_def\<close>)
  let ?g' = "?g\<lparr>gob_fullStream := s'\<rparr>"
  show thesis
  proof (rule that [of ?g'])
    show "serializeFullObj e g = (Inr (), ?g')"
      using i registered_valid [OF v] p(1) s'(1) by (simp add: serializeFullObj_def full_writer_split)
    show "buffers ?g'" using p(2) s' by (simp add: buffers_def writable_def)
    show "partial_fresh e ?g'" using p(3) by (simp add: partial_fresh_def partial_writer_def)
    show "full_fresh e ?g'"
      unfolding full_fresh_def full_writer_split using s'(4) b
      by (intro exI [of _ "?s\<lparr>bs_index := 0\<rparr>"]) (simp add: buffers_def writable_def)
  qed (use i in simp_all)
qed

text \<open>
  C17: Serializing never runs out of room.  An object whose fields are within the ranges of its
  type is initialized and serialized without an error, and every later serialization of it, with
  other data of the same ranges, succeeds in the same buffers.
\<close>

theorem object_buffers_suffice:
  assumes "valid_object e g" and "valid_object e h" and "gob_type h = gob_type g"
  shows "fst (init_object e g) = Inr ()
    \<and> fst (serializeFullObj e ((snd (init_object e g))\<lparr>gob_part := gob_part h, gob_full := gob_full h\<rparr>)) = Inr ()"
proof -
  let ?g = "g\<lparr>gob_initialized := True,
     gob_partialStream := new_bitstream (replicate (3 + serializedPartialSize (gob_type g)) 0),
     gob_fullStream := new_bitstream (replicate (serializedFullSize (gob_type g)) 0)\<rparr>"
  have v: "valid_object e ?g" using assms by (simp add: valid_object_def)
  have b: "buffers ?g" by (simp add: buffers_def new_bitstream_def)
  obtain g' where g': "serializeFullObj e ?g = (Inr (), g')" "buffers g'"
      "gob_id g' = gob_id g" "gob_type g' = gob_type g" "gob_initialized g'"
    by (rule serializeFull_ok [OF v b]) simp_all
  let ?h = "g'\<lparr>gob_part := gob_part h, gob_full := gob_full h\<rparr>"
  have "valid_object e ?h" "buffers ?h" "gob_initialized ?h"
    using assms g' by (simp_all add: valid_object_def buffers_def)
  then obtain h' where "serializeFullObj e ?h = (Inr (), h')" by (rule serializeFull_ok)
  then show ?thesis using g'(1) by (simp add: init_object_def)
qed

definition sample_env :: net_env where
  "sample_env = (let r = \<lparr>rg_type = [], rg_defs = [], rg_typeToId = Map.empty, rg_idToType = Map.empty,
                          rg_nextId = 0, rg_maxId = 0\<rparr> in
     \<lparr>ne_game = r, ne_map = r, ne_f32bits = \<lambda>_. 0, ne_f32val = \<lambda>_. Num 0\<rparr>)"

definition sample_drop :: "rat \<Rightarrow> game_object" where
  "sample_drop x = \<lparr>gob_type = Airdrop, gob_id = 7, gob_initialized = False, gob_partialStream = new_bitstream [],
     gob_fullStream = new_bitstream [], gob_part = AirdropPart \<lparr>ad_fallT = Num x, ad_landed = False\<rparr>,
     gob_full = PosFull \<lparr>vx = Num 12, vy = Num 34\<rparr>\<rparr>"

lemma object_buffers_suffice_witness:
  "fst (init_object sample_env (sample_drop 0)) = Inr ()
   \<and> fst (serializeFullObj sample_env ((snd (init_object sample_env (sample_drop 0)))
        \<lparr>gob_part := gob_part (sample_drop 1), gob_full := gob_full (sample_drop 1)\<rparr>)) = Inr ()"
  by (rule object_buffers_suffice)
    (simp_all add: valid_object_def sample_drop_def in_range_def on_map_def vec_in_def MaxPosition_def)

end
