(* ===== verification/NetUpdate.thy ===== *)
theory NetUpdate
  imports NetObjectStreams
begin

text \<open>
  The update message of \<open>shared/net/updateMsg.ts\<close>: everything that changed in a tick.  A field
  that may be \<open>undefined\<close> is an option; what is written for \<open>undefined\<close> is what JavaScript
  makes of it (zero, false, the name \<open>undefined\<close>, or a TypeError).  The sections of a message are
  announced by flags, which are written last, over a placeholder at its start.
\<close>

section \<open>Fields\<close>

definition or_nan :: "jsnum option \<Rightarrow> jsnum" where
  "or_nan x = (case x of None \<Rightarrow> NaN | Some n \<Rightarrow> n)"

definition writeGame :: "net_env \<Rightarrow> string option \<Rightarrow> unit bs" where
  "writeGame e x = writeGameType (ne_game e) (case x of None \<Rightarrow> ''undefined'' | Some t \<Rightarrow> t)"

definition readGame :: "net_env \<Rightarrow> string option bs" where
  "readGame e = readGameType (ne_game e)"

section \<open>The active player\<close>

record action_data =
  ac_time :: jsnum
  ac_duration :: jsnum
  ac_targetId :: int

record weapon =
  wp_type :: "string option"
  wp_ammo :: int

record local_data =
  ld_healthDirty :: bool
  ld_health :: "jsnum option"
  ld_boostDirty :: bool
  ld_boost :: "jsnum option"
  ld_zoomDirty :: bool
  ld_zoom :: "int option"
  ld_actionDirty :: bool
  ld_action :: "action_data option"
  ld_inventoryDirty :: bool
  ld_scope :: "string option"
  ld_inventory :: "(string \<rightharpoonup> int) option"
  ld_weapsDirty :: bool
  ld_curWeapIdx :: "int option"
  ld_weapons :: "weapon list option"
  ld_spectatorCountDirty :: bool
  ld_spectatorCount :: "int option"

definition ActionMaxDuration :: rat where
  "ActionMaxDuration = 17 / 2"

definition WeaponSlotCount :: nat where
  "WeaponSlotCount = 4"

definition bag_items :: "string list" where
  "bag_items = [''9mm'', ''762mm'', ''556mm'', ''12gauge'', ''50AE'', ''308sub'', ''flare'', ''45acp'', ''frag'',
     ''smoke'', ''strobe'', ''mirv'', ''snowball'', ''potato'', ''tomato'', ''coconut'', ''bandage'', ''healthkit'',
     ''soda'', ''painkiller'', ''1xscope'', ''2xscope'', ''4xscope'', ''8xscope'', ''15xscope'']"

definition ser_action :: "action_data \<Rightarrow> unit bs" where
  "ser_action a = seqE [writeFloat (ac_time a) 0 ActionMaxDuration 8,
     writeFloat (ac_duration a) 0 ActionMaxDuration 8, writeUint16 (ac_targetId a)]"

definition deser_action :: "action_data bs" where
  "deser_action = bindE (readFloat 0 ActionMaxDuration 8) (\<lambda>t. bindE (readFloat 0 ActionMaxDuration 8) (\<lambda>d.
     bindE readUint16 (\<lambda>i. ret \<lparr>ac_time = t, ac_duration = d, ac_targetId = i\<rparr>)))"

definition held :: "(string \<rightharpoonup> int) \<Rightarrow> string \<Rightarrow> int" where
  "held bag k = (case bag k of None \<Rightarrow> 0 | Some n \<Rightarrow> n)"

definition ser_item :: "(string \<rightharpoonup> int) \<Rightarrow> string \<Rightarrow> unit bs" where
  "ser_item bag k = seqE [writeBoolean (0 < held bag k),
     (if 0 < held bag k then writeUint 9 (held bag k) else ret ())]"

definition deser_item :: "int bs" where
  "deser_item = bindE readBoolean (\<lambda>has. if has then readUint 9 else ret 0)"

definition ser_inventory :: "(string \<rightharpoonup> int) \<Rightarrow> unit bs" where
  "ser_inventory bag = forE bag_items (ser_item bag)"

definition deser_inventory :: "(string \<rightharpoonup> int) bs" where
  "deser_inventory = bindE (repeatE (length bag_items) deser_item) (\<lambda>ns. ret (map_of (zip bag_items ns)))"

definition ser_weapon :: "net_env \<Rightarrow> weapon \<Rightarrow> unit bs" where
  "ser_weapon e w = seqE [writeGame e (wp_type w), writeUint8 (wp_ammo w)]"

definition deser_weapon :: "net_env \<Rightarrow> weapon bs" where
  "deser_weapon e = bindE (readGame e) (\<lambda>t. bindE readUint8 (\<lambda>a. ret \<lparr>wp_type = t, wp_ammo = a\<rparr>))"

definition weapon_at :: "weapon list \<Rightarrow> nat \<Rightarrow> weapon option" where
  "weapon_at ws i = (if i < length ws then Some (ws ! i) else None)"

definition ser_weapons :: "net_env \<Rightarrow> weapon list \<Rightarrow> unit bs" where
  "ser_weapons e ws = forE [0..<WeaponSlotCount] (\<lambda>i. of_field (weapon_at ws i) (ser_weapon e))"

definition deser_weapons :: "net_env \<Rightarrow> weapon list bs" where
  "deser_weapons e = repeatE WeaponSlotCount (deser_weapon e)"

definition serializeActivePlayer :: "net_env \<Rightarrow> local_data \<Rightarrow> unit bs" where
  "serializeActivePlayer e d = seqE [
     writeBoolean (ld_healthDirty d),
     (if ld_healthDirty d then writeFloat (or_nan (ld_health d)) 0 100 8 else ret ()),
     writeBoolean (ld_boostDirty d),
     (if ld_boostDirty d then writeFloat (or_nan (ld_boost d)) 0 100 8 else ret ()),
     writeBoolean (ld_zoomDirty d),
     (if ld_zoomDirty d then writeBits (num_of (ld_zoom d)) 8 else ret ()),
     writeBoolean (ld_actionDirty d),
     (if ld_actionDirty d then of_field (ld_action d) ser_action else ret ()),
     writeBoolean (ld_inventoryDirty d),
     (if ld_inventoryDirty d
      then thenE (writeGame e (ld_scope d)) (of_field (ld_inventory d) ser_inventory) else ret ()),
     writeBoolean (ld_weapsDirty d),
     (if ld_weapsDirty d
      then thenE (writeBits (num_of (ld_curWeapIdx d)) 2) (of_field (ld_weapons d) (ser_weapons e)) else ret ()),
     writeBoolean (ld_spectatorCountDirty d),
     (if ld_spectatorCountDirty d then writeBits (num_of (ld_spectatorCount d)) 8 else ret ()),
     writeAlignToNextByte]"

definition deserializeActivePlayer :: "net_env \<Rightarrow> local_data bs" where
  "deserializeActivePlayer e =
     bindE readBoolean (\<lambda>healthDirty. bindE (read_opt healthDirty (readFloat 0 100 8)) (\<lambda>health.
     bindE readBoolean (\<lambda>boostDirty. bindE (read_opt boostDirty (readFloat 0 100 8)) (\<lambda>boost.
     bindE readBoolean (\<lambda>zoomDirty. bindE (read_opt zoomDirty readUint8) (\<lambda>zoom.
     bindE readBoolean (\<lambda>actionDirty. bindE (read_opt actionDirty deser_action) (\<lambda>action.
     bindE readBoolean (\<lambda>inventoryDirty.
     bindE (if inventoryDirty then bindE (readGame e) (\<lambda>sc. bindE deser_inventory (\<lambda>bag. ret (sc, Some bag)))
            else ret (None, None)) (\<lambda>inventory.
     bindE readBoolean (\<lambda>weapsDirty.
     bindE (if weapsDirty then bindE (readUint 2) (\<lambda>i. bindE (deser_weapons e) (\<lambda>ws. ret (Some i, Some ws)))
            else ret (None, None)) (\<lambda>weaps.
     bindE readBoolean (\<lambda>spectatorCountDirty. bindE (read_opt spectatorCountDirty readUint8) (\<lambda>spectatorCount.
     thenE readAlignToNextByte
     (ret \<lparr>ld_healthDirty = healthDirty, ld_health = health, ld_boostDirty = boostDirty, ld_boost = boost,
           ld_zoomDirty = zoomDirty, ld_zoom = zoom, ld_actionDirty = actionDirty, ld_action = action,
           ld_inventoryDirty = inventoryDirty, ld_scope = fst inventory, ld_inventory = snd inventory,
           ld_weapsDirty = weapsDirty, ld_curWeapIdx = fst weaps, ld_weapons = snd weaps,
           ld_spectatorCountDirty = spectatorCountDirty, ld_spectatorCount = spectatorCount\<rparr>)))))))))))))))"

section \<open>Statuses\<close>

record player_status =
  st_hasData :: bool
  st_pos :: "vec2 option"
  st_visible :: "bool option"
  st_dead :: "bool option"
  st_downed :: "bool option"
  st_role :: "string option"

definition ser_status :: "net_env \<Rightarrow> player_status \<Rightarrow> unit bs" where
  "ser_status e p = seqE [writeBoolean (st_hasData p),
     (if st_hasData p then seqE [of_field (st_pos p) (\<lambda>v. writeMapPos v 11),
        writeBoolean (st_visible p = Some True), writeBoolean (st_dead p = Some True),
        writeBoolean (st_downed p = Some True), writeBoolean (st_role p \<noteq> Some []),
        (if st_role p \<noteq> Some [] then writeGame e (st_role p) else ret ())] else ret ())]"

definition deser_status :: "net_env \<Rightarrow> player_status bs" where
  "deser_status e = bindE readBoolean (\<lambda>hasData.
     if hasData then bindE (readMapPos 11) (\<lambda>pos. bindE readBoolean (\<lambda>visible. bindE readBoolean (\<lambda>dead.
       bindE readBoolean (\<lambda>downed. bindE readBoolean (\<lambda>hasRole.
       bindE (if hasRole then readGame e else ret (Some [])) (\<lambda>role.
       ret \<lparr>st_hasData = True, st_pos = Some pos, st_visible = Some visible, st_dead = Some dead,
            st_downed = Some downed, st_role = role\<rparr>))))))
     else ret \<lparr>st_hasData = False, st_pos = None, st_visible = None, st_dead = None, st_downed = None,
               st_role = None\<rparr>)"

definition serializePlayerStatus :: "net_env \<Rightarrow> player_status list \<Rightarrow> unit bs" where
  "serializePlayerStatus e ps = seqE [writeArray ps 8 (ser_status e), writeAlignToNextByte]"

definition deserializePlayerStatus :: "net_env \<Rightarrow> player_status list bs" where
  "deserializePlayerStatus e = bindE (readArray 8 (deser_status e)) (\<lambda>ps. thenE readAlignToNextByte (ret ps))"

record group_status =
  gs_health :: jsnum
  gs_disconnected :: bool

definition ser_group :: "group_status \<Rightarrow> unit bs" where
  "ser_group g = seqE [writeFloat (gs_health g) 0 100 7, writeBoolean (gs_disconnected g)]"

definition deser_group :: "group_status bs" where
  "deser_group = bindE (readFloat 0 100 7) (\<lambda>h. bindE readBoolean (\<lambda>d. ret \<lparr>gs_health = h, gs_disconnected = d\<rparr>))"

definition serializeGroupStatus :: "group_status list \<Rightarrow> unit bs" where
  "serializeGroupStatus gs = writeArray gs 8 ser_group"

definition deserializeGroupStatus :: "group_status list bs" where
  "deserializeGroupStatus = readArray 8 deser_group"

record player_info =
  pi_playerId :: int
  pi_teamId :: int
  pi_groupId :: int
  pi_name :: js_str
  pi_heal :: "string option"
  pi_boost :: "string option"

definition serializePlayerInfo :: "net_env \<Rightarrow> player_info \<Rightarrow> unit bs" where
  "serializePlayerInfo e d = seqE [writeUint16 (pi_playerId d), writeUint8 (pi_teamId d), writeUint8 (pi_groupId d),
     writeASCIIString (pi_name d) None, writeGame e (pi_heal d), writeGame e (pi_boost d), writeAlignToNextByte]"

definition deserializePlayerInfo :: "net_env \<Rightarrow> player_info bs" where
  "deserializePlayerInfo e = bindE readUint16 (\<lambda>i. bindE readUint8 (\<lambda>t. bindE readUint8 (\<lambda>g.
     bindE (readASCIIString None) (\<lambda>n. bindE (readGame e) (\<lambda>h. bindE (readGame e) (\<lambda>b.
     thenE readAlignToNextByte
     (ret \<lparr>pi_playerId = i, pi_teamId = t, pi_groupId = g, pi_name = n, pi_heal = h, pi_boost = b\<rparr>)))))))"

record gas_data =
  gd_mode :: int
  gd_duration :: jsnum
  gd_posOld :: vec2
  gd_posNew :: vec2
  gd_radOld :: jsnum
  gd_radNew :: jsnum

definition serializeGasData :: "net_env \<Rightarrow> gas_data \<Rightarrow> unit bs" where
  "serializeGasData e d = seqE [writeUint8 (gd_mode d), writeFloat32 e (gd_duration d),
     writeMapPos (gd_posOld d) 16, writeMapPos (gd_posNew d) 16, writeFloat (gd_radOld d) 0 2048 16,
     writeFloat (gd_radNew d) 0 2048 16]"

definition deserializeGasData :: "net_env \<Rightarrow> gas_data bs" where
  "deserializeGasData e = bindE readUint8 (\<lambda>m. bindE (readFloat32 e) (\<lambda>d. bindE (readMapPos 16) (\<lambda>po.
     bindE (readMapPos 16) (\<lambda>pn. bindE (readFloat 0 2048 16) (\<lambda>ro. bindE (readFloat 0 2048 16) (\<lambda>rn.
     ret \<lparr>gd_mode = m, gd_duration = d, gd_posOld = po, gd_posNew = pn, gd_radOld = ro, gd_radNew = rn\<rparr>))))))"

section \<open>Effects\<close>

text \<open>A bullet is written with \<open>startPos\<close> and read into \<open>pos\<close>.\<close>

record bullet =
  bl_playerId :: int
  bl_startPos :: "vec2 option"
  bl_pos :: "vec2 option"
  bl_dir :: vec2
  bl_bulletType :: "string option"
  bl_layer :: int
  bl_varianceT :: jsnum
  bl_distAdjIdx :: int
  bl_clipDistance :: bool
  bl_distance :: "jsnum option"
  bl_shotFx :: bool
  bl_shotSourceType :: "string option"
  bl_shotOffhand :: "bool option"
  bl_lastShot :: "bool option"
  bl_reflectCount :: int
  bl_reflectObjId :: int
  bl_hasModifier :: bool
  bl_speedMult :: jsnum
  bl_distanceMult :: jsnum
  bl_hasSpecialFx :: bool
  bl_shotAlt :: "bool option"
  bl_splinter :: "bool option"
  bl_trailSaturated :: "bool option"
  bl_apRounds :: "bool option"
  bl_highVelocity :: "bool option"
  bl_combatStims :: "bool option"
  bl_trailSmall :: "bool option"
  bl_trailThick :: "bool option"

definition writeFlag :: "bool option \<Rightarrow> unit bs" where
  "writeFlag b = writeBoolean (b = Some True)"

definition ser_bullet :: "net_env \<Rightarrow> bullet \<Rightarrow> unit bs" where
  "ser_bullet e b = seqE [writeUint16 (bl_playerId b), of_field (bl_startPos b) (\<lambda>p. writeMapPos p 16),
     writeUnitVec (bl_dir b) 8, writeGame e (bl_bulletType b), writeUint 2 (bl_layer b),
     writeFloat (bl_varianceT b) 0 1 4, writeUint 4 (bl_distAdjIdx b), writeBoolean (bl_clipDistance b),
     (if bl_clipDistance b then writeFloat (or_nan (bl_distance b)) 0 MaxPosition 16 else ret ()),
     writeBoolean (bl_shotFx b),
     (if bl_shotFx b then seqE [writeGame e (bl_shotSourceType b), writeFlag (bl_shotOffhand b),
        writeFlag (bl_lastShot b)] else ret ()),
     writeBoolean (0 < bl_reflectCount b),
     (if 0 < bl_reflectCount b
      then thenE (writeUint 2 (bl_reflectCount b)) (writeUint16 (bl_reflectObjId b)) else ret ()),
     writeBoolean (bl_hasModifier b),
     (if bl_hasModifier b
      then thenE (writeFloat (bl_speedMult b) (1 / 2) 2 8) (writeFloat (bl_distanceMult b) (1 / 2) 2 8) else ret ()),
     writeBoolean (bl_hasSpecialFx b),
     (if bl_hasSpecialFx b then forE [bl_shotAlt b, bl_splinter b, bl_trailSaturated b, bl_apRounds b,
        bl_highVelocity b, bl_combatStims b, bl_trailSmall b, bl_trailThick b] writeFlag else ret ())]"

definition readFlag :: "bool option bs" where
  "readFlag = bindE readBoolean (\<lambda>b. ret (Some b))"

definition deser_bullet :: "net_env \<Rightarrow> bullet bs" where
  "deser_bullet e = bindE readUint16 (\<lambda>playerId. bindE (readMapPos 16) (\<lambda>pos. bindE (readUnitVec 8) (\<lambda>dir.
     bindE (readGame e) (\<lambda>bulletType. bindE (readUint 2) (\<lambda>layer. bindE (readFloat 0 1 4) (\<lambda>varianceT.
     bindE (readUint 4) (\<lambda>distAdjIdx. bindE readBoolean (\<lambda>clip.
     bindE (read_opt clip (readFloat 0 MaxPosition 16)) (\<lambda>distance. bindE readBoolean (\<lambda>fx.
     bindE (if fx then bindE (readGame e) (\<lambda>t. bindE readFlag (\<lambda>oh. bindE readFlag (\<lambda>ls. ret (t, oh, ls))))
            else ret (None, None, None)) (\<lambda>shot. bindE readBoolean (\<lambda>reflected.
     bindE (if reflected then bindE (readUint 2) (\<lambda>c. bindE readUint16 (\<lambda>i. ret (c, i))) else ret (0, 0)) (\<lambda>reflect.
     bindE readBoolean (\<lambda>hasModifier.
     bindE (if hasModifier then bindE (readFloat (1 / 2) 2 8) (\<lambda>x. bindE (readFloat (1 / 2) 2 8) (\<lambda>y. ret (x, y)))
            else ret (js_int 1, js_int 1)) (\<lambda>mult. bindE readBoolean (\<lambda>special.
     bindE (if special then repeatE 8 readFlag else ret (replicate 8 None)) (\<lambda>fl.
     ret \<lparr>bl_playerId = playerId, bl_startPos = None, bl_pos = Some pos, bl_dir = dir, bl_bulletType = bulletType,
          bl_layer = layer, bl_varianceT = varianceT, bl_distAdjIdx = distAdjIdx, bl_clipDistance = clip,
          bl_distance = distance, bl_shotFx = fx, bl_shotSourceType = fst shot, bl_shotOffhand = fst (snd shot),
          bl_lastShot = snd (snd shot), bl_reflectCount = fst reflect, bl_reflectObjId = snd reflect,
          bl_hasModifier = hasModifier, bl_speedMult = fst mult, bl_distanceMult = snd mult,
          bl_hasSpecialFx = special, bl_shotAlt = fl ! 0, bl_splinter = fl ! 1, bl_trailSaturated = fl ! 2,
          bl_apRounds = fl ! 3, bl_highVelocity = fl ! 4, bl_combatStims = fl ! 5, bl_trailSmall = fl ! 6,
          bl_trailThick = fl ! 7\<rparr>)))))))))))))))))"

record explosion =
  ex_pos :: vec2
  ex_type :: "string option"
  ex_layer :: int

definition ser_explosion :: "net_env \<Rightarrow> explosion \<Rightarrow> unit bs" where
  "ser_explosion e x = seqE [writeMapPos (ex_pos x) 16, writeGame e (ex_type x), writeUint 2 (ex_layer x),
     writeAlignToNextByte]"

definition deser_explosion :: "net_env \<Rightarrow> explosion bs" where
  "deser_explosion e = bindE (readMapPos 16) (\<lambda>p. bindE (readGame e) (\<lambda>t. bindE (readUint 2) (\<lambda>l.
     thenE readAlignToNextByte (ret \<lparr>ex_pos = p, ex_type = t, ex_layer = l\<rparr>))))"

record update_emote =
  ue_playerId :: int
  ue_type :: "string option"
  ue_itemType :: "string option"
  ue_isPing :: bool
  ue_pos :: "vec2 option"

definition ser_update_emote :: "net_env \<Rightarrow> update_emote \<Rightarrow> unit bs" where
  "ser_update_emote e x = seqE [writeUint16 (ue_playerId x), writeGame e (ue_type x), writeGame e (ue_itemType x),
     writeBoolean (ue_isPing x),
     (if ue_isPing x then of_field (ue_pos x) (\<lambda>p. writeMapPos p 16) else ret ()), writeAlignToNextByte]"

definition deser_update_emote :: "net_env \<Rightarrow> update_emote bs" where
  "deser_update_emote e = bindE readUint16 (\<lambda>i. bindE (readGame e) (\<lambda>t. bindE (readGame e) (\<lambda>it.
     bindE readBoolean (\<lambda>ping. bindE (read_opt ping (readMapPos 16)) (\<lambda>p. thenE readAlignToNextByte
     (ret \<lparr>ue_playerId = i, ue_type = t, ue_itemType = it, ue_isPing = ping, ue_pos = p\<rparr>))))))"

record plane =
  pn_id :: int
  pn_pos :: vec2
  pn_planeDir :: vec2
  pn_actionComplete :: bool
  pn_action :: int

definition ser_plane :: "plane \<Rightarrow> unit bs" where
  "ser_plane x = seqE [writeUint8 (pn_id x),
     writeVec (pn_pos x) (- 256) (- 256) (MaxPosition + 256) (MaxPosition + 256) 10,
     writeUnitVec (pn_planeDir x) 8, writeBoolean (pn_actionComplete x), writeUint 3 (pn_action x)]"

definition deser_plane :: "plane bs" where
  "deser_plane = bindE readUint8 (\<lambda>i.
     bindE (readVec (- 256) (- 256) (MaxPosition + 256) (MaxPosition + 256) 10) (\<lambda>p. bindE (readUnitVec 8) (\<lambda>d.
     bindE readBoolean (\<lambda>c. bindE (readUint 3) (\<lambda>a.
     ret \<lparr>pn_id = i, pn_pos = p, pn_planeDir = d, pn_actionComplete = c, pn_action = a\<rparr>)))))"

record airstrike =
  az_pos :: vec2
  az_rad :: jsnum
  az_duration :: jsnum

definition AirstrikeZoneMaxRad :: rat where
  "AirstrikeZoneMaxRad = 256"

definition AirstrikeZoneMaxDuration :: rat where
  "AirstrikeZoneMaxDuration = 60"

definition ser_airstrike :: "airstrike \<Rightarrow> unit bs" where
  "ser_airstrike x = seqE [writeMapPos (az_pos x) 12, writeFloat (az_rad x) 0 AirstrikeZoneMaxRad 8,
     writeFloat (az_duration x) 0 AirstrikeZoneMaxDuration 8]"

definition deser_airstrike :: "airstrike bs" where
  "deser_airstrike = bindE (readMapPos 12) (\<lambda>p. bindE (readFloat 0 AirstrikeZoneMaxRad 8) (\<lambda>r.
     bindE (readFloat 0 AirstrikeZoneMaxDuration 8) (\<lambda>d. ret \<lparr>az_pos = p, az_rad = r, az_duration = d\<rparr>)))"

record map_indicator =
  mi_id :: int
  mi_dead :: bool
  mi_equipped :: bool
  mi_type :: "string option"
  mi_pos :: vec2

definition ser_indicator :: "net_env \<Rightarrow> map_indicator \<Rightarrow> unit bs" where
  "ser_indicator e x = seqE [writeUint MapIndicatorBits (mi_id x), writeBoolean (mi_dead x),
     writeBoolean (mi_equipped x), writeGame e (mi_type x), writeMapPos (mi_pos x) 16]"

definition deser_indicator :: "net_env \<Rightarrow> map_indicator bs" where
  "deser_indicator e = bindE (readUint MapIndicatorBits) (\<lambda>i. bindE readBoolean (\<lambda>d. bindE readBoolean (\<lambda>q.
     bindE (readGame e) (\<lambda>t. bindE (readMapPos 16) (\<lambda>p.
     ret \<lparr>mi_id = i, mi_dead = d, mi_equipped = q, mi_type = t, mi_pos = p\<rparr>)))))"

section \<open>The message\<close>

text \<open>
  The sender's objects are game objects with their streams; the receiver's are the data read from
  them: type, id, partial and, for full objects, full data.
\<close>

record ('f, 'p) update_msg =
  um_delObjIds :: "int list"
  um_fullObjects :: "'f list"
  um_partObjects :: "'p list"
  um_activePlayerId :: int
  um_activePlayerIdDirty :: bool
  um_activePlayerData :: local_data
  um_gasData :: "gas_data option"
  um_gasDirty :: bool
  um_gasT :: jsnum
  um_gasTDirty :: bool
  um_playerInfos :: "player_info list"
  um_deletedPlayerIds :: "int list"
  um_playerStatus :: "player_status list"
  um_playerStatusDirty :: bool
  um_groupStatus :: "group_status list"
  um_groupStatusDirty :: bool
  um_bullets :: "bullet list"
  um_explosions :: "explosion list"
  um_emotes :: "update_emote list"
  um_planes :: "plane list"
  um_airstrikeZones :: "airstrike list"
  um_mapIndicators :: "map_indicator list"
  um_killLeaderId :: int
  um_killLeaderKills :: int
  um_killLeaderDirty :: bool
  um_ack :: int

definition copy_stream :: "bitstream \<Rightarrow> unit bs" where
  "copy_stream src = writeBytes src 0 (byteIndex src)"

definition ser_full_object :: "game_object \<Rightarrow> unit bs" where
  "ser_full_object g = thenE (copy_stream (gob_partialStream g)) (copy_stream (gob_fullStream g))"

definition ser_part_object :: "game_object \<Rightarrow> unit bs" where
  "ser_part_object g = copy_stream (gob_partialStream g)"

text \<open>The sections: the bit that announces it, when it is written, and its writer.\<close>

definition update_sections :: "net_env \<Rightarrow> (game_object, game_object) update_msg \<Rightarrow> (int \<times> bool \<times> unit bs) list" where
  "update_sections e m = [
     (1, um_delObjIds m \<noteq> [], writeArray (um_delObjIds m) 16 writeUint16),
     (2, um_fullObjects m \<noteq> [], writeArray (um_fullObjects m) 16 ser_full_object),
     (0, True, writeArray (um_partObjects m) 16 ser_part_object),
     (4, um_activePlayerIdDirty m, writeUint16 (um_activePlayerId m)),
     (0, True, serializeActivePlayer e (um_activePlayerData m)),
     (8, um_gasDirty m, of_field (um_gasData m) (serializeGasData e)),
     (16, um_gasTDirty m, writeFloat (um_gasT m) 0 1 16),
     (32, um_playerInfos m \<noteq> [], writeArray (um_playerInfos m) 8 (serializePlayerInfo e)),
     (64, um_deletedPlayerIds m \<noteq> [], writeArray (um_deletedPlayerIds m) 8 writeUint16),
     (128, um_playerStatusDirty m, serializePlayerStatus e (um_playerStatus m)),
     (256, um_groupStatusDirty m, serializeGroupStatus (um_groupStatus m)),
     (512, um_bullets m \<noteq> [], thenE (writeArray (um_bullets m) 8 (ser_bullet e)) writeAlignToNextByte),
     (1024, um_explosions m \<noteq> [], writeArray (um_explosions m) 8 (ser_explosion e)),
     (2048, um_emotes m \<noteq> [], writeArray (um_emotes m) 8 (ser_update_emote e)),
     (4096, um_planes m \<noteq> [], writeArray (um_planes m) 8 ser_plane),
     (8192, um_airstrikeZones m \<noteq> [], thenE (writeArray (um_airstrikeZones m) 8 ser_airstrike) writeAlignToNextByte),
     (16384, um_mapIndicators m \<noteq> [],
        thenE (writeArray (um_mapIndicators m) MapIndicatorBits (ser_indicator e)) writeAlignToNextByte),
     (32768, um_killLeaderDirty m, thenE (writeUint16 (um_killLeaderId m)) (writeUint8 (um_killLeaderKills m))),
     (0, True, writeUint8 (um_ack m))]"

definition update_flags :: "(int \<times> bool \<times> unit bs) list \<Rightarrow> int" where
  "update_flags ss = foldl (\<lambda>flags (bit, present, _). if present then flags OR bit else flags) 0 ss"

definition write_sections :: "(int \<times> bool \<times> unit bs) list \<Rightarrow> unit bs" where
  "write_sections ss = forE ss (\<lambda>(_, present, w). if present then w else ret ())"

definition set_byteIndex :: "nat \<Rightarrow> unit bs" where
  "set_byteIndex i = modifyE (\<lambda>s. s\<lparr>bs_index := i * 8\<rparr>)"

definition ser_update :: "net_env \<Rightarrow> (game_object, game_object) update_msg \<Rightarrow> unit bs" where
  "ser_update e m = (let ss = update_sections e m in
     bindE (getsE byteIndex) (\<lambda>flagsIdx. thenE (writeUint16 0) (thenE (write_sections ss)
     (bindE (getsE byteIndex) (\<lambda>idx. thenE (set_byteIndex flagsIdx) (thenE (writeUint16 (update_flags ss))
     (set_byteIndex idx)))))))"

type_synonym full_seen = "int \<times> int \<times> string option part_data \<times> string option full_data"
type_synonym part_seen = "int \<times> int \<times> string option part_data"

definition deser_full_object :: "net_env \<Rightarrow> full_seen bs" where
  "deser_full_object e = bindE readUint8 (\<lambda>t. bindE readUint16 (\<lambda>i.
     bindE (read_typed (deserializePart e) t) (\<lambda>p. thenE readAlignToNextByte
     (bindE (read_typed (deserializeFull e) t) (\<lambda>f. thenE readAlignToNextByte (ret (t, i, p, f)))))))"

definition deser_part_object :: "net_env \<Rightarrow> part_seen bs" where
  "deser_part_object e = bindE readUint8 (\<lambda>t. bindE readUint16 (\<lambda>i.
     bindE (read_typed (deserializePart e) t) (\<lambda>p. thenE readAlignToNextByte (ret (t, i, p)))))"

definition flagged :: "int \<Rightarrow> int \<Rightarrow> bool" where
  "flagged flags m = (flags AND m \<noteq> 0)"

definition aligned_array :: "nat \<Rightarrow> 'a bs \<Rightarrow> 'a list bs" where
  "aligned_array bits r = bindE (readArray bits r) (\<lambda>xs. thenE readAlignToNextByte (ret xs))"

definition deser_update :: "net_env \<Rightarrow> (full_seen, part_seen) update_msg bs" where
  "deser_update e = bindE readUint16 (\<lambda>flags.
     bindE (if flagged flags 1 then readArray 16 readUint16 else ret []) (\<lambda>delObjIds.
     bindE (if flagged flags 2 then readArray 16 (deser_full_object e) else ret []) (\<lambda>fullObjects.
     bindE (readArray 16 (deser_part_object e)) (\<lambda>partObjects.
     bindE (if flagged flags 4 then readUint16 else ret 0) (\<lambda>activePlayerId.
     bindE (deserializeActivePlayer e) (\<lambda>activePlayerData.
     bindE (read_opt (flagged flags 8) (deserializeGasData e)) (\<lambda>gasData.
     bindE (if flagged flags 16 then readFloat 0 1 16 else ret (js_int 0)) (\<lambda>gasT.
     bindE (if flagged flags 32 then readArray 8 (deserializePlayerInfo e) else ret []) (\<lambda>playerInfos.
     bindE (if flagged flags 64 then readArray 8 readUint16 else ret []) (\<lambda>deletedPlayerIds.
     bindE (if flagged flags 128 then deserializePlayerStatus e else ret []) (\<lambda>playerStatus.
     bindE (if flagged flags 256 then deserializeGroupStatus else ret []) (\<lambda>groupStatus.
     bindE (if flagged flags 512 then aligned_array 8 (deser_bullet e) else ret []) (\<lambda>bullets.
     bindE (if flagged flags 1024 then readArray 8 (deser_explosion e) else ret []) (\<lambda>explosions.
     bindE (if flagged flags 2048 then readArray 8 (deser_update_emote e) else ret []) (\<lambda>emotes.
     bindE (if flagged flags 4096 then readArray 8 deser_plane else ret []) (\<lambda>planes.
     bindE (if flagged flags 8192 then aligned_array 8 deser_airstrike else ret []) (\<lambda>airstrikeZones.
     bindE (if flagged flags 16384 then aligned_array MapIndicatorBits (deser_indicator e) else ret []) (\<lambda>mapIndicators.
     bindE (if flagged flags 32768 then bindE readUint16 (\<lambda>i. bindE readUint8 (\<lambda>k. ret (i, k))) else ret (0, 0)) (\<lambda>leader.
     bindE readUint8 (\<lambda>ack.
     ret \<lparr>um_delObjIds = delObjIds, um_fullObjects = fullObjects, um_partObjects = partObjects,
          um_activePlayerId = activePlayerId, um_activePlayerIdDirty = flagged flags 4,
          um_activePlayerData = activePlayerData, um_gasData = gasData, um_gasDirty = flagged flags 8,
          um_gasT = gasT, um_gasTDirty = flagged flags 16, um_playerInfos = playerInfos,
          um_deletedPlayerIds = deletedPlayerIds, um_playerStatus = playerStatus,
          um_playerStatusDirty = flagged flags 128, um_groupStatus = groupStatus,
          um_groupStatusDirty = flagged flags 256, um_bullets = bullets, um_explosions = explosions,
          um_emotes = emotes, um_planes = planes, um_airstrikeZones = airstrikeZones,
          um_mapIndicators = mapIndicators, um_killLeaderId = fst leader, um_killLeaderKills = snd leader,
          um_killLeaderDirty = flagged flags 32768, um_ack = ack\<rparr>))))))))))))))))))))"

end
