(* ===== verification/NetUpdateFacts.thy ===== *)
theory NetUpdateFacts
  imports NetUpdate
begin

text \<open>
  What of an update message arrives: its parts as codecs and frames, the flags, and the message as
  a whole, with the objects read from the streams their owners serialized.
\<close>

section \<open>Fields\<close>

definition some_game :: "net_env \<Rightarrow> string option \<Rightarrow> bool" where
  "some_game e x = (case x of None \<Rightarrow> False | Some t \<Rightarrow> game_type e t)"

lemma transmits_Game [codecs]: "some_game e x \<Longrightarrow> transmits (writeGame e x) (readGame e) x"
  by (cases x) (simp_all add: some_game_def writeGame_def readGame_def transmits_game)

lemma transmits_num8: "fits_in 8 (or_zero x) \<Longrightarrow> transmits (writeBits (num_of x) 8) readUint8 (or_zero x)"
proof -
  assume x: "fits_in 8 (or_zero x)"
  have "writeBits (num_of x) 8 = writeUint8 (or_zero x)"
    by (cases x) (simp_all add: num_of_def or_zero_def writeUint8_def writeInt_def writeBits_def fun_eq_iff)
  then show ?thesis using x by (simp add: fits_in_def transmits_uint8)
qed

lemma transmits_flag_opt [codecs]: "transmits (writeFlag b) readFlag (Some (b = Some True))"
  unfolding writeFlag_def readFlag_def by (rule transmits_last [OF transmits_bool]) simp

lemma transmits_of [codecs]:
  "x \<noteq> None \<Longrightarrow> transmits (w (the x)) r a \<Longrightarrow> transmits (of_field x w) r a"
  by (auto simp: of_field_def)

text \<open>A part that ends with an alignment.\<close>

lemma carries_aligned:
  "transmits w r a \<Longrightarrow> carries {0} {0} (thenE w writeAlignToNextByte) (bindE r (\<lambda>x. thenE readAlignToNextByte (ret x))) a"
  using framed [of w r a "{0}" "\<lambda>x. x"] by simp

text \<open>Anything may come before an alignment.\<close>

lemma carry:
  "transmits w r a \<Longrightarrow> carries UNIV B w' (r' a) b \<Longrightarrow> carries UNIV B (thenE w w') (bindE r r') b"
  by (rule carries_seq [OF transmits_carries])

lemma carry_align: "b = c \<Longrightarrow> carries UNIV {0} writeAlignToNextByte (thenE readAlignToNextByte (ret b)) c"
  unfolding thenE_def by (rule carries_last [OF carries_align, where g = "\<lambda>_. b"]) simp

lemma whole_bytes: "carries UNIV B w r a \<Longrightarrow> carries {0} B w r a"
  by (erule carries_sub) simp

section \<open>The active player\<close>

definition valid_action :: "action_data \<Rightarrow> bool" where
  "valid_action a = (in_range 0 ActionMaxDuration (ac_time a) \<and> in_range 0 ActionMaxDuration (ac_duration a)
     \<and> short (ac_targetId a))"

definition seen_action :: "action_data \<Rightarrow> action_data" where
  "seen_action a = a\<lparr>ac_time := quantizeN 0 ActionMaxDuration 8 (ac_time a),
     ac_duration := quantizeN 0 ActionMaxDuration 8 (ac_duration a)\<rparr>"

interpretation action: codec ser_action deser_action valid_action seen_action
proof
  fix a assume "valid_action a"
  then show "transmits (ser_action a) deser_action (seen_action a)"
    unfolding ser_action_def deser_action_def seqE.simps
    by (intro transmits_seq [OF transmits_float] transmits_last [OF transmits_short])
      (simp_all add: valid_action_def seen_action_def ActionMaxDuration_def)
qed

definition carried :: "(string \<rightharpoonup> int) \<Rightarrow> string \<Rightarrow> int" where
  "carried bag k = (if 0 < held bag k then held bag k else 0)"

interpretation item: codec "ser_item bag" deser_item "\<lambda>k. held bag k < 512" "carried bag" for bag
proof
  fix k assume "held bag k < 512"
  then show "transmits (ser_item bag k) deser_item (carried bag k)"
    unfolding ser_item_def deser_item_def seqE.simps carried_def
    by (intro transmits_seq [OF transmits_bool] transmits_when transmits_Uint) (simp_all add: fits_in_def)
qed

definition valid_inventory :: "(string \<rightharpoonup> int) \<Rightarrow> bool" where
  "valid_inventory bag = (\<forall>k \<in> set bag_items. held bag k < 512)"

definition seen_inventory :: "(string \<rightharpoonup> int) \<Rightarrow> (string \<rightharpoonup> int)" where
  "seen_inventory bag = map_of (zip bag_items (map (carried bag) bag_items))"

interpretation inventory: codec ser_inventory deser_inventory valid_inventory seen_inventory
  unfolding ser_inventory_def deser_inventory_def
  by unfold_locales (rule transmits_last [OF item.elements], simp_all add: valid_inventory_def seen_inventory_def)

text \<open>Every kind of item arrives with its number, also the ones that were not there.\<close>

lemma seen_inventory_item: "seen_inventory bag k = (if k \<in> set bag_items then Some (carried bag k) else None)"
proof -
  have "map_of (zip ks (map f ks)) k = (if k \<in> set ks then Some (f k) else None)" for ks :: "string list" and f :: "string \<Rightarrow> int"
    by (induction ks) auto
  then show ?thesis by (simp add: seen_inventory_def)
qed

definition valid_weapon :: "net_env \<Rightarrow> weapon \<Rightarrow> bool" where
  "valid_weapon e w = (some_game e (wp_type w) \<and> byte (wp_ammo w))"

interpretation weapon: codec "ser_weapon e" "deser_weapon e" "valid_weapon e" "\<lambda>w. w" for e
  unfolding ser_weapon_def deser_weapon_def seqE.simps
  by unfold_locales
    (intro transmits_seq [OF transmits_Game] transmits_last [OF transmits_byte], simp_all add: valid_weapon_def)

interpretation weapon_slot: codec "\<lambda>i. of_field (weapon_at ws i) (ser_weapon e)" "deser_weapon e"
    "\<lambda>i. i < length ws \<and> valid_weapon e (ws ! i)" "nth ws" for ws e
  by unfold_locales (simp add: weapon_at_def of_field_def weapon.fits)

definition valid_weapons :: "net_env \<Rightarrow> weapon list \<Rightarrow> bool" where
  "valid_weapons e ws = (WeaponSlotCount \<le> length ws \<and> (\<forall>w \<in> set ws. valid_weapon e w))"

lemma map_nth_take: "n \<le> length xs \<Longrightarrow> map (nth xs) [0..<n] = take n xs"
  by (rule nth_equalityI) simp_all

interpretation weapons: codec "ser_weapons e" "deser_weapons e" "valid_weapons e" "take WeaponSlotCount" for e
proof
  fix ws :: "weapon list" assume v: "valid_weapons e ws"
  then have "\<forall>i \<in> set [0..<WeaponSlotCount]. i < length ws \<and> valid_weapon e (ws ! i)"
    by (auto simp: valid_weapons_def)
  from weapon_slot.elements [OF this] show "transmits (ser_weapons e ws) (deser_weapons e) (take WeaponSlotCount ws)"
    unfolding ser_weapons_def deser_weapons_def using v by (simp add: map_nth_take valid_weapons_def)
qed

definition valid_local :: "net_env \<Rightarrow> local_data \<Rightarrow> bool" where
  "valid_local e d = ((ld_healthDirty d \<longrightarrow> in_range 0 100 (or_nan (ld_health d)))
     \<and> (ld_boostDirty d \<longrightarrow> in_range 0 100 (or_nan (ld_boost d)))
     \<and> (ld_zoomDirty d \<longrightarrow> fits_in 8 (or_zero (ld_zoom d)))
     \<and> (ld_actionDirty d \<longrightarrow> ld_action d \<noteq> None \<and> valid_action (the (ld_action d)))
     \<and> (ld_inventoryDirty d \<longrightarrow> some_game e (ld_scope d) \<and> ld_inventory d \<noteq> None
          \<and> valid_inventory (the (ld_inventory d)))
     \<and> (ld_weapsDirty d \<longrightarrow> fits_in 2 (or_zero (ld_curWeapIdx d)) \<and> ld_weapons d \<noteq> None
          \<and> valid_weapons e (the (ld_weapons d)))
     \<and> (ld_spectatorCountDirty d \<longrightarrow> fits_in 8 (or_zero (ld_spectatorCount d))))"

text \<open>What is not dirty does not arrive.\<close>

definition sent :: "bool \<Rightarrow> 'a \<Rightarrow> 'a option" where
  "sent b x = (if b then Some x else None)"

definition seen_local :: "local_data \<Rightarrow> local_data" where
  "seen_local d = d\<lparr>ld_health := sent (ld_healthDirty d) (quantizeN 0 100 8 (or_nan (ld_health d))),
     ld_boost := sent (ld_boostDirty d) (quantizeN 0 100 8 (or_nan (ld_boost d))),
     ld_zoom := sent (ld_zoomDirty d) (or_zero (ld_zoom d)),
     ld_action := sent (ld_actionDirty d) (seen_action (the (ld_action d))),
     ld_scope := (if ld_inventoryDirty d then ld_scope d else None),
     ld_inventory := sent (ld_inventoryDirty d) (seen_inventory (the (ld_inventory d))),
     ld_curWeapIdx := sent (ld_weapsDirty d) (or_zero (ld_curWeapIdx d)),
     ld_weapons := sent (ld_weapsDirty d) (take WeaponSlotCount (the (ld_weapons d))),
     ld_spectatorCount := sent (ld_spectatorCountDirty d) (or_zero (ld_spectatorCount d))\<rparr>"

lemma carries_local:
  assumes v: "valid_local e d"
  shows "carries {0} {0} (serializeActivePlayer e d) (deserializeActivePlayer e) (seen_local d)"
proof -
  let ?i = "thenE (writeGame e (ld_scope d)) (of_field (ld_inventory d) ser_inventory)"
  have bag: "transmits ?i (bindE (readGame e) (\<lambda>sc. bindE deser_inventory (\<lambda>bag. ret (sc, Some bag))))
      (ld_scope d, Some (seen_inventory (the (ld_inventory d))))" if "ld_inventoryDirty d"
    by (intro transmits_seq [OF transmits_Game] transmits_last [OF transmits_of [OF _ inventory.fits]])
      (use v that in \<open>simp_all add: valid_local_def\<close>)
  let ?w = "thenE (writeBits (num_of (ld_curWeapIdx d)) 2) (of_field (ld_weapons d) (ser_weapons e))"
  have weaps: "transmits ?w (bindE (readUint 2) (\<lambda>i. bindE (deser_weapons e) (\<lambda>ws. ret (Some i, Some ws))))
      (Some (or_zero (ld_curWeapIdx d)), Some (take WeaponSlotCount (the (ld_weapons d))))" if "ld_weapsDirty d"
    by (intro transmits_seq [OF transmits_num] transmits_last [OF transmits_of [OF _ weapons.fits]])
      (use v that in \<open>simp_all add: valid_local_def\<close>)
  show ?thesis
    unfolding serializeActivePlayer_def deserializeActivePlayer_def seqE.simps
    by (intro whole_bytes carry [OF transmits_bool] carry [OF transmits_opt [OF transmits_float]]
        carry [OF transmits_opt [OF transmits_num8]] carry [OF transmits_opt [OF transmits_of [OF _ action.fits]]]
        carry [OF transmits_when [OF bag]] carry [OF transmits_when [OF weaps]])
      (use v in \<open>simp_all add: carry_align valid_local_def seen_local_def sent_def\<close>)
qed

section \<open>Statuses\<close>

definition valid_status :: "net_env \<Rightarrow> player_status \<Rightarrow> bool" where
  "valid_status e p = (st_hasData p \<longrightarrow> st_pos p \<noteq> None \<and> on_map (the (st_pos p))
     \<and> (st_role p \<noteq> Some [] \<longrightarrow> some_game e (st_role p)))"

definition seen_status :: "player_status \<Rightarrow> player_status" where
  "seen_status p = (if st_hasData p
     then p\<lparr>st_pos := Some (quantize_pos 11 (the (st_pos p))), st_visible := Some (st_visible p = Some True),
            st_dead := Some (st_dead p = Some True), st_downed := Some (st_downed p = Some True)\<rparr>
     else \<lparr>st_hasData = False, st_pos = None, st_visible = None, st_dead = None, st_downed = None, st_role = None\<rparr>)"

interpretation status: codec "ser_status e" "deser_status e" "valid_status e" seen_status for e
proof
  fix p assume v: "valid_status e p"
  show "transmits (ser_status e p) (deser_status e) (seen_status p)"
    unfolding ser_status_def deser_status_def seqE.simps
  proof (rule transmits_seq [OF transmits_bool], rule transmits_if, goal_cases)
    case 1
    then show ?case
      by (intro transmits_seq [OF transmits_of [OF _ transmits_map_pos]] transmits_seq [OF transmits_bool]
          transmits_last [OF transmits_when [OF transmits_Game]])
        (use v in \<open>simp_all add: valid_status_def seen_status_def\<close>)
  next
    case 2
    then show ?case by (simp add: seen_status_def transmits_ret)
  qed
qed

lemma carries_statuses:
  assumes "\<forall>p \<in> set ps. valid_status e p" and "length ps < 256"
  shows "carries {0} {0} (serializePlayerStatus e ps) (deserializePlayerStatus e) (map seen_status ps)"
  unfolding serializePlayerStatus_def deserializePlayerStatus_def seqE.simps
  by (rule carries_aligned, rule status.array) (use assms in simp_all)

definition valid_group :: "group_status \<Rightarrow> bool" where
  "valid_group g = in_range 0 100 (gs_health g)"

definition seen_group :: "group_status \<Rightarrow> group_status" where
  "seen_group g = g\<lparr>gs_health := quantizeN 0 100 7 (gs_health g)\<rparr>"

interpretation group: frame ser_group deser_group valid_group seen_group
proof
  fix g assume "valid_group g"
  then have "transmits (ser_group g) deser_group (seen_group g)"
    unfolding ser_group_def deser_group_def seqE.simps
    by (intro transmits_seq [OF transmits_float] transmits_last [OF transmits_bool])
      (simp_all add: valid_group_def seen_group_def)
  moreover have "sized (7 + 1) (ser_group g)"
    unfolding ser_group_def seqE.simps by (intro sized_thenE sizes)
  ultimately show "carries {0} {0} (ser_group g) deser_group (seen_group g)" by (rule bytes_carries) simp
qed

lemma carries_groups:
  assumes "\<forall>g \<in> set gs. valid_group g" and "length gs < 256"
  shows "carries {0} {0} (serializeGroupStatus gs) deserializeGroupStatus (map seen_group gs)"
  unfolding serializeGroupStatus_def deserializeGroupStatus_def by (rule group.array) (use assms in simp_all)

definition valid_info :: "net_env \<Rightarrow> player_info \<Rightarrow> bool" where
  "valid_info e d = (short (pi_playerId d) \<and> byte (pi_teamId d) \<and> byte (pi_groupId d) \<and> plain_text (pi_name d)
     \<and> some_game e (pi_heal d) \<and> some_game e (pi_boost d))"

interpretation info: frame "serializePlayerInfo e" "deserializePlayerInfo e" "valid_info e" "\<lambda>d. d" for e
proof
  fix d assume v: "valid_info e d"
  show "carries {0} {0} (serializePlayerInfo e d) (deserializePlayerInfo e) d"
    unfolding serializePlayerInfo_def deserializePlayerInfo_def seqE.simps
    by (intro whole_bytes carry [OF transmits_short] carry [OF transmits_byte] carry [OF transmits_string]
        carry [OF transmits_Game]) (use v in \<open>simp_all add: valid_info_def carry_align\<close>)
qed

definition valid_gas :: "gas_data \<Rightarrow> bool" where
  "valid_gas d = (byte (gd_mode d) \<and> on_map (gd_posOld d) \<and> on_map (gd_posNew d)
     \<and> in_range 0 2048 (gd_radOld d) \<and> in_range 0 2048 (gd_radNew d))"

definition seen_gas :: "net_env \<Rightarrow> gas_data \<Rightarrow> gas_data" where
  "seen_gas e d = d\<lparr>gd_duration := f32_round e (gd_duration d), gd_posOld := quantize_pos 16 (gd_posOld d),
     gd_posNew := quantize_pos 16 (gd_posNew d), gd_radOld := quantizeN 0 2048 16 (gd_radOld d),
     gd_radNew := quantizeN 0 2048 16 (gd_radNew d)\<rparr>"

interpretation gas: frame "serializeGasData e" "deserializeGasData e" valid_gas "seen_gas e" for e
proof
  fix d assume v: "valid_gas d"
  have "transmits (serializeGasData e d) (deserializeGasData e) (seen_gas e d)"
    unfolding serializeGasData_def deserializeGasData_def seqE.simps
    by (intro transmits_seq [OF transmits_byte] transmits_seq [OF transmits_f32] transmits_seq [OF transmits_map_pos]
        transmits_seq [OF transmits_float] transmits_last [OF transmits_float])
      (use v in \<open>simp_all add: valid_gas_def seen_gas_def\<close>)
  moreover have "sized (8 + (32 + (16 + 16 + (16 + 16 + (16 + 16))))) (serializeGasData e d)"
    unfolding serializeGasData_def seqE.simps by (intro sized_thenE sizes)
  ultimately show "carries {0} {0} (serializeGasData e d) (deserializeGasData e) (seen_gas e d)"
    by (rule bytes_carries) simp
qed

section \<open>Effects\<close>

definition valid_bullet :: "net_env \<Rightarrow> bullet \<Rightarrow> bool" where
  "valid_bullet e b = (short (bl_playerId b) \<and> bl_startPos b \<noteq> None \<and> on_map (the (bl_startPos b))
     \<and> unit_like (bl_dir b) \<and> some_game e (bl_bulletType b) \<and> fits_in 2 (bl_layer b) \<and> in_range 0 1 (bl_varianceT b)
     \<and> fits_in 4 (bl_distAdjIdx b) \<and> (bl_clipDistance b \<longrightarrow> in_range 0 MaxPosition (or_nan (bl_distance b)))
     \<and> (bl_shotFx b \<longrightarrow> some_game e (bl_shotSourceType b))
     \<and> (0 < bl_reflectCount b \<longrightarrow> fits_in 2 (bl_reflectCount b) \<and> short (bl_reflectObjId b))
     \<and> (bl_hasModifier b \<longrightarrow> in_range (1 / 2) 2 (bl_speedMult b) \<and> in_range (1 / 2) 2 (bl_distanceMult b)))"

definition is_set :: "bool option \<Rightarrow> bool" where
  "is_set b = (b = Some True)"

definition seen_bullet :: "bullet \<Rightarrow> bullet" where
  "seen_bullet b = \<lparr>bl_playerId = bl_playerId b, bl_startPos = None,
     bl_pos = Some (quantize_pos 16 (the (bl_startPos b))), bl_dir = quantize_unit 8 (bl_dir b),
     bl_bulletType = bl_bulletType b, bl_layer = bl_layer b, bl_varianceT = quantizeN 0 1 4 (bl_varianceT b),
     bl_distAdjIdx = bl_distAdjIdx b, bl_clipDistance = bl_clipDistance b,
     bl_distance = sent (bl_clipDistance b) (quantizeN 0 MaxPosition 16 (or_nan (bl_distance b))),
     bl_shotFx = bl_shotFx b, bl_shotSourceType = (if bl_shotFx b then bl_shotSourceType b else None),
     bl_shotOffhand = sent (bl_shotFx b) (is_set (bl_shotOffhand b)),
     bl_lastShot = sent (bl_shotFx b) (is_set (bl_lastShot b)),
     bl_reflectCount = (if 0 < bl_reflectCount b then bl_reflectCount b else 0),
     bl_reflectObjId = (if 0 < bl_reflectCount b then bl_reflectObjId b else 0),
     bl_hasModifier = bl_hasModifier b,
     bl_speedMult = (if bl_hasModifier b then quantizeN (1 / 2) 2 8 (bl_speedMult b) else js_int 1),
     bl_distanceMult = (if bl_hasModifier b then quantizeN (1 / 2) 2 8 (bl_distanceMult b) else js_int 1),
     bl_hasSpecialFx = bl_hasSpecialFx b,
     bl_shotAlt = sent (bl_hasSpecialFx b) (is_set (bl_shotAlt b)),
     bl_splinter = sent (bl_hasSpecialFx b) (is_set (bl_splinter b)),
     bl_trailSaturated = sent (bl_hasSpecialFx b) (is_set (bl_trailSaturated b)),
     bl_apRounds = sent (bl_hasSpecialFx b) (is_set (bl_apRounds b)),
     bl_highVelocity = sent (bl_hasSpecialFx b) (is_set (bl_highVelocity b)),
     bl_combatStims = sent (bl_hasSpecialFx b) (is_set (bl_combatStims b)),
     bl_trailSmall = sent (bl_hasSpecialFx b) (is_set (bl_trailSmall b)),
     bl_trailThick = sent (bl_hasSpecialFx b) (is_set (bl_trailThick b))\<rparr>"

interpretation special_flag: codec writeFlag readFlag "\<lambda>_. True" "\<lambda>b. Some (is_set b)"
  by unfold_locales (simp add: is_set_def transmits_flag_opt)

interpretation bullet: codec "ser_bullet e" "deser_bullet e" "valid_bullet e" seen_bullet for e
proof
  fix b assume v: "valid_bullet e b"
  have fx: "transmits (thenE (writeGame e (bl_shotSourceType b)) (thenE (writeFlag (bl_shotOffhand b)) (writeFlag (bl_lastShot b))))
      (bindE (readGame e) (\<lambda>t. bindE readFlag (\<lambda>oh. bindE readFlag (\<lambda>ls. ret (t, oh, ls)))))
      (bl_shotSourceType b, Some (is_set (bl_shotOffhand b)), Some (is_set (bl_lastShot b)))" if "bl_shotFx b"
    by (intro transmits_seq [OF transmits_Game] transmits_seq [OF special_flag.fits] transmits_last [OF special_flag.fits])
      (use v that in \<open>simp_all add: valid_bullet_def\<close>)
  let ?fs = "[bl_shotAlt b, bl_splinter b, bl_trailSaturated b, bl_apRounds b,
        bl_highVelocity b, bl_combatStims b, bl_trailSmall b, bl_trailThick b]"
  have len: "length ?fs = 8" by simp
  have "transmits (forE ?fs writeFlag) (repeatE (length ?fs) readFlag) (map (\<lambda>b. Some (is_set b)) ?fs)"
    by (rule special_flag.elements) simp
  then have flags: "transmits (forE ?fs writeFlag) (repeatE 8 readFlag) (map (\<lambda>b. Some (is_set b)) ?fs)"
    unfolding len .
  show "transmits (ser_bullet e b) (deser_bullet e) (seen_bullet b)"
    unfolding ser_bullet_def deser_bullet_def seqE.simps
    by (intro transmits_seq [OF transmits_short] transmits_seq [OF transmits_of [OF _ transmits_map_pos]]
        transmits_seq [OF transmits_unit_vec] transmits_seq [OF transmits_Game] transmits_seq [OF transmits_Uint]
        transmits_seq [OF transmits_float] transmits_seq [OF transmits_bool]
        transmits_seq [OF transmits_opt [OF transmits_float]] transmits_seq [OF transmits_when [OF fx]]
        transmits_seq [OF transmits_when [OF transmits_pair [OF transmits_Uint transmits_short]]]
        transmits_seq [OF transmits_when [OF transmits_pair [OF transmits_float transmits_float]]]
        transmits_last [OF transmits_when [OF flags]])
      (use v in \<open>auto simp: valid_bullet_def seen_bullet_def sent_def MaxPosition_def\<close>)
qed

definition valid_explosion :: "net_env \<Rightarrow> explosion \<Rightarrow> bool" where
  "valid_explosion e x = (on_map (ex_pos x) \<and> some_game e (ex_type x) \<and> fits_in 2 (ex_layer x))"

definition seen_explosion :: "explosion \<Rightarrow> explosion" where
  "seen_explosion x = x\<lparr>ex_pos := quantize_pos 16 (ex_pos x)\<rparr>"

interpretation explosion: frame "ser_explosion e" "deser_explosion e" "valid_explosion e" seen_explosion for e
proof
  fix x assume v: "valid_explosion e x"
  show "carries {0} {0} (ser_explosion e x) (deser_explosion e) (seen_explosion x)"
    unfolding ser_explosion_def deser_explosion_def seqE.simps
    by (intro whole_bytes carry [OF transmits_map_pos] carry [OF transmits_Game] carry [OF transmits_Uint])
      (use v in \<open>simp_all add: valid_explosion_def seen_explosion_def carry_align\<close>)
qed

definition valid_update_emote :: "net_env \<Rightarrow> update_emote \<Rightarrow> bool" where
  "valid_update_emote e x = (short (ue_playerId x) \<and> some_game e (ue_type x) \<and> some_game e (ue_itemType x)
     \<and> (ue_isPing x \<longrightarrow> ue_pos x \<noteq> None \<and> on_map (the (ue_pos x))))"

definition seen_update_emote :: "update_emote \<Rightarrow> update_emote" where
  "seen_update_emote x = x\<lparr>ue_pos := sent (ue_isPing x) (quantize_pos 16 (the (ue_pos x)))\<rparr>"

interpretation update_emote: frame "ser_update_emote e" "deser_update_emote e" "valid_update_emote e" seen_update_emote for e
proof
  fix x assume v: "valid_update_emote e x"
  show "carries {0} {0} (ser_update_emote e x) (deser_update_emote e) (seen_update_emote x)"
    unfolding ser_update_emote_def deser_update_emote_def seqE.simps
    by (intro whole_bytes carry [OF transmits_short] carry [OF transmits_Game] carry [OF transmits_bool]
        carry [OF transmits_opt [OF transmits_of [OF _ transmits_map_pos]]])
      (use v in \<open>simp_all add: valid_update_emote_def seen_update_emote_def sent_def carry_align\<close>)
qed

definition valid_plane :: "plane \<Rightarrow> bool" where
  "valid_plane x = (byte (pn_id x)
     \<and> vec_in (- 256) (- 256) (MaxPosition + 256) (MaxPosition + 256) (pn_pos x) \<and> unit_like (pn_planeDir x)
     \<and> fits_in 3 (pn_action x))"

definition seen_plane :: "plane \<Rightarrow> plane" where
  "seen_plane x = x\<lparr>pn_pos := quantize_vec (- 256) (- 256) (MaxPosition + 256) (MaxPosition + 256) 10 (pn_pos x),
     pn_planeDir := quantize_unit 8 (pn_planeDir x)\<rparr>"

interpretation plane: frame ser_plane deser_plane valid_plane seen_plane
proof
  fix x assume v: "valid_plane x"
  have "transmits (ser_plane x) deser_plane (seen_plane x)"
    unfolding ser_plane_def deser_plane_def seqE.simps
    by (intro transmits_seq [OF transmits_byte] transmits_seq [OF transmits_vec] transmits_seq [OF transmits_unit_vec]
        transmits_seq [OF transmits_bool] transmits_last [OF transmits_Uint])
      (use v in \<open>simp_all add: valid_plane_def seen_plane_def MaxPosition_def\<close>)
  moreover have "sized (8 + (10 + 10 + (8 + 8 + (1 + 3)))) (ser_plane x)"
    unfolding ser_plane_def seqE.simps writeUint_def by (intro sized_thenE sizes sized_vec sized_writeBits)
  ultimately show "carries {0} {0} (ser_plane x) deser_plane (seen_plane x)" by (rule bytes_carries) simp
qed

definition valid_airstrike :: "airstrike \<Rightarrow> bool" where
  "valid_airstrike x = (on_map (az_pos x) \<and> in_range 0 AirstrikeZoneMaxRad (az_rad x)
     \<and> in_range 0 AirstrikeZoneMaxDuration (az_duration x))"

definition seen_airstrike :: "airstrike \<Rightarrow> airstrike" where
  "seen_airstrike x = \<lparr>az_pos = quantize_pos 12 (az_pos x), az_rad = quantizeN 0 AirstrikeZoneMaxRad 8 (az_rad x),
     az_duration = quantizeN 0 AirstrikeZoneMaxDuration 8 (az_duration x)\<rparr>"

interpretation airstrike: codec ser_airstrike deser_airstrike valid_airstrike seen_airstrike
proof
  fix x assume v: "valid_airstrike x"
  show "transmits (ser_airstrike x) deser_airstrike (seen_airstrike x)"
    unfolding ser_airstrike_def deser_airstrike_def seqE.simps
    by (intro transmits_seq [OF transmits_map_pos] transmits_seq [OF transmits_float] transmits_last [OF transmits_float])
      (use v in \<open>simp_all add: valid_airstrike_def seen_airstrike_def AirstrikeZoneMaxRad_def AirstrikeZoneMaxDuration_def\<close>)
qed

definition valid_indicator :: "net_env \<Rightarrow> map_indicator \<Rightarrow> bool" where
  "valid_indicator e x = (fits_in 4 (mi_id x) \<and> some_game e (mi_type x) \<and> on_map (mi_pos x))"

definition seen_indicator :: "map_indicator \<Rightarrow> map_indicator" where
  "seen_indicator x = x\<lparr>mi_pos := quantize_pos 16 (mi_pos x)\<rparr>"

interpretation indicator: codec "ser_indicator e" "deser_indicator e" "valid_indicator e" seen_indicator for e
proof
  fix x assume v: "valid_indicator e x"
  show "transmits (ser_indicator e x) (deser_indicator e) (seen_indicator x)"
    unfolding ser_indicator_def deser_indicator_def seqE.simps
    by (intro transmits_seq [OF transmits_Uint] transmits_seq [OF transmits_bool] transmits_seq [OF transmits_Game]
        transmits_last [OF transmits_map_pos])
      (use v in \<open>simp_all add: valid_indicator_def seen_indicator_def\<close>)
qed

section \<open>Objects\<close>

definition seen_part_object :: "game_object \<Rightarrow> part_seen" where
  "seen_part_object g = (type_code (gob_type g), gob_id g, seen_part (gob_part g))"

definition seen_full_object :: "game_object \<Rightarrow> full_seen" where
  "seen_full_object g = (type_code (gob_type g), gob_id g, seen_part (gob_part g), seen_full (gob_full g))"

lemma carries_partial:
  assumes v: "valid_object e g"
  shows "carries {0} {0} (partial_writer e g) (deser_part_object e) (seen_part_object g)"
  unfolding partial_writer_def deser_part_object_def seqE.simps
  by (intro whole_bytes carry [OF transmits_byte] carry [OF transmits_short])
    (use v in \<open>simp_all add: valid_object_def seen_part_object_def short_def carry [OF transmits_part] carry_align\<close>)

interpretation part_object: frame ser_part_object "deser_part_object e" "\<lambda>g. valid_object e g \<and> partial_fresh e g"
    seen_part_object for e
proof
  fix g assume v: "valid_object e g \<and> partial_fresh e g"
  then obtain s0 where s0: "writable s0" "bs_index s0 = 0" "partial_writer e g s0 = (Inr (), gob_partialStream g)"
    by (auto simp: partial_fresh_def)
  show "carries {0} {0} (ser_part_object g) (deser_part_object e) (seen_part_object g)"
    unfolding ser_part_object_def copy_stream_def by (rule carries_copy [OF carries_partial s0]) (use v in simp)
qed

definition read_rest :: "net_env \<Rightarrow> part_seen \<Rightarrow> full_seen bs" where
  "read_rest e x = (case x of (t, i, p) \<Rightarrow>
     bindE (read_typed (deserializeFull e) t) (\<lambda>f. thenE readAlignToNextByte (ret (t, i, p, f))))"

lemma bindE_assoc: "bindE (bindE m f) g = bindE m (\<lambda>x. bindE (f x) g)"
  by (simp add: bindE_def fun_eq_iff split: prod.splits sum.splits)

lemma bindE_ret: "bindE (ret a) f = f a"
  by (simp add: bindE_def ret_def fun_eq_iff)

lemma deser_full_split: "deser_full_object e = bindE (deser_part_object e) (read_rest e)"
  by (simp add: deser_full_object_def deser_part_object_def read_rest_def thenE_def bindE_assoc bindE_ret)

interpretation full_object: frame ser_full_object "deser_full_object e"
    "\<lambda>g. valid_object e g \<and> partial_fresh e g \<and> full_fresh e g" seen_full_object for e
proof
  fix g assume v: "valid_object e g \<and> partial_fresh e g \<and> full_fresh e g"
  then obtain s0 where s0: "writable s0" "bs_index s0 = 0" "full_writer e g s0 = (Inr (), gob_fullStream g)"
    by (auto simp: full_fresh_def)
  have "carries {0} {0} (full_writer e g) (read_rest e (seen_part_object g)) (seen_full_object g)"
    unfolding full_writer_def seqE.simps read_rest_def seen_part_object_def prod.case read_typed_code
    by (intro whole_bytes carry [OF transmits_full] carry_align)
      (use v in \<open>simp_all add: valid_object_def seen_full_object_def\<close>)
  from carries_copy [OF this s0]
  show "carries {0} {0} (ser_full_object g) (deser_full_object e) (seen_full_object g)"
    unfolding deser_full_split ser_full_object_def
    by (intro carries_seq [OF part_object.fits [unfolded ser_part_object_def]])
      (use v in \<open>simp_all add: copy_stream_def\<close>)
qed

section \<open>Flags written last\<close>

lemma view_bits_ext: "patched v i as v' \<Longrightarrow> view_bit v' k = (if i \<le> k \<and> k < i + length as then as ! (k - i) else view_bit v k)"
  by (simp add: patched_def)

text \<open>Overwriting the placeholder leaves the flags, followed by what was written in between.\<close>

lemma patched_over:
  assumes "patched v i zs v1" and "patched v1 (i + length zs) cs v2" and "patched v2 i as v3" and "length as = length zs"
  shows "patched v i (as @ cs) v3"
  unfolding patched_def
proof (intro conjI allI)
  show "length v3 = length v" using assms by (simp add: patched_def)
  show "view_bit v3 k = (if i \<le> k \<and> k < i + length (as @ cs) then (as @ cs) ! (k - i) else view_bit v k)" for k
    using view_bits_ext [OF assms(1)] view_bits_ext [OF assms(2)] view_bits_ext [OF assms(3)] assms(4)
    by (auto simp: nth_append not_less)
qed

definition backpatched :: "int \<Rightarrow> unit bs \<Rightarrow> unit bs" where
  "backpatched flags w = bindE (getsE byteIndex) (\<lambda>flagsIdx. thenE (writeUint16 0) (thenE w
     (bindE (getsE byteIndex) (\<lambda>idx. thenE (set_byteIndex flagsIdx) (thenE (writeUint16 flags) (set_byteIndex idx))))))"

definition short_bits :: "int \<Rightarrow> bool list" where
  "short_bits n = word_bits 16 (word_of_int n) 0"

lemma short_bits_length [simp]: "length (short_bits n) = 16"
  by (simp add: short_bits_def word_bits_def)

lemma wrote_short: "writable s \<Longrightarrow> wrote (writeUint16 n) s (short_bits n)"
  using writes_writeBits [of 16 "js_int n", unfolded writes_def, rule_format, of s]
  by (simp add: writeUint16_def writeInt_def short_bits_def word_bits_def)

lemma wroteE:
  assumes "wrote w s bs" and "w s = (Inr (), s')"
  obtains v where "s' = s\<lparr>bs_view := v, bs_index := bs_index s + length bs\<rparr>" and "patched (bs_view s) (bs_index s) bs v"
    and "bs_index s + length bs \<le> 8 * length (bs_view s)"
  using assms by (auto simp: wrote_def)

lemma wrote_backpatched:
  assumes s: "writable s" "bs_index s = 8 * p" and w: "\<And>s1. writable s1 \<Longrightarrow> bs_index s1 = 8 * p + 16 \<Longrightarrow> wrote w s1 cs"
    and whole: "length cs = 8 * n"
  shows "wrote (backpatched flags w) s (short_bits flags @ cs)"
proof (cases "writeUint16 0 s")
  case (Pair r1 s1)
  have w0: "wrote (writeUint16 0) s (short_bits 0)" by (rule wrote_short [OF s(1)])
  have bi: "(getsE byteIndex :: nat bs) s = (Inr p, s)" using s(2) by (simp add: getsE_def byteIndex_def)
  show ?thesis
  proof (cases r1)
    case (Inl err)
    then show ?thesis using w0 Pair bi by (simp add: wrote_def backpatched_def bindE_def thenE_def)
  next
    case (Inr u)
    then obtain v1 where v1: "s1 = s\<lparr>bs_view := v1, bs_index := bs_index s + 16\<rparr>"
        "patched (bs_view s) (bs_index s) (short_bits 0) v1" and room1: "bs_index s + 16 \<le> 8 * length (bs_view s)"
      using wroteE [OF w0, of s1] Pair by auto
    have len1: "length v1 = length (bs_view s)" using v1(2) by (simp add: patched_def)
    have s1: "writable s1" "bs_index s1 = 8 * p + 16" using s v1 room1 len1 by (simp_all add: writable_def)
    note w1 = w [OF s1]
    show ?thesis
    proof (cases "w s1")
      case p2: (Pair r2 s2)
      show ?thesis
      proof (cases r2)
        case (Inl err)
        then show ?thesis
          using w1 p2 Pair \<open>r1 = Inr u\<close> bi v1(1) len1 s(2)
          by (simp add: wrote_def backpatched_def bindE_def thenE_def)
      next
        case (Inr u2)
        then obtain v2 where v2: "s2 = s1\<lparr>bs_view := v2, bs_index := bs_index s1 + length cs\<rparr>"
            "patched (bs_view s1) (bs_index s1) cs v2" and room2: "bs_index s1 + length cs \<le> 8 * length (bs_view s1)"
          using wroteE [OF w1, of s2] p2 by auto
        have len2: "length v2 = length (bs_view s)" using v2(2) v1(1) len1 by (simp add: patched_def)
        let ?s3 = "s\<lparr>bs_view := v2\<rparr>"
        have s3: "writable ?s3" using s len2 by (simp add: writable_def)
        have w3: "wrote (writeUint16 flags) ?s3 (short_bits flags)" by (rule wrote_short [OF s3])
        obtain s4 where s4: "writeUint16 flags ?s3 = (Inr (), s4)"
          using w3 room1 len2 by (cases "writeUint16 flags ?s3") (auto simp: wrote_def split: sum.splits)
        from wroteE [OF w3 this] obtain v3 where v3: "s4 = s\<lparr>bs_view := v3, bs_index := bs_index s + 16\<rparr>"
            "patched v2 (bs_index s) (short_bits flags) v3" by auto
        have bi2: "byteIndex s2 = p + 2 + n" using v2(1) s1(2) whole by (simp add: byteIndex_def)
        have s3': "s2\<lparr>bs_index := p * 8\<rparr> = ?s3" using v2(1) v1(1) s(2) by (simp add: mult.commute)
        have "backpatched flags w s = (Inr (), s4\<lparr>bs_index := (p + 2 + n) * 8\<rparr>)"
          using Pair \<open>r1 = Inr u\<close> p2 Inr bi bi2 s3' s4
          by (simp add: backpatched_def bindE_def thenE_def getsE_def set_byteIndex_def modifyE_def)
        moreover have "patched (bs_view s) (bs_index s) (short_bits flags @ cs) v3"
          using patched_over [OF v1(2) _ v3(2), of cs] v2(2) v1(1) s1(2) s(2) by simp
        ultimately show ?thesis
          using v3(1) room2 v1(1) len1 s(2) whole
          by (auto simp: wrote_def algebra_simps intro!: exI [of _ v3])
      qed
    qed
  qed
qed

lemma carries_backpatched:
  assumes F: "short flags" and w: "carries {0} {0} w (r flags) a"
  shows "carries {0} {0} (backpatched flags w) (bindE readUint16 r) a"
proof -
  obtain g where g: "length (g 0) mod 8 = 0"
      "\<forall>s. writable s \<longrightarrow> offset_of s = 0 \<longrightarrow> wrote w s (g 0)"
      "\<forall>s. bs_start s = 0 \<longrightarrow> offset_of s = 0 \<longrightarrow> got (r flags) s (g 0) a"
    using w unfolding carries_def by force
  obtain n where n: "length (g 0) = 8 * n" using g(1) by (metis dvd_def mod_eq_0_iff_dvd)
  show ?thesis
    unfolding carries_def
  proof (intro exI [of _ "\<lambda>_. short_bits flags @ g 0"] conjI allI ballI impI)
    fix i :: nat assume "i \<in> {0}"
    then show "(i + length (short_bits flags @ g 0)) mod 8 \<in> {0}" by (simp add: n mod_add_eq)
  next
    fix s assume s: "writable s" "offset_of s \<in> {0}"
    then obtain p where p: "bs_index s = 8 * p" unfolding offset_of_def by (metis dvd_def mod_eq_0_iff_dvd singletonD)
    show "wrote (backpatched flags w) s (short_bits flags @ g 0)"
      by (rule wrote_backpatched [OF s(1) p _ n]) (use g(2) in \<open>simp add: offset_of_def\<close>)
  next
    fix s assume s: "bs_start s = 0" "offset_of s \<in> {0}"
    have "reads readUint16 (word_bits 16 (word_of_int flags)) flags"
      using reads_reader(1) [of 16 "word_of_int flags"] F take_bit_fits [of flags 16]
      by (simp add: short_def readUint16_def)
    then have "got readUint16 s (short_bits flags) flags"
      unfolding reads_def short_bits_def using s(1) by (simp add: word_bits_def)
    then show "got (bindE readUint16 r) s (short_bits flags @ g 0) a"
    proof (rule got_bindE)
      have "(bs_index s + 16) mod 8 = 0" using s(2) by (simp add: offset_of_def) presburger
      then show "got (r flags) (s\<lparr>bs_index := bs_index s + length (short_bits flags)\<rparr>) (g 0) a"
        using g(3) s(1) by (simp add: offset_of_def)
    qed
  qed
qed

section \<open>Which flags are set\<close>

lemma flagged_or: "flagged (a OR b) m = (flagged a m \<or> flagged b m)"
  unfolding flagged_def bit_eq_iff bit_and_iff bit_or_iff bit_0_eq by (auto simp: bot_fun_def)

lemma flagged_fold:
  "flagged (foldl (\<lambda>flags (b, present, _). if present then flags OR b else flags) f ss) m
   = (flagged f m \<or> (\<exists>(b, present, _) \<in> set ss. present \<and> flagged b m))"
proof (induction ss arbitrary: f)
  case (Cons x ss)
  obtain b present w where x: "x = (b, present, w)" by (cases x)
  show ?case unfolding x foldl.simps prod.case Cons.IH by (simp add: flagged_or)
qed simp

lemma short_or: "short a \<Longrightarrow> short b \<Longrightarrow> short (a OR b)"
  using OR_upper [of a 16 b] by (simp add: short_def)

lemma short_fold:
  "short f \<Longrightarrow> \<forall>(b, _, _) \<in> set ss. short b
   \<Longrightarrow> short (foldl (\<lambda>flags (b, present, _). if present then flags OR b else flags) f ss)"
  by (induction ss arbitrary: f) (auto simp: short_or)

text \<open>Every section has its own bit: the receiver reads what was written.\<close>

lemma update_flags_short: "short (update_flags (update_sections e m))"
  unfolding update_flags_def by (rule short_fold) (simp_all add: update_sections_def short_def)

lemma update_flags_say:
  fixes e m
  defines "F \<equiv> update_flags (update_sections e m)"
  shows "flagged F 1 = (um_delObjIds m \<noteq> [])" and "flagged F 2 = (um_fullObjects m \<noteq> [])"
    and "flagged F 4 = um_activePlayerIdDirty m" and "flagged F 8 = um_gasDirty m" and "flagged F 16 = um_gasTDirty m"
    and "flagged F 32 = (um_playerInfos m \<noteq> [])" and "flagged F 64 = (um_deletedPlayerIds m \<noteq> [])"
    and "flagged F 128 = um_playerStatusDirty m" and "flagged F 256 = um_groupStatusDirty m"
    and "flagged F 512 = (um_bullets m \<noteq> [])" and "flagged F 1024 = (um_explosions m \<noteq> [])"
    and "flagged F 2048 = (um_emotes m \<noteq> [])" and "flagged F 4096 = (um_planes m \<noteq> [])"
    and "flagged F 8192 = (um_airstrikeZones m \<noteq> [])" and "flagged F 16384 = (um_mapIndicators m \<noteq> [])"
    and "flagged F 32768 = um_killLeaderDirty m"
  unfolding F_def update_flags_def flagged_fold by (simp_all add: update_sections_def flagged_def)

section \<open>The message\<close>

definition all_short :: "nat \<Rightarrow> int list \<Rightarrow> bool" where
  "all_short n xs = ((\<forall>x \<in> set xs. short x) \<and> length xs < n)"

definition all_valid :: "nat \<Rightarrow> ('a \<Rightarrow> bool) \<Rightarrow> 'a list \<Rightarrow> bool" where
  "all_valid n ok xs = ((\<forall>x \<in> set xs. ok x) \<and> length xs < n)"

text \<open>Four bits count at most fifteen map indicators.\<close>

definition valid_update :: "net_env \<Rightarrow> (game_object, game_object) update_msg \<Rightarrow> bool" where
  "valid_update e m = (all_short 65536 (um_delObjIds m)
     \<and> all_valid 65536 (\<lambda>g. valid_object e g \<and> partial_fresh e g \<and> full_fresh e g) (um_fullObjects m)
     \<and> all_valid 65536 (\<lambda>g. valid_object e g \<and> partial_fresh e g) (um_partObjects m)
     \<and> short (um_activePlayerId m) \<and> valid_local e (um_activePlayerData m)
     \<and> (um_gasDirty m \<longrightarrow> um_gasData m \<noteq> None \<and> valid_gas (the (um_gasData m)))
     \<and> (um_gasTDirty m \<longrightarrow> in_range 0 1 (um_gasT m))
     \<and> all_valid 256 (valid_info e) (um_playerInfos m) \<and> all_short 256 (um_deletedPlayerIds m)
     \<and> all_valid 256 (valid_status e) (um_playerStatus m) \<and> all_valid 256 valid_group (um_groupStatus m)
     \<and> all_valid 256 (valid_bullet e) (um_bullets m) \<and> all_valid 256 (valid_explosion e) (um_explosions m)
     \<and> all_valid 256 (valid_update_emote e) (um_emotes m) \<and> all_valid 256 valid_plane (um_planes m)
     \<and> all_valid 256 valid_airstrike (um_airstrikeZones m) \<and> all_valid 16 (valid_indicator e) (um_mapIndicators m)
     \<and> short (um_killLeaderId m) \<and> byte (um_killLeaderKills m) \<and> byte (um_ack m))"

definition seen_update :: "net_env \<Rightarrow> (game_object, game_object) update_msg \<Rightarrow> (full_seen, part_seen) update_msg" where
  "seen_update e m = \<lparr>um_delObjIds = um_delObjIds m, um_fullObjects = map seen_full_object (um_fullObjects m),
     um_partObjects = map seen_part_object (um_partObjects m),
     um_activePlayerId = (if um_activePlayerIdDirty m then um_activePlayerId m else 0),
     um_activePlayerIdDirty = um_activePlayerIdDirty m, um_activePlayerData = seen_local (um_activePlayerData m),
     um_gasData = sent (um_gasDirty m) (seen_gas e (the (um_gasData m))), um_gasDirty = um_gasDirty m,
     um_gasT = (if um_gasTDirty m then quantizeN 0 1 16 (um_gasT m) else js_int 0), um_gasTDirty = um_gasTDirty m,
     um_playerInfos = um_playerInfos m, um_deletedPlayerIds = um_deletedPlayerIds m,
     um_playerStatus = (if um_playerStatusDirty m then map seen_status (um_playerStatus m) else []),
     um_playerStatusDirty = um_playerStatusDirty m,
     um_groupStatus = (if um_groupStatusDirty m then map seen_group (um_groupStatus m) else []),
     um_groupStatusDirty = um_groupStatusDirty m, um_bullets = map seen_bullet (um_bullets m),
     um_explosions = map seen_explosion (um_explosions m), um_emotes = map seen_update_emote (um_emotes m),
     um_planes = map seen_plane (um_planes m), um_airstrikeZones = map seen_airstrike (um_airstrikeZones m),
     um_mapIndicators = map seen_indicator (um_mapIndicators m),
     um_killLeaderId = (if um_killLeaderDirty m then um_killLeaderId m else 0),
     um_killLeaderKills = (if um_killLeaderDirty m then um_killLeaderKills m else 0),
     um_killLeaderDirty = um_killLeaderDirty m, um_ack = um_ack m\<rparr>"

lemma carries_when:
  "(b \<Longrightarrow> carries {0} {0} w r a) \<Longrightarrow> carries {0} {0} (if b then w else ret ()) (if b then r else ret d) (if b then a else d)"
  by (simp add: carries_ret)

lemma carries_read_opt:
  "(b \<Longrightarrow> carries {0} {0} w r a) \<Longrightarrow> carries {0} {0} (if b then w else ret ()) (read_opt b r) (sent b a)"
  by (auto simp: read_opt_def sent_def carries_ret intro: carries_last)

text \<open>A list that is sent only when it is not empty arrives in any case.\<close>

lemma carries_list:
  "carries {0} {0} w r (map f xs)
   \<Longrightarrow> carries {0} {0} (if xs \<noteq> [] then w else ret ()) (if xs \<noteq> [] then r else ret []) (map f xs)"
  by (auto simp: carries_ret)

interpretation id_frame: frame writeUint16 readUint16 short "\<lambda>x. x"
  by unfold_locales (simp add: short_def carries_uint16)

lemma carries_ids:
  "all_short (2 ^ bits) xs \<Longrightarrow> bits mod 8 = 0 \<Longrightarrow> 0 < bits \<Longrightarrow> bits < 31
   \<Longrightarrow> carries {0} {0} (if xs \<noteq> [] then writeArray xs bits writeUint16 else ret ())
         (if xs \<noteq> [] then readArray bits readUint16 else ret []) xs"
  using carries_list [OF id_frame.array [of xs bits]] by (simp add: all_short_def)

lemma carries_aligned_array:
  "transmits (writeArray xs bits w) (readArray bits r) ys
   \<Longrightarrow> carries {0} {0} (thenE (writeArray xs bits w) writeAlignToNextByte) (aligned_array bits r) ys"
  unfolding aligned_array_def by (rule carries_aligned)

lemma ser_update_backpatched:
  "ser_update e m = backpatched (update_flags (update_sections e m)) (write_sections (update_sections e m))"
  by (simp add: ser_update_def backpatched_def Let_def)

lemma carries_update:
  assumes v: "valid_update e m"
  shows "carries {0} {0} (ser_update e m) (deser_update e) (seen_update e m)"
proof -
  have ids: "all_short (2 ^ 16) (um_delObjIds m)" "all_short (2 ^ 8) (um_deletedPlayerIds m)"
    using v by (simp_all add: valid_update_def)
  have leader: "carries {0} {0} (thenE (writeUint16 (um_killLeaderId m)) (writeUint8 (um_killLeaderKills m)))
      (bindE readUint16 (\<lambda>i. bindE readUint8 (\<lambda>k. ret (i, k)))) (um_killLeaderId m, um_killLeaderKills m)"
    by (intro carries_seq [OF carries_uint16] carries_last [OF carries_uint8])
      (use v in \<open>simp_all add: valid_update_def short_def byte_def\<close>)
  have gasT: "carries {0} {0} (writeFloat (um_gasT m) 0 1 16) (readFloat 0 1 16) (quantizeN 0 1 16 (um_gasT m))"
    if "um_gasTDirty m"
    by (rule bytes_carries [OF transmits_float sized_float]) (use v that in \<open>simp_all add: valid_update_def\<close>)
  have gas: "carries {0} {0} (of_field (um_gasData m) (serializeGasData e)) (deserializeGasData e)
      (seen_gas e (the (um_gasData m)))" if "um_gasDirty m"
    using v that by (auto simp: valid_update_def of_field_def intro: gas.fits)
  show ?thesis
    unfolding ser_update_backpatched deser_update_def
  proof (rule carries_backpatched [OF update_flags_short], unfold update_flags_say, goal_cases)
    case 1
    show ?case unfolding write_sections_def update_sections_def forE.simps prod.case if_True
    by (intro carries_seq [OF carries_ids [OF ids(1)]] carries_seq [OF carries_list [OF full_object.array]]
        carries_seq [OF part_object.array] carries_seq [OF carries_when [OF carries_uint16]]
        carries_seq [OF carries_local] carries_seq [OF carries_read_opt [OF gas]] carries_seq [OF carries_when [OF gasT]]
        carries_seq [OF carries_list [where f = "\<lambda>x. x", OF info.array]] carries_seq [OF carries_ids [OF ids(2)]]
        carries_seq [OF carries_when [OF carries_statuses]]
        carries_seq [OF carries_when [OF carries_groups]]
        carries_seq [OF carries_list [OF carries_aligned_array [OF bullet.array]]]
        carries_seq [OF carries_list [OF explosion.array]] carries_seq [OF carries_list [OF update_emote.array]]
        carries_seq [OF carries_list [OF plane.array]]
        carries_seq [OF carries_list [OF carries_aligned_array [OF airstrike.array]]]
        carries_seq [OF carries_list [OF carries_aligned_array [OF indicator.array]]]
        carries_seq [OF carries_when [OF leader]] carries_seq [OF carries_uint8])
      (use v in \<open>simp_all add: valid_update_def all_valid_def all_short_def seen_update_def short_def byte_def carries_ret\<close>)
  qed
qed

end
