(* ===== verification/MsgStream.thy ===== *)
theory MsgStream
  imports NetUpdateFacts
begin

text \<open>
  \<open>MsgStream\<close> of \<open>shared/net/net.ts\<close>: messages with a type byte, one after the other in a buffer;
  the client's receive loop (\<open>client/src/game.ts\<close>) and the server's \<open>deserializeMsg\<close>
  (\<open>server/src/game/client.ts\<close>).
\<close>

section \<open>Message types\<close>

definition MsgNone :: int where "MsgNone = 0"
definition MsgJoin :: int where "MsgJoin = 1"
definition MsgDisconnect :: int where "MsgDisconnect = 2"
definition MsgInput :: int where "MsgInput = 3"
definition MsgEdit :: int where "MsgEdit = 4"
definition MsgJoined :: int where "MsgJoined = 5"
definition MsgUpdate :: int where "MsgUpdate = 6"
definition MsgKill :: int where "MsgKill = 7"
definition MsgGameOver :: int where "MsgGameOver = 8"
definition MsgPickup :: int where "MsgPickup = 9"
definition MsgMap :: int where "MsgMap = 10"
definition MsgSpectate :: int where "MsgSpectate = 11"
definition MsgDropItem :: int where "MsgDropItem = 12"
definition MsgEmote :: int where "MsgEmote = 13"
definition MsgPlayerStats :: int where "MsgPlayerStats = 14"
definition MsgRoleAnnouncement :: int where "MsgRoleAnnouncement = 17"
definition MsgStats :: int where "MsgStats = 18"
definition MsgUpdatePass :: int where "MsgUpdatePass = 19"
definition MsgAliveCounts :: int where "MsgAliveCounts = 20"
definition MsgPerkModeRoleSelect :: int where "MsgPerkModeRoleSelect = 21"

lemmas msg_types = MsgNone_def MsgJoin_def MsgDisconnect_def MsgInput_def MsgEdit_def MsgJoined_def MsgUpdate_def
  MsgKill_def MsgGameOver_def MsgPickup_def MsgMap_def MsgSpectate_def MsgDropItem_def MsgEmote_def
  MsgPlayerStats_def MsgRoleAnnouncement_def MsgStats_def MsgUpdatePass_def MsgAliveCounts_def
  MsgPerkModeRoleSelect_def

section \<open>Streams of messages\<close>

definition getBuffer :: "bitstream \<Rightarrow> view" where
  "getBuffer s = take (byteIndex s) (bs_view s)"

definition serializeMsg :: "int \<Rightarrow> unit bs \<Rightarrow> unit bs" where
  "serializeMsg type w =
     bindE (getsE get_index) (\<lambda>i. thenE (assertE (i mod 8 = 0) assertion_failed)
     (thenE (writeUint8 type) (thenE w writeAlignToNextByte)))"

definition serializeMsgStream :: "int \<Rightarrow> bitstream \<Rightarrow> unit bs" where
  "serializeMsgStream type src =
     bindE (getsE get_index) (\<lambda>i. thenE (assertE (i mod 8 = 0 \<and> get_index src mod 8 = 0) assertion_failed)
     (thenE (writeUint8 type) (writeBytes src 0 (nat (get_index src div 8)))))"

definition deserializeMsgType :: "int bs" where
  "deserializeMsgType = bindE (getsE (\<lambda>s. get_length s - int (byteIndex s) * 8)) (\<lambda>left.
     if 1 \<le> left then readUint8 else ret MsgNone)"

section \<open>The client\<close>

datatype server_msg = Joined "string option joined_msg" | MapMsg "string option map_msg"
  | Update "(full_seen, part_seen) update_msg" | Kill "string option kill_msg" | Role "string option role_msg"
  | Stats "int player_stats" | Over "int game_over_msg" | Pickup "string option pickup_msg"
  | UpdatePass | AliveCounts "int list" | Disconnect js_str

text \<open>What \<open>m_onMsg\<close> reads; a type it has no case for reads nothing.\<close>

definition onMsg :: "net_env \<Rightarrow> int \<Rightarrow> server_msg option bs" where
  "onMsg e t =
     (if t = MsgJoined then mapE (Some \<circ> Joined) (deser_joined e)
      else if t = MsgMap then mapE (Some \<circ> MapMsg) (deser_map e)
      else if t = MsgUpdate then mapE (Some \<circ> Update) (deser_update e)
      else if t = MsgKill then mapE (Some \<circ> Kill) (deser_kill e)
      else if t = MsgRoleAnnouncement then mapE (Some \<circ> Role) (deser_role e)
      else if t = MsgPlayerStats then mapE (Some \<circ> Stats) deser_player_stats
      else if t = MsgStats then mapE (\<lambda>_. None) (readASCIIString None)
      else if t = MsgGameOver then mapE (Some \<circ> Over) deser_game_over
      else if t = MsgPickup then mapE (Some \<circ> Pickup) (deser_pickup e)
      else if t = MsgUpdatePass then ret (Some UpdatePass)
      else if t = MsgAliveCounts then mapE (Some \<circ> AliveCounts) deser_alive_counts
      else if t = MsgDisconnect then mapE (Some \<circ> Disconnect) deser_disconnect
      else ret None)"

text \<open>
  One turn of the loop, and the loop: the messages handled, in order, and the error that ended it,
  if any.  \<open>None\<close> is no value of the code: the fuel ran out.
\<close>

definition receive_turn :: "net_env \<Rightarrow> (server_msg option \<times> bool) bs" where
  "receive_turn e = bindE deserializeMsgType (\<lambda>t.
     if t = MsgNone then ret (None, False)
     else bindE (onMsg e t) (\<lambda>m. thenE readAlignToNextByte (ret (m, True))))"

fun receive :: "net_env \<Rightarrow> nat \<Rightarrow> bitstream \<Rightarrow> (server_msg list \<times> string option) option" where
  "receive e 0 s = None"
| "receive e (Suc n) s = (case receive_turn e s of
      (Inl err, _) \<Rightarrow> Some ([], Some err)
    | (Inr (m, again), s') \<Rightarrow>
        if again then map_option (\<lambda>(ms, r). (case m of None \<Rightarrow> ms | Some x \<Rightarrow> x # ms, r)) (receive e n s')
        else Some ([], None))"

text \<open>\<open>onmessage\<close>: as many turns as the buffer has bytes, and one to see that it is at its end.\<close>

definition onmessage :: "net_env \<Rightarrow> view \<Rightarrow> (server_msg list \<times> string option) option" where
  "onmessage e buf = receive e (Suc (length buf)) (new_bitstream buf)"

section \<open>The server\<close>

datatype client_msg = Join "string option join_msg" | Input "string option input_msg"
  | EmoteMsg "string option emote_msg" | DropItem "string option drop_item_msg" | Spectate int
  | PerkModeRoleSelect "string option perk_role_msg" | Edit "string option edit_msg"

record decoded =
  dm_type :: int
  dm_msg :: "client_msg option"
  dm_error :: "string option"

definition protocolVersion :: int where
  "protocolVersion = 1021"

text \<open>The version of a join is read ahead of the message, which is then read from its start.\<close>

definition decode_join :: "net_env \<Rightarrow> decoded bs" where
  "decode_join e = bindE (getsE (\<lambda>s. nat (get_index s))) (\<lambda>oldIdx. bindE readUint32 (\<lambda>protocol.
     if protocol \<noteq> protocolVersion
     then ret \<lparr>dm_type = MsgJoin, dm_msg = None, dm_error = Some ''index-invalid-protocol''\<rparr>
     else thenE (set_index oldIdx) (bindE (deser_join e) (\<lambda>m.
          ret \<lparr>dm_type = MsgJoin, dm_msg = Some (Join m), dm_error = None\<rparr>))))"

definition decoded_as :: "int \<Rightarrow> ('a \<Rightarrow> client_msg) \<Rightarrow> 'a bs \<Rightarrow> decoded bs" where
  "decoded_as t f r = mapE (\<lambda>m. \<lparr>dm_type = t, dm_msg = Some (f m), dm_error = None\<rparr>) r"

definition decode_client :: "net_env \<Rightarrow> bool \<Rightarrow> decoded bs" where
  "decode_client e allowEditMsg = bindE deserializeMsgType (\<lambda>t.
     if t = MsgJoin then decode_join e
     else if t = MsgInput then decoded_as t Input (deser_input e)
     else if t = MsgEmote then decoded_as t EmoteMsg (deser_emote e)
     else if t = MsgDropItem then decoded_as t DropItem (deser_drop_item e)
     else if t = MsgSpectate then decoded_as t Spectate deser_spectate
     else if t = MsgPerkModeRoleSelect then decoded_as t PerkModeRoleSelect (deser_perk_role e)
     else if t = MsgEdit \<and> allowEditMsg then decoded_as t Edit (deser_edit e)
     else ret \<lparr>dm_type = t, dm_msg = None, dm_error = None\<rparr>)"

definition deserializeMsg :: "net_env \<Rightarrow> bool \<Rightarrow> view \<Rightarrow> string + decoded" where
  "deserializeMsg e allowEditMsg buf = fst (decode_client e allowEditMsg (new_bitstream buf))"

end
