(* ===== verification/MsgStreamFacts.thy ===== *)
theory MsgStreamFacts
  imports MsgStream
begin

text \<open>
  The receive loop ends on every buffer; what the server sends in one buffer is what the client
  handles, message by message; and the server decodes what a client sent, or refuses it.
\<close>

section \<open>Readers only move forward\<close>

definition ahead :: "nat \<Rightarrow> view \<Rightarrow> bitstream \<Rightarrow> bool" where
  "ahead i v s = (i \<le> bs_index s \<and> bs_index s \<le> 8 * length v \<and> bs_view s = v \<and> bs_start s = 0
     \<and> bs_length s = 8 * length v)"

lemma ahead_readBits [keeps_intros]: "keeps (ahead i v) (readBits n sg)"
  by (auto simp: keeps_def readBits_def ahead_def getBits_def split: sum.splits if_splits)

lemma ahead_reader [keeps_intros]: "keeps (ahead i v) (reader n sg)"
  using ahead_readBits [of i v n sg] by (auto simp: keeps_def reader_def)

lemma ahead_ints [keeps_intros]:
  "keeps (ahead i v) readUint8" "keeps (ahead i v) readUint16" "keeps (ahead i v) readUint32"
  "keeps (ahead i v) readBoolean"
  unfolding readUint8_def readUint16_def readUint32_def readBoolean_def by (intro keeps_intros)+

lemma ahead_assert [keeps_intros]: "keeps (ahead i v) (assertE b m)"
  unfolding assertE_def by (rule keeps_guardE)

lemma ahead_chars [keeps_intros]: "keeps (ahead i v) (read_chars n fixed collecting)"
  by (induction n arbitrary: fixed collecting) (auto intro!: keeps_intros)

lemma ahead_string [keeps_intros]: "keeps (ahead i v) (readASCIIString n)"
  unfolding readASCIIString_def by (cases n) (auto intro!: keeps_intros)

lemma ahead_repeat [keeps_intros]: "keeps (ahead i v) r \<Longrightarrow> keeps (ahead i v) (repeatE n r)"
  by (induction n) (auto intro!: keeps_intros)

lemma ahead_array [keeps_intros]: "keeps (ahead i v) r \<Longrightarrow> keeps (ahead i v) (readArray n r)"
  unfolding readArray_def by (intro keeps_intros)

lemma ahead_float [keeps_intros]: "keeps (ahead i v) (readFloat lo hi n)"
  unfolding readFloat_def Let_def by (intro keeps_intros)

lemma ahead_vec [keeps_intros]:
  "keeps (ahead i v) (readVec a b c d n)" "keeps (ahead i v) (readMapPos n)" "keeps (ahead i v) (readUnitVec n)"
  unfolding readMapPos_def readUnitVec_def readVec_def by (intro keeps_intros)+

lemma ahead_types [keeps_intros]:
  "keeps (ahead i v) (readGameType r)" "keeps (ahead i v) (readMapType r)" "keeps (ahead i v) (readGame e)"
  unfolding readGame_def readGameType_def readMapType_def readType_def by (intro keeps_intros)+

lemma ahead_f32 [keeps_intros]: "keeps (ahead i v) (readFloat32 e)"
  unfolding readFloat32_def by (intro keeps_intros)

lemma ahead_align [keeps_intros]: "keeps (ahead i v) readAlignToNextByte"
  unfolding readAlignToNextByte_def by (intro keeps_intros)

lemma ahead_mapE [keeps_intros]: "keeps (ahead i v) r \<Longrightarrow> keeps (ahead i v) (mapE f r)"
  unfolding mapE_def by (intro keeps_intros)

lemma ahead_opt [keeps_intros]: "keeps (ahead i v) r \<Longrightarrow> keeps (ahead i v) (read_opt b r)"
  unfolding read_opt_def by (intro keeps_intros)

lemma ahead_Uint [keeps_intros]: "keeps (ahead i v) (readUint n)" "keeps (ahead i v) readFlag"
  unfolding readUint_def readFlag_def by (intro keeps_intros)+

lemma ahead_collider [keeps_intros]: "keeps (ahead i v) readCollider"
  unfolding readCollider_def by (intro keeps_intros)

lemma ahead_map [keeps_intros]: "keeps (ahead i v) (deser_map e)"
  unfolding deser_map_def deserializeMapRiver_def deserializeMapPlaces_def deserializeMapObj_def
    deserializeMapGroundPatch_def by (intro keeps_intros)

lemma ahead_messages [keeps_intros]:
  "keeps (ahead i v) (deser_joined e)" "keeps (ahead i v) (deser_kill e)" "keeps (ahead i v) (deser_role e)"
  "keeps (ahead i v) deser_player_stats" "keeps (ahead i v) deser_game_over" "keeps (ahead i v) (deser_pickup e)"
  "keeps (ahead i v) deser_alive_counts" "keeps (ahead i v) deser_disconnect"
  unfolding deser_joined_def deser_kill_def deser_role_def deser_player_stats_def deser_game_over_def
    deser_pickup_def deser_alive_counts_def deser_disconnect_def by (intro keeps_intros)+

lemma ahead_player_full [keeps_intros]: "keeps (ahead i v) (deser_player_full e)"
  unfolding deser_player_full_def deser_perk_def Let_def by (intro keeps_intros)

lemma ahead_read_part [keeps_intros]: "keeps (ahead i v) (deserializePart e t)"
  by (cases t) (auto simp: deser_player_part_def deser_obstacle_part_def deser_loot_spawner_part_def
      deser_building_part_def deser_projectile_part_def deser_smoke_part_def deser_airdrop_part_def intro!: keeps_intros)

lemma ahead_read_full [keeps_intros]: "keeps (ahead i v) (deserializeFull e t)"
  by (cases t) (auto simp: deser_obstacle_full_def deser_door_def deser_button_def deser_loot_full_def
      deser_dead_body_full_def deser_building_full_def deser_structure_full_def deser_decal_full_def
      deser_projectile_full_def deser_smoke_full_def intro!: keeps_intros)

lemma ahead_read_typed [keeps_intros]: "(\<And>t. keeps (ahead i v) (r t)) \<Longrightarrow> keeps (ahead i v) (read_typed r n)"
  unfolding read_typed_def by (cases "type_of_code n") (auto intro!: keeps_intros)

lemma ahead_objects [keeps_intros]:
  "keeps (ahead i v) (deser_part_object e)" "keeps (ahead i v) (deser_full_object e)"
  unfolding deser_part_object_def deser_full_object_def by (intro keeps_intros)+

lemma ahead_local [keeps_intros]: "keeps (ahead i v) (deserializeActivePlayer e)"
  unfolding deserializeActivePlayer_def deser_action_def deser_inventory_def deser_item_def deser_weapons_def
    deser_weapon_def by (intro keeps_intros)

lemma ahead_bullet [keeps_intros]: "keeps (ahead i v) (deser_bullet e)"
  unfolding deser_bullet_def by (intro keeps_intros)

lemma ahead_sections [keeps_intros]:
  "keeps (ahead i v) (deserializeGasData e)" "keeps (ahead i v) (deserializePlayerInfo e)"
  "keeps (ahead i v) (deserializePlayerStatus e)" "keeps (ahead i v) deserializeGroupStatus"
  "keeps (ahead i v) (deser_explosion e)" "keeps (ahead i v) (deser_update_emote e)"
  "keeps (ahead i v) deser_plane" "keeps (ahead i v) deser_airstrike" "keeps (ahead i v) (deser_indicator e)"
  unfolding deserializeGasData_def deserializePlayerInfo_def deserializePlayerStatus_def deser_status_def
    deserializeGroupStatus_def deser_group_def deser_explosion_def deser_update_emote_def deser_plane_def
    deser_airstrike_def deser_indicator_def by (intro keeps_intros)+

lemma ahead_aligned [keeps_intros]: "keeps (ahead i v) r \<Longrightarrow> keeps (ahead i v) (aligned_array n r)"
  unfolding aligned_array_def by (intro keeps_intros)

lemma ahead_update [keeps_intros]: "keeps (ahead i v) (deser_update e)"
  unfolding deser_update_def by (intro keeps_intros)

lemma ahead_onMsg [keeps_intros]: "keeps (ahead i v) (onMsg e t)"
  unfolding onMsg_def by (intro keeps_intros)

section \<open>The loop ends\<close>

text \<open>A turn that goes on has read at least its type byte.\<close>

lemma turn_moves:
  assumes s: "ahead 0 v s" and turn: "receive_turn e s = (Inr (m, True), s')"
  shows "ahead (bs_index s + 8) v s'"
proof -
  obtain t s1 where t: "deserializeMsgType s = (Inr t, s1)" and nz: "t \<noteq> MsgNone"
    and rest: "bindE (onMsg e t) (\<lambda>m. thenE readAlignToNextByte (ret (m, True))) s1 = (Inr (m, True), s')"
    using turn by (auto simp: receive_turn_def bindE_def ret_def split: prod.splits sum.splits if_splits)
  have "readUint8 s = (Inr t, s1)"
    using t nz by (auto simp: deserializeMsgType_def bindE_def getsE_def ret_def split: if_splits)
  then have "ahead (bs_index s + 8) v s1"
    using s keepsD [OF ahead_ints(1) s] by (auto simp: readUint8_def reader_def readBits_def ahead_def split: sum.splits if_splits)
  moreover have "keeps (ahead (bs_index s + 8) v) (bindE (onMsg e t) (\<lambda>m. thenE readAlignToNextByte (ret (m, True))))"
    by (intro keeps_intros)
  ultimately show ?thesis using keepsD rest by (metis snd_conv)
qed

lemma receive_ends: "ahead 0 v s \<Longrightarrow> 8 * length v < bs_index s + 8 * n \<Longrightarrow> receive e n s \<noteq> None"
proof (induction n arbitrary: s)
  case 0
  then show ?case by (simp add: ahead_def)
next
  case (Suc n)
  have "receive e n s' \<noteq> None" if turn: "receive_turn e s = (Inr (m, True), s')" for m s'
  proof (rule Suc.IH)
    have "ahead (bs_index s + 8) v s'" by (rule turn_moves [OF Suc.prems(1) turn])
    then show "ahead 0 v s'" "8 * length v < bs_index s' + 8 * n" using Suc.prems(2) by (simp_all add: ahead_def)
  qed
  then show ?case by (auto split: prod.splits sum.splits)
qed

lemma onmessage_ends: "onmessage e buf \<noteq> None"
  unfolding onmessage_def by (rule receive_ends [of buf]) (simp_all add: ahead_def new_bitstream_def)

text \<open>
  C16: The receive loop of the client ends on every buffer, whatever a server or an attacker put
  there: after at most one turn for each byte it has reached the end, or an error was thrown.
\<close>

theorem receive_loop_ends: "onmessage e buf \<noteq> None"
  by (rule onmessage_ends)

section \<open>Messages in a buffer\<close>

lemma got_type:
  assumes "0 \<le> t" and "t < 256" and "bs_start s = 0" and "offset_of s = 0"
  shows "got deserializeMsgType s (word_bits 8 (word_of_int t) 0) t"
proof -
  have "got readUint8 s (word_bits 8 (word_of_int t) 0) t"
    using reads_byte [OF assms(1,2)] assms(3) unfolding reads_def by (simp add: word_bits_def)
  moreover have "deserializeMsgType s = readUint8 s" if "bs_index s + 8 \<le> bs_length s"
  proof -
    have "byteIndex s * 8 = bs_index s" using assms(4) by (simp add: byteIndex_def offset_of_def) presburger
    then have "get_length s - int (byteIndex s) * 8 = int (bs_length s) - int (bs_index s)"
      using assms(3) by (simp add: get_length_def)
    then show ?thesis using that by (simp add: deserializeMsgType_def bindE_def getsE_def)
  qed
  ultimately show ?thesis by (simp add: got_def word_bits_def)
qed

lemma carries_type:
  assumes "byte t"
  shows "carries {0} {0} (writeUint8 t) deserializeMsgType t"
  unfolding carries_def
proof (intro exI [of _ "word_bits 8 (word_of_int t)"] conjI allI impI ballI)
  fix s assume "writable s" "offset_of s \<in> {0}"
  then show "wrote (writeUint8 t) s (word_bits 8 (word_of_int t) (offset_of s))"
    using writes_writeBits [of 8 "js_int t", unfolded writes_def, rule_format, of s]
    by (simp add: writeUint8_def writeInt_def word_bits_def)
next
  fix s assume s: "bs_start s = 0" "offset_of s \<in> {0}"
  then show "got deserializeMsgType s (word_bits 8 (word_of_int t) (offset_of s)) t"
    using got_type [of t s] assms by (simp add: byte_def)
qed (simp add: word_bits_def)

lemma assert_aligned:
  "carries {0} B w r a
   \<Longrightarrow> carries {0} B (bindE (getsE get_index) (\<lambda>i. thenE (assertE (i mod 8 = 0) m) w)) r a"
  unfolding carries_def
proof (elim exE conjE, intro exI conjI allI impI ballI)
  fix f s
  assume w: "\<forall>s. writable s \<longrightarrow> offset_of s \<in> {0} \<longrightarrow> wrote w s (f (offset_of s))" and s: "writable s" "offset_of s \<in> {0}"
  have "get_index s mod 8 = 0" using s by (simp add: offset_of_def get_index_def writable_def) presburger
  then have "bindE (getsE get_index) (\<lambda>i. thenE (assertE (i mod 8 = 0) m) w) s = w s"
    by (simp add: bindE_def getsE_def)
  then show "wrote (bindE (getsE get_index) (\<lambda>i. thenE (assertE (i mod 8 = 0) m) w)) s (f (offset_of s))"
    using w s by (simp add: wrote_def)
qed blast+

text \<open>What was written to a fresh buffer is read from the part of it that \<open>getBuffer\<close> returns, to its end.\<close>

lemma buffer_read:
  assumes c: "carries {0} {0} w r a" and w: "w (new_bitstream v) = (Inr (), s)"
  obtains s' where "r (new_bitstream (getBuffer s)) = (Inr a, s')" and "ahead 0 (getBuffer s) s'"
    and "bs_index s' = 8 * length (getBuffer s)"
proof -
  obtain f where f: "length (f 0) mod 8 = 0"
      "\<forall>s. writable s \<longrightarrow> offset_of s = 0 \<longrightarrow> wrote w s (f 0)"
      "\<forall>s. bs_start s = 0 \<longrightarrow> offset_of s = 0 \<longrightarrow> got r s (f 0) a"
    using c unfolding carries_def by force
  have zero: "writable (new_bitstream v)" "offset_of (new_bitstream v) = 0"
    by (simp_all add: writable_def new_bitstream_def offset_of_def)
  from wroteE [OF f(2) [rule_format, OF zero] w] obtain u where
    u: "s = (new_bitstream v)\<lparr>bs_view := u, bs_index := length (f 0)\<rparr>" "patched v 0 (f 0) u" "length (f 0) \<le> 8 * length v"
    by (auto simp: new_bitstream_def)
  obtain n where n: "length (f 0) = 8 * n" using f(1) by (metis dvd_def mod_eq_0_iff_dvd)
  have b: "getBuffer s = take n u" using u(1) n by (simp add: getBuffer_def byteIndex_def)
  have len: "length (take n u) = n" using u(2,3) n by (simp add: patched_def)
  let ?s = "new_bitstream (getBuffer s)"
  have "holds_at (getBuffer s) 0 (f 0)"
    unfolding holds_at_def
  proof (intro allI impI)
    fix j assume j: "j < length (f 0)"
    then have "view_bit (take n u) j = view_bit u j" using n by (simp add: view_bit_def)
    then show "view_bit (getBuffer s) (0 + j) = f 0 ! j" using u(2) j b by (simp add: patched_def)
  qed
  moreover have "got r ?s (f 0) a" using f(3) by (simp add: new_bitstream_def offset_of_def)
  ultimately have "r ?s = (Inr a, ?s\<lparr>bs_index := length (f 0)\<rparr>)"
    using len n b by (simp add: got_def new_bitstream_def)
  then show thesis using that len n b by (simp add: ahead_def new_bitstream_def)
qed

section \<open>From the server to the client\<close>

datatype out_msg = OutJoined "string joined_msg" | OutMap "string map_msg"
  | OutUpdate "(game_object, game_object) update_msg" | OutKill "string kill_msg" | OutRole "string role_msg"
  | OutStats "bool player_stats" | OutOver "bool game_over_msg" | OutPickup "string pickup_msg"
  | OutUpdatePass | OutAliveCounts "int list" | OutDisconnect js_str

fun out_type :: "out_msg \<Rightarrow> int" where
  "out_type (OutJoined _) = MsgJoined"
| "out_type (OutMap _) = MsgMap"
| "out_type (OutUpdate _) = MsgUpdate"
| "out_type (OutKill _) = MsgKill"
| "out_type (OutRole _) = MsgRoleAnnouncement"
| "out_type (OutStats _) = MsgPlayerStats"
| "out_type (OutOver _) = MsgGameOver"
| "out_type (OutPickup _) = MsgPickup"
| "out_type OutUpdatePass = MsgUpdatePass"
| "out_type (OutAliveCounts _) = MsgAliveCounts"
| "out_type (OutDisconnect _) = MsgDisconnect"

fun out_writer :: "net_env \<Rightarrow> out_msg \<Rightarrow> unit bs" where
  "out_writer e (OutJoined m) = ser_joined e m"
| "out_writer e (OutMap m) = ser_map e m"
| "out_writer e (OutUpdate m) = ser_update e m"
| "out_writer e (OutKill m) = ser_kill e m"
| "out_writer e (OutRole m) = ser_role e m"
| "out_writer e (OutStats m) = ser_player_stats m"
| "out_writer e (OutOver m) = ser_game_over m"
| "out_writer e (OutPickup m) = ser_pickup e m"
| "out_writer e OutUpdatePass = ret ()"
| "out_writer e (OutAliveCounts m) = ser_alive_counts m"
| "out_writer e (OutDisconnect m) = ser_disconnect m"

fun valid_out :: "net_env \<Rightarrow> out_msg \<Rightarrow> bool" where
  "valid_out e (OutJoined m) = valid_joined e m"
| "valid_out e (OutMap m) = valid_map e m"
| "valid_out e (OutUpdate m) = valid_update e m"
| "valid_out e (OutKill m) = valid_kill e m"
| "valid_out e (OutRole m) = valid_role e m"
| "valid_out e (OutStats m) = valid_player_stats m"
| "valid_out e (OutOver m) = valid_game_over m"
| "valid_out e (OutPickup m) = valid_pickup e m"
| "valid_out e OutUpdatePass = True"
| "valid_out e (OutAliveCounts m) = all_valid 256 byte m"
| "valid_out e (OutDisconnect m) = plain_text m"

fun seen_out :: "net_env \<Rightarrow> out_msg \<Rightarrow> server_msg" where
  "seen_out e (OutJoined m) = Joined (seen_joined m)"
| "seen_out e (OutMap m) = MapMsg (seen_map e m)"
| "seen_out e (OutUpdate m) = Update (seen_update e m)"
| "seen_out e (OutKill m) = Kill (seen_kill m)"
| "seen_out e (OutRole m) = Role (seen_role m)"
| "seen_out e (OutStats m) = Stats (seen_player_stats m)"
| "seen_out e (OutOver m) = Over (seen_game_over m)"
| "seen_out e (OutPickup m) = Pickup (seen_pickup m)"
| "seen_out e OutUpdatePass = UpdatePass"
| "seen_out e (OutAliveCounts m) = AliveCounts m"
| "seen_out e (OutDisconnect m) = Disconnect m"

definition send_out :: "net_env \<Rightarrow> out_msg \<Rightarrow> unit bs" where
  "send_out e m = serializeMsg (out_type m) (out_writer e m)"

lemma out_type_byte: "byte (out_type m)" "out_type m \<noteq> MsgNone"
  by (cases m; simp add: msg_types byte_def)+

lemma carries_mapE: "carries A B w r a \<Longrightarrow> carries A B w (mapE f r) (f a)"
  unfolding mapE_def by (rule carries_last) simp_all

lemma carries_out:
  assumes "valid_out e m"
  shows "carries {0} UNIV (out_writer e m) (onMsg e (out_type m)) (Some (seen_out e m))"
proof (cases m)
  case (OutUpdate u)
  have "carries {0} UNIV (ser_update e u) (deser_update e) (seen_update e u)"
    using carries_mono [OF carries_update [of e u]] OutUpdate assms by simp
  from carries_mapE [OF this, of "Some \<circ> Update"] show ?thesis using OutUpdate by (simp add: onMsg_def msg_types)
qed (use assms in \<open>auto simp: onMsg_def msg_types all_valid_def joined.fits map_msg.fits kill.fits role.fits player_stats.fits
      game_over.fits pickup.fits alive_counts.fits disconnect.fits transmits_ret
      intro!: transmits_carries transmits_mapE [where f = "Some \<circ> _", simplified]\<close>)

lemma carries_send:
  assumes "valid_out e m"
  shows "carries {0} {0} (send_out e m) (receive_turn e) (Some (seen_out e m), True)"
  unfolding send_out_def serializeMsg_def receive_turn_def
proof (rule assert_aligned, rule carries_seq [OF carries_type [OF out_type_byte(1)]])
  have "carries UNIV {0} writeAlignToNextByte (thenE readAlignToNextByte (ret (Some (seen_out e m), True)))
      (Some (seen_out e m), True)" by (rule carry_align) simp
  then have "carries {0} {0} (thenE (out_writer e m) writeAlignToNextByte)
      (bindE (onMsg e (out_type m)) (\<lambda>m. thenE readAlignToNextByte (ret (m, True)))) (Some (seen_out e m), True)"
    by (rule carries_seq [OF carries_out [OF assms]])
  then show "carries {0} {0} (thenE (out_writer e m) writeAlignToNextByte)
      (if out_type m = MsgNone then ret (None, False)
       else bindE (onMsg e (out_type m)) (\<lambda>m. thenE readAlignToNextByte (ret (m, True)))) (Some (seen_out e m), True)"
    using out_type_byte(2) by simp
qed

interpretation sent_msg: frame "send_out e" "receive_turn e" "valid_out e" "\<lambda>m. (Some (seen_out e m), True)" for e
  by unfold_locales (rule carries_send)

text \<open>The turns for the messages of a buffer, and what the loop makes of them.\<close>

lemma receive_turns:
  "repeatE n (receive_turn e) s = (Inr (map (\<lambda>m. (Some m, True)) ms), s') \<Longrightarrow> n = length ms
   \<Longrightarrow> receive e (n + k) s = map_option (\<lambda>(ms', r). (ms @ ms', r)) (receive e k s')"
proof (induction n arbitrary: s ms)
  case 0
  then show ?case by (cases "receive e k s") (auto simp: ret_def)
next
  case (Suc n)
  then obtain m ms0 where ms: "ms = m # ms0" "n = length ms0" by (cases ms) auto
  obtain s1 where s1: "receive_turn e s = (Inr (Some m, True), s1)"
    and rest: "repeatE n (receive_turn e) s1 = (Inr (map (\<lambda>m. (Some m, True)) ms0), s')"
    using Suc.prems(1) ms(1) by (auto simp: bindE_def ret_def split: prod.splits sum.splits)
  show ?case
    using Suc.IH [OF rest ms(2)] s1 ms(1) by (cases "receive e k s'") auto
qed

lemma receive_at_end:
  assumes "ahead 0 v s" and "bs_index s = 8 * length v"
  shows "receive e (Suc k) s = Some ([], None)"
proof -
  have "\<not> 1 \<le> get_length s - int (byteIndex s) * 8"
    using assms by (simp add: ahead_def get_length_def byteIndex_def)
  then have "receive_turn e s = (Inr (None, False), s)"
    by (simp add: receive_turn_def deserializeMsgType_def bindE_def getsE_def ret_def)
  then show ?thesis by simp
qed

lemma receive_more: "receive e n s = Some x \<Longrightarrow> n \<le> n' \<Longrightarrow> receive e n' s = Some x"
proof (induction n arbitrary: n' s x)
  case (Suc n)
  obtain n0 where n0: "n' = Suc n0" "n \<le> n0" using Suc.prems(2) by (cases n') auto
  obtain r s1 where turn: "receive_turn e s = (r, s1)" by fastforce
  show ?case
  proof (cases "\<exists>m. r = Inr (m, True)")
    case True
    then obtain m where m: "r = Inr (m, True)" by blast
    then obtain y where y: "receive e n s1 = Some y" using Suc.prems(1) turn by (cases "receive e n s1") auto
    have "receive e n0 s1 = Some y" by (rule Suc.IH [OF y n0(2)])
    then show ?thesis using Suc.prems(1) turn m y n0(1) by simp
  next
    case False
    then show ?thesis using Suc.prems(1) turn n0(1) by (cases r) (auto split: if_splits)
  qed
qed simp

text \<open>
  C14: What a server serializes into one buffer, message after message, the client's receive loop
  handles as the same messages in the same order, each with what the format keeps of it, and
  without an error: every message type of the game, an update with its objects included.
\<close>

theorem client_handles_what_was_sent:
  assumes "\<forall>m \<in> set ms. valid_out e m" and "forE ms (send_out e) (new_bitstream v) = (Inr (), s)"
  shows "onmessage e (getBuffer s) = Some (map (seen_out e) ms, None)"
proof -
  let ?b = "getBuffer s" and ?n = "length ms"
  have "carries {0} {0} (forE ms (send_out e)) (repeatE ?n (receive_turn e)) (map (\<lambda>m. (Some m, True)) (map (seen_out e) ms))"
    using sent_msg.elements [OF assms(1)] by (simp add: comp_def)
  from buffer_read [OF this assms(2)] obtain s' where
    turns: "repeatE ?n (receive_turn e) (new_bitstream ?b) = (Inr (map (\<lambda>m. (Some m, True)) (map (seen_out e) ms)), s')"
    and at_end: "ahead 0 ?b s'" "bs_index s' = 8 * length ?b" by blast
  have "receive e (?n + 1) (new_bitstream ?b) = Some (map (seen_out e) ms, None)"
    using receive_turns [OF turns, of 1] receive_at_end [OF at_end, of e 0] by simp
  then have some: "receive e (max (?n + 1) (Suc (length ?b))) (new_bitstream ?b) = Some (map (seen_out e) ms, None)"
    by (rule receive_more) simp
  obtain r where r: "onmessage e ?b = Some r" using onmessage_ends by blast
  then have "receive e (max (?n + 1) (Suc (length ?b))) (new_bitstream ?b) = Some r"
    unfolding onmessage_def by (rule receive_more) simp
  with some have "r = (map (seen_out e) ms, None)" by (metis option.inject)
  with r show ?thesis by (simp only:)
qed

lemma client_handles_what_was_sent_witness:
  "onmessage sample_env [20, 1, 3, 2, 104, 105, 0] = Some ([AliveCounts [3], Disconnect [104, 105]], None)"
proof -
  let ?s = "\<lparr>bs_view = [20, 1, 3, 2, 104, 105, 0, 0], bs_index = 56, bs_start = 0, bs_length = 64\<rparr>"
  have sent: "forE [OutAliveCounts [3], OutDisconnect [104, 105]] (send_out sample_env)
      (new_bitstream [0, 0, 0, 0, 0, 0, 0, 0]) = (Inr (), ?s)"
    by code_simp
  have "getBuffer ?s = [20, 1, 3, 2, 104, 105, 0]" by (simp add: getBuffer_def byteIndex_def)
  with client_handles_what_was_sent [OF _ sent] show ?thesis
    by (simp add: all_valid_def byte_def del: receive.simps)
qed

section \<open>From the client to the server\<close>

datatype in_msg = InJoin "string join_msg" | InInput "string input_msg" | InEmote "string emote_msg"
  | InDropItem "string drop_item_msg" | InSpectate int | InPerkModeRoleSelect "string perk_role_msg"
  | InEdit "string edit_msg"

fun in_type :: "in_msg \<Rightarrow> int" where
  "in_type (InJoin _) = MsgJoin"
| "in_type (InInput _) = MsgInput"
| "in_type (InEmote _) = MsgEmote"
| "in_type (InDropItem _) = MsgDropItem"
| "in_type (InSpectate _) = MsgSpectate"
| "in_type (InPerkModeRoleSelect _) = MsgPerkModeRoleSelect"
| "in_type (InEdit _) = MsgEdit"

fun in_writer :: "net_env \<Rightarrow> in_msg \<Rightarrow> unit bs" where
  "in_writer e (InJoin m) = ser_join e m"
| "in_writer e (InInput m) = ser_input e m"
| "in_writer e (InEmote m) = ser_emote e m"
| "in_writer e (InDropItem m) = ser_drop_item e m"
| "in_writer e (InSpectate m) = ser_spectate m"
| "in_writer e (InPerkModeRoleSelect m) = ser_perk_role e m"
| "in_writer e (InEdit m) = ser_edit e m"

fun valid_in :: "net_env \<Rightarrow> in_msg \<Rightarrow> bool" where
  "valid_in e (InJoin m) = valid_join e m"
| "valid_in e (InInput m) = valid_input e m"
| "valid_in e (InEmote m) = valid_emote e m"
| "valid_in e (InDropItem m) = valid_drop_item e m"
| "valid_in e (InSpectate m) = byte m"
| "valid_in e (InPerkModeRoleSelect m) = game_type e (pr_role m)"
| "valid_in e (InEdit m) = valid_edit e m"

fun seen_in :: "net_env \<Rightarrow> in_msg \<Rightarrow> client_msg" where
  "seen_in e (InJoin m) = Join (seen_join m)"
| "seen_in e (InInput m) = Input (seen_input m)"
| "seen_in e (InEmote m) = EmoteMsg (seen_emote m)"
| "seen_in e (InDropItem m) = DropItem (seen_drop_item m)"
| "seen_in e (InSpectate m) = Spectate m"
| "seen_in e (InPerkModeRoleSelect m) = PerkModeRoleSelect (seen_perk_role m)"
| "seen_in e (InEdit m) = Edit (seen_edit e m)"

text \<open>What the server answers: a join of another protocol is refused, an edit ignored unless allowed.\<close>

definition answer :: "net_env \<Rightarrow> bool \<Rightarrow> in_msg \<Rightarrow> decoded" where
  "answer e allowEditMsg m = (case m of
      InJoin j \<Rightarrow> if jn_protocol j = protocolVersion
        then \<lparr>dm_type = MsgJoin, dm_msg = Some (seen_in e m), dm_error = None\<rparr>
        else \<lparr>dm_type = MsgJoin, dm_msg = None, dm_error = Some ''index-invalid-protocol''\<rparr>
    | InEdit _ \<Rightarrow> if allowEditMsg then \<lparr>dm_type = MsgEdit, dm_msg = Some (seen_in e m), dm_error = None\<rparr>
        else \<lparr>dm_type = MsgEdit, dm_msg = None, dm_error = None\<rparr>
    | _ \<Rightarrow> \<lparr>dm_type = in_type m, dm_msg = Some (seen_in e m), dm_error = None\<rparr>)"


lemma bindE_returns:
  "bindE m k s = (Inr b, s') \<Longrightarrow> \<exists>a s1. m s = (Inr a, s1) \<and> k a s1 = (Inr b, s')"
  by (auto simp: bindE_def split: prod.splits sum.splits)

lemma typed_read:
  assumes t: "byte t" and w: "transmits w r a" and sent: "serializeMsg t w (new_bitstream v) = (Inr (), s)"
  obtains s1 s2 where "deserializeMsgType (new_bitstream (getBuffer s)) = (Inr t, s1)" and "r s1 = (Inr a, s2)"
    and "ahead 0 (getBuffer s) s1"
proof -
  let ?r = "bindE deserializeMsgType (\<lambda>t. bindE r (\<lambda>a. thenE readAlignToNextByte (ret (t, a))))"
  have "carries UNIV {0} writeAlignToNextByte (thenE readAlignToNextByte (ret (t, a))) (t, a)" by (rule carry_align) simp
  then have "carries {0} {0} (thenE w writeAlignToNextByte) (bindE r (\<lambda>a. thenE readAlignToNextByte (ret (t, a)))) (t, a)"
    by (rule carries_seq [OF transmits_carries [OF w]])
  then have "carries {0} {0} (thenE (writeUint8 t) (thenE w writeAlignToNextByte)) ?r (t, a)"
    by (rule carries_seq [OF carries_type [OF t]])
  from assert_aligned [OF this, of assertion_failed] sent obtain s' where
    rd: "?r (new_bitstream (getBuffer s)) = (Inr (t, a), s')"
    unfolding serializeMsg_def by (rule buffer_read)
  obtain t' s1 where t': "deserializeMsgType (new_bitstream (getBuffer s)) = (Inr t', s1)"
    and rest: "bindE r (\<lambda>a. thenE readAlignToNextByte (ret (t', a))) s1 = (Inr (t, a), s')"
    using bindE_returns [OF rd] by blast
  obtain a' s2 where a': "r s1 = (Inr a', s2)" and fin: "thenE readAlignToNextByte (ret (t', a')) s2 = (Inr (t, a), s')"
    using bindE_returns [OF rest] by blast
  have "t' = t" "a' = a" using bindE_returns [OF fin [unfolded thenE_def]] by (auto simp: ret_def)
  moreover have "ahead 0 (getBuffer s) s1"
  proof -
    have "keeps (ahead 0 (getBuffer s)) deserializeMsgType"
      unfolding deserializeMsgType_def by (intro keeps_intros)
    from keepsD [OF this, of "new_bitstream (getBuffer s)"] t' show ?thesis
      by (simp add: ahead_def new_bitstream_def)
  qed
  ultimately show thesis using that t' a' by blast
qed

lemma wp_after: "(\<And>a s. wp (f a) Q (\<lambda>_ _. True) s) \<Longrightarrow> wp (bindE m f) Q (\<lambda>_ _. True) s"
  unfolding wp_bindE by (rule wp_mono [OF wp_True])

text \<open>The version that was read ahead is that of the message.\<close>

lemma version_first:
  assumes "deser_join e s = (Inr j, s')"
  obtains s1 where "readUint32 s = (Inr (jn_protocol j), s1)"
proof -
  define k where "k = (\<lambda>p. bindE (readASCIIString None) (\<lambda>priv.
      bindE (readASCIIString (Some PlayerNameMaxLen)) (\<lambda>name. bindE readBoolean (\<lambda>touch.
      bindE readBoolean (\<lambda>mobile. bindE readBoolean (\<lambda>bot. bindE (readGameType (ne_game e)) (\<lambda>outfit.
      bindE (readGameType (ne_game e)) (\<lambda>melee. bindE (readGameType (ne_game e)) (\<lambda>heal.
      bindE (readGameType (ne_game e)) (\<lambda>boost. bindE (readArray 8 (readGameType (ne_game e))) (\<lambda>emotes.
      ret \<lparr>jn_protocol = p, jn_matchPriv = priv, jn_name = name, jn_useTouch = touch, jn_isMobile = mobile,
           jn_bot = bot, jn_loadout = \<lparr>lo_outfit = outfit, lo_melee = melee, lo_heal = heal, lo_boost = boost,
             lo_emotes = emotes\<rparr>\<rparr>)))))))))))"
  have "deser_join e = bindE readUint32 k" by (simp add: deser_join_def Let_def k_def)
  then obtain p s1 where p: "readUint32 s = (Inr p, s1)" and rest: "k p s1 = (Inr j, s')"
    using bindE_returns assms by metis
  have "wp (k p) (\<lambda>j _. jn_protocol j = p) (\<lambda>_ _. True) s1" unfolding k_def by (intro wp_after) simp
  then have "jn_protocol j = p" using rest by (simp add: wp_def)
  with p that show thesis by simp
qed

lemma decode_join_run:
  assumes j: "deser_join e s = (Inr j, s')" and s: "ahead 0 v s"
  shows "fst (decode_join e s) = Inr (if jn_protocol j = protocolVersion
     then \<lparr>dm_type = MsgJoin, dm_msg = Some (Join j), dm_error = None\<rparr>
     else \<lparr>dm_type = MsgJoin, dm_msg = None, dm_error = Some ''index-invalid-protocol''\<rparr>)"
proof -
  obtain s1 where s1: "readUint32 s = (Inr (jn_protocol j), s1)" by (rule version_first [OF j])
  have "ahead 0 v s1" using keepsD [OF ahead_ints(3) s] s1 by simp
  then have same: "s1\<lparr>bs_index := bs_index s\<rparr> = s" using s by (simp add: ahead_def)
  have "nat (get_index s) = bs_index s" "bs_start s1 = 0" using s \<open>ahead 0 v s1\<close> by (simp_all add: get_index_def ahead_def)
  then show ?thesis
    using s1 j same by (simp add: decode_join_def bindE_def getsE_def thenE_def set_index_def modifyE_def ret_def)
qed

lemma mapE_run: "r s = (Inr a, s') \<Longrightarrow> fst (mapE f r s) = Inr (f a)"
  by (simp add: mapE_def bindE_def ret_def)

lemma decode_simple:
  assumes t: "byte t" and w: "transmits w r a" and sent: "serializeMsg t w (new_bitstream v) = (Inr (), s)"
    and run: "\<And>s1. deserializeMsgType (new_bitstream (getBuffer s)) = (Inr t, s1)
      \<Longrightarrow> decode_client e allowEditMsg (new_bitstream (getBuffer s)) = decoded_as t f r s1"
  shows "deserializeMsg e allowEditMsg (getBuffer s) = Inr \<lparr>dm_type = t, dm_msg = Some (f a), dm_error = None\<rparr>"
proof -
  obtain s1 s2 where "deserializeMsgType (new_bitstream (getBuffer s)) = (Inr t, s1)" "r s1 = (Inr a, s2)"
    by (rule typed_read [OF t w sent])
  with run [of s1] show ?thesis by (simp add: deserializeMsg_def decoded_as_def mapE_run)
qed

lemma server_decodes:
  assumes v: "valid_in e m" and sent: "serializeMsg (in_type m) (in_writer e m) (new_bitstream v) = (Inr (), s)"
  shows "deserializeMsg e allowEditMsg (getBuffer s) = Inr (answer e allowEditMsg m)"
proof -
  let ?s = "new_bitstream (getBuffer s)"
  have t: "byte (in_type m)" by (cases m) (simp_all add: msg_types byte_def)
  show ?thesis
  proof (cases m)
    case (InJoin j)
    then have w: "transmits (in_writer e m) (deser_join e) (seen_join j)" using v by (simp add: join.fits)
    obtain s1 s2 where s1: "deserializeMsgType ?s = (Inr (in_type m), s1)" "deser_join e s1 = (Inr (seen_join j), s2)"
        "ahead 0 (getBuffer s) s1"
      by (rule typed_read [OF t w sent])
    have "decode_client e allowEditMsg ?s = decode_join e s1" using s1(1) InJoin by (simp add: decode_client_def bindE_def)
    then show ?thesis
      using decode_join_run [OF s1(2,3)] InJoin by (simp add: deserializeMsg_def answer_def seen_join_def Let_def)
  next
    case (InInput i)
    then have "transmits (in_writer e m) (deser_input e) (seen_input i)" using v by (simp add: input.fits)
    from decode_simple [OF t this sent] show ?thesis
      using InInput by (simp add: answer_def decode_client_def bindE_def msg_types)
  next
    case (InEmote i)
    then have "transmits (in_writer e m) (deser_emote e) (seen_emote i)" using v by (simp add: emote.fits)
    from decode_simple [OF t this sent] show ?thesis
      using InEmote by (simp add: answer_def decode_client_def bindE_def msg_types)
  next
    case (InDropItem i)
    then have "transmits (in_writer e m) (deser_drop_item e) (seen_drop_item i)" using v by (simp add: drop_item.fits)
    from decode_simple [OF t this sent] show ?thesis
      using InDropItem by (simp add: answer_def decode_client_def bindE_def msg_types)
  next
    case (InSpectate i)
    then have "transmits (in_writer e m) (deser_spectate) (i)" using v by (simp add: spectate.fits)
    from decode_simple [OF t this sent] show ?thesis
      using InSpectate by (simp add: answer_def decode_client_def bindE_def msg_types)
  next
    case (InPerkModeRoleSelect i)
    then have "transmits (in_writer e m) (deser_perk_role e) (seen_perk_role i)" using v by (simp add: perk_role.fits)
    from decode_simple [OF t this sent] show ?thesis
      using InPerkModeRoleSelect by (simp add: answer_def decode_client_def bindE_def msg_types)
  next
    case (InEdit i)
    then have w: "transmits (in_writer e m) (deser_edit e) (seen_edit e i)" using v by (simp add: edit.fits)
    obtain s1 s2 where s1: "deserializeMsgType ?s = (Inr (in_type m), s1)" "deser_edit e s1 = (Inr (seen_edit e i), s2)"
      by (rule typed_read [OF t w sent])
    then show ?thesis
      using InEdit by (simp add: deserializeMsg_def answer_def decode_client_def bindE_def msg_types decoded_as_def mapE_run ret_def)
  qed
qed

text \<open>
  C15: What a client serializes with \<open>serializeMsg\<close> the server decodes as the same message, with
  what the format keeps of it.  A join with another protocol version is refused with
  \<open>index-invalid-protocol\<close>, and an edit is dropped when edits are not allowed.
\<close>

theorem server_decodes_what_was_sent:
  assumes "valid_in e m" and "serializeMsg (in_type m) (in_writer e m) (new_bitstream v) = (Inr (), s)"
  shows "deserializeMsg e allowEditMsg (getBuffer s) = Inr (answer e allowEditMsg m)"
  by (rule server_decodes [OF assms])

lemma server_decodes_what_was_sent_witness:
  "deserializeMsg sample_env False [11, 2] = Inr \<lparr>dm_type = 11, dm_msg = Some (Spectate 2), dm_error = None\<rparr>"
proof -
  let ?s = "\<lparr>bs_view = [11, 2, 0], bs_index = 16, bs_start = 0, bs_length = 24\<rparr>"
  have sent: "serializeMsg (in_type (InSpectate 2)) (in_writer sample_env (InSpectate 2)) (new_bitstream [0, 0, 0]) = (Inr (), ?s)"
    by code_simp
  have "getBuffer ?s = [11, 2]" by (simp add: getBuffer_def byteIndex_def)
  with server_decodes_what_was_sent [OF _ sent, of False] show ?thesis
    by (simp add: byte_def answer_def msg_types)
qed

end
