(* ===== verification/GatewayIdentity.thy ===== *)
theory GatewayIdentity
  imports Prelude
begin

text \<open>
  The identity a gateway connection proves to a room (\<open>server/src/opsia/sessionGatewayProtocol.ts\<close>):
  its checks, the text that is signed, signing and verifying.  The HMAC is a parameter, given as the
  function from the secret and the text to the lower-case hexadecimal digest, and so is the text
  of a number that is no integer.
\<close>

section \<open>Identities\<close>

record gateway_identity =
  gi_roomId :: string
  gi_gameId :: string
  gi_sessionId :: string
  gi_roomEpoch :: jsnum
  gi_issuedAt :: jsnum
  gi_nonce :: string

record crypto =
  cr_hmac :: "string \<Rightarrow> string \<Rightarrow> string"
  cr_fraction :: "rat \<Rightarrow> string"

definition SIGNATURE_VERSION :: string where "SIGNATURE_VERSION = ''v1''"
definition MAX_SKEW_MS :: int where "MAX_SKEW_MS = 30000"

text \<open>\<open>String(n)\<close>: decimal digits for an integer below \<open>10 ^ 21\<close>.\<close>

fun js_string :: "crypto \<Rightarrow> jsnum \<Rightarrow> string" where
  "js_string c NaN = ''NaN''"
| "js_string c PosInf = ''Infinity''"
| "js_string c NegInf = ''-Infinity''"
| "js_string c (Num q) =
     (if is_integer (Num q) \<and> \<bar>q\<bar> < 10 ^ 21 then show_int \<lfloor>q\<rfloor> else cr_fraction c q)"

definition NEWLINE :: char where "NEWLINE = CHR 0x0A"

fun join_lines :: "string list \<Rightarrow> string" where
  "join_lines [] = []"
| "join_lines [l] = l"
| "join_lines (l # ls) = l @ NEWLINE # join_lines ls"

definition signature_lines :: "crypto \<Rightarrow> gateway_identity \<Rightarrow> string list" where
  "signature_lines c i =
     [SIGNATURE_VERSION, gi_roomId i, gi_gameId i, gi_sessionId i,
      js_string c (gi_roomEpoch i), js_string c (gi_issuedAt i), gi_nonce i]"

definition gatewaySignaturePayload :: "crypto \<Rightarrow> gateway_identity \<Rightarrow> string" where
  "gatewaySignaturePayload c i = join_lines (signature_lines c i)"

text \<open>\<open>Buffer.byteLength(s, "utf8")\<close> of characters below U+0100.\<close>

definition utf8_length :: "string \<Rightarrow> nat" where
  "utf8_length s = sum_list (map (\<lambda>ch. if of_char ch < (128 :: nat) then 1 else 2) s)"

definition assertGatewaySharedSecret :: "string \<Rightarrow> string + unit" where
  "assertGatewaySharedSecret secret =
     (if utf8_length secret < 32 then Inl ''session_gateway_shared_secret_too_short'' else Inr ())"

definition is_nonce :: "string \<Rightarrow> bool" where
  "is_nonce s = (length s = 32 \<and> list_all is_lower_hex s)"

definition isGatewayConnectionIdentityValid :: "gateway_identity \<Rightarrow> int \<Rightarrow> bool" where
  "isGatewayConnectionIdentityValid i now =
     (room_ordinal (gi_roomId i) \<noteq> None
      \<and> 0 < length (gi_gameId i) \<and> length (gi_gameId i) \<le> 256
      \<and> 16 \<le> length (gi_sessionId i) \<and> length (gi_sessionId i) \<le> 128
      \<and> is_safe_integer (gi_roomEpoch i) \<and> js_le (js_int 1) (gi_roomEpoch i)
      \<and> is_safe_integer (gi_issuedAt i)
      \<and> \<bar>now - int_of_jsnum (gi_issuedAt i)\<bar> \<le> MAX_SKEW_MS
      \<and> is_nonce (gi_nonce i))"

definition signGatewayConnection :: "crypto \<Rightarrow> string \<Rightarrow> gateway_identity \<Rightarrow> string + string" where
  "signGatewayConnection c secret i =
     (case assertGatewaySharedSecret secret of
        Inl e \<Rightarrow> Inl e
      | Inr _ \<Rightarrow> Inr (cr_hmac c secret (gatewaySignaturePayload c i)))"

text \<open>\<open>Buffer.from(s, "hex")\<close>: whole bytes up to the first character that is no hexadecimal digit.\<close>

definition hex_digit :: "char \<Rightarrow> nat option" where
  "hex_digit ch = (let n = of_char ch in
     if 48 \<le> n \<and> n \<le> 57 then Some (n - 48)
     else if 97 \<le> n \<and> n \<le> 102 then Some (n - 87)
     else if 65 \<le> n \<and> n \<le> 70 then Some (n - 55) else None)"

fun from_hex :: "string \<Rightarrow> nat list" where
  "from_hex (a # b # s) = (case (hex_digit a, hex_digit b) of
      (Some x, Some y) \<Rightarrow> (16 * x + y) # from_hex s
    | _ \<Rightarrow> [])"
| "from_hex _ = []"

definition verifyGatewayConnection :: "crypto \<Rightarrow> string \<Rightarrow> gateway_identity \<Rightarrow> string \<Rightarrow> int \<Rightarrow> bool" where
  "verifyGatewayConnection c secret i signature now =
     (if \<not> isGatewayConnectionIdentityValid i now \<or> \<not> is_sha256_hex signature then False
      else case signGatewayConnection c secret i of
        Inl _ \<Rightarrow> False
      | Inr expected \<Rightarrow>
          length (from_hex signature) = length (from_hex expected) \<and> from_hex signature = from_hex expected)"

section \<open>Lines\<close>

lemma join_lines_Cons: "ls \<noteq> [] \<Longrightarrow> join_lines (l # ls) = l @ NEWLINE # join_lines ls"
  by (cases ls) simp_all

lemma line_split:
  assumes "NEWLINE \<notin> set a" and "NEWLINE \<notin> set b" and "a @ NEWLINE # r = b @ NEWLINE # t"
  shows "a = b \<and> r = t"
proof -
  have "takeWhile (\<lambda>ch. ch \<noteq> NEWLINE) (a @ NEWLINE # r) = a"
    using assms(1) by (subst takeWhile_append2) auto
  moreover have "takeWhile (\<lambda>ch. ch \<noteq> NEWLINE) (b @ NEWLINE # t) = b"
    using assms(2) by (subst takeWhile_append2) auto
  ultimately have "a = b" using assms(3) by simp
  then show ?thesis using assms(3) by simp
qed

lemma join_lines_inject:
  assumes "length ls = length ks" and "\<forall>l \<in> set ls. NEWLINE \<notin> set l" and "\<forall>l \<in> set ks. NEWLINE \<notin> set l"
    and "join_lines ls = join_lines ks"
  shows "ls = ks"
  using assms
proof (induction ls ks rule: list_induct2)
  case (Cons l ls k ks)
  show ?case
  proof (cases "ls = []")
    case True
    then show ?thesis using Cons by simp
  next
    case False
    with Cons.hyps have "ks \<noteq> []" by auto
    with False Cons.prems(3) have "l @ NEWLINE # join_lines ls = k @ NEWLINE # join_lines ks"
      by (simp add: join_lines_Cons)
    then have "l = k \<and> join_lines ls = join_lines ks"
      by (rule line_split [rotated 2]) (use Cons.prems in simp_all)
    with Cons show ?thesis by simp
  qed
qed simp

lemma digit_no_newline: "is_digit ch \<Longrightarrow> ch \<noteq> NEWLINE"
  by (auto simp: is_digit_def NEWLINE_def)

lemma digits_no_newline: "list_all is_digit s \<Longrightarrow> NEWLINE \<notin> set s"
  using digit_no_newline by (auto simp: list_all_iff)

lemma show_int_no_newline: "NEWLINE \<notin> set (show_int i)"
  using all_digits_show_nat [of "nat i"] all_digits_show_nat [of "nat (- i)"] digits_no_newline
  by (auto simp: show_int_def all_digits_def NEWLINE_def)

lemma show_int_inject: "0 \<le> i \<Longrightarrow> 0 \<le> j \<Longrightarrow> show_int i = show_int j \<Longrightarrow> i = j"
  using show_nat_inj [of "nat i" "nat j"] by (simp add: show_int_def)

lemma show_int_inject_all: "show_int i = show_int j \<Longrightarrow> i = j"
proof -
  assume eq: "show_int i = show_int j"
  have minus: "show_nat n \<noteq> CHR ''-'' # s" for n s
    using all_digits_show_nat [of n] by (auto simp: all_digits_def is_digit_def)
  show "i = j"
    using eq minus [of "nat i"] minus [of "nat j", symmetric] show_nat_inj [of "nat (- i)" "nat (- j)"]
      show_int_inject [of i j]
    by (auto simp: show_int_def split: if_splits)
qed

lemma js_string_safe: "is_safe_integer n \<Longrightarrow> js_string c n = show_int (int_of_jsnum n)"
  by (auto simp: is_safe_integer_iff safe_int_def MAX_SAFE_def js_int_def abs_if split: if_splits)

lemma room_ordinal_no_newline: "room_ordinal r \<noteq> None \<Longrightarrow> NEWLINE \<notin> set r"
  using digits_no_newline
  by (auto simp: room_ordinal_def strip_prefix_Some_iff all_digits_def NEWLINE_def split: option.splits if_splits)

lemma nonce_no_newline: "is_nonce s \<Longrightarrow> NEWLINE \<notin> set s"
  by (auto simp: is_nonce_def list_all_iff is_lower_hex_def is_digit_def NEWLINE_def)

lemma valid_identity:
  assumes "isGatewayConnectionIdentityValid i now"
  shows "is_safe_integer (gi_roomEpoch i)" "is_safe_integer (gi_issuedAt i)" "NEWLINE \<notin> set (gi_roomId i)" "NEWLINE \<notin> set (gi_nonce i)"
  using assms room_ordinal_no_newline nonce_no_newline by (auto simp: isGatewayConnectionIdentityValid_def)

text \<open>The two fields whose characters no check restricts.\<close>

definition plain_identity :: "gateway_identity \<Rightarrow> bool" where
  "plain_identity i = (NEWLINE \<notin> set (gi_gameId i) \<and> NEWLINE \<notin> set (gi_sessionId i))"

lemma payload_inject:
  assumes "isGatewayConnectionIdentityValid i now" and "isGatewayConnectionIdentityValid j now'"
    and "plain_identity i" and "plain_identity j"
    and "gatewaySignaturePayload c i = gatewaySignaturePayload c j"
  shows "i = j"
proof -
  note vi = valid_identity [OF assms(1)] and vj = valid_identity [OF assms(2)]
  have "NEWLINE \<notin> set SIGNATURE_VERSION" by (simp add: SIGNATURE_VERSION_def NEWLINE_def)
  then have "signature_lines c i = signature_lines c j"
    using assms(3-5) vi vj
    by (intro join_lines_inject)
       (simp_all add: gatewaySignaturePayload_def signature_lines_def plain_identity_def js_string_safe show_int_no_newline)
  then have "gi_roomId i = gi_roomId j" "gi_gameId i = gi_gameId j" "gi_sessionId i = gi_sessionId j"
    "int_of_jsnum (gi_roomEpoch i) = int_of_jsnum (gi_roomEpoch j)"
    "int_of_jsnum (gi_issuedAt i) = int_of_jsnum (gi_issuedAt j)" "gi_nonce i = gi_nonce j"
    using vi vj by (auto simp: signature_lines_def js_string_safe dest: show_int_inject_all)
  then show ?thesis
    using vi(1,2) vj(1,2) by (auto simp: is_safe_integer_iff intro: gateway_identity.equality)
qed

section \<open>Hexadecimal digests\<close>

lemma hex_digit_lower: "is_lower_hex a \<Longrightarrow> \<exists>x < 16. hex_digit a = Some x"
  by (auto simp: is_lower_hex_def is_digit_def hex_digit_def Let_def)

lemma hex_digit_code: "is_lower_hex a \<Longrightarrow> hex_digit a = Some x \<Longrightarrow> of_char a = (if x < 10 then x + 48 else x + 87)"
  unfolding is_lower_hex_def is_digit_def hex_digit_def Let_def by (simp split: if_splits) arith+

lemma hex_digit_inject:
  assumes "is_lower_hex a" and "is_lower_hex b" and "hex_digit a = Some x" and "hex_digit b = Some x"
  shows "a = b"
proof -
  have "(of_char a :: nat) = of_char b"
    using hex_digit_code [OF assms(1,3)] hex_digit_code [OF assms(2,4)] by simp
  then show ?thesis by (simp only: of_char_eq_iff)
qed

lemma from_hex_inject:
  assumes "list_all is_lower_hex s" and "list_all is_lower_hex t" and "length s = length t" and "even (length s)"
    and "from_hex s = from_hex t"
  shows "s = t"
  using assms
proof (induction "length s" arbitrary: s t rule: less_induct)
  case less
  show ?case
  proof (cases s)
    case Nil
    then show ?thesis using less.prems by simp
  next
    case (Cons a s1)
    with less.prems(4) obtain b s2 where s: "s = a # b # s2" by (cases s1) auto
    with less.prems(3) obtain a' b' t2 where t: "t = a' # b' # t2" by (auto simp: length_Suc_conv Suc_length_conv)
    have low: "is_lower_hex a" "is_lower_hex b" "is_lower_hex a'" "is_lower_hex b'" using less.prems(1,2) s t by auto
    obtain x y x' y' where d: "hex_digit a = Some x" "hex_digit b = Some y" "hex_digit a' = Some x'" "hex_digit b' = Some y'"
      "x < 16" "y < 16" "x' < 16" "y' < 16"
      using hex_digit_lower [OF low(1)] hex_digit_lower [OF low(2)] hex_digit_lower [OF low(3)] hex_digit_lower [OF low(4)] by blast
    have pair: "16 * x + y = 16 * x' + y'" and rest: "from_hex s2 = from_hex t2"
      using less.prems(5) by (simp_all add: s t d(1-4))
    have "x = x'" using arg_cong [OF pair, of "\<lambda>n. n div 16"] d(5-8) by simp
    with pair have "y = y'" by simp
    with \<open>x = x'\<close> have "a = a'" "b = b'"
      using hex_digit_inject [OF low(1,3) d(1)] hex_digit_inject [OF low(2,4) d(2)] d(3,4) by simp_all
    moreover have "s2 = t2" by (rule less.hyps [OF _ _ _ _ _ rest]) (use less.prems(1-4) s t in simp_all)
    ultimately show ?thesis by (simp add: s t)
  qed
qed

section \<open>What a verified signature says\<close>

lemma hex_equal:
  assumes "is_sha256_hex s" and "is_sha256_hex t"
  shows "from_hex s = from_hex t \<longleftrightarrow> s = t"
  using assms from_hex_inject [of s t] by (auto simp: is_sha256_hex_def)

lemma verified:
  assumes "\<And>k m. is_sha256_hex (cr_hmac c k m)"
  shows "verifyGatewayConnection c secret i signature now \<longleftrightarrow>
    isGatewayConnectionIdentityValid i now \<and> 32 \<le> utf8_length secret
    \<and> signature = cr_hmac c secret (gatewaySignaturePayload c i)"
  using assms hex_equal [of signature "cr_hmac c secret (gatewaySignaturePayload c i)"]
  by (auto simp: verifyGatewayConnection_def signGatewayConnection_def assertGatewaySharedSecret_def)

text \<open>Two texts that the digest does not tell apart.\<close>

definition collide :: "crypto \<Rightarrow> string \<Rightarrow> string \<Rightarrow> string \<Rightarrow> bool" where
  "collide c secret a b = (a \<noteq> b \<and> cr_hmac c secret a = cr_hmac c secret b)"

text \<open>
  C23: A connection is admitted exactly when its identity is in order and fresh, the shared secret is
  long enough and the signature is the digest of the identity's text.  A signature that is
  accepted for two identities whose game and session ids are single lines is accepted for one
  identity only, unless the digest collides on their texts.
\<close>

theorem signature_binds_identity:
  assumes "\<And>k m. is_sha256_hex (cr_hmac c k m)" and "plain_identity i" and "plain_identity j"
  shows "(verifyGatewayConnection c secret i signature now \<longleftrightarrow>
      isGatewayConnectionIdentityValid i now \<and> 32 \<le> utf8_length secret
      \<and> signGatewayConnection c secret i = Inr signature)
    \<and> (verifyGatewayConnection c secret i signature now \<and> verifyGatewayConnection c secret j signature now'
      \<longrightarrow> i = j \<or> collide c secret (gatewaySignaturePayload c i) (gatewaySignaturePayload c j))"
proof (intro conjI impI)
  show "verifyGatewayConnection c secret i signature now \<longleftrightarrow>
      isGatewayConnectionIdentityValid i now \<and> 32 \<le> utf8_length secret
      \<and> signGatewayConnection c secret i = Inr signature"
    by (auto simp: verified [OF assms(1)] signGatewayConnection_def assertGatewaySharedSecret_def)
next
  assume "verifyGatewayConnection c secret i signature now \<and> verifyGatewayConnection c secret j signature now'"
  then show "i = j \<or> collide c secret (gatewaySignaturePayload c i) (gatewaySignaturePayload c j)"
    using payload_inject [OF _ _ assms(2,3)] by (auto simp: verified [OF assms(1)] collide_def)
qed

definition sample_crypto :: crypto where
  "sample_crypto = \<lparr>cr_hmac = (\<lambda>k m. replicate 63 CHR ''a'' @ [char_of (48 + length m mod 10)]), cr_fraction = (\<lambda>_. [])\<rparr>"

definition sample_identity :: "string \<Rightarrow> gateway_identity" where
  "sample_identity game = \<lparr>gi_roomId = ''room-3'', gi_gameId = game, gi_sessionId = ''0123456789abcdef'',
     gi_roomEpoch = js_int 4, gi_issuedAt = js_int 1000, gi_nonce = replicate 32 CHR ''f''\<rparr>"

lemma sample_hmac: "is_sha256_hex (cr_hmac sample_crypto k m)"
proof -
  have "is_lower_hex (char_of (48 + length m mod 10))"
    using digit_char(1) [of "length m mod 10"] by (simp add: is_lower_hex_def)
  then show ?thesis by (simp add: sample_crypto_def is_sha256_hex_def is_lower_hex_def list_all_iff is_digit_def)
qed

lemma signature_binds_identity_witness:
  "verifyGatewayConnection sample_crypto (replicate 32 CHR ''s'') (sample_identity ''game-1'')
      (replicate 63 CHR ''a'' @ ''3'') 2500
   \<and> \<not> verifyGatewayConnection sample_crypto (replicate 32 CHR ''s'') (sample_identity ''game-1'')
      (replicate 63 CHR ''a'' @ ''3'') 40000"
proof -
  let ?i = "sample_identity ''game-1''" and ?s = "replicate 63 CHR ''a'' @ ''3''" and ?k = "replicate 32 CHR ''s''"
  have plain: "plain_identity ?i" by (simp add: plain_identity_def sample_identity_def NEWLINE_def)
  have "isGatewayConnectionIdentityValid ?i 2500" "\<not> isGatewayConnectionIdentityValid ?i 40000" by code_simp+
  moreover have "32 \<le> utf8_length ?k" "signGatewayConnection sample_crypto ?k ?i = Inr ?s" by code_simp+
  ultimately show ?thesis
    using signature_binds_identity [OF sample_hmac plain plain, of ?k ?s 2500]
      signature_binds_identity [OF sample_hmac plain plain, of ?k ?s 40000] by simp
qed

text \<open>
  Without the restriction to single lines the text is ambiguous: a line break can move from the
  session id to the game id.
\<close>

lemma payload_ambiguous:
  defines "i \<equiv> (sample_identity (''g'' @ NEWLINE # ''x''))\<lparr>gi_sessionId := ''0123456789abcdef''\<rparr>"
    and "j \<equiv> (sample_identity ''g'')\<lparr>gi_sessionId := ''x'' @ NEWLINE # ''0123456789abcdef''\<rparr>"
  shows "isGatewayConnectionIdentityValid i 1000" and "isGatewayConnectionIdentityValid j 1000" and "i \<noteq> j"
    and "gatewaySignaturePayload c i = gatewaySignaturePayload c j"
proof -
  show "isGatewayConnectionIdentityValid i 1000" "isGatewayConnectionIdentityValid j 1000"
    unfolding i_def j_def NEWLINE_def by code_simp+
  show "i \<noteq> j" by (simp add: i_def j_def sample_identity_def)
  show "gatewaySignaturePayload c i = gatewaySignaturePayload c j"
    by (simp add: i_def j_def sample_identity_def gatewaySignaturePayload_def signature_lines_def)
qed

end
