(* ===== verification/GatewayWire.thy ===== *)
theory GatewayWire
  imports BitView
begin

text \<open>
  \<open>server/src/opsia/gatewayWire.ts\<close>: the 24-byte header with which the session gateway and a
  room exchange inputs, acknowledgements and outputs.  Numbers are written big-endian, as
  \<open>DataView\<close> does; a number that does not fit its field is an error of the encoder, and a
  buffer that is no frame, or a frame of another version or kind, is told apart by the decoder.
\<close>

section \<open>Big-endian fields\<close>

definition be_value :: "view \<Rightarrow> nat" where
  "be_value bs = foldl (\<lambda>a b. a * 256 + unat b) 0 bs"

fun be_bytes :: "nat \<Rightarrow> nat \<Rightarrow> view" where
  "be_bytes 0 x = []"
| "be_bytes (Suc n) x = be_bytes n (x div 256) @ [of_nat (x mod 256)]"

text \<open>\<open>view.setUint8/16/32\<close> and \<open>setBigUint64\<close> of \<open>n\<close> bytes, and the getters.\<close>

definition dv_set :: "nat \<Rightarrow> nat \<Rightarrow> nat \<Rightarrow> view \<Rightarrow> view" where
  "dv_set n offset x v = take offset v @ be_bytes n x @ drop (offset + n) v"

definition dv_get :: "nat \<Rightarrow> nat \<Rightarrow> view \<Rightarrow> nat" where
  "dv_get n offset v = be_value (take n (drop offset v))"

section \<open>The frames\<close>

definition MAGIC :: nat where "MAGIC = 0x4f505349"
definition VERSION :: nat where "VERSION = 1"
definition HEADER_BYTES :: nat where "HEADER_BYTES = 24"

datatype gateway_frame =
    InputFrame (gf_roomEpoch: jsnum) (gf_sequence: jsnum) (gf_tick: jsnum) (gf_payload: view)
  | AckFrame (gf_roomEpoch: jsnum) (gf_sequence: jsnum) (gf_tick: jsnum)
  | OutputFrame (gf_roomEpoch: jsnum) (gf_tick: jsnum) (gf_payload: view)

definition safeUint32 :: "jsnum \<Rightarrow> string \<Rightarrow> string + nat" where
  "safeUint32 x name =
     (if \<not> is_safe_integer x \<or> js_lt x (js_int 0) \<or> js_lt (js_int 0xffffffff) x then Inl (name @ ''_invalid'')
      else Inr (nat (int_of_jsnum x)))"

definition safeSequence :: "jsnum \<Rightarrow> string \<Rightarrow> string + nat" where
  "safeSequence x name =
     (if \<not> is_safe_integer x \<or> js_lt x (js_int 0) then Inl (name @ ''_invalid'')
      else Inr (nat (int_of_jsnum x)))"

definition frame_header :: "nat \<Rightarrow> jsnum \<Rightarrow> jsnum \<Rightarrow> jsnum \<Rightarrow> nat \<Rightarrow> string + view" where
  "frame_header kind roomEpoch sequence tick payloadBytes =
     (let v = dv_set 2 6 0 (dv_set 1 5 kind (dv_set 1 4 VERSION (dv_set 4 0 MAGIC
                (replicate (HEADER_BYTES + payloadBytes) 0)))) in
      case safeUint32 roomEpoch ''gateway_room_epoch'' of Inl e \<Rightarrow> Inl e
      | Inr ep \<Rightarrow>
          (case safeSequence sequence ''gateway_input_sequence'' of Inl e \<Rightarrow> Inl e
           | Inr sq \<Rightarrow>
               (case safeUint32 tick ''gateway_tick'' of Inl e \<Rightarrow> Inl e
                | Inr tk \<Rightarrow> Inr (dv_set 4 20 tk (dv_set 8 12 sq (dv_set 4 8 ep v))))))"

text \<open>\<open>encoded.set(payload, HEADER_BYTES)\<close>\<close>

definition with_payload :: "view \<Rightarrow> view \<Rightarrow> view" where
  "with_payload encoded payload = take HEADER_BYTES encoded @ payload @ drop (HEADER_BYTES + length payload) encoded"

definition encodeGatewayInput :: "jsnum \<Rightarrow> jsnum \<Rightarrow> jsnum \<Rightarrow> view \<Rightarrow> string + view" where
  "encodeGatewayInput roomEpoch sequence tick payload =
     map_sum id (\<lambda>h. with_payload h payload) (frame_header 1 roomEpoch sequence tick (length payload))"

definition encodeGatewayAck :: "jsnum \<Rightarrow> jsnum \<Rightarrow> jsnum \<Rightarrow> string + view" where
  "encodeGatewayAck roomEpoch sequence tick = frame_header 2 roomEpoch sequence tick 0"

definition encodeGatewayOutput :: "jsnum \<Rightarrow> jsnum \<Rightarrow> view \<Rightarrow> string + view" where
  "encodeGatewayOutput roomEpoch tick payload =
     map_sum id (\<lambda>h. with_payload h payload) (frame_header 3 roomEpoch (js_int 0) tick (length payload))"

fun encodeFrame :: "gateway_frame \<Rightarrow> string + view" where
  "encodeFrame (InputFrame e s t p) = encodeGatewayInput e s t p"
| "encodeFrame (AckFrame e s t) = encodeGatewayAck e s t"
| "encodeFrame (OutputFrame e t p) = encodeGatewayOutput e t p"

text \<open>
  \<open>Number(view.getBigUint64(12))\<close> may round, but only to a number that is not safe either, so
  that the check after it is the one on the exact value.
\<close>

definition decodeGatewayFrame :: "view \<Rightarrow> string + gateway_frame option" where
  "decodeGatewayFrame v =
     (if length v < HEADER_BYTES then Inr None
      else if dv_get 4 0 v \<noteq> MAGIC then Inr None
      else if dv_get 1 4 v \<noteq> VERSION \<or> dv_get 2 6 v \<noteq> 0 then Inl ''gateway_wire_version_invalid''
      else
        let kind = dv_get 1 5 v; roomEpoch = js_int (int (dv_get 4 8 v));
            sequence = js_int (int (dv_get 8 12 v)); tick = js_int (int (dv_get 4 20 v)) in
        if \<not> is_safe_integer sequence then Inl ''gateway_input_sequence_invalid''
        else if kind = 1 then Inr (Some (InputFrame roomEpoch sequence tick (drop HEADER_BYTES v)))
        else if kind = 2 \<and> length v = HEADER_BYTES then Inr (Some (AckFrame roomEpoch sequence tick))
        else if kind = 3 then Inr (Some (OutputFrame roomEpoch tick (drop HEADER_BYTES v)))
        else Inl ''gateway_wire_kind_invalid'')"

definition isGatewayWireFrame :: "view \<Rightarrow> bool" where
  "isGatewayWireFrame v = (4 \<le> length v \<and> dv_get 4 0 v = MAGIC)"

section \<open>Fields\<close>

lemma be_value_Nil [simp]: "be_value [] = 0"
  by (simp add: be_value_def)

lemma be_value_snoc [simp]: "be_value (bs @ [b]) = be_value bs * 256 + unat b"
  by (simp add: be_value_def)

lemma length_be_bytes [simp]: "length (be_bytes n x) = n"
  by (induction n arbitrary: x) simp_all

lemma be_value_bytes [simp]: "be_value (be_bytes n x) = x mod 256 ^ n"
proof (induction n arbitrary: x)
  case (Suc n)
  have "unat (of_nat (x mod 256) :: 8 word) = x mod 256" by (simp add: unat_of_nat)
  then show ?case by (simp add: Suc mult.commute mod_mult2_eq)
qed simp

lemma unat_byte: "unat (b :: 8 word) < 256"
  using unsigned_less [of b] by simp

lemma be_value_less: "be_value bs < 256 ^ length bs"
proof (induction bs rule: rev_induct)
  case (snoc b bs)
  have "unat b < 256" by (rule unat_byte)
  with snoc show ?case by simp
qed simp

lemma be_bytes_value [simp]: "be_bytes (length bs) (be_value bs) = bs"
proof (induction bs rule: rev_induct)
  case (snoc b bs)
  have "unat b < 256" by (rule unat_byte)
  then show ?case using snoc by simp
qed simp

lemma be_bytes_get: "offset + n \<le> length v \<Longrightarrow> be_bytes n (dv_get n offset v) = take n (drop offset v)"
  using be_bytes_value [of "take n (drop offset v)"] by (simp add: dv_get_def del: be_bytes_value)

lemma dv_get_less: "dv_get n offset v < 256 ^ n"
proof -
  have "dv_get n offset v < 256 ^ length (take n (drop offset v))" unfolding dv_get_def by (rule be_value_less)
  also have "\<dots> \<le> 256 ^ n" by (rule power_increasing) simp_all
  finally show ?thesis .
qed

section \<open>A frame is its header and its payload\<close>

definition header_bytes :: "nat \<Rightarrow> nat \<Rightarrow> nat \<Rightarrow> nat \<Rightarrow> view" where
  "header_bytes kind ep sq tk =
     be_bytes 4 MAGIC @ be_bytes 1 VERSION @ be_bytes 1 kind @ be_bytes 2 0
     @ be_bytes 4 ep @ be_bytes 8 sq @ be_bytes 4 tk"

lemma length_header [simp]: "length (header_bytes kind ep sq tk) = 24"
  by (simp add: header_bytes_def)

definition field_ok :: "jsnum \<Rightarrow> bool" where
  "field_ok x = (\<exists>i. x = js_int i \<and> 0 \<le> i \<and> i \<le> 0xffffffff)"

definition sequence_ok :: "jsnum \<Rightarrow> bool" where
  "sequence_ok x = (\<exists>i. x = js_int i \<and> 0 \<le> i \<and> safe_int i)"

lemma safeUint32_cases: "safeUint32 x name = (if field_ok x then Inr (nat (int_of_jsnum x)) else Inl (name @ ''_invalid''))"
  by (auto simp: safeUint32_def field_ok_def is_safe_integer_iff safe_int_def MAX_SAFE_def not_less)

lemma safeSequence_cases: "safeSequence x name = (if sequence_ok x then Inr (nat (int_of_jsnum x)) else Inl (name @ ''_invalid''))"
  by (auto simp: safeSequence_def sequence_ok_def is_safe_integer_iff not_less)

lemma set_after: "length pre = offset \<Longrightarrow> dv_set n offset x (pre @ rest) = pre @ be_bytes n x @ drop n rest"
  by (simp add: dv_set_def)

lemma header_written:
  "dv_set 4 20 tk (dv_set 8 12 sq (dv_set 4 8 ep (dv_set 2 6 0 (dv_set 1 5 kind (dv_set 1 4 VERSION
     (dv_set 4 0 MAGIC (replicate (24 + n) 0))))))) = header_bytes kind ep sq tk @ replicate n 0"
proof -
  define a where "a = be_bytes 4 MAGIC"
  define b where "b = a @ be_bytes 1 VERSION"
  define c where "c = b @ be_bytes 1 kind"
  define d where "d = c @ be_bytes 2 0"
  define e where "e = d @ be_bytes 4 ep"
  define f where "f = e @ be_bytes 8 sq"
  have "dv_set 4 0 MAGIC (replicate (24 + n) 0) = a @ replicate (20 + n) 0" by (simp add: dv_set_def a_def)
  moreover have "dv_set 1 4 VERSION (a @ replicate (20 + n) 0) = b @ replicate (19 + n) 0"
    by (subst set_after) (simp_all add: a_def b_def del: be_bytes.simps)
  moreover have "dv_set 1 5 kind (b @ replicate (19 + n) 0) = c @ replicate (18 + n) 0"
    by (subst set_after) (simp_all add: a_def b_def c_def del: be_bytes.simps)
  moreover have "dv_set 2 6 0 (c @ replicate (18 + n) 0) = d @ replicate (16 + n) 0"
    by (subst set_after) (simp_all add: a_def b_def c_def d_def del: be_bytes.simps)
  moreover have "dv_set 4 8 ep (d @ replicate (16 + n) 0) = e @ replicate (12 + n) 0"
    by (subst set_after) (simp_all add: a_def b_def c_def d_def e_def del: be_bytes.simps)
  moreover have "dv_set 8 12 sq (e @ replicate (12 + n) 0) = f @ replicate (4 + n) 0"
    by (subst set_after) (simp_all add: a_def b_def c_def d_def e_def f_def del: be_bytes.simps)
  moreover have "dv_set 4 20 tk (f @ replicate (4 + n) 0) = f @ be_bytes 4 tk @ replicate n 0"
    by (subst set_after) (simp_all add: a_def b_def c_def d_def e_def f_def del: be_bytes.simps)
  ultimately show ?thesis
    by (simp add: header_bytes_def a_def b_def c_def d_def e_def f_def del: be_bytes.simps)
qed

lemma frame_header_run:
  assumes "field_ok ep" and "sequence_ok sq" and "field_ok tk"
  shows "frame_header kind ep sq tk n =
    Inr (header_bytes kind (nat (int_of_jsnum ep)) (nat (int_of_jsnum sq)) (nat (int_of_jsnum tk)) @ replicate n 0)"
  using assms by (simp add: frame_header_def safeUint32_cases safeSequence_cases header_written [unfolded One_nat_def] HEADER_BYTES_def Let_def)

lemma frame_header_Inr:
  "frame_header kind ep sq tk n = Inr h \<Longrightarrow> field_ok ep \<and> sequence_ok sq \<and> field_ok tk"
  by (simp add: frame_header_def safeUint32_cases safeSequence_cases Let_def split: if_splits)

section \<open>Reading a frame\<close>

lemma dv_get_at: "length pre = offset \<Longrightarrow> dv_get n offset (pre @ be_bytes n x @ rest) = x mod 256 ^ n"
  by (simp add: dv_get_def)

lemma header_fields:
  assumes "kind < 256" and "ep < 2 ^ 32" and "sq < 2 ^ 64" and "tk < 2 ^ 32"
  shows "dv_get 4 0 (header_bytes kind ep sq tk @ p) = MAGIC"
    and "dv_get 1 4 (header_bytes kind ep sq tk @ p) = VERSION"
    and "dv_get 1 5 (header_bytes kind ep sq tk @ p) = kind"
    and "dv_get 2 6 (header_bytes kind ep sq tk @ p) = 0"
    and "dv_get 4 8 (header_bytes kind ep sq tk @ p) = ep"
    and "dv_get 8 12 (header_bytes kind ep sq tk @ p) = sq"
    and "dv_get 4 20 (header_bytes kind ep sq tk @ p) = tk"
proof -
  define a b c d e f where parts: "a = be_bytes 4 MAGIC" "b = be_bytes 1 VERSION" "c = be_bytes 1 kind"
    "d = be_bytes 2 0" "e = be_bytes 4 ep" "f = be_bytes 8 sq"
  have h: "header_bytes kind ep sq tk = a @ b @ c @ d @ e @ f @ be_bytes 4 tk"
    by (simp only: header_bytes_def parts)
  have l: "length a = 4" "length b = 1" "length c = 1" "length d = 2" "length e = 4" "length f = 8"
    by (simp_all only: parts length_be_bytes)
  show "dv_get 4 0 (header_bytes kind ep sq tk @ p) = MAGIC"
    using dv_get_at [of "[]" 0 4 MAGIC] by (simp add: h parts(1) MAGIC_def del: be_bytes.simps)
  show "dv_get 1 4 (header_bytes kind ep sq tk @ p) = VERSION"
    using dv_get_at [of a 4 1 VERSION] l by (simp add: h parts(2) VERSION_def del: be_bytes.simps)
  show "dv_get 1 5 (header_bytes kind ep sq tk @ p) = kind"
    using dv_get_at [of "a @ b" 5 1 kind] l assms by (simp add: h parts(3) del: be_bytes.simps)
  show "dv_get 2 6 (header_bytes kind ep sq tk @ p) = 0"
    using dv_get_at [of "a @ b @ c" 6 2 0] l by (simp add: h parts(4) del: be_bytes.simps)
  show "dv_get 4 8 (header_bytes kind ep sq tk @ p) = ep"
    using dv_get_at [of "a @ b @ c @ d" 8 4 ep] l assms by (simp add: h parts(5) del: be_bytes.simps)
  show "dv_get 8 12 (header_bytes kind ep sq tk @ p) = sq"
    using dv_get_at [of "a @ b @ c @ d @ e" 12 8 sq] l assms by (simp add: h parts(6) del: be_bytes.simps)
  show "dv_get 4 20 (header_bytes kind ep sq tk @ p) = tk"
    using dv_get_at [of "a @ b @ c @ d @ e @ f" 20 4 tk] l assms by (simp add: h del: be_bytes.simps)
qed

lemmas header_reads = header_fields [unfolded One_nat_def] header_fields [where p = "[]", unfolded One_nat_def append_Nil2]

lemma split_fields:
  assumes "24 \<le> length v"
  shows "header_bytes (dv_get 1 5 v) (dv_get 4 8 v) (dv_get 8 12 v) (dv_get 4 20 v) @ drop 24 v =
     be_bytes 4 MAGIC @ be_bytes 1 VERSION @ drop 5 (take 6 v) @ be_bytes 2 0 @ drop 8 v"
proof -
  have chunk: "take n (drop k v) @ drop (k + n) v = drop k v" for k n
    by (metis append_take_drop_id drop_drop add.commute)
  have "take 4 (drop 8 v) @ take 8 (drop 12 v) @ take 4 (drop 20 v) @ drop 24 v = drop 8 v"
    using chunk [of 4 8] chunk [of 8 12] chunk [of 4 20] by simp
  moreover have "drop 5 (take 6 v) = take 1 (drop 5 v)" by (simp add: take_drop)
  ultimately show ?thesis
    using assms by (simp add: header_bytes_def be_bytes_get del: be_bytes.simps)
qed

lemma canonical_header:
  assumes "24 \<le> length v" and "dv_get 4 0 v = MAGIC" and "dv_get 1 4 v = VERSION" and "dv_get 2 6 v = 0"
  shows "header_bytes (dv_get 1 5 v) (dv_get 4 8 v) (dv_get 8 12 v) (dv_get 4 20 v) @ drop 24 v = v"
proof -
  have "be_bytes 4 (dv_get 4 0 v) = take 4 v" "be_bytes 1 (dv_get 1 4 v) = take 1 (drop 4 v)"
       "be_bytes 2 (dv_get 2 6 v) = take 2 (drop 6 v)"
    using assms(1) by (subst be_bytes_get; simp)+
  then have b: "be_bytes 4 MAGIC = take 4 v" "be_bytes 1 VERSION = take 1 (drop 4 v)" "be_bytes 2 0 = take 2 (drop 6 v)"
    using assms by simp_all
  have chunk: "take n (drop k v) @ drop (k + n) v = drop k v" for k n
    by (metis append_take_drop_id drop_drop add.commute)
  have "drop 5 (take 6 v) = take 1 (drop 5 v)" by (simp add: take_drop)
  then show ?thesis
    unfolding split_fields [OF assms(1)] b
    using chunk [of 4 0] chunk [of 1 4] chunk [of 1 5] chunk [of 2 6] by simp
qed

lemma field_okE:
  assumes "field_ok x"
  obtains n where "x = js_int (int n)" "n < 2 ^ 32"
proof -
  obtain i where "x = js_int i" "0 \<le> i" "i \<le> 0xffffffff" using assms by (auto simp: field_ok_def)
  then show ?thesis by (intro that [of "nat i"]) simp_all
qed

lemma sequence_okE:
  assumes "sequence_ok x"
  obtains n where "x = js_int (int n)" "n < 2 ^ 64" "safe_int (int n)"
proof -
  obtain i where "x = js_int i" "0 \<le> i" "safe_int i" using assms by (auto simp: sequence_ok_def)
  then show ?thesis by (intro that [of "nat i"]) (simp_all add: safe_int_def MAX_SAFE_def)
qed

lemma field_ok_int: "n < 2 ^ 32 \<Longrightarrow> field_ok (js_int (int n))"
  unfolding field_ok_def by (intro exI [of _ "int n"]) simp

lemma sequence_ok_int: "sequence_ok (js_int (int n)) \<longleftrightarrow> safe_int (int n)"
  by (auto simp: sequence_ok_def)

lemma field_ok_get [simp]: "field_ok (js_int (int (dv_get 4 offset v)))"
  using dv_get_less [of 4 offset v] by (intro field_ok_int) simp

text \<open>What each encoder writes, when the numbers fit.\<close>

definition frame_bytes :: "gateway_frame \<Rightarrow> view" where
  "frame_bytes f = (let n = \<lambda>x. nat (int_of_jsnum x) in
     case f of
       InputFrame e s t p \<Rightarrow> header_bytes 1 (n e) (n s) (n t) @ p
     | AckFrame e s t \<Rightarrow> header_bytes 2 (n e) (n s) (n t)
     | OutputFrame e t p \<Rightarrow> header_bytes 3 (n e) 0 (n t) @ p)"

fun frame_ok :: "gateway_frame \<Rightarrow> bool" where
  "frame_ok (InputFrame e s t p) = (field_ok e \<and> sequence_ok s \<and> field_ok t)"
| "frame_ok (AckFrame e s t) = (field_ok e \<and> sequence_ok s \<and> field_ok t)"
| "frame_ok (OutputFrame e t p) = (field_ok e \<and> field_ok t)"

lemma sequence_ok_0 [simp]: "sequence_ok (js_int 0)"
  by (auto simp: sequence_ok_def safe_int_def MAX_SAFE_def)

lemma encodeFrame_Inr: "encodeFrame f = Inr v \<longleftrightarrow> frame_ok f \<and> v = frame_bytes f"
proof
  assume enc: "encodeFrame f = Inr v"
  have "frame_ok f"
    using enc by (cases f) (auto simp: encodeGatewayInput_def encodeGatewayAck_def encodeGatewayOutput_def
      map_sum_def dest!: frame_header_Inr split: sum.splits)
  with enc show "frame_ok f \<and> v = frame_bytes f"
    by (cases f) (auto simp: encodeGatewayInput_def encodeGatewayAck_def encodeGatewayOutput_def
      frame_header_run with_payload_def HEADER_BYTES_def frame_bytes_def)
next
  assume "frame_ok f \<and> v = frame_bytes f"
  then show "encodeFrame f = Inr v"
    by (cases f) (auto simp: encodeGatewayInput_def encodeGatewayAck_def encodeGatewayOutput_def
      frame_header_run with_payload_def HEADER_BYTES_def frame_bytes_def)
qed

lemma decode_bytes:
  assumes "frame_ok f"
  shows "decodeGatewayFrame (frame_bytes f) = Inr (Some f)"
proof (cases f)
  case (InputFrame e s t p)
  with assms show ?thesis
    by (auto elim!: field_okE sequence_okE
             simp: frame_bytes_def decodeGatewayFrame_def HEADER_BYTES_def header_reads Let_def)
next
  case (AckFrame e s t)
  with assms show ?thesis
    by (auto elim!: field_okE sequence_okE
             simp: frame_bytes_def decodeGatewayFrame_def HEADER_BYTES_def header_reads Let_def)
next
  case (OutputFrame e t p)
  with assms show ?thesis
    by (auto elim!: field_okE
             simp: frame_bytes_def decodeGatewayFrame_def HEADER_BYTES_def header_reads Let_def safe_int_def MAX_SAFE_def)
qed

text \<open>An output frame carries no sequence: the encoder writes zero there, the decoder does not look.\<close>

definition canonical :: "view \<Rightarrow> bool" where
  "canonical v = (dv_get 1 5 v = 3 \<longrightarrow> dv_get 8 12 v = 0)"

lemma decoded_frame:
  assumes "decodeGatewayFrame v = Inr (Some f)"
  shows "frame_ok f" and "canonical v \<Longrightarrow> frame_bytes f = v"
proof -
  have v: "24 \<le> length v" "dv_get 4 0 v = MAGIC" "dv_get 1 4 v = VERSION" "dv_get 2 6 v = 0"
    using assms by (auto simp: decodeGatewayFrame_def HEADER_BYTES_def not_less split: if_splits)
  note whole = canonical_header [OF v]
  show "frame_ok f"
    using assms by (auto simp: decodeGatewayFrame_def sequence_ok_int Let_def split: if_splits)
  assume "canonical v"
  with whole assms show "frame_bytes f = v"
    by (auto simp: decodeGatewayFrame_def frame_bytes_def HEADER_BYTES_def canonical_def Let_def split: if_splits)
qed

text \<open>
  The gateway's wire format is exact.  The bytes the encoder makes of a frame are the bytes from
  which the decoder reads that very frame; every other buffer of a frame fails to be canonical
  only in the sequence field that an output does not use.
\<close>

theorem gateway_wire_roundtrip:
  "encodeFrame f = Inr v \<longleftrightarrow> decodeGatewayFrame v = Inr (Some f) \<and> canonical v"
proof
  assume "encodeFrame f = Inr v"
  then have ok: "frame_ok f" "v = frame_bytes f" by (simp_all add: encodeFrame_Inr)
  have "canonical v"
    using ok by (cases f) (auto elim!: field_okE sequence_okE simp: canonical_def frame_bytes_def header_reads)
  with ok show "decodeGatewayFrame v = Inr (Some f) \<and> canonical v" by (simp add: decode_bytes)
next
  assume "decodeGatewayFrame v = Inr (Some f) \<and> canonical v"
  then show "encodeFrame f = Inr v" using decoded_frame [of v f] by (simp add: encodeFrame_Inr)
qed

end
