(* ===== verification/GatewayBuffer.thy ===== *)
theory GatewayBuffer
  imports BitView
begin

text \<open>
  \<open>BoundedGatewayInputBuffer\<close> of \<open>server/src/opsia/sessionGatewayProtocol.ts\<close>: the inputs of a
  browser that no room has acknowledged yet, numbered, bounded in number and in bytes.  The buffer
  is shown to be an implementation of a log: a list of everything that was accepted, and how much
  of it is acknowledged.
\<close>

section \<open>The buffer\<close>

record buffered =
  bi_sequence :: int
  bi_payload :: view
  bi_bytes :: int

record input_buffer =
  ib_entries :: "buffered list"
  ib_nextSequence :: int
  ib_acknowledged :: int
  ib_bytes :: int
  ib_maxMessages :: int
  ib_maxBytes :: int

definition new_buffer :: "jsnum \<Rightarrow> jsnum \<Rightarrow> string + input_buffer" where
  "new_buffer maxMessages maxBytes =
     (if \<not> is_integer maxMessages \<or> js_lt maxMessages (js_int 1) then Inl ''invalid_gateway_message_limit''
      else if \<not> is_integer maxBytes \<or> js_lt maxBytes (js_int 1024) then Inl ''invalid_gateway_byte_limit''
      else Inr \<lparr>ib_entries = [], ib_nextSequence = 1, ib_acknowledged = 0, ib_bytes = 0,
                ib_maxMessages = int_of_jsnum maxMessages, ib_maxBytes = int_of_jsnum maxBytes\<rparr>)"

definition overflow :: "string \<Rightarrow> string" where
  "overflow reason = ''gateway_input_buffer_overflow:'' @ reason"

definition buffer_push :: "view \<Rightarrow> input_buffer \<Rightarrow> string + buffered \<times> input_buffer" where
  "buffer_push payload b =
     (if MAX_SAFE \<le> ib_nextSequence b then Inl (overflow ''sequence_exhausted'')
      else if ib_maxMessages b < int (length (ib_entries b)) + 1 then Inl (overflow ''message_limit'')
      else if ib_maxBytes b < ib_bytes b + int (length payload) then Inl (overflow ''byte_limit'')
      else
        let entry = \<lparr>bi_sequence = ib_nextSequence b, bi_payload = payload, bi_bytes = int (length payload)\<rparr> in
        Inr (entry, b\<lparr>ib_nextSequence := ib_nextSequence b + 1, ib_entries := ib_entries b @ [entry],
                     ib_bytes := ib_bytes b + bi_bytes entry\<rparr>))"

text \<open>The loop that shifts entries out.\<close>

fun shift_acknowledged :: "int \<Rightarrow> buffered list \<Rightarrow> int \<Rightarrow> buffered list \<times> int" where
  "shift_acknowledged n [] bytes = ([], bytes)"
| "shift_acknowledged n (e # es) bytes =
     (if bi_sequence e \<le> n then shift_acknowledged n es (bytes - bi_bytes e) else (e # es, bytes))"

definition buffer_acknowledge :: "jsnum \<Rightarrow> input_buffer \<Rightarrow> input_buffer" where
  "buffer_acknowledge sequence b =
     (if \<not> is_safe_integer sequence \<or> js_le sequence (js_int (ib_acknowledged b)) then b
      else
        let acked = min (int_of_jsnum sequence) (ib_nextSequence b - 1);
            (entries, bytes) = shift_acknowledged acked (ib_entries b) (ib_bytes b) in
        b\<lparr>ib_acknowledged := acked, ib_entries := entries, ib_bytes := bytes\<rparr>)"

definition buffer_replayAfter :: "int \<Rightarrow> input_buffer \<Rightarrow> buffered list" where
  "buffer_replayAfter sequence b = filter (\<lambda>e. sequence < bi_sequence e) (ib_entries b)"

definition buffer_replay :: "input_buffer \<Rightarrow> buffered list" where
  "buffer_replay b = buffer_replayAfter (ib_acknowledged b) b"

definition buffer_latest :: "input_buffer \<Rightarrow> int" where
  "buffer_latest b = ib_nextSequence b - 1"

definition buffer_size :: "input_buffer \<Rightarrow> nat" where
  "buffer_size b = length (ib_entries b)"

section \<open>The log it implements\<close>

record input_log =
  il_accepted :: "view list"
  il_acknowledged :: nat

definition numbered :: "view list \<Rightarrow> nat \<Rightarrow> buffered" where
  "numbered ps k = \<lparr>bi_sequence = int k + 1, bi_payload = ps ! k, bi_bytes = int (length (ps ! k))\<rparr>"

definition log_pending :: "input_log \<Rightarrow> buffered list" where
  "log_pending l = map (numbered (il_accepted l)) [il_acknowledged l..<length (il_accepted l)]"

definition log_bytes :: "input_log \<Rightarrow> int" where
  "log_bytes l = int (sum_list (map length (drop (il_acknowledged l) (il_accepted l))))"

definition log_push :: "int \<Rightarrow> int \<Rightarrow> view \<Rightarrow> input_log \<Rightarrow> string + buffered \<times> input_log" where
  "log_push maxMessages maxBytes p l =
     (let n = length (il_accepted l) in
      if MAX_SAFE \<le> int n + 1 then Inl (overflow ''sequence_exhausted'')
      else if maxMessages < int (n - il_acknowledged l) + 1 then Inl (overflow ''message_limit'')
      else if maxBytes < log_bytes l + int (length p) then Inl (overflow ''byte_limit'')
      else let l' = l\<lparr>il_accepted := il_accepted l @ [p]\<rparr> in Inr (numbered (il_accepted l') n, l'))"

definition log_acknowledge :: "jsnum \<Rightarrow> input_log \<Rightarrow> input_log" where
  "log_acknowledge sequence l =
     (if is_safe_integer sequence
      then l\<lparr>il_acknowledged := max (il_acknowledged l)
               (min (nat (int_of_jsnum sequence)) (length (il_accepted l)))\<rparr>
      else l)"

section \<open>The refinement\<close>

definition implements :: "input_buffer \<Rightarrow> input_log \<Rightarrow> bool" where
  "implements b l =
     (il_acknowledged l \<le> length (il_accepted l)
      \<and> ib_entries b = log_pending l
      \<and> ib_nextSequence b = int (length (il_accepted l)) + 1
      \<and> ib_acknowledged b = int (il_acknowledged l)
      \<and> ib_bytes b = log_bytes l)"

lemma implementsD:
  assumes "implements b l"
  shows "ib_entries b = log_pending l" and "ib_nextSequence b = int (length (il_accepted l)) + 1"
    and "ib_acknowledged b = int (il_acknowledged l)" and "ib_bytes b = log_bytes l"
    and "il_acknowledged l \<le> length (il_accepted l)"
  using assms by (simp_all add: implements_def)

lemma length_log_pending [simp]: "length (log_pending l) = length (il_accepted l) - il_acknowledged l"
  by (simp add: log_pending_def)

lemma numbered_append: "k < length ps \<Longrightarrow> numbered (ps @ qs) k = numbered ps k"
  by (simp add: numbered_def nth_append)

lemma log_pending_push:
  assumes "il_acknowledged l \<le> length (il_accepted l)"
  shows "log_pending (l\<lparr>il_accepted := il_accepted l @ [p]\<rparr>)
    = log_pending l @ [numbered (il_accepted l @ [p]) (length (il_accepted l))]"
  using assms by (auto simp: log_pending_def numbered_append)

lemma log_bytes_push:
  "il_acknowledged l \<le> length (il_accepted l) \<Longrightarrow>
     log_bytes (l\<lparr>il_accepted := il_accepted l @ [p]\<rparr>) = log_bytes l + int (length p)"
  by (simp add: log_bytes_def)

lemma buffer_push_refines:
  assumes "implements b l"
  shows "rel_sum (=) (rel_prod (=) implements) (buffer_push p b) (log_push (ib_maxMessages b) (ib_maxBytes b) p l)"
  using implementsD [OF assms]
  by (auto simp: buffer_push_def log_push_def Let_def implements_def log_pending_push log_bytes_push numbered_def)

lemma shift_run:
  assumes "m \<le> k" and "k \<le> length ps"
  shows "shift_acknowledged (int k) (map (numbered ps) [m..<length ps]) (int (sum_list (map length (drop m ps))))
    = (map (numbered ps) [k..<length ps], int (sum_list (map length (drop k ps))))"
  using assms
proof (induction "k - m" arbitrary: m)
  case 0
  then have "m = k" by simp
  then show ?case
    by (cases "k < length ps") (simp_all add: upt_conv_Cons numbered_def)
next
  case (Suc n)
  then have "m < length ps" "n = k - Suc m" "Suc m \<le> k" by simp_all
  moreover have "sum_list (map length (drop m ps)) = length (ps ! m) + sum_list (map length (drop (Suc m) ps))"
    using \<open>m < length ps\<close> by (simp add: Cons_nth_drop_Suc [symmetric])
  ultimately show ?case
    using Suc.hyps(1) [of "Suc m"] Suc.prems(2) by (simp add: upt_conv_Cons numbered_def)
qed

lemma buffer_acknowledge_refines:
  assumes "implements b l"
  shows "implements (buffer_acknowledge sequence b) (log_acknowledge sequence l)"
proof (cases "is_safe_integer sequence \<and> \<not> js_le sequence (js_int (ib_acknowledged b))")
  case True
  note l = implementsD [OF assms]
  obtain i where i: "sequence = js_int i" "int (il_acknowledged l) < i"
    using True l(3) by (auto elim!: is_safe_integerE)
  define k where "k = min (nat i) (length (il_accepted l))"
  have k: "il_acknowledged l \<le> k" "k \<le> length (il_accepted l)" "int k = min i (int (length (il_accepted l)))"
    using i l(5) by (auto simp: k_def)
  have "shift_acknowledged (min i (ib_nextSequence b - 1)) (ib_entries b) (ib_bytes b)
      = (map (numbered (il_accepted l)) [k..<length (il_accepted l)],
         int (sum_list (map length (drop k (il_accepted l)))))"
    using shift_run [OF k(1,2)] k(3) l by (simp add: log_pending_def log_bytes_def)
  moreover have "max (il_acknowledged l) (min (nat i) (length (il_accepted l))) = k"
    using k(1) by (simp add: k_def)
  ultimately show ?thesis
    using True i l k
    by (simp add: buffer_acknowledge_def log_acknowledge_def implements_def log_pending_def log_bytes_def)
next
  case False
  note l = implementsD [OF assms]
  have "log_acknowledge sequence l = l"
  proof (cases "is_safe_integer sequence")
    case True
    with False l(3) obtain i where "sequence = js_int i" "i \<le> int (il_acknowledged l)"
      by (auto elim!: is_safe_integerE)
    then show ?thesis by (simp add: log_acknowledge_def max_def min_def)
  qed (simp add: log_acknowledge_def)
  moreover have "buffer_acknowledge sequence b = b" using False by (auto simp: buffer_acknowledge_def)
  ultimately show ?thesis using assms by simp
qed

lemma new_buffer_refines:
  "new_buffer maxMessages maxBytes = Inr b \<Longrightarrow> implements b \<lparr>il_accepted = [], il_acknowledged = 0\<rparr>"
  by (auto simp: new_buffer_def implements_def log_pending_def log_bytes_def split: if_splits)

lemma replay_refines:
  assumes "implements b l"
  shows "buffer_replayAfter n b = filter (\<lambda>e. n < bi_sequence e) (log_pending l)" and "buffer_replay b = log_pending l"
  using implementsD [OF assms]
  by (auto simp: buffer_replay_def buffer_replayAfter_def log_pending_def numbered_def filter_id_conv)

section \<open>Runs\<close>

datatype buffer_op = PushInput view | Acknowledge jsnum | ReplayAfter int | Replay | Latest | Size

datatype observation = Rejected string | Accepted buffered | Quiet | Entries "buffered list" | Counted int

fun buffer_do :: "buffer_op \<Rightarrow> input_buffer \<Rightarrow> observation \<times> input_buffer" where
  "buffer_do (PushInput p) b = (case buffer_push p b of Inl e \<Rightarrow> (Rejected e, b) | Inr (entry, b') \<Rightarrow> (Accepted entry, b'))"
| "buffer_do (Acknowledge n) b = (Quiet, buffer_acknowledge n b)"
| "buffer_do (ReplayAfter n) b = (Entries (buffer_replayAfter n b), b)"
| "buffer_do Replay b = (Entries (buffer_replay b), b)"
| "buffer_do Latest b = (Counted (buffer_latest b), b)"
| "buffer_do Size b = (Counted (int (buffer_size b)), b)"

fun log_do :: "int \<Rightarrow> int \<Rightarrow> buffer_op \<Rightarrow> input_log \<Rightarrow> observation \<times> input_log" where
  "log_do maxMessages maxBytes (PushInput p) l =
     (case log_push maxMessages maxBytes p l of Inl e \<Rightarrow> (Rejected e, l) | Inr (entry, l') \<Rightarrow> (Accepted entry, l'))"
| "log_do maxMessages maxBytes (Acknowledge n) l = (Quiet, log_acknowledge n l)"
| "log_do maxMessages maxBytes (ReplayAfter n) l = (Entries (filter (\<lambda>e. n < bi_sequence e) (log_pending l)), l)"
| "log_do maxMessages maxBytes Replay l = (Entries (log_pending l), l)"
| "log_do maxMessages maxBytes Latest l = (Counted (int (length (il_accepted l))), l)"
| "log_do maxMessages maxBytes Size l = (Counted (int (length (log_pending l))), l)"

fun run_ops :: "('op \<Rightarrow> 's \<Rightarrow> 'o \<times> 's) \<Rightarrow> 'op list \<Rightarrow> 's \<Rightarrow> 'o list" where
  "run_ops step [] s = []"
| "run_ops step (x # xs) s = (let (y, s') = step x s in y # run_ops step xs s')"

lemma buffer_do_refines:
  assumes "implements b l"
  shows "rel_prod (=) implements (buffer_do x b) (log_do (ib_maxMessages b) (ib_maxBytes b) x l)"
proof (cases x)
  case (PushInput p)
  with buffer_push_refines [OF assms, of p] assms show ?thesis
    by (auto elim!: rel_sum.cases rel_prod.cases split: sum.splits)
qed (use assms implementsD [OF assms] in \<open>simp_all add: buffer_acknowledge_refines replay_refines [OF assms]
       buffer_latest_def buffer_size_def\<close>)

lemma buffer_do_limits [simp]:
  "ib_maxMessages (snd (buffer_do x b)) = ib_maxMessages b"
  "ib_maxBytes (snd (buffer_do x b)) = ib_maxBytes b"
  by (cases x; auto simp: buffer_push_def buffer_acknowledge_def Let_def split: sum.splits prod.splits)+

lemma run_refines:
  "implements b l \<Longrightarrow> ib_maxMessages b = m \<Longrightarrow> ib_maxBytes b = n \<Longrightarrow>
     run_ops buffer_do xs b = run_ops (log_do m n) xs l"
proof (induction xs arbitrary: b l)
  case (Cons x xs)
  obtain y b' where b: "buffer_do x b = (y, b')" by (cases "buffer_do x b")
  obtain l' where l: "log_do m n x l = (y, l')" "implements b' l'"
    using buffer_do_refines [OF Cons.prems(1), of x] Cons.prems(2,3) b by (auto elim!: rel_prod.cases)
  have "ib_maxMessages b' = m" "ib_maxBytes b' = n"
    using buffer_do_limits [of x b] b Cons.prems(2,3) by simp_all
  then show ?case using b l by (simp add: Cons.IH)
qed simp

text \<open>
  C21: The buffer is an implementation of the log.  Whatever is pushed, acknowledged and asked, in any
  order, the answers are those of a list that keeps everything it accepted, numbered from 1, of
  which a prefix is acknowledged: inputs are neither lost, repeated, renumbered nor reordered, an
  acknowledgement never goes back or past the last input, and a push is refused exactly when the
  unacknowledged part would exceed a limit.
\<close>

theorem buffer_implements_log:
  assumes "new_buffer maxMessages maxBytes = Inr b"
  shows "run_ops buffer_do xs b
    = run_ops (log_do (int_of_jsnum maxMessages) (int_of_jsnum maxBytes)) xs \<lparr>il_accepted = [], il_acknowledged = 0\<rparr>"
  using assms by (intro run_refines new_buffer_refines) (auto simp: new_buffer_def split: if_splits)

lemma buffer_implements_log_witness:
  "\<exists>b. new_buffer (js_int 2) (js_int 1024) = Inr b
    \<and> run_ops buffer_do [PushInput [7], PushInput [8, 9], PushInput [1], Acknowledge (js_int 1), PushInput [5], Replay] b
      = [Accepted \<lparr>bi_sequence = 1, bi_payload = [7], bi_bytes = 1\<rparr>,
         Accepted \<lparr>bi_sequence = 2, bi_payload = [8, 9], bi_bytes = 2\<rparr>,
         Rejected (overflow ''message_limit''), Quiet,
         Accepted \<lparr>bi_sequence = 3, bi_payload = [5], bi_bytes = 1\<rparr>,
         Entries [\<lparr>bi_sequence = 2, bi_payload = [8, 9], bi_bytes = 2\<rparr>, \<lparr>bi_sequence = 3, bi_payload = [5], bi_bytes = 1\<rparr>]]"
proof -
  obtain b where b: "new_buffer (js_int 2) (js_int 1024) = Inr b" by (simp add: new_buffer_def)
  show ?thesis
    unfolding ex_simps by (rule exI [of _ b], rule conjI, rule b, subst buffer_implements_log [OF b], code_simp)
qed

section \<open>Bounds\<close>

text \<open>What every state of a buffer satisfies; the session relies on it.\<close>

definition buffer_inv :: "input_buffer \<Rightarrow> bool" where
  "buffer_inv b = (\<exists>l. implements b l \<and> int (length (ib_entries b)) \<le> ib_maxMessages b \<and> ib_bytes b \<le> ib_maxBytes b)"

lemma buffer_inv_new: "new_buffer m n = Inr b \<Longrightarrow> buffer_inv b"
  using new_buffer_refines [of m n b]
  by (auto simp: buffer_inv_def new_buffer_def is_integer_iff split: if_splits)

lemma log_bytes_shrinks: "log_bytes (log_acknowledge n l) \<le> log_bytes l"
proof -
  have "sum_list (map length (drop k xs)) \<le> sum_list (map length (drop j xs))" if "j \<le> k" for j k and xs :: "view list"
  proof -
    have "drop j xs = take (k - j) (drop j xs) @ drop k xs"
      using that by (metis append_take_drop_id drop_drop le_add_diff_inverse2)
    then have "sum_list (map length (drop j xs)) = sum_list (map length (take (k - j) (drop j xs))) + sum_list (map length (drop k xs))"
      by (metis map_append sum_list_append)
    then show ?thesis by simp
  qed
  then show ?thesis by (simp add: log_bytes_def log_acknowledge_def)
qed

lemma buffer_inv_push:
  assumes "buffer_inv b" and "buffer_push p b = Inr (e, b')"
  shows "buffer_inv b'" and "ib_entries b' = ib_entries b @ [e]" and "\<forall>x \<in> set (ib_entries b). bi_sequence x < bi_sequence e"
    and "ib_maxMessages b' = ib_maxMessages b" and "ib_maxBytes b' = ib_maxBytes b"
    and "bi_bytes e = int (length (bi_payload e))" and "bi_payload e = p"
    and "bi_sequence e = ib_nextSequence b" and "ib_acknowledged b' = ib_acknowledged b"
    and "ib_nextSequence b' = ib_nextSequence b + 1"
proof -
  obtain l where l: "implements b l" using assms(1) by (auto simp: buffer_inv_def)
  obtain l' where l': "implements b' l'"
    using buffer_push_refines [OF l, of p] assms(2) by (auto elim!: rel_sum.cases rel_prod.cases)
  have room: "int (length (ib_entries b')) \<le> ib_maxMessages b'" "ib_bytes b' \<le> ib_maxBytes b'"
    using assms(2) by (auto simp: buffer_push_def Let_def split: if_splits)
  with l' show "buffer_inv b'" by (auto simp: buffer_inv_def)
  show "\<forall>x \<in> set (ib_entries b). bi_sequence x < bi_sequence e"
    using assms(2) implementsD [OF l] by (auto simp: buffer_push_def Let_def log_pending_def numbered_def split: if_splits)
qed (use assms(2) in \<open>auto simp: buffer_push_def Let_def split: if_splits\<close>)

lemma shift_suffix: "\<exists>ys. es = ys @ fst (shift_acknowledged n es k)"
  by (induction n es k rule: shift_acknowledged.induct) (auto, metis append_Cons)

lemma buffer_inv_acknowledge:
  assumes "buffer_inv b"
  shows "buffer_inv (buffer_acknowledge n b)" and "\<exists>ys. ib_entries b = ys @ ib_entries (buffer_acknowledge n b)"
    and "ib_maxMessages (buffer_acknowledge n b) = ib_maxMessages b" and "ib_maxBytes (buffer_acknowledge n b) = ib_maxBytes b"
    and "ib_nextSequence (buffer_acknowledge n b) = ib_nextSequence b"
proof -
  obtain l where l: "implements b l" using assms by (auto simp: buffer_inv_def)
  note l' = buffer_acknowledge_refines [OF l, of n]
  show lim: "ib_maxMessages (buffer_acknowledge n b) = ib_maxMessages b" "ib_maxBytes (buffer_acknowledge n b) = ib_maxBytes b"
    "ib_nextSequence (buffer_acknowledge n b) = ib_nextSequence b"
    by (auto simp: buffer_acknowledge_def Let_def split: prod.splits)
  show suffix: "\<exists>ys. ib_entries b = ys @ ib_entries (buffer_acknowledge n b)"
    using shift_suffix [of "ib_entries b" "min (int_of_jsnum n) (ib_nextSequence b - 1)" "ib_bytes b"]
    by (auto simp: buffer_acknowledge_def Let_def split: prod.splits)
  have "length (ib_entries (buffer_acknowledge n b)) \<le> length (ib_entries b)" using suffix by auto
  moreover have "ib_bytes (buffer_acknowledge n b) \<le> ib_bytes b"
    using implementsD(4) [OF l'] implementsD(4) [OF l] log_bytes_shrinks [of n l] by simp
  ultimately show "buffer_inv (buffer_acknowledge n b)"
    using assms l' lim by (force simp: buffer_inv_def)
qed

lemma buffer_inv_facts:
  assumes "buffer_inv b"
  shows "sorted_wrt (<) (map bi_sequence (ib_entries b))" and "buffer_replay b = ib_entries b"
    and "\<forall>x \<in> set (ib_entries b). bi_bytes x = int (length (bi_payload x)) \<and> ib_acknowledged b < bi_sequence x \<and> bi_sequence x < ib_nextSequence b"
    and "ib_bytes b = sum_list (map bi_bytes (ib_entries b))"
    and "int (length (ib_entries b)) \<le> ib_maxMessages b" and "ib_bytes b \<le> ib_maxBytes b"
proof -
  obtain l where l: "implements b l" using assms by (auto simp: buffer_inv_def)
  note d = implementsD [OF l]
  show "sorted_wrt (<) (map bi_sequence (ib_entries b))"
    unfolding d log_pending_def map_map comp_def numbered_def
    by (simp add: sorted_wrt_map, rule sorted_wrt_mono_rel [OF _ sorted_wrt_upt]) simp
  show "buffer_replay b = ib_entries b" using replay_refines(2) [OF l] d by simp
  show "\<forall>x \<in> set (ib_entries b). bi_bytes x = int (length (bi_payload x)) \<and> ib_acknowledged b < bi_sequence x \<and> bi_sequence x < ib_nextSequence b"
    unfolding d by (auto simp: log_pending_def numbered_def)
  have "map bi_bytes (ib_entries b) = map (int \<circ> length) (drop (il_acknowledged l) (il_accepted l))"
    unfolding d by (auto simp: log_pending_def numbered_def intro!: nth_equalityI)
  then show "ib_bytes b = sum_list (map bi_bytes (ib_entries b))"
    unfolding d by (simp add: log_bytes_def sum_list_sum_nth)
  show "int (length (ib_entries b)) \<le> ib_maxMessages b" "ib_bytes b \<le> ib_maxBytes b"
    using assms by (auto simp: buffer_inv_def)
qed

end
