(* ===== verification/GatewayRoutes.thy ===== *)
theory GatewayRoutes
  imports GatewayIdentity
begin

text \<open>
  The tables of the gateway (\<open>server/src/opsia/sessionGatewayProtocol.ts\<close>): the routes of the
  rooms with their fencing epochs, the one-time admissions of join tokens, the freeze intents and
  the addresses of rooms.  \<open>URL\<close> and \<open>URLSearchParams\<close> are parameters.
\<close>

section \<open>Addresses\<close>

record 'u url_api =
  ua_parse :: "string \<Rightarrow> 'u option"
  ua_protocol :: "'u \<Rightarrow> string"
  ua_set_protocol :: "string \<Rightarrow> 'u \<Rightarrow> 'u"
  ua_pathname :: "'u \<Rightarrow> string"
  ua_set_pathname :: "string \<Rightarrow> 'u \<Rightarrow> 'u"
  ua_set_search :: "string \<Rightarrow> 'u \<Rightarrow> 'u"
  ua_toString :: "'u \<Rightarrow> string"
  ua_query :: "(string \<times> string) list \<Rightarrow> string"

text \<open>\<open>s.replace(/\/$/, "")\<close>\<close>

definition drop_slash :: "string \<Rightarrow> string" where
  "drop_slash s = (if s \<noteq> [] \<and> last s = CHR ''/'' then butlast s else s)"

definition js_eq :: "jsnum \<Rightarrow> jsnum \<Rightarrow> bool" where
  "js_eq a b = (a = b \<and> a \<noteq> NaN)"

lemma js_eq_int [simp]: "js_eq (js_int i) x \<longleftrightarrow> x = js_int i"
  by (auto simp: js_eq_def js_int_def)

text \<open>\<open>pathname.match(/^\/(?:play|watch)\/(room-\d+)(?:\/|$)/)?.[1]\<close>\<close>

definition roomIdFromGatewayPath :: "string \<Rightarrow> string option" where
  "roomIdFromGatewayPath pathname =
     (case (case strip_prefix ''/play/room-'' pathname of
              None \<Rightarrow> strip_prefix ''/watch/room-'' pathname | Some r \<Rightarrow> Some r) of
        None \<Rightarrow> None
      | Some r \<Rightarrow>
          let ds = takeWhile is_digit r; rest = dropWhile is_digit r in
          if ds \<noteq> [] \<and> (rest = [] \<or> hd rest = CHR ''/'') then Some (''room-'' @ ds) else None)"

record ws_gateway =
  wg_roomId :: string
  wg_sessionId :: string
  wg_roomEpoch :: jsnum
  wg_sharedSecret :: string

text \<open>\<open>websocketEndpoint\<close>, at the time and with the nonce it draws.\<close>

definition websocketEndpoint ::
  "'u url_api \<Rightarrow> crypto \<Rightarrow> int \<Rightarrow> string \<Rightarrow> string \<Rightarrow> string \<Rightarrow> ws_gateway option \<Rightarrow> string + string" where
  "websocketEndpoint ua c now nonce endpoint gameId gateway =
     (case ua_parse ua endpoint of
        None \<Rightarrow> Inl ''Invalid URL''
      | Some u \<Rightarrow>
          let u1 = ua_set_pathname ua ''/play''
                     (ua_set_protocol ua (if ua_protocol ua u = ''https:'' then ''wss:'' else ''ws:'') u) in
          case gateway of
            None \<Rightarrow> Inr (ua_toString ua (ua_set_search ua (ua_query ua [(''gameId'', gameId)]) u1))
          | Some g \<Rightarrow>
              let i = \<lparr>gi_roomId = wg_roomId g, gi_gameId = gameId, gi_sessionId = wg_sessionId g,
                       gi_roomEpoch = wg_roomEpoch g, gi_issuedAt = js_int now, gi_nonce = nonce\<rparr> in
              case signGatewayConnection c (wg_sharedSecret g) i of
                Inl e \<Rightarrow> Inl e
              | Inr signature \<Rightarrow> Inr (ua_toString ua (ua_set_search ua (ua_query ua
                  [(''gameId'', gameId), (''opsiaGateway'', ''1''), (''gatewaySessionId'', wg_sessionId g),
                   (''roomEpoch'', js_string c (wg_roomEpoch g)), (''gatewayIssuedAt'', js_string c (gi_issuedAt i)),
                   (''gatewayNonce'', nonce), (''gatewaySignature'', signature)]) u1)))"

section \<open>Routes\<close>

record gateway_route =
  gr_roomId :: string
  gr_endpoint :: string
  gr_epoch :: jsnum
  gr_revision :: "string option"

definition normalizeRoute :: "'u url_api \<Rightarrow> gateway_route \<Rightarrow> string + gateway_route" where
  "normalizeRoute ua r =
     (if room_ordinal (gr_roomId r) = None then Inl ''invalid_gateway_room_id''
      else case ua_parse ua (gr_endpoint r) of
        None \<Rightarrow> Inl ''Invalid URL''
      | Some u \<Rightarrow>
          if ua_protocol ua u \<noteq> ''http:'' \<and> ua_protocol ua u \<noteq> ''https:'' then Inl ''invalid_gateway_room_endpoint''
          else if \<not> is_safe_integer (gr_epoch r) \<or> js_lt (gr_epoch r) (js_int 1) then Inl ''invalid_room_epoch''
          else let u1 = ua_set_pathname ua (drop_slash (ua_pathname ua u)) u
               in Inr (r\<lparr>gr_endpoint := drop_slash (ua_toString ua u1)\<rparr>))"

type_synonym routes = "(string \<times> gateway_route) list"

fun add_routes :: "'u url_api \<Rightarrow> gateway_route list \<Rightarrow> routes \<Rightarrow> string + routes" where
  "add_routes ua [] rs = Inr rs"
| "add_routes ua (r # more_routes) rs =
     (case normalizeRoute ua r of
        Inl e \<Rightarrow> Inl e
      | Inr n \<Rightarrow> if map_of rs (gr_roomId n) \<noteq> None then Inl ''duplicate_gateway_room''
                else add_routes ua more_routes (oput (gr_roomId n) n rs))"

definition new_registry :: "'u url_api \<Rightarrow> gateway_route list \<Rightarrow> string + routes" where
  "new_registry ua initial = add_routes ua initial []"

definition registry_list :: "routes \<Rightarrow> gateway_route list" where
  "registry_list rs = sort_key (\<lambda>r. parse_nat (drop 5 (gr_roomId r))) (map snd rs)"

definition register_route :: "'u url_api \<Rightarrow> gateway_route \<Rightarrow> routes \<Rightarrow> string + gateway_route \<times> routes" where
  "register_route ua r rs =
     (case normalizeRoute ua r of
        Inl e \<Rightarrow> Inl e
      | Inr n \<Rightarrow>
          (case map_of rs (gr_roomId n) of
             Some current \<Rightarrow>
               if gr_endpoint current \<noteq> gr_endpoint n \<or> \<not> js_eq (gr_epoch current) (gr_epoch n)
               then Inl ''gateway_room_registration_conflict'' else Inr (current, rs)
           | None \<Rightarrow> Inr (n, oput (gr_roomId n) n rs)))"

definition reconcileStableRoute :: "'u url_api \<Rightarrow> gateway_route \<Rightarrow> routes \<Rightarrow> string + gateway_route \<times> routes" where
  "reconcileStableRoute ua r rs =
     (case normalizeRoute ua r of
        Inl e \<Rightarrow> Inl e
      | Inr n \<Rightarrow>
          (case map_of rs (gr_roomId n) of
             None \<Rightarrow> Inl ''gateway_room_not_found''
           | Some current \<Rightarrow>
               if gr_endpoint current \<noteq> gr_endpoint n then Inl ''gateway_room_reconciliation_endpoint_conflict''
               else if js_lt (gr_epoch n) (gr_epoch current) then Inl ''gateway_room_reconciliation_epoch_regression''
               else Inr (n, oput (gr_roomId n) n rs)))"

definition compareAndSwap ::
  "'u url_api \<Rightarrow> string \<Rightarrow> jsnum \<Rightarrow> string \<Rightarrow> jsnum \<Rightarrow> string option \<Rightarrow> routes \<Rightarrow> string + gateway_route \<times> routes" where
  "compareAndSwap ua roomId expectedEpoch endpoint epoch revision rs =
     (case map_of rs roomId of
        None \<Rightarrow> Inl ''gateway_room_not_found''
      | Some current \<Rightarrow>
          if \<not> js_eq (gr_epoch current) expectedEpoch then Inl ''gateway_epoch_conflict''
          else if js_le epoch expectedEpoch then Inl ''gateway_epoch_not_monotonic''
          else (case normalizeRoute ua \<lparr>gr_roomId = roomId, gr_endpoint = endpoint, gr_epoch = epoch, gr_revision = revision\<rparr> of
                  Inl e \<Rightarrow> Inl e
                | Inr n \<Rightarrow> Inr (n, oput roomId n rs)))"

section \<open>Admissions and freeze intents\<close>

record admission =
  ad_sessionId :: string
  ad_expiresAt :: int

type_synonym admissions = "(string \<times> admission) list"

definition admission_issue :: "int \<Rightarrow> string \<Rightarrow> string \<Rightarrow> int \<Rightarrow> admissions \<Rightarrow> admissions" where
  "admission_issue ttlMs key sessionId now as = oput key \<lparr>ad_sessionId = sessionId, ad_expiresAt = now + ttlMs\<rparr> as"

definition admission_consume :: "string \<Rightarrow> string \<Rightarrow> int \<Rightarrow> admissions \<Rightarrow> bool \<times> admissions" where
  "admission_consume key sessionId now as =
     (case map_of as key of
        None \<Rightarrow> (False, as)
      | Some a \<Rightarrow> if ad_expiresAt a < now \<or> ad_sessionId a \<noteq> sessionId then (False, as) else (True, odel key as))"

record freeze_intent =
  fi_operationId :: string
  fi_expectedEpoch :: jsnum
  fi_supersedes :: "string option"

definition sameGatewayFreezeIntent :: "freeze_intent \<Rightarrow> freeze_intent \<Rightarrow> bool" where
  "sameGatewayFreezeIntent l r =
     (fi_operationId l = fi_operationId r \<and> js_eq (fi_expectedEpoch l) (fi_expectedEpoch r)
      \<and> fi_supersedes l = fi_supersedes r)"

section \<open>Epochs only grow\<close>

datatype route_op =
    Register gateway_route
  | Reconcile gateway_route
  | Swap (sw_room: string) (sw_expected: jsnum) (sw_endpoint: string) (sw_epoch: jsnum) (sw_revision: "string option")

fun route_do :: "'u url_api \<Rightarrow> route_op \<Rightarrow> routes \<Rightarrow> string + gateway_route \<times> routes" where
  "route_do ua (Register r) rs = register_route ua r rs"
| "route_do ua (Reconcile r) rs = reconcileStableRoute ua r rs"
| "route_do ua (Swap room ex ep n rev') rs = compareAndSwap ua room ex ep n rev' rs"

fun after_ops :: "'u url_api \<Rightarrow> route_op list \<Rightarrow> routes \<Rightarrow> routes" where
  "after_ops ua [] rs = rs"
| "after_ops ua (x # xs) rs = after_ops ua xs (case route_do ua x rs of Inl _ \<Rightarrow> rs | Inr (_, rs') \<Rightarrow> rs')"

text \<open>Every route of the table is normalized: its epoch is a positive safe integer.\<close>

definition routes_ok :: "routes \<Rightarrow> bool" where
  "routes_ok rs = (\<forall>room r. map_of rs room = Some r \<longrightarrow> gr_roomId r = room
     \<and> (\<exists>i. gr_epoch r = js_int i \<and> 1 \<le> i \<and> safe_int i))"

definition epoch_of :: "routes \<Rightarrow> string \<Rightarrow> int" where
  "epoch_of rs room = (case map_of rs room of None \<Rightarrow> 0 | Some r \<Rightarrow> int_of_jsnum (gr_epoch r))"

lemma normalizeRoute_Inr:
  assumes "normalizeRoute ua r = Inr n"
  shows "gr_roomId n = gr_roomId r" "gr_epoch n = gr_epoch r" "\<exists>i. gr_epoch n = js_int i \<and> 1 \<le> i \<and> safe_int i"
  using assms by (auto simp: normalizeRoute_def is_safe_integer_iff Let_def not_less split: if_splits option.splits)

lemma routes_ok_put:
  assumes "routes_ok rs" and "normalizeRoute ua r = Inr n" and "room = gr_roomId r"
  shows "routes_ok (oput room n rs)"
  using assms normalizeRoute_Inr [OF assms(2)] by (auto simp: routes_ok_def)

lemma routes_okD:
  assumes "routes_ok rs" and "map_of rs room = Some r"
  obtains i where "gr_epoch r = js_int i" "1 \<le> i" "safe_int i" "epoch_of rs room = i" "gr_roomId r = room"
  using assms by (fastforce simp: routes_ok_def epoch_of_def)

lemma route_do_ok:
  assumes "routes_ok rs" and "route_do ua x rs = Inr (r, rs')"
  shows "routes_ok rs'" and "epoch_of rs room \<le> epoch_of rs' room" and "map_of rs room \<noteq> None \<Longrightarrow> map_of rs' room \<noteq> None"
proof -
  have "routes_ok rs' \<and> epoch_of rs room \<le> epoch_of rs' room \<and> (map_of rs room \<noteq> None \<longrightarrow> map_of rs' room \<noteq> None)"
  proof (cases x)
    case (Register q)
    obtain n where n: "normalizeRoute ua q = Inr n"
      using assms(2) Register by (auto simp: register_route_def split: sum.splits)
    show ?thesis
    proof (cases "map_of rs (gr_roomId n)")
      case None
      then have rs': "rs' = oput (gr_roomId n) n rs"
        using assms(2) Register n by (auto simp: register_route_def)
      obtain i where "gr_epoch n = js_int i" "1 \<le> i" using normalizeRoute_Inr(3) [OF n] by blast
      with None rs' routes_ok_put [OF assms(1) n] normalizeRoute_Inr(1) [OF n] show ?thesis
        by (auto simp: epoch_of_def)
    next
      case (Some current)
      then show ?thesis using assms Register n by (auto simp: register_route_def split: if_splits)
    qed
  next
    case (Reconcile q)
    obtain n where n: "normalizeRoute ua q = Inr n"
      using assms(2) Reconcile by (auto simp: reconcileStableRoute_def split: sum.splits)
    obtain current where c: "map_of rs (gr_roomId n) = Some current" "\<not> js_lt (gr_epoch n) (gr_epoch current)"
        "rs' = oput (gr_roomId n) n rs"
      using assms(2) Reconcile n by (auto simp: reconcileStableRoute_def split: option.splits if_splits)
    obtain i where i: "gr_epoch current = js_int i" by (rule routes_okD [OF assms(1) c(1)])
    obtain j where j: "gr_epoch n = js_int j" using normalizeRoute_Inr(3) [OF n] by blast
    from c i j routes_ok_put [OF assms(1) n] normalizeRoute_Inr(1) [OF n] show ?thesis
      by (auto simp: epoch_of_def)
  next
    case (Swap q ex ep e v)
    obtain current n where c: "map_of rs q = Some current" "js_eq (gr_epoch current) ex" "\<not> js_le e ex"
        "normalizeRoute ua \<lparr>gr_roomId = q, gr_endpoint = ep, gr_epoch = e, gr_revision = v\<rparr> = Inr n" "rs' = oput q n rs"
      using assms(2) Swap by (auto simp: compareAndSwap_def split: option.splits if_splits sum.splits)
    obtain i where i: "gr_epoch current = js_int i" by (rule routes_okD [OF assms(1) c(1)])
    obtain j where j: "gr_epoch n = js_int j" using normalizeRoute_Inr(3) [OF c(4)] by blast
    have "e = js_int j" using normalizeRoute_Inr(2) [OF c(4)] j by simp
    with c i j routes_ok_put [OF assms(1) c(4)] show ?thesis
      by (auto simp: epoch_of_def)
  qed
  then show "routes_ok rs'" "epoch_of rs room \<le> epoch_of rs' room" "map_of rs room \<noteq> None \<Longrightarrow> map_of rs' room \<noteq> None"
    by simp_all
qed

lemma after_ops_ok:
  assumes "routes_ok rs"
  shows "routes_ok (after_ops ua xs rs)" and "epoch_of rs room \<le> epoch_of (after_ops ua xs rs) room"
    and "map_of rs room \<noteq> None \<Longrightarrow> map_of (after_ops ua xs rs) room \<noteq> None"
proof -
  have "routes_ok (after_ops ua xs rs) \<and> epoch_of rs room \<le> epoch_of (after_ops ua xs rs) room
      \<and> (map_of rs room \<noteq> None \<longrightarrow> map_of (after_ops ua xs rs) room \<noteq> None)"
    using assms
  proof (induction xs arbitrary: rs)
    case (Cons x xs)
    show ?case
    proof (cases "route_do ua x rs")
      case (Inl e)
      then show ?thesis using Cons by simp
    next
      case (Inr p)
      obtain r rs' where p: "p = (r, rs')" by (cases p)
      have run: "route_do ua x rs = Inr (r, rs')" using Inr p by simp
      note step = route_do_ok [OF Cons.prems run]
      from Cons.IH [OF step(1)] step(2,3) [of room] show ?thesis by (auto simp: run intro: order_trans)
    qed
  qed simp
  then show "routes_ok (after_ops ua xs rs)" "epoch_of rs room \<le> epoch_of (after_ops ua xs rs) room"
    "map_of rs room \<noteq> None \<Longrightarrow> map_of (after_ops ua xs rs) room \<noteq> None" by simp_all
qed

lemma new_registry_ok: "new_registry ua initial = Inr rs \<Longrightarrow> routes_ok rs"
proof -
  have "routes_ok rs" if "add_routes ua initial rs0 = Inr rs" "routes_ok rs0" for rs0
    using that
  proof (induction initial arbitrary: rs0)
    case (Cons r initial)
    then obtain n where n: "normalizeRoute ua r = Inr n" "add_routes ua initial (oput (gr_roomId n) n rs0) = Inr rs"
      by (auto split: sum.splits if_splits)
    show ?case
      by (rule Cons.IH [OF n(2)]) (rule routes_ok_put [OF Cons.prems(2) n(1) normalizeRoute_Inr(1) [OF n(1)]])
  qed simp
  note ok = this
  assume "new_registry ua initial = Inr rs"
  then show "routes_ok rs" unfolding new_registry_def by (rule ok) (simp add: routes_ok_def)
qed

lemma swap_succeeds:
  assumes "routes_ok rs" and "compareAndSwap ua room ex ep e v rs = Inr (r, rs')"
  shows "ex = js_int (epoch_of rs room)" "epoch_of rs room < epoch_of rs' room" "gr_epoch r = e" "e = js_int (epoch_of rs' room)"
    "map_of rs' room = Some r"
proof -
  obtain current n where c: "map_of rs room = Some current" "js_eq (gr_epoch current) ex" "\<not> js_le e ex" "r = n"
      "normalizeRoute ua \<lparr>gr_roomId = room, gr_endpoint = ep, gr_epoch = e, gr_revision = v\<rparr> = Inr n" "rs' = oput room n rs"
    using assms(2) by (auto simp: compareAndSwap_def split: option.splits if_splits sum.splits)
  obtain i where i: "gr_epoch current = js_int i" by (rule routes_okD [OF assms(1) c(1)])
  obtain j where j: "gr_epoch n = js_int j" using normalizeRoute_Inr(3) [OF c(5)] by blast
  have "e = js_int j" using normalizeRoute_Inr(2) [OF c(5)] j by simp
  with c i j show "ex = js_int (epoch_of rs room)" "epoch_of rs room < epoch_of rs' room" "gr_epoch r = e"
    "e = js_int (epoch_of rs' room)" "map_of rs' room = Some r"
    by (auto simp: epoch_of_def)
qed

lemma swap_conflicts:
  assumes "routes_ok rs" and "map_of rs room \<noteq> None" and "i < epoch_of rs room"
  shows "compareAndSwap ua room (js_int i) ep e v rs = Inl ''gateway_epoch_conflict''"
proof -
  obtain r where r: "map_of rs room = Some r" using assms(2) by auto
  obtain j where "gr_epoch r = js_int j" "epoch_of rs room = j" by (rule routes_okD [OF assms(1) r])
  with r assms(3) show ?thesis by (simp add: compareAndSwap_def)
qed

text \<open>
  C22: The routes of a gateway are fenced.  Whatever is registered, reconciled and swapped after the
  registry was built, no room loses its route and no epoch goes back; a swap that succeeds
  names the current epoch and moves the room to a greater one; and once it has, every other
  swap from the same epoch fails, however many operations come in between.
\<close>

theorem room_routes_are_fenced:
  assumes "new_registry ua initial = Inr rs0" and "rs = after_ops ua xs rs0"
    and "compareAndSwap ua room ex ep e v rs = Inr (route, rs1)"
  shows "epoch_of rs0 q \<le> epoch_of rs q \<and> (map_of rs0 q = None \<or> map_of rs q \<noteq> None)
    \<and> ex = js_int (epoch_of rs room) \<and> epoch_of rs room < epoch_of rs1 room
    \<and> map_of rs1 room = Some route
    \<and> compareAndSwap ua room ex ep' e' v' (after_ops ua ys rs1) = Inl ''gateway_epoch_conflict''"
proof -
  note ok0 = new_registry_ok [OF assms(1)]
  note ok = after_ops_ok [OF ok0, where ua = ua and xs = xs, folded assms(2)]
  note swap = swap_succeeds [OF ok(1) assms(3)]
  have ok1: "routes_ok rs1" using route_do_ok(1) [OF ok(1), of ua "Swap room ex ep e v" route rs1] assms(3) by simp
  note later = after_ops_ok [OF ok1, where ua = ua and xs = ys]
  have "compareAndSwap ua room ex ep' e' v' (after_ops ua ys rs1) = Inl ''gateway_epoch_conflict''"
    unfolding swap(1) using swap(2,5) later(2) [of room] later(3) [of room] by (intro swap_conflicts later(1)) auto
  with swap ok(2) [of q] ok(3) [of q] show ?thesis by (cases "map_of rs0 q = None") auto
qed

text \<open>A concrete \<open>URL\<close>: the text with its protocol, kept as it is.\<close>

definition plain_url :: "string url_api" where
  "plain_url = \<lparr>ua_parse = Some, ua_protocol = (\<lambda>u. takeWhile (\<lambda>ch. ch \<noteq> CHR ''/'') u), ua_set_protocol = (\<lambda>_ u. u),
     ua_pathname = (\<lambda>_. []), ua_set_pathname = (\<lambda>_ u. u), ua_set_search = (\<lambda>q u. u @ CHR ''?'' # q),
     ua_toString = (\<lambda>u. u), ua_query = (\<lambda>kvs. concat (map (\<lambda>(k, v). k @ CHR ''='' # v @ ''&'') kvs))\<rparr>"

lemma room_routes_are_fenced_witness:
  "\<exists>rs1 route. compareAndSwap plain_url ''room-0'' (js_int 1) ''http://b'' (js_int 2) None
       [(''room-0'', \<lparr>gr_roomId = ''room-0'', gr_endpoint = ''http://a'', gr_epoch = js_int 1, gr_revision = None\<rparr>)] = Inr (route, rs1)
    \<and> compareAndSwap plain_url ''room-0'' (js_int 1) ''http://c'' (js_int 3) None
        (after_ops plain_url [Reconcile \<lparr>gr_roomId = ''room-0'', gr_endpoint = ''http://b'', gr_epoch = js_int 5, gr_revision = None\<rparr>] rs1)
      = Inl ''gateway_epoch_conflict''"
proof -
  let ?r = "\<lparr>gr_roomId = ''room-0'', gr_endpoint = ''http://a'', gr_epoch = js_int 1, gr_revision = None\<rparr>"
  let ?s = "\<lparr>gr_roomId = ''room-0'', gr_endpoint = ''http://b'', gr_epoch = js_int 2, gr_revision = None\<rparr>"
  have new: "new_registry plain_url [?r] = Inr [(''room-0'', ?r)]" by code_simp
  have swap: "compareAndSwap plain_url ''room-0'' (js_int 1) ''http://b'' (js_int 2) None [(''room-0'', ?r)] = Inr (?s, [(''room-0'', ?s)])"
    by code_simp
  show ?thesis
    by (rule exI, rule exI, rule conjI, rule swap,
        rule room_routes_are_fenced [OF new _ swap, where xs = "[]", THEN conjunct2, THEN conjunct2, THEN conjunct2,
          THEN conjunct2, THEN conjunct2]) simp
qed

section \<open>A token admits once\<close>

datatype admission_op = Issue (ao_key: string) string int | Consume (ao_key: string) string int

text \<open>The answers of a run; an issue answers nothing and counts as no success.\<close>

fun admission_do :: "int \<Rightarrow> admission_op \<Rightarrow> admissions \<Rightarrow> bool \<times> admissions" where
  "admission_do ttl (Issue k s t) as = (False, admission_issue ttl k s t as)"
| "admission_do ttl (Consume k s t) as = admission_consume k s t as"

fun admission_run :: "int \<Rightarrow> admission_op list \<Rightarrow> admissions \<Rightarrow> (admission_op \<times> bool) list \<times> admissions" where
  "admission_run ttl [] as = ([], as)"
| "admission_run ttl (x # xs) as =
     (let (b, as') = admission_do ttl x as; (tr, as'') = admission_run ttl xs as' in ((x, b) # tr, as''))"

text \<open>
  The last thing that happened to a key, of its issues and its successful uses: the admission
  that is open, if any.
\<close>

fun open_admission :: "int \<Rightarrow> string \<Rightarrow> (admission_op \<times> bool) list \<Rightarrow> admission option \<Rightarrow> admission option" where
  "open_admission ttl k [] a = a"
| "open_admission ttl k ((Issue j s t, b) # tr) a =
     open_admission ttl k tr (if j = k then Some \<lparr>ad_sessionId = s, ad_expiresAt = t + ttl\<rparr> else a)"
| "open_admission ttl k ((Consume j s t, b) # tr) a = open_admission ttl k tr (if j = k \<and> b then None else a)"

lemma admission_run_open:
  "admission_run ttl xs as = (tr, as') \<Longrightarrow> map_of as' k = open_admission ttl k tr (map_of as k)"
proof (induction xs arbitrary: as tr)
  case (Cons x xs)
  obtain b as1 where x: "admission_do ttl x as = (b, as1)" by (cases "admission_do ttl x as")
  obtain tr1 where xs: "admission_run ttl xs as1 = (tr1, as')" "tr = (x, b) # tr1"
    using Cons.prems x by (auto split: prod.splits)
  have "map_of as1 k = open_admission ttl k [(x, b)] (map_of as k)"
    using x by (cases x) (auto simp: admission_issue_def admission_consume_def split: option.splits if_splits)
  with Cons.IH [OF xs(1)] xs(2) show ?case by (cases x) auto
qed simp

lemma admission_consume_iff:
  "fst (admission_consume k s t as) \<longleftrightarrow> (\<exists>a. map_of as k = Some a \<and> t \<le> ad_expiresAt a \<and> ad_sessionId a = s)"
  by (auto simp: admission_consume_def split: option.splits)

lemma open_without_issue:
  "open_admission ttl k tr None = None" if "\<forall>x \<in> set tr. \<forall>s t. fst x \<noteq> Issue k s t"
  using that by (induction ttl k tr "None :: admission option" rule: open_admission.induct) auto

text \<open>
  A join token admits one session, once.  After any run of issues and uses, a use succeeds exactly
  when the token's last issue was to that session, is not over, and no use of the token
  succeeded since; after it succeeded no use succeeds until the token is issued again.
\<close>

theorem token_admits_once:
  assumes "admission_run ttl xs [] = (tr, as)" and "\<forall>y \<in> set ys. \<forall>u t'. y \<noteq> Issue k u t'"
  shows "(fst (admission_consume k s t as) \<longleftrightarrow>
        (\<exists>a. open_admission ttl k tr None = Some a \<and> t \<le> ad_expiresAt a \<and> ad_sessionId a = s))
    \<and> (fst (admission_consume k s t as) \<longrightarrow>
        \<not> fst (admission_consume k u t' (snd (admission_run ttl ys (snd (admission_consume k s t as))))))"
proof (intro conjI impI)
  show "fst (admission_consume k s t as) \<longleftrightarrow>
      (\<exists>a. open_admission ttl k tr None = Some a \<and> t \<le> ad_expiresAt a \<and> ad_sessionId a = s)"
    using admission_run_open [OF assms(1), of k] by (simp add: admission_consume_iff)
next
  assume "fst (admission_consume k s t as)"
  then have gone: "map_of (snd (admission_consume k s t as)) k = None"
    by (auto simp: admission_consume_def split: option.splits if_splits)
  obtain tr' as' where run: "admission_run ttl ys (snd (admission_consume k s t as)) = (tr', as')"
    by (cases "admission_run ttl ys (snd (admission_consume k s t as))")
  have "fst ` set tr' \<subseteq> set ys" if "admission_run ttl ys bs = (tr', as')" for bs
    using that by (induction ys arbitrary: bs tr') (fastforce simp: Let_def split: prod.splits)+
  with assms(2) run have "\<forall>x \<in> set tr'. \<forall>s t. fst x \<noteq> Issue k s t" by blast
  then have "map_of as' k = None"
    using admission_run_open [OF run, of k] gone by (simp add: open_without_issue)
  with run show "\<not> fst (admission_consume k u t' (snd (admission_run ttl ys (snd (admission_consume k s t as)))))"
    by (simp add: admission_consume_iff)
qed

lemma token_admits_once_witness:
  "fst (admission_consume ''k'' ''s'' 100 (snd (admission_run 15000 [Issue ''k'' ''s'' 50] [])))
   \<and> \<not> fst (admission_consume ''k'' ''s'' 101 (snd (admission_run 15000 [Consume ''k'' ''z'' 100]
        (snd (admission_consume ''k'' ''s'' 100 (snd (admission_run 15000 [Issue ''k'' ''s'' 50] [])))))))"
proof -
  obtain tr as where run: "admission_run 15000 [Issue ''k'' ''s'' 50] [] = (tr, as)"
    "tr = [(Issue ''k'' ''s'' 50, False)]" "as = snd (admission_run 15000 [Issue ''k'' ''s'' 50] [])" by simp
  have "fst (admission_consume ''k'' ''s'' 100 as)"
    using token_admits_once [OF run(1), of "[]" "''k''"] run(2) by simp
  with token_admits_once [OF run(1), of "[Consume ''k'' ''z'' 100]" "''k''" "''s''" 100 "''s''" 101] show ?thesis
    unfolding run(3) by simp
qed

end
