(* ===== verification/GatewayJoin.thy ===== *)
theory GatewayJoin
  imports MsgStreamFacts
begin

text \<open>
  The join message on its way through the gateway (\<open>readGatewayJoin\<close>, \<open>writeGatewayJoin\<close> and
  \<open>isGatewayResumeBootstrapFrame\<close> of \<open>server/src/opsia/sessionGatewayProtocol.ts\<close>): what the
  gateway keeps of a browser's join is enough to join a replacement room on the browser's behalf.
\<close>

type_synonym join_template = "string option join_msg"

definition readGatewayJoin :: "net_env \<Rightarrow> view \<Rightarrow> string + join_template option" where
  "readGatewayJoin e payload =
     fst (bindE deserializeMsgType (\<lambda>t. if t \<noteq> MsgJoin then ret None else mapE Some (deser_join e))
            (new_bitstream payload))"

definition isGatewayResumeBootstrapFrame :: "view \<Rightarrow> bool" where
  "isGatewayResumeBootstrapFrame payload =
     (case payload of [] \<Rightarrow> False | b # _ \<Rightarrow> uint b = MsgJoined \<or> uint b = MsgMap)"

text \<open>A definition the reader did not know is \<open>undefined\<close>, and looked up under that name.\<close>

definition type_key :: "string option \<Rightarrow> string" where
  "type_key t = (case t of None \<Rightarrow> ''undefined'' | Some k \<Rightarrow> k)"

definition template_join :: "join_template \<Rightarrow> js_str \<Rightarrow> string join_msg" where
  "template_join t matchPriv = (let lo = jn_loadout t in
     \<lparr>jn_protocol = jn_protocol t, jn_matchPriv = matchPriv, jn_name = jn_name t, jn_useTouch = jn_useTouch t,
      jn_isMobile = jn_isMobile t, jn_bot = jn_bot t,
      jn_loadout = \<lparr>lo_outfit = type_key (lo_outfit lo), lo_melee = type_key (lo_melee lo),
        lo_heal = type_key (lo_heal lo), lo_boost = type_key (lo_boost lo), lo_emotes = map type_key (lo_emotes lo)\<rparr>\<rparr>)"

definition writeGatewayJoin :: "net_env \<Rightarrow> join_template \<Rightarrow> js_str \<Rightarrow> string + view" where
  "writeGatewayJoin e t matchPriv =
     (if matchPriv = [] \<or> 16 * 1024 < length matchPriv then Inl ''invalid_resume_match_token''
      else case serializeMsg MsgJoin (ser_join e (template_join t matchPriv))
                  (new_bitstream (replicate (max 8192 (length matchPriv + 1024)) 0)) of
             (Inl err, _) \<Rightarrow> Inl err
           | (Inr _, s) \<Rightarrow> Inr (getBuffer s))"

section \<open>Room for a join\<close>

lemma at_most_bytes: "at_most (8 * n) (forE [0..<n] (\<lambda>i. writeUint8 (f i)))"
  using at_most_forE [of 8 "\<lambda>i. writeUint8 (f i)" "[0..<n]"]
  by (simp add: at_most_sized [OF sized_uint8] mult.commute)

lemma at_most_text: "at_most (8 * (length str + 1)) (writeASCIIString str None)"
  using at_most_bytes [of "length str + 1"] by (simp add: writeASCIIString_def)

lemma at_most_name: "at_most 128 (writeASCIIString str (Some 16))"
  using at_most_bytes [of 16] by (simp add: writeASCIIString_def)

lemma at_most_emotes: "at_most 2558 (writeArray ts 8 (writeGameType r))"
  using at_most_array [OF at_most_game [of r], of 8 ts] by simp

lemma at_most_join: "at_most (8 * (length (jn_matchPriv m) + 347)) (ser_join e m)"
  unfolding ser_join_def seqE.simps Let_def PlayerNameMaxLen_def
  by (rule at_most_mono, (rule limits at_most_text at_most_name at_most_emotes at_most_sized [OF sized_uint32])+) simp

lemma serialize_fits:
  assumes t: "byte t" and w: "transmits w r a" and n: "at_most (8 * n) w" and room: "n + 1 \<le> length v"
  shows "\<exists>s. serializeMsg t w (new_bitstream v) = (Inr (), s)"
proof -
  let ?w = "thenE (writeUint8 t) w"
  have "transmits ?w (bindE readUint8 (\<lambda>_. r)) a" by (rule transmits_seq [OF transmits_byte [OF t] w])
  moreover have "at_most (8 * (n + 1)) ?w"
    by (rule at_most_mono [OF at_most_thenE [OF at_most_sized [OF sized_uint8] n]]) simp
  ultimately have "\<exists>s'. thenE ?w writeAlignToNextByte (new_bitstream v) = (Inr (), s')"
    by (rule aligned_fits) (use room in \<open>simp_all add: writable_def new_bitstream_def\<close>)
  then show ?thesis
    by (simp add: serializeMsg_def bindE_def getsE_def new_bitstream_def get_index_def)
qed

section \<open>A join that is carried on\<close>

lemma template_of_seen: "template_join (seen_join m) token = m\<lparr>jn_matchPriv := token, jn_name := take PlayerNameMaxLen (jn_name m)\<rparr>"
  by (simp add: template_join_def seen_join_def type_key_def Let_def comp_def)

lemma read_join:
  assumes v: "valid_join e m" and sent: "serializeMsg MsgJoin (ser_join e m) (new_bitstream v) = (Inr (), s)"
  shows "readGatewayJoin e (getBuffer s) = Inr (Some (seen_join m))"
proof -
  have t: "byte MsgJoin" by (simp add: msg_types byte_def)
  obtain s1 s2 where "deserializeMsgType (new_bitstream (getBuffer s)) = (Inr MsgJoin, s1)" "deser_join e s1 = (Inr (seen_join m), s2)"
    by (rule typed_read [OF t join.fits [OF v] sent])
  then show ?thesis by (simp add: readGatewayJoin_def bindE_def mapE_def ret_def)
qed

lemma write_join:
  assumes v: "valid_join e m" and token: "plain_text token" "token \<noteq> []" "length token \<le> 16 * 1024"
  obtains s where "writeGatewayJoin e (seen_join m) token = Inr (getBuffer s)"
    and "serializeMsg MsgJoin (ser_join e (m\<lparr>jn_matchPriv := token, jn_name := take PlayerNameMaxLen (jn_name m)\<rparr>))
           (new_bitstream (replicate (max 8192 (length token + 1024)) 0)) = (Inr (), s)"
    and "valid_join e (m\<lparr>jn_matchPriv := token, jn_name := take PlayerNameMaxLen (jn_name m)\<rparr>)"
proof -
  let ?m = "m\<lparr>jn_matchPriv := token, jn_name := take PlayerNameMaxLen (jn_name m)\<rparr>"
  have t: "byte MsgJoin" by (simp add: msg_types byte_def)
  have m: "valid_join e ?m" using v token(1) plain_text_take by (simp add: valid_join_def)
  have "at_most (8 * (length token + 347)) (ser_join e ?m)" using at_most_join [of ?m e] by simp
  from serialize_fits [OF t join.fits [OF m] this] obtain s where
    s: "serializeMsg MsgJoin (ser_join e ?m) (new_bitstream (replicate (max 8192 (length token + 1024)) 0)) = (Inr (), s)"
    by fastforce
  with token m that show thesis by (simp add: writeGatewayJoin_def template_of_seen)
qed

text \<open>
  A player is carried to the replacement room as the player who joined.  The gateway reads the join
  the browser sent, the join it writes with a token of its own fits its buffer, and the server of
  the other room decodes it as the browser's join with that token.
\<close>

theorem resume_join_carries_player:
  assumes "valid_join e m" and "serializeMsg MsgJoin (ser_join e m) (new_bitstream v) = (Inr (), s)"
    and "plain_text token" and "token \<noteq> []" and "length token \<le> 16 * 1024" and "jn_protocol m = protocolVersion"
  shows "\<exists>t p. readGatewayJoin e (getBuffer s) = Inr (Some t) \<and> writeGatewayJoin e t token = Inr p
    \<and> deserializeMsg e allowEditMsg p =
        Inr \<lparr>dm_type = MsgJoin, dm_msg = Some (Join ((seen_join m)\<lparr>jn_matchPriv := token\<rparr>)), dm_error = None\<rparr>"
proof -
  obtain s' where s': "writeGatewayJoin e (seen_join m) token = Inr (getBuffer s')"
    "serializeMsg MsgJoin (ser_join e (m\<lparr>jn_matchPriv := token, jn_name := take PlayerNameMaxLen (jn_name m)\<rparr>))
           (new_bitstream (replicate (max 8192 (length token + 1024)) 0)) = (Inr (), s')"
    "valid_join e (m\<lparr>jn_matchPriv := token, jn_name := take PlayerNameMaxLen (jn_name m)\<rparr>)"
    by (rule write_join [OF assms(1,3-5)])
  let ?m = "m\<lparr>jn_matchPriv := token, jn_name := take PlayerNameMaxLen (jn_name m)\<rparr>"
  have "deserializeMsg e allowEditMsg (getBuffer s') = Inr (answer e allowEditMsg (InJoin ?m))"
    by (rule server_decodes) (use s'(2,3) in simp_all)
  moreover have "seen_join ?m = (seen_join m)\<lparr>jn_matchPriv := token\<rparr>" by (simp add: seen_join_def Let_def)
  ultimately show ?thesis
    using read_join [OF assms(1,2)] s'(1) assms(6) by (auto simp: answer_def)
qed

text \<open>A register of one definition, and a join that uses it.\<close>

definition join_env :: net_env where
  "join_env = sample_env\<lparr>ne_game := \<lparr>rg_type = ''Game'', rg_defs = [''fists''],
     rg_typeToId = [[] \<mapsto> 0, ''fists'' \<mapsto> 1], rg_idToType = [0 \<mapsto> [], 1 \<mapsto> ''fists''],
     rg_nextId = 2, rg_maxId = 1024\<rparr>\<rparr>"

definition sample_join :: "string join_msg" where
  "sample_join = \<lparr>jn_protocol = protocolVersion, jn_matchPriv = [116], jn_name = [97, 98], jn_useTouch = True,
     jn_isMobile = False, jn_bot = False, jn_loadout = \<lparr>lo_outfit = [], lo_melee = ''fists'', lo_heal = [],
       lo_boost = [], lo_emotes = [''fists'']\<rparr>\<rparr>"

lemma sample_join_valid: "valid_join join_env sample_join"
proof -
  have "reg_ok (ne_game join_env)" by (auto simp: join_env_def reg_ok_def sample_env_def split: if_splits)
  then have "game_type join_env []" "game_type join_env ''fists''"
    by (simp_all add: game_type_def knows_def join_env_def)
  then show ?thesis
    by (simp add: valid_join_def sample_join_def loadout_types_def plain_text_def protocolVersion_def)
qed

lemma resume_join_carries_player_witness:
  "\<exists>s t p. serializeMsg MsgJoin (ser_join join_env sample_join) (new_bitstream (replicate 400 0)) = (Inr (), s)
    \<and> readGatewayJoin join_env (getBuffer s) = Inr (Some t) \<and> writeGatewayJoin join_env t [107, 49] = Inr p
    \<and> deserializeMsg join_env False p =
        Inr \<lparr>dm_type = MsgJoin, dm_msg = Some (Join ((seen_join sample_join)\<lparr>jn_matchPriv := [107, 49]\<rparr>)), dm_error = None\<rparr>"
proof -
  have "byte MsgJoin" by (simp add: msg_types byte_def)
  from serialize_fits [OF this join.fits [OF sample_join_valid] at_most_join] obtain s where
    s: "serializeMsg MsgJoin (ser_join join_env sample_join) (new_bitstream (replicate 400 0)) = (Inr (), s)"
    by (fastforce simp: sample_join_def)
  from resume_join_carries_player [OF sample_join_valid s, of "[107, 49]" False] s show ?thesis
    by (auto simp: plain_text_def sample_join_def)
qed

end
