(* ===== verification/GatewaySession.thy ===== *)
theory GatewaySession
  imports GatewayWire GatewayBuffer GatewayRoutes GatewayJoin Effects
begin

text \<open>
  \<open>GatewaySession\<close> of \<open>server/src/opsia/sessionGateway.ts\<close>: one browser, its unacknowledged inputs,
  the upstream connection it plays on and the one that is being prepared.  Sockets are numbered;
  each keeps its ready state and the bytes it was given, so that what a room receives can be
  stated.  A connection object is shared by \<open>current\<close>, \<open>prepared\<close> and the handlers of its socket:
  the session refers to it by number and all of them change the same record.

  An asynchronous method is cut at its \<open>await\<close>s, one definition per piece; every handler of a socket
  is a definition too.  Their order is the environment's choice.
\<close>

section \<open>State\<close>

datatype ready_state = Connecting | Open | Closing | Closed

datatype preparation_state = NotPreparing | Waiting | Resolved | Rejected string

record connection =
  cn_ready :: ready_state
  cn_epoch :: jsnum
  cn_endpoint :: string
  cn_sentThrough :: int
  cn_wire :: "view list"
  cn_prepared :: bool
  cn_frames :: "view list"
  cn_committed :: bool
  cn_promise :: preparation_state

datatype session_effect = ContinuityFailure | BufferOverflow | ReplayedInputs nat | HandoffFailed "jsnum option" string

record socket_data =
  sd_id :: string
  sd_roomId :: string
  sd_sessionId :: string
  sd_gameId :: string

record gsession =
  gs_data :: socket_data
  gs_inputs :: input_buffer
  gs_conns :: "nat \<Rightarrow> connection"
  gs_next :: nat
  gs_current :: "nat option"
  gs_prepared :: "nat option"
  gs_join :: "join_template option"
  gs_initialJoin :: "view option"
  gs_frozen :: bool
  gs_stopped :: bool
  gs_tick :: "32 word"
  gs_shadow :: "buffered list"
  gs_shadowBytes :: int
  gs_verifying :: bool
  gs_closed :: bool
  gs_down :: "view list"
  gs_ended :: "(int \<times> string) list"
  gs_effects :: "session_effect list"

type_synonym 'a sess = "(gsession, string, 'a) eff"

definition no_connection :: connection where
  "no_connection = \<lparr>cn_ready = Closed, cn_epoch = NaN, cn_endpoint = [], cn_sentThrough = 0, cn_wire = [],
     cn_prepared = False, cn_frames = [], cn_committed = False, cn_promise = NotPreparing\<rparr>"

definition new_session :: "socket_data \<Rightarrow> input_buffer \<Rightarrow> gsession" where
  "new_session d b = \<lparr>gs_data = d, gs_inputs = b, gs_conns = (\<lambda>_. no_connection), gs_next = 0, gs_current = None,
     gs_prepared = None, gs_join = None, gs_initialJoin = None, gs_frozen = False, gs_stopped = False, gs_tick = 0,
     gs_shadow = [], gs_shadowBytes = 0, gs_verifying = False, gs_closed = False, gs_down = [], gs_ended = [],
     gs_effects = []\<rparr>"

section \<open>Small updates\<close>

definition on_conn :: "nat \<Rightarrow> (connection \<Rightarrow> connection) \<Rightarrow> gsession \<Rightarrow> gsession" where
  "on_conn c f s = s\<lparr>gs_conns := (gs_conns s)(c := f (gs_conns s c))\<rparr>"

definition is_open :: "nat \<Rightarrow> gsession \<Rightarrow> bool" where
  "is_open c s = (cn_ready (gs_conns s c) = Open)"

text \<open>\<open>socket.close()\<close>: nothing happens to a socket that is closing or closed.\<close>

definition close_socket :: "nat \<Rightarrow> gsession \<Rightarrow> gsession" where
  "close_socket c = on_conn c (\<lambda>k. if cn_ready k = Connecting \<or> cn_ready k = Open then k\<lparr>cn_ready := Closing\<rparr> else k)"

definition close_opt :: "nat option \<Rightarrow> gsession \<Rightarrow> gsession" where
  "close_opt c s = (case c of None \<Rightarrow> s | Some n \<Rightarrow> close_socket n s)"

definition add_effect :: "session_effect \<Rightarrow> gsession \<Rightarrow> gsession" where
  "add_effect x s = s\<lparr>gs_effects := gs_effects s @ [x]\<rparr>"

definition down_end :: "int \<Rightarrow> string \<Rightarrow> gsession \<Rightarrow> gsession" where
  "down_end code reason s = s\<lparr>gs_ended := gs_ended s @ [(code, reason)]\<rparr>"

definition down_send :: "view \<Rightarrow> gsession \<Rightarrow> gsession" where
  "down_send payload s = s\<lparr>gs_down := gs_down s @ [payload]\<rparr>"

text \<open>\<open>stop\<close>\<close>

definition session_stop :: "gsession \<Rightarrow> gsession" where
  "session_stop s =
     (if gs_stopped s then s
      else (close_opt (gs_prepared s) (close_opt (gs_current s) (s\<lparr>gs_stopped := True\<rparr>)))
             \<lparr>gs_current := None, gs_prepared := None\<rparr>)"

text \<open>\<open>metrics.continuityFailures++; downstream.end(code, reason); stop()\<close>\<close>

definition drop_session :: "int \<Rightarrow> string \<Rightarrow> gsession \<Rightarrow> gsession" where
  "drop_session code reason s = session_stop (down_end code reason (add_effect ContinuityFailure s))"

definition sendBinary :: "nat \<Rightarrow> view \<Rightarrow> gsession \<Rightarrow> gsession" where
  "sendBinary c payload s = (if is_open c s then on_conn c (\<lambda>k. k\<lparr>cn_wire := cn_wire k @ [payload]\<rparr>) s else s)"

definition sendInput :: "nat \<Rightarrow> view \<Rightarrow> jsnum \<Rightarrow> int \<Rightarrow> unit sess" where
  "sendInput c payload roomEpoch inputSequence =
     bindE (getsE gs_tick) (\<lambda>tick.
       case encodeGatewayInput roomEpoch (js_int inputSequence) (js_int (uint tick)) payload of
         Inl e \<Rightarrow> throwE e
       | Inr encoded \<Rightarrow> modifyE (sendBinary c encoded))"

definition sendEntries :: "nat \<Rightarrow> jsnum \<Rightarrow> buffered list \<Rightarrow> unit sess" where
  "sendEntries c roomEpoch es = forE es (\<lambda>e. sendInput c (bi_payload e) roomEpoch (bi_sequence e))"

definition last_sequence_or :: "buffered list \<Rightarrow> int \<Rightarrow> int" where
  "last_sequence_or es n = (if es = [] then n else bi_sequence (last es))"

definition flushInputs :: "nat \<Rightarrow> unit sess" where
  "flushInputs c =
     bindE (getsE (\<lambda>s. (gs_conns s c, buffer_replayAfter (cn_sentThrough (gs_conns s c)) (gs_inputs s)))) (\<lambda>(k, replay).
     thenE (sendEntries c (cn_epoch k) replay)
     (modifyE (on_conn c (\<lambda>k. k\<lparr>cn_sentThrough := last_sequence_or replay (cn_sentThrough k)\<rparr>))))"

section \<open>Retained inputs\<close>

text \<open>The limits are the configured ones, that is those of the buffer.\<close>

definition retainForRollback :: "buffered \<Rightarrow> unit sess" where
  "retainForRollback e =
     bindE (getsE id) (\<lambda>s.
       if \<exists>x \<in> set (gs_shadow s). bi_sequence x = bi_sequence e then ret ()
       else if ib_maxMessages (gs_inputs s) < int (length (gs_shadow s)) + 1
       then throwE ''gateway_verification_buffer_overflow:message_limit''
       else if ib_maxBytes (gs_inputs s) < gs_shadowBytes s + bi_bytes e
       then throwE ''gateway_verification_buffer_overflow:byte_limit''
       else modifyE (\<lambda>s. s\<lparr>gs_shadow := gs_shadow s @ [e], gs_shadowBytes := gs_shadowBytes s + bi_bytes e\<rparr>))"

definition mergeRollbackInputs :: "buffered list \<Rightarrow> buffered list \<Rightarrow> buffered list" where
  "mergeRollbackInputs shadow unacked =
     sort_key bi_sequence (map snd (foldl (\<lambda>m e. oput (bi_sequence e) e m) [] (shadow @ unacked)))"

definition setRollbackInputs :: "buffered list \<Rightarrow> unit sess" where
  "setRollbackInputs es =
     thenE (modifyE (\<lambda>s. s\<lparr>gs_shadow := [], gs_shadowBytes := 0\<rparr>)) (forE es retainForRollback)"

section \<open>The first upstream\<close>

text \<open>\<open>start\<close> up to its \<open>await\<close>, and after the socket has opened.\<close>

definition start_begin :: "jsnum \<Rightarrow> string \<Rightarrow> gsession \<Rightarrow> gsession" where
  "start_begin epoch endpoint s =
     s\<lparr>gs_conns := (gs_conns s)(gs_next s := no_connection\<lparr>cn_ready := Connecting, cn_epoch := epoch, cn_endpoint := endpoint\<rparr>),
       gs_current := Some (gs_next s), gs_next := Suc (gs_next s)\<rparr>"

definition start_opened :: "nat \<Rightarrow> unit sess" where
  "start_opened c =
     thenE (modifyE (on_conn c (\<lambda>k. k\<lparr>cn_ready := Open\<rparr>)))
     (bindE (getsE (\<lambda>s. (gs_initialJoin s, cn_epoch (gs_conns s c)))) (\<lambda>(j, epoch).
     thenE (case j of None \<Rightarrow> ret () | Some payload \<Rightarrow> sendInput c payload epoch 0)
     (flushInputs c)))"

text \<open>The timeout of \<open>waitForOpen\<close>, before the rejected promise reaches anyone.\<close>

definition open_timeout :: "nat \<Rightarrow> gsession \<Rightarrow> gsession" where
  "open_timeout c = close_socket c"

text \<open>The \<open>catch\<close> of \<open>session.start\<close> and the close of the browser's socket.\<close>

definition start_failed :: "gsession \<Rightarrow> gsession" where
  "start_failed s = session_stop (if gs_closed s then s else down_end 1013 ''gateway_upstream_unavailable'' s)"

definition downstream_close :: "gsession \<Rightarrow> gsession" where
  "downstream_close s = session_stop (s\<lparr>gs_closed := True\<rparr>)"

text \<open>The handlers \<open>bindCurrent\<close> installs.\<close>

definition current_message :: "nat \<Rightarrow> view \<Rightarrow> gsession \<Rightarrow> gsession" where
  "current_message c payload s =
     (if gs_stopped s \<or> gs_current s \<noteq> Some c then s
      else case decodeGatewayFrame payload of
        Inl _ \<Rightarrow> drop_session 1011 ''invalid_upstream_gateway_frame'' s
      | Inr None \<Rightarrow> drop_session 1011 ''unframed_upstream_gateway_output'' s
      | Inr (Some (AckFrame epoch sequence tick)) \<Rightarrow>
          if js_eq epoch (cn_epoch (gs_conns s c)) then s\<lparr>gs_inputs := buffer_acknowledge sequence (gs_inputs s)\<rparr> else s
      | Inr (Some (InputFrame _ _ _ _)) \<Rightarrow> drop_session 1011 ''upstream_gateway_output_epoch_mismatch'' s
      | Inr (Some (OutputFrame epoch tick output)) \<Rightarrow>
          if \<not> js_eq epoch (cn_epoch (gs_conns s c)) then drop_session 1011 ''upstream_gateway_output_epoch_mismatch'' s
          else if \<not> gs_closed s then down_send output s else s)"

definition current_close :: "nat \<Rightarrow> gsession \<Rightarrow> gsession" where
  "current_close c s =
     (let s = on_conn c (\<lambda>k. k\<lparr>cn_ready := Closed\<rparr>) s in
      if gs_stopped s \<or> gs_current s \<noteq> Some c \<or> gs_frozen s then s
      else drop_session 1012 ''active_upstream_closed'' s)"

section \<open>Inputs of the browser\<close>

definition joinAdmissionKey :: "string \<Rightarrow> string \<Rightarrow> js_str \<Rightarrow> string" where
  "joinAdmissionKey roomId gameId matchPriv = roomId @ NEWLINE # gameId @ NEWLINE # map char_of matchPriv"

definition current_open :: "gsession \<Rightarrow> nat option" where
  "current_open s = (case gs_current s of None \<Rightarrow> None | Some c \<Rightarrow> if is_open c s then Some c else None)"

definition send_latest_entry :: "buffered \<Rightarrow> unit sess" where
  "send_latest_entry entry =
     bindE (getsE id) (\<lambda>s. case (gs_frozen s, current_open s) of
         (False, Some c) \<Rightarrow>
           thenE (sendInput c (bi_payload entry) (cn_epoch (gs_conns s c)) (bi_sequence entry))
             (modifyE (on_conn c (\<lambda>k. k\<lparr>cn_sentThrough := bi_sequence entry\<rparr>)))
       | _ \<Rightarrow> ret ())"

definition receive_input :: "view \<Rightarrow> unit sess" where
  "receive_input copy =
     bindE (getsE gs_inputs) (\<lambda>b. case buffer_push copy b of
        Inl e \<Rightarrow> throwE e
      | Inr (entry, b') \<Rightarrow>
          thenE (modifyE (\<lambda>s. s\<lparr>gs_inputs := b', gs_tick := gs_tick s + 1\<rparr>))
          (thenE (bindE (getsE gs_verifying) (\<lambda>v. if v then retainForRollback entry else ret ()))
           (send_latest_entry entry)))"

definition input_failed :: "string \<Rightarrow> gsession \<Rightarrow> gsession" where
  "input_failed reason s =
     session_stop (down_end 1013 ''gateway_input_buffer_overflow''
       (add_effect (HandoffFailed (map_option (\<lambda>c. cn_epoch (gs_conns s c)) (gs_current s)) reason)
         (add_effect ContinuityFailure (add_effect BufferOverflow s))))"

definition receive_join :: "join_template \<Rightarrow> view \<Rightarrow> int \<Rightarrow> admissions \<Rightarrow> admissions sess" where
  "receive_join t copy now as =
     bindE (getsE gs_data) (\<lambda>d.
       case admission_consume (joinAdmissionKey (sd_roomId d) (sd_gameId d) (jn_matchPriv t)) (sd_sessionId d) now as of
         (False, as') \<Rightarrow>
           thenE (modifyE (\<lambda>s. session_stop (down_end 1008 ''gateway_session_identity_mismatch'' s))) (ret as')
       | (True, as') \<Rightarrow>
           thenE (modifyE (\<lambda>s. s\<lparr>gs_join := Some t, gs_initialJoin := Some copy\<rparr>))
           (bindE (getsE id) (\<lambda>s.
            thenE (case current_open s of
                     None \<Rightarrow> ret ()
                   | Some c \<Rightarrow> sendInput c copy (cn_epoch (gs_conns s c)) 0)
            (ret as'))))"

definition session_receive :: "net_env \<Rightarrow> int \<Rightarrow> view \<Rightarrow> admissions \<Rightarrow> admissions sess" where
  "session_receive e now payload as =
     bindE (getsE id) (\<lambda>s.
       if gs_stopped s then ret as
       else bindE (if gs_join s = None
                   then (case readGatewayJoin e payload of Inl err \<Rightarrow> throwE err | Inr t \<Rightarrow> ret t) else ret None) (\<lambda>join.
         case join of
           Some t \<Rightarrow> receive_join t payload now as
         | None \<Rightarrow>
             thenE (catchE (receive_input payload) (\<lambda>reason. modifyE (input_failed reason))) (ret as)))"

section \<open>Preparing another upstream\<close>

definition same_upstream :: "gateway_route \<Rightarrow> nat \<Rightarrow> gsession \<Rightarrow> bool" where
  "same_upstream r c s =
     (js_eq (cn_epoch (gs_conns s c)) (gr_epoch r) \<and> cn_endpoint (gs_conns s c) = gr_endpoint r)"

text \<open>\<open>this.current?.epoch === route.epoch && ... readyState === OPEN\<close>\<close>

definition plays_on :: "gateway_route \<Rightarrow> gsession \<Rightarrow> bool" where
  "plays_on r s = (case gs_current s of None \<Rightarrow> False | Some c \<Rightarrow> same_upstream r c s \<and> is_open c s)"

text \<open>\<open>prepare\<close> up to the match request: whether a match is needed.\<close>

definition prepare_begin :: "gateway_route \<Rightarrow> bool sess" where
  "prepare_begin r =
     bindE (getsE id) (\<lambda>s.
       if gs_stopped s then throwE ''gateway_session_closed''
       else if gs_join s = None then throwE ''gateway_join_not_observed''
       else if plays_on r s then ret False
       else case gs_prepared s of
         Some c \<Rightarrow> if same_upstream r c s then ret False else throwE ''gateway_candidate_already_prepared''
       | None \<Rightarrow> ret True)"

text \<open>The match has arrived.\<close>

definition prepare_connect :: "gateway_route \<Rightarrow> gsession \<Rightarrow> gsession" where
  "prepare_connect r s =
     s\<lparr>gs_conns := (gs_conns s)(gs_next s := no_connection\<lparr>cn_ready := Connecting, cn_epoch := gr_epoch r,
          cn_endpoint := gr_endpoint r, cn_prepared := True\<rparr>),
       gs_prepared := Some (gs_next s), gs_next := Suc (gs_next s)\<rparr>"

text \<open>The socket has opened; the token is that of the match.\<close>

definition prepare_opened :: "net_env \<Rightarrow> nat \<Rightarrow> js_str \<Rightarrow> unit sess" where
  "prepare_opened e c token =
     thenE (modifyE (on_conn c (\<lambda>k. k\<lparr>cn_ready := Open\<rparr>)))
     (bindE (getsE id) (\<lambda>s. case gs_join s of
        None \<Rightarrow> throwE ''TypeError''
      | Some t \<Rightarrow> (case writeGatewayJoin e t token of
            Inl err \<Rightarrow> throwE err
          | Inr payload \<Rightarrow>
              thenE (sendInput c payload (cn_epoch (gs_conns s c)) 0)
                (modifyE (on_conn c (\<lambda>k. k\<lparr>cn_promise := Waiting\<rparr>))))))"

definition settle :: "nat \<Rightarrow> preparation_state \<Rightarrow> gsession \<Rightarrow> gsession" where
  "settle c p = on_conn c (\<lambda>k. if cn_promise k = Waiting then k\<lparr>cn_promise := p\<rparr> else k)"

definition reject_candidate :: "nat \<Rightarrow> string \<Rightarrow> gsession \<Rightarrow> gsession" where
  "reject_candidate c reason s = close_socket c (settle c (Rejected reason) s)"

definition forwardCandidateFrame :: "nat \<Rightarrow> view \<Rightarrow> gsession \<Rightarrow> gsession" where
  "forwardCandidateFrame c payload s =
     (if gs_current s \<noteq> Some c \<or> gs_stopped s then s else down_send payload s)"

definition candidate_output :: "nat \<Rightarrow> view \<Rightarrow> gsession \<Rightarrow> gsession" where
  "candidate_output c payload s =
     (let bootstrap = isGatewayResumeBootstrapFrame payload;
          s1 = on_conn c (\<lambda>k. if \<not> bootstrap \<and> length (cn_frames k) < 16
                 then k\<lparr>cn_frames := cn_frames k @ [payload]\<rparr> else k) s;
          s2 = settle c Resolved s1 in
      if cn_committed (gs_conns s2 c) \<and> \<not> bootstrap then forwardCandidateFrame c payload s2 else s2)"

definition candidate_message :: "nat \<Rightarrow> view \<Rightarrow> gsession \<Rightarrow> gsession" where
  "candidate_message c payload s =
     (case decodeGatewayFrame payload of
        Inl _ \<Rightarrow> reject_candidate c ''gateway_candidate_wire_invalid'' s
      | Inr None \<Rightarrow> reject_candidate c ''gateway_candidate_output_unframed'' s
      | Inr (Some (AckFrame epoch sequence tick)) \<Rightarrow>
          if js_eq epoch (cn_epoch (gs_conns s c)) then s\<lparr>gs_inputs := buffer_acknowledge sequence (gs_inputs s)\<rparr> else s
      | Inr (Some (InputFrame _ _ _ _)) \<Rightarrow> reject_candidate c ''gateway_candidate_output_epoch_mismatch'' s
      | Inr (Some (OutputFrame epoch tick output)) \<Rightarrow>
          if \<not> js_eq epoch (cn_epoch (gs_conns s c)) then reject_candidate c ''gateway_candidate_output_epoch_mismatch'' s
          else candidate_output c output s)"

definition candidate_close :: "nat \<Rightarrow> gsession \<Rightarrow> gsession" where
  "candidate_close c s =
     (let s = on_conn c (\<lambda>k. k\<lparr>cn_ready := Closed\<rparr>) s in
      if cn_committed (gs_conns s c) then drop_session 1012 ''active_upstream_closed'' s
      else settle c (Rejected ''gateway_candidate_closed_before_ready'') s)"

definition candidate_error :: "nat \<Rightarrow> gsession \<Rightarrow> gsession" where
  "candidate_error c s =
     (if cn_committed (gs_conns s c) then s
      else settle c (Rejected ''gateway_candidate_failed_before_ready'') s)"

definition candidate_timeout :: "nat \<Rightarrow> gsession \<Rightarrow> gsession" where
  "candidate_timeout c = settle c (Rejected ''gateway_candidate_ready_timeout'')"

section \<open>The cutover of a session\<close>

definition session_freeze :: "gsession \<Rightarrow> gsession" where
  "session_freeze s = s\<lparr>gs_frozen := True\<rparr>"

text \<open>The replay of a commit: it is sent, retained for a rollback, and the verification begins.\<close>

definition replay_to :: "nat \<Rightarrow> jsnum \<Rightarrow> buffered list \<Rightarrow> nat sess" where
  "replay_to c epoch replay =
     thenE (sendEntries c epoch replay)
     (thenE (setRollbackInputs replay)
     (thenE (modifyE (\<lambda>s. add_effect (ReplayedInputs (length replay))
              ((on_conn c (\<lambda>k. k\<lparr>cn_sentThrough := last_sequence_or replay (ib_acknowledged (gs_inputs s))\<rparr>) s)
                 \<lparr>gs_verifying := True, gs_frozen := False\<rparr>)))
      (ret (length replay))))"

definition commitPrepared :: "gateway_route \<Rightarrow> nat sess" where
  "commitPrepared r =
     bindE (getsE id) (\<lambda>s.
       if plays_on r s then ret 0
       else case gs_prepared s of
         None \<Rightarrow> throwE ''gateway_candidate_not_prepared''
       | Some c \<Rightarrow>
           if \<not> same_upstream r c s then throwE ''gateway_candidate_route_conflict''
           else
             thenE (modifyE (\<lambda>s. close_opt (gs_current s)
                      ((on_conn c (\<lambda>k. k\<lparr>cn_committed := True\<rparr>) s)\<lparr>gs_current := Some c, gs_prepared := None\<rparr>)))
             (thenE (modifyE (\<lambda>s. if gs_stopped s then s else fold down_send (cn_frames (gs_conns s c)) s))
             (bindE (getsE (\<lambda>s. mergeRollbackInputs (gs_shadow s) (buffer_replay (gs_inputs s)))) (\<lambda>replay.
              replay_to c (cn_epoch (gs_conns s c)) replay))))"

definition abortPrepared :: "unit sess" where
  "abortPrepared =
     thenE (modifyE (\<lambda>s. (close_opt (gs_prepared s) s)\<lparr>gs_prepared := None, gs_frozen := False\<rparr>))
     (bindE (getsE gs_current) (\<lambda>c. case c of None \<Rightarrow> ret () | Some n \<Rightarrow> flushInputs n))"

definition finalizeVerification :: "gsession \<Rightarrow> gsession" where
  "finalizeVerification s = s\<lparr>gs_verifying := False, gs_shadow := [], gs_shadowBytes := 0\<rparr>"

definition unackedInputs :: "gsession \<Rightarrow> nat" where
  "unackedInputs s = buffer_size (gs_inputs s)"

record continuity =
  ct_downstream :: bool
  ct_upstream :: bool
  ct_epoch :: bool

definition upstream_continuity :: "gateway_route \<Rightarrow> gsession \<Rightarrow> continuity" where
  "upstream_continuity r s = \<lparr>ct_downstream = (\<not> gs_stopped s \<and> \<not> gs_closed s),
     ct_upstream = (case gs_current s of None \<Rightarrow> False | Some c \<Rightarrow> is_open c s \<and> cn_endpoint (gs_conns s c) = gr_endpoint r),
     ct_epoch = (case gs_current s of None \<Rightarrow> False | Some c \<Rightarrow> js_eq (cn_epoch (gs_conns s c)) (gr_epoch r))\<rparr>"

end
