(* ===== verification/GatewayRooms.thy ===== *)
theory GatewayRooms
  imports GatewaySession
begin

text \<open>
  The rooms of the gateway (\<open>server/src/opsia/sessionGateway.ts\<close>): its tables of sessions, preparations,
  verifications and cutover operations, its ledger of events, and the operations on a room: freeze, abort,
  cutover, verify, finalize, with the admission and the close of browsers.  A session is referred to by its
  id, and stays reachable for a request that has selected it after it has left the table of live sessions.

  A request is taken after the conversion of its JSON body; the environment (limits, \<open>URL\<close>, the ids
  \<open>randomUUID\<close> draws, the text of a time) is a record of parameters.
\<close>

section \<open>The ledger\<close>

datatype gateway_subject = RoomEpochFenced | RoomGatewayCutover | RoomInputReplayCompleted | RoomHandoffFailed

record ledger_event =
  le_id :: string
  le_subject :: gateway_subject
  le_operation :: string
  le_causation :: "string option"
  le_sequence :: nat
  le_cursor :: nat
  le_payload :: obj

record event_ledger =
  el_events :: "ledger_event list"
  el_sequences :: "(string \<times> nat) list"
  el_tails :: "(string \<times> string) list"
  el_nextCursor :: nat

record 'u gateway_env =
  ge_url :: "'u url_api"
  ge_prepareTimeout :: jsnum
  ge_verificationTimeout :: jsnum
  ge_allowUnprepared :: bool
  ge_workspace :: string
  ge_cluster :: string
  ge_namespace :: string
  ge_uuid :: "nat \<Rightarrow> string"
  ge_iso :: "int \<Rightarrow> string"

definition new_ledger :: event_ledger where
  "new_ledger = \<lparr>el_events = [], el_sequences = [], el_tails = [], el_nextCursor = 1\<rparr>"

text \<open>The ledger keeps the last 2000 events.\<close>

definition ledger_emit :: "'u gateway_env \<Rightarrow> int \<Rightarrow> gateway_subject \<Rightarrow> string \<Rightarrow> obj \<Rightarrow> event_ledger \<Rightarrow> event_ledger" where
  "ledger_emit c now subject operationId payload l =
     (let sequence = (case map_of (el_sequences l) operationId of None \<Rightarrow> 0 | Some n \<Rightarrow> n) + 1;
          event = \<lparr>le_id = ''evt_'' @ ge_uuid c (el_nextCursor l), le_subject = subject, le_operation = operationId,
            le_causation = map_of (el_tails l) operationId, le_sequence = sequence, le_cursor = el_nextCursor l,
            le_payload = ospread payload [(''operation_id'', JStr operationId), (''operation_sequence'', JNum (js_int (int sequence))),
              (''workspace_id'', JStr (ge_workspace c)), (''observed_at'', JStr (ge_iso c now))]\<rparr>;
          events = el_events l @ [event] in
      \<lparr>el_events = drop (length events - 2000) events, el_sequences = oput operationId sequence (el_sequences l),
       el_tails = oput operationId (le_id event) (el_tails l), el_nextCursor = el_nextCursor l + 1\<rparr>)"

definition ledger_after :: "nat \<Rightarrow> event_ledger \<Rightarrow> ledger_event list" where
  "ledger_after cursor l = take 500 (filter (\<lambda>e. cursor < le_cursor e) (el_events l))"

section \<open>The tables\<close>

record room_preparation =
  rp_operationId :: string
  rp_roomId :: string
  rp_expectedEpoch :: jsnum
  rp_supersedes :: "string option"
  rp_sessionIds :: "string list"
  rp_unackedInputs :: nat
  rp_startedAt :: int

record room_verification =
  rv_operationId :: string
  rv_roomId :: string
  rv_epoch :: jsnum
  rv_sessionIds :: "string list"
  rv_startedAt :: int

datatype cutover_status = CutoverPreparing | RegistryCommitted | CutoverDone | CutoverFailed

record cutover_op =
  co_operationId :: string
  co_roomId :: string
  co_expectedEpoch :: jsnum
  co_nextEpoch :: jsnum
  co_endpoint :: string
  co_revision :: "string option"
  co_status :: cutover_status
  co_sessionIds :: "string list"
  co_replayedInputs :: nat
  co_failure :: "string option"
  co_startedAt :: int
  co_updatedAt :: int

record gateway =
  gw_routes :: routes
  gw_session :: "string \<Rightarrow> gsession"
  gw_live :: "string list"
  gw_preparations :: "(string \<times> room_preparation) list"
  gw_verifications :: "(string \<times> room_verification) list"
  gw_operations :: "(string \<times> cutover_op) list"
  gw_ledger :: event_ledger
  gw_switches :: nat
  gw_failures :: nat

type_synonym 'a gate = "(gateway, string, 'a) eff"

definition operationKey :: "string \<Rightarrow> string \<Rightarrow> string" where
  "operationKey roomId operationId = roomId @ CHR '':'' # operationId"

definition on_session :: "string \<Rightarrow> 'a sess \<Rightarrow> 'a gate" where
  "on_session i m = zoomE (\<lambda>g. gw_session g i) (\<lambda>s g. g\<lparr>gw_session := (gw_session g)(i := s)\<rparr>) m"

definition room_of :: "gateway \<Rightarrow> string \<Rightarrow> string" where
  "room_of g i = sd_roomId (gs_data (gw_session g i))"

text \<open>\<open>[...sessions.values()].filter((session) => session.data.roomId === roomId)\<close>, by their ids.\<close>

definition room_sessions :: "string \<Rightarrow> gateway \<Rightarrow> string list" where
  "room_sessions roomId g = filter (\<lambda>i. room_of g i = roomId) (gw_live g)"

definition emitE :: "'u gateway_env \<Rightarrow> int \<Rightarrow> gateway_subject \<Rightarrow> string \<Rightarrow> obj \<Rightarrow> unit gate" where
  "emitE c now subject operationId payload =
     modifyE (\<lambda>g. g\<lparr>gw_ledger := ledger_emit c now subject operationId payload (gw_ledger g)\<rparr>)"

definition room_payload :: "'u gateway_env \<Rightarrow> string \<Rightarrow> jsnum \<Rightarrow> obj" where
  "room_payload c roomId epoch = [(''cluster_id'', JStr (ge_cluster c)), (''namespace'', JStr (ge_namespace c)),
     (''room_id'', JStr roomId), (''room_epoch'', JNum epoch)]"

definition js_nat :: "nat \<Rightarrow> jv" where
  "js_nat n = JNum (js_int (int n))"

text \<open>A string that is given and not empty.\<close>

definition given :: "string option \<Rightarrow> bool" where
  "given x = (x \<noteq> None \<and> x \<noteq> Some [])"

section \<open>Preparations\<close>

definition takePreparation :: "string \<Rightarrow> gateway \<Rightarrow> gateway" where
  "takePreparation roomId g = g\<lparr>gw_preparations := odel roomId (gw_preparations g)\<rparr>"

fun resume_each :: "string list \<Rightarrow> nat gate" where
  "resume_each [] = ret 0"
| "resume_each (i # ids) =
     bindE (getsE (\<lambda>g. i \<in> set (gw_live g))) (\<lambda>present.
       if present then thenE (on_session i abortPrepared) (bindE (resume_each ids) (\<lambda>n. ret (n + 1)))
       else resume_each ids)"

definition abortRoomPreparation :: "string \<Rightarrow> string option \<Rightarrow> nat gate" where
  "abortRoomPreparation roomId operationId =
     bindE (getsE (\<lambda>g. map_of (gw_preparations g) roomId)) (\<lambda>p. case p of
         None \<Rightarrow> ret 0
       | Some p \<Rightarrow>
           if given operationId \<and> Some (rp_operationId p) \<noteq> operationId then throwE ''gateway_preparation_operation_conflict''
           else thenE (modifyE (takePreparation roomId)) (resume_each (rp_sessionIds p)))"

text \<open>The timer of a preparation.\<close>

definition preparation_timeout :: "'u gateway_env \<Rightarrow> int \<Rightarrow> room_preparation \<Rightarrow> unit gate" where
  "preparation_timeout c now p =
     bindE (abortRoomPreparation (rp_roomId p) (Some (rp_operationId p))) (\<lambda>resumed.
     thenE (modifyE (\<lambda>g. g\<lparr>gw_failures := gw_failures g + 1\<rparr>))
     (emitE c now RoomHandoffFailed (rp_operationId p) (room_payload c (rp_roomId p) (rp_expectedEpoch p) @
        [(''status'', JStr ''failed''), (''reason_code'', JStr ''gateway_preparation_timeout''),
         (''rollback'', JStr ''active_resumed''), (''sessions'', js_nat resumed)])))"

definition preparation_intent :: "room_preparation \<Rightarrow> freeze_intent" where
  "preparation_intent p = \<lparr>fi_operationId = rp_operationId p, fi_expectedEpoch = rp_expectedEpoch p, fi_supersedes = rp_supersedes p\<rparr>"

definition retire_verification :: "string \<Rightarrow> string \<Rightarrow> string option \<Rightarrow> unit gate" where
  "retire_verification roomId operationId supersedes =
     bindE (getsE (\<lambda>g. map_of (gw_verifications g) roomId)) (\<lambda>v. case v of
         None \<Rightarrow> ret ()
       | Some v \<Rightarrow>
           if rv_operationId v = operationId then ret ()
           else if \<not> given supersedes \<or> Some (rv_operationId v) \<noteq> supersedes then throwE ''gateway_room_verification_in_progress''
           else modifyE (\<lambda>g. g\<lparr>gw_verifications := odel roomId (gw_verifications g)\<rparr>))"

definition timeout_in :: "int \<Rightarrow> int \<Rightarrow> jsnum \<Rightarrow> bool" where
  "timeout_in lo hi t = (is_safe_integer t \<and> lo \<le> int_of_jsnum t \<and> int_of_jsnum t \<le> hi)"

definition freeze_selected :: "'u gateway_env \<Rightarrow> int \<Rightarrow> string \<Rightarrow> string \<Rightarrow> jsnum \<Rightarrow> string option \<Rightarrow> (nat \<times> nat) gate" where
  "freeze_selected c now roomId operationId expectedEpoch supersedes =
     bindE (getsE (room_sessions roomId)) (\<lambda>selected.
     thenE (forE selected (\<lambda>i. on_session i (modifyE session_freeze)))
     (bindE (getsE (\<lambda>g. sum_list (map (\<lambda>i. unackedInputs (gw_session g i)) selected))) (\<lambda>unacked.
       if \<not> timeout_in 2000 60000 (ge_prepareTimeout c)
       then thenE (forE selected (\<lambda>i. on_session i abortPrepared)) (throwE ''gateway_prepare_timeout_invalid'')
       else thenE (modifyE (\<lambda>g. g\<lparr>gw_preparations := oput roomId
                \<lparr>rp_operationId = operationId, rp_roomId = roomId, rp_expectedEpoch = expectedEpoch, rp_supersedes = supersedes,
                 rp_sessionIds = selected, rp_unackedInputs = unacked, rp_startedAt = now\<rparr> (gw_preparations g)\<rparr>))
             (ret (length selected, unacked)))))"

definition freezeRoom :: "'u gateway_env \<Rightarrow> int \<Rightarrow> string \<Rightarrow> string \<Rightarrow> jsnum \<Rightarrow> string option \<Rightarrow> (nat \<times> nat) gate" where
  "freezeRoom c now roomId operationId expectedEpoch supersedes =
     bindE (getsE id) (\<lambda>g. case map_of (gw_routes g) roomId of
         None \<Rightarrow> throwE ''gateway_room_not_found''
       | Some route \<Rightarrow>
           if \<not> js_eq (gr_epoch route) expectedEpoch then throwE ''gateway_epoch_conflict''
           else if operationId = [] then throwE ''gateway_operation_id_required''
           else case map_of (gw_preparations g) roomId of
             Some p \<Rightarrow>
               if \<not> sameGatewayFreezeIntent (preparation_intent p)
                     \<lparr>fi_operationId = operationId, fi_expectedEpoch = expectedEpoch, fi_supersedes = supersedes\<rparr>
               then throwE (if rp_operationId p = operationId then ''gateway_freeze_request_conflict''
                            else ''gateway_room_preparation_in_progress'')
               else ret (length (rp_sessionIds p), rp_unackedInputs p)
           | None \<Rightarrow>
               thenE (retire_verification roomId operationId supersedes)
                 (freeze_selected c now roomId operationId expectedEpoch supersedes))"

section \<open>Verification\<close>

record verification_view =
  vv_sessions :: nat
  vv_liveSessions :: nat
  vv_upstreamSessions :: nat
  vv_epochSessions :: nat
  vv_replayInputs :: nat
  vv_continuous :: bool
  vv_reason :: string

text \<open>The sessions of a verification that are live and satisfy a part of their continuity.\<close>

definition continuous_sessions :: "(continuity \<Rightarrow> bool) \<Rightarrow> room_verification \<Rightarrow> gateway \<Rightarrow> nat" where
  "continuous_sessions part v g = (case map_of (gw_routes g) (rv_roomId v) of
       None \<Rightarrow> 0
     | Some route \<Rightarrow> length (filter (\<lambda>i. i \<in> set (gw_live g) \<and> part (upstream_continuity route (gw_session g i))) (rv_sessionIds v)))"

definition verification_inputs :: "string list \<Rightarrow> gateway \<Rightarrow> nat" where
  "verification_inputs ids g = sum_list (map (\<lambda>i. if i \<in> set (gw_live g) then length (gs_shadow (gw_session g i)) else 0) ids)"

definition verification_stale :: "'u gateway_env \<Rightarrow> int \<Rightarrow> room_verification \<Rightarrow> bool" where
  "verification_stale c now v =
     (\<not> timeout_in 1000 120000 (ge_verificationTimeout c) \<or> int_of_jsnum (ge_verificationTimeout c) < now - rv_startedAt v)"

definition roomVerificationView :: "'u gateway_env \<Rightarrow> int \<Rightarrow> room_verification \<Rightarrow> gateway \<Rightarrow> verification_view" where
  "roomVerificationView c now v g =
     (let stale = verification_stale c now v;
          live = continuous_sessions ct_downstream v g;
          upstream = continuous_sessions ct_upstream v g;
          epoch = continuous_sessions ct_epoch v g;
          expected = length (rv_sessionIds v);
          matches = (case map_of (gw_routes g) (rv_roomId v) of None \<Rightarrow> False | Some r \<Rightarrow> js_eq (gr_epoch r) (rv_epoch v)) in
      \<lparr>vv_sessions = expected, vv_liveSessions = live, vv_upstreamSessions = upstream, vv_epochSessions = epoch,
       vv_replayInputs = verification_inputs (rv_sessionIds v) g,
       vv_continuous = (\<not> stale \<and> matches \<and> live = expected \<and> upstream = expected \<and> epoch = expected),
       vv_reason = (if stale then ''verification_stale'' else if \<not> matches then ''gateway_route_changed''
         else if live \<noteq> expected then ''downstream_session_closed'' else if upstream \<noteq> expected then ''upstream_session_closed''
         else if epoch \<noteq> expected then ''session_epoch_mismatch'' else ''ok'')\<rparr>)"

fun finalize_each :: "string list \<Rightarrow> (nat \<times> nat) gate" where
  "finalize_each [] = ret (0, 0)"
| "finalize_each (i # ids) =
     bindE (getsE (\<lambda>g. (i \<in> set (gw_live g), length (gs_shadow (gw_session g i))))) (\<lambda>(present, n).
       if present then thenE (on_session i (modifyE finalizeVerification))
                         (bindE (finalize_each ids) (\<lambda>(k, m). ret (k + 1, n + m)))
       else finalize_each ids)"

definition finalizeRoomVerification :: "'u gateway_env \<Rightarrow> int \<Rightarrow> string \<Rightarrow> string \<Rightarrow> (nat \<times> nat) gate" where
  "finalizeRoomVerification c now roomId operationId =
     bindE (getsE id) (\<lambda>g. case map_of (gw_verifications g) roomId of
         None \<Rightarrow> ret (0, 0)
       | Some v \<Rightarrow>
           if rv_operationId v \<noteq> operationId then throwE ''gateway_verification_operation_conflict''
           else let proof' = roomVerificationView c now v g in
             if \<not> vv_continuous proof' then throwE (''gateway_session_continuity_invalid:'' @ vv_reason proof')
             else bindE (finalize_each (rv_sessionIds v)) (\<lambda>r.
                    thenE (modifyE (\<lambda>g. g\<lparr>gw_verifications := odel roomId (gw_verifications g)\<rparr>)) (ret r)))"

end
