(* ===== verification/GatewayRoomCutover.thy ===== *)
theory GatewayRoomCutover
  imports GatewayRooms
begin

text \<open>
  \<open>cutoverRoom\<close> of \<open>server/src/opsia/sessionGateway.ts\<close>, cut at its one \<open>await\<close>: the request is admitted and
  checked, the sessions prepare their candidates (their own events), and the request goes on when all have
  or fails when one has not.  With it the browsers' sockets: upgrade, open and close.
\<close>

section \<open>The request\<close>

record room_cutover_request =
  cq_expectedEpoch :: jsnum
  cq_nextEpoch :: jsnum
  cq_endpoint :: string
  cq_revision :: "string option"
  cq_operationId :: string
  cq_checksumMatched :: bool
  cq_caughtUp :: bool

record cutover_answer =
  ca_operationId :: string
  ca_route :: "gateway_route option"
  ca_sessions :: nat
  ca_replayedInputs :: nat
  ca_status :: cutover_status

text \<open>What a request that waits for its sessions holds: whether the room was prepared, the sessions, the epoch it saw.\<close>

record cutover_run =
  cr_room :: string
  cr_request :: room_cutover_request
  cr_prepared :: bool
  cr_selected :: "string list"
  cr_epoch :: jsnum

definition run_key :: "cutover_run \<Rightarrow> string" where
  "run_key r = operationKey (cr_room r) (cq_operationId (cr_request r))"

definition same_request :: "room_cutover_request \<Rightarrow> cutover_op \<Rightarrow> bool" where
  "same_request q o' = (js_eq (co_expectedEpoch o') (cq_expectedEpoch q) \<and> js_eq (co_nextEpoch o') (cq_nextEpoch q)
     \<and> co_endpoint o' = cq_endpoint q \<and> co_revision o' = cq_revision q)"

definition new_operation :: "int \<Rightarrow> string \<Rightarrow> room_cutover_request \<Rightarrow> string list \<Rightarrow> cutover_op" where
  "new_operation now roomId q ids = \<lparr>co_operationId = cq_operationId q, co_roomId = roomId, co_expectedEpoch = cq_expectedEpoch q,
     co_nextEpoch = cq_nextEpoch q, co_endpoint = cq_endpoint q, co_revision = cq_revision q, co_status = CutoverPreparing,
     co_sessionIds = ids, co_replayedInputs = 0, co_failure = None, co_startedAt = now, co_updatedAt = now\<rparr>"

definition operation_of :: "cutover_run \<Rightarrow> gateway \<Rightarrow> cutover_op" where
  "operation_of r g = (case map_of (gw_operations g) (run_key r) of
     Some o' \<Rightarrow> o' | None \<Rightarrow> new_operation 0 (cr_room r) (cr_request r) [])"

definition set_operation :: "string \<Rightarrow> cutover_op \<Rightarrow> gateway \<Rightarrow> gateway" where
  "set_operation key o' g = g\<lparr>gw_operations := oput key o' (gw_operations g)\<rparr>"

definition on_operation :: "cutover_run \<Rightarrow> (cutover_op \<Rightarrow> cutover_op) \<Rightarrow> unit gate" where
  "on_operation r f = modifyE (\<lambda>g. set_operation (run_key r) (f (operation_of r g)) g)"

text \<open>The operation, made or found, and its sessions.\<close>

definition cutover_enroll ::
  "int \<Rightarrow> string \<Rightarrow> room_cutover_request \<Rightarrow> cutover_op option \<Rightarrow> jsnum \<Rightarrow> cutover_run gate" where
  "cutover_enroll now roomId q existing epoch =
     bindE (getsE id) (\<lambda>g.
       let preparation = map_of (gw_preparations g) roomId in
       if (case preparation of None \<Rightarrow> False | Some p \<Rightarrow> rp_operationId p \<noteq> cq_operationId q) then throwE ''gateway_preparation_operation_conflict''
       else if (case preparation of None \<Rightarrow> False | Some p \<Rightarrow> \<not> js_eq (rp_expectedEpoch p) (cq_expectedEpoch q))
       then throwE ''gateway_preparation_epoch_conflict''
       else
         let initially = (case preparation of
               Some p \<Rightarrow> filter (\<lambda>i. i \<in> set (gw_live g)) (rp_sessionIds p)
             | None \<Rightarrow> room_sessions roomId g);
             operation = (case existing of Some o' \<Rightarrow> o' | None \<Rightarrow> new_operation now roomId q initially) in
         thenE (modifyE (set_operation (operationKey roomId (cq_operationId q)) operation))
         (ret \<lparr>cr_room = roomId, cr_request = q, cr_prepared = (preparation \<noteq> None),
               cr_selected = filter (\<lambda>i. i \<in> set (gw_live g)) (co_sessionIds operation), cr_epoch = epoch\<rparr>))"

text \<open>Up to the \<open>try\<close>: an answer that is known already, or a run of the operation.\<close>

definition cutover_admit :: "int \<Rightarrow> string \<Rightarrow> room_cutover_request \<Rightarrow> (cutover_answer + cutover_run) gate" where
  "cutover_admit now roomId q =
     bindE (getsE id) (\<lambda>g. case map_of (gw_routes g) roomId of
         None \<Rightarrow> throwE ''gateway_room_not_found''
       | Some current \<Rightarrow>
           (case map_of (gw_operations g) (operationKey roomId (cq_operationId q)) of
              None \<Rightarrow> bindE (cutover_enroll now roomId q None (gr_epoch current)) (\<lambda>r. ret (Inr r))
            | Some o' \<Rightarrow>
                if \<not> same_request q o' then throwE ''gateway_operation_request_conflict''
                else if co_status o' = CutoverDone
                then ret (Inl \<lparr>ca_operationId = cq_operationId q, ca_route = Some current, ca_sessions = length (co_sessionIds o'),
                               ca_replayedInputs = co_replayedInputs o', ca_status = CutoverDone\<rparr>)
                else if co_status o' = CutoverFailed
                then throwE (case co_failure o' of None \<Rightarrow> ''gateway_cutover_failed'' | Some m \<Rightarrow> m)
                else bindE (cutover_enroll now roomId q (Some o') (gr_epoch current)) (\<lambda>r. ret (Inr r))))"

section \<open>Failure\<close>

text \<open>The \<open>catch\<close>: the active upstreams resume unless the registry has the new route already.\<close>

definition cutover_failed :: "'u gateway_env \<Rightarrow> int \<Rightarrow> cutover_run \<Rightarrow> string \<Rightarrow> 'a gate" where
  "cutover_failed c now r reason =
     thenE (on_operation r (\<lambda>o'. o'\<lparr>co_failure := Some reason, co_updatedAt := now\<rparr>))
     (bindE (getsE (\<lambda>g. co_status (operation_of r g))) (\<lambda>status.
      thenE (if status \<noteq> RegistryCommitted
             then thenE (on_operation r (\<lambda>o'. o'\<lparr>co_status := CutoverFailed\<rparr>))
                    (thenE (forE (cr_selected r) (\<lambda>i. on_session i abortPrepared)) (modifyE (takePreparation (cr_room r))))
             else ret ())
     (thenE (modifyE (\<lambda>g. g\<lparr>gw_failures := gw_failures g + 1\<rparr>))
     (thenE (emitE c now RoomHandoffFailed (cq_operationId (cr_request r))
               ([(''operation_id'', JStr (cq_operationId (cr_request r)))] @ room_payload c (cr_room r) (cr_epoch r) @
                [(''status'', JStr ''failed''), (''reason_code'', JStr reason),
                 (''rollback'', JStr (if status = RegistryCommitted then ''candidate_retained'' else ''active_preserved''))]))
      (throwE reason)))))"

section \<open>The two halves\<close>

definition cutover_checks :: "'u gateway_env \<Rightarrow> cutover_run \<Rightarrow> unit gate" where
  "cutover_checks c r =
     bindE (getsE (operation_of r)) (\<lambda>operation.
     thenE (guardE (cr_prepared r \<or> co_status operation = RegistryCommitted \<or> ge_allowUnprepared c) ''gateway_room_not_frozen'')
     (thenE (guardE (cq_checksumMatched (cr_request r)) ''gateway_checksum_not_verified'')
     (thenE (guardE (cq_caughtUp (cr_request r)) ''gateway_candidate_not_caught_up'')
     (guardE (length (cr_selected r) = length (co_sessionIds operation)) ''gateway_session_continuity_lost_before_cutover''))))"

definition cutover_begin :: "'u gateway_env \<Rightarrow> int \<Rightarrow> string \<Rightarrow> room_cutover_request \<Rightarrow> (cutover_answer + cutover_run) gate" where
  "cutover_begin c now roomId q =
     bindE (cutover_admit now roomId q) (\<lambda>x. case x of
         Inl a \<Rightarrow> ret (Inl a)
       | Inr r \<Rightarrow> thenE (catchE (cutover_checks c r) (cutover_failed c now r)) (ret (Inr r)))"

text \<open>The registry takes the new route, or has it from an earlier attempt.\<close>

definition cutover_route :: "'u gateway_env \<Rightarrow> int \<Rightarrow> cutover_run \<Rightarrow> gateway_route gate" where
  "cutover_route c now r =
     (let q = cr_request r in
      bindE (getsE gw_routes) (\<lambda>routes. case map_of routes (cr_room r) of
          None \<Rightarrow> throwE ''TypeError''
        | Some route \<Rightarrow>
            if js_eq (gr_epoch route) (cq_expectedEpoch q)
            then (case compareAndSwap (ge_url c) (cr_room r) (cq_expectedEpoch q) (cq_endpoint q) (cq_nextEpoch q) (cq_revision q) routes of
                    Inl e \<Rightarrow> throwE e
                  | Inr (n, routes') \<Rightarrow>
                      thenE (modifyE (\<lambda>g. g\<lparr>gw_routes := routes'\<rparr>))
                      (thenE (emitE c now RoomEpochFenced (cq_operationId q)
                               ([(''operation_id'', JStr (cq_operationId q))] @ room_payload c (cr_room r) (gr_epoch n) @
                                [(''git_revision'', opt_str (cq_revision q)), (''status'', JStr ''completed'')]))
                       (ret n)))
            else if \<not> js_eq (gr_epoch route) (cq_nextEpoch q) then throwE ''gateway_epoch_conflict''
            else (case ua_parse (ge_url c) (cq_endpoint q) of
                    None \<Rightarrow> throwE ''Invalid URL''
                  | Some u \<Rightarrow> if gr_endpoint route \<noteq> drop_slash (ua_toString (ge_url c) u) then throwE ''gateway_epoch_conflict'' else ret route)))"

text \<open>The commits, one session after the other; the count is kept as it grows.\<close>

fun commit_each :: "cutover_run \<Rightarrow> gateway_route \<Rightarrow> string list \<Rightarrow> unit gate" where
  "commit_each r route [] = ret ()"
| "commit_each r route (i # ids) =
     bindE (on_session i (commitPrepared route)) (\<lambda>n.
     thenE (on_operation r (\<lambda>o'. o'\<lparr>co_replayedInputs := co_replayedInputs o' + n\<rparr>))
     (commit_each r route ids))"

text \<open>What is recorded once every session is committed.\<close>

definition cutover_conclude :: "'u gateway_env \<Rightarrow> int \<Rightarrow> cutover_run \<Rightarrow> gateway_route \<Rightarrow> cutover_answer gate" where
  "cutover_conclude c now r next' =
     (let q = cr_request r in
      thenE (modifyE (\<lambda>g. g\<lparr>gw_verifications := oput (cr_room r)
               \<lparr>rv_operationId = cq_operationId q, rv_roomId = cr_room r, rv_epoch = gr_epoch next', rv_sessionIds = cr_selected r,
                rv_startedAt = now\<rparr> (gw_verifications g)\<rparr>))
     (thenE (on_operation r (\<lambda>o'. o'\<lparr>co_status := CutoverDone, co_failure := None, co_updatedAt := now\<rparr>))
     (bindE (getsE (\<lambda>g. co_replayedInputs (operation_of r g))) (\<lambda>replayed.
      thenE (modifyE (\<lambda>g. g\<lparr>gw_switches := gw_switches g + 1\<rparr>))
     (thenE (emitE c now RoomGatewayCutover (cq_operationId q)
               ([(''operation_id'', JStr (cq_operationId q))] @ room_payload c (cr_room r) (gr_epoch next') @
                [(''sessions'', js_nat (length (cr_selected r))), (''status'', JStr ''completed'')]))
     (thenE (emitE c now RoomInputReplayCompleted (cq_operationId q)
               ([(''operation_id'', JStr (cq_operationId q))] @ room_payload c (cr_room r) (gr_epoch next') @
                [(''replayed_inputs'', js_nat replayed), (''status'', JStr ''completed'')]))
      (ret \<lparr>ca_operationId = cq_operationId q, ca_route = Some next', ca_sessions = length (cr_selected r),
            ca_replayedInputs = replayed, ca_status = CutoverDone\<rparr>)))))))"

definition cutover_commit :: "'u gateway_env \<Rightarrow> int \<Rightarrow> cutover_run \<Rightarrow> cutover_answer gate" where
  "cutover_commit c now r =
     bindE (getsE (\<lambda>g. co_status (operation_of r g))) (\<lambda>status.
      thenE (if \<not> cr_prepared r \<and> status \<noteq> RegistryCommitted
             then forE (cr_selected r) (\<lambda>i. on_session i (modifyE session_freeze)) else ret ())
     (bindE (cutover_route c now r) (\<lambda>next'.
      thenE (on_operation r (\<lambda>o'. o'\<lparr>co_status := RegistryCommitted, co_updatedAt := now\<rparr>))
     (thenE (modifyE (takePreparation (cr_room r)))
     (thenE (commit_each r next' (cr_selected r))
      (cutover_conclude c now r next'))))))"

text \<open>All candidates are prepared, or one is not.\<close>

definition cutover_resume :: "'u gateway_env \<Rightarrow> int \<Rightarrow> cutover_run \<Rightarrow> cutover_answer gate" where
  "cutover_resume c now r = catchE (cutover_commit c now r) (cutover_failed c now r)"

definition cutover_rejected :: "'u gateway_env \<Rightarrow> int \<Rightarrow> cutover_run \<Rightarrow> string \<Rightarrow> cutover_answer gate" where
  "cutover_rejected c now r reason = cutover_failed c now r reason"

section \<open>Browsers\<close>

datatype upgrade_answer = Upgraded socket_data | Refused nat string

definition browser_upgrade :: "string \<Rightarrow> string option \<Rightarrow> string \<Rightarrow> string \<Rightarrow> gateway \<Rightarrow> upgrade_answer" where
  "browser_upgrade uuid room gameId sessionId g =
     (case room of
        None \<Rightarrow> Refused 400 ''invalid_gateway_session''
      | Some roomId \<Rightarrow>
          if map_of (gw_routes g) roomId = None \<or> gameId = [] \<or> length sessionId < 16 \<or> 128 < length sessionId
          then Refused 400 ''invalid_gateway_session''
          else if map_of (gw_preparations g) roomId \<noteq> None \<or> map_of (gw_verifications g) roomId \<noteq> None
          then Refused 503 ''room_handoff_in_progress''
          else Upgraded \<lparr>sd_id = uuid, sd_roomId = roomId, sd_sessionId = sessionId, sd_gameId = gameId\<rparr>)"

definition browser_open :: "socket_data \<Rightarrow> input_buffer \<Rightarrow> gateway \<Rightarrow> gateway" where
  "browser_open d b g = (case map_of (gw_routes g) (sd_roomId d) of
       None \<Rightarrow> g
     | Some route \<Rightarrow> g\<lparr>gw_session := (gw_session g)(sd_id d := start_begin (gr_epoch route) (gr_endpoint route) (new_session d b)),
                       gw_live := gw_live g @ [sd_id d]\<rparr>)"

definition browser_close :: "string \<Rightarrow> gateway \<Rightarrow> gateway" where
  "browser_close i g =
     (if i \<in> set (gw_live g)
      then g\<lparr>gw_session := (gw_session g)(i := downstream_close (gw_session g i)), gw_live := filter (\<lambda>j. j \<noteq> i) (gw_live g)\<rparr>
      else g)"

definition browser_start_failed :: "string \<Rightarrow> gateway \<Rightarrow> gateway" where
  "browser_start_failed i g =
     g\<lparr>gw_session := (gw_session g)(i := start_failed (gw_session g i)), gw_live := filter (\<lambda>j. j \<noteq> i) (gw_live g)\<rparr>"

end
