(* ===== verification/GatewaySessionFacts.thy ===== *)
theory GatewaySessionFacts
  imports GatewaySession
begin

text \<open>
  What a session guarantees in every order of its events: what is on the wire of an upstream, in terms of
  the log its input buffer implements, and what a cutover replays.
\<close>

section \<open>Inputs on a wire\<close>

text \<open>The number and the bytes of an input frame; sequence 0 is the join.\<close>

definition input_of :: "view \<Rightarrow> (int \<times> view) option" where
  "input_of w = (case decodeGatewayFrame w of
     Inr (Some (InputFrame epoch sequence tick payload)) \<Rightarrow>
       if int_of_jsnum sequence = 0 then None else Some (int_of_jsnum sequence, payload)
   | _ \<Rightarrow> None)"

definition wire_inputs :: "connection \<Rightarrow> (int \<times> view) list" where
  "wire_inputs k = List.map_filter input_of (cn_wire k)"

definition entry_of :: "view list \<Rightarrow> nat \<Rightarrow> int \<times> view" where
  "entry_of ps i = (int i + 1, ps ! i)"

definition input_frame :: "jsnum \<Rightarrow> 32 word \<Rightarrow> int \<Rightarrow> view \<Rightarrow> view" where
  "input_frame epoch tick sequence payload =
     frame_bytes (InputFrame epoch (js_int sequence) (js_int (uint tick)) payload)"

lemma wire_inputs_append [simp]:
  "wire_inputs (k\<lparr>cn_wire := cn_wire k @ ws\<rparr>) = wire_inputs k @ List.map_filter input_of ws"
  by (simp add: wire_inputs_def map_filter_def)

lemma tick_ok [simp]: "field_ok (js_int (uint (tick :: 32 word)))"
  using unsigned_less [of tick, where ?'a = int] unsigned_greater_eq [of tick, where ?'a = int]
  by (auto simp: field_ok_def)

definition sequence_in_range :: "int \<Rightarrow> bool" where
  "sequence_in_range n = (0 \<le> n \<and> n \<le> MAX_SAFE)"

lemma sequence_ok_range [simp]: "sequence_ok (js_int n) \<longleftrightarrow> sequence_in_range n"
  by (auto simp: sequence_ok_def sequence_in_range_def safe_int_def)

lemma encode_input:
  assumes "field_ok epoch" and "sequence_in_range n"
  shows "encodeGatewayInput epoch (js_int n) (js_int (uint (tick :: 32 word))) payload = Inr (input_frame epoch tick n payload)"
  using encodeFrame_Inr [of "InputFrame epoch (js_int n) (js_int (uint tick)) payload"] assms
  by (simp add: input_frame_def)

lemma input_of_frame:
  assumes "field_ok epoch" and "sequence_in_range n"
  shows "input_of (input_frame epoch tick n payload) = (if n = 0 then None else Some (n, payload))"
  using decode_bytes [of "InputFrame epoch (js_int n) (js_int (uint tick)) payload"] assms
  by (simp add: input_of_def input_frame_def)

text \<open>What \<open>sendInput\<close> does: it never throws when the epoch fits the wire.\<close>

definition put_wire :: "nat \<Rightarrow> view list \<Rightarrow> gsession \<Rightarrow> gsession" where
  "put_wire c ws s = (if is_open c s then on_conn c (\<lambda>k. k\<lparr>cn_wire := cn_wire k @ ws\<rparr>) s else s)"

lemma put_wire_Nil [simp]: "put_wire c [] s = s"
  by (simp add: put_wire_def on_conn_def)

lemma put_wire_put [simp]: "put_wire c vs (put_wire c ws s) = put_wire c (ws @ vs) s"
  by (simp add: put_wire_def on_conn_def is_open_def)

lemma put_wire_simps [simp]:
  "gs_data (put_wire c ws s) = gs_data s" "gs_inputs (put_wire c ws s) = gs_inputs s" "gs_next (put_wire c ws s) = gs_next s"
  "gs_current (put_wire c ws s) = gs_current s" "gs_prepared (put_wire c ws s) = gs_prepared s"
  "gs_join (put_wire c ws s) = gs_join s" "gs_initialJoin (put_wire c ws s) = gs_initialJoin s"
  "gs_frozen (put_wire c ws s) = gs_frozen s" "gs_stopped (put_wire c ws s) = gs_stopped s" "gs_tick (put_wire c ws s) = gs_tick s"
  "gs_shadow (put_wire c ws s) = gs_shadow s" "gs_shadowBytes (put_wire c ws s) = gs_shadowBytes s"
  "gs_verifying (put_wire c ws s) = gs_verifying s" "gs_closed (put_wire c ws s) = gs_closed s"
  "gs_down (put_wire c ws s) = gs_down s" "gs_ended (put_wire c ws s) = gs_ended s" "gs_effects (put_wire c ws s) = gs_effects s"
  by (simp_all add: put_wire_def on_conn_def)

lemma put_wire_other [simp]: "d \<noteq> c \<Longrightarrow> gs_conns (put_wire c ws s) d = gs_conns s d"
  by (simp add: put_wire_def on_conn_def)

lemma sendInput_run:
  assumes "field_ok epoch" and "sequence_in_range n"
  shows "sendInput c payload epoch n s = (Inr (), put_wire c [input_frame epoch (gs_tick s) n payload] s)"
  by (simp add: sendInput_def bindE_def getsE_def encode_input [OF assms] modifyE_def sendBinary_def put_wire_def)

definition frames_of :: "jsnum \<Rightarrow> 32 word \<Rightarrow> buffered list \<Rightarrow> view list" where
  "frames_of epoch tick es = map (\<lambda>e. input_frame epoch tick (bi_sequence e) (bi_payload e)) es"

lemma sendEntries_run:
  assumes "field_ok epoch" and "\<forall>e \<in> set es. sequence_in_range (bi_sequence e)"
  shows "sendEntries c epoch es s = (Inr (), put_wire c (frames_of epoch (gs_tick s) es) s)"
  using assms(2)
proof (induction es arbitrary: s)
  case (Cons e es)
  then have "sendInput c (bi_payload e) epoch (bi_sequence e) s
      = (Inr (), put_wire c [input_frame epoch (gs_tick s) (bi_sequence e) (bi_payload e)] s)"
    by (simp add: sendInput_run [OF assms(1)])
  with Cons show ?case
    by (simp add: sendEntries_def thenE_def bindE_def frames_of_def)
qed (simp add: sendEntries_def ret_def frames_of_def)

lemma frames_inputs:
  assumes "field_ok epoch" and "\<forall>e \<in> set es. sequence_in_range (bi_sequence e) \<and> bi_sequence e \<noteq> 0"
  shows "List.map_filter input_of (frames_of epoch tick es) = map (\<lambda>e. (bi_sequence e, bi_payload e)) es"
  using assms(2) by (induction es) (simp_all add: frames_of_def map_filter_def input_of_frame [OF assms(1)])

section \<open>The invariant\<close>

text \<open>
  \<open>ps\<close> are the accepted inputs, \<open>a\<close> of them acknowledged.  On every wire there is a selection of them
  in order, none beyond what the connection is marked to have been sent.
\<close>

definition wire_ok :: "view list \<Rightarrow> connection \<Rightarrow> bool" where
  "wire_ok ps k = (0 \<le> cn_sentThrough k \<and> cn_sentThrough k \<le> int (length ps)
     \<and> (cn_promise k \<noteq> NotPreparing \<longrightarrow> cn_ready k \<noteq> Connecting)
     \<and> (\<exists>is. sorted_wrt (<) is \<and> (\<forall>i \<in> set is. int i + 1 \<le> cn_sentThrough k) \<and> wire_inputs k = map (entry_of ps) is))"

definition shadow_ok :: "view list \<Rightarrow> nat \<Rightarrow> gsession \<Rightarrow> bool" where
  "shadow_ok ps a s = (\<exists>js. sorted_wrt (<) js \<and> (\<forall>j \<in> set js. j < length ps) \<and> gs_shadow s = map (numbered ps) js
     \<and> int (length js) \<le> ib_maxMessages (gs_inputs s) \<and> gs_shadowBytes s = sum_list (map bi_bytes (gs_shadow s))
     \<and> gs_shadowBytes s \<le> ib_maxBytes (gs_inputs s)
     \<and> (if gs_verifying s then {a..<length ps} \<subseteq> set js else js = []))"

text \<open>
  What is pending and marked as sent is on the wire of an open upstream, and all of it is marked unless frozen.
  This needs a history without a hasty step; \<open>qt\<close> says that there was none.
\<close>

definition sent_ok :: "bool \<Rightarrow> view list \<Rightarrow> nat \<Rightarrow> gsession \<Rightarrow> bool" where
  "sent_ok qt ps a s = (qt \<longrightarrow> (\<forall>c. gs_current s = Some c \<longrightarrow>
     (cn_ready (gs_conns s c) = Connecting \<longrightarrow> cn_sentThrough (gs_conns s c) = 0 \<and> \<not> cn_prepared (gs_conns s c))
     \<and> (cn_ready (gs_conns s c) = Open \<longrightarrow>
          (\<forall>i \<in> {a..<length ps}. int i + 1 \<le> cn_sentThrough (gs_conns s c) \<longrightarrow> entry_of ps i \<in> set (wire_inputs (gs_conns s c)))
          \<and> (\<not> gs_frozen s \<longrightarrow> (\<forall>i \<in> {a..<length ps}. int i + 1 \<le> cn_sentThrough (gs_conns s c))))))"

definition links_ok :: "gsession \<Rightarrow> bool" where
  "links_ok s = ((\<forall>c. c < gs_next s \<longrightarrow> field_ok (cn_epoch (gs_conns s c)))
     \<and> (\<forall>c. gs_current s = Some c \<longrightarrow> c < gs_next s)
     \<and> (\<forall>c. gs_prepared s = Some c \<longrightarrow> c < gs_next s \<and> gs_current s \<noteq> Some c \<and> wire_inputs (gs_conns s c) = []
            \<and> cn_sentThrough (gs_conns s c) = 0
            \<and> cn_prepared (gs_conns s c) \<and> \<not> cn_committed (gs_conns s c))
     \<and> (\<forall>c. gs_next s \<le> c \<longrightarrow> gs_conns s c = no_connection))"

definition session_ok :: "bool \<Rightarrow> input_log \<Rightarrow> gsession \<Rightarrow> bool" where
  "session_ok qt l s = (implements (gs_inputs s) l \<and> buffer_inv (gs_inputs s)
     \<and> (\<forall>c. wire_ok (il_accepted l) (gs_conns s c)) \<and> links_ok s
     \<and> (\<not> gs_stopped s \<longrightarrow> shadow_ok (il_accepted l) (il_acknowledged l) s \<and> sent_ok qt (il_accepted l) (il_acknowledged l) s))"

lemma session_okI:
  assumes "implements (gs_inputs s) l" and "buffer_inv (gs_inputs s)" and "\<And>c. wire_ok (il_accepted l) (gs_conns s c)"
    and "links_ok s"
    and "\<not> gs_stopped s \<Longrightarrow> shadow_ok (il_accepted l) (il_acknowledged l) s"
    and "\<not> gs_stopped s \<Longrightarrow> sent_ok qt (il_accepted l) (il_acknowledged l) s"
  shows "session_ok qt l s"
  using assms by (simp add: session_ok_def)

lemma session_okD:
  assumes "session_ok qt l s"
  shows "implements (gs_inputs s) l" and "buffer_inv (gs_inputs s)" and "wire_ok (il_accepted l) (gs_conns s c)"
    and "links_ok s"
    and "\<not> gs_stopped s \<Longrightarrow> shadow_ok (il_accepted l) (il_acknowledged l) s"
    and "\<not> gs_stopped s \<Longrightarrow> sent_ok qt (il_accepted l) (il_acknowledged l) s"
  using assms by (simp_all add: session_ok_def)

section \<open>Updates that keep it\<close>

lemma session_ok_cong:
  assumes "gs_inputs s' = gs_inputs s" "gs_conns s' = gs_conns s" "gs_next s' = gs_next s" "gs_current s' = gs_current s"
    "gs_prepared s' = gs_prepared s" "gs_frozen s' = gs_frozen s" "gs_stopped s' = gs_stopped s" "gs_shadow s' = gs_shadow s"
    "gs_shadowBytes s' = gs_shadowBytes s" "gs_verifying s' = gs_verifying s"
  shows "session_ok qt l s' = session_ok qt l s"
  using assms by (simp add: session_ok_def shadow_ok_def sent_ok_def links_ok_def)

lemma session_ok_outside [simp]:
  "session_ok qt l (add_effect x s) = session_ok qt l s"
  "session_ok qt l (down_end n m s) = session_ok qt l s"
  "session_ok qt l (down_send v s) = session_ok qt l s"
  "session_ok qt l (s\<lparr>gs_closed := b\<rparr>) = session_ok qt l s"
  "session_ok qt l (s\<lparr>gs_join := t, gs_initialJoin := v'\<rparr>) = session_ok qt l s"
  by (rule session_ok_cong; simp add: add_effect_def down_end_def down_send_def)+

text \<open>A change of a connection that leaves its wire alone and opens nothing.\<close>

definition calm :: "(connection \<Rightarrow> connection) \<Rightarrow> bool" where
  "calm f = (\<forall>k. cn_wire (f k) = cn_wire k \<and> cn_sentThrough (f k) = cn_sentThrough k \<and> cn_epoch (f k) = cn_epoch k
     \<and> cn_prepared (f k) = cn_prepared k \<and> cn_committed (f k) = cn_committed k
     \<and> (cn_ready (f k) = cn_ready k \<or> cn_ready (f k) = Closing \<or> cn_ready (f k) = Closed)
     \<and> (cn_promise k = NotPreparing \<longrightarrow> cn_promise (f k) = NotPreparing))"

lemma calm_wire: "calm f \<Longrightarrow> wire_inputs (f k) = wire_inputs k"
  by (simp add: calm_def wire_inputs_def)

lemma calm_ready: "calm f \<Longrightarrow> cn_ready (f k) = Open \<or> cn_ready (f k) = Connecting \<Longrightarrow> cn_ready (f k) = cn_ready k"
  by (metis calm_def ready_state.distinct)

lemma calm_wire_ok:
  assumes f: "calm f" and k: "wire_ok ps k"
  shows "wire_ok ps (f k)"
proof -
  have "cn_promise (f k) \<noteq> NotPreparing \<Longrightarrow> cn_promise k \<noteq> NotPreparing" using f by (auto simp: calm_def)
  moreover have "cn_sentThrough (f k) = cn_sentThrough k" using f by (simp add: calm_def)
  ultimately show ?thesis
    using k calm_ready [OF f, of k] unfolding wire_ok_def calm_wire [OF f] by auto
qed

lemma on_conn_simps [simp]:
  "gs_inputs (on_conn c f s) = gs_inputs s" "gs_next (on_conn c f s) = gs_next s" "gs_current (on_conn c f s) = gs_current s"
  "gs_prepared (on_conn c f s) = gs_prepared s" "gs_frozen (on_conn c f s) = gs_frozen s"
  "gs_stopped (on_conn c f s) = gs_stopped s" "gs_shadow (on_conn c f s) = gs_shadow s" "gs_data (on_conn c f s) = gs_data s"
  "gs_shadowBytes (on_conn c f s) = gs_shadowBytes s" "gs_verifying (on_conn c f s) = gs_verifying s"
  "gs_tick (on_conn c f s) = gs_tick s" "gs_join (on_conn c f s) = gs_join s" "gs_closed (on_conn c f s) = gs_closed s"
  "gs_initialJoin (on_conn c f s) = gs_initialJoin s"
  "gs_conns (on_conn c f s) c' = (if c' = c then f (gs_conns s c) else gs_conns s c')"
  by (simp_all add: on_conn_def)

lemma links_okD:
  assumes "links_ok s"
  shows "c < gs_next s \<Longrightarrow> field_ok (cn_epoch (gs_conns s c))" and "gs_current s = Some c \<Longrightarrow> c < gs_next s"
    and "gs_prepared s = Some c \<Longrightarrow> c < gs_next s" and "gs_prepared s = Some c \<Longrightarrow> gs_current s \<noteq> Some c"
    and "gs_prepared s = Some c \<Longrightarrow> wire_inputs (gs_conns s c) = []"
    and "gs_next s \<le> c \<Longrightarrow> gs_conns s c = no_connection"
  using assms by (simp_all add: links_ok_def)

lemma session_ok_calm:
  assumes ok: "session_ok qt l s" and f: "calm f" and c: "c < gs_next s"
  shows "session_ok qt l (on_conn c f s)"
proof (rule session_okI)
  show "wire_ok (il_accepted l) (gs_conns (on_conn c f s) d)" for d
    using session_okD(3) [OF ok] calm_wire_ok [OF f] by simp
  show "links_ok (on_conn c f s)"
    using session_okD(4) [OF ok] c f calm_wire [OF f] unfolding links_ok_def by (auto simp: calm_def)
  show "shadow_ok (il_accepted l) (il_acknowledged l) (on_conn c f s)" if "\<not> gs_stopped (on_conn c f s)"
    using session_okD(5) [OF ok] that by (simp add: shadow_ok_def)
  show "sent_ok qt (il_accepted l) (il_acknowledged l) (on_conn c f s)" if "\<not> gs_stopped (on_conn c f s)"
    using session_okD(6) [OF ok] that calm_ready [OF f, of "gs_conns s c"] calm_wire [OF f, of "gs_conns s c"] f
    by (auto simp: sent_ok_def calm_def)
qed (use session_okD [OF ok] in simp_all)

lemma calm_updates [simp]:
  "calm (\<lambda>k. if cn_ready k = Connecting \<or> cn_ready k = Open then k\<lparr>cn_ready := Closing\<rparr> else k)"
  "calm (\<lambda>k. k\<lparr>cn_ready := Closed\<rparr>)"
  "p \<noteq> NotPreparing \<Longrightarrow> calm (\<lambda>k. if cn_promise k = Waiting then k\<lparr>cn_promise := p\<rparr> else k)"
  "calm (\<lambda>k. if b k then k\<lparr>cn_frames := g k\<rparr> else k)"
  by (auto simp: calm_def)

lemma session_ok_close_socket: "session_ok qt l s \<Longrightarrow> c < gs_next s \<Longrightarrow> session_ok qt l (close_socket c s)"
  unfolding close_socket_def by (rule session_ok_calm) simp_all

lemma session_ok_settle: "session_ok qt l s \<Longrightarrow> c < gs_next s \<Longrightarrow> p \<noteq> NotPreparing \<Longrightarrow> session_ok qt l (settle c p s)"
  unfolding settle_def by (rule session_ok_calm) simp_all

lemma close_simps [simp]:
  "gs_inputs (close_opt x s) = gs_inputs s" "gs_next (close_opt x s) = gs_next s" "gs_current (close_opt x s) = gs_current s"
  "gs_prepared (close_opt x s) = gs_prepared s" "gs_frozen (close_opt x s) = gs_frozen s"
  "gs_stopped (close_opt x s) = gs_stopped s" "gs_shadow (close_opt x s) = gs_shadow s"
  "gs_shadowBytes (close_opt x s) = gs_shadowBytes s" "gs_verifying (close_opt x s) = gs_verifying s"
  "gs_tick (close_opt x s) = gs_tick s" "gs_join (close_opt x s) = gs_join s"
  "gs_next (close_socket c s) = gs_next s" "gs_next (settle c p s) = gs_next s"
  by (simp_all add: close_opt_def close_socket_def settle_def split: option.splits)

lemma session_ok_close_opt: "session_ok qt l s \<Longrightarrow> (\<And>c. x = Some c \<Longrightarrow> c < gs_next s) \<Longrightarrow> session_ok qt l (close_opt x s)"
  by (cases x) (simp_all add: close_opt_def session_ok_close_socket)

lemma session_ok_stopped:
  assumes ok: "session_ok qt l s"
  shows "session_ok qt l (s\<lparr>gs_stopped := True\<rparr>)"
  using ok by (simp add: session_ok_def links_ok_def)

lemma session_ok_unlink:
  assumes ok: "session_ok qt l s" and "gs_stopped s"
  shows "session_ok qt l (s\<lparr>gs_current := None, gs_prepared := None\<rparr>)"
  using assms by (simp add: session_ok_def links_ok_def)

lemma session_ok_stop:
  assumes ok: "session_ok qt l s"
  shows "session_ok qt l (session_stop s)"
proof -
  have cur: "gs_current s = Some c \<Longrightarrow> c < gs_next s" and pre: "gs_prepared s = Some c \<Longrightarrow> c < gs_next s" for c
    using links_okD(2,3) [OF session_okD(4) [OF ok]] by auto
  have "session_ok qt l (close_opt (gs_prepared s) (close_opt (gs_current s) (s\<lparr>gs_stopped := True\<rparr>)))"
    by (intro session_ok_close_opt session_ok_stopped ok) (use cur pre in simp_all)
  then show ?thesis
    using ok by (simp add: session_stop_def session_ok_unlink)
qed

lemma session_ok_drop: "session_ok qt l s \<Longrightarrow> session_ok qt l (drop_session n m s)"
  by (simp add: drop_session_def session_ok_stop)

lemma session_ok_freeze: "session_ok qt l s \<Longrightarrow> session_ok qt l (session_freeze s)"
  by (auto simp: session_ok_def session_freeze_def shadow_ok_def sent_ok_def links_ok_def)

lemma session_ok_finalize: "session_ok qt l s \<Longrightarrow> session_ok qt l (finalizeVerification s)"
proof (rule session_okI)
  assume ok: "session_ok qt l s"
  note b = buffer_inv_facts(4-6) [OF session_okD(2) [OF ok]]
  show "shadow_ok (il_accepted l) (il_acknowledged l) (finalizeVerification s)"
  proof -
    have "0 \<le> ib_bytes (gs_inputs s)"
      using b(1) buffer_inv_facts(3) [OF session_okD(2) [OF ok]] by (auto intro!: sum_list_nonneg)
    then show ?thesis using b by (auto simp: shadow_ok_def finalizeVerification_def intro: exI [of _ "[]"])
  qed
qed (auto simp: session_ok_def finalizeVerification_def sent_ok_def links_ok_def)

section \<open>Acknowledgements\<close>

lemma session_ok_acknowledge:
  assumes ok: "session_ok qt l s"
  shows "session_ok qt (log_acknowledge n l) (s\<lparr>gs_inputs := buffer_acknowledge n (gs_inputs s)\<rparr>)"
proof (rule session_okI)
  let ?l = "log_acknowledge n l" and ?s = "s\<lparr>gs_inputs := buffer_acknowledge n (gs_inputs s)\<rparr>"
  have same: "il_accepted ?l = il_accepted l" "il_acknowledged l \<le> il_acknowledged ?l" by (simp_all add: log_acknowledge_def)
  note b = buffer_inv_acknowledge [OF session_okD(2) [OF ok], of n]
  show "implements (gs_inputs ?s) ?l" using buffer_acknowledge_refines [OF session_okD(1) [OF ok]] by simp
  show "buffer_inv (gs_inputs ?s)" using b(1) by simp
  show "wire_ok (il_accepted ?l) (gs_conns ?s c)" for c using session_okD(3) [OF ok] same by simp
  show "links_ok ?s" using session_okD(4) [OF ok] by (simp add: links_ok_def)
  show "shadow_ok (il_accepted ?l) (il_acknowledged ?l) ?s" if "\<not> gs_stopped ?s"
    using session_okD(5) [OF ok] that same b(3,4) unfolding shadow_ok_def
    by (auto 4 3 intro: subset_trans [of "{il_acknowledged ?l..<_}"] split: if_splits)
  show "sent_ok qt (il_accepted ?l) (il_acknowledged ?l) ?s" if "\<not> gs_stopped ?s"
    using session_okD(6) [OF ok] that same unfolding sent_ok_def by auto
qed

section \<open>Sending\<close>

text \<open>All of the invariant but what concerns the open upstream: it holds while a flush is under way.\<close>

definition base_ok :: "input_log \<Rightarrow> gsession \<Rightarrow> bool" where
  "base_ok l s = (implements (gs_inputs s) l \<and> buffer_inv (gs_inputs s)
     \<and> (\<forall>c. wire_ok (il_accepted l) (gs_conns s c)) \<and> links_ok s
     \<and> (\<not> gs_stopped s \<longrightarrow> shadow_ok (il_accepted l) (il_acknowledged l) s))"

lemma session_ok_base:
  "session_ok qt l s \<longleftrightarrow> base_ok l s \<and> (\<not> gs_stopped s \<longrightarrow> sent_ok qt (il_accepted l) (il_acknowledged l) s)"
  by (auto simp: session_ok_def base_ok_def)

lemma base_okD:
  assumes "base_ok l s"
  shows "implements (gs_inputs s) l" and "buffer_inv (gs_inputs s)" and "wire_ok (il_accepted l) (gs_conns s c)"
    and "links_ok s" and "\<not> gs_stopped s \<Longrightarrow> shadow_ok (il_accepted l) (il_acknowledged l) s"
  using assms by (simp_all add: base_ok_def)

definition sent_to :: "nat \<Rightarrow> view list \<Rightarrow> int \<Rightarrow> gsession \<Rightarrow> gsession" where
  "sent_to c ws t = on_conn c (\<lambda>k. k\<lparr>cn_wire := cn_wire k @ (if cn_ready k = Open then ws else []), cn_sentThrough := t\<rparr>)"

lemma put_wire_sent_to: "on_conn c (\<lambda>k. k\<lparr>cn_sentThrough := t\<rparr>) (put_wire c ws s) = sent_to c ws t s"
  by (simp add: put_wire_def sent_to_def on_conn_def is_open_def)

lemma sent_to_simps [simp]:
  "gs_inputs (sent_to c ws t s) = gs_inputs s" "gs_next (sent_to c ws t s) = gs_next s" "gs_current (sent_to c ws t s) = gs_current s"
  "gs_prepared (sent_to c ws t s) = gs_prepared s" "gs_frozen (sent_to c ws t s) = gs_frozen s"
  "gs_stopped (sent_to c ws t s) = gs_stopped s" "gs_shadow (sent_to c ws t s) = gs_shadow s"
  "gs_shadowBytes (sent_to c ws t s) = gs_shadowBytes s" "gs_verifying (sent_to c ws t s) = gs_verifying s"
  by (simp_all add: sent_to_def)

lemma sent_to_conns:
  "gs_conns (sent_to c ws t s) d = (if d = c then (gs_conns s c)
     \<lparr>cn_wire := cn_wire (gs_conns s c) @ (if cn_ready (gs_conns s c) = Open then ws else []), cn_sentThrough := t\<rparr> else gs_conns s d)"
  by (simp add: sent_to_def)

lemma wire_inputs_sent:
  "wire_inputs (k\<lparr>cn_wire := cn_wire k @ ws, cn_sentThrough := t\<rparr>) = wire_inputs k @ List.map_filter input_of ws"
  by (simp add: wire_inputs_def map_filter_def)

lemma wire_ok_more:
  assumes k: "wire_ok ps k" and new: "sorted_wrt (<) ixs" "\<forall>i \<in> set ixs. cn_sentThrough k < int i + 1 \<and> int i + 1 \<le> t"
    and t: "cn_sentThrough k \<le> t" "t \<le> int (length ps)" and ws: "List.map_filter input_of ws = map (entry_of ps) ixs"
  shows "wire_ok ps (k\<lparr>cn_wire := cn_wire k @ ws, cn_sentThrough := t\<rparr>)"
proof -
  obtain js where js: "sorted_wrt (<) js" "\<forall>i \<in> set js. int i + 1 \<le> cn_sentThrough k" "wire_inputs k = map (entry_of ps) js"
    using k by (auto simp: wire_ok_def)
  have "sorted_wrt (<) (js @ ixs)" using js(1,2) new by (fastforce simp: sorted_wrt_append)
  moreover have "\<forall>i \<in> set (js @ ixs). int i + 1 \<le> t" using js(2) new t by fastforce
  moreover have "wire_inputs (k\<lparr>cn_wire := cn_wire k @ ws, cn_sentThrough := t\<rparr>) = map (entry_of ps) (js @ ixs)"
    using js(3) ws by (simp add: wire_inputs_sent)
  ultimately show ?thesis
    using k t unfolding wire_ok_def by (simp del: map_append set_append) blast
qed

lemma base_ok_send:
  assumes ok: "base_ok l s" and c: "c < gs_next s" "gs_prepared s \<noteq> Some c"
    and new: "sorted_wrt (<) ixs" "\<forall>i \<in> set ixs. cn_sentThrough (gs_conns s c) < int i + 1 \<and> int i + 1 \<le> t"
    and t: "cn_sentThrough (gs_conns s c) \<le> t" "t \<le> int (length (il_accepted l))"
    and ws: "List.map_filter input_of ws = map (entry_of (il_accepted l)) ixs"
  shows "base_ok l (sent_to c ws t s)"
proof -
  have "wire_ok (il_accepted l) (gs_conns (sent_to c ws t s) d)" for d
    using wire_ok_more [OF base_okD(3) [OF ok] new t ws] wire_ok_more [OF base_okD(3) [OF ok, of c], of "[]" t "[]"] t
      base_okD(3) [OF ok]
    by (simp add: sent_to_conns map_filter_def)
  moreover have "links_ok (sent_to c ws t s)"
    using base_okD(4) [OF ok] c by (simp add: links_ok_def sent_to_conns)
  ultimately show ?thesis
    using base_okD [OF ok] by (simp add: base_ok_def shadow_ok_def)
qed

lemma sent_ok_quiet: "(qt \<Longrightarrow> sent_ok qt ps a s) \<Longrightarrow> sent_ok qt ps a s"
  by (simp add: sent_ok_def)

lemma sent_ok_send:
  assumes quiet: qt and cur: "gs_current s = Some c" and ok: "sent_ok qt ps a (s\<lparr>gs_frozen := True\<rparr>)"
    and ready: "cn_ready (gs_conns s c) \<noteq> Connecting"
    and ws: "List.map_filter input_of ws = map (entry_of ps) ixs"
    and all: "\<And>i. i \<in> {a..<length ps} \<Longrightarrow> cn_sentThrough (gs_conns s c) < int i + 1 \<Longrightarrow> int i + 1 \<le> t \<Longrightarrow> i \<in> set ixs"
    and flushed: "\<not> gs_frozen s \<Longrightarrow> \<forall>i \<in> {a..<length ps}. int i + 1 \<le> t"
  shows "sent_ok qt ps a (sent_to c ws t s)"
proof -
  let ?k = "gs_conns s c"
  have "entry_of ps i \<in> set (wire_inputs (gs_conns (sent_to c ws t s) c))"
    if "cn_ready ?k = Open" "i \<in> {a..<length ps}" "int i + 1 \<le> t" for i
  proof (cases "int i + 1 \<le> cn_sentThrough ?k")
    case True
    then show ?thesis using quiet ok cur that by (simp add: sent_ok_def sent_to_conns wire_inputs_sent)
  next
    case False
    then have "i \<in> set ixs" using all that by simp
    then show ?thesis using that ws by (simp add: sent_to_conns wire_inputs_sent)
  qed
  then show ?thesis using cur ready flushed by (simp add: sent_ok_def sent_to_conns)
qed

lemma pending:
  assumes "implements b l"
  shows "ib_entries b = map (numbered (il_accepted l)) [il_acknowledged l..<length (il_accepted l)]"
    and "ib_nextSequence b = int (length (il_accepted l)) + 1"
  using implementsD [OF assms] by (simp_all add: log_pending_def)

text \<open>Sequence numbers stay in the safe range: the buffer refuses to go beyond.\<close>

definition within_range :: "input_log \<Rightarrow> bool" where
  "within_range l = (int (length (il_accepted l)) < MAX_SAFE)"

lemma numbered_in_range: "within_range l \<Longrightarrow> i < length (il_accepted l) \<Longrightarrow>
    sequence_in_range (bi_sequence (numbered (il_accepted l) i)) \<and> bi_sequence (numbered (il_accepted l) i) \<noteq> 0"
  by (simp add: within_range_def sequence_in_range_def numbered_def)

lemma entry_of_numbered: "(\<lambda>e. (bi_sequence e, bi_payload e)) \<circ> numbered ps = entry_of ps"
  by (simp add: fun_eq_iff numbered_def entry_of_def)

lemma frames_numbered:
  assumes "field_ok epoch" and "within_range l" and "\<forall>i \<in> set ixs. i < length (il_accepted l)"
  shows "List.map_filter input_of (frames_of epoch tick (map (numbered (il_accepted l)) ixs)) = map (entry_of (il_accepted l)) ixs"
proof -
  have "\<forall>e \<in> set (map (numbered (il_accepted l)) ixs). sequence_in_range (bi_sequence e) \<and> bi_sequence e \<noteq> 0"
    using assms(2,3) numbered_in_range by auto
  from frames_inputs [OF assms(1) this] show ?thesis by (simp add: entry_of_numbered)
qed

lemma sorted_le_last: "sorted_wrt (<) (ixs :: nat list) \<Longrightarrow> i \<in> set ixs \<Longrightarrow> i \<le> last ixs"
proof (induction "ixs")
  case (Cons x xs)
  then show ?case using last_in_set [of xs] by (auto intro: less_imp_le)
qed simp

lemma flush_run:
  assumes ok: "base_ok l s" and range: "within_range l" and c: "c < gs_next s" "gs_prepared s \<noteq> Some c"
  shows "\<exists>s'. flushInputs c s = (Inr (), s') \<and> base_ok l s'
    \<and> (gs_current s = Some c \<and> sent_ok qt (il_accepted l) (il_acknowledged l) (s\<lparr>gs_frozen := True\<rparr>)
          \<and> cn_ready (gs_conns s c) \<noteq> Connecting \<longrightarrow> sent_ok qt (il_accepted l) (il_acknowledged l) s')
    \<and> (\<exists>ws t. s' = sent_to c ws t s)"
proof -
  let ?ps = "il_accepted l" and ?a = "il_acknowledged l" and ?k = "gs_conns s c"
  define ixs where "ixs = filter (\<lambda>i. cn_sentThrough ?k < int i + 1) [?a..<length ?ps]"
  define t where "t = last_sequence_or (map (numbered ?ps) ixs) (cn_sentThrough ?k)"
  let ?ws = "frames_of (cn_epoch ?k) (gs_tick s) (map (numbered ?ps) ixs)"
  have replay: "buffer_replayAfter (cn_sentThrough ?k) (gs_inputs s) = map (numbered ?ps) ixs"
    unfolding buffer_replayAfter_def pending(1) [OF base_okD(1) [OF ok]] ixs_def by (simp add: filter_map comp_def numbered_def)
  have ep: "field_ok (cn_epoch ?k)" using links_okD(1) [OF base_okD(4) [OF ok] c(1)] .
  have inr: "\<forall>e \<in> set (map (numbered ?ps) ixs). sequence_in_range (bi_sequence e)"
    using numbered_in_range [OF range] by (auto simp: ixs_def)
  have run: "flushInputs c s = (Inr (), sent_to c ?ws t s)"
    unfolding flushInputs_def bindE_def getsE_def thenE_def modifyE_def
    by (simp add: replay sendEntries_run [OF ep inr] put_wire_sent_to [symmetric] t_def)
      (simp add: on_conn_def put_wire_def is_open_def)
  have sorted: "sorted_wrt (<) ixs" unfolding ixs_def by (intro sorted_wrt_filter sorted_wrt_upt)
  have t: "t = (if ixs = [] then cn_sentThrough ?k else int (last ixs) + 1)"
    by (simp add: t_def last_sequence_or_def last_map numbered_def)
  have le_last: "i \<le> last ixs" if "i \<in> set ixs" for i by (rule sorted_le_last [OF sorted that])
  have bound: "i \<in> set ixs \<Longrightarrow> cn_sentThrough ?k < int i + 1 \<and> i < length ?ps" for i by (auto simp: ixs_def)
  have k: "cn_sentThrough ?k \<le> int (length ?ps)" using base_okD(3) [OF ok, of c] by (simp add: wire_ok_def)
  have tle: "cn_sentThrough ?k \<le> t \<and> t \<le> int (length ?ps) \<and> (\<forall>i \<in> set ixs. int i + 1 \<le> t)"
  proof (cases "ixs = []")
    case True
    then show ?thesis using k by (simp add: t)
  next
    case False
    then show ?thesis using bound [OF last_in_set [OF False]] le_last by (auto simp: t)
  qed
  have ws: "List.map_filter input_of ?ws = map (entry_of ?ps) ixs"
    by (rule frames_numbered [OF ep range]) (use bound in auto)
  have "base_ok l (sent_to c ?ws t s)"
    by (rule base_ok_send [OF ok c sorted _ _ _ ws]) (use bound tle in auto)
  moreover have "sent_ok qt ?ps ?a (sent_to c ?ws t s)"
    if "gs_current s = Some c" "sent_ok qt ?ps ?a (s\<lparr>gs_frozen := True\<rparr>)" "cn_ready ?k \<noteq> Connecting"
  proof (rule sent_ok_quiet, rule sent_ok_send [OF _ that ws])
    show "i \<in> set ixs" if "i \<in> {?a..<length ?ps}" "cn_sentThrough ?k < int i + 1" for i
      using that by (simp add: ixs_def)
    show "\<forall>i \<in> {?a..<length ?ps}. int i + 1 \<le> t"
    proof
      fix i assume i: "i \<in> {?a..<length ?ps}"
      show "int i + 1 \<le> t"
      proof (cases "cn_sentThrough ?k < int i + 1")
        case True
        then have "i \<in> set ixs" using i by (simp add: ixs_def)
        then show ?thesis using tle by blast
      qed (use tle in simp)
    qed
  qed
  ultimately show ?thesis using run by blast
qed

section \<open>Inputs of the browser\<close>

lemma session_ok_halt:
  assumes "implements (gs_inputs s) l" and "buffer_inv (gs_inputs s)" and "\<And>c. wire_ok (il_accepted l) (gs_conns s c)"
    and "links_ok s"
  shows "session_ok qt l (session_stop s)"
proof (cases "gs_stopped s")
  case True
  then show ?thesis using assms by (simp add: session_stop_def session_ok_def)
next
  case False
  have "session_ok qt l (s\<lparr>gs_stopped := True\<rparr>)" using assms by (simp add: session_ok_def links_ok_def)
  from session_ok_stop [OF this] have "session_ok qt l ((close_opt (gs_prepared s) (close_opt (gs_current s) (s\<lparr>gs_stopped := True\<rparr>)))
             \<lparr>gs_current := None, gs_prepared := None\<rparr>)"
    using assms(4) \<open>session_ok qt l (s\<lparr>gs_stopped := True\<rparr>)\<close>
    by (intro session_ok_unlink session_ok_close_opt) (auto dest: links_okD)
  then show ?thesis using False by (simp add: session_stop_def)
qed

lemma wire_ok_grow:
  assumes "wire_ok ps k"
  shows "wire_ok (ps @ [p]) k"
proof -
  obtain js where js: "sorted_wrt (<) js" "\<forall>i \<in> set js. int i + 1 \<le> cn_sentThrough k" "wire_inputs k = map (entry_of ps) js"
    using assms by (auto simp: wire_ok_def)
  have "map (entry_of ps) js = map (entry_of (ps @ [p])) js"
    using js(2) assms by (fastforce simp: entry_of_def nth_append wire_ok_def)
  then have "wire_inputs k = map (entry_of (ps @ [p])) js" using js(3) by simp
  with js(1,2) have "\<exists>ixs. sorted_wrt (<) ixs \<and> (\<forall>i \<in> set ixs. int i + 1 \<le> cn_sentThrough k)
      \<and> wire_inputs k = map (entry_of (ps @ [p])) ixs" by blast
  then show ?thesis using assms by (simp add: wire_ok_def)
qed

text \<open>A pushed input: everything is in order but its own copy in the shadow and on the wire.\<close>

lemma pushed:
  assumes ok: "session_ok qt l s" and range: "within_range l" and push: "buffer_push p (gs_inputs s) = Inr (entry, b)"
  defines "l' \<equiv> l\<lparr>il_accepted := il_accepted l @ [p]\<rparr>" and "s' \<equiv> s\<lparr>gs_inputs := b, gs_tick := gs_tick s + 1\<rparr>"
  shows "implements (gs_inputs s') l'" and "buffer_inv (gs_inputs s')" and "wire_ok (il_accepted l') (gs_conns s' c)"
    and "links_ok s'" and "within_range l'" and "entry = numbered (il_accepted l') (length (il_accepted l))"
    and "\<not> gs_stopped s \<Longrightarrow> sent_ok qt (il_accepted l') (il_acknowledged l') (s'\<lparr>gs_frozen := True\<rparr>)"
    and "ib_maxMessages b = ib_maxMessages (gs_inputs s)" and "ib_maxBytes b = ib_maxBytes (gs_inputs s)"
proof -
  note d = session_okD [OF ok]
  have "rel_sum (=) (rel_prod (=) implements) (Inr (entry, b)) (log_push (ib_maxMessages (gs_inputs s)) (ib_maxBytes (gs_inputs s)) p l)"
    using buffer_push_refines [OF d(1), of p] push by simp
  then have lp: "log_push (ib_maxMessages (gs_inputs s)) (ib_maxBytes (gs_inputs s)) p l = Inr (entry, l')
      \<and> implements b l'"
    by (auto elim!: rel_sum.cases rel_prod.cases simp: log_push_def Let_def l'_def split: if_splits)
  then show "implements (gs_inputs s') l'" "entry = numbered (il_accepted l') (length (il_accepted l))" "within_range l'"
    by (auto simp: s'_def l'_def log_push_def Let_def within_range_def split: if_splits)
  note b = buffer_inv_push [OF d(2) push]
  show "buffer_inv (gs_inputs s')" "ib_maxMessages b = ib_maxMessages (gs_inputs s)" "ib_maxBytes b = ib_maxBytes (gs_inputs s)"
    using b by (simp_all add: s'_def)
  show "wire_ok (il_accepted l') (gs_conns s' c)" using wire_ok_grow [OF d(3)] by (simp add: s'_def l'_def)
  show "links_ok s'" using d(4) by (simp add: s'_def links_ok_def)
  show "sent_ok qt (il_accepted l') (il_acknowledged l') (s'\<lparr>gs_frozen := True\<rparr>)" if "\<not> gs_stopped s"
  proof -
    have "i < length (il_accepted l)" if "int i + 1 \<le> cn_sentThrough (gs_conns s c)" for i c
      using that d(3) [of c] by (simp add: wire_ok_def)
    then show ?thesis
      using d(6) [OF that] by (auto simp: sent_ok_def s'_def l'_def entry_of_def nth_append)
  qed
qed

lemma input_failed_ok:
  assumes "implements (gs_inputs s) l" and "buffer_inv (gs_inputs s)" and "\<And>c. wire_ok (il_accepted l) (gs_conns s c)"
    and "links_ok s"
  shows "session_ok qt l (input_failed m s)"
  unfolding input_failed_def
  by (rule session_ok_halt) (use assms in \<open>simp_all add: down_end_def add_effect_def links_ok_def\<close>)

lemma retain_eq:
  "retainForRollback e s =
     (if \<exists>x \<in> set (gs_shadow s). bi_sequence x = bi_sequence e then (Inr (), s)
      else if ib_maxMessages (gs_inputs s) < int (length (gs_shadow s)) + 1
      then (Inl ''gateway_verification_buffer_overflow:message_limit'', s)
      else if ib_maxBytes (gs_inputs s) < gs_shadowBytes s + bi_bytes e
      then (Inl ''gateway_verification_buffer_overflow:byte_limit'', s)
      else (Inr (), s\<lparr>gs_shadow := gs_shadow s @ [e], gs_shadowBytes := gs_shadowBytes s + bi_bytes e\<rparr>))"
  unfolding retainForRollback_def bindE_def getsE_def ret_def throwE_def modifyE_def by simp

lemma shadow_pushed:
  assumes sh: "shadow_ok ps a s" and "gs_verifying s" and e: "e = numbered (ps @ [p]) (length ps)"
    and room: "int (length (gs_shadow s)) + 1 \<le> ib_maxMessages b" "gs_shadowBytes s + bi_bytes e \<le> ib_maxBytes b"
  shows "shadow_ok (ps @ [p]) a (s\<lparr>gs_inputs := b, gs_tick := t, gs_shadow := gs_shadow s @ [e], gs_shadowBytes := gs_shadowBytes s + bi_bytes e\<rparr>)"
proof -
  obtain js where js: "sorted_wrt (<) js" "\<forall>j \<in> set js. j < length ps" "gs_shadow s = map (numbered ps) js"
      "gs_shadowBytes s = sum_list (map bi_bytes (gs_shadow s))" "{a..<length ps} \<subseteq> set js"
    using sh assms(2) by (auto simp: shadow_ok_def)
  have "map (numbered ps) js = map (numbered (ps @ [p])) js" using js(2) by (simp add: numbered_append)
  with js have "gs_shadow s @ [e] = map (numbered (ps @ [p])) (js @ [length ps])" using e by simp
  moreover have "sorted_wrt (<) (js @ [length ps])" using js(1,2) by (simp add: sorted_wrt_append)
  moreover have "{a..<Suc (length ps)} \<subseteq> insert (length ps) {a..<length ps}" by auto
  then have "{a..<length (ps @ [p])} \<subseteq> set (js @ [length ps])" using js(5) by auto
  ultimately show ?thesis
    using js room assms(2) unfolding shadow_ok_def
    by (intro exI [of _ "js @ [length ps]"]) auto
qed

lemma shadow_idle:
  "shadow_ok ps a s \<Longrightarrow> \<not> gs_verifying s \<Longrightarrow> ib_maxMessages b = ib_maxMessages (gs_inputs s) \<Longrightarrow>
     ib_maxBytes b = ib_maxBytes (gs_inputs s) \<Longrightarrow> shadow_ok qs a (s\<lparr>gs_inputs := b, gs_tick := t\<rparr>)"
  by (auto simp: shadow_ok_def)

text \<open>Sending an entry that was just accepted.\<close>

lemma send_latest:
  assumes base: "base_ok l s" and range: "within_range l" and n: "length (il_accepted l) = Suc n"
    and e: "e = numbered (il_accepted l) n"
    and pre: "sent_ok qt (il_accepted l) (il_acknowledged l) (s\<lparr>gs_frozen := True\<rparr>)"
    and c: "\<And>c. gs_frozen s = False \<Longrightarrow> gs_current s = Some c \<Longrightarrow> cn_ready (gs_conns s c) = Open
        \<Longrightarrow> cn_sentThrough (gs_conns s c) \<le> int n \<and> (qt \<longrightarrow> (\<forall>i \<in> {il_acknowledged l..<n}. int i + 1 \<le> cn_sentThrough (gs_conns s c)))"
  shows "\<exists>s'. send_latest_entry e s = (Inr (), s') \<and> session_ok qt l s'"
proof (cases "gs_frozen s = False \<and> (\<exists>c. current_open s = Some c)")
  case False
  then have "send_latest_entry e s = (Inr (), s)"
    by (auto simp: send_latest_entry_def bindE_def getsE_def ret_def split: option.splits bool.splits)
  moreover have "sent_ok qt (il_accepted l) (il_acknowledged l) s"
    using pre False by (auto simp: sent_ok_def current_open_def is_open_def split: option.splits if_splits)
  ultimately show ?thesis using base by (auto simp: session_ok_base)
next
  case True
  then obtain c where fc: "\<not> gs_frozen s" "current_open s = Some c" by auto
  then have cur: "gs_current s = Some c" and op: "cn_ready (gs_conns s c) = Open"
    by (auto simp: current_open_def is_open_def split: option.splits if_splits)
  let ?k = "gs_conns s c" and ?ps = "il_accepted l"
  note lk = links_okD [OF base_okD(4) [OF base]]
  have cn: "c < gs_next s" "gs_prepared s \<noteq> Some c" using lk(2,4) cur by auto
  have ep: "field_ok (cn_epoch ?k)" by (rule lk(1) [OF cn(1)])
  have seq: "bi_sequence e = int n + 1" by (simp add: e numbered_def)
  have inr: "sequence_in_range (bi_sequence e)" using numbered_in_range [OF range, of n] n e by simp
  let ?ws = "frames_of (cn_epoch ?k) (gs_tick s) (map (numbered ?ps) [n])"
  have run: "thenE (sendInput c (bi_payload e) (cn_epoch ?k) (bi_sequence e))
      (modifyE (on_conn c (\<lambda>k. k\<lparr>cn_sentThrough := bi_sequence e\<rparr>))) s = (Inr (), sent_to c ?ws (bi_sequence e) s)"
    unfolding thenE_def bindE_def sendInput_run [OF ep inr]
    by (simp add: modifyE_def put_wire_sent_to [symmetric] frames_of_def e)
  have ws: "List.map_filter input_of ?ws = map (entry_of ?ps) [n]"
    by (rule frames_numbered [OF ep range]) (use n in simp)
  note c' = c [OF _ cur op]
  have "base_ok l (sent_to c ?ws (bi_sequence e) s)"
    by (rule base_ok_send [OF base cn _ _ _ _ ws]) (use c' fc n seq in auto)
  moreover have "sent_ok qt ?ps (il_acknowledged l) (sent_to c ?ws (bi_sequence e) s)"
  proof (rule sent_ok_quiet, rule sent_ok_send [OF _ cur pre _ ws])
    show "i \<in> set [n]" if qt "i \<in> {il_acknowledged l..<length ?ps}" "cn_sentThrough ?k < int i + 1" for i
    proof (rule ccontr)
      assume "i \<notin> set [n]"
      then have "i \<in> {il_acknowledged l..<n}" using that(2) n by auto
      then show False using c' fc that(1,3) by fastforce
    qed
  qed (use n seq op in auto)
  ultimately show ?thesis using run fc by (auto simp: send_latest_entry_def bindE_def getsE_def session_ok_base)
qed

text \<open>The \<open>try\<close> and \<open>catch\<close> of \<open>receive\<close>.\<close>

definition good :: "bool \<Rightarrow> gsession \<Rightarrow> bool" where
  "good qt s = (\<exists>l. session_ok qt l s \<and> within_range l)"

lemma receive_input_ok:
  assumes "good qt s" and live: "\<not> gs_stopped s"
  shows "\<exists>s'. catchE (receive_input p) (\<lambda>m. modifyE (input_failed m)) s = (Inr (), s') \<and> good qt s'"
proof -
  obtain l where ok: "session_ok qt l s" and range: "within_range l" using assms(1) by (auto simp: good_def)
  note d = session_okD [OF ok]
  show ?thesis
  proof (cases "buffer_push p (gs_inputs s)")
    case (Inl m)
    then have "catchE (receive_input p) (\<lambda>m. modifyE (input_failed m)) s = (Inr (), input_failed m s)"
      by (simp add: receive_input_def catchE_def bindE_def getsE_def throwE_def modifyE_def)
    then show ?thesis using input_failed_ok [OF d(1-4)] range by (auto simp: good_def)
  next
    case (Inr q)
    obtain entry b where q: "q = (entry, b)" by (cases q)
    let ?l = "l\<lparr>il_accepted := il_accepted l @ [p]\<rparr>" and ?n = "length (il_accepted l)"
    let ?s = "s\<lparr>gs_inputs := b, gs_tick := gs_tick s + 1\<rparr>"
    note pu = pushed [OF ok range Inr [unfolded q]]
    have body: "receive_input p s = thenE (if gs_verifying s then retainForRollback entry else ret ()) (send_latest_entry entry) ?s"
      by (simp add: receive_input_def bindE_def getsE_def thenE_def modifyE_def Inr q)
    have sends: "\<exists>s'. send_latest_entry entry t = (Inr (), s') \<and> session_ok qt ?l s'"
      if t: "t = ?s \<or> t = ?s\<lparr>gs_shadow := sh, gs_shadowBytes := by'\<rparr>" and sh: "shadow_ok (il_accepted ?l) (il_acknowledged ?l) t" for t sh by'
    proof (rule send_latest [OF _ pu(5) _ pu(6)])
      have same: "gs_frozen t = gs_frozen s" "gs_conns t = gs_conns s" "gs_current t = gs_current s" using t by auto
      show "base_ok ?l t" using pu(1-4) sh t by (auto simp: base_ok_def links_ok_def)
      show "sent_ok qt (il_accepted ?l) (il_acknowledged ?l) (t\<lparr>gs_frozen := True\<rparr>)"
        using pu(7) live t by (auto simp: sent_ok_def)
      show "cn_sentThrough (gs_conns t c) \<le> int ?n \<and> (qt \<longrightarrow> (\<forall>i \<in> {il_acknowledged ?l..<?n}. int i + 1 \<le> cn_sentThrough (gs_conns t c)))"
        if "gs_frozen t = False" "gs_current t = Some c" "cn_ready (gs_conns t c) = Open" for c
        using that d(6) [OF live] d(3) [of c] unfolding same by (auto simp: sent_ok_def wire_ok_def)
    qed simp
    show ?thesis
    proof (cases "gs_verifying s")
      case False
      have "shadow_ok (il_accepted ?l) (il_acknowledged ?l) ?s"
        using shadow_idle [OF d(5) [OF live] False pu(8,9)] by simp
      then obtain s' where "send_latest_entry entry ?s = (Inr (), s')" "session_ok qt ?l s'" using sends [of ?s] by auto
      then have "catchE (receive_input p) (\<lambda>m. modifyE (input_failed m)) s = (Inr (), s')"
        using False by (simp add: catchE_def body thenE_def bindE_def ret_def)
      with \<open>session_ok qt ?l s'\<close> pu(5) show ?thesis by (auto simp: good_def)
    next
      case True
      obtain r t where ret': "retainForRollback entry ?s = (r, t)" by (cases "retainForRollback entry ?s")
      have fresh: "\<not> (\<exists>x \<in> set (gs_shadow s). bi_sequence x = bi_sequence entry)"
        using d(5) [OF live] pu(6) by (fastforce simp: shadow_ok_def numbered_def)
      consider m where "r = Inl m" "t = ?s"
        | "r = Inr ()" "t = ?s\<lparr>gs_shadow := gs_shadow s @ [entry], gs_shadowBytes := gs_shadowBytes s + bi_bytes entry\<rparr>"
          "int (length (gs_shadow s)) + 1 \<le> ib_maxMessages b" "gs_shadowBytes s + bi_bytes entry \<le> ib_maxBytes b"
        using ret' fresh by (auto simp: retain_eq not_less split: if_splits)
      then show ?thesis
      proof cases
        case (1 m)
        then have "catchE (receive_input p) (\<lambda>m. modifyE (input_failed m)) s = (Inr (), input_failed m ?s)"
          using True ret' by (simp add: catchE_def body thenE_def bindE_def modifyE_def)
        moreover have "session_ok qt ?l (input_failed m ?s)" by (rule input_failed_ok [OF pu(1-4)])
        ultimately show ?thesis using pu(5) by (auto simp: good_def)
      next
        case 2
        have "shadow_ok (il_accepted ?l) (il_acknowledged ?l) t"
          using shadow_pushed [OF d(5) [OF live] True, of entry p b "gs_tick s + 1"] pu(6) 2 by simp
        then obtain s' where "send_latest_entry entry t = (Inr (), s')" "session_ok qt ?l s'" using sends 2(2) by blast
        then have "catchE (receive_input p) (\<lambda>m. modifyE (input_failed m)) s = (Inr (), s')"
          using True ret' 2(1) by (simp add: catchE_def body thenE_def bindE_def)
        with \<open>session_ok qt ?l s'\<close> pu(5) show ?thesis by (auto simp: good_def)
      qed
    qed
  qed
qed

section \<open>Joins, acknowledgements and closed sockets\<close>

lemma put_join_ok:
  assumes ok: "session_ok qt l s" and c: "c < gs_next s"
  shows "\<exists>s'. sendInput c payload (cn_epoch (gs_conns s c)) 0 s = (Inr (), s') \<and> session_ok qt l s'
    \<and> (\<forall>d. cn_promise (gs_conns s' d) = cn_promise (gs_conns s d) \<and> cn_ready (gs_conns s' d) = cn_ready (gs_conns s d))
    \<and> gs_next s' = gs_next s"
proof -
  have ep: "field_ok (cn_epoch (gs_conns s c))" using links_okD(1) [OF session_okD(4) [OF ok] c] .
  let ?w = "input_frame (cn_epoch (gs_conns s c)) (gs_tick s) 0 payload"
  have w: "input_of ?w = None" using input_of_frame [OF ep, of 0] by (simp add: sequence_in_range_def MAX_SAFE_def)
  let ?s = "put_wire c [?w] s"
  have conns: "gs_conns ?s d = (if d = c \<and> is_open c s then (gs_conns s c)\<lparr>cn_wire := cn_wire (gs_conns s c) @ [?w]\<rparr> else gs_conns s d)" for d
    by (auto simp: put_wire_def)
  have wi: "wire_inputs (gs_conns ?s d) = wire_inputs (gs_conns s d)" for d
    by (auto simp: conns map_filter_def w)
  have "session_ok qt l ?s"
  proof (rule session_okI)
    show "wire_ok (il_accepted l) (gs_conns ?s d)" for d
      using session_okD(3) [OF ok, of d] wi [of d] by (auto simp: wire_ok_def conns)
    show "links_ok ?s" using session_okD(4) [OF ok] c wi unfolding links_ok_def by (simp add: conns)
    show "shadow_ok (il_accepted l) (il_acknowledged l) ?s" if "\<not> gs_stopped ?s"
      using session_okD(5) [OF ok] that by (simp add: shadow_ok_def)
    show "sent_ok qt (il_accepted l) (il_acknowledged l) ?s" if "\<not> gs_stopped ?s"
      using session_okD(6) [OF ok] that wi unfolding sent_ok_def by (simp add: conns)
  qed (use session_okD [OF ok] in simp_all)
  moreover have "sendInput c payload (cn_epoch (gs_conns s c)) 0 s = (Inr (), ?s)"
    by (rule sendInput_run [OF ep]) (simp add: sequence_in_range_def MAX_SAFE_def)
  ultimately show ?thesis by (auto simp: conns)
qed

lemma goodI: "session_ok qt l s \<Longrightarrow> within_range l \<Longrightarrow> good qt s"
  by (auto simp: good_def)

lemma good_keeps: "(\<And>l. session_ok qt l s \<Longrightarrow> session_ok qt l s') \<Longrightarrow> good qt s \<Longrightarrow> good qt s'"
  by (auto simp: good_def)

lemma good_acknowledge: "good qt s \<Longrightarrow> good qt (s\<lparr>gs_inputs := buffer_acknowledge n (gs_inputs s)\<rparr>)"
  using session_ok_acknowledge by (fastforce simp: good_def within_range_def log_acknowledge_def)

lemma good_stop: "good qt s \<Longrightarrow> good qt (session_stop s)"
  by (rule good_keeps [OF session_ok_stop])

lemma good_drop: "good qt s \<Longrightarrow> good qt (drop_session n m s)"
  by (rule good_keeps [OF session_ok_drop])

lemma good_settle: "good qt s \<Longrightarrow> c < gs_next s \<Longrightarrow> p \<noteq> NotPreparing \<Longrightarrow> good qt (settle c p s)"
  by (erule good_keeps [rotated]) (rule session_ok_settle)

lemma good_close: "good qt s \<Longrightarrow> c < gs_next s \<Longrightarrow> good qt (close_socket c s)"
  by (erule good_keeps [rotated]) (rule session_ok_close_socket)

lemma good_calm: "good qt s \<Longrightarrow> calm f \<Longrightarrow> c < gs_next s \<Longrightarrow> good qt (on_conn c f s)"
  by (erule good_keeps [rotated]) (rule session_ok_calm)

lemma good_outside [simp]:
  "good qt (down_send v s) = good qt s" "good qt (down_end n m s) = good qt s" "good qt (add_effect x s) = good qt s"
  "good qt (s\<lparr>gs_closed := b\<rparr>) = good qt s" "good qt (s\<lparr>gs_join := t, gs_initialJoin := v'\<rparr>) = good qt s"
  by (simp_all add: good_def)

lemma current_message_ok: "good qt s \<Longrightarrow> good qt (current_message c p s)"
  by (auto simp: current_message_def good_drop good_acknowledge split: sum.splits option.splits gateway_frame.splits)

lemma current_close_ok: "good qt s \<Longrightarrow> c < gs_next s \<Longrightarrow> good qt (current_close c s)"
  by (simp add: current_close_def Let_def good_drop good_calm)

lemma candidate_message_ok: "good qt s \<Longrightarrow> c < gs_next s \<Longrightarrow> good qt (candidate_message c p s)"
  by (auto simp: candidate_message_def reject_candidate_def good_close good_settle good_acknowledge candidate_output_def Let_def
      forwardCandidateFrame_def good_calm split: sum.splits option.splits gateway_frame.splits)

lemma candidate_close_ok: "good qt s \<Longrightarrow> c < gs_next s \<Longrightarrow> good qt (candidate_close c s)"
  by (simp add: candidate_close_def Let_def good_drop good_settle good_calm)

lemma candidate_error_ok: "good qt s \<Longrightarrow> c < gs_next s \<Longrightarrow> good qt (candidate_error c s)"
  by (simp add: candidate_error_def good_settle)

lemma receive_ok:
  assumes g: "good qt s"
  shows "good qt (snd (session_receive e now p as s))"
proof (cases "gs_stopped s")
  case True
  then show ?thesis using g by (simp add: session_receive_def bindE_def getsE_def ret_def)
next
  case live: False
  obtain l where ok: "session_ok qt l s" and range: "within_range l" using g by (auto simp: good_def)
  have plain: "good qt (snd (thenE (catchE (receive_input p) (\<lambda>m. modifyE (input_failed m))) (ret as) s))"
    using receive_input_ok [OF g live, of p] by (auto simp: thenE_def bindE_def ret_def)
  have join: "good qt (snd (receive_join t p now as s))" for t
  proof -
    let ?key = "joinAdmissionKey (sd_roomId (gs_data s)) (sd_gameId (gs_data s)) (jn_matchPriv t)"
    obtain b as' where adm: "admission_consume ?key (sd_sessionId (gs_data s)) now as = (b, as')"
      by (cases "admission_consume ?key (sd_sessionId (gs_data s)) now as")
    let ?s = "s\<lparr>gs_join := Some t, gs_initialJoin := Some p\<rparr>"
    have ok': "session_ok qt l ?s" using ok by simp
    show ?thesis
    proof (cases b)
      case False
      then show ?thesis
        using g adm by (simp add: receive_join_def bindE_def getsE_def thenE_def modifyE_def ret_def good_stop)
    next
      case True
      show ?thesis
      proof (cases "current_open ?s")
        case None
        then show ?thesis
          using g adm True by (simp add: receive_join_def bindE_def getsE_def thenE_def modifyE_def ret_def)
      next
        case (Some c)
        then have "gs_current ?s = Some c" by (auto simp: current_open_def split: option.splits if_splits)
        then have "c < gs_next ?s" using links_okD(2) [OF session_okD(4) [OF ok']] by blast
        from put_join_ok [OF ok' this, of p] obtain s' where
          "sendInput c p (cn_epoch (gs_conns ?s c)) 0 ?s = (Inr (), s')" "session_ok qt l s'" by blast
        then show ?thesis
          using adm True Some range
          by (simp add: receive_join_def bindE_def getsE_def thenE_def modifyE_def ret_def goodI)
      qed
    qed
  qed
  show ?thesis
    using plain join live g
    by (auto simp: session_receive_def bindE_def getsE_def ret_def throwE_def split: sum.splits option.splits)
qed

section \<open>Upstreams that open\<close>

lemma no_connection_ok [simp]: "wire_ok ps (no_connection\<lparr>cn_ready := r, cn_epoch := ep, cn_endpoint := u, cn_prepared := b\<rparr>)"
  "wire_ok ps (no_connection\<lparr>cn_ready := r, cn_epoch := ep, cn_endpoint := u\<rparr>)" "wire_ok ps no_connection"
  by (auto simp: wire_ok_def no_connection_def wire_inputs_def map_filter_def intro: exI [of _ "[]"])

lemma start_begin_ok:
  assumes ok: "session_ok qt l s" and "gs_current s = None" and "field_ok ep"
  shows "session_ok qt l (start_begin ep u s)"
proof (rule session_okI)
  let ?s = "start_begin ep u s"
  note d = session_okD [OF ok]
  show "links_ok ?s"
    using d(4) assms unfolding links_ok_def start_begin_def by (auto simp: less_Suc_eq no_connection_def)
  show "wire_ok (il_accepted l) (gs_conns ?s c)" for c
    using d(3) [of c] by (simp add: start_begin_def)
  show "shadow_ok (il_accepted l) (il_acknowledged l) ?s" if "\<not> gs_stopped ?s"
    using d(5) that by (simp add: shadow_ok_def start_begin_def)
  show "sent_ok qt (il_accepted l) (il_acknowledged l) ?s"
    by (simp add: sent_ok_def start_begin_def no_connection_def)
qed (use session_okD [OF ok] in \<open>simp_all add: start_begin_def\<close>)

lemma prepare_connect_ok:
  assumes ok: "session_ok qt l s" and "field_ok (gr_epoch r)"
  shows "session_ok qt l (prepare_connect r s)"
proof (rule session_okI)
  let ?s = "prepare_connect r s"
  note d = session_okD [OF ok]
  show "links_ok ?s"
    using d(4) assms(2) unfolding links_ok_def prepare_connect_def
    by (auto simp: less_Suc_eq no_connection_def wire_inputs_def map_filter_def)
  show "wire_ok (il_accepted l) (gs_conns ?s c)" for c
    using d(3) [of c] by (simp add: prepare_connect_def)
  show "shadow_ok (il_accepted l) (il_acknowledged l) ?s" if "\<not> gs_stopped ?s"
    using d(5) that by (simp add: shadow_ok_def prepare_connect_def)
  show "sent_ok qt (il_accepted l) (il_acknowledged l) ?s" if "\<not> gs_stopped ?s"
  proof -
    have "gs_current s \<noteq> Some (gs_next s)" using links_okD(2) [OF d(4)] by blast
    then show ?thesis using d(6) that by (simp add: sent_ok_def prepare_connect_def)
  qed
qed (use session_okD [OF ok] in \<open>simp_all add: prepare_connect_def\<close>)

text \<open>A connecting socket that opens; its own flush follows.\<close>

definition opened :: "nat \<Rightarrow> gsession \<Rightarrow> gsession" where
  "opened c = on_conn c (\<lambda>k. k\<lparr>cn_ready := Open\<rparr>)"

lemma opened_base:
  assumes ok: "session_ok qt l s" and c: "c < gs_next s"
  shows "base_ok l (opened c s)"
proof -
  have "wire_ok (il_accepted l) (gs_conns (opened c s) d)" for d
    using session_okD(3) [OF ok, of d] by (auto simp: wire_ok_def opened_def wire_inputs_def)
  moreover have "links_ok (opened c s)"
    using session_okD(4) [OF ok] c unfolding links_ok_def by (simp add: opened_def wire_inputs_def)
  ultimately show ?thesis
    using session_okD [OF ok] by (simp add: base_ok_def opened_def shadow_ok_def)
qed

lemma opened_sent:
  assumes ok: "session_ok qt l s" and "cn_ready (gs_conns s c) = Connecting" and "\<not> gs_stopped s"
  shows "sent_ok qt (il_accepted l) (il_acknowledged l) ((opened c s)\<lparr>gs_frozen := True\<rparr>)"
  using session_okD(6) [OF ok assms(3)] assms(2)
  by (fastforce simp: sent_ok_def opened_def wire_inputs_def)

lemma put_join_base:
  assumes ok: "base_ok l s" and c: "c < gs_next s"
    and sent: "\<not> gs_stopped s \<Longrightarrow> sent_ok qt (il_accepted l) (il_acknowledged l) (s\<lparr>gs_frozen := True\<rparr>)"
  shows "\<exists>s'. sendInput c payload (cn_epoch (gs_conns s c)) 0 s = (Inr (), s') \<and> base_ok l s'
    \<and> (\<not> gs_stopped s' \<longrightarrow> sent_ok qt (il_accepted l) (il_acknowledged l) (s'\<lparr>gs_frozen := True\<rparr>))
    \<and> gs_next s' = gs_next s \<and> gs_current s' = gs_current s \<and> gs_prepared s' = gs_prepared s \<and> gs_stopped s' = gs_stopped s
    \<and> cn_ready (gs_conns s' c) = cn_ready (gs_conns s c) \<and> s' = put_wire c [input_frame (cn_epoch (gs_conns s c)) (gs_tick s) 0 payload] s"
proof -
  let ?t = "s\<lparr>gs_frozen := True\<rparr>" and ?w = "input_frame (cn_epoch (gs_conns s c)) (gs_tick s) 0 payload"
  have ok': "session_ok qt l ?t" using ok sent by (simp add: session_ok_base base_ok_def links_ok_def shadow_ok_def)
  have ep: "field_ok (cn_epoch (gs_conns s c))" using links_okD(1) [OF base_okD(4) [OF ok] c] .
  have range0: "sequence_in_range 0" by (simp add: sequence_in_range_def MAX_SAFE_def)
  have t: "sendInput c payload (cn_epoch (gs_conns ?t c)) 0 ?t = (Inr (), put_wire c [?w] ?t)"
    using sendInput_run [OF ep range0, of c payload ?t] by simp
  have "session_ok qt l (put_wire c [?w] ?t)" using put_join_ok [OF ok', of c payload] c t by auto
  moreover have "put_wire c [?w] ?t = (put_wire c [?w] s)\<lparr>gs_frozen := True\<rparr>"
    by (simp add: put_wire_def on_conn_def is_open_def)
  ultimately have fin: "session_ok qt l ((put_wire c [?w] s)\<lparr>gs_frozen := True\<rparr>)" by simp
  then have "base_ok l (put_wire c [?w] s)"
    by (simp add: session_ok_base base_ok_def links_ok_def shadow_ok_def)
  with fin sendInput_run [OF ep range0, of c payload s] show ?thesis
    by (auto simp: session_ok_base put_wire_def)
qed

lemma start_opened_ok:
  assumes g: "good qt s" and c: "c < gs_next s" "gs_prepared s \<noteq> Some c" and connecting: "cn_ready (gs_conns s c) = Connecting"
  shows "good qt (snd (start_opened c s))"
proof -
  obtain l where ok: "session_ok qt l s" and range: "within_range l" using g by (auto simp: good_def)
  let ?o = "opened c s"
  have o: "base_ok l ?o" "c < gs_next ?o" "gs_prepared ?o \<noteq> Some c" "gs_stopped ?o = gs_stopped s" "cn_ready (gs_conns ?o c) = Open"
    using opened_base [OF ok c(1)] c by (simp_all add: opened_def)
  have sent: "\<not> gs_stopped ?o \<Longrightarrow> sent_ok qt (il_accepted l) (il_acknowledged l) (?o\<lparr>gs_frozen := True\<rparr>)"
    using opened_sent [OF ok connecting] o(4) by simp
  have oc: "gs_current ?o = gs_current s" "gs_frozen ?o = gs_frozen s" "\<forall>d. d \<noteq> c \<longrightarrow> gs_conns ?o d = gs_conns s d"
    by (simp_all add: opened_def)
  obtain t where t: "(case gs_initialJoin ?o of None \<Rightarrow> ret () | Some payload \<Rightarrow> sendInput c payload (cn_epoch (gs_conns ?o c)) 0) ?o = (Inr (), t)"
      "base_ok l t" "c < gs_next t" "gs_prepared t \<noteq> Some c" "cn_ready (gs_conns t c) = Open"
      "\<not> gs_stopped t \<longrightarrow> sent_ok qt (il_accepted l) (il_acknowledged l) (t\<lparr>gs_frozen := True\<rparr>)"
    and same: "gs_stopped t = gs_stopped s" "gs_current t = gs_current s" "gs_frozen t = gs_frozen s"
      "\<forall>d. d \<noteq> c \<longrightarrow> gs_conns t d = gs_conns s d"
  proof (cases "gs_initialJoin ?o")
    case None
    then show thesis using that [of ?o] o oc sent by (simp add: ret_def)
  next
    case (Some payload)
    obtain t where t: "sendInput c payload (cn_epoch (gs_conns ?o c)) 0 ?o = (Inr (), t)" "base_ok l t"
        "\<not> gs_stopped t \<longrightarrow> sent_ok qt (il_accepted l) (il_acknowledged l) (t\<lparr>gs_frozen := True\<rparr>)"
        "cn_ready (gs_conns t c) = cn_ready (gs_conns ?o c)"
        "t = put_wire c [input_frame (cn_epoch (gs_conns ?o c)) (gs_tick ?o) 0 payload] ?o"
      using put_join_base [OF o(1,2) sent, of payload] by blast
    show thesis
      by (rule that [of t]) (use t(1-4) o oc Some in \<open>simp_all add: t(5)\<close>)
  qed
  obtain s' where s': "flushInputs c t = (Inr (), s')" "base_ok l s'"
      "gs_current t = Some c \<and> sent_ok qt (il_accepted l) (il_acknowledged l) (t\<lparr>gs_frozen := True\<rparr>)
           \<and> cn_ready (gs_conns t c) \<noteq> Connecting \<longrightarrow> sent_ok qt (il_accepted l) (il_acknowledged l) s'"
      "\<exists>ws n. s' = sent_to c ws n t"
    using flush_run [OF t(2) range t(3,4)] by blast
  have run: "start_opened c s = (Inr (), s')"
    using t(1) s'(1)
    by (cases "gs_initialJoin s") (simp_all add: start_opened_def thenE_def bindE_def modifyE_def getsE_def opened_def ret_def)
  have "sent_ok qt (il_accepted l) (il_acknowledged l) s'" if live: "\<not> gs_stopped s'"
  proof (cases "gs_current t = Some c")
    case True
    then show ?thesis using s'(3,4) t(5,6) live by auto
  next
    case False
    then show ?thesis
      using s'(4) same session_okD(6) [OF ok] live by (auto simp: sent_ok_def sent_to_conns)
  qed
  with s'(2) range run show ?thesis by (auto simp: good_def session_ok_base)
qed

lemma prepare_opened_ok:
  assumes g: "good qt s" and c: "c < gs_next s" "cn_prepared (gs_conns s c)" and connecting: "cn_ready (gs_conns s c) = Connecting"
  shows "good qt (snd (prepare_opened e c token s))"
proof -
  obtain l where ok: "session_ok qt l s" and range: "within_range l" using g by (auto simp: good_def)
  let ?o = "opened c s"
  have cur: "gs_current s \<noteq> Some c" if qt "\<not> gs_stopped s"
    using session_okD(6) [OF ok that(2)] that(1) c connecting by (auto simp: sent_ok_def)
  have o: "session_ok qt l ?o"
    using opened_base [OF ok c(1)] session_okD(6) [OF ok] cur
    by (auto simp: session_ok_base sent_ok_def opened_def)
  have cn: "c < gs_next ?o" using c by (simp add: opened_def)
  show ?thesis
  proof (cases "\<exists>t payload. gs_join ?o = Some t \<and> writeGatewayJoin e t token = Inr payload")
    case True
    then obtain t payload where tp: "gs_join ?o = Some t" "writeGatewayJoin e t token = Inr payload" by auto
    from put_join_ok [OF o cn, of payload] obtain s' where
      s': "sendInput c payload (cn_epoch (gs_conns ?o c)) 0 ?o = (Inr (), s')" "session_ok qt l s'"
        "cn_ready (gs_conns s' c) = Open" "gs_next s' = gs_next ?o"
      by (auto simp: opened_def)
    have "session_ok qt l (on_conn c (\<lambda>k. k\<lparr>cn_promise := Waiting\<rparr>) s')"
    proof (rule session_okI)
      show "wire_ok (il_accepted l) (gs_conns (on_conn c (\<lambda>k. k\<lparr>cn_promise := Waiting\<rparr>) s') d)" for d
        using session_okD(3) [OF s'(2), of d] s'(3) by (auto simp: wire_ok_def wire_inputs_def)
      show "links_ok (on_conn c (\<lambda>k. k\<lparr>cn_promise := Waiting\<rparr>) s')"
        using session_okD(4) [OF s'(2)] cn s'(4) by (simp add: links_ok_def wire_inputs_def)
      show "shadow_ok (il_accepted l) (il_acknowledged l) (on_conn c (\<lambda>k. k\<lparr>cn_promise := Waiting\<rparr>) s')"
        if "\<not> gs_stopped (on_conn c (\<lambda>k. k\<lparr>cn_promise := Waiting\<rparr>) s')"
        using session_okD(5) [OF s'(2)] that by (simp add: shadow_ok_def)
      show "sent_ok qt (il_accepted l) (il_acknowledged l) (on_conn c (\<lambda>k. k\<lparr>cn_promise := Waiting\<rparr>) s')"
        if "\<not> gs_stopped (on_conn c (\<lambda>k. k\<lparr>cn_promise := Waiting\<rparr>) s')"
        using session_okD(6) [OF s'(2)] that by (auto simp: sent_ok_def wire_inputs_def)
    qed (use session_okD [OF s'(2)] in simp_all)
    moreover have "snd (prepare_opened e c token s) = on_conn c (\<lambda>k. k\<lparr>cn_promise := Waiting\<rparr>) s'"
      using tp s'(1) by (simp add: prepare_opened_def thenE_def bindE_def modifyE_def getsE_def opened_def)
    ultimately show ?thesis using range by (simp add: goodI)
  next
    case False
    then have "snd (prepare_opened e c token s) = ?o"
      by (auto simp: prepare_opened_def thenE_def bindE_def modifyE_def getsE_def opened_def throwE_def split: option.splits sum.splits)
    then show ?thesis using o range by (simp add: goodI)
  qed
qed

lemma abort_ok:
  assumes g: "good qt s" and open': "\<And>c. qt \<Longrightarrow> gs_current s = Some c \<Longrightarrow> cn_ready (gs_conns s c) \<noteq> Connecting"
  shows "good qt (snd (abortPrepared s))"
proof -
  obtain l where ok: "session_ok qt l s" and range: "within_range l" using g by (auto simp: good_def)
  note lk = links_okD [OF session_okD(4) [OF ok]]
  let ?t = "(close_opt (gs_prepared s) s)\<lparr>gs_prepared := None, gs_frozen := False\<rparr>"
  have closed: "session_ok qt l (close_opt (gs_prepared s) s)" by (rule session_ok_close_opt [OF ok]) (rule lk(3))
  have base: "base_ok l ?t"
    using closed by (auto simp: session_ok_base base_ok_def links_ok_def shadow_ok_def)
  have frozen: "\<not> gs_stopped ?t \<Longrightarrow> sent_ok qt (il_accepted l) (il_acknowledged l) (?t\<lparr>gs_frozen := True\<rparr>)"
    using session_okD(6) [OF closed] by (auto simp: sent_ok_def)
  have conns: "gs_conns ?t c = gs_conns s c" if "gs_current s = Some c" for c
    using lk(4) that by (auto simp: close_opt_def close_socket_def split: option.splits)
  show ?thesis
  proof (cases "gs_current s")
    case None
    then have "sent_ok qt (il_accepted l) (il_acknowledged l) ?t" by (simp add: sent_ok_def)
    then show ?thesis
      using None base range
      by (auto simp: abortPrepared_def thenE_def bindE_def modifyE_def getsE_def ret_def good_def session_ok_base)
  next
    case (Some c)
    have c: "c < gs_next ?t" "gs_prepared ?t \<noteq> Some c" using lk(2) Some by simp_all
    obtain s' where s': "flushInputs c ?t = (Inr (), s')" "base_ok l s'"
      "gs_current ?t = Some c \<and> sent_ok qt (il_accepted l) (il_acknowledged l) (?t\<lparr>gs_frozen := True\<rparr>)
           \<and> cn_ready (gs_conns ?t c) \<noteq> Connecting \<longrightarrow> sent_ok qt (il_accepted l) (il_acknowledged l) s'"
      "\<exists>ws n. s' = sent_to c ws n ?t"
      using flush_run [OF base range c] by blast
    have "sent_ok qt (il_accepted l) (il_acknowledged l) s'" if "\<not> gs_stopped s'"
    proof (rule sent_ok_quiet)
      assume qt
      then show ?thesis using s'(3,4) frozen that open' [OF _ Some] conns [OF Some] Some by auto
    qed
    then show ?thesis
      using s'(1,2) Some range
      by (auto simp: abortPrepared_def thenE_def bindE_def modifyE_def getsE_def good_def session_ok_base)
  qed
qed

end
