(* ===== verification/GatewayReplay.thy ===== *)
theory GatewayReplay
  imports GatewaySessionFacts
begin

text \<open>
  The cutover of a session and the whole life of one: what a commit replays, the relation of a session's
  events and what holds of every session that can be reached.
\<close>

section \<open>The replay of a cutover\<close>

lemma merge_keys:
  "distinct (map bi_sequence (pre @ es)) \<Longrightarrow>
     foldl (\<lambda>m e. oput (bi_sequence e) e m) (map (\<lambda>e. (bi_sequence e, e)) pre) es = map (\<lambda>e. (bi_sequence e, e)) (pre @ es)"
proof (induction es arbitrary: pre)
  case (Cons e es)
  have "bi_sequence e \<notin> fst ` set (map (\<lambda>e. (bi_sequence e, e)) pre)" using Cons.prems by auto
  then have "oput (bi_sequence e) e (map (\<lambda>e. (bi_sequence e, e)) pre) = map (\<lambda>e. (bi_sequence e, e)) (pre @ [e])"
    by (simp add: oput_fresh)
  then show ?case using Cons.IH [of "pre @ [e]"] Cons.prems by simp
qed simp

lemma merge_again:
  assumes "distinct (map bi_sequence pre)" and "set es \<subseteq> set pre"
  shows "foldl (\<lambda>m e. oput (bi_sequence e) e m) (map (\<lambda>e. (bi_sequence e, e)) pre) es = map (\<lambda>e. (bi_sequence e, e)) pre"
  using assms(2)
proof (induction es)
  case (Cons e es)
  have "map_of (map (\<lambda>e. (bi_sequence e, e)) pre) (bi_sequence e) = Some e"
    using Cons.prems assms(1) by (intro map_of_is_SomeI) (auto simp: comp_def)
  then have "oput (bi_sequence e) e (map (\<lambda>e. (bi_sequence e, e)) pre) = map (\<lambda>e. (bi_sequence e, e)) pre"
    by (rule oput_same)
  then show ?case using Cons by simp
qed simp

lemma sorted_numbered:
  assumes "sorted_wrt (<) js"
  shows "sorted_wrt (<) (map bi_sequence (map (numbered ps) js))"
  using assms by (induction js) (auto simp: numbered_def)

lemma merge_sorted:
  assumes "sorted_wrt (<) (map bi_sequence es)"
  shows "sort_key bi_sequence es = es" and "distinct (map bi_sequence es)"
  using assms strict_sorted_imp_sorted strict_sorted_iff by (auto intro: sort_key_id_if_sorted)

lemma mergeRollback_shadow:
  assumes "sorted_wrt (<) (map bi_sequence shadow)" and "set unacked \<subseteq> set shadow"
  shows "mergeRollbackInputs shadow unacked = shadow"
  using merge_keys [of "[]" shadow] merge_again [OF merge_sorted(2) [OF assms(1)] assms(2)] merge_sorted [OF assms(1)]
  by (simp add: mergeRollbackInputs_def comp_def)

lemma mergeRollback_fresh:
  assumes "sorted_wrt (<) (map bi_sequence unacked)"
  shows "mergeRollbackInputs [] unacked = unacked"
  using merge_keys [of "[]" unacked] merge_sorted [OF assms] by (simp add: mergeRollbackInputs_def comp_def)

lemma retain_all:
  assumes "distinct (map bi_sequence (gs_shadow s @ es))" and "\<forall>e \<in> set es. 0 \<le> bi_bytes e"
    and "int (length (gs_shadow s @ es)) \<le> ib_maxMessages (gs_inputs s)"
    and "gs_shadowBytes s + sum_list (map bi_bytes es) \<le> ib_maxBytes (gs_inputs s)"
  shows "forE es retainForRollback s
    = (Inr (), s\<lparr>gs_shadow := gs_shadow s @ es, gs_shadowBytes := gs_shadowBytes s + sum_list (map bi_bytes es)\<rparr>)"
  using assms
proof (induction es arbitrary: s)
  case (Cons e es)
  have pos: "0 \<le> sum_list (map bi_bytes es)" using Cons.prems(2) by (auto intro!: sum_list_nonneg)
  let ?s = "s\<lparr>gs_shadow := gs_shadow s @ [e], gs_shadowBytes := gs_shadowBytes s + bi_bytes e\<rparr>"
  have "bi_sequence e \<notin> bi_sequence ` set (gs_shadow s)" using Cons.prems(1) by simp
  then have "\<not> (\<exists>x \<in> set (gs_shadow s). bi_sequence x = bi_sequence e)" by (metis image_eqI)
  then have "retainForRollback e s = (Inr (), ?s)" using Cons.prems(3,4) pos by (subst retain_eq) simp
  moreover have "forE es retainForRollback ?s
      = (Inr (), ?s\<lparr>gs_shadow := gs_shadow ?s @ es, gs_shadowBytes := gs_shadowBytes ?s + sum_list (map bi_bytes es)\<rparr>)"
    by (rule Cons.IH) (use Cons.prems in simp_all)
  ultimately show ?case by (simp add: thenE_def bindE_def add.assoc)
qed (simp add: ret_def)

lemma setRollback_run:
  assumes "distinct (map bi_sequence es)" and "\<forall>e \<in> set es. 0 \<le> bi_bytes e"
    and "int (length es) \<le> ib_maxMessages (gs_inputs s)" and "sum_list (map bi_bytes es) \<le> ib_maxBytes (gs_inputs s)"
  shows "setRollbackInputs es s = (Inr (), s\<lparr>gs_shadow := es, gs_shadowBytes := sum_list (map bi_bytes es)\<rparr>)"
  using retain_all [of "s\<lparr>gs_shadow := [], gs_shadowBytes := 0\<rparr>" es] assms
  by (simp add: setRollbackInputs_def thenE_def bindE_def modifyE_def)

text \<open>What is replayed: the retained inputs of a verification under way, otherwise what is not acknowledged.\<close>

definition replay_of :: "gsession \<Rightarrow> buffered list" where
  "replay_of s = (if gs_verifying s then gs_shadow s else ib_entries (gs_inputs s))"

lemma replay_facts:
  assumes ok: "session_ok qt l s" and live: "\<not> gs_stopped s"
  obtains us where "replay_of s = map (numbered (il_accepted l)) us" and "sorted_wrt (<) us"
    and "\<forall>i \<in> set us. i < length (il_accepted l)" and "{il_acknowledged l..<length (il_accepted l)} \<subseteq> set us"
    and "mergeRollbackInputs (gs_shadow s) (buffer_replay (gs_inputs s)) = replay_of s"
    and "int (length us) \<le> ib_maxMessages (gs_inputs s)"
    and "sum_list (map bi_bytes (replay_of s)) \<le> ib_maxBytes (gs_inputs s)"
proof -
  let ?ps = "il_accepted l" and ?a = "il_acknowledged l"
  note d = session_okD [OF ok]
  have entries: "ib_entries (gs_inputs s) = map (numbered ?ps) [?a..<length ?ps]" by (rule pending(1) [OF d(1)])
  note b = buffer_inv_facts [OF d(2)]
  obtain js where js: "sorted_wrt (<) js" "\<forall>j \<in> set js. j < length ?ps" "gs_shadow s = map (numbered ?ps) js"
      "int (length js) \<le> ib_maxMessages (gs_inputs s)" "gs_shadowBytes s = sum_list (map bi_bytes (gs_shadow s))"
      "gs_shadowBytes s \<le> ib_maxBytes (gs_inputs s)" "if gs_verifying s then {?a..<length ?ps} \<subseteq> set js else js = []"
    using d(5) [OF live] by (auto simp: shadow_ok_def)
  show thesis
  proof (cases "gs_verifying s")
    case True
    have "set (ib_entries (gs_inputs s)) \<subseteq> set (gs_shadow s)" unfolding entries js(3) using js(7) True by auto
    moreover have "sorted_wrt (<) (map bi_sequence (gs_shadow s))" unfolding js(3) by (rule sorted_numbered [OF js(1)])
    ultimately have "mergeRollbackInputs (gs_shadow s) (ib_entries (gs_inputs s)) = gs_shadow s"
      by (rule mergeRollback_shadow [rotated])
    then show thesis using True js by (intro that [of js]) (simp_all add: replay_of_def b(2))
  next
    case False
    have "mergeRollbackInputs [] (ib_entries (gs_inputs s)) = ib_entries (gs_inputs s)" by (rule mergeRollback_fresh [OF b(1)])
    then show thesis
      using False js b entries by (intro that [of "[?a..<length ?ps]"]) (simp_all add: replay_of_def sorted_wrt_upt)
  qed
qed

section \<open>A commit\<close>

lemma fold_down_send: "fold down_send vs s = s\<lparr>gs_down := gs_down s @ vs\<rparr>"
  by (induction vs arbitrary: s) (simp_all add: down_send_def)

text \<open>The state before the replay is sent, with what the rest of the commit sets.\<close>

definition switched :: "nat \<Rightarrow> buffered list \<Rightarrow> gsession \<Rightarrow> gsession" where
  "switched c replay s =
     (close_opt (gs_current s) ((on_conn c (\<lambda>k. k\<lparr>cn_committed := True\<rparr>) s)\<lparr>gs_current := Some c, gs_prepared := None\<rparr>))
       \<lparr>gs_down := gs_down s @ cn_frames (gs_conns s c), gs_shadow := replay, gs_shadowBytes := sum_list (map bi_bytes replay),
        gs_verifying := True, gs_frozen := False\<rparr>"

lemma switched_simps [simp]:
  "gs_inputs (switched c es s) = gs_inputs s" "gs_next (switched c es s) = gs_next s" "gs_current (switched c es s) = Some c"
  "gs_prepared (switched c es s) = None" "gs_stopped (switched c es s) = gs_stopped s" "gs_shadow (switched c es s) = es"
  "gs_shadowBytes (switched c es s) = sum_list (map bi_bytes es)" "gs_verifying (switched c es s)" "\<not> gs_frozen (switched c es s)"
  "gs_tick (switched c es s) = gs_tick s" "gs_down (switched c es s) = gs_down s @ cn_frames (gs_conns s c)"
  "gs_effects (switched c es s) = gs_effects s"
  by (simp_all add: switched_def close_opt_def close_socket_def on_conn_def split: option.splits)

lemma switched_conns:
  assumes "gs_current s \<noteq> Some c"
  shows "gs_conns (switched c es s) d = (if d = c then (gs_conns s c)\<lparr>cn_committed := True\<rparr>
     else if gs_current s = Some d then gs_conns (close_socket d s) d else gs_conns s d)"
  using assms by (auto simp: switched_def close_opt_def close_socket_def split: option.splits)

lemma commit_runs:
  assumes live: "\<not> gs_stopped s" and elsewhere: "\<not> plays_on r s" and c: "gs_prepared s = Some c" "same_upstream r c s"
    and other: "gs_current s \<noteq> Some c" and ep: "field_ok (cn_epoch (gs_conns s c))"
    and merged: "mergeRollbackInputs (gs_shadow s) (buffer_replay (gs_inputs s)) = es"
    and range: "\<forall>e \<in> set es. sequence_in_range (bi_sequence e)"
    and fits: "distinct (map bi_sequence es)" "\<forall>e \<in> set es. 0 \<le> bi_bytes e" "int (length es) \<le> ib_maxMessages (gs_inputs s)"
      "sum_list (map bi_bytes es) \<le> ib_maxBytes (gs_inputs s)"
  shows "commitPrepared r s = (Inr (length es), add_effect (ReplayedInputs (length es))
     (sent_to c (frames_of (cn_epoch (gs_conns s c)) (gs_tick s) es) (last_sequence_or es (ib_acknowledged (gs_inputs s))) (switched c es s)))"
proof -
  let ?t = "close_opt (gs_current s) ((on_conn c (\<lambda>k. k\<lparr>cn_committed := True\<rparr>) s)\<lparr>gs_current := Some c, gs_prepared := None\<rparr>)"
  let ?u = "?t\<lparr>gs_down := gs_down s @ cn_frames (gs_conns s c)\<rparr>"
  let ?ws = "frames_of (cn_epoch (gs_conns s c)) (gs_tick s) es"
  have t: "cn_frames (gs_conns ?t c) = cn_frames (gs_conns s c)" "gs_down ?t = gs_down s" "gs_tick ?u = gs_tick s"
    using other by (auto simp: close_opt_def close_socket_def on_conn_def split: option.splits)
  have frames: "fold down_send (cn_frames (gs_conns ?t c)) ?t = ?u"
    by (simp only: fold_down_send t)
  have send: "sendEntries c (cn_epoch (gs_conns s c)) es ?u = (Inr (), put_wire c ?ws ?u)"
    using sendEntries_run [OF ep range, of c ?u] t(3) by simp
  have keep: "setRollbackInputs es (put_wire c ?ws ?u)
      = (Inr (), (put_wire c ?ws ?u)\<lparr>gs_shadow := es, gs_shadowBytes := sum_list (map bi_bytes es)\<rparr>)"
    by (rule setRollback_run) (use fits in simp_all)
  have final: "(on_conn c (\<lambda>k. k\<lparr>cn_sentThrough := n\<rparr>) ((put_wire c ws ?u)\<lparr>gs_shadow := es, gs_shadowBytes := b\<rparr>))
      \<lparr>gs_verifying := True, gs_frozen := False\<rparr>
      = sent_to c ws n (?u\<lparr>gs_shadow := es, gs_shadowBytes := b, gs_verifying := True, gs_frozen := False\<rparr>)" for n b ws
    by (auto simp: put_wire_def sent_to_def on_conn_def is_open_def)
  show ?thesis
    using c elsewhere live frames send keep merged
    by (simp add: commitPrepared_def replay_to_def bindE_def thenE_def getsE_def modifyE_def ret_def final switched_def)
qed

text \<open>The candidate has been prepared: it has settled, so its socket has opened at some time.\<close>

lemma switched_base:
  assumes ok: "session_ok qt l s" and c: "gs_prepared s = Some c"
    and us: "es = map (numbered (il_accepted l)) us" "sorted_wrt (<) us" "\<forall>i \<in> set us. i < length (il_accepted l)"
      "{il_acknowledged l..<length (il_accepted l)} \<subseteq> set us" "int (length us) \<le> ib_maxMessages (gs_inputs s)"
      "sum_list (map bi_bytes es) \<le> ib_maxBytes (gs_inputs s)"
  shows "base_ok l (switched c es s)"
proof -
  note d = session_okD [OF ok]
  note lk = links_okD [OF d(4)]
  have other: "gs_current s \<noteq> Some c" by (rule lk(4) [OF c])
  have closed: "wire_ok (il_accepted l) (gs_conns (close_socket b s) b)" for b
    using calm_wire_ok [OF calm_updates(1) d(3) [of b]] by (simp add: close_socket_def)
  have "wire_ok (il_accepted l) (gs_conns (switched c es s) b)" for b
  proof (cases "b = c")
    case True
    then show ?thesis using d(3) [of c] by (simp add: switched_conns [OF other] wire_ok_def wire_inputs_def)
  next
    case False
    then show ?thesis using d(3) [of b] closed by (simp add: switched_conns [OF other])
  qed
  moreover have "links_ok (switched c es s)"
    using d(4) lk(2,3) c unfolding links_ok_def by (auto simp: switched_conns [OF other] close_socket_def)
  moreover have "shadow_ok (il_accepted l) (il_acknowledged l) (switched c es s)"
    using us unfolding shadow_ok_def by auto
  ultimately show ?thesis using d(1,2) by (simp add: base_ok_def)
qed

lemma last_replayed:
  assumes us: "sorted_wrt (<) us" "\<forall>i \<in> set us. i < length ps" and "a \<le> length ps"
  defines "t \<equiv> last_sequence_or (map (numbered ps) us) (int a)"
  shows "0 \<le> t" and "t \<le> int (length ps)" and "\<forall>i \<in> set us. int i + 1 \<le> t"
proof -
  have t: "t = (if us = [] then int a else int (last us) + 1)"
    by (simp add: t_def last_sequence_or_def last_map numbered_def)
  show "0 \<le> t" using t by simp
  show "t \<le> int (length ps)" using t us(2) assms(3) by (cases us rule: rev_cases) auto
  show "\<forall>i \<in> set us. int i + 1 \<le> t" using t sorted_le_last [OF us(1)] by (auto simp: Suc_le_eq)
qed

lemma add_effect_simps [simp]:
  "gs_current (add_effect x s) = gs_current s" "gs_prepared (add_effect x s) = gs_prepared s"
  "gs_frozen (add_effect x s) = gs_frozen s" "gs_verifying (add_effect x s) = gs_verifying s" "gs_down (add_effect x s) = gs_down s"
  "gs_conns (add_effect x s) = gs_conns s" "gs_shadow (add_effect x s) = gs_shadow s" "gs_stopped (add_effect x s) = gs_stopped s"
  by (simp_all add: add_effect_def)

lemma sent_to_down [simp]: "gs_down (sent_to c ws t s) = gs_down s"
  by (simp add: sent_to_def on_conn_def)

text \<open>What a commit does, in one equation.\<close>

lemma commit_final:
  assumes g: "good qt s" and live: "\<not> gs_stopped s" and elsewhere: "\<not> plays_on r s"
    and c: "gs_prepared s = Some c" "same_upstream r c s"
  shows "commitPrepared r s = (Inr (length (replay_of s)), add_effect (ReplayedInputs (length (replay_of s)))
     (sent_to c (frames_of (cn_epoch (gs_conns s c)) (gs_tick s) (replay_of s))
        (last_sequence_or (replay_of s) (ib_acknowledged (gs_inputs s))) (switched c (replay_of s) s)))"
    and "gs_current s \<noteq> Some c" and "wire_inputs (gs_conns s c) = []"
proof -
  obtain l where ok: "session_ok qt l s" and range: "within_range l" using g by (auto simp: good_def)
  note lk = links_okD [OF session_okD(4) [OF ok]]
  show other: "gs_current s \<noteq> Some c" and "wire_inputs (gs_conns s c) = []" using lk(4,5) c by blast+
  have ep: "field_ok (cn_epoch (gs_conns s c))" using lk(1,3) c by blast
  obtain us where us: "replay_of s = map (numbered (il_accepted l)) us" "sorted_wrt (<) us" "\<forall>i \<in> set us. i < length (il_accepted l)"
    and merged: "mergeRollbackInputs (gs_shadow s) (buffer_replay (gs_inputs s)) = replay_of s"
    and fits: "int (length us) \<le> ib_maxMessages (gs_inputs s)" "sum_list (map bi_bytes (replay_of s)) \<le> ib_maxBytes (gs_inputs s)"
    by (rule replay_facts [OF ok live])
  show "commitPrepared r s = (Inr (length (replay_of s)), add_effect (ReplayedInputs (length (replay_of s)))
     (sent_to c (frames_of (cn_epoch (gs_conns s c)) (gs_tick s) (replay_of s))
        (last_sequence_or (replay_of s) (ib_acknowledged (gs_inputs s))) (switched c (replay_of s) s)))"
    using us numbered_in_range [OF range] fits merge_sorted(2) [OF sorted_numbered [OF us(2)]]
    by (intro commit_runs [OF live elsewhere c other ep merged]) (auto simp: numbered_def)
qed

text \<open>A commit never throws, sends the retained inputs in order and nothing else, and retains the invariant.\<close>

lemma commit_facts:
  assumes g: "good qt s" and live: "\<not> gs_stopped s" and elsewhere: "\<not> plays_on r s"
    and c: "gs_prepared s = Some c" "same_upstream r c s" and settled: "qt \<Longrightarrow> cn_promise (gs_conns s c) \<noteq> NotPreparing"
  shows "\<exists>s'. commitPrepared r s = (Inr (length (replay_of s)), s') \<and> good qt s' \<and> gs_current s' = Some c \<and> gs_prepared s' = None
    \<and> \<not> gs_frozen s' \<and> gs_verifying s' \<and> gs_down s' = gs_down s @ cn_frames (gs_conns s c)
    \<and> cn_ready (gs_conns s' c) = cn_ready (gs_conns s c) \<and> gs_shadow s' = replay_of s
    \<and> wire_inputs (gs_conns s' c)
        = (if is_open c s then map (\<lambda>e. (bi_sequence e, bi_payload e)) (replay_of s) else [])"
proof -
  obtain l where ok: "session_ok qt l s" and range: "within_range l" using g by (auto simp: good_def)
  note d = session_okD [OF ok]
  note lk = links_okD [OF d(4)]
  have other: "gs_current s \<noteq> Some c" and ep: "field_ok (cn_epoch (gs_conns s c))" and fresh: "wire_inputs (gs_conns s c) = []"
    and zero: "cn_sentThrough (gs_conns s c) = 0"
    using lk(1,3,4,5) c(1) d(4) by (auto simp: links_ok_def)
  let ?es = "replay_of s" and ?ps = "il_accepted l" and ?a = "il_acknowledged l"
  let ?t = "last_sequence_or ?es (ib_acknowledged (gs_inputs s))" and ?ws = "frames_of (cn_epoch (gs_conns s c)) (gs_tick s) ?es"
  obtain us where us: "?es = map (numbered ?ps) us" "sorted_wrt (<) us" "\<forall>i \<in> set us. i < length ?ps" "{?a..<length ?ps} \<subseteq> set us"
    and merged: "mergeRollbackInputs (gs_shadow s) (buffer_replay (gs_inputs s)) = ?es"
    and fits: "int (length us) \<le> ib_maxMessages (gs_inputs s)" "sum_list (map bi_bytes ?es) \<le> ib_maxBytes (gs_inputs s)"
    by (rule replay_facts [OF ok live])
  have ack: "ib_acknowledged (gs_inputs s) = int ?a" "?a \<le> length ?ps" using implementsD [OF d(1)] by simp_all
  note t = last_replayed [OF us(2,3) ack(2), folded us(1) ack(1)]
  have ready: "cn_ready (gs_conns s c) \<noteq> Connecting" if qt using d(3) [of c] settled [OF that] by (auto simp: wire_ok_def)
  have ws: "List.map_filter input_of ?ws = map (entry_of ?ps) us"
    unfolding us(1) by (rule frames_numbered [OF ep range us(3)])
  let ?s = "switched c ?es s"
  have base: "base_ok l (sent_to c ?ws ?t ?s)"
    by (rule base_ok_send [OF switched_base [OF ok c(1) us fits], of c us])
       (use lk(3) [OF c(1)] us(2,3) t zero ws in \<open>simp_all add: switched_conns [OF other]\<close>)
  have pre: "sent_ok qt ?ps ?a (?s\<lparr>gs_frozen := True\<rparr>)"
    using ready zero by (simp add: sent_ok_def switched_conns [OF other])
  have "sent_ok qt ?ps ?a (sent_to c ?ws ?t ?s)"
  proof (rule sent_ok_quiet)
    assume quiet: qt
    show ?thesis
      by (rule sent_ok_send [OF quiet _ pre _ ws])
        (use ready [OF quiet] us(4) t(3) in \<open>auto simp: switched_conns [OF other]\<close>)
  qed
  then have "good qt (sent_to c ?ws ?t ?s)" using base range by (simp add: good_def session_ok_base exI [of _ l])
  moreover have "wire_inputs (gs_conns (sent_to c ?ws ?t ?s) c)
      = (if is_open c s then map (\<lambda>e. (bi_sequence e, bi_payload e)) ?es else [])"
    using ws fresh entry_of_numbered [of ?ps]
    by (simp add: sent_to_conns switched_conns [OF other] wire_inputs_def us(1) is_open_def map_filter_def)
  moreover note commit_final(1) [OF g live elsewhere c]
  moreover have "cn_ready (gs_conns (sent_to c ?ws ?t ?s) c) = cn_ready (gs_conns s c)"
    by (simp add: sent_to_conns switched_conns [OF other])
  ultimately show ?thesis
    by (intro exI [of _ "add_effect (ReplayedInputs (length ?es)) (sent_to c ?ws ?t ?s)"]) simp
qed

section \<open>The life of a session\<close>

text \<open>
  One rule for each event.  The handlers of a socket run only for a socket that has them: the first
  upstream's are installed with the connection, a candidate's when its join has been sent.  An asynchronous
  method may be resumed at any later state.  In a patient step a freeze is aborted only when the current
  upstream is not still connecting, and a commit is asked only for a candidate that has answered.
\<close>

inductive patient_step :: "net_env \<Rightarrow> gsession \<Rightarrow> gsession \<Rightarrow> bool" for e where
  started: "gs_next s = 0 \<Longrightarrow> field_ok epoch \<Longrightarrow> patient_step e s (start_begin epoch endpoint s)"
| connected: "c < gs_next s \<Longrightarrow> \<not> cn_prepared (gs_conns s c) \<Longrightarrow> cn_ready (gs_conns s c) = Connecting
    \<Longrightarrow> patient_step e s (snd (start_opened c s))"
| connect_timeout: "c < gs_next s \<Longrightarrow> patient_step e s (open_timeout c s)"
| connect_failed: "patient_step e s (start_failed s)"
| upstream_frame: "patient_step e s (current_message c payload s)"
| upstream_closed: "c < gs_next s \<Longrightarrow> patient_step e s (current_close c s)"
| received: "patient_step e s (snd (session_receive e now payload as s))"
| browser_closed: "patient_step e s (downstream_close s)"
| candidate: "field_ok (gr_epoch r) \<Longrightarrow> patient_step e s (prepare_connect r s)"
| candidate_connected: "c < gs_next s \<Longrightarrow> cn_prepared (gs_conns s c) \<Longrightarrow> cn_ready (gs_conns s c) = Connecting
    \<Longrightarrow> patient_step e s (snd (prepare_opened e c token s))"
| candidate_frame: "c < gs_next s \<Longrightarrow> patient_step e s (candidate_message c payload s)"
| candidate_closed: "c < gs_next s \<Longrightarrow> patient_step e s (candidate_close c s)"
| candidate_failed: "c < gs_next s \<Longrightarrow> patient_step e s (candidate_error c s)"
| candidate_late: "c < gs_next s \<Longrightarrow> patient_step e s (candidate_timeout c s)"
| frozen: "patient_step e s (session_freeze s)"
| verified: "patient_step e s (finalizeVerification s)"
| aborted: "(\<And>c. gs_current s = Some c \<Longrightarrow> cn_ready (gs_conns s c) \<noteq> Connecting) \<Longrightarrow> patient_step e s (snd (abortPrepared s))"
| committed: "(gs_stopped s \<Longrightarrow> gs_prepared s = None) \<Longrightarrow> (\<And>c. gs_prepared s = Some c \<Longrightarrow> cn_promise (gs_conns s c) \<noteq> NotPreparing)
    \<Longrightarrow> patient_step e s (snd (commitPrepared r s))"

text \<open>
  The code has no such checks: a room may abort at any time, and a repeated cutover request may commit a
  candidate that is still connecting.  (Left out is the commit of a stopped session to a candidate whose match
  arrived after the stop.)
\<close>

inductive session_step :: "net_env \<Rightarrow> gsession \<Rightarrow> gsession \<Rightarrow> bool" for e where
  patient: "patient_step e s s' \<Longrightarrow> session_step e s s'"
| aborted_early: "session_step e s (snd (abortPrepared s))"
| committed_early: "(gs_stopped s \<Longrightarrow> gs_prepared s = None) \<Longrightarrow> session_step e s (snd (commitPrepared r s))"

inductive patient_reach :: "net_env \<Rightarrow> gsession \<Rightarrow> bool" for e where
  fresh: "new_buffer max_messages max_bytes = Inr b \<Longrightarrow> patient_reach e (new_session d b)"
| next_step: "patient_reach e s \<Longrightarrow> patient_step e s s' \<Longrightarrow> patient_reach e s'"

inductive session_reach :: "net_env \<Rightarrow> gsession \<Rightarrow> bool" for e where
  initial: "new_buffer max_messages max_bytes = Inr b
    \<Longrightarrow> session_reach e (new_session d b)"
| later: "session_reach e s \<Longrightarrow> session_step e s s' \<Longrightarrow> session_reach e s'"

lemma patient_reached: "patient_reach e s \<Longrightarrow> session_reach e s"
  by (induction rule: patient_reach.induct) (auto intro: initial later patient)

lemma good_downstream_close: "good qt s \<Longrightarrow> good qt (downstream_close s)"
  unfolding downstream_close_def by (rule good_stop) simp

lemma good_start_failed: "good qt s \<Longrightarrow> good qt (start_failed s)"
  unfolding start_failed_def by (rule good_stop) simp

lemma good_start_begin:
  assumes "good qt s" and "gs_next s = 0" and "field_ok epoch"
  shows "good qt (start_begin epoch endpoint s)"
proof -
  have "gs_current s = None" using assms(1,2) by (auto simp: good_def session_ok_def links_ok_def)
  then show ?thesis using assms(1,3) by (auto intro: good_keeps [OF start_begin_ok])
qed

lemma commit_idle:
  assumes "plays_on r s \<or> (\<forall>c. gs_prepared s = Some c \<longrightarrow> \<not> same_upstream r c s)"
  shows "snd (commitPrepared r s) = s"
  using assms by (auto simp: commitPrepared_def bindE_def getsE_def ret_def throwE_def split: option.splits)

lemma good_commit:
  assumes g: "good qt s" and live: "gs_stopped s \<Longrightarrow> gs_prepared s = None"
    and settled: "\<And>c. qt \<Longrightarrow> gs_prepared s = Some c \<Longrightarrow> cn_promise (gs_conns s c) \<noteq> NotPreparing"
  shows "good qt (snd (commitPrepared r s))"
proof (cases "\<not> plays_on r s \<and> (\<exists>c. gs_prepared s = Some c \<and> same_upstream r c s)")
  case True
  then obtain c where c: "\<not> plays_on r s" "gs_prepared s = Some c" "same_upstream r c s" by blast
  moreover have "\<not> gs_stopped s" using live c(2) by auto
  ultimately show ?thesis using commit_facts [OF g, of r c] settled [of c] by auto
next
  case False
  then show ?thesis using g commit_idle [of r s] by auto
qed

lemma not_prepared:
  assumes "good qt s" and "\<not> cn_prepared (gs_conns s c)"
  shows "gs_prepared s \<noteq> Some c"
  using assms by (auto simp: good_def session_ok_def links_ok_def)

lemma good_patient:
  assumes "patient_step e s s'" and g: "good qt s"
  shows "good qt s'"
  using assms(1)
proof cases
  case (started epoch endpoint)
  then show ?thesis using good_start_begin [OF g] by simp
next
  case (connected c)
  then show ?thesis using start_opened_ok [OF g] not_prepared [OF g] by simp
next
  case (connect_timeout c)
  then show ?thesis using good_close [OF g] by (simp add: open_timeout_def)
next
  case connect_failed
  then show ?thesis using good_start_failed [OF g] by simp
next
  case upstream_frame
  then show ?thesis using current_message_ok [OF g] by simp
next
  case upstream_closed
  then show ?thesis using current_close_ok [OF g] by simp
next
  case received
  then show ?thesis using receive_ok [OF g] by simp
next
  case browser_closed
  then show ?thesis using good_downstream_close [OF g] by simp
next
  case candidate
  then show ?thesis using g by (auto intro: good_keeps [OF prepare_connect_ok])
next
  case candidate_connected
  then show ?thesis using prepare_opened_ok [OF g] by simp
next
  case candidate_frame
  then show ?thesis using candidate_message_ok [OF g] by simp
next
  case candidate_closed
  then show ?thesis using candidate_close_ok [OF g] by simp
next
  case candidate_failed
  then show ?thesis using candidate_error_ok [OF g] by simp
next
  case candidate_late
  then show ?thesis using good_settle [OF g] by (simp add: candidate_timeout_def)
next
  case frozen
  then show ?thesis using good_keeps [OF session_ok_freeze g] by simp
next
  case verified
  then show ?thesis using good_keeps [OF session_ok_finalize g] by simp
next
  case aborted
  then show ?thesis using abort_ok [OF g] by simp
next
  case committed
  then show ?thesis using good_commit [OF g] by simp
qed

lemma good_step: "session_step e s s' \<Longrightarrow> good False s \<Longrightarrow> good False s'"
  by (induction rule: session_step.induct) (auto intro: good_patient abort_ok good_commit)

lemma good_initial:
  assumes "new_buffer m n = Inr b"
  shows "good qt (new_session d b)"
proof -
  let ?l = "\<lparr>il_accepted = [], il_acknowledged = 0\<rparr>"
  note inv = buffer_inv_new [OF assms]
  have "0 \<le> sum_list (map bi_bytes (ib_entries b))" using buffer_inv_facts(3) [OF inv] by (auto intro!: sum_list_nonneg)
  then have "0 \<le> ib_maxBytes b" using buffer_inv_facts(4,6) [OF inv] by simp
  then have "session_ok qt ?l (new_session d b)"
    using new_buffer_refines [OF assms] inv buffer_inv_facts(5) [OF inv]
    by (auto simp: session_ok_def links_ok_def shadow_ok_def sent_ok_def new_session_def)
  then show ?thesis by (auto simp: good_def within_range_def MAX_SAFE_def)
qed

lemma reach_good: "session_reach e s \<Longrightarrow> good False s"
  by (induction rule: session_reach.induct) (auto intro: good_initial good_step)

lemma patient_good: "patient_reach e s \<Longrightarrow> good True s"
  by (induction rule: patient_reach.induct) (auto intro: good_initial good_patient)

lemma good_wires:
  assumes "good qt s"
  shows "\<exists>l. session_ok qt l s \<and> (\<forall>c. \<exists>is. sorted_wrt (<) is \<and> wire_inputs (gs_conns s c) = map (entry_of (il_accepted l)) is)"
proof -
  obtain l where l: "session_ok qt l s" using assms by (auto simp: good_def)
  then show ?thesis using session_okD(3) [OF l] unfolding wire_ok_def by blast
qed

lemma sorted_entries: "sorted_wrt (<) is \<Longrightarrow> sorted_wrt (<) (map fst (map (entry_of ps) is))"
  by (induction "is") (auto simp: entry_of_def)

text \<open>An entry as the pair that is read from a wire.\<close>

definition shown :: "buffered \<Rightarrow> int \<times> view" where
  "shown e = (bi_sequence e, bi_payload e)"

lemma pending_shown: "session_ok qt l s \<Longrightarrow>
    shown ` set (ib_entries (gs_inputs s)) = entry_of (il_accepted l) ` {il_acknowledged l..<length (il_accepted l)}"
  using pending(1) [OF session_okD(1)] by (force simp: shown_def numbered_def entry_of_def image_iff)

section \<open>What a verification retains\<close>

text \<open>While a cutover is being verified, all that its upstream was sent is retained.\<close>

definition kept :: "gsession \<Rightarrow> bool" where
  "kept s = (\<not> gs_stopped s \<longrightarrow> gs_verifying s \<longrightarrow>
     (\<forall>c. gs_current s = Some c \<longrightarrow> set (wire_inputs (gs_conns s c)) \<subseteq> shown ` set (gs_shadow s)))"

definition retains :: "gsession \<Rightarrow> gsession \<Rightarrow> bool" where
  "retains s s' = (gs_stopped s' \<or> \<not> gs_verifying s' \<or> \<not> gs_stopped s \<and> gs_verifying s \<and> set (gs_shadow s) \<subseteq> set (gs_shadow s')
     \<and> (\<forall>c. gs_current s' = Some c \<longrightarrow> set (wire_inputs (gs_conns s' c))
          \<subseteq> (if gs_current s = Some c then set (wire_inputs (gs_conns s c)) else {}) \<union> shown ` set (gs_shadow s')))"

lemma retainsD: "retains s s' \<Longrightarrow> kept s \<Longrightarrow> kept s'"
  unfolding retains_def kept_def by (auto split: if_splits; blast)

lemma retains_trans: "retains s t \<Longrightarrow> retains t u \<Longrightarrow> retains s u"
  unfolding retains_def by (auto split: if_splits; blast)

lemma retains_refl [simp]: "retains s s"
  by (simp add: retains_def)

lemma retains_same:
  assumes "gs_stopped s' = gs_stopped s" "gs_verifying s' = gs_verifying s" "gs_shadow s' = gs_shadow s" "gs_current s' = gs_current s"
    and "\<And>c. gs_current s = Some c \<Longrightarrow> wire_inputs (gs_conns s' c) = wire_inputs (gs_conns s c)"
  shows "retains s s'"
  using assms by (auto simp: retains_def)

lemma retains_stop [simp]: "retains s (session_stop t)" "retains s (drop_session n m t)" "retains s (input_failed m t)"
  by (simp_all add: retains_def session_stop_def drop_session_def input_failed_def)

lemma retains_on_conn: "(\<And>k. wire_inputs (f k) = wire_inputs k) \<Longrightarrow> retains s (on_conn c f s)"
  by (rule retains_same) simp_all

lemma retains_calm: "calm f \<Longrightarrow> retains s (on_conn c f s)"
  by (rule retains_on_conn) (rule calm_wire)

lemma retains_close [simp]: "retains s (close_socket c s)" "p \<noteq> NotPreparing \<Longrightarrow> retains s (settle c p s)"
  by (simp_all add: close_socket_def settle_def retains_calm)

lemma retains_outside [simp]: "retains s (down_send v s)" "retains s (down_end n m s)" "retains s (s\<lparr>gs_inputs := b\<rparr>)"
  "retains s (s\<lparr>gs_inputs := b, gs_tick := t\<rparr>)" "retains s (s\<lparr>gs_join := j, gs_initialJoin := i\<rparr>)" "retains s (s\<lparr>gs_frozen := q\<rparr>)"
  by (rule retains_same; simp add: down_send_def down_end_def)+

lemma retains_frames: "retains s (on_conn c (\<lambda>k. if b k then k\<lparr>cn_frames := g k\<rparr> else k) s)"
  by (rule retains_calm) simp

lemmas retains_two = retains_trans [OF retains_close(2) retains_close(1)]

lemma retains_opened: "retains s (opened c s)"
  unfolding opened_def by (rule retains_on_conn) (simp add: wire_inputs_def)

lemma retains_current_message: "retains s (current_message c p s)"
  by (auto simp: current_message_def split: sum.splits option.splits gateway_frame.splits)

lemma retains_current_close: "retains s (current_close c s)"
  by (auto simp: current_close_def Let_def intro: retains_calm)

lemma retains_then: "retains s t \<Longrightarrow> retains s (down_send v t)" "retains s t \<Longrightarrow> p \<noteq> NotPreparing \<Longrightarrow> retains s (settle c p t)"
  by (erule retains_trans, simp)+

lemma retains_candidate_output: "retains s (candidate_output c p s)"
proof -
  let ?b = "isGatewayResumeBootstrapFrame p"
  let ?t = "settle c Resolved (on_conn c (\<lambda>k. if \<not> ?b \<and> length (cn_frames k) < 16 then k\<lparr>cn_frames := cn_frames k @ [p]\<rparr> else k) s)"
  have t: "retains s ?t" by (rule retains_then(2) [OF retains_frames]) simp
  show ?thesis
    unfolding candidate_output_def Let_def forwardCandidateFrame_def using t retains_then(1) [OF t] by presburger
qed

lemma retains_candidate_message: "retains s (candidate_message c p s)"
  by (auto simp: candidate_message_def reject_candidate_def retains_candidate_output intro: retains_two
      split: sum.splits option.splits gateway_frame.splits)

lemma retains_candidate_close: "retains s (candidate_close c s)"
  by (simp add: candidate_close_def Let_def retains_then retains_calm)

lemma retains_candidate_error: "retains s (candidate_error c s)"
  by (simp add: candidate_error_def)

text \<open>What is put on a wire is retained.\<close>

lemma retains_put:
  assumes "\<And>x. x \<in> set (List.map_filter input_of ws) \<Longrightarrow> \<not> gs_stopped s \<Longrightarrow> gs_verifying s \<Longrightarrow> gs_current s = Some c
      \<Longrightarrow> x \<in> shown ` set (gs_shadow s)"
  shows "retains s (put_wire c ws s)"
proof -
  have "set (wire_inputs (gs_conns (put_wire c ws s) d))
      \<subseteq> set (wire_inputs (gs_conns s d)) \<union> shown ` set (gs_shadow s)"
    if "\<not> gs_stopped s" "gs_verifying s" "gs_current s = Some d" for d
    using assms that by (cases "d = c") (auto simp: put_wire_def)
  then show ?thesis unfolding retains_def put_wire_simps by auto
qed

lemma put_shown:
  assumes "field_ok epoch" and "\<forall>e \<in> set es. sequence_in_range (bi_sequence e) \<and> bi_sequence e \<noteq> 0"
    and "gs_verifying s \<Longrightarrow> \<not> gs_stopped s \<Longrightarrow> set es \<subseteq> set (gs_shadow s)"
  shows "retains s (put_wire c (frames_of epoch tick es) s)"
  by (rule retains_put) (use assms(3) in \<open>auto simp: frames_inputs [OF assms(1,2)] shown_def\<close>)

lemma put_join: "field_ok epoch \<Longrightarrow> retains s (put_wire c [input_frame epoch tick 0 payload] s)"
  by (rule retains_put) (simp add: map_filter_def input_of_frame sequence_in_range_def MAX_SAFE_def)

lemma retains_join: "field_ok epoch \<Longrightarrow> retains s (snd (sendInput c payload epoch 0 s))"
  by (simp add: sendInput_run sequence_in_range_def MAX_SAFE_def put_join)

lemma flush_keeps:
  assumes g: "good qt s" and c: "c < gs_next s"
    and t: "gs_inputs t = gs_inputs s" "gs_shadow t = gs_shadow s" "gs_verifying t = gs_verifying s" "gs_stopped t = gs_stopped s"
      "cn_epoch (gs_conns t c) = cn_epoch (gs_conns s c)"
  shows "retains t (snd (flushInputs c t))"
proof -
  obtain l where ok: "session_ok qt l s" and range: "within_range l" using g by (auto simp: good_def)
  note d = session_okD [OF ok]
  let ?es = "buffer_replayAfter (cn_sentThrough (gs_conns t c)) (gs_inputs t)"
  have ep: "field_ok (cn_epoch (gs_conns t c))" using links_okD(1) [OF d(4) c] t(5) by simp
  have sub: "set ?es \<subseteq> set (ib_entries (gs_inputs s))" by (auto simp: buffer_replayAfter_def t(1))
  then have seq: "\<forall>e \<in> set ?es. sequence_in_range (bi_sequence e) \<and> bi_sequence e \<noteq> 0"
    using numbered_in_range [OF range] unfolding pending(1) [OF d(1)] by auto
  have "set ?es \<subseteq> set (gs_shadow t)" if "gs_verifying t" "\<not> gs_stopped t"
  proof -
    note v = that [unfolded t(3,4)]
    obtain js where "gs_shadow s = map (numbered (il_accepted l)) js" "{il_acknowledged l..<length (il_accepted l)} \<subseteq> set js"
      using d(5) [OF v(2)] v(1) unfolding shadow_ok_def by auto
    then have "set (ib_entries (gs_inputs s)) \<subseteq> set (gs_shadow t)"
      unfolding pending(1) [OF d(1)] t(2) by (simp add: image_mono)
    then show ?thesis using sub by (rule subset_trans [rotated])
  qed
  then have "retains t (put_wire c (frames_of (cn_epoch (gs_conns t c)) (gs_tick t) ?es) t)"
    by (intro put_shown [OF ep seq])
  then have "retains t (on_conn c (\<lambda>k. k\<lparr>cn_sentThrough := n k\<rparr>) (put_wire c (frames_of (cn_epoch (gs_conns t c)) (gs_tick t) ?es) t))" for n
    by (rule retains_trans) (rule retains_on_conn, simp add: wire_inputs_def)
  moreover have "sendEntries c (cn_epoch (gs_conns t c)) ?es t
      = (Inr (), put_wire c (frames_of (cn_epoch (gs_conns t c)) (gs_tick t) ?es) t)"
    by (rule sendEntries_run [OF ep]) (use seq in blast)
  ultimately show ?thesis
    by (simp add: flushInputs_def bindE_def thenE_def getsE_def modifyE_def)
qed

lemma snd_then: "snd (thenE m n s) = (case m s of (Inl x, t) \<Rightarrow> t | (Inr _, t) \<Rightarrow> snd (n t))"
  by (simp add: thenE_def bindE_def split: prod.splits sum.splits)

lemma start_opened_keeps:
  assumes g: "good qt s" and c: "c < gs_next s"
  shows "retains s (snd (start_opened c s))"
proof -
  let ?o = "opened c s" and ?ep = "cn_epoch (gs_conns s c)"
  have ep: "field_ok ?ep" using g c by (auto simp: good_def session_ok_def links_ok_def)
  have same: "cn_epoch (gs_conns (put_wire c ws ?o) c) = ?ep" for ws by (simp add: put_wire_def opened_def)
  have flush: "retains (put_wire c ws ?o) (snd (flushInputs c (put_wire c ws ?o)))" for ws
    by (rule flush_keeps [OF g c]) (simp_all add: same, simp_all add: opened_def)
  have join: "retains s (put_wire c [input_frame ?ep (gs_tick ?o) 0 p] ?o)" for p
    by (rule retains_trans [OF retains_opened put_join [OF ep]])
  show ?thesis
  proof (cases "gs_initialJoin s")
    case None
    have "snd (start_opened c s) = snd (flushInputs c (put_wire c [] ?o))"
      using None by (simp add: start_opened_def thenE_def bindE_def getsE_def modifyE_def opened_def ret_def)
    then show ?thesis using retains_trans [OF retains_opened, of c s] flush [of "[]"] by simp
  next
    case (Some p)
    have "snd (start_opened c s) = snd (flushInputs c (put_wire c [input_frame ?ep (gs_tick ?o) 0 p] ?o))"
      using Some ep by (simp add: start_opened_def thenE_def bindE_def getsE_def modifyE_def opened_def sendInput_run
          sequence_in_range_def MAX_SAFE_def)
    then show ?thesis using retains_trans [OF join flush] by simp
  qed
qed

lemma prepare_opened_keeps:
  assumes g: "good qt s" and c: "c < gs_next s"
  shows "retains s (snd (prepare_opened e c token s))"
proof -
  have ep: "field_ok (cn_epoch (gs_conns s c))" using g c by (auto simp: good_def session_ok_def links_ok_def)
  have wait: "retains t (on_conn c (\<lambda>k. k\<lparr>cn_promise := Waiting\<rparr>) t)" for t by (rule retains_on_conn) (simp add: wire_inputs_def)
  have o: "opened c s = on_conn c (\<lambda>k. k\<lparr>cn_ready := Open\<rparr>) s" by (simp add: opened_def)
  have "retains s (on_conn c (\<lambda>k. k\<lparr>cn_promise := Waiting\<rparr>)
      (put_wire c [input_frame (cn_epoch (gs_conns s c)) (gs_tick s) 0 p] (opened c s)))" for p
    by (rule retains_trans [OF retains_trans [OF retains_opened put_join [OF ep]] wait])
  then show ?thesis
    using retains_opened [of s c] ep
    by (simp add: prepare_opened_def thenE_def bindE_def getsE_def modifyE_def throwE_def o sendInput_run
        sequence_in_range_def MAX_SAFE_def split: option.splits sum.splits)
qed

lemma abort_keeps:
  assumes g: "good qt s"
  shows "retains s (snd (abortPrepared s))"
proof -
  let ?t = "(close_opt (gs_prepared s) s)\<lparr>gs_prepared := None, gs_frozen := False\<rparr>"
  have "retains s (close_opt (gs_prepared s) s)" by (simp add: close_opt_def split: option.splits)
  then have t: "retains s ?t" by (rule retains_trans) (rule retains_same; simp)
  have "retains ?t (snd (flushInputs c ?t))" if "gs_current s = Some c" for c
  proof (rule flush_keeps [OF g])
    show "c < gs_next s" using g that by (auto simp: good_def session_ok_def links_ok_def)
    show "cn_epoch (gs_conns ?t c) = cn_epoch (gs_conns s c)"
      by (simp add: close_opt_def close_socket_def split: option.splits)
  qed simp_all
  then show ?thesis
    using retains_trans [OF t] t by (simp add: abortPrepared_def thenE_def bindE_def modifyE_def getsE_def ret_def split: option.splits)
qed

lemma send_latest_keeps:
  assumes ep: "\<And>c. gs_current s = Some c \<Longrightarrow> field_ok (cn_epoch (gs_conns s c))"
    and n: "sequence_in_range (bi_sequence x)" "bi_sequence x \<noteq> 0"
    and x: "gs_verifying s \<Longrightarrow> \<not> gs_stopped s \<Longrightarrow> x \<in> set (gs_shadow s)"
  shows "retains s (snd (send_latest_entry x s))"
proof (cases "current_open s")
  case None
  then show ?thesis by (simp add: send_latest_entry_def bindE_def getsE_def ret_def split: bool.splits)
next
  case (Some c)
  then have c: "gs_current s = Some c" by (auto simp: current_open_def split: option.splits if_splits)
  let ?w = "put_wire c (frames_of (cn_epoch (gs_conns s c)) (gs_tick s) [x]) s"
  have "retains s ?w" by (rule put_shown [OF ep [OF c]]) (use n x in auto)
  then have "retains s (on_conn c (\<lambda>k. k\<lparr>cn_sentThrough := bi_sequence x\<rparr>) ?w)"
    by (rule retains_trans) (rule retains_on_conn, simp add: wire_inputs_def)
  then show ?thesis
    using Some sendInput_run [OF ep [OF c] n(1)]
    by (simp add: send_latest_entry_def bindE_def thenE_def getsE_def modifyE_def ret_def frames_of_def split: bool.splits)
qed

lemma retains_or_fails:
  assumes "\<And>t. m s = (Inr (), t) \<Longrightarrow> retains s t"
  shows "retains s (snd (catchE m (\<lambda>r. modifyE (input_failed r)) s))"
  using assms by (auto simp: catchE_def modifyE_def split: prod.splits sum.splits)

lemma receive_input_keeps:
  assumes g: "good qt s" and live: "\<not> gs_stopped s"
  shows "retains s (snd (catchE (receive_input p) (\<lambda>m. modifyE (input_failed m)) s))"
proof (rule retains_or_fails)
  fix t' assume run: "receive_input p s = (Inr (), t')"
  obtain l where ok: "session_ok qt l s" and range: "within_range l" using g by (auto simp: good_def)
  have ep: "field_ok (cn_epoch (gs_conns s c))" if "gs_current s = Some c" for c
    using that ok by (auto simp: session_ok_def links_ok_def)
  obtain x b where push: "buffer_push p (gs_inputs s) = Inr (x, b)"
    using run by (auto simp: receive_input_def bindE_def getsE_def throwE_def split: sum.splits)
  let ?l = "l\<lparr>il_accepted := il_accepted l @ [p]\<rparr>" and ?t = "s\<lparr>gs_inputs := b, gs_tick := gs_tick s + 1\<rparr>"
  note pu = pushed [OF ok range push]
  have n: "sequence_in_range (bi_sequence x)" "bi_sequence x \<noteq> 0"
    using numbered_in_range [OF pu(5), of "length (il_accepted l)"] pu(6) by simp_all
  have fresh: "\<not> (\<exists>y \<in> set (gs_shadow s). bi_sequence y = bi_sequence x)"
    using session_okD(5) [OF ok live] pu(6) by (fastforce simp: shadow_ok_def numbered_def)
  have send: "retains s (snd (send_latest_entry x u))" if "retains s u" "gs_current u = gs_current s" "gs_conns u = gs_conns s"
    "gs_verifying u \<longrightarrow> x \<in> set (gs_shadow u)" for u
    by (rule retains_trans [OF that(1) send_latest_keeps]) (use ep n that in simp_all)
  have body: "receive_input p s = thenE (if gs_verifying s then retainForRollback x else ret ()) (send_latest_entry x) ?t"
    using push by (simp add: receive_input_def bindE_def thenE_def getsE_def modifyE_def)
  show "retains s t'"
  proof (cases "gs_verifying s")
    case False
    then have "t' = snd (send_latest_entry x ?t)" using run unfolding body by (simp add: thenE_def bindE_def ret_def)
    then show ?thesis using send [of ?t] False by simp
  next
    case True
    let ?u = "?t\<lparr>gs_shadow := gs_shadow s @ [x], gs_shadowBytes := gs_shadowBytes s + bi_bytes x\<rparr>"
    have "retainForRollback x ?t = (Inr (), ?u) \<or> (\<exists>m. fst (retainForRollback x ?t) = Inl m)"
      using fresh by (simp add: retain_eq)
    then have "t' = snd (send_latest_entry x ?u)"
      using True run unfolding body by (auto simp: thenE_def bindE_def split: prod.splits sum.splits)
    moreover have "retains s ?u" using True live by (auto simp: retains_def)
    ultimately show ?thesis using send [of ?u] by simp
  qed
qed

lemma receive_join_keeps:
  assumes g: "good qt s"
  shows "retains s (snd (receive_join t p now as s))"
proof -
  obtain b as' where adm: "admission_consume (joinAdmissionKey (sd_roomId (gs_data s)) (sd_gameId (gs_data s)) (jn_matchPriv t))
      (sd_sessionId (gs_data s)) now as = (b, as')"
    using prod.exhaust by blast
  let ?s = "s\<lparr>gs_join := Some t, gs_initialJoin := Some p\<rparr>"
  have join: "retains s (snd (sendInput c p (cn_epoch (gs_conns s c)) 0 ?s))" if "current_open ?s = Some c" for c
  proof -
    have "gs_current s = Some c" using that by (auto simp: current_open_def split: option.splits if_splits)
    then have "field_ok (cn_epoch (gs_conns s c))" using g by (auto simp: good_def session_ok_def links_ok_def)
    then show ?thesis by (rule retains_trans [OF retains_outside(5) retains_join])
  qed
  show ?thesis
  proof (cases b)
    case False
    then show ?thesis using adm by (simp add: receive_join_def bindE_def getsE_def thenE_def modifyE_def ret_def)
  next
    case True
    then show ?thesis
      using adm join by (auto simp: receive_join_def bindE_def getsE_def thenE_def modifyE_def ret_def
          split: option.splits prod.splits sum.splits)
  qed
qed

lemma receive_keeps:
  assumes g: "good qt s"
  shows "retains s (snd (session_receive e now p as s))"
proof (cases "gs_stopped s")
  case True
  then show ?thesis by (simp add: session_receive_def bindE_def getsE_def ret_def)
next
  case live: False
  have "retains s (snd (thenE (catchE (receive_input p) (\<lambda>m. modifyE (input_failed m))) (ret as) s))"
    using receive_input_keeps [OF g live, of p] by (auto simp: thenE_def bindE_def ret_def split: prod.splits sum.splits)
  then show ?thesis
    using receive_join_keeps [OF g] live
    by (auto simp: session_receive_def bindE_def getsE_def ret_def throwE_def split: sum.splits option.splits)
qed

lemma retains_links:
  assumes g: "good qt s"
  shows "gs_next s = 0 \<Longrightarrow> retains s (start_begin epoch endpoint s)" and "retains s (prepare_connect r s)"
    and "retains s (session_freeze s)" and "retains s (finalizeVerification s)" and "retains s (downstream_close s)"
    and "retains s (start_failed s)"
proof -
  have none: "wire_inputs (no_connection\<lparr>cn_ready := q, cn_epoch := ep, cn_endpoint := u\<rparr>) = []" for q ep u
    by (simp add: wire_inputs_def no_connection_def map_filter_def)
  show "retains s (start_begin epoch endpoint s)" if "gs_next s = 0"
    using none by (auto simp: retains_def start_begin_def)
  have "gs_current s \<noteq> Some (gs_next s)" using g by (auto simp: good_def session_ok_def links_ok_def)
  then show "retains s (prepare_connect r s)" by (intro retains_same) (auto simp: prepare_connect_def)
qed (simp_all add: session_freeze_def retains_def finalizeVerification_def downstream_close_def start_failed_def session_stop_def)

lemma commit_kept:
  assumes g: "good False s" and k: "kept s" and live: "gs_stopped s \<Longrightarrow> gs_prepared s = None"
  shows "kept (snd (commitPrepared r s))"
proof (cases "\<not> plays_on r s \<and> (\<exists>c. gs_prepared s = Some c \<and> same_upstream r c s)")
  case True
  then obtain c where c: "\<not> plays_on r s" "gs_prepared s = Some c" "same_upstream r c s" by blast
  moreover have "\<not> gs_stopped s" using live c(2) by auto
  ultimately show ?thesis using commit_facts [OF g, of r c] by (auto simp: kept_def shown_def)
next
  case False
  then show ?thesis using k commit_idle [of r s] by auto
qed

lemma kept_patient:
  assumes "patient_step e s s'" and g: "good False s" and k: "kept s"
  shows "kept s'"
  using assms(1)
proof cases
  case committed
  then show ?thesis using commit_kept [OF g k] by simp
qed (use k retainsD [of s] retains_links [OF g] start_opened_keeps [OF g] prepare_opened_keeps [OF g] abort_keeps [OF g] receive_keeps [OF g]
    retains_current_message retains_current_close retains_candidate_message retains_candidate_close retains_candidate_error
    in \<open>simp_all add: open_timeout_def candidate_timeout_def\<close>)

lemma kept_step: "session_step e s s' \<Longrightarrow> good False s \<Longrightarrow> kept s \<Longrightarrow> kept s'"
  by (induction rule: session_step.induct) (auto intro: kept_patient commit_kept retainsD abort_keeps)

lemma reach_kept: "session_reach e s \<Longrightarrow> kept s"
proof (induction rule: session_reach.induct)
  case (initial m n b d)
  then show ?case by (simp add: kept_def new_session_def)
next
  case (later s s')
  then show ?case using kept_step [OF _ reach_good] by blast
qed

end
