(* ===== verification/GatewayRoomFacts.thy ===== *)
theory GatewayRoomFacts
  imports GatewayRoomCutover GatewayReplay
begin

text \<open>
  What the room operations guarantee: a cutover that answers has moved every session to the registry's route,
  one that fails before the registry has the route leaves the room as it was, a repeated request is answered
  without a further effect, and a verification is finalized only when every session of it plays on.
\<close>

section \<open>Calls on a session\<close>

lemma wp_on_session [simp]:
  "wp (on_session i m) Q E g = wp m (\<lambda>a s. Q a (g\<lparr>gw_session := (gw_session g)(i := s)\<rparr>))
     (\<lambda>e s. E e (g\<lparr>gw_session := (gw_session g)(i := s)\<rparr>)) (gw_session g i)"
  by (simp add: on_session_def)

lemma on_session_run: "m (gw_session g i) = (x, s) \<Longrightarrow> on_session i m g = (x, g\<lparr>gw_session := (gw_session g)(i := s)\<rparr>)"
  by (simp add: on_session_def zoomE_def)

text \<open>Which upstream a session plays on, and where each of its connections leads.\<close>

definition leads :: "gsession \<Rightarrow> nat option \<times> (nat \<Rightarrow> jsnum \<times> string)" where
  "leads s = (gs_current s, \<lambda>c. (cn_epoch (gs_conns s c), cn_endpoint (gs_conns s c)))"

lemma leads_on_conn: "(\<And>k. cn_epoch (f k) = cn_epoch k \<and> cn_endpoint (f k) = cn_endpoint k) \<Longrightarrow> leads (on_conn c f s) = leads s"
  by (simp add: leads_def on_conn_def fun_eq_iff)

lemma leads_outside [simp]:
  "leads (s\<lparr>gs_shadow := a, gs_shadowBytes := b\<rparr>) = leads s" "leads (add_effect x s) = leads s"
  "leads (s\<lparr>gs_verifying := v, gs_frozen := f\<rparr>) = leads s" "leads (down_send p s) = leads s" "leads (close_socket c s) = leads s"
  by (simp_all add: leads_def add_effect_def down_send_def close_socket_def on_conn_def fun_eq_iff)

lemma leads_sendInput: "keeps (\<lambda>s. leads s = L) (sendInput c p ep n)"
  unfolding sendInput_def
  by (intro keeps_intros) (auto simp: keeps_def modifyE_def sendBinary_def leads_on_conn throwE_def split: sum.splits)

lemma leads_sendEntries: "keeps (\<lambda>s. leads s = L) (sendEntries c ep es)"
  unfolding sendEntries_def by (intro keeps_intros leads_sendInput)

lemma leads_setRollback: "keeps (\<lambda>s. leads s = L) (setRollbackInputs es)"
proof -
  have "keeps (\<lambda>s. leads s = L) (retainForRollback e)" for e
    by (auto simp: keeps_def retainForRollback_def bindE_def getsE_def ret_def throwE_def modifyE_def)
  then show ?thesis
    unfolding setRollbackInputs_def by (intro keeps_intros) (auto simp: keeps_def modifyE_def)
qed

lemma same_upstream_leads: "leads s' = leads s \<Longrightarrow> same_upstream r c s' = same_upstream r c s"
  by (simp add: same_upstream_def leads_def fun_eq_iff)

lemma leads_replay: "keeps (\<lambda>s. leads s = L) (replay_to c ep es)"
  unfolding replay_to_def
  by (intro keeps_intros leads_sendEntries leads_setRollback) (simp add: keeps_def modifyE_def leads_on_conn)

lemma commit_leads:
  assumes run: "commitPrepared r s = (Inr n, s')"
  shows "\<exists>c. gs_current s' = Some c \<and> same_upstream r c s'"
proof (cases "plays_on r s")
  case True
  then show ?thesis using run by (auto simp: commitPrepared_def plays_on_def bindE_def getsE_def ret_def split: option.splits)
next
  case elsewhere: False
  obtain c where c: "gs_prepared s = Some c" "same_upstream r c s"
    using run elsewhere by (auto simp: commitPrepared_def bindE_def getsE_def throwE_def split: option.splits if_splits)
  let ?t = "close_opt (gs_current s) ((on_conn c (\<lambda>k. k\<lparr>cn_committed := True\<rparr>) s)\<lparr>gs_current := Some c, gs_prepared := None\<rparr>)"
  let ?u = "if gs_stopped ?t then ?t else fold down_send (cn_frames (gs_conns ?t c)) ?t"
  let ?es = "mergeRollbackInputs (gs_shadow ?u) (buffer_replay (gs_inputs ?u))"
  have t: "gs_current ?t = Some c \<and> same_upstream r c ?t"
    using c(2) by (auto simp: same_upstream_def close_opt_def close_socket_def on_conn_def split: option.splits)
  have "replay_to c (cn_epoch (gs_conns s c)) ?es ?u = (Inr n, s')"
    using run elsewhere c by (simp add: commitPrepared_def bindE_def thenE_def getsE_def modifyE_def)
  then have "leads s' = leads ?u" using keepsD [OF leads_replay, of ?u "leads ?u"] by (metis snd_conv)
  then have "leads s' = leads ?t" by (simp add: fold_down_send leads_def split: if_splits)
  then show ?thesis using t same_upstream_leads [of s' ?t r c] by (simp add: leads_def)
qed

section \<open>Runs of the combinators\<close>

lemma bindE_Inr: "bindE m f s = (Inr b, t) \<longleftrightarrow> (\<exists>a u. m s = (Inr a, u) \<and> f a u = (Inr b, t))"
  by (auto simp: bindE_def split: prod.splits sum.splits)

lemma bindE_Inl: "bindE m f s = (Inl e, t) \<longleftrightarrow> m s = (Inl e, t) \<or> (\<exists>a u. m s = (Inr a, u) \<and> f a u = (Inl e, t))"
  by (auto simp: bindE_def split: prod.splits sum.splits)

lemma thenE_Inr: "thenE m n s = (Inr b, t) \<longleftrightarrow> (\<exists>a u. m s = (Inr a, u) \<and> n u = (Inr b, t))"
  by (simp add: thenE_def bindE_Inr)

lemma thenE_Inl: "thenE m n s = (Inl e, t) \<longleftrightarrow> m s = (Inl e, t) \<or> (\<exists>a u. m s = (Inr a, u) \<and> n u = (Inl e, t))"
  by (simp add: thenE_def bindE_Inl)

lemma basic_run [simp]: "ret a s = (Inr a, s)" "getsE f s = (Inr (f s), s)" "modifyE h s = (Inr (), h s)" "throwE e s = (Inl e, s)"
  by (simp_all add: ret_def getsE_def modifyE_def throwE_def)

lemma guard_run: "guardE b e s = (if b then (Inr (), s) else (Inl e, s))"
  by (simp add: guardE_def)

lemma on_operation_run [simp]: "on_operation r f g = (Inr (), set_operation (run_key r) (f (operation_of r g)) g)"
  by (simp add: on_operation_def)

lemma emit_run [simp]: "emitE c now x o' p g = (Inr (), g\<lparr>gw_ledger := ledger_emit c now x o' p (gw_ledger g)\<rparr>)"
  by (simp add: emitE_def)

lemmas runs = bindE_Inr bindE_Inl thenE_Inr thenE_Inl guard_run

lemma operation_of_set [simp]: "operation_of r (set_operation (run_key r) o' g) = o'"
  by (simp add: operation_of_def set_operation_def)

lemma set_operation_simps [simp]:
  "gw_routes (set_operation k o' g) = gw_routes g" "gw_session (set_operation k o' g) = gw_session g"
  "gw_live (set_operation k o' g) = gw_live g" "gw_preparations (set_operation k o' g) = gw_preparations g"
  "gw_verifications (set_operation k o' g) = gw_verifications g" "gw_operations (set_operation k o' g) = oput k o' (gw_operations g)"
  by (simp_all add: set_operation_def)

lemma operation_of_cong: "gw_operations g' = gw_operations g \<Longrightarrow> operation_of r g' = operation_of r g"
  by (simp add: operation_of_def)

lemma operation_of_outside [simp]:
  "operation_of r (g\<lparr>gw_session := x\<rparr>) = operation_of r g" "operation_of r (g\<lparr>gw_routes := y\<rparr>) = operation_of r g"
  "operation_of r (g\<lparr>gw_ledger := z\<rparr>) = operation_of r g" "operation_of r (g\<lparr>gw_verifications := v\<rparr>) = operation_of r g"
  "operation_of r (g\<lparr>gw_switches := n\<rparr>) = operation_of r g" "operation_of r (g\<lparr>gw_failures := m\<rparr>) = operation_of r g"
  "operation_of r (takePreparation q g) = operation_of r g"
  by (rule operation_of_cong; simp add: takePreparation_def)+

lemma takePreparation_simps [simp]:
  "gw_routes (takePreparation q g) = gw_routes g" "gw_session (takePreparation q g) = gw_session g" "gw_live (takePreparation q g) = gw_live g"
  "gw_preparations (takePreparation q g) = odel q (gw_preparations g)" "gw_operations (takePreparation q g) = gw_operations g"
  "gw_verifications (takePreparation q g) = gw_verifications g"
  by (simp_all add: takePreparation_def)

section \<open>Loops over sessions\<close>

lemma freeze_run:
  "forE ids (\<lambda>i. on_session i (modifyE session_freeze)) g
     = (Inr (), g\<lparr>gw_session := (\<lambda>j. if j \<in> set ids then session_freeze (gw_session g j) else gw_session g j)\<rparr>)"
proof (induction ids arbitrary: g)
  case (Cons i ids)
  have twice: "session_freeze (session_freeze x) = session_freeze x" for x by (simp add: session_freeze_def)
  have "on_session i (modifyE session_freeze) g = (Inr (), g\<lparr>gw_session := (gw_session g)(i := session_freeze (gw_session g i))\<rparr>)"
    by (simp add: on_session_run)
  then show ?case by (simp add: thenE_def bindE_def Cons.IH fun_eq_iff twice del: basic_run)
qed simp

text \<open>A loop of session calls changes the sessions it names; a commit also counts in the operation.\<close>

definition same_tables :: "gateway \<Rightarrow> gateway \<Rightarrow> bool" where
  "same_tables g g' = (gw_routes g' = gw_routes g \<and> gw_live g' = gw_live g \<and> gw_preparations g' = gw_preparations g
     \<and> gw_verifications g' = gw_verifications g \<and> gw_ledger g' = gw_ledger g \<and> gw_switches g' = gw_switches g
     \<and> gw_failures g' = gw_failures g)"

definition only_commits :: "cutover_run \<Rightarrow> string list \<Rightarrow> gateway \<Rightarrow> gateway \<Rightarrow> bool" where
  "only_commits r ids g g' = (same_tables g g' \<and> (\<forall>j. j \<notin> set ids \<longrightarrow> gw_session g' j = gw_session g j)
     \<and> (\<exists>n. operation_of r g' = (operation_of r g)\<lparr>co_replayedInputs := n\<rparr>))"

lemma only_commits_refl [simp]: "only_commits r ids g g"
  by (auto simp: only_commits_def same_tables_def intro: exI [of _ "co_replayedInputs (operation_of r g)"])

lemma only_commits_session: "i \<in> set ids \<Longrightarrow> only_commits r ids g (g\<lparr>gw_session := (gw_session g)(i := s)\<rparr>)"
  by (auto simp: only_commits_def same_tables_def intro: exI [of _ "co_replayedInputs (operation_of r g)"])

lemma only_commits_count:
  "only_commits r ids g (set_operation (run_key r) ((operation_of r g)\<lparr>co_replayedInputs := n\<rparr>) g)"
  by (auto simp: only_commits_def same_tables_def) (auto simp: set_operation_def)

lemma only_commits_trans: "only_commits r ids g h \<Longrightarrow> only_commits r ids' h k \<Longrightarrow> set ids' \<subseteq> set ids \<Longrightarrow> only_commits r ids g k"
  by (auto simp: only_commits_def same_tables_def)

lemma commit_each_frame: "commit_each r route ids g = (x, g') \<Longrightarrow> only_commits r ids g g'"
proof (induction ids arbitrary: g)
  case (Cons i ids)
  obtain y s where y: "commitPrepared route (gw_session g i) = (y, s)" by (cases "commitPrepared route (gw_session g i)")
  let ?h = "g\<lparr>gw_session := (gw_session g)(i := s)\<rparr>"
  have h: "only_commits r (i # ids) g ?h" by (rule only_commits_session) simp
  show ?case
  proof (cases y)
    case (Inl e)
    then show ?thesis using Cons.prems y h by (auto simp: bindE_def on_session_run)
  next
    case (Inr n)
    let ?k = "set_operation (run_key r) ((operation_of r ?h)\<lparr>co_replayedInputs := co_replayedInputs (operation_of r ?h) + n\<rparr>) ?h"
    have "commit_each r route ids ?k = (x, g')"
      using Cons.prems y Inr by (simp add: bindE_def thenE_def on_session_run)
    from Cons.IH [OF this] have "only_commits r ids ?k g'" .
    then show ?thesis
      by (rule only_commits_trans [OF only_commits_trans [OF h only_commits_count subset_refl]]) auto
  qed
qed simp

lemma commit_each_done:
  assumes "commit_each r route ids g = (Inr (), g')" and "distinct ids" and "i \<in> set ids"
  shows "\<exists>n c. commitPrepared route (gw_session g i) = (Inr n, gw_session g' i)
    \<and> gs_current (gw_session g' i) = Some c \<and> same_upstream route c (gw_session g' i)"
  using assms
proof (induction ids arbitrary: g)
  case (Cons j ids)
  obtain n s where y: "commitPrepared route (gw_session g j) = (Inr n, s)"
    using Cons.prems(1) by (auto simp: runs on_session_def zoomE_def split: prod.splits)
  let ?h = "g\<lparr>gw_session := (gw_session g)(j := s)\<rparr>"
  let ?k = "set_operation (run_key r) ((operation_of r ?h)\<lparr>co_replayedInputs := co_replayedInputs (operation_of r ?h) + n\<rparr>) ?h"
  have run: "commit_each r route ids ?k = (Inr (), g')"
    using Cons.prems(1) y by (simp add: bindE_def thenE_def on_session_run)
  show ?case
  proof (cases "i = j")
    case True
    have "gw_session g' j = s" using commit_each_frame [OF run] Cons.prems(2) by (simp add: only_commits_def)
    then show ?thesis using True y commit_leads [OF y] by auto
  next
    case False
    then show ?thesis using Cons.IH [OF run] Cons.prems(2,3) by auto
  qed
qed simp

section \<open>A cutover that answers\<close>

lemma failed_throws [simp]: "cutover_failed c now r e g \<noteq> (Inr a, g')"
  by (auto simp: cutover_failed_def thenE_def bindE_def split: prod.splits sum.splits)

lemma resume_Inr: "cutover_resume c now r g = (Inr a, g') \<longleftrightarrow> cutover_commit c now r g = (Inr a, g')"
  by (auto simp: cutover_resume_def catchE_def split: prod.splits sum.splits)

lemma swap_Inr:
  assumes "compareAndSwap ua room ex ep e v rs = Inr (n, rs')"
  shows "rs' = oput room n rs" and "gr_epoch n = e" and "e \<noteq> NaN"
proof -
  have n: "normalizeRoute ua \<lparr>gr_roomId = room, gr_endpoint = ep, gr_epoch = e, gr_revision = v\<rparr> = Inr n" "rs' = oput room n rs"
    using assms by (auto simp: compareAndSwap_def split: option.splits if_splits sum.splits)
  then show "rs' = oput room n rs" "gr_epoch n = e" "e \<noteq> NaN"
    using normalizeRoute_Inr(2,3) [OF n(1)] by (auto simp: js_int_def)
qed

text \<open>What \<open>cutover_route\<close> answers is the route of the registry, at the epoch of the request.\<close>

lemma cutover_route_Inr:
  assumes "cutover_route c now r g = (Inr n, g')"
  shows "map_of (gw_routes g') (cr_room r) = Some n" and "js_eq (gr_epoch n) (cq_nextEpoch (cr_request r))"
    and "g' = g\<lparr>gw_routes := gw_routes g', gw_ledger := gw_ledger g'\<rparr>"
proof -
  let ?q = "cr_request r"
  obtain route where route: "map_of (gw_routes g) (cr_room r) = Some route"
    using assms by (auto simp: cutover_route_def Let_def bindE_def split: option.splits)
  have "map_of (gw_routes g') (cr_room r) = Some n \<and> js_eq (gr_epoch n) (cq_nextEpoch ?q)
      \<and> g' = g\<lparr>gw_routes := gw_routes g', gw_ledger := gw_ledger g'\<rparr>"
  proof (cases "js_eq (gr_epoch route) (cq_expectedEpoch ?q)")
    case True
    then obtain rs' where swap: "compareAndSwap (ge_url c) (cr_room r) (cq_expectedEpoch ?q) (cq_endpoint ?q) (cq_nextEpoch ?q)
        (cq_revision ?q) (gw_routes g) = Inr (n, rs')" and g': "gw_routes g' = rs'" "g' = g\<lparr>gw_routes := gw_routes g', gw_ledger := gw_ledger g'\<rparr>"
      using assms route by (auto simp: cutover_route_def Let_def runs split: sum.splits)
    then show ?thesis using swap_Inr [OF swap] by (auto simp: js_eq_def)
  next
    case False
    then show ?thesis
      using assms route by (auto simp: cutover_route_def Let_def runs split: option.splits if_splits)
  qed
  then show "map_of (gw_routes g') (cr_room r) = Some n" "js_eq (gr_epoch n) (cq_nextEpoch ?q)"
    "g' = g\<lparr>gw_routes := gw_routes g', gw_ledger := gw_ledger g'\<rparr>" by blast+
qed

text \<open>The states a cutover goes through: the sessions are frozen, the registry has the route, the commits are done.\<close>

definition at_registry :: "int \<Rightarrow> cutover_run \<Rightarrow> gateway \<Rightarrow> gateway" where
  "at_registry now r g = takePreparation (cr_room r)
     (set_operation (run_key r) ((operation_of r g)\<lparr>co_status := RegistryCommitted, co_updatedAt := now\<rparr>) g)"

definition with_verification :: "int \<Rightarrow> cutover_run \<Rightarrow> gateway_route \<Rightarrow> gateway \<Rightarrow> gateway" where
  "with_verification now r n g = g\<lparr>gw_verifications := oput (cr_room r) \<lparr>rv_operationId = cq_operationId (cr_request r),
     rv_roomId = cr_room r, rv_epoch = gr_epoch n, rv_sessionIds = cr_selected r, rv_startedAt = now\<rparr> (gw_verifications g)\<rparr>"

lemma conclude_run:
  "\<exists>l. cutover_conclude c now r n g = (Inr \<lparr>ca_operationId = cq_operationId (cr_request r), ca_route = Some n,
       ca_sessions = length (cr_selected r), ca_replayedInputs = co_replayedInputs (operation_of r g), ca_status = CutoverDone\<rparr>,
     (set_operation (run_key r) ((operation_of r g)\<lparr>co_status := CutoverDone, co_failure := None, co_updatedAt := now\<rparr>)
       (with_verification now r n g))\<lparr>gw_switches := gw_switches g + 1, gw_ledger := l\<rparr>)"
  by (simp add: cutover_conclude_def Let_def thenE_def bindE_def with_verification_def) (simp add: set_operation_def, rule exI, rule refl)

definition frozen_first :: "cutover_run \<Rightarrow> gateway \<Rightarrow> gateway" where
  "frozen_first r g = (if \<not> cr_prepared r \<and> co_status (operation_of r g) \<noteq> RegistryCommitted
     then g\<lparr>gw_session := (\<lambda>j. if j \<in> set (cr_selected r) then session_freeze (gw_session g j) else gw_session g j)\<rparr> else g)"

lemma commit_run:
  "cutover_commit c now r g = bindE (cutover_route c now r) (\<lambda>n. thenE (modifyE (at_registry now r))
     (thenE (commit_each r n (cr_selected r)) (cutover_conclude c now r n))) (frozen_first r g)"
proof -
  have "(if \<not> cr_prepared r \<and> co_status (operation_of r g) \<noteq> RegistryCommitted
             then forE (cr_selected r) (\<lambda>i. on_session i (modifyE session_freeze)) else ret ()) g = (Inr (), frozen_first r g)"
    unfolding frozen_first_def by (simp add: freeze_run del: basic_run(3))
  then have start: "cutover_commit c now r g = bindE (cutover_route c now r) (\<lambda>n.
      thenE (on_operation r (\<lambda>o'. o'\<lparr>co_status := RegistryCommitted, co_updatedAt := now\<rparr>))
     (thenE (modifyE (takePreparation (cr_room r)))
     (thenE (commit_each r n (cr_selected r)) (cutover_conclude c now r n)))) (frozen_first r g)"
    by (simp add: cutover_commit_def bindE_def [of "getsE _"] thenE_def [of "if _ then _ else _"] bindE_def [of "if _ then _ else _"]
        del: basic_run(3) split del: if_split)
  show ?thesis
  proof (cases "cutover_route c now r (frozen_first r g)")
    case (Pair x g2)
    then show ?thesis unfolding start
      by (cases x) (simp_all add: bindE_def thenE_def at_registry_def)
  qed
qed

lemma commit_Inr:
  assumes "cutover_commit c now r g = (Inr a, g')"
  obtains n g2 g3 l where "cutover_route c now r (frozen_first r g) = (Inr n, g2)"
    and "commit_each r n (cr_selected r) (at_registry now r g2) = (Inr (), g3)"
    and "g' = (set_operation (run_key r) ((operation_of r g3)\<lparr>co_status := CutoverDone, co_failure := None, co_updatedAt := now\<rparr>)
       (with_verification now r n g3))\<lparr>gw_switches := gw_switches g3 + 1, gw_ledger := l\<rparr>"
    and "a = \<lparr>ca_operationId = cq_operationId (cr_request r), ca_route = Some n, ca_sessions = length (cr_selected r),
          ca_replayedInputs = co_replayedInputs (operation_of r g3), ca_status = CutoverDone\<rparr>"
proof -
  obtain n g2 g3 where "cutover_route c now r (frozen_first r g) = (Inr n, g2)"
    "commit_each r n (cr_selected r) (at_registry now r g2) = (Inr (), g3)" "cutover_conclude c now r n g3 = (Inr a, g')"
    using assms unfolding commit_run by (auto simp: runs)
  then show thesis using conclude_run [of c now r n g3] by (auto intro: that)
qed

lemma at_registry_simps [simp]:
  "gw_routes (at_registry now r g) = gw_routes g" "gw_session (at_registry now r g) = gw_session g" "gw_live (at_registry now r g) = gw_live g"
  "map_of (gw_preparations (at_registry now r g)) (cr_room r) = None"
  "operation_of r (at_registry now r g) = (operation_of r g)\<lparr>co_status := RegistryCommitted, co_updatedAt := now\<rparr>"
  by (simp_all add: at_registry_def)

lemma frozen_first_simps [simp]:
  "gw_routes (frozen_first r g) = gw_routes g" "gw_preparations (frozen_first r g) = gw_preparations g"
  "gw_operations (frozen_first r g) = gw_operations g" "operation_of r (frozen_first r g) = operation_of r g"
  "i \<notin> set (cr_selected r) \<Longrightarrow> gw_session (frozen_first r g) i = gw_session g i"
  "cr_prepared r \<Longrightarrow> frozen_first r g = g"
  by (simp_all add: frozen_first_def)

lemma frozen_first_session: "gw_session (frozen_first r g) i = gw_session g i \<or> gw_session (frozen_first r g) i = session_freeze (gw_session g i)"
  by (simp add: frozen_first_def)

text \<open>C25: A cutover that answers has moved the room.  The registry's route is the one the request asked for, every
  selected session plays on it, no other session is touched, the operation is done, the preparation is gone and the
  verification of exactly these sessions has begun.\<close>

theorem cutover_moves_the_room:
  assumes "cutover_resume c now r g = (Inr a, g')" and "distinct (cr_selected r)"
  shows "\<exists>route v. map_of (gw_routes g') (cr_room r) = Some route \<and> js_eq (gr_epoch route) (cq_nextEpoch (cr_request r))
    \<and> ca_route a = Some route \<and> ca_sessions a = length (cr_selected r)
    \<and> (\<forall>i \<in> set (cr_selected r). \<exists>d. gs_current (gw_session g' i) = Some d \<and> same_upstream route d (gw_session g' i))
    \<and> (\<forall>i. i \<notin> set (cr_selected r) \<longrightarrow> gw_session g' i = gw_session g i)
    \<and> co_status (operation_of r g') = CutoverDone \<and> map_of (gw_preparations g') (cr_room r) = None
    \<and> map_of (gw_verifications g') (cr_room r) = Some v \<and> rv_sessionIds v = cr_selected r \<and> rv_epoch v = gr_epoch route
    \<and> rv_operationId v = cq_operationId (cr_request r)"
proof -
  obtain n g2 g3 l where route: "cutover_route c now r (frozen_first r g) = (Inr n, g2)"
    and each: "commit_each r n (cr_selected r) (at_registry now r g2) = (Inr (), g3)"
    and g': "g' = (set_operation (run_key r) ((operation_of r g3)\<lparr>co_status := CutoverDone, co_failure := None, co_updatedAt := now\<rparr>)
       (with_verification now r n g3))\<lparr>gw_switches := gw_switches g3 + 1, gw_ledger := l\<rparr>"
    and a: "a = \<lparr>ca_operationId = cq_operationId (cr_request r), ca_route = Some n, ca_sessions = length (cr_selected r),
          ca_replayedInputs = co_replayedInputs (operation_of r g3), ca_status = CutoverDone\<rparr>"
    by (rule commit_Inr [OF assms(1) [unfolded resume_Inr]])
  note rt = cutover_route_Inr [OF route]
  have g2: "gw_session g2 = gw_session (frozen_first r g)" by (subst rt(3)) simp
  have g3: "gw_routes g3 = gw_routes g2" "map_of (gw_preparations g3) (cr_room r) = None"
    "\<forall>j. j \<notin> set (cr_selected r) \<longrightarrow> gw_session g3 j = gw_session g2 j"
    using commit_each_frame [OF each] by (auto simp: only_commits_def same_tables_def)
  have "\<exists>d. gs_current (gw_session g3 i) = Some d \<and> same_upstream n d (gw_session g3 i)" if "i \<in> set (cr_selected r)" for i
    using commit_each_done [OF each assms(2) that] by blast
  then show ?thesis
    using rt(1,2) g2 g3 a by (simp add: g' with_verification_def)
qed

section \<open>A cutover that fails\<close>

lemma abort_returns:
  assumes g: "good False s"
  shows "\<exists>s'. abortPrepared s = (Inr (), s') \<and> \<not> gs_frozen s' \<and> gs_prepared s' = None \<and> gs_current s' = gs_current s
    \<and> gs_inputs s' = gs_inputs s"
proof -
  obtain l where ok: "session_ok False l s" and range: "within_range l" using g by (auto simp: good_def)
  note lk = links_okD [OF session_okD(4) [OF ok]]
  let ?t = "(close_opt (gs_prepared s) s)\<lparr>gs_prepared := None, gs_frozen := False\<rparr>"
  have "session_ok False l (close_opt (gs_prepared s) s)" by (rule session_ok_close_opt [OF ok]) (rule lk(3))
  then have base: "base_ok l ?t" by (auto simp: session_ok_base base_ok_def links_ok_def shadow_ok_def)
  show ?thesis
  proof (cases "gs_current s")
    case None
    then show ?thesis by (simp add: abortPrepared_def thenE_def bindE_def)
  next
    case (Some c)
    have c: "c < gs_next ?t" "gs_prepared ?t \<noteq> Some c" using lk(2) Some by simp_all
    obtain s' where "flushInputs c ?t = (Inr (), s')" "\<exists>ws n. s' = sent_to c ws n ?t"
      using flush_run [OF base range c] by blast
    then show ?thesis using Some by (auto simp: abortPrepared_def thenE_def bindE_def)
  qed
qed

lemma abort_loop:
  assumes "distinct ids" and "\<forall>i \<in> set ids. good False (gw_session g i)"
  shows "forE ids (\<lambda>i. on_session i abortPrepared) g
    = (Inr (), g\<lparr>gw_session := (\<lambda>j. if j \<in> set ids then snd (abortPrepared (gw_session g j)) else gw_session g j)\<rparr>)"
  using assms
proof (induction ids arbitrary: g)
  case (Cons i ids)
  obtain s' where s': "abortPrepared (gw_session g i) = (Inr (), s')" using abort_returns Cons.prems(2) by fastforce
  let ?h = "g\<lparr>gw_session := (gw_session g)(i := s')\<rparr>"
  have "forE ids (\<lambda>i. on_session i abortPrepared) ?h
      = (Inr (), ?h\<lparr>gw_session := (\<lambda>j. if j \<in> set ids then snd (abortPrepared (gw_session ?h j)) else gw_session ?h j)\<rparr>)"
    by (rule Cons.IH) (use Cons.prems in auto)
  moreover have "(\<lambda>j. if j \<in> set ids then snd (abortPrepared (gw_session ?h j)) else gw_session ?h j)
      = (\<lambda>j. if j \<in> set (i # ids) then snd (abortPrepared (gw_session g j)) else gw_session g j)"
    using s' Cons.prems(1) by (auto simp: fun_eq_iff)
  ultimately show ?case using s' by (simp add: thenE_def bindE_def on_session_run)
qed simp

lemma cutover_route_Inl: "cutover_route c now r g = (Inl e, g') \<Longrightarrow> g' = g"
  by (auto simp: cutover_route_def Let_def runs split: option.splits sum.splits if_splits)

lemma commit_Inl:
  assumes "cutover_commit c now r g = (Inl e, g')"
  shows "g' = frozen_first r g \<or> (\<exists>n g2. cutover_route c now r (frozen_first r g) = (Inr n, g2)
    \<and> commit_each r n (cr_selected r) (at_registry now r g2) = (Inl e, g'))"
  using assms cutover_route_Inl [of c now r "frozen_first r g"] conclude_run [of c now r]
  unfolding commit_run by (auto simp: runs) (metis Inl_Inr_False prod.inject)+

text \<open>The \<open>catch\<close>, in its two cases.\<close>

lemma failed_committed:
  assumes "co_status (operation_of r g) = RegistryCommitted"
  shows "\<exists>l. cutover_failed c now r e g = (Inl e, (set_operation (run_key r) ((operation_of r g)\<lparr>co_failure := Some e, co_updatedAt := now\<rparr>) g)
      \<lparr>gw_failures := gw_failures g + 1, gw_ledger := l\<rparr>)"
  using assms by (simp add: cutover_failed_def thenE_def bindE_def) (simp add: set_operation_def, rule exI, rule refl)

lemma failed_open:
  assumes "co_status (operation_of r g) \<noteq> RegistryCommitted" and "distinct (cr_selected r)"
    and "\<forall>i \<in> set (cr_selected r). good False (gw_session g i)"
  shows "\<exists>g'. cutover_failed c now r e g = (Inl e, g') \<and> gw_routes g' = gw_routes g \<and> map_of (gw_preparations g') (cr_room r) = None
    \<and> co_status (operation_of r g') = CutoverFailed \<and> co_failure (operation_of r g') = Some e
    \<and> gw_session g' = (\<lambda>j. if j \<in> set (cr_selected r) then snd (abortPrepared (gw_session g j)) else gw_session g j)"
proof -
  let ?h = "set_operation (run_key r) ((operation_of r g)\<lparr>co_failure := Some e, co_updatedAt := now, co_status := CutoverFailed\<rparr>)
    (set_operation (run_key r) ((operation_of r g)\<lparr>co_failure := Some e, co_updatedAt := now\<rparr>) g)"
  have loop: "forE (cr_selected r) (\<lambda>i. on_session i abortPrepared) ?h
    = (Inr (), ?h\<lparr>gw_session := (\<lambda>j. if j \<in> set (cr_selected r) then snd (abortPrepared (gw_session g j)) else gw_session g j)\<rparr>)"
    using abort_loop [OF assms(2), of ?h] assms(3) unfolding set_operation_simps by blast
  show ?thesis using assms(1) loop by (simp add: cutover_failed_def thenE_def bindE_def)
qed

text \<open>C26: A cutover that fails is known by its status.  Either the registry has the route of the request, and the
  operation says so, or the operation has failed for good and the room is as it was: the registry is unchanged, the
  preparation is gone and every selected session has left the candidate, is no longer frozen and plays on the upstream
  it had, with all its buffered inputs.\<close>

theorem failed_cutover_resumes_the_room:
  assumes run: "cutover_resume c now r g = (Inl e, g')" and dist: "distinct (cr_selected r)"
    and status: "co_status (operation_of r g) \<noteq> RegistryCommitted"
    and reach: "\<forall>i \<in> set (cr_selected r). session_reach env (gw_session g i)"
  shows "co_failure (operation_of r g') = Some e \<and> map_of (gw_preparations g') (cr_room r) = None \<and>
    (if co_status (operation_of r g') = RegistryCommitted
     then \<exists>route. map_of (gw_routes g') (cr_room r) = Some route \<and> js_eq (gr_epoch route) (cq_nextEpoch (cr_request r))
     else co_status (operation_of r g') = CutoverFailed \<and> gw_routes g' = gw_routes g
       \<and> (\<forall>i \<in> set (cr_selected r). \<not> gs_frozen (gw_session g' i) \<and> gs_prepared (gw_session g' i) = None
            \<and> gs_current (gw_session g' i) = gs_current (gw_session g i) \<and> gs_inputs (gw_session g' i) = gs_inputs (gw_session g i)))"
proof -
  obtain e1 h where commit: "cutover_commit c now r g = (Inl e1, h)" and failed: "cutover_failed c now r e1 h = (Inl e :: string + cutover_answer, g')"
    using run by (auto simp: cutover_resume_def catchE_def split: prod.splits sum.splits)
  have good: "good False (gw_session (frozen_first r g) i) \<and> gs_current (gw_session (frozen_first r g) i) = gs_current (gw_session g i)
      \<and> gs_inputs (gw_session (frozen_first r g) i) = gs_inputs (gw_session g i)" if "i \<in> set (cr_selected r)" for i
    using frozen_first_session [of r g i] reach_good [OF reach [rule_format, OF that]]
    by (auto simp: session_freeze_def good_keeps [OF session_ok_freeze [unfolded session_freeze_def]])
  from commit_Inl [OF commit] show ?thesis
  proof
    assume h: "h = frozen_first r g"
    have "co_status (operation_of r h) \<noteq> RegistryCommitted" using status by (simp add: h)
    from failed_open [OF this dist] good obtain g1 where
      "cutover_failed c now r e1 h = (Inl e1 :: string + cutover_answer, g1)" "gw_routes g1 = gw_routes h" "map_of (gw_preparations g1) (cr_room r) = None"
      "co_status (operation_of r g1) = CutoverFailed" "co_failure (operation_of r g1) = Some e1"
      "gw_session g1 = (\<lambda>j. if j \<in> set (cr_selected r) then snd (abortPrepared (gw_session h j)) else gw_session h j)"
      unfolding h by blast
    moreover have "\<not> gs_frozen (snd (abortPrepared (gw_session h i))) \<and> gs_prepared (snd (abortPrepared (gw_session h i))) = None
        \<and> gs_current (snd (abortPrepared (gw_session h i))) = gs_current (gw_session g i)
        \<and> gs_inputs (snd (abortPrepared (gw_session h i))) = gs_inputs (gw_session g i)" if "i \<in> set (cr_selected r)" for i
      using abort_returns good [OF that] unfolding h by (metis snd_conv)
    ultimately show ?thesis using failed by (simp add: h)
  next
    assume "\<exists>n g2. cutover_route c now r (frozen_first r g) = (Inr n, g2)
      \<and> commit_each r n (cr_selected r) (at_registry now r g2) = (Inl e1, h)"
    then obtain n g2 where route: "cutover_route c now r (frozen_first r g) = (Inr n, g2)"
      and each: "commit_each r n (cr_selected r) (at_registry now r g2) = (Inl e1, h)" by blast
    have h: "gw_routes h = gw_routes g2" "map_of (gw_preparations h) (cr_room r) = None" "co_status (operation_of r h) = RegistryCommitted"
      using commit_each_frame [OF each] by (auto simp: only_commits_def same_tables_def)
    obtain l where "cutover_failed c now r e1 h = (Inl e1 :: string + cutover_answer,
      (set_operation (run_key r) ((operation_of r h)\<lparr>co_failure := Some e1, co_updatedAt := now\<rparr>) h)
      \<lparr>gw_failures := gw_failures h + 1, gw_ledger := l\<rparr>)"
      using failed_committed [OF h(3)] by blast
    then have "g' = (set_operation (run_key r) ((operation_of r h)\<lparr>co_failure := Some e1, co_updatedAt := now\<rparr>) h)
      \<lparr>gw_failures := gw_failures h + 1, gw_ledger := l\<rparr>" "e = e1"
      using failed by simp_all
    then show ?thesis using h cutover_route_Inr(1,2) [OF route] by simp
  qed
qed

section \<open>Repeated requests\<close>

lemma enroll_run:
  assumes "cutover_enroll now room q existing epoch g = (Inr r, g')"
  shows "cr_room r = room" and "cr_request r = q" and "map_of (gw_operations g') (run_key r) = Some (operation_of r g')"
    and "cr_selected r = filter (\<lambda>i. i \<in> set (gw_live g)) (co_sessionIds (operation_of r g'))" and "gw_session g' = gw_session g"
    and "gw_routes g' = gw_routes g" and "existing = Some o' \<Longrightarrow> operation_of r g' = o'"
  using assms by (auto simp: cutover_enroll_def Let_def runs run_key_def operation_of_def set_operation_def split: if_splits option.splits)

lemma checks_state: "snd (cutover_checks c r g) = g"
  by (simp add: cutover_checks_def bindE_def thenE_def guard_run)

lemma begin_run:
  assumes "cutover_begin c now room q g = (Inr (Inr r), g')"
  shows "cr_room r = room" and "cr_request r = q" and "length (cr_selected r) = length (co_sessionIds (operation_of r g'))"
proof -
  obtain x h where x: "cutover_admit now room q g = (Inr x, h)"
    "(case x of Inl a \<Rightarrow> ret (Inl a) | Inr r \<Rightarrow> thenE (catchE (cutover_checks c r) (cutover_failed c now r)) (ret (Inr r))) h
       = (Inr (Inr r), g')"
    using assms unfolding cutover_begin_def bindE_Inr by blast
  then have h: "cutover_admit now room q g = (Inr (Inr r), h)" "catchE (cutover_checks c r) (cutover_failed c now r) h = (Inr (), g')"
    by (cases x; auto simp: thenE_Inr)+
  have checks: "cutover_checks c r h = (Inr (), g')"
    using h(2) by (auto simp: catchE_def split: prod.splits sum.splits)
  then have "g' = h" using checks_state [of c r h] by simp
  moreover have "\<exists>ex epoch. cutover_enroll now room q ex epoch g = (Inr r, h)"
    using h(1) by (auto simp: cutover_admit_def runs split: option.splits if_splits)
  ultimately show "cr_room r = room" "cr_request r = q" "length (cr_selected r) = length (co_sessionIds (operation_of r g'))"
    using enroll_run(1,2) checks by (auto simp: cutover_checks_def runs split: if_splits)
qed

text \<open>C27: A cutover takes effect once.  After it has answered, the same request is answered with the same numbers and
  the registry's route and changes nothing, and another request under the same operation is refused and changes nothing.\<close>

theorem repeated_cutover_is_answered_alike:
  assumes started: "cutover_begin c t room q g0 = (Inr (Inr r), g1)"
    and kept: "map_of (gw_operations g) (run_key r) = Some o'" "same_request q o'" "co_sessionIds o' = co_sessionIds (operation_of r g1)"
    and run: "cutover_resume c now r g = (Inr a, g')"
  shows "cutover_begin c t' room q g' = (Inr (Inl a), g') \<and>
    (cq_operationId q' = cq_operationId q \<longrightarrow> cutover_begin c t' room q' g' =
       (if same_request q' (operation_of r g') then (Inr (Inl a), g') else (Inl ''gateway_operation_request_conflict'', g')))"
proof -
  note b = begin_run [OF started]
  obtain n g2 g3 l where route: "cutover_route c now r (frozen_first r g) = (Inr n, g2)"
    and each: "commit_each r n (cr_selected r) (at_registry now r g2) = (Inr (), g3)"
    and g': "g' = (set_operation (run_key r) ((operation_of r g3)\<lparr>co_status := CutoverDone, co_failure := None, co_updatedAt := now\<rparr>)
       (with_verification now r n g3))\<lparr>gw_switches := gw_switches g3 + 1, gw_ledger := l\<rparr>"
    and a: "a = \<lparr>ca_operationId = cq_operationId (cr_request r), ca_route = Some n, ca_sessions = length (cr_selected r),
          ca_replayedInputs = co_replayedInputs (operation_of r g3), ca_status = CutoverDone\<rparr>"
    by (rule commit_Inr [OF run [unfolded resume_Inr]])
  note rt = cutover_route_Inr [OF route]
  have "operation_of r g2 = operation_of r g"
    using rt(3) frozen_first_simps(3) [of r g] operation_of_cong by (metis gateway.select_convs(6) gateway.update_convs(1,7) operation_of_outside(2,3) frozen_first_simps(4))
  then have "operation_of r g2 = o'" using kept(1) by (simp add: operation_of_def)
  then obtain k where op: "operation_of r g3 = o'\<lparr>co_status := RegistryCommitted, co_updatedAt := now, co_replayedInputs := k\<rparr>"
    using commit_each_frame [OF each] by (auto simp: only_commits_def)
  have routes: "map_of (gw_routes g') room = Some n"
    using commit_each_frame [OF each] rt(1) b(1) by (auto simp: g' only_commits_def same_tables_def with_verification_def)
  have stored: "map_of (gw_operations g') (operationKey room (cq_operationId q)) = Some (operation_of r g')"
    using b(1,2) by (simp add: g' operation_of_def run_key_def)
  have final: "operation_of r g' = o'\<lparr>co_status := CutoverDone, co_updatedAt := now, co_replayedInputs := k, co_failure := None\<rparr>"
    by (simp add: g' op)
  show ?thesis
    using routes stored final a b kept(2,3) op
    by (auto simp: cutover_begin_def cutover_admit_def bindE_def same_request_def)
qed

section \<open>A session whose candidate is gone\<close>

lemma commit_each_stops:
  assumes "distinct (xs @ i # ys)"
    and "\<forall>x \<in> set xs. \<exists>k s'. commitPrepared route (gw_session g x) = (Inr k, s')"
    and "commitPrepared route (gw_session g i) = (Inl e, gw_session g i)"
  shows "\<exists>g'. commit_each r route (xs @ i # ys) g = (Inl e, g') \<and> (\<forall>y. y \<notin> set xs \<longrightarrow> gw_session g' y = gw_session g y)"
  using assms
proof (induction xs arbitrary: g)
  case Nil
  then show ?case by (simp add: bindE_def on_session_run)
next
  case (Cons x xs)
  obtain k s' where y: "commitPrepared route (gw_session g x) = (Inr k, s')" using Cons.prems(2) by auto
  let ?h = "g\<lparr>gw_session := (gw_session g)(x := s')\<rparr>"
  let ?k = "set_operation (run_key r) ((operation_of r ?h)\<lparr>co_replayedInputs := co_replayedInputs (operation_of r ?h) + k\<rparr>) ?h"
  have "commit_each r route ((x # xs) @ i # ys) g = commit_each r route (xs @ i # ys) ?k"
    using y by (simp add: bindE_def thenE_def on_session_run)
  moreover have "\<exists>g'. commit_each r route (xs @ i # ys) ?k = (Inl e, g') \<and> (\<forall>y. y \<notin> set xs \<longrightarrow> gw_session g' y = gw_session ?k y)"
    by (rule Cons.IH) (use Cons.prems in auto)
  ultimately show ?case by auto
qed

text \<open>C28: A cutover stops half-way when the candidate of one session is gone by the time of the commit, because the
  browser has left or the preparation has timed out meanwhile.  The registry has the new route already, the operation is
  marked so, the preparation with its timer is gone; the sessions before it have moved, and those after it are left as
  they were, frozen if the room was frozen.\<close>

theorem lost_candidate_stops_the_cutover:
  assumes prepared: "cr_prepared r" and route: "cutover_route c now r g = (Inr n, g2)"
    and sel: "cr_selected r = xs @ i # ys" "distinct (cr_selected r)"
    and ready: "\<forall>x \<in> set xs. \<exists>k s'. commitPrepared n (gw_session g x) = (Inr k, s')"
    and gone: "gs_prepared (gw_session g i) = None" "\<not> plays_on n (gw_session g i)"
  shows "\<exists>g'. cutover_resume c now r g = (Inl ''gateway_candidate_not_prepared'', g')
    \<and> map_of (gw_routes g') (cr_room r) = Some n \<and> co_status (operation_of r g') = RegistryCommitted
    \<and> map_of (gw_preparations g') (cr_room r) = None \<and> (\<forall>y \<in> set (i # ys). gw_session g' y = gw_session g y)"
proof -
  have first: "frozen_first r g = g" using prepared by simp
  note rt = cutover_route_Inr [OF route]
  have g2: "gw_session g2 = gw_session g" by (subst rt(3)) simp
  have lost: "commitPrepared n (gw_session g i) = (Inl ''gateway_candidate_not_prepared'', gw_session g i)"
    using gone by (simp add: commitPrepared_def bindE_def)
  obtain h where h: "commit_each r n (cr_selected r) (at_registry now r g2) = (Inl ''gateway_candidate_not_prepared'', h)"
    "\<forall>y. y \<notin> set xs \<longrightarrow> gw_session h y = gw_session g y"
    using commit_each_stops [of xs i ys n "at_registry now r g2" "''gateway_candidate_not_prepared''" r] sel ready lost
    by (auto simp: g2)
  have frame: "gw_routes h = gw_routes g2" "map_of (gw_preparations h) (cr_room r) = None" "co_status (operation_of r h) = RegistryCommitted"
    using commit_each_frame [OF h(1)] by (auto simp: only_commits_def same_tables_def)
  have commit: "cutover_commit c now r g = (Inl ''gateway_candidate_not_prepared'', h)"
    using route h(1) by (simp add: commit_run first bindE_def thenE_def)
  obtain l where "cutover_failed c now r ''gateway_candidate_not_prepared'' h = (Inl ''gateway_candidate_not_prepared'' :: string + cutover_answer,
      (set_operation (run_key r) ((operation_of r h)\<lparr>co_failure := Some ''gateway_candidate_not_prepared'', co_updatedAt := now\<rparr>) h)
      \<lparr>gw_failures := gw_failures h + 1, gw_ledger := l\<rparr>)"
    using failed_committed [OF frame(3)] by blast
  moreover have "y \<notin> set xs" if "y \<in> set (i # ys)" for y using that sel by auto
  ultimately show ?thesis using commit frame rt(1) h(2) by (simp add: cutover_resume_def catchE_def)
qed

text \<open>
  Once one of its sessions has left, such an operation cannot be completed: every repetition of the request fails its
  check before any session is asked, and changes no session and no route.
\<close>

lemma retry_after_a_lost_session_fails:
  assumes "map_of (gw_routes g) room = Some route" and o': "map_of (gw_operations g) (operationKey room (cq_operationId q)) = Some o'"
    and "same_request q o'" and status: "co_status o' = RegistryCommitted"
    and "map_of (gw_preparations g) room = None" and "cq_checksumMatched q" and "cq_caughtUp q"
    and lost: "i \<in> set (co_sessionIds o')" "i \<notin> set (gw_live g)"
  shows "\<exists>g'. cutover_begin c now room q g = (Inl ''gateway_session_continuity_lost_before_cutover'', g')
    \<and> gw_session g' = gw_session g \<and> gw_routes g' = gw_routes g"
proof -
  let ?sel = "filter (\<lambda>i. i \<in> set (gw_live g)) (co_sessionIds o')"
  let ?r = "\<lparr>cr_room = room, cr_request = q, cr_prepared = False, cr_selected = ?sel, cr_epoch = gr_epoch route\<rparr>"
  let ?h = "set_operation (run_key ?r) o' g"
  have key: "operationKey room (cq_operationId q) = run_key ?r" by (simp add: run_key_def)
  have admit: "cutover_admit now room q g = (Inr (Inr ?r), ?h)"
    using assms(1-5) by (simp add: cutover_admit_def cutover_enroll_def bindE_def thenE_def Let_def key)
  have "length ?sel < length (co_sessionIds o')" using lost length_filter_less by metis
  then have checks: "cutover_checks c ?r ?h = (Inl ''gateway_session_continuity_lost_before_cutover'', ?h)"
    using status assms(6,7) by (simp add: cutover_checks_def bindE_def thenE_def guard_run)
  obtain l where "cutover_failed c now ?r ''gateway_session_continuity_lost_before_cutover'' ?h
    = (Inl ''gateway_session_continuity_lost_before_cutover'' :: string + unit,
       (set_operation (run_key ?r) ((operation_of ?r ?h)\<lparr>co_failure := Some ''gateway_session_continuity_lost_before_cutover'',
          co_updatedAt := now\<rparr>) ?h)\<lparr>gw_failures := gw_failures ?h + 1, gw_ledger := l\<rparr>)"
    using failed_committed [of ?r ?h c now "''gateway_session_continuity_lost_before_cutover''"] status by auto
  then show ?thesis
    by (simp add: cutover_begin_def bindE_def admit thenE_def catchE_def checks)
qed

section \<open>Verification\<close>

lemma full_count: "length (filter P xs) = length xs \<longleftrightarrow> (\<forall>x \<in> set xs. P x)"
  by (metis filter_True length_filter_less less_irrefl)

lemma finalize_each_run:
  assumes "distinct ids" and "\<forall>i \<in> set ids. i \<in> set (gw_live g)"
  shows "\<exists>m. finalize_each ids g = (Inr (length ids, m),
    g\<lparr>gw_session := (\<lambda>j. if j \<in> set ids then finalizeVerification (gw_session g j) else gw_session g j)\<rparr>)"
  using assms
proof (induction ids arbitrary: g)
  case (Cons i ids)
  let ?h = "g\<lparr>gw_session := (gw_session g)(i := finalizeVerification (gw_session g i))\<rparr>"
  obtain m where "finalize_each ids ?h = (Inr (length ids, m),
    ?h\<lparr>gw_session := (\<lambda>j. if j \<in> set ids then finalizeVerification (gw_session ?h j) else gw_session ?h j)\<rparr>)"
    using Cons.IH [of ?h] Cons.prems by auto
  moreover have "(\<lambda>j. if j \<in> set ids then finalizeVerification (gw_session ?h j) else gw_session ?h j)
      = (\<lambda>j. if j \<in> set (i # ids) then finalizeVerification (gw_session g j) else gw_session g j)"
    using Cons.prems(1) by (auto simp: fun_eq_iff)
  ultimately show ?case
    using Cons.prems by (simp add: bindE_def thenE_def on_session_run [where m = "modifyE finalizeVerification"] del: basic_run(3))
       (simp add: modifyE_def on_session_def zoomE_def)
qed simp

text \<open>C29: A verification is finalized, and the inputs retained for a rollback are dropped, only while it is fresh, the
  registry has the verified epoch and every one of its sessions is live, its browser connected, its upstream open and
  the registry's.\<close>

theorem finalize_needs_continuity:
  assumes run: "finalizeRoomVerification c now room operationId g = (Inr (k, m), g')"
    and v: "map_of (gw_verifications g) room = Some v" and dist: "distinct (rv_sessionIds v)"
  shows "\<exists>route. map_of (gw_routes g) (rv_roomId v) = Some route \<and> js_eq (gr_epoch route) (rv_epoch v)
    \<and> rv_operationId v = operationId \<and> \<not> verification_stale c now v \<and> k = length (rv_sessionIds v)
    \<and> map_of (gw_verifications g') room = None
    \<and> (\<forall>i \<in> set (rv_sessionIds v). i \<in> set (gw_live g) \<and> \<not> gs_stopped (gw_session g i) \<and> \<not> gs_closed (gw_session g i)
         \<and> (\<exists>d. gs_current (gw_session g i) = Some d \<and> is_open d (gw_session g i) \<and> same_upstream route d (gw_session g i))
         \<and> \<not> gs_verifying (gw_session g' i) \<and> gs_shadow (gw_session g' i) = [])"
proof -
  let ?ids = "rv_sessionIds v"
  have op: "rv_operationId v = operationId" and cont: "vv_continuous (roomVerificationView c now v g)"
    and each: "bindE (finalize_each ?ids) (\<lambda>r. thenE (modifyE (\<lambda>g. g\<lparr>gw_verifications := odel room (gw_verifications g)\<rparr>)) (ret r)) g
      = (Inr (k, m), g')"
    using run v by (auto simp: finalizeRoomVerification_def bindE_def [of "getsE _"] Let_def split: if_splits)
  obtain route where route: "map_of (gw_routes g) (rv_roomId v) = Some route" "js_eq (gr_epoch route) (rv_epoch v)"
    using cont by (auto simp: roomVerificationView_def Let_def split: option.splits)
  have all: "\<forall>i \<in> set ?ids. i \<in> set (gw_live g) \<and> part (upstream_continuity route (gw_session g i))"
    if "part \<in> {ct_downstream, ct_upstream, ct_epoch}" for part
    using cont that route(1) by (auto simp: roomVerificationView_def Let_def continuous_sessions_def full_count)
  have stale: "\<not> verification_stale c now v" using cont by (simp add: roomVerificationView_def Let_def)
  obtain m' where "finalize_each ?ids g = (Inr (length ?ids, m'),
      g\<lparr>gw_session := (\<lambda>j. if j \<in> set ?ids then finalizeVerification (gw_session g j) else gw_session g j)\<rparr>)"
    using finalize_each_run [OF dist] all [of ct_downstream] by blast
  then have k: "k = length ?ids" and g': "g' = g\<lparr>gw_session := (\<lambda>j. if j \<in> set ?ids then finalizeVerification (gw_session g j) else gw_session g j),
      gw_verifications := odel room (gw_verifications g)\<rparr>"
    using each by (auto simp: bindE_def thenE_def)
  have "i \<in> set (gw_live g) \<and> \<not> gs_stopped (gw_session g i) \<and> \<not> gs_closed (gw_session g i)
         \<and> (\<exists>d. gs_current (gw_session g i) = Some d \<and> is_open d (gw_session g i) \<and> same_upstream route d (gw_session g i))"
    if "i \<in> set ?ids" for i
    using all [of ct_downstream] all [of ct_upstream] all [of ct_epoch] that
    by (auto simp: upstream_continuity_def same_upstream_def split: option.splits)
  then show ?thesis using route op stale k by (auto simp: g' finalizeVerification_def)
qed

end
