(* ===== verification/GatewayRoomTables.thy ===== *)
theory GatewayRoomTables
  imports GatewayRoomFacts
begin

text \<open>
  The whole gateway as a transition system: the room operations, the two halves of a cutover, the sockets of
  every session and the routes, in any order.  Its tables stay well formed: what is stored under a room or an
  operation is that room's or operation's, and the sessions it names are the room's, each once.
\<close>

declare basic_run [simp del]

section \<open>A session keeps its data\<close>

definition has_data :: "socket_data \<Rightarrow> gsession \<Rightarrow> bool" where
  "has_data d s = (gs_data s = d)"

lemma data_modify: "(\<And>s. gs_data (f s) = gs_data s) \<Longrightarrow> keeps (has_data d) (modifyE f)"
  by (simp add: keeps_def has_data_def modifyE_def)

lemma data_close [simp]: "gs_data (close_opt x s) = gs_data s" "gs_data (close_socket c s) = gs_data s" "gs_data (settle c p s) = gs_data s"
  "gs_data (session_stop s) = gs_data s" "gs_data (drop_session n m s) = gs_data s" "gs_data (add_effect y s) = gs_data s"
  "gs_data (down_end n m s) = gs_data s" "gs_data (down_send v s) = gs_data s" "gs_data (input_failed m s) = gs_data s"
  by (simp_all add: close_opt_def close_socket_def settle_def on_conn_def session_stop_def drop_session_def add_effect_def down_end_def
      down_send_def input_failed_def split: option.splits)

lemma data_sendInput: "keeps (has_data d) (sendInput c p ep n)"
proof -
  have "gs_data (sendBinary c v s) = gs_data s" for v s by (simp add: sendBinary_def on_conn_def)
  then have "keeps (has_data d) (case x of Inl m \<Rightarrow> throwE m | Inr v \<Rightarrow> modifyE (sendBinary c v))" for x
    by (cases x) (simp_all add: keeps_throwE data_modify)
  then show ?thesis unfolding sendInput_def by (intro keeps_intros)
qed

lemma data_entries: "keeps (has_data d) (sendEntries c ep es)"
  unfolding sendEntries_def by (intro keeps_intros data_sendInput)

lemma data_flush: "keeps (has_data d) (flushInputs c)"
  unfolding flushInputs_def by (rule keeps_bindE [OF keeps_getsE]) (auto intro!: keeps_intros data_entries data_modify simp: split_def)

lemma data_retain: "keeps (has_data d) (retainForRollback x)"
  unfolding retainForRollback_def by (intro keeps_intros data_modify) simp

lemma data_replay: "keeps (has_data d) (replay_to c ep es)"
  unfolding replay_to_def setRollbackInputs_def by (intro keeps_intros data_entries data_retain data_modify) simp_all

lemma data_commit: "keeps (has_data d) (commitPrepared r)"
proof -
  have fold: "gs_data (if gs_stopped s then s else fold down_send vs s) = gs_data s" for vs s by (simp add: fold_down_send)
  have "keeps (has_data d) (case gs_prepared s of None \<Rightarrow> throwE ''gateway_candidate_not_prepared''
       | Some c \<Rightarrow> if \<not> same_upstream r c s then throwE ''gateway_candidate_route_conflict'' else
             thenE (modifyE (\<lambda>s. close_opt (gs_current s)
                      ((on_conn c (\<lambda>k. k\<lparr>cn_committed := True\<rparr>) s)\<lparr>gs_current := Some c, gs_prepared := None\<rparr>)))
             (thenE (modifyE (\<lambda>s. if gs_stopped s then s else fold down_send (cn_frames (gs_conns s c)) s))
             (bindE (getsE (\<lambda>s. mergeRollbackInputs (gs_shadow s) (buffer_replay (gs_inputs s)))) (\<lambda>replay.
              replay_to c (cn_epoch (gs_conns s c)) replay))))" for s
    by (cases "gs_prepared s") (auto intro!: keeps_intros data_modify data_replay fold)
  then show ?thesis unfolding commitPrepared_def by (intro keeps_intros)
qed

lemma data_abort: "keeps (has_data d) abortPrepared"
proof -
  have "keeps (has_data d) (case c of None \<Rightarrow> ret () | Some n \<Rightarrow> flushInputs n)" for c
    by (cases c) (simp_all add: keeps_ret data_flush)
  then show ?thesis unfolding abortPrepared_def by (intro keeps_intros data_modify) simp_all
qed

lemma data_started: "keeps (has_data d) (start_opened c)"
proof -
  have "keeps (has_data d) (case j of None \<Rightarrow> ret () | Some p \<Rightarrow> sendInput c p ep 0)" for j ep
    by (cases j) (simp_all add: keeps_ret data_sendInput)
  then show ?thesis
    unfolding start_opened_def by (auto intro!: keeps_intros data_modify data_flush simp: split_def)
qed

lemma data_prepared: "keeps (has_data d) (prepare_opened e c token)"
proof -
  have "keeps (has_data d) (case gs_join s of None \<Rightarrow> throwE ''TypeError''
      | Some t \<Rightarrow> (case writeGatewayJoin e t token of Inl err \<Rightarrow> throwE err
          | Inr payload \<Rightarrow> thenE (sendInput c payload (cn_epoch (gs_conns s c)) 0) (modifyE (on_conn c (\<lambda>k. k\<lparr>cn_promise := Waiting\<rparr>)))))" for s
    by (auto intro!: keeps_intros data_modify data_sendInput split: option.splits sum.splits)
  then show ?thesis unfolding prepare_opened_def by (intro keeps_intros data_modify) simp_all
qed

lemma data_latest: "keeps (has_data d) (send_latest_entry x)"
  unfolding send_latest_entry_def
  by (rule keeps_bindE [OF keeps_getsE]) (auto intro!: keeps_intros data_sendInput data_modify split: bool.splits option.splits)

lemma data_input: "keeps (has_data d) (receive_input p)"
  unfolding receive_input_def
  by (rule keeps_bindE [OF keeps_getsE])
     (auto intro!: keeps_intros data_retain data_modify data_latest split: sum.splits)

lemma data_join: "keeps (has_data d) (receive_join t p now as)"
  unfolding receive_join_def
  by (rule keeps_bindE [OF keeps_getsE]) (auto intro!: keeps_intros data_sendInput data_modify split: prod.splits bool.splits option.splits)

lemma data_receive: "keeps (has_data d) (session_receive e now p as)"
  unfolding session_receive_def
  by (rule keeps_bindE [OF keeps_getsE])
     (auto intro!: keeps_intros data_input data_join data_modify split: sum.splits option.splits)

lemma data_monadic: "keeps (has_data (gs_data s)) m \<Longrightarrow> gs_data (snd (m s)) = gs_data s"
  by (drule keepsD [where s = s]) (simp_all add: has_data_def)

lemma data_patient:
  assumes "patient_step e s s'"
  shows "gs_data s' = gs_data s"
  using assms
  by cases (simp_all add: data_monadic data_started data_receive data_prepared data_abort data_commit start_begin_def open_timeout_def
        start_failed_def current_message_def current_close_def downstream_close_def prepare_connect_def candidate_message_def
        reject_candidate_def candidate_output_def forwardCandidateFrame_def candidate_close_def candidate_error_def candidate_timeout_def
        session_freeze_def finalizeVerification_def Let_def split: sum.splits option.splits gateway_frame.splits)

lemma data_step: "session_step e s s' \<Longrightarrow> gs_data s' = gs_data s"
  by (induction rule: session_step.induct) (simp_all add: data_patient data_monadic data_abort data_commit)

section \<open>The steps of the gateway\<close>

text \<open>
  Beside the gateway's state, the runs that wait for their sessions to prepare.  The sockets of a session that has
  left the table still deliver.
\<close>

inductive gateway_step :: "'u gateway_env \<Rightarrow> net_env \<Rightarrow> gateway \<times> cutover_run list \<Rightarrow> gateway \<times> cutover_run list \<Rightarrow> bool"
  for c e where
  session: "session_step e (gw_session g i) s
    \<Longrightarrow> gateway_step c e (g, rs) (g\<lparr>gw_session := (gw_session g)(i := s)\<rparr>, rs)"
| opened: "sd_id d \<notin> set (gw_live g) \<Longrightarrow> (\<forall>p \<in> snd ` set (gw_preparations g). sd_id d \<notin> set (rp_sessionIds p))
    \<Longrightarrow> (\<forall>v \<in> snd ` set (gw_verifications g). sd_id d \<notin> set (rv_sessionIds v))
    \<Longrightarrow> (\<forall>o' \<in> snd ` set (gw_operations g). sd_id d \<notin> set (co_sessionIds o'))
    \<Longrightarrow> gateway_step c e (g, rs) (browser_open d b g, rs)"
| closed: "gateway_step c e (g, rs) (browser_close i g, rs)"
| refused: "gateway_step c e (g, rs) (browser_start_failed i g, rs)"
| freeze: "gateway_step c e (g, rs) (snd (freezeRoom c now room op epoch supersedes g), rs)"
| abort: "gateway_step c e (g, rs) (snd (abortRoomPreparation room op' g), rs)"
| timed_out: "(room, p) \<in> set (gw_preparations g) \<Longrightarrow> gateway_step c e (g, rs) (snd (preparation_timeout c now p g), rs)"
| began: "cutover_begin c now room q g = (Inr (Inr r), g') \<Longrightarrow> gateway_step c e (g, rs) (g', r # rs)"
| answered: "cutover_begin c now room q g = (x, g') \<Longrightarrow> (\<And>r. x \<noteq> Inr (Inr r)) \<Longrightarrow> gateway_step c e (g, rs) (g', rs)"
| resumed: "r \<in> set rs \<Longrightarrow> gateway_step c e (g, rs) (snd (cutover_resume c now r g), remove1 r rs)"
| rejected: "r \<in> set rs \<Longrightarrow> gateway_step c e (g, rs) (snd (cutover_rejected c now r reason g), remove1 r rs)"
| finalized: "gateway_step c e (g, rs) (snd (finalizeRoomVerification c now room op g), rs)"
| routed: "route_do (ge_url c) (Register x) (gw_routes g) = Inr (n, routes')
    \<Longrightarrow> gateway_step c e (g, rs) (g\<lparr>gw_routes := routes'\<rparr>, rs)"
| reconciled: "route_do (ge_url c) (Reconcile x) (gw_routes g) = Inr (n, routes')
    \<Longrightarrow> gateway_step c e (g, rs) (g\<lparr>gw_routes := routes'\<rparr>, rs)"

text \<open>Nothing is known of the sessions that have not been opened.\<close>

definition new_gateway :: "routes \<Rightarrow> (string \<Rightarrow> gsession) \<Rightarrow> gateway" where
  "new_gateway routes unused = \<lparr>gw_routes = routes, gw_session = unused, gw_live = [], gw_preparations = [], gw_verifications = [],
     gw_operations = [], gw_ledger = new_ledger, gw_switches = 0, gw_failures = 0\<rparr>"

inductive gateway_reach :: "'u gateway_env \<Rightarrow> net_env \<Rightarrow> gateway \<times> cutover_run list \<Rightarrow> bool" for c e where
  initial: "new_registry (ge_url c) routes0 = Inr routes \<Longrightarrow> gateway_reach c e (new_gateway routes unused, [])"
| later: "gateway_reach c e x \<Longrightarrow> gateway_step c e x y \<Longrightarrow> gateway_reach c e y"

section \<open>Well-formed tables\<close>

definition of_room :: "gateway \<Rightarrow> string \<Rightarrow> string list \<Rightarrow> bool" where
  "of_room g room ids = (distinct ids \<and> (\<forall>i \<in> set ids. room_of g i = room))"

definition tables_ok :: "gateway \<Rightarrow> bool" where
  "tables_ok g = (routes_ok (gw_routes g) \<and> (\<forall>k \<in> dom (map_of (gw_routes g)). room_ordinal k \<noteq> None) \<and> distinct (gw_live g)
     \<and> (\<forall>k p. map_of (gw_preparations g) k = Some p \<longrightarrow> rp_roomId p = k \<and> of_room g k (rp_sessionIds p))
     \<and> (\<forall>k v. map_of (gw_verifications g) k = Some v \<longrightarrow> rv_roomId v = k \<and> of_room g k (rv_sessionIds v))
     \<and> (\<forall>k o'. map_of (gw_operations g) k = Some o' \<longrightarrow> k = operationKey (co_roomId o') (co_operationId o')
          \<and> room_ordinal (co_roomId o') \<noteq> None \<and> of_room g (co_roomId o') (co_sessionIds o')))"

definition run_ok :: "gateway \<Rightarrow> cutover_run \<Rightarrow> bool" where
  "run_ok g r = (of_room g (cr_room r) (cr_selected r) \<and> (\<exists>o'. map_of (gw_operations g) (run_key r) = Some o'
     \<and> co_roomId o' = cr_room r \<and> co_operationId o' = cq_operationId (cr_request r) \<and> co_sessionIds o' = cr_selected r))"

text \<open>With the lists a method holds between its reads and its writes.\<close>

definition gate_ok :: "cutover_run list \<Rightarrow> (string \<times> string list) list \<Rightarrow> gateway \<Rightarrow> bool" where
  "gate_ok rs kin g = (tables_ok g \<and> (\<forall>r \<in> set rs. run_ok g r) \<and> (\<forall>(room, ids) \<in> set kin. of_room g room ids))"

section \<open>Every operation keeps them\<close>

lemma of_room_cong: "(\<And>i. gs_data (gw_session g' i) = gs_data (gw_session g i)) \<Longrightarrow> of_room g' room ids = of_room g room ids"
  by (simp add: of_room_def room_of_def)

lemma tables_ok_cong:
  assumes "\<And>i. gs_data (gw_session g' i) = gs_data (gw_session g i)" and "gw_routes g' = gw_routes g" "gw_live g' = gw_live g"
    "gw_preparations g' = gw_preparations g" "gw_verifications g' = gw_verifications g" "gw_operations g' = gw_operations g"
  shows "gate_ok rs kin g' = gate_ok rs kin g"
  using assms(2-) unfolding gate_ok_def tables_ok_def run_ok_def of_room_cong [OF assms(1)] by simp

lemma gate_session:
  assumes "\<And>d. keeps (has_data d) m"
  shows "keeps (gate_ok rs kin) (on_session i m)"
proof (unfold keeps_def, intro allI impI)
  fix g assume ok: "gate_ok rs kin g"
  obtain x s where m: "m (gw_session g i) = (x, s)" by (cases "m (gw_session g i)")
  have "gs_data s = gs_data (gw_session g i)" using keepsD [OF assms [of "gs_data (gw_session g i)"], of "gw_session g i"] m by (simp add: has_data_def)
  then have "gate_ok rs kin (g\<lparr>gw_session := (gw_session g)(i := s)\<rparr>) = gate_ok rs kin g"
    by (intro tables_ok_cong) simp_all
  then show "gate_ok rs kin (snd (on_session i m g))" using ok m by (simp add: on_session_run)
qed

lemma gate_abort: "keeps (gate_ok rs kin) (on_session i abortPrepared)"
  by (rule gate_session [OF data_abort])

lemma gate_commit: "keeps (gate_ok rs kin) (on_session i (commitPrepared r))"
  by (rule gate_session [OF data_commit])

lemma gate_freeze: "keeps (gate_ok rs kin) (on_session i (modifyE session_freeze))"
  by (rule gate_session [OF data_modify]) (simp add: session_freeze_def)

lemma gate_finalize: "keeps (gate_ok rs kin) (on_session i (modifyE finalizeVerification))"
  by (rule gate_session [OF data_modify]) (simp add: finalizeVerification_def)

lemma gate_outside: "keeps (gate_ok rs kin) (modifyE (\<lambda>g. g\<lparr>gw_failures := f g\<rparr>))"
  "keeps (gate_ok rs kin) (modifyE (\<lambda>g. g\<lparr>gw_switches := f g\<rparr>))" "keeps (gate_ok rs kin) (emitE c now x o' p)"
  unfolding keeps_def basic_run emit_run snd_conv
  using tables_ok_cong [of "_\<lparr>gw_failures := _\<rparr>"] tables_ok_cong [of "_\<lparr>gw_switches := _\<rparr>"] tables_ok_cong [of "_\<lparr>gw_ledger := _\<rparr>"]
  by simp_all

lemma gate_take: "keeps (gate_ok rs kin) (modifyE (takePreparation room))"
  by (auto simp: keeps_def basic_run gate_ok_def tables_ok_def run_ok_def of_room_def room_of_def)

lemma gate_unverify: "keeps (gate_ok rs kin) (modifyE (\<lambda>g. g\<lparr>gw_verifications := odel room (gw_verifications g)\<rparr>))"
  by (auto simp: keeps_def basic_run gate_ok_def tables_ok_def run_ok_def of_room_def room_of_def)

lemma gate_operation:
  assumes r: "run_key r \<in> run_key ` set rs"
    and f: "\<And>o'. co_roomId (f o') = co_roomId o' \<and> co_operationId (f o') = co_operationId o' \<and> co_sessionIds (f o') = co_sessionIds o'"
  shows "keeps (gate_ok rs kin) (on_operation r f)"
proof (unfold keeps_def, intro allI impI)
  fix g assume ok: "gate_ok rs kin g"
  then obtain o' where o': "map_of (gw_operations g) (run_key r) = Some o'" using r by (fastforce simp: gate_ok_def run_ok_def)
  then have "operation_of r g = o'" by (simp add: operation_of_def)
  then show "gate_ok rs kin (snd (on_operation r f g))"
    using ok o' f by (auto simp: gate_ok_def tables_ok_def run_ok_def of_room_def room_of_def)
qed

lemma gate_resume_each: "keeps (gate_ok rs kin) (resume_each ids)"
  by (induction ids) (auto intro!: keeps_intros gate_abort)

lemma gate_abort_room: "keeps (gate_ok rs kin) (abortRoomPreparation room op')"
  unfolding abortRoomPreparation_def
  by (rule keeps_bindE [OF keeps_getsE]) (auto intro!: keeps_intros gate_take gate_resume_each split: option.splits)

lemma gate_timeout: "keeps (gate_ok rs kin) (preparation_timeout c now p)"
  unfolding preparation_timeout_def by (intro keeps_intros gate_abort_room gate_outside)

lemma gate_commit_each:
  assumes "r \<in> set rs"
  shows "keeps (gate_ok rs kin) (commit_each r route ids)"
  by (induction ids) (auto intro!: keeps_intros gate_commit gate_operation [OF imageI [OF assms]])

lemma gate_failed:
  assumes "run_key r \<in> run_key ` set rs"
  shows "keeps (gate_ok rs kin) (cutover_failed c now r m)"
  unfolding cutover_failed_def
  by (intro keeps_intros gate_operation [OF assms] gate_outside gate_abort gate_take) simp_all

text \<open>Routes: what the registry takes is a room with an ordinal.\<close>

lemma normal_room: "normalizeRoute ua x = Inr n \<Longrightarrow> room_ordinal (gr_roomId n) \<noteq> None"
  by (auto simp: normalizeRoute_def Let_def split: if_splits option.splits)

lemma routes_keep_rooms:
  assumes "route_do ua x rs = Inr (n, rs')" and "\<forall>k \<in> dom (map_of rs). room_ordinal k \<noteq> None"
  shows "\<forall>k \<in> dom (map_of rs'). room_ordinal k \<noteq> None"
  using assms normal_room
  by (cases x) (auto simp: register_route_def reconcileStableRoute_def compareAndSwap_def split: sum.splits option.splits if_splits; blast)+

lemma gate_routes:
  assumes "gate_ok rs kin g" and "route_do ua x (gw_routes g) = Inr (n, routes')"
  shows "gate_ok rs kin (g\<lparr>gw_routes := routes'\<rparr>)"
  using assms(1) route_do_ok(1) [OF _ assms(2)] routes_keep_rooms [OF assms(2)]
  by (auto simp: gate_ok_def tables_ok_def run_ok_def of_room_def room_of_def)

lemma gate_route: "keeps (gate_ok rs kin) (cutover_route c now r)"
proof (unfold keeps_def, intro allI impI)
  fix g assume ok: "gate_ok rs kin g"
  show "gate_ok rs kin (snd (cutover_route c now r g))"
  proof (cases "cutover_route c now r g")
    case (Pair y g')
    show ?thesis
    proof (cases y)
      case (Inl m)
      then show ?thesis using Pair cutover_route_Inl ok by fastforce
    next
      case (Inr n)
      let ?q = "cr_request r"
      have outside: "gate_ok rs kin (h\<lparr>gw_ledger := l\<rparr>) = gate_ok rs kin h" for h l by (rule tables_ok_cong) simp_all
      have "g' = g \<or> (\<exists>routes' l. route_do (ge_url c) (Swap (cr_room r) (cq_expectedEpoch ?q) (cq_endpoint ?q) (cq_nextEpoch ?q) (cq_revision ?q))
          (gw_routes g) = Inr (n, routes') \<and> g' = g\<lparr>gw_routes := routes', gw_ledger := l\<rparr>)"
        using Pair Inr by (auto simp: cutover_route_def Let_def runs basic_run split: option.splits sum.splits if_splits)
      then show ?thesis
      proof (elim disjE exE conjE)
        fix routes' l assume swap: "route_do (ge_url c) (Swap (cr_room r) (cq_expectedEpoch ?q) (cq_endpoint ?q) (cq_nextEpoch ?q) (cq_revision ?q))
          (gw_routes g) = Inr (n, routes')" and g': "g' = g\<lparr>gw_routes := routes', gw_ledger := l\<rparr>"
        have "gate_ok rs kin g'" using gate_routes [OF ok swap] by (simp add: g' outside)
        then show ?thesis using Pair by simp
      qed (use ok Pair in simp)
    qed
  qed
qed

lemma gate_verify:
  assumes "r \<in> set rs"
  shows "keeps (gate_ok rs kin) (modifyE (\<lambda>g. g\<lparr>gw_verifications := oput (cr_room r) (v\<lparr>rv_roomId := cr_room r, rv_sessionIds := cr_selected r\<rparr>)
    (gw_verifications g)\<rparr>))"
  using assms by (auto simp: keeps_def basic_run gate_ok_def tables_ok_def run_ok_def of_room_def room_of_def)

lemma gate_conclude:
  assumes "r \<in> set rs"
  shows "keeps (gate_ok rs kin) (cutover_conclude c now r n)"
proof -
  have "keeps (gate_ok rs kin) (modifyE (\<lambda>g. g\<lparr>gw_verifications := oput (cr_room r) \<lparr>rv_operationId = a, rv_roomId = cr_room r, rv_epoch = b,
      rv_sessionIds = cr_selected r, rv_startedAt = now\<rparr> (gw_verifications g)\<rparr>))" for a b
    using gate_verify [OF assms, of kin "\<lparr>rv_operationId = a, rv_roomId = cr_room r, rv_epoch = b, rv_sessionIds = cr_selected r, rv_startedAt = now\<rparr>"]
    by simp
  then show ?thesis
    unfolding cutover_conclude_def Let_def by (intro keeps_intros gate_operation [OF imageI [OF assms]] gate_outside) simp_all
qed

lemma gate_resume:
  assumes "r \<in> set rs"
  shows "keeps (gate_ok rs kin) (cutover_resume c now r)"
  unfolding cutover_resume_def cutover_commit_def
  by (intro keeps_intros gate_failed [OF imageI [OF assms]] gate_route gate_operation [OF imageI [OF assms]] gate_take gate_commit_each [OF assms]
      gate_conclude [OF assms] gate_freeze) simp_all

lemma gate_rejected:
  assumes "r \<in> set rs"
  shows "keeps (gate_ok rs kin) (cutover_rejected c now r reason)"
  unfolding cutover_rejected_def by (rule gate_failed [OF imageI [OF assms]])

text \<open>A freeze holds the sessions it has read while it freezes them.\<close>

lemma room_sessions_of: "tables_ok g \<Longrightarrow> of_room g room (room_sessions room g)"
  by (simp add: tables_ok_def of_room_def room_sessions_def)

lemma gate_hold:
  assumes "\<And>ids. keeps (gate_ok rs ((room, ids) # kin)) (f ids)"
  shows "keeps (gate_ok rs kin) (bindE (getsE (room_sessions room)) f)"
proof (unfold keeps_def, intro allI impI)
  fix g assume ok: "gate_ok rs kin g"
  then have "gate_ok rs ((room, room_sessions room g) # kin) g" by (simp add: gate_ok_def room_sessions_of)
  from keepsD [OF assms this] have "gate_ok rs ((room, room_sessions room g) # kin) (snd (f (room_sessions room g) g))" .
  then show "gate_ok rs kin (snd (bindE (getsE (room_sessions room)) f g))" by (simp add: bindE_def basic_run gate_ok_def)
qed

lemma gate_prepare:
  assumes "rp_roomId p = room" and "rp_sessionIds p = ids"
  shows "keeps (gate_ok rs ((room, ids) # kin)) (modifyE (\<lambda>g. g\<lparr>gw_preparations := oput room p (gw_preparations g)\<rparr>))"
  using assms by (auto simp: keeps_def basic_run gate_ok_def tables_ok_def run_ok_def of_room_def room_of_def)

lemma gate_freeze_selected: "keeps (gate_ok rs kin) (freeze_selected c now room op epoch supersedes)"
  unfolding freeze_selected_def by (intro gate_hold keeps_intros gate_freeze gate_abort gate_prepare) simp_all

lemma gate_retire: "keeps (gate_ok rs kin) (retire_verification room op supersedes)"
  unfolding retire_verification_def
  by (rule keeps_bindE [OF keeps_getsE]) (auto intro!: keeps_intros gate_unverify split: option.splits)

lemma gate_freeze_room: "keeps (gate_ok rs kin) (freezeRoom c now room op epoch supersedes)"
  unfolding freezeRoom_def
  by (rule keeps_bindE [OF keeps_getsE]) (auto intro!: keeps_intros gate_retire gate_freeze_selected split: option.splits)

lemma gate_finalize_each: "keeps (gate_ok rs kin) (finalize_each ids)"
  by (induction ids) (auto intro!: keeps_intros gate_finalize simp: split_def)

lemma gate_finalize_room: "keeps (gate_ok rs kin) (finalizeRoomVerification c now room op)"
  unfolding finalizeRoomVerification_def
  by (rule keeps_bindE [OF keeps_getsE]) (auto intro!: keeps_intros gate_finalize_each gate_unverify simp: Let_def split: option.splits)

section \<open>The first half of a cutover\<close>

text \<open>A key names one room and one operation: a room with an ordinal has no colon in its id.\<close>

lemma ordinal_no_colon: "room_ordinal room \<noteq> None \<Longrightarrow> CHR '':'' \<notin> set room"
proof -
  assume "room_ordinal room \<noteq> None"
  then obtain ds where "room = ''room-'' @ ds" "all_digits ds" by (auto simp: room_ordinal_def strip_prefix_Some_iff split: option.splits if_splits)
  moreover have "\<not> is_digit (CHR '':'')" by code_simp
  ultimately show ?thesis by (auto simp: all_digits_def list_all_iff)
qed

lemma split_at_first: "a @ x # b = c @ x # d \<Longrightarrow> x \<notin> set a \<Longrightarrow> x \<notin> set c \<Longrightarrow> a = c \<and> b = d"
proof (induction a arbitrary: c)
  case Nil
  then show ?case by (cases c) auto
next
  case (Cons y a)
  then show ?case by (cases c) auto
qed

lemma operationKey_inject:
  assumes "operationKey a x = operationKey b y" and "room_ordinal a \<noteq> None" and "room_ordinal b \<noteq> None"
  shows "a = b \<and> x = y"
  using split_at_first [of a "CHR '':''" x b y] assms ordinal_no_colon by (simp add: operationKey_def)

text \<open>The operation of a run is stored with the sessions it selects from.\<close>

definition enrolled :: "cutover_run \<Rightarrow> gateway \<Rightarrow> bool" where
  "enrolled r g = (\<exists>o'. map_of (gw_operations g) (run_key r) = Some o' \<and> co_roomId o' = cr_room r
     \<and> co_operationId o' = cq_operationId (cr_request r) \<and> cr_selected r = filter (\<lambda>i. i \<in> set (gw_live g)) (co_sessionIds o'))"

lemma enroll_ok:
  assumes run: "cutover_enroll now room q existing epoch g = (y, g')" and ok: "gate_ok rs kin g"
    and ex: "existing = map_of (gw_operations g) (operationKey room (cq_operationId q))" and room: "room_ordinal room \<noteq> None"
  shows "gate_ok rs kin g' \<and> (\<forall>r. y = Inr r \<longrightarrow> enrolled r g' \<and> cr_room r = room \<and> cr_request r = q)"
proof (cases y)
  case (Inl m)
  then have "g' = g" using run by (auto simp: cutover_enroll_def Let_def runs basic_run split: if_splits)
  then show ?thesis using ok Inl by simp
next
  case (Inr r)
  let ?k = "operationKey room (cq_operationId q)"
  let ?ini = "case map_of (gw_preparations g) room of
      Some p \<Rightarrow> filter (\<lambda>i. i \<in> set (gw_live g)) (rp_sessionIds p) | None \<Rightarrow> room_sessions room g"
  let ?o = "case existing of Some o' \<Rightarrow> o' | None \<Rightarrow> new_operation now room q ?ini"
  have g': "g' = set_operation ?k ?o g" and r: "cr_room r = room" "cr_request r = q"
    "cr_selected r = filter (\<lambda>i. i \<in> set (gw_live g)) (co_sessionIds ?o)"
    using run Inr by (auto simp: cutover_enroll_def Let_def runs basic_run split: if_splits)
  have tables: "tables_ok g" using ok by (simp add: gate_ok_def)
  have ini: "of_room g room ?ini"
    using tables room_sessions_of [OF tables] by (auto simp: tables_ok_def of_room_def split: option.splits)
  have o': "co_roomId ?o = room" "co_operationId ?o = cq_operationId q" "of_room g room (co_sessionIds ?o)"
  proof -
    have "co_roomId ?o = room \<and> co_operationId ?o = cq_operationId q \<and> of_room g room (co_sessionIds ?o)"
    proof (cases existing)
      case None
      then show ?thesis using ini by (simp add: new_operation_def)
    next
      case (Some x)
      then have "?k = operationKey (co_roomId x) (co_operationId x)" "room_ordinal (co_roomId x) \<noteq> None"
        "of_room g (co_roomId x) (co_sessionIds x)" using tables ex by (auto simp: tables_ok_def)
      then show ?thesis using operationKey_inject [of room "cq_operationId q"] room Some by auto
    qed
    then show "co_roomId ?o = room" "co_operationId ?o = cq_operationId q" "of_room g room (co_sessionIds ?o)" by blast+
  qed
  have same: "of_room g' rm ids = of_room g rm ids" for rm ids by (simp add: g' of_room_def room_of_def)
  have "tables_ok g'"
    using tables o' room unfolding tables_ok_def same by (auto simp: g' o'(1,2))
  moreover have "run_ok g' r'" if mem: "r' \<in> set rs" for r'
  proof -
    obtain x where x: "map_of (gw_operations g) (run_key r') = Some x" "co_roomId x = cr_room r'"
      "co_operationId x = cq_operationId (cr_request r')" "co_sessionIds x = cr_selected r'" "of_room g (cr_room r') (cr_selected r')"
    proof -
      have "run_ok g r'" using ok mem by (simp add: gate_ok_def)
      then show ?thesis using that by (auto simp: run_ok_def)
    qed
    have "map_of (gw_operations g') (run_key r') = Some x"
      using x(1) ex by (auto simp: g' set_operation_def)
    then show ?thesis using x same by (auto simp: run_ok_def)
  qed
  moreover have "enrolled r g'"
    using r o' by (auto simp: enrolled_def g' run_key_def)
  ultimately show ?thesis
    using ok same r Inr by (auto simp: gate_ok_def)
qed

lemma admit_ok:
  assumes run: "cutover_admit now room q g = (y, g')" and ok: "gate_ok rs kin g"
  shows "gate_ok rs kin g' \<and> (\<forall>r. y = Inr (Inr r) \<longrightarrow> enrolled r g')"
proof (cases "map_of (gw_routes g) room")
  case None
  then show ?thesis using run ok by (auto simp: cutover_admit_def bindE_def basic_run)
next
  case (Some current)
  then have room: "room_ordinal room \<noteq> None" using ok by (auto simp: gate_ok_def tables_ok_def)
  let ?ex = "map_of (gw_operations g) (operationKey room (cq_operationId q))"
  show ?thesis
  proof (cases "cutover_enroll now room q ?ex (gr_epoch current) g")
    case (Pair z h)
    from enroll_ok [OF Pair ok refl room] have z: "gate_ok rs kin h" "\<forall>r. z = Inr r \<longrightarrow> enrolled r h" by auto
    have "g' = g \<and> (\<forall>r. y \<noteq> Inr (Inr r)) \<or> g' = h \<and> y = map_sum id Inr z"
      using run Some Pair
      by (cases z) (auto simp: cutover_admit_def bindE_def basic_run split: option.splits if_splits)
    then show ?thesis using ok z by (cases z) auto
  qed
qed

text \<open>A run of an operation, enrolled: the operation as it is stored would be a run of its own.\<close>

lemma begin_ok:
  assumes run: "cutover_begin c now room q g = (y, g')" and ok: "gate_ok rs kin g"
  shows "gate_ok rs kin g' \<and> (\<forall>r. y = Inr (Inr r) \<longrightarrow> gate_ok (r # rs) kin g')"
proof (cases "cutover_admit now room q g")
  case (Pair x h)
  note admitted = admit_ok [OF Pair ok]
  show ?thesis
  proof (cases "\<exists>r. x = Inr (Inr r)")
    case False
    then have "g' = h \<and> (\<forall>r. y \<noteq> Inr (Inr r))"
      using run Pair by (cases x) (auto simp: cutover_begin_def bindE_def basic_run split: sum.splits)
    then show ?thesis using admitted by auto
  next
    case True
    then obtain r where x: "x = Inr (Inr r)" by blast
    then have "enrolled r h" "gate_ok rs kin h" using admitted by auto
    then obtain o' where o': "map_of (gw_operations h) (run_key r) = Some o'" "co_roomId o' = cr_room r"
      "co_operationId o' = cq_operationId (cr_request r)" "cr_selected r = filter (\<lambda>i. i \<in> set (gw_live h)) (co_sessionIds o')"
      by (auto simp: enrolled_def)
    let ?r = "r\<lparr>cr_selected := co_sessionIds o'\<rparr>"
    have key: "run_key ?r = run_key r" by (simp add: run_key_def)
    have "of_room h (cr_room r) (co_sessionIds o')"
    proof -
      have "of_room h (co_roomId o') (co_sessionIds o')"
        using \<open>gate_ok rs kin h\<close> o'(1) unfolding gate_ok_def tables_ok_def by blast
      then show ?thesis by (simp add: o'(2))
    qed
    then have whole: "gate_ok (?r # rs) kin h"
      using \<open>gate_ok rs kin h\<close> o' key by (auto simp: gate_ok_def run_ok_def)
    show ?thesis
    proof (cases "fst (cutover_checks c r h)")
      case (Inl m)
      then have "cutover_checks c r h = (Inl m, h)" using checks_state [of c r h] by (metis prod.collapse)
      moreover obtain z k where z: "(cutover_failed c now r m :: unit gate) h = (z, k)" by (cases "(cutover_failed c now r m :: unit gate) h")
      moreover have "gate_ok (?r # rs) kin k"
        using keepsD [OF gate_failed [of r "?r # rs" kin c now m] whole] key z by (metis imageI list.set_intros(1) snd_conv)
      ultimately have "gate_ok rs kin g'" "\<forall>r. y \<noteq> Inr (Inr r)"
        using run Pair x by (auto simp: cutover_begin_def bindE_def thenE_def catchE_def gate_ok_def split: sum.splits)
      then show ?thesis by blast
    next
      case (Inr u)
      then have checked: "cutover_checks c r h = (Inr (), h)" using checks_state [of c r h] by (metis prod.collapse old.unit.exhaust)
      then have y: "y = Inr (Inr r)" "g' = h" using run Pair x by (auto simp: cutover_begin_def bindE_def thenE_def catchE_def basic_run)
      have "length (cr_selected r) = length (co_sessionIds o')"
        using checked o'(1) by (auto simp: cutover_checks_def runs basic_run operation_of_def split: if_splits)
      then have "cr_selected r = co_sessionIds o'" unfolding o'(4) full_count by (simp add: filter_id_conv)
      then have "?r = r" by simp
      then show ?thesis using whole y \<open>gate_ok rs kin h\<close> by simp
    qed
  qed
qed

section \<open>The gateway keeps its tables\<close>

lemma gate_more: "gate_ok rs kin g \<Longrightarrow> set rs' \<subseteq> set rs \<Longrightarrow> gate_ok rs' kin g"
  by (auto simp: gate_ok_def)

lemma gate_opened:
  assumes ok: "gate_ok rs [] g" and fresh: "sd_id d \<notin> set (gw_live g)" "\<forall>p \<in> snd ` set (gw_preparations g). sd_id d \<notin> set (rp_sessionIds p)"
    "\<forall>v \<in> snd ` set (gw_verifications g). sd_id d \<notin> set (rv_sessionIds v)" "\<forall>o' \<in> snd ` set (gw_operations g). sd_id d \<notin> set (co_sessionIds o')"
  shows "gate_ok rs [] (browser_open d b g)"
proof (cases "map_of (gw_routes g) (sd_roomId d)")
  case None
  then show ?thesis using ok by (simp add: browser_open_def)
next
  case (Some route)
  let ?g = "browser_open d b g"
  have tables: "gw_routes ?g = gw_routes g" "gw_live ?g = gw_live g @ [sd_id d]" "gw_preparations ?g = gw_preparations g"
    "gw_verifications ?g = gw_verifications g" "gw_operations ?g = gw_operations g"
    using Some by (simp_all add: browser_open_def)
  have other: "room_of ?g i = room_of g i" if "i \<noteq> sd_id d" for i using Some that by (simp add: browser_open_def room_of_def)
  have same: "of_room ?g room ids = of_room g room ids" if "sd_id d \<notin> set ids" for room ids
  proof -
    have "\<forall>i \<in> set ids. room_of ?g i = room_of g i" using other that by metis
    then show ?thesis by (simp add: of_room_def)
  qed
  have used: "sd_id d \<notin> set (rp_sessionIds p)" if "map_of (gw_preparations g) k = Some p" for k p
    using fresh(2) map_of_SomeD [OF that] by force
  have used': "sd_id d \<notin> set (rv_sessionIds v)" if "map_of (gw_verifications g) k = Some v" for k v
    using fresh(3) map_of_SomeD [OF that] by force
  have used'': "sd_id d \<notin> set (co_sessionIds o')" if "map_of (gw_operations g) k = Some o'" for k o'
    using fresh(4) map_of_SomeD [OF that] by force
  have "tables_ok ?g"
    using ok fresh(1) used used' used'' unfolding gate_ok_def tables_ok_def tables by (auto simp: same)
  moreover have "run_ok ?g r" if "r \<in> set rs" for r
  proof -
    have "run_ok g r" using ok that by (simp add: gate_ok_def)
    moreover from this have "sd_id d \<notin> set (cr_selected r)" using used'' [of "run_key r"] by (auto simp: run_ok_def)
    ultimately show ?thesis by (auto simp: run_ok_def tables same)
  qed
  ultimately show ?thesis by (simp add: gate_ok_def)
qed

lemma gate_left:
  assumes ok: "gate_ok rs [] g" and "gs_data s = gs_data (gw_session g i)"
  shows "gate_ok rs [] (g\<lparr>gw_session := (gw_session g)(i := s), gw_live := filter (\<lambda>j. j \<noteq> i) (gw_live g)\<rparr>)"
    and "gate_ok rs [] (g\<lparr>gw_session := (gw_session g)(i := s)\<rparr>)"
  using assms by (auto simp: gate_ok_def tables_ok_def run_ok_def of_room_def room_of_def)

lemma gate_step:
  assumes "gateway_step c e x y" and ok: "gate_ok (snd x) [] (fst x)"
  shows "gate_ok (snd y) [] (fst y)"
  using assms
proof cases
  case (session g i s rs)
  then show ?thesis using ok gate_left(2) [of rs g s i] data_step [of e "gw_session g i" s] by simp
next
  case (opened d g rs b)
  then show ?thesis using ok gate_opened [OF _ opened(3-6)] by simp
next
  case (closed g rs i)
  then show ?thesis using ok gate_left(1) [of rs g "downstream_close (gw_session g i)" i] by (simp add: browser_close_def downstream_close_def)
next
  case (refused g rs i)
  then show ?thesis using ok gate_left(1) [of rs g "start_failed (gw_session g i)" i] by (simp add: browser_start_failed_def start_failed_def)
next
  case (freeze g rs now room op epoch supersedes)
  then show ?thesis using ok keepsD [OF gate_freeze_room] by simp
next
  case (abort g rs room op')
  then show ?thesis using ok keepsD [OF gate_abort_room] by simp
next
  case (timed_out room p g rs now)
  then show ?thesis using ok keepsD [OF gate_timeout] by simp
next
  case (began now room q g r g' rs)
  then show ?thesis using ok begin_ok [OF began(3)] by simp
next
  case (answered now room q g x' g' rs)
  then show ?thesis using ok begin_ok [OF answered(3)] by simp
next
  case (resumed r rs g now)
  then show ?thesis using ok keepsD [OF gate_resume [of r rs "[]" c now]] gate_more [of rs "[]" _ "remove1 r rs"]
    by (simp add: set_remove1_subset)
next
  case (rejected r rs g now reason)
  then show ?thesis
    using ok keepsD [OF gate_rejected [of r rs "[]" c now reason]] gate_more [of rs "[]" _ "remove1 r rs"] by (simp add: set_remove1_subset)
next
  case (finalized g rs now room op)
  then show ?thesis using ok keepsD [OF gate_finalize_room] by simp
next
  case (routed x' g n routes' rs)
  then show ?thesis using ok gate_routes [OF _ routed(3)] by simp
next
  case (reconciled x' g n routes' rs)
  then show ?thesis using ok gate_routes [OF _ reconciled(3)] by simp
qed

lemma new_registry_rooms:
  assumes "new_registry ua initial = Inr rs"
  shows "\<forall>k \<in> dom (map_of rs). room_ordinal k \<noteq> None"
proof -
  have "\<forall>k \<in> dom (map_of rs'). room_ordinal k \<noteq> None"
    if "add_routes ua initial rs0 = Inr rs'" "\<forall>k \<in> dom (map_of rs0). room_ordinal k \<noteq> None" for rs0 rs'
    using that
  proof (induction initial arbitrary: rs0)
    case (Cons x xs)
    from Cons.prems(1) obtain n where n: "normalizeRoute ua x = Inr n" "add_routes ua xs (oput (gr_roomId n) n rs0) = Inr rs'"
      by (auto split: sum.splits if_splits)
    show ?case using Cons.prems(2) normal_room [OF n(1)] by (intro Cons.IH [OF n(2)]) (auto split: if_splits)
  qed simp
  then show ?thesis using assms by (simp add: new_registry_def)
qed

lemma reach_gate_ok: "gateway_reach c e x \<Longrightarrow> gate_ok (snd x) [] (fst x)"
proof (induction rule: gateway_reach.induct)
  case (initial routes0 routes unused)
  then show ?case
    using new_registry_ok [OF initial] new_registry_rooms [OF initial]
    by (simp add: gate_ok_def tables_ok_def new_gateway_def)
next
  case (later x y)
  then show ?case using gate_step by blast
qed

text \<open>C30: The tables of the gateway are well formed in every state it reaches.  A registered route belongs to a room with
  an ordinal and is stored under it; a preparation, a verification and an operation are stored under their own room and
  key, and the sessions each of them names are sessions of that room, none of them twice; a cutover that waits for its
  sessions is a run of a stored operation and has selected all of its sessions.\<close>

theorem gateway_tables_well_formed:
  assumes "gateway_reach c e (g, rs)"
  shows "tables_ok g \<and> (\<forall>r \<in> set rs. run_ok g r)"
  using reach_gate_ok [OF assms] by (simp add: gate_ok_def)

end
