(* ===== verification/GatewayCutovers.thy ===== *)
theory GatewayCutovers
  imports GatewayReplay
begin

text \<open>
  What a session guarantees over its life, with a session that is handed over twice as the example, and the
  orders of events in which inputs are lost.
\<close>

section \<open>What holds of every session\<close>

text \<open>C19: Whatever the order in which sockets open, close, time out or deliver, in which a room freezes, commits,
  aborts or verifies, and in which the browser sends: on every upstream the inputs of a session appear in strictly
  increasing order, so none is duplicated or reordered on a wire, and a number means the same bytes on every wire
  and in the buffer.\<close>

theorem inputs_in_order_on_every_wire:
  assumes "session_reach e s"
  shows "sorted_wrt (<) (map fst (wire_inputs (gs_conns s c)))
    \<and> (\<forall>n p q. (n, p) \<in> set (wire_inputs (gs_conns s c)) \<longrightarrow>
         (n, q) \<in> set (wire_inputs (gs_conns s d)) \<union> shown ` set (ib_entries (gs_inputs s)) \<longrightarrow> p = q)"
proof -
  obtain l where l: "session_ok False l s" "\<And>c. \<exists>is. sorted_wrt (<) is \<and> wire_inputs (gs_conns s c) = map (entry_of (il_accepted l)) is"
    using good_wires [OF reach_good [OF assms]] by blast
  have "sorted_wrt (<) (map fst (wire_inputs (gs_conns s c)))" using l(2) [of c] sorted_entries by metis
  moreover have "p = q" if "(n, p) \<in> set (wire_inputs (gs_conns s c))"
    "(n, q) \<in> set (wire_inputs (gs_conns s d)) \<union> shown ` set (ib_entries (gs_inputs s))" for n p q
    using that l(2) [of c] l(2) [of d] unfolding pending_shown [OF l(1)] by (auto simp: entry_of_def)
  ultimately show ?thesis by blast
qed

text \<open>C20: In a patient history (one in which no freeze was aborted while the current upstream was still connecting and
  no candidate was committed before it had answered) nothing the browser has sent and no room has acknowledged is
  waiting at the gateway while the session plays: if the session is not stopped and not frozen and its upstream is
  open, every buffered input is on its wire.  The code does not enforce either condition, and without them it fails:
  see \<open>abort_while_connecting_loses_inputs\<close> and \<open>commit_before_open_loses_replay\<close>.\<close>

theorem nothing_pending_is_unsent:
  assumes "patient_reach e s" and "\<not> gs_stopped s" and "\<not> gs_frozen s" and "gs_current s = Some c" and "is_open c s"
    and x: "x \<in> set (ib_entries (gs_inputs s))"
  shows "(bi_sequence x, bi_payload x) \<in> set (wire_inputs (gs_conns s c))"
proof -
  obtain l where l: "session_ok True l s" using patient_good [OF assms(1)] by (auto simp: good_def)
  have "shown x \<in> entry_of (il_accepted l) ` {il_acknowledged l..<length (il_accepted l)}"
    using x pending_shown [OF l] by blast
  then show ?thesis using session_okD(6) [OF l assms(2)] assms(3-5) by (auto simp: sent_ok_def is_open_def shown_def)
qed

text \<open>C18: A cutover loses nothing.  When the candidate of a room's new route has answered, the commit does not
  fail, the session plays on the candidate from then on, and the candidate's wire carries, in order and once each,
  exactly the retained inputs; among them are every input no room has acknowledged and, when a verification is still
  under way (a rollback), every input the room that is left was sent.\<close>

theorem cutover_replays_what_the_room_may_lack:
  assumes "session_reach e s" and "\<not> gs_stopped s" and "\<not> plays_on r s" and "gs_prepared s = Some c"
    and "same_upstream r c s" and "cn_promise (gs_conns s c) \<noteq> NotPreparing" and "is_open c s"
  shows "\<exists>s'. commitPrepared r s = (Inr (length (replay_of s)), s') \<and> current_open s' = Some c \<and> \<not> gs_frozen s'
    \<and> wire_inputs (gs_conns s' c) = map shown (replay_of s)
    \<and> set (ib_entries (gs_inputs s)) \<subseteq> set (replay_of s)
    \<and> (gs_verifying s \<longrightarrow> (\<forall>d. gs_current s = Some d \<longrightarrow> set (wire_inputs (gs_conns s d)) \<subseteq> set (wire_inputs (gs_conns s' c))))"
proof -
  have g: "good False s" by (rule reach_good [OF assms(1)])
  then obtain l where ok: "session_ok False l s" by (auto simp: good_def)
  obtain us where us: "replay_of s = map (numbered (il_accepted l)) us" "{il_acknowledged l..<length (il_accepted l)} \<subseteq> set us"
    by (rule replay_facts [OF ok assms(2)])
  have all: "set (ib_entries (gs_inputs s)) \<subseteq> set (replay_of s)"
    unfolding us(1) pending(1) [OF session_okD(1) [OF ok]] using us(2) by auto
  have rollback: "set (wire_inputs (gs_conns s d)) \<subseteq> shown ` set (replay_of s)" if "gs_verifying s" "gs_current s = Some d" for d
    using reach_kept [OF assms(1)] that assms(2) by (simp add: kept_def replay_of_def)
  obtain s' where s': "commitPrepared r s = (Inr (length (replay_of s)), s')" "gs_current s' = Some c" "\<not> gs_frozen s'"
    "cn_ready (gs_conns s' c) = cn_ready (gs_conns s c)" "wire_inputs (gs_conns s' c) = map shown (replay_of s)"
    using commit_facts [OF g assms(2-6)] assms(7) by (auto simp: shown_def [abs_def])
  then show ?thesis using all rollback assms(7) by (auto simp: current_open_def is_open_def)
qed

text \<open>C24: A cutover closes the upstream it leaves, and the close that follows is seen by the session.  When the session
  left its first upstream the close is ignored and it goes on; when it left an upstream that was itself the candidate of
  an earlier cutover, the close is taken for the loss of the active upstream and ends the session.\<close>

theorem close_of_a_fenced_upstream:
  assumes "session_reach e s" and "\<not> gs_stopped s" and "\<not> plays_on r s" and "gs_prepared s = Some c"
    and "same_upstream r c s" and "cn_promise (gs_conns s c) \<noteq> NotPreparing" and "gs_current s = Some p"
  shows "\<exists>n s'. commitPrepared r s = (Inr n, s') \<and> gs_current s' = Some c \<and> \<not> gs_stopped s' \<and> \<not> is_open p s'
    \<and> (\<not> cn_prepared (gs_conns s p) \<longrightarrow> gs_current (current_close p s') = Some c \<and> \<not> gs_stopped (current_close p s'))
    \<and> (cn_committed (gs_conns s p) \<longrightarrow> gs_stopped (candidate_close p s')
         \<and> gs_ended (candidate_close p s') = gs_ended s @ [(1012, ''active_upstream_closed'')])"
proof -
  note run = commit_final [OF reach_good [OF assms(1)] assms(2-5)]
  have ended: "gs_ended (sent_to c ws t (switched c es s)) = gs_ended s" for ws t es
    by (simp add: sent_to_def switched_def close_opt_def close_socket_def on_conn_def split: option.splits)
  show ?thesis
    unfolding run(1) using run(2) assms(2,7) ended
    by (auto simp: is_open_def sent_to_conns switched_conns current_close_def candidate_close_def drop_session_def session_stop_def
        down_end_def close_socket_def close_opt_def on_conn_def add_effect_def Let_def)
qed

section \<open>A session that is handed over twice\<close>

definition sample_data :: socket_data where
  "sample_data = \<lparr>sd_id = ''i'', sd_roomId = ''r'', sd_sessionId = ''s'', sd_gameId = ''g''\<rparr>"

definition sample_route :: "int \<Rightarrow> gateway_route" where
  "sample_route n = \<lparr>gr_roomId = ''r'', gr_endpoint = ''http://b'', gr_epoch = js_int n, gr_revision = None\<rparr>"

definition sample_buffer :: input_buffer where
  "sample_buffer = \<lparr>ib_entries = [], ib_nextSequence = 1, ib_acknowledged = 0, ib_bytes = 0, ib_maxMessages = 8, ib_maxBytes = 2048\<rparr>"

definition sample_admissions :: admissions where
  "sample_admissions = admission_issue 10 (joinAdmissionKey ''r'' ''g'' [116]) ''s'' 0 []"

text \<open>The first upstream is open, the browser has joined with the bytes \<open>v\<close> and sent an input.\<close>

definition sample_open :: gsession where
  "sample_open = (new_session sample_data sample_buffer)\<lparr>gs_conns := (\<lambda>_. no_connection)(0 := no_connection
     \<lparr>cn_ready := Open, cn_epoch := js_int 1, cn_endpoint := ''http://a''\<rparr>), gs_next := 1, gs_current := Some 0\<rparr>"

definition sample_joined :: "view \<Rightarrow> gsession" where
  "sample_joined v = put_wire 0 [input_frame (js_int 1) 0 0 v]
     (sample_open\<lparr>gs_join := Some (seen_join sample_join), gs_initialJoin := Some v\<rparr>)"

definition sample_entry :: buffered where
  "sample_entry = \<lparr>bi_sequence = 1, bi_payload = [9], bi_bytes = 1\<rparr>"

definition sample_filled :: input_buffer where
  "sample_filled = sample_buffer\<lparr>ib_nextSequence := 2, ib_entries := [sample_entry], ib_bytes := 1\<rparr>"

definition sample_playing :: "view \<Rightarrow> gsession" where
  "sample_playing v = on_conn 0 (\<lambda>k. k\<lparr>cn_sentThrough := 1\<rparr>) (put_wire 0 [input_frame (js_int 1) 1 1 [9]]
     ((sample_joined v)\<lparr>gs_inputs := sample_filled, gs_tick := 1\<rparr>))"

text \<open>A candidate is connected and answers with an output.\<close>

definition sample_prepared :: "int \<Rightarrow> nat \<Rightarrow> gsession \<Rightarrow> gsession" where
  "sample_prepared n c s =
     candidate_message c (frame_bytes (OutputFrame (js_int n) (js_int 0) [7]))
       (snd (prepare_opened join_env c [107, 49] (prepare_connect (sample_route n) s)))"

lemma sample_buffer: "new_buffer (js_int 8) (js_int 2048) = Inr sample_buffer"
  by (simp add: new_buffer_def sample_buffer_def)

lemma sample_field: "field_ok (js_int 1)" "field_ok (js_int 2)" "field_ok (js_int 3)" "field_ok (js_int 0)"
  by (simp_all add: field_ok_def)

lemma plain_input: "readGatewayJoin join_env [9] = Inr None"
  by code_simp

lemma readGatewayJoin_sample:
  obtains v where "readGatewayJoin join_env v = Inr (Some (seen_join sample_join))"
    and "\<exists>p. writeGatewayJoin join_env (seen_join sample_join) [107, 49] = Inr p"
proof -
  have "byte MsgJoin" by (simp add: msg_types byte_def)
  from serialize_fits [OF this join.fits [OF sample_join_valid] at_most_join] obtain s where
    s: "serializeMsg MsgJoin (ser_join join_env sample_join) (new_bitstream (replicate 400 0)) = (Inr (), s)"
    by (fastforce simp: sample_join_def)
  obtain t where "writeGatewayJoin join_env (seen_join sample_join) [107, 49] = Inr (getBuffer t)"
    by (rule write_join [OF sample_join_valid, of "[107, 49]"]) (simp_all add: plain_text_def)
  with read_join [OF sample_join_valid s] that show thesis by blast
qed

lemmas sample_defs = sample_open_def sample_joined_def sample_playing_def sample_data_def sample_buffer_def sample_filled_def
  sample_entry_def new_session_def

lemma sample_open_reached: "patient_reach e sample_open"
proof -
  let ?s = "new_session sample_data sample_buffer"
  let ?t = "start_begin (js_int 1) ''http://a'' ?s"
  have t: "patient_reach e ?t"
    by (rule next_step [OF fresh [OF sample_buffer] started]) (simp_all add: sample_field new_session_def)
  have "snd (start_opened 0 ?t) = sample_open"
    by (simp add: start_opened_def start_begin_def sample_defs thenE_def bindE_def getsE_def modifyE_def ret_def on_conn_def flushInputs_def
        buffer_replayAfter_def sendEntries_def last_sequence_or_def no_connection_def)
  moreover have "patient_step e ?t (snd (start_opened 0 ?t))"
    by (rule connected) (simp_all add: start_begin_def sample_defs no_connection_def)
  ultimately show ?thesis using next_step [OF t] by simp
qed

lemma sample_joined_reached:
  assumes "readGatewayJoin join_env v = Inr (Some (seen_join sample_join))"
  shows "patient_reach join_env (sample_joined v)"
proof -
  have key: "jn_matchPriv (seen_join sample_join) = [116]" by (simp add: seen_join_def sample_join_def Let_def)
  have "snd (session_receive join_env 1 v sample_admissions sample_open) = sample_joined v"
    using assms key sample_field
    by (simp add: session_receive_def receive_join_def sample_defs thenE_def bindE_def getsE_def modifyE_def ret_def sample_admissions_def
      admission_issue_def admission_consume_def current_open_def is_open_def sendInput_run sequence_in_range_def MAX_SAFE_def)
  then show ?thesis using next_step [OF sample_open_reached received, of join_env 1 v sample_admissions] by simp
qed

lemma sample_playing_reached:
  assumes "readGatewayJoin join_env v = Inr (Some (seen_join sample_join))"
  shows "patient_reach join_env (sample_playing v)"
proof -
  have "buffer_push [9] sample_buffer = Inr (sample_entry, sample_filled)"
    by (simp add: buffer_push_def sample_defs MAX_SAFE_def Let_def)
  then have "snd (session_receive join_env 2 [9] [] (sample_joined v)) = sample_playing v"
    using sample_field
    by (simp add: session_receive_def receive_input_def catchE_def send_latest_entry_def thenE_def bindE_def getsE_def modifyE_def ret_def
      sample_open_def sample_joined_def sample_playing_def new_session_def current_open_def is_open_def sendInput_run sequence_in_range_def
      MAX_SAFE_def sample_entry_def put_wire_def on_conn_def)
  then show ?thesis using next_step [OF sample_joined_reached [OF assms] received, of 2 "[9]" "[]"] by simp
qed

text \<open>What preparing adds to a reached session.\<close>

lemma sample_output: "decodeGatewayFrame (frame_bytes (OutputFrame (js_int n) (js_int 0) [7])) = Inr (Some (OutputFrame (js_int n) (js_int 0) [7]))"
  if "field_ok (js_int n)"
  using decode_bytes [of "OutputFrame (js_int n) (js_int 0) [7]"] that sample_field by simp

lemma sample_prepared_state:
  assumes s: "patient_reach join_env s" and n: "field_ok (js_int n)" and c: "c = gs_next s"
    and join: "gs_join s = Some t" and p: "writeGatewayJoin join_env t [107, 49] = Inr p"
  shows "patient_reach join_env (sample_prepared n c s) \<and> gs_prepared (sample_prepared n c s) = Some c
    \<and> (\<exists>k. sample_prepared n c s = s\<lparr>gs_conns := (gs_conns s)(c := k), gs_prepared := Some c, gs_next := Suc c\<rparr>
         \<and> cn_ready k = Open \<and> cn_epoch k = js_int n \<and> cn_endpoint k = ''http://b'' \<and> cn_promise k = Resolved \<and> cn_frames k = [[7]]
         \<and> cn_prepared k \<and> \<not> cn_committed k)"
proof -
  let ?r = "sample_route n"
  let ?a = "prepare_connect ?r s"
  let ?b = "snd (prepare_opened join_env c [107, 49] ?a)"
  let ?k = "no_connection\<lparr>cn_ready := Open, cn_epoch := js_int n, cn_endpoint := ''http://b'', cn_prepared := True, cn_promise := Waiting,
    cn_wire := [input_frame (js_int n) (gs_tick s) 0 p]\<rparr>"
  have a: "patient_reach join_env ?a" using next_step [OF s candidate] n by (simp add: sample_route_def)
  have b': "patient_step join_env ?a ?b"
    using c by (intro candidate_connected) (simp_all add: prepare_connect_def)
  have b: "?b = s\<lparr>gs_conns := (gs_conns s)(c := ?k), gs_prepared := Some c, gs_next := Suc c\<rparr>"
    using join p n c
    by (simp add: prepare_opened_def thenE_def bindE_def getsE_def modifyE_def prepare_connect_def on_conn_def sendInput_run
      sequence_in_range_def MAX_SAFE_def put_wire_def is_open_def sample_route_def no_connection_def)
  have out: "sample_prepared n c s = s\<lparr>gs_conns := (gs_conns s)(c := ?k\<lparr>cn_frames := [[7]], cn_promise := Resolved\<rparr>),
      gs_prepared := Some c, gs_next := Suc c\<rparr>"
    unfolding sample_prepared_def b
    by (simp add: candidate_message_def sample_output [OF n] candidate_output_def isGatewayResumeBootstrapFrame_def Let_def settle_def
      on_conn_def no_connection_def msg_types)
  have "patient_reach join_env (sample_prepared n c s)"
    unfolding sample_prepared_def by (rule next_step [OF next_step [OF a b'] candidate_frame]) (simp add: b)
  then show ?thesis unfolding out by (auto simp: no_connection_def)
qed

definition sample_committed :: "view \<Rightarrow> gsession" where
  "sample_committed v = snd (commitPrepared (sample_route 2) (sample_prepared 2 1 (sample_playing v)))"

lemma sample_playing_simps:
  "gs_next (sample_playing v) = 1" "gs_current (sample_playing v) = Some 0" "\<not> gs_stopped (sample_playing v)"
  "gs_join (sample_playing v) = Some (seen_join sample_join)" "gs_inputs (sample_playing v) = sample_filled"
  "gs_shadow (sample_playing v) = []" "\<not> gs_verifying (sample_playing v)" "\<not> gs_frozen (sample_playing v)" "is_open 0 (sample_playing v)"
  "cn_epoch (gs_conns (sample_playing v) 0) = js_int 1" "\<not> cn_prepared (gs_conns (sample_playing v) 0)"
  "gs_ended (sample_playing v) = []"
  by (simp_all add: sample_playing_def sample_joined_def sample_open_def new_session_def is_open_def put_wire_def no_connection_def on_conn_def)

lemma sample_committed_state:
  assumes v: "readGatewayJoin join_env v = Inr (Some (seen_join sample_join))"
    and p: "writeGatewayJoin join_env (seen_join sample_join) [107, 49] = Inr p"
  shows "patient_reach join_env (sample_committed v) \<and> gs_next (sample_committed v) = 2 \<and> gs_current (sample_committed v) = Some 1
    \<and> \<not> gs_stopped (sample_committed v) \<and> gs_join (sample_committed v) = Some (seen_join sample_join)
    \<and> gs_verifying (sample_committed v) \<and> gs_shadow (sample_committed v) = [sample_entry] \<and> gs_ended (sample_committed v) = []
    \<and> cn_epoch (gs_conns (sample_committed v) 1) = js_int 2 \<and> cn_committed (gs_conns (sample_committed v) 1)
    \<and> is_open 1 (sample_committed v) \<and> shown sample_entry \<in> set (wire_inputs (gs_conns (sample_committed v) 1))"
proof -
  let ?s = "sample_prepared 2 1 (sample_playing v)" and ?r = "sample_route 2"
  note pl = sample_playing_simps [of v]
  from sample_prepared_state [OF sample_playing_reached [OF v] sample_field(2) pl(1) [symmetric] pl(4) p] obtain k where
    s: "patient_reach join_env ?s" "?s = (sample_playing v)\<lparr>gs_conns := (gs_conns (sample_playing v))(1 := k), gs_prepared := Some 1, gs_next := 2\<rparr>"
    "cn_ready k = Open" "cn_epoch k = js_int 2" "cn_endpoint k = ''http://b''" "cn_promise k = Resolved"
    by (auto simp: numeral_2_eq_2)
  have live: "\<not> gs_stopped ?s" using s(2) pl by simp
  have elsewhere: "\<not> plays_on ?r ?s" using s(2) pl by (simp add: plays_on_def same_upstream_def sample_route_def)
  have c: "gs_prepared ?s = Some 1" "same_upstream ?r 1 ?s" using s by (simp_all add: same_upstream_def sample_route_def)
  have settled: "cn_promise (gs_conns ?s 1) \<noteq> NotPreparing" using s by simp
  have "patient_step join_env ?s (snd (commitPrepared ?r ?s))" by (rule committed) (use live c settled in auto)
  then have reach: "patient_reach join_env (sample_committed v)" unfolding sample_committed_def by (rule next_step [OF s(1)])
  have replay: "mergeRollbackInputs (gs_shadow ?s) (buffer_replay (gs_inputs ?s)) = [sample_entry]"
    using s(2) pl by (simp add: sample_filled_def sample_buffer_def buffer_replay_def buffer_replayAfter_def mergeRollback_fresh sample_entry_def)
  have "commitPrepared ?r ?s = (Inr 1, add_effect (ReplayedInputs 1)
     (sent_to 1 (frames_of (cn_epoch (gs_conns ?s 1)) (gs_tick ?s) [sample_entry])
        (last_sequence_or [sample_entry] (ib_acknowledged (gs_inputs ?s))) (switched 1 [sample_entry] ?s)))"
    using commit_runs [OF live elsewhere c _ _ replay] s pl sample_field
    by (simp add: sample_entry_def sequence_in_range_def MAX_SAFE_def sample_filled_def sample_buffer_def)
  then have final: "sample_committed v = add_effect (ReplayedInputs 1)
     (sent_to 1 (frames_of (js_int 2) (gs_tick ?s) [sample_entry]) 1 (switched 1 [sample_entry] ?s))"
    using s(2,4) by (simp add: sample_committed_def last_sequence_or_def sample_entry_def)
  have join: "gs_join (switched c es t) = gs_join t" "gs_ended (switched c es t) = gs_ended t" for c es t
    by (simp_all add: switched_def close_opt_def close_socket_def on_conn_def split: option.splits)
  have frames: "shown sample_entry \<in> set (List.map_filter input_of (frames_of (js_int 2) (gs_tick ?s) [sample_entry]))"
    by (subst frames_inputs) (simp_all add: sample_field sample_entry_def sequence_in_range_def MAX_SAFE_def shown_def)
  have wire: "wire_inputs (k\<lparr>cn_committed := b, cn_wire := cn_wire k @ ws, cn_sentThrough := t\<rparr>) = wire_inputs k @ List.map_filter input_of ws"
    for b ws t by (simp add: wire_inputs_def map_filter_def)
  show ?thesis
    unfolding final using reach [unfolded final] s pl frames wire
    by (simp add: add_effect_def sent_to_conns switched_conns join is_open_def) (simp add: sent_to_def on_conn_def join)
qed

text \<open>The session again, with the candidate of a second cutover.\<close>

definition sample_again :: "view \<Rightarrow> gsession" where
  "sample_again v = sample_prepared 3 2 (sample_committed v)"

lemma sample_again_state:
  assumes "readGatewayJoin join_env v = Inr (Some (seen_join sample_join))"
    and "writeGatewayJoin join_env (seen_join sample_join) [107, 49] = Inr p"
  shows "patient_reach join_env (sample_again v) \<and> \<not> gs_stopped (sample_again v) \<and> \<not> plays_on (sample_route 3) (sample_again v)
    \<and> gs_prepared (sample_again v) = Some 2 \<and> same_upstream (sample_route 3) 2 (sample_again v)
    \<and> cn_promise (gs_conns (sample_again v) 2) \<noteq> NotPreparing \<and> is_open 2 (sample_again v) \<and> gs_current (sample_again v) = Some 1
    \<and> gs_verifying (sample_again v) \<and> cn_committed (gs_conns (sample_again v) 1) \<and> gs_ended (sample_again v) = []
    \<and> shown sample_entry \<in> set (wire_inputs (gs_conns (sample_again v) 1)) \<and> replay_of (sample_again v) = [sample_entry]"
proof -
  note co = sample_committed_state [OF assms]
  from sample_prepared_state [of "sample_committed v" 3 2, OF _ sample_field(3) _ _ assms(2)] co obtain k where
    "patient_reach join_env (sample_again v)" "cn_ready k = Open" "cn_epoch k = js_int 3" "cn_endpoint k = ''http://b''" "cn_promise k = Resolved"
    "sample_again v = (sample_committed v)\<lparr>gs_conns := (gs_conns (sample_committed v))(2 := k), gs_prepared := Some 2, gs_next := 3\<rparr>"
    by (auto simp: sample_again_def numeral_2_eq_2 numeral_3_eq_3)
  then show ?thesis
    using co by (simp add: plays_on_def same_upstream_def sample_route_def is_open_def replay_of_def)
qed

text \<open>The commit of the second cutover replays to the third upstream, after it the close of the second ends the session.\<close>

lemma cutover_replays_what_the_room_may_lack_witness:
  "\<exists>v s'. session_reach join_env (sample_again v) \<and> commitPrepared (sample_route 3) (sample_again v) = (Inr 1, s')
     \<and> wire_inputs (gs_conns s' 2) = [(1, [9])]"
proof -
  obtain v where v: "readGatewayJoin join_env v = Inr (Some (seen_join sample_join))"
    "\<exists>p. writeGatewayJoin join_env (seen_join sample_join) [107, 49] = Inr p" by (rule readGatewayJoin_sample)
  then obtain p where p: "writeGatewayJoin join_env (seen_join sample_join) [107, 49] = Inr p" by blast
  note st = sample_again_state [OF v(1) p]
  obtain s' where "commitPrepared (sample_route 3) (sample_again v) = (Inr 1, s')" "wire_inputs (gs_conns s' 2) = [(1, [9])]"
    using cutover_replays_what_the_room_may_lack [of join_env "sample_again v" "sample_route 3" 2] st
    by (auto simp: patient_reached sample_entry_def shown_def)
  then show ?thesis using st by (blast intro: patient_reached)
qed

lemma close_of_a_fenced_upstream_witness:
  "\<exists>v n s'. session_reach join_env (sample_again v) \<and> commitPrepared (sample_route 3) (sample_again v) = (Inr n, s')
     \<and> \<not> gs_stopped s' \<and> gs_ended (candidate_close 1 s') = [(1012, ''active_upstream_closed'')]"
proof -
  obtain v where v: "readGatewayJoin join_env v = Inr (Some (seen_join sample_join))"
    "\<exists>p. writeGatewayJoin join_env (seen_join sample_join) [107, 49] = Inr p" by (rule readGatewayJoin_sample)
  then obtain p where p: "writeGatewayJoin join_env (seen_join sample_join) [107, 49] = Inr p" by blast
  note st = sample_again_state [OF v(1) p]
  obtain n s' where "commitPrepared (sample_route 3) (sample_again v) = (Inr n, s')" "\<not> gs_stopped s'"
    "gs_ended (candidate_close 1 s') = [(1012, ''active_upstream_closed'')]"
    using close_of_a_fenced_upstream [of join_env "sample_again v" "sample_route 3" 2 1] st by (auto simp: patient_reached)
  then show ?thesis using st by (blast intro: patient_reached)
qed

lemma inputs_in_order_on_every_wire_witness:
  "\<exists>v. (1, [9]) \<in> set (wire_inputs (gs_conns (sample_again v) 1)) \<and> sorted_wrt (<) (map fst (wire_inputs (gs_conns (sample_again v) 1)))"
proof -
  obtain v where v: "readGatewayJoin join_env v = Inr (Some (seen_join sample_join))"
    "\<exists>p. writeGatewayJoin join_env (seen_join sample_join) [107, 49] = Inr p" by (rule readGatewayJoin_sample)
  then obtain p where p: "writeGatewayJoin join_env (seen_join sample_join) [107, 49] = Inr p" by blast
  note st = sample_again_state [OF v(1) p]
  show ?thesis
    using inputs_in_order_on_every_wire [of join_env "sample_again v" 1] st by (auto simp: patient_reached sample_entry_def shown_def)
qed

lemma nothing_pending_is_unsent_witness:
  "\<exists>v. patient_reach join_env (sample_playing v) \<and> (1, [9]) \<in> set (wire_inputs (gs_conns (sample_playing v) 0))"
proof -
  obtain v where v: "readGatewayJoin join_env v = Inr (Some (seen_join sample_join))" by (rule readGatewayJoin_sample)
  have "sample_entry \<in> set (ib_entries (gs_inputs (sample_playing v)))"
    by (simp add: sample_playing_simps sample_filled_def)
  from nothing_pending_is_unsent [OF sample_playing_reached [OF v] _ _ _ _ this, of 0] show ?thesis
    using sample_playing_simps [of v] sample_playing_reached [OF v] by (auto simp: sample_entry_def)
qed

section \<open>Inputs that are lost\<close>

lemma sorted_le_last_key: "sorted_wrt (<) (map k es) \<Longrightarrow> e \<in> set es \<Longrightarrow> (k e :: int) \<le> k (last es)"
  by (induction es) (auto intro: less_imp_le)

text \<open>
  An abort marks the buffered inputs as sent to the current upstream.  When that upstream is still connecting its
  socket drops them, so nothing is left for the flush at its opening.
\<close>

lemma abort_while_connecting_loses_inputs:
  assumes g: "good qt s" and c: "gs_current s = Some c" and connecting: "cn_ready (gs_conns s c) = Connecting"
  shows "\<exists>s'. abortPrepared s = (Inr (), s') \<and> wire_inputs (gs_conns s' c) = wire_inputs (gs_conns s c)
    \<and> gs_inputs s' = gs_inputs s \<and> buffer_replayAfter (cn_sentThrough (gs_conns s' c)) (gs_inputs s') = []"
proof -
  obtain l where ok: "session_ok qt l s" and range: "within_range l" using g by (auto simp: good_def)
  note lk = links_okD [OF session_okD(4) [OF ok]]
  let ?t = "(close_opt (gs_prepared s) s)\<lparr>gs_prepared := None, gs_frozen := False\<rparr>"
  have conn: "gs_conns ?t c = gs_conns s c"
    using lk(4) c by (auto simp: close_opt_def close_socket_def split: option.splits)
  let ?es = "buffer_replayAfter (cn_sentThrough (gs_conns s c)) (gs_inputs s)"
  have ep: "field_ok (cn_epoch (gs_conns s c))" using lk(1,2) c by blast
  have "set ?es \<subseteq> set (ib_entries (gs_inputs s))" by (auto simp: buffer_replayAfter_def)
  then have "\<forall>e \<in> set ?es. sequence_in_range (bi_sequence e)"
    using numbered_in_range [OF range] unfolding pending(1) [OF session_okD(1) [OF ok]] by auto
  from sendEntries_run [OF ep this, of c ?t] have send: "sendEntries c (cn_epoch (gs_conns s c)) ?es ?t = (Inr (), ?t)"
    using connecting conn by (simp add: put_wire_def is_open_def)
  let ?n = "last_sequence_or ?es (cn_sentThrough (gs_conns s c))"
  have "abortPrepared s = (Inr (), on_conn c (\<lambda>k. k\<lparr>cn_sentThrough := last_sequence_or ?es (cn_sentThrough k)\<rparr>) ?t)"
    using c send conn
    by (simp add: abortPrepared_def flushInputs_def thenE_def bindE_def modifyE_def getsE_def)
  moreover have "buffer_replayAfter ?n (gs_inputs s) = []"
  proof (cases "?es = []")
    case False
    have sorted: "sorted_wrt (<) (map bi_sequence (ib_entries (gs_inputs s)))" by (rule buffer_inv_facts(1) [OF session_okD(2) [OF ok]])
    have "sorted_wrt (<) (map bi_sequence ?es)"
      using sorted unfolding buffer_replayAfter_def sorted_wrt_map by (rule sorted_wrt_filter)
    then have "bi_sequence e \<le> bi_sequence (last ?es)" if "e \<in> set ?es" for e
      by (rule sorted_le_last_key [OF _ that])
    then have le: "bi_sequence e \<le> bi_sequence (last ?es)" if "e \<in> set (ib_entries (gs_inputs s))" "cn_sentThrough (gs_conns s c) < bi_sequence e" for e
      using that by (simp add: buffer_replayAfter_def)
    moreover have "cn_sentThrough (gs_conns s c) < bi_sequence (last ?es)"
      using last_in_set [OF False] by (simp add: buffer_replayAfter_def)
    ultimately show ?thesis
      using False by (fastforce simp: last_sequence_or_def buffer_replayAfter_def filter_empty_conv)
  qed (simp add: last_sequence_or_def)
  ultimately show ?thesis using conn by (simp add: wire_inputs_def)
qed

text \<open>A commit of a candidate that is still connecting reports a replay that no socket has taken.\<close>

lemma commit_before_open_loses_replay:
  assumes "good qt s" and "\<not> gs_stopped s" and "\<not> plays_on r s" and "gs_prepared s = Some c" and "same_upstream r c s"
    and connecting: "cn_ready (gs_conns s c) = Connecting"
  shows "\<exists>s'. commitPrepared r s = (Inr (length (replay_of s)), s') \<and> wire_inputs (gs_conns s' c) = []
    \<and> cn_sentThrough (gs_conns s' c) = last_sequence_or (replay_of s) (ib_acknowledged (gs_inputs s))"
proof -
  note run = commit_final [OF assms(1-5)]
  show ?thesis
    unfolding run(1) using connecting run(3) by (simp add: sent_to_conns switched_conns [OF run(2)] wire_inputs_def)
qed

end
