(* ===== verification/GatewayRoomExamples.thy ===== *)
theory GatewayRoomExamples
  imports GatewayRoomTables GatewayCutovers
begin

text \<open>
  A gateway of one room with two sessions, played through a cutover that moves it, one that the registry refuses, one
  that loses a candidate half-way and the finalization of its verification.
\<close>

section \<open>The gateway\<close>

definition shop_env :: "string gateway_env" where
  "shop_env = \<lparr>ge_url = plain_url, ge_prepareTimeout = js_int 5000, ge_verificationTimeout = js_int 5000, ge_allowUnprepared = False,
     ge_workspace = ''w'', ge_cluster = ''c'', ge_namespace = ''n'', ge_uuid = (\<lambda>_. ''u''), ge_iso = (\<lambda>_. ''t'')\<rparr>"

definition shop_route :: "int \<Rightarrow> string \<Rightarrow> gateway_route" where
  "shop_route n endpoint = \<lparr>gr_roomId = ''room-0'', gr_endpoint = endpoint, gr_epoch = js_int n, gr_revision = None\<rparr>"

definition shop_data :: "string \<Rightarrow> socket_data" where
  "shop_data i = \<lparr>sd_id = i, sd_roomId = ''room-0'', sd_sessionId = ''s'', sd_gameId = ''g''\<rparr>"

definition shop_new :: "string \<Rightarrow> gsession" where
  "shop_new i = new_session (shop_data i) sample_buffer"

text \<open>A session that plays on the first upstream, frozen, with a candidate that is ready.\<close>

definition shop_ready :: "string \<Rightarrow> gsession" where
  "shop_ready i = (shop_new i)\<lparr>gs_conns := (\<lambda>_. no_connection)
      (0 := no_connection\<lparr>cn_ready := Open, cn_epoch := js_int 1, cn_endpoint := ''http://a''\<rparr>,
       1 := no_connection\<lparr>cn_ready := Open, cn_epoch := js_int 2, cn_endpoint := ''http://b'', cn_prepared := True, cn_promise := Resolved\<rparr>),
     gs_next := 2, gs_current := Some 0, gs_prepared := Some 1, gs_frozen := True\<rparr>"

definition shop_request :: room_cutover_request where
  "shop_request = \<lparr>cq_expectedEpoch = js_int 1, cq_nextEpoch = js_int 2, cq_endpoint = ''http://b'',
     cq_revision = None, cq_operationId = ''op'', cq_checksumMatched = True, cq_caughtUp = True\<rparr>"

definition shop_preparation :: room_preparation where
  "shop_preparation = \<lparr>rp_operationId = ''op'', rp_roomId = ''room-0'', rp_expectedEpoch = js_int 1, rp_supersedes = None,
     rp_sessionIds = [''i'', ''j''], rp_unackedInputs = 0, rp_startedAt = 1\<rparr>"

text \<open>The room is frozen for the operation; \<open>f\<close> gives its two sessions.\<close>

definition shop_frozen :: "int \<Rightarrow> (string \<Rightarrow> gsession) \<Rightarrow> gateway" where
  "shop_frozen n f = \<lparr>gw_routes = [(''room-0'', shop_route n ''http://a'')], gw_session = f, gw_live = [''i'', ''j''],
     gw_preparations = [(''room-0'', shop_preparation)], gw_verifications = [], gw_operations = [], gw_ledger = new_ledger,
     gw_switches = 0, gw_failures = 0\<rparr>"

definition shop_run :: cutover_run where
  "shop_run = \<lparr>cr_room = ''room-0'', cr_request = shop_request, cr_prepared = True, cr_selected = [''i'', ''j''], cr_epoch = js_int 1\<rparr>"

text \<open>The first half enrolls the operation with both sessions; the preparation is still there.\<close>

definition shop_begun :: "(string \<Rightarrow> gsession) \<Rightarrow> gateway" where
  "shop_begun f = set_operation ''room-0:op'' (new_operation 2 ''room-0'' shop_request [''i'', ''j'']) (shop_frozen 1 f)"

lemmas shop_defs = shop_env_def shop_route_def shop_request_def shop_preparation_def shop_frozen_def shop_run_def shop_begun_def

lemma shop_key: "run_key shop_run = ''room-0:op''" "operationKey ''room-0'' ''op'' = ''room-0:op''"
  by (simp_all add: run_key_def operationKey_def shop_run_def shop_request_def)

lemma frozen_begin:
  assumes "gw_routes g = [(''room-0'', shop_route 1 ''http://a'')]" and "gw_live g = [''i'', ''j'']" and "gw_operations g = []"
    and "map_of (gw_preparations g) ''room-0'' = Some p" and "rp_operationId p = ''op''" and "rp_expectedEpoch p = js_int 1"
    and "rp_sessionIds p = [''i'', ''j'']"
  shows "cutover_begin shop_env 2 ''room-0'' shop_request g
    = (Inr (Inr shop_run), set_operation ''room-0:op'' (new_operation 2 ''room-0'' shop_request [''i'', ''j'']) g)"
  using assms
  by (simp add: cutover_begin_def cutover_admit_def cutover_enroll_def cutover_checks_def bindE_def thenE_def catchE_def Let_def
      guard_run basic_run shop_defs new_operation_def set_operation_def operation_of_def run_key_def operationKey_def)

lemma shop_begin: "cutover_begin shop_env 2 ''room-0'' shop_request (shop_frozen 1 f) = (Inr (Inr shop_run), shop_begun f)"
  unfolding shop_begun_def by (rule frozen_begin [where p = shop_preparation]) (simp_all add: shop_frozen_def shop_preparation_def)

text \<open>The registry takes the route.\<close>

lemma shop_swap: "compareAndSwap plain_url ''room-0'' (js_int 1) ''http://b'' (js_int 2) None [(''room-0'', shop_route 1 ''http://a'')]
    = Inr (shop_route 2 ''http://b'', [(''room-0'', shop_route 2 ''http://b'')])"
  by code_simp

lemma shop_routed: "\<exists>l. cutover_route shop_env 3 shop_run (shop_begun f) = (Inr (shop_route 2 ''http://b''),
    (shop_begun f)\<lparr>gw_routes := [(''room-0'', shop_route 2 ''http://b'')], gw_ledger := l\<rparr>)"
proof -
  have at: "gw_routes (shop_begun f) = [(''room-0'', shop_route 1 ''http://a'')]" "gr_epoch (shop_route 1 ''http://a'') = js_int 1"
    by (simp_all add: shop_begun_def set_operation_def shop_frozen_def shop_route_def)
  have "cr_room shop_run = ''room-0''" "cr_request shop_run = shop_request" "ge_url shop_env = plain_url"
    "cq_expectedEpoch shop_request = js_int 1" "cq_nextEpoch shop_request = js_int 2" "cq_endpoint shop_request = ''http://b''"
    "cq_revision shop_request = None" "js_eq (js_int 1) (js_int 1)"
    by (simp_all add: shop_run_def shop_env_def shop_request_def)
  then show ?thesis by (simp add: cutover_route_def Let_def bindE_def thenE_def basic_run at shop_swap) (rule exI, rule refl)
qed

text \<open>A ready session is committed; it has no input to replay.\<close>

lemma shop_commit: "\<exists>s'. commitPrepared (shop_route 2 ''http://b'') (shop_ready i) = (Inr 0, s')"
proof -
  have "commitPrepared (shop_route 2 ''http://b'') (shop_ready i) = (Inr (length ([] :: buffered list)), add_effect (ReplayedInputs (length ([] :: buffered list)))
     (sent_to 1 (frames_of (cn_epoch (gs_conns (shop_ready i) 1)) (gs_tick (shop_ready i)) [])
       (last_sequence_or [] (ib_acknowledged (gs_inputs (shop_ready i)))) (switched 1 [] (shop_ready i))))"
    by (rule commit_runs)
      (simp_all add: shop_ready_def shop_new_def new_session_def shop_route_def plays_on_def same_upstream_def sample_field sample_buffer_def
        buffer_replay_def buffer_replayAfter_def mergeRollback_fresh)
  then show ?thesis by auto
qed

lemma shop_resume: "\<exists>a g'. cutover_resume shop_env 3 shop_run (shop_begun shop_ready) = (Inr a, g')"
proof -
  obtain l where route: "cutover_route shop_env 3 shop_run (shop_begun shop_ready) = (Inr (shop_route 2 ''http://b''),
    (shop_begun shop_ready)\<lparr>gw_routes := [(''room-0'', shop_route 2 ''http://b'')], gw_ledger := l\<rparr>)" (is "_ = (_, ?g)")
    using shop_routed by blast
  have ready: "gw_session (at_registry 3 shop_run ?g) = shop_ready"
    by (simp add: shop_begun_def set_operation_def shop_frozen_def)
  obtain s t where s: "commitPrepared (shop_route 2 ''http://b'') (shop_ready ''i'') = (Inr 0, s)"
    and t: "commitPrepared (shop_route 2 ''http://b'') (shop_ready ''j'') = (Inr 0, t)" using shop_commit by metis
  have "\<exists>g3. commit_each shop_run (shop_route 2 ''http://b'') (cr_selected shop_run) (at_registry 3 shop_run ?g) = (Inr (), g3)"
    using s t ready by (simp add: shop_run_def bindE_def thenE_def on_session_run basic_run set_operation_def)
  then obtain g3 where each: "commit_each shop_run (shop_route 2 ''http://b'') (cr_selected shop_run) (at_registry 3 shop_run ?g) = (Inr (), g3)"
    by blast
  have "frozen_first shop_run (shop_begun shop_ready) = shop_begun shop_ready" by (simp add: shop_run_def)
  then have "cutover_resume shop_env 3 shop_run (shop_begun shop_ready) = (Inr a, g')
      \<longleftrightarrow> cutover_conclude shop_env 3 shop_run (shop_route 2 ''http://b'') g3 = (Inr a, g')" for a g'
    using route each by (simp add: resume_Inr commit_run bindE_def thenE_def basic_run)
  then show ?thesis using conclude_run [of shop_env 3 shop_run "shop_route 2 ''http://b''" g3] by metis
qed

lemma cutover_moves_the_room_witness:
  "\<exists>a g' d. cutover_resume shop_env 3 shop_run (shop_begun shop_ready) = (Inr a, g') \<and> ca_sessions a = 2
    \<and> gs_current (gw_session g' ''j'') = Some d"
proof -
  obtain a g' where run: "cutover_resume shop_env 3 shop_run (shop_begun shop_ready) = (Inr a, g')" using shop_resume by blast
  have sel: "cr_selected shop_run = [''i'', ''j'']" by (simp add: shop_run_def)
  have "distinct (cr_selected shop_run)" "''j'' \<in> set (cr_selected shop_run)" by (simp_all add: sel)
  then have "ca_sessions a = length (cr_selected shop_run)" "\<exists>d. gs_current (gw_session g' ''j'') = Some d"
    using cutover_moves_the_room [OF run] by blast+
  then show ?thesis using run by (simp add: sel)
qed

lemma repeated_cutover_is_answered_alike_witness:
  "\<exists>a g'. cutover_resume shop_env 3 shop_run (shop_begun shop_ready) = (Inr a, g')
    \<and> cutover_begin shop_env 9 ''room-0'' shop_request g' = (Inr (Inl a), g')"
proof -
  obtain a g' where run: "cutover_resume shop_env 3 shop_run (shop_begun shop_ready) = (Inr a, g')" using shop_resume by blast
  have stored: "map_of (gw_operations (shop_begun f)) (run_key shop_run) = Some (new_operation 2 ''room-0'' shop_request [''i'', ''j''])" for f
    by (simp add: shop_key shop_begun_def set_operation_def)
  have same: "same_request shop_request (new_operation 2 ''room-0'' shop_request [''i'', ''j''])"
    by (simp add: same_request_def new_operation_def shop_request_def)
  have "cutover_begin shop_env 9 ''room-0'' shop_request g' = (Inr (Inl a), g')"
    using repeated_cutover_is_answered_alike [OF shop_begin stored same _ run] stored by (simp add: operation_of_def)
  then show ?thesis using run by blast
qed

section \<open>Cutovers that fail\<close>

text \<open>The registry has an epoch that the request does not expect.\<close>

definition shop_moved :: gateway where
  "shop_moved = set_operation ''room-0:op'' (new_operation 2 ''room-0'' shop_request [''i'', ''j'']) (shop_frozen 7 shop_new)"

lemma shop_conflict: "fst (cutover_route shop_env 3 shop_run shop_moved) = Inl ''gateway_epoch_conflict''"
  by code_simp

lemma shop_new_reached: "session_reach e (shop_new i)"
  unfolding shop_new_def by (rule session_reach.initial [OF sample_buffer])

lemma failed_cutover_resumes_the_room_witness:
  "\<exists>g'. cutover_resume shop_env 3 shop_run shop_moved = (Inl ''gateway_epoch_conflict'', g')
    \<and> co_failure (operation_of shop_run g') = Some ''gateway_epoch_conflict'' \<and> map_of (gw_preparations g') ''room-0'' = None"
proof -
  have status: "co_status (operation_of shop_run shop_moved) \<noteq> RegistryCommitted"
    by (simp add: shop_key operation_of_def shop_moved_def set_operation_def new_operation_def)
  have sel: "distinct (cr_selected shop_run)" "gw_session shop_moved = shop_new"
    by (simp_all add: shop_run_def shop_moved_def set_operation_def shop_frozen_def)
  obtain h where route: "cutover_route shop_env 3 shop_run shop_moved = (Inl ''gateway_epoch_conflict'', h)"
    using shop_conflict by (metis prod.collapse)
  have "frozen_first shop_run shop_moved = shop_moved" by (simp add: shop_run_def)
  then have "cutover_commit shop_env 3 shop_run shop_moved = (Inl ''gateway_epoch_conflict'', h)"
    using route by (simp add: commit_run bindE_def)
  then have resume: "cutover_resume shop_env 3 shop_run shop_moved = cutover_failed shop_env 3 shop_run ''gateway_epoch_conflict'' h"
    by (simp add: cutover_resume_def catchE_def)
  have "h = shop_moved" using cutover_route_Inl route by blast
  then obtain g' where run: "cutover_resume shop_env 3 shop_run shop_moved = (Inl ''gateway_epoch_conflict'', g')"
    using failed_open [of shop_run h shop_env 3 "''gateway_epoch_conflict''"] resume status sel reach_good [OF shop_new_reached]
    by (metis)
  have "\<forall>i \<in> set (cr_selected shop_run). session_reach e (gw_session shop_moved i)" for e
    using shop_new_reached by (simp add: sel)
  moreover have "cr_room shop_run = ''room-0''" by (simp add: shop_run_def)
  ultimately show ?thesis using failed_cutover_resumes_the_room [OF run sel(1) status] run by metis
qed

text \<open>The candidate of the second session is gone when the cutover commits.\<close>

definition shop_half :: "string \<Rightarrow> gsession" where
  "shop_half i = (if i = ''i'' then shop_ready i else (shop_ready i)\<lparr>gs_prepared := None\<rparr>)"

lemma lost_candidate_stops_the_cutover_witness:
  "\<exists>g'. cutover_resume shop_env 3 shop_run (shop_begun shop_half) = (Inl ''gateway_candidate_not_prepared'', g')
    \<and> map_of (gw_routes g') ''room-0'' = Some (shop_route 2 ''http://b'') \<and> gw_session g' ''j'' = shop_half ''j'' \<and> gs_frozen (shop_half ''j'')"
proof -
  obtain l where route: "cutover_route shop_env 3 shop_run (shop_begun shop_half) = (Inr (shop_route 2 ''http://b''),
    (shop_begun shop_half)\<lparr>gw_routes := [(''room-0'', shop_route 2 ''http://b'')], gw_ledger := l\<rparr>)"
    using shop_routed by blast
  have run: "cr_prepared shop_run" "cr_selected shop_run = [''i''] @ ''j'' # []" "distinct (cr_selected shop_run)" "cr_room shop_run = ''room-0''"
    by (simp_all add: shop_run_def)
  have sessions: "gw_session (shop_begun shop_half) = shop_half" by (simp add: shop_begun_def set_operation_def shop_frozen_def)
  have ready: "\<forall>x \<in> set [''i'']. \<exists>k s'. commitPrepared (shop_route 2 ''http://b'') (gw_session (shop_begun shop_half) x) = (Inr k, s')"
    using shop_commit by (simp add: sessions shop_half_def) blast
  have gone: "gs_prepared (shop_half ''j'') = None" "\<not> plays_on (shop_route 2 ''http://b'') (shop_half ''j'')" "gs_frozen (shop_half ''j'')"
    by (simp_all add: shop_half_def shop_ready_def plays_on_def same_upstream_def shop_route_def)
  from lost_candidate_stops_the_cutover [OF run(1) route run(2,3) ready] gone show ?thesis
    unfolding sessions run(4) by (metis list.set_intros(1))
qed

section \<open>The end of a verification\<close>

definition shop_moved_on :: "string \<Rightarrow> gsession" where
  "shop_moved_on i = (shop_new i)\<lparr>gs_conns := (\<lambda>_. no_connection)
      (0 := no_connection\<lparr>cn_ready := Open, cn_epoch := js_int 2, cn_endpoint := ''http://b'', cn_committed := True\<rparr>),
     gs_next := 1, gs_current := Some 0, gs_verifying := True, gs_shadow := [sample_entry]\<rparr>"

definition shop_verification :: room_verification where
  "shop_verification = \<lparr>rv_operationId = ''op'', rv_roomId = ''room-0'', rv_epoch = js_int 2, rv_sessionIds = [''i'', ''j''], rv_startedAt = 3\<rparr>"

definition shop_verifying :: gateway where
  "shop_verifying = (shop_frozen 2 shop_moved_on)\<lparr>gw_routes := [(''room-0'', shop_route 2 ''http://b'')], gw_preparations := [],
     gw_verifications := [(''room-0'', shop_verification)]\<rparr>"

lemma shop_finalized: "fst (finalizeRoomVerification shop_env 4 ''room-0'' ''op'' shop_verifying) = Inr (2, 2)"
  by code_simp

lemma finalize_needs_continuity_witness:
  "\<exists>g'. finalizeRoomVerification shop_env 4 ''room-0'' ''op'' shop_verifying = (Inr (2, 2), g') \<and> gs_shadow (gw_session g' ''j'') = []"
proof -
  obtain g' where run: "finalizeRoomVerification shop_env 4 ''room-0'' ''op'' shop_verifying = (Inr (2, 2), g')"
    using shop_finalized by (metis prod.collapse)
  have v: "map_of (gw_verifications shop_verifying) ''room-0'' = Some shop_verification" by (simp add: shop_verifying_def)
  have "distinct (rv_sessionIds shop_verification)" "''j'' \<in> set (rv_sessionIds shop_verification)" by (simp_all add: shop_verification_def)
  then show ?thesis using finalize_needs_continuity [OF run v] run by metis
qed

section \<open>A reachable gateway\<close>

definition shop_opened :: gateway where
  "shop_opened = browser_open (shop_data ''j'') sample_buffer (browser_open (shop_data ''i'') sample_buffer
     (new_gateway [(''room-0'', shop_route 1 ''http://a'')] shop_new))"

lemma shop_opened_reached: "gateway_reach shop_env e (shop_opened, [])"
proof -
  have "new_registry plain_url [shop_route 1 ''http://a''] = Inr [(''room-0'', shop_route 1 ''http://a'')]" by code_simp
  then have "gateway_reach shop_env e (new_gateway [(''room-0'', shop_route 1 ''http://a'')] shop_new, [])"
    by (intro gateway_reach.initial) (simp add: shop_env_def)
  then have "gateway_reach shop_env e (browser_open (shop_data ''i'') sample_buffer (new_gateway [(''room-0'', shop_route 1 ''http://a'')] shop_new), [])"
    by (rule gateway_reach.later) (rule gateway_step.opened, simp_all add: new_gateway_def)
  then show ?thesis
    unfolding shop_opened_def
    by (rule gateway_reach.later) (rule gateway_step.opened, simp_all add: new_gateway_def browser_open_def shop_data_def)
qed

text \<open>The room is frozen for an operation whose cutover then waits for both sessions.\<close>

definition shop_waiting :: gateway where
  "shop_waiting = snd (freezeRoom shop_env 1 ''room-0'' ''op'' (js_int 1) None shop_opened)"

lemma shop_waiting_routes: "gw_routes shop_waiting = [(''room-0'', shop_route 1 ''http://a'')]"
  by code_simp

lemma shop_waiting_tables: "gw_live shop_waiting = [''i'', ''j'']" "gw_operations shop_waiting = []"
  by code_simp+

lemma shop_waiting_preparation: "map_of (gw_preparations shop_waiting) ''room-0''
    = Some \<lparr>rp_operationId = ''op'', rp_roomId = ''room-0'', rp_expectedEpoch = js_int 1, rp_supersedes = None,
        rp_sessionIds = [''i'', ''j''], rp_unackedInputs = 0, rp_startedAt = 1\<rparr>"
  by code_simp

lemma gateway_tables_well_formed_witness:
  "\<exists>g. cutover_begin shop_env 2 ''room-0'' shop_request shop_waiting = (Inr (Inr shop_run), g) \<and> tables_ok g
    \<and> of_room g ''room-0'' [''i'', ''j'']"
proof -
  obtain g where g: "cutover_begin shop_env 2 ''room-0'' shop_request shop_waiting = (Inr (Inr shop_run), g)"
    using frozen_begin [OF shop_waiting_routes shop_waiting_tables shop_waiting_preparation] by simp
  have "gateway_reach shop_env e (shop_waiting, [])" for e
    unfolding shop_waiting_def by (rule gateway_reach.later [OF shop_opened_reached gateway_step.freeze])
  then have "gateway_reach shop_env e (g, [shop_run])" for e
    by (rule gateway_reach.later) (rule gateway_step.began [OF g])
  from gateway_tables_well_formed [OF this] have "tables_ok g" "run_ok g shop_run" by simp_all
  then show ?thesis using g by (simp add: run_ok_def shop_run_def)
qed

end
