(* ===== verification/RoomRegistry.thy ===== *)
theory RoomRegistry
  imports DriverNet
begin

text \<open>
  The fleet's room registry (\<open>services/room-orchestrator/src/registry.ts\<close>, \<open>room-profiles.ts\<close>): what a room
  record holds, the profile of an ordinal, the in-memory registry, and the reconciler that makes the registry follow
  a replica count or the workloads found in Kubernetes.  The reconciler is written over the registry's interface, the
  record of its operations, as the class is over \<open>RoomRegistry\<close>; the laws it relies on are the locale
  \<open>room_registry\<close>, interpreted by the in-memory registry.  An ordinal is a natural number: it is read from
  digits.  \<open>new Date().toISOString()\<close> is the text \<open>now\<close>, one per call of the reconciler.
\<close>

section \<open>Profiles\<close>

record room_profile =
  pf_mapKey :: string
  pf_name :: string
  pf_description :: string
  pf_region :: string
  pf_map :: string
  pf_mode :: string
  pf_maxPlayers :: jsnum

definition seoul :: string where
  "seoul = ''Seoul / ap-northeast-2''"

definition solo_profile :: "string \<Rightarrow> string \<Rightarrow> string \<Rightarrow> string \<Rightarrow> room_profile" where
  "solo_profile key name description m = \<lparr>pf_mapKey = key, pf_name = name, pf_description = description, pf_region = seoul,
     pf_map = m, pf_mode = ''Solo FFA'', pf_maxPlayers = js_int 80\<rparr>"

definition ROOM_PROFILES :: "room_profile list" where
  "ROOM_PROFILES =
     [\<lparr>pf_mapKey = ''faction'', pf_name = ''Faction Front'', pf_description = ''Survev 50:50 faction live room'', pf_region = seoul,
        pf_map = ''Faction Island'', pf_mode = ''Faction 50v50'', pf_maxPlayers = js_int 100\<rparr>,
      solo_profile ''desert'' ''Desert Run'' ''Survev desert solo live room'' ''Desert'',
      solo_profile ''snow'' ''Snowfield'' ''Survev snow solo live room'' ''Snow'',
      solo_profile ''main'' ''Main Island'' ''Survev classic island solo live room'' ''Main Island'',
      solo_profile ''woods'' ''Woods Patrol'' ''Survev woods solo live room'' ''Woods'']"

definition roomProfileForOrdinal :: "nat \<Rightarrow> room_profile" where
  "roomProfileForOrdinal ordinal =
     (let profile = ROOM_PROFILES ! (ordinal mod length ROOM_PROFILES);
          fleetCycle = ordinal div length ROOM_PROFILES in
      if fleetCycle = 0 then profile
      else profile\<lparr>pf_name := pf_name profile @ '' '' @ show_nat (fleetCycle + 1),
                   pf_description := pf_description profile @ '' (auto room '' @ show_nat ordinal @ '')''\<rparr>)"

section \<open>Records\<close>

datatype registry_status = RoomWaiting | RoomRunning | RoomEnded | RoomInactive

record room_spec =
  rs_name :: string
  rs_description :: string
  rs_region :: string
  rs_map :: string
  rs_mode :: string
  rs_maxPlayers :: jsnum
  rs_createdAt :: string

record room_record =
  rr_roomId :: string
  rr_ordinal :: nat
  rr_podName :: string
  rr_endpoint :: string
  rr_status :: registry_status
  rr_players :: jsnum
  rr_alive :: jsnum
  rr_strictMode :: bool
  rr_joinLocked :: "bool option"
  rr_statusChangedAt :: "string option"
  rr_spec :: "room_spec option"

record room_workload =
  rw_roomId :: string
  rw_ordinal :: nat
  rw_deploymentName :: string
  rw_serviceName :: string
  rw_endpoint :: string
  rw_replicas :: jsnum

definition legacyRoomName :: "string \<Rightarrow> nat \<Rightarrow> bool" where
  "legacyRoomName name ordinal =
     (name = ''Faction Room '' @ show_nat (ordinal + 1) \<or> name = ''Survev Faction Room'')"

definition specForOrdinal :: "string \<Rightarrow> nat \<Rightarrow> room_spec option \<Rightarrow> room_spec" where
  "specForOrdinal now ordinal current =
     (let profile = roomProfileForOrdinal ordinal in
      \<lparr>rs_name = (case current of
           Some c \<Rightarrow> if \<not> legacyRoomName (rs_name c) ordinal then rs_name c else pf_name profile
         | None \<Rightarrow> pf_name profile),
       rs_description = (case current of
           Some c \<Rightarrow> if rs_description c \<noteq> ''Survev 50:50 faction live room'' then rs_description c else pf_description profile
         | None \<Rightarrow> pf_description profile),
       rs_region = pf_region profile, rs_map = pf_map profile, rs_mode = pf_mode profile, rs_maxPlayers = pf_maxPlayers profile,
       rs_createdAt = (case current of Some c \<Rightarrow> rs_createdAt c | None \<Rightarrow> now)\<rparr>)"

definition recordForOrdinal :: "string \<Rightarrow> nat \<Rightarrow> string \<Rightarrow> string \<Rightarrow> room_record" where
  "recordForOrdinal now ordinal endpoint workloadName =
     \<lparr>rr_roomId = room_id_of ordinal, rr_ordinal = ordinal, rr_podName = workloadName, rr_endpoint = endpoint,
      rr_status = RoomWaiting, rr_players = js_int 0, rr_alive = js_int 0, rr_strictMode = False, rr_joinLocked = Some False,
      rr_statusChangedAt = Some now, rr_spec = Some ((specForOrdinal now ordinal None)\<lparr>rs_createdAt := now\<rparr>)\<rparr>"

section \<open>The registry's interface and the in-memory registry\<close>

record 's room_store =
  st_list :: "'s \<Rightarrow> room_record list"
  st_get :: "string \<Rightarrow> 's \<Rightarrow> room_record option"
  st_put :: "room_record \<Rightarrow> 's \<Rightarrow> 's"
  st_remove :: "string \<Rightarrow> 's \<Rightarrow> 's"

type_synonym memory_rooms = "(string \<times> room_record) list"

definition memory_list :: "memory_rooms \<Rightarrow> room_record list" where
  "memory_list m = sort_key rr_ordinal (map snd m)"

definition memory_get :: "string \<Rightarrow> memory_rooms \<Rightarrow> room_record option" where
  "memory_get roomId m = map_of m roomId"

definition memory_put :: "room_record \<Rightarrow> memory_rooms \<Rightarrow> memory_rooms" where
  "memory_put r m = oput (rr_roomId r) r m"

definition memory_remove :: "string \<Rightarrow> memory_rooms \<Rightarrow> memory_rooms" where
  "memory_remove roomId m = odel roomId m"

definition memory_store :: "memory_rooms room_store" where
  "memory_store = \<lparr>st_list = memory_list, st_get = memory_get, st_put = memory_put, st_remove = memory_remove\<rparr>"

section \<open>The reconciler\<close>

type_synonym ('s, 'a) fleet = "('s, string, 'a) eff"

definition or_else :: "'a option \<Rightarrow> 'a option \<Rightarrow> 'a option" where
  "or_else a b = (if a = None then b else a)"

text \<open>\<open>record.statusChangedAt ?? record.spec?.createdAt ?? changedAt\<close>, unless the status changes.\<close>

definition changed_at :: "string \<Rightarrow> registry_status \<Rightarrow> room_record \<Rightarrow> string option" where
  "changed_at now status r =
     (if status = rr_status r
      then or_else (rr_statusChangedAt r) (or_else (map_option rs_createdAt (rr_spec r)) (Some now)) else Some now)"

definition deactivated :: "string option \<Rightarrow> room_record \<Rightarrow> room_record" where
  "deactivated since r = r\<lparr>rr_status := RoomInactive, rr_players := js_int 0, rr_alive := js_int 0, rr_statusChangedAt := since\<rparr>"

definition or_unlocked :: "room_record \<Rightarrow> bool option" where
  "or_unlocked r = or_else (rr_joinLocked r) (Some False)"

text \<open>One ordinal below the replica count.\<close>

definition reconciled_record :: "string \<Rightarrow> (nat \<Rightarrow> string) \<Rightarrow> (nat \<Rightarrow> string) \<Rightarrow> room_record list \<Rightarrow> nat \<Rightarrow> room_record" where
  "reconciled_record now endpointFor nameFor existing ordinal =
     (let r = (case find (\<lambda>r. rr_ordinal r = ordinal) existing of
                 Some r \<Rightarrow> r | None \<Rightarrow> recordForOrdinal now ordinal (endpointFor ordinal) (nameFor ordinal));
          status = (if rr_status r = RoomInactive then RoomWaiting else rr_status r) in
      r\<lparr>rr_podName := nameFor ordinal, rr_endpoint := endpointFor ordinal, rr_status := status,
        rr_spec := Some (specForOrdinal now ordinal (rr_spec r)), rr_joinLocked := or_unlocked r,
        rr_statusChangedAt := changed_at now status r\<rparr>)"

definition reconcile ::
  "'s room_store \<Rightarrow> string \<Rightarrow> jsnum \<Rightarrow> (nat \<Rightarrow> string) \<Rightarrow> (nat \<Rightarrow> string) \<Rightarrow> ('s, room_record list) fleet" where
  "reconcile st now replicas endpointFor nameFor =
     thenE (guardE (is_integer replicas \<and> js_le (js_int 0) replicas) ''invalid_replicas'')
     (bindE (getsE (st_list st)) (\<lambda>existing.
      let n = nat (int_of_jsnum replicas) in
      thenE (forE [0..<n] (\<lambda>ordinal. modifyE (st_put st (reconciled_record now endpointFor nameFor existing ordinal))))
     (thenE (forE (filter (\<lambda>r. n \<le> rr_ordinal r) existing) (\<lambda>r.
               modifyE (st_put st (deactivated (if rr_status r = RoomInactive then rr_statusChangedAt r else Some now) r))))
      (getsE (st_list st)))))"

definition workload_valid :: "room_workload \<Rightarrow> bool" where
  "workload_valid w =
     (room_ordinal (rw_roomId w) \<noteq> None \<and> rw_roomId w = room_id_of (rw_ordinal w) \<and> is_integer (rw_replicas w)
      \<and> (rw_replicas w = js_int 0 \<or> rw_replicas w = js_int 1) \<and> rw_deploymentName w \<noteq> [] \<and> rw_serviceName w \<noteq> [] \<and> rw_endpoint w \<noteq> [])"

definition workload_record :: "string \<Rightarrow> room_record option \<Rightarrow> room_workload \<Rightarrow> room_record" where
  "workload_record now known w =
     (let r = (case known of Some r \<Rightarrow> r | None \<Rightarrow> recordForOrdinal now (rw_ordinal w) (rw_endpoint w) (rw_deploymentName w));
          status = (if rw_replicas w = js_int 1 then (if rr_status r = RoomInactive then RoomWaiting else rr_status r)
                    else RoomInactive) in
      r\<lparr>rr_ordinal := rw_ordinal w, rr_podName := rw_deploymentName w, rr_endpoint := rw_endpoint w, rr_status := status,
        rr_players := (if status = RoomInactive then js_int 0 else rr_players r),
        rr_alive := (if status = RoomInactive then js_int 0 else rr_alive r),
        rr_spec := Some (specForOrdinal now (rw_ordinal w) (rr_spec r)), rr_joinLocked := or_unlocked r,
        rr_statusChangedAt := changed_at now status r\<rparr>)"

text \<open>\<open>existingById\<close>: the last record of an id wins.\<close>

definition known_room :: "room_record list \<Rightarrow> string \<Rightarrow> room_record option" where
  "known_room existing roomId = find (\<lambda>r. rr_roomId r = roomId) (rev existing)"

fun reconcile_each :: "'s room_store \<Rightarrow> string \<Rightarrow> room_record list \<Rightarrow> string list \<Rightarrow> room_workload list \<Rightarrow> ('s, string list) fleet" where
  "reconcile_each st now existing discovered [] = ret discovered"
| "reconcile_each st now existing discovered (w # ws) =
     thenE (guardE (workload_valid w) ''invalid_room_workload'')
     (thenE (guardE (rw_roomId w \<notin> set discovered) ''duplicate_room_workload'')
     (thenE (modifyE (st_put st (workload_record now (known_room existing (rw_roomId w)) w)))
      (reconcile_each st now existing (rw_roomId w # discovered) ws)))"

definition reconcileWorkloads :: "'s room_store \<Rightarrow> string \<Rightarrow> room_workload list \<Rightarrow> ('s, room_record list) fleet" where
  "reconcileWorkloads st now ws =
     bindE (getsE (st_list st)) (\<lambda>existing.
     bindE (reconcile_each st now existing [] ws) (\<lambda>discovered.
     thenE (forE (filter (\<lambda>r. rr_roomId r \<notin> set discovered) existing) (\<lambda>r.
              if rr_status r = RoomInactive then ret () else modifyE (st_put st (deactivated (Some now) r))))
      (getsE (st_list st))))"

definition activeRooms :: "room_record list \<Rightarrow> room_record list" where
  "activeRooms rooms = filter (\<lambda>r. rr_status r \<noteq> RoomInactive) rooms"

lemma workload_record_id:
  assumes "workload_valid w" and "known \<noteq> None \<Longrightarrow> rr_roomId (the known) = rw_roomId w"
  shows "rr_roomId (workload_record now known w) = rw_roomId w"
  using assms by (cases known) (simp_all add: workload_record_def recordForOrdinal_def workload_valid_def Let_def)

lemma apart: "distinct (map f (x # xs)) \<Longrightarrow> y \<in> set xs \<Longrightarrow> f y \<noteq> f x"
  by (simp, metis image_eqI)

text \<open>A spec and a record made from a workload are made from it again.\<close>

lemma specForOrdinal_again [simp]: "specForOrdinal later n (Some (specForOrdinal now n current)) = specForOrdinal now n current"
  by (auto simp: specForOrdinal_def Let_def split: option.splits)

lemma workload_record_again: "workload_record later (Some (workload_record now known w)) w = workload_record now known w"
  by (auto simp: workload_record_def Let_def changed_at_def or_else_def or_unlocked_def)

section \<open>What the reconciler relies on\<close>

locale room_registry =
  fixes st :: "'s room_store" and ok :: "'s \<Rightarrow> bool"
  assumes ok_put: "ok s \<Longrightarrow> ok (st_put st r s)"
    and get_put: "ok s \<Longrightarrow> st_get st k (st_put st r s) = (if k = rr_roomId r then Some r else st_get st k s)"
    and put_same: "ok s \<Longrightarrow> st_get st (rr_roomId r) s = Some r \<Longrightarrow> st_put st r s = s"
    and get_key: "ok s \<Longrightarrow> st_get st k s = Some r \<Longrightarrow> rr_roomId r = k"
    and listed: "ok s \<Longrightarrow> set (st_list st s) = {r. st_get st (rr_roomId r) s = Some r}"
    and listed_once: "ok s \<Longrightarrow> distinct (map rr_roomId (st_list st s))"
    and in_order: "ok s \<Longrightarrow> sorted (map rr_ordinal (st_list st s))"
begin

lemma known_room_get: "ok s \<Longrightarrow> known_room (st_list st s) k = st_get st k s"
proof -
  assume ok: "ok s"
  show ?thesis
  proof (cases "known_room (st_list st s) k")
    case None
    then have "\<forall>r \<in> set (st_list st s). rr_roomId r \<noteq> k" by (auto simp: known_room_def find_None_iff)
    then have "st_get st k s \<noteq> Some r" for r using listed [OF ok] get_key [OF ok, of k r] by auto
    then show ?thesis using None by (cases "st_get st k s") auto
  next
    case (Some r)
    then have "r \<in> set (st_list st s)" "rr_roomId r = k" by (auto simp: known_room_def find_Some_iff) (metis in_set_conv_nth length_rev nth_mem set_rev)
    then show ?thesis using Some listed [OF ok] by auto
  qed
qed

text \<open>The workloads, each written once.\<close>

lemma each_runs:
  assumes "ok s" and "\<forall>w \<in> set ws. workload_valid w" and "distinct (map rw_roomId ws)" and "\<forall>w \<in> set ws. rw_roomId w \<notin> set found"
    and known: "\<And>w. w \<in> set ws \<Longrightarrow> known_room existing (rw_roomId w) = st_get st (rw_roomId w) s"
    and own: "\<And>w r. w \<in> set ws \<Longrightarrow> st_get st (rw_roomId w) s = Some r \<Longrightarrow> rr_roomId r = rw_roomId w"
  shows "\<exists>s'. reconcile_each st now existing found ws s = (Inr (rev (map rw_roomId ws) @ found), s') \<and> ok s'
    \<and> (\<forall>w \<in> set ws. st_get st (rw_roomId w) s' = Some (workload_record now (st_get st (rw_roomId w) s) w))
    \<and> (\<forall>k. k \<notin> rw_roomId ` set ws \<longrightarrow> st_get st k s' = st_get st k s)"
  using assms
proof (induction ws arbitrary: s found)
  case Nil
  then show ?case by (auto simp: ret_def)
next
  case (Cons w ws)
  let ?r = "workload_record now (st_get st (rw_roomId w) s) w"
  let ?s = "st_put st ?r s"
  have id: "rr_roomId ?r = rw_roomId w"
    using Cons.prems(2,6) by (intro workload_record_id) auto
  have rest: "st_get st (rw_roomId v) ?s = st_get st (rw_roomId v) s" if "v \<in> set ws" for v
  proof -
    have "rw_roomId v \<noteq> rw_roomId w" using apart [OF Cons.prems(3)] that by blast
    then show ?thesis by (simp add: get_put [OF Cons.prems(1)] id)
  qed
  have "\<exists>s'. reconcile_each st now existing (rw_roomId w # found) ws ?s = (Inr (rev (map rw_roomId ws) @ rw_roomId w # found), s') \<and> ok s'
    \<and> (\<forall>v \<in> set ws. st_get st (rw_roomId v) s' = Some (workload_record now (st_get st (rw_roomId v) ?s) v))
    \<and> (\<forall>k. k \<notin> rw_roomId ` set ws \<longrightarrow> st_get st k s' = st_get st k ?s)"
    by (rule Cons.IH) (use Cons.prems rest apart [OF Cons.prems(3)] in \<open>auto simp: ok_put\<close>)
  moreover have "reconcile_each st now existing found (w # ws) s = reconcile_each st now existing (rw_roomId w # found) ws ?s"
    using Cons.prems by (simp add: thenE_def bindE_def guardE_def ret_def modifyE_def)
  ultimately show ?case
    using Cons.prems(1,3) rest id by (auto simp: get_put)
qed

text \<open>The rooms without a workload are retired.\<close>

lemma retire_runs:
  assumes "ok s" and "distinct (map rr_roomId rs)" and "\<forall>r \<in> set rs. st_get st (rr_roomId r) s = Some r"
  shows "\<exists>s'. forE rs (\<lambda>r. if rr_status r = RoomInactive then ret () else modifyE (st_put st (deactivated (Some now) r))) s = (Inr () :: string + unit, s')
    \<and> ok s' \<and> (\<forall>r \<in> set rs. st_get st (rr_roomId r) s' = Some (if rr_status r = RoomInactive then r else deactivated (Some now) r))
    \<and> (\<forall>k. k \<notin> rr_roomId ` set rs \<longrightarrow> st_get st k s' = st_get st k s)"
  using assms
proof (induction rs arbitrary: s)
  case Nil
  then show ?case by (auto simp: ret_def)
next
  case (Cons r rs)
  let ?s = "if rr_status r = RoomInactive then s else st_put st (deactivated (Some now) r) s"
  have key: "rr_roomId (deactivated (Some now) r) = rr_roomId r" by (simp add: deactivated_def)
  have rest: "st_get st k ?s = (if k = rr_roomId r then Some (if rr_status r = RoomInactive then r else deactivated (Some now) r) else st_get st k s)" for k
    using Cons.prems(3) by (simp add: get_put [OF Cons.prems(1)] key)
  have "\<exists>s'. forE rs (\<lambda>r. if rr_status r = RoomInactive then ret () else modifyE (st_put st (deactivated (Some now) r))) ?s = (Inr () :: string + unit, s')
    \<and> ok s' \<and> (\<forall>r \<in> set rs. st_get st (rr_roomId r) s' = Some (if rr_status r = RoomInactive then r else deactivated (Some now) r))
    \<and> (\<forall>k. k \<notin> rr_roomId ` set rs \<longrightarrow> st_get st k s' = st_get st k ?s)"
  proof (rule Cons.IH)
    show "ok ?s" using Cons.prems(1) ok_put by simp
    show "distinct (map rr_roomId rs)" using Cons.prems(2) by simp
    show "\<forall>x \<in> set rs. st_get st (rr_roomId x) ?s = Some x"
    proof
      fix x assume x: "x \<in> set rs"
      then have "rr_roomId x \<noteq> rr_roomId r" using apart [OF Cons.prems(2)] by blast
      then show "st_get st (rr_roomId x) ?s = Some x" using Cons.prems(3) x unfolding rest by simp
    qed
  qed
  then obtain s' where s': "forE rs (\<lambda>r. if rr_status r = RoomInactive then ret () else modifyE (st_put st (deactivated (Some now) r))) ?s = (Inr () :: string + unit, s')"
    "ok s'" "\<forall>r \<in> set rs. st_get st (rr_roomId r) s' = Some (if rr_status r = RoomInactive then r else deactivated (Some now) r)"
    "\<forall>k. k \<notin> rr_roomId ` set rs \<longrightarrow> st_get st k s' = st_get st k ?s" by blast
  have "forE (r # rs) (\<lambda>r. if rr_status r = RoomInactive then ret () else modifyE (st_put st (deactivated (Some now) r))) s = (Inr () :: string + unit, s')"
    using s'(1) by (cases "rr_status r = RoomInactive") (simp_all add: thenE_def bindE_def ret_def modifyE_def)
  moreover have "st_get st (rr_roomId r) s' = Some (if rr_status r = RoomInactive then r else deactivated (Some now) r)"
    using s'(4) Cons.prems(2) rest [of "rr_roomId r"] by simp
  moreover have "st_get st k s' = st_get st k s" if "k \<notin> rr_roomId ` set (r # rs)" for k
    using s'(4) rest [of k] that by simp
  ultimately show ?case using s'(2,3) by (intro exI [of _ s'] conjI) simp_all
qed

text \<open>The whole run: one record per workload, every other room retired, and a second run changes nothing.\<close>

definition follows :: "string \<Rightarrow> room_workload list \<Rightarrow> 's \<Rightarrow> 's \<Rightarrow> bool" where
  "follows now ws s s' =
     ((\<forall>w \<in> set ws. st_get st (rw_roomId w) s' = Some (workload_record now (st_get st (rw_roomId w) s) w))
      \<and> (\<forall>k. k \<notin> rw_roomId ` set ws \<longrightarrow> st_get st k s' =
           map_option (\<lambda>r. if rr_status r = RoomInactive then r else deactivated (Some now) r) (st_get st k s)))"

lemma reconcile_runs:
  assumes ok: "ok s" and valid: "\<forall>w \<in> set ws. workload_valid w" and once: "distinct (map rw_roomId ws)"
  shows "\<exists>s'. reconcileWorkloads st now ws s = (Inr (st_list st s'), s') \<and> ok s' \<and> follows now ws s s'"
proof -
  let ?rs = "filter (\<lambda>r. rr_roomId r \<notin> rw_roomId ` set ws) (st_list st s)"
  have known: "known_room (st_list st s) k = st_get st k s" for k by (rule known_room_get [OF ok])
  obtain s1 where s1: "reconcile_each st now (st_list st s) [] ws s = (Inr (rev (map rw_roomId ws)), s1)" "ok s1"
    "\<forall>w \<in> set ws. st_get st (rw_roomId w) s1 = Some (workload_record now (st_get st (rw_roomId w) s) w)"
    "\<forall>k. k \<notin> rw_roomId ` set ws \<longrightarrow> st_get st k s1 = st_get st k s"
    using each_runs [OF ok valid once, of "[]" "st_list st s" now] known get_key [OF ok] by auto
  have others: "r \<in> set ?rs \<longleftrightarrow> st_get st (rr_roomId r) s = Some r \<and> rr_roomId r \<notin> rw_roomId ` set ws" for r
    using listed [OF ok] by auto
  have distinct: "distinct (map rr_roomId ?rs)" using listed_once [OF ok] by (simp add: distinct_map_filter)
  have stored: "\<forall>r \<in> set ?rs. st_get st (rr_roomId r) s1 = Some r" using s1(4) others by simp
  obtain s2 where s2: "forE ?rs (\<lambda>r. if rr_status r = RoomInactive then ret () else modifyE (st_put st (deactivated (Some now) r))) s1 = (Inr () :: string + unit, s2)"
    "ok s2" "\<forall>r \<in> set ?rs. st_get st (rr_roomId r) s2 = Some (if rr_status r = RoomInactive then r else deactivated (Some now) r)"
    "\<forall>k. k \<notin> rr_roomId ` set ?rs \<longrightarrow> st_get st k s2 = st_get st k s1"
    using retire_runs [OF s1(2) distinct stored] by blast
  have run: "reconcileWorkloads st now ws s = (Inr (st_list st s2), s2)"
    using s1(1) s2(1) by (simp add: reconcileWorkloads_def bindE_def thenE_def getsE_def)
  have "st_get st k s2 = map_option (\<lambda>r. if rr_status r = RoomInactive then r else deactivated (Some now) r) (st_get st k s)"
    if k: "k \<notin> rw_roomId ` set ws" for k
  proof (cases "st_get st k s")
    case None
    have "k \<notin> rr_roomId ` set ?rs"
    proof
      assume "k \<in> rr_roomId ` set ?rs"
      then obtain r where "r \<in> set ?rs" "k = rr_roomId r" by blast
      then show False using others None by simp
    qed
    then have "st_get st k s2 = st_get st k s" using s2(4) s1(4) k by simp
    then show ?thesis using None by simp
  next
    case (Some r)
    then have r: "rr_roomId r = k" by (rule get_key [OF ok])
    then have "r \<in> set ?rs" using others Some k by simp
    then show ?thesis using s2(3) r Some by auto
  qed
  moreover have "st_get st (rw_roomId w) s2 = st_get st (rw_roomId w) s1" if "w \<in> set ws" for w
  proof -
    have "rw_roomId w \<notin> rr_roomId ` set ?rs" using imageI [OF that, of rw_roomId] by auto
    then show ?thesis using s2(4) by blast
  qed
  ultimately have "follows now ws s s2" using s1(3) by (simp add: follows_def)
  then show ?thesis using run s2(2) by blast
qed

text \<open>A write of what is stored is none, so a run whose records are stored already leaves the state.\<close>

lemma each_settled:
  assumes "ok s" and "\<forall>w \<in> set ws. workload_valid w" and "distinct (map rw_roomId ws)" and "\<forall>w \<in> set ws. rw_roomId w \<notin> set found"
    and "\<forall>w \<in> set ws. st_get st (rw_roomId w) s = Some (workload_record now (known_room existing (rw_roomId w)) w)"
  shows "reconcile_each st now existing found ws s = (Inr (rev (map rw_roomId ws) @ found), s)"
  using assms
proof (induction ws arbitrary: found)
  case Nil
  then show ?case by (simp add: ret_def)
next
  case (Cons w ws)
  let ?r = "workload_record now (known_room existing (rw_roomId w)) w"
  have stored: "st_get st (rw_roomId w) s = Some ?r" using Cons.prems(5) by simp
  then have "st_put st ?r s = s" using get_key [OF Cons.prems(1)] by (intro put_same [OF Cons.prems(1)]) auto
  moreover have "reconcile_each st now existing (rw_roomId w # found) ws s = (Inr (rev (map rw_roomId ws) @ rw_roomId w # found), s)"
    using Cons.prems apart [OF Cons.prems(3)] by (intro Cons.IH) auto
  ultimately show ?case
    using Cons.prems by (simp add: thenE_def bindE_def guardE_def ret_def modifyE_def)
qed

lemma retired_settled:
  "\<forall>r \<in> set rs. rr_status r = RoomInactive
    \<Longrightarrow> forE rs (\<lambda>r. if rr_status r = RoomInactive then ret () else modifyE (f r)) s = (Inr () :: string + unit, s)"
  by (induction rs) (simp_all add: ret_def thenE_def bindE_def)

lemma reconcile_again:
  assumes ok: "ok s'" and valid: "\<forall>w \<in> set ws. workload_valid w" and once: "distinct (map rw_roomId ws)" and run: "follows now ws s s'"
  shows "reconcileWorkloads st later ws s' = (Inr (st_list st s'), s')"
proof -
  have known: "known_room (st_list st s') k = st_get st k s'" for k by (rule known_room_get [OF ok])
  have each: "reconcile_each st later (st_list st s') [] ws s' = (Inr (rev (map rw_roomId ws)), s')"
  proof -
    have "reconcile_each st later (st_list st s') [] ws s' = (Inr (rev (map rw_roomId ws) @ []), s')"
      by (rule each_settled [OF ok valid once]) (use run known in \<open>auto simp: follows_def workload_record_again\<close>)
    then show ?thesis by simp
  qed
  have "\<forall>r \<in> set (filter (\<lambda>r. rr_roomId r \<notin> rw_roomId ` set ws) (st_list st s')). rr_status r = RoomInactive"
  proof
    fix r assume "r \<in> set (filter (\<lambda>r. rr_roomId r \<notin> rw_roomId ` set ws) (st_list st s'))"
    then have r: "st_get st (rr_roomId r) s' = Some r" "rr_roomId r \<notin> rw_roomId ` set ws" using listed [OF ok] by auto
    have "st_get st (rr_roomId r) s' = map_option (\<lambda>r. if rr_status r = RoomInactive then r else deactivated (Some now) r) (st_get st (rr_roomId r) s)"
      using run r(2) unfolding follows_def by blast
    then obtain x where "r = (if rr_status x = RoomInactive then x else deactivated (Some now) x)" using r(1) by (cases "st_get st (rr_roomId r) s") auto
    then show "rr_status r = RoomInactive" by (cases "rr_status x = RoomInactive") (simp_all add: deactivated_def)
  qed
  from retired_settled [OF this, of "\<lambda>r. st_put st (deactivated (Some later) r)" s'] each show ?thesis
    by (simp add: reconcileWorkloads_def bindE_def thenE_def getsE_def)
qed

end

section \<open>The in-memory registry keeps the laws\<close>

definition memory_ok :: "memory_rooms \<Rightarrow> bool" where
  "memory_ok m = (distinct (map fst m) \<and> (\<forall>(k, r) \<in> set m. rr_roomId r = k))"

lemma memory_ok_once: "memory_ok m \<Longrightarrow> map rr_roomId (map snd m) = map fst m"
  by (auto simp: memory_ok_def)

interpretation memory_rooms: room_registry memory_store memory_ok
proof
  fix m :: memory_rooms and r k
  assume ok: "memory_ok m"
  show "memory_ok (st_put memory_store r m)"
    using ok set_oput [of "rr_roomId r" r m] by (auto simp: memory_ok_def memory_store_def memory_put_def)
  show "st_get memory_store k (st_put memory_store r m) = (if k = rr_roomId r then Some r else st_get memory_store k m)"
    by (simp add: memory_store_def memory_put_def memory_get_def)
  show "st_put memory_store r m = m" if "st_get memory_store (rr_roomId r) m = Some r"
    using that by (simp add: memory_store_def memory_put_def memory_get_def oput_same)
  show "rr_roomId r = k" if "st_get memory_store k m = Some r"
    using ok map_of_SomeD [of m k r] that by (auto simp: memory_ok_def memory_store_def memory_get_def)
  show "set (st_list memory_store m) = {r. st_get memory_store (rr_roomId r) m = Some r}"
    using ok by (auto simp: memory_ok_def memory_store_def memory_get_def memory_list_def dest: map_of_SomeD) force
  show "distinct (map rr_roomId (st_list memory_store m))"
  proof -
    have "distinct (map rr_roomId (map snd m))" unfolding memory_ok_once [OF ok] using ok by (simp add: memory_ok_def)
    then have "distinct (map snd m)" "inj_on rr_roomId (set (map snd m))" unfolding distinct_map [of rr_roomId] by blast+
    then show ?thesis by (simp add: memory_store_def memory_list_def distinct_map [of rr_roomId])
  qed
  show "sorted (map rr_ordinal (st_list memory_store m))" by (simp add: memory_store_def memory_list_def)
qed

end
