(* ===== verification/RoomFleet.thy ===== *)
theory RoomFleet
  imports RoomRegistry
begin

text \<open>
  The fleet control of the room orchestrator: \<open>KubernetesRoomDeploymentScaler\<close>
  (\<open>services/room-orchestrator/src/scaler.ts\<close>) and the handlers of \<open>main.ts\<close> that create, start, stop, lock,
  rename and delete a room.  The two listings the scaler reads and the answers to its patches are parameters; what is
  modelled of a listing are the fields the code looks at.
\<close>

section \<open>Discovery\<close>

record kube_item =
  ki_name :: "string option"
  ki_labels :: "(string \<times> string) list option"
  ki_replicas :: "jsnum option"

record listing =
  li_status :: nat
  li_items :: "kube_item list option"

definition response_ok :: "nat \<Rightarrow> bool" where
  "response_ok status = (200 \<le> status \<and> status < 300)"

record scaler_options =
  so_deploymentPrefix :: string
  so_roomCount :: jsnum

definition is_label_char :: "char \<Rightarrow> bool" where
  "is_label_char c = (is_lower c \<or> is_digit c \<or> c = CHR ''-'')"

text \<open>\<open>/^[a-z0-9](?:[-a-z0-9]*[a-z0-9])?$/\<close>\<close>

definition is_prefix_label :: "string \<Rightarrow> bool" where
  "is_prefix_label p = (p \<noteq> [] \<and> list_all is_label_char p \<and> hd p \<noteq> CHR ''-'' \<and> last p \<noteq> CHR ''-'')"

definition new_scaler :: "scaler_options \<Rightarrow> string + unit" where
  "new_scaler c =
     (if \<not> is_prefix_label (so_deploymentPrefix c) then Inl ''invalid_game_deployment_prefix''
      else if \<not> is_integer (so_roomCount c) \<or> js_lt (so_roomCount c) (js_int 1) \<or> js_lt (js_int 100) (so_roomCount c)
      then Inl ''invalid_game_deployment_count'' else Inr ())"

definition parseRoomId :: "scaler_options \<Rightarrow> (string \<times> string) list option \<Rightarrow> (string \<times> nat) option" where
  "parseRoomId c labels =
     (case (case labels of None \<Rightarrow> None | Some ls \<Rightarrow> map_of ls ''game.opsia.dev/room-id'') of
        None \<Rightarrow> None
      | Some roomId \<Rightarrow>
          (case room_ordinal roomId of
             None \<Rightarrow> None
           | Some n \<Rightarrow> if js_le (so_roomCount c) (js_int (int n)) then None else Some (roomId, n)))"

definition trimmed :: "string option \<Rightarrow> string" where
  "trimmed name = (case name of None \<Rightarrow> [] | Some n \<Rightarrow> js_trim n)"

fun services_by_room :: "scaler_options \<Rightarrow> (string \<times> string) list \<Rightarrow> kube_item list \<Rightarrow> string + (string \<times> string) list" where
  "services_by_room c found [] = Inr found"
| "services_by_room c found (x # xs) =
     (case parseRoomId c (ki_labels x) of
        None \<Rightarrow> services_by_room c found xs
      | Some (roomId, n) \<Rightarrow>
          if trimmed (ki_name x) = [] then services_by_room c found xs
          else if map_of found roomId \<noteq> None then Inl ''room_service_duplicate''
          else services_by_room c (oput roomId (trimmed (ki_name x)) found) xs)"

definition item_replicas :: "kube_item \<Rightarrow> jsnum" where
  "item_replicas x = (case ki_replicas x of None \<Rightarrow> NaN | Some n \<Rightarrow> n)"

fun workloads_of ::
  "scaler_options \<Rightarrow> (string \<times> string) list \<Rightarrow> string list \<Rightarrow> kube_item list \<Rightarrow> string + room_workload list" where
  "workloads_of c services discovered [] = Inr []"
| "workloads_of c services discovered (x # xs) =
     (case parseRoomId c (ki_labels x) of
        None \<Rightarrow> workloads_of c services discovered xs
      | Some (roomId, n) \<Rightarrow>
          let replicas = item_replicas x in
          if trimmed (ki_name x) = [] \<or> \<not> is_integer replicas \<or> js_lt replicas (js_int 0) \<or> js_lt (js_int 1) replicas
          then Inl ''room_deployment_invalid_replicas''
          else if roomId \<in> set discovered then Inl ''room_deployment_duplicate''
          else (case map_of services roomId of
                  None \<Rightarrow> Inl ''room_service_not_found''
                | Some service \<Rightarrow>
                    (case workloads_of c services (roomId # discovered) xs of
                       Inl e \<Rightarrow> Inl e
                     | Inr ws \<Rightarrow> Inr (\<lparr>rw_roomId = roomId, rw_ordinal = n, rw_deploymentName = trimmed (ki_name x),
                         rw_serviceName = service, rw_endpoint = ''http://'' @ service @ '':8001'', rw_replicas = replicas\<rparr> # ws))))"

definition items_of :: "listing \<Rightarrow> kube_item list" where
  "items_of l = (case li_items l of None \<Rightarrow> [] | Some xs \<Rightarrow> xs)"

definition roomWorkloads :: "scaler_options \<Rightarrow> listing \<Rightarrow> listing \<Rightarrow> string + room_workload list" where
  "roomWorkloads c deployments services =
     (if \<not> response_ok (li_status deployments) then Inl (''room_deployments_read_failed:'' @ show_nat (li_status deployments))
      else if \<not> response_ok (li_status services) then Inl (''room_services_read_failed:'' @ show_nat (li_status services))
      else case services_by_room c [] (items_of services) of
        Inl e \<Rightarrow> Inl e
      | Inr found \<Rightarrow>
          (case workloads_of c found [] (items_of deployments) of
             Inl e \<Rightarrow> Inl e
           | Inr ws \<Rightarrow> Inr (sort_key rw_ordinal ws)))"

definition currentReplicas :: "room_workload list \<Rightarrow> nat" where
  "currentReplicas ws = length (filter (\<lambda>w. rw_replicas w = js_int 1) ws)"

section \<open>Scaling\<close>

text \<open>The patches that \<open>scale\<close> sends, all at once, and how it ends when their statuses are known.\<close>

definition desired_replicas :: "jsnum \<Rightarrow> room_workload \<Rightarrow> nat" where
  "desired_replicas replicas w = (if js_lt (js_int (int (rw_ordinal w))) replicas then 1 else 0)"

definition scale_patches :: "scaler_options \<Rightarrow> jsnum \<Rightarrow> room_workload list \<Rightarrow> string + (string \<times> nat) list" where
  "scale_patches c replicas ws =
     (if \<not> is_integer replicas \<or> js_lt replicas (js_int 0) \<or> js_lt (so_roomCount c) replicas then Inl ''invalid_replicas''
      else Inr (map (\<lambda>w. (rw_deploymentName w, desired_replicas replicas w))
                    (filter (\<lambda>w. rw_replicas w \<noteq> js_int (int (desired_replicas replicas w))) ws)))"

definition patch_answer :: "string \<times> nat \<Rightarrow> nat \<Rightarrow> string + unit" where
  "patch_answer p status =
     (if response_ok status then Inr () else Inl (''room_deployment_scale_failed:'' @ fst p @ '':'' @ show_nat status))"

section \<open>Room specifications\<close>

definition GAME_MODES :: "string list" where
  "GAME_MODES = [''Faction 50v50'', ''Solo FFA'']"

definition GAME_MAPS :: "string list" where
  "GAME_MAPS = [''Faction Island'', ''Desert'', ''Snow'', ''Main Island'', ''Woods'']"

text \<open>The fields of a request body: \<open>undefined\<close> or a value; \<open>maxPlayers\<close> after \<open>Number\<close>.\<close>

record spec_request =
  sr_mode :: jv
  sr_map :: jv
  sr_region :: jv
  sr_maxPlayers :: "jsnum option"
  sr_name :: "string option"
  sr_description :: "string option"

definition one_of :: "string list \<Rightarrow> jv \<Rightarrow> bool" where
  "one_of xs v = (v \<in> set (map JStr xs))"

definition validateSpecFields :: "spec_request \<Rightarrow> string + unit" where
  "validateSpecFields b =
     (if sr_mode b \<noteq> JUndef \<and> \<not> one_of GAME_MODES (sr_mode b) then Inl ''unsupported_game_mode''
      else if sr_map b \<noteq> JUndef \<and> \<not> one_of GAME_MAPS (sr_map b) then Inl ''unsupported_game_map''
      else if sr_region b \<noteq> JUndef \<and> sr_region b \<noteq> JStr seoul then Inl ''unsupported_game_region''
      else (case sr_maxPlayers b of
              None \<Rightarrow> Inr ()
            | Some n \<Rightarrow> if n = js_int 80 \<or> n = js_int 100 then Inr () else Inl ''unsupported_max_players''))"

definition spec_text :: "string \<Rightarrow> string option \<Rightarrow> string \<Rightarrow> string + string" where
  "spec_text key given' fallback =
     (let value' = js_trim (case given' of None \<Rightarrow> fallback | Some v \<Rightarrow> v) in
      if value' = [] \<or> 160 < length value' then Inl (''invalid_'' @ key) else Inr value')"

definition parseSpec :: "string \<Rightarrow> spec_request \<Rightarrow> nat \<Rightarrow> room_spec option \<Rightarrow> string + room_spec" where
  "parseSpec now b ordinal current =
     (case validateSpecFields b of
        Inl e \<Rightarrow> Inl e
      | Inr _ \<Rightarrow>
          let canonical = specForOrdinal now ordinal current in
          if sr_mode b \<noteq> JUndef \<and> sr_mode b \<noteq> JStr (rs_mode canonical) then Inl ''unsupported_game_mode''
          else if sr_map b \<noteq> JUndef \<and> sr_map b \<noteq> JStr (rs_map canonical) then Inl ''unsupported_game_map''
          else if sr_maxPlayers b \<noteq> None \<and> sr_maxPlayers b \<noteq> Some (rs_maxPlayers canonical) then Inl ''unsupported_max_players''
          else (case spec_text ''name'' (sr_name b) (rs_name canonical) of
                  Inl e \<Rightarrow> Inl e
                | Inr n \<Rightarrow>
                    (case spec_text ''description'' (sr_description b) (rs_description canonical) of
                       Inl e \<Rightarrow> Inl e
                     | Inr d \<Rightarrow> Inr (canonical\<lparr>rs_name := n, rs_description := d\<rparr>))))"

section \<open>The handlers\<close>

text \<open>
  What the handlers ask of the cluster, the rooms and the Gateway.  Every call is recorded, and an answer may depend on
  all calls before it: the answers are the environment \<open>fleet_env\<close>.  \<open>serializeMutation\<close> runs one handler after
  the other, so a handler is one step.
\<close>

datatype fleet_call = AskWorkloads | AskScale jsnum | AskSave string | AskDeletePod string | AskGatewayRooms | AskRegister string string

record fleet_env =
  fe_managed :: bool
  fe_maxRooms :: nat
  fe_gateway :: bool
  fe_workloads :: "fleet_call list \<Rightarrow> string + room_workload list option"
  fe_scale :: "fleet_call list \<Rightarrow> string + unit"
  fe_save :: "fleet_call list \<Rightarrow> string + unit"
  fe_deletePod :: "fleet_call list \<Rightarrow> string + string"
  fe_gatewayRooms :: "fleet_call list \<Rightarrow> string + string list"
  fe_register :: "fleet_call list \<Rightarrow> string + unit"
  fe_endpointFor :: "nat \<Rightarrow> string"
  fe_nameFor :: "nat \<Rightarrow> string"

record 's fleet_state =
  fl_rooms :: 's
  fl_registered :: "string list"
  fl_calls :: "fleet_call list"

type_synonym ('s, 'a) control = "('s fleet_state, string, 'a) eff"

definition askE :: "(fleet_call list \<Rightarrow> string + 'a) \<Rightarrow> fleet_call \<Rightarrow> ('s, 'a) control" where
  "askE answer q = (\<lambda>s. (answer (fl_calls s @ [q]), s\<lparr>fl_calls := fl_calls s @ [q]\<rparr>))"

definition roomsE :: "('s, 'a) fleet \<Rightarrow> ('s, 'a) control" where
  "roomsE m = zoomE fl_rooms (\<lambda>r s. s\<lparr>fl_rooms := r\<rparr>) m"

definition gateway_registered :: "string \<Rightarrow> 's fleet_state \<Rightarrow> 's fleet_state" where
  "gateway_registered roomId s = s\<lparr>fl_registered := (if roomId \<in> set (fl_registered s) then fl_registered s else fl_registered s @ [roomId])\<rparr>"

fun register_each :: "fleet_env \<Rightarrow> string list \<Rightarrow> room_workload list \<Rightarrow> ('s, unit) control" where
  "register_each e known [] = ret ()"
| "register_each e known (w # ws) =
     (if rw_roomId w \<in> set known then thenE (modifyE (gateway_registered (rw_roomId w))) (register_each e known ws)
      else thenE (askE (fe_register e) (AskRegister (rw_roomId w) (rw_endpoint w)))
           (thenE (modifyE (gateway_registered (rw_roomId w))) (register_each e known ws)))"

definition reconcileObserved :: "fleet_env \<Rightarrow> 's room_store \<Rightarrow> string \<Rightarrow> ('s, room_record list option) control" where
  "reconcileObserved e st now =
     bindE (askE (fe_workloads e) AskWorkloads) (\<lambda>found. case found of
         None \<Rightarrow> ret None
       | Some ws \<Rightarrow>
           let active = filter (\<lambda>w. rw_replicas w = js_int 1) ws in
           bindE (getsE (\<lambda>s. filter (\<lambda>w. rw_roomId w \<notin> set (fl_registered s)) active)) (\<lambda>unregistered.
           thenE (if fe_gateway e \<and> unregistered \<noteq> []
                  then bindE (askE (fe_gatewayRooms e) AskGatewayRooms) (\<lambda>known. register_each e known unregistered)
                  else ret ())
          (thenE (modifyE (\<lambda>s. s\<lparr>fl_registered := filter (\<lambda>i. i \<in> rw_roomId ` set active) (fl_registered s)\<rparr>))
          (bindE (roomsE (reconcileWorkloads st now ws)) (\<lambda>rooms. ret (Some rooms))))))"

definition scaleAndReconcile :: "fleet_env \<Rightarrow> 's room_store \<Rightarrow> string \<Rightarrow> jsnum \<Rightarrow> ('s, room_record list) control" where
  "scaleAndReconcile e st now replicas =
     thenE (guardE (is_integer replicas \<and> js_le (js_int 0) replicas \<and> js_le replicas (js_int (int (fe_maxRooms e)))) ''invalid_replicas'')
     (thenE (askE (fe_scale e) (AskScale replicas))
     (bindE (reconcileObserved e st now) (\<lambda>observed. case observed of
         Some rooms \<Rightarrow> ret rooms
       | None \<Rightarrow> roomsE (reconcile st now replicas (fe_endpointFor e) (fe_nameFor e)))))"

definition scaleWithSnapshots :: "fleet_env \<Rightarrow> 's room_store \<Rightarrow> string \<Rightarrow> jsnum \<Rightarrow> ('s, room_record list) control" where
  "scaleWithSnapshots e st now replicas =
     bindE (getsE (\<lambda>s. activeRooms (st_list st (fl_rooms s)))) (\<lambda>active.
     thenE (if js_lt replicas (js_int (int (length active)))
            then forE (rev (sort_key rr_ordinal (rev (filter (\<lambda>r. js_le replicas (js_int (int (rr_ordinal r)))) active))))
                   (\<lambda>r. askE (fe_save e) (AskSave (rr_endpoint r)))
            else ret ())
      (scaleAndReconcile e st now replicas))"

definition createRoom :: "fleet_env \<Rightarrow> 's room_store \<Rightarrow> string \<Rightarrow> spec_request \<Rightarrow> ('s, room_record) control" where
  "createRoom e st now b =
     thenE (case validateSpecFields b of Inl m \<Rightarrow> throwE m | Inr _ \<Rightarrow> ret ())
     (bindE (getsE (\<lambda>s. length (activeRooms (st_list st (fl_rooms s))))) (\<lambda>n.
      thenE (guardE (n < fe_maxRooms e) ''room_capacity_reached'')
     (case parseSpec now b n None of
        Inl m \<Rightarrow> throwE m
      | Inr spec \<Rightarrow>
          bindE (scaleAndReconcile e st now (js_int (int n + 1))) (\<lambda>rooms.
            case find (\<lambda>r. rr_ordinal r = n) rooms of
              None \<Rightarrow> throwE ''room_reconcile_failed''
            | Some created \<Rightarrow>
                let next' = created\<lparr>rr_spec := Some spec\<rparr> in
                thenE (roomsE (modifyE (st_put st next'))) (ret next')))))"

text \<open>The handlers of one room read its record again when their turn comes.\<close>

definition currentE :: "'s room_store \<Rightarrow> string \<Rightarrow> ('s, room_record) control" where
  "currentE st roomId = bindE (getsE (\<lambda>s. st_get st roomId (fl_rooms s))) (\<lambda>r. case r of
     None \<Rightarrow> throwE ''room_not_found'' | Some current \<Rightarrow> ret current)"

definition updateRoom :: "'s room_store \<Rightarrow> string \<Rightarrow> string \<Rightarrow> spec_request \<Rightarrow> ('s, room_record) control" where
  "updateRoom st now roomId b =
     bindE (currentE st roomId) (\<lambda>current. case parseSpec now b (rr_ordinal current) (rr_spec current) of
         Inl m \<Rightarrow> throwE m
       | Inr spec \<Rightarrow> let next' = current\<lparr>rr_spec := Some spec\<rparr> in thenE (roomsE (modifyE (st_put st next'))) (ret next'))"

definition lockRoom :: "'s room_store \<Rightarrow> string \<Rightarrow> bool \<Rightarrow> ('s, room_record) control" where
  "lockRoom st roomId locked =
     bindE (currentE st roomId) (\<lambda>current.
       let next' = current\<lparr>rr_joinLocked := Some locked\<rparr> in thenE (roomsE (modifyE (st_put st next'))) (ret next'))"

definition startRoom :: "fleet_env \<Rightarrow> 's room_store \<Rightarrow> string \<Rightarrow> string \<Rightarrow> ('s, room_record option) control" where
  "startRoom e st now roomId =
     bindE (currentE st roomId) (\<lambda>current.
       if rr_status current \<noteq> RoomInactive then ret (Some current)
       else bindE (getsE (\<lambda>s. length (activeRooms (st_list st (fl_rooms s))))) (\<lambda>n.
         thenE (guardE (rr_ordinal current = n) ''room_start_requires_next_ordinal'')
        (thenE (scaleAndReconcile e st now (js_int (int n + 1)))
         (getsE (\<lambda>s. st_get st (rr_roomId current) (fl_rooms s))))))"

text \<open>\<open>active.at(-1)\<close>\<close>

definition highest_room :: "'s room_store \<Rightarrow> 's fleet_state \<Rightarrow> string option" where
  "highest_room st s = (case rev (activeRooms (st_list st (fl_rooms s))) of [] \<Rightarrow> None | r # _ \<Rightarrow> Some (rr_roomId r))"

definition saveAndScale :: "fleet_env \<Rightarrow> 's room_store \<Rightarrow> string \<Rightarrow> room_record \<Rightarrow> ('s, room_record list) control" where
  "saveAndScale e st now current =
     thenE (askE (fe_save e) (AskSave (rr_endpoint current))) (scaleAndReconcile e st now (js_int (int (rr_ordinal current))))"

definition stopRoom :: "fleet_env \<Rightarrow> 's room_store \<Rightarrow> string \<Rightarrow> string \<Rightarrow> ('s, room_record option) control" where
  "stopRoom e st now roomId =
     thenE (guardE (fe_managed e) ''room_scaling_requires_kubernetes'')
     (bindE (currentE st roomId) (\<lambda>current.
      bindE (getsE (highest_room st)) (\<lambda>highest.
      thenE (guardE (highest = Some (rr_roomId current)) ''room_stop_requires_highest_ordinal'')
     (thenE (saveAndScale e st now current)
      (getsE (\<lambda>s. st_get st (rr_roomId current) (fl_rooms s)))))))"

definition deleteRoom :: "fleet_env \<Rightarrow> 's room_store \<Rightarrow> string \<Rightarrow> string \<Rightarrow> ('s, unit) control" where
  "deleteRoom e st now roomId =
     thenE (guardE (fe_managed e) ''room_scaling_requires_kubernetes'')
     (bindE (currentE st roomId) (\<lambda>current.
      bindE (getsE (highest_room st)) (\<lambda>highest.
      thenE (guardE (rr_status current = RoomInactive \<or> highest = Some (rr_roomId current)) ''room_delete_requires_highest_ordinal'')
     (thenE (if rr_status current \<noteq> RoomInactive then thenE (saveAndScale e st now current) (ret ()) else ret ())
      (roomsE (modifyE (st_remove st (rr_roomId current))))))))"

definition failRoom :: "fleet_env \<Rightarrow> 's room_store \<Rightarrow> string \<Rightarrow> string \<Rightarrow> ('s, string) control" where
  "failRoom e st now roomId =
     bindE (getsE (\<lambda>s. st_get st roomId (fl_rooms s))) (\<lambda>r. case r of
         None \<Rightarrow> throwE ''room_not_running''
       | Some current \<Rightarrow>
           if rr_status current = RoomInactive then throwE ''room_not_running''
           else bindE (askE (fe_deletePod e) (AskDeletePod (rr_roomId current))) (\<lambda>pod.
                thenE (roomsE (modifyE (st_put st (current\<lparr>rr_status := RoomWaiting, rr_statusChangedAt := Some now\<rparr>))))
                (ret pod)))"

end
