(* ===== verification/RoomFleetFacts.thy ===== *)
theory RoomFleetFacts
  imports RoomFleet
begin

text \<open>
  The registry follows Kubernetes: what the scaler discovers the reconciler takes, and writes nothing the second
  time.  A room in service is stopped or deleted only after its last state was saved and its Pod scaled away.
\<close>

section \<open>Discovered workloads are valid\<close>

definition canonical :: "scaler_options \<Rightarrow> listing \<Rightarrow> bool" where
  "canonical c l = (\<forall>x \<in> set (items_of l). \<forall>i n. parseRoomId c (ki_labels x) = Some (i, n) \<longrightarrow> i = room_id_of n)"

lemma services_named:
  assumes "services_by_room c found xs = Inr out" and "\<forall>s \<in> ran (map_of found). s \<noteq> []"
  shows "\<forall>s \<in> ran (map_of out). s \<noteq> []"
  using assms
proof (induction xs arbitrary: found)
  case (Cons x xs)
  show ?case
  proof (cases "parseRoomId c (ki_labels x)")
    case None
    then show ?thesis using Cons by simp
  next
    case (Some p)
    obtain i n where p: "p = (i, n)" by (cases p)
    show ?thesis
    proof (cases "trimmed (ki_name x) = []")
      case True
      then show ?thesis using Cons Some p by simp
    next
      case False
      then have "services_by_room c (oput i (trimmed (ki_name x)) found) xs = Inr out" and "map_of found i = None"
        using Cons.prems(1) Some p by (simp_all split: if_splits)
      then show ?thesis using Cons.prems(2) False by (intro Cons.IH [of "oput i (trimmed (ki_name x)) found"]) (auto simp: ran_def split: if_splits)
    qed
  qed
qed simp

lemma parse_ordinal: "parseRoomId c labels = Some (i, n) \<Longrightarrow> room_ordinal i = Some n"
  by (auto simp: parseRoomId_def split: option.splits if_splits)

lemma one_replica: "is_integer n \<Longrightarrow> \<not> js_lt n (js_int 0) \<Longrightarrow> \<not> js_lt (js_int 1) n \<Longrightarrow> n = js_int 0 \<or> n = js_int 1"
  by (auto simp: is_integer_iff)

lemma workloads_valid:
  assumes "workloads_of c services discovered xs = Inr ws" and "\<forall>s \<in> ran (map_of services). s \<noteq> []"
    and "\<forall>x \<in> set xs. \<forall>i n. parseRoomId c (ki_labels x) = Some (i, n) \<longrightarrow> i = room_id_of n"
  shows "(\<forall>w \<in> set ws. workload_valid w \<and> rw_roomId w \<notin> set discovered) \<and> distinct (map rw_roomId ws)"
  using assms
proof (induction xs arbitrary: discovered ws)
  case (Cons x xs)
  show ?case
  proof (cases "parseRoomId c (ki_labels x)")
    case None
    then show ?thesis using Cons by simp
  next
    case (Some p)
    obtain i n where p: "p = (i, n)" by (cases p)
    obtain service vs where vs: "workloads_of c services (i # discovered) xs = Inr vs" "map_of services i = Some service"
      and w: "ws = \<lparr>rw_roomId = i, rw_ordinal = n, rw_deploymentName = trimmed (ki_name x), rw_serviceName = service,
        rw_endpoint = ''http://'' @ service @ '':8001'', rw_replicas = item_replicas x\<rparr> # vs"
      and checks: "trimmed (ki_name x) \<noteq> []" "is_integer (item_replicas x)" "\<not> js_lt (item_replicas x) (js_int 0)"
        "\<not> js_lt (js_int 1) (item_replicas x)" "i \<notin> set discovered"
      using Cons.prems(1) Some p by (auto simp: Let_def split: if_splits option.splits sum.splits)
    have "(\<forall>w \<in> set vs. workload_valid w \<and> rw_roomId w \<notin> set (i # discovered)) \<and> distinct (map rw_roomId vs)"
      using Cons.prems(2,3) by (intro Cons.IH [OF vs(1)]) auto
    moreover have "service \<noteq> []" using Cons.prems(2) vs(2) by (auto simp: ran_def)
    moreover have "i = room_id_of n" using Cons.prems(3) Some p by simp
    ultimately show ?thesis
      using checks one_replica [OF checks(2-4)] by (auto simp: w workload_valid_def)
  qed
qed simp

lemma discovered_valid:
  assumes "roomWorkloads c deployments services = Inr ws" and "canonical c deployments"
  shows "\<forall>w \<in> set ws. workload_valid w" and "distinct (map rw_roomId ws)"
proof -
  obtain found vs where found: "services_by_room c [] (items_of services) = Inr found"
    and vs: "workloads_of c found [] (items_of deployments) = Inr vs" and ws: "ws = sort_key rw_ordinal vs"
    using assms(1) by (auto simp: roomWorkloads_def split: if_splits sum.splits)
  have named: "\<forall>s \<in> ran (map_of found). s \<noteq> []" by (rule services_named [OF found]) simp
  note valid = workloads_valid [OF vs named] assms(2)
  then show "\<forall>w \<in> set ws. workload_valid w" by (simp add: ws canonical_def)
  have "distinct (map rw_roomId vs)" using valid by (simp add: canonical_def)
  then show "distinct (map rw_roomId ws)" by (simp add: ws distinct_map)
qed

text \<open>C32: The registry follows the workloads found in Kubernetes.  Whatever the scaler discovers, under canonical room
  labels, the reconciler accepts: a room with a workload is in service exactly when its Deployment has a replica, under
  the name and the endpoint found, a room without one is out of service, no room is forgotten, and reconciling again,
  at whatever time, changes nothing.\<close>

theorem registry_follows_kubernetes:
  assumes "roomWorkloads c deployments services = Inr ws" and "canonical c deployments" and "memory_ok s"
  shows "\<exists>s'. reconcileWorkloads memory_store now ws s = (Inr (memory_list s'), s') \<and> memory_ok s'
    \<and> (\<forall>w \<in> set ws. \<exists>r. memory_get (rw_roomId w) s' = Some r \<and> rr_podName r = rw_deploymentName w
         \<and> rr_endpoint r = rw_endpoint w \<and> rr_ordinal r = rw_ordinal w
         \<and> (rr_status r \<noteq> RoomInactive \<longleftrightarrow> rw_replicas w = js_int 1))
    \<and> (\<forall>k. k \<notin> rw_roomId ` set ws \<longrightarrow> (memory_get k s' = None \<longleftrightarrow> memory_get k s = None)
         \<and> (\<forall>r. memory_get k s' = Some r \<longrightarrow> rr_status r = RoomInactive))
    \<and> (\<forall>later. reconcileWorkloads memory_store later ws s' = (Inr (memory_list s'), s'))"
proof -
  note valid = discovered_valid [OF assms(1,2)]
  obtain s' where run: "reconcileWorkloads memory_store now ws s = (Inr (st_list memory_store s'), s')" "memory_ok s'"
    and f: "memory_rooms.follows now ws s s'"
    using memory_rooms.reconcile_runs [OF assms(3) valid] by blast
  have get: "st_get memory_store = memory_get" "st_list memory_store = memory_list" by (simp_all add: memory_store_def)
  have made: "rr_podName (workload_record now k w) = rw_deploymentName w \<and> rr_endpoint (workload_record now k w) = rw_endpoint w
      \<and> rr_ordinal (workload_record now k w) = rw_ordinal w
      \<and> (rr_status (workload_record now k w) \<noteq> RoomInactive \<longleftrightarrow> rw_replicas w = js_int 1)" for k w
    by (simp add: workload_record_def Let_def)
  have others: "memory_get k s' = map_option (\<lambda>r. if rr_status r = RoomInactive then r else deactivated (Some now) r) (memory_get k s)"
    if "k \<notin> rw_roomId ` set ws" for k
    using f that unfolding memory_rooms.follows_def get by blast
  have "\<forall>w \<in> set ws. memory_get (rw_roomId w) s' = Some (workload_record now (memory_get (rw_roomId w) s) w)"
    using f unfolding memory_rooms.follows_def get by blast
  with made have rooms: "\<forall>w \<in> set ws. \<exists>r. memory_get (rw_roomId w) s' = Some r \<and> rr_podName r = rw_deploymentName w
         \<and> rr_endpoint r = rw_endpoint w \<and> rr_ordinal r = rw_ordinal w
         \<and> (rr_status r \<noteq> RoomInactive \<longleftrightarrow> rw_replicas w = js_int 1)" by blast
  have retired: "(memory_get k s' = None \<longleftrightarrow> memory_get k s = None) \<and> (\<forall>r. memory_get k s' = Some r \<longrightarrow> rr_status r = RoomInactive)"
    if "k \<notin> rw_roomId ` set ws" for k
    using others [OF that] by (cases "memory_get k s") (auto simp: deactivated_def)
  have again: "reconcileWorkloads memory_store later ws s' = (Inr (memory_list s'), s')" for later
    using memory_rooms.reconcile_again [OF run(2) valid f, of later] by (simp add: get)
  show ?thesis using run rooms retired again by (auto simp: get)
qed

text \<open>A label with leading zeros is discovered under its number, and stops the reconciliation of the whole fleet.\<close>

definition padded_item :: "string \<Rightarrow> string \<Rightarrow> kube_item" where
  "padded_item roomId name = \<lparr>ki_name = Some name, ki_labels = Some [(''game.opsia.dev/room-id'', roomId)], ki_replicas = Some (js_int 1)\<rparr>"

definition padded_listing :: "string \<Rightarrow> listing" where
  "padded_listing name = \<lparr>li_status = 200, li_items = Some [padded_item ''room-01'' name]\<rparr>"

lemma padded_label_stops_reconcile:
  "\<exists>w. roomWorkloads \<lparr>so_deploymentPrefix = ''game'', so_roomCount = js_int 5\<rparr> (padded_listing ''game'') (padded_listing ''svc'') = Inr [w]
    \<and> fst (reconcileWorkloads memory_store ''now'' [w] []) = Inl ''invalid_room_workload''"
proof -
  let ?w = "\<lparr>rw_roomId = ''room-01'', rw_ordinal = 1, rw_deploymentName = ''game'', rw_serviceName = ''svc'',
    rw_endpoint = ''http://svc:8001'', rw_replicas = js_int 1\<rparr>"
  have "roomWorkloads \<lparr>so_deploymentPrefix = ''game'', so_roomCount = js_int 5\<rparr> (padded_listing ''game'') (padded_listing ''svc'') = Inr [?w]"
    by code_simp
  moreover have "fst (reconcileWorkloads memory_store ''now'' [?w] []) = Inl ''invalid_room_workload''"
    by code_simp
  ultimately show ?thesis by blast
qed

section \<open>A room is saved before it goes\<close>

text \<open>What runs on the registry alone neither asks nor forgets a room.\<close>

definition remembers :: "string \<Rightarrow> memory_rooms \<Rightarrow> bool" where
  "remembers k m = (memory_get k m \<noteq> None)"

lemma remembers_put: "keeps (remembers k) (modifyE (st_put memory_store r))"
  by (simp add: keeps_def modifyE_def remembers_def memory_get_def memory_store_def memory_put_def)

lemma remembers_each: "keeps (remembers k) (reconcile_each memory_store now existing found ws)"
  by (induction ws arbitrary: found) (auto intro!: keeps_intros remembers_put)

lemma remembers_workloads: "keeps (remembers k) (reconcileWorkloads memory_store now ws)"
  unfolding reconcileWorkloads_def by (intro keeps_intros remembers_put remembers_each)

lemma remembers_reconcile: "keeps (remembers k) (reconcile memory_store now n ef nf)"
  unfolding reconcile_def Let_def by (intro keeps_intros remembers_put)

text \<open>A handler's calls come after the calls so far.\<close>

definition grown :: "string \<Rightarrow> fleet_call list \<Rightarrow> memory_rooms fleet_state \<Rightarrow> bool" where
  "grown k calls s = (remembers k (fl_rooms s) \<and> (\<exists>more. fl_calls s = calls @ more))"

lemma grown_rooms: "keeps (remembers k) m \<Longrightarrow> keeps (grown k calls) (roomsE m)"
  by (auto simp: keeps_def grown_def roomsE_def zoomE_def split: prod.splits)

lemma grown_ask: "keeps (grown k calls) (askE a q)"
  by (auto simp: keeps_def grown_def askE_def)

lemma grown_registered: "keeps (grown k calls) (modifyE (gateway_registered i))"
  "keeps (grown k calls) (modifyE (\<lambda>s. s\<lparr>fl_registered := f s\<rparr>))"
  by (simp_all add: keeps_def grown_def modifyE_def gateway_registered_def)

lemma grown_register: "keeps (grown k calls) (register_each e known ws)"
  by (induction ws) (auto intro!: keeps_intros grown_ask grown_registered)

lemma grown_observed: "keeps (grown k calls) (reconcileObserved e memory_store now)"
  unfolding reconcileObserved_def
  by (rule keeps_bindE [OF grown_ask])
    (auto intro!: keeps_intros grown_ask grown_register grown_registered grown_rooms remembers_workloads simp: Let_def split: option.splits)

lemma guard_then: "thenE (guardE b e) m s = (if b then m s else (Inl e, s))"
  by (simp add: thenE_def bindE_def guardE_def ret_def throwE_def)

lemma ask_then: "thenE (askE a q) m s = (case a (fl_calls s @ [q]) of
    Inl x \<Rightarrow> (Inl x, s\<lparr>fl_calls := fl_calls s @ [q]\<rparr>) | Inr _ \<Rightarrow> m (s\<lparr>fl_calls := fl_calls s @ [q]\<rparr>))"
  by (simp add: thenE_def bindE_def askE_def split: sum.splits)

text \<open>Scaling asks for the scale first, and fails if that fails.\<close>

lemma scale_first:
  assumes "scaleAndReconcile e memory_store now (js_int n) s = (y, s')" and "remembers k (fl_rooms s)"
  shows "remembers k (fl_rooms s')"
    and "y = Inr rooms \<Longrightarrow> fe_scale e (fl_calls s @ [AskScale (js_int n)]) = Inr ()
      \<and> (\<exists>more. fl_calls s' = fl_calls s @ [AskScale (js_int n)] @ more)"
    and "fl_calls s' = fl_calls s \<or> (\<exists>more. fl_calls s' = fl_calls s @ [AskScale (js_int n)] @ more)"
proof -
  let ?rest = "bindE (reconcileObserved e memory_store now) (\<lambda>observed. case observed of
         Some rooms \<Rightarrow> ret rooms
       | None \<Rightarrow> roomsE (reconcile memory_store now (js_int n) (fe_endpointFor e) (fe_nameFor e)))"
  let ?t = "s\<lparr>fl_calls := fl_calls s @ [AskScale (js_int n)]\<rparr>"
  have "keeps (grown k (fl_calls ?t)) ?rest"
    by (rule keeps_bindE [OF grown_observed]) (auto intro!: keeps_intros grown_rooms remembers_reconcile split: option.splits)
  moreover have "grown k (fl_calls ?t) ?t" using assms(2) by (simp add: grown_def)
  ultimately have grown: "grown k (fl_calls ?t) (snd (?rest ?t))" by (rule keepsD)
  have run: "scaleAndReconcile e memory_store now (js_int n) s =
      (if 0 \<le> n \<and> js_le (js_int n) (js_int (int (fe_maxRooms e)))
       then (case fe_scale e (fl_calls s @ [AskScale (js_int n)]) of Inl m \<Rightarrow> (Inl m, ?t) | Inr _ \<Rightarrow> ?rest ?t)
       else (Inl ''invalid_replicas'', s))"
    by (simp add: scaleAndReconcile_def guard_then ask_then)
  show "remembers k (fl_rooms s')"
    using assms grown unfolding run by (auto simp: grown_def split: if_splits sum.splits)
  show "fe_scale e (fl_calls s @ [AskScale (js_int n)]) = Inr () \<and> (\<exists>more. fl_calls s' = fl_calls s @ [AskScale (js_int n)] @ more)"
    if "y = Inr rooms"
    using assms(1) grown that unfolding run by (auto simp: grown_def split: if_splits sum.splits)
  show "fl_calls s' = fl_calls s \<or> (\<exists>more. fl_calls s' = fl_calls s @ [AskScale (js_int n)] @ more)"
    using assms(1) grown unfolding run by (auto simp: grown_def split: if_splits sum.splits)
qed

text \<open>
  The calls of a handler that takes a room out of service: nothing, a save that was asked for, or a save that succeeded
  and then the scaling.  The second definition is the case in which both succeeded.
\<close>

definition scaled_only_if_saved :: "fleet_env \<Rightarrow> room_record \<Rightarrow> fleet_call list \<Rightarrow> fleet_call list \<Rightarrow> bool" where
  "scaled_only_if_saved e current calls calls' =
     (calls' = calls \<or> calls' = calls @ [AskSave (rr_endpoint current)]
      \<or> fe_save e (calls @ [AskSave (rr_endpoint current)]) = Inr ()
        \<and> (\<exists>more. calls' = calls @ [AskSave (rr_endpoint current), AskScale (js_int (int (rr_ordinal current)))] @ more))"

definition saved_and_scaled :: "fleet_env \<Rightarrow> room_record \<Rightarrow> fleet_call list \<Rightarrow> fleet_call list \<Rightarrow> bool" where
  "saved_and_scaled e current calls calls' =
     (fe_save e (calls @ [AskSave (rr_endpoint current)]) = Inr ()
      \<and> fe_scale e (calls @ [AskSave (rr_endpoint current), AskScale (js_int (int (rr_ordinal current)))]) = Inr ()
      \<and> (\<exists>more. calls' = calls @ [AskSave (rr_endpoint current), AskScale (js_int (int (rr_ordinal current)))] @ more))"

lemma no_calls [simp]: "scaled_only_if_saved e current calls calls"
  by (simp add: scaled_only_if_saved_def)

lemma saved_then_scaled:
  assumes "saveAndScale e memory_store now current s = (y, s')" and "remembers k (fl_rooms s)"
  shows "remembers k (fl_rooms s')" and "scaled_only_if_saved e current (fl_calls s) (fl_calls s')"
    and "y = Inr rooms \<Longrightarrow> saved_and_scaled e current (fl_calls s) (fl_calls s')"
proof -
  let ?t = "s\<lparr>fl_calls := fl_calls s @ [AskSave (rr_endpoint current)]\<rparr>"
  let ?n = "int (rr_ordinal current)"
  have here: "remembers k (fl_rooms ?t)" using assms(2) by simp
  obtain z h where scale: "scaleAndReconcile e memory_store now (js_int ?n) ?t = (z, h)"
    by (cases "scaleAndReconcile e memory_store now (js_int ?n) ?t")
  have run: "(y, s') = (case fe_save e (fl_calls s @ [AskSave (rr_endpoint current)]) of Inl m \<Rightarrow> (Inl m, ?t) | Inr _ \<Rightarrow> (z, h))"
    using assms(1) scale by (auto simp: saveAndScale_def ask_then split: sum.splits)
  note first = scale_first [OF scale here]
  show "remembers k (fl_rooms s')" using run first(1) assms(2) by (auto split: sum.splits)
  show "scaled_only_if_saved e current (fl_calls s) (fl_calls s')"
    using run first(3) by (auto simp: scaled_only_if_saved_def split: sum.splits)
  show "saved_and_scaled e current (fl_calls s) (fl_calls s')" if "y = Inr rooms"
    using run first(2) that by (auto simp: saved_and_scaled_def split: sum.splits)
qed

lemma deletion_run:
  assumes "st_get memory_store roomId (fl_rooms s) = Some current" and "rr_roomId current = roomId"
  shows "deleteRoom e memory_store now roomId s =
     (if \<not> fe_managed e then (Inl ''room_scaling_requires_kubernetes'', s)
      else if rr_status current = RoomInactive then (Inr (), s\<lparr>fl_rooms := st_remove memory_store roomId (fl_rooms s)\<rparr>)
      else if highest_room memory_store s \<noteq> Some roomId then (Inl ''room_delete_requires_highest_ordinal'', s)
      else case saveAndScale e memory_store now current s of
             (Inl m, h) \<Rightarrow> (Inl m, h) | (Inr _, h) \<Rightarrow> (Inr (), h\<lparr>fl_rooms := st_remove memory_store roomId (fl_rooms h)\<rparr>))"
  using assms
  by (auto simp: deleteRoom_def currentE_def thenE_def bindE_def guardE_def ret_def throwE_def getsE_def modifyE_def
      roomsE_def zoomE_def split: sum.splits prod.splits)

lemma stop_run:
  assumes "st_get memory_store roomId (fl_rooms s) = Some current" and "rr_roomId current = roomId"
  shows "stopRoom e memory_store now roomId s =
     (if \<not> fe_managed e then (Inl ''room_scaling_requires_kubernetes'', s)
      else if highest_room memory_store s \<noteq> Some roomId then (Inl ''room_stop_requires_highest_ordinal'', s)
      else case saveAndScale e memory_store now current s of
             (Inl m, h) \<Rightarrow> (Inl m, h) | (Inr _, h) \<Rightarrow> (Inr (st_get memory_store roomId (fl_rooms h)), h))"
  using assms
  by (auto simp: stopRoom_def currentE_def thenE_def bindE_def guardE_def ret_def throwE_def getsE_def split: sum.splits prod.splits)

text \<open>C31: A room in service goes only after its state was saved.  Stopping or deleting a room asks for the scaling only
  once the saving of that room has succeeded, also in a run that fails later.  A stop that succeeds, and a deletion of a
  room in service that succeeds, found it the highest room, saved it and scaled it away, in this order and before
  anything else was asked; a room that was already out of service is deleted without a call.  The registry forgets the
  room exactly when a deletion succeeds: a stop, and a deletion that fails, at whatever point and for whatever reason,
  keep it.\<close>

theorem room_is_saved_before_it_goes:
  assumes current: "memory_get roomId (fl_rooms s) = Some current" and ok: "memory_ok (fl_rooms s)"
  shows "(case deleteRoom e memory_store now roomId s of (y, s') \<Rightarrow>
        scaled_only_if_saved e current (fl_calls s) (fl_calls s')
        \<and> (memory_get roomId (fl_rooms s') = None \<longleftrightarrow> y = Inr ())
        \<and> (y = Inr () \<longrightarrow> (if rr_status current = RoomInactive then fl_calls s' = fl_calls s
             else highest_room memory_store s = Some roomId \<and> saved_and_scaled e current (fl_calls s) (fl_calls s'))))
    \<and> (case stopRoom e memory_store now roomId s of (z, s'') \<Rightarrow>
        scaled_only_if_saved e current (fl_calls s) (fl_calls s'')
        \<and> memory_get roomId (fl_rooms s'') \<noteq> None
        \<and> (\<forall>r. z = Inr r \<longrightarrow> r = memory_get roomId (fl_rooms s'') \<and> highest_room memory_store s = Some roomId
             \<and> saved_and_scaled e current (fl_calls s) (fl_calls s'')))"
proof -
  have id: "rr_roomId current = roomId"
    using memory_rooms.get_key [OF ok, of roomId current] current by (simp add: memory_store_def)
  have get: "st_get memory_store roomId (fl_rooms s) = Some current" using current by (simp add: memory_store_def)
  have gone: "memory_get roomId (st_remove memory_store roomId m) = None" for m
    by (simp add: memory_store_def memory_get_def memory_remove_def)
  have here: "remembers roomId (fl_rooms s)" using current by (simp add: remembers_def)
  obtain x h where scale: "saveAndScale e memory_store now current s = (x, h)" by (cases "saveAndScale e memory_store now current s")
  note saved = saved_then_scaled [OF scale here]
  have "case deleteRoom e memory_store now roomId s of (y, s') \<Rightarrow>
        scaled_only_if_saved e current (fl_calls s) (fl_calls s')
        \<and> (memory_get roomId (fl_rooms s') = None \<longleftrightarrow> y = Inr ())
        \<and> (y = Inr () \<longrightarrow> (if rr_status current = RoomInactive then fl_calls s' = fl_calls s
             else highest_room memory_store s = Some roomId \<and> saved_and_scaled e current (fl_calls s) (fl_calls s')))"
    using saved current gone unfolding deletion_run [OF get id] scale by (cases x) (simp_all add: remembers_def)
  moreover have "st_get memory_store roomId (fl_rooms h) = memory_get roomId (fl_rooms h)" by (simp add: memory_store_def)
  then have "case stopRoom e memory_store now roomId s of (z, s'') \<Rightarrow>
        scaled_only_if_saved e current (fl_calls s) (fl_calls s'')
        \<and> memory_get roomId (fl_rooms s'') \<noteq> None
        \<and> (\<forall>r. z = Inr r \<longrightarrow> r = memory_get roomId (fl_rooms s'') \<and> highest_room memory_store s = Some roomId
             \<and> saved_and_scaled e current (fl_calls s) (fl_calls s''))"
    using saved current unfolding stop_run [OF get id] scale by (cases x) (simp_all add: remembers_def)
  ultimately show ?thesis by blast
qed

section \<open>Examples\<close>

definition one_item :: "string \<Rightarrow> kube_item" where
  "one_item name = padded_item ''room-1'' name"

definition one_listing :: "string \<Rightarrow> listing" where
  "one_listing name = \<lparr>li_status = 200, li_items = Some [one_item name]\<rparr>"

definition five_rooms :: scaler_options where
  "five_rooms = \<lparr>so_deploymentPrefix = ''game'', so_roomCount = js_int 5\<rparr>"

definition one_workload :: room_workload where
  "one_workload = \<lparr>rw_roomId = ''room-1'', rw_ordinal = 1, rw_deploymentName = ''game-1'', rw_serviceName = ''svc-1'',
     rw_endpoint = ''http://svc-1:8001'', rw_replicas = js_int 1\<rparr>"

lemma one_discovered: "roomWorkloads five_rooms (one_listing ''game-1'') (one_listing ''svc-1'') = Inr [one_workload]"
  by code_simp

lemma one_parsed: "parseRoomId five_rooms (Some [(''game.opsia.dev/room-id'', ''room-1'')]) = Some (''room-1'', 1)" "room_id_of 1 = ''room-1''"
  by code_simp+

lemma one_canonical: "canonical five_rooms (one_listing name)"
  by (auto simp: canonical_def items_of_def one_listing_def one_item_def padded_item_def one_parsed [unfolded One_nat_def])

text \<open>The registry knows another room only, which has no workload any more.\<close>

definition stale_rooms :: memory_rooms where
  "stale_rooms = [(''room-0'', (recordForOrdinal ''t'' 0 ''http://svc-0:8001'' ''game-0'')\<lparr>rr_status := RoomRunning\<rparr>)]"

lemma stale_ok: "memory_ok stale_rooms"
proof -
  have "room_id_of 0 = ''room-0''" by code_simp
  then show ?thesis by (simp add: memory_ok_def stale_rooms_def recordForOrdinal_def)
qed

lemma registry_follows_kubernetes_witness:
  "\<exists>s' r. reconcileWorkloads memory_store ''now'' [one_workload] stale_rooms = (Inr (memory_list s'), s')
    \<and> memory_get ''room-1'' s' = Some r \<and> rr_status r \<noteq> RoomInactive \<and> rr_podName r = ''game-1''"
proof -
  from registry_follows_kubernetes [OF one_discovered one_canonical stale_ok, of "''now''"] obtain s' where
    "reconcileWorkloads memory_store ''now'' [one_workload] stale_rooms = (Inr (memory_list s'), s')"
    "\<forall>w \<in> set [one_workload]. \<exists>r. memory_get (rw_roomId w) s' = Some r \<and> rr_podName r = rw_deploymentName w
         \<and> rr_endpoint r = rw_endpoint w \<and> rr_ordinal r = rw_ordinal w \<and> (rr_status r \<noteq> RoomInactive \<longleftrightarrow> rw_replicas w = js_int 1)"
    by blast
  then show ?thesis by (auto simp: one_workload_def)
qed

text \<open>An environment in which every request succeeds and no workload is left.\<close>

definition kind_env :: fleet_env where
  "kind_env = \<lparr>fe_managed = True, fe_maxRooms = 5, fe_gateway = False, fe_workloads = (\<lambda>_. Inr (Some [])), fe_scale = (\<lambda>_. Inr ()),
     fe_save = (\<lambda>_. Inr ()), fe_deletePod = (\<lambda>_. Inr ''p''), fe_gatewayRooms = (\<lambda>_. Inr []), fe_register = (\<lambda>_. Inr ()),
     fe_endpointFor = room_id_of, fe_nameFor = room_id_of\<rparr>"

definition stale_fleet :: "memory_rooms fleet_state" where
  "stale_fleet = \<lparr>fl_rooms = stale_rooms, fl_registered = [], fl_calls = []\<rparr>"

lemma stale_deleted: "fst (deleteRoom kind_env memory_store ''now'' ''room-0'' stale_fleet) = Inr ()"
  by code_simp

lemma stale_stopped: "\<exists>r. fst (stopRoom kind_env memory_store ''now'' ''room-0'' stale_fleet) = Inr (Some r)"
proof -
  have "(case fst (stopRoom kind_env memory_store ''now'' ''room-0'' stale_fleet) of Inr (Some _) \<Rightarrow> True | _ \<Rightarrow> False)" by code_simp
  then show ?thesis by (auto split: sum.splits option.splits)
qed

lemma room_is_saved_before_it_goes_witness:
  "(\<exists>s' more. deleteRoom kind_env memory_store ''now'' ''room-0'' stale_fleet = (Inr (), s') \<and> memory_get ''room-0'' (fl_rooms s') = None
      \<and> fl_calls s' = [AskSave ''http://svc-0:8001'', AskScale (js_int 0)] @ more)
   \<and> (\<exists>r s' more. stopRoom kind_env memory_store ''now'' ''room-0'' stale_fleet = (Inr (Some r), s') \<and> memory_get ''room-0'' (fl_rooms s') = Some r
      \<and> fl_calls s' = [AskSave ''http://svc-0:8001'', AskScale (js_int 0)] @ more)"
proof -
  obtain s' where deleted: "deleteRoom kind_env memory_store ''now'' ''room-0'' stale_fleet = (Inr (), s')"
    using stale_deleted by (metis prod.collapse)
  obtain r s'' where stopped: "stopRoom kind_env memory_store ''now'' ''room-0'' stale_fleet = (Inr (Some r), s'')"
    using stale_stopped by (metis prod.collapse)
  let ?r = "(recordForOrdinal ''t'' 0 ''http://svc-0:8001'' ''game-0'')\<lparr>rr_status := RoomRunning\<rparr>"
  have current: "memory_get ''room-0'' (fl_rooms stale_fleet) = Some ?r"
    by (simp add: memory_get_def stale_fleet_def stale_rooms_def)
  have ok: "memory_ok (fl_rooms stale_fleet)" using stale_ok by (simp add: stale_fleet_def)
  have "rr_status ?r \<noteq> RoomInactive" "rr_endpoint ?r = ''http://svc-0:8001''" "rr_ordinal ?r = 0" "fl_calls stale_fleet = []"
    by (simp_all add: recordForOrdinal_def stale_fleet_def)
  with room_is_saved_before_it_goes [OF current ok, of kind_env "''now''"] deleted stopped show ?thesis
    by (auto simp: saved_and_scaled_def)
qed

end
