(* ===== verification/Matchmaker.thy ===== *)
theory Matchmaker
  imports RoomRegistry
begin

text \<open>
  Admission to the fleet (\<open>services/api-server/src/matchmaker.ts\<close>): the room directory with its cache and its one
  refresh at a time, and \<open>Matchmaker.findGame\<close> in the two halves its await on the directory divides it into.  The
  attempts are objects that are shared with the waiting request, so each has an identity.  Of the metrics the request
  counters, the requests in flight and the failure ratio are modelled; the durations and the text of the log are not.
\<close>

section \<open>The room directory\<close>

text \<open>What a room's \<open>/summary\<close> answers.  The numbers are as \<open>Number\<close> makes them.\<close>

datatype summary_answer = NoSummary | Summary "string option" "jsnum option" "jsnum option" jv

definition number_or_zero :: "jsnum option \<Rightarrow> jsnum" where
  "number_or_zero n = (case n of None \<Rightarrow> js_int 0 | Some n \<Rightarrow> n)"

definition probed_room :: "room_record \<Rightarrow> summary_answer \<Rightarrow> room_record" where
  "probed_room room answer =
     (if rr_status room = RoomInactive \<or> rr_status room = RoomEnded then room
      else case answer of
        NoSummary \<Rightarrow> room\<lparr>rr_status := RoomInactive, rr_players := js_int 0, rr_alive := js_int 0\<rparr>
      | Summary status players alive locked \<Rightarrow>
          room\<lparr>rr_status := (if status = Some ''running'' then RoomRunning else RoomWaiting), rr_players := number_or_zero players,
               rr_alive := number_or_zero alive, rr_joinLocked := Some (rr_joinLocked room = Some True \<or> locked = JBool True)\<rparr>)"

definition fetchRecords :: "(nat \<times> room_record list) \<Rightarrow> (room_record \<Rightarrow> summary_answer) \<Rightarrow> string + room_record list" where
  "fetchRecords response summaries =
     (if \<not> (200 \<le> fst response \<and> fst response < 300) then Inl (''room_registry_unavailable:'' @ show_nat (fst response))
      else Inr (map (\<lambda>room. probed_room room (summaries room)) (snd response)))"

record directory =
  di_ttl :: int
  di_cached :: "(int \<times> room_record list) option"
  di_refreshing :: bool

definition new_directory :: "jsnum \<Rightarrow> string + directory" where
  "new_directory ttl =
     (if \<not> is_safe_integer ttl \<or> js_lt ttl (js_int 0) \<or> js_lt (js_int 5000) ttl then Inl ''room_directory_cache_ttl_invalid''
      else Inr \<lparr>di_ttl = int_of_jsnum ttl, di_cached = None, di_refreshing = False\<rparr>)"

text \<open>A listing is answered from the cache, by the refresh that is under way, or starts one.\<close>

datatype directory_answer = Cached "room_record list" | Joins | Fetches

definition list_begin :: "int \<Rightarrow> directory \<Rightarrow> directory_answer \<times> directory" where
  "list_begin now d =
     (case di_cached d of
        Some (expiresAt, records) \<Rightarrow>
          if now < expiresAt then (Cached records, d)
          else if di_refreshing d then (Joins, d) else (Fetches, d\<lparr>di_refreshing := True\<rparr>)
      | None \<Rightarrow> if di_refreshing d then (Joins, d) else (Fetches, d\<lparr>di_refreshing := True\<rparr>))"

definition list_fetched :: "int \<Rightarrow> string + room_record list \<Rightarrow> directory \<Rightarrow> directory" where
  "list_fetched now result d =
     (case result of
        Inl e \<Rightarrow> d\<lparr>di_refreshing := False\<rparr>
      | Inr records \<Rightarrow> d\<lparr>di_cached := Some (now + di_ttl d, records), di_refreshing := False\<rparr>)"

section \<open>The matchmaker\<close>

record attempt =
  at_id :: nat
  at_at :: int
  at_failed :: bool

record matchmaker =
  mm_maxPerSecond :: jsnum
  mm_attempts :: "attempt list"
  mm_admittedAt :: "int list"
  mm_requests :: "(string \<times> nat) list"
  mm_successes :: nat
  mm_failures :: nat
  mm_inflight :: int
  mm_failureRatio :: rat
  mm_nextAttempt :: nat

definition new_matchmaker :: "jsnum \<Rightarrow> matchmaker" where
  "new_matchmaker maxPerSecond = \<lparr>mm_maxPerSecond = maxPerSecond, mm_attempts = [], mm_admittedAt = [], mm_requests = [],
     mm_successes = 0, mm_failures = 0, mm_inflight = 0, mm_failureRatio = 0, mm_nextAttempt = 0\<rparr>"

definition trimAttempts :: "int \<Rightarrow> matchmaker \<Rightarrow> matchmaker" where
  "trimAttempts now m = m\<lparr>mm_attempts := filter (\<lambda>a. now - 1000 < at_at a) (mm_attempts m)\<rparr>"

definition failure_ratio :: "attempt list \<Rightarrow> rat" where
  "failure_ratio as = (if as = [] then 0 else of_nat (length (filter at_failed as)) / of_nat (length as))"

definition updateFailureRatio :: "matchmaker \<Rightarrow> matchmaker" where
  "updateFailureRatio m = m\<lparr>mm_failureRatio := failure_ratio (mm_attempts m)\<rparr>"

definition count_request :: "string \<Rightarrow> matchmaker \<Rightarrow> matchmaker" where
  "count_request outcome m =
     m\<lparr>mm_requests := oput outcome ((case map_of (mm_requests m) outcome of None \<Rightarrow> 0 | Some n \<Rightarrow> n) + 1) (mm_requests m)\<rparr>"

definition mark_failed :: "nat \<Rightarrow> attempt list \<Rightarrow> attempt list" where
  "mark_failed i as = map (\<lambda>a. if at_id a = i then a\<lparr>at_failed := True\<rparr> else a) as"

definition reject_attempt :: "string \<Rightarrow> nat \<Rightarrow> matchmaker \<Rightarrow> matchmaker" where
  "reject_attempt reason i m =
     (let marked = updateFailureRatio (m\<lparr>mm_attempts := mark_failed i (mm_attempts m)\<rparr>) in
      (count_request reason marked)\<lparr>mm_failures := mm_failures marked + 1\<rparr>)"

definition rejected_as :: "string \<Rightarrow> string" where
  "rejected_as reason = ''find_game_rejected:'' @ reason"

definition leave :: "matchmaker \<Rightarrow> matchmaker" where
  "leave m = m\<lparr>mm_inflight := mm_inflight m - 1\<rparr>"

text \<open>Up to the directory: capacity is reserved, or the request is turned away.\<close>

definition find_begin :: "int \<Rightarrow> matchmaker \<Rightarrow> (string + nat) \<times> matchmaker" where
  "find_begin now m =
     (let i = mm_nextAttempt m;
          m1 = updateFailureRatio (trimAttempts now (m\<lparr>mm_inflight := mm_inflight m + 1, mm_nextAttempt := i + 1,
                 mm_attempts := mm_attempts m @ [\<lparr>at_id = i, at_at = now, at_failed = False\<rparr>]\<rparr>));
          recent = filter (\<lambda>t. now - 1000 < t) (mm_admittedAt m1);
          m2 = m1\<lparr>mm_admittedAt := recent\<rparr> in
      if js_le (mm_maxPerSecond m2) (js_int (int (length recent)))
      then (Inl (rejected_as ''rate_limited''), leave (reject_attempt ''rate_limited'' i m2))
      else (Inr i, m2\<lparr>mm_admittedAt := recent @ [now]\<rparr>))"

definition room_limit :: "room_record \<Rightarrow> jsnum" where
  "room_limit room = (case rr_spec room of None \<Rightarrow> js_int 100 | Some spec \<Rightarrow> rs_maxPlayers spec)"

definition joinable :: "room_record \<Rightarrow> bool" where
  "joinable room = (rr_status room = RoomRunning \<and> rr_joinLocked room \<noteq> Some True \<and> js_lt (rr_players room) (room_limit room))"

text \<open>\<open>[...rooms].sort((a, b) => a.players - b.players || a.ordinal - b.ordinal)[0]\<close>: the first of the least.\<close>

definition emptier :: "room_record \<Rightarrow> room_record \<Rightarrow> bool" where
  "emptier a b = (js_lt (rr_players a) (rr_players b) \<or> \<not> js_lt (rr_players b) (rr_players a) \<and> rr_ordinal a < rr_ordinal b)"

fun emptiest :: "room_record list \<Rightarrow> room_record option" where
  "emptiest [] = None"
| "emptiest (r # rs) = (case emptiest rs of None \<Rightarrow> Some r | Some x \<Rightarrow> if emptier x r then Some x else Some r)"

definition choose_room :: "string option \<Rightarrow> room_record list \<Rightarrow> room_record option" where
  "choose_room requested rooms =
     (case requested of
        None \<Rightarrow> emptiest rooms
      | Some roomId \<Rightarrow> if roomId = [] then emptiest rooms else find (\<lambda>r. rr_roomId r = roomId) rooms)"

definition no_room_reason :: "string option \<Rightarrow> string" where
  "no_room_reason requested = (if requested = None \<or> requested = Some [] then ''no_room'' else ''room_unavailable'')"

text \<open>After the directory has answered or thrown.\<close>

definition find_resume :: "nat \<Rightarrow> string option \<Rightarrow> string + room_record list \<Rightarrow> matchmaker \<Rightarrow> (string + room_record) \<times> matchmaker" where
  "find_resume i requested listed m =
     (case listed of
        Inl e \<Rightarrow> (Inl (rejected_as ''directory_unavailable''), leave (reject_attempt ''directory_unavailable'' i m))
      | Inr rooms \<Rightarrow>
          (case choose_room requested (filter joinable rooms) of
             None \<Rightarrow> (Inl (rejected_as (no_room_reason requested)), leave (reject_attempt (no_room_reason requested) i m))
           | Some room \<Rightarrow> (Inr room, leave ((count_request ''accepted'' m)\<lparr>mm_successes := mm_successes m + 1\<rparr>))))"

definition refreshMetrics :: "int \<Rightarrow> matchmaker \<Rightarrow> matchmaker" where
  "refreshMetrics now m = updateFailureRatio (trimAttempts now m)"

section \<open>Who is admitted\<close>

lemma js_lt_trans: "js_lt a b \<Longrightarrow> js_lt b c \<Longrightarrow> js_lt a c"
  by (cases a; cases b; cases c) auto

lemma js_lt_total: "a \<noteq> NaN \<Longrightarrow> b \<noteq> NaN \<Longrightarrow> js_lt a b \<or> a = b \<or> js_lt b a"
  by (cases a; cases b) auto

lemma js_lt_irrefl [simp]: "\<not> js_lt a a"
  by (cases a) auto

lemma js_lt_NaN: "js_lt a b \<Longrightarrow> a \<noteq> NaN"
  by auto

lemma emptiest_None [simp]: "emptiest rs = None \<longleftrightarrow> rs = []"
  by (cases rs) (auto split: option.splits)

lemma emptier_split:
  assumes "emptier z r" and "rr_players z \<noteq> NaN" "rr_players y \<noteq> NaN" "rr_players r \<noteq> NaN"
  shows "emptier z y \<or> emptier y r"
  using assms js_lt_total [of "rr_players z" "rr_players y"] js_lt_total [of "rr_players y" "rr_players r"] js_lt_trans
  unfolding emptier_def by (metis js_lt_irrefl not_less_iff_gr_or_eq order.strict_trans)

lemma emptiest_least:
  assumes "emptiest rs = Some x" and "\<forall>r \<in> set rs. rr_players r \<noteq> NaN"
  shows "x \<in> set rs \<and> (\<forall>r \<in> set rs. \<not> emptier r x)"
  using assms
proof (induction rs arbitrary: x)
  case (Cons r rs)
  show ?case
  proof (cases "emptiest rs")
    case None
    then show ?thesis using Cons.prems by (auto simp: emptier_def)
  next
    case (Some y)
    have y: "y \<in> set rs" "\<forall>r \<in> set rs. \<not> emptier r y" using Cons.IH [OF Some] Cons.prems(2) by auto
    show ?thesis
    proof (cases "emptier y r")
      case True
      then have "x = y" using Cons.prems(1) Some by simp
      moreover have "\<not> emptier r y" using True js_lt_trans [of "rr_players r" "rr_players y" "rr_players r"] by (auto simp: emptier_def)
      ultimately show ?thesis using y by simp
    next
      case False
      then have "x = r" using Cons.prems(1) Some by simp
      moreover have "\<not> emptier z r" if "z \<in> set rs" for z
      proof
        assume z: "emptier z r"
        then have "emptier z y \<or> emptier y r" using Cons.prems(2) y(1) that by (intro emptier_split) auto
        then show False using y(2) that False by blast
      qed
      ultimately show ?thesis by (auto simp: emptier_def)
    qed
  qed
qed simp

text \<open>The two halves: what is turned away before the directory is asked, and after it.\<close>

lemma begin_answers:
  "case fst (find_begin now m) of
      Inl e \<Rightarrow> e = ''find_game_rejected:rate_limited''
        \<and> js_le (mm_maxPerSecond m) (js_int (int (length (filter (\<lambda>t. now - 1000 < t) (mm_admittedAt m)))))
    | Inr i \<Rightarrow> \<not> js_le (mm_maxPerSecond m) (js_int (int (length (filter (\<lambda>t. now - 1000 < t) (mm_admittedAt m)))))"
  by (simp add: find_begin_def Let_def updateFailureRatio_def trimAttempts_def rejected_as_def)

lemma resume_answers:
  "case fst (find_resume i requested listed m) of
      Inr room \<Rightarrow> \<exists>rooms. listed = Inr rooms \<and> room \<in> set rooms \<and> rr_status room = RoomRunning \<and> rr_joinLocked room \<noteq> Some True
        \<and> js_lt (rr_players room) (room_limit room)
        \<and> (if requested = None \<or> requested = Some [] then \<forall>r \<in> set rooms. joinable r \<longrightarrow> \<not> emptier r room
           else requested = Some (rr_roomId room))
    | Inl e \<Rightarrow> (case listed of
          Inl _ \<Rightarrow> e = ''find_game_rejected:directory_unavailable''
        | Inr rooms \<Rightarrow> if requested = None \<or> requested = Some []
            then e = ''find_game_rejected:no_room'' \<and> (\<forall>r \<in> set rooms. \<not> joinable r)
            else e = ''find_game_rejected:room_unavailable'' \<and> (\<forall>r \<in> set rooms. joinable r \<longrightarrow> requested \<noteq> Some (rr_roomId r)))"
proof (cases listed)
  case (Inl e)
  then show ?thesis by (simp add: find_resume_def rejected_as_def)
next
  case (Inr rooms)
  have numbers: "\<forall>r \<in> set (filter joinable rooms). rr_players r \<noteq> NaN" using js_lt_NaN by (auto simp: joinable_def)
  show ?thesis
  proof (cases "choose_room requested (filter joinable rooms)")
    case None
    then show ?thesis
      using Inr by (auto simp: find_resume_def rejected_as_def no_room_reason_def choose_room_def filter_empty_conv find_None_iff split: option.splits if_splits)
  next
    case (Some room)
    have "room \<in> set (filter joinable rooms) \<and> (if requested = None \<or> requested = Some []
        then \<forall>r \<in> set (filter joinable rooms). \<not> emptier r room else requested = Some (rr_roomId room))"
      using Some emptiest_least [OF _ numbers, of room]
      by (auto simp: choose_room_def find_Some_iff split: option.splits if_splits dest: nth_mem)
    then show ?thesis using Some Inr by (auto simp: find_resume_def joinable_def)
  qed
qed

text \<open>C33: Who is admitted has a place, and who is turned away has one of three reasons.  A request is turned away before
  the directory is asked exactly when the second before it holds as many reservations as the limit allows.  Past that, and
  whatever happened to the matchmaker until the directory answered, it is admitted to a listed room that is running, not
  locked and not full: the one asked for if one was, and otherwise one such that no joinable room has fewer players, or as
  few and a smaller ordinal.  It is turned away only because the directory could not be read, or because no listed room is
  joinable, respectively the room asked for is not; the answer names that reason.\<close>

theorem admitted_room_has_place:
  shows "case find_begin now m of
      (Inl e, _) \<Rightarrow> e = ''find_game_rejected:rate_limited''
        \<and> js_le (mm_maxPerSecond m) (js_int (int (length (filter (\<lambda>t. now - 1000 < t) (mm_admittedAt m)))))
    | (Inr i, _) \<Rightarrow> \<not> js_le (mm_maxPerSecond m) (js_int (int (length (filter (\<lambda>t. now - 1000 < t) (mm_admittedAt m)))))
        \<and> (case fst (find_resume i requested listed m') of
             Inr room \<Rightarrow> \<exists>rooms. listed = Inr rooms \<and> room \<in> set rooms \<and> rr_status room = RoomRunning \<and> rr_joinLocked room \<noteq> Some True
               \<and> js_lt (rr_players room) (room_limit room)
               \<and> (if requested = None \<or> requested = Some [] then \<forall>r \<in> set rooms. joinable r \<longrightarrow> \<not> emptier r room
                  else requested = Some (rr_roomId room))
           | Inl e \<Rightarrow> (case listed of
                 Inl _ \<Rightarrow> e = ''find_game_rejected:directory_unavailable''
               | Inr rooms \<Rightarrow> if requested = None \<or> requested = Some []
                   then e = ''find_game_rejected:no_room'' \<and> (\<forall>r \<in> set rooms. \<not> joinable r)
                   else e = ''find_game_rejected:room_unavailable'' \<and> (\<forall>r \<in> set rooms. joinable r \<longrightarrow> requested \<noteq> Some (rr_roomId r))))"
  using begin_answers [where now = now and m = m] resume_answers [where requested = requested and listed = listed and m = m']
  by (cases "find_begin now m"; cases "fst (find_begin now m)") simp_all

text \<open>Of two running rooms the emptier one is given, of a locked one none.\<close>

definition offered_room :: "nat \<Rightarrow> int \<Rightarrow> bool \<Rightarrow> room_record" where
  "offered_room i players locked =
     (recordForOrdinal ''now'' i ''http://room:8001'' ''room'')\<lparr>rr_status := RoomRunning, rr_players := js_int players, rr_joinLocked := Some locked\<rparr>"

lemma admitted_room_has_place_witness:
  "let rooms = [offered_room 0 9 False, offered_room 1 4 False, offered_room 2 0 True]; m = new_matchmaker (js_int 1) in
   fst (find_begin 5 m) = Inr 0 \<and> fst (find_resume 0 None (Inr rooms) m) = Inr (offered_room 1 4 False)
   \<and> (\<forall>r \<in> set rooms. joinable r \<longrightarrow> \<not> emptier r (offered_room 1 4 False))"
proof -
  let ?rooms = "[offered_room 0 9 False, offered_room 1 4 False, offered_room 2 0 True]"
  let ?m = "new_matchmaker (js_int 1)"
  have "fst (find_begin 5 ?m) = Inr 0" by code_simp
  moreover have "fst (find_resume 0 None (Inr ?rooms) ?m) = Inr (offered_room 1 4 False)" by code_simp
  ultimately show ?thesis using admitted_room_has_place [where now = 5 and m = ?m and requested = None and listed = "Inr ?rooms" and m' = ?m] by (simp add: Let_def split: prod.splits)
qed

section \<open>How many are admitted\<close>

text \<open>
  The matchmaker under concurrent requests: a clock that does not go back, the requests that wait for the directory,
  and every reservation there ever was.
\<close>

record admission_run =
  ar_clock :: int
  ar_mm :: matchmaker
  ar_waiting :: "nat list"
  ar_reserved :: "int list"

inductive admission_step :: "admission_run \<Rightarrow> admission_run \<Rightarrow> bool" where
  reserved: "ar_clock s \<le> now \<Longrightarrow> find_begin now (ar_mm s) = (Inr i, m)
    \<Longrightarrow> admission_step s (s\<lparr>ar_clock := now, ar_mm := m, ar_waiting := i # ar_waiting s, ar_reserved := ar_reserved s @ [now]\<rparr>)"
| turned_away: "ar_clock s \<le> now \<Longrightarrow> find_begin now (ar_mm s) = (Inl e, m)
    \<Longrightarrow> admission_step s (s\<lparr>ar_clock := now, ar_mm := m\<rparr>)"
| resumed: "i \<in> set (ar_waiting s) \<Longrightarrow> find_resume i requested listed (ar_mm s) = (x, m)
    \<Longrightarrow> admission_step s (s\<lparr>ar_mm := m, ar_waiting := remove1 i (ar_waiting s)\<rparr>)"
| refreshed: "ar_clock s \<le> now \<Longrightarrow> admission_step s (s\<lparr>ar_clock := now, ar_mm := refreshMetrics now (ar_mm s)\<rparr>)"

inductive admission_reach :: "jsnum \<Rightarrow> admission_run \<Rightarrow> bool" for limit where
  initial: "admission_reach limit \<lparr>ar_clock = t, ar_mm = new_matchmaker limit, ar_waiting = [], ar_reserved = []\<rparr>"
| later: "admission_reach limit s \<Longrightarrow> admission_step s s' \<Longrightarrow> admission_reach limit s'"

definition in_window :: "int \<Rightarrow> int list \<Rightarrow> int list" where
  "in_window t ts = filter (\<lambda>x. t - 1000 < x \<and> x \<le> t) ts"

text \<open>What the matchmaker still knows of its reservations is what the next window can hold.\<close>

definition admission_ok :: "jsnum \<Rightarrow> admission_run \<Rightarrow> bool" where
  "admission_ok limit s = (mm_maxPerSecond (ar_mm s) = limit \<and> (\<forall>x \<in> set (ar_reserved s). x \<le> ar_clock s)
     \<and> (\<forall>t \<ge> ar_clock s. filter (\<lambda>x. t - 1000 < x) (mm_admittedAt (ar_mm s)) = filter (\<lambda>x. t - 1000 < x) (ar_reserved s))
     \<and> (\<forall>t. in_window t (ar_reserved s) = [] \<or> \<not> js_le limit (js_int (int (length (in_window t (ar_reserved s))) - 1)))
     \<and> mm_inflight (ar_mm s) = int (length (ar_waiting s)) \<and> mm_failureRatio (ar_mm s) = failure_ratio (mm_attempts (ar_mm s)))"

lemma marked_simps [simp]:
  "mm_maxPerSecond (updateFailureRatio m) = mm_maxPerSecond m" "mm_admittedAt (updateFailureRatio m) = mm_admittedAt m"
  "mm_attempts (updateFailureRatio m) = mm_attempts m" "mm_inflight (updateFailureRatio m) = mm_inflight m"
  "mm_failureRatio (updateFailureRatio m) = failure_ratio (mm_attempts m)"
  "mm_maxPerSecond (count_request o' m) = mm_maxPerSecond m" "mm_admittedAt (count_request o' m) = mm_admittedAt m"
  "mm_attempts (count_request o' m) = mm_attempts m" "mm_inflight (count_request o' m) = mm_inflight m"
  "mm_failureRatio (count_request o' m) = mm_failureRatio m"
  "mm_maxPerSecond (leave m) = mm_maxPerSecond m" "mm_admittedAt (leave m) = mm_admittedAt m" "mm_attempts (leave m) = mm_attempts m"
  "mm_inflight (leave m) = mm_inflight m - 1" "mm_failureRatio (leave m) = mm_failureRatio m"
  "mm_maxPerSecond (trimAttempts now m) = mm_maxPerSecond m" "mm_admittedAt (trimAttempts now m) = mm_admittedAt m"
  "mm_inflight (trimAttempts now m) = mm_inflight m"
  by (simp_all add: updateFailureRatio_def count_request_def leave_def trimAttempts_def)

lemma reject_simps [simp]:
  "mm_maxPerSecond (reject_attempt reason i m) = mm_maxPerSecond m" "mm_admittedAt (reject_attempt reason i m) = mm_admittedAt m"
  "mm_inflight (reject_attempt reason i m) = mm_inflight m"
  "mm_failureRatio (reject_attempt reason i m) = failure_ratio (mm_attempts (reject_attempt reason i m))"
  by (simp_all add: reject_attempt_def Let_def)

lemma filter_later: "s \<le> t \<Longrightarrow> filter (\<lambda>x. t - 1000 < x) (filter (\<lambda>x. s - 1000 < (x :: int)) xs) = filter (\<lambda>x. t - 1000 < x) xs"
  by (induction xs) auto

lemma begin_cases:
  assumes "find_begin now m = (x, m')"
  shows "mm_maxPerSecond m' = mm_maxPerSecond m" and "mm_failureRatio m' = failure_ratio (mm_attempts m')"
    and "x = Inr i \<Longrightarrow> mm_inflight m' = mm_inflight m + 1 \<and> mm_admittedAt m' = filter (\<lambda>t. now - 1000 < t) (mm_admittedAt m) @ [now]
      \<and> \<not> js_le (mm_maxPerSecond m) (js_int (int (length (filter (\<lambda>t. now - 1000 < t) (mm_admittedAt m)))))"
    and "x = Inl e \<Longrightarrow> mm_inflight m' = mm_inflight m \<and> mm_admittedAt m' = filter (\<lambda>t. now - 1000 < t) (mm_admittedAt m)"
  using assms by (auto simp: find_begin_def Let_def split: if_splits)

lemma resume_cases:
  assumes "find_resume i requested listed m = (x, m')"
  shows "mm_maxPerSecond m' = mm_maxPerSecond m" and "mm_inflight m' = mm_inflight m - 1" and "mm_admittedAt m' = mm_admittedAt m"
    and "mm_failureRatio m = failure_ratio (mm_attempts m) \<Longrightarrow> mm_failureRatio m' = failure_ratio (mm_attempts m')"
  using assms by (auto simp: find_resume_def split: sum.splits option.splits)

lemma window_before: "\<forall>x \<in> set ts. x \<le> now \<Longrightarrow> in_window t (ts @ [now]) = (if t - 1000 < now \<and> now \<le> t then filter (\<lambda>x. t - 1000 < x) ts @ [now] else in_window t ts)"
  by (auto simp: in_window_def intro!: filter_cong)

lemma js_le_fewer:
  assumes "\<not> js_le limit (js_int n)" and "k \<le> n"
  shows "\<not> js_le limit (js_int k)"
proof (cases limit)
  case (Num q)
  moreover have "(of_int k :: rat) \<le> of_int n" using assms(2) by simp
  ultimately show ?thesis using assms(1) by (simp add: js_int_def)
qed (use assms in \<open>simp_all add: js_int_def\<close>)

lemma admission_kept:
  assumes "admission_step s s'" and ok: "admission_ok limit s"
  shows "admission_ok limit s'"
  using assms(1)
proof cases
  case (reserved now i m)
  note b = begin_cases [OF reserved(3)]
  let ?recent = "filter (\<lambda>t. now - 1000 < t) (mm_admittedAt (ar_mm s))"
  have known: "filter (\<lambda>x. t - 1000 < x) (mm_admittedAt (ar_mm s)) = filter (\<lambda>x. t - 1000 < x) (ar_reserved s)" if "ar_clock s \<le> t" for t
    using ok that by (simp add: admission_ok_def)
  have past: "\<forall>x \<in> set (ar_reserved s). x \<le> now" using ok reserved(2) by (fastforce simp: admission_ok_def)
  have room: "\<not> js_le limit (js_int (int (length (filter (\<lambda>x. now - 1000 < x) (ar_reserved s)))))"
    using b(3) ok known [OF reserved(2)] by (auto simp: admission_ok_def)
  have "in_window t (ar_reserved s @ [now]) = [] \<or> \<not> js_le limit (js_int (int (length (in_window t (ar_reserved s @ [now]))) - 1))" for t
  proof (cases "t - 1000 < now \<and> now \<le> t")
    case True
    have "length (filter (\<lambda>x. t - 1000 < x) xs) \<le> length (filter (\<lambda>x. now - 1000 < x) xs)" for xs
      by (induction xs) (use True in auto)
    then show ?thesis using True js_le_fewer [OF room] by (simp add: window_before [OF past])
  next
    case False
    have "in_window t (ar_reserved s @ [now]) = in_window t (ar_reserved s)"
      unfolding window_before [OF past] if_not_P [OF False] ..
    then show ?thesis using ok by (simp add: admission_ok_def)
  qed
  moreover have "filter (\<lambda>x. now - 1000 < x \<and> t - 1000 < x) (ar_reserved s) = filter (\<lambda>x. t - 1000 < x) (ar_reserved s)" if "now \<le> t" for t
    using that by (intro filter_cong) auto
  ultimately show ?thesis
    using reserved ok b past by (auto simp: admission_ok_def)
next
  case (turned_away now e m)
  note b = begin_cases [OF turned_away(3)]
  show ?thesis using turned_away ok b filter_later by (fastforce simp: admission_ok_def)
next
  case (resumed i requested listed x m)
  note b = resume_cases [OF resumed(3)]
  have "int (length (remove1 i (ar_waiting s))) = int (length (ar_waiting s)) - 1"
    using resumed(2) length_pos_if_in_set [OF resumed(2)] by (auto simp: length_remove1 of_nat_diff Suc_le_eq)
  then show ?thesis using resumed ok b by (auto simp: admission_ok_def)
next
  case (refreshed now)
  then show ?thesis using ok by (fastforce simp: admission_ok_def refreshMetrics_def)
qed

lemma admission_reach_ok: "admission_reach limit s \<Longrightarrow> admission_ok limit s"
proof (induction rule: admission_reach.induct)
  case (initial t)
  then show ?case by (simp add: admission_ok_def new_matchmaker_def in_window_def failure_ratio_def)
qed (rule admission_kept)

lemma failure_ratio_range: "0 \<le> failure_ratio as \<and> failure_ratio as \<le> 1"
proof -
  have "length (filter at_failed as) \<le> length as" by simp
  then show ?thesis by (auto simp: failure_ratio_def divide_le_eq_1)
qed

text \<open>A request is turned away exactly when the second before it is full of reservations.\<close>

lemma admitted_iff_open:
  assumes ok: "admission_ok (js_int limit) s" and now: "ar_clock s \<le> now"
  shows "(\<exists>i. fst (find_begin now (ar_mm s)) = Inr i) \<longleftrightarrow> int (length (in_window now (ar_reserved s))) < limit"
proof -
  have "filter (\<lambda>x. now - 1000 < x) (mm_admittedAt (ar_mm s)) = filter (\<lambda>x. now - 1000 < x) (ar_reserved s)"
    using ok now by (simp add: admission_ok_def)
  moreover have "filter (\<lambda>x. now - 1000 < x) (ar_reserved s) = in_window now (ar_reserved s)"
    using ok now by (fastforce simp: admission_ok_def in_window_def intro!: filter_cong)
  moreover have "mm_maxPerSecond (ar_mm s) = js_int limit" using ok by (simp add: admission_ok_def)
  ultimately show ?thesis
    using begin_answers [where now = now and m = "ar_mm s"] by (auto split: sum.splits)
qed

text \<open>C34: Admission is bounded, and only reservations count against it.  However requests, directory answers and refreshes
  interleave, no window of a second holds more reservations than the limit per second, and the next request passes the
  limit exactly when the second before it holds fewer: a request that was turned away for the rate has taken no capacity,
  while one that was turned away later, by the directory or for want of a room, keeps its reservation.  The gauge of
  requests in flight is the number of requests that wait for the directory, and the failure ratio is that of the recorded
  attempts and lies between 0 and 1.\<close>

theorem admission_is_bounded:
  assumes "admission_reach (js_int limit) s" and "0 \<le> limit"
  shows "int (length (in_window t (ar_reserved s))) \<le> limit
    \<and> (\<forall>now \<ge> ar_clock s. (\<exists>i. fst (find_begin now (ar_mm s)) = Inr i) \<longleftrightarrow> int (length (in_window now (ar_reserved s))) < limit)
    \<and> mm_inflight (ar_mm s) = int (length (ar_waiting s))
    \<and> mm_failureRatio (ar_mm s) = failure_ratio (mm_attempts (ar_mm s)) \<and> 0 \<le> mm_failureRatio (ar_mm s) \<and> mm_failureRatio (ar_mm s) \<le> 1"
proof -
  have ok: "admission_ok (js_int limit) s" by (rule admission_reach_ok [OF assms(1)])
  then have "in_window t (ar_reserved s) = [] \<or> int (length (in_window t (ar_reserved s))) - 1 < limit"
    by (auto simp: admission_ok_def)
  then show ?thesis using ok assms(2) failure_ratio_range admitted_iff_open [OF ok] by (auto simp: admission_ok_def)
qed

text \<open>With one admission per second, a second request is turned away until a second has passed, and the attempt does not
  prolong the wait.\<close>

lemma admission_is_bounded_witness:
  "\<exists>m e m' i. find_begin 5 (new_matchmaker (js_int 1)) = (Inr 0, m) \<and> find_begin 900 m = (Inl e, m') \<and> fst (find_begin 1005 m') = Inr i
    \<and> int (length (in_window 900 [5])) \<le> 1 \<and> mm_inflight m' = 1"
proof -
  let ?s = "\<lparr>ar_clock = 0, ar_mm = new_matchmaker (js_int 1), ar_waiting = [], ar_reserved = []\<rparr>"
  have "fst (find_begin 5 (new_matchmaker (js_int 1))) = Inr 0" by code_simp
  then obtain m where m: "find_begin 5 (new_matchmaker (js_int 1)) = (Inr 0, m)" by (metis prod.collapse)
  have "fst (find_begin 900 (snd (find_begin 5 (new_matchmaker (js_int 1))))) = Inl ''find_game_rejected:rate_limited''" by code_simp
  then obtain e m' where second: "find_begin 900 m = (Inl e, m')" using m by (metis prod.collapse snd_conv)
  have "admission_reach (js_int 1) ?s" by (rule admission_reach.initial)
  then have "admission_reach (js_int 1) (?s\<lparr>ar_clock := 5, ar_mm := m, ar_waiting := 0 # ar_waiting ?s, ar_reserved := ar_reserved ?s @ [5]\<rparr>)"
    by (rule admission_reach.later) (rule admission_step.reserved, simp_all add: m)
  then have two: "admission_reach (js_int 1) \<lparr>ar_clock = 900, ar_mm = m', ar_waiting = [0], ar_reserved = [5]\<rparr>"
    by (rule admission_reach.later)
      (use admission_step.turned_away [of "\<lparr>ar_clock = 5, ar_mm = m, ar_waiting = [0], ar_reserved = [5]\<rparr>" 900 e m'] second in simp)
  have "in_window 1005 [5] = []" by (simp add: in_window_def)
  with admission_is_bounded [OF two, of 900] m second show ?thesis by auto
qed

section \<open>How old a listing is\<close>

text \<open>
  The directory with every answer it has given: the time, the listing, and when that was fetched.  At most one fetch
  runs at a time.
\<close>

record directory_run =
  dr_clock :: int
  dr_dir :: directory
  dr_fetched :: "(int \<times> room_record list) list"
  dr_answers :: "(int \<times> room_record list) list"
  dr_fetches :: nat

inductive directory_step :: "directory_run \<Rightarrow> directory_run \<Rightarrow> bool" where
  answered: "dr_clock s \<le> now \<Longrightarrow> list_begin now (dr_dir s) = (Cached records, d)
    \<Longrightarrow> directory_step s (s\<lparr>dr_clock := now, dr_dir := d, dr_answers := (now, records) # dr_answers s\<rparr>)"
| joined: "dr_clock s \<le> now \<Longrightarrow> list_begin now (dr_dir s) = (Joins, d) \<Longrightarrow> directory_step s (s\<lparr>dr_clock := now, dr_dir := d\<rparr>)"
| started: "dr_clock s \<le> now \<Longrightarrow> list_begin now (dr_dir s) = (Fetches, d)
    \<Longrightarrow> directory_step s (s\<lparr>dr_clock := now, dr_dir := d, dr_fetches := dr_fetches s + 1\<rparr>)"
| succeeded: "dr_clock s \<le> now \<Longrightarrow> 0 < dr_fetches s
    \<Longrightarrow> directory_step s (s\<lparr>dr_clock := now, dr_dir := list_fetched now (Inr records) (dr_dir s), dr_fetches := dr_fetches s - 1,
          dr_fetched := (now, records) # dr_fetched s\<rparr>)"
| failed: "dr_clock s \<le> now \<Longrightarrow> 0 < dr_fetches s
    \<Longrightarrow> directory_step s (s\<lparr>dr_clock := now, dr_dir := list_fetched now (Inl e) (dr_dir s), dr_fetches := dr_fetches s - 1\<rparr>)"

inductive directory_reach :: "jsnum \<Rightarrow> directory_run \<Rightarrow> bool" for ttl where
  initial: "new_directory ttl = Inr d \<Longrightarrow> directory_reach ttl \<lparr>dr_clock = t, dr_dir = d, dr_fetched = [], dr_answers = [], dr_fetches = 0\<rparr>"
| later: "directory_reach ttl s \<Longrightarrow> directory_step s s' \<Longrightarrow> directory_reach ttl s'"

definition directory_ok :: "int \<Rightarrow> directory_run \<Rightarrow> bool" where
  "directory_ok ttl s = (di_ttl (dr_dir s) = ttl \<and> dr_fetches s = (if di_refreshing (dr_dir s) then 1 else 0)
     \<and> (\<forall>expiresAt records. di_cached (dr_dir s) = Some (expiresAt, records) \<longrightarrow> (expiresAt - ttl, records) \<in> set (dr_fetched s))
     \<and> (\<forall>(told, records) \<in> set (dr_answers s). \<exists>t. (t, records) \<in> set (dr_fetched s) \<and> told < t + ttl))"

lemma list_begin_keeps:
  assumes "list_begin now d = (x, d')"
  shows "di_ttl d' = di_ttl d" "di_cached d' = di_cached d"
    and "di_refreshing d' = (di_refreshing d \<or> x = Fetches)" and "x = Fetches \<Longrightarrow> \<not> di_refreshing d"
    and "x = Cached records \<Longrightarrow> \<exists>expiresAt. di_cached d = Some (expiresAt, records) \<and> now < expiresAt"
  using assms by (auto simp: list_begin_def split: option.splits prod.splits if_splits)

lemma directory_kept:
  assumes "directory_step s s'" and ok: "directory_ok ttl s"
  shows "directory_ok ttl s'"
  using assms(1)
proof cases
  case (answered now records d)
  note k = list_begin_keeps [OF answered(3)]
  obtain expiresAt where c: "di_cached (dr_dir s) = Some (expiresAt, records)" "now < expiresAt" using k(5) by blast
  then have "(expiresAt - ttl, records) \<in> set (dr_fetched s)" using ok by (simp add: directory_ok_def)
  then have "\<exists>t. (t, records) \<in> set (dr_fetched s) \<and> now < t + ttl" using c(2) by (intro exI [of _ "expiresAt - ttl"]) simp
  then show ?thesis using ok k(1-3) unfolding answered directory_ok_def by simp
next
  case (joined now d)
  then show ?thesis using ok list_begin_keeps [OF joined(3)] by (simp add: directory_ok_def)
next
  case (started now d)
  then show ?thesis using ok list_begin_keeps [OF started(3)] by (simp add: directory_ok_def)
next
  case (succeeded now records)
  have fetches: "dr_fetches s - 1 = 0" "di_ttl (dr_dir s) = ttl" using ok by (simp_all add: directory_ok_def)
  have "\<exists>t. (t, r) \<in> set ((now, records) # dr_fetched s) \<and> told < t + ttl" if "(told, r) \<in> set (dr_answers s)" for told r
    using ok that by (fastforce simp: directory_ok_def)
  then show ?thesis using fetches unfolding succeeded directory_ok_def list_fetched_def by auto
next
  case (failed now e)
  then show ?thesis using ok by (simp add: directory_ok_def list_fetched_def split: if_splits)
qed

lemma directory_reach_ok: "directory_reach (js_int ttl) s \<Longrightarrow> directory_ok ttl s"
proof (induction rule: directory_reach.induct)
  case (initial d t)
  then show ?case by (auto simp: directory_ok_def new_directory_def split: if_splits)
qed (rule directory_kept)

text \<open>A cached listing is fresh and fetched once.  Whenever the directory answers from its cache, it answers a listing
  that a fetch brought less than the time to live before, and no two fetches ever run at the same time.\<close>

lemma directory_answers_are_fresh:
  assumes "directory_reach (js_int ttl) s"
  shows "(\<forall>(told, records) \<in> set (dr_answers s). \<exists>t. (t, records) \<in> set (dr_fetched s) \<and> told < t + ttl) \<and> dr_fetches s \<le> 1"
  using directory_reach_ok [OF assms] by (auto simp: directory_ok_def)

end
