(* ===== verification/SnapshotJson.thy ===== *)
theory SnapshotJson
  imports Prelude "HOL-Library.List_Lexorder" "HOL-Library.Char_ord"
begin

text \<open>
  The JSON side of snapshots (\<open>server/src/opsia/snapshot.ts\<close>): the canonical text and the ordered text that are
  hashed, and what \<open>JSON.parse(JSON.stringify(v))\<close> makes of a value.  How \<open>JSON.stringify\<close> writes a string and a
  number is a parameter.  Objects are lists of their own properties; the order of properties matters to the ordered
  text only, and \<open>json_norm\<close> forgets it.
\<close>

record json_text =
  jt_quote :: "string \<Rightarrow> string"
  jt_number :: "jsnum \<Rightarrow> string"

fun join_with :: "char \<Rightarrow> string list \<Rightarrow> string" where
  "join_with c [] = []"
| "join_with c [s] = s"
| "join_with c (s # t # ss) = s @ c # join_with c (t # ss)"

text \<open>The texts of a list, or the first error.\<close>

fun collect :: "('e + 'a) list \<Rightarrow> 'e + 'a list" where
  "collect [] = Inr []"
| "collect (x # xs) = (case x of Inl e \<Rightarrow> Inl e | Inr a \<Rightarrow> (case collect xs of Inl e \<Rightarrow> Inl e | Inr as \<Rightarrow> Inr (a # as)))"

definition bool_text :: "bool \<Rightarrow> string" where
  "bool_text b = (if b then ''true'' else ''false'')"

definition non_finite :: string where
  "non_finite = ''snapshot_contains_non_finite_number''"

definition unsupported :: string where
  "unsupported = ''snapshot_contains_unsupported_value''"

definition field_text :: "json_text \<Rightarrow> string \<times> string \<Rightarrow> string" where
  "field_text j f = jt_quote j (fst f) @ CHR '':'' # snd f"

definition array_text :: "string list \<Rightarrow> string" where
  "array_text ts = CHR ''['' # join_with (CHR '','') ts @ '']''"

definition object_text :: "json_text \<Rightarrow> (string \<times> string) list \<Rightarrow> string" where
  "object_text j fs = CHR ''{'' # join_with (CHR '','') (map (field_text j) fs) @ ''}''"

text \<open>A field with its text; a field that is \<open>undefined\<close> has none.\<close>

definition field_value :: "string \<times> ('e + string) \<Rightarrow> 'e + string \<times> string" where
  "field_value f = map_sum id (Pair (fst f)) (snd f)"

fun canonicalJson :: "json_text \<Rightarrow> jv \<Rightarrow> string + string" where
  "canonicalJson j JNull = Inr ''null''"
| "canonicalJson j (JBool b) = Inr (bool_text b)"
| "canonicalJson j (JStr s) = Inr (jt_quote j s)"
| "canonicalJson j (JNum n) = (if is_finite n then Inr (jt_number j n) else Inl non_finite)"
| "canonicalJson j (JArr vs) = map_sum id array_text (collect (map (canonicalJson j) vs))"
| "canonicalJson j (JObj kvs) =
     map_sum id (object_text j) (collect (map (\<lambda>(k, v, t). field_value (k, t))
       (sort_key fst (filter (\<lambda>(k, v, t). v \<noteq> JUndef) (map (\<lambda>(k, v). (k, v, canonicalJson j v)) kvs)))))"
| "canonicalJson j JUndef = Inl unsupported"

text \<open>\<open>JSON.stringify\<close> with the replacer that refuses what JSON would coerce.\<close>

fun orderedJson :: "json_text \<Rightarrow> jv \<Rightarrow> string + string" where
  "orderedJson j JNull = Inr ''null''"
| "orderedJson j (JBool b) = Inr (bool_text b)"
| "orderedJson j (JStr s) = Inr (jt_quote j s)"
| "orderedJson j (JNum n) = (if is_finite n then Inr (jt_number j n) else Inl non_finite)"
| "orderedJson j (JArr vs) =
     map_sum id array_text (collect (map (\<lambda>v. if v = JUndef then Inr ''null'' else orderedJson j v) vs))"
| "orderedJson j (JObj kvs) =
     map_sum id (object_text j) (collect (map (\<lambda>(k, v, t). field_value (k, t))
       (filter (\<lambda>(k, v, t). v \<noteq> JUndef) (map (\<lambda>(k, v). (k, v, orderedJson j v)) kvs))))"
| "orderedJson j JUndef = Inl unsupported"

definition checksumValue :: "json_text \<Rightarrow> (string \<Rightarrow> string) \<Rightarrow> jv \<Rightarrow> string + string" where
  "checksumValue j sha256 v = map_sum id sha256 (canonicalJson j v)"

definition checksumOrderedValue :: "json_text \<Rightarrow> (string \<Rightarrow> string) \<Rightarrow> jv \<Rightarrow> string + string" where
  "checksumOrderedValue j sha256 v = map_sum id sha256 (orderedJson j v)"

section \<open>Clones\<close>

fun clone_json :: "jv \<Rightarrow> jv" where
  "clone_json (JNum n) = (if is_finite n then JNum n else JNull)"
| "clone_json (JArr vs) = JArr (map (\<lambda>v. if v = JUndef then JNull else clone_json v) vs)"
| "clone_json (JObj kvs) = JObj (map (\<lambda>(k, v, c). (k, c)) (filter (\<lambda>(k, v, c). v \<noteq> JUndef) (map (\<lambda>(k, v). (k, v, clone_json v)) kvs)))"
| "clone_json v = v"

definition cloneJson :: "jv \<Rightarrow> string + jv" where
  "cloneJson v = (if v = JUndef then Inl ''\"undefined\" is not valid JSON'' else Inr (clone_json v))"

text \<open>What \<open>JSON.parse\<close> can return: no \<open>undefined\<close>, finite numbers, one property per key.\<close>

fun plain_json :: "jv \<Rightarrow> bool" where
  "plain_json (JNum n) = is_finite n"
| "plain_json (JArr vs) = list_all plain_json vs"
| "plain_json (JObj kvs) = (distinct (map fst kvs) \<and> list_all (\<lambda>(k, v). plain_json v) kvs)"
| "plain_json JUndef = False"
| "plain_json _ = True"

lemma clone_plain [simp]: "plain_json v \<Longrightarrow> clone_json v = v"
proof (induction v rule: clone_json.induct)
  case (2 vs)
  have "JUndef \<notin> set vs" using 2(2) by (auto simp: list_all_iff dest: bspec [of _ _ JUndef])
  then show ?case using 2 by (auto simp: list_all_iff intro!: map_idI)
next
  case (3 kvs)
  have "filter (\<lambda>(k, v, c). v \<noteq> JUndef) (map (\<lambda>(k, v). (k, v, clone_json v)) kvs) = map (\<lambda>(k, v). (k, v, v)) kvs"
  proof -
    have "\<forall>(k, v) \<in> set kvs. v \<noteq> JUndef \<and> clone_json v = v" using 3 by (auto simp: list_all_iff)
    then show ?thesis by (induction kvs) auto
  qed
  then show ?case by (simp add: comp_def split_def)
qed auto

section \<open>Values up to the order of their properties\<close>

fun json_norm :: "jv \<Rightarrow> jv" where
  "json_norm (JArr vs) = JArr (map json_norm vs)"
| "json_norm (JObj kvs) = JObj (sort_key fst (map (\<lambda>(k, v). (k, json_norm v)) kvs))"
| "json_norm v = v"

lemma norm_undef [simp]: "json_norm v = JUndef \<longleftrightarrow> v = JUndef"
  by (cases v) simp_all

lemma keys_norm [simp]: "map fst (map (\<lambda>(k, v). (k, f v)) kvs) = map fst kvs"
  by (simp add: comp_def split_def)

text \<open>Two objects with one property per key are the same up to order when they map their keys alike.\<close>

lemma map_of_sort_key [simp]: "distinct (map fst kvs) \<Longrightarrow> map_of (sort_key fst kvs) = map_of kvs"
  by (rule map_of_eqI) (auto simp: distinct_map map_of_eq_Some_iff)

lemma sorted_pairs_eq:
  assumes "distinct (map fst xs)" and "distinct (map fst ys)" and "map_of xs = map_of ys"
  shows "sort_key fst xs = sort_key (fst :: 'a :: linorder \<times> 'b \<Rightarrow> 'a) ys"
proof -
  have "set xs = set ys" using assms by (metis map_of_eq_Some_iff subset_antisym subsetI surj_pair)
  then show ?thesis
    using assms(1,2) by (intro map_sorted_distinct_set_unique [of fst]) (auto simp: distinct_map)
qed

lemma norm_object_eq:
  assumes "distinct (map fst xs)" and "distinct (map fst ys)"
    and "\<And>k. map_option json_norm (map_of xs k) = map_option json_norm (map_of ys k)"
  shows "json_norm (JObj xs) = json_norm (JObj ys)"
proof -
  have "map_of (map (\<lambda>(k, v). (k, json_norm v)) xs) k = map_of (map (\<lambda>(k, v). (k, json_norm v)) ys) k" for k
    using assms(3) [of k] by (simp add: map_of_map)
  then show ?thesis using assms(1,2) by (simp add: sorted_pairs_eq ext comp_def split_def)
qed

text \<open>Sorting by a key commutes with what keeps the key.\<close>

lemma insort_same_key: "(\<And>x. f' (g x) = f x) \<Longrightarrow> insort_key f' (g x) (map g xs) = map g (insort_key f x xs)"
  by (induction xs) auto

lemma sort_same_key: "(\<And>x. f' (g x) = f x) \<Longrightarrow> sort_key f' (map g xs) = map g (sort_key f xs)"
  by (induction xs) (simp_all add: insort_same_key [of f' g f])

text \<open>The canonical text does not see the order.\<close>

lemma canonical_norm: "plain_json v \<Longrightarrow> canonicalJson j (json_norm v) = canonicalJson j v"
proof (induction v rule: json_norm.induct)
  case (1 vs)
  then have "map (canonicalJson j) (map json_norm vs) = map (canonicalJson j) vs" by (auto simp: list_all_iff)
  then show ?case by (simp del: map_map)
next
  case (2 kvs)
  let ?g = "\<lambda>kv. (fst kv, snd kv, canonicalJson j (snd kv))"
  have keep: "filter (\<lambda>(k, v, t). v \<noteq> JUndef) (map (\<lambda>(k, v). (k, v, canonicalJson j v)) xs) = map ?g xs"
    if "\<forall>(k, v) \<in> set xs. v \<noteq> JUndef" for xs
    using that by (auto simp: split_def filter_id_conv)
  have defined: "\<forall>(k, v) \<in> set kvs. v \<noteq> JUndef" using 2 by (auto simp: list_all_iff)
  let ?s = "sort_key fst (map (\<lambda>(k, v). (k, json_norm v)) kvs)"
  have "\<forall>(k, v) \<in> set ?s. v \<noteq> JUndef" using defined by auto
  then have texts: "canonicalJson j (json_norm (JObj kvs)) = map_sum id (object_text j) (collect (map (\<lambda>(k, v, t). field_value (k, t)) (sort_key fst (map ?g ?s))))"
    "canonicalJson j (JObj kvs) = map_sum id (object_text j) (collect (map (\<lambda>(k, v, t). field_value (k, t)) (sort_key fst (map ?g kvs))))"
    using keep [of ?s] keep [OF defined] by simp_all
  have sorted: "?s = map (\<lambda>(k, v). (k, json_norm v)) (sort_key fst kvs)"
    by (rule sort_same_key) auto
  have commute: "sort_key fst (map ?g xs) = map ?g (sort_key fst xs)" for xs
    by (rule sort_same_key) simp
  have "sort_key fst (map ?g ?s) = map ?g ?s" unfolding commute by (simp add: sort_key_id_if_sorted)
  then have "map (\<lambda>(k, v, t). field_value (k, t)) (sort_key fst (map ?g ?s))
      = map (\<lambda>(k, v). field_value (k, canonicalJson j (json_norm v))) (sort_key fst kvs)"
    unfolding sorted by (simp add: comp_def split_def)
  also have "\<dots> = map (\<lambda>(k, v). field_value (k, canonicalJson j v)) (sort_key fst kvs)"
    using 2 by (auto simp: list_all_iff)
  also have "\<dots> = map (\<lambda>(k, v, t). field_value (k, t)) (sort_key fst (map ?g kvs))"
    unfolding commute by (simp add: comp_def split_def)
  finally show ?case unfolding texts by simp
qed auto

end
