(* ===== verification/SnapshotEnvelope.thy ===== *)
theory SnapshotEnvelope
  imports SnapshotJson DriverNet
begin

text \<open>
  The envelope of a snapshot (\<open>server/src/opsia/snapshot.ts\<close>): creating, verifying and parsing it.  SHA-256 and
  \<open>JSON.parse\<close> are parameters.  An envelope is the object the code passes around, with whatever other properties it has.
\<close>

definition kind_snapshot :: string where
  "kind_snapshot = ''opsia.game-snapshot''"

definition ordered_encoding :: string where
  "ordered_encoding = ''ordered-json''"

definition canonical_encoding :: string where
  "canonical_encoding = ''canonical-json''"

record snapshot_context =
  sc_roomId :: string
  sc_roomEpoch :: jsnum
  sc_serverTick :: jsnum
  sc_snapshotTick :: jsnum
  sc_gameBuildRevision :: string
  sc_mapSeed :: jsnum
  sc_createdAt :: "jsnum option"

text \<open>The room and the size a reader expects.\<close>

record snapshot_limits =
  sl_roomId :: "string option"
  sl_maxPayloadBytes :: "nat option"

definition signed_fields :: "string list" where
  "signed_fields = [''kind'', ''schemaVersion'', ''payloadSchemaVersion'', ''roomId'', ''roomEpoch'', ''serverTick'', ''snapshotTick'',
     ''gameBuildRevision'', ''mapSeed'', ''createdAt'', ''checksumAlgorithm'']"

definition envelopeContent :: "obj \<Rightarrow> obj" where
  "envelopeContent e = map (\<lambda>k. (k, oget e k)) signed_fields
     @ (if truthy (oget e ''checksumEncoding'') then [(''checksumEncoding'', oget e ''checksumEncoding'')] else [])
     @ [(''payload'', oget e ''payload'')]"

definition envelopeChecksum :: "json_text \<Rightarrow> (string \<Rightarrow> string) \<Rightarrow> obj \<Rightarrow> string + string" where
  "envelopeChecksum j sha content =
     (if oget content ''checksumEncoding'' = JStr ordered_encoding then checksumOrderedValue j sha (JObj content)
      else checksumValue j sha (JObj content))"

definition is_count :: "jsnum \<Rightarrow> bool" where
  "is_count n = (is_safe_integer n \<and> 0 \<le> int_of_jsnum n)"

definition is_count_jv :: "jv \<Rightarrow> bool" where
  "is_count_jv v = (is_safe_jv v \<and> 0 \<le> jnum v)"

definition encoding_of :: "obj \<Rightarrow> string" where
  "encoding_of payload = (if oget payload ''stateChecksumAlgorithm'' = JStr ''ordered-json-sha256'' then ordered_encoding else canonical_encoding)"

definition unsigned_envelope :: "jsnum \<Rightarrow> obj \<Rightarrow> snapshot_context \<Rightarrow> obj" where
  "unsigned_envelope now payload c =
     [(''kind'', JStr kind_snapshot), (''schemaVersion'', JNum (js_int 1)), (''payloadSchemaVersion'', oget payload ''schemaVersion''),
      (''roomId'', JStr (sc_roomId c)), (''roomEpoch'', JNum (sc_roomEpoch c)), (''serverTick'', JNum (sc_serverTick c)),
      (''snapshotTick'', JNum (sc_snapshotTick c)), (''gameBuildRevision'', JStr (sc_gameBuildRevision c)),
      (''mapSeed'', JNum (sc_mapSeed c)), (''createdAt'', JNum (case sc_createdAt c of Some t \<Rightarrow> t | None \<Rightarrow> now)),
      (''checksumAlgorithm'', JStr ''sha256''), (''checksumEncoding'', JStr (encoding_of payload)), (''payload'', JObj payload)]"

definition createSnapshotEnvelope :: "json_text \<Rightarrow> (string \<Rightarrow> string) \<Rightarrow> jsnum \<Rightarrow> obj \<Rightarrow> snapshot_context \<Rightarrow> string + obj" where
  "createSnapshotEnvelope j sha now payload c =
     (if sc_roomId c = [] \<or> \<not> is_count (sc_roomEpoch c) then Inl ''invalid_snapshot_context''
      else if \<not> is_count (sc_serverTick c) then Inl ''invalid_snapshot_server_tick''
      else if \<not> is_count (sc_snapshotTick c) then Inl ''invalid_snapshot_tick''
      else if \<not> is_safe_jv (oget payload ''schemaVersion'') \<or> jnum (oget payload ''schemaVersion'') < 1
        then Inl ''invalid_snapshot_payload_schema''
      else map_sum id (\<lambda>digest. unsigned_envelope now payload c @ [(''checksum'', JStr digest)])
             (envelopeChecksum j sha (envelopeContent (unsigned_envelope now payload c))))"

section \<open>Verifying\<close>

definition is_text :: "jv \<Rightarrow> bool" where
  "is_text v = (case v of JStr s \<Rightarrow> s \<noteq> [] | _ \<Rightarrow> False)"

definition is_finite_jv :: "jv \<Rightarrow> bool" where
  "is_finite_jv v = (case v of JNum n \<Rightarrow> is_finite n | _ \<Rightarrow> False)"

definition known_encoding :: "jv \<Rightarrow> bool" where
  "known_encoding v = (v = JUndef \<or> v = JStr canonical_encoding \<or> v = JStr ordered_encoding)"

definition envelope_shape :: "obj \<Rightarrow> bool" where
  "envelope_shape e =
     (oget e ''kind'' = JStr kind_snapshot \<and> oget e ''schemaVersion'' = JNum (js_int 1) \<and> oget e ''checksumAlgorithm'' = JStr ''sha256''
      \<and> known_encoding (oget e ''checksumEncoding'')
      \<and> (case oget e ''checksum'' of JStr s \<Rightarrow> length s = 64 | _ \<Rightarrow> False)
      \<and> is_text (oget e ''roomId'') \<and> is_count_jv (oget e ''roomEpoch'') \<and> is_count_jv (oget e ''serverTick'')
      \<and> is_count_jv (oget e ''snapshotTick'') \<and> is_text (oget e ''gameBuildRevision'') \<and> is_finite_jv (oget e ''mapSeed'')
      \<and> is_count_jv (oget e ''createdAt'')
      \<and> (case oget e ''payload'' of
           JObj p \<Rightarrow> is_safe_jv (oget e ''payloadSchemaVersion'') \<and> 1 \<le> jnum (oget e ''payloadSchemaVersion'')
             \<and> oget p ''schemaVersion'' = oget e ''payloadSchemaVersion''
             \<and> (case oget p ''roomId'' of JStr r \<Rightarrow> oget e ''roomId'' = JStr r | _ \<Rightarrow> True)
         | _ \<Rightarrow> False))"

text \<open>The bytes of a text in UTF-8: a code unit below 128 is one byte, one below 256 two.\<close>

definition utf8_bytes :: "string \<Rightarrow> nat" where
  "utf8_bytes s = sum_list (map (\<lambda>c. if (of_char c :: nat) < 128 then 1 else 2) s)"

text \<open>\<open>Buffer.byteLength(JSON.stringify(v), "utf8")\<close>\<close>

definition json_bytes :: "json_text \<Rightarrow> jv \<Rightarrow> nat" where
  "json_bytes j v = (case orderedJson j (clone_json v) of Inr t \<Rightarrow> utf8_bytes t | Inl _ \<Rightarrow> 0)"

text \<open>\<open>Buffer.from(s, "hex")\<close> reads pairs of digits up to the first that is none.\<close>

definition hex_value :: "char \<Rightarrow> nat option" where
  "hex_value c = (let n = of_char c in
     if is_digit c then Some (n - 48) else if 97 \<le> n \<and> n \<le> 102 then Some (n - 87) else if 65 \<le> n \<and> n \<le> 70 then Some (n - 55) else None)"

fun hex_bytes :: "string \<Rightarrow> nat list" where
  "hex_bytes (a # b # s) =
     (case (hex_value a, hex_value b) of (Some x, Some y) \<Rightarrow> (16 * x + y) # hex_bytes s | _ \<Rightarrow> [])"
| "hex_bytes _ = []"

definition text_of :: "jv \<Rightarrow> string" where
  "text_of v = (case v of JStr s \<Rightarrow> s | _ \<Rightarrow> [])"

definition verifySnapshotEnvelope :: "json_text \<Rightarrow> (string \<Rightarrow> string) \<Rightarrow> jv \<Rightarrow> snapshot_limits \<Rightarrow> string + obj" where
  "verifySnapshotEnvelope j sha v x =
     (case v of
        JObj e \<Rightarrow>
          if \<not> envelope_shape e then Inl ''invalid_snapshot_envelope''
          else if (case sl_roomId x of Some r \<Rightarrow> oget e ''roomId'' \<noteq> JStr r | None \<Rightarrow> False) then Inl ''snapshot_room_mismatch''
          else if (case sl_maxPayloadBytes x of Some n \<Rightarrow> n < json_bytes j v | None \<Rightarrow> False) then Inl ''snapshot_payload_too_large''
          else (case envelopeChecksum j sha (envelopeContent e) of
             Inl m \<Rightarrow> Inl m
           | Inr digest \<Rightarrow> if hex_bytes (text_of (oget e ''checksum'')) = hex_bytes digest then Inr e else Inl ''snapshot_checksum_mismatch'')
      | _ \<Rightarrow> Inl ''invalid_snapshot_envelope'')"

definition parseSnapshotEnvelope ::
  "json_text \<Rightarrow> (string \<Rightarrow> string) \<Rightarrow> (string \<Rightarrow> jv option) \<Rightarrow> string \<Rightarrow> snapshot_limits \<Rightarrow> string + obj" where
  "parseSnapshotEnvelope j sha parse serialized x =
     (if (case sl_maxPayloadBytes x of Some n \<Rightarrow> n < utf8_bytes serialized | None \<Rightarrow> False) then Inl ''snapshot_payload_too_large''
      else case parse serialized of None \<Rightarrow> Inl ''invalid_snapshot_json'' | Some v \<Rightarrow> verifySnapshotEnvelope j sha v x)"

lemma envelope_verified:
  assumes "verifySnapshotEnvelope j sha v x = Inr e"
  shows "v = JObj e" and "envelope_shape e" and "\<And>r. sl_roomId x = Some r \<Longrightarrow> oget e ''roomId'' = JStr r"
    and "\<exists>digest. envelopeChecksum j sha (envelopeContent e) = Inr digest \<and> hex_bytes (text_of (oget e ''checksum'')) = hex_bytes digest"
  using assms by (auto simp: verifySnapshotEnvelope_def split: jv.splits if_splits sum.splits option.splits)

section \<open>What was created verifies\<close>

lemma content_signed [simp]: "envelopeContent (unsigned_envelope now payload c @ [(''checksum'', s)]) = envelopeContent (unsigned_envelope now payload c)"
  by (simp add: envelopeContent_def unsigned_envelope_def signed_fields_def oget_def)

lemma content_unsigned: "envelopeContent (unsigned_envelope now payload c) = unsigned_envelope now payload c"
  by (simp add: envelopeContent_def unsigned_envelope_def signed_fields_def oget_def encoding_of_def
      canonical_encoding_def ordered_encoding_def)

definition context_ok :: "jsnum \<Rightarrow> obj \<Rightarrow> snapshot_context \<Rightarrow> bool" where
  "context_ok now payload c = (sc_gameBuildRevision c \<noteq> [] \<and> is_finite (sc_mapSeed c)
     \<and> is_count (case sc_createdAt c of Some t \<Rightarrow> t | None \<Rightarrow> now)
     \<and> (case oget payload ''roomId'' of JStr r \<Rightarrow> r = sc_roomId c | _ \<Rightarrow> True))"

lemma map_sum_Inr: "map_sum f g x = Inr b \<Longrightarrow> \<exists>a. x = Inr a \<and> b = g a"
  by (cases x) auto

lemma created_shape:
  assumes "createSnapshotEnvelope j sha now payload c = Inr e" and "context_ok now payload c" and "\<And>t. length (sha t) = 64"
  shows "\<exists>t. e = unsigned_envelope now payload c @ [(''checksum'', JStr (sha t))]
    \<and> envelopeChecksum j sha (envelopeContent e) = Inr (sha t)" and "envelope_shape e"
proof -
  obtain s where s: "envelopeChecksum j sha (envelopeContent (unsigned_envelope now payload c)) = Inr s"
    and e: "e = unsigned_envelope now payload c @ [(''checksum'', JStr s)]"
    using assms(1) by (cases "envelopeChecksum j sha (envelopeContent (unsigned_envelope now payload c))")
      (auto simp: createSnapshotEnvelope_def split: if_splits)
  obtain t where t: "s = sha t"
    using s by (auto simp: envelopeChecksum_def checksumValue_def checksumOrderedValue_def
        simp del: orderedJson.simps canonicalJson.simps split: if_splits dest!: map_sum_Inr)
  show "\<exists>t. e = unsigned_envelope now payload c @ [(''checksum'', JStr (sha t))] \<and> envelopeChecksum j sha (envelopeContent e) = Inr (sha t)"
    using s e t by auto
  have fields: "oget e ''kind'' = JStr kind_snapshot" "oget e ''schemaVersion'' = JNum (js_int 1)"
    "oget e ''payloadSchemaVersion'' = oget payload ''schemaVersion''" "oget e ''roomId'' = JStr (sc_roomId c)"
    "oget e ''roomEpoch'' = JNum (sc_roomEpoch c)" "oget e ''serverTick'' = JNum (sc_serverTick c)"
    "oget e ''snapshotTick'' = JNum (sc_snapshotTick c)" "oget e ''gameBuildRevision'' = JStr (sc_gameBuildRevision c)"
    "oget e ''mapSeed'' = JNum (sc_mapSeed c)" "oget e ''createdAt'' = JNum (case sc_createdAt c of Some t \<Rightarrow> t | None \<Rightarrow> now)"
    "oget e ''checksumAlgorithm'' = JStr ''sha256''" "oget e ''checksumEncoding'' = JStr (encoding_of payload)"
    "oget e ''payload'' = JObj payload" "oget e ''checksum'' = JStr s"
    unfolding e by (simp_all add: unsigned_envelope_def oget_def)
  have "sc_roomId c \<noteq> []" "is_count (sc_roomEpoch c)" "is_count (sc_serverTick c)" "is_count (sc_snapshotTick c)"
    "is_safe_jv (oget payload ''schemaVersion'')" "1 \<le> jnum (oget payload ''schemaVersion'')"
    using assms(1) by (auto simp: createSnapshotEnvelope_def split: if_splits)
  moreover have "known_encoding (JStr (encoding_of payload))" by (simp add: known_encoding_def encoding_of_def)
  ultimately show "envelope_shape e"
    unfolding envelope_shape_def fields using assms(2,3) t
    by (simp add: context_ok_def is_text_def is_finite_jv_def is_count_def is_count_jv_def split: jv.splits)
qed

theorem created_envelope_verifies:
  assumes "createSnapshotEnvelope j sha now payload c = Inr e" and "context_ok now payload c" and "\<And>t. length (sha t) = 64"
    and "sl_roomId x = None \<or> sl_roomId x = Some (sc_roomId c)"
    and "\<And>n. sl_maxPayloadBytes x = Some n \<Longrightarrow> json_bytes j (JObj e) \<le> n"
  shows "verifySnapshotEnvelope j sha (JObj e) x = Inr e"
proof -
  obtain t where e: "e = unsigned_envelope now payload c @ [(''checksum'', JStr (sha t))]"
    and digest: "envelopeChecksum j sha (envelopeContent e) = Inr (sha t)" and shape: "envelope_shape e"
    using created_shape [OF assms(1-3)] by auto
  have fields: "oget e ''roomId'' = JStr (sc_roomId c)" "oget e ''checksum'' = JStr (sha t)"
    unfolding e by (simp_all add: unsigned_envelope_def oget_def)
  show ?thesis
    using digest shape assms(4) fields assms(5)
    by (auto simp: verifySnapshotEnvelope_def text_of_def not_less split: option.splits)
qed

section \<open>Sizes do not depend on the order of properties\<close>

fun text_bytes :: "json_text \<Rightarrow> jv \<Rightarrow> nat" where
  "text_bytes j JNull = utf8_bytes ''null''"
| "text_bytes j (JBool b) = utf8_bytes (bool_text b)"
| "text_bytes j (JStr s) = utf8_bytes (jt_quote j s)"
| "text_bytes j (JNum n) = utf8_bytes (jt_number j n)"
| "text_bytes j (JArr vs) = 2 + (length vs - 1) + sum_list (map (text_bytes j) vs)"
| "text_bytes j (JObj kvs) = 2 + (length kvs - 1) + sum_list (map (\<lambda>(k, v). utf8_bytes (jt_quote j k) + 1 + text_bytes j v) kvs)"
| "text_bytes j JUndef = 0"

lemma utf8_append [simp]: "utf8_bytes (s @ t) = utf8_bytes s + utf8_bytes t"
  by (simp add: utf8_bytes_def)

lemma utf8_join: "of_char c < (128 :: nat) \<Longrightarrow> utf8_bytes (join_with c ts) = (length ts - 1) + sum_list (map utf8_bytes ts)"
proof (induction c ts rule: join_with.induct)
  case (3 c s t ss)
  moreover have "utf8_bytes (s @ c # u) = utf8_bytes s + 1 + utf8_bytes u" for u
    using 3(2) by (simp add: utf8_bytes_def)
  ultimately show ?case by simp
qed (simp_all add: utf8_bytes_def)

lemma utf8_cons: "of_char c < (128 :: nat) \<Longrightarrow> utf8_bytes (c # s) = 1 + utf8_bytes s"
  by (simp add: utf8_bytes_def)

lemma collect_all: "list_all2 (\<lambda>x t. x = Inr t) xs ts \<Longrightarrow> collect xs = Inr ts"
  by (induction xs ts rule: list_all2_induct) auto

lemma utf8_array: "utf8_bytes (array_text ts) = 2 + (length ts - 1) + sum_list (map utf8_bytes ts)"
  by (simp add: array_text_def utf8_cons utf8_join) (simp add: utf8_bytes_def)

lemma utf8_object: "utf8_bytes (object_text j fs) = 2 + (length fs - 1) + sum_list (map (\<lambda>(k, t). utf8_bytes (jt_quote j k) + 1 + utf8_bytes t) fs)"
  by (simp add: object_text_def field_text_def utf8_cons utf8_join comp_def split_def) (simp add: utf8_bytes_def)

lemma filter_kept: "(\<And>x. x \<in> set xs \<Longrightarrow> P x) \<Longrightarrow> filter P xs = xs"
  by (rule filter_True) blast

lemma ordered_bytes: "plain_json v \<Longrightarrow> \<exists>t. orderedJson j v = Inr t \<and> utf8_bytes t = text_bytes j v"
proof (induction v rule: json_norm.induct)
  case (1 vs)
  then have "\<forall>v \<in> set vs. \<exists>t. (if v = JUndef then Inr ''null'' else orderedJson j v) = Inr t \<and> utf8_bytes t = text_bytes j v"
    by (auto simp: list_all_iff)
  then obtain f where f: "\<forall>v \<in> set vs. (if v = JUndef then Inr ''null'' else orderedJson j v) = Inr (f v) \<and> utf8_bytes (f v) = text_bytes j v"
    by metis
  then have "collect (map (\<lambda>v. if v = JUndef then Inr ''null'' else orderedJson j v) vs) = Inr (map f vs)"
    by (intro collect_all) (simp add: list_all2_conv_all_nth)
  moreover have "map (utf8_bytes \<circ> f) vs = map (text_bytes j) vs" using f by simp
  then have "sum_list (map (utf8_bytes \<circ> f) vs) = sum_list (map (text_bytes j) vs)" by (rule arg_cong)
  ultimately show ?case by (simp add: utf8_array)
next
  case (2 kvs)
  then have "\<forall>kv \<in> set kvs. snd kv \<noteq> JUndef \<and> (\<exists>t. orderedJson j (snd kv) = Inr t \<and> utf8_bytes t = text_bytes j (snd kv))"
    by (auto simp: list_all_iff)
  then obtain f where f: "\<forall>kv \<in> set kvs. snd kv \<noteq> JUndef \<and> orderedJson j (snd kv) = Inr (f kv) \<and> utf8_bytes (f kv) = text_bytes j (snd kv)"
    by metis
  have keep: "filter (\<lambda>(k, v, t). v \<noteq> JUndef) (map (\<lambda>(k, v). (k, v, orderedJson j v)) kvs) = map (\<lambda>(k, v). (k, v, orderedJson j v)) kvs"
    using f by (intro filter_kept) auto
  have "collect (map (\<lambda>(k, v, t). field_value (k, t)) (map (\<lambda>(k, v). (k, v, orderedJson j v)) kvs)) = Inr (map (\<lambda>kv. (fst kv, f kv)) kvs)"
    using f by (intro collect_all) (auto simp: list_all2_conv_all_nth field_value_def split_def)
  moreover have "map (\<lambda>kv. utf8_bytes (jt_quote j (fst kv)) + 1 + utf8_bytes (f kv)) kvs = map (\<lambda>(k, v). utf8_bytes (jt_quote j k) + 1 + text_bytes j v) kvs"
    using f by auto
  then have "sum_list (map (\<lambda>kv. utf8_bytes (jt_quote j (fst kv)) + 1 + utf8_bytes (f kv)) kvs)
      = sum_list (map (\<lambda>(k, v). utf8_bytes (jt_quote j k) + 1 + text_bytes j v) kvs)" by (rule arg_cong)
  ultimately show ?case unfolding orderedJson.simps keep by (simp add: utf8_object comp_def split_def)
qed auto

lemma sum_insort [simp]: "sum_list (map f (insort_key g x xs)) = f x + sum_list (map f xs)" for f :: "'a \<Rightarrow> nat"
  by (induction xs) auto

lemma sum_sort [simp]: "sum_list (map f (sort_key g xs)) = sum_list (map f xs)" for f :: "'a \<Rightarrow> nat"
  by (induction xs) auto

lemma bytes_norm: "text_bytes j (json_norm v) = text_bytes j v"
proof (induction v rule: json_norm.induct)
  case (1 vs)
  then have "map (text_bytes j \<circ> json_norm) vs = map (text_bytes j) vs" by simp
  then have "sum_list (map (text_bytes j \<circ> json_norm) vs) = sum_list (map (text_bytes j) vs)" by (rule arg_cong)
  then show ?case by simp
next
  case (2 kvs)
  then have "map ((\<lambda>(k, v). utf8_bytes (jt_quote j k) + 1 + text_bytes j v) \<circ> (\<lambda>(k, v). (k, json_norm v))) kvs
    = map (\<lambda>(k, v). utf8_bytes (jt_quote j k) + 1 + text_bytes j v) kvs" by auto
  then have "sum_list (map ((\<lambda>(k, v). utf8_bytes (jt_quote j k) + 1 + text_bytes j v) \<circ> (\<lambda>(k, v). (k, json_norm v))) kvs)
    = sum_list (map (\<lambda>(k, v). utf8_bytes (jt_quote j k) + 1 + text_bytes j v) kvs)" by (rule arg_cong)
  then show ?case by simp
qed auto

lemma json_bytes_norm: "plain_json v \<Longrightarrow> plain_json w \<Longrightarrow> json_norm v = json_norm w \<Longrightarrow> json_bytes j v = json_bytes j w"
  using ordered_bytes [of v j] ordered_bytes [of w j] bytes_norm [of j v] bytes_norm [of j w]
  by (auto simp: json_bytes_def)

end
