(* ===== verification/SnapshotDelta.thy ===== *)
theory SnapshotDelta
  imports SnapshotEnvelope
begin

text \<open>
  Deltas between snapshots (\<open>server/src/opsia/candidate.ts\<close>): computing the operations that turn one payload into
  another, carrying them in a message, and applying them.  An array index and a property name are the two kinds of path
  segment.  That an object lists integer-like names before the others is not modelled; the canonical checksum does not
  depend on it.
\<close>

datatype segment = Idx nat | Key string

datatype delta_op = SetAt "segment list" jv | DeleteAt "segment list" | TruncateAt "segment list" nat

definition object_keys :: "(string \<times> jv) list \<Rightarrow> string list" where
  "object_keys kvs = sort (map fst kvs)"

section \<open>Computing a delta\<close>

text \<open>
  A name the old object does not have as its own is still \<open>in\<close> it when \<open>Object.prototype\<close> has it.  The methods are no
  objects, so they are overwritten like anything else; under \<open>__proto__\<close> the prototype itself is found.
\<close>

definition proto_ops :: "segment list \<Rightarrow> jv \<Rightarrow> delta_op list" where
  "proto_ops path after =
     (case after of
        JObj kvs \<Rightarrow> concat (map (\<lambda>(k, v). if k = ''__proto__'' \<and> v = JNull then [] else [SetAt (path @ [Key k]) (clone_json v)]) (sort_key fst kvs))
      | _ \<Rightarrow> [SetAt path (clone_json after)])"

fun set_items :: "segment list \<Rightarrow> nat \<Rightarrow> jv list \<Rightarrow> delta_op list" where
  "set_items path i [] = []"
| "set_items path i (v # vs) = SetAt (path @ [Idx i]) (clone_json v) # set_items path (Suc i) vs"

definition dropped_keys :: "segment list \<Rightarrow> (string \<times> jv) list \<Rightarrow> (string \<times> jv) list \<Rightarrow> delta_op list" where
  "dropped_keys path before after = map (\<lambda>k. DeleteAt (path @ [Key k])) (filter (\<lambda>k. k \<notin> fst ` set after) (object_keys before))"

lemma size_sort_key [simp]: "size_list f (sort_key g xs) = size_list f xs"
proof -
  have "size_list f (insort_key g x xs) = Suc (f x + size_list f xs)" for x xs by (induction xs) auto
  then show ?thesis by (induction xs) auto
qed

function (sequential) appendDeltaOperations :: "jv \<Rightarrow> jv \<Rightarrow> segment list \<Rightarrow> delta_op list"
  and delta_items :: "segment list \<Rightarrow> nat \<Rightarrow> jv list \<Rightarrow> jv list \<Rightarrow> delta_op list"
  and delta_fields :: "segment list \<Rightarrow> (string \<times> jv) list \<Rightarrow> (string \<times> jv) list \<Rightarrow> delta_op list" where
  "appendDeltaOperations (JArr bs) (JArr as) path = delta_items path 0 bs as"
| "appendDeltaOperations (JObj bs) (JObj as) path = dropped_keys path bs as @ delta_fields path bs (sort_key fst as)"
| "appendDeltaOperations before after path = (if before = after then [] else [SetAt path (clone_json after)])"
| "delta_items path i (b # bs) (a # as) = appendDeltaOperations b a (path @ [Idx i]) @ delta_items path (Suc i) bs as"
| "delta_items path i (b # bs) [] = [TruncateAt path i]"
| "delta_items path i [] as = set_items path i as"
| "delta_fields path bs ((k, a) # as) =
     (case map_of bs k of
        Some b \<Rightarrow> appendDeltaOperations b a (path @ [Key k])
      | None \<Rightarrow> if k = ''__proto__'' then proto_ops (path @ [Key k]) a else [SetAt (path @ [Key k]) (clone_json a)])
     @ delta_fields path bs as"
| "delta_fields path bs [] = []"
  by pat_completeness auto
termination
  by (relation "measure (\<lambda>x. case x of Inl (b, a, p) \<Rightarrow> size a | Inr (Inl (p, i, bs, as)) \<Rightarrow> size_list size as
      | Inr (Inr (p, bs, as)) \<Rightarrow> size_list (size_prod (\<lambda>_. 0) size) as)") auto

section \<open>Applying operations\<close>

definition path_invalid :: string where
  "path_invalid = ''snapshot_delta_path_invalid''"

definition operation_invalid :: string where
  "operation_invalid = ''snapshot_delta_operation_invalid''"

text \<open>Changing the value at a path.  What only the prototype has is a method and can be neither entered nor truncated.\<close>

fun at_path :: "segment list \<Rightarrow> (jv \<Rightarrow> string + jv) \<Rightarrow> jv \<Rightarrow> string + jv" where
  "at_path [] f v = f v"
| "at_path (Idx i # p) f (JArr vs) = (if i < length vs then map_sum id (\<lambda>v. JArr (vs[i := v])) (at_path p f (vs ! i)) else Inl path_invalid)"
| "at_path (Key k # p) f (JObj kvs) =
     (case map_of kvs k of Some v \<Rightarrow> map_sum id (\<lambda>v. JObj (oput k v kvs)) (at_path p f v) | None \<Rightarrow> Inl path_invalid)"
| "at_path _ f v = Inl path_invalid"

fun put_at :: "segment \<Rightarrow> jv \<Rightarrow> jv \<Rightarrow> string + jv" where
  "put_at (Idx i) x (JArr vs) = (if i < length vs then Inr (JArr (vs[i := x])) else if i = length vs then Inr (JArr (vs @ [x])) else Inl path_invalid)"
| "put_at (Key k) x (JObj kvs) = Inr (JObj (oput k x kvs))"
| "put_at _ x v = Inl path_invalid"

definition object_methods :: "string list" where
  "object_methods = [''hasOwnProperty'', ''isPrototypeOf'', ''propertyIsEnumerable'', ''toLocaleString'', ''toString'', ''valueOf'',
     ''__defineGetter__'', ''__defineSetter__'', ''__lookupGetter__'', ''__lookupSetter__'']"

fun delete_at :: "segment \<Rightarrow> jv \<Rightarrow> string + jv" where
  "delete_at (Key k) (JObj kvs) =
     (if k \<in> fst ` set kvs then Inr (JObj (odel k kvs)) else if k \<in> set object_methods then Inr (JObj kvs) else Inl path_invalid)"
| "delete_at _ v = Inl path_invalid"

fun truncate_to :: "nat \<Rightarrow> jv \<Rightarrow> string + jv" where
  "truncate_to n (JArr vs) = (if n \<le> length vs then Inr (JArr (take n vs)) else Inl path_invalid)"
| "truncate_to n v = Inl path_invalid"

fun apply_op :: "jv \<Rightarrow> delta_op \<Rightarrow> string + jv" where
  "apply_op v (SetAt p x) =
     (if p = [] then cloneJson x
      else case at_path (butlast p) (put_at (last p) (clone_json x)) v of Inl e \<Rightarrow> Inl e | Inr w \<Rightarrow> map_sum id (\<lambda>_. w) (cloneJson x))"
| "apply_op v (DeleteAt p) = (if p = [] then Inl path_invalid else at_path (butlast p) (delete_at (last p)) v)"
| "apply_op v (TruncateAt p n) = at_path p (truncate_to n) v"

fun run_ops :: "jv \<Rightarrow> delta_op list \<Rightarrow> string + jv" where
  "run_ops v [] = Inr v"
| "run_ops v (x # xs) = (case apply_op v x of Inl e \<Rightarrow> Inl e | Inr w \<Rightarrow> run_ops w xs)"

section \<open>Operations as they travel\<close>

fun segment_json :: "segment \<Rightarrow> jv" where
  "segment_json (Idx i) = JNum (js_int (int i))"
| "segment_json (Key k) = JStr k"

fun op_json :: "delta_op \<Rightarrow> jv" where
  "op_json (SetAt p x) = JObj [(''op'', JStr ''set''), (''path'', JArr (map segment_json p)), (''value'', x)]"
| "op_json (DeleteAt p) = JObj [(''op'', JStr ''delete''), (''path'', JArr (map segment_json p))]"
| "op_json (TruncateAt p n) = JObj [(''op'', JStr ''truncate''), (''path'', JArr (map segment_json p)), (''length'', JNum (js_int (int n)))]"

definition unsafePathKey :: "string \<Rightarrow> bool" where
  "unsafePathKey k = (k \<in> {''__proto__'', ''prototype'', ''constructor''})"

fun read_segment :: "jv \<Rightarrow> segment option" where
  "read_segment (JStr k) = (if unsafePathKey k then None else Some (Key k))"
| "read_segment (JNum n) = (if is_count n then Some (Idx (nat (int_of_jsnum n))) else None)"
| "read_segment _ = None"

fun read_segments :: "jv list \<Rightarrow> segment list option" where
  "read_segments [] = Some []"
| "read_segments (v # vs) = (case read_segment v of None \<Rightarrow> None | Some s \<Rightarrow> map_option (Cons s) (read_segments vs))"

definition validatePath :: "jv \<Rightarrow> string + segment list" where
  "validatePath v =
     (case v of
        JArr vs \<Rightarrow> if 64 < length vs then Inl path_invalid
          else (case read_segments vs of None \<Rightarrow> Inl path_invalid | Some p \<Rightarrow> Inr p)
      | _ \<Rightarrow> Inl path_invalid)"

definition read_op :: "jv \<Rightarrow> string + delta_op" where
  "read_op v =
     (case v of
        JObj kvs \<Rightarrow> (case oget kvs ''op'' of
            JStr name \<Rightarrow> (case validatePath (oget kvs ''path'') of
                Inl e \<Rightarrow> Inl e
              | Inr p \<Rightarrow>
                  if name = ''set'' then (case map_of kvs ''value'' of None \<Rightarrow> Inl operation_invalid | Some x \<Rightarrow> Inr (SetAt p x))
                  else if name = ''delete'' then Inr (DeleteAt p)
                  else if name = ''truncate'' then
                    (case oget kvs ''length'' of JNum n \<Rightarrow> if is_count n then Inr (TruncateAt p (nat (int_of_jsnum n))) else Inl operation_invalid
                     | _ \<Rightarrow> Inl operation_invalid)
                  else Inl operation_invalid)
          | _ \<Rightarrow> Inl operation_invalid)
      | _ \<Rightarrow> Inl operation_invalid)"

fun apply_all :: "jv \<Rightarrow> jv list \<Rightarrow> string + jv" where
  "apply_all v [] = Inr v"
| "apply_all v (x # xs) = (case read_op x of
     Inl e \<Rightarrow> Inl e
   | Inr d \<Rightarrow> (case apply_op v d of Inl e \<Rightarrow> Inl e | Inr w \<Rightarrow> apply_all w xs))"

section \<open>The delta of an envelope\<close>

definition max_operations :: nat where
  "max_operations = 250000"

definition context_mismatch :: string where
  "context_mismatch = ''snapshot_delta_context_mismatch''"

definition later_tick :: "obj \<Rightarrow> obj \<Rightarrow> bool" where
  "later_tick e base = (\<not> js_le (case oget e ''serverTick'' of JNum n \<Rightarrow> n | _ \<Rightarrow> NaN) (case oget base ''serverTick'' of JNum n \<Rightarrow> n | _ \<Rightarrow> NaN))"

definition createSnapshotEnvelopeDelta :: "obj \<Rightarrow> obj \<Rightarrow> string + obj" where
  "createSnapshotEnvelopeDelta base e =
     (if oget base ''roomId'' \<noteq> oget e ''roomId'' \<or> oget base ''roomEpoch'' \<noteq> oget e ''roomEpoch'' \<or> \<not> later_tick e base
      then Inl context_mismatch
      else case (cloneJson (oget base ''payload''), cloneJson (oget e ''payload'')) of
        (Inl m, _) \<Rightarrow> Inl m
      | (_, Inl m) \<Rightarrow> Inl m
      | (Inr before, Inr after) \<Rightarrow>
          Inr [(''kind'', JStr ''opsia.snapshot-delta''), (''schemaVersion'', JNum (js_int 1)), (''baseChecksum'', oget base ''checksum''),
               (''baseServerTick'', oget base ''serverTick''), (''target'', JObj (odel ''payload'' e)),
               (''operations'', JArr (map op_json (appendDeltaOperations before after [])))])"

definition delta_fits :: "obj \<Rightarrow> obj \<Rightarrow> bool" where
  "delta_fits base d =
     (oget d ''kind'' = JStr ''opsia.snapshot-delta'' \<and> oget d ''schemaVersion'' = JNum (js_int 1)
      \<and> (case oget d ''baseChecksum'' of JStr s \<Rightarrow> oget base ''checksum'' = JStr s | _ \<Rightarrow> False)
      \<and> oget d ''baseServerTick'' = oget base ''serverTick''
      \<and> (case oget d ''target'' of JObj _ \<Rightarrow> True | _ \<Rightarrow> False)
      \<and> (case oget d ''operations'' of JArr xs \<Rightarrow> length xs \<le> max_operations | _ \<Rightarrow> False))"

definition fields_of :: "jv \<Rightarrow> obj" where
  "fields_of v = (case v of JObj kvs \<Rightarrow> kvs | _ \<Rightarrow> [])"

definition items_in :: "jv \<Rightarrow> jv list" where
  "items_in v = (case v of JArr vs \<Rightarrow> vs | _ \<Rightarrow> [])"

definition applySnapshotEnvelopeDelta :: "json_text \<Rightarrow> (string \<Rightarrow> string) \<Rightarrow> obj \<Rightarrow> jv \<Rightarrow> snapshot_limits \<Rightarrow> string + obj" where
  "applySnapshotEnvelopeDelta j sha base v x =
     (case v of
        JObj d \<Rightarrow>
          if \<not> delta_fits base d then Inl ''snapshot_delta_base_mismatch''
          else (case cloneJson (oget base ''payload'') of
            Inl m \<Rightarrow> Inl m
          | Inr p \<Rightarrow> (case apply_all p (items_in (oget d ''operations'')) of
              Inl m \<Rightarrow> Inl m
            | Inr payload \<Rightarrow> (case verifySnapshotEnvelope j sha (JObj (oput ''payload'' payload (fields_of (oget d ''target'')))) x of
                Inl m \<Rightarrow> Inl m
              | Inr e \<Rightarrow> if oget e ''roomId'' = oget base ''roomId'' \<and> oget e ''roomEpoch'' = oget base ''roomEpoch'' \<and> later_tick e base
                  then Inr e else Inl context_mismatch)))
      | _ \<Rightarrow> Inl ''snapshot_delta_base_mismatch'')"

section \<open>A delta rebuilds its target\<close>

fun prefix_op :: "segment list \<Rightarrow> delta_op \<Rightarrow> delta_op" where
  "prefix_op q (SetAt p x) = SetAt (q @ p) x"
| "prefix_op q (DeleteAt p) = DeleteAt (q @ p)"
| "prefix_op q (TruncateAt p n) = TruncateAt (q @ p) n"

lemma prefix_set_items: "set_items (q @ p) i vs = map (prefix_op q) (set_items p i vs)"
  by (induction vs arbitrary: i) auto

lemma prefix_dropped: "dropped_keys (q @ p) bs as = map (prefix_op q) (dropped_keys p bs as)"
  by (simp add: dropped_keys_def)

lemma prefix_proto: "proto_ops (q @ p) a = map (prefix_op q) (proto_ops p a)"
  by (cases a) (auto simp: proto_ops_def map_concat comp_def split_def intro!: arg_cong [of _ _ concat])

lemma prefix_delta:
  "appendDeltaOperations b a (q @ p) = map (prefix_op q) (appendDeltaOperations b a p)"
  "delta_items (q @ p) i bs as = map (prefix_op q) (delta_items p i bs as)"
  "delta_fields (q @ p) cs ds = map (prefix_op q) (delta_fields p cs ds)"
proof (induction b a p and p i bs as and p cs ds rule: appendDeltaOperations_delta_items_delta_fields.induct)
qed (auto simp: prefix_set_items prefix_dropped prefix_proto [of q "_ @ _", simplified] split: option.splits)

text \<open>Operations under a segment work on the child there.\<close>

fun child :: "segment \<Rightarrow> jv \<Rightarrow> jv option" where
  "child (Idx i) (JArr vs) = (if i < length vs then Some (vs ! i) else None)"
| "child (Key k) (JObj kvs) = map_of kvs k"
| "child _ v = None"

fun with_child :: "segment \<Rightarrow> jv \<Rightarrow> jv \<Rightarrow> jv" where
  "with_child (Idx i) x (JArr vs) = JArr (vs[i := x])"
| "with_child (Key k) x (JObj kvs) = JObj (oput k x kvs)"
| "with_child _ x v = v"

lemma child_cases:
  assumes "child s v = Some c"
  obtains i vs where "s = Idx i" "v = JArr vs" "i < length vs" "c = vs ! i"
  | k kvs where "s = Key k" "v = JObj kvs" "map_of kvs k = Some c"
  using assms by (cases s; cases v) (auto split: if_splits)

lemma oput_twice: "oput k x (oput k y kvs) = oput k x kvs"
  by (induction kvs) auto

lemma child_simps:
  assumes "child s v = Some c"
  shows "child s (with_child s x v) = Some x" and "with_child s y (with_child s x v) = with_child s y v"
    and "with_child s c v = v" and "put_at s x v = Inr (with_child s x v)"
    and "at_path (s # p) f v = map_sum id (\<lambda>w. with_child s w v) (at_path p f c)"
  using assms by (cases rule: child_cases; simp add: oput_twice oput_same)+

lemma map_sum_twice: "map_sum id f (map_sum id g x) = map_sum id (\<lambda>a. f (g a)) x"
  by (cases x) auto

lemma apply_prefix:
  assumes c: "child s v = Some c" and "d \<noteq> DeleteAt []"
  shows "apply_op v (prefix_op [s] d) = map_sum id (\<lambda>w. with_child s w v) (apply_op c d)"
proof (cases d)
  case (SetAt p x)
  show ?thesis
  proof (cases "p = []")
    case True
    then show ?thesis using SetAt child_simps(4) [OF c, of "clone_json x"] by (simp add: cloneJson_def)
  next
    case False
    then show ?thesis
      using SetAt child_simps(5) [OF c] by (cases "at_path (butlast p) (put_at (last p) (clone_json x)) c") (simp_all add: cloneJson_def)
  qed
qed (use assms child_simps(5) [OF c] in auto)

lemma run_append: "run_ops v (xs @ ys) = (case run_ops v xs of Inl e \<Rightarrow> Inl e | Inr w \<Rightarrow> run_ops w ys)"
  by (induction xs arbitrary: v) (auto split: sum.splits)

lemma run_prefix:
  assumes "child s v = Some c" and "DeleteAt [] \<notin> set ds"
  shows "run_ops v (map (prefix_op [s]) ds) = map_sum id (\<lambda>w. with_child s w v) (run_ops c ds)"
  using assms
proof (induction ds arbitrary: v c)
  case Nil
  then show ?case by (simp add: child_simps(3))
next
  case (Cons d ds)
  have first: "apply_op v (prefix_op [s] d) = map_sum id (\<lambda>w. with_child s w v) (apply_op c d)"
    using Cons.prems by (intro apply_prefix) auto
  show ?case
  proof (cases "apply_op c d")
    case (Inr w)
    have "run_ops (with_child s w v) (map (prefix_op [s]) ds) = map_sum id (\<lambda>u. with_child s u (with_child s w v)) (run_ops w ds)"
      using Cons.prems by (intro Cons.IH) (auto simp: child_simps(1))
    then show ?thesis using first Inr by (simp add: child_simps(2) [OF Cons.prems(1)] id_def)
  qed (use first in simp)
qed

lemma set_items_no_delete: "DeleteAt q \<notin> set (set_items p i vs)"
  by (induction vs arbitrary: i) auto

lemma no_root_delete:
  "DeleteAt [] \<notin> set (appendDeltaOperations b a p)"
  "DeleteAt [] \<notin> set (delta_items p i bs as)"
  "DeleteAt [] \<notin> set (delta_fields p cs ds)"
proof (induction b a p and p i bs as and p cs ds rule: appendDeltaOperations_delta_items_delta_fields.induct)
qed (auto simp: set_items_no_delete dropped_keys_def proto_ops_def split: option.splits jv.splits)

lemma run_child:
  assumes "child s v = Some b"
  shows "run_ops v (appendDeltaOperations b a [s]) = map_sum id (\<lambda>w. with_child s w v) (run_ops b (appendDeltaOperations b a []))"
  using run_prefix [OF assms no_root_delete(1)] prefix_delta(1) [of b a "[s]" "[]"] by simp

text \<open>No object has a property \<open>__proto__\<close>.\<close>

fun no_proto :: "jv \<Rightarrow> bool" where
  "no_proto (JArr vs) = list_all no_proto vs"
| "no_proto (JObj kvs) = list_all (\<lambda>(k, v). k \<noteq> ''__proto__'' \<and> no_proto v) kvs"
| "no_proto _ = True"

lemma run_set_items:
  "list_all plain_json vs \<Longrightarrow> run_ops (JArr cs) (set_items [] (length cs) vs) = Inr (JArr (cs @ vs))"
proof (induction vs arbitrary: cs)
  case (Cons v vs)
  then have "v \<noteq> JUndef" "clone_json v = v" by auto
  then show ?case using Cons.IH [of "cs @ [v]"] Cons.prems by (simp add: cloneJson_def)
qed simp

lemma keys_odel: "fst ` set (odel k kvs) = fst ` set kvs - {k}"
  by (auto simp: odel_def)

lemma run_dropped:
  "set ks \<subseteq> fst ` set kvs \<Longrightarrow> distinct ks \<Longrightarrow> run_ops (JObj kvs) (map (\<lambda>k. DeleteAt [Key k]) ks) = Inr (JObj (filter (\<lambda>(k, v). k \<notin> set ks) kvs))"
proof (induction ks arbitrary: kvs)
  case (Cons k ks)
  have "run_ops (JObj (odel k kvs)) (map (\<lambda>k. DeleteAt [Key k]) ks) = Inr (JObj (filter (\<lambda>(k, v). k \<notin> set ks) (odel k kvs)))"
    using Cons.prems by (intro Cons.IH) (auto simp: keys_odel)
  moreover have "filter (\<lambda>(k, v). k \<notin> set ks) (odel k kvs) = filter (\<lambda>(k', v). k' \<notin> set (k # ks)) kvs"
    unfolding odel_def filter_filter by (rule filter_cong) auto
  ultimately show ?case using Cons.prems(1) by (simp add: image_iff)
qed (simp add: filter_True split_def)

lemma plain_put: "plain_json (JObj kvs) \<Longrightarrow> plain_json x \<Longrightarrow> plain_json (JObj (oput k x kvs))"
  using set_oput [of k x kvs] by (auto simp: list_all_iff)

lemma plain_value: "plain_json (JObj kvs) \<Longrightarrow> map_of kvs k = Some v \<Longrightarrow> plain_json v"
  by (auto simp: list_all_iff dest: map_of_SomeD)

lemma item_child: "i < length vs \<Longrightarrow> child (Idx i) (JArr vs) = Some (vs ! i)"
  by simp

text \<open>What the fields of the new object make of the old one.\<close>

definition fields_made :: "(string \<times> jv) list \<Rightarrow> (string \<times> jv) list \<Rightarrow> (string \<times> jv) list \<Rightarrow> bool" where
  "fields_made kvs as made = (plain_json (JObj made) \<and> (\<forall>k. map_option json_norm (map_of made k)
     = (case map_of as k of Some a \<Rightarrow> Some (json_norm a) | None \<Rightarrow> map_option json_norm (map_of kvs k)))
     \<and> map fst made = map fst kvs @ filter (\<lambda>k. k \<notin> fst ` set kvs) (map fst as))"

lemma order_oput: "map fst (oput k c kvs) = (if k \<in> fst ` set kvs then map fst kvs else map fst kvs @ [k])"
  by (induction kvs) (auto, force+)

lemma made_step:
  assumes "fields_made (oput k c kvs) as made" and "json_norm c = json_norm a" and "k \<notin> fst ` set as"
  shows "fields_made kvs ((k, a) # as) made"
proof -
  have "map_of as k = None" using assms(3) by (simp add: map_of_eq_None_iff)
  moreover have "filter (\<lambda>k'. k' \<notin> fst ` set (oput k c kvs)) (map fst as) = filter (\<lambda>k'. k' \<notin> fst ` set kvs) (map fst as)"
    using assms(3) keys_oput [of k c kvs] by (intro filter_cong) (auto simp: order_oput split: if_splits)
  ultimately show ?thesis using assms by (auto simp: fields_made_def order_oput split: option.splits if_splits)
qed

lemma map_of_filter_key: "map_of (filter (\<lambda>(k, v). P k) kvs) k = (if P k then map_of kvs k else None)"
  by (induction kvs) auto

lemma plain_undef: "\<not> plain_json JUndef"
  by simp

lemma delta_run:
  "plain_json b \<Longrightarrow> plain_json a \<Longrightarrow> no_proto a \<Longrightarrow>
     \<exists>c. run_ops b (appendDeltaOperations b a []) = Inr c \<and> plain_json c \<and> json_norm c = json_norm a"
  "list_all plain_json bs \<Longrightarrow> list_all plain_json as \<Longrightarrow> list_all no_proto as \<Longrightarrow> \<forall>cs. length cs = i \<longrightarrow>
     (\<exists>ds. run_ops (JArr (cs @ bs)) (delta_items [] i bs as) = Inr (JArr (cs @ ds)) \<and> list_all plain_json ds \<and> map json_norm ds = map json_norm as)"
  "plain_json (JObj cs) \<Longrightarrow> plain_json (JObj ds) \<Longrightarrow> no_proto (JObj ds) \<Longrightarrow>
     \<forall>kvs. plain_json (JObj kvs) \<longrightarrow> (\<forall>k \<in> fst ` set ds. map_of kvs k = map_of cs k) \<longrightarrow>
       (\<exists>made. run_ops (JObj kvs) (delta_fields [] cs ds) = Inr (JObj made) \<and> fields_made kvs ds made)"
proof (induction b a "p :: segment list" and "q :: segment list" i bs as and "r :: segment list" cs ds rule: appendDeltaOperations_delta_items_delta_fields.induct)
  case (1 bs as p)
  then have "\<exists>ds. run_ops (JArr ([] @ bs)) (delta_items [] 0 bs as) = Inr (JArr ([] @ ds)) \<and> list_all plain_json ds \<and> map json_norm ds = map json_norm as"
    by auto
  then show ?case by auto
next
  case (2 bs as p)
  let ?bs = "filter (\<lambda>(k, v). k \<notin> set (filter (\<lambda>k. k \<notin> fst ` set as) (object_keys bs))) bs"
  have kept: "?bs = filter (\<lambda>(k, v). k \<in> fst ` set as) bs"
    by (rule filter_cong) (auto simp: object_keys_def image_iff)
  have drop: "run_ops (JObj bs) (dropped_keys [] bs as) = Inr (JObj ?bs)"
    unfolding dropped_keys_def append_Nil using 2(2) by (intro run_dropped) (auto simp: object_keys_def)
  have plain: "plain_json (JObj ?bs)" using 2(2) unfolding kept by (auto simp: list_all_iff distinct_map intro: inj_on_subset)
  have found: "map_of ?bs k = (if k \<in> fst ` set as then map_of bs k else None)" for k
    unfolding kept by (rule map_of_filter_key)
  have "plain_json (JObj (sort_key fst as))" "no_proto (JObj (sort_key fst as))" using 2(3,4) by (auto simp: list_all_iff distinct_map)
  note later = 2(1) [OF 2(2) this, THEN spec, of ?bs, THEN mp, OF plain]
  have "\<forall>k \<in> fst ` set (sort_key fst as). map_of ?bs k = map_of bs k" unfolding found by simp
  then obtain made where made: "run_ops (JObj ?bs) (delta_fields [] bs (sort_key fst as)) = Inr (JObj made)" "fields_made ?bs (sort_key fst as) made"
    using later by blast
  have "map_option json_norm (map_of made k) = map_option json_norm (map_of as k)" for k
  proof -
    have "map_of (sort_key fst as) = map_of as" using 2(3) by simp
    then have made_k: "map_option json_norm (map_of made k)
        = (case map_of as k of Some a \<Rightarrow> Some (json_norm a) | None \<Rightarrow> map_option json_norm (map_of ?bs k))"
      using made(2) unfolding fields_made_def by simp
    show ?thesis
    proof (cases "map_of as k")
      case None
      then have "k \<notin> fst ` set as" by (simp add: map_of_eq_None_iff)
      then have "map_of ?bs k = None" using found [of k] by argo
      then show ?thesis unfolding made_k None by simp
    qed (simp add: made_k)
  qed
  moreover have "plain_json (JObj made)" using made(2) unfolding fields_made_def by blast
  ultimately show ?case using drop made(1) 2(3) norm_object_eq [of made as] by (simp add: run_append)
next
  case (4 path i b bs a as)
  show ?case
  proof (intro allI impI)
    fix cs :: "jv list"
    assume len: "length cs = i"
    obtain c where c: "run_ops b (appendDeltaOperations b a []) = Inr c" "plain_json c" "json_norm c = json_norm a" using 4 by auto
    have "run_ops (JArr (cs @ b # bs)) (appendDeltaOperations b a [Idx i]) = Inr (JArr ((cs @ [c]) @ bs))"
      using run_child [OF item_child, of i "cs @ b # bs" a] c(1) len [symmetric] by (simp add: nth_append)
    moreover note 4(2) [THEN spec, of "cs @ [c]", THEN mp]
    then obtain ds where "run_ops (JArr ((cs @ [c]) @ bs)) (delta_items [] (Suc i) bs as) = Inr (JArr ((cs @ [c]) @ ds))"
      "list_all plain_json ds" "map json_norm ds = map json_norm as"
      using 4 len by auto
    ultimately show "\<exists>ds. run_ops (JArr (cs @ b # bs)) (delta_items [] i (b # bs) (a # as)) = Inr (JArr (cs @ ds)) \<and> list_all plain_json ds
        \<and> map json_norm ds = map json_norm (a # as)"
      using c by (intro exI [of _ "c # ds"]) (simp add: run_append)
  qed
next
  case (6 path i as)
  then show ?case using run_set_items [of as] by auto
next
  case (7 path cs k a as)
  show ?case
  proof (intro allI impI)
    fix kvs
    assume kvs: "plain_json (JObj kvs)" and same: "\<forall>k' \<in> fst ` set ((k, a) # as). map_of kvs k' = map_of cs k'"
    have fresh: "k \<notin> fst ` set as" using 7 by auto
    have "\<exists>c. run_ops (JObj kvs) (case map_of cs k of Some b \<Rightarrow> appendDeltaOperations b a [Key k]
        | None \<Rightarrow> if k = ''__proto__'' then proto_ops [Key k] a else [SetAt [Key k] (clone_json a)]) = Inr (JObj (oput k c kvs))
        \<and> plain_json c \<and> json_norm c = json_norm a"
    proof (cases "map_of cs k")
      case None
      have "plain_json a" "a \<noteq> JUndef" "k \<noteq> ''__proto__''" using 7 by auto
      then show ?thesis using None by (auto simp: cloneJson_def)
    next
      case (Some b)
      then obtain c where c: "run_ops b (appendDeltaOperations b a []) = Inr c" "plain_json c" "json_norm c = json_norm a"
        using 7 plain_value [of cs k b] by fastforce
      have "child (Key k) (JObj kvs) = Some b" using same Some by simp
      from run_child [OF this, of a] show ?thesis using c Some by auto
    qed
    then obtain c where c: "run_ops (JObj kvs) (case map_of cs k of Some b \<Rightarrow> appendDeltaOperations b a [Key k]
        | None \<Rightarrow> if k = ''__proto__'' then proto_ops [Key k] a else [SetAt [Key k] (clone_json a)]) = Inr (JObj (oput k c kvs))"
      "plain_json c" "json_norm c = json_norm a" by blast
    have "plain_json (JObj as)" "no_proto (JObj as)" using 7 by auto
    moreover have "\<forall>k' \<in> fst ` set as. map_of (oput k c kvs) k' = map_of cs k'" using same fresh by auto
    ultimately obtain made where made: "run_ops (JObj (oput k c kvs)) (delta_fields [] cs as) = Inr (JObj made)" "fields_made (oput k c kvs) as made"
      using 7 plain_put [OF kvs c(2)] by blast
    have "run_ops (JObj kvs) (delta_fields [] cs ((k, a) # as)) = Inr (JObj made)"
      unfolding delta_fields.simps append_Nil run_append c(1) using made(1) by simp
    then show "\<exists>made. run_ops (JObj kvs) (delta_fields [] cs ((k, a) # as)) = Inr (JObj made) \<and> fields_made kvs ((k, a) # as) made"
      using made_step [OF made(2) c(3) fresh] by blast
  qed
qed (auto simp: cloneJson_def fields_made_def simp del: plain_json.simps clone_json.simps json_norm.simps elim!: notE [OF plain_undef])

text \<open>The order in which the operations leave the properties: what stays keeps its place, what is new comes last, sorted.\<close>

definition rebuilt_keys :: "(string \<times> jv) list \<Rightarrow> (string \<times> jv) list \<Rightarrow> string list" where
  "rebuilt_keys bs as = filter (\<lambda>k. k \<in> fst ` set as) (map fst bs) @ filter (\<lambda>k. k \<notin> fst ` set bs) (sort (map fst as))"

lemma sorted_keys: "map fst (sort_key fst as) = sort (map fst (as :: (string \<times> 'v) list))"
proof -
  have "map fst (insort_key fst x xs) = insort (fst x) (map fst xs)" for x :: "string \<times> 'v" and xs
    by (induction xs) auto
  then show ?thesis by (induction as) simp_all
qed

lemma rebuilt_order:
  assumes bs: "plain_json (JObj bs)" and as: "plain_json (JObj as)" "no_proto (JObj as)"
    and run: "run_ops (JObj bs) (appendDeltaOperations (JObj bs) (JObj as) []) = Inr q"
  obtains made where "q = JObj made" and "map fst made = rebuilt_keys bs as"
proof -
  let ?bs = "filter (\<lambda>(k, v). k \<in> fst ` set as) bs"
  have "filter (\<lambda>(k, v). k \<notin> set (filter (\<lambda>k. k \<notin> fst ` set as) (object_keys bs))) bs = ?bs"
    by (rule filter_cong) (auto simp: object_keys_def image_iff)
  then have drop: "run_ops (JObj bs) (dropped_keys [] bs as) = Inr (JObj ?bs)"
    unfolding dropped_keys_def append_Nil using bs run_dropped [of "filter (\<lambda>k. k \<notin> fst ` set as) (object_keys bs)" bs]
    by (auto simp: object_keys_def)
  have plain: "plain_json (JObj ?bs)" using bs by (auto simp: list_all_iff distinct_map intro: inj_on_subset)
  have "plain_json (JObj (sort_key fst as))" "no_proto (JObj (sort_key fst as))" using as by (auto simp: list_all_iff distinct_map)
  note later = delta_run(3) [OF bs this, THEN spec, of ?bs, THEN mp, OF plain]
  have "\<forall>k \<in> fst ` set (sort_key fst as). map_of ?bs k = map_of bs k" by (simp add: map_of_filter_key)
  then obtain made where made: "run_ops (JObj ?bs) (delta_fields [] bs (sort_key fst as)) = Inr (JObj made)" "fields_made ?bs (sort_key fst as) made"
    using later by blast
  have "map fst ?bs = filter (\<lambda>k. k \<in> fst ` set as) (map fst bs)" by (simp add: filter_map comp_def split_def)
  moreover have "filter (\<lambda>k. k \<notin> fst ` set ?bs) (sort (map fst as)) = filter (\<lambda>k. k \<notin> fst ` set bs) (sort (map fst as))"
    by (rule filter_cong) (auto, force)
  ultimately have "map fst made = rebuilt_keys bs as"
    using made(2) unfolding fields_made_def by (simp add: rebuilt_keys_def sorted_keys)
  moreover have "q = JObj made" using run drop made(1) by (simp add: run_append)
  ultimately show thesis by (rule that [rotated])
qed

end
