(* ===== verification/SnapshotRebuild.thy ===== *)
theory SnapshotRebuild
  imports SnapshotDelta
begin

text \<open>
  A delta that was computed from two snapshots, sent as a message and applied to the first rebuilds the second, and what
  happens when the checksum sees the order of properties.
\<close>

section \<open>What a message can carry\<close>

definition path_ok :: "segment list \<Rightarrow> bool" where
  "path_ok p = (\<forall>s \<in> set p. case s of Idx i \<Rightarrow> int i \<le> MAX_SAFE | Key k \<Rightarrow> \<not> unsafePathKey k)"

fun op_readable :: "delta_op \<Rightarrow> bool" where
  "op_readable (SetAt p x) = (path_ok p \<and> length p \<le> 64)"
| "op_readable (DeleteAt p) = (path_ok p \<and> length p \<le> 64)"
| "op_readable (TruncateAt p n) = (path_ok p \<and> length p \<le> 64 \<and> int n \<le> MAX_SAFE)"

text \<open>At most \<open>n\<close> levels deep, with names and list lengths a path can hold.\<close>

fun delta_safe :: "nat \<Rightarrow> jv \<Rightarrow> bool" where
  "delta_safe n (JArr vs) = (int (length vs) \<le> MAX_SAFE \<and> (vs = [] \<or> 0 < n \<and> list_all (delta_safe (n - 1)) vs))"
| "delta_safe n (JObj kvs) = (kvs = [] \<or> 0 < n \<and> list_all (\<lambda>(k, v). \<not> unsafePathKey k \<and> delta_safe (n - 1) v) kvs)"
| "delta_safe n _ = True"

lemma path_ok_snoc [simp]: "path_ok (p @ [s]) \<longleftrightarrow> path_ok p \<and> (case s of Idx i \<Rightarrow> int i \<le> MAX_SAFE | Key k \<Rightarrow> \<not> unsafePathKey k)"
  by (auto simp: path_ok_def)

lemma read_segments_json: "path_ok p \<Longrightarrow> read_segments (map segment_json p) = Some p"
  by (induction p) (auto simp: path_ok_def is_count_def safe_int_def split: segment.splits)

lemma read_op_json: "op_readable d \<Longrightarrow> read_op (op_json d) = Inr d"
  by (cases d) (simp_all add: read_op_def validatePath_def read_segments_json oget_def is_count_def safe_int_def)

lemma apply_all_json: "\<forall>d \<in> set ds. op_readable d \<Longrightarrow> apply_all v (map op_json ds) = run_ops v ds"
  by (induction ds arbitrary: v) (auto simp: read_op_json split: sum.splits)

lemma set_items_readable:
  "path_ok p \<Longrightarrow> length p < 64 \<Longrightarrow> int (i + length vs) \<le> MAX_SAFE \<Longrightarrow> \<forall>d \<in> set (set_items p i vs). op_readable d"
proof (induction vs arbitrary: i)
  case (Cons v vs)
  then show ?case using Cons.IH [of "Suc i"] by simp
qed simp

lemma delta_readable:
  "\<And>n. delta_safe n b \<Longrightarrow> delta_safe n a \<Longrightarrow> path_ok p \<Longrightarrow> length p + n \<le> 64 \<Longrightarrow> \<forall>d \<in> set (appendDeltaOperations b a p). op_readable d"
  "\<And>n. list_all (delta_safe n) bs \<Longrightarrow> list_all (delta_safe n) as \<Longrightarrow> int (i + length bs) \<le> MAX_SAFE \<Longrightarrow> int (i + length as) \<le> MAX_SAFE
     \<Longrightarrow> path_ok q \<Longrightarrow> length q + Suc n \<le> 64 \<Longrightarrow> \<forall>d \<in> set (delta_items q i bs as). op_readable d"
  "\<And>n. list_all (\<lambda>(k, v). \<not> unsafePathKey k \<and> delta_safe n v) cs \<Longrightarrow> list_all (\<lambda>(k, v). \<not> unsafePathKey k \<and> delta_safe n v) ds
     \<Longrightarrow> path_ok r \<Longrightarrow> length r + Suc n \<le> 64 \<Longrightarrow> \<forall>d \<in> set (delta_fields r cs ds). op_readable d"
proof (induction b a p and q i bs as and r cs ds rule: appendDeltaOperations_delta_items_delta_fields.induct)
  case (1 bs as p)
  show ?case
  proof (cases n)
    case 0
    then show ?thesis using 1 by simp
  next
    case (Suc m)
    then have "list_all (delta_safe m) bs" "list_all (delta_safe m) as" "length p + Suc m \<le> 64" using 1 by auto
    then show ?thesis using 1 by simp
  qed
next
  case (2 bs as p)
  show ?case
  proof (cases n)
    case 0
    then show ?thesis using 2 by (simp add: dropped_keys_def object_keys_def)
  next
    case (Suc m)
    then have safe: "list_all (\<lambda>(k, v). \<not> unsafePathKey k \<and> delta_safe m v) bs"
      "list_all (\<lambda>(k, v). \<not> unsafePathKey k \<and> delta_safe m v) (sort_key fst as)" "length p + Suc m \<le> 64"
      using 2 by (auto simp: list_all_iff)
    then have "\<forall>d \<in> set (delta_fields p bs (sort_key fst as)). op_readable d" using 2 by blast
    moreover have "\<forall>d \<in> set (dropped_keys p bs as). op_readable d"
      using safe 2(4) by (auto simp: dropped_keys_def object_keys_def list_all_iff)
    ultimately show ?thesis by auto
  qed
next
  case (4 path i b bs a as)
  then have "\<forall>d \<in> set (appendDeltaOperations b a (path @ [Idx i])). op_readable d" by auto
  moreover have "\<forall>d \<in> set (delta_items path (Suc i) bs as). op_readable d" using 4 by auto
  ultimately show ?case by auto
next
  case (6 path i as)
  then show ?case using set_items_readable [of path i as] by simp
next
  case (7 path cs k a as)
  have later: "\<forall>d \<in> set (delta_fields path cs as). op_readable d" using 7 by auto
  have k: "\<not> unsafePathKey k" "k \<noteq> ''__proto__''" "delta_safe n a" using 7 by (auto simp: unsafePathKey_def)
  show ?case
  proof (cases "map_of cs k")
    case None
    then show ?thesis using later k 7 by auto
  next
    case (Some b)
    then have "delta_safe n b" using 7 by (auto simp: list_all_iff dest: map_of_SomeD)
    then have "\<forall>d \<in> set (appendDeltaOperations b a (path @ [Key k])). op_readable d" using 7 Some k by auto
    then show ?thesis using later Some by auto
  qed
qed auto

lemma safe_no_proto: "delta_safe n v \<Longrightarrow> no_proto v"
  by (induction n v rule: delta_safe.induct) (auto simp: list_all_iff unsafePathKey_def)


section \<open>Envelopes that differ in the order of their payload\<close>

lemma same_fields:
  assumes "distinct (map fst xs)" and "distinct (map fst ys)" and "json_norm (JObj xs) = json_norm (JObj ys)"
  shows "map_option json_norm (map_of xs k) = map_option json_norm (map_of ys k)"
proof -
  have norm: "map_of (sort_key fst (map (\<lambda>(k, v). (k, json_norm v)) zs)) k = map_option json_norm (map_of zs k)"
    if "distinct (map fst zs)" for zs
  proof -
    have "distinct (map fst (map (\<lambda>(k, v). (k, json_norm v)) zs))" using that by (simp only: keys_norm)
    then show ?thesis using map_of_map [of json_norm zs] by (simp only: map_of_sort_key comp_def)
  qed
  show ?thesis using norm [OF assms(1)] norm [OF assms(2)] assms(3) by simp
qed

lemma norm_atoms [simp]:
  "json_norm v = JStr s \<longleftrightarrow> v = JStr s" "json_norm v = JNum n \<longleftrightarrow> v = JNum n" "JStr s = json_norm v \<longleftrightarrow> v = JStr s" "JNum n = json_norm v \<longleftrightarrow> v = JNum n"
  by (cases v; auto)+

lemma same_get:
  assumes "distinct (map fst xs)" and "distinct (map fst ys)" and "json_norm (JObj xs) = json_norm (JObj ys)"
  shows "json_norm (oget xs k) = json_norm (oget ys k)"
  using same_fields [OF assms, of k] by (auto simp: oget_def split: option.splits)

text \<open>The envelope with another payload.\<close>

definition with_payload :: "jv \<Rightarrow> obj \<Rightarrow> obj" where
  "with_payload p e = oput ''payload'' p (odel ''payload'' e)"

lemma get_with_payload: "oget (with_payload p e) k = (if k = ''payload'' then p else oget e k)"
  by (simp add: with_payload_def oget_def)

lemma content_with_payload:
  "envelopeContent (with_payload p e) = map (\<lambda>(k, v). (k, if k = ''payload'' then p else v)) (envelopeContent e)"
  by (simp add: envelopeContent_def signed_fields_def get_with_payload)

lemma shape_present:
  assumes "envelope_shape e"
  shows "\<And>k. k \<in> set signed_fields \<Longrightarrow> oget e k \<noteq> JUndef" and "oget e ''payload'' \<noteq> JUndef"
proof -
  have absent: "is_text v \<Longrightarrow> v \<noteq> JUndef" "is_count_jv v \<Longrightarrow> v \<noteq> JUndef" "is_finite_jv v \<Longrightarrow> v \<noteq> JUndef" "is_safe_jv v \<Longrightarrow> v \<noteq> JUndef" for v
    by (auto simp: is_text_def is_count_jv_def is_finite_jv_def)
  obtain p where p: "oget e ''payload'' = JObj p" using assms by (auto simp: envelope_shape_def split: jv.splits)
  then show "oget e ''payload'' \<noteq> JUndef" by simp
  note shape = assms [unfolded envelope_shape_def p jv.case]
  have "list_all (\<lambda>k. oget e k \<noteq> JUndef) signed_fields"
    unfolding signed_fields_def using shape by (simp add: absent)
  then show "oget e k \<noteq> JUndef" if "k \<in> set signed_fields" for k using that by (simp add: list_all_iff)
qed

lemma plain_get: "plain_json (JObj e) \<Longrightarrow> oget e k \<noteq> JUndef \<Longrightarrow> plain_json (oget e k)"
  by (auto simp: oget_def simp del: plain_json.simps split: option.splits dest: plain_value)

lemma plain_content:
  assumes "plain_json (JObj e)" and "envelope_shape e"
  shows "plain_json (JObj (envelopeContent e))"
proof -
  have "distinct (map fst (envelopeContent e))"
    by (simp add: envelopeContent_def signed_fields_def)
  moreover have "\<forall>(k, v) \<in> set (envelopeContent e). plain_json v"
  proof -
    have "plain_json (oget e k)" if "k \<in> set signed_fields \<or> k = ''payload''" for k
      using plain_get [OF assms(1)] shape_present [OF assms(2)] that by auto
    moreover have "plain_json (oget e k)" if "truthy (oget e k)" for k
      using plain_get [OF assms(1), of k] that by (cases "oget e k = JUndef") auto
    ultimately show ?thesis unfolding envelopeContent_def by auto
  qed
  ultimately show ?thesis by (auto simp: list_all_iff)
qed

lemma norm_object_only: "json_norm q = json_norm (JObj ps) \<Longrightarrow> \<exists>qs. q = JObj qs"
  by (cases q) auto

lemma map_of_map_key: "map_of (map (\<lambda>(k, v). (k, f k v)) kvs) k = map_option (f k) (map_of kvs k)"
  by (induction kvs) auto

lemma content_encoding: "oget (envelopeContent e) ''checksumEncoding'' = JStr ordered_encoding \<longleftrightarrow> oget e ''checksumEncoding'' = JStr ordered_encoding"
proof (cases "truthy (oget e ''checksumEncoding'')")
  case False
  then have "oget e ''checksumEncoding'' \<noteq> JStr ordered_encoding" by (auto simp: ordered_encoding_def)
  with False show ?thesis by (simp add: envelopeContent_def signed_fields_def oget_def [of "_ # _"])
qed (simp add: envelopeContent_def signed_fields_def oget_def [of "_ # _"])

lemma shape_with_payload:
  assumes "envelope_shape e" and p: "oget e ''payload'' = JObj ps"
    and "\<And>k. json_norm (oget qs k) = json_norm (oget ps k)"
  shows "envelope_shape (with_payload (JObj qs) e)"
proof -
  note shape = assms(1) [unfolded envelope_shape_def p jv.case]
  obtain n where n: "oget e ''payloadSchemaVersion'' = JNum n" using shape by (cases "oget e ''payloadSchemaVersion''") auto
  then have schema: "oget qs ''schemaVersion'' = JNum n" using shape assms(3) [of "''schemaVersion''"] by simp
  have "oget ps ''roomId'' = JStr r" if "oget qs ''roomId'' = JStr r" for r
    using assms(3) [of "''roomId''"] that by simp
  then have room: "case oget qs ''roomId'' of JStr r \<Rightarrow> oget e ''roomId'' = JStr r | _ \<Rightarrow> True"
    using shape by (auto split: jv.splits)
  show ?thesis
    unfolding envelope_shape_def get_with_payload using shape schema room n by simp
qed

lemma plain_odel: "plain_json (JObj kvs) \<Longrightarrow> plain_json (JObj (odel k kvs))"
  using distinct_odel [of kvs k] by (simp add: list_all_iff) (simp add: odel_def)

lemma reordered:
  assumes shape: "envelope_shape e" and plain: "plain_json (JObj e)"
    and q: "plain_json q" "json_norm q = json_norm (oget e ''payload'')"
  shows "envelope_shape (with_payload q e)" and "json_norm (JObj (with_payload q e)) = json_norm (JObj e)"
    and "plain_json (JObj (with_payload q e))"
    and "json_norm (JObj (envelopeContent (with_payload q e))) = json_norm (JObj (envelopeContent e))"
    and "json_bytes j (JObj (with_payload q e)) = json_bytes j (JObj e)"
proof -
  obtain ps where p: "oget e ''payload'' = JObj ps" using shape by (auto simp: envelope_shape_def split: jv.splits)
  obtain qs where qs: "q = JObj qs" using norm_object_only [of q ps] q(2) p by auto
  have ps: "plain_json (JObj ps)" using plain_get [OF plain, of "''payload''"] p by simp
  show shape': "envelope_shape (with_payload q e)"
    unfolding qs using shape p same_get [of qs ps] q ps p qs by (intro shape_with_payload) auto
  have "map_of e ''payload'' = Some (JObj ps)" using p by (auto simp: oget_def split: option.splits)
  then have same: "map_option json_norm (map_of (with_payload q e) k) = map_option json_norm (map_of e k)" for k
    using q(2) p by (simp add: with_payload_def)
  have distinct: "distinct (map fst e)" "distinct (map fst (with_payload q e))"
    using plain by (simp_all add: with_payload_def)
  show norm: "json_norm (JObj (with_payload q e)) = json_norm (JObj e)"
    by (rule norm_object_eq [OF distinct(2,1) same])
  show plain': "plain_json (JObj (with_payload q e))"
    unfolding with_payload_def by (intro plain_put q plain_odel plain)
  have "map_option json_norm (map_of (envelopeContent (with_payload q e)) k) = map_option json_norm (map_of (envelopeContent e) k)" for k
  proof -
    have "map_of (envelopeContent e) ''payload'' = Some (JObj ps)" by (simp add: envelopeContent_def signed_fields_def p)
    then show ?thesis unfolding content_with_payload map_of_map_key using q(2) p
      by (cases "k = ''payload''") (simp_all add: option.map_comp comp_def)
  qed
  then show "json_norm (JObj (envelopeContent (with_payload q e))) = json_norm (JObj (envelopeContent e))"
    using plain_content plain plain' shape shape' by (intro norm_object_eq) auto
  show "json_bytes j (JObj (with_payload q e)) = json_bytes j (JObj e)"
    by (rule json_bytes_norm [OF plain' plain norm])
qed

text \<open>What the verifier makes of the envelope with the payload in another order: the checksum alone decides.\<close>

lemma reordered_verification:
  assumes verify: "verifySnapshotEnvelope j sha (JObj e) x = Inr e" and plain: "plain_json (JObj e)"
    and q: "plain_json q" "json_norm q = json_norm (oget e ''payload'')"
  shows "verifySnapshotEnvelope j sha (JObj (with_payload q e)) x =
    (case envelopeChecksum j sha (envelopeContent (with_payload q e)) of
       Inl m \<Rightarrow> Inl m
     | Inr digest \<Rightarrow> if hex_bytes (text_of (oget e ''checksum'')) = hex_bytes digest then Inr (with_payload q e) else Inl ''snapshot_checksum_mismatch'')"
proof -
  note same = reordered [OF envelope_verified(2) [OF verify] plain q]
  show ?thesis
    using verify same(1) envelope_verified(2) [OF verify] unfolding verifySnapshotEnvelope_def jv.case same(5) get_with_payload
    by (auto split: if_splits)
qed

lemma canonical_checksum_kept:
  assumes "envelope_shape e" and "plain_json (JObj e)" and "plain_json q" and "json_norm q = json_norm (oget e ''payload'')"
    and canonical: "oget e ''checksumEncoding'' \<noteq> JStr ordered_encoding"
  shows "envelopeChecksum j sha (envelopeContent (with_payload q e)) = envelopeChecksum j sha (envelopeContent e)"
proof -
  note same = reordered [OF assms(1-4)]
  have "plain_json (JObj (envelopeContent e))" "plain_json (JObj (envelopeContent (with_payload q e)))"
    using plain_content assms(1,2) same(1,3) by auto
  then have "canonicalJson j (JObj (envelopeContent (with_payload q e))) = canonicalJson j (JObj (envelopeContent e))"
    using canonical_norm [of _ j] same(4) by metis
  then show ?thesis
    using canonical by (simp only: envelopeChecksum_def content_encoding checksumValue_def get_with_payload) simp
qed

section \<open>The rebuilt snapshot\<close>

text \<open>The operations do not depend on the order of properties in the old payload.\<close>

lemma sorted_keys_norm: "map fst (sort_key fst (map (\<lambda>(k, v). (k, json_norm v)) kvs)) = sort (map fst kvs)" for kvs :: "(string \<times> jv) list"
proof -
  have "map fst (sort_key fst xs) = sort (map fst xs)" for xs :: "(string \<times> jv) list"
    by (rule sort_same_key [symmetric]) simp
  then show ?thesis unfolding keys_norm [of json_norm kvs, symmetric] .
qed

lemma leaf_same:
  assumes norm: "json_norm b' = json_norm b" and "\<nexists>as bs. a = JArr as \<and> b = JArr bs" and "\<nexists>as bs. a = JObj as \<and> b = JObj bs"
  shows "appendDeltaOperations b' a p = appendDeltaOperations b a p"
proof (cases "b' = b")
  case False
  then have "(\<exists>xs ys. b = JArr xs \<and> b' = JArr ys) \<or> (\<exists>xs ys. b = JObj xs \<and> b' = JObj ys)"
    using norm by (cases b; cases b') auto
  then show ?thesis using assms(2,3) by (cases a) auto
qed simp

lemma delta_same_norm:
  "\<forall>b'. plain_json b \<longrightarrow> plain_json b' \<longrightarrow> json_norm b' = json_norm b \<longrightarrow> appendDeltaOperations b' a p = appendDeltaOperations b a p"
  "\<forall>bs'. list_all plain_json bs \<longrightarrow> list_all plain_json bs' \<longrightarrow> map json_norm bs' = map json_norm bs \<longrightarrow> delta_items q i bs' as = delta_items q i bs as"
  "\<forall>cs'. plain_json (JObj cs) \<longrightarrow> plain_json (JObj cs') \<longrightarrow> (\<forall>k. map_option json_norm (map_of cs' k) = map_option json_norm (map_of cs k))
     \<longrightarrow> delta_fields r cs' ds = delta_fields r cs ds"
proof (induction b a p and q i bs as and r cs ds rule: appendDeltaOperations_delta_items_delta_fields.induct)
  case (1 bs as path)
  show ?case
  proof (intro allI impI)
    fix b' assume plain: "plain_json (JArr bs)" "plain_json b'" and norm: "json_norm b' = json_norm (JArr bs)"
    obtain cs where cs: "b' = JArr cs" "map json_norm cs = map json_norm bs" using norm by (cases b') simp_all
    then have "delta_items path 0 cs as = delta_items path 0 bs as" using 1 [THEN spec, of cs] plain by simp
    then show "appendDeltaOperations b' (JArr as) path = appendDeltaOperations (JArr bs) (JArr as) path" using cs(1) by simp
  qed
next
  case (2 bs as path)
  show ?case
  proof (intro allI impI)
    fix b' assume plain: "plain_json (JObj bs)" "plain_json b'" and norm: "json_norm b' = json_norm (JObj bs)"
    obtain cs where cs: "b' = JObj cs" using norm_object_only [OF norm] by blast
    have "object_keys cs = object_keys bs"
      using norm sorted_keys_norm [of cs] sorted_keys_norm [of bs] unfolding cs object_keys_def by simp
    moreover have "delta_fields path cs (sort_key fst as) = delta_fields path bs (sort_key fst as)"
      using 2 [THEN spec, of cs] plain same_fields [of cs bs] norm unfolding cs by simp
    ultimately show "appendDeltaOperations b' (JObj as) path = appendDeltaOperations (JObj bs) (JObj as) path"
      unfolding cs by (simp add: dropped_keys_def)
  qed
next
  case (7 path cs k a as)
  show ?case
  proof (intro allI impI)
    fix cs' assume plain: "plain_json (JObj cs)" "plain_json (JObj cs')"
      and norm: "\<forall>k. map_option json_norm (map_of cs' k) = map_option json_norm (map_of cs k)"
    have rest: "delta_fields path cs' as = delta_fields path cs as" using 7(2) plain norm by blast
    show "delta_fields path cs' ((k, a) # as) = delta_fields path cs ((k, a) # as)"
    proof (cases "map_of cs k")
      case None
      then have "map_of cs' k = None" using norm [THEN spec, of k] by simp
      then show ?thesis using None rest by simp
    next
      case (Some b)
      then obtain b' where b': "map_of cs' k = Some b'" "json_norm b' = json_norm b" using norm [THEN spec, of k] by auto
      have "appendDeltaOperations b' a (path @ [Key k]) = appendDeltaOperations b a (path @ [Key k])"
        using 7(1) [OF Some] plain_value [OF plain(1) Some] plain_value [OF plain(2) b'(1)] b'(2) by blast
      then show ?thesis using Some b'(1) rest by simp
    qed
  qed
next
  case (4 path i b bs a as)
  show ?case
  proof (intro allI impI)
    fix bs' assume plain: "list_all plain_json (b # bs)" "list_all plain_json bs'" and norm: "map json_norm bs' = map json_norm (b # bs)"
    then obtain b' cs where bs': "bs' = b' # cs" "json_norm b' = json_norm b" "map json_norm cs = map json_norm bs" by (cases bs') auto
    have plains: "plain_json b" "plain_json b'" "list_all plain_json bs" "list_all plain_json cs" using plain bs'(1) by simp_all
    have "appendDeltaOperations b' a (path @ [Idx i]) = appendDeltaOperations b a (path @ [Idx i])"
      using 4(1) plains bs'(2) by blast
    moreover have "delta_items path (Suc i) cs as = delta_items path (Suc i) bs as" using 4(2) plains bs'(3) by blast
    ultimately show "delta_items path i bs' (a # as) = delta_items path i (b # bs) (a # as)" using bs'(1) by simp
  qed
next
  case (5 path i b bs)
  show ?case by (intro allI impI) (auto simp: map_eq_Cons_conv)
next
  case (6 path i as)
  show ?case by simp
next
  case (8 path bs)
  show ?case by simp
qed (intro allI impI leaf_same; simp)+

text \<open>Two verified envelopes of one room and epoch, the second later, whose payloads a delta can carry.\<close>

definition delta_pair :: "json_text \<Rightarrow> (string \<Rightarrow> string) \<Rightarrow> snapshot_limits \<Rightarrow> obj \<Rightarrow> obj \<Rightarrow> bool" where
  "delta_pair j sha x base e =
     (verifySnapshotEnvelope j sha (JObj base) x = Inr base \<and> plain_json (JObj base)
      \<and> verifySnapshotEnvelope j sha (JObj e) x = Inr e \<and> plain_json (JObj e)
      \<and> oget base ''roomId'' = oget e ''roomId'' \<and> oget base ''roomEpoch'' = oget e ''roomEpoch'' \<and> later_tick e base
      \<and> delta_safe 64 (oget base ''payload'') \<and> delta_safe 64 (oget e ''payload'')
      \<and> length (appendDeltaOperations (oget base ''payload'') (oget e ''payload'') []) \<le> max_operations)"

text \<open>The delta of such a pair, applied to any base that is the first up to the order of its payload.\<close>

definition same_base :: "obj \<Rightarrow> obj \<Rightarrow> bool" where
  "same_base base base' = ((\<forall>k. k \<noteq> ''payload'' \<longrightarrow> oget base' k = oget base k) \<and> plain_json (oget base' ''payload'')
     \<and> json_norm (oget base' ''payload'') = json_norm (oget base ''payload''))"

lemma delta_applies:
  assumes pair: "delta_pair j sha x base e"
  obtains d where "createSnapshotEnvelopeDelta base e = Inr d"
    and "\<And>base'. same_base base base' \<Longrightarrow> \<exists>q. run_ops (oget base' ''payload'') (appendDeltaOperations (oget base ''payload'') (oget e ''payload'') []) = Inr q
      \<and> plain_json q \<and> json_norm q = json_norm (oget e ''payload'')
      \<and> applySnapshotEnvelopeDelta j sha base' (JObj d) x = verifySnapshotEnvelope j sha (JObj (with_payload q e)) x"
proof -
  let ?b = "oget base ''payload''" and ?a = "oget e ''payload''"
  have base: "verifySnapshotEnvelope j sha (JObj base) x = Inr base" "plain_json (JObj base)"
    and target: "verifySnapshotEnvelope j sha (JObj e) x = Inr e" "plain_json (JObj e)"
    and room: "oget base ''roomId'' = oget e ''roomId''" "oget base ''roomEpoch'' = oget e ''roomEpoch''" "later_tick e base"
    and safe: "delta_safe 64 ?b" "delta_safe 64 ?a" and few: "length (appendDeltaOperations ?b ?a []) \<le> max_operations"
    using pair by (simp_all add: delta_pair_def)
  note shapes = envelope_verified(2) [OF base(1)] envelope_verified(2) [OF target(1)]
  have plain: "plain_json ?b" "plain_json ?a"
    using plain_get base(2) target(2) shape_present(2) shapes by blast+
  then have clones: "cloneJson ?b = Inr ?b" "cloneJson ?a = Inr ?a" by (auto simp: cloneJson_def)
  let ?ops = "appendDeltaOperations ?b ?a []"
  have readable: "\<forall>d \<in> set ?ops. op_readable d" using safe by (intro delta_readable(1) [where n = 64]) (simp_all add: path_ok_def)
  define d where "d = [(''kind'', JStr ''opsia.snapshot-delta''), (''schemaVersion'', JNum (js_int 1)), (''baseChecksum'', oget base ''checksum''),
               (''baseServerTick'', oget base ''serverTick''), (''target'', JObj (odel ''payload'' e)), (''operations'', JArr (map op_json ?ops))]"
  have created: "createSnapshotEnvelopeDelta base e = Inr d"
    using room clones by (simp add: createSnapshotEnvelopeDelta_def d_def)
  have fields: "oget d ''kind'' = JStr ''opsia.snapshot-delta''" "oget d ''schemaVersion'' = JNum (js_int 1)"
    "oget d ''baseChecksum'' = oget base ''checksum''" "oget d ''baseServerTick'' = oget base ''serverTick''"
    "oget d ''target'' = JObj (odel ''payload'' e)" "oget d ''operations'' = JArr (map op_json ?ops)"
    by (simp_all add: d_def oget_def [of "_ # _"])
  have applies: "\<exists>q. run_ops (oget base' ''payload'') ?ops = Inr q \<and> plain_json q \<and> json_norm q = json_norm ?a
      \<and> applySnapshotEnvelopeDelta j sha base' (JObj d) x = verifySnapshotEnvelope j sha (JObj (with_payload q e)) x"
    if same: "same_base base base'" for base'
  proof -
    let ?b' = "oget base' ''payload''"
    have b': "plain_json ?b'" "json_norm ?b' = json_norm ?b" and others: "\<And>k. k \<noteq> ''payload'' \<Longrightarrow> oget base' k = oget base k"
      using same by (simp_all add: same_base_def)
    have "appendDeltaOperations ?b' ?a [] = ?ops" using delta_same_norm(1) plain(1) b' by blast
    then obtain q where q: "run_ops ?b' ?ops = Inr q" "plain_json q" "json_norm q = json_norm ?a"
      using delta_run(1) [OF b'(1) plain(2) safe_no_proto [OF safe(2)]] by auto
    have applied: "apply_all ?b' (map op_json ?ops) = Inr q" using apply_all_json readable q(1) by simp
    have clone: "cloneJson ?b' = Inr ?b'" using b'(1) by (auto simp: cloneJson_def)
    have "\<exists>s. oget base ''checksum'' = JStr s" using shapes(1) by (auto simp: envelope_shape_def split: jv.splits)
    then have "delta_fits base' d" unfolding delta_fits_def fields using few by (auto simp: others)
    moreover have "oget (with_payload q e) ''roomId'' = oget base' ''roomId''" "oget (with_payload q e) ''roomEpoch'' = oget base' ''roomEpoch''"
      "later_tick (with_payload q e) base'"
      using room by (simp_all add: get_with_payload later_tick_def others)
    moreover have "verifySnapshotEnvelope j sha (JObj (with_payload q e)) x = Inr e' \<Longrightarrow> e' = with_payload q e" for e'
      using envelope_verified(1) by blast
    ultimately have "applySnapshotEnvelopeDelta j sha base' (JObj d) x = verifySnapshotEnvelope j sha (JObj (with_payload q e)) x"
      using clone applied
      by (auto simp: applySnapshotEnvelopeDelta_def fields items_in_def fields_of_def with_payload_def split: sum.splits)
    then show ?thesis using q by blast
  qed
  show thesis by (rule that [OF created applies])
qed

lemma pair_plain: "delta_pair j sha x base e \<Longrightarrow> plain_json (oget base ''payload'') \<and> plain_json (oget e ''payload'')"
  using plain_get shape_present(2) envelope_verified(2) unfolding delta_pair_def by blast

lemma same_base_refl: "delta_pair j sha x base e \<Longrightarrow> same_base base base"
  using pair_plain by (simp add: same_base_def)

text \<open>Hashed canonically, the rebuilt envelope is verified, and is in turn a base for the next delta.\<close>

lemma delta_rebuilds_from:
  assumes pair: "delta_pair j sha x base e" and canonical: "oget e ''checksumEncoding'' \<noteq> JStr ordered_encoding"
    and create: "createSnapshotEnvelopeDelta base e = Inr d" and same: "same_base base base'"
  obtains q where "applySnapshotEnvelopeDelta j sha base' (JObj d) x = Inr (with_payload q e)"
    and "plain_json q" and "json_norm q = json_norm (oget e ''payload'')"
    and "same_base e (with_payload q e)"
proof -
  obtain q where q: "plain_json q" "json_norm q = json_norm (oget e ''payload'')"
    and run: "applySnapshotEnvelopeDelta j sha base' (JObj d) x = verifySnapshotEnvelope j sha (JObj (with_payload q e)) x"
    using delta_applies [OF pair] create same by (metis Inr_inject)
  have target: "verifySnapshotEnvelope j sha (JObj e) x = Inr e" "plain_json (JObj e)" using pair by (simp_all add: delta_pair_def)
  obtain digest where "envelopeChecksum j sha (envelopeContent e) = Inr digest" "hex_bytes (text_of (oget e ''checksum'')) = hex_bytes digest"
    using envelope_verified(4) [OF target(1)] by blast
  then have "verifySnapshotEnvelope j sha (JObj (with_payload q e)) x = Inr (with_payload q e)"
    unfolding reordered_verification [OF target q] canonical_checksum_kept [OF envelope_verified(2) [OF target(1)] target(2) q canonical] by simp
  moreover have "same_base e (with_payload q e)" using q by (simp add: same_base_def get_with_payload)
  ultimately show thesis using that run q by simp
qed

text \<open>C9: A delta rebuilds its target.  Take two verified envelopes of one room and epoch, the second later, hashed
  canonically, whose payloads are at most 64 levels deep, have no list longer than \<open>2 ^ 53 - 1\<close>, no property named
  \<open>__proto__\<close>, \<open>prototype\<close> or \<open>constructor\<close>, and differ in at most 250000 operations.  Then the delta is created, and
  applied to the first it is accepted and gives the second, up to the order of properties in its payload: every other
  field is the same, and the payload has the same canonical text.\<close>

theorem delta_rebuilds_snapshot:
  assumes pair: "delta_pair j sha x base e" and canonical: "oget e ''checksumEncoding'' \<noteq> JStr ordered_encoding"
  shows "\<exists>d q. createSnapshotEnvelopeDelta base e = Inr d
    \<and> applySnapshotEnvelopeDelta j sha base (JObj d) x = Inr (with_payload q e)
    \<and> json_norm q = json_norm (oget e ''payload'') \<and> canonicalJson j q = canonicalJson j (oget e ''payload'')"
proof -
  obtain d where d: "createSnapshotEnvelopeDelta base e = Inr d" by (rule delta_applies [OF pair])
  obtain q where "applySnapshotEnvelopeDelta j sha base (JObj d) x = Inr (with_payload q e)"
    and q: "plain_json q" "json_norm q = json_norm (oget e ''payload'')"
    by (rule delta_rebuilds_from [OF pair canonical d same_base_refl [OF pair]])
  moreover have "canonicalJson j q = canonicalJson j (oget e ''payload'')"
    using canonical_norm [of _ j] q pair_plain [OF pair] by metis
  ultimately show ?thesis using d by auto
qed

text \<open>
  A list of properties is in the order of insertion.  JavaScript lists properties named by an array index before all
  others; a value without such names has the order of its list.
\<close>

definition index_name :: "string \<Rightarrow> bool" where
  "index_name k = (k \<noteq> [] \<and> list_all (\<lambda>c. c \<in> set ''0123456789'') k)"

fun insertion_ordered :: "jv \<Rightarrow> bool" where
  "insertion_ordered (JArr vs) = list_all insertion_ordered vs"
| "insertion_ordered (JObj kvs) = list_all (\<lambda>(k, v). \<not> index_name k \<and> insertion_ordered v) kvs"
| "insertion_ordered _ = True"

text \<open>C36: With the encoding \<open>ordered-json\<close> the order in which a delta leaves the properties decides whether it is accepted.
  For two envelopes as in C9, hashed in order and without a property named by an array index, the delta is created, and
  its operations turn the first payload into a value with the content of the second whose own properties stand in one
  determined order: those of the first that stay, in their places, and then the new ones, sorted, wherever the second
  has them.  The delta is accepted, with that value, exactly when the digest of the text in that order is the checksum
  that the second envelope carries, which is the digest of its own text in its own order; otherwise it is refused with a
  checksum mismatch, although both envelopes are valid.\<close>

theorem reordering_delta_is_refused:
  assumes pair: "delta_pair j sha x base e" and ordered: "oget e ''checksumEncoding'' = JStr ordered_encoding"
    and payloads: "oget base ''payload'' = JObj bs" "oget e ''payload'' = JObj as"
    and names: "insertion_ordered (JObj base)" "insertion_ordered (JObj e)"
  shows "\<exists>d qs t t'. createSnapshotEnvelopeDelta base e = Inr d
    \<and> run_ops (JObj bs) (appendDeltaOperations (JObj bs) (JObj as) []) = Inr (JObj qs)
    \<and> json_norm (JObj qs) = json_norm (JObj as) \<and> map fst qs = rebuilt_keys bs as
    \<and> orderedJson j (JObj (envelopeContent e)) = Inr t \<and> hex_bytes (text_of (oget e ''checksum'')) = hex_bytes (sha t)
    \<and> orderedJson j (JObj (envelopeContent (with_payload (JObj qs) e))) = Inr t'
    \<and> applySnapshotEnvelopeDelta j sha base (JObj d) x =
        (if hex_bytes (sha t') = hex_bytes (sha t) then Inr (with_payload (JObj qs) e) else Inl ''snapshot_checksum_mismatch'')"
proof -
  obtain d q where d: "createSnapshotEnvelopeDelta base e = Inr d"
    and q: "run_ops (JObj bs) (appendDeltaOperations (JObj bs) (JObj as) []) = Inr q" "plain_json q" "json_norm q = json_norm (JObj as)"
    and applied: "applySnapshotEnvelopeDelta j sha base (JObj d) x = verifySnapshotEnvelope j sha (JObj (with_payload q e)) x"
    using delta_applies [OF pair] same_base_refl [OF pair] payloads by metis
  have target: "verifySnapshotEnvelope j sha (JObj e) x = Inr e" "plain_json (JObj e)" and safe: "delta_safe 64 (JObj as)"
    using pair payloads by (simp_all add: delta_pair_def)
  have plain: "plain_json (JObj bs)" "plain_json (JObj as)" using pair_plain [OF pair] payloads by simp_all
  obtain qs where qs: "q = JObj qs" "map fst qs = rebuilt_keys bs as"
    by (rule rebuilt_order [OF plain safe_no_proto [OF safe] q(1)])
  have q': "plain_json (JObj qs)" "json_norm (JObj qs) = json_norm (oget e ''payload'')" using q(2,3) qs(1) payloads by auto
  have sums: "envelopeChecksum j sha (envelopeContent e') = map_sum id sha (orderedJson j (JObj (envelopeContent e')))"
    if "oget e' ''checksumEncoding'' = JStr ordered_encoding" for e'
    using that by (simp only: envelopeChecksum_def content_encoding checksumOrderedValue_def) simp
  have ordered': "oget (with_payload (JObj qs) e) ''checksumEncoding'' = JStr ordered_encoding" using ordered by (simp add: get_with_payload)
  obtain s where s: "envelopeChecksum j sha (envelopeContent e) = Inr s" "hex_bytes (text_of (oget e ''checksum'')) = hex_bytes s"
    using envelope_verified(4) [OF target(1)] by blast
  then obtain t where t: "orderedJson j (JObj (envelopeContent e)) = Inr t" "s = sha t"
    using sums [OF ordered] map_sum_Inr by metis
  obtain t' where t': "orderedJson j (JObj (envelopeContent (with_payload (JObj qs) e))) = Inr t'"
    using ordered_bytes [OF plain_content [OF reordered(3,1) [OF envelope_verified(2) [OF target(1)] target(2) q']]] by blast
  have "verifySnapshotEnvelope j sha (JObj (with_payload (JObj qs) e)) x =
      (if hex_bytes (sha t') = hex_bytes (sha t) then Inr (with_payload (JObj qs) e) else Inl ''snapshot_checksum_mismatch'')"
    unfolding reordered_verification [OF target q'] sums [OF ordered'] t' s(2) t(2) by auto
  then show ?thesis using d q(1,3) qs applied s(2) t t' by auto
qed

section \<open>Examples\<close>

definition tale_text :: json_text where
  "tale_text = \<lparr>jt_quote = (\<lambda>s. CHR 0x22 # s @ [CHR 0x22]), jt_number = (\<lambda>n. show_int (int_of_jsnum n))\<rparr>"

text \<open>A digest that sees the third last character.\<close>

definition tale_digest :: "string \<Rightarrow> string" where
  "tale_digest t = replicate 64 (if rev t ! 2 = CHR '']'' then CHR ''a'' else CHR ''b'')"

definition tale_envelope :: "string \<Rightarrow> int \<Rightarrow> char \<Rightarrow> obj \<Rightarrow> obj" where
  "tale_envelope encoding tick digit payload =
     [(''kind'', JStr ''opsia.game-snapshot''), (''schemaVersion'', JNum (js_int 1)), (''payloadSchemaVersion'', JNum (js_int 4)),
      (''roomId'', JStr ''room-0''), (''roomEpoch'', JNum (js_int 3)), (''serverTick'', JNum (js_int tick)), (''snapshotTick'', JNum (js_int 2)),
      (''gameBuildRevision'', JStr ''r1''), (''mapSeed'', JNum (js_int 7)), (''createdAt'', JNum (js_int 9)),
      (''checksumAlgorithm'', JStr ''sha256''), (''checksumEncoding'', JStr encoding), (''payload'', JObj payload),
      (''checksum'', JStr (replicate 64 digit))]"

definition tale_limits :: snapshot_limits where
  "tale_limits = \<lparr>sl_roomId = Some ''room-0'', sl_maxPayloadBytes = None\<rparr>"

definition tale_before :: obj where
  "tale_before = [(''schemaVersion'', JNum (js_int 4)), (''loot'', JArr [JStr ''ak'', JStr ''mp5'']), (''gone'', JNull)]"

definition tale_after :: obj where
  "tale_after = [(''schemaVersion'', JNum (js_int 4)), (''gas'', JNum (js_int 1)), (''loot'', JArr [JStr ''ak''])]"

definition tale_rebuilt :: obj where
  "tale_rebuilt = [(''schemaVersion'', JNum (js_int 4)), (''loot'', JArr [JStr ''ak'']), (''gas'', JNum (js_int 1))]"

definition tale_pair :: "string \<Rightarrow> char \<Rightarrow> obj \<times> obj" where
  "tale_pair encoding digit = (tale_envelope encoding 10 (CHR ''b'') tale_before, tale_envelope encoding 12 digit tale_after)"

definition tale_verifies :: "obj \<Rightarrow> bool" where
  "tale_verifies e = (verifySnapshotEnvelope tale_text tale_digest (JObj e) tale_limits = Inr e)"

lemma tale_delta_pair:
  assumes "tale_verifies (fst (tale_pair encoding digit))" and "tale_verifies (snd (tale_pair encoding digit))"
  shows "delta_pair tale_text tale_digest tale_limits (fst (tale_pair encoding digit)) (snd (tale_pair encoding digit))"
proof -
  have "length (appendDeltaOperations (JObj tale_before) (JObj tale_after) []) = 3" by code_simp
  then have few: "length (appendDeltaOperations (JObj tale_before) (JObj tale_after) []) \<le> max_operations"
    by (simp add: max_operations_def)
  have safe: "delta_safe 64 (JObj tale_before)" "delta_safe 64 (JObj tale_after)" by code_simp+
  have plain: "plain_json (JObj (tale_envelope encoding tick digit payload))" if "plain_json (JObj payload)" for tick digit payload
    using that by (simp add: tale_envelope_def)
  have payloads: "plain_json (JObj tale_before)" "plain_json (JObj tale_after)"
    by (simp_all add: tale_before_def tale_after_def)
  have payload: "oget (tale_envelope encoding tick digit payload) ''payload'' = JObj payload" for tick digit payload
    by (simp add: tale_envelope_def oget_def)
  have fields: "oget (tale_envelope encoding 10 (CHR ''b'') tale_before) ''roomId'' = oget (tale_envelope encoding 12 digit tale_after) ''roomId''"
    "oget (tale_envelope encoding 10 (CHR ''b'') tale_before) ''roomEpoch'' = oget (tale_envelope encoding 12 digit tale_after) ''roomEpoch''"
    "later_tick (tale_envelope encoding 12 digit tale_after) (tale_envelope encoding 10 (CHR ''b'') tale_before)"
    by (simp_all add: tale_envelope_def oget_def later_tick_def)
  show ?thesis
    unfolding delta_pair_def tale_pair_def fst_conv snd_conv payload
    using assms [unfolded tale_verifies_def tale_pair_def fst_conv snd_conv] few safe plain payloads fields by blast
qed

text \<open>Hashed canonically, the delta that drops a property, adds one and shortens a list rebuilds its target.\<close>

lemma delta_rebuilds_snapshot_witness:
  "let (base, e) = tale_pair canonical_encoding (CHR ''b'') in
   \<exists>d q. createSnapshotEnvelopeDelta base e = Inr d
    \<and> applySnapshotEnvelopeDelta tale_text tale_digest base (JObj d) tale_limits = Inr (with_payload q e)
    \<and> json_norm q = json_norm (JObj tale_after)"
proof -
  let ?p = "tale_pair canonical_encoding (CHR ''b'')"
  have "tale_verifies (fst ?p)" "tale_verifies (snd ?p)" by code_simp+
  note pair = tale_delta_pair [OF this]
  have encoding: "oget (snd ?p) ''checksumEncoding'' \<noteq> JStr ordered_encoding" and payload: "oget (snd ?p) ''payload'' = JObj tale_after"
    by (simp_all add: tale_pair_def tale_envelope_def oget_def ordered_encoding_def canonical_encoding_def)
  show ?thesis using delta_rebuilds_snapshot [OF pair encoding] unfolding payload Let_def split_def by blast
qed

text \<open>Hashed in order, the same delta puts the new property last and is refused.\<close>

lemma reordering_delta_is_refused_witness:
  "let (base, e) = tale_pair ordered_encoding (CHR ''a'') in
   \<exists>d. createSnapshotEnvelopeDelta base e = Inr d
    \<and> rebuilt_keys tale_before tale_after = [''schemaVersion'', ''loot'', ''gas'']
    \<and> applySnapshotEnvelopeDelta tale_text tale_digest base (JObj d) tale_limits = Inl ''snapshot_checksum_mismatch''"
proof -
  let ?p = "tale_pair ordered_encoding (CHR ''a'')"
  have "tale_verifies (fst ?p)" "tale_verifies (snd ?p)" by code_simp+
  note pair = tale_delta_pair [OF this]
  have payloads: "oget (fst ?p) ''payload'' = JObj tale_before" "oget (snd ?p) ''payload'' = JObj tale_after"
    and ordered: "oget (snd ?p) ''checksumEncoding'' = JStr ordered_encoding"
    by (simp_all add: tale_pair_def tale_envelope_def oget_def)
  have names: "insertion_ordered (JObj (fst ?p))" "insertion_ordered (JObj (snd ?p))" by code_simp+
  have run: "run_ops (JObj tale_before) (appendDeltaOperations (JObj tale_before) (JObj tale_after) []) = Inr (JObj tale_rebuilt)"
    by code_simp
  have keys: "rebuilt_keys tale_before tale_after = [''schemaVersion'', ''loot'', ''gas'']"
    by (simp add: rebuilt_keys_def tale_before_def tale_after_def)
  have sums: "map_sum id tale_digest (orderedJson tale_text (JObj (envelopeContent (snd ?p)))) = Inr (replicate 64 (CHR ''a''))"
    "map_sum id tale_digest (orderedJson tale_text (JObj (envelopeContent (with_payload (JObj tale_rebuilt) (snd ?p))))) = Inr (replicate 64 (CHR ''b''))"
    by code_simp+
  obtain d qs t t' where d: "createSnapshotEnvelopeDelta (fst ?p) (snd ?p) = Inr d"
    and qs: "run_ops (JObj tale_before) (appendDeltaOperations (JObj tale_before) (JObj tale_after) []) = Inr (JObj qs)"
    and texts: "orderedJson tale_text (JObj (envelopeContent (snd ?p))) = Inr t"
      "orderedJson tale_text (JObj (envelopeContent (with_payload (JObj qs) (snd ?p)))) = Inr t'"
    and applied: "applySnapshotEnvelopeDelta tale_text tale_digest (fst ?p) (JObj d) tale_limits =
      (if hex_bytes (tale_digest t') = hex_bytes (tale_digest t) then Inr (with_payload (JObj qs) (snd ?p)) else Inl ''snapshot_checksum_mismatch'')"
    using reordering_delta_is_refused [OF pair ordered payloads names] by blast
  have "qs = tale_rebuilt" using qs run by simp
  then have "tale_digest t = replicate 64 (CHR ''a'')" "tale_digest t' = replicate 64 (CHR ''b'')"
    using sums texts by (simp_all only: map_sum.simps) simp_all
  moreover have "hex_bytes (replicate 64 (CHR ''b'')) \<noteq> hex_bytes (replicate 64 (CHR ''a''))" by code_simp
  ultimately show ?thesis using d keys applied unfolding Let_def split_def by simp
qed

end
