(* ===== verification/RoomJournal.thy ===== *)
theory RoomJournal
  imports SnapshotEnvelope
begin

text \<open>
  The journal of a room (\<open>server/src/opsia/journal.ts\<close>): entries with their checksum, the stream in memory, reading after
  a cursor and catching up to a tick.  The stream in Redis is read through the same range operation, whose laws are the
  locale \<open>record_stream\<close>.
\<close>

section \<open>Entries\<close>

definition entry_kind :: string where
  "entry_kind = ''opsia.room-journal-entry''"

definition journal_fields :: "string list" where
  "journal_fields = [''kind'', ''schemaVersion'', ''roomId'', ''roomEpoch'', ''serverTick'', ''eventType'', ''createdAt'', ''checksumAlgorithm'', ''payload'']"

definition journalContent :: "obj \<Rightarrow> obj" where
  "journalContent e = map (\<lambda>k. (k, oget e k)) journal_fields"

record journal_input =
  ji_roomEpoch :: jsnum
  ji_serverTick :: jsnum
  ji_eventType :: string
  ji_payload :: jv

definition unsigned_entry :: "string \<Rightarrow> journal_input \<Rightarrow> jsnum \<Rightarrow> obj" where
  "unsigned_entry roomId i createdAt =
     [(''kind'', JStr entry_kind), (''schemaVersion'', JNum (js_int 1)), (''roomId'', JStr roomId), (''roomEpoch'', JNum (ji_roomEpoch i)),
      (''serverTick'', JNum (ji_serverTick i)), (''eventType'', JStr (ji_eventType i)), (''createdAt'', JNum createdAt),
      (''checksumAlgorithm'', JStr ''sha256''), (''payload'', ji_payload i)]"

definition createRoomJournalEntry ::
  "json_text \<Rightarrow> (string \<Rightarrow> string) \<Rightarrow> string \<Rightarrow> journal_input \<Rightarrow> jsnum \<Rightarrow> string + obj" where
  "createRoomJournalEntry j sha roomId i createdAt =
     (if roomId = [] \<or> ji_eventType i = [] \<or> \<not> is_count (ji_roomEpoch i) \<or> \<not> is_count (ji_serverTick i)
      then Inl ''invalid_room_journal_entry''
      else map_sum id (\<lambda>digest. unsigned_entry roomId i createdAt @ [(''checksum'', JStr digest)])
             (checksumValue j sha (JObj (journalContent (unsigned_entry roomId i createdAt)))))"

definition entry_shape :: "obj \<Rightarrow> bool" where
  "entry_shape e =
     (oget e ''kind'' = JStr entry_kind \<and> oget e ''schemaVersion'' = JNum (js_int 1) \<and> is_text (oget e ''roomId'')
      \<and> is_count_jv (oget e ''roomEpoch'') \<and> is_count_jv (oget e ''serverTick'') \<and> is_text (oget e ''eventType'')
      \<and> is_count_jv (oget e ''createdAt'') \<and> oget e ''checksumAlgorithm'' = JStr ''sha256''
      \<and> (case oget e ''checksum'' of JStr s \<Rightarrow> length s = 64 | _ \<Rightarrow> False))"

definition parseRoomJournalEntry ::
  "json_text \<Rightarrow> (string \<Rightarrow> string) \<Rightarrow> (string \<Rightarrow> jv option) \<Rightarrow> string \<Rightarrow> string + obj" where
  "parseRoomJournalEntry j sha parse encoded =
     (case parse encoded of
        None \<Rightarrow> Inl ''invalid_room_journal_json''
      | Some (JObj e) \<Rightarrow>
          if \<not> entry_shape e then Inl ''invalid_room_journal_entry''
          else (case checksumValue j sha (JObj (journalContent e)) of
            Inl m \<Rightarrow> Inl m
          | Inr digest \<Rightarrow> if oget e ''checksum'' = JStr digest then Inr e else Inl ''room_journal_checksum_mismatch'')
      | Some _ \<Rightarrow> Inl ''invalid_room_journal_entry'')"

section \<open>Stream identifiers\<close>

definition id_text :: "nat \<times> nat \<Rightarrow> string" where
  "id_text i = show_nat (fst i) @ CHR ''-'' # show_nat (snd i)"

text \<open>\<open>/^\d+-\d+$/\<close> with the two numbers.\<close>

definition parse_id :: "string \<Rightarrow> (nat \<times> nat) option" where
  "parse_id s =
     (let ms = takeWhile (\<lambda>c. c \<noteq> CHR ''-'') s; rest = dropWhile (\<lambda>c. c \<noteq> CHR ''-'') s in
      case rest of
        [] \<Rightarrow> None
      | _ # sequence \<Rightarrow> if all_digits ms \<and> all_digits sequence then Some (parse_nat ms, parse_nat sequence) else None)"

definition compareStreamIds :: "nat \<times> nat \<Rightarrow> nat \<times> nat \<Rightarrow> int" where
  "compareStreamIds l r = (if fst l = fst r then int (snd l) - int (snd r) else int (fst l) - int (fst r))"

lemma digits_no_dash: "all_digits ds \<Longrightarrow> CHR ''-'' \<notin> set ds"
  by (auto simp: all_digits_def list_all_iff is_digit_def)

lemma parse_id_text [simp]: "parse_id (id_text i) = Some i"
proof -
  have "takeWhile (\<lambda>c. c \<noteq> CHR ''-'') (show_nat a @ CHR ''-'' # t) = show_nat a"
    "dropWhile (\<lambda>c. c \<noteq> CHR ''-'') (show_nat a @ CHR ''-'' # t) = CHR ''-'' # t" for a t
    using digits_no_dash [OF all_digits_show_nat, of a] by (simp_all add: takeWhile_append dropWhile_append)
  then show ?thesis by (simp add: parse_id_def id_text_def Let_def)
qed

section \<open>The journal\<close>

record journal =
  rj_roomId :: string
  rj_maxEntries :: nat
  rj_maxEntryBytes :: nat

definition positiveInteger :: "jsnum \<Rightarrow> string \<Rightarrow> int \<Rightarrow> int \<Rightarrow> string + nat" where
  "positiveInteger n name least greatest =
     (if is_safe_integer n \<and> least \<le> int_of_jsnum n \<and> int_of_jsnum n \<le> greatest then Inr (nat (int_of_jsnum n)) else Inl (name @ ''_invalid''))"

definition or_number :: "jsnum option \<Rightarrow> int \<Rightarrow> jsnum" where
  "or_number n d = (case n of Some n \<Rightarrow> n | None \<Rightarrow> js_int d)"

definition new_journal :: "string \<Rightarrow> jsnum option \<Rightarrow> jsnum option \<Rightarrow> string + journal" where
  "new_journal roomId maxEntries maxEntryBytes =
     (if roomId = [] then Inl ''room_journal_room_required''
      else case positiveInteger (or_number maxEntries 128) ''room_journal_max_entries'' 8 10000 of
        Inl m \<Rightarrow> Inl m
      | Inr n \<Rightarrow> (case positiveInteger (or_number maxEntryBytes 4194304) ''room_journal_max_entry_bytes'' 1024 67108864 of
          Inl m \<Rightarrow> Inl m
        | Inr b \<Rightarrow> Inr \<lparr>rj_roomId = roomId, rj_maxEntries = n, rj_maxEntryBytes = b\<rparr>))"

definition journal_key :: "journal \<Rightarrow> string" where
  "journal_key r = ''room:'' @ rj_roomId r @ '':journal''"

type_synonym stored_record = "(nat \<times> nat) \<times> string"

record memory_streams =
  ms_journals :: "(string \<times> stored_record list) list"
  ms_sequence :: nat

definition records_of :: "string \<Rightarrow> memory_streams \<Rightarrow> stored_record list" where
  "records_of key s = (case map_of (ms_journals s) key of None \<Rightarrow> [] | Some rs \<Rightarrow> rs)"

definition trim_front :: "nat \<Rightarrow> 'a list \<Rightarrow> 'a list" where
  "trim_front n xs = drop (length xs - n) xs"

text \<open>\<open>JSON.stringify\<close> of a value without \<open>undefined\<close> at its root.\<close>

definition stringify :: "json_text \<Rightarrow> jv \<Rightarrow> string" where
  "stringify j v = (case orderedJson j (clone_json v) of Inr t \<Rightarrow> t | Inl _ \<Rightarrow> [])"

definition append_memory ::
  "json_text \<Rightarrow> (string \<Rightarrow> string) \<Rightarrow> journal \<Rightarrow> nat \<Rightarrow> nat \<Rightarrow> bool \<Rightarrow> journal_input \<Rightarrow> memory_streams \<Rightarrow> (string + string) \<times> memory_streams" where
  "append_memory j sha r createdAt now fence i s =
     (case createRoomJournalEntry j sha (rj_roomId r) i (js_int (int createdAt)) of
        Inl m \<Rightarrow> (Inl m, s)
      | Inr e \<Rightarrow>
          let encoded = stringify j (JObj e) in
          if rj_maxEntryBytes r < utf8_bytes encoded then (Inl ''room_journal_entry_too_large'', s)
          else if \<not> fence then (Inl ''room_lease_lost'', s)
          else let i = (now, ms_sequence s) in
            (Inr (id_text i), s\<lparr>ms_sequence := Suc (ms_sequence s),
               ms_journals := oput (journal_key r) (trim_front (rj_maxEntries r) (records_of (journal_key r) s @ [(i, encoded)])) (ms_journals s)\<rparr>))"

text \<open>\<open>records.filter(after the cursor).slice(0, count)\<close>\<close>

definition memory_range :: "stored_record list \<Rightarrow> nat \<times> nat \<Rightarrow> nat \<Rightarrow> stored_record list" where
  "memory_range rs cursor n = take n (filter (\<lambda>r. 0 < compareStreamIds (fst r) cursor) rs)"

definition read_record ::
  "json_text \<Rightarrow> (string \<Rightarrow> string) \<Rightarrow> (string \<Rightarrow> jv option) \<Rightarrow> journal \<Rightarrow> int option \<Rightarrow> stored_record \<Rightarrow> string + (nat \<times> nat) \<times> obj" where
  "read_record j sha parse r epoch rec =
     (if rj_maxEntryBytes r < utf8_bytes (snd rec) then Inl ''room_journal_entry_too_large''
      else case parseRoomJournalEntry j sha parse (snd rec) of
        Inl m \<Rightarrow> Inl m
      | Inr e \<Rightarrow>
          if oget e ''roomId'' \<noteq> JStr (rj_roomId r) then Inl ''room_journal_room_mismatch''
          else if (case epoch of Some n \<Rightarrow> jnum (oget e ''roomEpoch'') \<noteq> n | None \<Rightarrow> False) then Inl ''room_journal_epoch_mismatch''
          else Inr (fst rec, e))"

text \<open>The range of a stream is a parameter: the memory's or Redis' \<open>XRANGE\<close>.\<close>

definition readAfter ::
  "json_text \<Rightarrow> (string \<Rightarrow> string) \<Rightarrow> (string \<Rightarrow> jv option) \<Rightarrow> journal \<Rightarrow> (nat \<times> nat \<Rightarrow> nat \<Rightarrow> stored_record list) \<Rightarrow> string \<Rightarrow> jsnum option \<Rightarrow>
   int option \<Rightarrow> string + ((nat \<times> nat) \<times> obj) list" where
  "readAfter j sha parse r xrange cursor count epoch =
     (case parse_id cursor of
        None \<Rightarrow> Inl ''invalid_room_journal_cursor''
      | Some i \<Rightarrow> (case positiveInteger (or_number count 64) ''journal_read_count'' 1 1000 of
          Inl m \<Rightarrow> Inl m
        | Inr n \<Rightarrow> collect (map (read_record j sha parse r epoch) (xrange i n))))"

definition clear_memory :: "journal \<Rightarrow> bool \<Rightarrow> memory_streams \<Rightarrow> (string + unit) \<times> memory_streams" where
  "clear_memory r fence s =
     (if \<not> fence then (Inl ''room_lease_lost'', s) else (Inr (), s\<lparr>ms_journals := odel (journal_key r) (ms_journals s)\<rparr>))"

section \<open>Catching up\<close>

record catch_state =
  cs_entries :: "((nat \<times> nat) \<times> obj) list"
  cs_cursor :: string
  cs_latest :: int
  cs_scanned :: nat

definition entry_epoch :: "obj \<Rightarrow> int" where
  "entry_epoch e = jnum (oget e ''roomEpoch'')"

definition entry_tick :: "obj \<Rightarrow> int" where
  "entry_tick e = jnum (oget e ''serverTick'')"

fun scan_batch :: "int \<Rightarrow> int \<Rightarrow> ((nat \<times> nat) \<times> obj) list \<Rightarrow> catch_state \<Rightarrow> string + catch_state" where
  "scan_batch epoch target [] c = Inr c"
| "scan_batch epoch target ((i, e) # rs) c =
     (let c = c\<lparr>cs_scanned := Suc (cs_scanned c), cs_cursor := id_text i\<rparr> in
      if entry_epoch e < epoch then scan_batch epoch target rs c
      else if epoch < entry_epoch e then Inl ''room_journal_epoch_mismatch''
      else if entry_tick e \<le> cs_latest c then scan_batch epoch target rs c
      else let c = c\<lparr>cs_entries := cs_entries c @ [(i, e)], cs_latest := entry_tick e\<rparr> in
        if target \<le> cs_latest c then Inr c else scan_batch epoch target rs c)"

lemma scan_advances:
  "scan_batch epoch target rs c = Inr c' \<Longrightarrow> cs_scanned c \<le> cs_scanned c' \<and> (rs \<noteq> [] \<longrightarrow> cs_scanned c < cs_scanned c')"
proof (induction rs arbitrary: c)
  case (Cons r rs)
  obtain i e where r: "r = (i, e)" by (cases r)
  have "Suc (cs_scanned c) \<le> cs_scanned c'" using Cons.prems Cons.IH unfolding r by (fastforce simp: Let_def split: if_splits)
  then show ?case by simp
qed simp

text \<open>\<open>read\<close> is \<open>readAfter\<close> of the journal.\<close>

function catch_loop ::
  "(string \<Rightarrow> jsnum option \<Rightarrow> string + ((nat \<times> nat) \<times> obj) list) \<Rightarrow> nat \<Rightarrow> nat \<Rightarrow> int \<Rightarrow> int \<Rightarrow> catch_state \<Rightarrow> string + catch_state" where
  "catch_loop read batchSize maxEntries epoch target c =
     (if cs_scanned c < maxEntries \<and> cs_latest c < target then
        let wanted = min batchSize (maxEntries - cs_scanned c) in
        (case read (cs_cursor c) (Some (js_int (int wanted))) of
           Inl m \<Rightarrow> Inl m
         | Inr batch \<Rightarrow>
             if batch = [] then Inr c
             else (case scan_batch epoch target batch c of
               Inl m \<Rightarrow> Inl m
             | Inr c' \<Rightarrow> if length batch < wanted then Inr c' else catch_loop read batchSize maxEntries epoch target c'))
      else Inr c)"
  by pat_completeness auto
termination
  by (relation "measure (\<lambda>(read, b, m, e, t, c). m - cs_scanned c)") (auto dest: scan_advances)

declare catch_loop.simps [simp del]

record catch_up_result =
  cu_entries :: "((nat \<times> nat) \<times> obj) list"
  cu_cursor :: string
  cu_latestTick :: int
  cu_targetTick :: int
  cu_caughtUp :: bool
  cu_limitReached :: bool
  cu_scannedEntries :: nat

definition catch_up_outcome :: "nat \<Rightarrow> int \<Rightarrow> catch_state \<Rightarrow> catch_up_result" where
  "catch_up_outcome maxEntries target c =
     \<lparr>cu_entries = cs_entries c, cu_cursor = cs_cursor c, cu_latestTick = cs_latest c, cu_targetTick = target,
      cu_caughtUp = (target \<le> cs_latest c), cu_limitReached = (maxEntries \<le> cs_scanned c \<and> cs_latest c < target),
      cu_scannedEntries = cs_scanned c\<rparr>"

record catch_up_options =
  co_afterId :: "string option"
  co_afterTick :: "int option"
  co_targetTick :: int
  co_roomEpoch :: int
  co_batchSize :: "jsnum option"
  co_maxEntries :: "jsnum option"

definition catch_start :: "catch_up_options \<Rightarrow> catch_state" where
  "catch_start x = \<lparr>cs_entries = [], cs_cursor = (case co_afterId x of Some i \<Rightarrow> i | None \<Rightarrow> ''0-0''),
     cs_latest = (case co_afterTick x of Some t \<Rightarrow> t | None \<Rightarrow> 0), cs_scanned = 0\<rparr>"

definition catchUp ::
  "json_text \<Rightarrow> (string \<Rightarrow> string) \<Rightarrow> (string \<Rightarrow> jv option) \<Rightarrow> journal \<Rightarrow> (nat \<times> nat \<Rightarrow> nat \<Rightarrow> stored_record list) \<Rightarrow> catch_up_options
   \<Rightarrow> string + catch_up_result" where
  "catchUp j sha parse r xrange x =
     (case positiveInteger (or_number (co_batchSize x) 64) ''journal_read_batch'' 1 1000 of
        Inl m \<Rightarrow> Inl m
      | Inr batchSize \<Rightarrow>
          (case positiveInteger (or_number (co_maxEntries x) (int (rj_maxEntries r))) ''journal_catchup_limit'' 1 10000 of
             Inl m \<Rightarrow> Inl m
           | Inr maxEntries \<Rightarrow>
               map_sum id (catch_up_outcome maxEntries (co_targetTick x))
                 (catch_loop (\<lambda>cursor count. readAfter j sha parse r xrange cursor count None) batchSize maxEntries
                    (co_roomEpoch x) (co_targetTick x) (catch_start x))))"

end
