(* ===== verification/RoomJournalFacts.thy ===== *)
theory RoomJournalFacts
  imports RoomJournal
begin

text \<open>
  What the journal of a room guarantees: reading it in batches is one scan of its records, the entries it hands out are
  of one epoch with growing ticks, and what was appended is read back.
\<close>

section \<open>A stream read in batches\<close>

text \<open>
  What catching up needs of a stream: the range after a cursor is the records after it, in order.  Redis documents this
  of \<open>XRANGE\<close>; the memory's stream is interpreted below.
\<close>

locale record_stream =
  fixes xrange :: "'s \<Rightarrow> nat \<times> nat \<Rightarrow> nat \<Rightarrow> stored_record list"
    and records :: "'s \<Rightarrow> stored_record list"
    and valid :: "'s \<Rightarrow> bool"
  assumes from_start: "valid s \<Longrightarrow> xrange s (0, 0) n = take n (records s)"
    and from_record: "valid s \<Longrightarrow> i < length (records s) \<Longrightarrow> xrange s (fst (records s ! i)) n = take n (drop (Suc i) (records s))"

lemma scan_append:
  assumes "cs_latest c < target"
  shows "scan_batch epoch target (xs @ ys) c =
    (case scan_batch epoch target xs c of
       Inl m \<Rightarrow> Inl m
     | Inr c' \<Rightarrow> if target \<le> cs_latest c' then Inr c' else scan_batch epoch target ys c')"
  using assms
proof (induction xs arbitrary: c)
  case (Cons x xs)
  obtain i e where "x = (i, e)" by (cases x)
  then show ?case using Cons by (simp add: Let_def)
qed simp

lemma scan_whole:
  "scan_batch epoch target xs c = Inr c' \<Longrightarrow> cs_latest c' < target \<Longrightarrow>
     cs_scanned c' = cs_scanned c + length xs \<and> cs_cursor c' = (if xs = [] then cs_cursor c else id_text (fst (last xs)))"
proof (induction xs arbitrary: c)
  case (Cons x xs)
  obtain i e where x: "x = (i, e)" by (cases x)
  let ?c = "c\<lparr>cs_scanned := Suc (cs_scanned c), cs_cursor := id_text i\<rparr>"
  have "scan_batch epoch target xs ?c = Inr c'
      \<or> scan_batch epoch target xs (?c\<lparr>cs_entries := cs_entries c @ [(i, e)], cs_latest := entry_tick e\<rparr>) = Inr c'"
    using Cons.prems unfolding x by (auto simp: Let_def split: if_splits)
  then show ?case using Cons.IH [OF _ Cons.prems(2)] x by fastforce
qed simp

text \<open>The cursor of a loop that has scanned the first \<open>k\<close> records.\<close>

definition cursor_after :: "stored_record list \<Rightarrow> nat \<Rightarrow> string" where
  "cursor_after rs k = (if k = 0 then ''0-0'' else id_text (fst (rs ! (k - 1))))"

lemma collect_Inr: "collect xs = Inr ys \<Longrightarrow> length ys = length xs \<and> (\<forall>i < length xs. xs ! i = Inr (ys ! i))"
proof (induction xs arbitrary: ys)
  case (Cons x xs)
  then show ?case by (auto simp: less_Suc_eq_0_disj split: sum.splits)
qed simp

lemma collect_part: "collect xs = Inr ys \<Longrightarrow> collect (take n (drop k xs)) = Inr (take n (drop k ys))"
  using collect_Inr [of xs ys] by (intro collect_all list_all2_takeI list_all2_dropI) (simp add: list_all2_conv_all_nth)

lemma read_record_id: "read_record j sha parse r epoch rec = Inr x \<Longrightarrow> fst x = fst rec"
  by (auto simp: read_record_def split: if_splits sum.splits option.splits)

lemma start_id: "parse_id ''0-0'' = Some (0, 0)"
  by code_simp

context record_stream
begin

lemma read_batch:
  assumes "valid s" and es: "collect (map (read_record j sha parse r None) (take m (records s))) = Inr es"
    and "k \<le> length es" and "1 \<le> n" and "n \<le> 1000" and "n \<le> m - k"
  shows "readAfter j sha parse r (xrange s) (cursor_after (records s) k) (Some (js_int (int n))) None = Inr (take n (drop k es))"
proof -
  have len: "length es = min m (length (records s))" using collect_Inr [OF es] by simp
  have part: "take n (drop k (take m (records s))) = take n (drop k (records s))"
    using assms(6) by (simp add: drop_take)
  have "positiveInteger (js_int (int n)) ''journal_read_count'' 1 1000 = Inr n"
    using assms(4,5) by (simp add: positiveInteger_def safe_int_def MAX_SAFE_def)
  moreover have "parse_id (cursor_after (records s) k) = Some (if k = 0 then (0, 0) else fst (records s ! (k - 1)))"
    by (simp add: cursor_after_def start_id)
  moreover have "xrange s (if k = 0 then (0, 0) else fst (records s ! (k - 1))) n = take n (drop k (records s))"
    using from_start [OF assms(1)] from_record [OF assms(1), of "k - 1"] assms(3) len by (cases k) auto
  ultimately show ?thesis
    using collect_part [OF es, of n k] part by (simp add: readAfter_def or_number_def take_map drop_map)
qed

lemma read_ids:
  assumes "collect (map (read_record j sha parse r None) (take m (records s))) = Inr es" and "i < length es"
  shows "fst (es ! i) = fst (records s ! i)"
  using collect_Inr [OF assms(1)] assms(2) read_record_id [of j sha parse r None "records s ! i" "es ! i"] by simp

lemma loop_is_scan:
  assumes s: "valid s" and es: "collect (map (read_record j sha parse r None) (take m (records s))) = Inr es"
    and b: "1 \<le> b" "b \<le> 1000"
    and c: "cs_scanned c \<le> length es" "cs_cursor c = cursor_after (records s) (cs_scanned c)"
  shows "catch_loop (\<lambda>cursor count. readAfter j sha parse r (xrange s) cursor count None) b m epoch target c =
    (if cs_latest c < target then scan_batch epoch target (drop (cs_scanned c) es) c else Inr c)"
  using c
proof (induction "m - cs_scanned c" arbitrary: c rule: less_induct)
  case less
  let ?loop = "catch_loop (\<lambda>cursor count. readAfter j sha parse r (xrange s) cursor count None) b m epoch target"
  let ?k = "cs_scanned c" and ?n = "min b (m - cs_scanned c)"
  have len: "length es = min m (length (records s))" using collect_Inr [OF es] by simp
  show ?case
  proof (cases "?k < m \<and> cs_latest c < target")
    case False
    then have "cs_latest c < target \<Longrightarrow> drop ?k es = []" using less.prems(1) len by auto
    then show ?thesis using False by (subst catch_loop.simps) auto
  next
    case True
    have batch: "readAfter j sha parse r (xrange s) (cs_cursor c) (Some (js_int (int ?n))) None = Inr (take ?n (drop ?k es))"
      unfolding less.prems(2) using True b less.prems(1) by (intro read_batch [OF s es]) auto
    let ?batch = "take ?n (drop ?k es)" and ?rest = "drop ?n (drop ?k es)"
    have unfolded: "?loop c = (if ?batch = [] then Inr c else case scan_batch epoch target ?batch c of
        Inl e \<Rightarrow> Inl e | Inr c' \<Rightarrow> if length ?batch < ?n then Inr c' else ?loop c')"
      by (subst catch_loop.simps) (simp only: True Let_def batch sum.case simp_thms if_True)
    have whole: "scan_batch epoch target (drop ?k es) c = (case scan_batch epoch target ?batch c of
        Inl e \<Rightarrow> Inl e | Inr c' \<Rightarrow> if target \<le> cs_latest c' then Inr c' else scan_batch epoch target ?rest c')"
      using scan_append [of c target epoch ?batch ?rest] True by (simp only: append_take_drop_id)
    have step: "(if length ?batch < ?n then Inr c' else ?loop c') = (if target \<le> cs_latest c' then Inr c' else scan_batch epoch target ?rest c')"
      if some: "?batch \<noteq> []" and c': "scan_batch epoch target ?batch c = Inr c'" for c'
    proof (cases "target \<le> cs_latest c'")
      case True
      then have "?loop c' = Inr c'" by (subst catch_loop.simps) simp
      then show ?thesis using True by simp
    next
      case False
      note whole' = scan_whole [OF c']
      have scanned: "cs_scanned c' = ?k + length ?batch" and cursor: "cs_cursor c' = id_text (fst (last ?batch))"
        using whole' False some by auto
      have last_read: "last ?batch = es ! (cs_scanned c' - 1)"
        using some scanned by (simp add: last_conv_nth) (simp add: min_def split: if_splits)
      have sizes: "length ?batch \<le> length es - ?k" "0 < length ?batch" using some by auto
      have "cs_scanned c' - 1 < length es" using scanned sizes less.prems(1) by linarith
      then have same: "fst (es ! (cs_scanned c' - 1)) = fst (records s ! (cs_scanned c' - 1))"
        by (rule read_ids [OF es])
      have "cs_scanned c' \<noteq> 0" using scanned sizes(2) by linarith
      then have at_record: "cs_cursor c' = cursor_after (records s) (cs_scanned c')"
        unfolding cursor last_read cursor_after_def same by (rule if_not_P [symmetric])
      have small: "cs_scanned c' \<le> length es" "m - cs_scanned c' < m - ?k"
        using scanned sizes less.prems(1) True by linarith+
      show ?thesis
      proof (cases "length ?batch < ?n")
        case True
        then have "?rest = []" by (simp add: min_def split: if_splits)
        then show ?thesis using True False by simp
      next
        case full: False
        have "length ?batch \<le> ?n" by (simp only: length_take min.cobounded2)
        then have "length ?batch = ?n" using full by linarith
        then have "drop (cs_scanned c') es = ?rest" using scanned by (simp only: drop_drop add.commute)
        then have "?loop c' = scan_batch epoch target ?rest c'"
          using less.hyps [OF small(2) small(1) at_record] False by simp
        then show ?thesis unfolding if_not_P [OF full] if_not_P [OF False] .
      qed
    qed
    show ?thesis
    proof (cases "?batch = []")
      case True
      then have "drop ?k es = []" using \<open>?k < m \<and> cs_latest c < target\<close> b by auto
      then show ?thesis unfolding unfolded using True by simp
    next
      case False
      note run = unfolded [unfolded if_not_P [OF False]]
      show ?thesis
      proof (cases "scan_batch epoch target ?batch c")
        case (Inl e)
        then show ?thesis using True unfolding run whole by simp
      next
        case (Inr c')
        then show ?thesis using True unfolding run whole Inr sum.case step [OF False Inr] by simp
      qed
    qed
  qed
qed

end

section \<open>The stream in memory\<close>

definition stream_ok :: "stored_record list \<Rightarrow> bool" where
  "stream_ok rs = (sorted_wrt (\<lambda>x y. 0 < compareStreamIds (fst y) (fst x)) rs \<and> (\<forall>r \<in> set rs. 0 < compareStreamIds (fst r) (0, 0)))"

lemma compare_trans: "0 < compareStreamIds b a \<Longrightarrow> 0 < compareStreamIds c b \<Longrightarrow> 0 < compareStreamIds c a"
  by (auto simp: compareStreamIds_def split: if_splits)

lemma compare_asym: "0 < compareStreamIds b a \<Longrightarrow> \<not> 0 < compareStreamIds a b"
  by (auto simp: compareStreamIds_def split: if_splits)

lemma after_record:
  assumes "sorted_wrt (\<lambda>x y. 0 < compareStreamIds (fst y) (fst x)) rs" and "i < length rs"
  shows "filter (\<lambda>r. 0 < compareStreamIds (fst r) (fst (rs ! i))) rs = drop (Suc i) rs"
proof -
  have "rs = take (Suc i) rs @ drop (Suc i) rs" by simp
  moreover have "filter (\<lambda>r. 0 < compareStreamIds (fst r) (fst (rs ! i))) (take (Suc i) rs) = []"
  proof (rule filter_False, rule ballI)
    fix r assume "r \<in> set (take (Suc i) rs)"
    then obtain k where k: "k \<le> i" "r = rs ! k" using assms(2) by (auto simp: in_set_conv_nth less_Suc_eq_le)
    show "\<not> 0 < compareStreamIds (fst r) (fst (rs ! i))"
    proof (cases "k = i")
      case True
      then show ?thesis using k by (simp add: compareStreamIds_def)
    next
      case False
      then show ?thesis using k sorted_wrt_nth_less [OF assms(1), of k i] assms(2) compare_asym by auto
    qed
  qed
  moreover have "filter (\<lambda>r. 0 < compareStreamIds (fst r) (fst (rs ! i))) (drop (Suc i) rs) = drop (Suc i) rs"
  proof (rule filter_True, rule ballI)
    fix r assume "r \<in> set (drop (Suc i) rs)"
    then obtain k where "k < length rs - Suc i" "r = drop (Suc i) rs ! k" by (auto simp: in_set_conv_nth)
    then have "Suc (i + k) < length rs" "r = rs ! Suc (i + k)" by auto
    then show "0 < compareStreamIds (fst r) (fst (rs ! i))" using sorted_wrt_nth_less [OF assms(1), of i "Suc (i + k)"] by auto
  qed
  ultimately show ?thesis by (metis append_Nil filter_append)
qed

interpretation memory_stream: record_stream memory_range "\<lambda>rs. rs" stream_ok
proof
  show "memory_range s (0, 0) n = take n s" if "stream_ok s" for s n
    using that by (simp add: memory_range_def stream_ok_def)
  show "memory_range s (fst (s ! i)) n = take n (drop (Suc i) s)" if "stream_ok s" and "i < length s" for s i n
    using that after_record [of s i] by (simp add: memory_range_def stream_ok_def)
qed

section \<open>Catching up\<close>

lemma positive_range: "positiveInteger n name least greatest = Inr m \<Longrightarrow> 0 \<le> least \<Longrightarrow> least \<le> int m \<and> int m \<le> greatest"
  by (auto simp: positiveInteger_def split: if_splits)

lemma catch_up_scan:
  assumes stream: "stream_ok rs" and readable: "collect (map (read_record j sha parse r None) (take m rs)) = Inr es"
    and batch: "positiveInteger (or_number (co_batchSize x) 64) ''journal_read_batch'' 1 1000 = Inr b"
    and limit: "positiveInteger (or_number (co_maxEntries x) (int (rj_maxEntries r))) ''journal_catchup_limit'' 1 10000 = Inr m"
    and start: "co_afterId x = None"
  shows "catchUp j sha parse r (memory_range rs) x =
    map_sum id (catch_up_outcome m (co_targetTick x))
      (if cs_latest (catch_start x) < co_targetTick x then scan_batch (co_roomEpoch x) (co_targetTick x) es (catch_start x)
       else Inr (catch_start x))"
proof -
  have b: "1 \<le> b" "b \<le> 1000" using positive_range [OF batch] by simp_all
  have "cs_scanned (catch_start x) = 0" "cs_cursor (catch_start x) = cursor_after rs 0"
    by (simp_all add: catch_start_def start cursor_after_def)
  then show ?thesis
    using memory_stream.loop_is_scan [OF stream readable b, of "catch_start x" "co_roomEpoch x" "co_targetTick x"]
    unfolding catchUp_def batch limit sum.case by simp
qed

text \<open>C35: However the batches are cut, catching up is one scan.  When the stream is in order and the first
  \<open>maxEntries\<close> records can be read, the result of catching up is that of one pass over these records: the batch size
  decides nothing, no record is skipped between two batches and none is seen twice.\<close>

theorem catch_up_is_one_scan:
  assumes stream: "stream_ok rs" and readable: "collect (map (read_record j sha parse r None) (take m rs)) = Inr es"
    and batch: "positiveInteger (or_number (co_batchSize x) 64) ''journal_read_batch'' 1 1000 = Inr b"
    and limit: "positiveInteger (or_number (co_maxEntries x) (int (rj_maxEntries r))) ''journal_catchup_limit'' 1 10000 = Inr m"
    and start: "co_afterId x = None"
  shows "catchUp j sha parse r (memory_range rs) x =
    map_sum id (catch_up_outcome m (co_targetTick x))
      (if cs_latest (catch_start x) < co_targetTick x then scan_batch (co_roomEpoch x) (co_targetTick x) es (catch_start x)
       else Inr (catch_start x))"
  by (rule catch_up_scan [OF assms])

text \<open>What is handed out, whatever the stream.\<close>

definition entries_ok :: "int \<Rightarrow> int \<Rightarrow> int \<Rightarrow> catch_state \<Rightarrow> bool" where
  "entries_ok epoch start target c =
     (sorted_wrt (<) (start # map (entry_tick \<circ> snd) (cs_entries c)) \<and> (\<forall>e \<in> set (cs_entries c). entry_epoch (snd e) = epoch)
      \<and> cs_latest c = last (start # map (entry_tick \<circ> snd) (cs_entries c)))"

lemma sorted_last_snoc: "sorted_wrt (<) (xs :: int list) \<Longrightarrow> xs \<noteq> [] \<Longrightarrow> last xs < y \<Longrightarrow> sorted_wrt (<) (xs @ [y])"
proof -
  assume "sorted_wrt (<) xs" and "xs \<noteq> []" and y: "last xs < y"
  then have before: "\<forall>x \<in> set (butlast xs). x < last xs" and xs: "butlast xs @ [last xs] = xs"
    by (metis append_butlast_last_id list.set_intros(1) sorted_wrt_append, simp)
  have "\<forall>x \<in> set (butlast xs @ [last xs]). x < y" using before y by fastforce
  then have "\<forall>x \<in> set xs. x < y" unfolding xs .
  with \<open>sorted_wrt (<) xs\<close> show ?thesis by (simp add: sorted_wrt_append)
qed

lemma entries_ok_push:
  assumes "entries_ok epoch start target c" and "entry_epoch e = epoch" and "cs_latest c < entry_tick e"
  shows "entries_ok epoch start target (c\<lparr>cs_scanned := n, cs_cursor := i, cs_entries := cs_entries c @ [(k, e)], cs_latest := entry_tick e\<rparr>)"
proof -
  let ?xs = "start # map (entry_tick \<circ> snd) (cs_entries c)"
  have kept: "sorted_wrt (<) ?xs" "\<forall>e \<in> set (cs_entries c). entry_epoch (snd e) = epoch" "cs_latest c = last ?xs"
    using assms(1) unfolding entries_ok_def by blast+
  have "sorted_wrt (<) (?xs @ [entry_tick e])" using sorted_last_snoc [OF kept(1)] kept(3) assms(3) by simp
  moreover have "start # map (entry_tick \<circ> snd) (cs_entries c @ [(k, e)]) = ?xs @ [entry_tick e]" by simp
  ultimately show ?thesis using kept(2) assms(2) unfolding entries_ok_def by (simp del: sorted_wrt.simps)
qed

lemma scan_keeps: "entries_ok epoch start target c \<Longrightarrow> scan_batch epoch target rs c = Inr c' \<Longrightarrow> entries_ok epoch start target c'"
proof (induction rs arbitrary: c)
  case (Cons r rs)
  obtain i e where r: "r = (i, e)" by (cases r)
  let ?c = "c\<lparr>cs_scanned := Suc (cs_scanned c), cs_cursor := id_text i\<rparr>"
  let ?d = "?c\<lparr>cs_entries := cs_entries c @ [(i, e)], cs_latest := entry_tick e\<rparr>"
  have skip: "entries_ok epoch start target ?c" using Cons.prems(1) by (simp add: entries_ok_def)
  have "scan_batch epoch target rs ?c = Inr c' \<or> (entry_epoch e = epoch \<and> cs_latest c < entry_tick e \<and> (scan_batch epoch target rs ?d = Inr c' \<or> c' = ?d))"
    using Cons.prems(2) unfolding r by (auto simp: Let_def split: if_splits)
  then show ?case using Cons.IH skip entries_ok_push [OF Cons.prems(1)] by blast
qed simp

lemma loop_keeps:
  "entries_ok epoch start target c \<Longrightarrow> catch_loop read b m epoch target c = Inr c' \<Longrightarrow> entries_ok epoch start target c'"
proof (induction read b m epoch target c rule: catch_loop.induct)
  case (1 read b m epoch target c)
  show ?case
  proof (cases "cs_scanned c < m \<and> cs_latest c < target")
    case False
    then show ?thesis using "1.prems" unfolding catch_loop.simps [of read b m epoch target c] if_not_P [OF False] by simp
  next
    case True
    note run = "1.prems"(2) [unfolded catch_loop.simps [of read b m epoch target c] if_P [OF True] Let_def]
    obtain batch where batch: "read (cs_cursor c) (Some (js_int (int (min b (m - cs_scanned c))))) = Inr batch"
      using run by (cases "read (cs_cursor c) (Some (js_int (int (min b (m - cs_scanned c)))))") auto
    show ?thesis
    proof (cases "batch = []")
      case True
      then show ?thesis using run batch "1.prems" by simp
    next
      case False
      obtain d where d: "scan_batch epoch target batch c = Inr d"
        using run batch False by (cases "scan_batch epoch target batch c") auto
      note kept = scan_keeps [OF "1.prems"(1) d]
      show ?thesis
        using run batch False d kept "1.IH" [OF True refl batch False d _ kept] by (auto split: if_splits)
    qed
  qed
qed

lemma catch_up_entries:
  assumes "catchUp j sha parse r xrange x = Inr u"
  shows "sorted_wrt (<) ((case co_afterTick x of Some t \<Rightarrow> t | None \<Rightarrow> 0) # map (entry_tick \<circ> snd) (cu_entries u))"
    and "\<forall>e \<in> set (cu_entries u). entry_epoch (snd e) = co_roomEpoch x"
    and "cu_caughtUp u \<longleftrightarrow> co_targetTick x \<le> last ((case co_afterTick x of Some t \<Rightarrow> t | None \<Rightarrow> 0) # map (entry_tick \<circ> snd) (cu_entries u))"
proof -
  let ?start = "case co_afterTick x of Some t \<Rightarrow> t | None \<Rightarrow> 0"
  obtain b m c where c: "catch_loop (\<lambda>cursor count. readAfter j sha parse r xrange cursor count None) b m (co_roomEpoch x) (co_targetTick x) (catch_start x) = Inr c"
    and u: "u = catch_up_outcome m (co_targetTick x) c"
    using assms by (auto simp: catchUp_def split: sum.splits dest!: map_sum_Inr)
  have "entries_ok (co_roomEpoch x) ?start (co_targetTick x) (catch_start x)" by (simp add: entries_ok_def catch_start_def)
  from loop_keeps [OF this c] show "sorted_wrt (<) (?start # map (entry_tick \<circ> snd) (cu_entries u))"
    and "\<forall>e \<in> set (cu_entries u). entry_epoch (snd e) = co_roomEpoch x"
    and "cu_caughtUp u \<longleftrightarrow> co_targetTick x \<le> last (?start # map (entry_tick \<circ> snd) (cu_entries u))"
    by (simp_all add: entries_ok_def u catch_up_outcome_def)
qed

section \<open>Appending\<close>

text \<open>With a clock that does not go back, the stream stays in order and an entry is read back as it was appended.\<close>

definition journal_ok :: "nat \<Rightarrow> memory_streams \<Rightarrow> bool" where
  "journal_ok clock s = (\<forall>key. stream_ok (records_of key s) \<and> (\<forall>r \<in> set (records_of key s). fst (fst r) \<le> clock \<and> snd (fst r) < ms_sequence s))"

lemma sorted_wrt_drop: "sorted_wrt P xs \<Longrightarrow> sorted_wrt P (drop n xs)"
  by (metis append_take_drop_id sorted_wrt_append)

lemma compare_new: "fst i \<le> now \<Longrightarrow> snd i < n \<Longrightarrow> 0 < compareStreamIds (now, n) i"
  by (auto simp: compareStreamIds_def)

lemma stream_ok_drop: "stream_ok rs \<Longrightarrow> stream_ok (drop n rs)"
  unfolding stream_ok_def using sorted_wrt_drop in_set_dropD by fast

lemma compare_zero: "0 < now \<Longrightarrow> 0 < compareStreamIds (now, n) (0, 0)"
  by (simp add: compareStreamIds_def)

lemma append_keeps_order:
  assumes "journal_ok clock s" and "clock \<le> now" and "0 < now" and "append_memory j sha r t now fence i s = (y, s')"
  shows "journal_ok now s'"
proof -
  have later: "journal_ok now s" using assms(1,2) by (auto simp: journal_ok_def intro: le_trans)
  let ?rs = "records_of (journal_key r) s"
  have "stream_ok (?rs @ [((now, ms_sequence s), encoded)])" for encoded
    using later assms(3) by (auto simp: journal_ok_def stream_ok_def sorted_wrt_append compare_zero intro!: compare_new)
  then have trimmed: "stream_ok (trim_front n (?rs @ [((now, ms_sequence s), encoded)]))" for n encoded
    unfolding trim_front_def by (rule stream_ok_drop)
  have bounds: "\<forall>x \<in> set (trim_front n (?rs @ [((now, ms_sequence s), encoded)])). fst (fst x) \<le> now \<and> snd (fst x) < Suc (ms_sequence s)" for n encoded
    using later unfolding journal_ok_def trim_front_def by (auto dest!: in_set_dropD dest: less_SucI)
  show ?thesis
  proof (cases "s' = s")
    case True
    then show ?thesis using later by simp
  next
    case False
    then obtain encoded where s': "s' = s\<lparr>ms_sequence := Suc (ms_sequence s),
        ms_journals := oput (journal_key r) (trim_front (rj_maxEntries r) (?rs @ [((now, ms_sequence s), encoded)])) (ms_journals s)\<rparr>"
      using assms(4) by (auto simp: append_memory_def Let_def split: sum.splits if_splits)
    have "records_of key s' = (if key = journal_key r then trim_front (rj_maxEntries r) (?rs @ [((now, ms_sequence s), encoded)])
        else records_of key s)" for key
      by (simp add: s' records_of_def)
    moreover have "ms_sequence s' = Suc (ms_sequence s)" by (simp add: s')
    ultimately show ?thesis
      using later trimmed bounds unfolding journal_ok_def by (auto intro: less_SucI)
  qed
qed

text \<open>Appending puts one record at the end, keeps at most \<open>maxEntries\<close>, and the record reads as the entry that was made.\<close>

lemma appended_entry:
  assumes run: "append_memory j sha r t now True i s = (Inr k, s')" and sha: "\<And>x. length (sha x) = 64" and t: "int t \<le> MAX_SAFE"
    and parse: "\<And>e. createRoomJournalEntry j sha (rj_roomId r) i (js_int (int t)) = Inr e \<Longrightarrow> parse (stringify j (JObj e)) = Some (JObj e)"
    and size: "rj_roomId r \<noteq> []"
  obtains e where "k = id_text (now, ms_sequence s)"
    and "records_of (journal_key r) s' = trim_front (rj_maxEntries r) (records_of (journal_key r) s @ [((now, ms_sequence s), stringify j (JObj e))])"
    and "read_record j sha parse r None ((now, ms_sequence s), stringify j (JObj e)) = Inr ((now, ms_sequence s), e)"
    and "\<And>x. oget (unsigned_entry (rj_roomId r) i (js_int (int t))) x \<noteq> JUndef \<Longrightarrow> oget e x = oget (unsigned_entry (rj_roomId r) i (js_int (int t))) x"
proof -
  let ?u = "unsigned_entry (rj_roomId r) i (js_int (int t))"
  obtain e where e: "createRoomJournalEntry j sha (rj_roomId r) i (js_int (int t)) = Inr e"
    and fits: "\<not> rj_maxEntryBytes r < utf8_bytes (stringify j (JObj e))" and k: "k = id_text (now, ms_sequence s)"
    and s': "records_of (journal_key r) s' = trim_front (rj_maxEntries r) (records_of (journal_key r) s @ [((now, ms_sequence s), stringify j (JObj e))])"
    using run by (auto simp: append_memory_def Let_def records_of_def split: sum.splits if_splits)
  obtain digest where digest: "checksumValue j sha (JObj (journalContent ?u)) = Inr digest"
    and signed: "e = ?u @ [(''checksum'', JStr digest)]"
    and ok: "ji_eventType i \<noteq> []" "is_count (ji_roomEpoch i)" "is_count (ji_serverTick i)"
    using e by (auto simp: createRoomJournalEntry_def simp del: canonicalJson.simps split: if_splits dest!: map_sum_Inr)
  have len: "length digest = 64" using digest sha by (auto simp: checksumValue_def simp del: canonicalJson.simps dest!: map_sum_Inr)
  have content: "journalContent e = journalContent ?u"
    by (simp add: signed journalContent_def journal_fields_def unsigned_entry_def oget_def)
  have fields: "oget e ''roomId'' = JStr (rj_roomId r)" "oget e ''checksum'' = JStr digest"
    by (simp_all add: signed unsigned_entry_def oget_def)
  have "entry_shape e"
    using ok len size t by (simp add: entry_shape_def signed unsigned_entry_def oget_def is_text_def is_count_jv_def is_count_def safe_int_def)
  then have "parseRoomJournalEntry j sha parse (stringify j (JObj e)) = Inr e"
    using digest by (simp add: parseRoomJournalEntry_def parse [OF e] content fields)
  then have "read_record j sha parse r None ((now, ms_sequence s), stringify j (JObj e)) = Inr ((now, ms_sequence s), e)"
    using fits fields by (simp add: read_record_def)
  moreover have "oget e x = oget ?u x" if "oget ?u x \<noteq> JUndef" for x
    using that unfolding signed by (auto simp: oget_def map_add_def split: option.splits)
  ultimately show thesis using that k s' by blast
qed

end
