(* ===== verification/CandidateSeed.thy ===== *)
theory CandidateSeed
  imports SnapshotRebuild RoomJournalFacts
begin

text \<open>
  How a candidate gets its state (\<open>CandidateStateLoader\<close> of \<open>server/src/opsia/candidate.ts\<close>): the stored snapshot, then
  the deltas and checkpoints of the journal up to the tick that was asked for.  Reading the snapshot and the journal are
  parameters; the clock stamps the status.
\<close>

record candidate_options =
  cn_roomId :: string
  cn_mapName :: string
  cn_maxPayloadBytes :: nat

datatype handoff_phase = PhaseActive | PhaseWaiting | PhaseSeeded | PhaseBlocked

text \<open>\<open>OpsiaHandoffStatusData\<close> of a candidate; what is absent is \<open>undefined\<close> or \<open>None\<close>.\<close>

record seed_status =
  ss_ready :: bool
  ss_phase :: handoff_phase
  ss_roomEpoch :: jv
  ss_serverTick :: jv
  ss_snapshotTick :: jv
  ss_checksum :: jv
  ss_mapName :: jv
  ss_players :: jv
  ss_targetTick :: jv
  ss_journalCursor :: "string option"
  ss_journalEntries :: "nat option"
  ss_scannedEntries :: "nat option"
  ss_caughtUp :: "bool option"
  ss_reason :: "string option"
  ss_observedAt :: int

record seed_outcome =
  so_status :: seed_status
  so_envelope :: "obj option"

record seed_input =
  si_expectedEpoch :: "int option"
  si_targetTick :: int
  si_expectedChecksum :: "string option"
  si_maxEntries :: int

text \<open>What the loader is given: the snapshot's text, the journal's \<open>catchUp\<close>, the clock.\<close>

record seed_env =
  se_text :: json_text
  se_sha :: "string \<Rightarrow> string"
  se_parse :: "string \<Rightarrow> jv option"
  se_snapshot :: "exn + string option"
  se_catchUp :: "catch_up_options \<Rightarrow> exn + catch_up_result"
  se_now :: int

definition limits_of :: "candidate_options \<Rightarrow> snapshot_limits" where
  "limits_of c = \<lparr>sl_roomId = Some (cn_roomId c), sl_maxPayloadBytes = Some (cn_maxPayloadBytes c)\<rparr>"

definition map_name :: "obj \<Rightarrow> jv" where
  "map_name e = oget (fields_of (oget e ''payload'')) ''mapName''"

text \<open>\<open>payload.players.length\<close> throws when there are no players.\<close>

definition players_length :: "jv \<Rightarrow> string + jv" where
  "players_length v =
     (case v of
        JUndef \<Rightarrow> Inl ''Cannot read properties of undefined (reading 'length')''
      | JNull \<Rightarrow> Inl ''Cannot read properties of null (reading 'length')''
      | JArr vs \<Rightarrow> Inr (JNum (js_int (int (length vs))))
      | JStr s \<Rightarrow> Inr (JNum (js_int (int (length s))))
      | JObj kvs \<Rightarrow> Inr (oget kvs ''length'')
      | _ \<Rightarrow> Inr JUndef)"

definition empty_status :: "seed_env \<Rightarrow> seed_status" where
  "empty_status v = \<lparr>ss_ready = False, ss_phase = PhaseBlocked, ss_roomEpoch = JUndef, ss_serverTick = JUndef, ss_snapshotTick = JUndef,
     ss_checksum = JUndef, ss_mapName = JUndef, ss_players = JUndef, ss_targetTick = JUndef, ss_journalCursor = None,
     ss_journalEntries = None, ss_scannedEntries = None, ss_caughtUp = None, ss_reason = None, ss_observedAt = se_now v\<rparr>"

definition statusForEnvelope :: "seed_env \<Rightarrow> obj \<Rightarrow> string + seed_status" where
  "statusForEnvelope v e =
     map_sum id (\<lambda>n. (empty_status v)\<lparr>ss_roomEpoch := oget e ''roomEpoch'', ss_serverTick := oget e ''serverTick'',
         ss_snapshotTick := oget e ''snapshotTick'', ss_checksum := oget e ''checksum'', ss_mapName := map_name e, ss_players := n\<rparr>)
       (players_length (oget (fields_of (oget e ''payload'')) ''players''))"

definition refused :: "string \<Rightarrow> jv \<Rightarrow> seed_status \<Rightarrow> seed_outcome" where
  "refused reason targetTick s =
     \<lparr>so_status = s\<lparr>ss_ready := False, ss_phase := PhaseBlocked, ss_targetTick := targetTick, ss_caughtUp := Some False, ss_reason := Some reason\<rparr>,
      so_envelope = None\<rparr>"

definition blocked :: "seed_env \<Rightarrow> string \<Rightarrow> jv \<Rightarrow> obj option \<Rightarrow> string + seed_outcome" where
  "blocked v reason targetTick e =
     (case e of None \<Rightarrow> Inr (refused reason targetTick (empty_status v))
      | Some e \<Rightarrow> map_sum id (refused reason targetTick) (statusForEnvelope v e))"

definition waiting :: "seed_env \<Rightarrow> string \<Rightarrow> jv \<Rightarrow> seed_outcome" where
  "waiting v reason targetTick =
     \<lparr>so_status = (empty_status v)\<lparr>ss_phase := PhaseWaiting, ss_targetTick := targetTick, ss_caughtUp := Some False, ss_reason := Some reason\<rparr>,
      so_envelope = None\<rparr>"

text \<open>Following the journal: the envelope it leads to, or why it stops and where.\<close>

fun follow_journal :: "seed_env \<Rightarrow> candidate_options \<Rightarrow> ((nat \<times> nat) \<times> obj) list \<Rightarrow> obj \<Rightarrow> string \<times> obj + obj" where
  "follow_journal v c [] e = Inr e"
| "follow_journal v c ((i, rec) # rs) e =
     (if oget rec ''eventType'' = JStr ''state-delta'' then
        (case applySnapshotEnvelopeDelta (se_text v) (se_sha v) e (oget rec ''payload'') (limits_of c) of
           Inl m \<Rightarrow> Inl (m, e)
         | Inr e' \<Rightarrow> if oget e' ''serverTick'' \<noteq> oget rec ''serverTick'' \<or> map_name e' \<noteq> JStr (cn_mapName c)
             then Inl (''candidate_journal_delta_mismatch'', e') else follow_journal v c rs e')
      else if oget rec ''eventType'' \<noteq> JStr ''state-checkpoint'' then follow_journal v c rs e
      else (case verifySnapshotEnvelope (se_text v) (se_sha v) (oget rec ''payload'') (limits_of c) of
           Inl m \<Rightarrow> Inl (m, e)
         | Inr p \<Rightarrow> if oget p ''roomEpoch'' \<noteq> oget e ''roomEpoch'' \<or> oget p ''serverTick'' \<noteq> oget rec ''serverTick''
               \<or> map_name p \<noteq> JStr (cn_mapName c)
             then Inl (''candidate_journal_envelope_mismatch'', e) else follow_journal v c rs p))"

text \<open>The decision on the envelope the journal led to.\<close>

definition seed_conclude ::
  "seed_env \<Rightarrow> seed_input \<Rightarrow> string \<Rightarrow> nat \<Rightarrow> nat \<Rightarrow> obj \<Rightarrow> string + seed_outcome" where
  "seed_conclude v i cursor entries scanned e =
     (let tick = jnum (oget e ''serverTick''); target = JNum (js_int (si_targetTick i)) in
      if tick < si_targetTick i then
        map_sum id (\<lambda>s. \<lparr>so_status = s\<lparr>ss_ready := False, ss_phase := PhaseBlocked, ss_targetTick := target, ss_journalCursor := Some cursor,
            ss_journalEntries := Some entries, ss_scannedEntries := Some scanned, ss_caughtUp := Some False,
            ss_reason := Some ''candidate_not_caught_up''\<rparr>, so_envelope = None\<rparr>) (statusForEnvelope v e)
      else if (case si_expectedChecksum i of Some s \<Rightarrow> oget e ''checksum'' \<noteq> JStr s | None \<Rightarrow> False)
        then blocked v ''candidate_checksum_mismatch'' target (Some e)
      else map_sum id (\<lambda>s. \<lparr>so_status = s\<lparr>ss_ready := True, ss_phase := PhaseSeeded,
            ss_targetTick := (if si_targetTick i = 0 then oget e ''serverTick'' else target), ss_journalCursor := Some cursor,
            ss_journalEntries := Some entries, ss_scannedEntries := Some scanned, ss_caughtUp := Some True\<rparr>,
            so_envelope = Some e\<rparr>) (statusForEnvelope v e))"

definition catch_up_of :: "seed_input \<Rightarrow> obj \<Rightarrow> catch_up_options" where
  "catch_up_of i e = \<lparr>co_afterId = None, co_afterTick = Some (jnum (oget e ''serverTick'')), co_targetTick = si_targetTick i,
     co_roomEpoch = jnum (oget e ''roomEpoch''), co_batchSize = None, co_maxEntries = Some (js_int (si_maxEntries i))\<rparr>"

definition seedInternal :: "seed_env \<Rightarrow> candidate_options \<Rightarrow> seed_input \<Rightarrow> string + seed_outcome" where
  "seedInternal v c i =
     (let target = JNum (js_int (si_targetTick i)) in
      case se_snapshot v of
        Inl x \<Rightarrow> blocked v (message_or ''candidate_snapshot_read_failed'' x) target None
      | Inr serialized \<Rightarrow>
          if serialized = None \<or> serialized = Some [] then Inr (waiting v ''candidate_snapshot_missing'' target)
          else (case parseSnapshotEnvelope (se_text v) (se_sha v) (se_parse v) (the serialized) (limits_of c) of
            Inl m \<Rightarrow> blocked v m target None
          | Inr e \<Rightarrow>
              if map_name e \<noteq> JStr (cn_mapName c) then blocked v ''candidate_map_mismatch'' target (Some e)
              else if (case si_expectedEpoch i of Some n \<Rightarrow> oget e ''roomEpoch'' \<noteq> JNum (js_int n) | None \<Rightarrow> False)
                then blocked v ''candidate_epoch_mismatch'' target (Some e)
              else if si_targetTick i \<le> jnum (oget e ''serverTick'') then seed_conclude v i ''0-0'' 0 0 e
              else (case se_catchUp v (catch_up_of i e) of
                Inl x \<Rightarrow> blocked v (message_or ''candidate_journal_read_failed'' x) target (Some e)
              | Inr u \<Rightarrow> (case follow_journal v c (cu_entries u) e of
                  Inl (reason, at_envelope) \<Rightarrow> blocked v reason target (Some at_envelope)
                | Inr final \<Rightarrow> seed_conclude v i (cu_cursor u) (length (cu_entries u)) (cu_scannedEntries u) final))))"

definition loadLatest :: "seed_env \<Rightarrow> candidate_options \<Rightarrow> int option \<Rightarrow> string + seed_outcome" where
  "loadLatest v c expectedEpoch = seedInternal v c \<lparr>si_expectedEpoch = expectedEpoch, si_targetTick = 0, si_expectedChecksum = None, si_maxEntries = 1\<rparr>"

record seed_request =
  sr_expectedEpoch :: jsnum
  sr_targetTick :: jsnum
  sr_expectedChecksum :: "string option"
  sr_maxEntries :: "jsnum option"

definition seedCandidate :: "seed_env \<Rightarrow> candidate_options \<Rightarrow> seed_request \<Rightarrow> string + seed_outcome" where
  "seedCandidate v c r =
     (if \<not> is_count (sr_expectedEpoch r) \<or> \<not> is_count (sr_targetTick r)
         \<or> (case sr_expectedChecksum r of Some s \<Rightarrow> \<not> is_sha256_hex s | None \<Rightarrow> False)
         \<or> (case sr_maxEntries r of Some n \<Rightarrow> \<not> is_safe_integer n \<or> int_of_jsnum n < 1 \<or> 512 < int_of_jsnum n | None \<Rightarrow> False)
      then blocked v ''candidate_seed_invalid'' (JNum (sr_targetTick r)) None
      else seedInternal v c \<lparr>si_expectedEpoch = Some (int_of_jsnum (sr_expectedEpoch r)), si_targetTick = int_of_jsnum (sr_targetTick r),
        si_expectedChecksum = sr_expectedChecksum r, si_maxEntries = int_of_jsnum (or_number (sr_maxEntries r) 128)\<rparr>)"

section \<open>A candidate that is ready\<close>

text \<open>The envelopes the loader holds have been verified.\<close>

definition trusted :: "seed_env \<Rightarrow> candidate_options \<Rightarrow> jv \<Rightarrow> obj \<Rightarrow> bool" where
  "trusted v c epoch e = (verifySnapshotEnvelope (se_text v) (se_sha v) (JObj e) (limits_of c) = Inr e
     \<and> oget e ''roomEpoch'' = epoch \<and> map_name e = JStr (cn_mapName c))"

lemma applied_is_verified:
  assumes "applySnapshotEnvelopeDelta j sha base v x = Inr e"
  shows "verifySnapshotEnvelope j sha (JObj e) x = Inr e" and "oget e ''roomEpoch'' = oget base ''roomEpoch''" and "later_tick e base"
proof -
  have *: "verifySnapshotEnvelope j sha w x = Inr e \<and> oget e ''roomEpoch'' = oget base ''roomEpoch'' \<and> later_tick e base"
    if "(case verifySnapshotEnvelope j sha w x of Inl m \<Rightarrow> Inl m | Inr e' \<Rightarrow>
      if oget e' ''roomId'' = oget base ''roomId'' \<and> oget e' ''roomEpoch'' = oget base ''roomEpoch'' \<and> later_tick e' base then Inr e' else Inl context_mismatch) = Inr e" for w
    using that by (auto split: sum.splits if_splits)
  then obtain w where w: "verifySnapshotEnvelope j sha w x = Inr e" "oget e ''roomEpoch'' = oget base ''roomEpoch''" "later_tick e base"
    using assms unfolding applySnapshotEnvelopeDelta_def by (auto split: jv.splits if_splits sum.splits)
  then show "verifySnapshotEnvelope j sha (JObj e) x = Inr e" "oget e ''roomEpoch'' = oget base ''roomEpoch''" "later_tick e base"
    using envelope_verified(1) [OF w(1)] by simp_all
qed

lemma follow_trusted: "trusted v c epoch e \<Longrightarrow> follow_journal v c rs e = Inr e' \<Longrightarrow> trusted v c epoch e'"
proof (induction v c rs e rule: follow_journal.induct)
  case (2 v c i rec rs e)
  show ?case
  proof (cases "oget rec ''eventType'' = JStr ''state-delta''")
    case True
    then obtain d where d: "applySnapshotEnvelopeDelta (se_text v) (se_sha v) e (oget rec ''payload'') (limits_of c) = Inr d"
      and ok: "\<not> (oget d ''serverTick'' \<noteq> oget rec ''serverTick'' \<or> map_name d \<noteq> JStr (cn_mapName c))"
      and rest: "follow_journal v c rs d = Inr e'"
      using 2(5) by (auto split: sum.splits if_splits)
    then have "trusted v c epoch d" using applied_is_verified [OF d] 2(4) by (simp add: trusted_def)
    then show ?thesis using 2(1) [OF True d ok] rest by simp
  next
    case False
    show ?thesis
    proof (cases "oget rec ''eventType'' = JStr ''state-checkpoint''")
      case True
      then obtain p where p: "verifySnapshotEnvelope (se_text v) (se_sha v) (oget rec ''payload'') (limits_of c) = Inr p"
        and ok: "\<not> (oget p ''roomEpoch'' \<noteq> oget e ''roomEpoch'' \<or> oget p ''serverTick'' \<noteq> oget rec ''serverTick'' \<or> map_name p \<noteq> JStr (cn_mapName c))"
        and rest: "follow_journal v c rs p = Inr e'"
        using 2(5) False by (auto split: sum.splits if_splits)
      then have "trusted v c epoch p" using p ok 2(4) envelope_verified(1) [OF p] by (simp add: trusted_def)
      then show ?thesis using 2(3) False True p ok rest by blast
    next
      case skip: False
      then show ?thesis using 2 False by simp
    qed
  qed
qed simp

lemma blocked_not_ready: "blocked v reason t e = Inr out \<Longrightarrow> \<not> ss_ready (so_status out) \<and> so_envelope out = None \<and> ss_phase (so_status out) \<noteq> PhaseSeeded"
  by (cases e) (auto simp: blocked_def refused_def dest!: map_sum_Inr)

lemma conclude_ready:
  assumes "seed_conclude v i cursor entries scanned e = Inr out"
  shows "if ss_ready (so_status out) then so_envelope out = Some e \<and> si_targetTick i \<le> jnum (oget e ''serverTick'')
       \<and> (\<forall>s. si_expectedChecksum i = Some s \<longrightarrow> oget e ''checksum'' = JStr s) \<and> ss_checksum (so_status out) = oget e ''checksum''
       \<and> ss_phase (so_status out) = PhaseSeeded
     else so_envelope out = None \<and> ss_phase (so_status out) \<noteq> PhaseSeeded"
  using assms blocked_not_ready
  by (auto simp: seed_conclude_def Let_def statusForEnvelope_def not_less split: if_splits option.splits dest!: map_sum_Inr)

text \<open>Seeding ends without state, or with the decision on an envelope that was verified.\<close>

lemma seed_cases:
  assumes "seedInternal v c i = Inr out"
  shows "(\<not> ss_ready (so_status out) \<and> so_envelope out = None \<and> ss_phase (so_status out) \<noteq> PhaseSeeded)
    \<or> (\<exists>e0 e cursor n m. trusted v c (oget e0 ''roomEpoch'') e \<and> (\<forall>n. si_expectedEpoch i = Some n \<longrightarrow> oget e0 ''roomEpoch'' = JNum (js_int n))
        \<and> seed_conclude v i cursor n m e = Inr out)"
proof (cases "se_snapshot v")
  case (Inl x)
  then show ?thesis using assms blocked_not_ready by (simp add: seedInternal_def Let_def)
next
  case (Inr serialized)
  show ?thesis
  proof (cases "serialized = None \<or> serialized = Some []")
    case True
    then show ?thesis using assms Inr by (auto simp: seedInternal_def waiting_def empty_status_def)
  next
    case nonempty: False
    show ?thesis
    proof (cases "parseSnapshotEnvelope (se_text v) (se_sha v) (se_parse v) (the serialized) (limits_of c)")
      case (Inl m)
      then show ?thesis using assms Inr nonempty blocked_not_ready by (simp add: seedInternal_def Let_def)
    next
      case parsed: (Inr e0)
      then obtain w where "verifySnapshotEnvelope (se_text v) (se_sha v) w (limits_of c) = Inr e0"
        by (auto simp: parseSnapshotEnvelope_def split: if_splits option.splits)
      then have e0: "verifySnapshotEnvelope (se_text v) (se_sha v) (JObj e0) (limits_of c) = Inr e0" using envelope_verified(1) by blast
      show ?thesis
      proof (cases "map_name e0 \<noteq> JStr (cn_mapName c) \<or> (case si_expectedEpoch i of Some n \<Rightarrow> oget e0 ''roomEpoch'' \<noteq> JNum (js_int n) | None \<Rightarrow> False)")
        case True
        then have "\<exists>reason. blocked v reason (JNum (js_int (si_targetTick i))) (Some e0) = Inr out"
          using assms Inr nonempty parsed by (auto simp: seedInternal_def Let_def split: if_splits)
        then show ?thesis using blocked_not_ready by blast
      next
        case False
        then have trust: "trusted v c (oget e0 ''roomEpoch'') e0" using e0 by (simp add: trusted_def)
        have epoch: "\<forall>n. si_expectedEpoch i = Some n \<longrightarrow> oget e0 ''roomEpoch'' = JNum (js_int n)" using False by auto
        have rest: "(if si_targetTick i \<le> jnum (oget e0 ''serverTick'') then seed_conclude v i ''0-0'' 0 0 e0
            else (case se_catchUp v (catch_up_of i e0) of
              Inl x \<Rightarrow> blocked v (message_or ''candidate_journal_read_failed'' x) (JNum (js_int (si_targetTick i))) (Some e0)
            | Inr u \<Rightarrow> (case follow_journal v c (cu_entries u) e0 of
                Inl (reason, at_envelope) \<Rightarrow> blocked v reason (JNum (js_int (si_targetTick i))) (Some at_envelope)
              | Inr final \<Rightarrow> seed_conclude v i (cu_cursor u) (length (cu_entries u)) (cu_scannedEntries u) final))) = Inr out"
          using assms Inr nonempty parsed False by (simp add: seedInternal_def Let_def)
        show ?thesis
          using rest trust epoch blocked_not_ready follow_trusted [OF trust]
          by (simp split: if_splits sum.splits prod.splits) blast+
      qed
    qed
  qed
qed

text \<open>C8: A candidate that reports itself ready holds verified state.  Its envelope has the room and the map of the
  candidate, the checksum of its own content, the epoch that was expected and at least the tick that was asked for, and
  the checksum that was asked for; that checksum is what the status reports.  Every other outcome carries no state.\<close>

theorem ready_candidate_is_sound:
  assumes "seedInternal v c i = Inr out"
  shows "if ss_ready (so_status out) then \<exists>e digest. so_envelope out = Some e \<and> oget e ''roomId'' = JStr (cn_roomId c)
       \<and> map_name e = JStr (cn_mapName c) \<and> envelopeChecksum (se_text v) (se_sha v) (envelopeContent e) = Inr digest
       \<and> hex_bytes (text_of (oget e ''checksum'')) = hex_bytes digest
       \<and> (\<forall>n. si_expectedEpoch i = Some n \<longrightarrow> oget e ''roomEpoch'' = JNum (js_int n)) \<and> si_targetTick i \<le> jnum (oget e ''serverTick'')
       \<and> (\<forall>s. si_expectedChecksum i = Some s \<longrightarrow> oget e ''checksum'' = JStr s) \<and> ss_checksum (so_status out) = oget e ''checksum''
     else so_envelope out = None \<and> ss_phase (so_status out) \<noteq> PhaseSeeded"
  using seed_cases [OF assms]
proof
  assume "\<exists>e0 e cursor n m. trusted v c (oget e0 ''roomEpoch'') e \<and> (\<forall>n. si_expectedEpoch i = Some n \<longrightarrow> oget e0 ''roomEpoch'' = JNum (js_int n))
      \<and> seed_conclude v i cursor n m e = Inr out"
  then obtain e0 e cursor n m where e: "trusted v c (oget e0 ''roomEpoch'') e" "seed_conclude v i cursor n m e = Inr out"
    and epoch: "\<forall>n. si_expectedEpoch i = Some n \<longrightarrow> oget e0 ''roomEpoch'' = JNum (js_int n)" by blast
  have ver: "verifySnapshotEnvelope (se_text v) (se_sha v) (JObj e) (limits_of c) = Inr e" using e(1) by (simp add: trusted_def)
  note concluded = conclude_ready [OF e(2)]
  obtain digest where "envelopeChecksum (se_text v) (se_sha v) (envelopeContent e) = Inr digest" "hex_bytes (text_of (oget e ''checksum'')) = hex_bytes digest"
    using envelope_verified(4) [OF ver] by blast
  moreover have "oget e ''roomId'' = JStr (cn_roomId c)" using envelope_verified(3) [OF ver] by (simp add: limits_of_def)
  moreover have "map_name e = JStr (cn_mapName c)" "oget e ''roomEpoch'' = oget e0 ''roomEpoch''" using e(1) by (simp_all add: trusted_def)
  ultimately show ?thesis using concluded epoch by (cases "ss_ready (so_status out)") auto
qed simp

section \<open>The room's state arrives\<close>

text \<open>Snapshots the writer took one after the other, and the journal records it appended for them.\<close>

fun delta_chain :: "seed_env \<Rightarrow> candidate_options \<Rightarrow> obj \<Rightarrow> obj list \<Rightarrow> bool" where
  "delta_chain v c base [] = True"
| "delta_chain v c base (e # es) =
     (delta_pair (se_text v) (se_sha v) (limits_of c) base e \<and> oget e ''checksumEncoding'' \<noteq> JStr ordered_encoding
      \<and> map_name e = JStr (cn_mapName c) \<and> delta_chain v c e es)"

fun journal_of :: "obj \<Rightarrow> obj list \<Rightarrow> ((nat \<times> nat) \<times> obj) list \<Rightarrow> bool" where
  "journal_of base [] rs = (rs = [])"
| "journal_of base (e # es) rs =
     (case rs of [] \<Rightarrow> False
      | (i, rec) # rs \<Rightarrow> oget rec ''eventType'' = JStr ''state-delta'' \<and> oget rec ''serverTick'' = oget e ''serverTick''
          \<and> (case createSnapshotEnvelopeDelta base e of Inl _ \<Rightarrow> False | Inr d \<Rightarrow> oget rec ''payload'' = JObj d) \<and> journal_of e es rs)"

lemma norm_field:
  assumes "plain_json q" and "plain_json p" and "json_norm q = json_norm p" and "p = JObj ps"
  shows "json_norm (oget (fields_of q) k) = json_norm (oget ps k)"
proof -
  obtain qs where qs: "q = JObj qs" using norm_object_only assms(3,4) by blast
  then show ?thesis using same_get [of qs ps k] assms by (simp add: fields_of_def)
qed

lemma envelope_payload: "envelope_shape e \<Longrightarrow> \<exists>ps. oget e ''payload'' = JObj ps"
  by (auto simp: envelope_shape_def split: jv.splits)

lemma same_base_fields:
  assumes "same_base e e'" and "envelope_shape e" and "plain_json (oget e ''payload'')"
  shows "json_norm (oget (fields_of (oget e' ''payload'')) k) = json_norm (oget (fields_of (oget e ''payload'')) k)"
proof -
  obtain ps where ps: "oget e ''payload'' = JObj ps" using envelope_payload [OF assms(2)] by blast
  show ?thesis using norm_field [OF _ assms(3) _ ps] assms(1) by (simp add: same_base_def ps fields_of_def [of "JObj ps"])
qed

lemma follow_chain:
  "delta_chain v c base es \<Longrightarrow> journal_of base es rs \<Longrightarrow> same_base base base' \<Longrightarrow>
     \<exists>e'. follow_journal v c rs base' = Inr e' \<and> same_base (last (base # es)) e'"
proof (induction es arbitrary: base base' rs)
  case Nil
  then show ?case by simp
next
  case (Cons e es)
  have pair: "delta_pair (se_text v) (se_sha v) (limits_of c) base e" and canonical: "oget e ''checksumEncoding'' \<noteq> JStr ordered_encoding"
    and named: "map_name e = JStr (cn_mapName c)" and chain: "delta_chain v c e es" using Cons.prems(1) by simp_all
  obtain i rec rs' where rs: "rs = (i, rec) # rs'" using Cons.prems(2) by (cases rs) auto
  obtain d where d: "createSnapshotEnvelopeDelta base e = Inr d"
    and rec: "oget rec ''eventType'' = JStr ''state-delta''" "oget rec ''serverTick'' = oget e ''serverTick''" "oget rec ''payload'' = JObj d"
    and later: "journal_of e es rs'"
    using Cons.prems(2) by (cases "createSnapshotEnvelopeDelta base e") (simp_all add: rs)
  obtain q where q: "applySnapshotEnvelopeDelta (se_text v) (se_sha v) base' (JObj d) (limits_of c) = Inr (with_payload q e)"
    and same: "same_base e (with_payload q e)"
    by (rule delta_rebuilds_from [OF pair canonical d Cons.prems(3)])
  have shape: "envelope_shape e" using pair envelope_verified(2) unfolding delta_pair_def by blast
  have "json_norm (map_name (with_payload q e)) = json_norm (map_name e)"
    unfolding map_name_def using same_base_fields [OF same shape] pair_plain [OF pair] by blast
  then have "map_name (with_payload q e) = JStr (cn_mapName c)" unfolding named by simp
  then have "follow_journal v c rs base' = follow_journal v c rs' (with_payload q e)"
    using q rec by (simp add: rs get_with_payload)
  then show ?case using Cons.IH [OF chain later same] by simp
qed

text \<open>C7: The room's state arrives.  Let the stored snapshot be the first of a chain of snapshots of the room, hashed
  canonically, and let the journal hand out the deltas the writer appended for the others, up to a tick that reaches the
  target.  Then the candidate is seeded, and its envelope is the last snapshot of the chain, up to the order of
  properties in its payload: the same room, epoch, tick and checksum, and a payload with the same canonical text.\<close>

theorem candidate_rebuilds_room:
  assumes stored: "se_snapshot v = Inr (Some serialized)" "serialized \<noteq> []"
      "parseSnapshotEnvelope (se_text v) (se_sha v) (se_parse v) serialized (limits_of c) = Inr e0"
    and first: "map_name e0 = JStr (cn_mapName c)" "\<And>n. si_expectedEpoch i = Some n \<Longrightarrow> oget e0 ''roomEpoch'' = JNum (js_int n)"
    and behind: "jnum (oget e0 ''serverTick'') < si_targetTick i" and journal: "se_catchUp v (catch_up_of i e0) = Inr u"
    and chain: "es \<noteq> []" "delta_chain v c e0 es" "journal_of e0 es (cu_entries u)"
    and reached: "si_targetTick i \<le> jnum (oget (last es) ''serverTick'')" "\<And>s. si_expectedChecksum i = Some s \<Longrightarrow> oget (last es) ''checksum'' = JStr s"
    and players: "oget (fields_of (oget (last es) ''payload'')) ''players'' = JArr ps"
  shows "\<exists>out e'. seedInternal v c i = Inr out \<and> ss_ready (so_status out) \<and> so_envelope out = Some e'
    \<and> (\<forall>k. k \<noteq> ''payload'' \<longrightarrow> oget e' k = oget (last es) k)
    \<and> canonicalJson (se_text v) (oget e' ''payload'') = canonicalJson (se_text v) (oget (last es) ''payload'')"
proof -
  obtain f fs where es: "es = f # fs" using chain(1) by (cases es) auto
  have pair0: "delta_pair (se_text v) (se_sha v) (limits_of c) e0 f" using chain(2) es by simp
  obtain e' where e': "follow_journal v c (cu_entries u) e0 = Inr e'" and same: "same_base (last (e0 # es)) e'"
    using follow_chain [OF chain(2,3) same_base_refl [OF pair0]] by blast
  have last_pair: "\<exists>b. delta_pair (se_text v) (se_sha v) (limits_of c) b (last (b' # bs))" if "delta_chain v c base (b' # bs)" for base b' bs
    using that by (induction bs arbitrary: base b') auto
  obtain b where pair: "delta_pair (se_text v) (se_sha v) (limits_of c) b (last es)" using last_pair chain(2) es by blast
  have shape: "envelope_shape (last es)" using pair envelope_verified(2) unfolding delta_pair_def by blast
  have same: "same_base (last es) e'" using same chain(1) by simp
  then have fields: "\<forall>k. k \<noteq> ''payload'' \<longrightarrow> oget e' k = oget (last es) k" by (simp add: same_base_def)
  have "json_norm (oget (fields_of (oget e' ''payload'')) ''players'') = json_norm (JArr ps)"
    using same_base_fields [OF same shape, of "''players''"] pair_plain [OF pair] players by simp
  then have "\<exists>n. players_length (oget (fields_of (oget e' ''payload'')) ''players'') = Inr n"
    by (cases "oget (fields_of (oget e' ''payload'')) ''players''") (simp_all add: players_length_def)
  then obtain s where s: "statusForEnvelope v e' = Inr s" by (auto simp: statusForEnvelope_def)
  have "seedInternal v c i = seed_conclude v i (cu_cursor u) (length (cu_entries u)) (cu_scannedEntries u) e'"
    using stored first behind journal e' by (auto simp: seedInternal_def Let_def split: option.splits)
  moreover have "jnum (oget e' ''serverTick'') = jnum (oget (last es) ''serverTick'')" "oget e' ''checksum'' = oget (last es) ''checksum''"
    using fields by simp_all
  ultimately have "\<exists>out. seedInternal v c i = Inr out \<and> ss_ready (so_status out) \<and> so_envelope out = Some e'"
    using reached s by (auto simp: seed_conclude_def Let_def split: option.splits)
  moreover have "canonicalJson (se_text v) (oget e' ''payload'') = canonicalJson (se_text v) (oget (last es) ''payload'')"
    using canonical_norm [of _ "se_text v"] same pair_plain [OF pair] unfolding same_base_def by metis
  ultimately show ?thesis using fields by blast
qed

end
