(* ===== verification/CandidateExamples.thy ===== *)
theory CandidateExamples
  imports CandidateSeed
begin

text \<open>A candidate that reads a snapshot of tick 10 and one delta to tick 12 from the journal in memory.\<close>

section \<open>Plain values have a text and plain operations\<close>

lemma plain_segment [simp]: "plain_json (segment_json x)"
  by (cases x) simp_all

lemma plain_op [simp]:
  "plain_json (op_json (SetAt p x)) \<longleftrightarrow> plain_json x" "plain_json (op_json (DeleteAt p))" "plain_json (op_json (TruncateAt p n))"
  by (auto simp: list_all_iff)

declare op_json.simps [simp del]

lemma plain_set_items: "list_all plain_json vs \<Longrightarrow> \<forall>d \<in> set (set_items p i vs). plain_json (op_json d)"
  by (induction vs arbitrary: i) (auto simp del: clone_json.simps)

lemma plain_proto_ops: "plain_json a \<Longrightarrow> \<forall>d \<in> set (proto_ops p a). plain_json (op_json d)"
  by (cases a) (auto simp: proto_ops_def list_all_iff simp del: clone_json.simps split: if_splits)

lemma plain_operations:
  "plain_json a \<Longrightarrow> \<forall>d \<in> set (appendDeltaOperations b a p). plain_json (op_json d)"
  "list_all plain_json as \<Longrightarrow> \<forall>d \<in> set (delta_items p i bs as). plain_json (op_json d)"
  "list_all (\<lambda>(k, v). plain_json v) ds \<Longrightarrow> \<forall>d \<in> set (delta_fields p cs ds). plain_json (op_json d)"
proof (induction b a p and p i bs as and p cs ds rule: appendDeltaOperations_delta_items_delta_fields.induct)
qed (auto simp: plain_set_items plain_proto_ops dropped_keys_def list_all_iff simp del: clone_json.simps split: option.splits)

lemma collect_total: "(\<And>x. x \<in> set xs \<Longrightarrow> \<exists>a. x = Inr a) \<Longrightarrow> \<exists>as. collect xs = Inr as"
  by (induction xs) (fastforce split: sum.splits)+

lemma canonical_total: "plain_json v \<Longrightarrow> \<exists>t. canonicalJson j v = Inr t"
proof (induction v rule: json_norm.induct)
  case (1 vs)
  have "\<exists>as. collect (map (canonicalJson j) vs) = Inr as"
    using 1 by (intro collect_total) (auto simp: list_all_iff)
  then show ?case by auto
next
  case (2 kvs)
  have "\<exists>as. collect (map (\<lambda>(k, v, t). field_value (k, t))
      (sort_key fst (filter (\<lambda>(k, v, t). v \<noteq> JUndef) (map (\<lambda>(k, v). (k, v, canonicalJson j v)) kvs)))) = Inr as"
    using 2 by (intro collect_total) (fastforce simp: list_all_iff field_value_def)
  then show ?case by auto
qed auto

section \<open>The example\<close>

definition inn_limits :: snapshot_limits where
  "inn_limits = \<lparr>sl_roomId = Some ''room-0'', sl_maxPayloadBytes = Some 1000\<rparr>"

definition inn_sha :: "string \<Rightarrow> string" where
  "inn_sha t = replicate 64 (CHR ''b'')"

definition inn_before :: obj where
  "inn_before = [(''schemaVersion'', JNum (js_int 4)), (''mapName'', JStr ''main''), (''players'', JArr [])]"

definition inn_after :: obj where
  "inn_after = [(''schemaVersion'', JNum (js_int 4)), (''gas'', JBool True), (''mapName'', JStr ''main''), (''players'', JArr [JStr ''ann''])]"

definition inn_first :: obj where
  "inn_first = tale_envelope canonical_encoding 10 (CHR ''b'') inn_before"

definition inn_second :: obj where
  "inn_second = tale_envelope canonical_encoding 12 (CHR ''b'') inn_after"

definition inn_delta :: obj where
  "inn_delta = (case createSnapshotEnvelopeDelta inn_first inn_second of Inr d \<Rightarrow> d | Inl _ \<Rightarrow> [])"

definition inn_entry :: obj where
  "inn_entry = unsigned_entry ''room-0'' \<lparr>ji_roomEpoch = js_int 3, ji_serverTick = js_int 12, ji_eventType = ''state-delta'', ji_payload = JObj inn_delta\<rparr> (js_int 9)
     @ [(''checksum'', JStr (replicate 64 (CHR ''b'')))]"

definition inn_parse :: "string \<Rightarrow> jv option" where
  "inn_parse s = (if s = ''s'' then Some (JObj inn_first) else if s = ''d'' then Some (JObj inn_entry) else None)"

definition inn_journal :: journal where
  "inn_journal = \<lparr>rj_roomId = ''room-0'', rj_maxEntries = 8, rj_maxEntryBytes = 1024\<rparr>"

definition inn_stream :: "stored_record list" where
  "inn_stream = [((5, 0), ''d'')]"

definition inn_env :: seed_env where
  "inn_env = \<lparr>se_text = tale_text, se_sha = inn_sha, se_parse = inn_parse, se_snapshot = Inr (Some ''s''),
     se_catchUp = (\<lambda>x. map_sum Err id (catchUp tale_text inn_sha inn_parse inn_journal (memory_range inn_stream) x)), se_now = 0\<rparr>"

definition inn_candidate :: candidate_options where
  "inn_candidate = \<lparr>cn_roomId = ''room-0'', cn_mapName = ''main'', cn_maxPayloadBytes = 1000\<rparr>"

definition inn_request :: seed_input where
  "inn_request = \<lparr>si_expectedEpoch = Some 3, si_targetTick = 12, si_expectedChecksum = Some (replicate 64 (CHR ''b'')), si_maxEntries = 8\<rparr>"

lemma inn_verified:
  "verifySnapshotEnvelope tale_text inn_sha (JObj inn_first) inn_limits = Inr inn_first"
  "verifySnapshotEnvelope tale_text inn_sha (JObj inn_second) inn_limits = Inr inn_second"
  by code_simp+

lemma inn_fields:
  "oget inn_first ''roomId'' = JStr ''room-0''" "oget inn_second ''roomId'' = JStr ''room-0''"
  "oget inn_first ''roomEpoch'' = JNum (js_int 3)" "oget inn_second ''roomEpoch'' = JNum (js_int 3)"
  "oget inn_first ''serverTick'' = JNum (js_int 10)" "oget inn_second ''serverTick'' = JNum (js_int 12)"
  "oget inn_first ''payload'' = JObj inn_before" "oget inn_second ''payload'' = JObj inn_after"
  "oget inn_second ''checksum'' = JStr (replicate 64 (CHR ''b''))" "oget inn_second ''checksumEncoding'' = JStr canonical_encoding"
  by (simp_all add: inn_first_def inn_second_def tale_envelope_def oget_def)

lemma inn_pair: "delta_pair tale_text inn_sha inn_limits inn_first inn_second"
proof -
  have "length (appendDeltaOperations (JObj inn_before) (JObj inn_after) []) = 2" by code_simp
  then have "length (appendDeltaOperations (JObj inn_before) (JObj inn_after) []) \<le> max_operations" by (simp add: max_operations_def)
  moreover have "delta_safe 64 (JObj inn_before)" "delta_safe 64 (JObj inn_after)" by code_simp+
  moreover have "plain_json (JObj inn_first)" "plain_json (JObj inn_second)"
    by (simp_all add: inn_first_def inn_second_def tale_envelope_def inn_before_def inn_after_def)
  moreover have "later_tick inn_second inn_first" by (simp add: later_tick_def inn_fields)
  ultimately show ?thesis unfolding delta_pair_def inn_fields using inn_verified by blast
qed

lemma inn_created: "createSnapshotEnvelopeDelta inn_first inn_second = Inr inn_delta"
proof -
  obtain d where "createSnapshotEnvelopeDelta inn_first inn_second = Inr d" using delta_applies [OF inn_pair] by blast
  then show ?thesis unfolding inn_delta_def by simp
qed

lemma inn_delta_plain: "plain_json (JObj inn_delta)"
proof -
  have clones: "cloneJson (JObj inn_before) = Inr (JObj inn_before)" "cloneJson (JObj inn_after) = Inr (JObj inn_after)"
    by (simp_all add: cloneJson_def inn_before_def inn_after_def)
  have "later_tick inn_second inn_first" by (simp add: later_tick_def inn_fields)
  then have delta: "inn_delta = [(''kind'', JStr ''opsia.snapshot-delta''), (''schemaVersion'', JNum (js_int 1)), (''baseChecksum'', oget inn_first ''checksum''),
      (''baseServerTick'', oget inn_first ''serverTick''), (''target'', JObj (odel ''payload'' inn_second)),
      (''operations'', JArr (map op_json (appendDeltaOperations (JObj inn_before) (JObj inn_after) [])))]"
    by (simp add: inn_delta_def createSnapshotEnvelopeDelta_def inn_fields clones)
  have base: "oget inn_first ''checksum'' = JStr (replicate 64 (CHR ''b''))" by (simp add: inn_first_def tale_envelope_def oget_def)
  have envelope: "plain_json (JObj (odel ''payload'' inn_second))"
    by (simp add: inn_second_def tale_envelope_def odel_def)
  have ops: "list_all plain_json (map op_json (appendDeltaOperations (JObj inn_before) (JObj inn_after) []))"
    using plain_operations(1) [of "JObj inn_after"] unfolding list.pred_map list_all_iff comp_def
    by (simp add: inn_after_def del: appendDeltaOperations.simps)
  show ?thesis unfolding delta base using envelope ops by (simp add: inn_fields del: appendDeltaOperations.simps)
qed

lemma inn_read: "read_record tale_text inn_sha inn_parse inn_journal None ((5, 0), ''d'') = Inr ((5, 0), inn_entry)"
proof -
  have shape: "entry_shape inn_entry"
    by (simp add: entry_shape_def inn_entry_def unsigned_entry_def oget_def is_text_def is_count_jv_def safe_int_def MAX_SAFE_def)
  have "plain_json (JObj (journalContent inn_entry))"
    using inn_delta_plain by (simp add: journalContent_def journal_fields_def inn_entry_def unsigned_entry_def oget_def)
  then have "checksumValue tale_text inn_sha (JObj (journalContent inn_entry)) = Inr (replicate 64 (CHR ''b''))"
    using canonical_total [of _ tale_text] by (fastforce simp: checksumValue_def inn_sha_def simp del: canonicalJson.simps)
  moreover have "oget inn_entry ''checksum'' = JStr (replicate 64 (CHR ''b''))" "oget inn_entry ''roomId'' = JStr ''room-0''"
    by (simp_all add: inn_entry_def unsigned_entry_def oget_def)
  ultimately show ?thesis
    using shape by (simp add: read_record_def parseRoomJournalEntry_def inn_parse_def inn_journal_def utf8_bytes_def)
qed

lemma inn_readable: "collect (map (read_record tale_text inn_sha inn_parse inn_journal None) (take 8 inn_stream)) = Inr [((5, 0), inn_entry)]"
  by (simp add: inn_stream_def inn_read)

definition inn_caught :: catch_up_result where
  "inn_caught = \<lparr>cu_entries = [((5, 0), inn_entry)], cu_cursor = ''5-0'', cu_latestTick = 12, cu_targetTick = 12, cu_caughtUp = True,
     cu_limitReached = False, cu_scannedEntries = 1\<rparr>"

lemma inn_stream_ok: "stream_ok inn_stream"
  by code_simp

lemma inn_batch: "positiveInteger (or_number (co_batchSize (catch_up_of inn_request inn_first)) 64) ''journal_read_batch'' 1 1000 = Inr 64"
  and inn_limit: "positiveInteger (or_number (co_maxEntries (catch_up_of inn_request inn_first)) (int (rj_maxEntries inn_journal)))
    ''journal_catchup_limit'' 1 10000 = Inr 8"
  and inn_start: "co_afterId (catch_up_of inn_request inn_first) = None"
  by (simp_all add: positiveInteger_def or_number_def catch_up_of_def inn_request_def safe_int_def MAX_SAFE_def)

lemmas inn_scan = inn_stream_ok inn_readable inn_batch inn_limit inn_start

lemma inn_scanned:
  "map_sum id (catch_up_outcome 8 (co_targetTick (catch_up_of inn_request inn_first)))
     (if cs_latest (catch_start (catch_up_of inn_request inn_first)) < co_targetTick (catch_up_of inn_request inn_first)
      then scan_batch (co_roomEpoch (catch_up_of inn_request inn_first)) (co_targetTick (catch_up_of inn_request inn_first))
        [((5, 0), inn_entry)] (catch_start (catch_up_of inn_request inn_first))
      else Inr (catch_start (catch_up_of inn_request inn_first))) = Inr inn_caught"
proof -
  have "entry_epoch inn_entry = 3" "entry_tick inn_entry = 12"
    by (simp_all add: entry_epoch_def entry_tick_def inn_entry_def unsigned_entry_def oget_def)
  moreover have "id_text (5, 0) = ''5-0''" by code_simp
  ultimately show ?thesis by (simp add: catch_up_of_def inn_request_def inn_fields catch_start_def Let_def catch_up_outcome_def inn_caught_def)
qed

text \<open>The stream is scanned once.\<close>

lemma catch_up_is_one_scan_witness:
  "catchUp tale_text inn_sha inn_parse inn_journal (memory_range inn_stream) (catch_up_of inn_request inn_first) = Inr inn_caught"
  using catch_up_is_one_scan [OF inn_scan] inn_scanned by simp

lemma inn_named: "map_name inn_first = JStr ''main''" "map_name inn_second = JStr ''main''"
  unfolding map_name_def inn_fields by (simp_all add: fields_of_def inn_before_def inn_after_def oget_def)

lemma inn_parsed: "parseSnapshotEnvelope tale_text inn_sha inn_parse ''s'' (limits_of inn_candidate) = Inr inn_first"
proof -
  have "limits_of inn_candidate = inn_limits" by (simp add: limits_of_def inn_candidate_def inn_limits_def)
  then show ?thesis using inn_verified(1) by (simp add: parseSnapshotEnvelope_def inn_parse_def) (simp add: inn_limits_def utf8_bytes_def)
qed

text \<open>The candidate follows the delta.\<close>

lemma candidate_rebuilds_room_witness:
  "\<exists>out e'. seedInternal inn_env inn_candidate inn_request = Inr out \<and> ss_ready (so_status out) \<and> so_envelope out = Some e'
    \<and> oget e' ''serverTick'' = JNum (js_int 12)
    \<and> canonicalJson tale_text (oget e' ''payload'') = canonicalJson tale_text (JObj inn_after)"
proof -
  have limits: "limits_of inn_candidate = inn_limits" by (simp add: limits_of_def inn_candidate_def inn_limits_def)
  have env: "se_text inn_env = tale_text" "se_sha inn_env = inn_sha" "se_parse inn_env = inn_parse" "se_snapshot inn_env = Inr (Some ''s'')"
    by (simp_all add: inn_env_def)
  have named: "map_name inn_first = JStr (cn_mapName inn_candidate)" "map_name inn_second = JStr (cn_mapName inn_candidate)"
    by (simp_all add: inn_named inn_candidate_def)
  have epoch: "\<And>n. si_expectedEpoch inn_request = Some n \<Longrightarrow> oget inn_first ''roomEpoch'' = JNum (js_int n)"
    by (simp add: inn_request_def inn_fields)
  have behind: "jnum (oget inn_first ''serverTick'') < si_targetTick inn_request" by (simp add: inn_request_def inn_fields)
  have journal: "se_catchUp inn_env (catch_up_of inn_request inn_first) = Inr inn_caught"
    using catch_up_scan [OF inn_scan] inn_scanned by (simp add: inn_env_def)
  have chain: "delta_chain inn_env inn_candidate inn_first [inn_second]"
    using inn_pair named by (simp add: env limits inn_fields canonical_encoding_def ordered_encoding_def)
  have records: "journal_of inn_first [inn_second] (cu_entries inn_caught)"
    by (simp add: inn_caught_def inn_created inn_fields) (simp add: inn_entry_def unsigned_entry_def oget_def)
  have reached: "si_targetTick inn_request \<le> jnum (oget (last [inn_second]) ''serverTick'')"
    "\<And>s. si_expectedChecksum inn_request = Some s \<Longrightarrow> oget (last [inn_second]) ''checksum'' = JStr s"
    by (simp_all add: inn_request_def inn_fields)
  have players: "oget (fields_of (oget (last [inn_second]) ''payload'')) ''players'' = JArr [JStr ''ann'']"
    unfolding last.simps by (simp add: inn_fields fields_of_def) (simp add: inn_after_def oget_def)
  have stored: "parseSnapshotEnvelope (se_text inn_env) (se_sha inn_env) (se_parse inn_env) ''s'' (limits_of inn_candidate) = Inr inn_first"
    unfolding env by (rule inn_parsed)
  have "''s'' \<noteq> []" by simp
  from candidate_rebuilds_room [OF env(4) this stored named(1) epoch behind journal _ chain records reached players]
  show ?thesis by (auto simp: env inn_fields)
qed

definition inn_latest :: seed_input where
  "inn_latest = \<lparr>si_expectedEpoch = Some 3, si_targetTick = 10, si_expectedChecksum = None, si_maxEntries = 1\<rparr>"

text \<open>The candidate takes the snapshot as it is.\<close>

lemma ready_candidate_is_sound_witness:
  "\<exists>out e. seedInternal inn_env inn_candidate inn_latest = Inr out \<and> ss_ready (so_status out) \<and> so_envelope out = Some e
    \<and> oget e ''roomId'' = JStr ''room-0'' \<and> oget e ''roomEpoch'' = JNum (js_int 3) \<and> 10 \<le> jnum (oget e ''serverTick'')"
proof -
  note named = inn_named(1)
  have env: "se_text inn_env = tale_text" "se_sha inn_env = inn_sha" "se_parse inn_env = inn_parse" "se_snapshot inn_env = Inr (Some ''s'')"
    by (simp_all add: inn_env_def)
  have "statusForEnvelope inn_env inn_first \<noteq> Inl m" for m
    unfolding statusForEnvelope_def inn_fields by (simp add: fields_of_def inn_before_def players_length_def oget_def)
  then obtain s where s: "statusForEnvelope inn_env inn_first = Inr s" by (cases "statusForEnvelope inn_env inn_first") auto
  have "\<exists>out. seedInternal inn_env inn_candidate inn_latest = Inr out \<and> ss_ready (so_status out)"
    by (simp add: seedInternal_def Let_def env inn_parsed named inn_latest_def inn_fields seed_conclude_def s) (simp add: inn_candidate_def)
  then obtain out where out: "seedInternal inn_env inn_candidate inn_latest = Inr out" "ss_ready (so_status out)" by blast
  then show ?thesis using ready_candidate_is_sound [OF out(1)] by (auto simp: inn_latest_def inn_candidate_def)
qed

end
