(* ===== verification/SnapshotWriter.thy ===== *)
theory SnapshotWriter
  imports SnapshotEnvelope
begin

text \<open>
  The bounded snapshot writer (\<open>BoundedSnapshotWriter\<close> of \<open>server/src/opsia/snapshot.ts\<close>): one write at a time, later
  requests coalesced into one, and a circuit breaker.  The code runs in uninterrupted pieces between its awaits; each piece
  is an operation below, and reads the clock once.  What a factory builds depends on when it is called.  Writing is a
  parameter: it succeeds, fails, or is still running at the deadline.
\<close>

record writer_config =
  wc_intervalMs :: int
  wc_minIntervalMs :: int
  wc_timeoutMs :: int
  wc_maxPayloadBytes :: int
  wc_failureThreshold :: int
  wc_circuitCooldownMs :: int

section \<open>Configuration\<close>

text \<open>The environment as a map; \<open>Number(raw)\<close> is a parameter.\<close>

definition integerSetting :: "(string \<Rightarrow> jsnum) \<Rightarrow> (string \<Rightarrow> string option) \<Rightarrow> string \<Rightarrow> string \<Rightarrow> int \<Rightarrow> int \<Rightarrow> int \<Rightarrow> string + int" where
  "integerSetting num env name lower_name fallback least greatest =
     (case env name of
        None \<Rightarrow> Inr fallback
      | Some raw \<Rightarrow>
          if raw = [] then Inr fallback
          else if \<not> is_safe_integer (num raw) \<or> int_of_jsnum (num raw) < least \<or> greatest < int_of_jsnum (num raw)
            then Inl (lower_name @ ''_invalid'')
          else Inr (int_of_jsnum (num raw)))"

definition readSnapshotRuntimeConfig :: "(string \<Rightarrow> jsnum) \<Rightarrow> (string \<Rightarrow> string option) \<Rightarrow> string + writer_config" where
  "readSnapshotRuntimeConfig num env =
     (case integerSetting num env ''OPSIA_SNAPSHOT_MIN_INTERVAL_MS'' ''opsia_snapshot_min_interval_ms'' 250 100 60000 of
        Inl m \<Rightarrow> Inl m
      | Inr least \<Rightarrow> (case integerSetting num env ''OPSIA_SNAPSHOT_INTERVAL_MS'' ''opsia_snapshot_interval_ms'' 2000 100 60000 of
        Inl m \<Rightarrow> Inl m
      | Inr interval \<Rightarrow> if interval < least then Inl ''opsia_snapshot_interval_below_minimum''
      else (case integerSetting num env ''OPSIA_SNAPSHOT_TIMEOUT_MS'' ''opsia_snapshot_timeout_ms'' 750 50 60000 of
        Inl m \<Rightarrow> Inl m
      | Inr timeout \<Rightarrow> (case integerSetting num env ''OPSIA_SNAPSHOT_MAX_BYTES'' ''opsia_snapshot_max_bytes'' 8388608 1024 67108864 of
        Inl m \<Rightarrow> Inl m
      | Inr bytes \<Rightarrow> (case integerSetting num env ''OPSIA_SNAPSHOT_FAILURE_THRESHOLD'' ''opsia_snapshot_failure_threshold'' 3 1 100 of
        Inl m \<Rightarrow> Inl m
      | Inr threshold \<Rightarrow> map_sum id
          (\<lambda>cooldown. \<lparr>wc_intervalMs = interval, wc_minIntervalMs = least, wc_timeoutMs = timeout, wc_maxPayloadBytes = bytes,
             wc_failureThreshold = threshold, wc_circuitCooldownMs = cooldown\<rparr>)
          (integerSetting num env ''OPSIA_SNAPSHOT_CIRCUIT_COOLDOWN_MS'' ''opsia_snapshot_circuit_cooldown_ms'' 5000 100 300000))))))"

section \<open>State\<close>

datatype save_status = Saved | Failed | TimedOut | CircuitOpen

record save_result =
  sv_status :: save_status
  sv_checksum :: "jv option"
  sv_payloadBytes :: "nat option"
  sv_durationMs :: "int option"
  sv_error :: "string option"

text \<open>The operation events, without the Pod and the memory they report from the process.\<close>

datatype writer_event =
    SaveStarted jv jv jv nat
  | SaveCompleted jv jv jv int jv nat
  | SaveCoalesced nat int
  | BacklogDetected int
  | SaveFailed int string nat bool
  | CircuitOpened string nat int
  | CircuitHalfOpened nat
  | CircuitClosed int

type_synonym save_request = "obj \<times> snapshot_context"

text \<open>A factory: what it returns or throws at a time.  A waiter is the number of its request.\<close>

type_synonym save_factory = "int \<Rightarrow> exn + save_request"

record pending_write =
  pw_factory :: save_factory
  pw_requestedAt :: int
  pw_waiters :: "nat list"

record writer_metrics =
  wm_roomEpoch :: jv
  wm_serverTick :: jv
  wm_inflight :: nat
  wm_pending :: nat
  wm_payloadBytes :: nat
  wm_writeDurationMs :: int
  wm_coalescedTotal :: nat
  wm_failuresTotal :: nat
  wm_timeoutsTotal :: nat
  wm_consecutiveFailures :: nat
  wm_circuitOpen :: bool
  wm_handoffEnabled :: bool
  wm_oldestPendingAgeMs :: int
  wm_lastChecksum :: jv
  wm_lastError :: "string option"

text \<open>
  Where \<open>run\<close> is: not started; racing the write against the deadline; with a result it has not handed out (and whether the
  write has settled); waiting for the write to settle; returned, with its \<open>finally\<close> still queued.
\<close>

datatype run_at = NoRun | Racing pending_write obj string int | Decided pending_write save_result bool | Told bool | Leaving

record writer =
  wr_config :: writer_config
  wr_state :: writer_metrics
  wr_run :: run_at
  wr_pending :: "pending_write option"
  wr_circuitOpenUntil :: int
  wr_inFlightStartedAt :: int
  wr_log :: "(int \<times> writer_event) list"
  wr_answers :: "(nat \<times> save_result) list"

definition new_writer :: "writer_config \<Rightarrow> writer" where
  "new_writer c =
     \<lparr>wr_config = c,
      wr_state = \<lparr>wm_roomEpoch = JNum (js_int 0), wm_serverTick = JNum (js_int 0), wm_inflight = 0, wm_pending = 0, wm_payloadBytes = 0,
        wm_writeDurationMs = 0, wm_coalescedTotal = 0, wm_failuresTotal = 0, wm_timeoutsTotal = 0, wm_consecutiveFailures = 0,
        wm_circuitOpen = False, wm_handoffEnabled = True, wm_oldestPendingAgeMs = 0, wm_lastChecksum = JUndef, wm_lastError = None\<rparr>,
      wr_run = NoRun, wr_pending = None, wr_circuitOpenUntil = 0, wr_inFlightStartedAt = 0, wr_log = [], wr_answers = []\<rparr>"

definition metrics :: "int \<Rightarrow> writer \<Rightarrow> writer_metrics" where
  "metrics now w = (wr_state w)
     \<lparr>wm_handoffEnabled := \<not> wm_circuitOpen (wr_state w) \<and> int (wm_consecutiveFailures (wr_state w)) < wc_failureThreshold (wr_config w),
      wm_oldestPendingAgeMs := (case wr_pending w of Some p \<Rightarrow> max 0 (now - pw_requestedAt p) | None \<Rightarrow> 0)\<rparr>"

definition on_event :: "int \<Rightarrow> writer_event \<Rightarrow> writer \<Rightarrow> writer" where
  "on_event now v w = w\<lparr>wr_log := wr_log w @ [(now, v)]\<rparr>"

definition answer_all :: "save_result \<Rightarrow> nat list \<Rightarrow> writer \<Rightarrow> writer" where
  "answer_all r ws w = w\<lparr>wr_answers := wr_answers w @ map (\<lambda>i. (i, r)) ws\<rparr>"

definition pending_bit :: "writer \<Rightarrow> nat" where
  "pending_bit w = (case wr_pending w of None \<Rightarrow> 0 | Some _ \<Rightarrow> 1)"

section \<open>Executing a write\<close>

definition open_circuit :: "int \<Rightarrow> string \<Rightarrow> writer \<Rightarrow> writer" where
  "open_circuit now message w =
     (let until = now + wc_circuitCooldownMs (wr_config w) in
      on_event now (CircuitOpened message (wm_consecutiveFailures (wr_state w)) until)
        (w\<lparr>wr_circuitOpenUntil := until, wr_state := (wr_state w)\<lparr>wm_circuitOpen := True, wm_handoffEnabled := False\<rparr>\<rparr>))"

definition recordFailure :: "int \<Rightarrow> string \<Rightarrow> save_status \<Rightarrow> int \<Rightarrow> writer \<Rightarrow> save_result \<times> writer" where
  "recordFailure now message status startedAt w =
     (let duration = max 0 (now - startedAt);
          s = wr_state w;
          s = s\<lparr>wm_writeDurationMs := duration, wm_failuresTotal := Suc (wm_failuresTotal s),
                wm_consecutiveFailures := Suc (wm_consecutiveFailures s), wm_lastError := Some message\<rparr>;
          w = on_event now (SaveFailed duration message (wm_consecutiveFailures s) (status = TimedOut)) (w\<lparr>wr_state := s\<rparr>)
      in (\<lparr>sv_status = status, sv_checksum = None, sv_payloadBytes = None, sv_durationMs = Some duration, sv_error = Some message\<rparr>,
          if wc_failureThreshold (wr_config w) \<le> int (wm_consecutiveFailures s) then open_circuit now message w else w))"

text \<open>The envelope of a request and its text, or why there is none.\<close>

definition build_snapshot :: "json_text \<Rightarrow> (string \<Rightarrow> string) \<Rightarrow> int \<Rightarrow> writer_config \<Rightarrow> save_factory \<Rightarrow> string + obj \<times> string" where
  "build_snapshot j sha now c f =
     (case f now of
        Inl x \<Rightarrow> Inl (message_or ''snapshot_build_failed'' x)
      | Inr (payload, context) \<Rightarrow> (case createSnapshotEnvelope j sha (js_int now) payload context of
          Inl m \<Rightarrow> Inl m
        | Inr e \<Rightarrow> (case orderedJson j (clone_json (JObj e)) of
            Inl m \<Rightarrow> Inl m
          | Inr t \<Rightarrow> if wc_maxPayloadBytes c < int (utf8_bytes t) then Inl ''snapshot_payload_too_large'' else Inr (e, t))))"

text \<open>The synchronous part of \<open>execute\<close>, as \<open>run\<close> calls it.\<close>

definition execute_write :: "json_text \<Rightarrow> (string \<Rightarrow> string) \<Rightarrow> int \<Rightarrow> pending_write \<Rightarrow> writer \<Rightarrow> writer" where
  "execute_write j sha now p w =
     (case build_snapshot j sha now (wr_config w) (pw_factory p) of
        Inl message \<Rightarrow> (case recordFailure now message Failed now w of (r, w) \<Rightarrow> w\<lparr>wr_run := Decided p r True\<rparr>)
      | Inr (e, t) \<Rightarrow>
          on_event now (SaveStarted (oget e ''roomId'') (oget e ''roomEpoch'') (oget e ''serverTick'') (utf8_bytes t))
            (w\<lparr>wr_state := (wr_state w)\<lparr>wm_payloadBytes := utf8_bytes t, wm_roomEpoch := oget e ''roomEpoch'', wm_serverTick := oget e ''serverTick''\<rparr>,
               wr_run := Racing p e t now\<rparr>))"

text \<open>One turn of the loop of \<open>run\<close>, up to its first await.\<close>

definition begin_write :: "json_text \<Rightarrow> (string \<Rightarrow> string) \<Rightarrow> int \<Rightarrow> pending_write \<Rightarrow> writer \<Rightarrow> writer" where
  "begin_write j sha now p w =
     execute_write j sha now p
       (w\<lparr>wr_inFlightStartedAt := now, wr_state := (wr_state w)\<lparr>wm_inflight := 1, wm_pending := pending_bit w\<rparr>\<rparr>)"

section \<open>Requests\<close>

definition circuit_open_result :: save_result where
  "circuit_open_result = \<lparr>sv_status = CircuitOpen, sv_checksum = None, sv_payloadBytes = None, sv_durationMs = None, sv_error = Some ''snapshot_circuit_open''\<rparr>"

definition half_open :: "int \<Rightarrow> writer \<Rightarrow> writer" where
  "half_open now w =
     (if wm_circuitOpen (wr_state w)
      then on_event now (CircuitHalfOpened (wm_consecutiveFailures (wr_state w))) (w\<lparr>wr_state := (wr_state w)\<lparr>wm_circuitOpen := False\<rparr>\<rparr>)
      else w)"

definition coalesce :: "int \<Rightarrow> pending_write \<Rightarrow> writer \<Rightarrow> writer" where
  "coalesce now p w =
     (let p = (case wr_pending w of None \<Rightarrow> p
               | Some q \<Rightarrow> p\<lparr>pw_requestedAt := pw_requestedAt q, pw_waiters := pw_waiters q @ pw_waiters p\<rparr>);
          total = Suc (wm_coalescedTotal (wr_state w)); waited = max 0 (now - wr_inFlightStartedAt w)
      in on_event now (BacklogDetected waited) (on_event now (SaveCoalesced total waited)
           (w\<lparr>wr_pending := Some p, wr_state := (wr_state w)\<lparr>wm_pending := 1, wm_coalescedTotal := total\<rparr>\<rparr>)))"

definition requestSave :: "json_text \<Rightarrow> (string \<Rightarrow> string) \<Rightarrow> int \<Rightarrow> nat \<Rightarrow> save_factory \<Rightarrow> writer \<Rightarrow> writer" where
  "requestSave j sha now i f w =
     (if now < wr_circuitOpenUntil w then answer_all circuit_open_result [i] w
      else let w = half_open now w; p = \<lparr>pw_factory = f, pw_requestedAt = now, pw_waiters = [i]\<rparr> in
        case wr_run w of NoRun \<Rightarrow> begin_write j sha now p w | _ \<Rightarrow> coalesce now p w)"

section \<open>The callbacks of a write\<close>

definition write_saved :: "int \<Rightarrow> writer \<Rightarrow> writer" where
  "write_saved now w =
     (case wr_run w of
        Racing p e t startedAt \<Rightarrow>
          let duration = max 0 (now - startedAt); s = wr_state w; reopened = wm_circuitOpen s \<or> 0 < wm_consecutiveFailures s;
              r = \<lparr>sv_status = Saved, sv_checksum = Some (oget e ''checksum''), sv_payloadBytes = Some (wm_payloadBytes s),
                   sv_durationMs = Some duration, sv_error = None\<rparr>;
              w = on_event now (SaveCompleted (oget e ''roomId'') (oget e ''roomEpoch'') (oget e ''serverTick'') duration (oget e ''checksum'') (wm_payloadBytes s))
                (w\<lparr>wr_circuitOpenUntil := 0, wr_run := Decided p r True,
                   wr_state := s\<lparr>wm_writeDurationMs := duration, wm_consecutiveFailures := 0, wm_circuitOpen := False, wm_handoffEnabled := True,
                     wm_lastChecksum := oget e ''checksum'', wm_lastError := None\<rparr>\<rparr>)
          in if reopened then on_event now (CircuitClosed duration) w else w
      | _ \<Rightarrow> w)"

text \<open>\<open>String(lateError)\<close> of a value that is no error is a parameter.\<close>

definition write_failed :: "int \<Rightarrow> string \<Rightarrow> exn \<Rightarrow> writer \<Rightarrow> writer" where
  "write_failed now late x w =
     (case wr_run w of
        Racing p e t startedAt \<Rightarrow> (case recordFailure now (message_or late x) Failed startedAt w of (r, w) \<Rightarrow> w\<lparr>wr_run := Decided p r True\<rparr>)
      | _ \<Rightarrow> w)"

definition write_deadline :: "int \<Rightarrow> writer \<Rightarrow> writer" where
  "write_deadline now w =
     (case wr_run w of
        Racing p e t startedAt \<Rightarrow>
          (case recordFailure now ''snapshot_write_timeout'' TimedOut startedAt
              (w\<lparr>wr_state := (wr_state w)\<lparr>wm_timeoutsTotal := Suc (wm_timeoutsTotal (wr_state w))\<rparr>\<rparr>) of
             (r, w) \<Rightarrow> w\<lparr>wr_run := Decided p r False\<rparr>)
      | _ \<Rightarrow> w)"

text \<open>A write that was given up settles at last.\<close>

definition late_settled :: "writer \<Rightarrow> writer" where
  "late_settled w = w\<lparr>wr_run := (case wr_run w of Decided p r False \<Rightarrow> Decided p r True | Told False \<Rightarrow> Told True | x \<Rightarrow> x)\<rparr>"

definition hand_out :: "writer \<Rightarrow> writer" where
  "hand_out w = (case wr_run w of Decided p r settled \<Rightarrow> answer_all r (pw_waiters p) (w\<lparr>wr_run := Told settled\<rparr>) | _ \<Rightarrow> w)"

text \<open>After the write has settled: the request that waits is begun, or refused by the circuit; or \<open>run\<close> returns.\<close>

definition run_next :: "json_text \<Rightarrow> (string \<Rightarrow> string) \<Rightarrow> int \<Rightarrow> writer \<Rightarrow> writer" where
  "run_next j sha now w =
     (case wr_run w of
        Told True \<Rightarrow>
          let v = w\<lparr>wr_pending := None, wr_state := (wr_state w)\<lparr>wm_pending := 0\<rparr>\<rparr> in
          (case wr_pending w of
             None \<Rightarrow> v\<lparr>wr_run := Leaving\<rparr>
           | Some p \<Rightarrow> if now < wr_circuitOpenUntil w then answer_all circuit_open_result (pw_waiters p) (v\<lparr>wr_run := Leaving\<rparr>)
               else begin_write j sha now p v)
      | _ \<Rightarrow> w)"

definition run_finally :: "writer \<Rightarrow> writer" where
  "run_finally w =
     (case wr_run w of
        Leaving \<Rightarrow> w\<lparr>wr_run := NoRun, wr_inFlightStartedAt := 0, wr_state := (wr_state w)\<lparr>wm_inflight := 0, wm_pending := pending_bit w\<rparr>\<rparr>
      | _ \<Rightarrow> w)"

end
