(* ===== verification/SnapshotWriterFacts.thy ===== *)
theory SnapshotWriterFacts
  imports SnapshotWriter "HOL-Library.Multiset"
begin

text \<open>
  The snapshot writer as a transition system: requests come at any time, a write ends in any way, and the pieces of
  \<open>run\<close> follow when they are due.
\<close>

inductive writer_step :: "json_text \<Rightarrow> (string \<Rightarrow> string) \<Rightarrow> writer \<Rightarrow> writer \<Rightarrow> bool" for j sha where
  saved: "writer_step j sha w (write_saved now w)"
| failed: "writer_step j sha w (write_failed now late x w)"
| deadline: "writer_step j sha w (write_deadline now w)"
| settled: "writer_step j sha w (late_settled w)"
| told: "writer_step j sha w (hand_out w)"
| next_turn: "writer_step j sha w (run_next j sha now w)"
| finish: "writer_step j sha w (run_finally w)"

inductive writer_reach :: "json_text \<Rightarrow> (string \<Rightarrow> string) \<Rightarrow> writer_config \<Rightarrow> nat list \<Rightarrow> writer \<Rightarrow> bool" for j sha c where
  start: "writer_reach j sha c [] (new_writer c)"
| asks: "writer_reach j sha c is w \<Longrightarrow> i \<notin> set is \<Longrightarrow> writer_reach j sha c (is @ [i]) (requestSave j sha now i f w)"
| steps: "writer_reach j sha c is w \<Longrightarrow> writer_step j sha w w' \<Longrightarrow> writer_reach j sha c is w'"

section \<open>Every request is answered once\<close>

definition waiting_in_run :: "writer \<Rightarrow> nat list" where
  "waiting_in_run w = (case wr_run w of Racing p _ _ _ \<Rightarrow> pw_waiters p | Decided p _ _ \<Rightarrow> pw_waiters p | _ \<Rightarrow> [])"

definition waiting_next :: "writer \<Rightarrow> nat list" where
  "waiting_next w = (case wr_pending w of Some p \<Rightarrow> pw_waiters p | None \<Rightarrow> [])"

definition completed_with :: "writer \<Rightarrow> save_result \<Rightarrow> bool" where
  "completed_with w r = (sv_status r = Saved \<longrightarrow> (\<exists>t room epoch tick d sum bytes. (t, SaveCompleted room epoch tick d sum bytes) \<in> set (wr_log w) \<and> sv_checksum r = Some sum))"

text \<open>A write the writer has started and that has not settled.\<close>

definition outstanding :: "writer \<Rightarrow> bool" where
  "outstanding w = (case wr_run w of Racing _ _ _ _ \<Rightarrow> True | Decided _ _ settled \<Rightarrow> \<not> settled | Told settled \<Rightarrow> \<not> settled | _ \<Rightarrow> False)"

definition accounted :: "nat list \<Rightarrow> writer \<Rightarrow> bool" where
  "accounted is w =
     (mset (map fst (wr_answers w)) + mset (waiting_in_run w) + mset (waiting_next w) = mset is
      \<and> wm_inflight (wr_state w) = (if wr_run w = NoRun then 0 else 1) \<and> wm_pending (wr_state w) = pending_bit w
      \<and> (\<forall>(i, r) \<in> set (wr_answers w). completed_with w r)
      \<and> (\<forall>p r s. wr_run w = Decided p r s \<longrightarrow> completed_with w r))"

lemma run_cases: "(case r of NoRun \<Rightarrow> a | _ \<Rightarrow> b) = (if r = NoRun then a else b)" "(case r of Leaving \<Rightarrow> a | _ \<Rightarrow> b) = (if r = Leaving then a else b)"
  by (cases r; simp)+

lemma pending_bit_if: "pending_bit w = (if wr_pending w = None then 0 else 1)"
  by (simp add: pending_bit_def split: option.splits)

lemmas writer_defs = requestSave_def [unfolded run_cases] run_finally_def [unfolded run_cases]

lemma event_simps [simp]:
  "wr_answers (on_event now v w) = wr_answers w" "wr_run (on_event now v w) = wr_run w" "wr_pending (on_event now v w) = wr_pending w"
  "wr_state (on_event now v w) = wr_state w" "wr_config (on_event now v w) = wr_config w" "wr_circuitOpenUntil (on_event now v w) = wr_circuitOpenUntil w"
  "wr_log (on_event now v w) = wr_log w @ [(now, v)]"
  by (simp_all add: on_event_def)

lemma answer_simps [simp]:
  "wr_answers (answer_all r ws w) = wr_answers w @ map (\<lambda>i. (i, r)) ws" "wr_run (answer_all r ws w) = wr_run w" "wr_pending (answer_all r ws w) = wr_pending w"
  "wr_state (answer_all r ws w) = wr_state w" "wr_config (answer_all r ws w) = wr_config w" "wr_circuitOpenUntil (answer_all r ws w) = wr_circuitOpenUntil w"
  "wr_log (answer_all r ws w) = wr_log w"
  by (simp_all add: answer_all_def)

text \<open>What recording a failure does.\<close>

lemma failure_keeps:
  assumes "recordFailure now m st s w = (r, v)"
  shows "wr_answers v = wr_answers w" "wr_run v = wr_run w" "wr_pending v = wr_pending w" "wr_config v = wr_config w"
    and "wm_inflight (wr_state v) = wm_inflight (wr_state w)" "wm_pending (wr_state v) = wm_pending (wr_state w)"
    and "sv_status r = st" "\<exists>vs. wr_log v = wr_log w @ vs \<and> (\<forall>(t, e) \<in> set vs. case e of SaveFailed _ _ _ _ \<Rightarrow> True | CircuitOpened _ _ _ \<Rightarrow> True | _ \<Rightarrow> False)"
  using assms by (auto simp: recordFailure_def Let_def open_circuit_def split: if_splits)

lemma completed_grows: "completed_with w r \<Longrightarrow> wr_log v = wr_log w @ vs \<Longrightarrow> completed_with v r"
  unfolding completed_with_def by (metis UnCI set_append)

lemma completed_other [simp]: "sv_status r \<noteq> Saved \<Longrightarrow> completed_with w r"
  by (simp add: completed_with_def)

text \<open>Beginning a write keeps the account, with its waiters now in the run.\<close>

lemma execute_accounted:
  assumes "wr_answers w = as" "wr_pending w = q" "wm_inflight (wr_state w) = 1" "wm_pending (wr_state w) = pending_bit w"
    and "\<forall>(i, r) \<in> set as. completed_with w r"
    and "mset (map fst as) + mset (pw_waiters p) + mset (case q of Some p \<Rightarrow> pw_waiters p | None \<Rightarrow> []) = mset is"
  shows "accounted is (execute_write j sha now p w)"
proof (cases "build_snapshot j sha now (wr_config w) (pw_factory p)")
  case (Inl m)
  obtain r v where rv: "recordFailure now m Failed now w = (r, v)" by (cases "recordFailure now m Failed now w") auto
  obtain vs where "wr_log v = wr_log w @ vs" using failure_keeps(8) [OF rv] by blast
  then have "\<forall>(i, r) \<in> set as. completed_with (v\<lparr>wr_run := x\<rparr>) r" for x using assms(5) completed_grows [of w _ "v\<lparr>wr_run := x\<rparr>" vs] by fastforce
  moreover have "completed_with (v\<lparr>wr_run := x\<rparr>) r" for x using failure_keeps(7) [OF rv] by simp
  ultimately show ?thesis
    using assms failure_keeps(1-6) [OF rv]
    by (simp add: execute_write_def Inl rv accounted_def waiting_in_run_def waiting_next_def pending_bit_if)
next
  case (Inr b)
  obtain e t where b: "b = (e, t)" by (cases b)
  let ?v = "execute_write j sha now p w"
  have "wr_log ?v = wr_log w @ [(now, SaveStarted (oget e ''roomId'') (oget e ''roomEpoch'') (oget e ''serverTick'') (utf8_bytes t))]"
    by (simp add: execute_write_def Inr b)
  then have "\<forall>(i, r) \<in> set as. completed_with ?v r" using assms(5) completed_grows by blast
  moreover have "wr_answers ?v = as" "wr_pending ?v = q" "wr_run ?v = Racing p e t now"
    "wm_inflight (wr_state ?v) = 1" "wm_pending (wr_state ?v) = pending_bit w"
    using assms(1-4) by (simp_all add: execute_write_def Inr b)
  ultimately show ?thesis
    using assms(2,6) by (simp add: accounted_def waiting_in_run_def waiting_next_def pending_bit_if)
qed

lemma begin_accounted:
  assumes "\<forall>(i, r) \<in> set (wr_answers w). completed_with w r"
    and "mset (map fst (wr_answers w)) + mset (pw_waiters p) + mset (waiting_next w) = mset is"
  shows "accounted is (begin_write j sha now p w)"
  unfolding begin_write_def
  using assms by (intro execute_accounted [OF refl refl]) (auto simp: pending_bit_if waiting_next_def completed_with_def)

lemma half_open_simps [simp]:
  "wr_answers (half_open now w) = wr_answers w" "wr_run (half_open now w) = wr_run w" "wr_pending (half_open now w) = wr_pending w"
  "wm_inflight (wr_state (half_open now w)) = wm_inflight (wr_state w)" "wm_pending (wr_state (half_open now w)) = wm_pending (wr_state w)"
  "wr_config (half_open now w) = wr_config w" "wr_circuitOpenUntil (half_open now w) = wr_circuitOpenUntil w"
  "wm_consecutiveFailures (wr_state (half_open now w)) = wm_consecutiveFailures (wr_state w)"
  by (simp_all add: half_open_def)

lemma half_open_log: "\<exists>vs. wr_log (half_open now w) = wr_log w @ vs \<and> vs \<in> {[], [(now, CircuitHalfOpened (wm_consecutiveFailures (wr_state w)))]}"
  by (simp add: half_open_def)

lemma request_accounted:
  assumes "accounted is w"
  shows "accounted (is @ [i]) (requestSave j sha now i f w)"
proof (cases "now < wr_circuitOpenUntil w")
  case True
  then show ?thesis using assms
    by (auto simp: writer_defs accounted_def waiting_in_run_def waiting_next_def pending_bit_if circuit_open_result_def completed_with_def)
next
  case False
  let ?w = "half_open now w" and ?p = "\<lparr>pw_factory = f, pw_requestedAt = now, pw_waiters = [i]\<rparr>"
  obtain vs where log: "wr_log ?w = wr_log w @ vs" using half_open_log by blast
  have answers: "\<forall>(i, r) \<in> set (wr_answers ?w). completed_with ?w r"
    using assms completed_grows [OF _ log] by (fastforce simp: accounted_def)
  show ?thesis
  proof (cases "wr_run w = NoRun")
    case True
    then have "accounted (is @ [i]) (begin_write j sha now ?p ?w)"
      using assms answers by (intro begin_accounted) (auto simp: accounted_def waiting_in_run_def waiting_next_def)
    then show ?thesis using False True by (simp add: writer_defs)
  next
    case running: False
    let ?v = "coalesce now ?p ?w"
    have "\<exists>us. wr_log ?v = wr_log ?w @ us" by (simp add: coalesce_def Let_def)
    then obtain us where "wr_log ?v = wr_log w @ us" using log by auto
    then have kept: "completed_with w r \<Longrightarrow> completed_with ?v r" for r using completed_grows by blast
    have parts: "wr_answers ?v = wr_answers w" "wr_run ?v = wr_run w" "wm_inflight (wr_state ?v) = wm_inflight (wr_state w)" "wm_pending (wr_state ?v) = 1"
      "wr_pending ?v \<noteq> None" "waiting_next ?v = waiting_next w @ [i]"
      by (auto simp: coalesce_def Let_def waiting_next_def split: option.splits)
    have "accounted (is @ [i]) ?v"
      using assms kept parts unfolding accounted_def waiting_in_run_def by (auto simp: pending_bit_if)
    then show ?thesis using False running by (simp add: writer_defs)
  qed
qed

lemma decided_accounted:
  assumes "accounted is w" and "wr_run w = Racing p e t s" and "wr_answers v = wr_answers w" "wr_pending v = wr_pending w"
    and "wm_inflight (wr_state v) = wm_inflight (wr_state w)" "wm_pending (wr_state v) = wm_pending (wr_state w)"
    and "wr_log v = wr_log w @ vs" and "completed_with v r"
  shows "accounted is (v\<lparr>wr_run := Decided p r b\<rparr>)"
proof -
  have same: "completed_with (v\<lparr>wr_run := x\<rparr>) r' = completed_with v r'" for x r' by (simp add: completed_with_def)
  have "\<forall>(i, r) \<in> set (wr_answers w). completed_with v r"
    using assms(1) completed_grows [OF _ assms(7)] by (fastforce simp: accounted_def)
  then show ?thesis
    using assms by (simp add: accounted_def waiting_in_run_def waiting_next_def pending_bit_if same)
qed

lemma completed_run [simp]: "completed_with (w\<lparr>wr_run := x\<rparr>) r = completed_with w r"
  by (simp add: completed_with_def)

lemma completed_answer [simp]: "completed_with (answer_all q ws w) r = completed_with w r"
  by (simp add: completed_with_def)

lemma answered_mset [simp]: "image_mset fst {#(i, r). i \<in># M#} = M" "image_mset (fst \<circ> (\<lambda>i. (i, r))) M = M"
  by (induction M) auto

lemma step_accounted: "writer_step j sha w w' \<Longrightarrow> accounted is w \<Longrightarrow> accounted is w'"
proof (induction rule: writer_step.induct)
  case (saved w now)
  show ?case
  proof (cases "wr_run w")
    case (Racing p e t s)
    let ?r = "\<lparr>sv_status = Saved, sv_checksum = Some (oget e ''checksum''), sv_payloadBytes = Some (wm_payloadBytes (wr_state w)),
                   sv_durationMs = Some (max 0 (now - s)), sv_error = None\<rparr>"
    let ?v = "write_saved now w"
    have v: "?v = ?v\<lparr>wr_run := Decided p ?r True\<rparr>" "wr_answers ?v = wr_answers w" "wr_pending ?v = wr_pending w"
      "wm_inflight (wr_state ?v) = wm_inflight (wr_state w)" "wm_pending (wr_state ?v) = wm_pending (wr_state w)"
      by (simp_all add: write_saved_def Racing Let_def on_event_def)
    have "\<exists>vs. wr_log ?v = wr_log w @ vs" by (simp add: write_saved_def Racing Let_def)
    then obtain vs where log: "wr_log ?v = wr_log w @ vs" by blast
    have "(now, SaveCompleted (oget e ''roomId'') (oget e ''roomEpoch'') (oget e ''serverTick'') (max 0 (now - s)) (oget e ''checksum'')
        (wm_payloadBytes (wr_state w))) \<in> set (wr_log ?v)"
      by (simp add: write_saved_def Racing Let_def)
    then have completed: "completed_with ?v ?r" unfolding completed_with_def by fastforce
    show ?thesis by (subst v(1)) (rule decided_accounted [OF saved Racing v(2-5) log completed])
  qed (use saved in \<open>simp_all add: write_saved_def\<close>)
next
  case (failed w now late x)
  show ?case
  proof (cases "wr_run w")
    case (Racing p e t s)
    obtain r v where rv: "recordFailure now (message_or late x) Failed s w = (r, v)" by (cases "recordFailure now (message_or late x) Failed s w") auto
    obtain vs where log: "wr_log v = wr_log w @ vs" using failure_keeps(8) [OF rv] by blast
    have "completed_with v r" using failure_keeps(7) [OF rv] by simp
    then show ?thesis
      using decided_accounted [OF failed Racing _ _ _ _ log, of r True] failure_keeps(1-6) [OF rv] by (simp add: write_failed_def Racing rv)
  qed (use failed in \<open>simp_all add: write_failed_def\<close>)
next
  case (deadline w now)
  show ?case
  proof (cases "wr_run w")
    case (Racing p e t s)
    let ?u = "w\<lparr>wr_state := (wr_state w)\<lparr>wm_timeoutsTotal := Suc (wm_timeoutsTotal (wr_state w))\<rparr>\<rparr>"
    obtain r v where rv: "recordFailure now ''snapshot_write_timeout'' TimedOut s ?u = (r, v)"
      by (cases "recordFailure now ''snapshot_write_timeout'' TimedOut s ?u") auto
    obtain vs where log: "wr_log v = wr_log w @ vs" using failure_keeps(8) [OF rv] by auto
    have "completed_with v r" using failure_keeps(7) [OF rv] by simp
    then show ?thesis
      using decided_accounted [OF deadline Racing _ _ _ _ log, of r False] failure_keeps(1-6) [OF rv] by (simp add: write_deadline_def Racing rv)
  qed (use deadline in \<open>simp_all add: write_deadline_def\<close>)
next
  case (settled w)
  then show ?case
    by (auto simp: late_settled_def accounted_def waiting_in_run_def waiting_next_def pending_bit_if
        split: run_at.splits bool.splits)
next
  case (told w)
  then show ?case
    by (auto simp: hand_out_def accounted_def waiting_in_run_def waiting_next_def pending_bit_if
        split: run_at.splits)
next
  case (next_turn w now)
  show ?case
  proof (cases "wr_run w = Told True")
    case True
    let ?v = "w\<lparr>wr_pending := None, wr_state := (wr_state w)\<lparr>wm_pending := 0\<rparr>\<rparr>"
    show ?thesis
    proof (cases "wr_pending w")
      case None
      then show ?thesis
        using next_turn True by (auto simp: run_next_def accounted_def waiting_in_run_def waiting_next_def pending_bit_if completed_with_def)
    next
      case (Some p)
      have account: "mset (map fst (wr_answers w)) + mset (pw_waiters p) = mset is" "\<forall>(i, r) \<in> set (wr_answers w). completed_with w r"
        using next_turn True Some by (simp_all add: accounted_def waiting_in_run_def waiting_next_def)
      show ?thesis
      proof (cases "now < wr_circuitOpenUntil w")
        case circuit: True
        show ?thesis
          using account next_turn True Some circuit
          by (auto simp: run_next_def accounted_def waiting_in_run_def waiting_next_def pending_bit_if completed_with_def circuit_open_result_def)
      next
        case False
        have "accounted is (begin_write j sha now p ?v)"
          using account by (intro begin_accounted) (auto simp: waiting_next_def completed_with_def)
        then show ?thesis using True Some False by (simp add: run_next_def)
      qed
    qed
  qed (use next_turn in \<open>auto simp: run_next_def split: run_at.splits bool.splits\<close>)
next
  case (finish w)
  then show ?case
    by (auto simp: writer_defs accounted_def waiting_in_run_def waiting_next_def pending_bit_if completed_with_def)
qed

lemma reach_accounted: "writer_reach j sha c is w \<Longrightarrow> accounted is w \<and> distinct is"
proof (induction rule: writer_reach.induct)
  case start
  then show ?case by (simp add: accounted_def new_writer_def waiting_in_run_def waiting_next_def pending_bit_if)
next
  case (asks "is" w i now f)
  then show ?case using request_accounted by simp
next
  case (steps "is" w w')
  then show ?case using step_accounted by blast
qed

text \<open>C37: Every request to save is answered once, and told the truth.  In every reachable state the answered requests and
  those that wait, in the running write or in the coalesced one behind it, are the requests that were made, each exactly
  once; the metrics say whether a write is in flight and whether one waits; and a request answered \<open>saved\<close> got the checksum
  of a write that completed.\<close>

theorem every_request_is_answered_once:
  assumes "writer_reach j sha c is w"
  shows "distinct (map fst (wr_answers w) @ waiting_in_run w @ waiting_next w)
    \<and> set (map fst (wr_answers w) @ waiting_in_run w @ waiting_next w) = set is
    \<and> wm_inflight (wr_state w) = (if wr_run w = NoRun then 0 else 1) \<and> wm_pending (wr_state w) = pending_bit w
    \<and> (\<forall>(i, r) \<in> set (wr_answers w). sv_status r = Saved \<longrightarrow>
        (\<exists>t room epoch tick d sum bytes. (t, SaveCompleted room epoch tick d sum bytes) \<in> set (wr_log w) \<and> sv_checksum r = Some sum))"
proof -
  have account: "accounted is w" and once: "distinct is" using reach_accounted [OF assms] by simp_all
  have "mset (map fst (wr_answers w) @ waiting_in_run w @ waiting_next w) = mset is" using account by (simp add: accounted_def add.assoc)
  then have "distinct (map fst (wr_answers w) @ waiting_in_run w @ waiting_next w)"
    and "set (map fst (wr_answers w) @ waiting_in_run w @ waiting_next w) = set is"
    using once mset_eq_imp_distinct_iff mset_eq_setD by blast+
  moreover have "wm_inflight (wr_state w) = (if wr_run w = NoRun then 0 else 1)" "wm_pending (wr_state w) = pending_bit w"
    using account by (simp_all add: accounted_def)
  moreover have "\<forall>(i, r) \<in> set (wr_answers w). sv_status r = Saved \<longrightarrow>
      (\<exists>t room epoch tick d sum bytes. (t, SaveCompleted room epoch tick d sum bytes) \<in> set (wr_log w) \<and> sv_checksum r = Some sum)"
    using account by (simp add: accounted_def completed_with_def)
  ultimately show ?thesis by blast
qed

section \<open>The circuit breaker\<close>

text \<open>What the log of outcomes says of the breaker: the failures since the last success, and until when it is open.\<close>

fun breaker_step :: "writer_config \<Rightarrow> nat \<times> int \<Rightarrow> int \<times> writer_event \<Rightarrow> nat \<times> int" where
  "breaker_step c (n, until) (t, SaveFailed _ _ _ _) =
     (Suc n, if wc_failureThreshold c \<le> int (Suc n) then t + wc_circuitCooldownMs c else until)"
| "breaker_step c b (t, SaveCompleted _ _ _ _ _ _) = (0, 0)"
| "breaker_step c b _ = b"

definition breaker :: "writer_config \<Rightarrow> (int \<times> writer_event) list \<Rightarrow> nat \<times> int" where
  "breaker c = foldl (breaker_step c) (0, 0)"

definition is_start :: "writer_event \<Rightarrow> bool" where
  "is_start e = (case e of SaveStarted _ _ _ _ \<Rightarrow> True | _ \<Rightarrow> False)"

definition starts_closed :: "writer_config \<Rightarrow> (int \<times> writer_event) list \<Rightarrow> bool" where
  "starts_closed c l = (\<forall>xs t e ys. l = xs @ (t, e) # ys \<longrightarrow> is_start e \<longrightarrow> snd (breaker c xs) \<le> t)"

lemma breaker_append [simp]: "breaker c (xs @ ys) = foldl (breaker_step c) (breaker c xs) ys"
  by (simp add: breaker_def)

lemma starts_snoc: "starts_closed c (l @ [(t, e)]) \<longleftrightarrow> starts_closed c l \<and> (is_start e \<longrightarrow> snd (breaker c l) \<le> t)"
proof -
  have "(l @ [(t, e)] = xs @ (u, v) # ys) \<longleftrightarrow> (ys = [] \<and> xs = l \<and> u = t \<and> v = e) \<or> (\<exists>zs. ys = zs @ [(t, e)] \<and> l = xs @ (u, v) # zs)" for xs u v ys
    by (cases ys rule: rev_cases) auto
  then show ?thesis unfolding starts_closed_def by metis
qed

lemma starts_two: "starts_closed c (l @ [a, b]) \<longleftrightarrow> starts_closed c ((l @ [a]) @ [b])"
  by simp

definition breaker_ok :: "writer \<Rightarrow> bool" where
  "breaker_ok w =
     ((wm_consecutiveFailures (wr_state w), wr_circuitOpenUntil w) = breaker (wr_config w) (wr_log w)
      \<and> starts_closed (wr_config w) (wr_log w)
      \<and> (wm_circuitOpen (wr_state w) \<longrightarrow> wc_failureThreshold (wr_config w) \<le> int (wm_consecutiveFailures (wr_state w))))"

lemma failure_breaker:
  assumes "breaker_ok w" and "recordFailure now m st s w = (r, v)"
  shows "breaker_ok v"
proof -
  let ?n = "wm_consecutiveFailures (wr_state w)"
  have state: "breaker (wr_config w) (wr_log w) = (?n, wr_circuitOpenUntil w)" "starts_closed (wr_config w) (wr_log w)"
    using assms(1) by (simp_all add: breaker_ok_def)
  show ?thesis
    using assms(2) state assms(1)
    by (auto simp: recordFailure_def Let_def open_circuit_def breaker_ok_def starts_two starts_snoc is_start_def simp del: append_assoc split: if_splits)
qed

lemma execute_breaker:
  assumes "breaker_ok w" and "wr_circuitOpenUntil w \<le> now"
  shows "breaker_ok (execute_write j sha now p w)"
proof (cases "build_snapshot j sha now (wr_config w) (pw_factory p)")
  case (Inl m)
  obtain r v where rv: "recordFailure now m Failed now w = (r, v)" by (cases "recordFailure now m Failed now w") auto
  show ?thesis using failure_breaker [OF assms(1) rv] by (simp add: execute_write_def Inl rv breaker_ok_def)
next
  case (Inr b)
  obtain e t where b: "b = (e, t)" by (cases b)
  have "breaker (wr_config w) (wr_log w) = (wm_consecutiveFailures (wr_state w), wr_circuitOpenUntil w)"
    using assms(1) by (simp add: breaker_ok_def)
  then show ?thesis using assms by (simp add: execute_write_def Inr b breaker_ok_def starts_snoc)
qed

lemma begin_breaker: "breaker_ok w \<Longrightarrow> wr_circuitOpenUntil w \<le> now \<Longrightarrow> breaker_ok (begin_write j sha now p w)"
  unfolding begin_write_def by (rule execute_breaker) (simp_all add: breaker_ok_def)

lemma half_open_breaker: "breaker_ok w \<Longrightarrow> breaker_ok (half_open now w)"
  by (cases "breaker (wr_config w) (wr_log w)") (auto simp: half_open_def breaker_ok_def starts_snoc is_start_def)

lemma coalesce_breaker: "breaker_ok w \<Longrightarrow> breaker_ok (coalesce now p w)"
  by (cases "breaker (wr_config w) (wr_log w)")
    (auto simp: coalesce_def Let_def breaker_ok_def starts_two starts_snoc is_start_def simp del: append_assoc)

lemma request_breaker:
  assumes "breaker_ok w"
  shows "breaker_ok (requestSave j sha now i f w)"
proof (cases "now < wr_circuitOpenUntil w")
  case True
  then show ?thesis using assms by (simp add: writer_defs breaker_ok_def)
next
  case False
  have half: "breaker_ok (half_open now w)" by (rule half_open_breaker [OF assms])
  then have "breaker_ok (coalesce now p (half_open now w))" for p by (rule coalesce_breaker)
  then show ?thesis using False half begin_breaker by (simp add: writer_defs Let_def)
qed

lemma saved_breaker: "breaker_ok w \<Longrightarrow> breaker_ok (write_saved now w)"
  by (cases "wr_run w"; cases "breaker (wr_config w) (wr_log w)") 
    (auto simp: write_saved_def Let_def breaker_ok_def starts_two starts_snoc is_start_def simp del: append_assoc)

lemma step_breaker: "writer_step j sha w w' \<Longrightarrow> breaker_ok w \<Longrightarrow> breaker_ok w'"
proof (induction rule: writer_step.induct)
  case (saved w now)
  then show ?case by (rule saved_breaker)
next
  case (failed w now late x)
  have "recordFailure now m st s w = (r, v) \<Longrightarrow> breaker_ok (v\<lparr>wr_run := y\<rparr>)" for m st s r v y
    using failure_breaker [OF failed] by (simp add: breaker_ok_def)
  then show ?case using failed by (auto simp: write_failed_def split: run_at.splits prod.splits)
next
  case (deadline w now)
  let ?u = "w\<lparr>wr_state := (wr_state w)\<lparr>wm_timeoutsTotal := Suc (wm_timeoutsTotal (wr_state w))\<rparr>\<rparr>"
  have "breaker_ok ?u" using deadline by (simp add: breaker_ok_def)
  then have "recordFailure now m st s ?u = (r, v) \<Longrightarrow> breaker_ok (v\<lparr>wr_run := y\<rparr>)" for m st s r v y
    using failure_breaker [of ?u] by (simp add: breaker_ok_def)
  then show ?case using deadline by (auto simp: write_deadline_def split: run_at.splits prod.splits)
next
  case (next_turn w now)
  let ?v = "w\<lparr>wr_pending := None, wr_state := (wr_state w)\<lparr>wm_pending := 0\<rparr>\<rparr>"
  have v: "breaker_ok ?v" using next_turn by (simp add: breaker_ok_def)
  then have "\<not> now < wr_circuitOpenUntil w \<Longrightarrow> breaker_ok (begin_write j sha now p ?v)" for p by (intro begin_breaker) simp_all
  then show ?case using next_turn
    by (auto simp: run_next_def Let_def split: run_at.splits bool.splits option.splits) (simp_all add: breaker_ok_def)
qed (auto simp: late_settled_def hand_out_def writer_defs breaker_ok_def split: run_at.splits)

lemma config_kept: "wr_config (begin_write j sha now p w) = wr_config w"
proof -
  have *: "wr_config (execute_write j sha now p v) = wr_config v" for v
    using failure_keeps(4) by (auto simp: execute_write_def split: sum.splits prod.splits)
  show ?thesis by (simp add: begin_write_def *)
qed

lemma step_config: "writer_step j sha w w' \<Longrightarrow> wr_config w' = wr_config w"
  by (induction rule: writer_step.induct)
    (auto simp: write_saved_def write_failed_def write_deadline_def late_settled_def hand_out_def run_next_def writer_defs Let_def
      config_kept failure_keeps(4) split: run_at.splits option.splits bool.splits prod.splits dest: failure_keeps(4))

lemma reach_breaker: "writer_reach j sha c is w \<Longrightarrow> breaker_ok w \<and> wr_config w = c"
proof (induction rule: writer_reach.induct)
  case start
  then show ?case by (simp add: new_writer_def breaker_ok_def breaker_def starts_closed_def)
next
  case (asks "is" w i now f)
  have "wr_config (requestSave j sha now i f w) = wr_config w" by (simp add: writer_defs Let_def config_kept coalesce_def)
  then show ?case using asks request_breaker by simp
next
  case (steps "is" w w')
  then show ?case using step_breaker step_config by metis
qed

text \<open>C38: The breaker follows the outcomes.  In every reachable state the failure count and the time until which the circuit
  is open are what the log of failed and completed writes says: a success closes the circuit, and from the failure that
  reaches the threshold each failure opens it for the cooldown.  No write was started before that time, and the metrics
  enable a handoff only below the threshold.\<close>

theorem breaker_follows_outcomes:
  assumes "writer_reach j sha c is w"
  shows "(wm_consecutiveFailures (wr_state w), wr_circuitOpenUntil w) = breaker c (wr_log w)
    \<and> (\<forall>xs t e ys. wr_log w = xs @ (t, e) # ys \<and> is_start e \<longrightarrow> snd (breaker c xs) \<le> t)
    \<and> (wm_handoffEnabled (metrics now w) \<longleftrightarrow> int (fst (breaker c (wr_log w))) < wc_failureThreshold c)"
proof -
  have ok: "breaker_ok w" "wr_config w = c" using reach_breaker [OF assms] by simp_all
  then have "breaker c (wr_log w) = (wm_consecutiveFailures (wr_state w), wr_circuitOpenUntil w)" by (simp add: breaker_ok_def)
  then show ?thesis using ok by (auto simp: breaker_ok_def starts_closed_def metrics_def)
qed

section \<open>A request that nobody runs\<close>

text \<open>
  A request made after \<open>run\<close> has returned and before its \<open>finally\<close> has run is taken for one behind a running write.  No
  step of the writer touches it then: it waits until somebody makes another request.
\<close>

lemma idle_is_stuck: "wr_run w = NoRun \<Longrightarrow> writer_step j sha w w' \<Longrightarrow> w' = w"
  by (auto elim!: writer_step.cases simp: write_saved_def write_failed_def write_deadline_def late_settled_def hand_out_def run_next_def writer_defs)

text \<open>A request can be left behind.  With a threshold of two or more there is a reachable state in which no write runs, a
  request waits, and every step of the writer leaves it so: the request that came between the return of the run and its
  \<open>finally\<close>.\<close>

lemma late_request_is_stranded:
  assumes "2 \<le> wc_failureThreshold c"
  shows "\<exists>w. writer_reach j sha c [0, 1] w \<and> wr_run w = NoRun \<and> waiting_next w = [1] \<and> (\<forall>w'. writer_step j sha w w' \<longrightarrow> w' = w)"
proof -
  define f :: save_factory where "f = (\<lambda>now. Inl NotAnError)"
  define a where "a = requestSave j sha 1 0 f (new_writer c)"
  have a: "wr_run a = Decided \<lparr>pw_factory = f, pw_requestedAt = 1, pw_waiters = [0]\<rparr>
      \<lparr>sv_status = Failed, sv_checksum = None, sv_payloadBytes = None, sv_durationMs = Some 0, sv_error = Some ''snapshot_build_failed''\<rparr> True"
    "wr_pending a = None" "wr_circuitOpenUntil a = 0"
    using assms by (simp_all add: a_def f_def writer_defs new_writer_def half_open_def begin_write_def execute_write_def build_snapshot_def
      recordFailure_def Let_def on_event_def)
  define b where "b = run_next j sha 1 (hand_out a)"
  have b: "wr_run b = Leaving" "wr_pending b = None" "wr_circuitOpenUntil b = 0"
    by (simp_all add: b_def hand_out_def a run_next_def Let_def)
  define d where "d = run_finally (requestSave j sha 1 1 f b)"
  have d: "wr_run d = NoRun" "waiting_next d = [1]"
    by (simp_all add: d_def writer_defs b Let_def writer_defs coalesce_def waiting_next_def)
  have "writer_reach j sha c [0] a" using writer_reach.asks [OF writer_reach.start] by (simp add: a_def)
  then have "writer_reach j sha c [0] b" unfolding b_def by (intro writer_reach.steps [OF writer_reach.steps [OF _ told] next_turn])
  then have "writer_reach j sha c ([0] @ [1]) d" unfolding d_def by (intro writer_reach.steps [OF writer_reach.asks finish]) simp_all
  then show ?thesis using d idle_is_stuck [OF d(1)] by auto
qed

section \<open>An example\<close>

definition demo_config :: writer_config where
  "demo_config = \<lparr>wc_intervalMs = 2000, wc_minIntervalMs = 250, wc_timeoutMs = 750, wc_maxPayloadBytes = 100000, wc_failureThreshold = 1, wc_circuitCooldownMs = 5000\<rparr>"

definition demo_text :: json_text where
  "demo_text = \<lparr>jt_quote = (\<lambda>s. []), jt_number = (\<lambda>n. ''0'')\<rparr>"

definition demo_factory :: save_factory where
  "demo_factory now = Inr ([(''schemaVersion'', JNum (js_int 4))], \<lparr>sc_roomId = ''room-0'', sc_roomEpoch = js_int 3, sc_serverTick = js_int 10,
     sc_snapshotTick = js_int 10, sc_gameBuildRevision = ''r'', sc_mapSeed = js_int 7, sc_createdAt = None\<rparr>)"

definition demo_saved :: writer where
  "demo_saved = hand_out (write_saved 5 (requestSave demo_text (\<lambda>t. ''abc'') 3 1 demo_factory
     (requestSave demo_text (\<lambda>t. ''abc'') 1 0 demo_factory (new_writer demo_config))))"

lemma demo_saved_reached: "writer_reach demo_text (\<lambda>t. ''abc'') demo_config [0, 1] demo_saved"
proof -
  have "writer_reach demo_text (\<lambda>t. ''abc'') demo_config ([] @ [0]) (requestSave demo_text (\<lambda>t. ''abc'') 1 0 demo_factory (new_writer demo_config))"
    by (intro asks start) simp
  then have "writer_reach demo_text (\<lambda>t. ''abc'') demo_config ([0] @ [1]) (requestSave demo_text (\<lambda>t. ''abc'') 3 1 demo_factory
      (requestSave demo_text (\<lambda>t. ''abc'') 1 0 demo_factory (new_writer demo_config)))"
    by (intro asks) simp_all
  then show ?thesis unfolding demo_saved_def by (intro steps [OF steps [OF _ saved] told]) simp
qed

text \<open>One request is answered with the checksum of its write, one waits behind it.\<close>

lemma every_request_is_answered_once_witness:
  "map (\<lambda>(i, r). (i, sv_status r, sv_checksum r)) (wr_answers demo_saved) = [(0, Saved, Some (JStr ''abc''))]
    \<and> waiting_next demo_saved = [1] \<and> wm_pending (wr_state demo_saved) = 1
    \<and> set (map fst (wr_answers demo_saved) @ waiting_in_run demo_saved @ waiting_next demo_saved) = {0, 1}"
proof -
  have "(map (\<lambda>(i, r). (i, sv_status r, sv_checksum r)) (wr_answers demo_saved), waiting_next demo_saved, wm_pending (wr_state demo_saved))
      = ([(0, Saved, Some (JStr ''abc''))], [1], 1)" by code_simp
  then have "map (\<lambda>(i, r). (i, sv_status r, sv_checksum r)) (wr_answers demo_saved) = [(0, Saved, Some (JStr ''abc''))]"
    "waiting_next demo_saved = [1]" "wm_pending (wr_state demo_saved) = 1" by simp_all
  moreover have "set (map fst (wr_answers demo_saved) @ waiting_in_run demo_saved @ waiting_next demo_saved) = {0, 1}"
    using every_request_is_answered_once [OF demo_saved_reached] by simp
  ultimately show ?thesis by blast
qed

definition demo_failed :: writer where
  "demo_failed = requestSave demo_text (\<lambda>t. ''abc'') 1 0 (\<lambda>now. Inl NotAnError) (new_writer demo_config)"

text \<open>A snapshot that cannot be built opens the circuit of a writer whose threshold is one.\<close>

lemma breaker_follows_outcomes_witness:
  "wr_circuitOpenUntil demo_failed = 5001 \<and> breaker demo_config (wr_log demo_failed) = (1, 5001) \<and> \<not> wm_handoffEnabled (metrics 800 demo_failed)"
proof -
  have "writer_reach demo_text (\<lambda>t. ''abc'') demo_config ([] @ [0]) demo_failed" unfolding demo_failed_def by (intro asks start) simp
  then have reach: "writer_reach demo_text (\<lambda>t. ''abc'') demo_config [0] demo_failed" by simp
  have "wr_circuitOpenUntil demo_failed = 5001" "wm_consecutiveFailures (wr_state demo_failed) = 1" by code_simp+
  moreover have "wc_failureThreshold demo_config = 1" by (simp add: demo_config_def)
  moreover note breaker_follows_outcomes [OF reach, of 800]
  ultimately have "breaker demo_config (wr_log demo_failed) = (1, 5001)" "wr_circuitOpenUntil demo_failed = 5001"
    "wm_handoffEnabled (metrics 800 demo_failed) \<longleftrightarrow> int (fst (breaker demo_config (wr_log demo_failed))) < 1" by simp_all
  then show ?thesis by simp
qed

end
