(* ===== verification/GameGrid.thy ===== *)
theory GameGrid
  imports Prelude
begin

text \<open>
  The grid that finds game objects by place (\<open>server/src/game/grid.ts\<close>).  A cell is a set in insertion order; objects are
  references into a heap, because a query marks the objects it has seen and an object remembers its cells.  Coordinates
  are rationals: dividing by the cell size and rounding down are exact on doubles, adding the position to the bounds is
  taken to be exact.
\<close>

type_synonym point = "rat \<times> rat"
type_synonym cell = "int \<times> int"

record placed =
  pl_bounds :: "point \<times> point"
  pl_pos :: point
  pl_cells :: "cell list"
  pl_queryId :: nat

record grid =
  gd_width :: int
  gd_height :: int
  gd_cells :: "cell \<Rightarrow> nat list"
  gd_nextQueryId :: nat

type_synonym heap = "nat \<Rightarrow> placed"

definition cell_size :: rat where
  "cell_size = 16"

definition new_grid :: "rat \<Rightarrow> rat \<Rightarrow> grid" where
  "new_grid width height = \<lparr>gd_width = \<lfloor>width / cell_size\<rfloor>, gd_height = \<lfloor>height / cell_size\<rfloor>, gd_cells = (\<lambda>c. []), gd_nextQueryId = 1\<rparr>"

definition clamp_cell :: "int \<Rightarrow> int \<Rightarrow> int \<Rightarrow> int" where
  "clamp_cell a least greatest = (if a < greatest then (if least < a then a else least) else greatest)"

definition roundToCells :: "grid \<Rightarrow> point \<Rightarrow> cell" where
  "roundToCells g p = (clamp_cell \<lfloor>fst p / cell_size\<rfloor> 0 (gd_width g), clamp_cell \<lfloor>snd p / cell_size\<rfloor> 0 (gd_height g))"

definition add_points :: "point \<Rightarrow> point \<Rightarrow> point" where
  "add_points a b = (fst a + fst b, snd a + snd b)"

text \<open>The two nested loops from one corner to the other.\<close>

definition cover :: "cell \<Rightarrow> cell \<Rightarrow> cell list" where
  "cover least greatest = concat (map (\<lambda>x. map (Pair x) [snd least..snd greatest]) [fst least..fst greatest])"

definition set_add :: "nat \<Rightarrow> nat list \<Rightarrow> nat list" where
  "set_add r rs = (if r \<in> set rs then rs else rs @ [r])"

section \<open>Keeping objects in their cells\<close>

definition leave_cell :: "nat \<Rightarrow> cell \<Rightarrow> grid \<Rightarrow> grid" where
  "leave_cell r c g = g\<lparr>gd_cells := (gd_cells g)(c := filter (\<lambda>q. q \<noteq> r) (gd_cells g c))\<rparr>"

definition enter_cell :: "nat \<Rightarrow> cell \<Rightarrow> grid \<Rightarrow> grid" where
  "enter_cell r c g = g\<lparr>gd_cells := (gd_cells g)(c := set_add r (gd_cells g c))\<rparr>"

definition grid_remove :: "nat \<Rightarrow> grid \<times> heap \<Rightarrow> grid \<times> heap" where
  "grid_remove r s = (fold (leave_cell r) (pl_cells (snd s r)) (fst s), (snd s)(r := (snd s r)\<lparr>pl_cells := []\<rparr>))"

definition cells_at :: "grid \<Rightarrow> placed \<Rightarrow> cell list" where
  "cells_at g p = cover (roundToCells g (add_points (fst (pl_bounds p)) (pl_pos p))) (roundToCells g (add_points (snd (pl_bounds p)) (pl_pos p)))"

definition updateObject :: "nat \<Rightarrow> grid \<times> heap \<Rightarrow> grid \<times> heap" where
  "updateObject r s =
     (let (g, hp) = grid_remove r s; cells = cells_at g (hp r)
      in (fold (enter_cell r) cells g, hp(r := (hp r)\<lparr>pl_cells := pl_cells (hp r) @ cells\<rparr>)))"

section \<open>Queries\<close>

datatype area = Disc point rat | Box point point

fun toAabb :: "area \<Rightarrow> point \<times> point" where
  "toAabb (Box least greatest) = (least, greatest)"
| "toAabb (Disc p rad) = ((fst p - rad, snd p - rad), (fst p + rad, snd p + rad))"

text \<open>One cell: what was seen in this query is skipped, and what is to be left out.\<close>

fun scan_cell :: "nat \<Rightarrow> nat option \<Rightarrow> nat list \<Rightarrow> heap \<times> nat list \<Rightarrow> heap \<times> nat list" where
  "scan_cell q self [] s = s"
| "scan_cell q self (r # rs) (hp, out) =
     (if pl_queryId (hp r) = q \<or> self = Some r then scan_cell q self rs (hp, out)
      else scan_cell q self rs (hp(r := (hp r)\<lparr>pl_queryId := q\<rparr>), out @ [r]))"

definition scan_cells :: "grid \<Rightarrow> nat option \<Rightarrow> cell list \<Rightarrow> heap \<Rightarrow> heap \<times> nat list" where
  "scan_cells g self cs hp = foldl (\<lambda>s c. scan_cell (gd_nextQueryId g) self (gd_cells g c) s) (hp, []) cs"

definition next_query :: "grid \<Rightarrow> grid" where
  "next_query g = g\<lparr>gd_nextQueryId := Suc (gd_nextQueryId g)\<rparr>"

definition intersectCollider :: "area \<Rightarrow> grid \<times> heap \<Rightarrow> nat list \<times> grid \<times> heap" where
  "intersectCollider a s =
     (let g = fst s; box = toAabb a; (hp, out) = scan_cells g None (cover (roundToCells g (fst box)) (roundToCells g (snd box))) (snd s)
      in (out, next_query g, hp))"

definition intersectGameObject :: "nat \<Rightarrow> grid \<times> heap \<Rightarrow> nat list \<times> grid \<times> heap" where
  "intersectGameObject r s =
     (let g = fst s; (hp, out) = scan_cells g (Some r) (pl_cells (snd s r)) (snd s) in (out, next_query g, hp))"

definition intersectAABBSet :: "point \<times> point \<Rightarrow> grid \<Rightarrow> nat list" where
  "intersectAABBSet box g = foldl (\<lambda>out c. fold set_add (gd_cells g c) out) [] (cover (roundToCells g (fst box)) (roundToCells g (snd box)))"

definition intersectPos :: "point \<Rightarrow> grid \<Rightarrow> nat list" where
  "intersectPos p g = gd_cells g (roundToCells g p)"

section \<open>Line segments\<close>

definition js_rem :: "rat \<Rightarrow> rat \<Rightarrow> rat" where
  "js_rem a n = a - n * of_int (if a / n < 0 then \<lceil>a / n\<rceil> else \<lfloor>a / n\<rfloor>)"

definition math_mod :: "rat \<Rightarrow> rat \<Rightarrow> rat" where
  "math_mod num n = js_rem (js_rem num n + n) n"

definition max_value :: rat where
  "max_value = of_int ((2 ^ 53 - 1) * 2 ^ 971)"

text \<open>The step between two crossings, and how far the first one is.\<close>

definition line_delta :: "bool \<Rightarrow> rat \<Rightarrow> rat" where
  "line_delta up d = (if 1 / 100000 < \<bar>d\<bar> then (if up then cell_size else - cell_size) / d else max_value)"

definition first_crossing :: "bool \<Rightarrow> rat \<Rightarrow> rat \<Rightarrow> rat" where
  "first_crossing up start delta = (let rel = math_mod (start / cell_size) 1 in delta * (if up then 1 - rel else rel))"

definition one_on :: "bool \<Rightarrow> int \<Rightarrow> int" where
  "one_on up i = (if up then i + 1 else i - 1)"

text \<open>The loop: it leaves when it reaches the last cell or would leave the grid.  It cannot run for ever.\<close>

definition line_room :: "bool \<Rightarrow> int \<Rightarrow> int \<Rightarrow> nat" where
  "line_room up extent i = nat (if up then extent - i else i + 1)"

lemma line_room_less: "\<not> (one_on up i < 0 \<or> extent \<le> one_on up i) \<Longrightarrow> line_room up extent (one_on up i) < line_room up extent i"
  by (cases up) (auto simp: one_on_def line_room_def)

function line_scan :: "grid \<Rightarrow> bool \<Rightarrow> bool \<Rightarrow> rat \<Rightarrow> rat \<Rightarrow> cell \<Rightarrow> rat \<Rightarrow> rat \<Rightarrow> int \<Rightarrow> int \<Rightarrow> heap \<times> nat list \<Rightarrow> heap \<times> nat list" where
  "line_scan g right up deltaX deltaY last_cell x y i k s =
     (let s = scan_cell (gd_nextQueryId g) None (gd_cells g (i, k)) s in
      if (i, k) = last_cell then s
      else if x < y then
        if one_on right i < 0 \<or> gd_width g \<le> one_on right i then s
        else line_scan g right up deltaX deltaY last_cell (x + deltaX) y (one_on right i) k s
      else
        if one_on up k < 0 \<or> gd_height g \<le> one_on up k then s
        else line_scan g right up deltaX deltaY last_cell x (y + deltaY) i (one_on up k) s)"
  by pat_completeness auto
termination
  by (relation "measure (\<lambda>(g, right, up, _, _, _, _, _, i, k, _). line_room right (gd_width g) i + line_room up (gd_height g) k)")
    (simp_all add: line_room_less)

declare line_scan.simps [simp del]

definition intersectLineSegment :: "point \<Rightarrow> point \<Rightarrow> grid \<times> heap \<Rightarrow> nat list \<times> grid \<times> heap" where
  "intersectLineSegment lineStart lineEnd s =
     (let g = fst s;
          start = roundToCells g lineStart; last_cell = roundToCells g lineEnd;
          right = (fst lineStart \<le> fst lineEnd); up = (snd lineStart \<le> snd lineEnd);
          deltaX = line_delta right (fst lineEnd - fst lineStart); deltaY = line_delta up (snd lineEnd - snd lineStart);
          (hp, out) = line_scan g right up deltaX deltaY last_cell (first_crossing right (fst lineStart) deltaX)
            (first_crossing up (snd lineStart) deltaY) (fst start) (snd start) (snd s, [])
      in (out, next_query g, hp))"

end
