(* ===== verification/ObjectRegister.thy ===== *)
theory ObjectRegister
  imports NetObjects GameGrid
begin

text \<open>
  The register of game objects (\<open>server/src/game/objects/gameObject.ts\<close>): it numbers them, keeps them in an array without
  holes and remembers which ones have to be sent.  Objects are references; \<open>wd_objs\<close> holds what the register and the
  serializers use of them, \<open>wd_grid\<close> their places.
\<close>

definition MAX_ID :: nat where
  "MAX_ID = 65535"

record object_register =
  or_objects :: "nat list"
  or_idToObj :: "nat \<Rightarrow> nat option"
  or_idToType :: "nat \<Rightarrow> int"
  or_dirtyPart :: "nat \<Rightarrow> bool"
  or_dirtyFull :: "nat \<Rightarrow> bool"
  or_deletedObjs :: "nat list"
  or_idNext :: nat
  or_freeLists :: "object_type \<Rightarrow> nat list option"

record world_obj =
  wo_game :: game_object
  wo_arrayIdx :: nat
  wo_destroyed :: bool

record world =
  wd_register :: object_register
  wd_grid :: "grid \<times> heap"
  wd_objs :: "nat \<Rightarrow> world_obj"

definition obj_id :: "world \<Rightarrow> nat \<Rightarrow> nat" where
  "obj_id w r = nat (gob_id (wo_game (wd_objs w r)))"

definition obj_type :: "world \<Rightarrow> nat \<Rightarrow> object_type" where
  "obj_type w r = gob_type (wo_game (wd_objs w r))"

section \<open>Numbers\<close>

definition preAllocIds :: "object_type \<Rightarrow> nat \<Rightarrow> object_register \<Rightarrow> object_register" where
  "preAllocIds t amount g = g\<lparr>or_freeLists := (or_freeLists g)(t \<mapsto> [or_idNext g..<or_idNext g + amount]), or_idNext := or_idNext g + amount\<rparr>"

definition fresh_register :: object_register where
  "fresh_register =
     (preAllocIds Airdrop 64 \<circ> preAllocIds Smoke 64 \<circ> preAllocIds Projectile 128 \<circ> preAllocIds Decal 256 \<circ> preAllocIds DeadBody 128
      \<circ> preAllocIds Loot 256 \<circ> preAllocIds Player 128)
     \<lparr>or_objects = [], or_idToObj = (\<lambda>i. None), or_idToType = (\<lambda>i. 0), or_dirtyPart = (\<lambda>i. False), or_dirtyFull = (\<lambda>i. False),
      or_deletedObjs = [], or_idNext = 1, or_freeLists = (\<lambda>t. None)\<rparr>"

definition getById :: "nat \<Rightarrow> object_register \<Rightarrow> nat option" where
  "getById i g = or_idToObj g i"

definition free_list :: "object_type \<Rightarrow> object_register \<Rightarrow> nat list" where
  "free_list t g = (case or_freeLists g t of None \<Rightarrow> [] | Some l \<Rightarrow> l)"

text \<open>Fresh numbers first; a freed one is used again only when they have run out.\<close>

definition allocId :: "object_type \<Rightarrow> object_register \<Rightarrow> string + nat \<times> object_register" where
  "allocId t g =
     (if or_idNext g < MAX_ID then Inr (or_idNext g, g\<lparr>or_idNext := Suc (or_idNext g)\<rparr>)
      else case free_list t g of
        [] \<Rightarrow> Inl (''Ran out of ids for type '' @ show_int (type_code t))
      | i # l \<Rightarrow> Inr (i, g\<lparr>or_freeLists := (or_freeLists g)(t \<mapsto> l)\<rparr>))"

definition freeId :: "object_type \<Rightarrow> nat \<Rightarrow> object_register \<Rightarrow> object_register" where
  "freeId t i g = g\<lparr>or_freeLists := (or_freeLists g)(t \<mapsto> free_list t g @ [i])\<rparr>"

section \<open>Registering\<close>

definition set_obj :: "nat \<Rightarrow> world_obj \<Rightarrow> world \<Rightarrow> world" where
  "set_obj r x w = w\<lparr>wd_objs := (wd_objs w)(r := x)\<rparr>"

definition register_obj :: "net_env \<Rightarrow> nat \<Rightarrow> world \<Rightarrow> (string + unit) \<times> world" where
  "register_obj e r w =
     (let t = obj_type w r in
      case allocId t (wd_register w) of
        Inl m \<Rightarrow> (Inl m, w)
      | Inr (i, g) \<Rightarrow>
          (let x = wd_objs w r; k = length (or_objects g) in
           case init_object e ((wo_game x)\<lparr>gob_id := int i\<rparr>) of
             (Inl m, y) \<Rightarrow> (Inl m, set_obj r (x\<lparr>wo_game := y, wo_arrayIdx := k\<rparr>) (w\<lparr>wd_register := g\<rparr>))
           | (Inr _, y) \<Rightarrow>
               (Inr (), (set_obj r (x\<lparr>wo_game := y, wo_arrayIdx := k\<rparr>) w)
                  \<lparr>wd_register := g\<lparr>or_objects := or_objects g @ [r], or_idToObj := (or_idToObj g)(i := Some r), or_idToType := (or_idToType g)(i := type_code t),
                     or_dirtyPart := (or_dirtyPart g)(i := True), or_dirtyFull := (or_dirtyFull g)(i := True)\<rparr>,
                   wd_grid := updateObject r (wd_grid w)\<rparr>)))"

text \<open>
  The last object takes the place of the one that goes.  Without any object the array would get a hole before the code
  reads a property of \<open>undefined\<close> and throws.
\<close>

definition unregister :: "nat \<Rightarrow> world \<Rightarrow> (string + unit) \<times> world" where
  "unregister r w =
     (let g = wd_register w; x = wd_objs w r; i = obj_id w r; t = obj_type w r in
      if i = 0 then (Inl ''Assertation failed'', w)
      else if or_objects g = [] then (Inl ''Cannot set properties of undefined (setting '__arrayIdx')'', w)
      else
        let l = last (or_objects g); short = butlast (or_objects g);
            w = (if r \<noteq> l then set_obj l ((wd_objs w l)\<lparr>wo_arrayIdx := wo_arrayIdx x\<rparr>) w else w);
            g = freeId t i (g\<lparr>or_objects := (if r \<noteq> l then short[wo_arrayIdx x := l] else short), or_idToObj := (or_idToObj g)(i := None)\<rparr>)
        in (Inr (), set_obj r ((wd_objs w r)\<lparr>wo_game := (wo_game x)\<lparr>gob_id := 0, gob_type := Invalid\<rparr>\<rparr>)
             (w\<lparr>wd_register := g\<lparr>or_idToType := (or_idToType g)(i := 0), or_dirtyPart := (or_dirtyPart g)(i := False), or_dirtyFull := (or_dirtyFull g)(i := False)\<rparr>\<rparr>)))"

section \<open>Sending and the end of a tick\<close>

text \<open>An object whose full data is due is serialized in full, one whose partial data is due in part.\<close>

definition serialize_obj :: "net_env \<Rightarrow> nat \<Rightarrow> world \<Rightarrow> (string + unit) \<times> world" where
  "serialize_obj e r w =
     (let g = wd_register w; i = obj_id w r; x = wd_objs w r in
      if or_dirtyFull g i then (case serializeFullObj e (wo_game x) of (res, y) \<Rightarrow> (res, set_obj r (x\<lparr>wo_game := y\<rparr>) w))
      else if or_dirtyPart g i then (case serializePartial e (wo_game x) of (res, y) \<Rightarrow> (res, set_obj r (x\<lparr>wo_game := y\<rparr>) w))
      else (Inr (), w))"

fun serialize_each :: "net_env \<Rightarrow> nat list \<Rightarrow> world \<Rightarrow> (string + unit) \<times> world" where
  "serialize_each e [] w = (Inr (), w)"
| "serialize_each e (r # rs) w = (case serialize_obj e r w of (Inl m, w) \<Rightarrow> (Inl m, w) | (Inr _, w) \<Rightarrow> serialize_each e rs w)"

definition serializeObjs :: "net_env \<Rightarrow> world \<Rightarrow> (string + unit) \<times> world" where
  "serializeObjs e w = serialize_each e (or_objects (wd_register w)) w"

fun unregister_each :: "nat list \<Rightarrow> world \<Rightarrow> (string + unit) \<times> world" where
  "unregister_each [] w = (Inr (), w)"
| "unregister_each (r # rs) w = (case unregister r w of (Inl m, w) \<Rightarrow> (Inl m, w) | (Inr _, w) \<Rightarrow> unregister_each rs w)"

definition flush_objects :: "world \<Rightarrow> (string + unit) \<times> world" where
  "flush_objects w =
     (case unregister_each (or_deletedObjs (wd_register w)) w of
        (Inl m, w) \<Rightarrow> (Inl m, w)
      | (Inr _, w) \<Rightarrow> (Inr (), w\<lparr>wd_register := (wd_register w)\<lparr>or_deletedObjs := [], or_dirtyFull := (\<lambda>i. False), or_dirtyPart := (\<lambda>i. False)\<rparr>\<rparr>))"

section \<open>The object's own operations\<close>

definition setDirty :: "nat \<Rightarrow> world \<Rightarrow> world" where
  "setDirty r w = w\<lparr>wd_register := (wd_register w)\<lparr>or_dirtyFull := (or_dirtyFull (wd_register w))(obj_id w r := True)\<rparr>\<rparr>"

definition setPartDirty :: "nat \<Rightarrow> world \<Rightarrow> world" where
  "setPartDirty r w = w\<lparr>wd_register := (wd_register w)\<lparr>or_dirtyPart := (or_dirtyPart (wd_register w))(obj_id w r := True)\<rparr>\<rparr>"

definition destroy :: "nat \<Rightarrow> world \<Rightarrow> world" where
  "destroy r w =
     (if wo_destroyed (wd_objs w r) then w
      else let g = wd_register w; i = obj_id w r in
        set_obj r ((wd_objs w r)\<lparr>wo_destroyed := True\<rparr>)
          (w\<lparr>wd_grid := grid_remove r (wd_grid w),
             wd_register := g\<lparr>or_deletedObjs := or_deletedObjs g @ [r], or_dirtyPart := (or_dirtyPart g)(i := False), or_dirtyFull := (or_dirtyFull g)(i := False)\<rparr>\<rparr>))"

end
