(* ===== verification/GameGridFacts.thy ===== *)
theory GameGridFacts
  imports GameGrid
begin

text \<open>
  The cells and the objects agree, a query hands out each object once, and it misses no object that overlaps the area.
\<close>

section \<open>Cells and objects agree\<close>

definition inside :: "grid \<Rightarrow> cell \<Rightarrow> bool" where
  "inside g c = (0 \<le> fst c \<and> fst c \<le> gd_width g \<and> 0 \<le> snd c \<and> snd c \<le> gd_height g)"

definition grid_ok :: "grid \<times> heap \<Rightarrow> bool" where
  "grid_ok s = (case s of (g, hp) \<Rightarrow>
     0 \<le> gd_width g \<and> 0 \<le> gd_height g
     \<and> (\<forall>r c. r \<in> set (gd_cells g c) \<longleftrightarrow> c \<in> set (pl_cells (hp r)))
     \<and> (\<forall>c. distinct (gd_cells g c)) \<and> (\<forall>r. \<forall>c \<in> set (pl_cells (hp r)). inside g c)
     \<and> (\<forall>r. pl_queryId (hp r) < gd_nextQueryId g))"

lemma set_add_simps [simp]: "set (set_add r rs) = insert r (set rs)" "distinct (set_add r rs) = distinct rs"
  by (auto simp: set_add_def)

lemma leave_simps [simp]:
  "gd_width (leave_cell r c g) = gd_width g" "gd_height (leave_cell r c g) = gd_height g" "gd_nextQueryId (leave_cell r c g) = gd_nextQueryId g"
  "gd_width (enter_cell r c g) = gd_width g" "gd_height (enter_cell r c g) = gd_height g" "gd_nextQueryId (enter_cell r c g) = gd_nextQueryId g"
  by (simp_all add: leave_cell_def enter_cell_def)

lemma leave_all:
  "gd_width (fold (leave_cell r) cs g) = gd_width g \<and> gd_height (fold (leave_cell r) cs g) = gd_height g
    \<and> gd_nextQueryId (fold (leave_cell r) cs g) = gd_nextQueryId g
    \<and> (\<forall>c. gd_cells (fold (leave_cell r) cs g) c = (if c \<in> set cs then filter (\<lambda>q. q \<noteq> r) (gd_cells g c) else gd_cells g c))"
  by (induction cs arbitrary: g) (auto simp: leave_cell_def)

lemma enter_all:
  "gd_width (fold (enter_cell r) cs g) = gd_width g \<and> gd_height (fold (enter_cell r) cs g) = gd_height g
    \<and> gd_nextQueryId (fold (enter_cell r) cs g) = gd_nextQueryId g
    \<and> (\<forall>c. gd_cells (fold (enter_cell r) cs g) c = (if c \<in> set cs then set_add r (gd_cells g c) else gd_cells g c))"
  by (induction cs arbitrary: g) (auto simp: enter_cell_def set_add_def)

lemma clamp_inside: "0 \<le> greatest \<Longrightarrow> 0 \<le> clamp_cell a 0 greatest \<and> clamp_cell a 0 greatest \<le> greatest"
  by (simp add: clamp_cell_def)

lemma clamp_mono: "a \<le> b \<Longrightarrow> least \<le> greatest \<Longrightarrow> clamp_cell a least greatest \<le> clamp_cell b least greatest"
  by (simp add: clamp_cell_def)

lemma set_cover [simp]: "c \<in> set (cover a b) \<longleftrightarrow> fst a \<le> fst c \<and> fst c \<le> fst b \<and> snd a \<le> snd c \<and> snd c \<le> snd b"
  by (cases c) (force simp: cover_def)

lemma cover_inside:
  assumes "0 \<le> gd_width g" "0 \<le> gd_height g" "c \<in> set (cover (roundToCells g p) (roundToCells g q))"
  shows "inside g c"
proof -
  have "fst (roundToCells g p) \<le> fst c" "fst c \<le> fst (roundToCells g q)" "snd (roundToCells g p) \<le> snd c" "snd c \<le> snd (roundToCells g q)"
    using assms(3) by simp_all
  then show ?thesis
    using clamp_inside [OF assms(1), of "\<lfloor>fst p / cell_size\<rfloor>"] clamp_inside [OF assms(1), of "\<lfloor>fst q / cell_size\<rfloor>"]
      clamp_inside [OF assms(2), of "\<lfloor>snd p / cell_size\<rfloor>"] clamp_inside [OF assms(2), of "\<lfloor>snd q / cell_size\<rfloor>"]
    by (simp add: inside_def roundToCells_def)
qed

lemma remove_ok: "grid_ok s \<Longrightarrow> grid_ok (grid_remove r s)"
  using leave_all [of r "pl_cells (snd s r)" "fst s"]
  by (cases s) (auto simp: grid_ok_def grid_remove_def inside_def split: if_splits)

lemma removed_cells [simp]: "pl_cells (snd (grid_remove r s) q) = (if q = r then [] else pl_cells (snd s q))"
  "pl_bounds (snd (grid_remove r s) q) = pl_bounds (snd s q)" "pl_pos (snd (grid_remove r s) q) = pl_pos (snd s q)"
  by (simp_all add: grid_remove_def)

lemma removed_size [simp]: "gd_width (fst (grid_remove r s)) = gd_width (fst s)" "gd_height (fst (grid_remove r s)) = gd_height (fst s)"
  using leave_all [of r "pl_cells (snd s r)" "fst s"] by (simp_all add: grid_remove_def)

lemma update_ok:
  assumes "grid_ok s"
  shows "grid_ok (updateObject r s)"
proof -
  obtain g hp where s: "grid_remove r s = (g, hp)" by (cases "grid_remove r s") auto
  have ok: "grid_ok (g, hp)" using remove_ok [OF assms, of r] s by simp
  have "pl_cells (snd (grid_remove r s) r) = []" by simp
  then have none: "pl_cells (hp r) = []" using s by simp
  have "\<forall>c \<in> set (cells_at g (hp r)). inside g c" using ok cover_inside by (auto simp: grid_ok_def cells_at_def)
  then show ?thesis
    using ok none enter_all [of r "cells_at g (hp r)" g]
    unfolding updateObject_def s Let_def prod.case grid_ok_def inside_def by (auto split: if_splits)
qed

lemma updated_cells: "pl_cells (snd (updateObject r s) r) = cells_at (fst s) (snd s r)"
proof -
  obtain g hp where s: "grid_remove r s = (g, hp)" by (cases "grid_remove r s") auto
  have "cells_at g (hp r) = cells_at (fst s) (snd s r)" "pl_cells (hp r) = []"
    using removed_cells [of r s r] removed_size [of r s] unfolding s cells_at_def roundToCells_def by simp_all
  then show ?thesis by (simp add: updateObject_def s Let_def)
qed

section \<open>A query sees every object of its cells once\<close>

text \<open>While a query runs, the marked objects are those handed out.\<close>

definition scanning :: "nat \<Rightarrow> nat option \<Rightarrow> heap \<Rightarrow> heap \<times> nat list \<Rightarrow> bool" where
  "scanning q self hp0 s = (case s of (hp, out) \<Rightarrow>
     hp = (\<lambda>r. if r \<in> set out then (hp0 r)\<lparr>pl_queryId := q\<rparr> else hp0 r) \<and> distinct out \<and> (\<forall>r. self = Some r \<longrightarrow> r \<notin> set out))"

lemma scan_cell_sees:
  "\<forall>r. pl_queryId (hp0 r) \<noteq> q \<Longrightarrow> scanning q self hp0 s \<Longrightarrow> scanning q self hp0 (scan_cell q self rs s)
    \<and> set (snd (scan_cell q self rs s)) = set (snd s) \<union> {r \<in> set rs. self \<noteq> Some r}"
proof (induction q self rs s rule: scan_cell.induct)
  case (2 q self r rs hp out)
  show ?case
  proof (cases "pl_queryId (hp r) = q \<or> self = Some r")
    case True
    have "r \<in> set out \<or> self = Some r" using True 2(3) 2(4) by (auto simp: scanning_def split: if_splits)
    then show ?thesis using True 2 by auto
  next
    case False
    then have "r \<notin> set out" using 2(4) by (auto simp: scanning_def)
    then have "scanning q self hp0 (hp(r := (hp r)\<lparr>pl_queryId := q\<rparr>), out @ [r])"
      using 2(4) False by (auto simp: scanning_def fun_eq_iff)
    then show ?thesis using 2(2) [OF False 2(3)] False by auto
  qed
qed simp

lemma fresh_query: "grid_ok (g, hp) \<Longrightarrow> \<forall>r. pl_queryId (hp r) \<noteq> gd_nextQueryId g"
  unfolding grid_ok_def prod.case by (metis less_irrefl)

definition seen_in :: "grid \<Rightarrow> nat option \<Rightarrow> cell set \<Rightarrow> nat set" where
  "seen_in g self cs = {r. self \<noteq> Some r \<and> (\<exists>c \<in> cs. r \<in> set (gd_cells g c))}"

lemma fold_sees:
  assumes "\<forall>r. pl_queryId (hp0 r) \<noteq> gd_nextQueryId g"
  shows "scanning (gd_nextQueryId g) self hp0 s \<Longrightarrow>
    scanning (gd_nextQueryId g) self hp0 (foldl (\<lambda>s c. scan_cell (gd_nextQueryId g) self (gd_cells g c) s) s cs)
    \<and> set (snd (foldl (\<lambda>s c. scan_cell (gd_nextQueryId g) self (gd_cells g c) s) s cs)) = set (snd s) \<union> seen_in g self (set cs)"
proof (induction cs arbitrary: s)
  case (Cons c cs)
  show ?case using Cons.IH scan_cell_sees [OF assms Cons.prems, of "gd_cells g c"] by (auto simp: seen_in_def)
qed (simp add: seen_in_def)

lemma scan_cells_sees:
  assumes "grid_ok (g, hp)" and "scan_cells g self cs hp = (hp', out)"
  shows "hp' = (\<lambda>r. if r \<in> set out then (hp r)\<lparr>pl_queryId := gd_nextQueryId g\<rparr> else hp r)" and "distinct out" and "set out = seen_in g self (set cs)"
proof -
  note fresh_query [OF assms(1)]
  moreover have "scanning (gd_nextQueryId g) self hp (hp, [])" by (simp add: scanning_def)
  ultimately show "hp' = (\<lambda>r. if r \<in> set out then (hp r)\<lparr>pl_queryId := gd_nextQueryId g\<rparr> else hp r)" and "distinct out" and "set out = seen_in g self (set cs)"
    using fold_sees [of hp g self "(hp, [])" cs] assms(2) by (simp_all add: scan_cells_def scanning_def)
qed

lemma marked_ok:
  assumes "grid_ok (g, hp)"
  shows "grid_ok (next_query g, \<lambda>r. if r \<in> R then (hp r)\<lparr>pl_queryId := gd_nextQueryId g\<rparr> else hp r)"
  using assms by (auto simp: grid_ok_def next_query_def inside_def less_Suc_eq)

lemma collider_sees:
  assumes "grid_ok s" and "intersectCollider a s = (out, s')"
  shows "grid_ok s'" and "distinct out"
    and "set out = seen_in (fst s) None (set (cover (roundToCells (fst s) (fst (toAabb a))) (roundToCells (fst s) (snd (toAabb a)))))"
proof -
  obtain g hp where s: "s = (g, hp)" by (cases s)
  obtain hp' out' where scan: "scan_cells g None (cover (roundToCells g (fst (toAabb a))) (roundToCells g (snd (toAabb a)))) hp = (hp', out')"
    by fastforce
  have out: "out' = out" "s' = (next_query g, hp')" using assms(2) scan by (simp_all add: intersectCollider_def s)
  note sees = scan_cells_sees [OF assms(1) [unfolded s] scan, unfolded out(1)]
  show "grid_ok s'" unfolding out(2) sees(1) by (rule marked_ok [OF assms(1) [unfolded s]])
  show "distinct out" and "set out = seen_in (fst s) None (set (cover (roundToCells (fst s) (fst (toAabb a))) (roundToCells (fst s) (snd (toAabb a)))))"
    using sees(2,3) by (simp_all add: s)
qed

lemma near_sees:
  assumes "grid_ok s" and "intersectGameObject r s = (out, s')"
  shows "grid_ok s'" and "distinct out" and "set out = seen_in (fst s) (Some r) (set (pl_cells (snd s r)))"
proof -
  obtain g hp where s: "s = (g, hp)" by (cases s)
  obtain hp' out' where scan: "scan_cells g (Some r) (pl_cells (hp r)) hp = (hp', out')" by fastforce
  have out: "out' = out" "s' = (next_query g, hp')" using assms(2) scan by (simp_all add: intersectGameObject_def s)
  note sees = scan_cells_sees [OF assms(1) [unfolded s] scan, unfolded out(1)]
  show "grid_ok s'" unfolding out(2) sees(1) by (rule marked_ok [OF assms(1) [unfolded s]])
  show "distinct out" and "set out = seen_in (fst s) (Some r) (set (pl_cells (snd s r)))" using sees(2,3) by (simp_all add: s)
qed

lemma line_scan_sees:
  "\<forall>r. pl_queryId (hp0 r) \<noteq> gd_nextQueryId g \<Longrightarrow> scanning (gd_nextQueryId g) None hp0 s \<Longrightarrow>
     scanning (gd_nextQueryId g) None hp0 (line_scan g right up dx dy last_cell x y i k s)"
proof (induction g right up dx dy last_cell x y i k s rule: line_scan.induct)
  case (1 g right up dx dy last_cell x y i k s)
  let ?s = "scan_cell (gd_nextQueryId g) None (gd_cells g (i, k)) s"
  have step: "scanning (gd_nextQueryId g) None hp0 ?s" using scan_cell_sees [OF 1(3,4)] by blast
  show ?case
    unfolding line_scan.simps [of g right up dx dy last_cell x y i k s] Let_def
    using step 1(1) [OF refl _ _ _ 1(3) step] 1(2) [OF refl _ _ _ 1(3) step] by presburger
qed

lemma line_ok:
  assumes "grid_ok s" and "intersectLineSegment p q s = (out, s')"
  shows "grid_ok s' \<and> distinct out"
proof -
  obtain g hp where s: "s = (g, hp)" by (cases s)
  obtain hp' where "scanning (gd_nextQueryId g) None hp (hp', out)" "s' = (next_query g, hp')"
  proof -
    note fresh_query [OF assms(1) [unfolded s]]
    moreover have "scanning (gd_nextQueryId g) None hp (hp, [])" by (simp add: scanning_def)
    ultimately have scan: "scanning (gd_nextQueryId g) None hp (line_scan g right up dx dy c x y i k (hp, []))" for right up dx dy c x y i k
      by (rule line_scan_sees)
    then show thesis using that assms(2) by (auto simp: intersectLineSegment_def s Let_def split: prod.splits) (metis scan)
  qed
  then show ?thesis using marked_ok [OF assms(1) [unfolded s]] by (auto simp: scanning_def)
qed

section \<open>Reachable grids\<close>

inductive grid_reach :: "rat \<Rightarrow> rat \<Rightarrow> grid \<times> heap \<Rightarrow> bool" for w h where
  start: "0 \<le> w \<Longrightarrow> 0 \<le> h \<Longrightarrow> (\<And>r. pl_cells (hp r) = [] \<and> pl_queryId (hp r) = 0) \<Longrightarrow> grid_reach w h (new_grid w h, hp)"
| moved: "grid_reach w h (g, hp) \<Longrightarrow> grid_reach w h (g, hp(r := (hp r)\<lparr>pl_bounds := b, pl_pos := p\<rparr>))"
| updated: "grid_reach w h s \<Longrightarrow> grid_reach w h (updateObject r s)"
| removed: "grid_reach w h s \<Longrightarrow> grid_reach w h (grid_remove r s)"
| queried: "grid_reach w h s \<Longrightarrow> grid_reach w h (snd (intersectCollider a s))"
| near: "grid_reach w h s \<Longrightarrow> grid_reach w h (snd (intersectGameObject r s))"
| along: "grid_reach w h s \<Longrightarrow> grid_reach w h (snd (intersectLineSegment p q s))"

lemma reach_grid_ok: "grid_reach w h s \<Longrightarrow> grid_ok s"
proof (induction rule: grid_reach.induct)
  case (start hp)
  then show ?case by (simp add: grid_ok_def new_grid_def cell_size_def)
next
  case (moved g hp r b p)
  then show ?case by (auto simp: grid_ok_def)
next
  case (queried s a)
  then show ?case using collider_sees(1) by (cases "intersectCollider a s") auto
next
  case (near s r)
  then show ?case using near_sees(1) by (cases "intersectGameObject r s") auto
next
  case (along s p q)
  then show ?case using line_ok by (cases "intersectLineSegment p q s") auto
qed (simp_all add: update_ok remove_ok)

text \<open>Where an object is, and what it means that two boxes meet.\<close>

definition box_of :: "placed \<Rightarrow> point \<times> point" where
  "box_of p = (add_points (fst (pl_bounds p)) (pl_pos p), add_points (snd (pl_bounds p)) (pl_pos p))"

definition boxes_meet :: "point \<times> point \<Rightarrow> point \<times> point \<Rightarrow> bool" where
  "boxes_meet a b =
     (fst (fst a) \<le> fst (snd a) \<and> snd (fst a) \<le> snd (snd a) \<and> fst (fst b) \<le> fst (snd b) \<and> snd (fst b) \<le> snd (snd b)
      \<and> fst (fst a) \<le> fst (snd b) \<and> fst (fst b) \<le> fst (snd a) \<and> snd (fst a) \<le> snd (snd b) \<and> snd (fst b) \<le> snd (snd a))"

lemma meeting_cells:
  assumes "0 \<le> gd_width g" "0 \<le> gd_height g" "boxes_meet a b"
  shows "\<exists>c. c \<in> set (cover (roundToCells g (fst a)) (roundToCells g (snd a))) \<and> c \<in> set (cover (roundToCells g (fst b)) (roundToCells g (snd b)))"
proof -
  let ?x = "\<lambda>p. clamp_cell \<lfloor>fst p / cell_size\<rfloor> 0 (gd_width g)" and ?y = "\<lambda>p. clamp_cell \<lfloor>snd p / cell_size\<rfloor> 0 (gd_height g)"
  have x: "fst p \<le> fst q \<Longrightarrow> ?x p \<le> ?x q" for p q :: point
    using assms(1) by (intro clamp_mono floor_mono divide_right_mono) (simp_all add: cell_size_def)
  have y: "snd p \<le> snd q \<Longrightarrow> ?y p \<le> ?y q" for p q :: point
    using assms(2) by (intro clamp_mono floor_mono divide_right_mono) (simp_all add: cell_size_def)
  show ?thesis
    using assms(3) x y by (intro exI [of _ "(max (?x (fst a)) (?x (fst b)), max (?y (fst a)) (?y (fst b)))"])
      (simp add: boxes_meet_def roundToCells_def)
qed

text \<open>C40: A query misses no object.  In every reachable grid the query of an area hands out each object at most once, and
  exactly those that are in a cell the area touches; so it hands out every object whose box, as it was when its cells were
  last brought up to date, meets the box of the area.  The query around an object hands out exactly the others that share
  a cell with it.\<close>

theorem query_misses_no_object:
  assumes "grid_reach w h (g, hp)"
  shows "(case intersectCollider a (g, hp) of (out, _) \<Rightarrow> distinct out
      \<and> set out = {q. \<exists>c \<in> set (pl_cells (hp q)). c \<in> set (cover (roundToCells g (fst (toAabb a))) (roundToCells g (snd (toAabb a))))}
      \<and> (\<forall>q. pl_cells (hp q) = cells_at g (hp q) \<and> boxes_meet (box_of (hp q)) (toAabb a) \<longrightarrow> q \<in> set out))
    \<and> (case intersectGameObject r (g, hp) of (out, _) \<Rightarrow> distinct out
      \<and> set out = {q. q \<noteq> r \<and> set (pl_cells (hp q)) \<inter> set (pl_cells (hp r)) \<noteq> {}})"
proof -
  have ok: "grid_ok (g, hp)" by (rule reach_grid_ok [OF assms])
  then have cells: "r \<in> set (gd_cells g c) \<longleftrightarrow> c \<in> set (pl_cells (hp r))" and size: "0 \<le> gd_width g" "0 \<le> gd_height g" for r c
    unfolding grid_ok_def prod.case by blast+
  obtain out s' where query: "intersectCollider a (g, hp) = (out, s')" by (cases "intersectCollider a (g, hp)")
  let ?area = "set (cover (roundToCells g (fst (toAabb a))) (roundToCells g (snd (toAabb a))))"
  have out: "set out = {q. \<exists>c \<in> set (pl_cells (hp q)). c \<in> ?area}"
    using collider_sees(3) [OF ok query] by (auto simp: seen_in_def cells simp del: set_cover)
  moreover have "\<forall>q. pl_cells (hp q) = cells_at g (hp q) \<and> boxes_meet (box_of (hp q)) (toAabb a) \<longrightarrow> q \<in> set out"
  proof (intro allI impI)
    fix q
    assume "pl_cells (hp q) = cells_at g (hp q) \<and> boxes_meet (box_of (hp q)) (toAabb a)"
    then show "q \<in> set out" using meeting_cells [OF size, of "box_of (hp q)" "toAabb a"]
      unfolding out mem_Collect_eq by (metis box_of_def cells_at_def fst_conv snd_conv)
  qed
  moreover obtain near s'' where near: "intersectGameObject r (g, hp) = (near, s'')" by (cases "intersectGameObject r (g, hp)")
  moreover have "set near = {q. q \<noteq> r \<and> set (pl_cells (hp q)) \<inter> set (pl_cells (hp r)) \<noteq> {}}"
    using near_sees(3) [OF ok near] by (auto simp: seen_in_def cells)
  ultimately show ?thesis using collider_sees(2) [OF ok query] near_sees(2) [OF ok near] by (simp add: query del: set_cover)
qed

section \<open>The last column\<close>

text \<open>
  A segment is followed up to the column and the row before the last ones: the loop leaves when the next index reaches
  \<open>width\<close>, although the grid has a column with that index.  What lies only there is found by an area and missed by a segment.
\<close>

definition edge_heap :: heap where
  "edge_heap = (\<lambda>r. \<lparr>pl_bounds = ((- 1, - 1), (1, 1)), pl_pos = (36, 8), pl_cells = [], pl_queryId = 0\<rparr>)"

definition edge_grid :: "grid \<times> heap" where
  "edge_grid = updateObject 7 (new_grid 40 40, edge_heap)"

lemma segment_misses_the_last_column:
  "fst (intersectLineSegment (8, 8) (39, 8) edge_grid) = []" "fst (intersectCollider (Box (8, 8) (39, 8)) edge_grid) = [7]"
  by code_simp+

text \<open>An object is found by an area that meets its box.\<close>

lemma query_misses_no_object_witness:
  "7 \<in> set (fst (intersectCollider (Disc (30, 8) 6) edge_grid)) \<and> distinct (fst (intersectCollider (Disc (30, 8) 6) edge_grid))"
proof -
  have reach: "grid_reach 40 40 edge_grid"
    unfolding edge_grid_def by (intro updated start) (simp_all add: edge_heap_def)
  obtain g hp where e: "edge_grid = (g, hp)" by (cases edge_grid)
  have placed: "pl_cells (snd edge_grid 7) = cells_at (fst edge_grid) (snd edge_grid 7)" by code_simp
  have meet: "boxes_meet (box_of (snd edge_grid 7)) (toAabb (Disc (30, 8) 6))" by code_simp
  show ?thesis
    using query_misses_no_object [OF reach [unfolded e], of "Disc (30, 8) 6" 7] placed meet unfolding e by (auto split: prod.splits)
qed

end
