(* ===== verification/ObjectRegisterFacts.thy ===== *)
theory ObjectRegisterFacts
  imports ObjectRegister GameGridFacts NetObjectStreams "HOL-Library.Multiset"
begin

text \<open>The register's array, its numbers and its tables agree in every world that can be reached.\<close>

section \<open>Numbers are neither lost nor given twice\<close>

definition free_ids :: "object_register \<Rightarrow> nat multiset" where
  "free_ids g = (\<Sum>t \<in> set object_types. mset (free_list t g))"

lemma all_types [simp]: "t \<in> set object_types"
  by (cases t) (simp_all add: object_types_def)

lemma free_upd:
  assumes "or_freeLists h = (or_freeLists g)(t \<mapsto> l)"
  shows "free_ids h + mset (free_list t g) = free_ids g + mset l"
proof -
  have same: "free_list u h = (if u = t then l else free_list u g)" for u using assms by (simp add: free_list_def)
  have "free_ids h = mset l + (\<Sum>u \<in> set object_types - {t}. mset (free_list u g))"
    unfolding free_ids_def by (subst sum.remove [of _ t]) (auto simp: same intro!: sum.cong)
  moreover have "free_ids g = mset (free_list t g) + (\<Sum>u \<in> set object_types - {t}. mset (free_list u g))"
    unfolding free_ids_def by (rule sum.remove) simp_all
  ultimately show ?thesis by simp
qed

lemma free_same: "or_freeLists h = or_freeLists g \<Longrightarrow> free_ids h = free_ids g"
  by (simp add: free_ids_def free_list_def)

lemma prealloc_free:
  assumes "free_ids g = mset [1..<or_idNext g]" and "or_freeLists g t = None" and "1 \<le> or_idNext g"
  shows "free_ids (preAllocIds t n g) = mset [1..<or_idNext (preAllocIds t n g)]"
proof -
  have "free_ids (preAllocIds t n g) = free_ids g + mset [or_idNext g..<or_idNext g + n]"
    using free_upd [of "preAllocIds t n g" g t "[or_idNext g..<or_idNext g + n]"] assms(2) by (simp add: preAllocIds_def free_list_def)
  also have "\<dots> = mset ([1..<or_idNext g] @ [or_idNext g..<or_idNext g + n])" unfolding assms(1) by (simp only: mset_append)
  also have "[1..<or_idNext g] @ [or_idNext g..<or_idNext g + n] = [1..<or_idNext g + n]"
    by (rule upt_add_eq_append [OF assms(3), symmetric])
  finally show ?thesis by (simp add: preAllocIds_def)
qed

lemma prealloc_lists: "or_freeLists (preAllocIds t n g) u = (if u = t then Some [or_idNext g..<or_idNext g + n] else or_freeLists g u)"
  "or_idNext (preAllocIds t n g) = or_idNext g + n"
  by (simp_all add: preAllocIds_def)

lemma new_free: "free_ids fresh_register = mset [1..<or_idNext fresh_register]"
proof -
  let ?g = "\<lparr>or_objects = [], or_idToObj = (\<lambda>i. None), or_idToType = (\<lambda>i. 0), or_dirtyPart = (\<lambda>i. False), or_dirtyFull = (\<lambda>i. False),
      or_deletedObjs = [], or_idNext = 1, or_freeLists = (\<lambda>t. None)\<rparr>"
  have "free_ids ?g = mset [1..<or_idNext ?g]" by (simp add: free_ids_def free_list_def)
  then show ?thesis unfolding fresh_register_def comp_def by (intro prealloc_free) (simp_all add: prealloc_lists)
qed

lemma new_fields [simp]: "or_objects fresh_register = []" "or_idToObj fresh_register i = None" "or_deletedObjs fresh_register = []"
  "or_idNext fresh_register = 1025"
  by (simp_all add: fresh_register_def preAllocIds_def)

section \<open>Taking an object out of the array\<close>

definition swap_out :: "nat \<Rightarrow> 'a \<Rightarrow> 'a list \<Rightarrow> 'a list" where
  "swap_out k x xs = (if x \<noteq> last xs then (butlast xs)[k := last xs] else butlast xs)"

lemma swap_out:
  assumes "distinct xs" "k < length xs" "xs ! k = x"
  shows "mset (swap_out k x xs) = mset xs - {#x#}" "distinct (swap_out k x xs)" "set (swap_out k x xs) = set xs - {x}"
    and "j < length (swap_out k x xs) \<Longrightarrow> swap_out k x xs ! j = (if j = k then last xs else xs ! j)"
proof -
  have "xs \<noteq> []" using assms(2) by auto
  then have split: "xs = butlast xs @ [last xs]" "xs \<noteq> []" by simp_all
  have whole: "mset xs = add_mset (last xs) (mset (butlast xs))" by (subst split(1)) simp
  show removed: "mset (swap_out k x xs) = mset xs - {#x#}"
  proof (cases "x = last xs")
    case True
    then show ?thesis using whole by (simp add: swap_out_def)
  next
    case False
    then have "k < length (butlast xs)" using assms by (metis One_nat_def Suc_pred last_conv_nth length_butlast length_greater_0_conv less_Suc_eq split(2))
    moreover then have "butlast xs ! k = x" using assms(3) by (simp add: nth_butlast)
    moreover then have "x \<in># mset (butlast xs)" using calculation by (metis nth_mem_mset)
    ultimately show ?thesis using False whole by (simp add: swap_out_def mset_update)
  qed
  have again: "mset (swap_out k x xs) = mset (remove1 x xs)" by (simp add: removed)
  have "distinct (remove1 x xs)" "set (remove1 x xs) = set xs - {x}" using assms(1) by simp_all
  then show "distinct (swap_out k x xs)" "set (swap_out k x xs) = set xs - {x}"
    using again mset_eq_imp_distinct_iff mset_eq_setD by blast+
  show "j < length (swap_out k x xs) \<Longrightarrow> swap_out k x xs ! j = (if j = k then last xs else xs ! j)"
    using assms by (auto simp: swap_out_def nth_butlast nth_list_update split: if_splits)
qed

section \<open>The invariant\<close>

definition register_ok :: "world \<Rightarrow> bool" where
  "register_ok w =
     (let g = wd_register w in
      distinct (or_objects g)
      \<and> (\<forall>k < length (or_objects g). wo_arrayIdx (wd_objs w (or_objects g ! k)) = k)
      \<and> (\<forall>r \<in> set (or_objects g). 0 < obj_id w r \<and> or_idToObj g (obj_id w r) = Some r \<and> obj_type w r \<noteq> Invalid
           \<and> or_idToType g (obj_id w r) = type_code (obj_type w r))
      \<and> (\<forall>i r. or_idToObj g i = Some r \<longrightarrow> r \<in> set (or_objects g) \<and> obj_id w r = i)
      \<and> (\<forall>r. r \<notin> set (or_objects g) \<longrightarrow> obj_id w r = 0)
      \<and> mset (map (obj_id w) (or_objects g)) + free_ids g = mset [1..<or_idNext g] \<and> 1 \<le> or_idNext g \<and> or_idNext g \<le> MAX_ID)"

lemma in_array: "register_ok w \<Longrightarrow> r \<in> set (or_objects (wd_register w)) \<Longrightarrow>
    wo_arrayIdx (wd_objs w r) < length (or_objects (wd_register w)) \<and> or_objects (wd_register w) ! wo_arrayIdx (wd_objs w r) = r"
  by (auto simp: register_ok_def Let_def in_set_conv_nth)

lemma live_ids:
  assumes "register_ok w" and "r \<in> set (or_objects (wd_register w))" and "q \<in> set (or_objects (wd_register w))" and "obj_id w r = obj_id w q"
  shows "r = q"
  using assms by (metis (no_types, lifting) option.inject register_ok_def)

lemma unregister_ok:
  assumes ok: "register_ok w" and live: "r \<in> set (or_objects (wd_register w))"
  obtains v where "unregister r w = (Inr (), v)" and "register_ok v" and "set (or_objects (wd_register v)) = set (or_objects (wd_register w)) - {r}"
    and "\<And>q. q \<noteq> r \<Longrightarrow> wo_game (wd_objs v q) = wo_game (wd_objs w q)" and "\<And>q. wo_destroyed (wd_objs v q) = wo_destroyed (wd_objs w q)"
    and "or_deletedObjs (wd_register v) = or_deletedObjs (wd_register w)" and "wd_grid v = wd_grid w" and "obj_id v r = 0"
    and "or_idNext (wd_register v) = or_idNext (wd_register w)"
    and "obj_id w r \<in> set (free_list (obj_type w r) (wd_register v))"
proof -
  let ?g = "wd_register w" and ?i = "obj_id w r" and ?t = "obj_type w r" and ?k = "wo_arrayIdx (wd_objs w r)"
  let ?xs = "or_objects ?g" and ?l = "last (or_objects ?g)"
  define v where "v = snd (unregister r w)"
  have i: "0 < ?i" and array: "?k < length ?xs" "?xs ! ?k = r" using ok live in_array by (auto simp: register_ok_def Let_def)
  have nonempty: "?xs \<noteq> []" using live by auto
  then have run: "unregister r w = (Inr (), v)" using i by (simp add: v_def unregister_def Let_def)
  have dist: "distinct ?xs" using ok by (simp add: register_ok_def Let_def)
  note out = swap_out [OF dist array]
  have objects: "or_objects (wd_register v) = swap_out ?k r ?xs"
    using i nonempty by (simp add: v_def unregister_def Let_def freeId_def swap_out_def set_obj_def)
  have objs: "wo_game (wd_objs v q) = (if q = r then (wo_game (wd_objs w r))\<lparr>gob_id := 0, gob_type := Invalid\<rparr> else wo_game (wd_objs w q))"
    "wo_destroyed (wd_objs v q) = wo_destroyed (wd_objs w q)" "q \<noteq> r \<Longrightarrow> wo_arrayIdx (wd_objs v q) = (if q = ?l then ?k else wo_arrayIdx (wd_objs w q))" for q
    using i nonempty by (auto simp: v_def unregister_def Let_def set_obj_def)
  have table: "or_idToObj (wd_register v) = (or_idToObj ?g)(?i := None)" "or_idToType (wd_register v) = (or_idToType ?g)(?i := 0)"
    "or_freeLists (wd_register v) = (or_freeLists ?g)(?t \<mapsto> free_list ?t ?g @ [?i])" "or_idNext (wd_register v) = or_idNext ?g"
    "or_deletedObjs (wd_register v) = or_deletedObjs ?g" "wd_grid v = wd_grid w"
    using i nonempty by (simp_all add: v_def unregister_def Let_def freeId_def set_obj_def free_list_def)
  have ids: "obj_id v q = (if q = r then 0 else obj_id w q)" "obj_type v q = (if q = r then Invalid else obj_type w q)" for q
    by (simp_all add: obj_id_def obj_type_def objs(1))
  have others: "q \<in> set ?xs \<Longrightarrow> q \<noteq> r \<Longrightarrow> obj_id w q \<noteq> ?i" for q using live_ids [OF ok] live by metis
  have "map (obj_id v) (swap_out ?k r ?xs) = map (obj_id w) (swap_out ?k r ?xs)" using out(3) by (auto simp: ids)
  then have "mset (map (obj_id v) (swap_out ?k r ?xs)) = image_mset (obj_id w) (mset ?xs - {#r#})" by (simp only: mset_map out(1))
  also have "\<dots> = mset (map (obj_id w) ?xs) - {#?i#}" using live by (simp add: image_mset_Diff)
  finally have live_left: "mset (map (obj_id v) (swap_out ?k r ?xs)) + {#?i#} = mset (map (obj_id w) ?xs)" using live by simp
  have "free_ids (wd_register v) = free_ids ?g + {#?i#}" using free_upd [OF table(3)] by simp
  then have "mset (map (obj_id v) (swap_out ?k r ?xs)) + free_ids (wd_register v) = mset (map (obj_id w) ?xs) + free_ids ?g"
    using live_left by (simp add: ac_simps)
  then have account: "mset (map (obj_id v) (swap_out ?k r ?xs)) + free_ids (wd_register v) = mset [1..<or_idNext ?g]"
    using ok by (simp add: register_ok_def Let_def)
  have index: "wo_arrayIdx (wd_objs v (swap_out ?k r ?xs ! j)) = j" if j: "j < length (swap_out ?k r ?xs)" for j
  proof -
    have "swap_out ?k r ?xs ! j \<noteq> r" using out(3) nth_mem [OF j] by auto
    moreover have "j < length ?xs" using j by (auto simp: swap_out_def split: if_splits)
    moreover have "?xs ! j \<noteq> ?l" if "j \<noteq> ?k"
      using dist j nonempty that by (auto simp: last_conv_nth nth_eq_iff_index_eq swap_out_def split: if_splits)
    ultimately show ?thesis using ok out(4) [OF j] by (auto simp: objs(3) register_ok_def Let_def)
  qed
  have "register_ok v"
    using ok out account index others
    unfolding register_ok_def Let_def objects table(1,2,4) ids by (auto simp: i)
  then show thesis
    using that run objects out(3) objs table ids by (auto simp: free_list_def)
qed

lemma alloc_keeps:
  assumes alloc: "allocId t g = Inr (i, h)" and account: "M + free_ids g = mset [1..<or_idNext g]" and range: "1 \<le> or_idNext g" "or_idNext g \<le> MAX_ID"
  shows "M + {#i#} + free_ids h = mset [1..<or_idNext h]" and "1 \<le> or_idNext h" "or_idNext h \<le> MAX_ID" and "i \<notin># M" "0 < i"
    and "or_objects h = or_objects g" "or_idToObj h = or_idToObj g" "or_idToType h = or_idToType g" "or_deletedObjs h = or_deletedObjs g"
proof -
  have "M + {#i#} + free_ids h = mset [1..<or_idNext h] \<and> 1 \<le> or_idNext h \<and> or_idNext h \<le> MAX_ID"
  proof (cases "or_idNext g < MAX_ID")
    case True
    then have h: "i = or_idNext g" "h = g\<lparr>or_idNext := Suc (or_idNext g)\<rparr>" using alloc by (auto simp: allocId_def)
    have "free_ids h = free_ids g" by (rule free_same) (simp add: h)
    moreover have "mset [1..<or_idNext h] = mset [1..<or_idNext g] + {#i#}" using range(1) by (simp add: h upt_Suc)
    ultimately have "M + {#i#} + free_ids h = mset [1..<or_idNext h]" 
      unfolding account [symmetric] by (simp only: ac_simps)
    then show ?thesis using True range by (simp add: h)
  next
    case False
    then obtain l where l: "free_list t g = i # l" "h = g\<lparr>or_freeLists := (or_freeLists g)(t \<mapsto> l)\<rparr>" using alloc by (auto simp: allocId_def split: list.splits)
    have "free_ids h + mset (i # l) = free_ids g + mset l" using free_upd [of h g t l] by (simp add: l)
    then have "free_ids h + {#i#} = free_ids g" by simp
    then have "M + {#i#} + free_ids h = mset [1..<or_idNext g]" unfolding account [symmetric] by (simp only: ac_simps)
    then show ?thesis using range by (simp add: l(2))
  qed
  then show all: "M + {#i#} + free_ids h = mset [1..<or_idNext h]" and "1 \<le> or_idNext h" "or_idNext h \<le> MAX_ID" by blast+
  have "i \<in># mset [1..<or_idNext h]" unfolding all [symmetric] by simp
  then show "0 < i" by simp
  have "count (M + {#i#} + free_ids h) i \<le> 1" unfolding all using distinct_count_atmost_1 [of "[1..<or_idNext h]"] by simp
  then show "i \<notin># M" by (auto simp: not_in_iff)
  show "or_objects h = or_objects g" "or_idToObj h = or_idToObj g" "or_idToType h = or_idToType g" "or_deletedObjs h = or_deletedObjs g"
    using alloc by (auto simp: allocId_def split: if_splits list.splits)
qed

lemma serializer_keeps:
  "gob_id (snd (serializePartial e y)) = gob_id y" "gob_type (snd (serializePartial e y)) = gob_type y"
  "gob_id (snd (serializeFullObj e y)) = gob_id y" "gob_type (snd (serializeFullObj e y)) = gob_type y"
  "gob_id (snd (init_object e y)) = gob_id y" "gob_type (snd (init_object e y)) = gob_type y"
proof -
  show part: "gob_id (snd (serializePartial e y)) = gob_id y" "gob_type (snd (serializePartial e y)) = gob_type y" for y
    by (auto simp: serializePartial_def split: prod.splits)
  show full: "gob_id (snd (serializeFullObj e y)) = gob_id y" "gob_type (snd (serializeFullObj e y)) = gob_type y" for y
    using part [of y] by (auto simp: serializeFullObj_def split: prod.splits sum.splits)
  show "gob_id (snd (init_object e y)) = gob_id y" "gob_type (snd (init_object e y)) = gob_type y"
    by (simp_all add: init_object_def full)
qed

lemma register_keeps:
  assumes ok: "register_ok w" and new: "r \<notin> set (or_objects (wd_register w))" "obj_type w r \<noteq> Invalid"
    and run: "register_obj e r w = (Inr (), v)"
  shows "register_ok v" and "or_objects (wd_register v) = or_objects (wd_register w) @ [r]"
    and "wo_destroyed (wd_objs v q) = wo_destroyed (wd_objs w q)" and "or_deletedObjs (wd_register v) = or_deletedObjs (wd_register w)"
proof -
  let ?g = "wd_register w" and ?x = "wd_objs w r" and ?xs = "or_objects (wd_register w)"
  obtain i h where alloc: "allocId (obj_type w r) ?g = Inr (i, h)" using run by (cases "allocId (obj_type w r) ?g") (auto simp: register_obj_def Let_def)
  obtain res y where init: "init_object e ((wo_game ?x)\<lparr>gob_id := int i\<rparr>) = (res, y)" by fastforce
  have y: "gob_id y = int i" "gob_type y = obj_type w r"
    using serializer_keeps(5,6) [of e "(wo_game ?x)\<lparr>gob_id := int i\<rparr>"] by (simp_all add: init obj_type_def)
  have v: "v = (set_obj r (?x\<lparr>wo_game := y, wo_arrayIdx := length ?xs\<rparr>) w)
      \<lparr>wd_register := h\<lparr>or_objects := ?xs @ [r], or_idToObj := (or_idToObj ?g)(i := Some r), or_idToType := (or_idToType ?g)(i := type_code (obj_type w r)),
         or_dirtyPart := (or_dirtyPart h)(i := True), or_dirtyFull := (or_dirtyFull h)(i := True)\<rparr>, wd_grid := updateObject r (wd_grid w)\<rparr>"
  proof -
    have "or_objects h = ?xs" "or_idToObj h = or_idToObj ?g" "or_idToType h = or_idToType ?g"
      using alloc by (auto simp: allocId_def split: if_splits list.splits)
    then show ?thesis using run by (cases res) (auto simp: register_obj_def Let_def alloc init)
  qed
  have account: "mset (map (obj_id w) ?xs) + free_ids ?g = mset [1..<or_idNext ?g]" and range: "1 \<le> or_idNext ?g" "or_idNext ?g \<le> MAX_ID"
    using ok by (simp_all add: register_ok_def Let_def)
  note kept = alloc_keeps [OF alloc account range]
  have ids: "obj_id v q = (if q = r then i else obj_id w q)" "obj_type v q = obj_type w q" for q
    using y by (auto simp: v obj_id_def obj_type_def set_obj_def)
  have fresh: "q \<in> set ?xs \<Longrightarrow> obj_id w q \<noteq> i" for q using kept(4) by auto
  have "or_idToObj ?g i \<noteq> Some q" for q using ok fresh by (metis (no_types, lifting) register_ok_def)
  moreover have "mset (map (obj_id v) (?xs @ [r])) + free_ids (wd_register v) = mset [1..<or_idNext (wd_register v)]"
  proof -
    have "map (obj_id v) ?xs = map (obj_id w) ?xs" using new(1) by (auto simp: ids)
    then have "mset (map (obj_id v) (?xs @ [r])) = mset (map (obj_id w) ?xs) + {#i#}" by (simp only: map_append mset_append) (simp add: ids)
    moreover have "free_ids (wd_register v) = free_ids h" by (rule free_same) (simp add: v set_obj_def)
    moreover have "or_idNext (wd_register v) = or_idNext h" by (simp add: v set_obj_def)
    ultimately show ?thesis using kept(1) by simp
  qed
  moreover have "wo_arrayIdx (wd_objs v ((?xs @ [r]) ! k)) = k" if "k < length (?xs @ [r])" for k
  proof (cases "k < length ?xs")
    case True
    then have "?xs ! k \<noteq> r" using new(1) by auto
    then show ?thesis using True ok by (simp add: v set_obj_def nth_append register_ok_def Let_def)
  next
    case False
    then have "k = length ?xs" using that by simp
    then show ?thesis by (simp add: v set_obj_def)
  qed
  moreover have "or_idNext (wd_register v) = or_idNext h" "or_objects (wd_register v) = ?xs @ [r]" "or_idToObj (wd_register v) = (or_idToObj ?g)(i := Some r)"
    "or_idToType (wd_register v) = (or_idToType ?g)(i := type_code (obj_type w r))"
    by (simp_all add: v set_obj_def)
  ultimately show "register_ok v"
    using ok new kept(2,3,5) fresh unfolding register_ok_def Let_def ids by (auto split: if_splits)
  show "or_objects (wd_register v) = ?xs @ [r]" "or_deletedObjs (wd_register v) = or_deletedObjs ?g"
    using kept(9) by (simp_all add: v set_obj_def)
  show "wo_destroyed (wd_objs v q) = wo_destroyed (wd_objs w q)" by (simp add: v set_obj_def)
qed

text \<open>What does not touch the register's own fields keeps the invariant.\<close>

lemma register_ok_cong:
  assumes "register_ok w" and "or_objects (wd_register v) = or_objects (wd_register w)" "or_idToObj (wd_register v) = or_idToObj (wd_register w)"
    and "or_idToType (wd_register v) = or_idToType (wd_register w)" "or_idNext (wd_register v) = or_idNext (wd_register w)"
    and "or_freeLists (wd_register v) = or_freeLists (wd_register w)" and "obj_id v = obj_id w" "obj_type v = obj_type w"
    and "\<And>q. wo_arrayIdx (wd_objs v q) = wo_arrayIdx (wd_objs w q)"
  shows "register_ok v"
  using assms(1) free_same [OF assms(6)] by (simp add: register_ok_def Let_def assms(2-9))

section \<open>Reachable worlds\<close>

definition doomed :: "world \<Rightarrow> nat set" where
  "doomed w = {r \<in> set (or_objects (wd_register w)). wo_destroyed (wd_objs w r)}"

definition world_ok :: "world \<Rightarrow> bool" where
  "world_ok w = (register_ok w \<and> distinct (or_deletedObjs (wd_register w)) \<and> set (or_deletedObjs (wd_register w)) = doomed w)"

text \<open>
  Objects are made with a type and without a number, registered, changed in what the register does not look at, marked, sent
  and destroyed; a tick ends with a flush.  An object that is sent may fail to serialize.
\<close>

inductive world_reach :: "net_env \<Rightarrow> world \<Rightarrow> bool" for e where
  start: "(\<And>r. obj_id w r = 0) \<Longrightarrow> wd_register w = fresh_register \<Longrightarrow> world_reach e w"
| made: "world_reach e w \<Longrightarrow> r \<notin> set (or_objects (wd_register w)) \<Longrightarrow> gob_id (wo_game x) = 0 \<Longrightarrow> world_reach e (set_obj r x w)"
| registered: "world_reach e w \<Longrightarrow> r \<notin> set (or_objects (wd_register w)) \<Longrightarrow> obj_type w r \<noteq> Invalid \<Longrightarrow> \<not> wo_destroyed (wd_objs w r) \<Longrightarrow>
    register_obj e r w = (Inr (), v) \<Longrightarrow> world_reach e v"
| changed: "world_reach e w \<Longrightarrow> gob_id y = gob_id (wo_game (wd_objs w r)) \<Longrightarrow> gob_type y = gob_type (wo_game (wd_objs w r)) \<Longrightarrow>
    world_reach e (set_obj r ((wd_objs w r)\<lparr>wo_game := y\<rparr>) w\<lparr>wd_grid := s\<rparr>)"
| dirty: "world_reach e w \<Longrightarrow> world_reach e (setDirty r w)"
| part_dirty: "world_reach e w \<Longrightarrow> world_reach e (setPartDirty r w)"
| sent: "world_reach e w \<Longrightarrow> world_reach e (snd (serializeObjs e w))"
| destroyed: "world_reach e w \<Longrightarrow> r \<in> set (or_objects (wd_register w)) \<Longrightarrow> world_reach e (destroy r w)"
| flushed: "world_reach e w \<Longrightarrow> world_reach e (snd (flush_objects w))"

lemma retouched_ok:
  assumes "world_ok w" and "gob_id y = gob_id (wo_game (wd_objs w r))" and "gob_type y = gob_type (wo_game (wd_objs w r))"
  shows "world_ok (set_obj r ((wd_objs w r)\<lparr>wo_game := y\<rparr>) w)"
proof -
  let ?v = "set_obj r ((wd_objs w r)\<lparr>wo_game := y\<rparr>) w"
  have "obj_id ?v = obj_id w" "obj_type ?v = obj_type w"
    by (rule ext, simp add: obj_id_def obj_type_def set_obj_def assms(2,3))+
  moreover have parts: "wd_register ?v = wd_register w" "wo_arrayIdx (wd_objs ?v q) = wo_arrayIdx (wd_objs w q)" "wo_destroyed (wd_objs ?v q) = wo_destroyed (wd_objs w q)" for q
    by (simp_all add: set_obj_def)
  ultimately have "register_ok ?v" using assms(1) by - (rule register_ok_cong [of w], simp_all add: world_ok_def)
  then show ?thesis using assms(1) by (simp add: world_ok_def doomed_def parts)
qed

lemma moved_ok: "world_ok (w\<lparr>wd_grid := s\<rparr>) = world_ok w"
proof -
  have "obj_id (w\<lparr>wd_grid := s\<rparr>) = obj_id w" "obj_type (w\<lparr>wd_grid := s\<rparr>) = obj_type w"
    by (rule ext, simp add: obj_id_def obj_type_def)+
  then show ?thesis by (simp add: world_ok_def register_ok_def Let_def doomed_def)
qed

lemma serialize_each_keeps:
  "world_ok w \<Longrightarrow> world_ok (snd (serialize_each e rs w))"
proof (induction rs arbitrary: w)
  case (Cons r rs)
  have "world_ok (snd (serialize_obj e r w))"
  proof -
    have full: "serializeFullObj e (wo_game (wd_objs w r)) = (res, y) \<Longrightarrow> world_ok (set_obj r ((wd_objs w r)\<lparr>wo_game := y\<rparr>) w)"
      and part: "serializePartial e (wo_game (wd_objs w r)) = (res, y) \<Longrightarrow> world_ok (set_obj r ((wd_objs w r)\<lparr>wo_game := y\<rparr>) w)" for res y
      using retouched_ok [OF Cons.prems, of y r] serializer_keeps(1-4) [of e "wo_game (wd_objs w r)"] by simp_all
    show ?thesis using Cons.prems full part by (auto simp: serialize_obj_def Let_def split: prod.splits)
  qed
  then show ?case using Cons.IH Cons.prems by (auto split: prod.splits sum.splits)
qed simp

lemma unregister_each_keeps:
  assumes "register_ok w" and "distinct rs" and "set rs \<subseteq> set (or_objects (wd_register w))"
  shows "\<exists>v. unregister_each rs w = (Inr (), v) \<and> register_ok v \<and> set (or_objects (wd_register v)) = set (or_objects (wd_register w)) - set rs
    \<and> (\<forall>q. wo_destroyed (wd_objs v q) = wo_destroyed (wd_objs w q)) \<and> (\<forall>q. q \<notin> set rs \<longrightarrow> obj_id v q = obj_id w q)"
  using assms
proof (induction rs arbitrary: w)
  case (Cons r rs)
  obtain v where v: "unregister r w = (Inr (), v)" "register_ok v" "set (or_objects (wd_register v)) = set (or_objects (wd_register w)) - {r}"
    "\<And>q. q \<noteq> r \<Longrightarrow> wo_game (wd_objs v q) = wo_game (wd_objs w q)" "\<And>q. wo_destroyed (wd_objs v q) = wo_destroyed (wd_objs w q)"
  proof (rule unregister_ok [OF Cons.prems(1)])
    show "r \<in> set (or_objects (wd_register w))" using Cons.prems(3) by simp
  qed (rule that)
  have "set rs \<subseteq> set (or_objects (wd_register v))" using Cons.prems(2,3) v(3) by auto
  then obtain u where u: "unregister_each rs v = (Inr (), u)" "register_ok u" "set (or_objects (wd_register u)) = set (or_objects (wd_register v)) - set rs"
    "\<forall>q. wo_destroyed (wd_objs u q) = wo_destroyed (wd_objs v q)" "\<forall>q. q \<notin> set rs \<longrightarrow> obj_id u q = obj_id v q"
    using Cons.IH [OF v(2)] Cons.prems(2) by auto
  have "obj_id u q = obj_id w q" if "q \<notin> set (r # rs)" for q using that u(5) v(4) [of q] by (simp add: obj_id_def)
  then show ?case using u v by (auto simp: v(1))
qed simp

lemma flushed_world:
  assumes "world_ok w"
  shows "\<exists>v. flush_objects w = (Inr (), v) \<and> world_ok v \<and> set (or_objects (wd_register v)) = set (or_objects (wd_register w)) - doomed w
    \<and> (\<forall>q. q \<notin> doomed w \<longrightarrow> obj_id v q = obj_id w q)"
proof -
  have dead: "register_ok w" "distinct (or_deletedObjs (wd_register w))" "set (or_deletedObjs (wd_register w)) = doomed w"
    using assms by (simp_all add: world_ok_def)
  moreover have "doomed w \<subseteq> set (or_objects (wd_register w))" by (auto simp: doomed_def)
  ultimately obtain v where v: "unregister_each (or_deletedObjs (wd_register w)) w = (Inr (), v)" "register_ok v"
    "set (or_objects (wd_register v)) = set (or_objects (wd_register w)) - doomed w" "\<forall>q. wo_destroyed (wd_objs v q) = wo_destroyed (wd_objs w q)"
    "\<forall>q. q \<notin> doomed w \<longrightarrow> obj_id v q = obj_id w q"
    using unregister_each_keeps [OF dead(1,2)] by auto
  let ?u = "v\<lparr>wd_register := (wd_register v)\<lparr>or_deletedObjs := [], or_dirtyFull := (\<lambda>i. False), or_dirtyPart := (\<lambda>i. False)\<rparr>\<rparr>"
  have same: "obj_id ?u = obj_id v" "obj_type ?u = obj_type v" by (simp_all add: obj_id_def obj_type_def fun_eq_iff)
  have "register_ok ?u" using v(2) by (rule register_ok_cong) (simp_all add: same)
  moreover have "doomed ?u = {}" using v(3,4) by (auto simp: doomed_def)
  ultimately show ?thesis using v by (simp add: flush_objects_def world_ok_def same)
qed

lemma reach_world_ok: "world_reach e w \<Longrightarrow> world_ok w"
proof (induction rule: world_reach.induct)
  case (start w)
  have "free_ids fresh_register = mset [1..<1025]" using new_free by simp
  then show ?case using start by (simp add: world_ok_def register_ok_def Let_def doomed_def MAX_ID_def)
next
  case (made w r x)
  have "obj_id w r = 0" using made by (simp add: world_ok_def register_ok_def Let_def)
  then have ids: "obj_id (set_obj r x w) = obj_id w" using made(3) by (auto simp: obj_id_def set_obj_def fun_eq_iff)
  have same: "q \<in> set (or_objects (wd_register w)) \<Longrightarrow> wd_objs (set_obj r x w) q = wd_objs w q"
    "q \<in> set (or_objects (wd_register w)) \<Longrightarrow> obj_type (set_obj r x w) q = obj_type w q" for q
    using made(2) by (auto simp: set_obj_def obj_type_def)
  have register: "wd_register (set_obj r x w) = wd_register w" by (simp add: set_obj_def)
  have "register_ok (set_obj r x w)"
    using made(4) same nth_mem unfolding world_ok_def register_ok_def Let_def register ids by (auto simp: same)
  moreover have "doomed (set_obj r x w) = doomed w" by (auto simp: doomed_def register same)
  ultimately show ?case using made(4) by (simp add: world_ok_def register)
next
  case (registered w r v)
  have ok: "register_ok w" using registered(6) by (simp add: world_ok_def)
  note kept = register_keeps [OF ok registered(2,3,5)]
  have "doomed v = doomed w" using registered(4) kept(2,3) by (auto simp: doomed_def)
  then show ?case using registered(6) kept(1,4) by (simp add: world_ok_def)
next
  case (changed w y r s)
  show ?case unfolding moved_ok by (rule retouched_ok [OF changed(4,2,3)])
next
  case (dirty w r)
  have "register_ok (setDirty r w)" using dirty by - (rule register_ok_cong [of w], auto simp: world_ok_def setDirty_def obj_id_def obj_type_def fun_eq_iff)
  then show ?case using dirty by (simp add: world_ok_def doomed_def setDirty_def)
next
  case (part_dirty w r)
  have "register_ok (setPartDirty r w)" using part_dirty by - (rule register_ok_cong [of w], auto simp: world_ok_def setPartDirty_def obj_id_def obj_type_def fun_eq_iff)
  then show ?case using part_dirty by (simp add: world_ok_def doomed_def setPartDirty_def)
next
  case (sent w)
  then show ?case by (simp add: serializeObjs_def serialize_each_keeps)
next
  case (destroyed w r)
  have "register_ok (destroy r w)"
    using destroyed by - (rule register_ok_cong [of w], auto simp: world_ok_def destroy_def Let_def set_obj_def obj_id_def obj_type_def fun_eq_iff)
  moreover have "doomed (destroy r w) = insert r (doomed w)"
    using destroyed(2) by (auto simp: doomed_def destroy_def Let_def set_obj_def)
  ultimately show ?case using destroyed by (auto simp: world_ok_def destroy_def Let_def set_obj_def doomed_def)
next
  case (flushed w)
  then show ?case using flushed_world [of w] by auto
qed

text \<open>C39: Objects keep their numbers apart.  In every reachable world the numbers of the registered objects and those on the
  free lists are exactly those given out so far, each once; a number finds an object exactly when that registered object
  has it; every registered object is in the array at its index.  The flush at the end of a tick never fails: it unregisters
  the objects that were destroyed and no other one, and all others keep their numbers.\<close>

theorem object_numbers_are_kept_apart:
  assumes "world_reach e w"
  shows "mset (map (obj_id w) (or_objects (wd_register w))) + free_ids (wd_register w) = mset [1..<or_idNext (wd_register w)]
    \<and> or_idNext (wd_register w) \<le> 65535
    \<and> (\<forall>i r. getById i (wd_register w) = Some r \<longleftrightarrow> r \<in> set (or_objects (wd_register w)) \<and> obj_id w r = i)
    \<and> (\<forall>k < length (or_objects (wd_register w)). wo_arrayIdx (wd_objs w (or_objects (wd_register w) ! k)) = k)
    \<and> (\<exists>v. flush_objects w = (Inr (), v) \<and> set (or_objects (wd_register v)) = {r \<in> set (or_objects (wd_register w)). \<not> wo_destroyed (wd_objs w r)}
        \<and> (\<forall>r \<in> set (or_objects (wd_register v)). obj_id v r = obj_id w r))"
proof -
  have ok: "world_ok w" by (rule reach_world_ok [OF assms])
  then have reg: "register_ok w" by (simp add: world_ok_def)
  have "set (or_objects (wd_register w)) - doomed w = {r \<in> set (or_objects (wd_register w)). \<not> wo_destroyed (wd_objs w r)}"
    by (auto simp: doomed_def)
  then have "\<exists>v. flush_objects w = (Inr (), v) \<and> set (or_objects (wd_register v)) = {r \<in> set (or_objects (wd_register w)). \<not> wo_destroyed (wd_objs w r)}
        \<and> (\<forall>r \<in> set (or_objects (wd_register v)). obj_id v r = obj_id w r)"
    using flushed_world [OF ok] by (auto simp: doomed_def)
  moreover have "\<forall>i r. getById i (wd_register w) = Some r \<longleftrightarrow> r \<in> set (or_objects (wd_register w)) \<and> obj_id w r = i"
    using reg by (auto simp: register_ok_def Let_def getById_def)
  ultimately show ?thesis using reg by (simp add: register_ok_def Let_def MAX_ID_def)
qed

section \<open>An example\<close>

definition first_world :: world where
  "first_world = \<lparr>wd_register = fresh_register, wd_grid = (new_grid 100 100, edge_heap),
     wd_objs = (\<lambda>r. \<lparr>wo_game = (sample_drop 0)\<lparr>gob_id := 0\<rparr>, wo_arrayIdx = 0, wo_destroyed = False\<rparr>)\<rparr>"

lemma first_registers: "\<exists>v. register_obj sample_env 0 first_world = (Inr (), v) \<and> getById 1025 (wd_register v) = Some 0"
proof -
  let ?g = "(sample_drop 0)\<lparr>gob_id := 1025\<rparr>"
  let ?h = "?g\<lparr>gob_initialized := True, gob_partialStream := new_bitstream (replicate (3 + serializedPartialSize (gob_type ?g)) 0),
     gob_fullStream := new_bitstream (replicate (serializedFullSize (gob_type ?g)) 0)\<rparr>"
  have "valid_object sample_env ?h"
    by (simp add: valid_object_def sample_drop_def in_range_def on_map_def vec_in_def MaxPosition_def)
  moreover have "buffers ?h" by (simp add: buffers_def new_bitstream_def)
  ultimately obtain y where "serializeFullObj sample_env ?h = (Inr (), y)" by (rule serializeFull_ok) simp_all
  then have "init_object sample_env ?g = (Inr (), y)" by (simp add: init_object_def)
  moreover have "allocId (obj_type first_world 0) fresh_register = Inr (1025, fresh_register\<lparr>or_idNext := 1026\<rparr>)"
    by (simp add: allocId_def MAX_ID_def)
  ultimately show ?thesis by (simp add: register_obj_def Let_def first_world_def getById_def set_obj_def)
qed

text \<open>The airdrop gets the first number that is not set aside, and is gone after it was destroyed.\<close>

lemma object_numbers_are_kept_apart_witness:
  "\<exists>w. or_objects (wd_register w) = [0] \<and> obj_id w 0 = 1025 \<and> getById 1025 (wd_register w) = Some 0
    \<and> (\<exists>v. flush_objects (destroy 0 w) = (Inr (), v) \<and> set (or_objects (wd_register v)) = {})"
proof -
  have start: "world_reach sample_env first_world" by (rule start) (simp_all add: first_world_def obj_id_def)
  obtain w where w: "register_obj sample_env 0 first_world = (Inr (), w)" and table: "getById 1025 (wd_register w) = Some 0"
    using first_registers by blast
  have new: "0 \<notin> set (or_objects (wd_register first_world))" "obj_type first_world 0 \<noteq> Invalid" "\<not> wo_destroyed (wd_objs first_world 0)"
    by (simp_all add: first_world_def obj_type_def sample_drop_def)
  have reach: "world_reach sample_env w" by (rule registered [OF start new w])
  have "register_ok first_world" using reach_world_ok [OF start] by (simp add: world_ok_def)
  then have one: "or_objects (wd_register w) = [0]" using register_keeps(2) [OF _ new(1,2) w] by (simp add: first_world_def)
  have number: "obj_id w 0 = 1025" using object_numbers_are_kept_apart [OF reach] table by blast
  have gone: "world_reach sample_env (destroy 0 w)" by (rule destroyed [OF reach]) (simp add: one)
  have "\<forall>r \<in> set (or_objects (wd_register (destroy 0 w))). wo_destroyed (wd_objs (destroy 0 w) r)"
    by (simp add: destroy_def Let_def set_obj_def one)
  then have "{r \<in> set (or_objects (wd_register (destroy 0 w))). \<not> wo_destroyed (wd_objs (destroy 0 w) r)} = {}" by blast
  then have "\<exists>v. flush_objects (destroy 0 w) = (Inr (), v) \<and> set (or_objects (wd_register v)) = {}"
    using object_numbers_are_kept_apart [OF gone] by metis
  then show ?thesis using one table number by blast
qed

end
