(* ===== verification/Spec2Isabelle.thy ===== *)
theory Spec2Isabelle
  imports Outbox ReleaseControl HandoffSafety DriverSafety MsgStreamFacts GatewayIdentity GatewayRoomExamples RoomFleetFacts Matchmaker CandidateExamples SnapshotWriterFacts ObjectRegisterFacts
begin

text \<open>
  A verification library for the demo game: a browser game (\<open>upstream-survev\<close>) whose rooms run in Kubernetes and are
  replaced under play, and the services that operate them (\<open>services\<close>).

  \<^bold>\<open>The program.\<close>  A browser talks to the session gateway, which keeps the player's socket open and forwards its
  inputs to the room that currently serves it.  A room is a game server that writes snapshots of its state and a journal
  of deltas.  The room orchestrator keeps a registry of rooms in step with Kubernetes, validates a new revision on an
  isolated canary, seals that evidence, and hands every room over to a new Pod: the coordinator asks the Kubernetes
  driver to schedule a candidate, freeze the room, seed the candidate from snapshot and journal, transfer authority
  under a fencing epoch, cut the gateway over, verify, and drain the old Pod, or to roll all of it back.  Every step is
  published as an operation event.  The API server's matchmaker admits players to the rooms of the registry.

  \<^bold>\<open>The theories and the code they model.\<close>  Below \<open>ro\<close> is \<open>services/room-orchestrator/src\<close>, \<open>op\<close> is
  \<open>upstream-survev/server/src/opsia\<close> and \<open>sh\<close> is \<open>upstream-survev/shared\<close>.
  \<^item> \<open>Prelude\<close>, \<open>Effects\<close>: JavaScript numbers (rationals, infinities, NaN), values, insertion-ordered objects and maps,
    decimal texts, the character classes of the regular expressions; computations that carry a state and may throw, with
    their weakest preconditions.
  \<^item> \<open>OpEvents\<close>, \<open>Publisher\<close>, \<open>Outbox\<close> (\<open>ro/events.ts\<close>): events and cursor queries, the projection to the Opsia format,
    the transports and the publisher, the relay with its backlog and its retries.  The publisher's interface to a
    transport is a locale; its runs subscribe, unsubscribe and publish over any transport that keeps it.
  \<^item> \<open>ReleaseControl\<close> (\<open>ro/release-control.ts\<close>): the gate that admits one release operation at a time and the sealed
    approval read off the event ledger.
  \<^item> \<open>Handoff\<close>, \<open>HandoffSafety\<close> (\<open>ro/handoff.ts\<close>): the coordinator over an arbitrary driver, and what it guarantees
    whatever fails.  \<open>DriverNet\<close>, \<open>HandoffDriver\<close>, \<open>HandoffCutover\<close>, \<open>DriverSafety\<close> (\<open>ro/handoff-driver.ts\<close>): the driver
    for Kubernetes over an arbitrary network, and what its log of requests and replies guarantees.
  \<^item> \<open>RoomRegistry\<close> (\<open>ro/registry.ts\<close>, \<open>services/room-profiles.ts\<close>), \<open>RoomFleet\<close>, \<open>RoomFleetFacts\<close> (\<open>ro/scaler.ts\<close>,
    \<open>ro/main.ts\<close>): the registry as a locale with the memory registry as its provider, the reconciler, the workloads
    read from Kubernetes and the room commands.  \<open>Matchmaker\<close> (\<open>services/api-server/src/matchmaker.ts\<close>).
  \<^item> \<open>BitView\<close>, \<open>BitStream\<close> (\<open>sh/lib/bitBuffer.ts\<close>), \<open>NetStream\<close>, \<open>MsgStream\<close> (\<open>sh/net/net.ts\<close>, \<open>sh/defs/register.ts\<close>),
    \<open>NetMessages\<close>, \<open>NetMap\<close>, \<open>NetUpdate\<close> (\<open>sh/net/*Msg.ts\<close>), \<open>NetObjects\<close> (\<open>sh/net/objectSerializeFns.ts\<close>): the wire
    format of the game, bit by bit; \<open>NetStreamFacts\<close>, \<open>BitFrames\<close>, \<open>NetMessageFacts\<close>, \<open>NetObjectFacts\<close>,
    \<open>NetObjectStreams\<close>, \<open>NetUpdateFacts\<close>, \<open>MsgStreamFacts\<close>: a codec is a locale (what is written is read back, and
    nothing beside it is touched), every message is an interpretation of it, and the streams follow.
  \<^item> \<open>GameGrid\<close>, \<open>GameGridFacts\<close> (\<open>upstream-survev/server/src/game/grid.ts\<close>), \<open>ObjectRegister\<close>, \<open>ObjectRegisterFacts\<close>
    (\<open>game/objects/gameObject.ts\<close> beside it): the grid that finds objects by place and the register that numbers and sends
    them, as transition systems over a heap of objects, on top of the serializers of \<open>NetObjects\<close>.
  \<^item> \<open>GatewayWire\<close> (\<open>op/gatewayWire.ts\<close>), \<open>GatewayIdentity\<close>, \<open>GatewayBuffer\<close>, \<open>GatewayRoutes\<close>, \<open>GatewayJoin\<close>
    (\<open>op/sessionGatewayProtocol.ts\<close>), \<open>GatewaySession\<close>, \<open>GatewayRooms\<close>, \<open>GatewayRoomCutover\<close> (\<open>op/sessionGateway.ts\<close>):
    the gateway's frames, tables, sessions and room operations; \<open>GatewaySessionFacts\<close>, \<open>GatewayReplay\<close>, \<open>GatewayCutovers\<close>,
    \<open>GatewayRoomFacts\<close>, \<open>GatewayRoomTables\<close>, \<open>GatewayRoomExamples\<close>: the sessions and the gateway as transition systems.
    \<open>session_step\<close> has every event of a session but the commit of a stopped one to a candidate that answered late;
    \<open>patient_step\<close> leaves out two more that the code allows (aborting a freeze while the current upstream is connecting,
    committing a candidate that has not answered), and only the property on unsent inputs is restricted to it.
  \<^item> \<open>SnapshotJson\<close>, \<open>SnapshotEnvelope\<close> (\<open>op/snapshot.ts\<close>): the texts of a snapshot that are hashed and the envelopes that
    carry them; \<open>SnapshotWriter\<close>, \<open>SnapshotWriterFacts\<close>: the bounded writer as a transition system, cut at its awaits.
    \<open>SnapshotDelta\<close>, \<open>SnapshotRebuild\<close> (\<open>op/candidate.ts\<close>): the operations between two snapshots, that
    they rebuild the second one up to the order of properties, and what that order is.  An object is the list of its
    properties in the order of insertion; what depends on it excludes names that JavaScript would list first.  \<open>RoomJournal\<close>, \<open>RoomJournalFacts\<close> (\<open>op/journal.ts\<close>): the
    journal of a room over any record stream, a locale with the journal in memory as its provider.  \<open>CandidateSeed\<close>,
    \<open>CandidateExamples\<close> (\<open>op/candidate.ts\<close>): the loader of a candidate's state, on top of them all.

  \<^bold>\<open>State and operations.\<close>  A class is a record of its fields and its methods are functions on it; a method that awaits
  is either a computation in \<open>Effects\<close> over parameters for what it calls, or cut at its awaits into the parts that run
  without interruption, which a step relation then interleaves with everything else.  Errors are values: the thrown
  message, with the state as the exception leaves it.

  \<^bold>\<open>Conventions.\<close>  Numbers are rationals with infinities and NaN; integer checks and comparisons below \<open>2 ^ 53\<close> are
  exact, rounding of doubles is modelled only where the code quantizes.  Words and shifts are 32 bits wide where
  JavaScript's operators are.  HTTP, Kubernetes, Redis, sockets, clocks, timers, UUIDs, HMAC, SHA-256, URL parsing and
  the text of a fraction are parameters; request bodies are taken after their conversion.  Polling loops of the driver
  have a step budget, and their lemmas show that a budget of one turn per poll interval up to the deadline is enough;
  the receive loop of the client runs at most one turn per byte and one more.

  \<^bold>\<open>Not modelled.\<close>  The simulation of the game itself (players, bullets, gas, map generation, loot), rendering, UI and
  audio of the client, the definition tables, which are data, the bots' steering, the web console, the database and
  account API, editors and build scripts; of the services, the HTTP servers around the operations, log lines and
  metrics texts, the Redis clients, and the collection of canary evidence.  They are listed with their reasons among the
  components of the manifest.
\<close>

end
